(* ===== verification/Prelude.thy ===== *)
theory Prelude
  imports Main
begin

text \<open>
  Shared material of the development: the collections of rewrite rules that the component
  theories extend, and generic lemmas on lists, maps and transitive closures.

  Go's \<open>int\<close>, \<open>int32\<close> and \<open>int64\<close> values that are only names (nodes, registers, labels) or
  offsets within one stack frame are mathematical integers here; truncating division is written
  out where the sources divide.
\<close>

named_theorems wf_simps \<open>definitions of well-formedness predicates\<close>
named_theorems sem_simps \<open>equations of the semantic functions of the intermediate languages\<close>
named_theorems layout_simps \<open>definitions of the stack frame layout\<close>

section \<open>Go integers\<close>

type_synonym int32 = int
type_synonym int64 = int

text \<open>Division of Go's integers truncates towards zero.\<close>

definition go_div :: "int \<Rightarrow> int \<Rightarrow> int" where
  "go_div a b = sgn a * sgn b * (\<bar>a\<bar> div \<bar>b\<bar>)"

definition go_rem :: "int \<Rightarrow> int \<Rightarrow> int" where
  "go_rem a b = a - go_div a b * b"

lemma go_div_nonneg [simp]: "0 \<le> a \<Longrightarrow> 0 < b \<Longrightarrow> go_div a b = a div b"
  by (cases "a = 0") (auto simp: go_div_def sgn_if)

lemma go_rem_nonneg [simp]: "0 \<le> a \<Longrightarrow> 0 < b \<Longrightarrow> go_rem a b = a mod b"
  by (simp add: go_rem_def minus_div_mult_eq_mod)

section \<open>Lists and maps\<close>

lemma list_last_cases:
  obtains (Nil) "xs = []" | (snoc) ys y where "xs = ys @ [y]"
  by (cases xs rule: rev_cases) auto

lemma map_restrict_dom_finite [simp]: "finite (dom m) \<Longrightarrow> finite (dom (m(k \<mapsto> v)))"
  by simp

text \<open>
  A function from a finite set onto a set of at least the same size is a bijection: the
  pigeonhole argument behind every cycle of a register permutation.
\<close>

lemma image_superset_eq:
  assumes "finite P" and "B \<subseteq> f ` P" and "card B = card P"
  shows "f ` P = B"
proof -
  have "card (f ` P) \<le> card B"
    using assms(1,3) card_image_le by metis
  then show ?thesis
    using assms(1,2) by (metis card_seteq finite_imageI)
qed

lemma map_of_zip_upt:
  "distinct xs \<Longrightarrow> i < length xs \<Longrightarrow> length ys = length xs \<Longrightarrow> map_of (zip xs ys) (xs ! i) = Some (ys ! i)"
  by (simp add: map_of_zip_nth)

section \<open>Transitive closures\<close>

lemma tranclp_into_rtranclp_trans: "r\<^sup>+\<^sup>+ a b \<Longrightarrow> r\<^sup>*\<^sup>* b c \<Longrightarrow> r\<^sup>+\<^sup>+ a c"
  by (rule tranclp_rtranclp_tranclp)

end
