(* ===== verification/Ops.thy ===== *)
theory Ops
  imports Prelude
begin

text \<open>
  The vocabulary all back-end languages share (\<open>pkg/rtl/ast.go\<close>, with the parts it re-exports
  from \<open>pkg/cminorsel/ast.go\<close> and \<open>pkg/cminor/ast.go\<close>): memory chunks, addressing modes,
  signatures, machine operations and condition codes. Floating-point constants are carried as
  IEEE bit patterns.
\<close>

type_synonym float64 = int
type_synonym float32 = int

datatype chunk =
    Mint8signed | Mint8unsigned | Mint16signed | Mint16unsigned
  | Mint32 | Mint64 | Mfloat32 | Mfloat64 | Many32 | Many64

datatype extendOp = Xsgn32 | Xuns32

datatype addressingMode =
    Aindexed int64
  | Aindexed2
  | Aindexed2shift int
  | Aindexed2ext extendOp int
  | Aglobal string int64
  | Ainstack int64

record sig =
  sig_args :: "string list"
  sig_return :: string
  sig_vararg :: bool

datatype condition = Ceq | Cne | Clt | Cle | Cgt | Cge

text \<open>\<open>Condition.Negate\<close>.\<close>

fun Negate :: "condition \<Rightarrow> condition" where
  "Negate Ceq = Cne"
| "Negate Cne = Ceq"
| "Negate Clt = Cge"
| "Negate Cle = Cgt"
| "Negate Cgt = Cle"
| "Negate Cge = Clt"

text \<open>
  The operations, in the groups in which \<open>pkg/rtl/ast.go\<close> lists them. Each Go structure type is
  a constructor; a group is injected into \<open>operation\<close> by one constructor per group.
\<close>

datatype arithOp =
    Oadd | Oaddimm int32 | Oneg | Osub | Omul | Omulimm int32 | Omulhs | Omulhu
  | Odiv | Odivu | Omod | Omodu

datatype bitOp =
    Oand | Oandimm int32 | Oor | Oorimm int32 | Oxor | Oxorimm int32 | Onot
  | Oshl | Oshlimm int32 | Oshr | Oshrimm int32 | Oshru | Oshruimm int32

datatype longOp =
    Oaddl | Oaddlimm int64 | Onegl | Osubl | Omull | Omullimm int64 | Omullhs | Omullhu
  | Odivl | Odivlu | Omodl | Omodlu
  | Oandl | Oandlimm int64 | Oorl | Oorlimm int64 | Oxorl | Oxorlimm int64 | Onotl
  | Oshll | Oshllimm int32 | Oshrl | Oshrlimm int32 | Oshrlu | Oshrluimm int32

datatype convOp =
    Ocast8signed | Ocast8unsigned | Ocast16signed | Ocast16unsigned
  | Olongofint | Olongofintu | Ointoflong

datatype floatOp =
    Onegf | Oabsf | Oaddf | Osubf | Omulf | Odivf
  | Onegs | Oabss | Oadds | Osubs | Omuls | Odivs

datatype floatConvOp =
    Osingleoffloat | Ofloatofsingle | Ointoffloat | Ointuoffloat | Ofloatofint | Ofloatofintu
  | Olongoffloat | Olonguoffloat | Ofloatoflong | Ofloatoflongu

datatype cmpOp =
    Ocmp condition | Ocmpu condition | Ocmpf condition | Ocmps condition
  | Ocmpl condition | Ocmplu condition
  | Ocmpimm condition int32 | Ocmpuimm condition int32
  | Ocmplimm condition int64 | Ocmpluimm condition int64

datatype operation =
    Omove
  | Ointconst int32
  | Olongconst int64
  | Ofloatconst float64
  | Osingleconst float32
  | Oaddrsymbol string int64
  | Oaddrstack int64
  | Oarith arithOp
  | Obit bitOp
  | Olong longOp
  | Oconv convOp
  | Ofloat floatOp
  | Ofconv floatConvOp
  | Ocompare cmpOp

datatype conditionCode =
    Ccomp condition
  | Ccompu condition
  | Ccompimm condition int32
  | Ccompuimm condition int32
  | Ccompl condition
  | Ccomplu condition
  | Ccomplimm condition int64
  | Ccompluimm condition int64
  | Ccompf condition
  | Cnotcompf condition
  | Ccomps condition
  | Cnotcomps condition

text \<open>A function reference: a pointer held in \<open>'r\<close> (a register or a location) or a symbol.\<close>

datatype 'r funRef = FunReg 'r | FunSymbol string

text \<open>A global variable; the four back-end languages declare the same structure.\<close>

record globVar =
  gv_name :: string
  gv_size :: int64
  gv_init :: "nat list"
  gv_readOnly :: bool

section \<open>Meaning of the operations\<close>

text \<open>
  The sources give the operations no semantics: their meaning is that of the target processor, of
  the memory and of the called functions. A record of type \<open>('v, 'm) sem\<close> collects these; every
  semantic statement below holds for all such records. Only the move is fixed: it copies.
  \<open>sem_arity\<close> says how many arguments a callee reads.
\<close>

datatype 'v funVal = FV_sym string | FV_ptr 'v

record ('v, 'm) sem =
  sem_op :: "operation \<Rightarrow> 'v list \<Rightarrow> 'm \<Rightarrow> 'v option"
  sem_load :: "chunk \<Rightarrow> addressingMode \<Rightarrow> 'v list \<Rightarrow> 'm \<Rightarrow> 'v option"
  sem_store :: "chunk \<Rightarrow> addressingMode \<Rightarrow> 'v list \<Rightarrow> 'v \<Rightarrow> 'm \<Rightarrow> 'm option"
  sem_cond :: "conditionCode \<Rightarrow> 'v list \<Rightarrow> 'm \<Rightarrow> bool option"
  sem_index :: "'v \<Rightarrow> nat option"
  sem_arity :: "sig \<Rightarrow> 'v funVal \<Rightarrow> 'm \<Rightarrow> nat"
  sem_call :: "sig \<Rightarrow> 'v funVal \<Rightarrow> 'v list \<Rightarrow> 'm \<Rightarrow> ('v \<times> 'm) option"
  sem_builtin :: "string \<Rightarrow> 'v list \<Rightarrow> 'm \<Rightarrow> ('v \<times> 'm) option"
  sem_undef :: 'v

definition eval_op :: "('v, 'm) sem \<Rightarrow> operation \<Rightarrow> 'v list \<Rightarrow> 'm \<Rightarrow> 'v option" where
  "eval_op M op vs m =
     (if op = Omove then (case vs of [v] \<Rightarrow> Some v | _ \<Rightarrow> None) else sem_op M op vs m)"

lemma eval_op_move [simp]: "eval_op M Omove [v] m = Some v"
  by (simp add: eval_op_def)

text \<open>The entry of a jump table that a value selects.\<close>

definition jump_entry :: "('v, 'm) sem \<Rightarrow> 'v \<Rightarrow> 'l list \<Rightarrow> 'l option" where
  "jump_entry M v ts = (case sem_index M v of
     None \<Rightarrow> None
   | Some k \<Rightarrow> if k < length ts then Some (ts ! k) else None)"

lemma jump_entry_map: "jump_entry M v (map f ts) = map_option f (jump_entry M v ts)"
  by (auto simp: jump_entry_def split: option.splits)

lemma jump_entry_in: "jump_entry M v ts = Some l \<Longrightarrow> l \<in> set ts"
  by (auto simp: jump_entry_def split: option.splits if_splits)

text \<open>What a function hands back to its caller: a value, or control to another function.\<close>

datatype ('v, 'm) outcome =
    Returned 'v 'm
  | Tailcalled sig "'v funVal" "'v list" 'm

section \<open>Negated conditions\<close>

lemma Negate_involutive: "Negate (Negate c) = c"
  by (cases c) auto

end
