(* ===== verification/Smallstep.thy ===== *)
theory Smallstep
  imports Prelude
begin

text \<open>
  Transition systems and their simulations. Every intermediate language of the compiler gets a
  deterministic step relation and a predicate that reads the outcome off a final state. A run
  terminates with an outcome, diverges, or goes wrong. The locale \<open>fsim\<close> is the contract of a
  compiler pass: a simulation of the input by the output preserves termination and divergence;
  \<open>fsim_strict\<close> also preserves going wrong, and then the two sides behave exactly alike.
\<close>

datatype 'r behaviour = Terminates 'r | Diverges | Goes_wrong

definition stuck :: "('s \<Rightarrow> 's \<Rightarrow> bool) \<Rightarrow> ('s \<Rightarrow> 'r \<Rightarrow> bool) \<Rightarrow> 's \<Rightarrow> bool" where
  "stuck step final s \<longleftrightarrow> (\<nexists>s'. step s s') \<and> (\<nexists>r. final s r)"

coinductive forever :: "('s \<Rightarrow> 's \<Rightarrow> bool) \<Rightarrow> 's \<Rightarrow> bool" for step where
  forever_step: "step s s' \<Longrightarrow> forever step s' \<Longrightarrow> forever step s"

inductive_cases foreverE: "forever step s"

definition behaves ::
  "('s \<Rightarrow> 's \<Rightarrow> bool) \<Rightarrow> ('s \<Rightarrow> 'r \<Rightarrow> bool) \<Rightarrow> 's \<Rightarrow> 'r behaviour \<Rightarrow> bool" where
  "behaves step final s b = (case b of
     Terminates r \<Rightarrow> (\<exists>s'. step\<^sup>*\<^sup>* s s' \<and> final s' r)
   | Diverges \<Rightarrow> forever step s
   | Goes_wrong \<Rightarrow> (\<exists>s'. step\<^sup>*\<^sup>* s s' \<and> stuck step final s'))"

lemma behaves_step:
  assumes "step s t" and "behaves step final t b"
  shows "behaves step final s b"
  using assms by (auto simp: behaves_def split: behaviour.splits
      intro: converse_rtranclp_into_rtranclp forever_step)

lemma behaves_star: "step\<^sup>*\<^sup>* s t \<Longrightarrow> behaves step final t b \<Longrightarrow> behaves step final s b"
  by (induction rule: converse_rtranclp_induct) (auto intro: behaves_step)

text \<open>Divergence from a set that every plus-step stays in.\<close>

lemma forever_plus_coinduct:
  assumes "X s" and "\<And>s. X s \<Longrightarrow> \<exists>s'. step\<^sup>+\<^sup>+ s s' \<and> X s'"
  shows "forever step s"
proof -
  let ?Y = "\<lambda>s. \<exists>s'. step\<^sup>*\<^sup>* s s' \<and> X s'"
  have "?Y s" using assms(1) by blast
  then show ?thesis
  proof (coinduction arbitrary: s)
    case forever
    then obtain t where "step\<^sup>*\<^sup>* s t" "X t" by blast
    then obtain u where "step\<^sup>+\<^sup>+ s u" "X u"
      using assms(2) by (meson rtranclp_tranclp_tranclp)
    then show ?case by (metis tranclpD)
  qed
qed

section \<open>Deterministic transition systems\<close>

locale determ =
  fixes step :: "'s \<Rightarrow> 's \<Rightarrow> bool" and final :: "'s \<Rightarrow> 'r \<Rightarrow> bool"
  assumes det: "step s t \<Longrightarrow> step s u \<Longrightarrow> t = u"
    and final_no_step: "final s r \<Longrightarrow> \<not> step s t"
    and final_det: "final s r \<Longrightarrow> final s q \<Longrightarrow> r = q"
begin

lemma star_confluent: "step\<^sup>*\<^sup>* s t \<Longrightarrow> step\<^sup>*\<^sup>* s u \<Longrightarrow> step\<^sup>*\<^sup>* t u \<or> step\<^sup>*\<^sup>* u t"
proof (induction rule: converse_rtranclp_induct)
  case base
  then show ?case by blast
next
  case (step s s')
  from step.prems show ?case
  proof (cases rule: converse_rtranclpE)
    case base
    then show ?thesis
      using step.hyps by (meson converse_rtranclp_into_rtranclp)
  next
    case (step v)
    then show ?thesis using step.IH det \<open>step s s'\<close> by blast
  qed
qed

lemma star_end_unique:
  assumes "step\<^sup>*\<^sup>* s t" "step\<^sup>*\<^sup>* s u" "\<nexists>x. step t x" "\<nexists>x. step u x"
  shows "t = u"
  using star_confluent [OF assms(1,2)]
proof
  assume "step\<^sup>*\<^sup>* t u"
  then show ?thesis using assms(3) by (cases rule: converse_rtranclpE) auto
next
  assume "step\<^sup>*\<^sup>* u t"
  then show ?thesis using assms(4) by (cases rule: converse_rtranclpE) auto
qed

lemma forever_star: "step\<^sup>*\<^sup>* s t \<Longrightarrow> forever step s \<Longrightarrow> forever step t"
proof (induction rule: converse_rtranclp_induct)
  case (step s s')
  from step.prems obtain s'' where "step s s''" "forever step s''"
    by (rule foreverE)
  with step.hyps(1) step.IH show ?case using det by blast
qed

lemma not_forever_end: "forever step s \<Longrightarrow> step\<^sup>*\<^sup>* s t \<Longrightarrow> \<exists>x. step t x"
  by (meson forever_star foreverE)

text \<open>Every state has a behaviour, and only one.\<close>

lemma behaves_exists: "\<exists>b. behaves step final s b"
proof (cases "\<exists>t. step\<^sup>*\<^sup>* s t \<and> (\<nexists>u. step t u)")
  case True
  then obtain t where t: "step\<^sup>*\<^sup>* s t" "\<nexists>u. step t u" by blast
  show ?thesis
  proof (cases "\<exists>r. final t r")
    case True
    with t have "\<exists>r. behaves step final s (Terminates r)"
      by (auto simp: behaves_def)
    then show ?thesis by blast
  next
    case False
    with t have "behaves step final s Goes_wrong"
      by (auto simp: behaves_def stuck_def)
    then show ?thesis by blast
  qed
next
  case False
  then have *: "\<exists>u. step t u" if "step\<^sup>*\<^sup>* s t" for t using that by blast
  have "forever step s"
    by (rule forever_plus_coinduct [where X = "\<lambda>t. step\<^sup>*\<^sup>* s t"])
      (auto dest: * intro: rtranclp.rtrancl_into_rtrancl)
  then show ?thesis by (auto simp: behaves_def intro!: exI [of _ Diverges])
qed

lemma behaves_unique:
  assumes "behaves step final s b" and "behaves step final s c"
  shows "b = c"
proof (cases b; cases c)
  fix r q
  assume *: "b = Terminates r" "c = Terminates q"
  with assms obtain t u where "step\<^sup>*\<^sup>* s t" "final t r" "step\<^sup>*\<^sup>* s u" "final u q"
    by (auto simp: behaves_def)
  then show ?thesis using * star_end_unique final_no_step final_det by metis
qed (use assms in \<open>auto simp: behaves_def stuck_def dest!: not_forever_end dest: star_end_unique final_no_step\<close>)

end

section \<open>Forward simulation\<close>

text \<open>
  \<open>R s t\<close> relates a state \<open>s\<close> of the simulated system to a state \<open>t\<close> of the simulating one, \<open>Q\<close> their
  outcomes. A step of the first is answered by one or more steps of the second, or by none if the
  measure decreases.
\<close>

locale fsim_rel = S: determ step1 final1 + T: determ step2 final2
  for step1 :: "'s \<Rightarrow> 's \<Rightarrow> bool" and final1 :: "'s \<Rightarrow> 'r \<Rightarrow> bool"
    and step2 :: "'t \<Rightarrow> 't \<Rightarrow> bool" and final2 :: "'t \<Rightarrow> 'q \<Rightarrow> bool" +
  fixes R :: "'s \<Rightarrow> 't \<Rightarrow> bool" and \<mu> :: "'s \<Rightarrow> nat" and Q :: "'r \<Rightarrow> 'q \<Rightarrow> bool"
  assumes rel_step: "R s t \<Longrightarrow> step1 s s' \<Longrightarrow>
      (\<exists>t'. step2\<^sup>+\<^sup>+ t t' \<and> R s' t') \<or> (R s' t \<and> \<mu> s' < \<mu> s)"
    and rel_final: "R s t \<Longrightarrow> final1 s r \<Longrightarrow> \<exists>t' q. step2\<^sup>*\<^sup>* t t' \<and> final2 t' q \<and> Q r q"
begin

lemma rel_star: "step1\<^sup>*\<^sup>* s s' \<Longrightarrow> R s t \<Longrightarrow> \<exists>t'. step2\<^sup>*\<^sup>* t t' \<and> R s' t'"
proof (induction rule: rtranclp_induct)
  case base
  then show ?case by blast
next
  case (step y z)
  then obtain t' where t': "step2\<^sup>*\<^sup>* t t'" "R y t'" by blast
  from rel_step [OF t'(2) step.hyps(2)] show ?case
  proof
    assume "\<exists>t''. step2\<^sup>+\<^sup>+ t' t'' \<and> R z t''"
    with t'(1) show ?thesis by (meson rtranclp_trans tranclp_into_rtranclp)
  qed (use t'(1) in blast)
qed

lemma rel_terminates:
  assumes "R s t" and "behaves step1 final1 s (Terminates r)"
  shows "\<exists>q. Q r q \<and> behaves step2 final2 t (Terminates q)"
proof -
  from assms(2) obtain s' where "step1\<^sup>*\<^sup>* s s'" "final1 s' r"
    by (auto simp: behaves_def)
  with assms(1) obtain t' t'' q where "step2\<^sup>*\<^sup>* t t'" "step2\<^sup>*\<^sup>* t' t''" "final2 t'' q" "Q r q"
    by (meson rel_final rel_star)
  then show ?thesis by (auto simp: behaves_def) (meson rtranclp_trans)
qed

lemma forever_plus: "R s t \<Longrightarrow> forever step1 s \<Longrightarrow> \<exists>s' t'. step2\<^sup>+\<^sup>+ t t' \<and> R s' t' \<and> forever step1 s'"
proof (induction "\<mu> s" arbitrary: s rule: less_induct)
  case less
  from less.prems(2) obtain s' where s': "step1 s s'" "forever step1 s'"
    by (auto elim: foreverE)
  from rel_step [OF less.prems(1) s'(1)] show ?case
    using less.hyps s'(2) by blast
qed

lemma diverges_preserved:
  assumes "R s t" and "behaves step1 final1 s Diverges"
  shows "behaves step2 final2 t Diverges"
proof -
  have "forever step2 t"
    by (rule forever_plus_coinduct [where X = "\<lambda>t. \<exists>s. R s t \<and> forever step1 s"])
      (use assms forever_plus in \<open>auto simp: behaves_def, blast\<close>)
  then show ?thesis by (simp add: behaves_def)
qed

lemma rel_preserved:
  assumes "R s t" and "behaves step1 final1 s b" and "b \<noteq> Goes_wrong"
  shows "\<exists>b'. rel_behaviour Q b b' \<and> behaves step2 final2 t b'"
proof (cases b)
  case (Terminates r)
  with rel_terminates [OF assms(1)] assms(2) obtain q where "Q r q" "behaves step2 final2 t (Terminates q)" by blast
  with Terminates show ?thesis by (intro exI [of _ "Terminates q"]) simp
next
  case Diverges
  with diverges_preserved [OF assms(1)] assms(2) show ?thesis by (intro exI [of _ Diverges]) simp
qed (use assms in simp)

end

text \<open>Most passes preserve the outcome as it is.\<close>

locale fsim = S: determ step1 final1 + T: determ step2 final2
  for step1 :: "'s \<Rightarrow> 's \<Rightarrow> bool" and final1 :: "'s \<Rightarrow> 'r \<Rightarrow> bool"
    and step2 :: "'t \<Rightarrow> 't \<Rightarrow> bool" and final2 :: "'t \<Rightarrow> 'r \<Rightarrow> bool" +
  fixes R :: "'s \<Rightarrow> 't \<Rightarrow> bool" and \<mu> :: "'s \<Rightarrow> nat"
  assumes sim_step: "R s t \<Longrightarrow> step1 s s' \<Longrightarrow>
      (\<exists>t'. step2\<^sup>+\<^sup>+ t t' \<and> R s' t') \<or> (R s' t \<and> \<mu> s' < \<mu> s)"
    and sim_final: "R s t \<Longrightarrow> final1 s r \<Longrightarrow> \<exists>t'. step2\<^sup>*\<^sup>* t t' \<and> final2 t' r"

sublocale fsim \<subseteq> same: fsim_rel step1 final1 step2 final2 R \<mu> "(=)"
  by unfold_locales (use sim_step sim_final in blast)+

context fsim
begin

lemma safe_preserved:
  assumes "R s t" and "behaves step1 final1 s b" and "b \<noteq> Goes_wrong"
  shows "behaves step2 final2 t b"
  using same.rel_preserved [OF assms] by (simp add: behaviour.rel_eq)

end

text \<open>When stuck states are also matched by stuck states, the behaviours coincide.\<close>

locale fsim_strict = fsim +
  assumes sim_stuck: "R s t \<Longrightarrow> stuck step1 final1 s \<Longrightarrow> \<exists>t'. step2\<^sup>*\<^sup>* t t' \<and> stuck step2 final2 t'"
begin

lemma behaviour_preserved:
  assumes "R s t" and "behaves step1 final1 s b"
  shows "behaves step2 final2 t b"
proof (cases b)
  case Goes_wrong
  with assms(2) obtain s' where "step1\<^sup>*\<^sup>* s s'" "stuck step1 final1 s'"
    by (auto simp: behaves_def)
  with assms(1) Goes_wrong show ?thesis
    by (auto simp: behaves_def) (meson rtranclp_trans same.rel_star sim_stuck)
qed (use assms safe_preserved in auto)

lemma behaviours_equal:
  assumes "R s t"
  shows "behaves step1 final1 s b \<longleftrightarrow> behaves step2 final2 t b"
  using assms behaviour_preserved S.behaves_exists T.behaves_unique by metis

end

end
