(* ===== verification/LTL.thy ===== *)
theory LTL
  imports Ops Smallstep
begin

text \<open>
  Locations, machine registers and the LTL language (\<open>pkg/ltl/ast.go\<close>), the ARM64 calling
  convention (\<open>pkg/regalloc/conventions.go\<close>) and a small-step semantics of LTL functions.

  A machine register is the number Go's \<open>iota\<close> gives it: \<open>X0\<close> to \<open>X30\<close> are 0 to 30, \<open>D0\<close> to
  \<open>D31\<close> are 64 to 95. A location is a register, a typed stack slot, or the nil interface value
  that a failed map lookup yields.
\<close>

type_synonym mreg = int

abbreviation (input) X0 :: mreg where "X0 \<equiv> 0"
abbreviation (input) X1 :: mreg where "X1 \<equiv> 1"
abbreviation (input) X2 :: mreg where "X2 \<equiv> 2"
abbreviation (input) X3 :: mreg where "X3 \<equiv> 3"
abbreviation (input) X4 :: mreg where "X4 \<equiv> 4"
abbreviation (input) X5 :: mreg where "X5 \<equiv> 5"
abbreviation (input) X6 :: mreg where "X6 \<equiv> 6"
abbreviation (input) X7 :: mreg where "X7 \<equiv> 7"
abbreviation (input) X8 :: mreg where "X8 \<equiv> 8"
abbreviation (input) X9 :: mreg where "X9 \<equiv> 9"
abbreviation (input) X10 :: mreg where "X10 \<equiv> 10"
abbreviation (input) X11 :: mreg where "X11 \<equiv> 11"
abbreviation (input) X12 :: mreg where "X12 \<equiv> 12"
abbreviation (input) X13 :: mreg where "X13 \<equiv> 13"
abbreviation (input) X14 :: mreg where "X14 \<equiv> 14"
abbreviation (input) X15 :: mreg where "X15 \<equiv> 15"
abbreviation (input) X16 :: mreg where "X16 \<equiv> 16"
abbreviation (input) X17 :: mreg where "X17 \<equiv> 17"
abbreviation (input) X18 :: mreg where "X18 \<equiv> 18"
abbreviation (input) X19 :: mreg where "X19 \<equiv> 19"
abbreviation (input) X20 :: mreg where "X20 \<equiv> 20"
abbreviation (input) X21 :: mreg where "X21 \<equiv> 21"
abbreviation (input) X22 :: mreg where "X22 \<equiv> 22"
abbreviation (input) X23 :: mreg where "X23 \<equiv> 23"
abbreviation (input) X24 :: mreg where "X24 \<equiv> 24"
abbreviation (input) X25 :: mreg where "X25 \<equiv> 25"
abbreviation (input) X26 :: mreg where "X26 \<equiv> 26"
abbreviation (input) X27 :: mreg where "X27 \<equiv> 27"
abbreviation (input) X28 :: mreg where "X28 \<equiv> 28"
abbreviation (input) X29 :: mreg where "X29 \<equiv> 29"
abbreviation (input) X30 :: mreg where "X30 \<equiv> 30"

abbreviation (input) D0 :: mreg where "D0 \<equiv> 64"
abbreviation (input) D1 :: mreg where "D1 \<equiv> 65"
abbreviation (input) D2 :: mreg where "D2 \<equiv> 66"
abbreviation (input) D3 :: mreg where "D3 \<equiv> 67"
abbreviation (input) D4 :: mreg where "D4 \<equiv> 68"
abbreviation (input) D5 :: mreg where "D5 \<equiv> 69"
abbreviation (input) D6 :: mreg where "D6 \<equiv> 70"
abbreviation (input) D7 :: mreg where "D7 \<equiv> 71"
abbreviation (input) D8 :: mreg where "D8 \<equiv> 72"
abbreviation (input) D9 :: mreg where "D9 \<equiv> 73"
abbreviation (input) D10 :: mreg where "D10 \<equiv> 74"
abbreviation (input) D11 :: mreg where "D11 \<equiv> 75"
abbreviation (input) D12 :: mreg where "D12 \<equiv> 76"
abbreviation (input) D13 :: mreg where "D13 \<equiv> 77"
abbreviation (input) D14 :: mreg where "D14 \<equiv> 78"
abbreviation (input) D15 :: mreg where "D15 \<equiv> 79"
abbreviation (input) D16 :: mreg where "D16 \<equiv> 80"
abbreviation (input) D17 :: mreg where "D17 \<equiv> 81"
abbreviation (input) D18 :: mreg where "D18 \<equiv> 82"
abbreviation (input) D19 :: mreg where "D19 \<equiv> 83"
abbreviation (input) D20 :: mreg where "D20 \<equiv> 84"
abbreviation (input) D21 :: mreg where "D21 \<equiv> 85"
abbreviation (input) D22 :: mreg where "D22 \<equiv> 86"
abbreviation (input) D23 :: mreg where "D23 \<equiv> 87"
abbreviation (input) D24 :: mreg where "D24 \<equiv> 88"
abbreviation (input) D25 :: mreg where "D25 \<equiv> 89"
abbreviation (input) D26 :: mreg where "D26 \<equiv> 90"
abbreviation (input) D27 :: mreg where "D27 \<equiv> 91"
abbreviation (input) D28 :: mreg where "D28 \<equiv> 92"
abbreviation (input) D29 :: mreg where "D29 \<equiv> 93"
abbreviation (input) D30 :: mreg where "D30 \<equiv> 94"
abbreviation (input) D31 :: mreg where "D31 \<equiv> 95"

text \<open>\<open>MReg.IsInteger\<close> and \<open>MReg.IsFloat\<close>.\<close>

definition IsInteger :: "mreg \<Rightarrow> bool" where
  "IsInteger r \<longleftrightarrow> r \<le> X30"

definition IsFloat :: "mreg \<Rightarrow> bool" where
  "IsFloat r \<longleftrightarrow> D0 \<le> r \<and> r \<le> D31"

datatype slotKind = SlotLocal | SlotIncoming | SlotOutgoing

datatype ty = Tint | Tfloat | Tlong | Tsingle | Tany32 | Tany64

datatype loc = R mreg | S slotKind int64 ty | LNil

type_synonym node = int

datatype ltl_instr =
    Lnop
  | Lop operation "loc list" loc
  | Lload chunk addressingMode "loc list" loc
  | Lstore chunk addressingMode "loc list" loc
  | Lcall sig "loc funRef" "loc list"
  | Ltailcall sig "loc funRef" "loc list"
  | Lbuiltin string "loc list" "loc option"
  | Lbranch node
  | Lcond conditionCode "loc list" node node
  | Ljumptable loc "node list"
  | Lreturn

type_synonym bblock = "ltl_instr list"

record ltl_function =
  ltl_name :: string
  ltl_sig :: sig
  ltl_params :: "loc list"
  ltl_stacksize :: int64
  ltl_code :: "node \<rightharpoonup> bblock"
  ltl_entry :: node

record ltl_program =
  ltl_globals :: "globVar list"
  ltl_functions :: "ltl_function list"

text \<open>\<open>ltl.NewFunction\<close>.\<close>

definition ltl_NewFunction :: "string \<Rightarrow> sig \<Rightarrow> ltl_function" where
  "ltl_NewFunction name sg = \<lparr>ltl_name = name, ltl_sig = sg, ltl_params = [], ltl_stacksize = 0,
     ltl_code = Map.empty, ltl_entry = 0\<rparr>"

section \<open>Slots\<close>

text \<open>\<open>slotSize\<close>, the same in \<open>linearize/stack.go\<close> and \<open>stacking/layout.go\<close>.\<close>

fun slotSize :: "ty \<Rightarrow> int64" where
  "slotSize Tint = 4"
| "slotSize Tsingle = 4"
| "slotSize Tany32 = 4"
| "slotSize Tfloat = 8"
| "slotSize Tlong = 8"
| "slotSize Tany64 = 8"

lemma slotSize_pos [simp]: "0 < slotSize t"
  by (cases t) auto

text \<open>Two distinct locations that share bytes.\<close>

fun overlap :: "loc \<Rightarrow> loc \<Rightarrow> bool" where
  "overlap (S k o1 t1) (S k' o2 t2) \<longleftrightarrow>
     (k = k' \<and> (o1, t1) \<noteq> (o2, t2) \<and> o1 < o2 + slotSize t2 \<and> o2 < o1 + slotSize t1)"
| "overlap _ _ \<longleftrightarrow> False"

lemma overlap_R [simp]: "\<not> overlap (R r) l" "\<not> overlap l (R r)"
  by (cases l; simp)+

lemma overlap_irrefl [simp]: "\<not> overlap l l"
  by (cases l) auto

section \<open>The calling convention\<close>

definition CallerSavedRegs :: "mreg list" where
  "CallerSavedRegs = [X0, X1, X2, X3, X4, X5, X6, X7, X8, X9, X10, X11, X12, X13, X14, X15,
     X16, X17, X18]"

definition CalleeSavedRegs :: "mreg list" where
  "CalleeSavedRegs = [X19, X20, X21, X22, X23, X24, X25, X26, X27, X28]"

definition CallerSavedFloatRegs :: "mreg list" where
  "CallerSavedFloatRegs = [D0, D1, D2, D3, D4, D5, D6, D7, D16, D17, D18, D19, D20, D21, D22, D23,
     D24, D25, D26, D27, D28, D29, D30, D31]"

definition CalleeSavedFloatRegs :: "mreg list" where
  "CalleeSavedFloatRegs = [D8, D9, D10, D11, D12, D13, D14, D15]"

definition IntArgRegs :: "mreg list" where
  "IntArgRegs = [X0, X1, X2, X3, X4, X5, X6, X7]"

definition FloatArgRegs :: "mreg list" where
  "FloatArgRegs = [D0, D1, D2, D3, D4, D5, D6, D7]"

abbreviation (input) IntReturnReg :: mreg where "IntReturnReg \<equiv> X0"
abbreviation (input) FloatReturnReg :: mreg where "FloatReturnReg \<equiv> D0"

definition AllocatableIntRegs :: "mreg list" where
  "AllocatableIntRegs = [X0, X1, X2, X3, X4, X5, X6, X7, X8, X9, X10, X11, X12, X13, X14, X15, X18,
     X19, X20, X21, X22, X23, X24, X25, X26, X27, X28]"

definition AllocatableFloatRegs :: "mreg list" where
  "AllocatableFloatRegs = [D0, D1, D2, D3, D4, D5, D6, D7, D8, D9, D10, D11, D12, D13, D14, D15,
     D16, D17, D18, D19, D20, D21, D22, D23, D24, D25, D26, D27, D28, D29, D30, D31]"

abbreviation (input) NumAllocatableIntRegs :: nat where "NumAllocatableIntRegs \<equiv> 27"
abbreviation (input) NumAllocatableFloatRegs :: nat where "NumAllocatableFloatRegs \<equiv> 32"
abbreviation (input) FirstCalleeSavedColor :: nat where "FirstCalleeSavedColor \<equiv> 17"
abbreviation (input) NumCalleeSavedRegs :: nat where "NumCalleeSavedRegs \<equiv> 10"

definition ArgLocation :: "nat \<Rightarrow> bool \<Rightarrow> loc" where
  "ArgLocation i isFloat =
     (if isFloat then
        (if i < length FloatArgRegs then R (FloatArgRegs ! i)
         else S SlotIncoming (int (i - length FloatArgRegs) * 8) Tfloat)
      else
        (if i < length IntArgRegs then R (IntArgRegs ! i)
         else S SlotIncoming (int (i - length IntArgRegs) * 8) Tlong))"

definition ReturnLocation :: "bool \<Rightarrow> loc" where
  "ReturnLocation isFloat = (if isFloat then R FloatReturnReg else R IntReturnReg)"

definition IsCallerSaved :: "mreg \<Rightarrow> bool" where
  "IsCallerSaved r \<longleftrightarrow> r \<in> set CallerSavedRegs \<or> r \<in> set CallerSavedFloatRegs"

definition IsCalleeSaved :: "mreg \<Rightarrow> bool" where
  "IsCalleeSaved r \<longleftrightarrow> r \<in> set CalleeSavedRegs \<or> r \<in> set CalleeSavedFloatRegs"

lemma IsCalleeSaved_iff: "IsCalleeSaved r \<longleftrightarrow> (X19 \<le> r \<and> r \<le> X28) \<or> (D8 \<le> r \<and> r \<le> D15)"
  unfolding IsCalleeSaved_def CalleeSavedRegs_def CalleeSavedFloatRegs_def
  by (simp, presburger)

lemma length_IntArgRegs [simp]: "length IntArgRegs = 8"
  by (simp add: IntArgRegs_def)

lemma IntArgRegs_nth: "i < 8 \<Longrightarrow> IntArgRegs ! i = int i"
  by (auto simp: IntArgRegs_def less_Suc_eq numeral_eq_Suc)

lemma set_IntArgRegs: "set IntArgRegs = {0..7}"
  by (auto simp: IntArgRegs_def)

section \<open>Semantics of LTL\<close>

text \<open>
  A location set gives every location a value. Writing a slot makes the slots it overlaps
  undefined. A call destroys the registers that are not callee-saved and the outgoing argument
  area, and leaves its result in \<open>X0\<close>.
\<close>

type_synonym 'v locset = "loc \<Rightarrow> 'v"

definition loc_set :: "('v, 'm) sem \<Rightarrow> loc \<Rightarrow> 'v \<Rightarrow> 'v locset \<Rightarrow> 'v locset" where
  "loc_set M l v ls = (\<lambda>l'. if l' = l then v else if overlap l l' then sem_undef M else ls l')"

lemma loc_set_same [simp]: "loc_set M l v ls l = v"
  by (simp add: loc_set_def)

lemma loc_set_other: "l' \<noteq> l \<Longrightarrow> \<not> overlap l l' \<Longrightarrow> loc_set M l v ls l' = ls l'"
  by (simp add: loc_set_def)

lemma loc_set_R [simp]: "loc_set M (R r) v ls = ls(R r := v)"
  by (auto simp: loc_set_def)

definition after_call :: "('v, 'm) sem \<Rightarrow> 'v \<Rightarrow> 'v locset \<Rightarrow> 'v locset" where
  "after_call M v ls = (\<lambda>l. case l of
     R r \<Rightarrow> if r = IntReturnReg then v else if IsCalleeSaved r then ls l else sem_undef M
   | S SlotOutgoing _ _ \<Rightarrow> sem_undef M
   | _ \<Rightarrow> ls l)"

definition fun_value :: "'v locset \<Rightarrow> loc funRef \<Rightarrow> 'v funVal" where
  "fun_value ls f = (case f of FunReg l \<Rightarrow> FV_ptr (ls l) | FunSymbol s \<Rightarrow> FV_sym s)"

definition set_result :: "('v, 'm) sem \<Rightarrow> loc option \<Rightarrow> 'v \<Rightarrow> 'v locset \<Rightarrow> 'v locset" where
  "set_result M d v ls = (case d of None \<Rightarrow> ls | Some l \<Rightarrow> loc_set M l v ls)"

datatype ('v, 'm) ltl_state =
    LBlock bblock "'v locset" 'm
  | LFinal "('v, 'm) outcome"

inductive ltl_step :: "('v, 'm) sem \<Rightarrow> ltl_function \<Rightarrow> ('v, 'm) ltl_state \<Rightarrow> ('v, 'm) ltl_state \<Rightarrow> bool"
  for M f where
  ltl_nop: "ltl_step M f (LBlock (Lnop # b) ls m) (LBlock b ls m)"
| ltl_op: "eval_op M op (map ls args) m = Some v \<Longrightarrow>
    ltl_step M f (LBlock (Lop op args d # b) ls m) (LBlock b (loc_set M d v ls) m)"
| ltl_load: "sem_load M ch a (map ls args) m = Some v \<Longrightarrow>
    ltl_step M f (LBlock (Lload ch a args d # b) ls m) (LBlock b (loc_set M d v ls) m)"
| ltl_store: "sem_store M ch a (map ls args) (ls src) m = Some m' \<Longrightarrow>
    ltl_step M f (LBlock (Lstore ch a args src # b) ls m) (LBlock b ls m')"
| ltl_call: "n = sem_arity M sg (fun_value ls fn) m \<Longrightarrow> n \<le> length args \<Longrightarrow>
    sem_call M sg (fun_value ls fn) (map ls (take n args)) m = Some (v, m') \<Longrightarrow>
    ltl_step M f (LBlock (Lcall sg fn args # b) ls m) (LBlock b (after_call M v ls) m')"
| ltl_builtin: "sem_builtin M bf (map ls args) m = Some (v, m') \<Longrightarrow>
    ltl_step M f (LBlock (Lbuiltin bf args d # b) ls m) (LBlock b (set_result M d v ls) m')"
| ltl_branch: "ltl_code f s = Some b' \<Longrightarrow>
    ltl_step M f (LBlock (Lbranch s # b) ls m) (LBlock b' ls m)"
| ltl_cond: "sem_cond M c (map ls args) m = Some t \<Longrightarrow> ltl_code f (if t then s1 else s2) = Some b' \<Longrightarrow>
    ltl_step M f (LBlock (Lcond c args s1 s2 # b) ls m) (LBlock b' ls m)"
| ltl_jumptable: "jump_entry M (ls l) ts = Some s \<Longrightarrow> ltl_code f s = Some b' \<Longrightarrow>
    ltl_step M f (LBlock (Ljumptable l ts # b) ls m) (LBlock b' ls m)"
| ltl_return: "ltl_step M f (LBlock (Lreturn # b) ls m) (LFinal (Returned (ls (R IntReturnReg)) m))"
| ltl_tailcall: "n = sem_arity M sg (fun_value ls fn) m \<Longrightarrow> n \<le> length args \<Longrightarrow>
    ltl_step M f (LBlock (Ltailcall sg fn args # b) ls m)
      (LFinal (Tailcalled sg (fun_value ls fn) (map ls (take n args)) m))"

fun ltl_final :: "('v, 'm) ltl_state \<Rightarrow> ('v, 'm) outcome \<Rightarrow> bool" where
  "ltl_final (LFinal r) q \<longleftrightarrow> r = q"
| "ltl_final (LBlock _ _ _) q \<longleftrightarrow> False"

inductive_cases ltl_step_consE: "ltl_step M f (LBlock (i # b) ls m) t"
inductive_cases ltl_step_nilE: "ltl_step M f (LBlock [] ls m) t"
inductive_cases ltl_step_finalE: "ltl_step M f (LFinal r) t"

definition ltl_initial :: "ltl_function \<Rightarrow> 'v locset \<Rightarrow> 'm \<Rightarrow> ('v, 'm) ltl_state option" where
  "ltl_initial f ls m = map_option (\<lambda>b. LBlock b ls m) (ltl_code f (ltl_entry f))"

interpretation ltl: determ "ltl_step M f" ltl_final for M :: "('v, 'm) sem" and f
proof
  fix s t u :: "('v, 'm) ltl_state"
  assume "ltl_step M f s t" "ltl_step M f s u"
  then show "t = u"
    by (cases rule: ltl_step.cases) (auto elim: ltl_step_consE)
next
  fix s t :: "('v, 'm) ltl_state" and r
  assume "ltl_final s r" then show "\<not> ltl_step M f s t"
    by (cases s) (auto elim: ltl_step_finalE)
next
  fix s :: "('v, 'm) ltl_state" and r q
  assume "ltl_final s r" "ltl_final s q" then show "r = q"
    by (cases s) auto
qed

end
