(* ===== verification/Linear.thy ===== *)
theory Linear
  imports LTL
begin

text \<open>
  The Linear language (\<open>pkg/linear/ast.go\<close>): a flat instruction list with labels, and its
  small-step semantics. A state holds the code still to be executed; a jump restarts the function's
  code after the label it names. Constructors whose Go names LTL also uses carry the suffix \<open>L\<close>.
\<close>

type_synonym label = int

text \<open>\<open>Label.Valid\<close>.\<close>

definition Valid :: "label \<Rightarrow> bool" where
  "Valid l \<longleftrightarrow> 0 < l"

datatype linear_instr =
    Lgetstack slotKind int64 ty mreg
  | Lsetstack mreg slotKind int64 ty
  | LopL operation "loc list" loc
  | LloadL chunk addressingMode "loc list" loc
  | LstoreL chunk addressingMode "loc list" loc
  | LcallL sig "loc funRef"
  | LtailcallL sig "loc funRef"
  | LbuiltinL string "loc list" "loc option"
  | Llabel label
  | Lgoto label
  | LcondL conditionCode "loc list" label
  | LjumptableL loc "label list"
  | LreturnL

record linear_function =
  lin_name :: string
  lin_sig :: sig
  lin_params :: "loc list"
  lin_stacksize :: int64
  lin_code :: "linear_instr list"

record linear_program =
  lin_globals :: "globVar list"
  lin_functions :: "linear_function list"

text \<open>\<open>linear.NewFunction\<close> and \<open>Function.Append\<close>.\<close>

definition linear_NewFunction :: "string \<Rightarrow> sig \<Rightarrow> linear_function" where
  "linear_NewFunction name sg =
     \<lparr>lin_name = name, lin_sig = sg, lin_params = [], lin_stacksize = 0, lin_code = []\<rparr>"

definition lin_Append :: "linear_function \<Rightarrow> linear_instr \<Rightarrow> linear_function" where
  "lin_Append f i = f\<lparr>lin_code := lin_code f @ [i]\<rparr>"

section \<open>Labels of a function\<close>

text \<open>\<open>Function.Labels\<close>: the labels the code defines, each once, in order of first definition.\<close>

fun addLabels :: "label list \<Rightarrow> label list \<Rightarrow> label list" where
  "addLabels seen [] = seen"
| "addLabels seen (l # ls) = addLabels (if l \<in> set seen then seen else seen @ [l]) ls"

fun instr_labels :: "linear_instr \<Rightarrow> label list" where
  "instr_labels (Llabel l) = [l]"
| "instr_labels _ = []"

fun instr_targets :: "linear_instr \<Rightarrow> label list" where
  "instr_targets (Lgoto l) = [l]"
| "instr_targets (LcondL _ _ l) = [l]"
| "instr_targets (LjumptableL _ ts) = ts"
| "instr_targets _ = []"

definition Labels :: "linear_function \<Rightarrow> label list" where
  "Labels f = fold (\<lambda>i seen. addLabels seen (instr_labels i)) (lin_code f) []"

text \<open>\<open>Function.ReferencedLabels\<close>: the labels some jump names.\<close>

definition ReferencedLabels :: "linear_function \<Rightarrow> label list" where
  "ReferencedLabels f = fold (\<lambda>i seen. addLabels seen (instr_targets i)) (lin_code f) []"

lemma set_addLabels [simp]: "set (addLabels seen ls) = set seen \<union> set ls"
  by (induction seen ls rule: addLabels.induct) auto

lemma distinct_addLabels: "distinct seen \<Longrightarrow> distinct (addLabels seen ls)"
  by (induction seen ls rule: addLabels.induct) auto

lemma set_fold_addLabels:
  "set (fold (\<lambda>i seen. addLabels seen (g i)) is seen) = set seen \<union> (\<Union>i\<in>set is. set (g i))"
  by (induction "is" arbitrary: seen) auto

lemma distinct_fold_addLabels:
  "distinct seen \<Longrightarrow> distinct (fold (\<lambda>i seen. addLabels seen (g i)) is seen)"
  by (induction "is" arbitrary: seen) (auto simp: distinct_addLabels)

lemma instr_labels_iff [simp]: "l \<in> set (instr_labels i) \<longleftrightarrow> i = Llabel l"
  by (cases i) auto

lemma Labels_set: "l \<in> set (Labels f) \<longleftrightarrow> Llabel l \<in> set (lin_code f)"
  by (auto simp: Labels_def set_fold_addLabels)

lemma Labels_distinct: "distinct (Labels f)"
  by (simp add: Labels_def distinct_fold_addLabels)

lemma ReferencedLabels_set:
  "l \<in> set (ReferencedLabels f) \<longleftrightarrow> (\<exists>i\<in>set (lin_code f). l \<in> set (instr_targets i))"
  by (auto simp: ReferencedLabels_def set_fold_addLabels)

section \<open>Semantics of Linear\<close>

text \<open>The code after the first definition of a label.\<close>

fun find_label :: "label \<Rightarrow> linear_instr list \<Rightarrow> linear_instr list option" where
  "find_label l [] = None"
| "find_label l (i # is) = (if i = Llabel l then Some is else find_label l is)"

lemma find_label_Some:
  "find_label l c = Some c' \<Longrightarrow> \<exists>pre. c = pre @ Llabel l # c' \<and> Llabel l \<notin> set pre"
proof (induction c)
  case (Cons i c)
  show ?case
  proof (cases "i = Llabel l")
    case False
    with Cons obtain pre where "c = pre @ Llabel l # c'" "Llabel l \<notin> set pre" by auto
    with False show ?thesis by (intro exI [of _ "i # pre"]) auto
  qed (use Cons in \<open>auto intro: exI [of _ "[]"]\<close>)
qed simp

lemma find_label_append:
  "find_label l (pre @ c) = (case find_label l pre of Some c' \<Rightarrow> Some (c' @ c) | None \<Rightarrow> find_label l c)"
  by (induction pre) auto

lemma find_label_None: "find_label l c = None \<longleftrightarrow> Llabel l \<notin> set c"
  by (induction c) auto

lemma find_label_notin [simp]: "Llabel l \<notin> set c \<Longrightarrow> find_label l c = None"
  by (simp add: find_label_None)

lemma find_label_ex: "Llabel l \<in> set c \<Longrightarrow> \<exists>c'. find_label l c = Some c'"
  using find_label_None [of l c] by auto

text \<open>
  The place of the \<open>i\<close>-th argument of a call whose first \<open>k\<close> arguments travel in registers; the
  others are on the stack, eight bytes each, at the bottom of the outgoing area.
\<close>

definition arg_loc :: "nat \<Rightarrow> nat \<Rightarrow> loc" where
  "arg_loc k i = (if i < k then R (int i) else S SlotOutgoing (8 * int (i - k)) Tlong)"

datatype ('v, 'm) linear_state =
    LCode "linear_instr list" "'v locset" 'm
  | LnFinal "('v, 'm) outcome"

text \<open>
  \<open>cc fn\<close> is the number of arguments the platform's convention passes in registers when \<open>fn\<close> is
  called.
\<close>

inductive linear_step ::
  "('v, 'm) sem \<Rightarrow> (loc funRef \<Rightarrow> nat) \<Rightarrow> linear_instr list \<Rightarrow>
   ('v, 'm) linear_state \<Rightarrow> ('v, 'm) linear_state \<Rightarrow> bool"
  for M cc code where
  lin_getstack: "linear_step M cc code (LCode (Lgetstack k ofs t d # c) ls m)
      (LCode c (ls(R d := ls (S k ofs t))) m)"
| lin_setstack: "linear_step M cc code (LCode (Lsetstack r k ofs t # c) ls m)
      (LCode c (loc_set M (S k ofs t) (ls (R r)) ls) m)"
| lin_op: "eval_op M op (map ls args) m = Some v \<Longrightarrow>
    linear_step M cc code (LCode (LopL op args d # c) ls m) (LCode c (loc_set M d v ls) m)"
| lin_load: "sem_load M ch a (map ls args) m = Some v \<Longrightarrow>
    linear_step M cc code (LCode (LloadL ch a args d # c) ls m) (LCode c (loc_set M d v ls) m)"
| lin_store: "sem_store M ch a (map ls args) (ls src) m = Some m' \<Longrightarrow>
    linear_step M cc code (LCode (LstoreL ch a args src # c) ls m) (LCode c ls m')"
| lin_call: "n = sem_arity M sg (fun_value ls fn) m \<Longrightarrow>
    sem_call M sg (fun_value ls fn) (map (\<lambda>i. ls (arg_loc (cc fn) i)) [0..<n]) m = Some (v, m') \<Longrightarrow>
    linear_step M cc code (LCode (LcallL sg fn # c) ls m) (LCode c (after_call M v ls) m')"
| lin_builtin: "sem_builtin M bf (map ls args) m = Some (v, m') \<Longrightarrow>
    linear_step M cc code (LCode (LbuiltinL bf args d # c) ls m) (LCode c (set_result M d v ls) m')"
| lin_label: "linear_step M cc code (LCode (Llabel l # c) ls m) (LCode c ls m)"
| lin_goto: "find_label l code = Some c' \<Longrightarrow>
    linear_step M cc code (LCode (Lgoto l # c) ls m) (LCode c' ls m)"
| lin_cond_true: "sem_cond M cnd (map ls args) m = Some True \<Longrightarrow> find_label l code = Some c' \<Longrightarrow>
    linear_step M cc code (LCode (LcondL cnd args l # c) ls m) (LCode c' ls m)"
| lin_cond_false: "sem_cond M cnd (map ls args) m = Some False \<Longrightarrow>
    linear_step M cc code (LCode (LcondL cnd args l # c) ls m) (LCode c ls m)"
| lin_jumptable: "jump_entry M (ls a) ts = Some l \<Longrightarrow> find_label l code = Some c' \<Longrightarrow>
    linear_step M cc code (LCode (LjumptableL a ts # c) ls m) (LCode c' ls m)"
| lin_return: "linear_step M cc code (LCode (LreturnL # c) ls m)
      (LnFinal (Returned (ls (R IntReturnReg)) m))"
| lin_tailcall: "n = sem_arity M sg (fun_value ls fn) m \<Longrightarrow>
    linear_step M cc code (LCode (LtailcallL sg fn # c) ls m)
      (LnFinal (Tailcalled sg (fun_value ls fn) (map (\<lambda>i. ls (arg_loc (cc fn) i)) [0..<n]) m))"

fun linear_final :: "('v, 'm) linear_state \<Rightarrow> ('v, 'm) outcome \<Rightarrow> bool" where
  "linear_final (LnFinal r) q \<longleftrightarrow> r = q"
| "linear_final (LCode _ _ _) q \<longleftrightarrow> False"

inductive_cases linear_step_consE: "linear_step M cc code (LCode (i # c) ls m) t"
inductive_cases linear_step_nilE: "linear_step M cc code (LCode [] ls m) t"
inductive_cases linear_step_finalE: "linear_step M cc code (LnFinal r) t"

interpretation linear: determ "linear_step M cc code" linear_final
  for M :: "('v, 'm) sem" and cc code
proof
  fix s t u :: "('v, 'm) linear_state"
  assume "linear_step M cc code s t" "linear_step M cc code s u"
  then show "t = u"
    by (cases rule: linear_step.cases) (auto elim: linear_step_consE)
next
  fix s t :: "('v, 'm) linear_state" and r
  assume "linear_final s r" then show "\<not> linear_step M cc code s t"
    by (cases s) (auto elim: linear_step_finalE)
next
  fix s :: "('v, 'm) linear_state" and r q
  assume "linear_final s r" "linear_final s q" then show "r = q"
    by (cases s) auto
qed

text \<open>
  How an instruction acts, split into its effect when it falls through and the label it jumps to:
  the form in which the passes that only rearrange control flow use the semantics.
\<close>

datatype ('v, 'm) action = Fall "'v locset" 'm | Jump label | Stop "('v, 'm) outcome" | Wrong

fun effect :: "('v, 'm) sem \<Rightarrow> (loc funRef \<Rightarrow> nat) \<Rightarrow> linear_instr \<Rightarrow> 'v locset \<Rightarrow> 'm \<Rightarrow> ('v, 'm) action"
where
  "effect M cc (Lgetstack k ofs t d) ls m = Fall (ls(R d := ls (S k ofs t))) m"
| "effect M cc (Lsetstack r k ofs t) ls m = Fall (loc_set M (S k ofs t) (ls (R r)) ls) m"
| "effect M cc (LopL op args d) ls m =
     (case eval_op M op (map ls args) m of Some v \<Rightarrow> Fall (loc_set M d v ls) m | None \<Rightarrow> Wrong)"
| "effect M cc (LloadL ch a args d) ls m =
     (case sem_load M ch a (map ls args) m of Some v \<Rightarrow> Fall (loc_set M d v ls) m | None \<Rightarrow> Wrong)"
| "effect M cc (LstoreL ch a args src) ls m =
     (case sem_store M ch a (map ls args) (ls src) m of Some m' \<Rightarrow> Fall ls m' | None \<Rightarrow> Wrong)"
| "effect M cc (LcallL sg fn) ls m =
     (case sem_call M sg (fun_value ls fn)
        (map (\<lambda>i. ls (arg_loc (cc fn) i)) [0..<sem_arity M sg (fun_value ls fn) m]) m of
        Some (v, m') \<Rightarrow> Fall (after_call M v ls) m' | None \<Rightarrow> Wrong)"
| "effect M cc (LtailcallL sg fn) ls m =
     Stop (Tailcalled sg (fun_value ls fn)
       (map (\<lambda>i. ls (arg_loc (cc fn) i)) [0..<sem_arity M sg (fun_value ls fn) m]) m)"
| "effect M cc (LbuiltinL bf args d) ls m =
     (case sem_builtin M bf (map ls args) m of Some (v, m') \<Rightarrow> Fall (set_result M d v ls) m' | None \<Rightarrow> Wrong)"
| "effect M cc (Llabel l) ls m = Fall ls m"
| "effect M cc (Lgoto l) ls m = Jump l"
| "effect M cc (LcondL cnd args l) ls m =
     (case sem_cond M cnd (map ls args) m of
        Some True \<Rightarrow> Jump l | Some False \<Rightarrow> Fall ls m | None \<Rightarrow> Wrong)"
| "effect M cc (LjumptableL a ts) ls m =
     (case jump_entry M (ls a) ts of Some l \<Rightarrow> Jump l | None \<Rightarrow> Wrong)"
| "effect M cc LreturnL ls m = Stop (Returned (ls (R IntReturnReg)) m)"

lemma linear_step_effect:
  "linear_step M cc code (LCode (i # c) ls m) t \<longleftrightarrow> (case effect M cc i ls m of
     Fall ls' m' \<Rightarrow> t = LCode c ls' m'
   | Jump l \<Rightarrow> (\<exists>c'. find_label l code = Some c' \<and> t = LCode c' ls m)
   | Stop r \<Rightarrow> t = LnFinal r
   | Wrong \<Rightarrow> False)"
  by (cases i)
    (auto elim!: linear_step_consE intro: linear_step.intros
      split: option.splits bool.splits)

lemma effect_Jump_target: "effect M cc i ls m = Jump l \<Longrightarrow> l \<in> set (instr_targets i)"
  by (cases i) (auto split: option.splits bool.splits dest: jump_entry_in)

lemma linear_step_nil [simp]: "\<not> linear_step M cc code (LCode [] ls m) t"
  by (auto elim: linear_step_nilE)

lemma linear_step_final [simp]: "\<not> linear_step M cc code (LnFinal r) t"
  by (auto elim: linear_step_finalE)

end
