(* ===== verification/Tunneling.thy ===== *)
theory Tunneling
  imports Linear
begin

text \<open>
  Branch tunneling (\<open>pkg/linearize/tunneling.go\<close>): a jump to a label that is directly followed by
  a \<open>goto\<close> is redirected to the end of the chain of such gotos. The pass is shown to return on every
  input and to leave the behaviour of the function unchanged, cyclic chains included.
\<close>

section \<open>The pass\<close>

text \<open>\<open>buildJumpTargetMap\<close>: a later definition of the same label overwrites an earlier one.\<close>

fun jump_targets_from :: "(label \<rightharpoonup> label) \<Rightarrow> linear_instr list \<Rightarrow> (label \<rightharpoonup> label)" where
  "jump_targets_from m (Llabel l # Lgoto t # is) = jump_targets_from (m(l \<mapsto> t)) (Lgoto t # is)"
| "jump_targets_from m (_ # is) = jump_targets_from m is"
| "jump_targets_from m [] = m"

definition buildJumpTargetMap :: "linear_function \<Rightarrow> (label \<rightharpoonup> label)" where
  "buildJumpTargetMap f = jump_targets_from Map.empty (lin_code f)"

text \<open>
  \<open>resolveLabel\<close>: the loop follows the map from \<open>current\<close> and stops at a label it has visited or
  that does not jump on. It is written with fuel; \<open>None\<close> is a loop that has not returned yet.
\<close>

fun resolve_loop :: "nat \<Rightarrow> (label \<rightharpoonup> label) \<Rightarrow> label set \<Rightarrow> label \<Rightarrow> label option" where
  "resolve_loop 0 jt visited current = None"
| "resolve_loop (Suc n) jt visited current =
     (if current \<in> visited then Some current
      else (case jt current of
              None \<Rightarrow> Some current
            | Some target \<Rightarrow> resolve_loop n jt (insert current visited) target))"

text \<open>Fuel for a map that lists at most \<open>n\<close> jumps: one round per entry and two to stop.\<close>

definition resolveLabel :: "nat \<Rightarrow> label \<Rightarrow> (label \<rightharpoonup> label) \<Rightarrow> label option" where
  "resolveLabel n lbl jt = resolve_loop (n + 2) jt {} lbl"

text \<open>\<open>resolveChains\<close>: every label of the map, resolved.\<close>

definition resolveChains :: "nat \<Rightarrow> (label \<rightharpoonup> label) \<Rightarrow> (label \<rightharpoonup> label)" where
  "resolveChains n jt = (\<lambda>l. case jt l of None \<Rightarrow> None | Some _ \<Rightarrow> resolveLabel n l jt)"

definition redirect :: "(label \<rightharpoonup> label) \<Rightarrow> label \<Rightarrow> label" where
  "redirect res l = (case res l of Some t \<Rightarrow> t | None \<Rightarrow> l)"

fun tunnelInstruction :: "linear_instr \<Rightarrow> (label \<rightharpoonup> label) \<Rightarrow> linear_instr" where
  "tunnelInstruction (Lgoto l) res = Lgoto (redirect res l)"
| "tunnelInstruction (LcondL c args l) res = LcondL c args (redirect res l)"
| "tunnelInstruction (LjumptableL a ts) res = LjumptableL a (map (redirect res) ts)"
| "tunnelInstruction i res = i"

definition Tunnel :: "linear_function \<Rightarrow> linear_function" where
  "Tunnel f =
     (if lin_code f = [] then f
      else let jt = buildJumpTargetMap f; res = resolveChains (length (lin_code f)) jt
           in f\<lparr>lin_code := map (\<lambda>i. tunnelInstruction i res) (lin_code f)\<rparr>)"

section \<open>The loop returns\<close>

text \<open>The map holds at most one entry per instruction.\<close>

lemma jump_targets_from_cases:
  "jump_targets_from m c l = Some t \<Longrightarrow>
     m l = Some t \<or> (\<exists>pre c'. c = pre @ Llabel l # Lgoto t # c')"
proof (induction m c rule: jump_targets_from.induct)
  case (1 m l' t' "is")
  from "1.prems" have "jump_targets_from (m(l' \<mapsto> t')) (Lgoto t' # is) l = Some t"
    by (simp only: jump_targets_from.simps(1))
  from "1.IH" [OF this] show ?case
  proof
    assume "(m(l' \<mapsto> t')) l = Some t"
    then show ?thesis
      by (cases "l = l'") (auto intro: exI [of _ "[]"])
  next
    assume "\<exists>pre c'. Lgoto t' # is = pre @ Llabel l # Lgoto t # c'"
    then show ?thesis by (metis append_Cons)
  qed
qed (simp_all, (metis append_Cons)+)

lemma jump_targets_from_dom: "dom (jump_targets_from Map.empty c) \<subseteq> {l. Llabel l \<in> set c}"
  by (auto dest!: jump_targets_from_cases)

lemma card_labels_le: "card {l. Llabel l \<in> set c} \<le> length c"
proof (induction c)
  case (Cons i c)
  have "{l. Llabel l \<in> set (i # c)} \<subseteq> (case i of Llabel l \<Rightarrow> {l} | _ \<Rightarrow> {}) \<union> {l. Llabel l \<in> set c}"
    by (auto split: linear_instr.splits)
  moreover have fin: "finite {l. Llabel l \<in> set c}"
    by (rule finite_subset [of _ "(\<lambda>i. case i of Llabel l \<Rightarrow> l | _ \<Rightarrow> 0) ` set c"]) (auto intro: rev_image_eqI)
  ultimately have "card {l. Llabel l \<in> set (i # c)} \<le>
      card ((case i of Llabel l \<Rightarrow> {l} | _ \<Rightarrow> {}) \<union> {l. Llabel l \<in> set c})"
    by (intro card_mono) (auto split: linear_instr.splits)
  also have "\<dots> \<le> Suc (card {l. Llabel l \<in> set c})"
    using fin by (cases i) (auto simp: card_insert_if)
  finally show ?case using Cons by simp
qed simp

lemma finite_labels: "finite {l. Llabel l \<in> set c}"
  by (rule finite_subset [of _ "(\<lambda>i. case i of Llabel l \<Rightarrow> l | _ \<Rightarrow> 0) ` set c"]) (auto intro: rev_image_eqI)

lemma buildJumpTargetMap_card:
  "finite (dom (buildJumpTargetMap f)) \<and> card (dom (buildJumpTargetMap f)) \<le> length (lin_code f)"
proof -
  have "dom (buildJumpTargetMap f) \<subseteq> {l. Llabel l \<in> set (lin_code f)}"
    using jump_targets_from_dom [of "lin_code f"] by (simp add: buildJumpTargetMap_def)
  then show ?thesis
    using card_labels_le [of "lin_code f"] finite_labels [of "lin_code f"]
    by (meson card_mono finite_subset le_trans)
qed

lemma resolve_loop_enough:
  assumes "finite (dom jt)" and "card (dom jt - visited) + 2 \<le> n"
  shows "\<exists>r. resolve_loop n jt visited current = Some r"
  using assms
proof (induction n jt visited current rule: resolve_loop.induct)
  case (2 n jt visited current)
  show ?case
  proof (cases "current \<in> visited \<or> jt current = None")
    case True
    then show ?thesis by auto
  next
    case False
    then obtain t where t: "jt current = Some t" by auto
    with False have "dom jt - visited = insert current (dom jt - insert current visited)" by auto
    with "2.prems"(1) have "card (dom jt - visited) = Suc (card (dom jt - insert current visited))"
      by (metis Diff_iff card_insert_disjoint finite_Diff insertI1)
    with "2.prems" have "card (dom jt - insert current visited) + 2 \<le> n" by simp
    with "2.IH" [OF _ t "2.prems"(1)] False t show ?thesis by simp
  qed
qed simp

section \<open>Chains\<close>

text \<open>One jump along a chain, and the labels a chain passes.\<close>

inductive hop :: "(label \<rightharpoonup> label) \<Rightarrow> label \<Rightarrow> label \<Rightarrow> bool" for jt where
  "jt l = Some t \<Longrightarrow> hop jt l t"

inductive_simps hop_iff [simp]: "hop jt l t"

lemma resolve_loop_hops: "resolve_loop n jt visited l = Some r \<Longrightarrow> (hop jt)\<^sup>*\<^sup>* l r"
proof (induction n jt visited l rule: resolve_loop.induct)
  case (2 n jt visited current)
  then show ?case
    by (auto split: if_splits option.splits intro: converse_rtranclp_into_rtranclp)
qed simp

text \<open>Where the loop stops: the chain ends, or the label was visited and lies on a cycle.\<close>

lemma resolve_loop_end:
  assumes "resolve_loop n jt visited l = Some r" and "\<forall>v\<in>visited. (hop jt)\<^sup>+\<^sup>+ v l"
  shows "jt r = None \<or> (hop jt)\<^sup>+\<^sup>+ r r"
  using assms
proof (induction n jt visited l rule: resolve_loop.induct)
  case (2 n jt visited l)
  show ?case
  proof (cases "l \<in> visited \<or> jt l = None")
    case True
    with "2.prems" show ?thesis by (auto split: if_splits)
  next
    case False
    then obtain t where t: "jt l = Some t" by auto
    then have "hop jt l t" by simp
    with "2.prems"(2) have "\<forall>v\<in>insert l visited. (hop jt)\<^sup>+\<^sup>+ v t"
      by (metis insert_iff tranclp.r_into_trancl tranclp.trancl_into_trancl)
    moreover have "resolve_loop n jt (insert l visited) t = Some r"
      using "2.prems"(1) False t by simp
    ultimately show ?thesis using "2.IH" [OF _ t] False by blast
  qed
qed simp

lemma redirect_hops: "(hop jt)\<^sup>*\<^sup>* l (redirect (resolveChains n jt) l)"
  unfolding redirect_def resolveChains_def resolveLabel_def
  by (auto simp del: resolve_loop.simps dest: resolve_loop_hops split: option.splits)

text \<open>
  In code whose labels are distinct, a chain of the jump map is a chain of executed gotos. Go code
  with a label defined twice is not produced: \<open>Linearize\<close> numbers the blocks.
\<close>

definition labels_of :: "linear_instr list \<Rightarrow> label list" where
  "labels_of c = concat (map instr_labels c)"

lemma labels_of_simps [simp]:
  "labels_of [] = []"
  "labels_of (i # c) = instr_labels i @ labels_of c"
  "labels_of (c @ d) = labels_of c @ labels_of d"
  by (simp_all add: labels_of_def)

lemma set_labels_of: "l \<in> set (labels_of c) \<longleftrightarrow> Llabel l \<in> set c"
  by (induction c) auto

lemma find_label_unique:
  assumes "distinct (labels_of (pre @ Llabel l # c))"
  shows "find_label l (pre @ Llabel l # c) = Some c"
proof -
  from assms have "Llabel l \<notin> set pre" by (auto simp: set_labels_of)
  then show ?thesis by (simp add: find_label_append)
qed

lemma hop_goto:
  assumes "distinct (labels_of c)" and "jump_targets_from Map.empty c l = Some t"
  shows "\<exists>c'. find_label l c = Some (Lgoto t # c')"
  using jump_targets_from_cases [OF assms(2)] assms(1) find_label_unique by auto

text \<open>Executing the gotos of a chain.\<close>

lemma hops_steps:
  assumes "distinct (labels_of c)" and "jt = jump_targets_from Map.empty c"
    and "(hop jt)\<^sup>*\<^sup>* l r" and "find_label r c = Some c'" and "find_label l c = Some d"
  shows "(linear_step M cc c)\<^sup>*\<^sup>* (LCode d ls m) (LCode c' ls m)"
  using assms(3,5)
proof (induction arbitrary: d rule: converse_rtranclp_induct)
  case base
  with assms(4) show ?case by simp
next
  case (step l t)
  then obtain e where d: "d = Lgoto t # e"
    using hop_goto assms(1,2) by (metis hop_iff option.inject)
  have "\<exists>d'. find_label t c = Some d'"
  proof (cases "t = r")
    case False
    with step.hyps(2) obtain u where "jt t = Some u"
      by (auto elim: converse_rtranclpE)
    then show ?thesis using hop_goto assms(1,2) by blast
  qed (use assms(4) in blast)
  then obtain d' where d': "find_label t c = Some d'" by blast
  then have "linear_step M cc c (LCode d ls m) (LCode d' ls m)"
    by (simp add: d linear_step_effect)
  then show ?case using step.IH [OF d'] by (rule converse_rtranclp_into_rtranclp)
qed

section \<open>Tunneled code behaves as the original\<close>

abbreviation jt_of :: "linear_instr list \<Rightarrow> (label \<rightharpoonup> label)" where
  "jt_of c \<equiv> jump_targets_from Map.empty c"

definition resolved_of :: "linear_instr list \<Rightarrow> (label \<rightharpoonup> label)" where
  "resolved_of c = resolveChains (length c) (jt_of c)"

definition tunnel_in :: "linear_instr list \<Rightarrow> linear_instr \<Rightarrow> linear_instr" where
  "tunnel_in c i = tunnelInstruction i (resolved_of c)"

lemma Tunnel_code: "lin_code (Tunnel f) = map (tunnel_in (lin_code f)) (lin_code f)"
  by (simp add: Tunnel_def Let_def tunnel_in_def resolved_of_def buildJumpTargetMap_def)

lemma tunnelInstruction_label [simp]: "tunnelInstruction i res = Llabel l \<longleftrightarrow> i = Llabel l"
  by (cases i) auto

lemma find_label_tunnel:
  "find_label l (map (tunnel_in c) d) = map_option (map (tunnel_in c)) (find_label l d)"
  by (induction d) (auto simp: tunnel_in_def)

lemma effect_tunnel:
  "effect M cc (tunnelInstruction i res) ls m = (case effect M cc i ls m of
     Jump l \<Rightarrow> Jump (redirect res l) | e \<Rightarrow> e)"
  by (cases i) (auto simp: jump_entry_map split: option.splits bool.splits action.splits)

lemma redirect_hops_of: "(hop (jt_of c))\<^sup>*\<^sup>* l (redirect (resolved_of c) l)"
  unfolding resolved_of_def by (rule redirect_hops)

lemma redirect_id: "jt_of c l = None \<Longrightarrow> redirect (resolved_of c) l = l"
  by (simp add: redirect_def resolved_of_def resolveChains_def)

lemma hops_stuck:
  assumes "distinct (labels_of c)" and "(hop (jt_of c))\<^sup>*\<^sup>* l r" and "find_label r c = None"
    and "find_label l c = Some d"
  shows "\<exists>t. (linear_step M cc c)\<^sup>*\<^sup>* (LCode d ls m) t \<and> stuck (linear_step M cc c) linear_final t"
  using assms(2,4)
proof (induction arbitrary: d rule: converse_rtranclp_induct)
  case base
  with assms(3) show ?case by simp
next
  case (step l t)
  then obtain e where d: "d = Lgoto t # e"
    using hop_goto assms(1) by (metis hop_iff option.inject)
  show ?case
  proof (cases "find_label t c")
    case None
    then have "stuck (linear_step M cc c) linear_final (LCode d ls m)"
      by (simp add: d stuck_def linear_step_effect)
    then show ?thesis by blast
  next
    case (Some d')
    then have "linear_step M cc c (LCode d ls m) (LCode d' ls m)"
      by (simp add: d linear_step_effect)
    then show ?thesis using step.IH [OF Some] by (meson converse_rtranclp_into_rtranclp)
  qed
qed

text \<open>A tunneled state matches the original state at the same place.\<close>

definition tunnel_match ::
  "linear_instr list \<Rightarrow> ('v, 'm) linear_state \<Rightarrow> ('v, 'm) linear_state \<Rightarrow> bool" where
  "tunnel_match c s t \<longleftrightarrow> distinct (labels_of c) \<and>
     ((\<exists>d ls m. s = LCode (map (tunnel_in c) d) ls m \<and> t = LCode d ls m) \<or> (\<exists>r. s = LnFinal r \<and> t = s))"

lemma tunnel_match_code:
  "distinct (labels_of c) \<Longrightarrow> tunnel_match c (LCode (map (tunnel_in c) d) ls m) (LCode d ls m)"
  by (auto simp: tunnel_match_def)

lemma tunnel_match_final:
  "distinct (labels_of c) \<Longrightarrow> tunnel_match c (LnFinal r) (LnFinal r)"
  by (auto simp: tunnel_match_def)

lemma tunnel_sim_step:
  fixes M :: "('v, 'm) sem"
  assumes "tunnel_match c s t" and "linear_step M cc (map (tunnel_in c) c) s s'"
  shows "\<exists>t'. (linear_step M cc c)\<^sup>+\<^sup>+ t t' \<and> tunnel_match c s' t'"
proof -
  from assms obtain i d ls m where dist: "distinct (labels_of c)"
    and s: "s = LCode (tunnel_in c i # map (tunnel_in c) d) ls m" and t: "t = LCode (i # d) ls m"
  proof (cases s)
    case (LCode x ls m)
    with assms that show ?thesis by (cases x) (auto simp: tunnel_match_def)
  qed (use assms in auto)
  note step = assms(2) [unfolded s tunnel_in_def linear_step_effect effect_tunnel]
  show ?thesis
  proof (cases "effect M cc i ls m")
    case (Fall ls' m')
    with step have "s' = LCode (map (tunnel_in c) d) ls' m'"
      by (simp add: tunnel_in_def)
    moreover have "linear_step M cc c t (LCode d ls' m')"
      by (simp add: t linear_step_effect Fall)
    ultimately show ?thesis
      using tunnel_match_code [OF dist, of d ls' m'] by (auto intro!: exI [of _ "LCode d ls' m'"])
  next
    case (Jump l)
    let ?r = "redirect (resolved_of c) l"
    from step Jump obtain c' where c': "find_label ?r c = Some c'"
      and s': "s' = LCode (map (tunnel_in c) c') ls m"
      by (auto simp: find_label_tunnel simp flip: tunnel_in_def)
    obtain d' where d': "find_label l c = Some d'"
      using c' hop_goto [OF dist] redirect_id by (cases "jt_of c l") (auto, blast)
    have "linear_step M cc c t (LCode d' ls m)"
      by (simp add: t linear_step_effect Jump d')
    then have "(linear_step M cc c)\<^sup>+\<^sup>+ t (LCode c' ls m)"
      using hops_steps [OF dist refl redirect_hops_of c' d'] by (rule rtranclp_into_tranclp2)
    then show ?thesis
      using s' tunnel_match_code [OF dist, of c' ls m] by (intro exI [of _ "LCode c' ls m"]) simp
  next
    case (Stop r)
    with step show ?thesis
      using tunnel_match_final [OF dist, of r] by (auto simp: t linear_step_effect intro!: exI [of _ "LnFinal r"])
  qed (use step in simp)
qed

lemma tunnel_sim_stuck:
  fixes M :: "('v, 'm) sem"
  assumes "tunnel_match c s t" and "stuck (linear_step M cc (map (tunnel_in c) c)) linear_final s"
  shows "\<exists>t'. (linear_step M cc c)\<^sup>*\<^sup>* t t' \<and> stuck (linear_step M cc c) linear_final t'"
proof -
  from assms obtain d ls m where dist: "distinct (labels_of c)"
    and s: "s = LCode (map (tunnel_in c) d) ls m" and t: "t = LCode d ls m"
    by (auto simp: tunnel_match_def stuck_def)
  show ?thesis
  proof (cases "stuck (linear_step M cc c) linear_final t")
    case False
    with t obtain i d1 where d: "d = i # d1" by (cases d) (auto simp: stuck_def)
    note st = assms(2) [unfolded s d list.map stuck_def tunnel_in_def linear_step_effect effect_tunnel,
        THEN conjunct1]
    from False st obtain l where eff: "effect M cc i ls m = Jump l"
      by (cases "effect M cc i ls m") (auto simp: t d stuck_def linear_step_effect)
    from False eff obtain d' where d': "find_label l c = Some d'"
      by (auto simp: t d stuck_def linear_step_effect)
    from st eff have "find_label (redirect (resolved_of c) l) c = None"
      by (auto simp: find_label_tunnel simp flip: tunnel_in_def)
    from hops_stuck [where M = M and cc = cc and ls = ls and m = m, OF dist redirect_hops_of this d'] obtain t' where
      "(linear_step M cc c)\<^sup>*\<^sup>* (LCode d' ls m) t'" "stuck (linear_step M cc c) linear_final t'"
      by blast
    moreover have "linear_step M cc c t (LCode d' ls m)"
      by (simp add: t d linear_step_effect eff d')
    ultimately show ?thesis by (meson converse_rtranclp_into_rtranclp)
  qed blast
qed

interpretation tunnel: fsim_strict "linear_step M cc (map (tunnel_in c) c)" linear_final
    "linear_step M cc c" linear_final "tunnel_match c" "\<lambda>_. 0"
  for M :: "('v, 'm) sem" and cc c
proof (unfold_locales, goal_cases)
  case (1 s t s')
  then show ?case using tunnel_sim_step by blast
next
  case (2 s t r)
  then show ?case by (cases s) (auto simp: tunnel_match_def)
next
  case (3 s t)
  then show ?case by (rule tunnel_sim_stuck)
qed

lemma tunnel_behaviour:
  assumes "distinct (labels_of (lin_code f))"
  shows "behaves (linear_step M cc (lin_code (Tunnel f))) linear_final
           (LCode (lin_code (Tunnel f)) ls m) b
     \<longleftrightarrow> behaves (linear_step M cc (lin_code f)) linear_final (LCode (lin_code f) ls m) b"
  unfolding Tunnel_code by (rule tunnel.behaviours_equal) (rule tunnel_match_code [OF assms])

section \<open>Properties\<close>

text \<open>
  Property C18. Tunneling preserves the meaning of a function whose labels are distinct: for every
  meaning of the operations, every calling convention and every start state, the tunneled code
  terminates with the same outcome, diverges or goes wrong exactly when the original code does.
\<close>

theorem Tunnel_correct:
  assumes "distinct (labels_of (lin_code f))"
  shows "behaves (linear_step M cc (lin_code (Tunnel f))) linear_final
           (LCode (lin_code (Tunnel f)) ls m) b
     \<longleftrightarrow> behaves (linear_step M cc (lin_code f)) linear_final (LCode (lin_code f) ls m) b"
  using assms by (rule tunnel_behaviour)

definition tunnel_example :: linear_function where
  "tunnel_example = (linear_NewFunction ''f'' \<lparr>sig_args = [], sig_return = ''int'', sig_vararg = False\<rparr>)
     \<lparr>lin_code := [Llabel 1, LcondL (Ccompimm Ceq 0) [R X1] 2, Lgoto 3,
        Llabel 2, Lgoto 4, Llabel 3, Lgoto 2, Llabel 4, LreturnL]\<rparr>"

theorem Tunnel_correct_witness:
  "distinct (labels_of (lin_code tunnel_example)) \<and>
   lin_code (Tunnel tunnel_example) = [Llabel 1, LcondL (Ccompimm Ceq 0) [R X1] 4, Lgoto 4,
        Llabel 2, Lgoto 4, Llabel 3, Lgoto 4, Llabel 4, LreturnL] \<and>
   (\<forall>(M :: (nat, nat) sem) cc ls m b.
      behaves (linear_step M cc (lin_code (Tunnel tunnel_example))) linear_final
           (LCode (lin_code (Tunnel tunnel_example)) ls m) b
      \<longleftrightarrow> behaves (linear_step M cc (lin_code tunnel_example)) linear_final
           (LCode (lin_code tunnel_example) ls m) b)"
proof (intro conjI allI)
  show d: "distinct (labels_of (lin_code tunnel_example))"
    by (simp add: tunnel_example_def)
  show "lin_code (Tunnel tunnel_example) = [Llabel 1, LcondL (Ccompimm Ceq 0) [R X1] 4, Lgoto 4,
        Llabel 2, Lgoto 4, Llabel 3, Lgoto 4, Llabel 4, LreturnL]"
    by code_simp
  show "behaves (linear_step M cc (lin_code (Tunnel tunnel_example))) linear_final
           (LCode (lin_code (Tunnel tunnel_example)) ls m) b
      \<longleftrightarrow> behaves (linear_step M cc (lin_code tunnel_example)) linear_final
           (LCode (lin_code tunnel_example) ls m) b"
    for M :: "(nat, nat) sem" and cc ls m b
    by (rule Tunnel_correct [OF d])
qed

text \<open>
  Property C20. \<open>resolveLabel\<close> returns: on the jump map of any function its loop stops within one
  round per instruction plus two, cyclic goto chains included, at a label reached from the given
  one along the map, and there either the chain has ended or it has closed a cycle.
\<close>

theorem resolveLabel_returns:
  "\<exists>r. resolveLabel (length (lin_code f)) l (buildJumpTargetMap f) = Some r
     \<and> (hop (buildJumpTargetMap f))\<^sup>*\<^sup>* l r
     \<and> (buildJumpTargetMap f r = None \<or> (hop (buildJumpTargetMap f))\<^sup>+\<^sup>+ r r)"
proof -
  let ?jt = "buildJumpTargetMap f" and ?n = "length (lin_code f) + 2"
  obtain r where r: "resolve_loop ?n ?jt {} l = Some r"
    using resolve_loop_enough [of ?jt "{}" ?n] buildJumpTargetMap_card [of f] by auto
  moreover have "?jt r = None \<or> (hop ?jt)\<^sup>+\<^sup>+ r r"
    using resolve_loop_end [OF r] by simp
  moreover have "(hop ?jt)\<^sup>*\<^sup>* l r"
    using r by (rule resolve_loop_hops)
  ultimately show ?thesis
    unfolding resolveLabel_def by blast
qed

end
