(* ===== verification/CleanupLabels.thy ===== *)
theory CleanupLabels
  imports Linear
begin

text \<open>
  Label cleanup (\<open>pkg/linearize/cleanup.go\<close>): labels that no jump names are removed, except the
  first one, which marks the function's entry. The behaviour of the code is unchanged, and a label
  that is named or first is kept.
\<close>

section \<open>The pass\<close>

text \<open>\<open>collectUsedLabels\<close>.\<close>

fun used_from :: "label set \<Rightarrow> linear_instr list \<Rightarrow> label set" where
  "used_from used [] = used"
| "used_from used (Lgoto l # is) = used_from (insert l used) is"
| "used_from used (LcondL _ _ l # is) = used_from (insert l used) is"
| "used_from used (LjumptableL _ ts # is) = used_from (used \<union> set ts) is"
| "used_from used (_ # is) = used_from used is"

definition collectUsedLabels :: "linear_function \<Rightarrow> label set" where
  "collectUsedLabels f = used_from {} (lin_code f)"

text \<open>The first label of the code; Go's zero value when there is none.\<close>

fun entryLabel :: "linear_instr list \<Rightarrow> label" where
  "entryLabel [] = 0"
| "entryLabel (Llabel l # is) = l"
| "entryLabel (_ # is) = entryLabel is"

fun keeps :: "label set \<Rightarrow> linear_instr \<Rightarrow> bool" where
  "keeps used (Llabel l) \<longleftrightarrow> l \<in> used"
| "keeps used _ \<longleftrightarrow> True"

definition CleanupLabels :: "linear_function \<Rightarrow> linear_function" where
  "CleanupLabels f =
     (if lin_code f = [] then f
      else let used = insert (entryLabel (lin_code f)) (collectUsedLabels f)
           in f\<lparr>lin_code := filter (keeps used) (lin_code f)\<rparr>)"

section \<open>Lemmas\<close>

lemma used_from_eq: "used_from used c = used \<union> (\<Union>i\<in>set c. set (instr_targets i))"
  by (induction used c rule: used_from.induct) auto

definition kept_in :: "linear_instr list \<Rightarrow> linear_instr \<Rightarrow> bool" where
  "kept_in c = keeps (insert (entryLabel c) (used_from {} c))"

lemma CleanupLabels_code: "lin_code (CleanupLabels f) = filter (kept_in (lin_code f)) (lin_code f)"
  by (simp add: CleanupLabels_def Let_def kept_in_def collectUsedLabels_def)

lemma kept_label: "kept_in c (Llabel l) \<longleftrightarrow> l = entryLabel c \<or> (\<exists>i\<in>set c. l \<in> set (instr_targets i))"
  by (auto simp: kept_in_def used_from_eq)

lemma jump_kept: "effect M cc i ls m = Jump l \<Longrightarrow> i \<in> set c \<Longrightarrow> kept_in c (Llabel l)"
  by (auto simp: kept_label dest: effect_Jump_target)

lemma not_kept: "\<not> kept_in c i \<Longrightarrow> \<exists>l. i = Llabel l"
  by (cases i) (auto simp: kept_in_def)

lemma find_label_cleanup:
  "kept_in c (Llabel l) \<Longrightarrow>
     find_label l (filter (kept_in c) d) = map_option (filter (kept_in c)) (find_label l d)"
  by (induction d) auto

lemma find_label_subset: "find_label l c = Some d \<Longrightarrow> set d \<subseteq> set c"
  by (auto dest!: find_label_Some)

text \<open>The original code steps over the labels that cleanup removes.\<close>

lemma skip_labels:
  "filter (kept_in c) d = i # e \<Longrightarrow>
     \<exists>d'. (linear_step M cc c)\<^sup>*\<^sup>* (LCode d ls m) (LCode (i # d') ls m) \<and>
          filter (kept_in c) d' = e \<and> set (i # d') \<subseteq> set d"
proof (induction d)
  case (Cons j d)
  show ?case
  proof (cases "kept_in c j")
    case True
    with Cons.prems have "j = i" "filter (kept_in c) d = e" by auto
    then show ?thesis by (intro exI [of _ d]) auto
  next
    case False
    then obtain l where "j = Llabel l" using not_kept by blast
    then have "linear_step M cc c (LCode (j # d) ls m) (LCode d ls m)"
      by (simp add: linear_step_effect)
    with Cons False show ?thesis
      by (fastforce intro: converse_rtranclp_into_rtranclp)
  qed
qed simp

lemma skip_labels_end:
  "filter (kept_in c) d = [] \<Longrightarrow> (linear_step M cc c)\<^sup>*\<^sup>* (LCode d ls m) (LCode [] ls m)"
proof (induction d)
  case (Cons j d)
  then obtain l where "j = Llabel l" using not_kept by (metis filter.simps(2) list.distinct(1))
  then have "linear_step M cc c (LCode (j # d) ls m) (LCode d ls m)"
    by (simp add: linear_step_effect)
  moreover have "(linear_step M cc c)\<^sup>*\<^sup>* (LCode d ls m) (LCode [] ls m)"
    using Cons by (metis filter.simps(2) list.distinct(1))
  ultimately show ?case by (rule converse_rtranclp_into_rtranclp)
qed simp

section \<open>Simulation\<close>

definition cleanup_match ::
  "linear_instr list \<Rightarrow> ('v, 'm) linear_state \<Rightarrow> ('v, 'm) linear_state \<Rightarrow> bool" where
  "cleanup_match c s t \<longleftrightarrow>
     (\<exists>d ls m. s = LCode (filter (kept_in c) d) ls m \<and> t = LCode d ls m \<and> set d \<subseteq> set c) \<or>
     (\<exists>r. s = LnFinal r \<and> t = s)"

lemma cleanup_match_code:
  "set d \<subseteq> set c \<Longrightarrow> cleanup_match c (LCode (filter (kept_in c) d) ls m) (LCode d ls m)"
  by (auto simp: cleanup_match_def)

lemma cleanup_sim_step:
  fixes M :: "('v, 'm) sem"
  assumes "cleanup_match c s t" and "linear_step M cc (filter (kept_in c) c) s s'"
  shows "\<exists>t'. (linear_step M cc c)\<^sup>+\<^sup>+ t t' \<and> cleanup_match c s' t'"
proof -
  from assms obtain d ls m where sub: "set d \<subseteq> set c"
    and s: "s = LCode (filter (kept_in c) d) ls m" and t: "t = LCode d ls m"
    by (auto simp: cleanup_match_def)
  from assms(2) s obtain i e where f: "filter (kept_in c) d = i # e"
    by (cases "filter (kept_in c) d") auto
  from skip_labels [OF f, where M = M and cc = cc and ls = ls and m = m] sub obtain d' where
    star: "(linear_step M cc c)\<^sup>*\<^sup>* t (LCode (i # d') ls m)"
    and e: "e = filter (kept_in c) d'" and sub': "i \<in> set c" "set d' \<subseteq> set c"
    by (auto simp: t)
  have "\<exists>t'. linear_step M cc c (LCode (i # d') ls m) t' \<and> cleanup_match c s' t'"
  proof (cases "effect M cc i ls m")
    case (Fall ls' m')
    then show ?thesis
      using assms(2) sub' by (auto simp: s f e linear_step_effect intro: cleanup_match_code)
  next
    case (Jump l)
    then have "kept_in c (Llabel l)"
      using sub'(1) by (rule jump_kept)
    with Jump assms(2) obtain c' where "find_label l c = Some c'"
      "s' = LCode (filter (kept_in c) c') ls m"
      by (auto simp: s f linear_step_effect find_label_cleanup)
    with Jump show ?thesis
      by (auto simp: linear_step_effect intro!: cleanup_match_code dest: find_label_subset)
  next
    case (Stop r)
    then show ?thesis
      using assms(2) by (auto simp: s f linear_step_effect cleanup_match_def)
  qed (use assms(2) in \<open>simp add: s f linear_step_effect\<close>)
  with star show ?thesis by (meson rtranclp_into_tranclp1)
qed

lemma cleanup_sim_stuck:
  fixes M :: "('v, 'm) sem"
  assumes "cleanup_match c s t" and st: "stuck (linear_step M cc (filter (kept_in c) c)) linear_final s"
  shows "\<exists>t'. (linear_step M cc c)\<^sup>*\<^sup>* t t' \<and> stuck (linear_step M cc c) linear_final t'"
proof -
  from assms obtain d ls m where sub: "set d \<subseteq> set c"
    and s: "s = LCode (filter (kept_in c) d) ls m" and t: "t = LCode d ls m"
    by (auto simp: cleanup_match_def stuck_def)
  show ?thesis
  proof (cases "filter (kept_in c) d")
    case Nil
    from skip_labels_end [OF Nil] show ?thesis
      by (auto simp: t stuck_def intro!: exI [of _ "LCode [] ls m"])
  next
    case (Cons i e)
    from skip_labels [OF Cons, where M = M and cc = cc and ls = ls and m = m] sub obtain d' where
      star: "(linear_step M cc c)\<^sup>*\<^sup>* t (LCode (i # d') ls m)" and "i \<in> set c"
      by (auto simp: t)
    then have "effect M cc i ls m = Jump l \<Longrightarrow> kept_in c (Llabel l)" for l
      using jump_kept by metis
    then have "stuck (linear_step M cc c) linear_final (LCode (i # d') ls m)"
      using st by (cases "effect M cc i ls m")
        (auto simp: s Cons stuck_def linear_step_effect find_label_cleanup)
    with star show ?thesis by blast
  qed
qed

interpretation cleanup: fsim_strict "linear_step M cc (filter (kept_in c) c)" linear_final
    "linear_step M cc c" linear_final "cleanup_match c" "\<lambda>_. 0"
  for M :: "('v, 'm) sem" and cc c
proof (unfold_locales, goal_cases)
  case (1 s t s')
  then show ?case using cleanup_sim_step by blast
next
  case (2 s t r)
  then show ?case by (cases s) (auto simp: cleanup_match_def)
next
  case (3 s t)
  then show ?case by (rule cleanup_sim_stuck)
qed

lemma cleanup_behaviour:
  "behaves (linear_step M cc (lin_code (CleanupLabels f))) linear_final
           (LCode (lin_code (CleanupLabels f)) ls m) b
     \<longleftrightarrow> behaves (linear_step M cc (lin_code f)) linear_final (LCode (lin_code f) ls m) b"
  unfolding CleanupLabels_code by (rule cleanup.behaviours_equal) (rule cleanup_match_code, simp)

section \<open>Properties\<close>

text \<open>
  Property C19. Removing unreferenced labels preserves the meaning of every function: cleaned code
  terminates with the same outcome, diverges or goes wrong exactly when the original code does.
\<close>

theorem CleanupLabels_correct:
  "behaves (linear_step M cc (lin_code (CleanupLabels f))) linear_final
           (LCode (lin_code (CleanupLabels f)) ls m) b
     \<longleftrightarrow> behaves (linear_step M cc (lin_code f)) linear_final (LCode (lin_code f) ls m) b"
  by (rule cleanup_behaviour)

text \<open>
  After cleanup the labels that are left are exactly those that were defined and are
  the entry label or the target of a jump, and every other instruction is left in place.
\<close>

theorem CleanupLabels_labels:
  "(\<forall>l. Llabel l \<in> set (lin_code (CleanupLabels f)) \<longleftrightarrow>
     Llabel l \<in> set (lin_code f) \<and> (l = entryLabel (lin_code f) \<or> l \<in> set (ReferencedLabels f))) \<and>
   filter (\<lambda>i. instr_labels i = []) (lin_code (CleanupLabels f)) =
     filter (\<lambda>i. instr_labels i = []) (lin_code f)"
proof -
  have "filter (\<lambda>i. instr_labels i = []) (filter (kept_in c) d) = filter (\<lambda>i. instr_labels i = []) d" for c d
    by (induction d) (auto dest: not_kept)
  then show ?thesis
    by (auto simp: CleanupLabels_code kept_label ReferencedLabels_set)
qed

end
