(* ===== verification/CallMoves.thy ===== *)
theory CallMoves
  imports Linear
begin

text \<open>
  Argument passing (\<open>convertCall\<close> of \<open>pkg/linearize/linearize.go\<close>): the arguments of a call are
  moved, as one parallel assignment, from wherever the allocator put them to the argument registers
  and the outgoing stack area. Cycles are broken with \<open>X8\<close>.

  Go visits the entries of a map in an unspecified order. The model takes that order from an
  oracle: \<open>ord k\<close> lists the registers in the order in which the \<open>k\<close>-th \<open>range\<close> statement visits
  them. \<open>darwin\<close> stands for \<open>runtime.GOOS == "darwin"\<close>.
\<close>

section \<open>The code\<close>

definition knownVariadicFuncs :: "string \<rightharpoonup> nat" where
  "knownVariadicFuncs = map_of
     [(''printf'', 1), (''fprintf'', 2), (''sprintf'', 2), (''snprintf'', 3), (''dprintf'', 2),
      (''scanf'', 1), (''fscanf'', 2), (''sscanf'', 2),
      (''execl'', 1), (''execlp'', 1), (''execle'', 1), (''fcntl'', 2), (''ioctl'', 2),
      (''open'', 2), (''openat'', 3), (''semctl'', 3), (''syslog'', 2)]"

abbreviation (input) tempReg :: mreg where "tempReg \<equiv> X8"

definition isVariadicCall :: "loc funRef \<Rightarrow> bool \<times> nat" where
  "isVariadicCall fn = (case fn of
     FunSymbol name \<Rightarrow> (case knownVariadicFuncs name of Some fixedArgs \<Rightarrow> (True, fixedArgs) | None \<Rightarrow> (False, 0))
   | FunReg _ \<Rightarrow> (False, 0))"

definition useDarwinVariadicConvention :: "bool \<Rightarrow> loc funRef \<Rightarrow> bool" where
  "useDarwinVariadicConvention darwin fn \<longleftrightarrow> fst (isVariadicCall fn) \<and> darwin"

definition maxRegArgs :: "bool \<Rightarrow> loc funRef \<Rightarrow> nat" where
  "maxRegArgs darwin fn =
     (if useDarwinVariadicConvention darwin fn \<and> snd (isVariadicCall fn) < length IntArgRegs
      then snd (isVariadicCall fn) else length IntArgRegs)"

definition overflowStart :: "bool \<Rightarrow> loc funRef \<Rightarrow> nat" where
  "overflowStart darwin fn =
     (if useDarwinVariadicConvention darwin fn then snd (isVariadicCall fn) else maxRegArgs darwin fn)"

type_synonym moves = "mreg \<rightharpoonup> loc"

fun build_moves :: "nat \<Rightarrow> nat \<Rightarrow> loc list \<Rightarrow> moves \<Rightarrow> moves" where
  "build_moves maxr i [] mv = mv"
| "build_moves maxr i (a # as) mv =
     (if maxr \<le> i then mv
      else let targetReg = IntArgRegs ! i
           in build_moves maxr (Suc i) as (if a = R targetReg then mv else mv(targetReg \<mapsto> a)))"

text \<open>The stores of the arguments that do not fit into registers, from the \<open>j\<close>-th on.\<close>

fun store_overflow :: "nat \<Rightarrow> loc list \<Rightarrow> linear_instr list" where
  "store_overflow j [] = []"
| "store_overflow j (a # as) =
     (case a of
        R r \<Rightarrow> [Lsetstack r SlotOutgoing (int j * 8) Tlong]
      | _ \<Rightarrow> [LopL Omove [a] (R tempReg), Lsetstack tempReg SlotOutgoing (int j * 8) Tlong])
     @ store_overflow (Suc j) as"

definition isSourceOfPendingMove :: "moves \<Rightarrow> mreg list \<Rightarrow> mreg \<Rightarrow> bool" where
  "isSourceOfPendingMove mv dn r \<longleftrightarrow>
     list_ex (\<lambda>d. d \<notin> set dn \<and> mv d = Some (R r)) IntArgRegs"

text \<open>The keys of \<open>moves\<close> are argument registers; those not in \<open>done\<close> are pending.\<close>

definition pending :: "moves \<Rightarrow> mreg list \<Rightarrow> mreg list" where
  "pending mv dn = filter (\<lambda>d. mv d \<noteq> None \<and> d \<notin> set dn) IntArgRegs"

text \<open>One pass over the moves: perform those whose destination no pending move still reads.\<close>

fun try_moves :: "mreg list \<Rightarrow> moves \<Rightarrow> mreg list \<Rightarrow> linear_instr list \<Rightarrow> mreg list \<times> linear_instr list" where
  "try_moves [] mv dn out = (dn, out)"
| "try_moves (d # ds) mv dn out = (case mv d of
     None \<Rightarrow> try_moves ds mv dn out
   | Some src \<Rightarrow>
       if d \<in> set dn then try_moves ds mv dn out
       else if isSourceOfPendingMove mv dn d then try_moves ds mv dn out
       else try_moves ds mv (dn @ [d]) (out @ [LopL Omove [src] (R d)]))"

definition retarget :: "moves \<Rightarrow> mreg \<Rightarrow> moves" where
  "retarget mv s = (\<lambda>d. if mv d = Some (R s) then Some (R tempReg) else mv d)"

text \<open>A pass without progress: save the source of the first pending move in the temporary.\<close>

fun break_cycle :: "mreg list \<Rightarrow> moves \<Rightarrow> mreg list \<Rightarrow> linear_instr list \<Rightarrow>
    moves \<times> mreg list \<times> linear_instr list" where
  "break_cycle [] mv dn out = (mv, dn, out)"
| "break_cycle (d # ds) mv dn out = (case mv d of
     None \<Rightarrow> break_cycle ds mv dn out
   | Some src \<Rightarrow>
       if d \<in> set dn then break_cycle ds mv dn out
       else (case src of
               R s \<Rightarrow> (retarget mv s, dn, out @ [LopL Omove [R s] (R tempReg)])
             | _ \<Rightarrow> (mv, dn @ [d], out @ [LopL Omove [src] (R d)])))"

text \<open>
  The loop \<open>for len(done) < len(moves)\<close>, with fuel. \<open>done\<close> only holds keys of \<open>moves\<close>, each once,
  so the loop goes on exactly while a move is pending.
\<close>

fun move_loop :: "nat \<Rightarrow> (nat \<Rightarrow> mreg list) \<Rightarrow> nat \<Rightarrow> moves \<Rightarrow> mreg list \<Rightarrow> linear_instr list \<Rightarrow>
    linear_instr list option" where
  "move_loop 0 ord k mv dn out = None"
| "move_loop (Suc n) ord k mv dn out =
     (if pending mv dn = [] then Some out
      else let (dn', out') = try_moves (ord k) mv dn out
           in if dn' \<noteq> dn then move_loop n ord (k + 1) mv dn' out'
              else let (mv'', dn'', out'') = break_cycle (ord (k + 1)) mv dn' out'
                   in move_loop n ord (k + 2) mv'' dn'' out'')"

text \<open>
  Each of the eight moves takes at most two rounds; a first round may only break a cycle and the
  last one ends the loop.
\<close>

abbreviation (input) move_fuel :: nat where "move_fuel \<equiv> 18"

definition convertCall ::
  "bool \<Rightarrow> (nat \<Rightarrow> mreg list) \<Rightarrow> sig \<Rightarrow> loc funRef \<Rightarrow> loc list \<Rightarrow> linear_instr list option" where
  "convertCall darwin ord sg fn args =
     (let mv = build_moves (maxRegArgs darwin fn) 0 args Map.empty;
          stores = store_overflow 0 (drop (overflowStart darwin fn) args)
      in map_option (\<lambda>out. out @ [LcallL sg fn]) (move_loop move_fuel ord 0 mv [] stores))"

section \<open>Straight-line execution\<close>

text \<open>Moves and stack stores do not touch memory and never get stuck.\<close>

fun run_moves :: "('v, 'm) sem \<Rightarrow> linear_instr list \<Rightarrow> 'v locset \<Rightarrow> 'v locset" where
  "run_moves M [] ls = ls"
| "run_moves M (LopL Omove [a] d # is) ls = run_moves M is (loc_set M d (ls a) ls)"
| "run_moves M (Lsetstack r k ofs t # is) ls = run_moves M is (loc_set M (S k ofs t) (ls (R r)) ls)"
| "run_moves M (_ # is) ls = run_moves M is ls"

fun is_move :: "linear_instr \<Rightarrow> bool" where
  "is_move (LopL Omove [a] d) \<longleftrightarrow> True"
| "is_move (Lsetstack r k ofs t) \<longleftrightarrow> True"
| "is_move _ \<longleftrightarrow> False"

lemma run_moves_append:
  "list_all is_move is \<Longrightarrow> run_moves M (is @ js) ls = run_moves M js (run_moves M is ls)"
  by (induction M "is" ls rule: run_moves.induct) auto

lemma run_moves_steps:
  "list_all is_move is \<Longrightarrow>
     (linear_step M cc code)\<^sup>*\<^sup>* (LCode (is @ c) ls m) (LCode c (run_moves M is ls) m)"
proof (induction M "is" ls rule: run_moves.induct)
  case (2 M a d "is" ls)
  then have "linear_step M cc code (LCode ((LopL Omove [a] d # is) @ c) ls m)
      (LCode (is @ c) (loc_set M d (ls a) ls) m)"
    by (simp add: linear_step_effect)
  with 2 show ?case by (auto intro: converse_rtranclp_into_rtranclp)
next
  case (3 M r k ofs t "is" ls)
  then have "linear_step M cc code (LCode ((Lsetstack r k ofs t # is) @ c) ls m)
      (LCode (is @ c) (loc_set M (S k ofs t) (ls (R r)) ls) m)"
    by (simp add: linear_step_effect)
  with 3 show ?case by (auto intro: converse_rtranclp_into_rtranclp)
qed auto

section \<open>The parallel move\<close>

text \<open>
  Relative to the locations \<open>L0\<close> at the start and the moves \<open>mv0\<close> asked for: finished destinations
  hold their values, the sources of pending moves still hold theirs, and nothing outside the
  destinations and the temporary has changed.
\<close>

definition par_inv :: "moves \<Rightarrow> 'v locset \<Rightarrow> moves \<Rightarrow> mreg list \<Rightarrow> 'v locset \<Rightarrow> bool" where
  "par_inv mv0 L0 mv dn ls \<longleftrightarrow>
     dom mv = dom mv0 \<and> dom mv0 \<subseteq> set IntArgRegs \<and> set dn \<subseteq> dom mv0 \<and>
     (\<forall>d\<in>set dn. ls (R d) = L0 (the (mv0 d))) \<and>
     (\<forall>d\<in>dom mv0 - set dn. ls (the (mv d)) = L0 (the (mv0 d))) \<and>
     (\<forall>l. l \<noteq> R tempReg \<longrightarrow> l \<notin> R ` dom mv0 \<longrightarrow> ls l = L0 l)"

lemma par_inv_pending:
  "par_inv mv0 L0 mv dn ls \<Longrightarrow> d \<in> dom mv0 \<Longrightarrow> d \<notin> set dn \<Longrightarrow> ls (the (mv d)) = L0 (the (mv0 d))"
  by (simp add: par_inv_def)

lemma isSource_iff:
  "dom mv \<subseteq> set IntArgRegs \<Longrightarrow>
     isSourceOfPendingMove mv dn r \<longleftrightarrow> (\<exists>d. d \<notin> set dn \<and> mv d = Some (R r))"
  by (auto simp: isSourceOfPendingMove_def list_ex_iff)

lemma isSource_antimono:
  "set dn \<subseteq> set dn' \<Longrightarrow> isSourceOfPendingMove mv dn' r \<Longrightarrow> isSourceOfPendingMove mv dn r"
  by (auto simp: isSourceOfPendingMove_def list_ex_iff)

lemma par_inv_move:
  assumes inv: "par_inv mv0 L0 mv dn ls" and mv: "mv d = Some src" and "d \<notin> set dn"
    and free: "\<not> isSourceOfPendingMove mv dn d"
  shows "par_inv mv0 L0 mv (dn @ [d]) (ls(R d := ls src))"
proof -
  have doms: "dom mv = dom mv0" "dom mv \<subseteq> set IntArgRegs"
    using inv by (auto simp: par_inv_def)
  have "the (mv e) \<noteq> R d" if e: "e \<in> dom mv0 - set dn" for e
  proof -
    from e doms obtain l where l: "mv e = Some l" by blast
    then have "l \<noteq> R d" using free e isSource_iff [OF doms(2)] by blast
    then show ?thesis using l by simp
  qed
  moreover have "d \<in> dom mv0" using mv doms by blast
  moreover have "ls src = L0 (the (mv0 d))"
    using par_inv_pending [OF inv, of d] \<open>d \<in> dom mv0\<close> mv \<open>d \<notin> set dn\<close> by simp
  ultimately show ?thesis
    using inv \<open>d \<notin> set dn\<close> by (auto simp: par_inv_def)
qed

lemma try_moves_ok:
  assumes "par_inv mv0 L0 mv dn ls" and "try_moves ds mv dn out = (dn', out')"
  shows "\<exists>new ms. dn' = dn @ new \<and> out' = out @ ms \<and> list_all is_move ms \<and>
           par_inv mv0 L0 mv dn' (run_moves M ms ls)"
  using assms
proof (induction ds mv dn out arbitrary: ls rule: try_moves.induct)
  case (1 mv dn out)
  then show ?case by auto
next
  case (2 d ds mv dn out)
  show ?case
  proof (cases "mv d = None \<or> d \<in> set dn \<or> isSourceOfPendingMove mv dn d")
    case True
    with 2 show ?thesis by (auto split: option.splits if_splits)
  next
    case False
    then obtain src where src: "mv d = Some src" by auto
    with False "2.prems"(1) have inv: "par_inv mv0 L0 mv (dn @ [d]) (ls(R d := ls src))"
      by (simp add: par_inv_move)
    from "2.prems"(2) False src
    have "try_moves ds mv (dn @ [d]) (out @ [LopL Omove [src] (R d)]) = (dn', out')" by simp
    with False obtain new ms where
      "dn' = (dn @ [d]) @ new" "out' = (out @ [LopL Omove [src] (R d)]) @ ms" "list_all is_move ms"
      "par_inv mv0 L0 mv dn' (run_moves M ms (ls(R d := ls src)))"
      using "2.IH"(4) [OF src _ _ inv] by blast
    then show ?thesis
      by (intro exI [of _ "d # new"] exI [of _ "LopL Omove [src] (R d) # ms"]) simp
  qed
qed

lemma try_moves_mono: "try_moves ds mv dn out = (dn', out') \<Longrightarrow> set dn \<subseteq> set dn'"
  by (induction ds mv dn out rule: try_moves.induct) (fastforce split: option.splits if_splits)+

lemma try_moves_progress:
  assumes "d \<in> set ds" and "mv d \<noteq> None" and "\<not> isSourceOfPendingMove mv dn d"
    and "try_moves ds mv dn out = (dn', out')"
  shows "d \<in> set dn'"
  using assms
proof (induction ds mv dn out rule: try_moves.induct)
  case (2 e ds mv dn out)
  show ?case
  proof (cases "mv e = None \<or> e \<in> set dn \<or> isSourceOfPendingMove mv dn e")
    case True
    show ?thesis
    proof (cases "d = e")
      case True
      with \<open>mv e = None \<or> _\<close> "2.prems" have "d \<in> set dn" by auto
      then show ?thesis using "2.prems"(4) try_moves_mono by blast
    qed (use True 2 in \<open>auto split: option.splits if_splits\<close>)
  next
    case False
    then obtain src where src: "mv e = Some src" by auto
    with False "2.prems"(4) have
      rec: "try_moves ds mv (dn @ [e]) (out @ [LopL Omove [src] (R e)]) = (dn', out')" by simp
    show ?thesis
    proof (cases "d = e")
      case True
      then show ?thesis using try_moves_mono [OF rec] by auto
    next
      case d: False
      have "\<not> isSourceOfPendingMove mv (dn @ [e]) d"
        using "2.prems"(3) isSource_antimono [of dn "dn @ [e]" mv d] by auto
      with "2.IH"(4) [OF src _ _ _ "2.prems"(2) _ rec] False d "2.prems"(1) show ?thesis by auto
    qed
  qed
qed simp

lemma try_moves_blocked:
  "\<forall>d. mv d \<noteq> None \<longrightarrow> d \<notin> set dn \<longrightarrow> isSourceOfPendingMove mv dn d \<Longrightarrow>
     try_moves ds mv dn out = (dn, out)"
  by (induction ds mv dn out rule: try_moves.induct) (auto split: option.splits)

text \<open>
  When every pending destination is still read by a pending move, the pending moves permute the
  pending registers: by counting, every source is one of them.
\<close>

lemma blocked_permutation:
  assumes dom: "dom mv \<subseteq> set IntArgRegs"
    and blocked: "\<forall>d. mv d \<noteq> None \<longrightarrow> d \<notin> set dn \<longrightarrow> isSourceOfPendingMove mv dn d"
  shows "(\<lambda>d. the (mv d)) ` (dom mv - set dn) = R ` (dom mv - set dn)"
proof (rule image_superset_eq)
  show "finite (dom mv - set dn)"
    using dom by (meson finite_Diff finite_subset List.finite_set)
  show "R ` (dom mv - set dn) \<subseteq> (\<lambda>d. the (mv d)) ` (dom mv - set dn)"
  proof
    fix l assume "l \<in> R ` (dom mv - set dn)"
    then obtain d where d: "d \<in> dom mv - set dn" "l = R d" by blast
    then obtain e where "e \<notin> set dn" "mv e = Some (R d)"
      using blocked isSource_iff [OF dom] by blast
    with d show "l \<in> (\<lambda>d. the (mv d)) ` (dom mv - set dn)"
      by (intro image_eqI [of _ _ e]) auto
  qed
  show "card (R ` (dom mv - set dn)) = card (dom mv - set dn)"
    by (simp add: card_image inj_on_def)
qed

lemma break_cycle_eq:
  assumes "dom mv \<subseteq> set IntArgRegs"
    and blocked: "\<forall>d. mv d \<noteq> None \<longrightarrow> d \<notin> set dn \<longrightarrow> isSourceOfPendingMove mv dn d"
    and "\<exists>d\<in>set ds. mv d \<noteq> None \<and> d \<notin> set dn"
  shows "\<exists>s. break_cycle ds mv dn out = (retarget mv s, dn, out @ [LopL Omove [R s] (R tempReg)]) \<and>
           s \<in> dom mv - set dn"
  using assms(3)
proof (induction ds)
  case (Cons d ds)
  show ?case
  proof (cases "mv d = None \<or> d \<in> set dn")
    case True
    with Cons show ?thesis by (auto split: option.splits)
  next
    case False
    then have "the (mv d) \<in> R ` (dom mv - set dn)"
      using blocked_permutation [OF assms(1) blocked] by blast
    then obtain s where "s \<in> dom mv - set dn" "the (mv d) = R s" by blast
    with False show ?thesis by auto
  qed
qed simp

lemma par_inv_break:
  assumes inv: "par_inv mv0 L0 mv dn ls"
    and blocked: "\<forall>d. mv d \<noteq> None \<longrightarrow> d \<notin> set dn \<longrightarrow> isSourceOfPendingMove mv dn d"
  shows "par_inv mv0 L0 (retarget mv s) dn (ls(R tempReg := ls (R s)))"
proof -
  have doms: "dom mv = dom mv0" "dom mv \<subseteq> set IntArgRegs"
    using inv by (auto simp: par_inv_def)
  have "dom (retarget mv s) = dom mv" by (auto simp: retarget_def split: if_splits)
  moreover have "R tempReg \<notin> R ` dom mv0"
    using doms by (auto simp: set_IntArgRegs)
  moreover have "the (mv d) \<noteq> R tempReg" if "d \<in> dom mv0 - set dn" for d
  proof -
    have "the (mv d) \<in> (\<lambda>d. the (mv d)) ` (dom mv - set dn)"
      using that doms by (intro imageI) simp
    then have "the (mv d) \<in> R ` (dom mv - set dn)"
      by (simp only: blocked_permutation [OF doms(2) blocked])
    then show ?thesis using doms by (auto simp: set_IntArgRegs)
  qed
  moreover have "(ls(R tempReg := ls (R s))) (the (retarget mv s d)) = L0 (the (mv0 d))"
    if d: "d \<in> dom mv0 - set dn" for d
    using calculation(3) [OF d] par_inv_pending [OF inv, of d] d
    by (cases "mv d = Some (R s)") (auto simp: retarget_def)
  ultimately show ?thesis
    using inv unfolding par_inv_def by (auto simp: image_iff)
qed

definition blocked :: "moves \<Rightarrow> mreg list \<Rightarrow> bool" where
  "blocked mv dn \<longleftrightarrow> (\<forall>d. mv d \<noteq> None \<longrightarrow> d \<notin> set dn \<longrightarrow> isSourceOfPendingMove mv dn d)"

lemma set_pending: "dom mv \<subseteq> set IntArgRegs \<Longrightarrow> set (pending mv dn) = dom mv - set dn"
  by (auto simp: pending_def)

lemma pending_shrinks:
  assumes "d \<in> set (pending mv dn)" and "set dn \<subseteq> set dn'" and "d \<in> set dn'"
  shows "length (pending mv dn') < length (pending mv dn)"
proof -
  have "distinct (pending mv dn)" "distinct (pending mv dn')"
    by (auto simp: pending_def IntArgRegs_def)
  moreover have "set (pending mv dn') \<subset> set (pending mv dn)"
    using assms by (auto simp: pending_def)
  ultimately show ?thesis
    by (metis distinct_card psubset_card_mono List.finite_set)
qed

lemma retarget_unblocks:
  assumes "dom mv \<subseteq> set IntArgRegs" and "s \<in> dom mv - set dn"
  shows "\<not> blocked (retarget mv s) dn" "pending (retarget mv s) dn = pending mv dn"
proof -
  have s: "s \<noteq> tempReg" using assms by (auto simp: set_IntArgRegs)
  have dom: "dom (retarget mv s) = dom mv" by (auto simp: retarget_def split: if_splits)
  have "\<not> isSourceOfPendingMove (retarget mv s) dn s"
    using s by (auto simp: isSourceOfPendingMove_def list_ex_iff retarget_def split: if_splits)
  moreover have "retarget mv s s \<noteq> None" using assms(2) dom by blast
  ultimately show "\<not> blocked (retarget mv s) dn"
    using assms(2) by (auto simp: blocked_def)
  have "retarget mv s d = None \<longleftrightarrow> mv d = None" for d
    by (auto simp: retarget_def)
  then show "pending (retarget mv s) dn = pending mv dn" by (simp add: pending_def)
qed

text \<open>The loop returns, and its moves have the effect of the parallel assignment.\<close>

definition par_done :: "moves \<Rightarrow> 'v locset \<Rightarrow> 'v locset \<Rightarrow> bool" where
  "par_done mv0 L0 ls \<longleftrightarrow> (\<forall>d\<in>dom mv0. ls (R d) = L0 (the (mv0 d))) \<and>
     (\<forall>l. l \<noteq> R tempReg \<longrightarrow> l \<notin> R ` dom mv0 \<longrightarrow> ls l = L0 l)"

lemma move_loop_ok:
  assumes ord: "\<And>k. set IntArgRegs \<subseteq> set (ord k)"
    and "par_inv mv0 L0 mv dn ls"
    and "2 * length (pending mv dn) + (if blocked mv dn then 2 else 1) \<le> n"
  shows "\<exists>ms. move_loop n ord k mv dn out = Some (out @ ms) \<and> list_all is_move ms \<and>
           par_done mv0 L0 (run_moves M ms ls)"
  using assms(2,3)
proof (induction n arbitrary: k mv dn ls out)
  case 0
  then show ?case by (auto split: if_splits)
next
  case (Suc n)
  note inv = Suc.prems(1)
  have doms: "dom mv = dom mv0" "dom mv \<subseteq> set IntArgRegs"
    using inv by (auto simp: par_inv_def)
  consider (finished) "pending mv dn = []" | (move) "pending mv dn \<noteq> []" "\<not> blocked mv dn"
    | (break) "pending mv dn \<noteq> []" "blocked mv dn" by blast
  then show ?case
  proof cases
    case finished
    then have "par_done mv0 L0 ls"
      using inv set_pending [OF doms(2), of dn] doms unfolding par_inv_def par_done_def by auto
    with finished show ?thesis by auto
  next
    case move
    obtain dn' out' where t: "try_moves (ord k) mv dn out = (dn', out')" by fastforce
    from move(2) obtain d where d: "mv d \<noteq> None" "d \<notin> set dn" "\<not> isSourceOfPendingMove mv dn d"
      by (auto simp: blocked_def)
    then have dn': "d \<in> set dn'" "set dn \<subseteq> set dn'"
      using try_moves_progress [OF _ d(1,3) t] try_moves_mono [OF t] ord doms by blast+
    have "length (pending mv dn') < length (pending mv dn)"
      using pending_shrinks [OF _ dn'(2,1)] d set_pending [OF doms(2)] by blast
    then have fuel: "2 * length (pending mv dn') + (if blocked mv dn' then 2 else 1) \<le> n"
      using Suc.prems(2) move(2) by simp
    from try_moves_ok [OF inv t, of M] obtain ms1 where ms1: "out' = out @ ms1" "list_all is_move ms1"
      "par_inv mv0 L0 mv dn' (run_moves M ms1 ls)" by blast
    from Suc.IH [OF ms1(3) fuel, of "k + 1" out'] obtain ms2 where
      "move_loop n ord (k + 1) mv dn' out' = Some (out' @ ms2)" "list_all is_move ms2"
      "par_done mv0 L0 (run_moves M ms2 (run_moves M ms1 ls))" by blast
    with ms1 move(1) t d(2) dn'(1) show ?thesis
      by (intro exI [of _ "ms1 @ ms2"]) (auto simp: run_moves_append)
  next
    case break
    have t: "try_moves (ord k) mv dn out = (dn, out)"
      using break(2) by (simp add: blocked_def try_moves_blocked)
    have "\<exists>d\<in>set (ord (k + 1)). mv d \<noteq> None \<and> d \<notin> set dn"
      using break(1) ord [of "k + 1"] set_pending [OF doms(2), of dn] doms(2)
      by (metis DiffE domIff ex_in_conv set_empty subset_iff)
    from break_cycle_eq [OF doms(2) break(2) [unfolded blocked_def] this] obtain s where
      b: "break_cycle (ord (k + 1)) mv dn out =
            (retarget mv s, dn, out @ [LopL Omove [R s] (R tempReg)])"
      and s: "s \<in> dom mv - set dn" by blast
    have inv': "par_inv mv0 L0 (retarget mv s) dn (ls(R tempReg := ls (R s)))"
      using par_inv_break [OF inv] break(2) by (simp add: blocked_def)
    have fuel: "2 * length (pending (retarget mv s) dn) + (if blocked (retarget mv s) dn then 2 else 1) \<le> n"
      using Suc.prems(2) break(2) retarget_unblocks [OF doms(2) s] by simp
    from Suc.IH [OF inv' fuel, of "k + 2" "out @ [LopL Omove [R s] (R tempReg)]"] obtain ms where
      "move_loop n ord (k + 2) (retarget mv s) dn (out @ [LopL Omove [R s] (R tempReg)]) =
         Some ((out @ [LopL Omove [R s] (R tempReg)]) @ ms)" "list_all is_move ms"
      "par_done mv0 L0 (run_moves M ms (ls(R tempReg := ls (R s))))" by blast
    with break(1) t b show ?thesis
      by (intro exI [of _ "LopL Omove [R s] (R tempReg) # ms"]) simp
  qed
qed

section \<open>Stack arguments\<close>

fun is_outgoing :: "loc \<Rightarrow> bool" where
  "is_outgoing (S SlotOutgoing _ _) \<longleftrightarrow> True"
| "is_outgoing _ \<longleftrightarrow> False"

fun is_reg :: "loc \<Rightarrow> bool" where
  "is_reg (R _) \<longleftrightarrow> True"
| "is_reg _ \<longleftrightarrow> False"

lemma overlap_outgoing: "\<not> is_outgoing l \<Longrightarrow> \<not> overlap (S SlotOutgoing ofs t) l"
  by (cases l rule: is_outgoing.cases) auto

lemma overlap_outgoing_slots: "\<not> overlap (S SlotOutgoing (8 * a) Tlong) (S SlotOutgoing (8 * b) Tlong)"
  by auto

lemma store_overflow_moves: "list_all is_move (store_overflow j as)"
  by (induction j as rule: store_overflow.induct) (auto split: loc.splits)

text \<open>The value of the first of the overflow arguments, and the state after its store.\<close>

definition store_one :: "('v, 'm) sem \<Rightarrow> nat \<Rightarrow> loc \<Rightarrow> 'v locset \<Rightarrow> 'v locset" where
  "store_one M j a ls = loc_set M (S SlotOutgoing (8 * int j) Tlong) (ls a)
     (if is_reg a then ls else ls(R tempReg := ls a))"

lemma run_store_overflow_Cons:
  "run_moves M (store_overflow j (a # as)) ls = run_moves M (store_overflow (Suc j) as) (store_one M j a ls)"
  by (cases a) (auto simp: store_one_def mult.commute)

lemma store_one_frame:
  assumes "\<not> is_outgoing l" and "l = R tempReg \<longrightarrow> is_reg a"
  shows "store_one M j a ls l = ls l"
  using assms overlap_outgoing [OF assms(1)] by (auto simp: store_one_def loc_set_def)

lemma store_one_slot:
  "store_one M j a ls (S SlotOutgoing (8 * int i) Tlong) =
     (if i = j then ls a else ls (S SlotOutgoing (8 * int i) Tlong))"
  by (auto simp: store_one_def loc_set_def)

lemma store_overflow_frame:
  assumes "\<not> is_outgoing l" and "l = R tempReg \<longrightarrow> (\<forall>a\<in>set as. is_reg a)"
  shows "run_moves M (store_overflow j as) ls l = ls l"
  using assms(2)
proof (induction as arbitrary: j ls)
  case (Cons a as)
  then show ?case
    unfolding run_store_overflow_Cons by (simp add: store_one_frame [OF assms(1)])
qed simp

lemma store_overflow_below:
  "i < j \<Longrightarrow> run_moves M (store_overflow j as) ls (S SlotOutgoing (8 * int i) Tlong) =
     ls (S SlotOutgoing (8 * int i) Tlong)"
proof (induction as arbitrary: j ls)
  case (Cons a as)
  then show ?case
    unfolding run_store_overflow_Cons by (simp add: store_one_slot)
qed simp

lemma store_overflow_slots:
  assumes "\<forall>a\<in>set as. \<not> is_outgoing a" and "(\<exists>a\<in>set as. \<not> is_reg a) \<longrightarrow> R tempReg \<notin> set as"
    and "i < length as"
  shows "run_moves M (store_overflow j as) ls (S SlotOutgoing (8 * int (j + i)) Tlong) = ls (as ! i)"
  using assms
proof (induction as arbitrary: i j ls)
  case (Cons a as)
  show ?case
  proof (cases i)
    case 0
    then show ?thesis
      using store_overflow_below [of j "Suc j" M as "store_one M j a ls"]
      unfolding run_store_overflow_Cons by (simp add: store_one_slot)
  next
    case (Suc i')
    have "run_moves M (store_overflow (Suc j) as) (store_one M j a ls)
        (S SlotOutgoing (8 * int (Suc j + i')) Tlong) = store_one M j a ls (as ! i')"
      using Cons.IH [of i' "Suc j"] Cons.prems Suc by auto
    also have "\<dots> = ls (as ! i')"
      using Cons.prems Suc by (intro store_one_frame) (auto dest: nth_mem)
    finally show ?thesis using Suc unfolding run_store_overflow_Cons by simp
  qed
qed simp

section \<open>Register arguments\<close>

lemma maxRegArgs_le: "maxRegArgs darwin fn \<le> 8"
  by (simp add: maxRegArgs_def)

lemma knownVariadicFuncs_small: "knownVariadicFuncs f = Some n \<Longrightarrow> n \<le> 3"
  by (auto simp: knownVariadicFuncs_def split: if_splits)

lemma overflowStart_eq: "overflowStart darwin fn = maxRegArgs darwin fn"
proof -
  have "snd (isVariadicCall fn) < 8"
    by (auto simp: isVariadicCall_def dest!: knownVariadicFuncs_small split: funRef.splits option.splits)
  then show ?thesis by (simp add: overflowStart_def maxRegArgs_def)
qed

lemma build_moves_Cons:
  "i < maxr \<Longrightarrow> maxr \<le> 8 \<Longrightarrow> build_moves maxr i (a # as) mv =
     build_moves maxr (Suc i) as (if a = R (int i) then mv else mv(int i \<mapsto> a))"
  by (simp add: IntArgRegs_nth Let_def)

lemma build_moves_below: "r < int i \<Longrightarrow> maxr \<le> 8 \<Longrightarrow> build_moves maxr i as mv r = mv r"
proof (induction as arbitrary: i mv)
  case (Cons a as)
  then show ?case
    by (cases "i < maxr") (simp_all add: build_moves_Cons del: build_moves.simps(2), simp)
qed simp

lemma build_moves_Some:
  assumes "maxr \<le> 8" and "build_moves maxr i as mv r = Some a"
  shows "mv r = Some a \<or> (\<exists>j<length as. r = int (i + j) \<and> i + j < maxr \<and> a = as ! j)"
  using assms(2)
proof (induction as arbitrary: i mv)
  case (Cons b as)
  show ?case
  proof (cases "i < maxr")
    case True
    let ?mv = "if b = R (int i) then mv else mv(int i \<mapsto> b)"
    from Cons.prems have "build_moves maxr (Suc i) as ?mv r = Some a"
      by (simp only: build_moves_Cons [OF True assms(1)])
    from Cons.IH [OF this] show ?thesis
    proof
      assume "?mv r = Some a"
      with True show ?thesis by (auto split: if_splits intro: exI [of _ 0])
    next
      assume "\<exists>j<length as. r = int (Suc i + j) \<and> Suc i + j < maxr \<and> a = as ! j"
      then obtain j where "j < length as" "r = int (Suc i + j)" "Suc i + j < maxr" "a = as ! j" by blast
      then show ?thesis by (intro disjI2 exI [of _ "Suc j"]) auto
    qed
  qed (use Cons.prems in simp)
qed simp

lemma build_moves_arg:
  assumes "maxr \<le> 8" and "j < length as" and "i + j < maxr"
  shows "build_moves maxr i as mv (int (i + j)) =
     (if as ! j = R (int (i + j)) then mv (int (i + j)) else Some (as ! j))"
  using assms(2,3)
proof (induction as arbitrary: i j mv)
  case (Cons a as)
  then have i: "i < maxr" by simp
  show ?case
  proof (cases j)
    case 0
    then show ?thesis
      by (simp add: build_moves_Cons [OF i assms(1)] build_moves_below [OF _ assms(1)] del: build_moves.simps(2))
  next
    case (Suc j')
    with Cons.prems show ?thesis
      using Cons.IH [of j' "Suc i"]
      by (simp add: build_moves_Cons [OF i assms(1)] del: build_moves.simps(2))
  qed
qed simp

abbreviation arg_moves :: "bool \<Rightarrow> loc funRef \<Rightarrow> loc list \<Rightarrow> moves" where
  "arg_moves darwin fn args \<equiv> build_moves (maxRegArgs darwin fn) 0 args Map.empty"

lemma arg_moves_dom: "dom (arg_moves darwin fn args) \<subseteq> set IntArgRegs"
  using build_moves_Some [OF maxRegArgs_le] maxRegArgs_le [of darwin fn]
  by (fastforce simp: set_IntArgRegs)

lemma arg_moves_in: "arg_moves darwin fn args r = Some a \<Longrightarrow> a \<in> set args"
  using build_moves_Some [OF maxRegArgs_le] by fastforce

section \<open>A call that the moves do not disturb\<close>

text \<open>
  What the generated sequence relies on: no argument comes from the outgoing area itself; if an
  argument must be copied from one stack slot to another, \<open>X8\<close> holds no argument; and a function
  pointer is not in a register that receives an argument, nor in \<open>X8\<close>.
\<close>

definition call_safe :: "bool \<Rightarrow> loc funRef \<Rightarrow> loc list \<Rightarrow> bool" where
  "call_safe darwin fn args \<longleftrightarrow>
     list_all (\<lambda>a. \<not> is_outgoing a) args \<and>
     (list_all is_reg (drop (maxRegArgs darwin fn) args) \<or> R tempReg \<notin> set args) \<and>
     (case fn of
        FunReg (R r) \<Rightarrow> arg_moves darwin fn args r = None \<and> r \<noteq> tempReg
      | FunReg l \<Rightarrow> \<not> is_outgoing l
      | FunSymbol _ \<Rightarrow> True)"

text \<open>Locations no call sequence writes.\<close>

definition call_preserved :: "loc \<Rightarrow> bool" where
  "call_preserved l \<longleftrightarrow> \<not> is_outgoing l \<and> l \<notin> R ` {0..8}"

lemma convertCall_moves:
  fixes M :: "('v, 'm) sem"
  assumes ord: "\<And>k. set IntArgRegs \<subseteq> set (ord k)"
  obtains ms where "convertCall darwin ord sg fn args =
       Some (store_overflow 0 (drop (maxRegArgs darwin fn) args) @ ms @ [LcallL sg fn])"
    and "list_all is_move ms"
    and "\<And>L0 :: 'v locset. par_done (arg_moves darwin fn args) L0 (run_moves M ms L0)"
proof -
  let ?mv = "arg_moves darwin fn args" and ?st = "store_overflow 0 (drop (maxRegArgs darwin fn) args)"
  have inv: "par_inv ?mv L0 ?mv [] L0" for L0 :: "'v locset"
    using arg_moves_dom by (simp add: par_inv_def)
  have "length (pending ?mv []) \<le> 8"
    using length_filter_le [of _ IntArgRegs] by (simp add: pending_def)
  then have fuel: "2 * length (pending ?mv []) + (if blocked ?mv [] then 2 else 1) \<le> move_fuel" by simp
  have loop: "\<exists>ms. move_loop move_fuel ord 0 ?mv [] ?st = Some (?st @ ms) \<and> list_all is_move ms \<and>
      par_done ?mv L0 (run_moves M ms L0)" for L0 :: "'v locset"
    by (rule move_loop_ok [OF ord inv fuel])
  from loop obtain ms where ms: "move_loop move_fuel ord 0 ?mv [] ?st = Some (?st @ ms)" "list_all is_move ms"
    by blast
  moreover have "par_done ?mv L0 (run_moves M ms L0)" for L0 :: "'v locset"
    using loop [of L0] ms(1) by (metis option.inject same_append_eq)
  moreover have "convertCall darwin ord sg fn args = Some (?st @ ms @ [LcallL sg fn])"
    unfolding convertCall_def Let_def overflowStart_eq by (simp only: ms(1) option.map append_assoc)
  ultimately show ?thesis by (intro that)
qed


text \<open>The state after the stores and the moves of a call, location by location.\<close>

lemma after_moves:
  fixes M :: "('v, 'm) sem"
  assumes fin: "par_done (arg_moves darwin fn args) (run_moves M (store_overflow 0 (drop (maxRegArgs darwin fn) args)) ls) ls'"
    and safe: "call_safe darwin fn args"
  shows after_moves_arg: "i < length args \<Longrightarrow> ls' (arg_loc (maxRegArgs darwin fn) i) = ls (args ! i)"
    and after_moves_fun: "fun_value ls' fn = fun_value ls fn"
    and after_moves_frame: "call_preserved l \<Longrightarrow> ls' l = ls l"
proof -
  let ?k = "maxRegArgs darwin fn" and ?mv = "arg_moves darwin fn args"
  let ?L = "run_moves M (store_overflow 0 (drop ?k args)) ls"
  have moved: "ls' (R d) = ?L a" if "?mv d = Some a" for d a
    using fin that unfolding par_done_def by force
  have kept: "ls' l = ?L l" if "l \<noteq> R tempReg" "l \<notin> R ` dom ?mv" for l
    using fin that unfolding par_done_def by blast
  have args: "\<not> is_outgoing a" if "a \<in> set args" for a
    using safe that by (auto simp: call_safe_def list_all_iff)
  have temp: "R tempReg \<in> set args \<Longrightarrow> \<forall>a\<in>set (drop ?k args). is_reg a"
    using safe by (auto simp: call_safe_def list_all_iff)
  have source: "?L a = ls a" if "a \<in> set args" for a
    using args temp that by (intro store_overflow_frame) auto
  have dom: "R d \<notin> R ` dom ?mv \<longleftrightarrow> ?mv d = None" for d by auto
  show "ls' (arg_loc ?k i) = ls (args ! i)" if i: "i < length args"
  proof (cases "i < ?k")
    case True
    then have "i < 8" using maxRegArgs_le [of darwin fn] by simp
    have mv: "?mv (int i) = (if args ! i = R (int i) then None else Some (args ! i))"
      using build_moves_arg [OF maxRegArgs_le i, of 0] True by simp
    show ?thesis
    proof (cases "args ! i = R (int i)")
      case True
      then have "ls' (R (int i)) = ?L (R (int i))"
        using kept [of "R (int i)"] dom mv \<open>i < 8\<close> by simp
      then show ?thesis using \<open>i < ?k\<close> source i True by (metis arg_loc_def nth_mem)
    next
      case False
      then show ?thesis using moved mv source i \<open>i < ?k\<close> by (simp add: arg_loc_def)
    qed
  next
    case False
    have "?L (S SlotOutgoing (8 * int (0 + (i - ?k))) Tlong) = ls (drop ?k args ! (i - ?k))"
      using False i args temp by (intro store_overflow_slots) (auto dest: in_set_dropD)
    then show ?thesis
      using False i kept [of "S SlotOutgoing (8 * int (i - ?k)) Tlong"] by (auto simp: arg_loc_def)
  qed
  show frame: "ls' l = ls l" if "call_preserved l" for l
  proof -
    have "R ` dom ?mv \<subseteq> R ` {0..8}" using arg_moves_dom [of darwin fn args] by (auto simp: set_IntArgRegs)
    then have "ls' l = ?L l" using that by (intro kept) (auto simp: call_preserved_def)
    also have "\<dots> = ls l" using that by (intro store_overflow_frame) (auto simp: call_preserved_def)
    finally show ?thesis .
  qed
  show "fun_value ls' fn = fun_value ls fn"
  proof (cases fn)
    case (FunReg l)
    show ?thesis
    proof (cases "\<exists>r. l = R r")
      case True
      then obtain r where r: "l = R r" by blast
      with FunReg safe have "?mv r = None" "r \<noteq> tempReg" by (auto simp: call_safe_def)
      then have "ls' (R r) = ?L (R r)" "?L (R r) = ls (R r)"
        using kept [of "R r"] store_overflow_frame [of "R r"] dom by auto
      then show ?thesis by (simp add: FunReg r fun_value_def)
    next
      case False
      with FunReg safe have "call_preserved l"
        by (cases l) (auto simp: call_safe_def call_preserved_def)
      then show ?thesis using frame by (simp add: FunReg fun_value_def)
    qed
  qed (simp add: fun_value_def)
qed

section \<open>Properties\<close>

text \<open>
  Property C14. The code generated for a call puts the arguments in place, provided that the sequence itself
  does not disturb them (\<open>call_safe\<close>: no argument comes from the outgoing area; when a stack argument is copied
  to the stack, \<open>X8\<close> holds no argument; a function pointer is neither in \<open>X8\<close> nor in a register that receives
  an argument). Then \<open>convertCall\<close> returns moves followed by the call, whatever the order in which Go visits
  the map of moves, and after the moves every argument is at the place the callee reads it from, register
  cycles included; the function pointer is intact; and nothing but the argument registers, \<open>X8\<close> and the
  outgoing area has changed.
\<close>

theorem convertCall_correct:
  fixes M :: "('v, 'm) sem"
  assumes ord: "\<And>k. set IntArgRegs \<subseteq> set (ord k)" and safe: "call_safe darwin fn args"
  shows "\<exists>ms. convertCall darwin ord sg fn args = Some (ms @ [LcallL sg fn]) \<and> list_all is_move ms \<and>
     (\<forall>ls :: 'v locset. let ls' = run_moves M ms ls in
        (\<forall>i<length args. ls' (arg_loc (maxRegArgs darwin fn) i) = ls (args ! i)) \<and>
        fun_value ls' fn = fun_value ls fn \<and>
        (\<forall>l. call_preserved l \<longrightarrow> ls' l = ls l))"
proof -
  obtain ms where ms: "convertCall darwin ord sg fn args =
       Some (store_overflow 0 (drop (maxRegArgs darwin fn) args) @ ms @ [LcallL sg fn])"
    "list_all is_move ms"
    "\<And>L0 :: 'v locset. par_done (arg_moves darwin fn args) L0 (run_moves M ms L0)"
    using convertCall_moves [where M = M and ord = ord, OF ord] by metis
  note after = after_moves [OF _ safe, of M]
  show ?thesis
    using ms after
    by (intro exI [of _ "store_overflow 0 (drop (maxRegArgs darwin fn) args) @ ms"])
      (simp add: store_overflow_moves run_moves_append Let_def)
qed

text \<open>
  A call that swaps \<open>X0\<close> and \<open>X1\<close>, reads a spilled argument and has a ninth one; the map is
  visited in register order.
\<close>

abbreviation (input) int_sig :: sig where
  "int_sig \<equiv> \<lparr>sig_args = [], sig_return = ''int'', sig_vararg = False\<rparr>"

definition swap_args :: "loc list" where
  "swap_args = [R X1, R X0, S SlotLocal 8 Tlong, R X3, R X4, R X5, R X6, R X7, R X19]"

theorem convertCall_correct_witness:
  "call_safe False (FunSymbol ''g'') swap_args \<and>
   convertCall False (\<lambda>_. IntArgRegs) int_sig (FunSymbol ''g'') swap_args = Some
     [Lsetstack X19 SlotOutgoing 0 Tlong,
      LopL Omove [S SlotLocal 8 Tlong] (R X2),
      LopL Omove [R X1] (R X8), LopL Omove [R X0] (R X1), LopL Omove [R X8] (R X0),
      LcallL int_sig (FunSymbol ''g'')] \<and>
   (\<forall>M :: (nat, nat) sem. \<exists>ms. convertCall False (\<lambda>_. IntArgRegs) int_sig (FunSymbol ''g'') swap_args =
        Some (ms @ [LcallL int_sig (FunSymbol ''g'')]) \<and> list_all is_move ms \<and>
     (\<forall>ls. let ls' = run_moves M ms ls in
        (\<forall>i<length swap_args. ls' (arg_loc (maxRegArgs False (FunSymbol ''g'')) i) = ls (swap_args ! i)) \<and>
        fun_value ls' (FunSymbol ''g'') = fun_value ls (FunSymbol ''g'') \<and>
        (\<forall>l. call_preserved l \<longrightarrow> ls' l = ls l)))"
proof (intro conjI allI)
  show safe: "call_safe False (FunSymbol ''g'') swap_args"
    by (simp add: call_safe_def swap_args_def maxRegArgs_def useDarwinVariadicConvention_def)
  show "convertCall False (\<lambda>_. IntArgRegs) int_sig (FunSymbol ''g'') swap_args = Some
     [Lsetstack X19 SlotOutgoing 0 Tlong,
      LopL Omove [S SlotLocal 8 Tlong] (R X2),
      LopL Omove [R X1] (R X8), LopL Omove [R X0] (R X1), LopL Omove [R X8] (R X0),
      LcallL int_sig (FunSymbol ''g'')]"
    by code_simp
  show "\<exists>ms. convertCall False (\<lambda>_. IntArgRegs) int_sig (FunSymbol ''g'') swap_args =
        Some (ms @ [LcallL int_sig (FunSymbol ''g'')]) \<and> list_all is_move ms \<and>
     (\<forall>ls. let ls' = run_moves M ms ls in
        (\<forall>i<length swap_args. ls' (arg_loc (maxRegArgs False (FunSymbol ''g'')) i) = ls (swap_args ! i)) \<and>
        fun_value ls' (FunSymbol ''g'') = fun_value ls (FunSymbol ''g'') \<and>
        (\<forall>l. call_preserved l \<longrightarrow> ls' l = ls l))" for M :: "(nat, nat) sem"
    by (rule convertCall_correct [OF _ safe]) simp
qed

text \<open>
  What \<open>call_safe\<close> excludes does go wrong: a function pointer in \<open>X0\<close> is overwritten by the first
  argument before the call reads it, and an argument in \<open>X8\<close> is lost when another one is copied
  from a stack slot to the outgoing area.
\<close>

theorem convertCall_overwrites_pointer:
  "convertCall darwin (\<lambda>_. IntArgRegs) int_sig (FunReg (R X0)) [R X1] =
     Some [LopL Omove [R X1] (R X0), LcallL int_sig (FunReg (R X0))]"
  by (cases darwin) code_simp+

theorem convertCall_overwrites_X8:
  "convertCall darwin (\<lambda>_. IntArgRegs) int_sig (FunSymbol ''g'')
     [R X8, R X1, R X2, R X3, R X4, R X5, R X6, R X7, S SlotLocal 8 Tlong] =
     Some [LopL Omove [S SlotLocal 8 Tlong] (R X8), Lsetstack X8 SlotOutgoing 0 Tlong,
       LopL Omove [R X8] (R X0), LcallL int_sig (FunSymbol ''g'')]"
  by (cases darwin) code_simp+

end
