(* ===== verification/StackInfo.thy ===== *)
theory StackInfo
  imports Linear
begin

text \<open>
  Stack usage of Linear code (\<open>pkg/linearize/stack.go\<close>): the extents of the local, incoming and
  outgoing slot areas that the code names, and the stack size of a function.
\<close>

section \<open>The code\<close>

abbreviation (input) stackAlignment :: int64 where "stackAlignment \<equiv> 16"

record stackInfo =
  LocalSize :: int64
  IncomingSize :: int64
  OutgoingSize :: int64

text \<open>\<open>StackInfo.TotalSize\<close>.\<close>

definition TotalSize :: "stackInfo \<Rightarrow> int64" where
  "TotalSize s = (let total = LocalSize s + OutgoingSize s in
     if go_rem total stackAlignment \<noteq> 0 then (go_div total stackAlignment + 1) * stackAlignment else total)"

text \<open>The update of the maxima for a slot, the same for every instruction that names one.\<close>

fun note_slot :: "slotKind \<Rightarrow> int64 \<Rightarrow> ty \<Rightarrow> stackInfo \<Rightarrow> stackInfo" where
  "note_slot SlotLocal ofs t s =
     (if LocalSize s < ofs + slotSize t then s\<lparr>LocalSize := ofs + slotSize t\<rparr> else s)"
| "note_slot SlotIncoming ofs t s =
     (if IncomingSize s < ofs + slotSize t then s\<lparr>IncomingSize := ofs + slotSize t\<rparr> else s)"
| "note_slot SlotOutgoing ofs t s =
     (if OutgoingSize s < ofs + slotSize t then s\<lparr>OutgoingSize := ofs + slotSize t\<rparr> else s)"

fun checkSlotLoc :: "loc \<Rightarrow> stackInfo \<Rightarrow> stackInfo" where
  "checkSlotLoc (S k ofs t) s = note_slot k ofs t s"
| "checkSlotLoc (R _) s = s"
| "checkSlotLoc LNil s = s"

fun note_instr :: "linear_instr \<Rightarrow> stackInfo \<Rightarrow> stackInfo" where
  "note_instr (Lgetstack k ofs t _) s = note_slot k ofs t s"
| "note_instr (Lsetstack _ k ofs t) s = note_slot k ofs t s"
| "note_instr (LopL _ args d) s = checkSlotLoc d (fold checkSlotLoc args s)"
| "note_instr (LloadL _ _ args d) s = checkSlotLoc d (fold checkSlotLoc args s)"
| "note_instr (LstoreL _ _ args src) s = checkSlotLoc src (fold checkSlotLoc args s)"
| "note_instr _ s = s"

definition CollectStackInfo :: "linear_function \<Rightarrow> stackInfo" where
  "CollectStackInfo f =
     fold note_instr (lin_code f) \<lparr>LocalSize = 0, IncomingSize = 0, OutgoingSize = 0\<rparr>"

definition ComputeStackSize :: "linear_function \<Rightarrow> linear_function" where
  "ComputeStackSize f = f\<lparr>lin_stacksize := TotalSize (CollectStackInfo f)\<rparr>"

section \<open>The slots that are counted\<close>

fun loc_slots :: "loc \<Rightarrow> (slotKind \<times> int64 \<times> ty) list" where
  "loc_slots (S k ofs t) = [(k, ofs, t)]"
| "loc_slots _ = []"

fun counted_slots :: "linear_instr \<Rightarrow> (slotKind \<times> int64 \<times> ty) list" where
  "counted_slots (Lgetstack k ofs t _) = [(k, ofs, t)]"
| "counted_slots (Lsetstack _ k ofs t) = [(k, ofs, t)]"
| "counted_slots (LopL _ args d) = concat (map loc_slots (args @ [d]))"
| "counted_slots (LloadL _ _ args d) = concat (map loc_slots (args @ [d]))"
| "counted_slots (LstoreL _ _ args src) = concat (map loc_slots (args @ [src]))"
| "counted_slots _ = []"

fun area :: "slotKind \<Rightarrow> stackInfo \<Rightarrow> int64" where
  "area SlotLocal = LocalSize"
| "area SlotIncoming = IncomingSize"
| "area SlotOutgoing = OutgoingSize"

definition slot_ends :: "slotKind \<Rightarrow> (slotKind \<times> int64 \<times> ty) list \<Rightarrow> int64 list" where
  "slot_ends k sl = [ofs + slotSize t. (k', ofs, t) \<leftarrow> sl, k' = k]"

lemma slot_ends_simps [simp]:
  "slot_ends k [] = []"
  "slot_ends k ((k', ofs, t) # sl) = (if k' = k then [ofs + slotSize t] else []) @ slot_ends k sl"
  "slot_ends k (sl @ sl') = slot_ends k sl @ slot_ends k sl'"
  by (auto simp: slot_ends_def)

lemma area_note_slot:
  "area k (note_slot k' ofs t s) = fold max (slot_ends k [(k', ofs, t)]) (area k s)"
  by (cases k; cases k') auto

lemma area_checkSlotLoc: "area k (checkSlotLoc l s) = fold max (slot_ends k (loc_slots l)) (area k s)"
  by (cases l) (simp_all only: checkSlotLoc.simps area_note_slot loc_slots.simps, simp_all)

lemma area_fold_checkSlotLoc:
  "area k (fold checkSlotLoc ls s) = fold max (slot_ends k (concat (map loc_slots ls))) (area k s)"
  by (induction ls arbitrary: s) (simp_all add: area_checkSlotLoc)

lemma area_note_instr: "area k (note_instr i s) = fold max (slot_ends k (counted_slots i)) (area k s)"
  by (cases i) (simp_all add: area_checkSlotLoc area_fold_checkSlotLoc area_note_slot del: slot_ends_simps(2))

lemma area_fold_note_instr:
  "area k (fold note_instr is s) = fold max (slot_ends k (concat (map counted_slots is))) (area k s)"
  by (induction "is" arbitrary: s) (simp_all add: area_note_instr)

lemma fold_max_eq: "fold max xs (a :: int) = Max (insert a (set xs))"
  by (metis Max.set_eq_fold list.set(2))

lemma area_CollectStackInfo:
  "area k (CollectStackInfo f) =
     Max (insert 0 (set (slot_ends k (concat (map counted_slots (lin_code f))))))"
proof -
  have "area k \<lparr>LocalSize = 0, IncomingSize = 0, OutgoingSize = 0\<rparr> = 0" by (cases k) auto
  then show ?thesis by (simp add: CollectStackInfo_def area_fold_note_instr fold_max_eq)
qed

lemma slot_ends_iff: "e \<in> set (slot_ends k sl) \<longleftrightarrow> (\<exists>ofs t. (k, ofs, t) \<in> set sl \<and> e = ofs + slotSize t)"
  by (auto simp: slot_ends_def)

lemma TotalSize_bounds:
  assumes "0 \<le> LocalSize s + OutgoingSize s"
  shows "TotalSize s mod 16 = 0" "LocalSize s + OutgoingSize s \<le> TotalSize s"
    "TotalSize s < LocalSize s + OutgoingSize s + 16"
  using assms unfolding TotalSize_def Let_def by (simp_all, presburger+)

section \<open>Properties\<close>

text \<open>
  Property C21. The areas are exactly as large as needed: each ends where the last slot of its kind
  ends that the moves, operations, loads and stores of the function name, and is empty if there is
  none. The stack size is the least multiple of 16 that holds the local and the outgoing area.
\<close>

theorem ComputeStackSize_exact:
  "let si = CollectStackInfo f; slots = set (concat (map counted_slots (lin_code f)));
       size = lin_stacksize (ComputeStackSize f)
   in (\<forall>k. area k si = Max (insert 0 {ofs + slotSize t | ofs t. (k, ofs, t) \<in> slots})) \<and>
      size mod 16 = 0 \<and> LocalSize si + OutgoingSize si \<le> size \<and>
      size < LocalSize si + OutgoingSize si + 16"
proof -
  have "0 \<le> area k (CollectStackInfo f)" for k
    by (simp add: area_CollectStackInfo)
  from this [of SlotLocal] this [of SlotOutgoing]
  have "0 \<le> LocalSize (CollectStackInfo f) + OutgoingSize (CollectStackInfo f)" by simp
  note TotalSize_bounds [OF this]
  moreover have "set (slot_ends k sl) = {ofs + slotSize t | ofs t. (k, ofs, t) \<in> set sl}" for k sl
    using slot_ends_iff by blast
  ultimately show ?thesis
    by (simp add: Let_def ComputeStackSize_def area_CollectStackInfo)
qed

end
