(* ===== verification/Linearize.thy ===== *)
theory Linearize
  imports Tunneling CleanupLabels CallMoves StackInfo
begin

text \<open>
  Linearization (\<open>pkg/linearize/linearize.go\<close>): the blocks of an LTL function are laid out in
  reverse postorder, each after its own label, and a branch to the next block falls through.
  Linearized code does what the control-flow graph does; so does the whole pass, which tunnels
  jumps, removes labels and computes the stack size as well.

  \<open>ord n i\<close> is the oracle for the map iteration orders of the call at position \<open>i\<close> of block \<open>n\<close>.
\<close>

section \<open>The order of the blocks\<close>

fun terminator_successors :: "ltl_instr \<Rightarrow> node list" where
  "terminator_successors (Lbranch s) = [s]"
| "terminator_successors (Lcond _ _ s1 s2) = [s1, s2]"
| "terminator_successors (Ljumptable _ ts) = ts"
| "terminator_successors _ = []"

definition blockSuccessors :: "bblock \<Rightarrow> node list" where
  "blockSuccessors b = (if b = [] then [] else terminator_successors (last b))"

text \<open>
  The closure \<open>dfs\<close>, applied to a list of nodes one after the other, with the captured variables
  \<open>visited\<close> and \<open>postorder\<close> as arguments and results.
\<close>

partial_function (option) dfs_all ::
  "(node \<rightharpoonup> bblock) \<Rightarrow> node list \<Rightarrow> node set \<Rightarrow> node list \<Rightarrow> (node set \<times> node list) option" where
  [code]: "dfs_all code ns visited postorder = (case ns of
     [] \<Rightarrow> Some (visited, postorder)
   | n # ns' \<Rightarrow>
       if n \<in> visited then dfs_all code ns' visited postorder
       else (case code n of
               None \<Rightarrow> dfs_all code ns' (insert n visited) postorder
             | Some b \<Rightarrow> Option.bind (dfs_all code (blockSuccessors b) (insert n visited) postorder)
                 (\<lambda>(visited', postorder'). dfs_all code ns' visited' (postorder' @ [n]))))"

definition computeOrder :: "ltl_function \<Rightarrow> node list option" where
  "computeOrder f = map_option (\<lambda>(_, postorder). rev postorder) (dfs_all (ltl_code f) [ltl_entry f] {} [])"

section \<open>Emission\<close>

fun assign_from :: "label \<Rightarrow> node list \<Rightarrow> (node \<rightharpoonup> label) \<Rightarrow> (node \<rightharpoonup> label)" where
  "assign_from l [] m = m"
| "assign_from l (n # ns) m = assign_from (l + 1) ns (m(n \<mapsto> l))"

definition assignLabels :: "node list \<Rightarrow> (node \<rightharpoonup> label)" where
  "assignLabels order = assign_from 1 order Map.empty"

text \<open>A map lookup; Go's zero value for a missing key.\<close>

definition nodeToLbl :: "(node \<rightharpoonup> label) \<Rightarrow> node \<Rightarrow> label" where
  "nodeToLbl m n = (case m n of Some l \<Rightarrow> l | None \<Rightarrow> 0)"

fun convertInstruction :: "bool \<Rightarrow> (nat \<Rightarrow> mreg list) \<Rightarrow> ltl_instr \<Rightarrow> linear_instr list option" where
  "convertInstruction darwin ord Lnop = Some []"
| "convertInstruction darwin ord (Lop op args d) = Some [LopL op args d]"
| "convertInstruction darwin ord (Lload ch a args d) = Some [LloadL ch a args d]"
| "convertInstruction darwin ord (Lstore ch a args src) = Some [LstoreL ch a args src]"
| "convertInstruction darwin ord (Lcall sg fn args) = convertCall darwin ord sg fn args"
| "convertInstruction darwin ord (Lbuiltin bf args d) = Some [LbuiltinL bf args d]"
| "convertInstruction darwin ord _ = Some []"

fun emitTerminator :: "(node \<rightharpoonup> label) \<Rightarrow> node option \<Rightarrow> ltl_instr \<Rightarrow> linear_instr list" where
  "emitTerminator lbl nextNode (Lbranch s) =
     (if nextNode = Some s then [] else [Lgoto (nodeToLbl lbl s)])"
| "emitTerminator lbl nextNode (Lcond c args s1 s2) =
     (let ifSoLbl = nodeToLbl lbl s1; ifNotLbl = nodeToLbl lbl s2
      in if nextNode = Some s2 then [LcondL c args ifSoLbl]
         else if nextNode = Some s1 then [LcondL c args ifSoLbl, Lgoto ifNotLbl]
         else [LcondL c args ifSoLbl, Lgoto ifNotLbl])"
| "emitTerminator lbl nextNode (Ljumptable a ts) = [LjumptableL a (map (nodeToLbl lbl) ts)]"
| "emitTerminator lbl nextNode (Ltailcall sg fn args) = [LtailcallL sg fn]"
| "emitTerminator lbl nextNode Lreturn = [LreturnL]"
| "emitTerminator lbl nextNode _ = []"

text \<open>The body of a block from position \<open>i\<close> on: every instruction but the last is converted.\<close>

fun emit_body :: "bool \<Rightarrow> (nat \<Rightarrow> nat \<Rightarrow> mreg list) \<Rightarrow> (node \<rightharpoonup> label) \<Rightarrow> node option \<Rightarrow> nat \<Rightarrow> bblock \<Rightarrow>
    linear_instr list option" where
  "emit_body darwin ord lbl nextNode i [] = Some []"
| "emit_body darwin ord lbl nextNode i [t] = Some (emitTerminator lbl nextNode t)"
| "emit_body darwin ord lbl nextNode i (a # b # bs) =
     Option.bind (convertInstruction darwin (ord i) a) (\<lambda>c.
       map_option ((@) c) (emit_body darwin ord lbl nextNode (Suc i) (b # bs)))"

definition emitBlock :: "bool \<Rightarrow> (node \<Rightarrow> nat \<Rightarrow> nat \<Rightarrow> mreg list) \<Rightarrow> (node \<rightharpoonup> bblock) \<Rightarrow> (node \<rightharpoonup> label) \<Rightarrow>
    node option \<Rightarrow> node \<Rightarrow> linear_instr list option" where
  "emitBlock darwin ord code lbl nextNode n = (case code n of
     None \<Rightarrow> Some []
   | Some b \<Rightarrow> map_option ((#) (Llabel (nodeToLbl lbl n))) (emit_body darwin (ord n) lbl nextNode 0 b))"

text \<open>The blocks of the order, each with its successor in the order as \<open>nextNode\<close>.\<close>

fun next_of :: "node list \<Rightarrow> node option" where
  "next_of [] = None"
| "next_of (n # _) = Some n"

fun emit_blocks :: "bool \<Rightarrow> (node \<Rightarrow> nat \<Rightarrow> nat \<Rightarrow> mreg list) \<Rightarrow> (node \<rightharpoonup> bblock) \<Rightarrow> (node \<rightharpoonup> label) \<Rightarrow>
    node list \<Rightarrow> linear_instr list option" where
  "emit_blocks darwin ord code lbl [] = Some []"
| "emit_blocks darwin ord code lbl (n # ns) =
     Option.bind (emitBlock darwin ord code lbl (next_of ns) n) (\<lambda>c.
       map_option ((@) c) (emit_blocks darwin ord code lbl ns))"

text \<open>
  \<open>linearize\<close>. The early return for an empty \<open>Code\<close> map needs no case: the search from the entry
  then finds no block and nothing is emitted.
\<close>

definition Linearize :: "bool \<Rightarrow> (node \<Rightarrow> nat \<Rightarrow> nat \<Rightarrow> mreg list) \<Rightarrow> ltl_function \<Rightarrow> linear_function option" where
  "Linearize darwin ord f =
     (let result = (linear_NewFunction (ltl_name f) (ltl_sig f))
            \<lparr>lin_stacksize := ltl_stacksize f, lin_params := ltl_params f\<rparr>
      in Option.bind (computeOrder f) (\<lambda>order.
         map_option (\<lambda>c. result\<lparr>lin_code := c\<rparr>)
           (emit_blocks darwin ord (ltl_code f) (assignLabels order) order)))"

definition Transform :: "bool \<Rightarrow> (node \<Rightarrow> nat \<Rightarrow> nat \<Rightarrow> mreg list) \<Rightarrow> ltl_function \<Rightarrow> linear_function option" where
  "Transform darwin ord f =
     map_option (\<lambda>r. ComputeStackSize (CleanupLabels (Tunnel r))) (Linearize darwin ord f)"

text \<open>\<open>TransformProgram\<close>; the oracle is indexed by the position of the function as well.\<close>

fun transform_functions :: "bool \<Rightarrow> (nat \<Rightarrow> node \<Rightarrow> nat \<Rightarrow> nat \<Rightarrow> mreg list) \<Rightarrow> nat \<Rightarrow> ltl_function list \<Rightarrow>
    linear_function list option" where
  "transform_functions darwin ord k [] = Some []"
| "transform_functions darwin ord k (f # fs) =
     Option.bind (Transform darwin (ord k) f) (\<lambda>g.
       map_option ((#) g) (transform_functions darwin ord (Suc k) fs))"

definition TransformProgram :: "bool \<Rightarrow> (nat \<Rightarrow> node \<Rightarrow> nat \<Rightarrow> nat \<Rightarrow> mreg list) \<Rightarrow> ltl_program \<Rightarrow> linear_program option" where
  "TransformProgram darwin ord p =
     map_option (\<lambda>fs. \<lparr>lin_globals = ltl_globals p, lin_functions = fs\<rparr>)
       (transform_functions darwin ord 0 (ltl_functions p))"

section \<open>The search\<close>

text \<open>
  What a run of the search from \<open>ns\<close> adds: the visited nodes grow and contain \<open>ns\<close>; the new
  postorder consists of the newly visited nodes that have a block, each once; and the successors of
  these are visited.
\<close>

definition dfs_post :: "(node \<rightharpoonup> bblock) \<Rightarrow> node list \<Rightarrow> node set \<Rightarrow> node list \<Rightarrow> node set \<Rightarrow> node list \<Rightarrow> bool" where
  "dfs_post code ns vis post vis' post' \<longleftrightarrow>
     vis \<subseteq> vis' \<and> set ns \<subseteq> vis' \<and>
     (\<exists>new. post' = post @ new \<and> distinct new \<and> set new = (vis' - vis) \<inter> dom code \<and>
        (\<forall>n\<in>set new. set (blockSuccessors (the (code n))) \<subseteq> vis'))"

lemma dfs_post_block:
  assumes "n \<notin> vis" and "code n = Some b"
    and "dfs_post code (blockSuccessors b) (insert n vis) post vis1 post1"
    and "dfs_post code ns vis1 (post1 @ [n]) vis' post'"
  shows "dfs_post code (n # ns) vis post vis' post'"
proof -
  from assms(3) obtain new1 where 1: "insert n vis \<subseteq> vis1" "set (blockSuccessors b) \<subseteq> vis1"
    "post1 = post @ new1" "distinct new1" "set new1 = (vis1 - insert n vis) \<inter> dom code"
    "\<forall>k\<in>set new1. set (blockSuccessors (the (code k))) \<subseteq> vis1"
    unfolding dfs_post_def by blast
  from assms(4) obtain new2 where 2: "vis1 \<subseteq> vis'" "set ns \<subseteq> vis'"
    "post' = (post1 @ [n]) @ new2" "distinct new2" "set new2 = (vis' - vis1) \<inter> dom code"
    "\<forall>k\<in>set new2. set (blockSuccessors (the (code k))) \<subseteq> vis'"
    unfolding dfs_post_def by blast
  have "distinct (new1 @ n # new2)" "set (new1 @ n # new2) = (vis' - vis) \<inter> dom code"
    using 1 2 assms(1,2) by auto
  moreover have "set (blockSuccessors (the (code k))) \<subseteq> vis'" if "k \<in> set (new1 @ n # new2)" for k
  proof -
    from that consider "k \<in> set new1" | "k = n" | "k \<in> set new2" by auto
    then show ?thesis using 1(2,6) 2(1,6) assms(2) by cases (blast, simp, blast)
  qed
  moreover have "vis \<subseteq> vis'" "set (n # ns) \<subseteq> vis'" "post' = post @ (new1 @ n # new2)"
    using 1 2 by auto
  ultimately show ?thesis
    unfolding dfs_post_def by blast
qed

lemmas dfs_all_induct = dfs_all.raw_induct [rotated, consumes 1, case_names step]

lemma dfs_all_post: "dfs_all code ns vis post = Some (vis', post') \<Longrightarrow> dfs_post code ns vis post vis' post'"
proof (induction code ns vis post "(vis', post')" arbitrary: vis' post' rule: dfs_all_induct)
  case (step dfs code ns vis post)
  show ?case
  proof (cases ns)
    case Nil
    with step show ?thesis by (auto simp: dfs_post_def)
  next
    case (Cons n ns')
    consider (seen) "n \<in> vis" | (none) "n \<notin> vis" "code n = None"
      | (block) b where "n \<notin> vis" "code n = Some b" by fastforce
    then show ?thesis
    proof cases
      case seen
      with step Cons have "dfs_post code ns' vis post vis' post'" by simp
      with seen Cons show ?thesis unfolding dfs_post_def by fastforce
    next
      case none
      with step Cons have "dfs_post code ns' (insert n vis) post vis' post'" by simp
      moreover have "(vis' - insert n vis) \<inter> dom code = (vis' - vis) \<inter> dom code"
        using none by auto
      ultimately show ?thesis using Cons unfolding dfs_post_def by auto
    next
      case block
      from step(2) Cons block obtain vis1 post1 where
        "dfs code (blockSuccessors b) (insert n vis) post = Some (vis1, post1)"
        "dfs code ns' vis1 (post1 @ [n]) = Some (vis', post')"
        by (auto simp: bind_eq_Some_conv)
      then show ?thesis using dfs_post_block [of n vis code b] block step(1) Cons by blast
    qed
  qed
qed

lemma dfs_all_returns:
  assumes "finite (dom code)"
  shows "\<exists>vis' post'. dfs_all code ns vis post = Some (vis', post')"
proof (induction "card (dom code - vis)" arbitrary: ns vis post rule: less_induct)
  case less
  have smaller: "\<exists>r s. dfs_all code ms vis2 post1 = Some (r, s)"
    if "n \<in> dom code" "n \<notin> vis1" "insert n vis1 \<subseteq> vis2" "dom code - vis1 = dom code - vis"
    for n ms vis1 vis2 post1
  proof -
    have "dom code - vis2 \<subset> dom code - vis" using that by blast
    then show ?thesis using less assms by (meson finite_Diff psubset_card_mono)
  qed
  have "\<exists>vis' post'. dfs_all code ns vis1 post = Some (vis', post')"
    if "dom code - vis1 = dom code - vis" for vis1
    using that
  proof (induction ns arbitrary: post vis1)
    case Nil
    then show ?case by (simp add: dfs_all.simps)
  next
    case (Cons n ns')
    consider (seen) "n \<in> vis1" | (none) "n \<notin> vis1" "code n = None"
      | (block) b where "n \<notin> vis1" "code n = Some b" by fastforce
    then show ?case
    proof cases
      case seen
      with Cons show ?thesis by (subst dfs_all.simps) simp
    next
      case none
      then have "dom code - insert n vis1 = dom code - vis" using Cons.prems by auto
      with none show ?thesis using Cons.IH by (subst dfs_all.simps) simp
    next
      case block
      then obtain vis2 post1 where
        1: "dfs_all code (blockSuccessors b) (insert n vis1) post = Some (vis2, post1)"
        using smaller Cons.prems by blast
      moreover have "insert n vis1 \<subseteq> vis2" using dfs_all_post [OF 1] by (simp add: dfs_post_def)
      ultimately show ?thesis
        using block smaller [of n vis1 vis2 ns' "post1 @ [n]"] Cons.prems
        by (subst dfs_all.simps) auto
    qed
  qed
  then show ?case by blast
qed

lemma computeOrder_returns: "finite (dom (ltl_code f)) \<Longrightarrow> \<exists>order. computeOrder f = Some order"
  using dfs_all_returns [of "ltl_code f" "[ltl_entry f]" "{}" "[]"] by (auto simp: computeOrder_def)

lemma computeOrder_ok:
  assumes "computeOrder f = Some order"
  shows computeOrder_distinct: "distinct order"
    and computeOrder_blocks: "set order \<subseteq> dom (ltl_code f)"
    and computeOrder_closed: "n \<in> set order \<Longrightarrow> ltl_code f n = Some b \<Longrightarrow> s \<in> set (blockSuccessors b) \<Longrightarrow>
      ltl_code f s \<noteq> None \<Longrightarrow> s \<in> set order"
proof -
  from assms obtain vis post where d: "dfs_all (ltl_code f) [ltl_entry f] {} [] = Some (vis, post)"
    and order: "order = rev post" by (auto simp: computeOrder_def)
  from dfs_all_post [OF d] have post: "distinct post" "set post = vis \<inter> dom (ltl_code f)"
    "\<forall>n\<in>set post. set (blockSuccessors (the (ltl_code f n))) \<subseteq> vis"
    by (auto simp: dfs_post_def)
  then show "distinct order" "set order \<subseteq> dom (ltl_code f)"
    by (auto simp: order)
  show "s \<in> set order" if "n \<in> set order" "ltl_code f n = Some b" "s \<in> set (blockSuccessors b)"
      "ltl_code f s \<noteq> None"
    using that post by (force simp: order)
qed

lemma computeOrder_entry:
  assumes "computeOrder f = Some order" and "ltl_code f (ltl_entry f) \<noteq> None"
  shows "\<exists>ns. order = ltl_entry f # rev ns"
proof -
  from assms(1) obtain vis post where "dfs_all (ltl_code f) [ltl_entry f] {} [] = Some (vis, post)"
    and order: "order = rev post" by (auto simp: computeOrder_def)
  with assms(2) show ?thesis
    by (subst (asm) dfs_all.simps) (auto simp: dfs_all.simps [where ns = "[]"] bind_eq_Some_conv)
qed

section \<open>Labels\<close>

lemma assign_from_notin: "n \<notin> set ns \<Longrightarrow> assign_from l ns m n = m n"
  by (induction l ns m rule: assign_from.induct) auto

lemma assign_from_nth: "distinct ns \<Longrightarrow> i < length ns \<Longrightarrow> assign_from l ns m (ns ! i) = Some (l + int i)"
proof (induction l ns m arbitrary: i rule: assign_from.induct)
  case (2 l n ns m)
  then show ?case by (cases i) (simp_all add: assign_from_notin del: fun_upd_apply, simp)
qed simp

lemma nodeToLbl_nth: "distinct order \<Longrightarrow> i < length order \<Longrightarrow> nodeToLbl (assignLabels order) (order ! i) = 1 + int i"
  by (simp add: nodeToLbl_def assignLabels_def assign_from_nth)

lemma nodeToLbl_inj: "distinct order \<Longrightarrow> inj_on (nodeToLbl (assignLabels order)) (set order)"
  by (auto simp: inj_on_def in_set_conv_nth nodeToLbl_nth)

section \<open>Well-formed input\<close>

text \<open>
  A block ends with its only terminator. The calls satisfy \<open>call_safe\<close>; the arguments of a tail
  call are already in place, as \<open>emitTerminator\<close> does not move them.
\<close>

fun body_ok :: "bool \<Rightarrow> ltl_instr \<Rightarrow> bool" where
  "body_ok darwin (Lcall sg fn args) \<longleftrightarrow> call_safe darwin fn args"
| "body_ok darwin (Ltailcall _ _ _) \<longleftrightarrow> False"
| "body_ok darwin (Lbranch _) \<longleftrightarrow> False"
| "body_ok darwin (Lcond _ _ _ _) \<longleftrightarrow> False"
| "body_ok darwin (Ljumptable _ _) \<longleftrightarrow> False"
| "body_ok darwin Lreturn \<longleftrightarrow> False"
| "body_ok darwin _ \<longleftrightarrow> True"

fun terminator_ok :: "bool \<Rightarrow> ltl_instr \<Rightarrow> bool" where
  "terminator_ok darwin (Ltailcall sg fn args) \<longleftrightarrow>
     args = map (arg_loc (maxRegArgs darwin fn)) [0..<length args]"
| "terminator_ok darwin (Lbranch _) \<longleftrightarrow> True"
| "terminator_ok darwin (Lcond _ _ _ _) \<longleftrightarrow> True"
| "terminator_ok darwin (Ljumptable _ _) \<longleftrightarrow> True"
| "terminator_ok darwin Lreturn \<longleftrightarrow> True"
| "terminator_ok darwin _ \<longleftrightarrow> False"

fun wf_block :: "bool \<Rightarrow> bblock \<Rightarrow> bool" where
  "wf_block darwin [] \<longleftrightarrow> False"
| "wf_block darwin [t] \<longleftrightarrow> terminator_ok darwin t"
| "wf_block darwin (a # b # bs) \<longleftrightarrow> body_ok darwin a \<and> wf_block darwin (b # bs)"

definition wf_ltl :: "bool \<Rightarrow> ltl_function \<Rightarrow> bool" where
  "wf_ltl darwin f \<longleftrightarrow> finite (dom (ltl_code f)) \<and> ltl_code f (ltl_entry f) \<noteq> None \<and>
     (\<forall>n b. ltl_code f n = Some b \<longrightarrow> wf_block darwin b)"

text \<open>Every iteration order visits all the keys the map can have.\<close>

definition ord_ok :: "(node \<Rightarrow> nat \<Rightarrow> nat \<Rightarrow> mreg list) \<Rightarrow> bool" where
  "ord_ok ord \<longleftrightarrow> (\<forall>n i k. set IntArgRegs \<subseteq> set (ord n i k))"

section \<open>Shape of the emitted code\<close>

lemma convertInstruction_returns:
  assumes "\<And>k. set IntArgRegs \<subseteq> set (ord k)"
  shows "\<exists>c. convertInstruction darwin ord a = Some c \<and> labels_of c = []"
proof (cases a)
  case (Lcall sg fn args)
  obtain ms where "convertCall darwin ord sg fn args =
       Some (store_overflow 0 (drop (maxRegArgs darwin fn) args) @ ms @ [LcallL sg fn])" "list_all is_move ms"
    using convertCall_moves [where ord = ord, OF assms] by metis
  moreover have "labels_of is = []" if "list_all is_move is" for "is"
    using that by (induction "is") (auto elim: is_move.elims)
  ultimately show ?thesis using store_overflow_moves by (simp add: Lcall)
qed simp_all

lemma emitTerminator_labels: "labels_of (emitTerminator lbl nx t) = []"
  by (cases t) (simp_all add: Let_def)

lemma emit_body_returns:
  assumes "\<And>i k. set IntArgRegs \<subseteq> set (ord i k)"
  shows "\<exists>c. emit_body darwin ord lbl nx i b = Some c \<and> labels_of c = []"
  using assms
proof (induction darwin ord lbl nx i b rule: emit_body.induct)
  case (3 darwin ord lbl nextNode i a b bs)
  then show ?case
    using convertInstruction_returns [of "ord i" darwin a] by fastforce
qed (simp_all add: emitTerminator_labels)

lemma emit_blocks_Cons:
  assumes "ord_ok ord" and "code n = Some b"
  shows "\<exists>bc. emit_body darwin (ord n) lbl (next_of ns) 0 b = Some bc \<and> labels_of bc = [] \<and>
    emit_blocks darwin ord code lbl (n # ns) =
      map_option (\<lambda>rest. Llabel (nodeToLbl lbl n) # bc @ rest) (emit_blocks darwin ord code lbl ns)"
  using emit_body_returns [of "ord n" darwin lbl "next_of ns" 0 b] assms
  by (cases "emit_blocks darwin ord code lbl ns") (auto simp: ord_ok_def emitBlock_def)

lemma emit_blocks_ConsD:
  assumes "ord_ok ord" and "code n = Some b" and "emit_blocks darwin ord code lbl (n # ns) = Some c"
  shows "\<exists>bc rest. c = Llabel (nodeToLbl lbl n) # bc @ rest \<and> labels_of bc = [] \<and>
    emit_body darwin (ord n) lbl (next_of ns) 0 b = Some bc \<and> emit_blocks darwin ord code lbl ns = Some rest"
  using emit_blocks_Cons [of ord code n b darwin lbl ns, OF assms(1,2)] assms(3)
  by (auto simp del: emit_blocks.simps simp: map_option_case split: option.splits)

lemma emit_blocks_returns:
  "ord_ok ord \<Longrightarrow> set ns \<subseteq> dom code \<Longrightarrow>
     \<exists>c. emit_blocks darwin ord code lbl ns = Some c \<and> labels_of c = map (nodeToLbl lbl) ns"
proof (induction ns)
  case (Cons n ns)
  then obtain b where "code n = Some b" by auto
  with Cons show ?case using emit_blocks_Cons [of ord code n b darwin lbl ns] by auto
qed simp

lemma emit_blocks_find:
  assumes "ord_ok ord" and "emit_blocks darwin ord code lbl ns = Some c" and "set ns \<subseteq> dom code"
    and "inj_on (nodeToLbl lbl) (set ns)" and "n \<in> set ns" and "code n = Some b"
  shows "\<exists>pre ns' bc rest. ns = pre @ n # ns' \<and> find_label (nodeToLbl lbl n) c = Some (bc @ rest) \<and>
    emit_body darwin (ord n) lbl (next_of ns') 0 b = Some bc \<and> emit_blocks darwin ord code lbl ns' = Some rest"
  using assms(2-5)
proof (induction ns arbitrary: c)
  case (Cons k ns)
  from Cons.prems obtain kb where kb: "code k = Some kb" by auto
  from emit_blocks_ConsD [of ord code k kb darwin lbl ns, OF assms(1) kb Cons.prems(1)] obtain bc rest where
    bc: "emit_body darwin (ord k) lbl (next_of ns) 0 kb = Some bc" "labels_of bc = []"
    and rest: "emit_blocks darwin ord code lbl ns = Some rest"
    and c: "c = Llabel (nodeToLbl lbl k) # bc @ rest" by blast
  show ?case
  proof (cases "k = n")
    case True
    then show ?thesis using bc rest kb assms(6)
      by (intro exI [of _ "[]"] exI [of _ ns] exI [of _ bc] exI [of _ rest]) (simp add: c)
  next
    case False
    with Cons.prems have n: "n \<in> set ns" "nodeToLbl lbl k \<noteq> nodeToLbl lbl n"
      by (auto simp: inj_on_def)
    from Cons.IH [OF rest _ _ n(1)] Cons.prems obtain pre ns' bc' rest' where
      IH: "ns = pre @ n # ns'" "find_label (nodeToLbl lbl n) rest = Some (bc' @ rest')"
      "emit_body darwin (ord n) lbl (next_of ns') 0 b = Some bc'" "emit_blocks darwin ord code lbl ns' = Some rest'"
      by auto
    have "Llabel (nodeToLbl lbl n) \<notin> set bc"
      using bc(2) set_labels_of [of "nodeToLbl lbl n" bc] by simp
    then have "find_label (nodeToLbl lbl n) c = Some (bc' @ rest')"
      using IH(2) n(2) by (simp add: c find_label_append)
    with IH show ?thesis
      by (intro exI [of _ "k # pre"] exI [of _ ns'] exI [of _ bc'] exI [of _ rest']) simp
  qed
qed simp

section \<open>Simulation\<close>

definition lin_ok ::
  "bool \<Rightarrow> (node \<Rightarrow> nat \<Rightarrow> nat \<Rightarrow> mreg list) \<Rightarrow> ltl_function \<Rightarrow> node list \<Rightarrow> linear_instr list \<Rightarrow> bool" where
  "lin_ok darwin ord f order c \<longleftrightarrow> ord_ok ord \<and> wf_ltl darwin f \<and> computeOrder f = Some order \<and>
     emit_blocks darwin ord (ltl_code f) (assignLabels order) order = Some c"

text \<open>The code for the rest \<open>b\<close> of some block, followed by the blocks after it in the order.\<close>

definition at_code ::
  "bool \<Rightarrow> (node \<Rightarrow> nat \<Rightarrow> nat \<Rightarrow> mreg list) \<Rightarrow> ltl_function \<Rightarrow> node list \<Rightarrow> bblock \<Rightarrow> linear_instr list \<Rightarrow> bool" where
  "at_code darwin ord f order b c \<longleftrightarrow> wf_block darwin b \<and>
     (\<forall>s\<in>set (blockSuccessors b). ltl_code f s \<noteq> None \<longrightarrow> s \<in> set order) \<and>
     (\<exists>pre n i ns bc rest. order = pre @ ns \<and> c = bc @ rest \<and>
        emit_body darwin (ord n) (assignLabels order) (next_of ns) i b = Some bc \<and>
        emit_blocks darwin ord (ltl_code f) (assignLabels order) ns = Some rest)"

lemma at_codeI:
  assumes "wf_block darwin b" and "\<And>s. s \<in> set (blockSuccessors b) \<Longrightarrow> ltl_code f s \<noteq> None \<Longrightarrow> s \<in> set order"
    and "order = pre @ ns"
    and "emit_body darwin (ord n) (assignLabels order) (next_of ns) i b = Some bc"
    and "emit_blocks darwin ord (ltl_code f) (assignLabels order) ns = Some rest"
  shows "at_code darwin ord f order b (bc @ rest)"
  unfolding at_code_def using assms by blast

lemma at_codeE:
  assumes "at_code darwin ord f order b c"
  obtains pre n i ns bc rest where "wf_block darwin b"
    "\<forall>s\<in>set (blockSuccessors b). ltl_code f s \<noteq> None \<longrightarrow> s \<in> set order"
    "order = pre @ ns" "c = bc @ rest"
    "emit_body darwin (ord n) (assignLabels order) (next_of ns) i b = Some bc"
    "emit_blocks darwin ord (ltl_code f) (assignLabels order) ns = Some rest"
  using assms unfolding at_code_def by blast

lemma at_code_target:
  assumes ok: "lin_ok darwin ord f order c" and s: "s \<in> set order" and b: "ltl_code f s = Some b"
  shows "\<exists>c'. find_label (nodeToLbl (assignLabels order) s) c = Some c' \<and> at_code darwin ord f order b c'"
proof -
  from ok have o: "ord_ok ord" "computeOrder f = Some order"
    and e: "emit_blocks darwin ord (ltl_code f) (assignLabels order) order = Some c"
    and wf: "wf_block darwin b"
    using b by (auto simp: lin_ok_def wf_ltl_def)
  from emit_blocks_find [OF o(1) e computeOrder_blocks [OF o(2)] nodeToLbl_inj [OF computeOrder_distinct [OF o(2)]] s b]
  obtain pre ns' bc rest where f: "order = pre @ s # ns'"
    "find_label (nodeToLbl (assignLabels order) s) c = Some (bc @ rest)"
    "emit_body darwin (ord s) (assignLabels order) (next_of ns') 0 b = Some bc"
    "emit_blocks darwin ord (ltl_code f) (assignLabels order) ns' = Some rest" by blast
  have "\<forall>t\<in>set (blockSuccessors b). ltl_code f t \<noteq> None \<longrightarrow> t \<in> set order"
    using computeOrder_closed [OF o(2) s b] by blast
  then have "at_code darwin ord f order b (bc @ rest)"
    unfolding at_code_def using wf f(1,3,4)
    by (metis append.assoc append_Cons append_Nil)
  with f(2) show ?thesis by blast
qed

lemma at_code_next:
  assumes ok: "lin_ok darwin ord f order c" and ns: "order = pre @ ns" "next_of ns = Some s"
    and rest: "emit_blocks darwin ord (ltl_code f) (assignLabels order) ns = Some rest"
    and b: "ltl_code f s = Some b"
  shows "\<exists>c'. rest = Llabel (nodeToLbl (assignLabels order) s) # c' \<and> at_code darwin ord f order b c'"
proof -
  from ok have o: "ord_ok ord" "computeOrder f = Some order" and wf: "wf_block darwin b"
    using b by (auto simp: lin_ok_def wf_ltl_def)
  from ns(2) obtain ns' where ns': "ns = s # ns'" by (cases ns) auto
  from emit_blocks_ConsD [OF o(1) b rest [unfolded ns']] obtain bc rest' where
    r: "rest = Llabel (nodeToLbl (assignLabels order) s) # bc @ rest'"
    "emit_body darwin (ord s) (assignLabels order) (next_of ns') 0 b = Some bc"
    "emit_blocks darwin ord (ltl_code f) (assignLabels order) ns' = Some rest'" by blast
  have "s \<in> set order" using ns ns' by simp
  then have "\<forall>t\<in>set (blockSuccessors b). ltl_code f t \<noteq> None \<longrightarrow> t \<in> set order"
    using computeOrder_closed [OF o(2) _ b] by blast
  then have "at_code darwin ord f order b (bc @ rest')"
    unfolding at_code_def using wf ns(1) ns' r(2,3) by (metis append.assoc append_Cons append_Nil)
  with r(1) show ?thesis by blast
qed

lemma after_call_cong:
  assumes "\<And>l. call_preserved l \<Longrightarrow> ls' l = ls l"
  shows "after_call M v ls' = after_call M v ls"
proof
  fix l
  show "after_call M v ls' l = after_call M v ls l"
  proof (cases "call_preserved l")
    case True
    then show ?thesis
      using assms by (auto simp: after_call_def split: loc.splits slotKind.splits)
  next
    case False
    then have "is_outgoing l \<or> (\<exists>r\<in>{0..8}. l = R r)" by (auto simp: call_preserved_def)
    then show ?thesis
      by (cases l rule: is_outgoing.cases) (auto simp: after_call_def IsCalleeSaved_iff)
  qed
qed

text \<open>An instruction that is not the last of its block.\<close>

lemma body_step:
  fixes M :: "('v, 'm) sem"
  assumes ord: "\<And>k. set IntArgRegs \<subseteq> set (ord k)" and ok: "body_ok darwin a"
    and conv: "convertInstruction darwin ord a = Some c"
    and step: "ltl_step M f (LBlock (a # b) ls m) s'"
  shows "\<exists>ls' m'. s' = LBlock b ls' m' \<and>
    (if a = Lnop then c = [] \<and> ls' = ls \<and> m' = m
     else (linear_step M (maxRegArgs darwin) code)\<^sup>+\<^sup>+ (LCode (c @ rest) ls m) (LCode rest ls' m'))"
proof (cases a)
  case (Lcall sg fn args)
  note safe = ok [unfolded Lcall, simplified]
  obtain ms where ms: "convertCall darwin ord sg fn args =
       Some (store_overflow 0 (drop (maxRegArgs darwin fn) args) @ ms @ [LcallL sg fn])"
    "list_all is_move ms"
    "\<And>L0 :: 'v locset. par_done (arg_moves darwin fn args) L0 (run_moves M ms L0)"
    using convertCall_moves [where M = M and ord = ord, OF ord] by metis
  let ?pre = "store_overflow 0 (drop (maxRegArgs darwin fn) args) @ ms"
  let ?ls = "run_moves M ?pre ls"
  have c: "c = ?pre @ [LcallL sg fn]" using conv ms(1) by (simp add: Lcall)
  have pre: "list_all is_move ?pre" using ms(2) store_overflow_moves by simp
  have fin: "par_done (arg_moves darwin fn args)
      (run_moves M (store_overflow 0 (drop (maxRegArgs darwin fn) args)) ls) ?ls"
    using ms(3) by (simp add: run_moves_append store_overflow_moves)
  note after = after_moves [OF fin safe]
  from step obtain v m' where s': "s' = LBlock b (after_call M v ls) m'"
    and n: "sem_arity M sg (fun_value ls fn) m \<le> length args"
    and call: "sem_call M sg (fun_value ls fn) (map ls (take (sem_arity M sg (fun_value ls fn) m) args)) m = Some (v, m')"
    by (auto simp: Lcall elim: ltl_step_consE)
  have "map (\<lambda>i. ?ls (arg_loc (maxRegArgs darwin fn) i)) [0..<sem_arity M sg (fun_value ls fn) m] =
      map ls (take (sem_arity M sg (fun_value ls fn) m) args)"
    using n by (intro nth_equalityI) (auto simp: after(1))
  then have "linear_step M (maxRegArgs darwin) code (LCode (LcallL sg fn # rest) ?ls m)
      (LCode rest (after_call M v ?ls) m')"
    using call after(2) by (simp add: linear_step_effect)
  moreover have "after_call M v ?ls = after_call M v ls"
    using after(3) by (rule after_call_cong)
  moreover have "(linear_step M (maxRegArgs darwin) code)\<^sup>*\<^sup>* (LCode (c @ rest) ls m) (LCode (LcallL sg fn # rest) ?ls m)"
    using run_moves_steps [OF pre] by (simp add: c)
  ultimately show ?thesis
    using s' by (auto simp: Lcall intro: rtranclp_into_tranclp1)
qed (use assms in \<open>auto elim!: ltl_step_consE simp: linear_step_effect intro!: tranclp.r_into_trancl\<close>)

text \<open>The terminator of a block.\<close>

lemma terminator_step:
  fixes M :: "('v, 'm) sem"
  assumes ok: "lin_ok darwin ord f order code" and at: "at_code darwin ord f order [t] c"
    and step: "ltl_step M f (LBlock [t] ls m) s'"
  shows "(\<exists>b c'. s' = LBlock b ls m \<and> at_code darwin ord f order b c' \<and>
            (linear_step M (maxRegArgs darwin) code)\<^sup>+\<^sup>+ (LCode c ls m) (LCode c' ls m)) \<or>
         (\<exists>r. s' = LFinal r \<and> (linear_step M (maxRegArgs darwin) code)\<^sup>+\<^sup>+ (LCode c ls m) (LnFinal r))"
proof -
  let ?lbl = "assignLabels order" and ?step = "linear_step M (maxRegArgs darwin) code"
  from at obtain pre n i ns bc rest where wf: "wf_block darwin [t]"
    and succ: "\<forall>s\<in>set (blockSuccessors [t]). ltl_code f s \<noteq> None \<longrightarrow> s \<in> set order"
    and ns: "order = pre @ ns" and bc: "c = bc @ rest" "emit_body darwin (ord n) ?lbl (next_of ns) i [t] = Some bc"
    and rest: "emit_blocks darwin ord (ltl_code f) ?lbl ns = Some rest"
    by (rule at_codeE)
  then have wf: "terminator_ok darwin t" and c: "c = emitTerminator ?lbl (next_of ns) t @ rest" by auto
  have target: "\<exists>c'. find_label (nodeToLbl ?lbl s) code = Some c' \<and> at_code darwin ord f order b c'"
    if "s \<in> set (terminator_successors t)" "ltl_code f s = Some b" for s b
    using at_code_target [OF ok _ that(2)] succ that by (auto simp: blockSuccessors_def)
  have goto: "\<exists>c'. at_code darwin ord f order b c' \<and> ?step (LCode (Lgoto (nodeToLbl ?lbl s) # d) ls m) (LCode c' ls m)"
    if "s \<in> set (terminator_successors t)" "ltl_code f s = Some b" for s b d
    using target [OF that] by (auto simp: linear_step_effect)
  have fall: "\<exists>c'. at_code darwin ord f order b c' \<and> ?step (LCode rest ls m) (LCode c' ls m)"
    if "next_of ns = Some s" "ltl_code f s = Some b" for s b
    using at_code_next [OF ok ns that(1) rest that(2)] by (auto simp: linear_step_effect)
  have goes: "\<exists>c'. at_code darwin ord f order b c' \<and>
      ?step (LCode ((if next_of ns = Some s then [] else [Lgoto (nodeToLbl ?lbl s)]) @ rest) ls m) (LCode c' ls m)"
    if "s \<in> set (terminator_successors t)" "ltl_code f s = Some b" for s b
    using goto [OF that, of rest] fall [OF _ that(2)] by simp
  show ?thesis
  proof (cases t)
    case (Lbranch s)
    with step obtain b where "ltl_code f s = Some b" "s' = LBlock b ls m" by (auto elim: ltl_step_consE)
    then show ?thesis using goes [of s b] by (auto simp: Lbranch c)
  next
    case (Lcond cnd args s1 s2)
    from step obtain v b where v: "sem_cond M cnd (map ls args) m = Some v"
      and b: "ltl_code f (if v then s1 else s2) = Some b" "s' = LBlock b ls m"
      by (auto simp: Lcond elim: ltl_step_consE)
    have c': "c = LcondL cnd args (nodeToLbl ?lbl s1) #
        (if next_of ns = Some s2 then [] else [Lgoto (nodeToLbl ?lbl s2)]) @ rest"
      by (simp add: c Lcond)
    show ?thesis
    proof (cases v)
      case True
      then have "\<exists>d. at_code darwin ord f order b d \<and> ?step (LCode c ls m) (LCode d ls m)"
        using target [of s1 b] b v by (auto simp: c' Lcond linear_step_effect)
      then show ?thesis using b(2) by blast
    next
      case False
      then have "?step (LCode c ls m)
          (LCode ((if next_of ns = Some s2 then [] else [Lgoto (nodeToLbl ?lbl s2)]) @ rest) ls m)"
        using v by (simp add: c' linear_step_effect)
      moreover obtain d where "at_code darwin ord f order b d"
        "?step (LCode ((if next_of ns = Some s2 then [] else [Lgoto (nodeToLbl ?lbl s2)]) @ rest) ls m) (LCode d ls m)"
        using goes [of s2 b] b False by (auto simp: Lcond)
      ultimately have "at_code darwin ord f order b d \<and> ?step\<^sup>+\<^sup>+ (LCode c ls m) (LCode d ls m)"
        by (meson tranclp.r_into_trancl tranclp.trancl_into_trancl)
      then show ?thesis using b(2) by blast
    qed
  next
    case (Ljumptable a ts)
    from step obtain s b where s: "jump_entry M (ls a) ts = Some s" "ltl_code f s = Some b" "s' = LBlock b ls m"
      by (auto simp: Ljumptable elim: ltl_step_consE)
    then have "\<exists>d. at_code darwin ord f order b d \<and> ?step (LCode c ls m) (LCode d ls m)"
      using target [of s b] jump_entry_in [OF s(1)]
      by (auto simp: c Ljumptable linear_step_effect jump_entry_map)
    then show ?thesis using s(3) by blast
  next
    case (Ltailcall sg fn args)
    let ?n = "sem_arity M sg (fun_value ls fn) m"
    from step have s': "?n \<le> length args"
      "s' = LFinal (Tailcalled sg (fun_value ls fn) (map ls (take ?n args)) m)"
      by (auto simp: Ltailcall elim: ltl_step_consE)
    from wf have args: "args = map (arg_loc (maxRegArgs darwin fn)) [0..<length args]"
      by (simp add: Ltailcall)
    have "map ls (take ?n args) = map (\<lambda>i. ls (arg_loc (maxRegArgs darwin fn) i)) [0..<?n]"
      using s'(1) by (subst args) (simp add: take_map comp_def)
    then show ?thesis using s'(2) by (auto simp: c Ltailcall linear_step_effect)
  next
    case Lreturn
    with step have "s' = LFinal (Returned (ls (R IntReturnReg)) m)" by (auto elim: ltl_step_consE)
    then show ?thesis by (auto simp: c Lreturn linear_step_effect)
  qed (use wf in simp_all)
qed

definition lin_match ::
  "bool \<Rightarrow> (node \<Rightarrow> nat \<Rightarrow> nat \<Rightarrow> mreg list) \<Rightarrow> ltl_function \<Rightarrow> node list \<Rightarrow> linear_instr list \<Rightarrow>
   ('v, 'm) ltl_state \<Rightarrow> ('v, 'm) linear_state \<Rightarrow> bool" where
  "lin_match darwin ord f order code s t \<longleftrightarrow> lin_ok darwin ord f order code \<and>
     ((\<exists>b c ls m. s = LBlock b ls m \<and> t = LCode c ls m \<and> at_code darwin ord f order b c) \<or>
      (\<exists>r. s = LFinal r \<and> t = LnFinal r))"

fun block_length :: "('v, 'm) ltl_state \<Rightarrow> nat" where
  "block_length (LBlock b _ _) = length b"
| "block_length (LFinal _) = 0"

lemma lin_match_code:
  "lin_ok darwin ord f order code \<Longrightarrow> at_code darwin ord f order b c \<Longrightarrow>
     lin_match darwin ord f order code (LBlock b ls m) (LCode c ls m)"
  by (auto simp: lin_match_def)

lemma lin_match_final:
  "lin_ok darwin ord f order code \<Longrightarrow> lin_match darwin ord f order code (LFinal r) (LnFinal r)"
  by (auto simp: lin_match_def)

lemma at_code_Cons:
  assumes "at_code darwin ord f order (a # b # bs) c"
  shows "\<exists>n i ca c'. c = ca @ c' \<and> body_ok darwin a \<and> convertInstruction darwin (ord n i) a = Some ca \<and>
    at_code darwin ord f order (b # bs) c'"
proof -
  from assms obtain pre n i ns bc rest where wf: "wf_block darwin (a # b # bs)"
    and succ: "\<forall>s\<in>set (blockSuccessors (a # b # bs)). ltl_code f s \<noteq> None \<longrightarrow> s \<in> set order"
    and ns: "order = pre @ ns" and c: "c = bc @ rest"
    and bc: "emit_body darwin (ord n) (assignLabels order) (next_of ns) i (a # b # bs) = Some bc"
    and rest: "emit_blocks darwin ord (ltl_code f) (assignLabels order) ns = Some rest"
    by (rule at_codeE)
  from bc obtain ca bc' where ca: "convertInstruction darwin (ord n i) a = Some ca" "bc = ca @ bc'"
    "emit_body darwin (ord n) (assignLabels order) (next_of ns) (Suc i) (b # bs) = Some bc'"
    by (auto simp: bind_eq_Some_conv)
  have "blockSuccessors (b # bs) = blockSuccessors (a # b # bs)" by (simp add: blockSuccessors_def)
  then have "at_code darwin ord f order (b # bs) (bc' @ rest)"
    using wf succ ns rest ca(3) by (intro at_codeI) auto
  then show ?thesis using ca wf by (auto simp: c)
qed

lemma lin_sim_step:
  fixes M :: "('v, 'm) sem"
  assumes "lin_match darwin ord f order code s t" and "ltl_step M f s s'"
  shows "(\<exists>t'. (linear_step M (maxRegArgs darwin) code)\<^sup>+\<^sup>+ t t' \<and> lin_match darwin ord f order code s' t') \<or>
     (lin_match darwin ord f order code s' t \<and> block_length s' < block_length s)"
proof -
  from assms obtain b c ls m where ok: "lin_ok darwin ord f order code"
    and s: "s = LBlock b ls m" and t: "t = LCode c ls m" and at: "at_code darwin ord f order b c"
    by (auto simp: lin_match_def elim: ltl_step_finalE)
  have ord: "set IntArgRegs \<subseteq> set (ord n i k)" for n i k
    using ok by (simp add: lin_ok_def ord_ok_def)
  show ?thesis
  proof (cases "(darwin, b)" rule: wf_block.cases)
    case (1 d)
    with at show ?thesis by (simp add: at_code_def)
  next
    case (2 d x)
    with at assms(2) terminator_step [OF ok, of x c M ls m s'] have
      "(\<exists>b' c'. s' = LBlock b' ls m \<and> at_code darwin ord f order b' c' \<and>
          (linear_step M (maxRegArgs darwin) code)\<^sup>+\<^sup>+ t (LCode c' ls m)) \<or>
       (\<exists>r. s' = LFinal r \<and> (linear_step M (maxRegArgs darwin) code)\<^sup>+\<^sup>+ t (LnFinal r))"
      by (simp add: s t)
    then show ?thesis
      using lin_match_code [OF ok] lin_match_final [OF ok] by metis
  next
    case (3 d x y bs)
    with at have "at_code darwin ord f order (x # y # bs) c" by simp
    from at_code_Cons [OF this] obtain n i ca c' where a: "c = ca @ c'" "body_ok darwin x"
      "convertInstruction darwin (ord n i) x = Some ca" "at_code darwin ord f order (y # bs) c'"
      by blast
    from body_step [OF ord a(2,3), of M f "y # bs" ls m s' code c'] assms(2) 3 obtain ls' m' where
      s': "s' = LBlock (y # bs) ls' m'"
      "if x = Lnop then ca = [] \<and> ls' = ls \<and> m' = m
       else (linear_step M (maxRegArgs darwin) code)\<^sup>+\<^sup>+ (LCode (ca @ c') ls m) (LCode c' ls' m')"
      by (auto simp: s)
    show ?thesis
    proof (cases "x = Lnop")
      case True
      with s' a 3 lin_match_code [OF ok a(4)] show ?thesis
        by (intro disjI2) (simp add: s t)
    next
      case False
      with s' a show ?thesis
        by (intro disjI1 exI [of _ "LCode c' ls' m'"]) (simp add: t lin_match_code [OF ok])
    qed
  qed
qed

interpretation linearize: fsim "ltl_step M f" ltl_final
    "linear_step M (maxRegArgs darwin) code" linear_final "lin_match darwin ord f order code" block_length
  for M :: "('v, 'm) sem" and darwin ord f order code
proof (unfold_locales, goal_cases)
  case (1 s t s')
  then show ?case by (rule lin_sim_step)
next
  case (2 s t r)
  then show ?case by (cases s) (auto simp: lin_match_def)
qed

lemma Linearize_code:
  assumes "ord_ok ord" and "wf_ltl darwin f"
  shows "\<exists>order g. Linearize darwin ord f = Some g \<and> lin_ok darwin ord f order (lin_code g) \<and>
     labels_of (lin_code g) = map (nodeToLbl (assignLabels order)) order"
proof -
  obtain order where order: "computeOrder f = Some order"
    using assms(2) computeOrder_returns [of f] by (auto simp: wf_ltl_def)
  from emit_blocks_returns [OF assms(1) computeOrder_blocks [OF order]] obtain c where
    "emit_blocks darwin ord (ltl_code f) (assignLabels order) order = Some c"
    "labels_of c = map (nodeToLbl (assignLabels order)) order" by blast
  then show ?thesis
    using assms order by (auto simp: Linearize_def Let_def lin_ok_def)
qed

lemma Linearize_labels_distinct:
  assumes "lin_ok darwin ord f order c" and "labels_of c = map (nodeToLbl (assignLabels order)) order"
  shows "distinct (labels_of c)"
proof -
  have "distinct order" using assms(1) computeOrder_distinct by (auto simp: lin_ok_def)
  then show ?thesis by (simp add: assms(2) distinct_map nodeToLbl_inj)
qed

lemma Linearize_behaviour:
  fixes M :: "('v, 'm) sem"
  assumes ok: "lin_ok darwin ord f order c" and b0: "ltl_initial f ls m = Some s"
    and beh: "behaves (ltl_step M f) ltl_final s beh" "beh \<noteq> Goes_wrong"
  shows "behaves (linear_step M (maxRegArgs darwin) c) linear_final (LCode c ls m) beh"
proof -
  from b0 obtain b where b: "ltl_code f (ltl_entry f) = Some b" and s: "s = LBlock b ls m"
    by (auto simp: ltl_initial_def)
  from ok have o: "computeOrder f = Some order"
    "emit_blocks darwin ord (ltl_code f) (assignLabels order) order = Some c" by (auto simp: lin_ok_def)
  from computeOrder_entry [OF o(1)] b have "next_of order = Some (ltl_entry f)" by auto
  from at_code_next [OF ok _ this o(2) b, of "[]"] obtain c' where
    c: "c = Llabel (nodeToLbl (assignLabels order) (ltl_entry f)) # c'" and "at_code darwin ord f order b c'" by auto
  then have "lin_match darwin ord f order c s (LCode c' ls m)"
    using lin_match_code [OF ok] by (simp add: s)
  from linearize.safe_preserved [OF this beh] have
    "behaves (linear_step M (maxRegArgs darwin) c) linear_final (LCode c' ls m) beh" .
  moreover have "linear_step M (maxRegArgs darwin) c (LCode c ls m) (LCode c' ls m)"
    by (subst (2) c) (simp add: linear_step_effect)
  ultimately show ?thesis by (meson behaves_step)
qed

section \<open>Properties\<close>

text \<open>
  Property C13. \<open>Linearize\<close> is total and correct: for every well-formed LTL function and whatever
  the map iteration orders, it returns Linear code whose labels are pairwise distinct, and that code
  terminates with the same outcome or diverges whenever the control-flow graph does, for every
  meaning of the operations.
\<close>

theorem Linearize_correct:
  fixes M :: "('v, 'm) sem"
  assumes "ord_ok ord" and "wf_ltl darwin f"
  shows "\<exists>g. Linearize darwin ord f = Some g \<and> distinct (labels_of (lin_code g)) \<and>
     (\<forall>ls m s beh. ltl_initial f ls m = Some s \<longrightarrow> behaves (ltl_step M f) ltl_final s beh \<longrightarrow>
        beh \<noteq> Goes_wrong \<longrightarrow>
        behaves (linear_step M (maxRegArgs darwin) (lin_code g)) linear_final (LCode (lin_code g) ls m) beh)"
  using Linearize_code [OF assms] Linearize_labels_distinct Linearize_behaviour by metis

text \<open>A loop that calls \<open>g\<close> on its counter; both blocks of the loop end in a branch back or out.\<close>

definition loop_example :: ltl_function where
  "loop_example = (ltl_NewFunction ''f'' int_sig)\<lparr>ltl_entry := 4, ltl_code := map_of
     [(4, [Lop Omove [R X0] (R X19), Lbranch 3]),
      (3, [Lnop, Lcond (Ccompimm Ceq 0) [R X19] 1 2]),
      (2, [Lcall int_sig (FunSymbol ''g'') [R X19], Lop Omove [R X0] (R X19), Lbranch 3]),
      (1, [Lreturn])]\<rparr>"

lemma loop_example_wf: "wf_ltl False loop_example"
  by (auto simp: wf_ltl_def loop_example_def ltl_NewFunction_def call_safe_def split: if_splits)

lemma list_order_ok: "ord_ok (\<lambda>_ _ _. IntArgRegs)"
  by (simp add: ord_ok_def)

theorem Linearize_correct_witness:
  "map_option lin_code (Linearize False (\<lambda>_ _ _. IntArgRegs) loop_example) = Some
     [Llabel 1, LopL Omove [R X0] (R X19),
      Llabel 2, LcondL (Ccompimm Ceq 0) [R X19] 4,
      Llabel 3, LopL Omove [R X19] (R X0), LcallL int_sig (FunSymbol ''g''), LopL Omove [R X0] (R X19), Lgoto 2,
      Llabel 4, LreturnL] \<and>
   (\<forall>M :: (nat, nat) sem. \<exists>g. Linearize False (\<lambda>_ _ _. IntArgRegs) loop_example = Some g \<and>
     distinct (labels_of (lin_code g)) \<and>
     (\<forall>ls m s beh. ltl_initial loop_example ls m = Some s \<longrightarrow>
        behaves (ltl_step M loop_example) ltl_final s beh \<longrightarrow> beh \<noteq> Goes_wrong \<longrightarrow>
        behaves (linear_step M (maxRegArgs False) (lin_code g)) linear_final (LCode (lin_code g) ls m) beh))"
proof (intro conjI allI)
  show "map_option lin_code (Linearize False (\<lambda>_ _ _. IntArgRegs) loop_example) = Some
     [Llabel 1, LopL Omove [R X0] (R X19),
      Llabel 2, LcondL (Ccompimm Ceq 0) [R X19] 4,
      Llabel 3, LopL Omove [R X19] (R X0), LcallL int_sig (FunSymbol ''g''), LopL Omove [R X0] (R X19), Lgoto 2,
      Llabel 4, LreturnL]"
    by code_simp
qed (rule Linearize_correct [OF list_order_ok loop_example_wf])

lemma Transform_preserves:
  fixes M :: "('v, 'm) sem"
  assumes "ord_ok ord" and "wf_ltl darwin f"
  shows "\<exists>g. Transform darwin ord f = Some g \<and>
     lin_name g = ltl_name f \<and> lin_sig g = ltl_sig f \<and> lin_params g = ltl_params f \<and>
     (\<forall>ls m s beh. ltl_initial f ls m = Some s \<longrightarrow> behaves (ltl_step M f) ltl_final s beh \<longrightarrow>
        beh \<noteq> Goes_wrong \<longrightarrow>
        behaves (linear_step M (maxRegArgs darwin) (lin_code g)) linear_final (LCode (lin_code g) ls m) beh)"
proof -
  from Linearize_code [OF assms] obtain order r where r: "Linearize darwin ord f = Some r"
    "lin_ok darwin ord f order (lin_code r)" "distinct (labels_of (lin_code r))"
    using Linearize_labels_distinct by blast
  let ?g = "ComputeStackSize (CleanupLabels (Tunnel r))"
  have "lin_code ?g = lin_code (CleanupLabels (Tunnel r))" by (simp add: ComputeStackSize_def)
  then have "behaves (linear_step M (maxRegArgs darwin) (lin_code ?g)) linear_final (LCode (lin_code ?g) ls m) beh
      \<longleftrightarrow> behaves (linear_step M (maxRegArgs darwin) (lin_code r)) linear_final (LCode (lin_code r) ls m) beh" for ls m beh
    using cleanup_behaviour [of M "maxRegArgs darwin" "Tunnel r" ls m beh]
      tunnel_behaviour [OF r(3), of M "maxRegArgs darwin" ls m beh] by simp
  moreover have "lin_name ?g = ltl_name f" "lin_sig ?g = ltl_sig f" "lin_params ?g = ltl_params f"
    using r(1) by (auto simp: Linearize_def Let_def bind_eq_Some_conv linear_NewFunction_def
        ComputeStackSize_def CleanupLabels_def Tunnel_def)
  ultimately show ?thesis
    using r(1) Linearize_behaviour [OF r(2)] by (auto simp: Transform_def)
qed

text \<open>
  Property C12. The whole pass is correct: linearizing, tunneling, removing labels and
  computing the stack size turns a well-formed LTL function into Linear code with the same
  behaviour, under the name, signature and parameters of the source.
\<close>

theorem Transform_correct:
  fixes M :: "('v, 'm) sem"
  assumes "ord_ok ord" and "wf_ltl darwin f"
  shows "\<exists>g. Transform darwin ord f = Some g \<and>
     lin_name g = ltl_name f \<and> lin_sig g = ltl_sig f \<and> lin_params g = ltl_params f \<and>
     (\<forall>ls m s beh. ltl_initial f ls m = Some s \<longrightarrow> behaves (ltl_step M f) ltl_final s beh \<longrightarrow>
        beh \<noteq> Goes_wrong \<longrightarrow>
        behaves (linear_step M (maxRegArgs darwin) (lin_code g)) linear_final (LCode (lin_code g) ls m) beh)"
  using assms by (rule Transform_preserves)

theorem Transform_correct_witness:
  "map_option lin_code (Transform False (\<lambda>_ _ _. IntArgRegs) loop_example) = Some
     [Llabel 1, LopL Omove [R X0] (R X19),
      Llabel 2, LcondL (Ccompimm Ceq 0) [R X19] 4,
      LopL Omove [R X19] (R X0), LcallL int_sig (FunSymbol ''g''), LopL Omove [R X0] (R X19), Lgoto 2,
      Llabel 4, LreturnL] \<and>
   (\<forall>M :: (nat, nat) sem. \<exists>g. Transform False (\<lambda>_ _ _. IntArgRegs) loop_example = Some g \<and>
     lin_name g = ltl_name loop_example \<and> lin_sig g = ltl_sig loop_example \<and> lin_params g = ltl_params loop_example \<and>
     (\<forall>ls m s beh. ltl_initial loop_example ls m = Some s \<longrightarrow>
        behaves (ltl_step M loop_example) ltl_final s beh \<longrightarrow> beh \<noteq> Goes_wrong \<longrightarrow>
        behaves (linear_step M (maxRegArgs False) (lin_code g)) linear_final (LCode (lin_code g) ls m) beh))"
proof (intro conjI allI)
  show "map_option lin_code (Transform False (\<lambda>_ _ _. IntArgRegs) loop_example) = Some
     [Llabel 1, LopL Omove [R X0] (R X19),
      Llabel 2, LcondL (Ccompimm Ceq 0) [R X19] 4,
      LopL Omove [R X19] (R X0), LcallL int_sig (FunSymbol ''g''), LopL Omove [R X0] (R X19), Lgoto 2,
      Llabel 4, LreturnL]"
    by code_simp
qed (rule Transform_correct [OF list_order_ok loop_example_wf])

end
