(* ===== verification/RTL.thy ===== *)
theory RTL
  imports LTL
begin

text \<open>
  The RTL language (\<open>pkg/rtl/ast.go\<close>): a control-flow graph of three-address instructions over
  an unbounded supply of pseudo-registers, and its small-step semantics. Register 0 as the
  destination of a call means that the result is not used.
\<close>

type_synonym reg = int

datatype rtl_instr =
    Inop node
  | Iop operation "reg list" reg node
  | Iload chunk addressingMode "reg list" reg node
  | Istore chunk addressingMode "reg list" reg node
  | Icall sig "reg funRef" "reg list" reg node
  | Itailcall sig "reg funRef" "reg list"
  | Ibuiltin string "reg list" "reg option" node
  | Icond conditionCode "reg list" node node
  | Ijumptable reg "node list"
  | Ireturn "reg option"

fun Successors :: "rtl_instr \<Rightarrow> node list" where
  "Successors (Inop s) = [s]"
| "Successors (Iop _ _ _ s) = [s]"
| "Successors (Iload _ _ _ _ s) = [s]"
| "Successors (Istore _ _ _ _ s) = [s]"
| "Successors (Icall _ _ _ _ s) = [s]"
| "Successors (Itailcall _ _ _) = []"
| "Successors (Ibuiltin _ _ _ s) = [s]"
| "Successors (Icond _ _ s1 s2) = [s1, s2]"
| "Successors (Ijumptable _ ts) = ts"
| "Successors (Ireturn _) = []"

record rtl_function =
  rtl_name :: string
  rtl_sig :: sig
  rtl_params :: "reg list"
  rtl_stacksize :: int64
  rtl_code :: "node \<rightharpoonup> rtl_instr"
  rtl_entry :: node

record rtl_program =
  rtl_globals :: "globVar list"
  rtl_functions :: "rtl_function list"

text \<open>\<open>rtl.NewFunction\<close>.\<close>

definition rtl_NewFunction :: "string \<Rightarrow> sig \<Rightarrow> rtl_function" where
  "rtl_NewFunction name sg = \<lparr>rtl_name = name, rtl_sig = sg, rtl_params = [], rtl_stacksize = 0,
     rtl_code = Map.empty, rtl_entry = 0\<rparr>"

section \<open>Semantics of RTL\<close>

type_synonym 'v regset = "reg \<Rightarrow> 'v"

definition rtl_fun_value :: "'v regset \<Rightarrow> reg funRef \<Rightarrow> 'v funVal" where
  "rtl_fun_value rs f = (case f of FunReg r \<Rightarrow> FV_ptr (rs r) | FunSymbol s \<Rightarrow> FV_sym s)"

definition reg_result :: "reg option \<Rightarrow> 'v \<Rightarrow> 'v regset \<Rightarrow> 'v regset" where
  "reg_result d v rs = (case d of None \<Rightarrow> rs | Some r \<Rightarrow> rs(r := v))"

definition call_result :: "reg \<Rightarrow> 'v \<Rightarrow> 'v regset \<Rightarrow> 'v regset" where
  "call_result d v rs = (if d = 0 then rs else rs(d := v))"

datatype ('v, 'm) rtl_state =
    RNode node "'v regset" 'm
  | RFinal "('v, 'm) outcome"

inductive rtl_exec :: "('v, 'm) sem \<Rightarrow> rtl_instr \<Rightarrow> 'v regset \<Rightarrow> 'm \<Rightarrow> ('v, 'm) rtl_state \<Rightarrow> bool"
  for M where
  rtl_nop: "rtl_exec M (Inop s) rs m (RNode s rs m)"
| rtl_op: "eval_op M op (map rs args) m = Some v \<Longrightarrow>
    rtl_exec M (Iop op args d s) rs m (RNode s (rs(d := v)) m)"
| rtl_load: "sem_load M ch a (map rs args) m = Some v \<Longrightarrow>
    rtl_exec M (Iload ch a args d s) rs m (RNode s (rs(d := v)) m)"
| rtl_store: "sem_store M ch a (map rs args) (rs src) m = Some m' \<Longrightarrow>
    rtl_exec M (Istore ch a args src s) rs m (RNode s rs m')"
| rtl_call: "n = sem_arity M sg (rtl_fun_value rs fn) m \<Longrightarrow> n \<le> length args \<Longrightarrow>
    sem_call M sg (rtl_fun_value rs fn) (map rs (take n args)) m = Some (v, m') \<Longrightarrow>
    rtl_exec M (Icall sg fn args d s) rs m (RNode s (call_result d v rs) m')"
| rtl_tailcall: "n = sem_arity M sg (rtl_fun_value rs fn) m \<Longrightarrow> n \<le> length args \<Longrightarrow>
    rtl_exec M (Itailcall sg fn args) rs m
      (RFinal (Tailcalled sg (rtl_fun_value rs fn) (map rs (take n args)) m))"
| rtl_builtin: "sem_builtin M bf (map rs args) m = Some (v, m') \<Longrightarrow>
    rtl_exec M (Ibuiltin bf args d s) rs m (RNode s (reg_result d v rs) m')"
| rtl_cond: "sem_cond M c (map rs args) m = Some t \<Longrightarrow>
    rtl_exec M (Icond c args s1 s2) rs m (RNode (if t then s1 else s2) rs m)"
| rtl_jumptable: "jump_entry M (rs a) ts = Some s \<Longrightarrow>
    rtl_exec M (Ijumptable a ts) rs m (RNode s rs m)"
| rtl_return_void: "rtl_exec M (Ireturn None) rs m (RFinal (Returned (sem_undef M) m))"
| rtl_return: "rtl_exec M (Ireturn (Some r)) rs m (RFinal (Returned (rs r) m))"

inductive rtl_step :: "('v, 'm) sem \<Rightarrow> rtl_function \<Rightarrow> ('v, 'm) rtl_state \<Rightarrow> ('v, 'm) rtl_state \<Rightarrow> bool"
  for M f where
  rtl_node: "rtl_code f n = Some i \<Longrightarrow> rtl_exec M i rs m s' \<Longrightarrow> rtl_step M f (RNode n rs m) s'"

text \<open>
  What the caller observes. The value a function leaves behind when it returns none is not
  observed: \<open>void\<close> hides it.
\<close>

fun hide :: "bool \<Rightarrow> 'v \<Rightarrow> ('v, 'm) outcome \<Rightarrow> ('v, 'm) outcome" where
  "hide void u (Returned v m) = Returned (if void then u else v) m"
| "hide void u (Tailcalled sg f vs m) = Tailcalled sg f vs m"

fun rtl_final :: "('v, 'm) sem \<Rightarrow> bool \<Rightarrow> ('v, 'm) rtl_state \<Rightarrow> ('v, 'm) outcome \<Rightarrow> bool" where
  "rtl_final M void (RFinal r) q \<longleftrightarrow> q = hide void (sem_undef M) r"
| "rtl_final M void (RNode _ _ _) q \<longleftrightarrow> False"

fun ltl_final_obs :: "('v, 'm) sem \<Rightarrow> bool \<Rightarrow> ('v, 'm) ltl_state \<Rightarrow> ('v, 'm) outcome \<Rightarrow> bool" where
  "ltl_final_obs M void (LFinal r) q \<longleftrightarrow> q = hide void (sem_undef M) r"
| "ltl_final_obs M void (LBlock _ _ _) q \<longleftrightarrow> False"

text \<open>A call binds the parameters to its arguments; every other register is undefined.\<close>

fun init_regs :: "'v \<Rightarrow> reg list \<Rightarrow> 'v list \<Rightarrow> 'v regset" where
  "init_regs u (r # rs) (v # vs) = (init_regs u rs vs)(r := v)"
| "init_regs u _ _ = (\<lambda>_. u)"

inductive_cases rtl_execE: "rtl_exec M i rs m s'"
inductive_cases rtl_step_nodeE: "rtl_step M f (RNode n rs m) s'"
inductive_cases rtl_step_finalE: "rtl_step M f (RFinal r) s'"
inductive_simps rtl_step_node [simp]: "rtl_step M f (RNode n rs m) s'"
inductive_simps rtl_step_final [simp]: "rtl_step M f (RFinal r) s'"

lemma rtl_exec_det: "rtl_exec M i rs m s \<Longrightarrow> rtl_exec M i rs m t \<Longrightarrow> s = t"
  by (cases rule: rtl_exec.cases) (auto elim: rtl_execE)

lemma rtl_exec_succ: "rtl_exec M i rs m (RNode s rs' m') \<Longrightarrow> s \<in> set (Successors i)"
  by (auto elim!: rtl_execE dest: jump_entry_in)

interpretation rtl: determ "rtl_step M f" "rtl_final M void" for M :: "('v, 'm) sem" and f void
proof
  fix s t u :: "('v, 'm) rtl_state"
  assume "rtl_step M f s t" "rtl_step M f s u"
  then show "t = u"
    by (cases s) (auto dest: rtl_exec_det)
next
  fix s t :: "('v, 'm) rtl_state" and r
  assume "rtl_final M void s r" then show "\<not> rtl_step M f s t"
    by (cases s) auto
next
  fix s :: "('v, 'm) rtl_state" and r q
  assume "rtl_final M void s r" "rtl_final M void s q" then show "r = q"
    by (cases s) auto
qed

interpretation ltl_obs: determ "ltl_step M f" "ltl_final_obs M void" for M :: "('v, 'm) sem" and f void
proof
  fix s t u :: "('v, 'm) ltl_state"
  assume "ltl_step M f s t" "ltl_step M f s u"
  then show "t = u" by (rule ltl.det)
next
  fix s t :: "('v, 'm) ltl_state" and r
  assume "ltl_final_obs M void s r" then show "\<not> ltl_step M f s t"
    by (cases s) (auto elim: ltl_step_finalE)
next
  fix s :: "('v, 'm) ltl_state" and r q
  assume "ltl_final_obs M void s r" "ltl_final_obs M void s q" then show "r = q"
    by (cases s) auto
qed

end
