(* ===== verification/Liveness.thy ===== *)
theory Liveness
  imports RTL
begin

text \<open>
  Liveness analysis (\<open>pkg/regalloc/liveness.go\<close>): the fixed-point iteration over the dataflow
  equations. It ends, and what it computes is exactly path liveness, whatever the order in which
  Go visits the map of instructions. The \<open>k\<close>-th round visits the nodes in the order \<open>ord k\<close>.
\<close>

section \<open>Register sets\<close>

type_synonym regSet = "reg set"

text \<open>\<open>RegSet\<close> is a map to booleans in which only \<open>true\<close> is ever stored: a finite set.\<close>

definition RegSet_Union :: "regSet \<Rightarrow> regSet \<Rightarrow> regSet" where
  "RegSet_Union s other = s \<union> other"

definition RegSet_Minus :: "regSet \<Rightarrow> regSet \<Rightarrow> regSet" where
  "RegSet_Minus s other = {r \<in> s. r \<notin> other}"

definition RegSet_Equal :: "regSet \<Rightarrow> regSet \<Rightarrow> bool" where
  "RegSet_Equal s other \<longleftrightarrow> card s = card other \<and> (\<forall>r\<in>s. r \<in> other)"

lemma RegSet_Equal_iff: "finite s \<Longrightarrow> finite t \<Longrightarrow> RegSet_Equal s t \<longleftrightarrow> s = t"
  unfolding RegSet_Equal_def by (metis card_subset_eq subsetI)

section \<open>Definitions and uses\<close>

fun funref_regs :: "reg funRef \<Rightarrow> reg list" where
  "funref_regs (FunReg r) = [r]"
| "funref_regs (FunSymbol _) = []"

fun instr_def :: "rtl_instr \<Rightarrow> regSet" where
  "instr_def (Iop _ _ d _) = {d}"
| "instr_def (Iload _ _ _ d _) = {d}"
| "instr_def (Icall _ _ _ d _) = (if d \<noteq> 0 then {d} else {})"
| "instr_def (Ibuiltin _ _ d _) = (case d of Some r \<Rightarrow> {r} | None \<Rightarrow> {})"
| "instr_def _ = {}"

fun instr_use :: "rtl_instr \<Rightarrow> regSet" where
  "instr_use (Inop _) = {}"
| "instr_use (Iop _ args _ _) = set args"
| "instr_use (Iload _ _ args _ _) = set args"
| "instr_use (Istore _ _ args src _) = insert src (set args)"
| "instr_use (Icall _ fn args _ _) = set args \<union> set (funref_regs fn)"
| "instr_use (Itailcall _ fn args) = set args \<union> set (funref_regs fn)"
| "instr_use (Ibuiltin _ args _ _) = set args"
| "instr_use (Icond _ args _ _) = set args"
| "instr_use (Ijumptable a _) = {a}"
| "instr_use (Ireturn r) = (case r of Some a \<Rightarrow> {a} | None \<Rightarrow> {})"

text \<open>A lookup in one of the maps from nodes to sets; a missing entry is the empty set.\<close>

definition ComputeDefUse :: "rtl_function \<Rightarrow> (node \<Rightarrow> regSet) \<times> (node \<Rightarrow> regSet)" where
  "ComputeDefUse f =
     (\<lambda>n. case rtl_code f n of Some i \<Rightarrow> instr_def i | None \<Rightarrow> {},
      \<lambda>n. case rtl_code f n of Some i \<Rightarrow> instr_use i | None \<Rightarrow> {})"

section \<open>The iteration\<close>

record livenessInfo =
  LiveIn :: "node \<Rightarrow> regSet"
  LiveOut :: "node \<Rightarrow> regSet"
  Def :: "node \<Rightarrow> regSet"
  Use :: "node \<Rightarrow> regSet"

type_synonym live_state = "bool \<times> (node \<Rightarrow> regSet) \<times> (node \<Rightarrow> regSet)"

definition succ_live :: "(node \<Rightarrow> regSet) \<Rightarrow> rtl_instr \<Rightarrow> regSet" where
  "succ_live liveIn i = (\<Union>s\<in>set (Successors i). liveIn s)"

definition live_visit :: "rtl_function \<Rightarrow> node \<Rightarrow> live_state \<Rightarrow> live_state" where
  "live_visit f n st = (case (rtl_code f n, st) of
     (None, _) \<Rightarrow> st
   | (Some i, (changed, liveIn, liveOut)) \<Rightarrow>
       let (def, use) = ComputeDefUse f;
           newLiveOut = succ_live liveIn i;
           newLiveIn = RegSet_Union (use n) (RegSet_Minus newLiveOut (def n))
       in if \<not> RegSet_Equal (liveIn n) newLiveIn \<or> \<not> RegSet_Equal (liveOut n) newLiveOut
          then (True, liveIn(n := newLiveIn), liveOut(n := newLiveOut))
          else (changed, liveIn, liveOut))"

partial_function (option) live_loop ::
  "rtl_function \<Rightarrow> (nat \<Rightarrow> node list) \<Rightarrow> nat \<Rightarrow> (node \<Rightarrow> regSet) \<Rightarrow> (node \<Rightarrow> regSet) \<Rightarrow>
   ((node \<Rightarrow> regSet) \<times> (node \<Rightarrow> regSet)) option" where
  [code]: "live_loop f ord k liveIn liveOut =
     (case fold (live_visit f) (ord k) (False, liveIn, liveOut) of
        (changed, liveIn', liveOut') \<Rightarrow>
          if changed then live_loop f ord (Suc k) liveIn' liveOut' else Some (liveIn', liveOut'))"

definition AnalyzeLiveness :: "(nat \<Rightarrow> node list) \<Rightarrow> rtl_function \<Rightarrow> livenessInfo option" where
  "AnalyzeLiveness ord f =
     map_option (\<lambda>(liveIn, liveOut). \<lparr>LiveIn = liveIn, LiveOut = liveOut,
         Def = fst (ComputeDefUse f), Use = snd (ComputeDefUse f)\<rparr>)
       (live_loop f ord 0 (\<lambda>_. {}) (\<lambda>_. {}))"

section \<open>Path liveness\<close>

inductive live :: "rtl_function \<Rightarrow> node \<Rightarrow> reg \<Rightarrow> bool" for f where
  live_use: "rtl_code f n = Some i \<Longrightarrow> r \<in> instr_use i \<Longrightarrow> live f n r"
| live_succ: "rtl_code f n = Some i \<Longrightarrow> s \<in> set (Successors i) \<Longrightarrow> live f s r \<Longrightarrow> r \<notin> instr_def i \<Longrightarrow>
    live f n r"

definition live_out :: "rtl_function \<Rightarrow> node \<Rightarrow> reg \<Rightarrow> bool" where
  "live_out f n r \<longleftrightarrow> (\<exists>i s. rtl_code f n = Some i \<and> s \<in> set (Successors i) \<and> live f s r)"

lemma finite_instr_use [simp]: "finite (instr_use i)"
  by (cases i) (auto split: option.splits)

lemma finite_instr_def [simp]: "finite (instr_def i)"
  by (cases i) (auto split: option.splits)

text \<open>
  The invariant: every register in a set is live there, and every set is contained in what its
  equation gives, so that no update removes a register.
\<close>

definition flow_in :: "rtl_instr \<Rightarrow> (node \<Rightarrow> regSet) \<Rightarrow> regSet" where
  "flow_in i li = instr_use i \<union> (succ_live li i - instr_def i)"

definition live_inv :: "rtl_function \<Rightarrow> (node \<Rightarrow> regSet) \<Rightarrow> (node \<Rightarrow> regSet) \<Rightarrow> bool" where
  "live_inv f li lo \<longleftrightarrow>
     (\<forall>n r. r \<in> li n \<longrightarrow> live f n r) \<and> (\<forall>n r. r \<in> lo n \<longrightarrow> live_out f n r) \<and>
     (\<forall>n i. rtl_code f n = Some i \<longrightarrow> li n \<subseteq> flow_in i li \<and> lo n \<subseteq> succ_live li i)"

lemma succ_live_mono: "(\<And>n. li n \<subseteq> li' n) \<Longrightarrow> succ_live li i \<subseteq> succ_live li' i"
  unfolding succ_live_def by blast

lemma flow_in_mono: "(\<And>n. li n \<subseteq> li' n) \<Longrightarrow> flow_in i li \<subseteq> flow_in i li'"
  using succ_live_mono [of li li' i] unfolding flow_in_def by blast

definition universe :: "rtl_function \<Rightarrow> regSet" where
  "universe f = (\<Union>n\<in>dom (rtl_code f). instr_use (the (rtl_code f n)))"

lemma live_universe: "live f n r \<Longrightarrow> r \<in> universe f \<and> n \<in> dom (rtl_code f)"
  by (induction rule: live.induct) (auto simp: universe_def dom_def intro!: exI)

lemma finite_universe: "finite (dom (rtl_code f)) \<Longrightarrow> finite (universe f)"
  by (simp add: universe_def)

lemma live_inv_universe:
  assumes "live_inv f li lo"
  shows "li n \<subseteq> universe f" "lo n \<subseteq> universe f"
  using assms live_universe unfolding live_inv_def live_out_def by blast+

definition live_room :: "rtl_function \<Rightarrow> (node \<Rightarrow> regSet) \<Rightarrow> (node \<Rightarrow> regSet) \<Rightarrow> nat" where
  "live_room f li lo = (\<Sum>n\<in>dom (rtl_code f). card (universe f - li n) + card (universe f - lo n))"

lemma live_visit_eq:
  assumes "finite (dom (rtl_code f))" and "live_inv f li lo" and "rtl_code f n = Some i"
  shows "live_visit f n (ch, li, lo) =
    (if li n \<noteq> flow_in i li \<or> lo n \<noteq> succ_live li i
     then (True, li(n := flow_in i li), lo(n := succ_live li i)) else (ch, li, lo))"
proof -
  note U = finite_universe [OF assms(1)] live_inv_universe [OF assms(2)]
  have fin: "finite (li k)" "finite (lo k)" for k
    using finite_subset [OF U(2) U(1)] finite_subset [OF U(3) U(1)] by simp_all
  then have "finite (succ_live li i)" by (simp add: succ_live_def)
  then have eq: "RegSet_Equal (li n) (flow_in i li) \<longleftrightarrow> li n = flow_in i li"
    "RegSet_Equal (lo n) (succ_live li i) \<longleftrightarrow> lo n = succ_live li i"
    using fin by (simp_all add: RegSet_Equal_iff flow_in_def)
  have "RegSet_Union (instr_use i) (RegSet_Minus (succ_live li i) (instr_def i)) = flow_in i li"
    by (auto simp: RegSet_Union_def RegSet_Minus_def flow_in_def)
  with eq show ?thesis
    using assms(3) by (simp add: live_visit_def ComputeDefUse_def Let_def)
qed

lemma live_inv_update:
  assumes inv: "live_inv f li lo" and i: "rtl_code f n = Some i"
  shows "live_inv f (li(n := flow_in i li)) (lo(n := succ_live li i))"
proof -
  let ?li = "li(n := flow_in i li)"
  have grow: "li k \<subseteq> ?li k" for k
    using inv i by (auto simp: live_inv_def)
  have "live f n r" if "r \<in> flow_in i li" for r
    using that inv i unfolding flow_in_def succ_live_def live_inv_def
    by (auto intro: live_use live_succ)
  moreover have "live_out f n r" if "r \<in> succ_live li i" for r
    using that inv i unfolding succ_live_def live_out_def live_inv_def by blast
  moreover have "?li k \<subseteq> flow_in j ?li \<and> (lo(n := succ_live li i)) k \<subseteq> succ_live ?li j"
    if "rtl_code f k = Some j" for k j
  proof -
    have "li k \<subseteq> flow_in j li" "lo k \<subseteq> succ_live li j"
      using inv that unfolding live_inv_def by blast+
    then show ?thesis
      using flow_in_mono [of li ?li j, OF grow] succ_live_mono [of li ?li j, OF grow] i that
      by (cases "k = n") (simp_all add: subset_trans)
  qed
  ultimately show ?thesis
    using inv unfolding live_inv_def by simp
qed

lemma live_room_update:
  assumes fin: "finite (dom (rtl_code f))" and inv: "live_inv f li lo" and i: "rtl_code f n = Some i"
    and ch: "li n \<noteq> flow_in i li \<or> lo n \<noteq> succ_live li i"
  shows "live_room f (li(n := flow_in i li)) (lo(n := succ_live li i)) < live_room f li lo"
proof -
  let ?U = "universe f"
  have fu: "finite ?U" using fin by (rule finite_universe)
  have sub: "li n \<subseteq> flow_in i li" "lo n \<subseteq> succ_live li i"
    using inv i by (auto simp: live_inv_def)
  have U: "flow_in i li \<subseteq> ?U" "succ_live li i \<subseteq> ?U"
    using live_inv_universe [OF live_inv_update [OF inv i], of n] by auto
  have le: "card (?U - B) \<le> card (?U - A)" "A \<noteq> B \<Longrightarrow> card (?U - B) < card (?U - A)"
    if "A \<subseteq> B" "B \<subseteq> ?U" for A B
  proof -
    show "card (?U - B) \<le> card (?U - A)"
      using that fu by (intro card_mono) auto
    show "card (?U - B) < card (?U - A)" if "A \<noteq> B"
      using \<open>A \<subseteq> B\<close> \<open>B \<subseteq> ?U\<close> that fu by (intro psubset_card_mono) auto
  qed
  have "card (?U - flow_in i li) + card (?U - succ_live li i) < card (?U - li n) + card (?U - lo n)"
    using le(1) [OF sub(1) U(1)] le(1) [OF sub(2) U(2)] le(2) [OF sub(1) U(1)] le(2) [OF sub(2) U(2)] ch
    by linarith
  then show ?thesis
    unfolding live_room_def using fin i
    by (intro sum_strict_mono_ex1) (auto intro!: bexI [of _ n])
qed

lemma live_visit_step:
  assumes "finite (dom (rtl_code f))" and "live_inv f li lo"
  shows "\<exists>ch' li' lo'. live_visit f n (ch, li, lo) = (ch', li', lo') \<and> live_inv f li' lo' \<and>
     ((ch' = ch \<and> li' = li \<and> lo' = lo \<and>
         (\<forall>i. rtl_code f n = Some i \<longrightarrow> li n = flow_in i li \<and> lo n = succ_live li i)) \<or>
      (ch' \<and> live_room f li' lo' < live_room f li lo))"
proof (cases "rtl_code f n")
  case None
  with assms show ?thesis by (simp add: live_visit_def)
next
  case (Some i)
  with live_visit_eq [OF assms Some] live_inv_update [OF assms(2) Some] live_room_update [OF assms Some] assms(2)
  show ?thesis by auto
qed

lemma live_pass:
  assumes "finite (dom (rtl_code f))" and "live_inv f li lo"
  shows "\<exists>ch' li' lo'. fold (live_visit f) ns (ch, li, lo) = (ch', li', lo') \<and> live_inv f li' lo' \<and>
     ((ch' = ch \<and> li' = li \<and> lo' = lo \<and>
         (\<forall>n\<in>set ns. \<forall>i. rtl_code f n = Some i \<longrightarrow> li n = flow_in i li \<and> lo n = succ_live li i)) \<or>
      (ch' \<and> live_room f li' lo' < live_room f li lo))"
  using assms(2)
proof (induction ns arbitrary: ch li lo)
  case (Cons n ns)
  from live_visit_step [OF assms(1) Cons.prems, of n ch] obtain ch1 li1 lo1 where
    1: "live_visit f n (ch, li, lo) = (ch1, li1, lo1)" "live_inv f li1 lo1"
    "(ch1 = ch \<and> li1 = li \<and> lo1 = lo \<and>
         (\<forall>i. rtl_code f n = Some i \<longrightarrow> li n = flow_in i li \<and> lo n = succ_live li i)) \<or>
      (ch1 \<and> live_room f li1 lo1 < live_room f li lo)" by blast
  from Cons.IH [OF 1(2), of ch1] obtain ch2 li2 lo2 where
    2: "fold (live_visit f) ns (ch1, li1, lo1) = (ch2, li2, lo2)" "live_inv f li2 lo2"
    "(ch2 = ch1 \<and> li2 = li1 \<and> lo2 = lo1 \<and>
         (\<forall>n\<in>set ns. \<forall>i. rtl_code f n = Some i \<longrightarrow> li1 n = flow_in i li1 \<and> lo1 n = succ_live li1 i)) \<or>
      (ch2 \<and> live_room f li2 lo2 < live_room f li1 lo1)" by blast
  have "fold (live_visit f) (n # ns) (ch, li, lo) = (ch2, li2, lo2)" using 1 2 by simp
  with 1(3) 2(2,3) show ?case by (intro exI conjI) (assumption | auto)+
qed simp

lemma live_loop_fixpoint:
  assumes fin: "finite (dom (rtl_code f))" and ord: "\<And>k. dom (rtl_code f) \<subseteq> set (ord k)"
    and "live_inv f li lo"
  shows "\<exists>li' lo'. live_loop f ord k li lo = Some (li', lo') \<and> live_inv f li' lo' \<and>
     (\<forall>n i. rtl_code f n = Some i \<longrightarrow> li' n = flow_in i li' \<and> lo' n = succ_live li' i)"
  using assms(3)
proof (induction "live_room f li lo" arbitrary: k li lo rule: less_induct)
  case less
  from live_pass [OF fin less.prems, of "ord k" False] obtain ch' li' lo' where
    p: "fold (live_visit f) (ord k) (False, li, lo) = (ch', li', lo')" "live_inv f li' lo'"
    and c: "(\<not> ch' \<and> li' = li \<and> lo' = lo \<and>
         (\<forall>n\<in>set (ord k). \<forall>i. rtl_code f n = Some i \<longrightarrow> li n = flow_in i li \<and> lo n = succ_live li i)) \<or>
      (ch' \<and> live_room f li' lo' < live_room f li lo)" by auto
  show ?case
  proof (cases ch')
    case True
    with c have "live_room f li' lo' < live_room f li lo" by simp
    from less.hyps [OF this p(2), of "Suc k"] True p(1) show ?thesis
      by (subst live_loop.simps) simp
  next
    case False
    with c p ord [of k] show ?thesis by (subst live_loop.simps) (auto simp: domI subset_iff)
  qed
qed

lemma live_complete:
  assumes "\<And>n i. rtl_code f n = Some i \<Longrightarrow> li n = flow_in i li" and "live f n r"
  shows "r \<in> li n"
  using assms(2) assms(1) by induction (auto simp: flow_in_def succ_live_def)

lemma live_loop_live:
  assumes "finite (dom (rtl_code f))" and "\<And>k. dom (rtl_code f) \<subseteq> set (ord k)"
  shows "\<exists>li lo. live_loop f ord 0 (\<lambda>_. {}) (\<lambda>_. {}) = Some (li, lo) \<and>
    (\<forall>n r. r \<in> li n \<longleftrightarrow> live f n r) \<and> (\<forall>n r. r \<in> lo n \<longleftrightarrow> live_out f n r)"
proof -
  have "live_inv f (\<lambda>_. {}) (\<lambda>_. {})" by (simp add: live_inv_def)
  from live_loop_fixpoint [where ord = ord and k = 0, OF assms this] obtain li lo where
    l: "live_loop f ord 0 (\<lambda>_. {}) (\<lambda>_. {}) = Some (li, lo)" "live_inv f li lo"
    "\<forall>n i. rtl_code f n = Some i \<longrightarrow> li n = flow_in i li \<and> lo n = succ_live li i" by blast
  have "r \<in> li n \<longleftrightarrow> live f n r" for n r
    using l live_complete unfolding live_inv_def by metis
  moreover have "r \<in> lo n \<longleftrightarrow> live_out f n r" for n r
    using l(2,3) calculation unfolding live_inv_def live_out_def succ_live_def by (metis UN_iff)
  ultimately show ?thesis using l(1) by blast
qed

section \<open>Properties\<close>

text \<open>
  Property C15. \<open>AnalyzeLiveness\<close> ends and is exact, for every order of map iteration: a register
  is in the live-in set of a node precisely when some path from the node reaches a use of it
  without passing a definition, and the live-out sets are those of the successors.
\<close>

theorem AnalyzeLiveness_exact:
  assumes "finite (dom (rtl_code f))" and "\<And>k. dom (rtl_code f) \<subseteq> set (ord k)"
  shows "\<exists>info. AnalyzeLiveness ord f = Some info \<and>
     (\<forall>n r. r \<in> LiveIn info n \<longleftrightarrow> live f n r) \<and>
     (\<forall>n r. r \<in> LiveOut info n \<longleftrightarrow> live_out f n r) \<and>
     Def info = fst (ComputeDefUse f) \<and> Use info = snd (ComputeDefUse f)"
  using live_loop_live [where ord = ord, OF assms] by (auto simp: AnalyzeLiveness_def)

text \<open>A loop that counts register 1 down and returns it.\<close>

definition live_example :: rtl_function where
  "live_example = (rtl_NewFunction ''f'' \<lparr>sig_args = [''int''], sig_return = ''int'', sig_vararg = False\<rparr>)
     \<lparr>rtl_params := [1], rtl_entry := 3, rtl_code := map_of
       [(3, Icond (Ccompimm Ceq 0) [1] 1 2), (2, Iop (Oarith (Oaddimm (- 1))) [1] 1 3), (1, Ireturn (Some 1))]\<rparr>"

theorem AnalyzeLiveness_exact_witness:
  "(let info = the (AnalyzeLiveness (\<lambda>_. [1, 2, 3]) live_example) in
      map (LiveIn info) [1, 2, 3] = [{1}, {1}, {1}] \<and> map (LiveOut info) [1, 2, 3] = [{}, {1}, {1}]) \<and>
   (\<exists>info. AnalyzeLiveness (\<lambda>_. [1, 2, 3]) live_example = Some info \<and>
     (\<forall>n r. r \<in> LiveIn info n \<longleftrightarrow> live live_example n r) \<and>
     (\<forall>n r. r \<in> LiveOut info n \<longleftrightarrow> live_out live_example n r) \<and>
     Def info = fst (ComputeDefUse live_example) \<and> Use info = snd (ComputeDefUse live_example))"
proof
  show "let info = the (AnalyzeLiveness (\<lambda>_. [1, 2, 3]) live_example) in
      map (LiveIn info) [1, 2, 3] = [{1}, {1}, {1}] \<and> map (LiveOut info) [1, 2, 3] = [{}, {1}, {1}]"
    by code_simp
  show "\<exists>info. AnalyzeLiveness (\<lambda>_. [1, 2, 3]) live_example = Some info \<and>
     (\<forall>n r. r \<in> LiveIn info n \<longleftrightarrow> live live_example n r) \<and>
     (\<forall>n r. r \<in> LiveOut info n \<longleftrightarrow> live_out live_example n r) \<and>
     Def info = fst (ComputeDefUse live_example) \<and> Use info = snd (ComputeDefUse live_example)"
    by (rule AnalyzeLiveness_exact) (auto simp: live_example_def split: if_splits)
qed

end
