(* ===== verification/Interference.thy ===== *)
theory Interference
  imports Liveness
begin

text \<open>
  The interference graph (\<open>pkg/regalloc/interference.go\<close>) and its construction from liveness
  information. A missing entry of the maps \<open>Edges\<close> and \<open>Preferences\<close> is the empty set. The order
  of map iteration is given by \<open>enum\<close>, which lists a set of registers, and \<open>ns\<close>, which lists the
  nodes of the function; the graph does not depend on them.
\<close>

section \<open>The graph\<close>

record interferenceGraph =
  Nodes :: regSet
  Edges :: "reg \<Rightarrow> regSet"
  Preferences :: "reg \<Rightarrow> regSet"
  LiveAcrossCalls :: regSet

definition NewInterferenceGraph :: interferenceGraph where
  "NewInterferenceGraph = \<lparr>Nodes = {}, Edges = (\<lambda>_. {}), Preferences = (\<lambda>_. {}), LiveAcrossCalls = {}\<rparr>"

definition AddNode :: "reg \<Rightarrow> interferenceGraph \<Rightarrow> interferenceGraph" where
  "AddNode r g = g\<lparr>Nodes := insert r (Nodes g)\<rparr>"

definition add_to :: "(reg \<Rightarrow> regSet) \<Rightarrow> reg \<Rightarrow> reg \<Rightarrow> (reg \<Rightarrow> regSet)" where
  "add_to m a b = m(a := insert b (m a))"

definition AddEdge :: "reg \<Rightarrow> reg \<Rightarrow> interferenceGraph \<Rightarrow> interferenceGraph" where
  "AddEdge r1 r2 g =
     (if r1 = r2 then g
      else let g = AddNode r2 (AddNode r1 g) in g\<lparr>Edges := add_to (add_to (Edges g) r1 r2) r2 r1\<rparr>)"

definition AddPreference :: "reg \<Rightarrow> reg \<Rightarrow> interferenceGraph \<Rightarrow> interferenceGraph" where
  "AddPreference r1 r2 g =
     (if r1 = r2 then g
      else let g = AddNode r2 (AddNode r1 g)
           in g\<lparr>Preferences := add_to (add_to (Preferences g) r1 r2) r2 r1\<rparr>)"

definition HasEdge :: "interferenceGraph \<Rightarrow> reg \<Rightarrow> reg \<Rightarrow> bool" where
  "HasEdge g r1 r2 \<longleftrightarrow> r2 \<in> Edges g r1"

definition Degree :: "interferenceGraph \<Rightarrow> reg \<Rightarrow> nat" where
  "Degree g r = card (Edges g r)"

definition Neighbors :: "interferenceGraph \<Rightarrow> reg \<Rightarrow> regSet" where
  "Neighbors g r = Edges g r"

definition MoveRelated :: "interferenceGraph \<Rightarrow> reg \<Rightarrow> bool" where
  "MoveRelated g r \<longleftrightarrow> Preferences g r \<noteq> {}"

text \<open>Delete \<open>r\<close> from the entries of its neighbours, then the entry of \<open>r\<close> itself.\<close>

definition detach :: "(reg \<Rightarrow> regSet) \<Rightarrow> reg \<Rightarrow> (reg \<Rightarrow> regSet)" where
  "detach m r = (\<lambda>a. if a = r then {} else if a \<in> m r then m a - {r} else m a)"

definition RemoveNode :: "reg \<Rightarrow> interferenceGraph \<Rightarrow> interferenceGraph" where
  "RemoveNode r g = g\<lparr>Nodes := Nodes g - {r}, Edges := detach (Edges g) r, Preferences := detach (Preferences g) r\<rparr>"

section \<open>Construction\<close>

fun isCall :: "rtl_instr \<Rightarrow> bool" where
  "isCall (Icall _ _ _ _ _) \<longleftrightarrow> True"
| "isCall _ \<longleftrightarrow> False"

fun isMove :: "rtl_instr \<Rightarrow> bool" where
  "isMove (Iop op _ _ _) \<longleftrightarrow> op = Omove"
| "isMove _ \<longleftrightarrow> False"

fun isMoveSource :: "rtl_instr \<Rightarrow> reg \<Rightarrow> bool" where
  "isMoveSource (Iop op [a] _ _) r \<longleftrightarrow> op = Omove \<and> a = r"
| "isMoveSource _ _ \<longleftrightarrow> False"

definition add_nodes :: "(regSet \<Rightarrow> reg list) \<Rightarrow> livenessInfo \<Rightarrow> node \<Rightarrow> interferenceGraph \<Rightarrow> interferenceGraph" where
  "add_nodes enum info n g = fold AddNode (enum (Use info n)) (fold AddNode (enum (Def info n)) g)"

definition add_conflicts ::
  "(regSet \<Rightarrow> reg list) \<Rightarrow> rtl_function \<Rightarrow> livenessInfo \<Rightarrow> node \<Rightarrow> interferenceGraph \<Rightarrow> interferenceGraph" where
  "add_conflicts enum f info n g = (case rtl_code f n of
     None \<Rightarrow> g
   | Some i \<Rightarrow>
       let liveOut = LiveOut info n;
           g1 = fold (\<lambda>defReg. fold (\<lambda>liveReg g.
                  if isMove i \<and> isMoveSource i liveReg then g else AddEdge defReg liveReg g) (enum liveOut))
                (enum (Def info n)) g
       in if isCall i
          then fold (\<lambda>r g. g\<lparr>LiveAcrossCalls := insert r (LiveAcrossCalls g)\<rparr>) (enum liveOut) g1
          else g1)"

definition add_param_conflicts ::
  "(regSet \<Rightarrow> reg list) \<Rightarrow> livenessInfo \<Rightarrow> node list \<Rightarrow> reg \<Rightarrow> interferenceGraph \<Rightarrow> interferenceGraph" where
  "add_param_conflicts enum info ns param g =
     (if list_ex (\<lambda>n. param \<in> Use info n) ns
      then fold (\<lambda>other g. if other \<noteq> param then AddEdge param other g else g) (enum (Nodes g)) g
      else g)"

definition add_moves :: "rtl_function \<Rightarrow> node \<Rightarrow> interferenceGraph \<Rightarrow> interferenceGraph" where
  "add_moves f n g = (case rtl_code f n of
     Some (Iop op [a] d _) \<Rightarrow> if op = Omove then AddPreference d a g else g
   | _ \<Rightarrow> g)"

definition BuildInterferenceGraph ::
  "(regSet \<Rightarrow> reg list) \<Rightarrow> node list \<Rightarrow> rtl_function \<Rightarrow> livenessInfo \<Rightarrow> interferenceGraph" where
  "BuildInterferenceGraph enum ns f info =
     (let g = fold AddNode (rtl_params f) NewInterferenceGraph;
          g = fold (add_nodes enum info) ns g;
          g = fold (add_conflicts enum f info) ns g;
          g = fold (add_param_conflicts enum info ns) (rtl_params f) g
      in fold (add_moves f) ns g)"

section \<open>Symmetric relations built by adding pairs\<close>

text \<open>
  The contract of \<open>AddEdge\<close> and \<open>AddPreference\<close>: after adding a pair, exactly that pair, in both
  directions, is new in the adjacency map, unless its ends are equal.
\<close>

locale pair_adder =
  fixes add :: "reg \<Rightarrow> reg \<Rightarrow> 'g \<Rightarrow> 'g" and adj :: "'g \<Rightarrow> reg \<Rightarrow> regSet"
  assumes adj_add: "b \<in> adj (add x y g) a \<longleftrightarrow>
    b \<in> adj g a \<or> (a \<noteq> b \<and> (a = x \<and> b = y \<or> a = y \<and> b = x))"
begin

definition symmetric :: "'g \<Rightarrow> bool" where
  "symmetric g \<longleftrightarrow> (\<forall>a b. b \<in> adj g a \<longrightarrow> a \<in> adj g b \<and> a \<noteq> b)"

lemma symmetric_add: "symmetric g \<Longrightarrow> symmetric (add x y g)"
  by (auto simp: symmetric_def adj_add)

lemma adj_fold_right:
  "b \<in> adj (fold (\<lambda>y. add x y) ys g) a \<longleftrightarrow>
     b \<in> adj g a \<or> (a \<noteq> b \<and> (a = x \<and> b \<in> set ys \<or> b = x \<and> a \<in> set ys))"
  by (induction ys arbitrary: g) (auto simp: adj_add)

lemma adj_fold_product:
  "b \<in> adj (fold (\<lambda>x. fold (\<lambda>y. add x y) ys) xs g) a \<longleftrightarrow>
     b \<in> adj g a \<or> (a \<noteq> b \<and> (a \<in> set xs \<and> b \<in> set ys \<or> b \<in> set xs \<and> a \<in> set ys))"
  by (induction xs arbitrary: g) (auto simp: adj_fold_right)

end

lemma in_add_to: "b \<in> add_to m x y a \<longleftrightarrow> b \<in> m a \<or> (a = x \<and> b = y)"
  by (auto simp: add_to_def)

interpretation edges: pair_adder AddEdge Edges
  by unfold_locales (auto simp: AddEdge_def AddNode_def Let_def in_add_to)

interpretation prefs: pair_adder AddPreference Preferences
  by unfold_locales (auto simp: AddPreference_def AddNode_def Let_def in_add_to)

lemma other_fields [simp]:
  "Edges (AddNode r g) = Edges g" "Preferences (AddNode r g) = Preferences g"
  "LiveAcrossCalls (AddNode r g) = LiveAcrossCalls g" "Nodes (AddNode r g) = insert r (Nodes g)"
  "Preferences (AddEdge a b g) = Preferences g" "LiveAcrossCalls (AddEdge a b g) = LiveAcrossCalls g"
  "Edges (AddPreference a b g) = Edges g" "LiveAcrossCalls (AddPreference a b g) = LiveAcrossCalls g"
  by (simp_all add: AddNode_def AddEdge_def AddPreference_def Let_def)

lemma Nodes_AddEdge: "Nodes (AddEdge a b g) = (if a = b then Nodes g else {a, b} \<union> Nodes g)"
  "Nodes (AddPreference a b g) = (if a = b then Nodes g else {a, b} \<union> Nodes g)"
  by (auto simp: AddEdge_def AddPreference_def AddNode_def Let_def)

lemma fold_keeps: "(\<And>x g. p (h x g) = p g) \<Longrightarrow> p (fold h xs g) = p g"
  by (induction xs arbitrary: g) simp_all

lemma fold_skip: "fold (\<lambda>x g. if P x then g else h x g) xs = fold h (filter (\<lambda>x. \<not> P x) xs)"
  by (induction xs) auto

lemma fold_do: "fold (\<lambda>x g. if P x then h x g else g) xs = fold h (filter P xs)"
  by (induction xs) auto

section \<open>Well-formed graphs\<close>

definition wf_graph :: "interferenceGraph \<Rightarrow> bool" where
  "wf_graph g \<longleftrightarrow> edges.symmetric g \<and> prefs.symmetric g \<and>
     (\<forall>a. Edges g a \<subseteq> Nodes g \<and> Preferences g a \<subseteq> Nodes g)"

lemma wf_graph_New: "wf_graph NewInterferenceGraph"
  by (simp add: wf_graph_def edges.symmetric_def prefs.symmetric_def NewInterferenceGraph_def)

lemma wf_graph_AddNode: "wf_graph g \<Longrightarrow> wf_graph (AddNode r g)"
  by (auto simp: wf_graph_def edges.symmetric_def prefs.symmetric_def)

lemma wf_graph_AddEdge: "wf_graph g \<Longrightarrow> wf_graph (AddEdge a b g)"
  by (auto simp: wf_graph_def edges.symmetric_add prefs.symmetric_def Nodes_AddEdge edges.adj_add subset_iff)

lemma wf_graph_AddPreference: "wf_graph g \<Longrightarrow> wf_graph (AddPreference a b g)"
  by (auto simp: wf_graph_def prefs.symmetric_add edges.symmetric_def Nodes_AddEdge prefs.adj_add subset_iff)

lemma in_detach:
  assumes "\<forall>a b. b \<in> m a \<longrightarrow> a \<in> m b \<and> a \<noteq> b"
  shows "b \<in> detach m r a \<longleftrightarrow> b \<in> m a \<and> a \<noteq> r \<and> b \<noteq> r"
  using assms by (auto simp: detach_def)

lemma wf_graph_RemoveNode: "wf_graph g \<Longrightarrow> wf_graph (RemoveNode r g)"
  unfolding wf_graph_def edges.symmetric_def prefs.symmetric_def RemoveNode_def
  by (auto simp: in_detach subset_iff)

section \<open>What the construction adds\<close>

lemma fold_AddNode [simp]:
  "Edges (fold AddNode rs g) = Edges g" "Preferences (fold AddNode rs g) = Preferences g"
  "LiveAcrossCalls (fold AddNode rs g) = LiveAcrossCalls g" "Nodes (fold AddNode rs g) = set rs \<union> Nodes g"
  by (induction rs arbitrary: g) auto

lemma fold_across [simp]:
  "Edges (fold (\<lambda>r g. g\<lparr>LiveAcrossCalls := insert r (LiveAcrossCalls g)\<rparr>) rs g) = Edges g"
  "Preferences (fold (\<lambda>r g. g\<lparr>LiveAcrossCalls := insert r (LiveAcrossCalls g)\<rparr>) rs g) = Preferences g"
  "Nodes (fold (\<lambda>r g. g\<lparr>LiveAcrossCalls := insert r (LiveAcrossCalls g)\<rparr>) rs g) = Nodes g"
  "LiveAcrossCalls (fold (\<lambda>r g. g\<lparr>LiveAcrossCalls := insert r (LiveAcrossCalls g)\<rparr>) rs g) = set rs \<union> LiveAcrossCalls g"
  by (induction rs arbitrary: g) auto

lemma fold_AddEdge [simp]:
  "Preferences (fold (\<lambda>y. AddEdge x y) ys g) = Preferences g"
  "LiveAcrossCalls (fold (\<lambda>y. AddEdge x y) ys g) = LiveAcrossCalls g"
  by (induction ys arbitrary: g) auto

lemma fold_AddEdge2 [simp]:
  "Preferences (fold (\<lambda>x. fold (\<lambda>y. AddEdge x y) ys) xs g) = Preferences g"
  "LiveAcrossCalls (fold (\<lambda>x. fold (\<lambda>y. AddEdge x y) ys) xs g) = LiveAcrossCalls g"
  by (induction xs arbitrary: g) auto

definition enum_ok :: "(regSet \<Rightarrow> reg list) \<Rightarrow> bool" where
  "enum_ok enum \<longleftrightarrow> (\<forall>s. finite s \<longrightarrow> set (enum s) = s)"

definition info_finite :: "livenessInfo \<Rightarrow> bool" where
  "info_finite info \<longleftrightarrow> (\<forall>n. finite (Def info n) \<and> finite (Use info n) \<and> finite (LiveOut info n))"

text \<open>The pairs that conflict at a node: a definition and a register live after it.\<close>

definition conflict_at :: "rtl_function \<Rightarrow> livenessInfo \<Rightarrow> node \<Rightarrow> reg \<Rightarrow> reg \<Rightarrow> bool" where
  "conflict_at f info n a b \<longleftrightarrow> (\<exists>i. rtl_code f n = Some i \<and> a \<in> Def info n \<and> b \<in> LiveOut info n \<and>
     \<not> (isMove i \<and> isMoveSource i b))"

lemma add_conflicts_eq:
  assumes "rtl_code f n = Some i"
  shows "add_conflicts enum f info n g =
    (let g1 = fold (\<lambda>x. fold (\<lambda>y. AddEdge x y) (filter (\<lambda>b. \<not> (isMove i \<and> isMoveSource i b)) (enum (LiveOut info n))))
                (enum (Def info n)) g
     in if isCall i
        then fold (\<lambda>r g. g\<lparr>LiveAcrossCalls := insert r (LiveAcrossCalls g)\<rparr>) (enum (LiveOut info n)) g1 else g1)"
  using assms unfolding add_conflicts_def by (simp add: fold_skip Let_def cong del: if_weak_cong)

lemma add_conflicts_edges:
  assumes "enum_ok enum" and "info_finite info"
  shows "b \<in> Edges (add_conflicts enum f info n g) a \<longleftrightarrow>
     b \<in> Edges g a \<or> (a \<noteq> b \<and> (conflict_at f info n a b \<or> conflict_at f info n b a))"
proof (cases "rtl_code f n")
  case None
  then show ?thesis by (simp add: add_conflicts_def conflict_at_def)
next
  case (Some i)
  then show ?thesis
    using assms unfolding add_conflicts_eq [OF Some] Let_def
    by (auto simp: edges.adj_fold_product conflict_at_def enum_ok_def info_finite_def)
qed

lemma fold_add_conflicts_edges:
  assumes "enum_ok enum" and "info_finite info"
  shows "b \<in> Edges (fold (add_conflicts enum f info) ns g) a \<longleftrightarrow>
     b \<in> Edges g a \<or> (a \<noteq> b \<and> (\<exists>n\<in>set ns. conflict_at f info n a b \<or> conflict_at f info n b a))"
  by (induction ns arbitrary: g) (auto simp: add_conflicts_edges [OF assms])

lemma add_conflicts_across:
  assumes "enum_ok enum" and "info_finite info"
  shows "LiveAcrossCalls (add_conflicts enum f info n g) = LiveAcrossCalls g \<union>
    {r. \<exists>i. rtl_code f n = Some i \<and> isCall i \<and> r \<in> LiveOut info n}"
proof (cases "rtl_code f n")
  case None
  then show ?thesis by (simp add: add_conflicts_def)
next
  case (Some i)
  then show ?thesis
    using assms unfolding add_conflicts_eq [OF Some] Let_def
    by (auto simp: enum_ok_def info_finite_def)
qed

lemma fold_add_conflicts_across:
  assumes "enum_ok enum" and "info_finite info"
  shows "LiveAcrossCalls (fold (add_conflicts enum f info) ns g) = LiveAcrossCalls g \<union>
    {r. \<exists>n\<in>set ns. \<exists>i. rtl_code f n = Some i \<and> isCall i \<and> r \<in> LiveOut info n}"
  by (induction ns arbitrary: g) (auto simp: add_conflicts_across [OF assms])

lemma fold_wf:
  assumes "\<And>x g. wf_graph g \<Longrightarrow> wf_graph (h x g)" and "wf_graph g"
  shows "wf_graph (fold h xs g)"
  using assms by (induction xs arbitrary: g) auto

lemma wf_graph_across: "wf_graph g \<Longrightarrow> wf_graph (g\<lparr>LiveAcrossCalls := s\<rparr>)"
  by (simp add: wf_graph_def edges.symmetric_def prefs.symmetric_def)

lemmas wf_graph_intros =
  wf_graph_New wf_graph_AddNode wf_graph_AddEdge wf_graph_AddPreference wf_graph_across fold_wf

lemma BuildInterferenceGraph_wf: "wf_graph (BuildInterferenceGraph enum ns f info)"
  unfolding BuildInterferenceGraph_def Let_def add_nodes_def add_conflicts_def add_param_conflicts_def add_moves_def
  by (intro fold_wf) (auto intro!: wf_graph_intros simp: Let_def split: option.split rtl_instr.split list.split)

text \<open>The registers of a function: \<open>GetAllRegisters\<close> of \<open>irc.go\<close>.\<close>

definition GetAllRegisters :: "rtl_function \<Rightarrow> node list \<Rightarrow> regSet" where
  "GetAllRegisters f ns = fold (\<lambda>n regs. case rtl_code f n of
       None \<Rightarrow> regs
     | Some i \<Rightarrow> instr_def i \<union> (instr_use i \<union> regs)) ns (set (rtl_params f))"

lemma GetAllRegisters_eq:
  "GetAllRegisters f ns = set (rtl_params f) \<union>
     {r. \<exists>n\<in>set ns. \<exists>i. rtl_code f n = Some i \<and> (r \<in> instr_def i \<or> r \<in> instr_use i)}"
proof -
  have "fold (\<lambda>n regs. case rtl_code f n of None \<Rightarrow> regs | Some i \<Rightarrow> instr_def i \<union> (instr_use i \<union> regs)) ns R =
      R \<union> {r. \<exists>n\<in>set ns. \<exists>i. rtl_code f n = Some i \<and> (r \<in> instr_def i \<or> r \<in> instr_use i)}" for R
    by (induction ns arbitrary: R) (auto split: option.splits)
  then show ?thesis by (simp add: GetAllRegisters_def)
qed

section \<open>The nodes\<close>

definition info_for :: "rtl_function \<Rightarrow> livenessInfo \<Rightarrow> bool" where
  "info_for f info \<longleftrightarrow> Def info = fst (ComputeDefUse f) \<and> Use info = snd (ComputeDefUse f) \<and>
     (\<forall>n r. r \<in> LiveOut info n \<longleftrightarrow> live_out f n r)"

lemma info_for_Def: "info_for f info \<Longrightarrow> rtl_code f n = Some i \<Longrightarrow> Def info n = instr_def i"
  by (simp add: info_for_def ComputeDefUse_def)

lemma info_for_Use: "info_for f info \<Longrightarrow> rtl_code f n = Some i \<Longrightarrow> Use info n = instr_use i"
  by (simp add: info_for_def ComputeDefUse_def)

lemma live_out_universe: "live_out f n r \<Longrightarrow> r \<in> universe f"
  by (auto simp: live_out_def dest: live_universe)

lemma info_for_finite:
  assumes "info_for f info" and "finite (dom (rtl_code f))"
  shows "info_finite info"
proof -
  have "LiveOut info n \<subseteq> universe f" for n
    using assms(1) live_out_universe by (auto simp: info_for_def)
  then have "finite (LiveOut info n)" for n
    using finite_universe [OF assms(2)] finite_subset by blast
  then show ?thesis
    using assms(1) by (auto simp: info_for_def info_finite_def ComputeDefUse_def split: option.splits)
qed

lemma universe_registers: "set ns = dom (rtl_code f) \<Longrightarrow> universe f \<subseteq> GetAllRegisters f ns"
  by (force simp: universe_def GetAllRegisters_eq)

lemma add_nodes_Nodes:
  assumes "enum_ok enum" and "info_finite info"
  shows "Nodes (add_nodes enum info n g) = Def info n \<union> Use info n \<union> Nodes g"
  using assms by (auto simp: add_nodes_def enum_ok_def info_finite_def)

lemma fold_add_nodes:
  assumes "enum_ok enum" and "info_finite info"
  shows "Nodes (fold (add_nodes enum info) ns g) = (\<Union>n\<in>set ns. Def info n \<union> Use info n) \<union> Nodes g"
  by (induction ns arbitrary: g) (auto simp: add_nodes_Nodes [OF assms])

lemma fold_add_nodes_other:
  "Edges (fold (add_nodes enum info) ns g) = Edges g"
  "Preferences (fold (add_nodes enum info) ns g) = Preferences g"
  "LiveAcrossCalls (fold (add_nodes enum info) ns g) = LiveAcrossCalls g"
  by (rule fold_keeps, simp add: add_nodes_def)+

text \<open>Steps that only join registers that are already nodes leave the set of nodes alone.\<close>

lemma Nodes_fold_AddEdge:
  "x \<in> Nodes g \<Longrightarrow> set ys \<subseteq> Nodes g \<Longrightarrow> Nodes (fold (\<lambda>y. AddEdge x y) ys g) = Nodes g"
  by (induction ys arbitrary: g) (simp_all add: Nodes_AddEdge insert_absorb)

lemma Nodes_fold_AddEdge2:
  "set xs \<subseteq> Nodes g \<Longrightarrow> set ys \<subseteq> Nodes g \<Longrightarrow> Nodes (fold (\<lambda>x. fold (\<lambda>y. AddEdge x y) ys) xs g) = Nodes g"
  by (induction xs arbitrary: g) (auto simp: Nodes_fold_AddEdge)

lemma fold_add_conflicts_other:
  "Preferences (fold (add_conflicts enum f info) ns g) = Preferences g"
proof (induction ns arbitrary: g)
  case (Cons n ns)
  then show ?case
    by (cases "rtl_code f n") (simp_all add: add_conflicts_def add_conflicts_eq Let_def fold_skip cong del: if_weak_cong)
qed simp

lemma fold_add_conflicts_Nodes:
  assumes "enum_ok enum" and "info_finite info"
    and "\<And>n. n \<in> set ns \<Longrightarrow> Def info n \<union> LiveOut info n \<subseteq> Nodes g"
  shows "Nodes (fold (add_conflicts enum f info) ns g) = Nodes g"
  using assms(3)
proof (induction ns arbitrary: g)
  case (Cons n ns)
  have "set (enum (Def info n)) = Def info n" "set (enum (LiveOut info n)) = LiveOut info n"
    using assms(1,2) by (auto simp: enum_ok_def info_finite_def)
  then have "Nodes (add_conflicts enum f info n g) = Nodes g"
    using Cons.prems [of n] unfolding add_conflicts_def
    by (auto simp: Let_def fold_skip Nodes_fold_AddEdge2 subset_iff split: option.splits cong del: if_weak_cong)
  with Cons show ?case by simp
qed simp

lemma add_param_conflicts_eq:
  "add_param_conflicts enum info ns p g =
     (if \<exists>n\<in>set ns. p \<in> Use info n
      then fold (\<lambda>y. AddEdge p y) (filter (\<lambda>y. y \<noteq> p) (enum (Nodes g))) g else g)"
  by (simp add: add_param_conflicts_def list_ex_iff fold_do)

definition param_used :: "livenessInfo \<Rightarrow> node list \<Rightarrow> reg list \<Rightarrow> reg \<Rightarrow> bool" where
  "param_used info ns ps p \<longleftrightarrow> p \<in> set ps \<and> (\<exists>n\<in>set ns. p \<in> Use info n)"

lemma add_param_conflicts_edges:
  assumes "enum_ok enum" and "finite (Nodes g)" and "p \<in> Nodes g"
  shows "Nodes (add_param_conflicts enum info ns p g) = Nodes g"
    and "b \<in> Edges (add_param_conflicts enum info ns p g) a \<longleftrightarrow>
      b \<in> Edges g a \<or> (a \<noteq> b \<and> (\<exists>n\<in>set ns. p \<in> Use info n) \<and> (a = p \<and> b \<in> Nodes g \<or> b = p \<and> a \<in> Nodes g))"
proof -
  have "set (enum (Nodes g)) = Nodes g" using assms(1,2) by (simp add: enum_ok_def)
  then show "Nodes (add_param_conflicts enum info ns p g) = Nodes g"
    "b \<in> Edges (add_param_conflicts enum info ns p g) a \<longleftrightarrow>
      b \<in> Edges g a \<or> (a \<noteq> b \<and> (\<exists>n\<in>set ns. p \<in> Use info n) \<and> (a = p \<and> b \<in> Nodes g \<or> b = p \<and> a \<in> Nodes g))"
    using assms(3) by (auto simp: add_param_conflicts_eq Nodes_fold_AddEdge edges.adj_fold_right)
qed

lemma fold_add_param_conflicts:
  assumes "enum_ok enum" and "finite (Nodes g)" and "set ps \<subseteq> Nodes g"
  shows "Nodes (fold (add_param_conflicts enum info ns) ps g) = Nodes g \<and>
    (b \<in> Edges (fold (add_param_conflicts enum info ns) ps g) a \<longleftrightarrow>
      b \<in> Edges g a \<or> (a \<noteq> b \<and> (param_used info ns ps a \<and> b \<in> Nodes g \<or> param_used info ns ps b \<and> a \<in> Nodes g)))"
  using assms(2,3)
proof (induction ps arbitrary: g)
  case (Cons p ps)
  note g = add_param_conflicts_edges [OF assms(1), of g p]
  from Cons show ?case by (auto simp: g param_used_def)
qed (simp add: param_used_def)

lemma fold_add_param_conflicts_other:
  "Preferences (fold (add_param_conflicts enum info ns) ps g) = Preferences g"
  "LiveAcrossCalls (fold (add_param_conflicts enum info ns) ps g) = LiveAcrossCalls g"
  by (rule fold_keeps, simp add: add_param_conflicts_eq)+

text \<open>The moves of a function.\<close>

definition move_pair :: "rtl_function \<Rightarrow> reg \<Rightarrow> reg \<Rightarrow> bool" where
  "move_pair f d a \<longleftrightarrow> (\<exists>n s. rtl_code f n = Some (Iop Omove [a] d s))"

lemma add_moves_cases:
  "add_moves f n g = g \<and> (\<forall>a d s. rtl_code f n \<noteq> Some (Iop Omove [a] d s)) \<or>
   (\<exists>a d s. rtl_code f n = Some (Iop Omove [a] d s) \<and> add_moves f n g = AddPreference d a g)"
  by (auto simp: add_moves_def split: option.splits rtl_instr.splits list.splits)

lemma fold_add_moves_other:
  "Edges (fold (add_moves f) ns g) = Edges g"
  "LiveAcrossCalls (fold (add_moves f) ns g) = LiveAcrossCalls g"
proof -
  show "Edges (fold (add_moves f) ns g) = Edges g"
    by (rule fold_keeps) (metis add_moves_cases other_fields(7))
  show "LiveAcrossCalls (fold (add_moves f) ns g) = LiveAcrossCalls g"
    by (rule fold_keeps) (metis add_moves_cases other_fields(8))
qed

lemma fold_add_moves:
  "b \<in> Preferences (fold (add_moves f) ns g) a \<longleftrightarrow> b \<in> Preferences g a \<or>
     (a \<noteq> b \<and> (\<exists>n\<in>set ns. \<exists>s. rtl_code f n = Some (Iop Omove [b] a s) \<or> rtl_code f n = Some (Iop Omove [a] b s)))"
proof (induction ns arbitrary: g)
  case (Cons n ns)
  from add_moves_cases [of f n g] have
    "b \<in> Preferences (add_moves f n g) a \<longleftrightarrow> b \<in> Preferences g a \<or>
     (a \<noteq> b \<and> (\<exists>s. rtl_code f n = Some (Iop Omove [b] a s) \<or> rtl_code f n = Some (Iop Omove [a] b s)))"
    by (auto simp: prefs.adj_add)
  then show ?case using Cons.IH by auto
qed simp

lemma fold_add_moves_Nodes:
  assumes "\<forall>n\<in>set ns. \<forall>i. rtl_code f n = Some i \<longrightarrow> instr_def i \<union> instr_use i \<subseteq> N" and "Nodes g = N"
  shows "Nodes (fold (add_moves f) ns g) = N"
  using assms
proof (induction ns arbitrary: g)
  case (Cons n ns)
  have "Nodes (add_moves f n g) = N"
  proof (cases "add_moves f n g = g")
    case False
    then obtain a d s where i: "rtl_code f n = Some (Iop Omove [a] d s)" "add_moves f n g = AddPreference d a g"
      using add_moves_cases by blast
    with Cons.prems(1) have "a \<in> N" "d \<in> N" by auto
    with i Cons.prems(2) show ?thesis by (simp add: Nodes_AddEdge insert_absorb)
  qed (use Cons.prems in simp)
  moreover have "Nodes (fold (add_moves f) ns g') = N" if "Nodes g' = N" for g'
    using Cons.prems(1) that by (intro Cons.IH) simp_all
  ultimately show ?case by simp
qed simp

section \<open>The whole graph\<close>

text \<open>Two registers that must not share a location: one is defined where the other stays live.\<close>

definition interferes :: "rtl_function \<Rightarrow> reg \<Rightarrow> reg \<Rightarrow> bool" where
  "interferes f a b \<longleftrightarrow> (\<exists>n i. rtl_code f n = Some i \<and> a \<in> instr_def i \<and> live_out f n b \<and> \<not> isMoveSource i b)"

definition used_param :: "rtl_function \<Rightarrow> reg \<Rightarrow> bool" where
  "used_param f p \<longleftrightarrow> p \<in> set (rtl_params f) \<and> (\<exists>n i. rtl_code f n = Some i \<and> p \<in> instr_use i)"

lemma isMoveSource_isMove: "isMoveSource i b \<Longrightarrow> isMove i"
  by (cases "(i, b)" rule: isMoveSource.cases) auto

lemma conflict_at_interferes:
  assumes "info_for f info" and "set ns = dom (rtl_code f)"
  shows "(\<exists>n\<in>set ns. conflict_at f info n a b) \<longleftrightarrow> interferes f a b"
proof -
  have "conflict_at f info n a b \<longleftrightarrow>
      (\<exists>i. rtl_code f n = Some i \<and> a \<in> instr_def i \<and> live_out f n b \<and> \<not> isMoveSource i b)" for n
    using info_for_Def [OF assms(1), of n] assms(1) isMoveSource_isMove
    by (auto simp: conflict_at_def info_for_def)
  then show ?thesis using assms(2) by (auto simp: interferes_def)
qed

lemma param_used_iff:
  assumes "info_for f info" and "set ns = dom (rtl_code f)"
  shows "param_used info ns (rtl_params f) p \<longleftrightarrow> used_param f p"
proof -
  have "p \<in> Use info n \<longleftrightarrow> (\<exists>i. rtl_code f n = Some i \<and> p \<in> instr_use i)" for n
    using assms(1) by (auto simp: info_for_def ComputeDefUse_def split: option.splits)
  then show ?thesis using assms(2) by (fastforce simp: param_used_def used_param_def)
qed

lemma BuildInterferenceGraph_eq:
  assumes fin: "finite (dom (rtl_code f))" and enum: "enum_ok enum" and ns: "set ns = dom (rtl_code f)"
    and info: "info_for f info"
  defines "g \<equiv> BuildInterferenceGraph enum ns f info"
  shows "Nodes g = GetAllRegisters f ns"
    and "HasEdge g a b \<longleftrightarrow> a \<noteq> b \<and> (interferes f a b \<or> interferes f b a \<or>
      (used_param f a \<and> b \<in> GetAllRegisters f ns) \<or> (used_param f b \<and> a \<in> GetAllRegisters f ns))"
    and "r \<in> LiveAcrossCalls g \<longleftrightarrow> (\<exists>n i. rtl_code f n = Some i \<and> isCall i \<and> live_out f n r)"
    and "b \<in> Preferences g a \<longleftrightarrow> a \<noteq> b \<and> (move_pair f a b \<or> move_pair f b a)"
proof -
  let ?N = "GetAllRegisters f ns"
  let ?g1 = "fold (add_nodes enum info) ns (fold AddNode (rtl_params f) NewInterferenceGraph)"
  let ?g2 = "fold (add_conflicts enum f info) ns ?g1"
  let ?g3 = "fold (add_param_conflicts enum info ns) (rtl_params f) ?g2"
  have g: "g = fold (add_moves f) ns ?g3" by (simp add: g_def BuildInterferenceGraph_def Let_def)
  note fi = info_for_finite [OF info fin]
  have defuse: "Def info n \<union> Use info n = (case rtl_code f n of None \<Rightarrow> {} | Some i \<Rightarrow> instr_def i \<union> instr_use i)" for n
    using info by (auto simp: info_for_def ComputeDefUse_def split: option.splits)
  have N1: "Nodes ?g1 = ?N"
    unfolding fold_add_nodes [OF enum fi] defuse
    by (fastforce simp: GetAllRegisters_eq NewInterferenceGraph_def split: option.splits)
  have sub: "Def info n \<union> LiveOut info n \<subseteq> ?N" if "n \<in> set ns" for n
  proof -
    have "LiveOut info n \<subseteq> ?N"
      using info live_out_universe universe_registers [OF ns] by (auto simp: info_for_def)
    moreover have "Def info n \<subseteq> ?N"
      using that defuse [of n] by (auto simp: GetAllRegisters_eq split: option.splits)
    ultimately show ?thesis by blast
  qed
  have N2: "Nodes ?g2 = ?N"
    using fold_add_conflicts_Nodes [OF enum fi, of ns ?g1 f] sub N1 by simp
  have finN: "finite ?N"
  proof -
    have "?N = set (rtl_params f) \<union> (\<Union>n\<in>dom (rtl_code f). instr_def (the (rtl_code f n)) \<union> instr_use (the (rtl_code f n)))"
      using ns by (force simp: GetAllRegisters_eq)
    then show ?thesis using fin by simp
  qed
  have params: "set (rtl_params f) \<subseteq> ?N" by (auto simp: GetAllRegisters_eq)
  note g3 = fold_add_param_conflicts [OF enum, of ?g2 "rtl_params f" info ns b a, unfolded N2, OF finN params]
  have code: "instr_def i \<union> instr_use i \<subseteq> ?N" if "n \<in> set ns" "rtl_code f n = Some i" for n i
    using that by (auto simp: GetAllRegisters_eq)
  show "Nodes g = ?N"
    unfolding g using code g3 by (intro fold_add_moves_Nodes) auto
  have "b \<in> Edges ?g2 a \<longleftrightarrow> a \<noteq> b \<and> (interferes f a b \<or> interferes f b a)"
    unfolding fold_add_conflicts_edges [OF enum fi] fold_add_nodes_other
    using conflict_at_interferes [OF info ns] by (auto simp: NewInterferenceGraph_def)
  then show "HasEdge g a b \<longleftrightarrow> a \<noteq> b \<and> (interferes f a b \<or> interferes f b a \<or>
      (used_param f a \<and> b \<in> ?N) \<or> (used_param f b \<and> a \<in> ?N))"
    unfolding HasEdge_def g fold_add_moves_other param_used_iff [OF info ns, symmetric] using g3 by blast
  show "r \<in> LiveAcrossCalls g \<longleftrightarrow> (\<exists>n i. rtl_code f n = Some i \<and> isCall i \<and> live_out f n r)"
    unfolding g fold_add_moves_other fold_add_param_conflicts_other fold_add_conflicts_across [OF enum fi]
      fold_add_nodes_other
    using info ns by (auto simp: NewInterferenceGraph_def info_for_def)
  show "b \<in> Preferences g a \<longleftrightarrow> a \<noteq> b \<and> (move_pair f a b \<or> move_pair f b a)"
    unfolding g fold_add_moves fold_add_param_conflicts_other fold_add_conflicts_other fold_add_nodes_other
    using ns by (auto simp: NewInterferenceGraph_def move_pair_def)
qed

lemma AnalyzeLiveness_info_for:
  assumes "finite (dom (rtl_code f))" and "\<And>k. dom (rtl_code f) \<subseteq> set (ord k)"
    and "AnalyzeLiveness ord f = Some info"
  shows "info_for f info"
proof -
  from live_loop_live [where ord = ord, OF assms(1,2)] assms(3) show ?thesis
    by (auto simp: AnalyzeLiveness_def info_for_def)
qed

section \<open>Properties\<close>

text \<open>
  Property C16. The interference graph of a function is exactly what its rules say, for every
  order of map iteration: its nodes are the registers of the function; two registers are joined if
  one is defined where the other is live afterwards (the source of a move apart) or one is a
  parameter that is used; the registers live across calls are those live after some call;
  preferences join the two registers of a move. Adjacency is symmetric and irreflexive.
\<close>

theorem BuildInterferenceGraph_exact:
  assumes "finite (dom (rtl_code f))" and "enum_ok enum" and "set ns = dom (rtl_code f)"
    and "\<And>k. dom (rtl_code f) \<subseteq> set (ord k)" and "AnalyzeLiveness ord f = Some info"
  shows "let g = BuildInterferenceGraph enum ns f info; regs = GetAllRegisters f ns in
     wf_graph g \<and> Nodes g = regs \<and>
     (\<forall>a b. HasEdge g a b \<longleftrightarrow> a \<noteq> b \<and> (interferes f a b \<or> interferes f b a \<or>
        (used_param f a \<and> b \<in> regs) \<or> (used_param f b \<and> a \<in> regs))) \<and>
     (\<forall>r. r \<in> LiveAcrossCalls g \<longleftrightarrow> (\<exists>n i. rtl_code f n = Some i \<and> isCall i \<and> live_out f n r)) \<and>
     (\<forall>a b. b \<in> Preferences g a \<longleftrightarrow> a \<noteq> b \<and> (move_pair f a b \<or> move_pair f b a))"
proof -
  note info = AnalyzeLiveness_info_for [where ord = ord, OF assms(1,4,5)]
  note eq = BuildInterferenceGraph_eq [OF assms(1-3) info]
  show ?thesis unfolding Let_def using BuildInterferenceGraph_wf eq by blast
qed

text \<open>
  A function that copies its parameter, calls \<open>g\<close> and adds the copy to the result. The copy is
  live across the call; so, by the rule, is the result of the call itself.
\<close>

definition graph_example :: rtl_function where
  "graph_example = (rtl_NewFunction ''f'' \<lparr>sig_args = [''int''], sig_return = ''int'', sig_vararg = False\<rparr>)
     \<lparr>rtl_params := [1], rtl_entry := 4, rtl_code := map_of
       [(4, Iop Omove [1] 2 3),
        (3, Icall \<lparr>sig_args = [], sig_return = ''int'', sig_vararg = False\<rparr> (FunSymbol ''g'') [] 3 2),
        (2, Iop (Oarith Oadd) [2, 3] 4 1), (1, Ireturn (Some 4))]\<rparr>"

definition sorted_enum :: "regSet \<Rightarrow> reg list" where
  "sorted_enum s = sorted_list_of_set s"

lemma sorted_enum_ok: "enum_ok sorted_enum"
  by (simp add: enum_ok_def sorted_enum_def)

theorem BuildInterferenceGraph_exact_witness:
  "\<exists>info. AnalyzeLiveness (\<lambda>_. [1, 2, 3, 4]) graph_example = Some info \<and>
    (let g = BuildInterferenceGraph sorted_enum [1, 2, 3, 4] graph_example info;
         regs = GetAllRegisters graph_example [1, 2, 3, 4] in
     regs = {1, 2, 3, 4} \<and> map (Edges g) [1, 2, 3, 4] = [{2, 3, 4}, {1, 3}, {1, 2}, {1}] \<and> LiveAcrossCalls g = {2, 3} \<and>
     wf_graph g \<and> Nodes g = regs \<and>
     (\<forall>a b. HasEdge g a b \<longleftrightarrow> a \<noteq> b \<and> (interferes graph_example a b \<or> interferes graph_example b a \<or>
        (used_param graph_example a \<and> b \<in> regs) \<or> (used_param graph_example b \<and> a \<in> regs))) \<and>
     (\<forall>r. r \<in> LiveAcrossCalls g \<longleftrightarrow> (\<exists>n i. rtl_code graph_example n = Some i \<and> isCall i \<and> live_out graph_example n r)) \<and>
     (\<forall>a b. b \<in> Preferences g a \<longleftrightarrow> a \<noteq> b \<and> (move_pair graph_example a b \<or> move_pair graph_example b a)))"
proof -
  let ?ord = "\<lambda>_ :: nat. [1, 2, 3, 4 :: int]"
  have dom: "set [1, 2, 3, 4] = dom (rtl_code graph_example)"
    by (auto simp: graph_example_def split: if_splits)
  have fin: "finite (dom (rtl_code graph_example))" by (simp flip: dom)
  obtain info where info: "AnalyzeLiveness ?ord graph_example = Some info"
    using live_loop_live [of graph_example ?ord] dom fin by (auto simp: AnalyzeLiveness_def)
  have "let g = BuildInterferenceGraph sorted_enum [1, 2, 3, 4] graph_example (the (AnalyzeLiveness ?ord graph_example)) in
     GetAllRegisters graph_example [1, 2, 3, 4] = {1, 2, 3, 4} \<and>
     map (Edges g) [1, 2, 3, 4] = [{2, 3, 4}, {1, 3}, {1, 2}, {1}] \<and> LiveAcrossCalls g = {2, 3}"
    by code_simp
  moreover have "dom (rtl_code graph_example) \<subseteq> set (?ord k)" for k using dom by simp
  note BuildInterferenceGraph_exact [where ord = ?ord, OF fin sorted_enum_ok dom this info]
  ultimately show ?thesis
    unfolding Let_def info option.sel by (elim conjE, intro exI [of _ info] conjI) (rule refl | assumption)+
qed

end
