(* ===== verification/RegTransform.thy ===== *)
theory RegTransform
  imports Interference
begin

text \<open>
  Applying a register allocation (\<open>pkg/regalloc/transform.go\<close>): every RTL instruction becomes an
  LTL block over the locations of its registers, and the entry block first moves the parameters
  from where they arrive to where they live. Any allocation that keeps registers apart that are
  live at the same time (\<open>alloc_ok\<close>) preserves the behaviour of the function.
\<close>

section \<open>The code\<close>

record allocationResult =
  RegToLoc :: "reg \<rightharpoonup> loc"
  SpilledRegs :: regSet
  StackSize :: int64

text \<open>\<open>alloc.RegToLoc[r]\<close>; a missing entry is the nil interface.\<close>

definition loc_of :: "allocationResult \<Rightarrow> reg \<Rightarrow> loc" where
  "loc_of alloc r = (case RegToLoc alloc r of Some l \<Rightarrow> l | None \<Rightarrow> LNil)"

definition transformRegs :: "allocationResult \<Rightarrow> reg list \<Rightarrow> loc list" where
  "transformRegs alloc regs = map (loc_of alloc) regs"

fun transform_funref :: "allocationResult \<Rightarrow> reg funRef \<Rightarrow> loc funRef" where
  "transform_funref alloc (FunSymbol name) = FunSymbol name"
| "transform_funref alloc (FunReg r) = FunReg (loc_of alloc r)"

fun transformInstruction :: "allocationResult \<Rightarrow> rtl_instr \<Rightarrow> bblock" where
  "transformInstruction alloc (Inop s) = [Lbranch s]"
| "transformInstruction alloc (Iop op args d s) =
     [Lop op (transformRegs alloc args) (loc_of alloc d), Lbranch s]"
| "transformInstruction alloc (Iload ch a args d s) =
     [Lload ch a (transformRegs alloc args) (loc_of alloc d), Lbranch s]"
| "transformInstruction alloc (Istore ch a args src s) =
     [Lstore ch a (transformRegs alloc args) (loc_of alloc src), Lbranch s]"
| "transformInstruction alloc (Icall sg fn args d s) =
     [Lcall sg (transform_funref alloc fn) (transformRegs alloc args)]
     @ (if d \<noteq> 0 \<and> loc_of alloc d \<noteq> ReturnLocation False
        then [Lop Omove [ReturnLocation False] (loc_of alloc d)] else [])
     @ [Lbranch s]"
| "transformInstruction alloc (Itailcall sg fn args) =
     [Ltailcall sg (transform_funref alloc fn) (transformRegs alloc args)]"
| "transformInstruction alloc (Ibuiltin bf args d s) =
     [Lbuiltin bf (transformRegs alloc args) (map_option (loc_of alloc) d), Lbranch s]"
| "transformInstruction alloc (Icond c args s1 s2) = [Lcond c (transformRegs alloc args) s1 s2]"
| "transformInstruction alloc (Ijumptable a ts) = [Ljumptable (loc_of alloc a) ts]"
| "transformInstruction alloc (Ireturn r) =
     (case r of
        Some a \<Rightarrow> if loc_of alloc a \<noteq> ReturnLocation False
                  then [Lop Omove [loc_of alloc a] (ReturnLocation False)] else []
      | None \<Rightarrow> [])
     @ [Lreturn]"

text \<open>
  \<open>resolveParallelMoves\<close>. A move is a pair of source and destination. The first pass saves the
  sources that some move overwrites in \<open>X8\<close>, \<open>X9\<close>, ..., and gives up when these run out.
\<close>

fun move_instr :: "loc \<times> loc \<Rightarrow> ltl_instr" where
  "move_instr (src, dst) = Lop Omove [src] dst"

fun save_clobbered :: "loc set \<Rightarrow> (loc \<times> loc) list \<Rightarrow> nat \<Rightarrow> (loc \<rightharpoonup> loc) \<Rightarrow> (loc \<times> loc) list \<Rightarrow>
    (loc \<rightharpoonup> loc) \<times> (loc \<times> loc) list" where
  "save_clobbered dstSet [] tmpIndex saved result = (saved, result)"
| "save_clobbered dstSet ((src, dst) # ms) tmpIndex saved result =
     (if src \<in> dstSet \<and> saved src = None
      then let tmp = R (X8 + int tmpIndex)
           in if 8 < tmpIndex + 1 then (saved, result)
              else save_clobbered dstSet ms (tmpIndex + 1) (saved(src \<mapsto> tmp)) (result @ [(src, tmp)])
      else save_clobbered dstSet ms tmpIndex saved result)"

definition needed_moves :: "loc list \<Rightarrow> loc list \<Rightarrow> (loc \<times> loc) list" where
  "needed_moves srcLocs dstLocs = filter (\<lambda>(s, d). s \<noteq> d) (zip srcLocs dstLocs)"

definition redirected :: "(loc \<rightharpoonup> loc) \<Rightarrow> (loc \<times> loc) list \<Rightarrow> (loc \<times> loc) list" where
  "redirected saved ms = map (\<lambda>(s, d). (case saved s of Some t \<Rightarrow> t | None \<Rightarrow> s, d)) ms"

definition parallel_moves :: "loc list \<Rightarrow> loc list \<Rightarrow> (loc \<times> loc) list" where
  "parallel_moves srcLocs dstLocs =
     (let ms = needed_moves srcLocs dstLocs;
          (saved, result) = save_clobbered (snd ` set ms) ms 0 Map.empty []
      in result @ redirected saved ms)"

definition resolveParallelMoves :: "loc list \<Rightarrow> loc list \<Rightarrow> ltl_instr list" where
  "resolveParallelMoves srcLocs dstLocs = map move_instr (parallel_moves srcLocs dstLocs)"

definition getSortedNodes :: "node list \<Rightarrow> node list" where
  "getSortedNodes ns = sort ns"

text \<open>
  \<open>TransformFunction\<close> after the allocation; \<open>ns\<close> lists the keys of \<open>rtlFn.Code\<close>.
\<close>

definition paramLocs :: "rtl_function \<Rightarrow> loc list" where
  "paramLocs f = map (\<lambda>i. ArgLocation i False) [0..<length (rtl_params f)]"

definition prepend_moves :: "ltl_instr list \<Rightarrow> node \<Rightarrow> (node \<rightharpoonup> bblock) \<Rightarrow> (node \<rightharpoonup> bblock)" where
  "prepend_moves moves n code = (case code n of
     None \<Rightarrow> code
   | Some b \<Rightarrow> if moves \<noteq> [] then code(n \<mapsto> moves @ b) else code)"

definition transform_with :: "allocationResult \<Rightarrow> node list \<Rightarrow> rtl_function \<Rightarrow> ltl_function" where
  "transform_with alloc ns f =
     (let code = fold (\<lambda>n code. case rtl_code f n of
                    Some i \<Rightarrow> code(n \<mapsto> transformInstruction alloc i) | None \<Rightarrow> code)
                 (getSortedNodes ns) Map.empty;
          paramMoves = resolveParallelMoves (paramLocs f) (map (loc_of alloc) (rtl_params f))
      in (ltl_NewFunction (rtl_name f) (rtl_sig f))
         \<lparr>ltl_stacksize := rtl_stacksize f + StackSize alloc, ltl_params := paramLocs f,
          ltl_code := prepend_moves paramMoves (rtl_entry f) code, ltl_entry := rtl_entry f\<rparr>)"

section \<open>Sequences of moves\<close>

definition run_pairs :: "('v, 'm) sem \<Rightarrow> (loc \<times> loc) list \<Rightarrow> 'v locset \<Rightarrow> 'v locset" where
  "run_pairs M ps = fold (\<lambda>(s, d) ls. loc_set M d (ls s) ls) ps"

lemma run_pairs_simps [simp]:
  "run_pairs M [] ls = ls"
  "run_pairs M ((s, d) # ps) ls = run_pairs M ps (loc_set M d (ls s) ls)"
  "run_pairs M (ps @ qs) ls = run_pairs M qs (run_pairs M ps ls)"
  by (simp_all add: run_pairs_def)

lemma run_pairs_steps:
  "(ltl_step M f)\<^sup>*\<^sup>* (LBlock (map move_instr ps @ b) ls m) (LBlock b (run_pairs M ps ls) m)"
proof (induction ps arbitrary: ls)
  case (Cons p ps)
  obtain s d where p: "p = (s, d)" by fastforce
  have "ltl_step M f (LBlock (map move_instr (p # ps) @ b) ls m) (LBlock (map move_instr ps @ b) (loc_set M d (ls s) ls) m)"
    by (simp add: p ltl_op)
  with Cons.IH show ?case by (simp add: p) (rule converse_rtranclp_into_rtranclp)
qed simp

definition apart :: "loc \<Rightarrow> loc \<Rightarrow> bool" where
  "apart a b \<longleftrightarrow> a \<noteq> b \<and> \<not> overlap a b \<and> \<not> overlap b a"

lemma loc_set_apart: "apart d l \<Longrightarrow> loc_set M d v ls l = ls l"
  by (auto simp: apart_def loc_set_def)

lemma apart_R [simp]: "apart (R a) (R b) \<longleftrightarrow> a \<noteq> b" "apart (R a) (S k o' t)" "apart (S k o' t) (R a)"
  "apart (R a) LNil" "apart LNil (R a)"
  by (auto simp: apart_def)

lemma apart_R_iff: "apart (R a) l \<longleftrightarrow> l \<noteq> R a" "apart l (R a) \<longleftrightarrow> l \<noteq> R a"
  by (auto simp: apart_def)

text \<open>
  Moves none of which reads what another writes, and that write to different places, act as one
  parallel assignment.
\<close>

definition independent :: "(loc \<times> loc) list \<Rightarrow> bool" where
  "independent ps \<longleftrightarrow> (\<forall>p\<in>set ps. \<forall>q\<in>set ps. apart (fst p) (snd q)) \<and>
     sorted_wrt (\<lambda>p q. apart (snd p) (snd q)) ps"

lemma run_independent:
  assumes "independent ps"
  shows "(\<forall>p\<in>set ps. run_pairs M ps ls (snd p) = ls (fst p)) \<and>
     (\<forall>l. (\<forall>p\<in>set ps. apart (snd p) l) \<longrightarrow> run_pairs M ps ls l = ls l)"
  using assms
proof (induction ps arbitrary: ls)
  case (Cons p ps)
  obtain s d where p: "p = (s, d)" by fastforce
  let ?ls = "loc_set M d (ls s) ls"
  have "independent ps" using Cons.prems by (auto simp: independent_def)
  note IH = Cons.IH [OF this, of ?ls]
  have src: "?ls (fst q) = ls (fst q)" if "q \<in> set ps" for q
    using Cons.prems that by (intro loc_set_apart) (auto simp: independent_def p apart_def)
  have "\<forall>q\<in>set ps. apart (snd q) d"
    using Cons.prems by (auto simp: independent_def p apart_def)
  then have "run_pairs M ps ?ls d = ls s" using IH by simp
  moreover have "run_pairs M ps ?ls l = ls l" if "\<forall>q\<in>set (p # ps). apart (snd q) l" for l
    using IH that by (simp add: p loc_set_apart)
  ultimately show ?case using IH src by (auto simp: p)
qed simp

section \<open>Parallel moves\<close>

lemma save_clobbered_spec:
  assumes "save_clobbered dst ms k saved out = (saved', out')" and "k \<le> 8"
  shows "\<exists>new. out' = out @ new \<and>
     (\<forall>s t. saved' s = Some t \<longleftrightarrow> saved s = Some t \<or> (s, t) \<in> set new) \<and>
     (\<forall>p\<in>set new. fst p \<in> fst ` set ms \<and> saved (fst p) = None) \<and>
     map snd new = map (\<lambda>j. R (X8 + int j)) [k..<k + length new] \<and> k + length new \<le> 8 \<and>
     (length (filter (\<lambda>p. fst p \<in> dst) ms) + k \<le> 8 \<longrightarrow> (\<forall>p\<in>set ms. fst p \<in> dst \<longrightarrow> saved' (fst p) \<noteq> None))"
  using assms
proof (induction dst ms k saved out arbitrary: saved' out' rule: save_clobbered.induct)
  case (1 dst k saved out)
  then show ?case by auto
next
  case (2 dst src d ms k saved out)
  show ?case
  proof (cases "src \<in> dst \<and> saved src = None")
    case False
    with 2 have "save_clobbered dst ms k saved out = (saved', out')" by simp
    from "2.IH"(2) [OF False this "2.prems"(2)] obtain new where new:
      "out' = out @ new" "\<forall>s t. saved' s = Some t \<longleftrightarrow> saved s = Some t \<or> (s, t) \<in> set new"
      "\<forall>p\<in>set new. fst p \<in> fst ` set ms \<and> saved (fst p) = None"
      "map snd new = map (\<lambda>j. R (X8 + int j)) [k..<k + length new]" "k + length new \<le> 8"
      "length (filter (\<lambda>p. fst p \<in> dst) ms) + k \<le> 8 \<longrightarrow> (\<forall>p\<in>set ms. fst p \<in> dst \<longrightarrow> saved' (fst p) \<noteq> None)"
      by blast
    have "src \<in> dst \<Longrightarrow> saved' src \<noteq> None" using False new(2) by auto
    then show ?thesis using new by (intro exI [of _ new]) auto
  next
    case True
    show ?thesis
    proof (cases "8 < k + 1")
      case k: True
      with 2 True show ?thesis by (auto simp: Let_def)
    next
      case k: False
      let ?t = "R (X8 + int k)"
      from 2 True k have "save_clobbered dst ms (k + 1) (saved(src \<mapsto> ?t)) (out @ [(src, ?t)]) = (saved', out')"
        by (simp add: Let_def)
      from "2.IH"(1) [OF True refl _ this] k obtain new where new:
        "out' = (out @ [(src, ?t)]) @ new"
        "\<forall>s t. saved' s = Some t \<longleftrightarrow> (saved(src \<mapsto> ?t)) s = Some t \<or> (s, t) \<in> set new"
        "\<forall>p\<in>set new. fst p \<in> fst ` set ms \<and> (saved(src \<mapsto> ?t)) (fst p) = None"
        "map snd new = map (\<lambda>j. R (X8 + int j)) [k + 1..<k + 1 + length new]" "k + 1 + length new \<le> 8"
        "length (filter (\<lambda>p. fst p \<in> dst) ms) + (k + 1) \<le> 8 \<longrightarrow> (\<forall>p\<in>set ms. fst p \<in> dst \<longrightarrow> saved' (fst p) \<noteq> None)"
        by auto
      have "saved' s = Some t \<longleftrightarrow> saved s = Some t \<or> (s, t) \<in> set ((src, ?t) # new)" for s t
        using new(2,3) True by (cases "s = src") auto
      moreover have "\<forall>p\<in>set ((src, ?t) # new). fst p \<in> fst ` set ((src, d) # ms) \<and> saved (fst p) = None"
        using new(3) True by (auto split: if_splits)
      moreover have "map snd ((src, ?t) # new) = map (\<lambda>j. R (X8 + int j)) [k..<k + length ((src, ?t) # new)]"
        using new(4) by (simp add: upt_conv_Cons del: upt_Suc)
      moreover have "saved' src \<noteq> None" using new(2) by auto
      ultimately show ?thesis
        using new(1,5,6) True by (intro exI [of _ "(src, ?t) # new"]) (auto simp del: upt_Suc)
    qed
  qed
qed

abbreviation (input) temps :: "loc set" where "temps \<equiv> R ` {X8..X15}"

text \<open>
  What \<open>resolveParallelMoves\<close> relies on: destinations are apart from each other, sources and
  destinations are equal or apart, none is one of the temporaries, and these are enough.
\<close>

definition par_ok :: "loc list \<Rightarrow> loc list \<Rightarrow> bool" where
  "par_ok srcs dsts \<longleftrightarrow> length srcs = length dsts \<and> sorted_wrt apart dsts \<and>
     (\<forall>s\<in>set srcs. s \<notin> temps \<and> (\<forall>d\<in>set dsts. s = d \<or> apart s d)) \<and> (\<forall>d\<in>set dsts. d \<notin> temps) \<and>
     length (filter (\<lambda>p. fst p \<in> snd ` set (needed_moves srcs dsts)) (needed_moves srcs dsts)) \<le> 8"

lemma par_ok_needed:
  assumes "par_ok srcs dsts"
  shows "sorted_wrt (\<lambda>p q. apart (snd p) (snd q)) (needed_moves srcs dsts)"
    and "p \<in> set (needed_moves srcs dsts) \<Longrightarrow> fst p \<notin> temps \<and> snd p \<notin> temps"
    and "p \<in> set (needed_moves srcs dsts) \<Longrightarrow> q \<in> set (needed_moves srcs dsts) \<Longrightarrow>
      fst p = snd q \<or> apart (fst p) (snd q)"
proof -
  have "sorted_wrt (\<lambda>p q. apart (snd p) (snd q)) (zip srcs dsts)"
    using assms sorted_wrt_map [of apart snd "zip srcs dsts"] by (simp add: par_ok_def)
  then show "sorted_wrt (\<lambda>p q. apart (snd p) (snd q)) (needed_moves srcs dsts)"
    by (simp add: needed_moves_def sorted_wrt_filter)
  have sub: "fst p \<in> set srcs" "snd p \<in> set dsts" if "p \<in> set (needed_moves srcs dsts)" for p
    using that by (auto simp: needed_moves_def dest: set_zip_leftD set_zip_rightD)
  then show "p \<in> set (needed_moves srcs dsts) \<Longrightarrow> fst p \<notin> temps \<and> snd p \<notin> temps"
    "p \<in> set (needed_moves srcs dsts) \<Longrightarrow> q \<in> set (needed_moves srcs dsts) \<Longrightarrow>
      fst p = snd q \<or> apart (fst p) (snd q)"
    using assms unfolding par_ok_def by blast+
qed

lemma apart_temp: "a \<notin> temps \<Longrightarrow> t \<in> temps \<Longrightarrow> apart a t \<and> apart t a"
  by (auto simp: apart_R_iff)

lemma temp_in: "map snd new = map (\<lambda>j. R (X8 + int j)) [0..<length new] \<Longrightarrow> length new \<le> 8 \<Longrightarrow>
    p \<in> set new \<Longrightarrow> snd p \<in> temps"
proof -
  assume a: "map snd new = map (\<lambda>j. R (X8 + int j)) [0..<length new]" "length new \<le> 8" "p \<in> set new"
  then have "snd p \<in> set (map (\<lambda>j. R (X8 + int j)) [0..<length new])" by (metis imageI list.set_map)
  with a(2) show ?thesis by auto
qed

lemma run_parallel_moves:
  assumes ok: "par_ok srcs dsts"
  shows "i < length srcs \<Longrightarrow> run_pairs M (parallel_moves srcs dsts) ls (dsts ! i) = ls (srcs ! i)"
    and "l \<notin> temps \<Longrightarrow> \<forall>d\<in>set dsts. apart d l \<Longrightarrow> run_pairs M (parallel_moves srcs dsts) ls l = ls l"
proof -
  let ?ms = "needed_moves srcs dsts"
  note ms = par_ok_needed [OF ok]
  obtain saved new where sc: "save_clobbered (snd ` set ?ms) ?ms 0 Map.empty [] = (saved, new)" by fastforce
  note spec = save_clobbered_spec [OF sc, simplified]
  have saved: "\<And>s t. saved s = Some t \<longleftrightarrow> (s, t) \<in> set new" and src: "\<And>p. p \<in> set new \<Longrightarrow> fst p \<in> fst ` set ?ms"
    and snd_new: "map snd new = map (\<lambda>j. R (X8 + int j)) [0..<length new]" and len: "length new \<le> 8"
    and enough: "length (filter (\<lambda>p. fst p \<in> snd ` set ?ms) ?ms) \<le> 8 \<longrightarrow>
      (\<forall>p\<in>set ?ms. fst p \<in> snd ` set ?ms \<longrightarrow> (\<exists>t. saved (fst p) = Some t))"
    using spec by blast+
  have all: "saved (fst p) \<noteq> None" if "p \<in> set ?ms" "fst p \<in> snd ` set ?ms" for p
    using enough ok that unfolding par_ok_def by blast
  have tmp: "snd p \<in> temps" if "p \<in> set new" for p using temp_in [OF snd_new len that] .
  have "sorted_wrt apart (map snd new)"
    unfolding snd_new by (simp add: sorted_wrt_iff_nth_less)
  then have "sorted_wrt (\<lambda>p q. apart (snd p) (snd q)) new"
    by (simp add: sorted_wrt_map)
  moreover have "apart (fst p) (snd q)" if "p \<in> set new" "q \<in> set new" for p q
  proof -
    have "fst p \<notin> temps" using src [OF that(1)] ms(2) by fastforce
    then show ?thesis using apart_temp tmp [OF that(2)] by blast
  qed
  ultimately have ind1: "independent new" by (auto simp: independent_def)
  let ?ls = "run_pairs M new ls" and ?rd = "redirected saved ?ms"
  have ls1: "?ls l = ls l" if "l \<notin> temps" for l
    using run_independent [OF ind1, of M ls] tmp that apart_temp by blast
  have rd: "q \<in> set ?rd \<longleftrightarrow> (\<exists>p\<in>set ?ms. q = (case saved (fst p) of Some t \<Rightarrow> t | None \<Rightarrow> fst p, snd p))" for q
    by (auto simp: redirected_def image_iff case_prod_unfold)
  have val: "?ls (case saved (fst p) of Some t \<Rightarrow> t | None \<Rightarrow> fst p) = ls (fst p)" if "p \<in> set ?ms" for p
    using run_independent [OF ind1, of M ls] saved ls1 ms(2) [OF that] by (force split: option.splits)
  have "apart (fst q) (snd q')" if "q \<in> set ?rd" "q' \<in> set ?rd" for q q'
  proof -
    from that obtain p p' where p: "p \<in> set ?ms" "q = (case saved (fst p) of Some t \<Rightarrow> t | None \<Rightarrow> fst p, snd p)"
      and p': "p' \<in> set ?ms" "snd q' = snd p'" by (auto simp: rd)
    show ?thesis
    proof (cases "saved (fst p)")
      case None
      then show ?thesis using all [OF p(1)] ms(3) [OF p(1) p'(1)] p p' by auto
    next
      case (Some t)
      then have "t \<in> temps" using saved tmp by force
      then show ?thesis using Some p p' ms(2) [OF p'(1)] apart_temp by auto
    qed
  qed
  moreover have "sorted_wrt (\<lambda>p q. apart (snd p) (snd q)) ?rd"
    using ms(1) by (simp add: redirected_def sorted_wrt_map case_prod_unfold)
  ultimately have ind2: "independent ?rd" by (auto simp: independent_def)
  have run: "run_pairs M (parallel_moves srcs dsts) ls = run_pairs M ?rd ?ls"
    by (simp add: parallel_moves_def sc)
  have frame: "run_pairs M ?rd ?ls l = ls l" if "l \<notin> temps" "\<forall>p\<in>set ?ms. apart (snd p) l" for l
  proof -
    have "\<forall>q\<in>set ?rd. apart (snd q) l" using that(2) by (auto simp: rd)
    then show ?thesis using run_independent [OF ind2, of M ?ls] ls1 [OF that(1)] by simp
  qed
  show "run_pairs M (parallel_moves srcs dsts) ls l = ls l" if "l \<notin> temps" "\<forall>d\<in>set dsts. apart d l"
    unfolding run using that by (intro frame) (auto simp: needed_moves_def dest: set_zip_rightD)
  show "run_pairs M (parallel_moves srcs dsts) ls (dsts ! i) = ls (srcs ! i)" if i: "i < length srcs"
  proof (cases "srcs ! i = dsts ! i")
    case True
    have n: "i < length dsts" using ok i by (simp add: par_ok_def)
    have "apart (snd p) (dsts ! i)" if p: "p \<in> set ?ms" for p
    proof -
      from p obtain j where j: "j < length dsts" "snd p = dsts ! j" "srcs ! j \<noteq> dsts ! j"
        by (auto simp: needed_moves_def set_zip)
      then have "j \<noteq> i" using True by auto
      moreover have "sorted_wrt apart dsts" using ok by (simp add: par_ok_def)
      ultimately show ?thesis
        using j n by (metis apart_def linorder_neqE_nat sorted_wrt_nth_less)
    qed
    moreover have "dsts ! i \<notin> temps" using ok n by (simp add: par_ok_def)
    ultimately show ?thesis unfolding run True by (intro frame) auto
  next
    case False
    have "(srcs ! i, dsts ! i) \<in> set ?ms"
      using False i ok by (auto simp: needed_moves_def set_zip par_ok_def)
    then show ?thesis
      unfolding run using run_independent [OF ind2, of M ?ls] val by (force simp: rd)
  qed
qed

section \<open>Valid allocations\<close>

fun proper_loc :: "loc \<Rightarrow> bool" where
  "proper_loc (R _) \<longleftrightarrow> True"
| "proper_loc (S SlotOutgoing _ _) \<longleftrightarrow> False"
| "proper_loc (S _ _ _) \<longleftrightarrow> True"
| "proper_loc LNil \<longleftrightarrow> False"

fun survives_call :: "loc \<Rightarrow> bool" where
  "survives_call (R r) \<longleftrightarrow> IsCalleeSaved r"
| "survives_call l \<longleftrightarrow> proper_loc l"

text \<open>
  Registers that are used or defined have locations; a definition does not overwrite the location
  of a register that is live after it, unless both hold the value of one move; what is live across
  a call is not lost there.
\<close>

definition alloc_ok :: "rtl_function \<Rightarrow> allocationResult \<Rightarrow> bool" where
  "alloc_ok f A \<longleftrightarrow> (\<forall>n i. rtl_code f n = Some i \<longrightarrow>
     (\<forall>r\<in>instr_use i \<union> instr_def i. proper_loc (loc_of A r)) \<and>
     (\<forall>d\<in>instr_def i. \<forall>r. live_out f n r \<longrightarrow> r \<noteq> d \<longrightarrow>
        \<not> overlap (loc_of A d) (loc_of A r) \<and> (loc_of A d = loc_of A r \<longrightarrow> isMoveSource i r)) \<and>
     (isCall i \<longrightarrow> (\<forall>r. live_out f n r \<longrightarrow> r \<notin> instr_def i \<longrightarrow> survives_call (loc_of A r))))"

abbreviation param_dsts :: "rtl_function \<Rightarrow> allocationResult \<Rightarrow> loc list" where
  "param_dsts f A \<equiv> map (loc_of A) (rtl_params f)"

text \<open>
  Successors exist; only parameters are live at the entry; the entry block runs once, or has no
  moves to make; the moves of the parameters are within what \<open>resolveParallelMoves\<close> handles.
\<close>

definition rtl_ok :: "rtl_function \<Rightarrow> allocationResult \<Rightarrow> bool" where
  "rtl_ok f A \<longleftrightarrow> rtl_code f (rtl_entry f) \<noteq> None \<and>
     (\<forall>n i s. rtl_code f n = Some i \<longrightarrow> s \<in> set (Successors i) \<longrightarrow> rtl_code f s \<noteq> None \<and>
        (s = rtl_entry f \<longrightarrow> parallel_moves (paramLocs f) (param_dsts f A) = [])) \<and>
     distinct (rtl_params f) \<and> (\<forall>r. live f (rtl_entry f) r \<longrightarrow> r \<in> set (rtl_params f)) \<and>
     par_ok (paramLocs f) (param_dsts f A)"

section \<open>The code of the result\<close>

lemma fold_code:
  "fold (\<lambda>n code. case rtl_code f n of Some i \<Rightarrow> code(n \<mapsto> T i) | None \<Rightarrow> code) ns m k =
     (if k \<in> set ns \<and> rtl_code f k \<noteq> None then map_option T (rtl_code f k) else m k)"
  by (induction ns arbitrary: m) (auto split: option.splits)

lemma transform_with_code:
  assumes "set ns = dom (rtl_code f)"
  shows "ltl_code (transform_with A ns f) n =
    map_option (\<lambda>i. (if n = rtl_entry f then map move_instr (parallel_moves (paramLocs f) (param_dsts f A)) else [])
      @ transformInstruction A i) (rtl_code f n)"
proof -
  let ?code = "fold (\<lambda>n code. case rtl_code f n of
                    Some i \<Rightarrow> code(n \<mapsto> transformInstruction A i) | None \<Rightarrow> code) (getSortedNodes ns) Map.empty"
  have code: "?code k = map_option (transformInstruction A) (rtl_code f k)" for k
    using assms by (auto simp: fold_code getSortedNodes_def dom_def)
  then show ?thesis
    by (cases "rtl_code f (rtl_entry f)")
      (auto simp: transform_with_def Let_def prepend_moves_def resolveParallelMoves_def option.map_comp comp_def
        split: option.splits)
qed

section \<open>Simulation\<close>

definition agree :: "rtl_function \<Rightarrow> allocationResult \<Rightarrow> node \<Rightarrow> 'v regset \<Rightarrow> 'v locset \<Rightarrow> bool" where
  "agree f A n rs ls \<longleftrightarrow> (\<forall>r. live f n r \<longrightarrow> ls (loc_of A r) = rs r)"

lemma agree_use: "agree f A n rs ls \<Longrightarrow> rtl_code f n = Some i \<Longrightarrow> r \<in> instr_use i \<Longrightarrow> ls (loc_of A r) = rs r"
  by (auto simp: agree_def intro: live_use)

lemma agree_args:
  "agree f A n rs ls \<Longrightarrow> rtl_code f n = Some i \<Longrightarrow> set args \<subseteq> instr_use i \<Longrightarrow>
     map ls (transformRegs A args) = map rs args"
  by (auto simp: transformRegs_def intro: agree_use)

lemma agree_fun:
  "agree f A n rs ls \<Longrightarrow> rtl_code f n = Some i \<Longrightarrow> set (funref_regs fn) \<subseteq> instr_use i \<Longrightarrow>
     fun_value ls (transform_funref A fn) = rtl_fun_value rs fn"
  by (cases fn) (auto simp: fun_value_def rtl_fun_value_def intro: agree_use)

lemma agree_succ:
  assumes "agree f A n rs ls" and "rtl_code f n = Some i" and "instr_def i = {}" and "s \<in> set (Successors i)"
  shows "agree f A s rs ls"
  using assms by (auto simp: agree_def intro: live_succ)

lemma agree_keep:
  assumes "agree f A n rs ls" and "rtl_code f n = Some i" and "live_out f n r" and "r \<notin> instr_def i"
  shows "ls (loc_of A r) = rs r"
  using assms by (auto simp: agree_def live_out_def intro: live_succ)

lemma live_outI: "rtl_code f n = Some i \<Longrightarrow> s \<in> set (Successors i) \<Longrightarrow> live f s r \<Longrightarrow> live_out f n r"
  by (auto simp: live_out_def)

lemma agree_def_reg:
  assumes ok: "alloc_ok f A" and i: "rtl_code f n = Some i" and d: "instr_def i = {d}" and s: "s \<in> set (Successors i)"
    and agree: "agree f A n rs ls" and move: "\<And>r. isMoveSource i r \<Longrightarrow> v = rs r"
  shows "agree f A s (rs(d := v)) (loc_set M (loc_of A d) v ls)"
  unfolding agree_def
proof (intro allI impI)
  fix r assume "live f s r"
  then have out: "live_out f n r" using i s by (rule live_outI [rotated 2])
  show "loc_set M (loc_of A d) v ls (loc_of A r) = (rs(d := v)) r"
  proof (cases "r = d")
    case False
    then have "\<not> overlap (loc_of A d) (loc_of A r)" "loc_of A d = loc_of A r \<longrightarrow> isMoveSource i r"
      using ok i d out unfolding alloc_ok_def by auto
    moreover have "ls (loc_of A r) = rs r" using agree_keep [OF agree i out] d False by simp
    ultimately show ?thesis using False move by (auto simp: loc_set_def)
  qed simp
qed

lemma agree_call:
  assumes ok: "alloc_ok f A" and i: "rtl_code f n = Some i" and c: "isCall i" and s: "s \<in> set (Successors i)"
    and agree: "agree f A n rs ls" and r: "live f s r" "r \<notin> instr_def i"
  shows "after_call M v ls (loc_of A r) = rs r"
proof -
  have out: "live_out f n r" using i s r(1) by (rule live_outI)
  then have "survives_call (loc_of A r)" using ok i c r(2) unfolding alloc_ok_def by blast
  then have "after_call M v ls (loc_of A r) = ls (loc_of A r)"
    by (cases "loc_of A r" rule: survives_call.cases)
      (auto simp: after_call_def IsCalleeSaved_iff split: slotKind.splits)
  then show ?thesis using agree_keep [OF agree i out r(2)] by simp
qed

definition alloc_match ::
  "rtl_function \<Rightarrow> allocationResult \<Rightarrow> ('v, 'm) sem \<Rightarrow> bool \<Rightarrow> ('v, 'm) rtl_state \<Rightarrow> ('v, 'm) ltl_state \<Rightarrow> bool" where
  "alloc_match f A M void s t \<longleftrightarrow>
     (\<exists>n i rs ls m. s = RNode n rs m \<and> t = LBlock (transformInstruction A i) ls m \<and>
        rtl_code f n = Some i \<and> agree f A n rs ls) \<or>
     (\<exists>r r'. s = RFinal r \<and> t = LFinal r' \<and> hide void (sem_undef M) r = hide void (sem_undef M) r')"

text \<open>A well-formed function, its allocation and the returns that are observed.\<close>

definition alloc_setup :: "rtl_function \<Rightarrow> node list \<Rightarrow> allocationResult \<Rightarrow> bool \<Rightarrow> bool" where
  "alloc_setup f ns A void \<longleftrightarrow> set ns = dom (rtl_code f) \<and> alloc_ok f A \<and> rtl_ok f A \<and>
     (void \<or> (\<forall>n. rtl_code f n \<noteq> Some (Ireturn None)))"

lemma target_block:
  assumes "alloc_setup f ns A void" and "rtl_code f n = Some i" and "s \<in> set (Successors i)"
  shows "\<exists>j. rtl_code f s = Some j \<and> ltl_code (transform_with A ns f) s = Some (transformInstruction A j)"
proof -
  have "rtl_code f s \<noteq> None" "s = rtl_entry f \<longrightarrow> parallel_moves (paramLocs f) (param_dsts f A) = []"
    and ns: "set ns = dom (rtl_code f)"
    using assms unfolding alloc_setup_def rtl_ok_def by blast+
  then show ?thesis by (auto simp: transform_with_code [OF ns])
qed

lemma match_branch:
  assumes cfg: "alloc_setup f ns A void" and i: "rtl_code f n = Some i" and s: "s \<in> set (Successors i)"
    and agree: "agree f A s rs' ls'"
    and steps: "(ltl_step M (transform_with A ns f))\<^sup>*\<^sup>* t (LBlock [Lbranch s] ls' m')"
  shows "\<exists>t'. (ltl_step M (transform_with A ns f))\<^sup>+\<^sup>+ t t' \<and> alloc_match f A M void (RNode s rs' m') t'"
proof -
  from target_block [OF cfg i s] obtain j where j: "rtl_code f s = Some j"
    "ltl_code (transform_with A ns f) s = Some (transformInstruction A j)" by blast
  then have "ltl_step M (transform_with A ns f) (LBlock [Lbranch s] ls' m') (LBlock (transformInstruction A j) ls' m')"
    by (simp add: ltl_branch)
  with steps have "(ltl_step M (transform_with A ns f))\<^sup>+\<^sup>+ t (LBlock (transformInstruction A j) ls' m')"
    by (rule rtranclp_into_tranclp1)
  moreover have "alloc_match f A M void (RNode s rs' m') (LBlock (transformInstruction A j) ls' m')"
    using j(1) agree by (auto simp: alloc_match_def)
  ultimately show ?thesis by blast
qed

lemma match_jump:
  assumes cfg: "alloc_setup f ns A void" and i: "rtl_code f n = Some i" and s: "s \<in> set (Successors i)"
    and agree: "agree f A s rs ls"
    and step: "\<And>b. ltl_code (transform_with A ns f) s = Some b \<Longrightarrow> ltl_step M (transform_with A ns f) t (LBlock b ls m)"
  shows "\<exists>t'. (ltl_step M (transform_with A ns f))\<^sup>+\<^sup>+ t t' \<and> alloc_match f A M void (RNode s rs m) t'"
proof -
  from target_block [OF cfg i s] obtain j where j: "rtl_code f s = Some j"
    "ltl_code (transform_with A ns f) s = Some (transformInstruction A j)" by blast
  then have "alloc_match f A M void (RNode s rs m) (LBlock (transformInstruction A j) ls m)"
    using agree by (auto simp: alloc_match_def)
  with step [OF j(2)] show ?thesis by blast
qed

lemma sim_call:
  fixes M :: "('v, 'm) sem"
  assumes cfg: "alloc_setup f ns A void" and i: "rtl_code f n = Some (Icall sg fn args d s)"
    and agree: "agree f A n rs ls" and exec: "rtl_exec M (Icall sg fn args d s) rs m s'"
  shows "\<exists>t'. (ltl_step M (transform_with A ns f))\<^sup>+\<^sup>+
      (LBlock (transformInstruction A (Icall sg fn args d s)) ls m) t' \<and> alloc_match f A M void s' t'"
proof -
  let ?g = "transform_with A ns f" and ?i = "Icall sg fn args d s"
  have ok: "alloc_ok f A" using cfg by (simp add: alloc_setup_def)
  have argv: "map ls (transformRegs A args) = map rs args" by (rule agree_args [OF agree i]) simp
  have fv: "fun_value ls (transform_funref A fn) = rtl_fun_value rs fn" by (rule agree_fun [OF agree i]) simp
  from exec obtain v m' where s': "s' = RNode s (call_result d v rs) m'"
    and k: "sem_arity M sg (rtl_fun_value rs fn) m \<le> length args"
    and call: "sem_call M sg (rtl_fun_value rs fn) (map rs (take (sem_arity M sg (rtl_fun_value rs fn) m) args)) m = Some (v, m')"
    by (auto elim: rtl_execE)
  have args: "map ls (take k' (transformRegs A args)) = map rs (take k' args)" for k'
    using argv by (metis take_map)
  let ?rest = "(if d \<noteq> 0 \<and> loc_of A d \<noteq> ReturnLocation False
        then [Lop Omove [ReturnLocation False] (loc_of A d)] else []) @ [Lbranch s]"
  let ?ls = "after_call M v ls"
  have call_step: "ltl_step M ?g (LBlock (transformInstruction A ?i) ls m) (LBlock ?rest ?ls m')"
    using k call args fv by (simp add: ltl_call transformRegs_def)
  have ret: "?ls (R IntReturnReg) = v" by (simp add: after_call_def)
  have keep: "?ls (loc_of A r) = rs r" if "live f s r" "r \<notin> instr_def ?i" for r
    using agree_call [OF ok i _ _ agree that] by simp
  have "\<exists>ls'. (ltl_step M ?g)\<^sup>*\<^sup>* (LBlock ?rest ?ls m') (LBlock [Lbranch s] ls' m') \<and>
      agree f A s (call_result d v rs) ls'"
  proof (cases "d \<noteq> 0 \<and> loc_of A d \<noteq> ReturnLocation False")
    case True
    have "agree f A s (call_result d v rs) (loc_set M (loc_of A d) v ?ls)"
      unfolding agree_def
    proof (intro allI impI)
      fix r assume r: "live f s r"
      show "loc_set M (loc_of A d) v ?ls (loc_of A r) = call_result d v rs r"
      proof (cases "r = d")
        case False
        have "live_out f n r" using live_outI [OF i _ r] by simp
        then have "\<not> overlap (loc_of A d) (loc_of A r)" "loc_of A d \<noteq> loc_of A r"
          using ok i False True unfolding alloc_ok_def by fastforce+
        then show ?thesis using keep [OF r] False True by (auto simp: call_result_def loc_set_def)
      qed (use True in \<open>simp add: call_result_def\<close>)
    qed
    moreover have "ltl_step M ?g (LBlock ?rest ?ls m') (LBlock [Lbranch s] (loc_set M (loc_of A d) v ?ls) m')"
      using True ret by (simp add: ltl_op ReturnLocation_def)
    ultimately show ?thesis by blast
  next
    case False
    have "agree f A s (call_result d v rs) ?ls"
      using keep ret False by (auto simp: agree_def call_result_def ReturnLocation_def)
    then show ?thesis using False by auto
  qed
  then obtain ls' where st: "(ltl_step M ?g)\<^sup>*\<^sup>* (LBlock ?rest ?ls m') (LBlock [Lbranch s] ls' m')"
    and a: "agree f A s (call_result d v rs) ls'" by blast
  from call_step st have "(ltl_step M ?g)\<^sup>*\<^sup>* (LBlock (transformInstruction A ?i) ls m) (LBlock [Lbranch s] ls' m')"
    by (rule converse_rtranclp_into_rtranclp)
  from match_branch [OF cfg i _ a this] show ?thesis by (simp add: s')
qed

lemma sim_return:
  fixes M :: "('v, 'm) sem"
  assumes cfg: "alloc_setup f ns A void" and i: "rtl_code f n = Some (Ireturn r)"
    and agree: "agree f A n rs ls" and exec: "rtl_exec M (Ireturn r) rs m s'"
  shows "\<exists>t'. (ltl_step M g)\<^sup>+\<^sup>+ (LBlock (transformInstruction A (Ireturn r)) ls m) t' \<and> alloc_match f A M void s' t'"
proof (cases r)
  case None
  then have "void" using cfg i by (auto simp: alloc_setup_def)
  moreover have "ltl_step M g (LBlock (transformInstruction A (Ireturn r)) ls m) (LFinal (Returned (ls (R IntReturnReg)) m))"
    by (simp add: None ltl_return)
  moreover have "s' = RFinal (Returned (sem_undef M) m)" using exec None by (auto elim: rtl_execE)
  ultimately show ?thesis by (auto simp: alloc_match_def)
next
  case (Some a)
  have v: "ls (loc_of A a) = rs a" by (rule agree_use [OF agree i]) (simp add: Some)
  have s': "s' = RFinal (Returned (rs a) m)" using exec Some by (auto elim: rtl_execE)
  have "\<exists>ls'. (ltl_step M g)\<^sup>*\<^sup>* (LBlock (transformInstruction A (Ireturn r)) ls m) (LBlock [Lreturn] ls' m) \<and>
      ls' (R IntReturnReg) = rs a"
  proof (cases "loc_of A a = ReturnLocation False")
    case True
    then show ?thesis using v by (intro exI [of _ ls]) (simp add: Some ReturnLocation_def)
  next
    case False
    then have "ltl_step M g (LBlock (transformInstruction A (Ireturn r)) ls m) (LBlock [Lreturn] (ls(R IntReturnReg := rs a)) m)"
      using ltl_op [of M Omove ls "[loc_of A a]" m "rs a" g "R IntReturnReg" "[Lreturn]"] v
      by (simp add: Some ReturnLocation_def)
    then show ?thesis by (auto intro!: exI [of _ "ls(R IntReturnReg := rs a)"])
  qed
  then obtain ls' where st: "(ltl_step M g)\<^sup>*\<^sup>* (LBlock (transformInstruction A (Ireturn r)) ls m) (LBlock [Lreturn] ls' m)"
    and x0: "ls' (R IntReturnReg) = rs a" by blast
  have "ltl_step M g (LBlock [Lreturn] ls' m) (LFinal (Returned (rs a) m))"
    using ltl_return [of M g "[]" ls' m] x0 by simp
  with st have "(ltl_step M g)\<^sup>+\<^sup>+ (LBlock (transformInstruction A (Ireturn r)) ls m) (LFinal (Returned (rs a) m))"
    by (rule rtranclp_into_tranclp1)
  then show ?thesis by (auto simp: alloc_match_def s')
qed

lemma isMoveSource_value:
  "isMoveSource (Iop op args d s) r \<Longrightarrow> eval_op M op (map rs args) m = Some v \<Longrightarrow> v = rs r"
  by (cases "(Iop op args d s, r)" rule: isMoveSource.cases) auto

lemma sim_instr:
  fixes M :: "('v, 'm) sem"
  assumes cfg: "alloc_setup f ns A void" and i: "rtl_code f n = Some i"
    and agree: "agree f A n rs ls" and exec: "rtl_exec M i rs m s'"
  shows "\<exists>t'. (ltl_step M (transform_with A ns f))\<^sup>+\<^sup>+ (LBlock (transformInstruction A i) ls m) t' \<and>
      alloc_match f A M void s' t'"
proof -
  let ?g = "transform_with A ns f"
  have ok: "alloc_ok f A" using cfg by (simp add: alloc_setup_def)
  note args = agree_args [OF agree i] and branch = match_branch [OF cfg i, where M = M]
    and jump = match_jump [OF cfg i, where M = M]
  note keep = agree_succ [OF agree i] and upd = agree_def_reg [OF ok i _ _ agree, where M = M]
  show ?thesis
  proof (cases i)
    case (Inop s)
    with exec have s': "s' = RNode s rs m" by (auto elim: rtl_execE)
    have "agree f A s rs ls" using keep [of s] by (simp add: Inop)
    from branch [OF _ this rtranclp.rtrancl_refl] show ?thesis by (simp add: Inop s')
  next
    case (Iop op rargs d s)
    from exec obtain v where v: "eval_op M op (map rs rargs) m = Some v" "s' = RNode s (rs(d := v)) m"
      by (auto simp: Iop elim: rtl_execE)
    have st: "ltl_step M ?g (LBlock (transformInstruction A i) ls m) (LBlock [Lbranch s] (loc_set M (loc_of A d) v ls) m)"
      using v args [of rargs] by (simp add: Iop ltl_op)
    have "agree f A s (rs(d := v)) (loc_set M (loc_of A d) v ls)"
      using isMoveSource_value v(1) by (intro upd) (auto simp: Iop)
    from branch [OF _ this r_into_rtranclp [of "ltl_step M ?g", OF st]] show ?thesis by (simp add: Iop v(2))
  next
    case (Iload ch a rargs d s)
    from exec obtain v where v: "sem_load M ch a (map rs rargs) m = Some v" "s' = RNode s (rs(d := v)) m"
      by (auto simp: Iload elim: rtl_execE)
    have st: "ltl_step M ?g (LBlock (transformInstruction A i) ls m) (LBlock [Lbranch s] (loc_set M (loc_of A d) v ls) m)"
      using v args [of rargs] by (simp add: Iload ltl_load)
    have "agree f A s (rs(d := v)) (loc_set M (loc_of A d) v ls)"
      by (intro upd) (auto simp: Iload)
    from branch [OF _ this r_into_rtranclp [of "ltl_step M ?g", OF st]] show ?thesis by (simp add: Iload v(2))
  next
    case (Istore ch a rargs src s)
    from exec obtain m' where v: "sem_store M ch a (map rs rargs) (rs src) m = Some m'" "s' = RNode s rs m'"
      by (auto simp: Istore elim: rtl_execE)
    have st: "ltl_step M ?g (LBlock (transformInstruction A i) ls m) (LBlock [Lbranch s] ls m')"
      using v args [of rargs] agree_use [OF agree i, of src] by (simp add: Istore ltl_store subset_insertI)
    from branch [OF _ keep r_into_rtranclp [of "ltl_step M ?g", OF st]] show ?thesis by (simp add: Istore v(2))
  next
    case (Icall sg fn rargs d s)
    show ?thesis
      unfolding Icall by (rule sim_call [OF cfg i [unfolded Icall] agree exec [unfolded Icall]])
  next
    case (Itailcall sg fn rargs)
    let ?k = "sem_arity M sg (rtl_fun_value rs fn) m"
    from exec have k: "?k \<le> length rargs" "s' = RFinal (Tailcalled sg (rtl_fun_value rs fn) (map rs (take ?k rargs)) m)"
      by (auto simp: Itailcall elim: rtl_execE)
    have fv: "fun_value ls (transform_funref A fn) = rtl_fun_value rs fn"
      by (rule agree_fun [OF agree i]) (simp add: Itailcall)
    have "map ls (take ?k (transformRegs A rargs)) = map rs (take ?k rargs)"
      using args [of rargs] by (simp add: Itailcall) (metis take_map)
    then have "ltl_step M ?g (LBlock (transformInstruction A i) ls m) (LFinal (Tailcalled sg (rtl_fun_value rs fn) (map rs (take ?k rargs)) m))"
      using k(1) fv ltl_tailcall [of ?k M sg ls "transform_funref A fn" m "transformRegs A rargs" ?g "[]"]
      by (simp add: Itailcall transformRegs_def)
    then show ?thesis by (auto simp: alloc_match_def k(2))
  next
    case (Ibuiltin bf rargs d s)
    from exec obtain v m' where v: "sem_builtin M bf (map rs rargs) m = Some (v, m')" "s' = RNode s (reg_result d v rs) m'"
      by (auto simp: Ibuiltin elim: rtl_execE)
    have st: "ltl_step M ?g (LBlock (transformInstruction A i) ls m) (LBlock [Lbranch s] (set_result M (map_option (loc_of A) d) v ls) m')"
      using v args [of rargs] by (simp add: Ibuiltin ltl_builtin)
    have "agree f A s (reg_result d v rs) (set_result M (map_option (loc_of A) d) v ls)"
    proof (cases d)
      case None
      then show ?thesis using keep [of s] by (simp add: Ibuiltin reg_result_def set_result_def)
    next
      case (Some r)
      then show ?thesis using upd [of r s v] by (simp add: Ibuiltin reg_result_def set_result_def)
    qed
    from branch [OF _ this r_into_rtranclp [of "ltl_step M ?g", OF st]] show ?thesis by (simp add: Ibuiltin v(2))
  next
    case (Icond c rargs s1 s2)
    from exec obtain t where t: "sem_cond M c (map rs rargs) m = Some t" "s' = RNode (if t then s1 else s2) rs m"
      by (auto simp: Icond elim: rtl_execE)
    have "ltl_step M ?g (LBlock (transformInstruction A i) ls m) (LBlock b ls m)"
      if "ltl_code ?g (if t then s1 else s2) = Some b" for b
      using t(1) args [of rargs] that by (simp add: Icond ltl_cond)
    from jump [OF _ keep this] show ?thesis by (simp add: Icond t(2))
  next
    case (Ijumptable a ts)
    from exec obtain s where s: "jump_entry M (rs a) ts = Some s" "s' = RNode s rs m"
      by (auto simp: Ijumptable elim: rtl_execE)
    have "ltl_step M ?g (LBlock (transformInstruction A i) ls m) (LBlock b ls m)" if "ltl_code ?g s = Some b" for b
      using s(1) agree_use [OF agree i, of a] that by (simp add: Ijumptable ltl_jumptable)
    from jump [OF _ keep this] jump_entry_in [OF s(1)] show ?thesis by (simp add: Ijumptable s(2))
  next
    case (Ireturn r)
    show ?thesis
      unfolding Ireturn by (rule sim_return [OF cfg i [unfolded Ireturn] agree exec [unfolded Ireturn]])
  qed
qed

definition alloc_sim ::
  "rtl_function \<Rightarrow> node list \<Rightarrow> allocationResult \<Rightarrow> ('v, 'm) sem \<Rightarrow> bool \<Rightarrow> ('v, 'm) rtl_state \<Rightarrow> ('v, 'm) ltl_state \<Rightarrow> bool" where
  "alloc_sim f ns A M void s t \<longleftrightarrow> alloc_setup f ns A void \<and> alloc_match f A M void s t"

interpretation regalloc: fsim "rtl_step M f" "rtl_final M void"
    "ltl_step M (transform_with A ns f)" "ltl_final_obs M void" "alloc_sim f ns A M void" "\<lambda>_. 0"
  for M :: "('v, 'm) sem" and void f ns A
proof (unfold_locales, goal_cases)
  case (1 s t s')
  then obtain n i rs ls m where "s = RNode n rs m" "t = LBlock (transformInstruction A i) ls m"
    "rtl_code f n = Some i" "agree f A n rs ls" "rtl_exec M i rs m s'" "alloc_setup f ns A void"
    by (cases s) (auto simp: alloc_sim_def alloc_match_def)
  with sim_instr [of f ns A void n i rs ls M m s'] show ?case by (simp add: alloc_sim_def)
next
  case (2 s t r)
  then show ?case by (cases s) (auto simp: alloc_sim_def alloc_match_def)
qed

lemma init_regs_nth:
  "distinct ps \<Longrightarrow> length ps = length vs \<Longrightarrow> i < length ps \<Longrightarrow> init_regs u ps vs (ps ! i) = vs ! i"
proof (induction u ps vs arbitrary: i rule: init_regs.induct)
  case (1 u r rs v vs)
  then show ?case by (cases i) auto
qed auto

lemma entry_agree:
  fixes M :: "('v, 'm) sem"
  assumes ok: "rtl_ok f A" and len: "length vs = length (rtl_params f)"
    and arrive: "\<forall>i<length vs. ls (ArgLocation i False) = vs ! i"
  shows "agree f A (rtl_entry f) (init_regs u (rtl_params f) vs)
    (run_pairs M (parallel_moves (paramLocs f) (param_dsts f A)) ls)"
  unfolding agree_def
proof (intro allI impI)
  fix r assume "live f (rtl_entry f) r"
  then have "r \<in> set (rtl_params f)" using ok by (simp add: rtl_ok_def)
  then obtain i where i: "i < length (rtl_params f)" "r = rtl_params f ! i" by (auto simp: in_set_conv_nth)
  have par: "par_ok (paramLocs f) (param_dsts f A)" "distinct (rtl_params f)" using ok by (auto simp: rtl_ok_def)
  have "run_pairs M (parallel_moves (paramLocs f) (param_dsts f A)) ls (param_dsts f A ! i) = ls (paramLocs f ! i)"
    using i by (intro run_parallel_moves(1) [OF par(1)]) (simp add: paramLocs_def)
  then show "run_pairs M (parallel_moves (paramLocs f) (param_dsts f A)) ls (loc_of A r) = init_regs u (rtl_params f) vs r"
    using i len arrive par(2) by (simp add: paramLocs_def init_regs_nth)
qed

section \<open>Properties\<close>

text \<open>
  Property C17. A parallel assignment is resolved correctly: if destinations are apart from each
  other, sources and destinations are equal or apart, none of them is one of the temporaries
  \<open>X8\<close> to \<open>X15\<close>, and at most eight sources are overwritten, then after the generated moves every
  destination holds the value its source had before, cycles included, and every other location
  but the temporaries is unchanged.
\<close>

theorem resolveParallelMoves_correct:
  fixes M :: "('v, 'm) sem"
  assumes "par_ok srcLocs dstLocs"
  shows "\<exists>ls'. (ltl_step M f)\<^sup>*\<^sup>* (LBlock (resolveParallelMoves srcLocs dstLocs @ b) ls m) (LBlock b ls' m) \<and>
     (\<forall>i<length srcLocs. ls' (dstLocs ! i) = ls (srcLocs ! i)) \<and>
     (\<forall>l. l \<notin> temps \<longrightarrow> (\<forall>d\<in>set dstLocs. apart d l) \<longrightarrow> ls' l = ls l)"
  using run_pairs_steps [of M f "parallel_moves srcLocs dstLocs" b ls m]
    run_parallel_moves [OF assms, where M = M and ls = ls]
  by (intro exI [of _ "run_pairs M (parallel_moves srcLocs dstLocs) ls"]) (simp add: resolveParallelMoves_def)

theorem resolveParallelMoves_correct_witness:
  "resolveParallelMoves [R X0, R X1, R X2] [R X1, R X0, R X19] =
     [Lop Omove [R X0] (R X8), Lop Omove [R X1] (R X9),
      Lop Omove [R X8] (R X1), Lop Omove [R X9] (R X0), Lop Omove [R X2] (R X19)] \<and>
   (\<forall>(M :: (nat, nat) sem) f b ls m.
     \<exists>ls'. (ltl_step M f)\<^sup>*\<^sup>* (LBlock (resolveParallelMoves [R X0, R X1, R X2] [R X1, R X0, R X19] @ b) ls m) (LBlock b ls' m) \<and>
     (\<forall>i<length [R X0, R X1, R X2]. ls' ([R X1, R X0, R X19] ! i) = ls ([R X0, R X1, R X2] ! i)) \<and>
     (\<forall>l. l \<notin> temps \<longrightarrow> (\<forall>d\<in>set [R X1, R X0, R X19]. apart d l) \<longrightarrow> ls' l = ls l))"
proof (intro conjI allI)
  show "resolveParallelMoves [R X0, R X1, R X2] [R X1, R X0, R X19] =
     [Lop Omove [R X0] (R X8), Lop Omove [R X1] (R X9),
      Lop Omove [R X8] (R X1), Lop Omove [R X9] (R X0), Lop Omove [R X2] (R X19)]"
    by code_simp
  have "par_ok [R X0, R X1, R X2] [R X1, R X0, R X19]"
    by (auto simp: par_ok_def needed_moves_def)
  then show "\<exists>ls'. (ltl_step M f)\<^sup>*\<^sup>* (LBlock (resolveParallelMoves [R X0, R X1, R X2] [R X1, R X0, R X19] @ b) ls m) (LBlock b ls' m) \<and>
     (\<forall>i<length [R X0, R X1, R X2]. ls' ([R X1, R X0, R X19] ! i) = ls ([R X0, R X1, R X2] ! i)) \<and>
     (\<forall>l. l \<notin> temps \<longrightarrow> (\<forall>d\<in>set [R X1, R X0, R X19]. apart d l) \<longrightarrow> ls' l = ls l)"
    for M :: "(nat, nat) sem" and f b ls m
    by (rule resolveParallelMoves_correct)
qed

lemma allocation_preserves:
  fixes M :: "('v, 'm) sem"
  assumes cfg: "alloc_setup f ns A void" and len: "length vs = length (rtl_params f)"
    and arrive: "\<forall>i<length vs. ls (ArgLocation i False) = vs ! i"
    and beh: "behaves (rtl_step M f) (rtl_final M void)
      (RNode (rtl_entry f) (init_regs (sem_undef M) (rtl_params f) vs) m) b" "b \<noteq> Goes_wrong"
  shows "\<exists>s. ltl_initial (transform_with A ns f) ls m = Some s \<and>
     behaves (ltl_step M (transform_with A ns f)) (ltl_final_obs M void) s b"
proof -
  let ?g = "transform_with A ns f" and ?ps = "parallel_moves (paramLocs f) (param_dsts f A)"
  have ns: "set ns = dom (rtl_code f)" and ok: "rtl_ok f A" using cfg by (auto simp: alloc_setup_def)
  then obtain i where i: "rtl_code f (rtl_entry f) = Some i" by (auto simp: rtl_ok_def)
  have entry: "ltl_entry ?g = rtl_entry f" by (simp add: transform_with_def Let_def)
  have init: "ltl_initial ?g ls m = Some (LBlock (map move_instr ?ps @ transformInstruction A i) ls m)"
    using i by (simp add: ltl_initial_def entry transform_with_code [OF ns])
  have "alloc_sim f ns A M void (RNode (rtl_entry f) (init_regs (sem_undef M) (rtl_params f) vs) m)
      (LBlock (transformInstruction A i) (run_pairs M ?ps ls) m)"
    using cfg i entry_agree [OF ok len arrive, of "sem_undef M" M] by (auto simp: alloc_sim_def alloc_match_def)
  from regalloc.safe_preserved [OF this beh] have
    "behaves (ltl_step M ?g) (ltl_final_obs M void) (LBlock (transformInstruction A i) (run_pairs M ?ps ls) m) b" .
  with run_pairs_steps have "behaves (ltl_step M ?g) (ltl_final_obs M void)
      (LBlock (map move_instr ?ps @ transformInstruction A i) ls m) b" by (rule behaves_star)
  with init show ?thesis by blast
qed


section \<open>An example, and a function whose entry is a loop\<close>

text \<open>
  A function that calls \<open>g\<close> as often as its argument says: \<open>while (n) { g(); n--; } return n;\<close>.
  With \<open>entry\<close> 6 the loop is preceded by a node of its own; with \<open>entry\<close> 5 it starts at once, as it
  does for a C function that begins with a loop. The meaning is that of integers, and \<open>g\<close> returns 1.
\<close>

definition count_down :: "node \<Rightarrow> rtl_function" where
  "count_down entry = (rtl_NewFunction ''f'' \<lparr>sig_args = [''int''], sig_return = ''int'', sig_vararg = False\<rparr>)
     \<lparr>rtl_params := [1], rtl_entry := entry, rtl_code := map_of
       [(6, Inop 5), (5, Inop 4), (4, Icond (Ccompimm Ceq 0) [1] 1 3),
        (3, Icall \<lparr>sig_args = [], sig_return = ''int'', sig_vararg = False\<rparr> (FunSymbol ''g'') [] 0 2),
        (2, Iop (Oarith (Oaddimm (- 1))) [1] 1 5), (1, Ireturn (Some 1))]\<rparr>"

definition count_alloc :: allocationResult where
  "count_alloc = \<lparr>RegToLoc = [1 \<mapsto> R X19], SpilledRegs = {}, StackSize = 0\<rparr>"

abbreviation (input) count_nodes :: "node list" where "count_nodes \<equiv> [1, 2, 3, 4, 5, 6]"

definition int_sem :: "(int, unit) sem" where
  "int_sem = \<lparr>
     sem_op = (\<lambda>op vs _. case (op, vs) of (Oarith (Oaddimm k), [v]) \<Rightarrow> Some (v + k) | _ \<Rightarrow> None),
     sem_load = (\<lambda>_ _ _ _. None), sem_store = (\<lambda>_ _ _ _ _. None),
     sem_cond = (\<lambda>c vs _. case (c, vs) of (Ccompimm Ceq k, [v]) \<Rightarrow> Some (v = k) | _ \<Rightarrow> None),
     sem_index = (\<lambda>_. None), sem_arity = (\<lambda>_ _ _. 0), sem_call = (\<lambda>_ _ _ m. Some (1, m)),
     sem_builtin = (\<lambda>_ _ _. None), sem_undef = 0\<rparr>"

lemma int_sem_simps [simp]:
  "eval_op int_sem (Oarith (Oaddimm k)) [v] m = Some (v + k)"
  "sem_cond int_sem (Ccompimm Ceq k) [v] m = Some (v = k)"
  "sem_arity int_sem sg fv m = 0" "sem_call int_sem sg fv vs m = Some (1, m)" "sem_undef int_sem = 0"
  by (simp_all add: int_sem_def eval_op_def)

lemma count_down_code [simp]:
  "rtl_code (count_down e) 6 = Some (Inop 5)" "rtl_code (count_down e) 5 = Some (Inop 4)"
  "rtl_code (count_down e) 4 = Some (Icond (Ccompimm Ceq 0) [1] 1 3)"
  "rtl_code (count_down e) 3 =
     Some (Icall \<lparr>sig_args = [], sig_return = ''int'', sig_vararg = False\<rparr> (FunSymbol ''g'') [] 0 2)"
  "rtl_code (count_down e) 2 = Some (Iop (Oarith (Oaddimm (- 1))) [1] 1 5)"
  "rtl_code (count_down e) 1 = Some (Ireturn (Some 1))"
  "rtl_params (count_down e) = [1]" "rtl_entry (count_down e) = e"
  by (simp_all add: count_down_def)

lemma count_down_cases:
  "rtl_code (count_down e) n = Some i \<Longrightarrow>
     n \<in> set count_nodes \<and> i = the (rtl_code (count_down e) n)"
  by (auto simp: count_down_def split: if_splits)

lemma count_down_dom: "set count_nodes = dom (rtl_code (count_down e))"
  using count_down_cases by (fastforce simp: domIff)

lemma count_down_live: "live (count_down e) n r \<Longrightarrow> r = 1"
  by (induction rule: live.induct) (auto dest!: count_down_cases)

lemma count_loc [simp]: "loc_of count_alloc 1 = R X19"
  by (simp add: count_alloc_def loc_of_def)

lemma count_down_alloc_ok: "alloc_ok (count_down e) count_alloc"
  unfolding alloc_ok_def live_out_def
  by (auto dest!: count_down_cases count_down_live simp: IsCalleeSaved_iff)

lemma count_down_setup: "alloc_setup (count_down 6) count_nodes count_alloc False"
proof -
  have "par_ok (paramLocs (count_down 6)) (param_dsts (count_down 6) count_alloc)"
    by (auto simp: par_ok_def paramLocs_def ArgLocation_def IntArgRegs_nth needed_moves_def)
  then have "rtl_ok (count_down 6) count_alloc"
    unfolding rtl_ok_def by (auto dest!: count_down_cases count_down_live)
  then show ?thesis
    using count_down_dom count_down_alloc_ok by (auto simp: alloc_setup_def dest!: count_down_cases)
qed

lemma count_down_return:
  assumes "rs 1 = 0"
  shows "(rtl_step int_sem (count_down e))\<^sup>*\<^sup>* (RNode 5 rs m) (RFinal (Returned 0 m))"
proof -
  have "rtl_step int_sem (count_down e) (RNode 5 rs m) (RNode 4 rs m)"
    "rtl_step int_sem (count_down e) (RNode 4 rs m) (RNode 1 rs m)"
    "rtl_step int_sem (count_down e) (RNode 1 rs m) (RFinal (Returned 0 m))"
    using assms rtl_cond [of int_sem "Ccompimm Ceq 0" rs "[1]" m True 1 3] rtl_return [of int_sem 1 rs m]
    by (simp_all add: rtl_nop)
  then show ?thesis by (meson converse_rtranclp_into_rtranclp rtranclp.rtrancl_refl)
qed

lemma count_down_behaves:
  "behaves (rtl_step int_sem (count_down 6)) (rtl_final int_sem False)
     (RNode 6 (init_regs 0 [1] [0]) ()) (Terminates (Returned 0 ()))"
proof -
  have "rtl_step int_sem (count_down 6) (RNode 6 (init_regs 0 [1] [0]) ()) (RNode 5 (init_regs 0 [1] [0]) ())"
    by (simp add: rtl_nop)
  with count_down_return [of "init_regs 0 [1] [0]"] have
    "(rtl_step int_sem (count_down 6))\<^sup>*\<^sup>* (RNode 6 (init_regs 0 [1] [0]) ()) (RFinal (Returned 0 ()))"
    by (auto intro: converse_rtranclp_into_rtranclp)
  then show ?thesis by (force simp: behaves_def)
qed


text \<open>
  The entry block of \<open>count_down 5\<close> is the head of the loop, so the parameter is moved again in
  every round. The allocation is valid, and the RTL function called with 1 returns 0; but the LTL
  function overwrites its counter with the result of the call and never ends.
\<close>

lemma count_down_entry_block:
  "ltl_code (transform_with count_alloc count_nodes (count_down 5)) 5 = Some [Lop Omove [R X0] (R X19), Lbranch 4]"
proof -
  have "parallel_moves (paramLocs (count_down 5)) (param_dsts (count_down 5) count_alloc) = [(R X0, R X19)]"
    by (simp add: parallel_moves_def paramLocs_def ArgLocation_def IntArgRegs_nth needed_moves_def redirected_def)
  then show ?thesis
    by (simp add: transform_with_code [OF count_down_dom])
qed

lemma count_down_blocks:
  "ltl_code (transform_with count_alloc count_nodes (count_down 5)) 4 = Some [Lcond (Ccompimm Ceq 0) [R X19] 1 3]"
  "ltl_code (transform_with count_alloc count_nodes (count_down 5)) 3 =
     Some [Lcall \<lparr>sig_args = [], sig_return = ''int'', sig_vararg = False\<rparr> (FunSymbol ''g'') [], Lbranch 2]"
  "ltl_code (transform_with count_alloc count_nodes (count_down 5)) 2 =
     Some [Lop (Oarith (Oaddimm (- 1))) [R X19] (R X19), Lbranch 5]"
  by (simp_all add: transform_with_code [OF count_down_dom] transformRegs_def)

theorem entry_loop_miscompiled:
  "alloc_ok (count_down 5) count_alloc \<and>
   behaves (rtl_step int_sem (count_down 5)) (rtl_final int_sem False)
     (RNode 5 (init_regs 0 [1] [1]) ()) (Terminates (Returned 0 ())) \<and>
   behaves (ltl_step int_sem (transform_with count_alloc count_nodes (count_down 5))) (ltl_final_obs int_sem False)
     (LBlock [Lop Omove [R X0] (R X19), Lbranch 4] ((\<lambda>_. 0)(R X0 := 1)) ()) Diverges"
proof (intro conjI)
  show "alloc_ok (count_down 5) count_alloc" by (rule count_down_alloc_ok)
  let ?f = "count_down 5" and ?rs = "init_regs 0 [1] [1]"
  have "rtl_step int_sem ?f (RNode 5 ?rs ()) (RNode 4 ?rs ())" "rtl_step int_sem ?f (RNode 4 ?rs ()) (RNode 3 ?rs ())"
    "rtl_step int_sem ?f (RNode 3 ?rs ()) (RNode 2 ?rs ())" "rtl_step int_sem ?f (RNode 2 ?rs ()) (RNode 5 (?rs(1 := 0)) ())"
    using rtl_cond [of int_sem "Ccompimm Ceq 0" ?rs "[1]" "()" False 1 3]
      rtl_call [of 0 int_sem "\<lparr>sig_args = [], sig_return = ''int'', sig_vararg = False\<rparr>" ?rs "FunSymbol ''g''" "()" "[]" 1 "()" 0 2]
      rtl_op [of int_sem "Oarith (Oaddimm (- 1))" ?rs "[1]" "()" 0 1 5]
    by (simp_all add: rtl_nop call_result_def)
  then have "(rtl_step int_sem ?f)\<^sup>*\<^sup>* (RNode 5 ?rs ()) (RNode 5 (?rs(1 := 0)) ())"
    by (meson converse_rtranclp_into_rtranclp rtranclp.rtrancl_refl)
  then have "(rtl_step int_sem ?f)\<^sup>*\<^sup>* (RNode 5 ?rs ()) (RFinal (Returned 0 ()))"
    using count_down_return [of "?rs(1 := 0)" 5 "()"] by simp
  then show "behaves (rtl_step int_sem ?f) (rtl_final int_sem False) (RNode 5 ?rs ()) (Terminates (Returned 0 ()))"
    by (force simp: behaves_def)
next
  let ?g = "transform_with count_alloc count_nodes (count_down 5)"
  let ?b5 = "[Lop Omove [R X0] (R X19), Lbranch 4]" and ?b2 = "[Lop (Oarith (Oaddimm (- 1))) [R X19] (R X19), Lbranch 5]"
  let ?b3 = "[Lcall \<lparr>sig_args = [], sig_return = ''int'', sig_vararg = False\<rparr> (FunSymbol ''g'') [], Lbranch 2]"
  let ?X = "\<lambda>s. \<exists>ls. s = LBlock ?b5 ls () \<and> ls (R X0) = 1"
  have round: "\<exists>s'. (ltl_step int_sem ?g)\<^sup>+\<^sup>+ s s' \<and> ?X s'" if "?X s" for s
  proof -
    from that obtain ls where s: "s = LBlock ?b5 ls ()" and x0: "ls (R X0) = 1" by blast
    let ?l1 = "ls(R X19 := 1)" let ?l2 = "after_call int_sem 1 ?l1" let ?l3 = "?l2(R X19 := ?l2 (R X19) - 1)"
    have "ltl_step int_sem ?g s (LBlock [Lbranch 4] ?l1 ())"
      using ltl_op [of int_sem Omove ls "[R X0]" "()" 1 ?g "R X19" "[Lbranch 4]"] x0 by (simp add: s)
    moreover have "ltl_step int_sem ?g (LBlock [Lbranch 4] ?l1 ()) (LBlock [Lcond (Ccompimm Ceq 0) [R X19] 1 3] ?l1 ())"
      by (simp add: ltl_branch count_down_blocks)
    moreover have "ltl_step int_sem ?g (LBlock [Lcond (Ccompimm Ceq 0) [R X19] 1 3] ?l1 ()) (LBlock ?b3 ?l1 ())"
      by (rule ltl_cond [where t = False]) (simp_all add: count_down_blocks)
    moreover have "ltl_step int_sem ?g (LBlock ?b3 ?l1 ()) (LBlock [Lbranch 2] ?l2 ())"
      by (rule ltl_call) simp_all
    moreover have "ltl_step int_sem ?g (LBlock [Lbranch 2] ?l2 ()) (LBlock ?b2 ?l2 ())"
      by (simp add: ltl_branch count_down_blocks)
    moreover have "ltl_step int_sem ?g (LBlock ?b2 ?l2 ()) (LBlock [Lbranch 5] ?l3 ())"
      using ltl_op [of int_sem "Oarith (Oaddimm (- 1))" ?l2 "[R X19]" "()" "?l2 (R X19) - 1" ?g "R X19" "[Lbranch 5]"] by simp
    moreover have "ltl_step int_sem ?g (LBlock [Lbranch 5] ?l3 ()) (LBlock ?b5 ?l3 ())"
      by (simp add: ltl_branch count_down_entry_block)
    ultimately have "(ltl_step int_sem ?g)\<^sup>+\<^sup>+ s (LBlock ?b5 ?l3 ())"
      by (meson tranclp.r_into_trancl tranclp_into_tranclp2)
    moreover have "?l3 (R X0) = 1" by (simp add: after_call_def)
    ultimately show ?thesis by blast
  qed
  have "forever (ltl_step int_sem ?g) (LBlock ?b5 ((\<lambda>_. 0)(R X0 := 1)) ())"
    by (rule forever_plus_coinduct [where X = ?X, OF _ round]) auto
  then show "behaves (ltl_step int_sem ?g) (ltl_final_obs int_sem False) (LBlock ?b5 ((\<lambda>_. 0)(R X0 := 1)) ()) Diverges"
    by (simp add: behaves_def)
qed

end
