(* ===== verification/IRC.thy ===== *)
theory IRC
  imports RegTransform
begin

text \<open>
  The register allocator (\<open>pkg/regalloc/irc.go\<close>): iterated register coalescing over the
  interference graph. The allocator's fields are a record; \<open>clock\<close> counts the \<open>range\<close> statements
  executed so far, and \<open>enum k s\<close> is the order in which the \<open>k\<close>-th of them visits the set \<open>s\<close>. A
  missing entry of the maps \<open>colors\<close>, \<open>spillSlot\<close> and \<open>aliasOf\<close> reads as zero.
\<close>

section \<open>State\<close>

record allocator =
  graph :: interferenceGraph
  K :: nat
  colors :: "reg \<Rightarrow> nat"
  spillSlot :: "reg \<Rightarrow> int"
  simplifyWorklist :: "reg list"
  freezeWorklist :: "reg list"
  spillWorklist :: "reg list"
  coalescedNodes :: regSet
  coloredNodes :: regSet
  spilledNodes :: regSet
  selectStack :: "reg list"
  onSelectStack :: regSet
  aliasOf :: "reg \<Rightarrow> reg"
  coalescedMoves :: "(reg \<times> reg) list"
  constrainedMoves :: "(reg \<times> reg) list"
  frozenMoves :: "(reg \<times> reg) list"
  worklistMoves :: "(reg \<times> reg) list"
  activeMoves :: "(reg \<times> reg) list"
  nextSpillSlot :: int64
  precoloredParams :: "reg \<rightharpoonup> loc"
  clock :: nat

type_synonym enumeration = "nat \<Rightarrow> regSet \<Rightarrow> reg list"

text \<open>One \<open>range\<close> statement over a set: the elements in the order of the moment, and the time passes.\<close>

definition range_of :: "enumeration \<Rightarrow> regSet \<Rightarrow> allocator \<Rightarrow> reg list" where
  "range_of enum s a = enum (clock a) s"

definition tick :: "allocator \<Rightarrow> allocator" where
  "tick a = a\<lparr>clock := Suc (clock a)\<rparr>"

definition NewAllocator :: "rtl_function \<Rightarrow> interferenceGraph \<Rightarrow> allocator" where
  "NewAllocator f g = \<lparr>graph = g, K = NumAllocatableIntRegs, colors = (\<lambda>_. 0), spillSlot = (\<lambda>_. 0),
     simplifyWorklist = [], freezeWorklist = [], spillWorklist = [],
     coalescedNodes = {}, coloredNodes = {}, spilledNodes = {}, selectStack = [], onSelectStack = {},
     aliasOf = (\<lambda>_. 0),
     coalescedMoves = [], constrainedMoves = [], frozenMoves = [], worklistMoves = [], activeMoves = [],
     nextSpillSlot = 0,
     precoloredParams = fold (\<lambda>(i, param) m. if param \<in> LiveAcrossCalls g then m else m(param \<mapsto> ArgLocation i False))
       (enumerate 0 (rtl_params f)) Map.empty,
     clock = 0\<rparr>"

section \<open>Worklists\<close>

definition degree :: "allocator \<Rightarrow> reg \<Rightarrow> nat" where
  "degree a r = card {n \<in> Edges (graph a) r. n \<notin> coalescedNodes a \<and> n \<notin> onSelectStack a}"

text \<open>The color of a machine register: its index in \<open>AllocatableIntRegs\<close>.\<close>

definition color_of :: "mreg \<Rightarrow> nat option" where
  "color_of m = find (\<lambda>i. AllocatableIntRegs ! i = m) [0..<length AllocatableIntRegs]"

definition precolor :: "reg \<Rightarrow> allocator \<Rightarrow> allocator" where
  "precolor param a = (case precoloredParams a param of
     Some (R m) \<Rightarrow> (case color_of m of
         Some i \<Rightarrow> a\<lparr>colors := (colors a)(param := i), coloredNodes := insert param (coloredNodes a)\<rparr>
       | None \<Rightarrow> a)
   | _ \<Rightarrow> a)"

definition categorize :: "reg \<Rightarrow> allocator \<Rightarrow> allocator" where
  "categorize r a =
     (if precoloredParams a r \<noteq> None then a
      else if K a \<le> degree a r then a\<lparr>spillWorklist := spillWorklist a @ [r]\<rparr>
      else if MoveRelated (graph a) r then a\<lparr>freezeWorklist := freezeWorklist a @ [r]\<rparr>
      else a\<lparr>simplifyWorklist := simplifyWorklist a @ [r]\<rparr>)"

definition collect_moves :: "enumeration \<Rightarrow> reg \<Rightarrow> allocator \<Rightarrow> allocator" where
  "collect_moves enum r a =
     fold (\<lambda>p a. if r < p then a\<lparr>worklistMoves := worklistMoves a @ [(r, p)]\<rparr> else a)
       (range_of enum (Preferences (graph a) r) a) (tick a)"

text \<open>
  The keys of \<open>Preferences\<close> are the nodes of the graph; those of \<open>precoloredParams\<close> are parameters.
\<close>

definition buildWorklists :: "enumeration \<Rightarrow> rtl_function \<Rightarrow> allocator \<Rightarrow> allocator" where
  "buildWorklists enum f a =
     (let a = fold precolor (range_of enum (set (rtl_params f)) a) (tick a);
          a = fold categorize (range_of enum (Nodes (graph a)) a) (tick a)
      in fold (collect_moves enum) (range_of enum (Nodes (graph a)) a) (tick a))"

definition decrementDegree :: "reg \<Rightarrow> allocator \<Rightarrow> allocator" where
  "decrementDegree r a =
     (if r \<in> coalescedNodes a then a
      else if Suc (degree a r) = K a then
        let a = a\<lparr>spillWorklist := remove1 r (spillWorklist a)\<rparr>
        in if MoveRelated (graph a) r then a\<lparr>freezeWorklist := freezeWorklist a @ [r]\<rparr>
           else a\<lparr>simplifyWorklist := simplifyWorklist a @ [r]\<rparr>
      else a)"

definition simplify :: "enumeration \<Rightarrow> allocator \<Rightarrow> allocator" where
  "simplify enum a =
     (let r = last (simplifyWorklist a);
          a = a\<lparr>simplifyWorklist := butlast (simplifyWorklist a)\<rparr>;
          a = a\<lparr>selectStack := selectStack a @ [r], onSelectStack := insert r (onSelectStack a)\<rparr>
      in fold decrementDegree (range_of enum (Edges (graph a) r) a) (tick a))"

section \<open>Coalescing\<close>

text \<open>The chain of aliases may be followed forever if it is cyclic: then there is no result.\<close>

partial_function (option) getAlias :: "allocator \<Rightarrow> reg \<Rightarrow> reg option" where
  [code]: "getAlias a r = (if r \<in> coalescedNodes a then getAlias a (aliasOf a r) else Some r)"

definition conservativeCoalesce :: "allocator \<Rightarrow> reg \<Rightarrow> reg \<Rightarrow> bool" where
  "conservativeCoalesce a u v \<longleftrightarrow>
     card {n \<in> Edges (graph a) u \<union> Edges (graph a) v. n \<notin> coalescedNodes a \<and> K a \<le> degree a n} < K a"

definition addToWorklist :: "reg \<Rightarrow> allocator \<Rightarrow> allocator" where
  "addToWorklist r a =
     (if r \<in> coalescedNodes a then a
      else if degree a r < K a \<and> \<not> MoveRelated (graph a) r
      then a\<lparr>freezeWorklist := remove1 r (freezeWorklist a), simplifyWorklist := simplifyWorklist a @ [r]\<rparr>
      else a)"

definition merge_edge :: "reg \<Rightarrow> reg \<Rightarrow> allocator \<Rightarrow> allocator" where
  "merge_edge u n a =
     (if n \<notin> coalescedNodes a \<and> n \<noteq> u then decrementDegree n (a\<lparr>graph := AddEdge u n (graph a)\<rparr>) else a)"

definition merge_pref :: "reg \<Rightarrow> reg \<Rightarrow> allocator \<Rightarrow> allocator" where
  "merge_pref u n a = (if n \<noteq> u then a\<lparr>graph := AddPreference u n (graph a)\<rparr> else a)"

definition combine :: "enumeration \<Rightarrow> reg \<Rightarrow> reg \<Rightarrow> allocator \<Rightarrow> allocator" where
  "combine enum u v a =
     (let a = a\<lparr>freezeWorklist := remove1 v (freezeWorklist a), spillWorklist := remove1 v (spillWorklist a)\<rparr>;
          a = a\<lparr>coalescedNodes := insert v (coalescedNodes a), aliasOf := (aliasOf a)(v := u)\<rparr>;
          a = (if v \<in> LiveAcrossCalls (graph a)
               then a\<lparr>graph := (graph a)\<lparr>LiveAcrossCalls := insert u (LiveAcrossCalls (graph a))\<rparr>\<rparr> else a);
          a = fold (merge_edge u) (range_of enum (Edges (graph a) v) a) (tick a);
          a = fold (merge_pref u) (range_of enum (Preferences (graph a) v) a) (tick a)
      in if K a \<le> degree a u
         then a\<lparr>freezeWorklist := remove1 u (freezeWorklist a), spillWorklist := spillWorklist a @ [u]\<rparr>
         else a)"

definition coalesce :: "enumeration \<Rightarrow> allocator \<Rightarrow> allocator option" where
  "coalesce enum a =
     (let m = last (worklistMoves a);
          a = a\<lparr>worklistMoves := butlast (worklistMoves a)\<rparr>
      in Option.bind (getAlias a (fst m)) (\<lambda>x. Option.bind (getAlias a (snd m)) (\<lambda>y.
           let (u, v) = (if x < y then (x, y) else (y, x)) in Some (
           if u = v then addToWorklist u (a\<lparr>coalescedMoves := coalescedMoves a @ [m]\<rparr>)
           else if HasEdge (graph a) u v
           then addToWorklist v (addToWorklist u (a\<lparr>constrainedMoves := constrainedMoves a @ [m]\<rparr>))
           else if conservativeCoalesce a u v
           then addToWorklist u (combine enum u v (a\<lparr>coalescedMoves := coalescedMoves a @ [m]\<rparr>))
           else a\<lparr>activeMoves := activeMoves a @ [m]\<rparr>))))"

section \<open>Freezing and spilling\<close>

fun freeze_moves :: "reg \<Rightarrow> (reg \<times> reg) list \<Rightarrow> (reg \<times> reg) list \<Rightarrow> allocator \<Rightarrow> (reg \<times> reg) list \<times> allocator" where
  "freeze_moves r [] remaining a = (remaining, a)"
| "freeze_moves r (m # ms) remaining a =
     (if fst m = r \<or> snd m = r
      then freeze_moves r ms remaining
        (addToWorklist (if fst m = r then snd m else fst m) (a\<lparr>frozenMoves := frozenMoves a @ [m]\<rparr>))
      else freeze_moves r ms (remaining @ [m]) a)"

definition freezeMovesFor :: "reg \<Rightarrow> allocator \<Rightarrow> allocator" where
  "freezeMovesFor r a = (let (remaining, a) = freeze_moves r (activeMoves a) [] a in a\<lparr>activeMoves := remaining\<rparr>)"

definition freeze :: "allocator \<Rightarrow> allocator" where
  "freeze a =
     (let r = last (freezeWorklist a);
          a = a\<lparr>freezeWorklist := butlast (freezeWorklist a)\<rparr>
      in freezeMovesFor r (a\<lparr>simplifyWorklist := simplifyWorklist a @ [r]\<rparr>))"

text \<open>The position and the degree of the first node of highest degree.\<close>

fun max_degree :: "allocator \<Rightarrow> nat \<Rightarrow> reg list \<Rightarrow> (nat \<times> reg \<times> nat) option \<Rightarrow> (nat \<times> reg \<times> nat) option" where
  "max_degree a i [] best = best"
| "max_degree a i (r # rs) best =
     max_degree a (Suc i) rs
       (case best of
          None \<Rightarrow> Some (i, r, degree a r)
        | Some (_, _, maxDeg) \<Rightarrow> if maxDeg < degree a r then Some (i, r, degree a r) else best)"

definition selectSpill :: "allocator \<Rightarrow> allocator" where
  "selectSpill a = (case max_degree a 0 (spillWorklist a) None of
     None \<Rightarrow> a
   | Some (maxIdx, maxReg, _) \<Rightarrow>
       freezeMovesFor maxReg
         (a\<lparr>spillWorklist := take maxIdx (spillWorklist a) @ drop (Suc maxIdx) (spillWorklist a),
            simplifyWorklist := simplifyWorklist a @ [maxReg]\<rparr>))"

partial_function (option) main_loop :: "enumeration \<Rightarrow> allocator \<Rightarrow> allocator option" where
  [code]: "main_loop enum a =
     (if simplifyWorklist a \<noteq> [] then main_loop enum (simplify enum a)
      else if worklistMoves a \<noteq> [] then Option.bind (coalesce enum a) (main_loop enum)
      else if freezeWorklist a \<noteq> [] then main_loop enum (freeze a)
      else if spillWorklist a \<noteq> [] then main_loop enum (selectSpill a)
      else Some a)"

section \<open>Colors\<close>

fun used_colors :: "allocator \<Rightarrow> reg list \<Rightarrow> nat set option" where
  "used_colors a [] = Some {}"
| "used_colors a (n # ns) = Option.bind (getAlias a n) (\<lambda>al.
     map_option (\<lambda>used. if al \<in> coloredNodes a then insert (colors a al) used else used) (used_colors a ns))"

definition assign_one :: "enumeration \<Rightarrow> reg \<Rightarrow> allocator \<Rightarrow> allocator option" where
  "assign_one enum r a =
     map_option (\<lambda>usedColors.
       let startColor = (if r \<in> LiveAcrossCalls (graph a) then FirstCalleeSavedColor else 0);
           a = tick a
       in case find (\<lambda>c. c \<notin> usedColors) [startColor..<K a] of
            Some color \<Rightarrow> a\<lparr>coloredNodes := insert r (coloredNodes a), colors := (colors a)(r := color)\<rparr>
          | None \<Rightarrow> a\<lparr>spilledNodes := insert r (spilledNodes a), spillSlot := (spillSlot a)(r := nextSpillSlot a),
                     nextSpillSlot := nextSpillSlot a + 8\<rparr>)
     (used_colors a (range_of enum (Edges (graph a) r) a))"

fun assign_stack :: "enumeration \<Rightarrow> reg list \<Rightarrow> allocator \<Rightarrow> allocator option" where
  "assign_stack enum [] a = Some a"
| "assign_stack enum (r # rs) a = Option.bind (assign_one enum r a) (assign_stack enum rs)"

definition copy_color :: "reg \<Rightarrow> allocator \<Rightarrow> allocator option" where
  "copy_color r a = map_option (\<lambda>al.
     if al \<in> coloredNodes a
     then a\<lparr>colors := (colors a)(r := colors a al), coloredNodes := insert r (coloredNodes a)\<rparr>
     else if al \<in> spilledNodes a
     then a\<lparr>spilledNodes := insert r (spilledNodes a), spillSlot := (spillSlot a)(r := spillSlot a al)\<rparr>
     else if precoloredParams a al \<noteq> None
     then a\<lparr>precoloredParams := (precoloredParams a)(r := precoloredParams a al)\<rparr>
     else a) (getAlias a r)"

fun copy_colors :: "reg list \<Rightarrow> allocator \<Rightarrow> allocator option" where
  "copy_colors [] a = Some a"
| "copy_colors (r # rs) a = Option.bind (copy_color r a) (copy_colors rs)"

text \<open>The stack is popped from its end and is empty afterwards.\<close>

definition assignColors :: "enumeration \<Rightarrow> allocator \<Rightarrow> allocator option" where
  "assignColors enum a =
     Option.bind (assign_stack enum (rev (selectStack a)) a) (\<lambda>a.
       copy_colors (range_of enum (coalescedNodes a) a) (tick (a\<lparr>selectStack := []\<rparr>)))"

definition buildResult :: "allocator \<Rightarrow> allocationResult" where
  "buildResult a =
     \<lparr>RegToLoc = (\<lambda>r.
        if precoloredParams a r \<noteq> None then precoloredParams a r
        else if r \<in> spilledNodes a then Some (S SlotLocal (spillSlot a r) Tlong)
        else if r \<in> coloredNodes a \<and> colors a r < length AllocatableIntRegs
        then Some (R (AllocatableIntRegs ! colors a r))
        else None),
      SpilledRegs = spilledNodes a, StackSize = nextSpillSlot a\<rparr>"

definition Allocate :: "enumeration \<Rightarrow> rtl_function \<Rightarrow> allocator \<Rightarrow> allocationResult option" where
  "Allocate enum f a =
     Option.bind (main_loop enum (buildWorklists enum f a)) (\<lambda>a.
       map_option buildResult (assignColors enum a))"

text \<open>
  \<open>AllocateFunction\<close> and \<open>TransformFunction\<close>. \<open>ord\<close> gives the iteration orders of the liveness
  analysis, \<open>ns\<close> the nodes, \<open>enumG\<close> the orders of the graph construction.
\<close>

definition AllocateFunction ::
  "(nat \<Rightarrow> node list) \<Rightarrow> node list \<Rightarrow> (regSet \<Rightarrow> reg list) \<Rightarrow> enumeration \<Rightarrow> rtl_function \<Rightarrow> allocationResult option" where
  "AllocateFunction ord ns enumG enum f =
     Option.bind (AnalyzeLiveness ord f) (\<lambda>liveness.
       Allocate enum f (NewAllocator f (BuildInterferenceGraph enumG ns f liveness)))"

definition TransformFunction ::
  "(nat \<Rightarrow> node list) \<Rightarrow> node list \<Rightarrow> (regSet \<Rightarrow> reg list) \<Rightarrow> enumeration \<Rightarrow> rtl_function \<Rightarrow> ltl_function option" where
  "TransformFunction ord ns enumG enum f =
     map_option (\<lambda>allocation. transform_with allocation ns f) (AllocateFunction ord ns enumG enum f)"

text \<open>\<open>TransformProgram\<close>: the oracles of a function are those for its position in the program.\<close>

fun regalloc_functions ::
  "nat \<Rightarrow> (nat \<Rightarrow> nat \<Rightarrow> node list) \<Rightarrow> (nat \<Rightarrow> node list) \<Rightarrow> (regSet \<Rightarrow> reg list) \<Rightarrow> enumeration \<Rightarrow>
   rtl_function list \<Rightarrow> ltl_function list option" where
  "regalloc_functions k ord ns enumG enum [] = Some []"
| "regalloc_functions k ord ns enumG enum (f # fs) =
     Option.bind (TransformFunction (ord k) (ns k) enumG enum f) (\<lambda>g.
       map_option ((#) g) (regalloc_functions (Suc k) ord ns enumG enum fs))"

definition regalloc_TransformProgram ::
  "(nat \<Rightarrow> nat \<Rightarrow> node list) \<Rightarrow> (nat \<Rightarrow> node list) \<Rightarrow> (regSet \<Rightarrow> reg list) \<Rightarrow> enumeration \<Rightarrow>
   rtl_program \<Rightarrow> ltl_program option" where
  "regalloc_TransformProgram ord ns enumG enum p =
     map_option (\<lambda>fs. \<lparr>ltl_globals = rtl_globals p, ltl_functions = fs\<rparr>)
       (regalloc_functions 0 ord ns enumG enum (rtl_functions p))"

end
