(* ===== verification/AllocSound.thy ===== *)
theory AllocSound
  imports IRC
begin

text \<open>
  Soundness of the allocator: the invariant of the main loop, the coloring phase, and the result.
  If the main loop ends and no parameter with a fixed location was coalesced, colored again or found
  to be live across a call, then interfering registers get separate locations and registers that
  are live across calls get locations that survive calls.
\<close>

section \<open>What the operations leave alone\<close>

text \<open>The registers that the loop still has to deal with, or has dealt with.\<close>

definition pool :: "allocator \<Rightarrow> reg set" where
  "pool a = set (simplifyWorklist a) \<union> set (freezeWorklist a) \<union> set (spillWorklist a) \<union>
     set (selectStack a) \<union> coalescedNodes a \<union> dom (precoloredParams a)"

text \<open>The fields of the coloring phase, and all fields but the worklists, the moves and the clock.\<close>

definition coloring where
  "coloring a = (K a, precoloredParams a, colors a, coloredNodes a, spillSlot a, spilledNodes a, nextSpillSlot a)"

definition core where
  "core a = (graph a, coalescedNodes a, aliasOf a, selectStack a, coloring a)"

text \<open>
  From \<open>a\<close> to \<open>b\<close> nothing happened but some bookkeeping: registers went from one worklist to
  another, or were added to one.
\<close>

definition kept :: "allocator \<Rightarrow> allocator \<Rightarrow> bool" where
  "kept a b \<longleftrightarrow> core b = core a \<and> worklistMoves b = worklistMoves a \<and> pool a \<subseteq> pool b"

lemma kept_refl [simp]: "kept a a"
  by (simp add: kept_def)

lemma kept_trans: "kept a b \<Longrightarrow> kept b c \<Longrightarrow> kept a c"
  by (auto simp: kept_def)

lemma set_remove1_subset': "set xs \<subseteq> insert r (set (remove1 r xs))"
  by (induction xs) auto

lemma kept_tick: "kept a (tick a)"
  by (simp add: kept_def tick_def core_def coloring_def pool_def)

lemma kept_worklists:
  assumes "set (simplifyWorklist a) \<union> set (freezeWorklist a) \<union> set (spillWorklist a) \<subseteq> set s \<union> set f \<union> set p"
  shows "kept a (a\<lparr>simplifyWorklist := s, freezeWorklist := f, spillWorklist := p\<rparr>)"
  unfolding kept_def
proof (intro conjI)
  show "pool a \<subseteq> pool (a\<lparr>simplifyWorklist := s, freezeWorklist := f, spillWorklist := p\<rparr>)"
    using assms by (simp add: pool_def) blast
qed (simp_all add: core_def coloring_def)

lemma same_worklists:
  "a\<lparr>spillWorklist := p, freezeWorklist := f\<rparr> =
     a\<lparr>simplifyWorklist := simplifyWorklist a, freezeWorklist := f, spillWorklist := p\<rparr>"
  "a\<lparr>spillWorklist := p, simplifyWorklist := s\<rparr> =
     a\<lparr>simplifyWorklist := s, freezeWorklist := freezeWorklist a, spillWorklist := p\<rparr>"
  "a\<lparr>freezeWorklist := f, simplifyWorklist := s\<rparr> =
     a\<lparr>simplifyWorklist := s, freezeWorklist := f, spillWorklist := spillWorklist a\<rparr>"
  by simp_all

lemma kept_decrementDegree: "kept a (decrementDegree r a)"
  using set_remove1_subset' [of "spillWorklist a" r] kept_refl [of a]
  unfolding decrementDegree_def Let_def
  by (simp only: same_worklists allocator.simps split: if_splits)
    (intro conjI impI kept_refl kept_worklists; simp; blast)

lemma kept_addToWorklist: "kept a (addToWorklist r a)"
  using set_remove1_subset' [of "freezeWorklist a" r]
  unfolding addToWorklist_def
  by (simp only: same_worklists split: if_splits)
    (intro conjI impI kept_refl kept_worklists; simp; blast)

lemma kept_fold: "(\<And>x a. kept a (h x a)) \<Longrightarrow> kept a (fold h xs a)"
  by (induction xs arbitrary: a) (auto intro: kept_trans)

lemma kept_frozen: "kept a (a\<lparr>frozenMoves := ms\<rparr>)" "kept a (a\<lparr>activeMoves := ms\<rparr>)"
  "kept a (a\<lparr>coalescedMoves := ms\<rparr>)" "kept a (a\<lparr>constrainedMoves := ms\<rparr>)"
  by (simp_all add: kept_def core_def coloring_def pool_def)

lemma kept_freeze_moves: "kept a (snd (freeze_moves r ms remaining a))"
proof (induction r ms remaining a rule: freeze_moves.induct)
  case (2 r m ms remaining a)
  have k: "kept a (addToWorklist x (a\<lparr>frozenMoves := frozenMoves a @ [m]\<rparr>))" for x
    using kept_trans [OF kept_frozen(1) kept_addToWorklist] .
  show ?case
  proof (cases "fst m = r \<or> snd m = r")
    case True
    from kept_trans [OF k "2.IH"(1) [OF True]] True show ?thesis by simp
  qed (use "2.IH"(2) in simp)
qed simp

lemma kept_freezeMovesFor: "kept a (freezeMovesFor r a)"
  unfolding freezeMovesFor_def
  using kept_trans [OF kept_freeze_moves kept_frozen(2)] by (auto split: prod.split) (metis snd_conv)

section \<open>Representatives\<close>

text \<open>Aliases go to smaller registers of the graph, so every chain of aliases ends.\<close>

definition alias_ok :: "allocator \<Rightarrow> bool" where
  "alias_ok a \<longleftrightarrow> finite (Nodes (graph a)) \<and> coalescedNodes a \<subseteq> Nodes (graph a) \<and>
     (\<forall>v\<in>coalescedNodes a. aliasOf a v < v \<and> aliasOf a v \<in> Nodes (graph a))"

definition rep :: "allocator \<Rightarrow> reg \<Rightarrow> reg" where
  "rep a r = the (getAlias a r)"

lemma chain_induct [consumes 1, case_names chain]:
  assumes "alias_ok a" and step: "\<And>r. (r \<in> coalescedNodes a \<Longrightarrow> P (aliasOf a r)) \<Longrightarrow> P r"
  shows "P r"
proof (induction "card {n \<in> Nodes (graph a). n < r}" arbitrary: r rule: less_induct)
  case less
  show ?case
  proof (rule step)
    assume r: "r \<in> coalescedNodes a"
    with assms(1) have "finite (Nodes (graph a))" and q: "aliasOf a r < r" "aliasOf a r \<in> Nodes (graph a)"
      by (auto simp: alias_ok_def)
    then have "card {n \<in> Nodes (graph a). n < aliasOf a r} < card {n \<in> Nodes (graph a). n < r}"
      by (intro psubset_card_mono) auto
    then show "P (aliasOf a r)" by (rule less)
  qed
qed

lemma getAlias_rep: "alias_ok a \<Longrightarrow> getAlias a r = Some (rep a r)"
proof (induction r rule: chain_induct)
  case (chain r)
  then show ?case by (cases "r \<in> coalescedNodes a") (auto simp: rep_def getAlias.simps [of a r])
qed

lemma rep_simps:
  "r \<notin> coalescedNodes a \<Longrightarrow> rep a r = r" "r \<in> coalescedNodes a \<Longrightarrow> rep a r = rep a (aliasOf a r)"
  by (auto simp: rep_def getAlias.simps [of a r])

lemma rep_props:
  assumes "alias_ok a"
  shows "rep a r \<notin> coalescedNodes a" and "r \<in> Nodes (graph a) \<Longrightarrow> rep a r \<in> Nodes (graph a)"
proof -
  from assms have "rep a r \<notin> coalescedNodes a \<and> (r \<in> Nodes (graph a) \<longrightarrow> rep a r \<in> Nodes (graph a))"
  proof (induction r rule: chain_induct)
    case (chain r)
    then show ?case using assms by (cases "r \<in> coalescedNodes a") (auto simp: rep_simps alias_ok_def)
  qed
  then show "rep a r \<notin> coalescedNodes a" "r \<in> Nodes (graph a) \<Longrightarrow> rep a r \<in> Nodes (graph a)" by auto
qed

lemma rep_idem: "alias_ok a \<Longrightarrow> rep a (rep a r) = rep a r"
  by (simp add: rep_props rep_simps)

lemma rep_cong:
  assumes "coalescedNodes b = coalescedNodes a" and "aliasOf b = aliasOf a" and "alias_ok a"
  shows "rep b r = rep a r"
  using assms(3)
proof (induction r rule: chain_induct)
  case (chain r)
  then show ?case by (cases "r \<in> coalescedNodes a") (auto simp: rep_simps assms)
qed

text \<open>Merging \<open>v\<close> into \<open>u\<close>.\<close>

lemma rep_merge:
  assumes a: "alias_ok a" and uv: "u \<notin> coalescedNodes a" "v \<notin> coalescedNodes a" "u \<noteq> v"
    and b: "coalescedNodes b = insert v (coalescedNodes a)" "aliasOf b = (aliasOf a)(v := u)"
  shows "rep b r = (if rep a r = v then u else rep a r)"
  using a
proof (induction r rule: chain_induct)
  case (chain r)
  have u: "rep b u = u" using uv b by (simp add: rep_simps)
  show ?case
  proof (cases "r \<in> coalescedNodes a")
    case True
    with chain uv b show ?thesis by (auto simp: rep_simps)
  next
    case False
    with u b show ?thesis by (cases "r = v") (auto simp: rep_simps)
  qed
qed

section \<open>The invariant of the main loop\<close>

text \<open>
  Relative to the interference graph \<open>g\<close> and the colors \<open>c\<close> the allocator started with: edges and
  liveness across calls only grow and carry over to representatives, and every register of the graph
  is on a worklist, on the stack, coalesced or a parameter with a fixed location.
\<close>

definition closed :: "allocator \<Rightarrow> bool" where
  "closed a \<longleftrightarrow> (\<forall>x y. y \<in> Edges (graph a) x \<longrightarrow> rep a y \<in> Edges (graph a) (rep a x)) \<and>
     (\<forall>x\<in>LiveAcrossCalls (graph a). rep a x \<in> LiveAcrossCalls (graph a))"

definition extends :: "interferenceGraph \<Rightarrow> interferenceGraph \<Rightarrow> bool" where
  "extends g h \<longleftrightarrow> Nodes h = Nodes g \<and> (\<forall>r. Edges g r \<subseteq> Edges h r) \<and> LiveAcrossCalls g \<subseteq> LiveAcrossCalls h"

definition loop_inv where
  "loop_inv g c a \<longleftrightarrow> wf_graph (graph a) \<and> alias_ok a \<and> closed a \<and> extends g (graph a) \<and> coloring a = c \<and>
     Nodes g \<subseteq> pool a \<and> (\<forall>m\<in>set (worklistMoves a). fst m \<in> Nodes g \<and> snd m \<in> Nodes g)"

lemma loop_inv_cong:
  assumes "loop_inv g c a" and "(graph b, coalescedNodes b, aliasOf b, coloring b) = (graph a, coalescedNodes a, aliasOf a, coloring a)"
    and "pool a \<subseteq> pool b" and "set (worklistMoves b) \<subseteq> set (worklistMoves a)"
  shows "loop_inv g c b"
proof -
  from assms(1) have "alias_ok a" by (simp add: loop_inv_def)
  with assms(2) have "rep b = rep a" by (auto intro: rep_cong)
  with assms show ?thesis by (auto simp: loop_inv_def alias_ok_def closed_def)
qed

lemma loop_inv_kept: "loop_inv g c a \<Longrightarrow> kept a b \<Longrightarrow> loop_inv g c b"
  by (erule loop_inv_cong) (auto simp: kept_def core_def)

lemma set_last: "xs \<noteq> [] \<Longrightarrow> set xs = insert (last xs) (set (butlast xs))"
  by (metis append_butlast_last_id list.simps(15) rotate1.simps(2) set_rotate1)

lemma loop_inv_simplify:
  assumes "loop_inv g c a" and "simplifyWorklist a \<noteq> []"
  shows "loop_inv g c (simplify enum a)"
proof -
  let ?r = "last (simplifyWorklist a)"
  let ?a = "a\<lparr>simplifyWorklist := butlast (simplifyWorklist a), selectStack := selectStack a @ [?r],
    onSelectStack := insert ?r (onSelectStack a)\<rparr>"
  have "loop_inv g c ?a"
    using assms(1) by (rule loop_inv_cong) (use set_last [OF assms(2)] in \<open>auto simp: pool_def coloring_def\<close>)
  moreover have "kept ?a (simplify enum a)"
    unfolding simplify_def Let_def
    using kept_trans [OF kept_tick kept_fold [of decrementDegree, OF kept_decrementDegree]] by simp
  ultimately show ?thesis by (rule loop_inv_kept)
qed

lemma loop_inv_freeze:
  assumes "loop_inv g c a" and "freezeWorklist a \<noteq> []"
  shows "loop_inv g c (freeze a)"
proof -
  let ?r = "last (freezeWorklist a)"
  have "loop_inv g c (a\<lparr>freezeWorklist := butlast (freezeWorklist a), simplifyWorklist := simplifyWorklist a @ [?r]\<rparr>)"
    using assms(1) by (rule loop_inv_cong) (use set_last [OF assms(2)] in \<open>auto simp: pool_def coloring_def\<close>)
  then show ?thesis
    unfolding freeze_def Let_def using loop_inv_kept [OF _ kept_freezeMovesFor] by simp
qed

lemma max_degree_position:
  "max_degree a i rs best = Some (j, r, d) \<Longrightarrow> best = Some (j, r, d) \<or> (\<exists>k < length rs. j = i + k \<and> rs ! k = r)"
proof (induction rs arbitrary: i best)
  case (Cons r' rs)
  let ?best = "case best of None \<Rightarrow> Some (i, r', degree a r')
    | Some (_, _, maxDeg) \<Rightarrow> if maxDeg < degree a r' then Some (i, r', degree a r') else best"
  from Cons.prems have "max_degree a (Suc i) rs ?best = Some (j, r, d)" by simp
  from Cons.IH [OF this] show ?case
  proof
    assume "?best = Some (j, r, d)"
    then have "best = Some (j, r, d) \<or> (j = i \<and> r' = r)" by (auto split: option.splits if_splits)
    then show ?thesis by fastforce
  next
    assume "\<exists>k < length rs. j = Suc i + k \<and> rs ! k = r"
    then show ?thesis by (auto intro!: exI [of _ "Suc _"])
  qed
qed simp

lemma loop_inv_selectSpill:
  assumes "loop_inv g c a"
  shows "loop_inv g c (selectSpill a)"
proof (cases "max_degree a 0 (spillWorklist a) None")
  case (Some p)
  then obtain j r d where p: "max_degree a 0 (spillWorklist a) None = Some (j, r, d)" by (cases p) auto
  then have j: "j < length (spillWorklist a)" "spillWorklist a ! j = r"
    using max_degree_position [OF p] by auto
  let ?a = "a\<lparr>spillWorklist := take j (spillWorklist a) @ drop (Suc j) (spillWorklist a),
    simplifyWorklist := simplifyWorklist a @ [r]\<rparr>"
  have "set (spillWorklist a) = set (take j (spillWorklist a)) \<union> {r} \<union> set (drop (Suc j) (spillWorklist a))"
    using j by (metis Un_insert_right append_take_drop_id Cons_nth_drop_Suc list.simps(15) set_append sup_bot_right insert_is_Un Un_assoc)
  then have "loop_inv g c ?a"
    using assms by (intro loop_inv_cong [of g c a ?a]) (auto simp: pool_def coloring_def)
  with p show ?thesis
    by (simp add: selectSpill_def) (rule loop_inv_kept [OF _ kept_freezeMovesFor])
qed (use assms in \<open>simp add: selectSpill_def\<close>)

section \<open>Coalescing\<close>

definition others where
  "others a = (coalescedNodes a, aliasOf a, selectStack a, coloring a, worklistMoves a)"

lemma merge_edge_eq:
  "graph (merge_edge u n a) = (if n \<notin> coalescedNodes a \<and> n \<noteq> u then AddEdge u n (graph a) else graph a)"
  "others (merge_edge u n a) = others a" "pool a \<subseteq> pool (merge_edge u n a)"
proof -
  let ?a = "a\<lparr>graph := AddEdge u n (graph a)\<rparr>"
  have "kept ?a (decrementDegree n ?a)" by (rule kept_decrementDegree)
  moreover have "others ?a = others a" "pool ?a = pool a" by (simp_all add: others_def coloring_def pool_def)
  ultimately show "graph (merge_edge u n a) = (if n \<notin> coalescedNodes a \<and> n \<noteq> u then AddEdge u n (graph a) else graph a)"
    "others (merge_edge u n a) = others a" "pool a \<subseteq> pool (merge_edge u n a)"
    by (auto simp: merge_edge_def kept_def core_def others_def)
qed

lemma fold_merge_edge:
  "graph (fold (merge_edge u) ns a) = fold (\<lambda>n. AddEdge u n) (filter (\<lambda>n. n \<notin> coalescedNodes a \<and> n \<noteq> u) ns) (graph a) \<and>
   others (fold (merge_edge u) ns a) = others a \<and> pool a \<subseteq> pool (fold (merge_edge u) ns a)"
proof (induction ns arbitrary: a)
  case (Cons n ns)
  from merge_edge_eq(2) [of u n a] have "coalescedNodes (merge_edge u n a) = coalescedNodes a" by (simp add: others_def)
  with Cons [of "merge_edge u n a"] merge_edge_eq [where u = u and n = n and a = a] show ?case by auto
qed simp

lemma merge_pref_eq:
  "graph (merge_pref u n a) = (if n \<noteq> u then AddPreference u n (graph a) else graph a)"
  "others (merge_pref u n a) = others a" "pool (merge_pref u n a) = pool a"
  by (simp_all add: merge_pref_def others_def coloring_def pool_def)

lemma fold_merge_pref:
  "graph (fold (merge_pref u) ns a) = fold (\<lambda>n. AddPreference u n) (filter (\<lambda>n. n \<noteq> u) ns) (graph a) \<and>
   others (fold (merge_pref u) ns a) = others a \<and> pool (fold (merge_pref u) ns a) = pool a"
  by (induction ns arbitrary: a) (simp_all add: merge_pref_eq)

text \<open>What \<open>combine\<close> does to the graph: the edges and preferences of \<open>v\<close> become edges and preferences of \<open>u\<close>.\<close>

definition lists :: "enumeration \<Rightarrow> bool" where
  "lists enum \<longleftrightarrow> (\<forall>k s. finite s \<longrightarrow> set (enum k s) = s)"

lemma wf_graph_fold_AddEdge: "wf_graph h \<Longrightarrow> wf_graph (fold (\<lambda>n. AddEdge u n) ns h)"
  by (induction ns arbitrary: h) (auto intro: wf_graph_AddEdge)

lemma wf_graph_fold_AddPreference: "wf_graph h \<Longrightarrow> wf_graph (fold (\<lambda>n. AddPreference u n) ns h)"
  by (induction ns arbitrary: h) (auto intro: wf_graph_AddPreference)

lemma fold_AddPreference [simp]:
  "Edges (fold (\<lambda>n. AddPreference u n) ns h) = Edges h"
  "LiveAcrossCalls (fold (\<lambda>n. AddPreference u n) ns h) = LiveAcrossCalls h"
  by (induction ns arbitrary: h) auto

lemma Nodes_fold_pairs:
  "u \<in> Nodes h \<Longrightarrow> set ns \<subseteq> Nodes h \<Longrightarrow> Nodes (fold (\<lambda>n. AddEdge u n) ns h) = Nodes h"
  "u \<in> Nodes h \<Longrightarrow> set ns \<subseteq> Nodes h \<Longrightarrow> Nodes (fold (\<lambda>n. AddPreference u n) ns h) = Nodes h"
  by (induction ns arbitrary: h) (auto simp: Nodes_AddEdge insert_absorb)

definition merged where
  "merged a u v b \<longleftrightarrow> coalescedNodes b = insert v (coalescedNodes a) \<and> aliasOf b = (aliasOf a)(v := u) \<and>
     coloring b = coloring a \<and> worklistMoves b = worklistMoves a \<and> selectStack b = selectStack a \<and> pool a \<subseteq> pool b \<and>
     wf_graph (graph b) \<and> Nodes (graph b) = Nodes (graph a) \<and>
     (\<forall>x y. y \<in> Edges (graph b) x \<longleftrightarrow> y \<in> Edges (graph a) x \<or>
        (x = u \<and> y \<in> Edges (graph a) v \<and> y \<notin> insert v (coalescedNodes a) \<and> y \<noteq> u) \<or>
        (y = u \<and> x \<in> Edges (graph a) v \<and> x \<notin> insert v (coalescedNodes a) \<and> x \<noteq> u)) \<and>
     LiveAcrossCalls (graph b) = LiveAcrossCalls (graph a) \<union> (if v \<in> LiveAcrossCalls (graph a) then {u} else {}) \<and>
     (\<forall>x y. y \<in> Preferences (graph b) x \<longrightarrow> y \<in> Preferences (graph a) x \<or>
        (x = u \<and> y \<in> Preferences (graph a) v) \<or> (y = u \<and> x \<in> Preferences (graph a) v)) \<and>
     (\<forall>x y. y \<in> Preferences (graph a) x \<longrightarrow> y \<in> Preferences (graph b) x)"

definition merge_into where
  "merge_into enum u v a =
     (let a = fold (merge_edge u) (range_of enum (Edges (graph a) v) a) (tick a)
      in fold (merge_pref u) (range_of enum (Preferences (graph a) v) a) (tick a))"

lemma tick_eq [simp]: "graph (tick a) = graph a" "others (tick a) = others a" "pool (tick a) = pool a"
  "coalescedNodes (tick a) = coalescedNodes a"
  by (simp_all add: tick_def others_def coloring_def pool_def)

lemma merge_into_eq:
  fixes v :: reg
  assumes wf: "wf_graph (graph a)" and fin: "finite (Nodes (graph a))" and enum: "lists enum" and u: "u \<in> Nodes (graph a)"
  defines "b \<equiv> merge_into enum u v a"
  shows "others b = others a" "pool a \<subseteq> pool b" "wf_graph (graph b)" "Nodes (graph b) = Nodes (graph a)"
    and "LiveAcrossCalls (graph b) = LiveAcrossCalls (graph a)"
    and "y \<in> Edges (graph b) x \<longleftrightarrow> y \<in> Edges (graph a) x \<or>
        (x = u \<and> y \<in> Edges (graph a) v \<and> y \<notin> coalescedNodes a \<and> y \<noteq> u) \<or>
        (y = u \<and> x \<in> Edges (graph a) v \<and> x \<notin> coalescedNodes a \<and> x \<noteq> u)"
    and "y \<in> Preferences (graph b) x \<longleftrightarrow> y \<in> Preferences (graph a) x \<or>
        (x = u \<and> y \<in> Preferences (graph a) v \<and> y \<noteq> u) \<or> (y = u \<and> x \<in> Preferences (graph a) v \<and> x \<noteq> u)"
proof -
  define es where "es = filter (\<lambda>n. n \<notin> coalescedNodes a \<and> n \<noteq> u) (range_of enum (Edges (graph a) v) a)"
  define a3 where "a3 = fold (merge_edge u) (range_of enum (Edges (graph a) v) a) (tick a)"
  define ps where "ps = filter (\<lambda>n. n \<noteq> u) (range_of enum (Preferences (graph a3) v) a3)"
  have ev: "Edges (graph a) v \<subseteq> Nodes (graph a)" "Preferences (graph a) v \<subseteq> Nodes (graph a)"
    using wf by (auto simp: wf_graph_def)
  have a3: "graph a3 = fold (\<lambda>n. AddEdge u n) es (graph a)" "others a3 = others a" "pool a \<subseteq> pool a3"
    using fold_merge_edge [of u "range_of enum (Edges (graph a) v) a" "tick a"] by (simp_all add: a3_def es_def)
  have es: "set es = {n \<in> Edges (graph a) v. n \<notin> coalescedNodes a \<and> n \<noteq> u}"
    using enum fin ev by (auto simp: es_def range_of_def lists_def finite_subset)
  have n3: "Nodes (graph a3) = Nodes (graph a)" "Preferences (graph a3) = Preferences (graph a)"
    "LiveAcrossCalls (graph a3) = LiveAcrossCalls (graph a)"
    using Nodes_fold_pairs(1) [of u "graph a" es] u ev es by (auto simp: a3(1))
  have b: "graph b = fold (\<lambda>n. AddPreference u n) ps (graph a3)" "others b = others a3" "pool b = pool a3"
    using fold_merge_pref [of u "range_of enum (Preferences (graph a3) v) a3" "tick a3"]
    by (simp_all add: b_def merge_into_def Let_def a3_def ps_def)
  have ps: "set ps = {n \<in> Preferences (graph a) v. n \<noteq> u}"
    using enum fin ev by (auto simp: ps_def range_of_def lists_def n3 finite_subset)
  show "others b = others a" "pool a \<subseteq> pool b" using b a3 by simp_all
  show "wf_graph (graph b)"
    unfolding b(1) a3(1) using wf by (intro wf_graph_fold_AddPreference wf_graph_fold_AddEdge)
  show "Nodes (graph b) = Nodes (graph a)"
    using Nodes_fold_pairs(2) [of u "graph a3" ps] u ev ps n3 by (auto simp: b(1))
  show "LiveAcrossCalls (graph b) = LiveAcrossCalls (graph a)" by (simp add: b(1) n3)
  have "Edges (graph b) = Edges (graph a3)" by (simp add: b(1))
  then show "y \<in> Edges (graph b) x \<longleftrightarrow> y \<in> Edges (graph a) x \<or>
        (x = u \<and> y \<in> Edges (graph a) v \<and> y \<notin> coalescedNodes a \<and> y \<noteq> u) \<or>
        (y = u \<and> x \<in> Edges (graph a) v \<and> x \<notin> coalescedNodes a \<and> x \<noteq> u)"
    unfolding a3(1) by (auto simp: edges.adj_fold_right es)
  show "y \<in> Preferences (graph b) x \<longleftrightarrow> y \<in> Preferences (graph a) x \<or>
        (x = u \<and> y \<in> Preferences (graph a) v \<and> y \<noteq> u) \<or> (y = u \<and> x \<in> Preferences (graph a) v \<and> x \<noteq> u)"
    unfolding b(1) by (auto simp: prefs.adj_fold_right ps n3)
qed

definition mark where
  "mark u v a =
     (let a = a\<lparr>freezeWorklist := remove1 v (freezeWorklist a), spillWorklist := remove1 v (spillWorklist a)\<rparr>;
          a = a\<lparr>coalescedNodes := insert v (coalescedNodes a), aliasOf := (aliasOf a)(v := u)\<rparr>
      in (if v \<in> LiveAcrossCalls (graph a)
          then a\<lparr>graph := (graph a)\<lparr>LiveAcrossCalls := insert u (LiveAcrossCalls (graph a))\<rparr>\<rparr> else a))"

lemma mark_eq:
  "others (mark u v a) = (insert v (coalescedNodes a), (aliasOf a)(v := u), selectStack a, coloring a, worklistMoves a)"
  "Edges (graph (mark u v a)) = Edges (graph a)" "Preferences (graph (mark u v a)) = Preferences (graph a)"
  "Nodes (graph (mark u v a)) = Nodes (graph a)"
  "LiveAcrossCalls (graph (mark u v a)) = LiveAcrossCalls (graph a) \<union> (if v \<in> LiveAcrossCalls (graph a) then {u} else {})"
  by (auto simp: mark_def Let_def others_def coloring_def)

lemma mark_pool: "pool a \<subseteq> pool (mark u v a)"
  using set_remove1_subset' [of "freezeWorklist a" v] set_remove1_subset' [of "spillWorklist a" v]
  unfolding mark_def Let_def by (simp add: pool_def) blast

lemma combine_eq:
  "combine enum u v a = (let a = merge_into enum u v (mark u v a) in
     if K a \<le> degree a u
     then a\<lparr>freezeWorklist := remove1 u (freezeWorklist a), spillWorklist := spillWorklist a @ [u]\<rparr> else a)"
  unfolding combine_def merge_into_def mark_def Let_def by (rule refl)

lemma combine_kept: "kept (merge_into enum u v (mark u v a)) (combine enum u v a)"
proof -
  let ?b = "merge_into enum u v (mark u v a)"
  have "kept ?b (?b\<lparr>freezeWorklist := remove1 u (freezeWorklist ?b), spillWorklist := spillWorklist ?b @ [u]\<rparr>)"
    using kept_worklists [of ?b "simplifyWorklist ?b" "remove1 u (freezeWorklist ?b)" "spillWorklist ?b @ [u]"]
      set_remove1_subset' [of "freezeWorklist ?b" u] by auto
  then show ?thesis by (simp add: combine_eq Let_def)
qed

lemma combine_merged:
  assumes wf: "wf_graph (graph a)" and fin: "finite (Nodes (graph a))" and enum: "lists enum" and u: "u \<in> Nodes (graph a)"
  shows "merged a u v (combine enum u v a)"
proof -
  have wf2: "wf_graph (graph (mark u v a))"
    using wf by (simp add: wf_graph_def edges.symmetric_def prefs.symmetric_def mark_eq)
  have cn: "coalescedNodes (mark u v a) = insert v (coalescedNodes a)" using mark_eq(1) [of u v a] by (simp add: others_def)
  note m = merge_into_eq [OF wf2 _ enum, unfolded mark_eq cn, OF fin u]
  have k: "graph (combine enum u v a) = graph (merge_into enum u v (mark u v a))"
    "others (combine enum u v a) = others (merge_into enum u v (mark u v a))" "pool a \<subseteq> pool (combine enum u v a)"
    using combine_kept [of enum u v a] m(2) [of v] mark_pool [of a u v] by (auto simp: kept_def core_def others_def)
  have o: "coalescedNodes (combine enum u v a) = insert v (coalescedNodes a)" "aliasOf (combine enum u v a) = (aliasOf a)(v := u)"
    "coloring (combine enum u v a) = coloring a" "worklistMoves (combine enum u v a) = worklistMoves a"
    "selectStack (combine enum u v a) = selectStack a"
    using k(2) m(1) by (simp_all add: others_def)
  show ?thesis unfolding merged_def k(1) m(4-7) using o k(3) m(3) by (intro conjI) (blast | simp)+
qed

lemma merged_closed:
  assumes a: "alias_ok a" "closed a" "wf_graph (graph a)" and m: "merged a u v b"
    and uv: "u \<notin> coalescedNodes a" "v \<notin> coalescedNodes a" "u \<noteq> v" "v \<notin> Edges (graph a) u"
  shows "closed b"
  unfolding closed_def
proof (intro conjI allI impI ballI)
  have r: "rep b x = (if rep a x = v then u else rep a x)" for x
    using a(1) uv(1-3) m by (intro rep_merge) (auto simp: merged_def)
  have e: "y \<in> Edges (graph b) x \<longleftrightarrow> y \<in> Edges (graph a) x \<or>
        (x = u \<and> y \<in> Edges (graph a) v \<and> y \<notin> insert v (coalescedNodes a) \<and> y \<noteq> u) \<or>
        (y = u \<and> x \<in> Edges (graph a) v \<and> x \<notin> insert v (coalescedNodes a) \<and> x \<noteq> u)" for x y
    using m unfolding merged_def by blast
  have sym: "y \<in> Edges (graph a) x \<Longrightarrow> x \<in> Edges (graph a) y \<and> x \<noteq> y" for x y
    using a(3) by (auto simp: wf_graph_def edges.symmetric_def)
  have reps: "rep a x \<notin> coalescedNodes a" for x using a(1) by (rule rep_props)
  fix x y assume "y \<in> Edges (graph b) x"
  then consider (old) "y \<in> Edges (graph a) x"
    | (right) "x = u" "y \<in> Edges (graph a) v" "y \<notin> insert v (coalescedNodes a)" "y \<noteq> u"
    | (left) "y = u" "x \<in> Edges (graph a) v" "x \<notin> insert v (coalescedNodes a)" "x \<noteq> u"
    unfolding e by blast
  then show "rep b y \<in> Edges (graph b) (rep b x)"
  proof cases
    case old
    with a(2) have "rep a y \<in> Edges (graph a) (rep a x)" by (simp add: closed_def)
    with reps [of x] reps [of y] sym [of "rep a y" "rep a x"] sym [of v u] uv(4) show ?thesis
      by (auto simp: r e)
  next
    case right
    with uv show ?thesis by (auto simp: r e rep_simps)
  next
    case left
    with uv show ?thesis by (auto simp: r e rep_simps)
  qed
next
  fix x assume "x \<in> LiveAcrossCalls (graph b)"
  moreover have "rep b x = (if rep a x = v then u else rep a x)" for x
    using a(1) uv(1-3) m by (intro rep_merge) (auto simp: merged_def)
  ultimately show "rep b x \<in> LiveAcrossCalls (graph b)"
    using m a(2) uv(1) by (auto simp: merged_def closed_def rep_simps split: if_splits)
qed

lemma loop_inv_merged:
  assumes inv: "loop_inv g c a" and m: "merged a u v b"
    and uv: "u \<notin> coalescedNodes a" "v \<notin> coalescedNodes a" "u < v" "u \<in> Nodes g" "v \<in> Nodes g" "v \<notin> Edges (graph a) u"
  shows "loop_inv g c b"
proof -
  have "closed b" using inv m uv by (intro merged_closed [of a u v b]) (auto simp: loop_inv_def)
  moreover have b: "coalescedNodes b = insert v (coalescedNodes a)" "aliasOf b = (aliasOf a)(v := u)"
    "coloring b = coloring a" "worklistMoves b = worklistMoves a" "pool a \<subseteq> pool b" "wf_graph (graph b)"
    "Nodes (graph b) = Nodes (graph a)" and la: "LiveAcrossCalls (graph b) = LiveAcrossCalls (graph a) \<union>
      (if v \<in> LiveAcrossCalls (graph a) then {u} else {})"
    using m by (simp_all only: merged_def)
  moreover have e: "Edges (graph a) r \<subseteq> Edges (graph b) r" for r
    using m unfolding merged_def by blast
  moreover have "alias_ok b" using inv b(1,2,7) uv by (auto simp: loop_inv_def alias_ok_def extends_def)
  moreover have "extends g (graph b)"
    unfolding extends_def
  proof (intro conjI allI subsetI)
    fix r x assume "x \<in> Edges g r"
    with inv have "x \<in> Edges (graph a) r" by (auto simp: loop_inv_def extends_def)
    then show "x \<in> Edges (graph b) r" using e by blast
  qed (use inv b(7) la in \<open>auto simp: loop_inv_def extends_def\<close>)
  ultimately show ?thesis using inv by (simp add: loop_inv_def) blast
qed

lemma loop_inv_coalesce:
  assumes inv: "loop_inv g c a" and ne: "worklistMoves a \<noteq> []" and enum: "lists enum"
  shows "\<exists>b. coalesce enum a = Some b \<and> loop_inv g c b"
proof -
  let ?m = "last (worklistMoves a)" and ?a = "a\<lparr>worklistMoves := butlast (worklistMoves a)\<rparr>"
  have inv': "loop_inv g c ?a"
    using inv by (rule loop_inv_cong) (auto simp: pool_def coloring_def dest: in_set_butlastD)
  then have ok: "alias_ok ?a" "wf_graph (graph ?a)" "finite (Nodes (graph ?a))" "Nodes (graph ?a) = Nodes g"
    by (auto simp: loop_inv_def alias_ok_def extends_def)
  have "fst ?m \<in> Nodes g" "snd ?m \<in> Nodes g" using inv ne by (auto simp: loop_inv_def)
  with rep_props [OF ok(1)] ok(4) have n: "rep ?a (fst ?m) \<in> Nodes g" "rep ?a (snd ?m) \<in> Nodes g"
    "rep ?a (fst ?m) \<notin> coalescedNodes ?a" "rep ?a (snd ?m) \<notin> coalescedNodes ?a" by auto
  define u where "u = min (rep ?a (fst ?m)) (rep ?a (snd ?m))"
  define v where "v = max (rep ?a (fst ?m)) (rep ?a (snd ?m))"
  have uv: "(if rep ?a (fst ?m) < rep ?a (snd ?m) then (rep ?a (fst ?m), rep ?a (snd ?m))
      else (rep ?a (snd ?m), rep ?a (fst ?m))) = (u, v)"
    by (auto simp: u_def v_def)
  have n': "u \<in> Nodes g" "v \<in> Nodes g" "u \<notin> coalescedNodes ?a" "v \<notin> coalescedNodes ?a" "u \<le> v"
    using n by (auto simp: u_def v_def min_def max_def)
  let ?co = "?a\<lparr>coalescedMoves := coalescedMoves ?a @ [?m]\<rparr>"
  have co: "loop_inv g c ?co" by (rule loop_inv_kept [OF inv' kept_frozen(3)])
  have "loop_inv g c (combine enum u v ?co)" if "u \<noteq> v" "\<not> HasEdge (graph ?a) u v"
  proof (rule loop_inv_merged [OF co])
    show "merged ?co u v (combine enum u v ?co)"
      by (rule combine_merged) (use ok enum n' in simp_all)
  qed (use that n' in \<open>simp_all add: HasEdge_def\<close>)
  then show ?thesis
    unfolding coalesce_def Let_def getAlias_rep [OF ok(1)] bind.bind_lunit uv prod.case
    using inv' co
    by (auto intro: loop_inv_kept [OF _ kept_addToWorklist] loop_inv_kept [OF _ kept_frozen(4)] loop_inv_kept [OF _ kept_frozen(2)])
qed

lemmas main_loop_induct = main_loop.raw_induct [rotated, consumes 1, case_names step]

lemma main_loop_inv:
  assumes "main_loop enum a = Some b" and "lists enum" and "loop_inv g c a"
  shows "loop_inv g c b \<and> simplifyWorklist b = [] \<and> worklistMoves b = [] \<and> freezeWorklist b = [] \<and> spillWorklist b = []"
  using assms
proof (induction rule: main_loop_induct)
  case (step loop enum a b)
  from step.hyps step.prems show ?case
    using loop_inv_simplify [OF step.prems(2), of enum] loop_inv_coalesce [OF step.prems(2) _ step.prems(1)]
      loop_inv_freeze [OF step.prems(2)] loop_inv_selectSpill [OF step.prems(2)] step.IH [of enum _ b]
    by (auto split: if_splits)
qed

end
