(* ===== verification/Coloring.thy ===== *)
theory Coloring
  imports AllocSound
begin

text \<open>
  The coloring phase of the allocator (\<open>assignColors\<close>, \<open>buildResult\<close>) and the soundness of its result:
  when the main loop is done and no parameter with a fixed location was coalesced, put on the
  stack or found to be live across a call, interfering registers get separate locations and
  registers that are live across calls get locations that survive them.
\<close>

section \<open>What a color or a slot stands for\<close>

text \<open>The places that a register has obtained, and those of them that are its own slot.\<close>

definition slot_place :: "allocator \<Rightarrow> reg \<Rightarrow> loc \<Rightarrow> bool" where
  "slot_place b r l \<longleftrightarrow> r \<in> spilledNodes b \<and> l = S SlotLocal (spillSlot b r) Tlong"

definition place :: "allocator \<Rightarrow> reg \<Rightarrow> loc \<Rightarrow> bool" where
  "place b r l \<longleftrightarrow> slot_place b r l \<or> (r \<in> coloredNodes b \<and> l = R (AllocatableIntRegs ! colors b r)) \<or>
     precoloredParams b r = Some l"

text \<open>The fields that the coloring phase reads only.\<close>

definition fixed where
  "fixed b = (graph b, coalescedNodes b, aliasOf b, K b, precoloredParams b)"

definition colors_ok :: "allocator \<Rightarrow> bool" where
  "colors_ok b \<longleftrightarrow> K b = NumAllocatableIntRegs \<and>
     (\<forall>x\<in>coloredNodes b - coalescedNodes b. colors b x < NumAllocatableIntRegs \<and>
        (x \<in> LiveAcrossCalls (graph b) \<longrightarrow> FirstCalleeSavedColor \<le> colors b x) \<and>
        (\<forall>y\<in>Edges (graph b) x. y \<in> coloredNodes b - coalescedNodes b \<longrightarrow> colors b x \<noteq> colors b y))"

definition slots_ok :: "allocator \<Rightarrow> bool" where
  "slots_ok b \<longleftrightarrow> inj_on (spillSlot b) (spilledNodes b) \<and> 8 dvd nextSpillSlot b \<and>
     (\<forall>x\<in>spilledNodes b. 8 dvd spillSlot b x \<and> spillSlot b x < nextSpillSlot b)"

text \<open>
  The parameters with fixed locations: in different places, in argument registers or stack slots of
  the caller, and colored accordingly.
\<close>

definition params_ok :: "allocator \<Rightarrow> bool" where
  "params_ok b \<longleftrightarrow> dom (precoloredParams b) \<inter> (coalescedNodes b \<union> LiveAcrossCalls (graph b)) = {} \<and>
     (\<forall>p l. precoloredParams b p = Some l \<longrightarrow>
        (p \<in> coloredNodes b \<and> l = R (AllocatableIntRegs ! colors b p)) \<or> (\<exists>k. l = S SlotIncoming (8 * k) Tlong)) \<and>
     (\<forall>p q k. precoloredParams b p = Some (S SlotIncoming k Tlong) \<longrightarrow> precoloredParams b q = Some (S SlotIncoming k Tlong) \<longrightarrow> p = q)"

definition color_inv :: "allocator \<Rightarrow> bool" where
  "color_inv b \<longleftrightarrow> wf_graph (graph b) \<and> alias_ok b \<and> closed b \<and> colors_ok b \<and> slots_ok b \<and> params_ok b"


lemma set_range_of: "lists enum \<Longrightarrow> finite s \<Longrightarrow> set (range_of enum s a) = s"
  by (simp add: range_of_def lists_def)

section \<open>Assigning colors\<close>

lemma used_colors_eq:
  assumes "alias_ok b"
  shows "used_colors b ns = Some (colors b ` ({rep b n |n. n \<in> set ns} \<inter> coloredNodes b))"
  by (induction ns) (auto simp: getAlias_rep [OF assms])

lemma wf_graph_sym: "wf_graph g \<Longrightarrow> y \<in> Edges g x \<Longrightarrow> x \<in> Edges g y \<and> x \<noteq> y"
  unfolding wf_graph_def edges.symmetric_def by blast

lemma wf_graph_finite: "wf_graph g \<Longrightarrow> finite (Nodes g) \<Longrightarrow> finite (Edges g r)"
  unfolding wf_graph_def using finite_subset by blast

lemma assign_one_cases:
  assumes "alias_ok b" and "lists enum" and "finite (Edges (graph b) r)" and "assign_one enum r b = Some b'"
  defines "used \<equiv> colors b ` ({rep b n |n. n \<in> Edges (graph b) r} \<inter> coloredNodes b)"
    and "start \<equiv> if r \<in> LiveAcrossCalls (graph b) then FirstCalleeSavedColor else 0"
  obtains (color) c where "c \<notin> used" "start \<le> c" "c < K b"
      "b' = tick b\<lparr>coloredNodes := insert r (coloredNodes b), colors := (colors b)(r := c)\<rparr>"
    | (spill) "b' = tick b\<lparr>spilledNodes := insert r (spilledNodes b), spillSlot := (spillSlot b)(r := nextSpillSlot b),
        nextSpillSlot := nextSpillSlot b + 8\<rparr>"
proof -
  have ns: "set (range_of enum (Edges (graph b) r) b) = Edges (graph b) r"
    using assms(2,3) by (simp add: range_of_def lists_def)
  have b': "b' = (case find (\<lambda>c. c \<notin> used) [start..<K b] of
       Some c \<Rightarrow> tick b\<lparr>coloredNodes := insert r (coloredNodes b), colors := (colors b)(r := c)\<rparr>
     | None \<Rightarrow> tick b\<lparr>spilledNodes := insert r (spilledNodes b), spillSlot := (spillSlot b)(r := nextSpillSlot b),
        nextSpillSlot := nextSpillSlot b + 8\<rparr>)"
    using assms(4) unfolding assign_one_def used_colors_eq [OF assms(1)] ns used_def start_def
    by (simp add: tick_def Let_def cong: option.case_cong)
  show thesis
  proof (cases "find (\<lambda>c. c \<notin> used) [start..<K b]")
    case (Some c)
    then have "c \<notin> used" "start \<le> c" "c < K b" by (auto simp: find_Some_iff)
    with color b' Some show thesis by simp
  qed (use spill b' in simp)
qed

lemma color_inv_fields:
  assumes "color_inv b" and "fixed b' = fixed b" and "colors_ok b'" "slots_ok b'" "params_ok b'"
  shows "color_inv b'"
proof -
  have "rep b' = rep b" using assms(1,2) by (auto simp: color_inv_def fixed_def intro!: rep_cong)
  with assms show ?thesis by (simp add: color_inv_def fixed_def closed_def alias_ok_def)
qed

lemma inj_on_upd_insert: "inj_on f A \<Longrightarrow> y \<notin> f ` A \<Longrightarrow> inj_on (f(x := y)) (insert x A)"
  unfolding inj_on_def by (intro ballI impI) (auto split: if_splits)

lemma assign_one_color_inv:
  assumes inv: "color_inv b" and enum: "lists enum" and r: "precoloredParams b r = None"
    and step: "assign_one enum r b = Some b'"
  shows "color_inv b' \<and> fixed b' = fixed b \<and>
    coloredNodes b' \<union> spilledNodes b' = insert r (coloredNodes b \<union> spilledNodes b)"
proof -
  have ok: "alias_ok b" "colors_ok b" "slots_ok b" "params_ok b" and wf: "wf_graph (graph b)" using inv by (simp_all add: color_inv_def)
  then have fin: "finite (Edges (graph b) r)" by (simp add: alias_ok_def wf_graph_finite)
  note sym = wf_graph_sym [OF wf]
  from ok(1) enum fin step show ?thesis
  proof (cases rule: assign_one_cases)
    case (color c)
    have new: "colors b y \<noteq> c" if "y \<in> Edges (graph b) r" "y \<in> coloredNodes b - coalescedNodes b" for y
    proof -
      have "rep b y = y" using that by (simp add: rep_simps)
      with that color(1) show ?thesis by force
    qed
    have K: "K b = 27" using ok(2) by (simp add: colors_ok_def)
    have "colors_ok b'"
      using ok(2) color(2,3) new sym unfolding colors_ok_def color(4) tick_def by auto
    moreover have "slots_ok b'" "params_ok b'"
      using ok(3,4) r unfolding slots_ok_def params_ok_def color(4) tick_def by auto
    moreover have "fixed b' = fixed b" by (simp add: color(4) fixed_def tick_def)
    moreover have "coloredNodes b' \<union> spilledNodes b' = insert r (coloredNodes b \<union> spilledNodes b)"
      by (simp add: color(4) tick_def)
    ultimately show ?thesis using color_inv_fields [OF inv] by blast
  next
    case spill
    have slots: "inj_on (spillSlot b) (spilledNodes b)" "nextSpillSlot b \<notin> spillSlot b ` spilledNodes b" "8 dvd nextSpillSlot b"
      "\<forall>x\<in>spilledNodes b. 8 dvd spillSlot b x \<and> spillSlot b x < nextSpillSlot b"
      using ok(3) by (auto simp: slots_ok_def)
    from inj_on_upd_insert [OF slots(1,2)] slots(3,4) have "slots_ok b'"
      unfolding slots_ok_def spill tick_def by (simp add: fun_upd_apply) (use slots(4) in fastforce)
    moreover have "colors_ok b'" "params_ok b'"
      using ok(2,4) unfolding colors_ok_def params_ok_def spill tick_def by auto
    moreover have "fixed b' = fixed b" by (simp add: spill fixed_def tick_def)
    moreover have "coloredNodes b' \<union> spilledNodes b' = insert r (coloredNodes b \<union> spilledNodes b)"
      by (simp add: spill tick_def)
    ultimately show ?thesis using color_inv_fields [OF inv] by blast
  qed
qed

lemma assign_one_total: "alias_ok b \<Longrightarrow> \<exists>b'. assign_one enum r b = Some b'"
  by (simp add: assign_one_def used_colors_eq)

lemma assign_stack_color_inv:
  assumes "color_inv b" and "lists enum" and "set rs \<inter> dom (precoloredParams b) = {}"
  shows "\<exists>b'. assign_stack enum rs b = Some b' \<and> color_inv b' \<and> fixed b' = fixed b \<and>
    coloredNodes b' \<union> spilledNodes b' = set rs \<union> coloredNodes b \<union> spilledNodes b"
  using assms
proof (induction rs arbitrary: b)
  case (Cons r rs)
  from Cons.prems(1) obtain b1 where b1: "assign_one enum r b = Some b1"
    using assign_one_total [of b enum r] by (auto simp: color_inv_def)
  have "precoloredParams b r = None" using Cons.prems(3) by auto
  from assign_one_color_inv [OF Cons.prems(1,2) this b1] have b1': "color_inv b1" "fixed b1 = fixed b"
    "coloredNodes b1 \<union> spilledNodes b1 = insert r (coloredNodes b \<union> spilledNodes b)" by auto
  moreover from b1'(2) have "precoloredParams b1 = precoloredParams b" "graph b1 = graph b" by (simp_all add: fixed_def)
  ultimately have "\<exists>b'. assign_stack enum rs b1 = Some b' \<and> color_inv b' \<and> fixed b' = fixed b1 \<and>
      coloredNodes b' \<union> spilledNodes b' = set rs \<union> coloredNodes b1 \<union> spilledNodes b1"
    using Cons.prems by (intro Cons.IH) auto
  with b1 b1' show ?case by auto
qed auto


section \<open>Coalesced registers\<close>

text \<open>What the allocator knows of one register: its fixed location, its color and its slot.\<close>

definition view :: "allocator \<Rightarrow> reg \<Rightarrow> loc option \<times> nat option \<times> int option" where
  "view b x = (precoloredParams b x, if x \<in> coloredNodes b then Some (colors b x) else None,
     if x \<in> spilledNodes b then Some (spillSlot b x) else None)"

fun copy_view where
  "copy_view (pa, Some k, sa) (p, c, s) = (p, Some k, s)"
| "copy_view (pa, None, Some ofs) (p, c, s) = (p, c, Some ofs)"
| "copy_view (Some l, None, None) (p, c, s) = (Some l, c, s)"
| "copy_view (None, None, None) (p, c, s) = (p, c, s)"

definition loc_view :: "loc option \<times> nat option \<times> int option \<Rightarrow> loc option" where
  "loc_view v = (case v of
     (Some l, _) \<Rightarrow> Some l
   | (None, _, Some ofs) \<Rightarrow> Some (S SlotLocal ofs Tlong)
   | (None, Some c, None) \<Rightarrow> if c < length AllocatableIntRegs then Some (R (AllocatableIntRegs ! c)) else None
   | (None, None, None) \<Rightarrow> None)"

lemma RegToLoc_view: "RegToLoc (buildResult b) x = loc_view (view b x)"
  by (auto simp: buildResult_def loc_view_def view_def split: option.splits)

lemma copy_view_idem: "copy_view v (copy_view v w) = copy_view v w"
  by (cases "(v, w)" rule: copy_view.cases) auto

lemma copy_color_view:
  assumes "alias_ok b" and "copy_color r b = Some b'"
  shows "view b' = (view b)(r := copy_view (view b (rep b r)) (view b r))"
    and "coalescedNodes b' = coalescedNodes b" "aliasOf b' = aliasOf b" "graph b' = graph b"
    "nextSpillSlot b' = nextSpillSlot b"
proof -
  let ?al = "rep b r"
  consider (colored) "?al \<in> coloredNodes b" "b' = b\<lparr>colors := (colors b)(r := colors b ?al), coloredNodes := insert r (coloredNodes b)\<rparr>"
    | (spilled) "?al \<notin> coloredNodes b" "?al \<in> spilledNodes b"
        "b' = b\<lparr>spilledNodes := insert r (spilledNodes b), spillSlot := (spillSlot b)(r := spillSlot b ?al)\<rparr>"
    | (pre) l where "?al \<notin> coloredNodes b" "?al \<notin> spilledNodes b" "precoloredParams b ?al = Some l"
        "b' = b\<lparr>precoloredParams := (precoloredParams b)(r \<mapsto> l)\<rparr>"
    | (none) "?al \<notin> coloredNodes b" "?al \<notin> spilledNodes b" "precoloredParams b ?al = None" "b' = b"
    using assms(2) unfolding copy_color_def getAlias_rep [OF assms(1)]
    by (cases "precoloredParams b ?al") (auto split: if_splits)
  then show "view b' = (view b)(r := copy_view (view b ?al) (view b r))"
    by cases (simp_all add: view_def fun_eq_iff)
  show "coalescedNodes b' = coalescedNodes b" "aliasOf b' = aliasOf b" "graph b' = graph b" "nextSpillSlot b' = nextSpillSlot b"
    using assms(2) by (auto simp: copy_color_def split: if_splits)
qed

lemma copy_color_total: "alias_ok b \<Longrightarrow> \<exists>b'. copy_color r b = Some b'"
  by (simp add: copy_color_def getAlias_rep)

lemma copy_colors_view:
  assumes "alias_ok b" and "set rs \<subseteq> coalescedNodes b"
  shows "\<exists>b'. copy_colors rs b = Some b' \<and> nextSpillSlot b' = nextSpillSlot b \<and>
    (\<forall>x. view b' x = (if x \<in> set rs then copy_view (view b (rep b x)) (view b x) else view b x))"
  using assms
proof (induction rs arbitrary: b)
  case (Cons r rs)
  obtain b1 where b1: "copy_color r b = Some b1" using copy_color_total [OF Cons.prems(1)] by blast
  note v = copy_color_view [OF Cons.prems(1) b1]
  have ok: "alias_ok b1" using Cons.prems(1) v(2-4) by (simp add: alias_ok_def)
  have rep: "rep b1 = rep b" using Cons.prems(1) v(2,3) by (auto intro: rep_cong)
  have reps: "rep b x \<noteq> r" for x using rep_props(1) [OF Cons.prems(1), of x] Cons.prems(2) by auto
  from Cons.IH [OF ok] Cons.prems(2) v(2) obtain b' where b': "copy_colors rs b1 = Some b'" "nextSpillSlot b' = nextSpillSlot b1"
    "\<forall>x. view b' x = (if x \<in> set rs then copy_view (view b1 (rep b1 x)) (view b1 x) else view b1 x)" by auto
  have "view b' x = (if x \<in> set (r # rs) then copy_view (view b (rep b x)) (view b x) else view b x)" for x
    using b'(3) reps by (simp add: v(1) rep copy_view_idem)
  with b1 b'(1,2) v(5) show ?case by auto
qed simp

section \<open>Locations of the result\<close>

lemma length_AllocatableIntRegs [simp]: "length AllocatableIntRegs = 27"
  by (simp add: AllocatableIntRegs_def)

lemma AllocatableIntRegs_inject: "i < 27 \<Longrightarrow> j < 27 \<Longrightarrow> AllocatableIntRegs ! i = AllocatableIntRegs ! j \<longleftrightarrow> i = j"
  by (rule nth_eq_iff_index_eq) (simp_all add: AllocatableIntRegs_def)

lemma AllocatableIntRegs_callee: "17 \<le> i \<Longrightarrow> i < 27 \<Longrightarrow> IsCalleeSaved (AllocatableIntRegs ! i)"
proof -
  have "\<forall>i<27. 17 \<le> i \<longrightarrow> IsCalleeSaved (AllocatableIntRegs ! i)"
    by (simp add: All_less_Suc numeral_eq_Suc AllocatableIntRegs_def IsCalleeSaved_iff)
  then show "17 \<le> i \<Longrightarrow> i < 27 \<Longrightarrow> IsCalleeSaved (AllocatableIntRegs ! i)" by simp
qed

lemma place_view:
  assumes "color_inv b" and "x \<notin> coalescedNodes b" and "x \<in> coloredNodes b \<union> spilledNodes b \<union> dom (precoloredParams b)"
  shows "\<exists>l. loc_view (view b x) = Some l \<and> place b x l"
  using assms by (auto simp: color_inv_def colors_ok_def loc_view_def view_def place_def slot_place_def split: option.splits)

lemma place_copied:
  assumes inv: "color_inv b" and x: "x \<in> coalescedNodes b"
    and rep: "rep b x \<in> coloredNodes b \<union> spilledNodes b \<union> dom (precoloredParams b)"
  shows "\<exists>l. loc_view (copy_view (view b (rep b x)) (view b x)) = Some l \<and> (slot_place b x l \<or> place b (rep b x) l)"
proof -
  have "precoloredParams b x = None" "rep b x \<notin> coalescedNodes b"
    using inv x rep_props(1) [of b x] by (auto simp: color_inv_def params_ok_def)
  with inv rep show ?thesis
    by (auto simp: color_inv_def colors_ok_def loc_view_def view_def place_def slot_place_def split: option.splits)
qed


lemma place_kinds:
  assumes "color_inv b" and "place b x l"
  shows "(\<exists>m. l = R m) \<or> (\<exists>k. l = S SlotLocal (8 * k) Tlong) \<or> (\<exists>k. l = S SlotIncoming (8 * k) Tlong)"
  using assms unfolding color_inv_def slots_ok_def params_ok_def place_def slot_place_def dvd_def by blast

lemma kinds_overlap:
  assumes "(\<exists>m. l = R m) \<or> (\<exists>k. l = S SlotLocal (8 * k) Tlong) \<or> (\<exists>k. l = S SlotIncoming (8 * k) Tlong)"
    and "(\<exists>m. l' = R m) \<or> (\<exists>k. l' = S SlotLocal (8 * k) Tlong) \<or> (\<exists>k. l' = S SlotIncoming (8 * k) Tlong)"
  shows "\<not> overlap l l'"
  using assms by auto

lemma place_proper: "color_inv b \<Longrightarrow> place b x l \<Longrightarrow> proper_loc l"
  using place_kinds [of b x l] by auto

lemma slot_place_own:
  assumes "color_inv b" and "slot_place b x l" and "place b y l"
  shows "x = y"
  using assms unfolding color_inv_def slots_ok_def params_ok_def place_def slot_place_def inj_on_def by blast

lemma place_reg:
  assumes inv: "color_inv b" and x: "x \<notin> coalescedNodes b" and l: "place b x l"
  shows "(x \<in> coloredNodes b \<and> colors b x < 27 \<and> l = R (AllocatableIntRegs ! colors b x)) \<or> slot_place b x l \<or>
    (\<exists>k. precoloredParams b x = Some l \<and> l = S SlotIncoming (8 * k) Tlong)"
  using assms unfolding color_inv_def colors_ok_def params_ok_def place_def by blast

lemma place_neighbours:
  assumes inv: "color_inv b" and xy: "y \<in> Edges (graph b) x" "x \<notin> coalescedNodes b" "y \<notin> coalescedNodes b"
    and l: "place b x l" "place b y l"
  shows False
proof -
  have ne: "x \<noteq> y" using inv xy(1) wf_graph_sym by (auto simp: color_inv_def)
  consider "slot_place b x l \<or> slot_place b y l"
    | "x \<in> coloredNodes b" "y \<in> coloredNodes b" "colors b x < 27" "colors b y < 27"
      "AllocatableIntRegs ! colors b x = AllocatableIntRegs ! colors b y"
    | k where "precoloredParams b x = Some l" "precoloredParams b y = Some l" "l = S SlotIncoming (8 * k) Tlong"
    using place_reg [OF inv xy(2) l(1)] place_reg [OF inv xy(3) l(2)] by fastforce
  then show False
  proof cases
    case 1
    then show ?thesis using slot_place_own [OF inv] l ne by blast
  next
    case 2
    then have "colors b x = colors b y" by (simp add: AllocatableIntRegs_inject)
    with 2 xy inv show ?thesis by (auto simp: color_inv_def colors_ok_def)
  next
    case 3
    then show ?thesis using inv ne unfolding color_inv_def params_ok_def by blast
  qed
qed

text \<open>Locations that outlast a call: callee-saved registers and spill slots.\<close>

definition lasting :: "loc \<Rightarrow> bool" where
  "lasting l \<longleftrightarrow> (\<exists>m. l = R m \<and> IsCalleeSaved m) \<or> (\<exists>k. l = S SlotLocal (8 * k) Tlong)"

lemma lasting_survives: "lasting l \<Longrightarrow> survives_call l"
  by (auto simp: lasting_def)

lemma slot_place_lasting: "color_inv b \<Longrightarrow> slot_place b x l \<Longrightarrow> lasting l"
  by (auto simp: color_inv_def slots_ok_def slot_place_def lasting_def)

lemma place_lasting:
  assumes inv: "color_inv b" and x: "x \<notin> coalescedNodes b" "x \<in> LiveAcrossCalls (graph b)" and l: "place b x l"
  shows "lasting l"
proof -
  have "precoloredParams b x = None" using inv x by (auto simp: color_inv_def params_ok_def)
  with place_reg [OF inv x(1) l] show ?thesis
    using inv x AllocatableIntRegs_callee slot_place_lasting [OF inv]
    by (auto simp: color_inv_def colors_ok_def lasting_def)
qed

text \<open>The locations that \<open>assignColors\<close> and \<open>buildResult\<close> hand out.\<close>

definition located :: "allocator \<Rightarrow> allocationResult \<Rightarrow> bool" where
  "located b A \<longleftrightarrow> (\<forall>x\<in>Nodes (graph b). \<exists>l. RegToLoc A x = Some l \<and> (slot_place b x l \<or> place b (rep b x) l)) \<and>
     (\<forall>p l. precoloredParams b p = Some l \<longrightarrow> RegToLoc A p = Some l)"

lemma located_sound:
  assumes inv: "color_inv b" and loc: "located b A" and x: "x \<in> Nodes (graph b)"
  shows "proper_loc (loc_of A x)"
    and "y \<in> Nodes (graph b) \<Longrightarrow> \<not> overlap (loc_of A x) (loc_of A y)"
    and "y \<in> Edges (graph b) x \<Longrightarrow> loc_of A x \<noteq> loc_of A y"
    and "x \<in> LiveAcrossCalls (graph b) \<Longrightarrow> lasting (loc_of A x)"
proof -
  have own: "slot_place b x (loc_of A x) \<or> place b (rep b x) (loc_of A x)" if "x \<in> Nodes (graph b)" for x
    using loc that unfolding located_def loc_of_def by force
  have slot: "slot_place b x l \<Longrightarrow> place b x l" for x l by (simp add: place_def)
  have reps: "rep b x \<notin> coalescedNodes b" for x using inv rep_props(1) by (simp add: color_inv_def)
  have edge: "rep b y \<in> Edges (graph b) (rep b x)" if "y \<in> Edges (graph b) x" for x y
    using inv that by (simp add: color_inv_def closed_def)
  have sym: "x \<in> Edges (graph b) y \<and> x \<noteq> y" if "y \<in> Edges (graph b) x" for x y
    using inv wf_graph_sym that by (auto simp: color_inv_def)
  show "proper_loc (loc_of A x)" using own [OF x] slot place_proper [OF inv] by blast
  show "\<not> overlap (loc_of A x) (loc_of A y)" if "y \<in> Nodes (graph b)"
    using own [OF x] own [OF that] slot place_kinds [OF inv] by (intro kinds_overlap) blast+
  show "lasting (loc_of A x)" if "x \<in> LiveAcrossCalls (graph b)"
    using own [OF x] place_lasting [OF inv reps [of x]] slot_place_lasting [OF inv] that inv
    by (auto simp: color_inv_def closed_def)
  show "loc_of A x \<noteq> loc_of A y" if "y \<in> Edges (graph b) x"
  proof
    assume eq: "loc_of A x = loc_of A y"
    have y: "y \<in> Nodes (graph b)" using inv that unfolding color_inv_def wf_graph_def by blast
    have ne: "rep b x \<noteq> rep b y" "x \<noteq> y" using sym [OF edge [OF that]] sym [OF that] by auto
    then have "x \<noteq> rep b y" "y \<noteq> rep b x"
      using rep_idem [of b] inv by (metis color_inv_def)+
    with own [OF x] own [OF y] ne eq show False
      using slot_place_own [OF inv] slot place_neighbours [OF inv edge [OF that] reps reps] by metis
  qed
qed

lemma assignColors_located:
  assumes inv: "color_inv a" and enum: "lists enum"
    and stack: "set (selectStack a) \<inter> dom (precoloredParams a) = {}"
    and pool: "Nodes (graph a) \<subseteq> set (selectStack a) \<union> coalescedNodes a \<union> dom (precoloredParams a)"
  shows "\<exists>b b'. assignColors enum a = Some b' \<and> color_inv b \<and> fixed b = fixed a \<and> located b (buildResult b')"
proof -
  from assign_stack_color_inv [OF inv enum, of "rev (selectStack a)"] stack
  obtain b where b: "assign_stack enum (rev (selectStack a)) a = Some b" "color_inv b" "fixed b = fixed a"
    "coloredNodes b \<union> spilledNodes b = set (selectStack a) \<union> coloredNodes a \<union> spilledNodes a" by auto
  let ?b = "tick (b\<lparr>selectStack := []\<rparr>)" and ?rs = "range_of enum (coalescedNodes b) b"
  have rep: "rep ?b = rep b" using b(2) by (intro ext rep_cong) (simp_all add: tick_def color_inv_def)
  have view: "view ?b = view b" by (simp add: view_def tick_def fun_eq_iff)
  have "finite (coalescedNodes b)" using b(2) by (auto simp: color_inv_def alias_ok_def intro: finite_subset)
  then have rs: "set ?rs = coalescedNodes b" using enum by (simp add: range_of_def lists_def)
  have "alias_ok ?b" using b(2) by (simp add: color_inv_def alias_ok_def tick_def)
  from copy_colors_view [OF this, of ?rs, unfolded rep view rs] obtain b' where b': "copy_colors ?rs ?b = Some b'"
    "\<forall>x. view b' x = (if x \<in> coalescedNodes b then copy_view (view b (rep b x)) (view b x) else view b x)"
    by auto
  have "located b (buildResult b')"
    unfolding located_def RegToLoc_view
  proof (intro conjI allI impI ballI)
    fix p l assume p: "precoloredParams b p = Some l"
    then have "p \<notin> coalescedNodes b" using b(2) by (auto simp: color_inv_def params_ok_def)
    with b'(2) p show "loc_view (view b' p) = Some l" by (simp add: loc_view_def view_def)
  next
    fix x assume x: "x \<in> Nodes (graph b)"
    have r: "rep b x \<notin> coalescedNodes b" "rep b x \<in> Nodes (graph b)" using b(2) x rep_props [of b x] by (auto simp: color_inv_def)
    with b(3,4) pool have "rep b x \<in> coloredNodes b \<union> spilledNodes b \<union> dom (precoloredParams b)"
      by (auto simp: fixed_def)
    with place_view [OF b(2) r(1)] place_copied [OF b(2), of x] b'(2)
    show "\<exists>l. loc_view (view b' x) = Some l \<and> (slot_place b x l \<or> place b (rep b x) l)"
      by (cases "x \<in> coalescedNodes b") (auto simp: rep_simps)
  qed
  with b b'(1) show ?thesis by (auto simp: assignColors_def)
qed


section \<open>The state that the main loop starts from\<close>

lemma fold_params:
  assumes "distinct ps"
  shows "fold (\<lambda>(i, param) m. if param \<in> L then m else m(param \<mapsto> ArgLocation i False)) (enumerate k ps) m p = Some l \<longleftrightarrow>
    (\<exists>i<length ps. ps ! i = p \<and> p \<notin> L \<and> l = ArgLocation (k + i) False) \<or> ((p \<notin> set ps \<or> p \<in> L) \<and> m p = Some l)"
  using assms
proof (induction ps arbitrary: k m)
  case (Cons q ps)
  have "(\<exists>i<length (q # ps). (q # ps) ! i = p \<and> p \<notin> L \<and> l = ArgLocation (k + i) False) \<longleftrightarrow>
      (q = p \<and> p \<notin> L \<and> l = ArgLocation k False) \<or>
      (\<exists>i<length ps. ps ! i = p \<and> p \<notin> L \<and> l = ArgLocation (Suc k + i) False)"
    by (simp add: Ex_less_Suc2)
  moreover have "\<not> (\<exists>i<length ps. ps ! i = p)" if "q = p" using that Cons.prems by (auto simp: in_set_conv_nth)
  ultimately show ?case using Cons by auto
qed simp

lemma NewAllocator_params:
  assumes "distinct (rtl_params f)"
  shows "precoloredParams (NewAllocator f g) p = Some l \<longleftrightarrow>
    (\<exists>i<length (rtl_params f). rtl_params f ! i = p \<and> p \<notin> LiveAcrossCalls g \<and> l = ArgLocation i False)"
  unfolding NewAllocator_def allocator.simps fold_params [OF assms] by simp

lemma color_of_arg: "i < 8 \<Longrightarrow> color_of (IntArgRegs ! i) = Some i"
proof -
  have "\<forall>i<8. color_of (IntArgRegs ! i) = Some i" by code_simp
  then show "i < 8 \<Longrightarrow> color_of (IntArgRegs ! i) = Some i" by simp
qed

definition arg_color :: "(reg \<rightharpoonup> loc) \<Rightarrow> reg \<rightharpoonup> nat" where
  "arg_color pre p = (case pre p of Some (R m) \<Rightarrow> color_of m | _ \<Rightarrow> None)"

lemma fold_precolor:
  "\<exists>c. fold precolor rs a = a\<lparr>colors := c, coloredNodes := coloredNodes a \<union> (set rs \<inter> dom (arg_color (precoloredParams a)))\<rparr> \<and>
     (\<forall>p\<in>set rs. \<forall>i. arg_color (precoloredParams a) p = Some i \<longrightarrow> c p = i) \<and> (\<forall>p. p \<notin> set rs \<longrightarrow> c p = colors a p)"
proof (induction rs arbitrary: a)
  case (Cons r rs)
  show ?case
  proof (cases "arg_color (precoloredParams a) r")
    case None
    then have "precolor r a = a" by (simp add: precolor_def arg_color_def split: option.splits loc.splits)
    with Cons [of a] None show ?thesis by (auto simp: Int_insert_left)
  next
    case (Some i)
    then have r: "precolor r a = a\<lparr>colors := (colors a)(r := i), coloredNodes := insert r (coloredNodes a)\<rparr>"
      by (auto simp: precolor_def arg_color_def split: option.splits loc.splits)
    from Cons [of "precolor r a"] obtain c where c: "fold precolor rs (precolor r a) =
        (precolor r a)\<lparr>colors := c, coloredNodes := coloredNodes (precolor r a) \<union> (set rs \<inter> dom (arg_color (precoloredParams (precolor r a))))\<rparr>"
      "\<forall>p\<in>set rs. \<forall>i. arg_color (precoloredParams (precolor r a)) p = Some i \<longrightarrow> c p = i"
      "\<forall>p. p \<notin> set rs \<longrightarrow> c p = colors (precolor r a) p" by blast
    have "c r = i" using c(2,3) Some by (cases "r \<in> set rs") (simp_all add: r)
    with c Some show ?thesis by (intro exI [of _ c]) (simp add: r Int_insert_left domI)
  qed
next
  case (Nil a)
  show ?case by (intro exI [of _ "colors a"]) simp
qed

lemma kept_categorize: "kept a (categorize r a)" "r \<in> pool (categorize r a)"
proof -
  have "kept a (a\<lparr>spillWorklist := spillWorklist a @ [r]\<rparr>)" "kept a (a\<lparr>freezeWorklist := freezeWorklist a @ [r]\<rparr>)"
    "kept a (a\<lparr>simplifyWorklist := simplifyWorklist a @ [r]\<rparr>)"
    by (auto simp: kept_def core_def coloring_def pool_def)
  then show "kept a (categorize r a)" by (simp add: categorize_def)
  show "r \<in> pool (categorize r a)" by (auto simp: categorize_def pool_def)
qed

lemma fold_categorize: "kept a (fold categorize rs a) \<and> set rs \<subseteq> pool (fold categorize rs a)"
proof (induction rs arbitrary: a)
  case (Cons r rs)
  from Cons [of "categorize r a"] kept_categorize [where a = a and r = r] show ?case
    by (auto intro: kept_trans simp: kept_def)
qed simp

text \<open>Collecting moves changes nothing but the clock and the worklist of moves.\<close>

lemma collect_moves_eq:
  assumes "lists enum" and "finite (Preferences (graph a) r)"
  shows "\<exists>ms k. collect_moves enum r a = a\<lparr>worklistMoves := worklistMoves a @ ms, clock := k\<rparr> \<and>
    set ms \<subseteq> {(r, p) |p. p \<in> Preferences (graph a) r}"
proof -
  have "\<exists>ms. fold (\<lambda>p a. if r < p then a\<lparr>worklistMoves := worklistMoves a @ [(r, p)]\<rparr> else a) ps b =
      b\<lparr>worklistMoves := worklistMoves b @ ms\<rparr> \<and> set ms \<subseteq> Pair r ` set ps" for ps b
  proof (induction ps arbitrary: b)
    case (Cons p ps)
    from Cons [of "if r < p then b\<lparr>worklistMoves := worklistMoves b @ [(r, p)]\<rparr> else b"] obtain ms where
      "fold (\<lambda>p a. if r < p then a\<lparr>worklistMoves := worklistMoves a @ [(r, p)]\<rparr> else a) (p # ps) b =
         b\<lparr>worklistMoves := worklistMoves b @ (if r < p then (r, p) # ms else ms)\<rparr>" "set ms \<subseteq> Pair r ` set ps"
      by (cases "r < p") auto
    then show ?case by (intro exI [of _ "if r < p then (r, p) # ms else ms"]) auto
  qed (simp add: exI [of _ "[]"])
  from this [of "range_of enum (Preferences (graph a) r) a" "tick a"] obtain ms where
    ms: "collect_moves enum r a = (tick a)\<lparr>worklistMoves := worklistMoves (tick a) @ ms\<rparr>"
    "set ms \<subseteq> Pair r ` set (range_of enum (Preferences (graph a) r) a)" unfolding collect_moves_def by blast
  have "set ms \<subseteq> {(r, p) |p. p \<in> Preferences (graph a) r}"
    using ms(2) assms by (auto simp: range_of_def lists_def)
  with ms(1) show ?thesis by (intro exI [of _ ms] exI [of _ "Suc (clock a)"]) (simp add: tick_def)
qed

lemma fold_collect_moves:
  assumes "lists enum" and "\<And>r. finite (Preferences (graph a) r)"
  shows "\<exists>ms k. fold (collect_moves enum) rs a = a\<lparr>worklistMoves := worklistMoves a @ ms, clock := k\<rparr> \<and>
    set ms \<subseteq> {(r, p) |r p. p \<in> Preferences (graph a) r}"
  using assms(2)
proof (induction rs arbitrary: a)
  case (Cons r rs)
  from collect_moves_eq [OF assms(1) Cons.prems] obtain ms k where
    1: "collect_moves enum r a = a\<lparr>worklistMoves := worklistMoves a @ ms, clock := k\<rparr>"
    "set ms \<subseteq> {(r, p) |p. p \<in> Preferences (graph a) r}" by blast
  moreover from Cons.IH [of "collect_moves enum r a"] Cons.prems 1(1) obtain ms' k' where
    "fold (collect_moves enum) rs (collect_moves enum r a) =
       (collect_moves enum r a)\<lparr>worklistMoves := worklistMoves (collect_moves enum r a) @ ms', clock := k'\<rparr>"
    "set ms' \<subseteq> {(r, p) |r p. p \<in> Preferences (graph a) r}" by auto
  ultimately show ?case by (intro exI [of _ "ms @ ms'"] exI [of _ k']) auto
next
  case (Nil a)
  show ?case by (intro exI [of _ "[]"] exI [of _ "clock a"]) simp
qed

text \<open>The state before the main loop.\<close>

definition started :: "interferenceGraph \<Rightarrow> rtl_function \<Rightarrow> allocator \<Rightarrow> bool" where
  "started g f a \<longleftrightarrow> graph a = g \<and> coalescedNodes a = {} \<and> selectStack a = [] \<and> K a = NumAllocatableIntRegs \<and>
     spilledNodes a = {} \<and> nextSpillSlot a = 0 \<and> precoloredParams a = precoloredParams (NewAllocator f g) \<and>
     coloredNodes a = set (rtl_params f) \<inter> dom (arg_color (precoloredParams a)) \<and>
     (\<forall>p\<in>set (rtl_params f). \<forall>i. arg_color (precoloredParams a) p = Some i \<longrightarrow> colors a p = i) \<and>
     Nodes g \<subseteq> pool a \<and> (\<forall>m\<in>set (worklistMoves a). snd m \<in> Preferences g (fst m))"

text \<open>The allocator after its parameters got their colors, and after its registers were put on worklists.\<close>

definition precolored_state :: "enumeration \<Rightarrow> rtl_function \<Rightarrow> interferenceGraph \<Rightarrow> allocator" where
  "precolored_state enum f g = fold precolor (range_of enum (set (rtl_params f)) (NewAllocator f g)) (tick (NewAllocator f g))"

definition categorized_state :: "enumeration \<Rightarrow> rtl_function \<Rightarrow> interferenceGraph \<Rightarrow> allocator" where
  "categorized_state enum f g = (let b = precolored_state enum f g in fold categorize (range_of enum (Nodes g) b) (tick b))"

lemma precolored_fields:
  fixes f :: rtl_function and g :: interferenceGraph
  assumes "lists enum"
  defines "b \<equiv> precolored_state enum f g"
  shows "graph b = g" "coalescedNodes b = {}" "selectStack b = []" "K b = NumAllocatableIntRegs" "spilledNodes b = {}"
    "nextSpillSlot b = 0" "precoloredParams b = precoloredParams (NewAllocator f g)" "worklistMoves b = []"
    "simplifyWorklist b = []" "freezeWorklist b = []" "spillWorklist b = []" "activeMoves b = []"
    "coloredNodes b = set (rtl_params f) \<inter> dom (arg_color (precoloredParams (NewAllocator f g)))"
    "\<forall>p\<in>set (rtl_params f). \<forall>i. arg_color (precoloredParams (NewAllocator f g)) p = Some i \<longrightarrow> colors b p = i"
proof -
  let ?a = "NewAllocator f g" let ?rs = "range_of enum (set (rtl_params f)) ?a"
  have rs: "set ?rs = set (rtl_params f)" using assms by (simp add: set_range_of)
  obtain c where c: "b = (tick ?a)\<lparr>colors := c, coloredNodes := coloredNodes (tick ?a) \<union>
      (set ?rs \<inter> dom (arg_color (precoloredParams (tick ?a))))\<rparr>"
    "\<forall>p\<in>set (rtl_params f). \<forall>i. arg_color (precoloredParams (tick ?a)) p = Some i \<longrightarrow> c p = i"
    using fold_precolor [of ?rs "tick ?a"] rs unfolding b_def precolored_state_def by auto
  have t: "precoloredParams (tick ?a) = precoloredParams ?a" by (simp add: tick_def)
  show "\<forall>p\<in>set (rtl_params f). \<forall>i. arg_color (precoloredParams ?a) p = Some i \<longrightarrow> colors b p = i"
    "coloredNodes b = set (rtl_params f) \<inter> dom (arg_color (precoloredParams ?a))"
    using c(2) unfolding c(1) t rs by (simp_all add: tick_def NewAllocator_def)
  show "graph b = g" "coalescedNodes b = {}" "selectStack b = []" "K b = NumAllocatableIntRegs" "spilledNodes b = {}"
    "nextSpillSlot b = 0" "precoloredParams b = precoloredParams ?a" "worklistMoves b = []"
    "simplifyWorklist b = []" "freezeWorklist b = []" "spillWorklist b = []" "activeMoves b = []"
    unfolding c(1) by (simp_all add: tick_def NewAllocator_def)
qed

lemma categorized_kept:
  assumes enum: "lists enum" and fin: "finite (Nodes g)"
  shows "kept (precolored_state enum f g) (categorized_state enum f g)" "Nodes g \<subseteq> pool (categorized_state enum f g)"
proof -
  let ?b = "precolored_state enum f g"
  have "set (range_of enum (Nodes g) ?b) = Nodes g" using enum fin by (rule set_range_of)
  with fold_categorize [of "tick ?b" "range_of enum (Nodes g) ?b"] kept_trans [OF kept_tick]
  show "kept ?b (categorized_state enum f g)" "Nodes g \<subseteq> pool (categorized_state enum f g)"
    unfolding categorized_state_def Let_def by blast+
qed

lemma buildWorklists_form:
  assumes enum: "lists enum" and wf: "wf_graph g" and fin: "finite (Nodes g)"
  shows "\<exists>ms k. buildWorklists enum f (NewAllocator f g) = (categorized_state enum f g)\<lparr>worklistMoves := ms, clock := k\<rparr> \<and>
    (\<forall>m\<in>set ms. snd m \<in> Preferences g (fst m))"
proof -
  let ?d = "categorized_state enum f g"
  have d: "graph ?d = g" "worklistMoves ?d = []"
    using categorized_kept(1) [OF enum fin] precolored_fields [OF enum] by (simp_all add: kept_def core_def)
  have "finite (Preferences (graph (tick ?d)) r)" for r
    unfolding tick_eq d using wf fin by (intro finite_subset [of "Preferences g r" "Nodes g"]) (simp_all add: wf_graph_def)
  from fold_collect_moves [OF enum this, of "range_of enum (Nodes (graph ?d)) ?d"] obtain ms k where
    "fold (collect_moves enum) (range_of enum (Nodes (graph ?d)) ?d) (tick ?d) = (tick ?d)\<lparr>worklistMoves := worklistMoves (tick ?d) @ ms, clock := k\<rparr>"
    "set ms \<subseteq> {(r, p) |r p. p \<in> Preferences g r}"
    unfolding tick_eq d by blast
  moreover from this(1) have "buildWorklists enum f (NewAllocator f g) = ?d\<lparr>worklistMoves := ms, clock := k\<rparr>"
    using precolored_fields(1) [OF enum, of f g] d(2)
    by (simp add: buildWorklists_def Let_def categorized_state_def precolored_state_def tick_def)
  ultimately show ?thesis by (intro exI [of _ ms] exI [of _ k]) auto
qed

lemma buildWorklists_started:
  assumes enum: "lists enum" and wf: "wf_graph g" and fin: "finite (Nodes g)"
  shows "started g f (buildWorklists enum f (NewAllocator f g))"
proof -
  obtain ms k where a: "buildWorklists enum f (NewAllocator f g) = (categorized_state enum f g)\<lparr>worklistMoves := ms, clock := k\<rparr>"
    "\<forall>m\<in>set ms. snd m \<in> Preferences g (fst m)" using buildWorklists_form [OF assms] by blast
  have "pool (buildWorklists enum f (NewAllocator f g)) = pool (categorized_state enum f g)"
    "core (buildWorklists enum f (NewAllocator f g)) = core (precolored_state enum f g)"
    "worklistMoves (buildWorklists enum f (NewAllocator f g)) = ms"
    using categorized_kept(1) [OF enum fin, of f] by (simp_all add: a(1) pool_def kept_def core_def coloring_def)
  then show ?thesis
    using categorized_kept(2) [OF enum fin, of f] a(2) precolored_fields [OF enum, of f g]
    unfolding started_def core_def coloring_def by simp
qed

lemma wf_graph_Preferences: "wf_graph g \<Longrightarrow> y \<in> Preferences g x \<Longrightarrow> x \<in> Nodes g \<and> y \<in> Nodes g"
  unfolding wf_graph_def prefs.symmetric_def by blast

lemma started_loop_inv:
  assumes "started g f a" and "wf_graph g" "finite (Nodes g)"
  shows "loop_inv g (coloring a) a"
proof -
  have c: "coalescedNodes a = {}" and g: "graph a = g" using assms(1) by (simp_all add: started_def)
  then have "rep a x = x" for x by (simp add: rep_simps)
  then have "closed a" by (simp add: closed_def)
  moreover have "alias_ok a" using c g assms(3) by (simp add: alias_ok_def)
  moreover have "\<forall>m\<in>set (worklistMoves a). fst m \<in> Nodes g \<and> snd m \<in> Nodes g"
    using assms(1) wf_graph_Preferences [OF assms(2)] by (auto simp: started_def)
  ultimately show ?thesis using assms g by (simp add: loop_inv_def extends_def started_def)
qed


section \<open>Soundness\<close>

text \<open>No parameter with a fixed location was coalesced, colored again or found live across a call.\<close>

definition undisturbed :: "allocator \<Rightarrow> bool" where
  "undisturbed a \<longleftrightarrow> dom (precoloredParams a) \<inter>
     (coalescedNodes a \<union> set (selectStack a) \<union> LiveAcrossCalls (graph a)) = {}"

lemma ArgLocation_cases:
  "(\<exists>k<8. i = k \<and> ArgLocation i False = R (AllocatableIntRegs ! k) \<and> color_of (AllocatableIntRegs ! k) = Some k) \<or>
   (8 \<le> i \<and> ArgLocation i False = S SlotIncoming (8 * int (i - 8)) Tlong)"
proof (cases "i < 8")
  case True
  then have "IntArgRegs ! i = AllocatableIntRegs ! i"
    by (auto simp: IntArgRegs_def AllocatableIntRegs_def less_Suc_eq numeral_eq_Suc)
  with True color_of_arg [OF True] show ?thesis by (simp add: ArgLocation_def)
qed (simp add: ArgLocation_def)

lemma started_params:
  assumes s: "started g f a" and d: "distinct (rtl_params f)" and p: "precoloredParams a p = Some l"
  obtains i where "i < length (rtl_params f)" "rtl_params f ! i = p" "l = ArgLocation i False"
      "i < 8" "p \<in> coloredNodes a" "colors a p = i" "l = R (AllocatableIntRegs ! i)"
    | i where "i < length (rtl_params f)" "rtl_params f ! i = p" "l = S SlotIncoming (8 * int (i - 8)) Tlong" "8 \<le> i"
      "p \<notin> coloredNodes a"
proof -
  from p s obtain i where i: "i < length (rtl_params f)" "rtl_params f ! i = p" "l = ArgLocation i False"
    by (auto simp: started_def NewAllocator_params [OF d])
  then have mem: "p \<in> set (rtl_params f)" by auto
  from ArgLocation_cases [of i] show thesis
  proof
    assume "\<exists>k<8. i = k \<and> ArgLocation i False = R (AllocatableIntRegs ! k) \<and> color_of (AllocatableIntRegs ! k) = Some k"
    then have i8: "i < 8" "l = R (AllocatableIntRegs ! i)" "color_of (AllocatableIntRegs ! i) = Some i" using i(3) by auto
    then have "arg_color (precoloredParams a) p = Some i" using p by (simp add: arg_color_def)
    with s mem have "p \<in> coloredNodes a" "colors a p = i" by (auto simp: started_def)
    with that(1) i i8 show thesis by blast
  next
    assume "8 \<le> i \<and> ArgLocation i False = S SlotIncoming (8 * int (i - 8)) Tlong"
    then have i8: "8 \<le> i" "l = S SlotIncoming (8 * int (i - 8)) Tlong" using i(3) by auto
    then have "arg_color (precoloredParams a) p = None" using p by (simp add: arg_color_def)
    with s have "p \<notin> coloredNodes a" by (auto simp: started_def)
    with that(2) i i8 show thesis by blast
  qed
qed

lemma started_colored:
  assumes s: "started g f a" and d: "distinct (rtl_params f)" and x: "x \<in> coloredNodes a"
  shows "x \<in> dom (precoloredParams a)" and "colors a x < 8" and "colors a x < length (rtl_params f)"
    and "rtl_params f ! colors a x = x"
proof -
  from s x obtain l where l: "precoloredParams a x = Some l"
    by (auto simp: started_def arg_color_def split: option.splits)
  then show "x \<in> dom (precoloredParams a)" by blast
  from s d l have "colors a x < 8 \<and> colors a x < length (rtl_params f) \<and> rtl_params f ! colors a x = x"
    by (cases rule: started_params) (use x in auto)
  then show "colors a x < 8" "colors a x < length (rtl_params f)" "rtl_params f ! colors a x = x" by simp_all
qed

lemma loop_color_inv:
  assumes s: "started g f a0" and d: "distinct (rtl_params f)" and inv: "loop_inv g (coloring a0) a" and u: "undisturbed a"
  shows "color_inv a"
proof -
  have eq: "K a = K a0" "precoloredParams a = precoloredParams a0" "colors a = colors a0" "coloredNodes a = coloredNodes a0"
    "spillSlot a = spillSlot a0" "spilledNodes a = spilledNodes a0" "nextSpillSlot a = nextSpillSlot a0"
    using inv by (simp_all add: loop_inv_def coloring_def)
  note col = started_colored [OF s d]
  have diff: "colors a0 x \<noteq> colors a0 y" if "x \<in> coloredNodes a0" "y \<in> coloredNodes a0" "x \<noteq> y" for x y
    using col(4) [OF that(1)] col(4) [OF that(2)] that(3) by auto
  have "colors_ok a"
    unfolding colors_ok_def eq
  proof (intro conjI ballI impI)
    show "K a0 = NumAllocatableIntRegs" using s by (simp add: started_def)
    fix x assume x: "x \<in> coloredNodes a0 - coalescedNodes a"
    then show "colors a0 x < NumAllocatableIntRegs" using col(2) [of x] by simp
    show "FirstCalleeSavedColor \<le> colors a0 x" if "x \<in> LiveAcrossCalls (graph a)"
      using u col(1) [of x] x that by (auto simp: undisturbed_def eq)
    fix y assume "y \<in> Edges (graph a) x" "y \<in> coloredNodes a0 - coalescedNodes a"
    moreover from this have "x \<noteq> y" using inv wf_graph_sym by (auto simp: loop_inv_def)
    ultimately show "colors a0 x \<noteq> colors a0 y" using diff x by blast
  qed
  moreover have "slots_ok a" using s by (simp add: slots_ok_def eq started_def)
  moreover have "params_ok a"
    unfolding params_ok_def eq
  proof (intro conjI allI impI)
    show "dom (precoloredParams a0) \<inter> (coalescedNodes a \<union> LiveAcrossCalls (graph a)) = {}"
      using u by (auto simp: undisturbed_def eq)
    fix p l assume "precoloredParams a0 p = Some l"
    from started_params [OF s d this]
    show "p \<in> coloredNodes a0 \<and> l = R (AllocatableIntRegs ! colors a0 p) \<or> (\<exists>k. l = S SlotIncoming (8 * k) Tlong)" by metis
  next
    fix p q k assume "precoloredParams a0 p = Some (S SlotIncoming k Tlong)" "precoloredParams a0 q = Some (S SlotIncoming k Tlong)"
    then show "p = q" by (auto elim!: started_params [OF s d])
  qed
  ultimately show ?thesis using inv by (simp add: color_inv_def loop_inv_def)
qed


text \<open>Locations that respect the interference graph make a valid allocation.\<close>

lemma located_alloc_ok:
  assumes fin: "finite (dom (rtl_code f))" and ns: "set ns = dom (rtl_code f)" and enumG: "enum_ok enumG"
    and info: "info_for f info" and g: "g = BuildInterferenceGraph enumG ns f info"
    and inv: "color_inv b" and ext: "extends g (graph b)" and loc: "located b A"
  shows "alloc_ok f A"
  unfolding alloc_ok_def
proof (intro allI impI conjI ballI)
  note eq = BuildInterferenceGraph_eq [OF fin enumG ns info, folded g]
  have nodes: "Nodes (graph b) = GetAllRegisters f ns" using ext eq(1) by (simp add: extends_def)
  have edge: "y \<in> Edges (graph b) x" if "y \<in> Edges g x" for x y using ext that by (auto simp: extends_def)
  note sound = located_sound [OF inv loc]
  fix n i assume i: "rtl_code f n = Some i"
  then have regs: "instr_use i \<union> instr_def i \<subseteq> Nodes (graph b)"
    using ns unfolding nodes GetAllRegisters_eq by blast
  have out: "r \<in> Nodes (graph b)" if "live_out f n r" for r
    using live_out_universe [OF that] universe_registers [OF ns] nodes by auto
  show "proper_loc (loc_of A r)" if "r \<in> instr_use i \<union> instr_def i" for r using sound(1) regs that by blast
  fix d r
  show "\<not> overlap (loc_of A d) (loc_of A r)" if "d \<in> instr_def i" "live_out f n r" "r \<noteq> d"
    using sound(2) regs out that by blast
  show "isMoveSource i r" if "d \<in> instr_def i" "live_out f n r" "r \<noteq> d" "loc_of A d = loc_of A r"
  proof (rule ccontr)
    assume "\<not> isMoveSource i r"
    with i that have "r \<in> Edges g d" using eq(2) [of d r] by (auto simp: interferes_def HasEdge_def)
    with sound(3) [of d r] edge regs that show False by blast
  qed
  show "survives_call (loc_of A r)" if "isCall i" "live_out f n r" "r \<notin> instr_def i"
    using lasting_survives [OF sound(4) [OF out [OF that(2)]]] eq(3) [of r] i that ext by (auto simp: extends_def)
qed

text \<open>
  What a successful allocation promises: it is valid; parameters that are not live across a call
  stay where the calling convention puts them; what is live across a call survives it;
  used parameters share their location with no other register.
\<close>

definition across_call :: "rtl_function \<Rightarrow> reg \<Rightarrow> bool" where
  "across_call f r \<longleftrightarrow> (\<exists>n i. rtl_code f n = Some i \<and> isCall i \<and> live_out f n r)"

definition alloc_sound :: "rtl_function \<Rightarrow> node list \<Rightarrow> allocationResult \<Rightarrow> bool" where
  "alloc_sound f ns A \<longleftrightarrow> alloc_ok f A \<and>
     (\<forall>i<length (rtl_params f). \<not> across_call f (rtl_params f ! i) \<longrightarrow> loc_of A (rtl_params f ! i) = ArgLocation i False) \<and>
     (\<forall>r\<in>GetAllRegisters f ns. across_call f r \<longrightarrow> lasting (loc_of A r)) \<and>
     (\<forall>p r. used_param f p \<longrightarrow> r \<in> GetAllRegisters f ns \<longrightarrow> r \<noteq> p \<longrightarrow> apart (loc_of A p) (loc_of A r))"

lemma located_alloc_sound:
  assumes fin: "finite (dom (rtl_code f))" and ns: "set ns = dom (rtl_code f)" and enumG: "enum_ok enumG"
    and info: "info_for f info" and g: "g = BuildInterferenceGraph enumG ns f info" and params: "distinct (rtl_params f)"
    and inv: "color_inv b" and ext: "extends g (graph b)" and loc: "located b A"
    and pre: "precoloredParams b = precoloredParams (NewAllocator f g)"
  shows "alloc_sound f ns A"
  unfolding alloc_sound_def
proof (intro conjI allI impI ballI)
  note eq = BuildInterferenceGraph_eq [OF fin enumG ns info, folded g]
  note sound = located_sound [OF inv loc]
  have nodes: "Nodes (graph b) = GetAllRegisters f ns" using ext eq(1) by (simp add: extends_def)
  have across: "across_call f r \<longleftrightarrow> r \<in> LiveAcrossCalls g" for r using eq(3) by (simp add: across_call_def)
  show "alloc_ok f A" using located_alloc_ok [OF fin ns enumG info g inv ext loc] .
  show "loc_of A (rtl_params f ! i) = ArgLocation i False"
    if "i < length (rtl_params f)" "\<not> across_call f (rtl_params f ! i)" for i
    using NewAllocator_params [OF params, of g "rtl_params f ! i" "ArgLocation i False"] that loc
    by (auto simp: located_def loc_of_def pre across)
  show "lasting (loc_of A r)" if "r \<in> GetAllRegisters f ns" "across_call f r" for r
    using sound(4) [of r] that ext by (auto simp: nodes across extends_def)
  fix p r assume p: "used_param f p" "r \<in> GetAllRegisters f ns" "r \<noteq> p"
  then have pn: "p \<in> Nodes (graph b)" by (auto simp: used_param_def GetAllRegisters_eq nodes)
  have "r \<in> Edges g p" using eq(2) [of p r] p by (simp add: HasEdge_def)
  then have "r \<in> Edges (graph b) p" using ext by (auto simp: extends_def)
  then show "apart (loc_of A p) (loc_of A r)"
    using sound(2) [of p r] sound(2) [of r p] sound(3) [OF pn, of r] p pn by (simp add: apart_def nodes)
qed

text \<open>The state at the end of the main loop.\<close>

definition loop_end ::
  "(nat \<Rightarrow> node list) \<Rightarrow> node list \<Rightarrow> (regSet \<Rightarrow> reg list) \<Rightarrow> enumeration \<Rightarrow> rtl_function \<Rightarrow> allocator option" where
  "loop_end ord ns enumG enum f = Option.bind (AnalyzeLiveness ord f) (\<lambda>liveness.
     main_loop enum (buildWorklists enum f (NewAllocator f (BuildInterferenceGraph enumG ns f liveness))))"

lemma AllocateFunction_loop_end:
  "AllocateFunction ord ns enumG enum f = Option.bind (loop_end ord ns enumG enum f) (\<lambda>a. map_option buildResult (assignColors enum a))"
  by (cases "AnalyzeLiveness ord f") (simp_all add: AllocateFunction_def loop_end_def Allocate_def)

lemma GetAllRegisters_finite: "finite (GetAllRegisters f ns)"
  unfolding GetAllRegisters_def
  by (rule fold_invariant [where Q = "\<lambda>_. True"]) (auto split: option.splits)

lemma alloc_sound_at:
  assumes fin: "finite (dom (rtl_code f))" and ns: "set ns = dom (rtl_code f)" and enumG: "enum_ok enumG"
    and ord: "\<And>k. dom (rtl_code f) \<subseteq> set (ord k)" and enum: "lists enum" and params: "distinct (rtl_params f)"
    and loop: "loop_end ord ns enumG enum f = Some a" and u: "undisturbed a"
  shows "\<exists>A. AllocateFunction ord ns enumG enum f = Some A \<and> alloc_sound f ns A"
proof -
  from loop obtain info where info: "AnalyzeLiveness ord f = Some info"
    by (auto simp: loop_end_def bind_eq_Some_conv)
  define g where "g = BuildInterferenceGraph enumG ns f info"
  let ?a = "buildWorklists enum f (NewAllocator f g)"
  from loop info have fin_state: "main_loop enum ?a = Some a" by (simp add: loop_end_def g_def)
  note info' = AnalyzeLiveness_info_for [where ord = ord, OF fin ord info]
  have g: "wf_graph g" "finite (Nodes g)"
    using BuildInterferenceGraph_wf BuildInterferenceGraph_eq(1) [OF fin enumG ns info'] GetAllRegisters_finite
    by (simp_all add: g_def)
  note started = buildWorklists_started [OF enum g]
  from main_loop_inv [OF fin_state enum started_loop_inv [OF started g]]
  have inv: "loop_inv g (coloring ?a) a" and empty: "pool a = set (selectStack a) \<union> coalescedNodes a \<union> dom (precoloredParams a)"
    by (auto simp: pool_def)
  from inv have "Nodes (graph a) \<subseteq> pool a" by (simp add: loop_inv_def extends_def)
  with assignColors_located [OF loop_color_inv [OF started params inv u] enum] u empty
  obtain b b' where b: "assignColors enum a = Some b'" "color_inv b" "fixed b = fixed a" "located b (buildResult b')"
    by (auto simp: undisturbed_def)
  have "extends g (graph b)" "precoloredParams b = precoloredParams (NewAllocator f g)"
    using inv b(3) started by (simp_all add: loop_inv_def fixed_def coloring_def started_def)
  from located_alloc_sound [OF fin ns enumG info' g_def params b(2) this(1) b(4) this(2)] loop b(1) show ?thesis
    by (simp add: AllocateFunction_loop_end)
qed

end
