(* ===== verification/AllocTotal.thy ===== *)
theory AllocTotal
  imports Coloring
begin

text \<open>
  The allocator on functions with fewer registers than colors: every degree is below the number of
  colors, so nothing is spilled, every move that is not constrained is coalesced, the main loop ends
  and leaves the parameters in their fixed locations. With the soundness of the coloring
  phase this makes the whole pass correct.
\<close>

section \<open>Small graphs\<close>

definition small :: "allocator \<Rightarrow> bool" where
  "small a \<longleftrightarrow> wf_graph (graph a) \<and> finite (Nodes (graph a)) \<and> card (Nodes (graph a)) < K a \<and> 1 < K a"

definition lists_of where
  "lists_of a = (simplifyWorklist a, freezeWorklist a, spillWorklist a, worklistMoves a, activeMoves a, selectStack a)"

lemma small_degree:
  assumes "small a"
  shows "degree a r < K a" "Suc (degree a r) \<noteq> K a"
proof -
  have "degree a r \<le> card (Nodes (graph a) - {r})" if "r \<in> Nodes (graph a)"
    unfolding degree_def using assms wf_graph_sym [of "graph a" _ r]
    by (intro card_mono) (auto simp: small_def wf_graph_def)
  moreover have "degree a r = 0" if "r \<notin> Nodes (graph a)"
  proof -
    have "Edges (graph a) r = {}" using assms that wf_graph_sym [of "graph a" _ r] unfolding small_def wf_graph_def by blast
    then show ?thesis by (simp add: degree_def)
  qed
  moreover have "card (Nodes (graph a) - {r}) < card (Nodes (graph a))" if "r \<in> Nodes (graph a)"
    using assms that by (intro psubset_card_mono) (auto simp: small_def)
  ultimately have "Suc (degree a r) \<le> card (Nodes (graph a)) \<or> degree a r = 0 \<and> r \<notin> Nodes (graph a)"
    by (cases "r \<in> Nodes (graph a)") auto
  with assms show "degree a r < K a" "Suc (degree a r) \<noteq> K a" 
    by (auto simp: small_def)
qed


lemma small_decrementDegree [simp]: "small a \<Longrightarrow> decrementDegree r a = a"
  by (simp add: decrementDegree_def small_degree)

lemma small_fold_decrementDegree: "small a \<Longrightarrow> fold decrementDegree rs a = a"
  by (induction rs) auto

lemma small_conservative:
  assumes "small a"
  shows "conservativeCoalesce a u v"
proof -
  have "{n \<in> Edges (graph a) u \<union> Edges (graph a) v. n \<notin> coalescedNodes a \<and> K a \<le> degree a n} = {}"
    using small_degree(1) [OF assms] by (auto simp: not_le [symmetric])
  with assms show ?thesis unfolding conservativeCoalesce_def small_def by (metis card.empty gr_implies_not0 neq0_conv)
qed

lemma small_addToWorklist: "MoveRelated (graph a) r \<Longrightarrow> addToWorklist r a = a"
  by (simp add: addToWorklist_def)

text \<open>Merging changes the graph only.\<close>

definition regraphed :: "allocator \<Rightarrow> allocator \<Rightarrow> bool" where
  "regraphed a b \<longleftrightarrow> small b \<and> lists_of b = lists_of a \<and> Nodes (graph b) = Nodes (graph a) \<and> K b = K a"

lemma regraphed_trans: "regraphed a b \<Longrightarrow> regraphed b c \<Longrightarrow> regraphed a c"
  by (simp add: regraphed_def)

lemma regraphed_refl: "small a \<Longrightarrow> regraphed a a"
  by (simp add: regraphed_def)

lemma regraphed_graph:
  assumes "small a" and "wf_graph h" and "Nodes h = Nodes (graph a)"
  shows "regraphed a (a\<lparr>graph := h\<rparr>)"
  using assms by (simp add: regraphed_def small_def lists_of_def)

lemma regraphed_tick: "small a \<Longrightarrow> regraphed a (tick a)"
  by (simp add: regraphed_def small_def lists_of_def tick_def)

lemma regraphed_merge_edge:
  assumes "small a" and "u \<in> Nodes (graph a)" "n \<in> Nodes (graph a)"
  shows "regraphed a (merge_edge u n a)"
proof -
  have "regraphed a (a\<lparr>graph := AddEdge u n (graph a)\<rparr>)"
    using assms by (intro regraphed_graph wf_graph_AddEdge) (auto simp: small_def Nodes_AddEdge)
  then show ?thesis using regraphed_refl [OF assms(1)] by (auto simp: merge_edge_def regraphed_def)
qed

lemma regraphed_merge_pref:
  assumes "small a" and "u \<in> Nodes (graph a)" "n \<in> Nodes (graph a)"
  shows "regraphed a (merge_pref u n a)"
proof -
  have "regraphed a (a\<lparr>graph := AddPreference u n (graph a)\<rparr>)"
    using assms by (intro regraphed_graph wf_graph_AddPreference) (auto simp: small_def Nodes_AddEdge)
  then show ?thesis using regraphed_refl [OF assms(1)] by (auto simp: merge_pref_def)
qed

lemma regraphed_fold:
  assumes "\<And>n a. small a \<Longrightarrow> u \<in> Nodes (graph a) \<Longrightarrow> n \<in> Nodes (graph a) \<Longrightarrow> regraphed a (h n a)"
    and "small a" "u \<in> Nodes (graph a)" "set ns \<subseteq> Nodes (graph a)"
  shows "regraphed a (fold h ns a)"
  using assms(2-)
proof (induction ns arbitrary: a)
  case (Cons n ns)
  have "regraphed a (h n a)" using assms(1) Cons.prems by simp
  moreover from this have "regraphed (h n a) (fold h ns (h n a))"
    using Cons.prems by (intro Cons.IH) (auto simp: regraphed_def)
  ultimately show ?case by (auto intro: regraphed_trans)
qed (simp add: regraphed_refl)

lemma regraphed_merge_into:
  assumes "small a" and "u \<in> Nodes (graph a)" and enum: "lists enum"
  shows "regraphed a (merge_into enum u v a)"
proof -
  have sub: "Edges (graph a) v \<subseteq> Nodes (graph a)" "Preferences (graph a) v \<subseteq> Nodes (graph a)"
    "finite (Edges (graph a) v)" "finite (Preferences (graph a) v)" if "small a" for a
    using that by (auto simp: small_def wf_graph_def intro: finite_subset)
  have edges: "regraphed a (fold (merge_edge u) (range_of enum (Edges (graph a) v) a) (tick a))"
    using assms sub [OF assms(1)] regraphed_tick [OF assms(1)]
    by (intro regraphed_trans [OF regraphed_tick regraphed_fold [where u = u]] regraphed_merge_edge)
      (auto simp: set_range_of regraphed_def)
  define b where "b = fold (merge_edge u) (range_of enum (Edges (graph a) v) a) (tick a)"
  from edges have b: "small b" "u \<in> Nodes (graph b)" using assms(2) by (auto simp: regraphed_def b_def)
  have "regraphed b (fold (merge_pref u) (range_of enum (Preferences (graph b) v) b) (tick b))"
    using b enum sub [OF b(1)] regraphed_tick [OF b(1)]
    by (intro regraphed_trans [OF regraphed_tick regraphed_fold [where u = u]] regraphed_merge_pref)
      (auto simp: set_range_of regraphed_def)
  with edges show ?thesis by (auto simp: merge_into_def Let_def b_def intro: regraphed_trans)
qed

lemma small_combine:
  assumes "small a" and "u \<in> Nodes (graph a)" and "lists enum"
  shows "small (combine enum u v a)" and "lists_of (combine enum u v a) =
    (simplifyWorklist a, remove1 v (freezeWorklist a), remove1 v (spillWorklist a), worklistMoves a, activeMoves a, selectStack a)"
proof -
  have m: "small (mark u v a)" "Nodes (graph (mark u v a)) = Nodes (graph a)" "lists_of (mark u v a) =
    (simplifyWorklist a, remove1 v (freezeWorklist a), remove1 v (spillWorklist a), worklistMoves a, activeMoves a, selectStack a)"
    using assms(1) by (simp_all add: mark_def Let_def small_def lists_of_def wf_graph_across)
  then have "regraphed (mark u v a) (merge_into enum u v (mark u v a))"
    using assms by (intro regraphed_merge_into) simp_all
  moreover from this have "combine enum u v a = merge_into enum u v (mark u v a)"
    using small_degree(1) [of "merge_into enum u v (mark u v a)" u] by (simp add: combine_eq Let_def regraphed_def)
  ultimately show "small (combine enum u v a)" "lists_of (combine enum u v a) =
    (simplifyWorklist a, remove1 v (freezeWorklist a), remove1 v (spillWorklist a), worklistMoves a, activeMoves a, selectStack a)"
    using m(3) by (simp_all add: regraphed_def)
qed


section \<open>The main loop ends\<close>

text \<open>
  The invariant for small graphs. A parameter with a fixed location that is the end of a
  move interferes with all other registers.
\<close>

definition calm :: "interferenceGraph \<Rightarrow> allocator \<Rightarrow> bool" where
  "calm g a \<longleftrightarrow> small a \<and> spillWorklist a = [] \<and> activeMoves a = [] \<and>
     (\<forall>m\<in>set (worklistMoves a). fst m \<noteq> snd m \<and> MoveRelated (graph a) (fst m) \<and> MoveRelated (graph a) (snd m)) \<and>
     (\<forall>v\<in>coalescedNodes a. MoveRelated (graph a) (aliasOf a v)) \<and>
     dom (precoloredParams a) \<inter> (set (simplifyWorklist a) \<union> set (freezeWorklist a) \<union> set (selectStack a) \<union>
       coalescedNodes a \<union> aliasOf a ` coalescedNodes a \<union> LiveAcrossCalls (graph a)) = {} \<and>
     (\<forall>m\<in>set (worklistMoves a). \<forall>p\<in>{fst m, snd m} \<inter> dom (precoloredParams a). Nodes g - {p} \<subseteq> Edges g p)"

definition work :: "allocator \<Rightarrow> nat" where
  "work a = 3 * length (worklistMoves a) + 2 * length (freezeWorklist a) + length (simplifyWorklist a)"

lemma calm_simplify:
  assumes "calm g a" and "simplifyWorklist a \<noteq> []"
  shows "calm g (simplify enum a) \<and> work (simplify enum a) < work a"
proof -
  let ?r = "last (simplifyWorklist a)"
  let ?a = "tick (a\<lparr>simplifyWorklist := butlast (simplifyWorklist a), selectStack := selectStack a @ [?r],
    onSelectStack := insert ?r (onSelectStack a)\<rparr>)"
  have "small ?a" using assms(1) by (simp add: calm_def small_def tick_def)
  then have eq: "simplify enum a = ?a"
    by (simp add: simplify_def Let_def small_fold_decrementDegree)
  have "?r \<in> set (simplifyWorklist a)" using assms(2) by simp
  with assms(1) \<open>small ?a\<close> have "calm g ?a"
    unfolding calm_def by (auto simp: tick_def dest: in_set_butlastD)
  with assms(2) show ?thesis unfolding eq by (simp add: work_def tick_def) 
qed

lemma calm_freeze:
  assumes "calm g a" and "freezeWorklist a \<noteq> []"
  shows "calm g (freeze a) \<and> work (freeze a) < work a"
proof -
  let ?r = "last (freezeWorklist a)"
  let ?a = "a\<lparr>freezeWorklist := butlast (freezeWorklist a), simplifyWorklist := simplifyWorklist a @ [?r]\<rparr>"
  have eq: "freeze a = ?a"
    using assms(1) by (simp add: freeze_def Let_def freezeMovesFor_def calm_def)
  have "small ?a" using assms(1) by (simp add: calm_def small_def)
  moreover have "?r \<in> set (freezeWorklist a)" using assms(2) by simp
  ultimately have "calm g ?a"
    using assms(1) unfolding calm_def by (auto dest: in_set_butlastD)
  moreover have "length (freezeWorklist a) = Suc (length (freezeWorklist a) - 1)" using assms(2) by simp
  ultimately show ?thesis unfolding eq by (simp add: work_def)
qed

text \<open>The registers that a move joins are related by moves and, if fixed, interfere with all others.\<close>

lemma calm_rep:
  assumes calm: "calm g a" and ok: "alias_ok a"
  shows "MoveRelated (graph a) x \<Longrightarrow> MoveRelated (graph a) (rep a x)"
    and "rep a x \<in> dom (precoloredParams a) \<Longrightarrow> rep a x = x"
proof -
  from ok have "(MoveRelated (graph a) x \<longrightarrow> MoveRelated (graph a) (rep a x)) \<and>
    (x \<in> dom (precoloredParams a) \<or> rep a x \<notin> dom (precoloredParams a))"
  proof (induction x rule: chain_induct)
    case (chain x)
    then show ?case
      using calm by (cases "x \<in> coalescedNodes a") (auto simp: rep_simps calm_def)
  qed
  moreover have "rep a x = x" if "x \<in> dom (precoloredParams a)"
    using calm that by (intro rep_simps) (auto simp: calm_def)
  ultimately show "MoveRelated (graph a) x \<Longrightarrow> MoveRelated (graph a) (rep a x)"
    "rep a x \<in> dom (precoloredParams a) \<Longrightarrow> rep a x = x" by blast+
qed


lemma disjoint_extended: "A \<subseteq> B \<union> {u, v} \<Longrightarrow> D \<inter> B = {} \<Longrightarrow> u \<notin> D \<Longrightarrow> v \<notin> D \<Longrightarrow> D \<inter> A = {}"
  by blast

lemma merged_related: "merged a u v b \<Longrightarrow> MoveRelated (graph a) x \<Longrightarrow> MoveRelated (graph b) x"
  unfolding merged_def MoveRelated_def by blast

lemma calm_merged:
  assumes calm: "calm g a" and small: "small b" and m: "merged a u v b" and c: "coloring b = coloring a"
    and l: "lists_of b = (simplifyWorklist a, remove1 v (freezeWorklist a), remove1 v (spillWorklist a),
      worklistMoves a, activeMoves a, selectStack a)"
    and uv: "u \<notin> dom (precoloredParams a)" "v \<notin> dom (precoloredParams a)" "MoveRelated (graph a) u"
  shows "calm g b"
proof -
  note related = merged_related [OF m]
  have f: "simplifyWorklist b = simplifyWorklist a" "freezeWorklist b = remove1 v (freezeWorklist a)" "spillWorklist b = []"
    "worklistMoves b = worklistMoves a" "activeMoves b = []" "selectStack b = selectStack a" "precoloredParams b = precoloredParams a"
    using l calm c by (simp_all add: lists_of_def calm_def coloring_def)
  have b: "coalescedNodes b = insert v (coalescedNodes a)" "aliasOf b = (aliasOf a)(v := u)"
    "LiveAcrossCalls (graph b) \<subseteq> insert u (LiveAcrossCalls (graph a))"
    using m by (simp_all add: merged_def) auto
  show ?thesis
    unfolding calm_def f b(1,2)
  proof (intro conjI)
    show "\<forall>m\<in>set (worklistMoves a). fst m \<noteq> snd m \<and> MoveRelated (graph b) (fst m) \<and> MoveRelated (graph b) (snd m)"
      "\<forall>m\<in>set (worklistMoves a). \<forall>p\<in>{fst m, snd m} \<inter> dom (precoloredParams a). Nodes g - {p} \<subseteq> Edges g p"
      using calm related unfolding calm_def by blast+
    show "\<forall>w\<in>insert v (coalescedNodes a). MoveRelated (graph b) (((aliasOf a)(v := u)) w)"
      using calm related uv(3) unfolding calm_def by auto
    let ?old = "set (simplifyWorklist a) \<union> set (freezeWorklist a) \<union> set (selectStack a) \<union>
      coalescedNodes a \<union> aliasOf a ` coalescedNodes a \<union> LiveAcrossCalls (graph a)"
    have "set (remove1 v (freezeWorklist a)) \<subseteq> ?old" using set_remove1_subset [of v "freezeWorklist a"] by blast
    then have "set (simplifyWorklist a) \<union> set (remove1 v (freezeWorklist a)) \<union> set (selectStack a) \<union>
       insert v (coalescedNodes a) \<union> ((aliasOf a)(v := u)) ` insert v (coalescedNodes a) \<union> LiveAcrossCalls (graph b) \<subseteq> ?old \<union> {u, v}"
      using b(3) by (intro Un_least) auto
    moreover have "dom (precoloredParams a) \<inter> ?old = {}" using calm by (simp add: calm_def)
    ultimately show "dom (precoloredParams a) \<inter> (set (simplifyWorklist a) \<union> set (remove1 v (freezeWorklist a)) \<union> set (selectStack a) \<union>
       insert v (coalescedNodes a) \<union> ((aliasOf a)(v := u)) ` insert v (coalescedNodes a) \<union> LiveAcrossCalls (graph b)) = {}"
      using uv(1,2) by (rule disjoint_extended)
  qed (use small in simp_all)
qed

lemma calm_moves:
  "calm g a \<Longrightarrow> set ms \<subseteq> set (worklistMoves a) \<Longrightarrow> calm g (a\<lparr>worklistMoves := ms\<rparr>)"
  "calm g (a\<lparr>coalescedMoves := cs\<rparr>) = calm g a" "calm g (a\<lparr>constrainedMoves := cs\<rparr>) = calm g a"
proof -
  have sub: "(\<forall>m\<in>A. P m) \<Longrightarrow> B \<subseteq> A \<Longrightarrow> \<forall>m\<in>B. P m" for A B :: "(reg \<times> reg) set" and P by blast
  show "calm g a \<Longrightarrow> set ms \<subseteq> set (worklistMoves a) \<Longrightarrow> calm g (a\<lparr>worklistMoves := ms\<rparr>)"
    unfolding calm_def by (elim conjE, intro conjI) (simp_all add: small_def, (erule sub, assumption)+)
qed (simp_all add: calm_def small_def)

lemma calm_coalesce:
  assumes calm: "calm g a" and inv: "loop_inv g c a" and ne: "worklistMoves a \<noteq> []" and enum: "lists enum"
  shows "\<exists>b. coalesce enum a = Some b \<and> calm g b \<and> work b < work a"
proof -
  let ?m = "last (worklistMoves a)" and ?a = "a\<lparr>worklistMoves := butlast (worklistMoves a)\<rparr>"
  have calm': "calm g ?a" using calm_moves(1) [OF calm] by (auto dest: in_set_butlastD)
  have inv': "loop_inv g c ?a"
    using inv by (rule loop_inv_cong) (auto simp: pool_def coloring_def dest: in_set_butlastD)
  then have ok: "alias_ok ?a" "wf_graph (graph ?a)" "finite (Nodes (graph ?a))" "Nodes (graph ?a) = Nodes g"
    and ext: "\<And>r. Edges g r \<subseteq> Edges (graph ?a) r"
    by (auto simp: loop_inv_def alias_ok_def extends_def)
  let ?x = "rep ?a (fst ?m)" and ?y = "rep ?a (snd ?m)"
  have mem: "?m \<in> set (worklistMoves a)" using ne by simp
  then have n: "?x \<in> Nodes g" "?y \<in> Nodes g" "MoveRelated (graph ?a) ?x" "MoveRelated (graph ?a) ?y"
    using inv calm rep_props(2) [OF ok(1)] ok(4) calm_rep(1) [OF calm' ok(1)] by (auto simp: loop_inv_def calm_def)
  have fixed_edge: "HasEdge (graph ?a) ?x ?y \<and> HasEdge (graph ?a) ?y ?x"
    if "{?x, ?y} \<inter> dom (precoloredParams a) \<noteq> {}" "?x \<noteq> ?y"
  proof -
    from that(1) obtain p q where p: "p \<in> {fst ?m, snd ?m} \<inter> dom (precoloredParams a)" "q \<in> Nodes g" "{p, q} = {?x, ?y}"
      using calm_rep(2) [OF calm' ok(1), of "fst ?m"] calm_rep(2) [OF calm' ok(1), of "snd ?m"] n by auto
    moreover have "q \<noteq> p" using p(3) that(2) by (auto simp: doubleton_eq_iff)
    moreover have "Nodes g - {p} \<subseteq> Edges g p" using calm mem p(1) unfolding calm_def by blast
    ultimately have "q \<in> Edges (graph ?a) p" using ext [of p] by blast
    then show ?thesis using p(3) wf_graph_sym [OF ok(2)] unfolding HasEdge_def doubleton_eq_iff by blast
  qed
  define u where "u = min ?x ?y"
  define v where "v = max ?x ?y"
  have uv: "(if ?x < ?y then (?x, ?y) else (?y, ?x)) = (u, v)" and uv': "u = v \<longleftrightarrow> ?x = ?y" "{u, v} = {?x, ?y}"
    by (auto simp: u_def v_def min_def max_def)
  then have rel: "MoveRelated (graph ?a) u" "MoveRelated (graph ?a) v" "u \<in> Nodes g" using n by (auto simp: doubleton_eq_iff)
  let ?co = "?a\<lparr>coalescedMoves := coalescedMoves ?a @ [?m]\<rparr>"
  have co: "calm g ?co" using calm' by (simp only: calm_moves)
  have w: "work ?a < work a" using ne by (simp add: work_def)
  have comb: "calm g (combine enum u v ?co) \<and> MoveRelated (graph (combine enum u v ?co)) u \<and> work (combine enum u v ?co) < work a"
    if "u \<noteq> v" "\<not> HasEdge (graph ?a) u v"
  proof (intro conjI)
    have pre: "u \<notin> dom (precoloredParams ?co)" "v \<notin> dom (precoloredParams ?co)"
      using fixed_edge that uv' by (auto simp: doubleton_eq_iff)
    have m: "merged ?co u v (combine enum u v ?co)" by (rule combine_merged) (use ok enum rel in simp_all)
    have small: "small ?co" using co by (simp add: calm_def)
    note s = small_combine [OF small, of u enum v]
    show "calm g (combine enum u v ?co)"
      using m s enum rel ok by (intro calm_merged [OF co _ m _ _ pre]) (simp_all add: merged_def)
    show "MoveRelated (graph (combine enum u v ?co)) u" using merged_related [OF m] rel(1) by simp
    have "lists_of (combine enum u v ?co) = (simplifyWorklist ?co, remove1 v (freezeWorklist ?co), remove1 v (spillWorklist ?co),
      worklistMoves ?co, activeMoves ?co, selectStack ?co)" using s(2) enum rel ok by simp
    moreover have "length (remove1 v (freezeWorklist a)) \<le> length (freezeWorklist a)" by (simp add: length_remove1)
    ultimately show "work (combine enum u v ?co) < work a" using w by (simp add: lists_of_def work_def)
  qed
  have cons: "conservativeCoalesce ?a u v" using calm' small_conservative by (simp add: calm_def)
  show ?thesis
    unfolding coalesce_def Let_def getAlias_rep [OF ok(1)] bind.bind_lunit uv prod.case
    using comb cons calm' w rel by (auto simp: small_addToWorklist calm_moves work_def)
qed


lemma main_loop_total:
  assumes "calm g a" and "loop_inv g c a" and "lists enum"
  shows "\<exists>b. main_loop enum a = Some b \<and> calm g b"
  using assms
proof (induction "work a" arbitrary: a rule: less_induct)
  case less
  note step = less.hyps [OF _ _ _ less.prems(3)]
  have spill: "spillWorklist a = []" using less.prems(1) by (simp add: calm_def)
  consider (simplify) "simplifyWorklist a \<noteq> []" | (coalesce) "simplifyWorklist a = []" "worklistMoves a \<noteq> []"
    | (freeze) "simplifyWorklist a = []" "worklistMoves a = []" "freezeWorklist a \<noteq> []"
    | (finished) "simplifyWorklist a = []" "worklistMoves a = []" "freezeWorklist a = []" by blast
  then show ?case
  proof cases
    case simplify
    with step [of "simplify enum a"] calm_simplify [OF less.prems(1)] loop_inv_simplify [OF less.prems(2)] show ?thesis
      by (simp add: main_loop.simps [of enum a])
  next
    case coalesce
    from calm_coalesce [OF less.prems(1,2) coalesce(2) less.prems(3)] loop_inv_coalesce [OF less.prems(2) coalesce(2) less.prems(3)]
    obtain b where "coalesce enum a = Some b" "calm g b" "work b < work a" "loop_inv g c b" by auto
    with step [of b] coalesce show ?thesis by (simp add: main_loop.simps [of enum a])
  next
    case freeze
    with step [of "freeze a"] calm_freeze [OF less.prems(1)] loop_inv_freeze [OF less.prems(2)] show ?thesis
      by (simp add: main_loop.simps [of enum a])
  next
    case finished
    with spill less.prems(1) show ?thesis by (simp add: main_loop.simps [of enum a])
  qed
qed

lemma calm_undisturbed: "calm g a \<Longrightarrow> undisturbed a"
  unfolding calm_def undisturbed_def by blast

section \<open>Functions with few registers\<close>

text \<open>
  At most 26 registers, one less than the colors. Parameters that take part in a move must be used by some
  instruction: an unused parameter has a fixed location but no edges in the interference graph, and the
  allocator may coalesce a register that is live across a call into it (\<open>unused_param_merged\<close> below).
\<close>

definition few_registers :: "rtl_function \<Rightarrow> node list \<Rightarrow> bool" where
  "few_registers f ns \<longleftrightarrow> card (GetAllRegisters f ns) < NumAllocatableIntRegs"

definition moved_params_used :: "rtl_function \<Rightarrow> bool" where
  "moved_params_used f \<longleftrightarrow>
     (\<forall>p\<in>set (rtl_params f). \<forall>r. r \<noteq> p \<longrightarrow> move_pair f p r \<or> move_pair f r p \<longrightarrow> used_param f p)"

definition alloc_ready :: "rtl_function \<Rightarrow> node list \<Rightarrow> bool" where
  "alloc_ready f ns \<longleftrightarrow> few_registers f ns \<and> distinct (rtl_params f) \<and> moved_params_used f"

lemmas alloc_ready_defs = alloc_ready_def few_registers_def moved_params_used_def

lemma categorize_small:
  assumes "small a"
  shows "small (categorize r a)" "spillWorklist (categorize r a) = spillWorklist a" "activeMoves (categorize r a) = activeMoves a"
    "set (simplifyWorklist (categorize r a)) \<union> set (freezeWorklist (categorize r a)) \<subseteq>
       set (simplifyWorklist a) \<union> set (freezeWorklist a) \<union> ({r} - dom (precoloredParams a))"
  using assms small_degree(1) [OF assms, of r] by (auto simp: categorize_def small_def)

lemma fold_categorize_small:
  assumes "small a"
  shows "small (fold categorize rs a) \<and> spillWorklist (fold categorize rs a) = spillWorklist a \<and>
    activeMoves (fold categorize rs a) = activeMoves a \<and> precoloredParams (fold categorize rs a) = precoloredParams a \<and>
    set (simplifyWorklist (fold categorize rs a)) \<union> set (freezeWorklist (fold categorize rs a)) \<subseteq>
       set (simplifyWorklist a) \<union> set (freezeWorklist a) \<union> (set rs - dom (precoloredParams a))"
  using assms
proof (induction rs arbitrary: a)
  case (Cons r rs)
  have p: "precoloredParams (categorize r a) = precoloredParams a" by (simp add: categorize_def)
  from Cons.IH [OF categorize_small(1) [OF Cons.prems], of r] categorize_small [OF Cons.prems, of r] show ?case
    unfolding p by (simp add: p) blast
qed simp


lemma buildWorklists_calm:
  assumes enum: "lists enum" and wf: "wf_graph g" and fin: "finite (Nodes g)" and card: "card (Nodes g) < NumAllocatableIntRegs"
    and fixed: "\<And>p. p \<in> dom (precoloredParams (NewAllocator f g)) \<Longrightarrow> Preferences g p = {} \<or> Nodes g - {p} \<subseteq> Edges g p"
    and across: "dom (precoloredParams (NewAllocator f g)) \<inter> LiveAcrossCalls g = {}"
  shows "calm g (buildWorklists enum f (NewAllocator f g))"
proof -
  let ?b = "precolored_state enum f g" and ?d = "categorized_state enum f g"
  note b = precolored_fields [OF enum, of f g]
  obtain ms k where a: "buildWorklists enum f (NewAllocator f g) = ?d\<lparr>worklistMoves := ms, clock := k\<rparr>"
    "\<forall>m\<in>set ms. snd m \<in> Preferences g (fst m)" using buildWorklists_form [OF enum wf fin] by blast
  have "small (tick ?b)" using wf fin card by (simp add: small_def tick_def b)
  from fold_categorize_small [OF this, of "range_of enum (Nodes g) ?b"]
  have d: "small ?d" "spillWorklist ?d = []" "activeMoves ?d = []" "precoloredParams ?d = precoloredParams (NewAllocator f g)"
    "(set (simplifyWorklist ?d) \<union> set (freezeWorklist ?d)) \<inter> dom (precoloredParams ?d) = {}"
    unfolding categorized_state_def Let_def by (auto simp: tick_def b)
  have core: "graph ?d = g" "coalescedNodes ?d = {}" "selectStack ?d = []"
    using categorized_kept(1) [OF enum fin, of f] b by (simp_all add: kept_def core_def)
  have ms: "fst m \<in> Preferences g (snd m) \<and> fst m \<noteq> snd m" "snd m \<in> Preferences g (fst m)" if "m \<in> set ms" for m
    using a(2) that wf unfolding wf_graph_def prefs.symmetric_def by blast+
  have "\<forall>m\<in>set ms. fst m \<noteq> snd m \<and> MoveRelated g (fst m) \<and> MoveRelated g (snd m)"
    using ms unfolding MoveRelated_def by blast
  moreover have "\<forall>m\<in>set ms. \<forall>p\<in>{fst m, snd m} \<inter> dom (precoloredParams (NewAllocator f g)). Nodes g - {p} \<subseteq> Edges g p"
    using ms fixed by blast
  moreover have "dom (precoloredParams (NewAllocator f g)) \<inter> (set (simplifyWorklist ?d) \<union> set (freezeWorklist ?d) \<union> LiveAcrossCalls g) = {}"
    using d(4,5) across by auto
  ultimately show ?thesis
    using d(1) unfolding calm_def a(1) by (simp add: core d(2-4) small_def)
qed

lemma alloc_ready_loop_end:
  assumes fin: "finite (dom (rtl_code f))" and ns: "set ns = dom (rtl_code f)" and enumG: "enum_ok enumG"
    and ord: "\<And>k. dom (rtl_code f) \<subseteq> set (ord k)" and enum: "lists enum" and few: "alloc_ready f ns"
  shows "\<exists>a. loop_end ord ns enumG enum f = Some a \<and> undisturbed a"
proof -
  obtain info where info: "AnalyzeLiveness ord f = Some info"
    using live_loop_live [where ord = ord, OF fin ord] by (auto simp: AnalyzeLiveness_def)
  define g where "g = BuildInterferenceGraph enumG ns f info"
  note info' = AnalyzeLiveness_info_for [where ord = ord, OF fin ord info]
  note eq = BuildInterferenceGraph_eq [OF fin enumG ns info', folded g_def]
  have g: "wf_graph g" "finite (Nodes g)" and card: "card (Nodes g) < NumAllocatableIntRegs"
    using BuildInterferenceGraph_wf GetAllRegisters_finite few by (simp_all add: eq(1) alloc_ready_defs) (simp add: g_def)
  have params: "p \<in> set (rtl_params f) \<and> p \<notin> LiveAcrossCalls g" if "p \<in> dom (precoloredParams (NewAllocator f g))" for p
  proof -
    from that obtain l where l: "precoloredParams (NewAllocator f g) p = Some l" by blast
    have "distinct (rtl_params f)" using few by (simp add: alloc_ready_defs)
    from l [unfolded NewAllocator_params [OF this]] show ?thesis by auto
  qed
  have "Preferences g p = {} \<or> Nodes g - {p} \<subseteq> Edges g p" if "p \<in> dom (precoloredParams (NewAllocator f g))" for p
  proof (cases "used_param f p")
    case True
    then have "q \<in> Edges g p" if "q \<in> Nodes g" "q \<noteq> p" for q using eq(1) eq(2) [of p q] that by (simp add: HasEdge_def)
    then show ?thesis by blast
  next
    case False
    then have "\<not> move_pair f p r \<and> \<not> move_pair f r p" if "r \<noteq> p" for r
      using params [OF \<open>p \<in> dom _\<close>] few that unfolding alloc_ready_defs by metis
    then show ?thesis by (auto simp: eq(4))
  qed
  then have "calm g (buildWorklists enum f (NewAllocator f g))"
    using params by (intro buildWorklists_calm [OF enum g card]) auto
  from main_loop_total [OF this started_loop_inv [OF buildWorklists_started [OF enum g] g] enum] info
  show ?thesis using calm_undisturbed by (auto simp: loop_end_def g_def)
qed


section \<open>Parameters of a sound allocation\<close>

lemma ArgLocation_apart: "i \<noteq> j \<Longrightarrow> apart (ArgLocation i False) (ArgLocation j False)"
  by (auto simp: ArgLocation_def apart_def IntArgRegs_nth)

lemma ArgLocation_simps [simp]: "ArgLocation i False \<notin> temps"
  by (auto simp: ArgLocation_def IntArgRegs_nth)

lemma lasting_apart: "lasting l \<Longrightarrow> apart (ArgLocation i False) l \<and> l \<notin> temps"
  by (auto simp: lasting_def ArgLocation_def apart_def IntArgRegs_nth IsCalleeSaved_iff)

lemma across_call_used: "across_call f p \<Longrightarrow> p \<in> set (rtl_params f) \<Longrightarrow> used_param f p"
  unfolding across_call_def used_param_def using live_out_universe by (fastforce simp: universe_def)

lemma alloc_sound_param:
  assumes "alloc_sound f ns A" and "i < length (rtl_params f)"
  shows "\<not> across_call f (rtl_params f ! i) \<and> loc_of A (rtl_params f ! i) = ArgLocation i False \<or>
    used_param f (rtl_params f ! i) \<and> lasting (loc_of A (rtl_params f ! i))"
proof (cases "across_call f (rtl_params f ! i)")
  case True
  have "rtl_params f ! i \<in> set (rtl_params f)" using assms(2) by simp
  moreover from this have "rtl_params f ! i \<in> GetAllRegisters f ns" by (simp add: GetAllRegisters_eq)
  ultimately show ?thesis using True assms across_call_used by (simp add: alloc_sound_def)
qed (use assms in \<open>simp add: alloc_sound_def\<close>)

lemma alloc_sound_par_ok:
  assumes sound: "alloc_sound f ns A" and dist: "distinct (rtl_params f)"
  shows "par_ok (paramLocs f) (param_dsts f A)"
proof -
  let ?ps = "rtl_params f"
  note param = alloc_sound_param [OF sound]
  have dst: "apart (loc_of A (?ps ! i)) (loc_of A (?ps ! j))" if "i < j" "j < length ?ps" for i j
  proof -
    have ne: "?ps ! i \<noteq> ?ps ! j" using that dist by (simp add: nth_eq_iff_index_eq)
    have reg: "?ps ! i \<in> GetAllRegisters f ns" "?ps ! j \<in> GetAllRegisters f ns" using that by (auto simp: GetAllRegisters_eq)
    have used: "apart (loc_of A p) (loc_of A r)" if "used_param f p" "r \<in> GetAllRegisters f ns" "r \<noteq> p" for p r
      using sound that by (simp add: alloc_sound_def)
    have sym: "apart a b \<Longrightarrow> apart b a" for a b by (auto simp: apart_def)
    from param [of i] param [of j] that show ?thesis
      using used [OF _ reg(2) ne [symmetric]] sym [OF used [OF _ reg(1) ne]] ArgLocation_apart [of i j] by auto
  qed
  have src: "ArgLocation i False = loc_of A (?ps ! j) \<or> apart (ArgLocation i False) (loc_of A (?ps ! j))"
    "loc_of A (?ps ! j) \<notin> temps" if "j < length ?ps" for i j
    using param [OF that] ArgLocation_apart [of i j] lasting_apart [of "loc_of A (?ps ! j)" i] ArgLocation_simps [of j]
    by (cases "i = j"; metis)+
  have moved: "lasting (snd p)" if "p \<in> set (needed_moves (paramLocs f) (param_dsts f A))" for p
    using that param by (force simp: needed_moves_def paramLocs_def set_zip)
  have none: "filter (\<lambda>p. fst p \<in> snd ` set (needed_moves (paramLocs f) (param_dsts f A))) (needed_moves (paramLocs f) (param_dsts f A)) = []"
  proof (rule ccontr)
    assume "\<not> ?thesis"
    then obtain p q where "p \<in> set (needed_moves (paramLocs f) (param_dsts f A))"
      "q \<in> set (needed_moves (paramLocs f) (param_dsts f A))" "fst p = snd q" by (auto simp: filter_empty_conv)
    moreover from this(1) obtain i where "fst p = ArgLocation i False"
      by (auto simp: needed_moves_def paramLocs_def set_zip)
    ultimately have "lasting (ArgLocation i False)" using moved by metis
    then show False using lasting_apart [of "ArgLocation i False" i] by (simp add: apart_def)
  qed
  have "sorted_wrt apart (param_dsts f A)" using dst by (simp add: sorted_wrt_iff_nth_less)
  moreover have "s \<notin> temps \<and> (\<forall>d\<in>set (param_dsts f A). s = d \<or> apart s d)" if "s \<in> set (paramLocs f)" for s
  proof (intro conjI ballI)
    from that obtain i where s: "s = ArgLocation i False" by (auto simp: paramLocs_def)
    then show "s \<notin> temps" by (simp only: ArgLocation_simps not_False_eq_True)
    fix d assume "d \<in> set (param_dsts f A)"
    then obtain j where "j < length ?ps" "d = loc_of A (?ps ! j)" by (auto simp: in_set_conv_nth)
    then show "s = d \<or> apart s d" using src(1) [of j i] s by simp
  qed
  moreover have "d \<notin> temps" if "d \<in> set (param_dsts f A)" for d
  proof -
    from that obtain j where "j < length ?ps" "d = loc_of A (?ps ! j)" by (auto simp: in_set_conv_nth)
    then show ?thesis using src(2) by metis
  qed
  moreover have "length (paramLocs f) = length (param_dsts f A)" by (simp add: paramLocs_def)
  ultimately show ?thesis unfolding par_ok_def none by simp
qed

lemma alloc_sound_no_moves:
  assumes "alloc_sound f ns A" and "\<forall>p\<in>set (rtl_params f). \<not> across_call f p"
  shows "parallel_moves (paramLocs f) (param_dsts f A) = []"
proof -
  have "param_dsts f A = paramLocs f"
    using assms by (auto simp: paramLocs_def alloc_sound_def intro: nth_equalityI)
  then have "needed_moves (paramLocs f) (param_dsts f A) = []"
    by (auto simp: needed_moves_def set_zip filter_empty_conv)
  then show ?thesis by (simp add: parallel_moves_def redirected_def)
qed

text \<open>
  Code whose successors exist, whose entry is no jump target unless no parameter is live
  across a call, and that reads only parameters before writing them.
\<close>

definition wf_rtl :: "rtl_function \<Rightarrow> bool" where
  "wf_rtl f \<longleftrightarrow> rtl_code f (rtl_entry f) \<noteq> None \<and>
     (\<forall>n i s. rtl_code f n = Some i \<longrightarrow> s \<in> set (Successors i) \<longrightarrow> rtl_code f s \<noteq> None \<and>
        (s = rtl_entry f \<longrightarrow> (\<forall>p\<in>set (rtl_params f). \<not> across_call f p))) \<and>
     (\<forall>r. live f (rtl_entry f) r \<longrightarrow> r \<in> set (rtl_params f))"

lemma alloc_sound_rtl_ok:
  assumes "alloc_sound f ns A" and "distinct (rtl_params f)" and "wf_rtl f"
  shows "rtl_ok f A"
  using assms(2,3) alloc_sound_par_ok [OF assms(1,2)] alloc_sound_no_moves [OF assms(1)]
  unfolding rtl_ok_def wf_rtl_def by blast

section \<open>An unused parameter\<close>

text \<open>
  The C function \<open>int f(int x) { int y = h(); x = y; g(); return y; }\<close>: the parameter is assigned and not
  used. It is fixed to \<open>X0\<close>, has no edges in the interference graph, and register 2, which holds \<open>y\<close> and is live
  across the call of \<open>g\<close>, is coalesced into it. So the bound on the registers alone is not enough.
\<close>

definition unused_param :: rtl_function where
  "unused_param = (rtl_NewFunction ''f'' \<lparr>sig_args = [''int''], sig_return = ''int'', sig_vararg = False\<rparr>)
     \<lparr>rtl_params := [1], rtl_entry := 4, rtl_code := map_of
       [(4, Icall \<lparr>sig_args = [], sig_return = ''int'', sig_vararg = False\<rparr> (FunSymbol ''h'') [] 2 3),
        (3, Iop Omove [2] 1 2),
        (2, Icall \<lparr>sig_args = [], sig_return = ''int'', sig_vararg = False\<rparr> (FunSymbol ''g'') [] 3 1),
        (1, Ireturn (Some 2))]\<rparr>"

lemma unused_param_code:
  "rtl_code unused_param n = Some i \<Longrightarrow> (n, i) \<in> {(4, Icall \<lparr>sig_args = [], sig_return = ''int'', sig_vararg = False\<rparr> (FunSymbol ''h'') [] 2 3),
     (3, Iop Omove [2] 1 2), (2, Icall \<lparr>sig_args = [], sig_return = ''int'', sig_vararg = False\<rparr> (FunSymbol ''g'') [] 3 1), (1, Ireturn (Some 2))}"
  by (auto simp: unused_param_def split: if_splits)

lemma unused_param_allocated:
  "map_option (\<lambda>A. RegToLoc A 2) (AllocateFunction (\<lambda>_. [1, 2, 3, 4]) [1, 2, 3, 4] sorted_enum (\<lambda>_. sorted_enum) unused_param) = Some (Some (R X0))"
  by code_simp

lemma unused_param_live: "live unused_param n r \<Longrightarrow> r = 2 \<and> n \<noteq> 4"
  by (induction rule: live.induct) (auto dest!: unused_param_code)

lemma unused_param_merged:
  "\<exists>A. AllocateFunction (\<lambda>_. [1, 2, 3, 4]) [1, 2, 3, 4] sorted_enum (\<lambda>_. sorted_enum) unused_param = Some A \<and>
     RegToLoc A 2 = Some (R X0) \<and> across_call unused_param 2 \<and>
     few_registers unused_param [1, 2, 3, 4] \<and> distinct (rtl_params unused_param) \<and> wf_rtl unused_param"
proof -
  have code: "rtl_code unused_param 1 = Some (Ireturn (Some 2))"
    "rtl_code unused_param 2 = Some (Icall \<lparr>sig_args = [], sig_return = ''int'', sig_vararg = False\<rparr> (FunSymbol ''g'') [] 3 1)"
    "rtl_code unused_param 4 \<noteq> None" "rtl_code unused_param 3 \<noteq> None" "rtl_entry unused_param = 4" "rtl_params unused_param = [1]"
    by (simp_all add: unused_param_def)
  have "live unused_param 1 2" by (rule live_use [OF code(1)]) simp
  then have "across_call unused_param 2" using code(2) by (fastforce simp: across_call_def live_out_def)
  moreover have "GetAllRegisters unused_param [1, 2, 3, 4] = {1, 2, 3}" by code_simp
  then have "few_registers unused_param [1, 2, 3, 4]" by (simp add: few_registers_def)
  moreover have succ: "s = 1 \<or> s = 2 \<or> s = 3" if "rtl_code unused_param n = Some i" "s \<in> set (Successors i)" for n i s
    using unused_param_code [OF that(1)] that(2) by auto
  have "wf_rtl unused_param"
    unfolding wf_rtl_def
  proof (intro conjI allI impI)
    fix n i s assume "rtl_code unused_param n = Some i" "s \<in> set (Successors i)"
    from succ [OF this] code show "rtl_code unused_param s \<noteq> None"
      "s = rtl_entry unused_param \<Longrightarrow> \<forall>p\<in>set (rtl_params unused_param). \<not> across_call unused_param p" by auto
  next
    fix r assume "live unused_param (rtl_entry unused_param) r"
    with unused_param_live code show "r \<in> set (rtl_params unused_param)" by auto
  qed (use code in simp)
  ultimately show ?thesis using unused_param_allocated code(6) by (auto simp: map_option_eq_Some)
qed

section \<open>Properties\<close>

text \<open>The oracles list what they should: maps are iterated over all their keys, in any order.\<close>

definition oracles :: "rtl_function \<Rightarrow> (nat \<Rightarrow> node list) \<Rightarrow> node list \<Rightarrow> (regSet \<Rightarrow> reg list) \<Rightarrow> enumeration \<Rightarrow> bool" where
  "oracles f ord ns enumG enum \<longleftrightarrow> finite (dom (rtl_code f)) \<and> set ns = dom (rtl_code f) \<and> enum_ok enumG \<and>
     (\<forall>k. dom (rtl_code f) \<subseteq> set (ord k)) \<and> lists enum"

lemma sorted_enum_lists: "lists (\<lambda>_. sorted_enum)"
  by (simp add: lists_def sorted_enum_def)

lemma count_down_oracles: "oracles (count_down 6) (\<lambda>_. count_nodes) count_nodes sorted_enum (\<lambda>_. sorted_enum)"
proof -
  have "finite (dom (rtl_code (count_down 6)))" by (simp flip: count_down_dom)
  then show ?thesis
    unfolding oracles_def count_down_dom [symmetric] using sorted_enum_ok sorted_enum_lists by simp
qed

lemma count_down_ready: "alloc_ready (count_down 6) count_nodes"
proof -
  have "GetAllRegisters (count_down 6) count_nodes = {1}" by code_simp
  moreover have "\<not> move_pair (count_down 6) d a" for d a
    by (auto simp: move_pair_def dest!: count_down_cases)
  ultimately show ?thesis by (simp add: alloc_ready_defs)
qed

lemma count_down_no_void: "rtl_code (count_down 6) n \<noteq> Some (Ireturn None)"
  by (auto dest!: count_down_cases)

lemma count_down_wf: "wf_rtl (count_down 6)"
  by (auto simp: wf_rtl_def dest!: count_down_cases count_down_live)

text \<open>
  Property C10. The allocator is sound whenever its main loop ends with the fixed parameters
  undisturbed (none coalesced into another register, put on the stack or found to be live across a
  call): it returns, registers that interfere get locations that do not overlap, what is live
  across a call gets a callee-saved register or a spill slot, and parameters that are not live
  across a call stay in their argument locations. This holds for every order of map iteration.
\<close>

theorem AllocateFunction_sound:
  assumes "oracles f ord ns enumG enum" and "distinct (rtl_params f)"
    and "loop_end ord ns enumG enum f = Some a" and "undisturbed a"
  shows "\<exists>A. AllocateFunction ord ns enumG enum f = Some A \<and> alloc_sound f ns A"
  using assms by (intro alloc_sound_at) (auto simp: oracles_def)

theorem AllocateFunction_sound_witness:
  "\<exists>a A. loop_end (\<lambda>_. count_nodes) count_nodes sorted_enum (\<lambda>_. sorted_enum) (count_down 6) = Some a \<and> undisturbed a \<and>
     AllocateFunction (\<lambda>_. count_nodes) count_nodes sorted_enum (\<lambda>_. sorted_enum) (count_down 6) = Some A \<and>
     alloc_sound (count_down 6) count_nodes A"
proof -
  obtain a where a: "loop_end (\<lambda>_. count_nodes) count_nodes sorted_enum (\<lambda>_. sorted_enum) (count_down 6) = Some a" "undisturbed a"
    using count_down_oracles count_down_ready
      alloc_ready_loop_end [of "count_down 6" count_nodes sorted_enum "\<lambda>_. count_nodes" "\<lambda>_. sorted_enum"]
    by (auto simp: oracles_def)
  from AllocateFunction_sound [OF count_down_oracles _ a] a show ?thesis by auto
qed

lemma alloc_ready_allocated:
  assumes "oracles f ord ns enumG enum" and "alloc_ready f ns"
  shows "\<exists>A. AllocateFunction ord ns enumG enum f = Some A \<and> alloc_sound f ns A"
proof -
  have "distinct (rtl_params f)" using assms(2) by (simp add: alloc_ready_defs)
  moreover from alloc_ready_loop_end [of f ns enumG ord enum] assms obtain a where
    "loop_end ord ns enumG enum f = Some a" "undisturbed a" by (auto simp: oracles_def)
  ultimately show ?thesis using assms(1) by (intro alloc_sound_at) (auto simp: oracles_def)
qed

text \<open>
  Property C9. Let a function have at most 26 registers, distinct parameters, and only such moves from or to
  parameters that these parameters are used. Then the allocator terminates, for every order of map iteration,
  and its result is sound: registers that interfere get locations that do not overlap, and what is live across
  a call gets a callee-saved register or a spill slot. Without the condition on moves this is false.
\<close>

theorem AllocateFunction_total:
  assumes "oracles f ord ns enumG enum" and "few_registers f ns" and "distinct (rtl_params f)" and "moved_params_used f"
  shows "\<exists>A. AllocateFunction ord ns enumG enum f = Some A \<and> alloc_sound f ns A"
  using assms by (intro alloc_ready_allocated) (simp_all add: alloc_ready_def)

theorem AllocateFunction_total_witness:
  "\<exists>A. AllocateFunction (\<lambda>_. count_nodes) count_nodes sorted_enum (\<lambda>_. sorted_enum) (count_down 6) = Some A \<and>
     alloc_sound (count_down 6) count_nodes A"
  using AllocateFunction_total [OF count_down_oracles] count_down_ready by (simp add: alloc_ready_def)

lemma TransformFunction_preserves:
  fixes M :: "('v, 'm) sem"
  assumes "oracles f ord ns enumG enum" and "alloc_ready f ns" and "wf_rtl f"
    and "void \<or> (\<forall>n. rtl_code f n \<noteq> Some (Ireturn None))"
    and "length vs = length (rtl_params f)" and "\<forall>i<length vs. ls (ArgLocation i False) = vs ! i"
    and "behaves (rtl_step M f) (rtl_final M void)
      (RNode (rtl_entry f) (init_regs (sem_undef M) (rtl_params f) vs) m) b" "b \<noteq> Goes_wrong"
  shows "\<exists>g s. TransformFunction ord ns enumG enum f = Some g \<and> ltl_initial g ls m = Some s \<and>
     behaves (ltl_step M g) (ltl_final_obs M void) s b"
proof -
  have dist: "distinct (rtl_params f)" using assms(2) by (simp add: alloc_ready_defs)
  from alloc_ready_allocated [OF assms(1,2)] obtain A where
    A: "AllocateFunction ord ns enumG enum f = Some A" "alloc_sound f ns A" by blast
  then have "alloc_setup f ns A void"
    using assms(1,4) alloc_sound_rtl_ok [OF A(2) dist assms(3)]
    by (simp add: alloc_setup_def oracles_def alloc_sound_def)
  from allocation_preserves [OF this assms(5-8)] A(1) show ?thesis
    by (simp add: TransformFunction_def)
qed



end
