(* ===== verification/Backend.thy ===== *)
theory Backend
  imports Linearize AllocTotal
begin

text \<open>
  The passes composed: register allocation followed by linearization, as the driver runs them.
\<close>

definition rtl_to_linear where
  "rtl_to_linear darwin ord ns enumG enum ordL f =
     Option.bind (TransformFunction ord ns enumG enum f) (Transform darwin ordL)"

section \<open>The allocated code is well-formed LTL\<close>

text \<open>Calls by name whose arguments all go to registers, and no tail calls.\<close>

fun plain_call :: "bool \<Rightarrow> rtl_instr \<Rightarrow> bool" where
  "plain_call darwin (Icall _ (FunSymbol f) args _ _) \<longleftrightarrow> length args \<le> maxRegArgs darwin (FunSymbol f)"
| "plain_call darwin (Icall _ (FunReg _) _ _ _) \<longleftrightarrow> False"
| "plain_call darwin (Itailcall _ _ _) \<longleftrightarrow> False"
| "plain_call darwin _ \<longleftrightarrow> True"

lemma maxRegArgs_transform: "maxRegArgs darwin (transform_funref A (FunSymbol s)) = maxRegArgs darwin (FunSymbol s)"
  by simp

lemma proper_not_outgoing: "proper_loc l \<Longrightarrow> \<not> is_outgoing l"
  by (cases l rule: is_outgoing.cases) auto

lemma wf_block_append: "list_all (body_ok darwin) xs \<Longrightarrow> wf_block darwin b \<Longrightarrow> wf_block darwin (xs @ b)"
proof (induction xs)
  case (Cons x xs)
  then show ?case by (cases "xs @ b") auto
qed simp

lemma transformInstruction_wf:
  assumes "plain_call darwin i" and "\<forall>r\<in>instr_use i. proper_loc (loc_of A r)"
  shows "wf_block darwin (transformInstruction A i)"
proof (cases i)
  case (Icall sg fn args d s)
  with assms show ?thesis
    by (cases fn) (auto simp: call_safe_def transformRegs_def list_all_iff proper_not_outgoing)
next
  case (Ireturn r)
  then show ?thesis by (cases r) auto
qed (use assms in auto)

lemma transform_with_wf:
  assumes fin: "finite (dom (rtl_code f))" and ns: "set ns = dom (rtl_code f)" and ok: "alloc_ok f A"
    and entry: "rtl_code f (rtl_entry f) \<noteq> None" and calls: "\<forall>n i. rtl_code f n = Some i \<longrightarrow> plain_call darwin i"
  shows "wf_ltl darwin (transform_with A ns f)"
proof -
  have code: "ltl_code (transform_with A ns f) n = map_option (\<lambda>i.
      (if n = rtl_entry f then resolveParallelMoves (paramLocs f) (param_dsts f A) else []) @ transformInstruction A i) (rtl_code f n)" for n
    by (cases "rtl_code f n") (auto simp: transform_with_code [OF ns] resolveParallelMoves_def)
  have moves: "list_all (body_ok darwin) (resolveParallelMoves ss ds)" for ss ds
    by (auto simp: resolveParallelMoves_def list_all_iff)
  have block: "wf_block darwin (transformInstruction A i)" if "rtl_code f n = Some i" for n i
    using that calls ok by (intro transformInstruction_wf) (auto simp: alloc_ok_def)
  have "dom (ltl_code (transform_with A ns f)) = dom (rtl_code f)" by (auto simp: code)
  moreover have "ltl_entry (transform_with A ns f) = rtl_entry f" by (simp add: transform_with_def Let_def)
  ultimately show ?thesis
    using fin entry block wf_block_append [OF moves] by (auto simp: wf_ltl_def code)
qed


section \<open>From RTL to Linear\<close>

text \<open>What is observed of a run when the value of a \<open>return\<close> without value is not.\<close>

definition observed :: "('v, 'm) sem \<Rightarrow> bool \<Rightarrow> ('v, 'm) outcome behaviour \<Rightarrow> ('v, 'm) outcome behaviour" where
  "observed M void b = map_behaviour (hide void (sem_undef M)) b"

lemma ltl_observed:
  assumes "behaves (ltl_step M g) (ltl_final_obs M void) s b" and "b \<noteq> Goes_wrong"
  shows "\<exists>b'. behaves (ltl_step M g) ltl_final s b' \<and> observed M void b' = b \<and> b' \<noteq> Goes_wrong"
proof (cases b)
  case (Terminates r)
  with assms obtain s' where s': "(ltl_step M g)\<^sup>*\<^sup>* s s'" "ltl_final_obs M void s' r" by (auto simp: behaves_def)
  then obtain q where "s' = LFinal q" "r = hide void (sem_undef M) q" by (cases s') auto
  with s'(1) Terminates show ?thesis
    by (intro exI [of _ "Terminates q"]) (auto simp: behaves_def observed_def)
next
  case Diverges
  with assms show ?thesis by (intro exI [of _ Diverges]) (auto simp: behaves_def observed_def)
qed (use assms in simp)



end
