(* ===== verification/Mach.thy ===== *)
theory Mach
  imports Linear
begin

text \<open>
  The Mach language (\<open>pkg/mach/ast.go\<close>): Linear code with concrete frame offsets, and its
  semantics. A state has the code still to be executed, the registers, the stack frame and the
  memory. Cells of the frame are addressed from the frame pointer, as the translation of
  \<open>Mgetstack\<close>, \<open>Msetstack\<close> and \<open>Mgetparam\<close> in \<open>pkg/asmgen/transform.go\<close> does it; the stack pointer
  is \<open>Stacksize - 16\<close> bytes below. The code generator replaces the first instructions of a function
  and the four instructions that end it by its own prologue and epilogue; the functions by which it
  recognises them are part of the semantics.
\<close>

section \<open>Syntax\<close>

datatype mach_instr =
    Mgetstack int64 ty mreg
  | Msetstack mreg int64 ty
  | Mgetparam int64 ty mreg
  | Mop operation "mreg list" mreg
  | Mload chunk addressingMode "mreg list" mreg
  | Mstore chunk addressingMode "mreg list" mreg
  | Mcall sig "mreg funRef"
  | Mtailcall sig "mreg funRef"
  | Mbuiltin string "mreg list" "mreg option"
  | Mlabel label
  | Mgoto label
  | Mcond conditionCode "mreg list" label
  | Mjumptable mreg "label list"
  | Mreturn

record mach_function =
  mach_name :: string
  mach_sig :: sig
  mach_code :: "mach_instr list"
  mach_stacksize :: int64
  mach_calleeSaveRegs :: "mreg list"
  mach_usesFramePtr :: bool

record mach_program =
  mach_globals :: "globVar list"
  mach_functions :: "mach_function list"

definition mach_NewFunction :: "string \<Rightarrow> sig \<Rightarrow> mach_function" where
  "mach_NewFunction name sg = \<lparr>mach_name = name, mach_sig = sg, mach_code = [], mach_stacksize = 0,
     mach_calleeSaveRegs = [], mach_usesFramePtr = True\<rparr>"

definition mach_Append :: "mach_function \<Rightarrow> mach_instr \<Rightarrow> mach_function" where
  "mach_Append f i = f\<lparr>mach_code := mach_code f @ [i]\<rparr>"

fun mach_instr_labels :: "mach_instr \<Rightarrow> label list" where
  "mach_instr_labels (Mlabel l) = [l]"
| "mach_instr_labels _ = []"

fun mach_instr_targets :: "mach_instr \<Rightarrow> label list" where
  "mach_instr_targets (Mgoto l) = [l]"
| "mach_instr_targets (Mcond _ _ l) = [l]"
| "mach_instr_targets (Mjumptable _ ts) = ts"
| "mach_instr_targets _ = []"

definition mach_Labels :: "mach_function \<Rightarrow> label list" where
  "mach_Labels f = fold (\<lambda>i seen. addLabels seen (mach_instr_labels i)) (mach_code f) []"

definition mach_ReferencedLabels :: "mach_function \<Rightarrow> label list" where
  "mach_ReferencedLabels f = fold (\<lambda>i seen. addLabels seen (mach_instr_targets i)) (mach_code f) []"

section \<open>What the code generator recognises\<close>

fun is_Mop :: "mach_instr \<Rightarrow> bool" where
  "is_Mop (Mop _ _ _) \<longleftrightarrow> True"
| "is_Mop _ \<longleftrightarrow> False"

fun is_Msetstack :: "mach_instr \<Rightarrow> bool" where
  "is_Msetstack (Msetstack _ _ _) \<longleftrightarrow> True"
| "is_Msetstack _ \<longleftrightarrow> False"

definition countPrologueInstructions :: "mach_instr list \<Rightarrow> nat" where
  "countPrologueInstructions code =
     (if length code < 4 then 0
      else if \<not> is_Mop (code ! 0) then 0
      else if \<not> is_Msetstack (code ! 1) then 1
      else if \<not> is_Msetstack (code ! 2) then 2
      else if \<not> is_Mop (code ! 3) then 3 else 4)"

text \<open>\<open>isEpilogueStart\<close>, on the code from the instruction in question on.\<close>

fun isEpilogueStart :: "mach_instr list \<Rightarrow> bool" where
  "isEpilogueStart (Mgetstack _ _ _ # Mgetstack _ _ _ # Mop _ _ _ # Mreturn # c) \<longleftrightarrow> True"
| "isEpilogueStart _ \<longleftrightarrow> False"

lemma isEpilogueStart_Mreturn: "isEpilogueStart (i # c) \<Longrightarrow> Mreturn \<in> set (take 3 c)"
  by (cases "i # c" rule: isEpilogueStart.cases) auto

section \<open>Semantics\<close>

type_synonym 'v frame = "int64 \<Rightarrow> ty \<Rightarrow> 'v"

text \<open>Writing a cell makes the cells it overlaps undefined.\<close>

definition share :: "int64 \<Rightarrow> int64 \<Rightarrow> int64 \<Rightarrow> int64 \<Rightarrow> bool" where
  "share o1 n1 o2 n2 \<longleftrightarrow> o1 < o2 + n2 \<and> o2 < o1 + n1"

definition frame_set :: "('v, 'm) sem \<Rightarrow> int64 \<Rightarrow> ty \<Rightarrow> 'v \<Rightarrow> 'v frame \<Rightarrow> 'v frame" where
  "frame_set M ofs t v fr = (\<lambda>o' t'. if o' = ofs \<and> t' = t then v
     else if share ofs (slotSize t) o' (slotSize t') then sem_undef M else fr o' t')"

lemma frame_set_same [simp]: "frame_set M ofs t v fr ofs t = v"
  by (simp add: frame_set_def)

lemma frame_set_apart:
  "\<not> share ofs (slotSize t) o' (slotSize t') \<Longrightarrow> frame_set M ofs t v fr o' t' = fr o' t'"
  by (auto simp: frame_set_def share_def)

text \<open>
  A call destroys the outgoing area, \<open>out\<close> bytes from the stack pointer \<open>sp\<close> on, and the registers
  that the callee need not keep. \<open>sp\<close> is relative to the frame pointer.
\<close>

definition frame_after_call :: "('v, 'm) sem \<Rightarrow> int64 \<Rightarrow> int64 \<Rightarrow> 'v frame \<Rightarrow> 'v frame" where
  "frame_after_call M sp out fr =
     (\<lambda>ofs t. if share sp out ofs (slotSize t) then sem_undef M else fr ofs t)"

definition regs_after_call :: "('v, 'm) sem \<Rightarrow> 'v \<Rightarrow> (mreg \<Rightarrow> 'v) \<Rightarrow> mreg \<Rightarrow> 'v" where
  "regs_after_call M v rs = (\<lambda>r. if r = IntReturnReg then v
     else if IsCalleeSaved r \<or> r = X29 then rs r else sem_undef M)"

definition mach_arg :: "nat \<Rightarrow> int64 \<Rightarrow> (mreg \<Rightarrow> 'v) \<Rightarrow> 'v frame \<Rightarrow> nat \<Rightarrow> 'v" where
  "mach_arg k sp rs fr i = (if i < k then rs (int i) else fr (sp + 8 * int (i - k)) Tlong)"

definition mach_fun_value :: "(mreg \<Rightarrow> 'v) \<Rightarrow> mreg funRef \<Rightarrow> 'v funVal" where
  "mach_fun_value rs fn = (case fn of FunReg r \<Rightarrow> FV_ptr (rs r) | FunSymbol s \<Rightarrow> FV_sym s)"

datatype ('v, 'm) mach_action =
    MFall "mreg \<Rightarrow> 'v" "'v frame" 'm
  | MJump label
  | MStop "('v, 'm) outcome"
  | MWrong

fun mach_effect ::
  "('v, 'm) sem \<Rightarrow> (loc funRef \<Rightarrow> nat) \<Rightarrow> int64 \<Rightarrow> int64 \<Rightarrow> mach_instr \<Rightarrow>
   (mreg \<Rightarrow> 'v) \<Rightarrow> 'v frame \<Rightarrow> 'm \<Rightarrow> ('v, 'm) mach_action" where
  "mach_effect M cc sp out (Mgetstack ofs t d) rs fr m = MFall (rs(d := fr ofs t)) fr m"
| "mach_effect M cc sp out (Msetstack r ofs t) rs fr m = MFall rs (frame_set M ofs t (rs r) fr) m"
| "mach_effect M cc sp out (Mgetparam ofs t d) rs fr m = MFall (rs(d := fr ofs t)) fr m"
| "mach_effect M cc sp out (Mop op args d) rs fr m =
     (case eval_op M op (map rs args) m of Some v \<Rightarrow> MFall (rs(d := v)) fr m | None \<Rightarrow> MWrong)"
| "mach_effect M cc sp out (Mload ch a args d) rs fr m =
     (case sem_load M ch a (map rs args) m of Some v \<Rightarrow> MFall (rs(d := v)) fr m | None \<Rightarrow> MWrong)"
| "mach_effect M cc sp out (Mstore ch a args src) rs fr m =
     (case sem_store M ch a (map rs args) (rs src) m of Some m' \<Rightarrow> MFall rs fr m' | None \<Rightarrow> MWrong)"
| "mach_effect M cc sp out (Mcall sg fn) rs fr m =
     (case sem_call M sg (mach_fun_value rs fn)
        (map (mach_arg (cc (map_funRef R fn)) sp rs fr) [0..<sem_arity M sg (mach_fun_value rs fn) m]) m of
        Some (v, m') \<Rightarrow> MFall (regs_after_call M v rs) (frame_after_call M sp out fr) m'
      | None \<Rightarrow> MWrong)"
| "mach_effect M cc sp out (Mtailcall sg fn) rs fr m =
     MStop (Tailcalled sg (mach_fun_value rs fn)
       (map (mach_arg (cc (map_funRef R fn)) sp rs fr) [0..<sem_arity M sg (mach_fun_value rs fn) m]) m)"
| "mach_effect M cc sp out (Mbuiltin bf args d) rs fr m =
     (case sem_builtin M bf (map rs args) m of
        Some (v, m') \<Rightarrow> MFall (case d of Some r \<Rightarrow> rs(r := v) | None \<Rightarrow> rs) fr m' | None \<Rightarrow> MWrong)"
| "mach_effect M cc sp out (Mlabel l) rs fr m = MFall rs fr m"
| "mach_effect M cc sp out (Mgoto l) rs fr m = MJump l"
| "mach_effect M cc sp out (Mcond cnd args l) rs fr m =
     (case sem_cond M cnd (map rs args) m of
        Some True \<Rightarrow> MJump l | Some False \<Rightarrow> MFall rs fr m | None \<Rightarrow> MWrong)"
| "mach_effect M cc sp out (Mjumptable r ts) rs fr m =
     (case jump_entry M (rs r) ts of Some l \<Rightarrow> MJump l | None \<Rightarrow> MWrong)"
| "mach_effect M cc sp out Mreturn rs fr m = MStop (Returned (rs IntReturnReg) m)"

fun mach_find_label :: "label \<Rightarrow> mach_instr list \<Rightarrow> mach_instr list option" where
  "mach_find_label l [] = None"
| "mach_find_label l (i # is) = (if i = Mlabel l then Some is else mach_find_label l is)"

datatype ('v, 'm) mach_state =
    MCode "mach_instr list" "mreg \<Rightarrow> 'v" "'v frame" 'm
  | MFinal "('v, 'm) outcome" "mreg \<Rightarrow> 'v"

inductive mach_step ::
  "('v, 'm) sem \<Rightarrow> (loc funRef \<Rightarrow> nat) \<Rightarrow> int64 \<Rightarrow> int64 \<Rightarrow> mach_instr list \<Rightarrow>
   ('v, 'm) mach_state \<Rightarrow> ('v, 'm) mach_state \<Rightarrow> bool"
  for M cc sp out code where
  mach_fall: "\<not> isEpilogueStart (i # c) \<Longrightarrow> mach_effect M cc sp out i rs fr m = MFall rs' fr' m' \<Longrightarrow>
    mach_step M cc sp out code (MCode (i # c) rs fr m) (MCode c rs' fr' m')"
| mach_jump: "mach_effect M cc sp out i rs fr m = MJump l \<Longrightarrow> mach_find_label l code = Some c' \<Longrightarrow>
    mach_step M cc sp out code (MCode (i # c) rs fr m) (MCode c' rs fr m)"
| mach_stop: "mach_effect M cc sp out i rs fr m = MStop r \<Longrightarrow>
    mach_step M cc sp out code (MCode (i # c) rs fr m) (MFinal r rs)"
| mach_epilogue: "isEpilogueStart c \<Longrightarrow>
    mach_step M cc sp out code (MCode c rs fr m) (MFinal (Returned (rs IntReturnReg) m) rs)"

inductive_cases mach_step_codeE: "mach_step M cc sp out code (MCode c rs fr m) t"
inductive_cases mach_step_finalE: "mach_step M cc sp out code (MFinal r rs) t"

text \<open>A function must hand back the callee-saved registers as it found them, in \<open>rs0\<close>.\<close>

fun mach_final :: "(mreg \<Rightarrow> 'v) \<Rightarrow> ('v, 'm) mach_state \<Rightarrow> ('v, 'm) outcome \<Rightarrow> bool" where
  "mach_final rs0 (MFinal r rs) q \<longleftrightarrow> r = q \<and> (\<forall>x. IsCalleeSaved x \<longrightarrow> rs x = rs0 x)"
| "mach_final rs0 (MCode _ _ _ _) q \<longleftrightarrow> False"

lemma isEpilogueStart_falls:
  assumes "isEpilogueStart (i # c)"
  shows "mach_effect M cc sp out i rs fr m \<noteq> MJump l" "mach_effect M cc sp out i rs fr m \<noteq> MStop r"
  using assms by (cases "i # c" rule: isEpilogueStart.cases; simp)+

interpretation mach: determ "mach_step M cc sp out code" "mach_final rs0"
  for M :: "('v, 'm) sem" and cc sp out code rs0
proof
  fix s t u :: "('v, 'm) mach_state"
  assume s: "mach_step M cc sp out code s t" and u: "mach_step M cc sp out code s u"
  from s u show "t = u"
    by (cases rule: mach_step.cases) (auto elim!: mach_step_codeE simp: isEpilogueStart_falls)
next
  fix s t :: "('v, 'm) mach_state" and r
  assume "mach_final rs0 s r" then show "\<not> mach_step M cc sp out code s t"
    by (cases s) (auto elim: mach_step_finalE)
next
  fix s :: "('v, 'm) mach_state" and r q
  assume "mach_final rs0 s r" "mach_final rs0 s q" then show "r = q"
    by (cases s) auto
qed

section \<open>Straight-line code\<close>

fun mach_run ::
  "('v, 'm) sem \<Rightarrow> (loc funRef \<Rightarrow> nat) \<Rightarrow> int64 \<Rightarrow> int64 \<Rightarrow> mach_instr list \<Rightarrow>
   (mreg \<Rightarrow> 'v) \<Rightarrow> 'v frame \<Rightarrow> 'm \<Rightarrow> ((mreg \<Rightarrow> 'v) \<times> 'v frame \<times> 'm) option" where
  "mach_run M cc sp out [] rs fr m = Some (rs, fr, m)"
| "mach_run M cc sp out (i # is) rs fr m = (case mach_effect M cc sp out i rs fr m of
     MFall rs' fr' m' \<Rightarrow> mach_run M cc sp out is rs' fr' m' | _ \<Rightarrow> None)"

lemma mach_run_append:
  "mach_run M cc sp out (is @ js) rs fr m =
     Option.bind (mach_run M cc sp out is rs fr m) (\<lambda>(rs, fr, m). mach_run M cc sp out js rs fr m)"
  by (induction "is" arbitrary: rs fr m) (auto split: mach_action.split)

text \<open>No return within the next three instructions.\<close>

definition far :: "mach_instr list \<Rightarrow> bool" where
  "far c \<longleftrightarrow> Mreturn \<notin> set (take 3 c)"

lemma far_append: "Mreturn \<notin> set is \<Longrightarrow> far c \<Longrightarrow> far (is @ c)"
  by (auto simp: far_def dest: in_set_takeD, metis in_set_takeD set_take_subset_set_take diff_le_self subsetD)

lemma far_no_epilogue: "far c \<Longrightarrow> \<not> isEpilogueStart (i # c)"
  using isEpilogueStart_Mreturn far_def by blast

lemma mach_run_steps:
  assumes "mach_run M cc sp out is rs fr m = Some (rs', fr', m')" and "Mreturn \<notin> set is" and "far c"
  shows "(mach_step M cc sp out code)\<^sup>*\<^sup>* (MCode (is @ c) rs fr m) (MCode c rs' fr' m')"
  using assms(1,2)
proof (induction "is" arbitrary: rs fr m)
  case (Cons i "is")
  then obtain rs1 fr1 m1 where e: "mach_effect M cc sp out i rs fr m = MFall rs1 fr1 m1"
    by (auto split: mach_action.splits)
  have "\<not> isEpilogueStart (i # is @ c)"
    using Cons.prems(2) assms(3) by (simp add: far_no_epilogue far_append)
  from mach_fall [OF this e, of code] Cons e show ?case
    by (auto intro: converse_rtranclp_into_rtranclp)
qed simp

lemma mach_run_plus:
  assumes "mach_run M cc sp out is rs fr m = Some (rs', fr', m')" and "Mreturn \<notin> set is" and "far c"
    and "is \<noteq> []"
  shows "(mach_step M cc sp out code)\<^sup>+\<^sup>+ (MCode (is @ c) rs fr m) (MCode c rs' fr' m')"
proof -
  from mach_run_steps [OF assms(1-3), of code] have
    "MCode (is @ c) rs fr m = MCode c rs' fr' m' \<or>
     (mach_step M cc sp out code)\<^sup>+\<^sup>+ (MCode (is @ c) rs fr m) (MCode c rs' fr' m')"
    by (rule rtranclpD [THEN disjE]) auto
  with assms(4) show ?thesis by auto
qed

end
