(* ===== verification/Frame.thy ===== *)
theory Frame
  imports Mach StackInfo "HOL-Library.Multiset"
begin

text \<open>
  The activation record (\<open>layout.go\<close>, \<open>slots.go\<close>, \<open>calleesave.go\<close> and \<open>prolog.go\<close> of
  \<open>pkg/stacking\<close>): the layout of the frame, the translation of abstract stack slots to offsets from
  the frame pointer, the callee-saved registers a function has to keep, and the instructions that
  save and restore them.
\<close>

section \<open>Layout\<close>

record frameLayout =
  fl_CalleeSaveSize :: int64
  fl_LocalSize :: int64
  fl_OutgoingSize :: int64
  fl_CalleeSaveOffset :: int64
  fl_LocalOffset :: int64
  fl_OutgoingOffset :: int64
  fl_TotalSize :: int64
  fl_UseFramePointer :: bool

definition alignUp :: "int64 \<Rightarrow> int64 \<Rightarrow> int64" where
  "alignUp n align = (if align = 0 then n else go_div (n + align - 1) align * align)"

text \<open>
  \<open>collectStackInfo\<close>; what it does with an instruction is, line by line, what
  \<open>pkg/linearize/stack.go\<close> does with it.
\<close>

definition collectStackInfo :: "linear_function \<Rightarrow> stackInfo" where
  "collectStackInfo f = fold note_instr (lin_code f) \<lparr>LocalSize = 0, IncomingSize = 0, OutgoingSize = 0\<rparr>"

definition ComputeLayout :: "linear_function \<Rightarrow> int \<Rightarrow> frameLayout" where
  "ComputeLayout f calleeSaveRegs =
     (let info = collectStackInfo f;
          numRegs = (if go_rem calleeSaveRegs 2 \<noteq> 0 then calleeSaveRegs + 1 else calleeSaveRegs);
          cs = numRegs * 8;
          ls = alignUp (LocalSize info) 8;
          os = alignUp (OutgoingSize info) 8;
          frameBody = alignUp (cs + ls + os) 16
      in \<lparr>fl_CalleeSaveSize = cs, fl_LocalSize = ls, fl_OutgoingSize = os, fl_CalleeSaveOffset = -8,
          fl_LocalOffset = - cs - ls, fl_OutgoingOffset = - cs - ls - os, fl_TotalSize = frameBody + 16,
          fl_UseFramePointer = True\<rparr>)"

definition LocalSlotOffset :: "frameLayout \<Rightarrow> int64 \<Rightarrow> int64" where
  "LocalSlotOffset l slotOffset = fl_LocalOffset l + slotOffset"

definition OutgoingSlotOffset :: "frameLayout \<Rightarrow> int64 \<Rightarrow> int64" where
  "OutgoingSlotOffset l slotOffset = - (fl_TotalSize l - 16) + slotOffset"

definition IncomingSlotOffset :: "frameLayout \<Rightarrow> int64 \<Rightarrow> int64" where
  "IncomingSlotOffset l slotOffset = 16 + slotOffset"

section \<open>Slots\<close>

fun TranslateSlotOffset :: "frameLayout \<Rightarrow> slotKind \<Rightarrow> int64 \<Rightarrow> int64" where
  "TranslateSlotOffset l SlotLocal ofs = LocalSlotOffset l ofs"
| "TranslateSlotOffset l SlotIncoming ofs = IncomingSlotOffset l ofs"
| "TranslateSlotOffset l SlotOutgoing ofs = OutgoingSlotOffset l ofs"

fun TranslateGetstack :: "frameLayout \<Rightarrow> slotKind \<Rightarrow> int64 \<Rightarrow> ty \<Rightarrow> mreg \<Rightarrow> mach_instr" where
  "TranslateGetstack l SlotLocal ofs t d = Mgetstack (LocalSlotOffset l ofs) t d"
| "TranslateGetstack l SlotIncoming ofs t d = Mgetparam (IncomingSlotOffset l ofs) t d"
| "TranslateGetstack l SlotOutgoing ofs t d = Mgetstack (OutgoingSlotOffset l ofs) t d"

fun TranslateSetstack :: "frameLayout \<Rightarrow> mreg \<Rightarrow> slotKind \<Rightarrow> int64 \<Rightarrow> ty \<Rightarrow> mach_instr" where
  "TranslateSetstack l src SlotLocal ofs t = Msetstack src (LocalSlotOffset l ofs) t"
| "TranslateSetstack l src SlotIncoming ofs t = Msetstack src (IncomingSlotOffset l ofs) t"
| "TranslateSetstack l src SlotOutgoing ofs t = Msetstack src (OutgoingSlotOffset l ofs) t"

section \<open>Callee-saved registers\<close>

definition stacking_IsCalleeSaved :: "mreg \<Rightarrow> bool" where
  "stacking_IsCalleeSaved r \<longleftrightarrow> (X19 \<le> r \<and> r \<le> X28) \<or> (D8 \<le> r \<and> r \<le> D15)"

fun loc_regs :: "loc \<Rightarrow> mreg list" where
  "loc_regs (R r) = [r]"
| "loc_regs _ = []"

fun collectRegsFromInst :: "linear_instr \<Rightarrow> mreg list" where
  "collectRegsFromInst (Lgetstack _ _ _ d) = [d]"
| "collectRegsFromInst (Lsetstack src _ _ _) = [src]"
| "collectRegsFromInst (LopL _ args d) = concat (map loc_regs args) @ loc_regs d"
| "collectRegsFromInst (LloadL _ _ args d) = concat (map loc_regs args) @ loc_regs d"
| "collectRegsFromInst (LstoreL _ _ args src) = concat (map loc_regs args) @ loc_regs src"
| "collectRegsFromInst (LcondL _ args _) = concat (map loc_regs args)"
| "collectRegsFromInst (LjumptableL a _) = loc_regs a"
| "collectRegsFromInst _ = []"

text \<open>
  \<open>sortRegs\<close> exchanges the element at position \<open>i\<close> with every smaller one behind it; \<open>exchange\<close> is
  the inner loop, which returns the final element at \<open>i\<close> and the rest.
\<close>

fun exchange :: "mreg \<Rightarrow> mreg list \<Rightarrow> mreg \<times> mreg list" where
  "exchange x [] = (x, [])"
| "exchange x (y # ys) = (if y < x then map_prod id ((#) x) (exchange y ys)
     else map_prod id ((#) y) (exchange x ys))"

lemma exchange_length: "length (snd (exchange x ys)) = length ys"
  by (induction x ys rule: exchange.induct) auto

function sortRegs :: "mreg list \<Rightarrow> mreg list" where
  "sortRegs [] = []"
| "sortRegs (x # xs) = fst (exchange x xs) # sortRegs (snd (exchange x xs))"
  by pat_completeness auto
termination by (relation "measure length") (auto simp: exchange_length)

text \<open>\<open>enum\<close> gives the order in which a \<open>range\<close> statement visits a set.\<close>

definition FindUsedCalleeSaveRegs :: "(mreg set \<Rightarrow> mreg list) \<Rightarrow> linear_function \<Rightarrow> mreg list" where
  "FindUsedCalleeSaveRegs enum f =
     sortRegs (filter stacking_IsCalleeSaved (enum (set (concat (map collectRegsFromInst (lin_code f))))))"

record calleeSaveInfo =
  cs_Regs :: "mreg list"
  cs_SaveOffsets :: "int64 list"

text \<open>The layout is an argument of the Go function, but it does not use it.\<close>

definition ComputeCalleeSaveInfo :: "frameLayout \<Rightarrow> mreg list \<Rightarrow> calleeSaveInfo" where
  "ComputeCalleeSaveInfo l usedRegs =
     \<lparr>cs_Regs = usedRegs, cs_SaveOffsets = map (\<lambda>i. - 8 - 8 * int i) [0..<length usedRegs]\<rparr>"

definition PadToEven :: "mreg list \<Rightarrow> mreg list" where
  "PadToEven regs = (if even (length regs) then regs else regs @ [last regs])"

section \<open>Prologue and epilogue\<close>

text \<open>The first index of each pair, in the order of the loops.\<close>

definition save_pairs :: "nat \<Rightarrow> nat list" where
  "save_pairs n = filter even [0..<n - 1]"

definition restore_pairs :: "nat \<Rightarrow> nat list" where
  "restore_pairs n = rev (filter (\<lambda>i. even (n - i)) [0..<n - 1])"

definition GeneratePrologue :: "frameLayout \<Rightarrow> calleeSaveInfo \<Rightarrow> mach_instr list" where
  "GeneratePrologue l cs =
     (let fpSaveOffset = fl_TotalSize l - 16; regs = cs_Regs cs; ofs = cs_SaveOffsets cs in
      (if 0 < fl_TotalSize l then [Mop (Olong (Oaddlimm (- fl_TotalSize l))) [] X29] else []) @
      [Msetstack X29 fpSaveOffset Tlong, Msetstack X30 (fpSaveOffset + 8) Tlong,
       Mop (Olong (Oaddlimm fpSaveOffset)) [] X29] @
      concat (map (\<lambda>i. [Msetstack (regs ! i) (ofs ! i) Tlong, Msetstack (regs ! (i + 1)) (ofs ! (i + 1)) Tlong])
        (save_pairs (length regs))))"

definition GenerateEpilogue :: "frameLayout \<Rightarrow> calleeSaveInfo \<Rightarrow> mach_instr list" where
  "GenerateEpilogue l cs =
     (let fpSaveOffset = fl_TotalSize l - 16; regs = cs_Regs cs; ofs = cs_SaveOffsets cs in
      concat (map (\<lambda>i. [Mgetstack (ofs ! i) Tlong (regs ! i), Mgetstack (ofs ! (i + 1)) Tlong (regs ! (i + 1))])
        (restore_pairs (length regs))) @
      [Mgetstack fpSaveOffset Tlong X29, Mgetstack (fpSaveOffset + 8) Tlong X30] @
      (if 0 < fl_TotalSize l then [Mop (Olong (Oaddlimm (fl_TotalSize l))) [] X29] else []) @
      [Mreturn])"

definition GenerateTailEpilogue :: "frameLayout \<Rightarrow> calleeSaveInfo \<Rightarrow> mach_instr list" where
  "GenerateTailEpilogue l cs = butlast (GenerateEpilogue l cs)"

definition IsLeafFunction :: "mach_instr list \<Rightarrow> bool" where
  "IsLeafFunction code \<longleftrightarrow> \<not> list_ex (\<lambda>i. case i of Mcall _ _ \<Rightarrow> True | Mtailcall _ _ \<Rightarrow> True | _ \<Rightarrow> False) code"

section \<open>Parameter copies\<close>

abbreviation (input) paramCopyTempReg :: mreg where "paramCopyTempReg \<equiv> X8"

text \<open>The moves between registers, by destination, and the stores of the parameters kept in slots.\<close>

fun param_moves :: "frameLayout \<Rightarrow> nat \<Rightarrow> loc list \<Rightarrow> (mreg \<rightharpoonup> mreg) \<Rightarrow> mach_instr list \<Rightarrow>
    (mreg \<rightharpoonup> mreg) \<times> mach_instr list" where
  "param_moves l i [] mv stackMoves = (mv, stackMoves)"
| "param_moves l i (p # ps) mv stackMoves =
     (if length IntArgRegs \<le> i then (mv, stackMoves)
      else let incomingReg = IntArgRegs ! i in
        (case p of
           R r \<Rightarrow> param_moves l (Suc i) ps (if r \<noteq> incomingReg then mv(r \<mapsto> incomingReg) else mv) stackMoves
         | S k ofs t \<Rightarrow> param_moves l (Suc i) ps mv
             (stackMoves @ [Msetstack incomingReg (TranslateSlotOffset l k ofs) t])
         | LNil \<Rightarrow> param_moves l (Suc i) ps mv stackMoves))"

definition param_source :: "mreg list \<Rightarrow> (mreg \<rightharpoonup> mreg) \<Rightarrow> mreg list \<Rightarrow> mreg \<Rightarrow> bool" where
  "param_source keys mv dn r \<longleftrightarrow> list_ex (\<lambda>d. d \<notin> set dn \<and> mv d = Some r) keys"

fun param_pass :: "mreg list \<Rightarrow> mreg list \<Rightarrow> (mreg \<rightharpoonup> mreg) \<Rightarrow> mreg list \<Rightarrow> mach_instr list \<Rightarrow>
    mreg list \<times> mach_instr list" where
  "param_pass keys [] mv dn out = (dn, out)"
| "param_pass keys (d # ds) mv dn out = (case mv d of
     None \<Rightarrow> param_pass keys ds mv dn out
   | Some src \<Rightarrow>
       if d \<in> set dn then param_pass keys ds mv dn out
       else if param_source keys mv dn d then param_pass keys ds mv dn out
       else param_pass keys ds mv (dn @ [d]) (out @ [Mop Omove [src] d]))"

fun param_break :: "mreg list \<Rightarrow> (mreg \<rightharpoonup> mreg) \<Rightarrow> mreg list \<Rightarrow> mach_instr list \<Rightarrow>
    (mreg \<rightharpoonup> mreg) \<times> mach_instr list" where
  "param_break [] mv dn out = (mv, out)"
| "param_break (d # ds) mv dn out = (case mv d of
     None \<Rightarrow> param_break ds mv dn out
   | Some src \<Rightarrow>
       if d \<in> set dn then param_break ds mv dn out
       else ((\<lambda>e. if mv e = Some src then Some paramCopyTempReg else mv e),
             out @ [Mop Omove [src] paramCopyTempReg]))"

text \<open>
  \<open>keys\<close> lists the registers among the parameter locations, hence all keys of \<open>moves\<close>; \<open>ord k\<close> is
  the order of the \<open>k\<close>-th iteration over that map.
\<close>

partial_function (option) param_loop :: "mreg list \<Rightarrow> (nat \<Rightarrow> mreg list) \<Rightarrow> nat \<Rightarrow> (mreg \<rightharpoonup> mreg) \<Rightarrow>
    mreg list \<Rightarrow> mach_instr list \<Rightarrow> mach_instr list option" where
  [code]: "param_loop keys ord k mv dn out =
     (if \<not> list_ex (\<lambda>d. mv d \<noteq> None \<and> d \<notin> set dn) keys then Some out
      else let (dn', out') = param_pass keys (ord k) mv dn out in
        if dn' \<noteq> dn then param_loop keys ord (k + 1) mv dn' out'
        else let (mv', out') = param_break (ord (k + 1)) mv dn' out'
             in param_loop keys ord (k + 2) mv' dn' out')"

definition GenerateParamCopies ::
  "(nat \<Rightarrow> mreg list) \<Rightarrow> loc list \<Rightarrow> frameLayout \<Rightarrow> mach_instr list option" where
  "GenerateParamCopies ord params l =
     (let (mv, stackMoves) = param_moves l 0 params Map.empty []
      in param_loop (concat (map loc_regs params)) ord 0 mv [] stackMoves)"

section \<open>Lemmas on the layout\<close>

lemma alignUp_bounds:
  assumes "0 \<le> n" and "0 < a"
  shows "alignUp n a mod a = 0" "n \<le> alignUp n a" "alignUp n a < n + a"
proof -
  have e: "alignUp n a = n + a - 1 - (n + a - 1) mod a"
    using assms by (simp add: alignUp_def minus_mod_eq_div_mult)
  show "alignUp n a mod a = 0" using assms by (simp add: alignUp_def)
  from pos_mod_bound [OF assms(2), of "n + a - 1"] show "n \<le> alignUp n a" by (simp add: e)
  from pos_mod_sign [OF assms(2), of "n + a - 1"] show "alignUp n a < n + a" by (simp add: e)
qed

lemma collectStackInfo_eq: "collectStackInfo f = CollectStackInfo f"
  by (simp add: collectStackInfo_def CollectStackInfo_def)

lemma area_nonneg: "0 \<le> area k (collectStackInfo f)"
  by (simp add: collectStackInfo_eq area_CollectStackInfo)

lemma area_holds:
  assumes "i \<in> set (lin_code f)" and "(k, ofs, t) \<in> set (counted_slots i)"
  shows "ofs + slotSize t \<le> area k (collectStackInfo f)"
  unfolding collectStackInfo_eq area_CollectStackInfo using assms
  by (intro Max_ge) (auto simp: slot_ends_iff)

text \<open>The frame from the stack pointer up: outgoing area, locals, saved registers.\<close>

definition layout_ok :: "frameLayout \<Rightarrow> bool" where
  "layout_ok l \<longleftrightarrow> 0 \<le> fl_CalleeSaveSize l \<and> 0 \<le> fl_LocalSize l \<and> 0 \<le> fl_OutgoingSize l \<and>
     - (fl_TotalSize l - 16) + fl_OutgoingSize l \<le> fl_LocalOffset l \<and>
     fl_LocalOffset l + fl_LocalSize l = - fl_CalleeSaveSize l \<and> 0 < fl_TotalSize l"

lemma ComputeLayout_facts:
  assumes "0 \<le> n"
  shows "layout_ok (ComputeLayout f n)" "fl_TotalSize (ComputeLayout f n) mod 16 = 0"
    "8 * n \<le> fl_CalleeSaveSize (ComputeLayout f n)"
    "area SlotLocal (collectStackInfo f) \<le> fl_LocalSize (ComputeLayout f n)"
    "area SlotOutgoing (collectStackInfo f) \<le> fl_OutgoingSize (ComputeLayout f n)"
proof -
  let ?i = "collectStackInfo f"
  let ?cs = "(if n mod 2 \<noteq> 0 then n + 1 else n) * 8"
  let ?ls = "alignUp (LocalSize ?i) 8" and ?os = "alignUp (OutgoingSize ?i) 8"
  note l = alignUp_bounds [of "LocalSize ?i" 8] area_nonneg [of SlotLocal f]
  note o = alignUp_bounds [of "OutgoingSize ?i" 8] area_nonneg [of SlotOutgoing f]
  have nn: "0 \<le> ?cs" "0 \<le> ?ls" "0 \<le> ?os" using l o assms by auto
  then have b: "alignUp (?cs + ?ls + ?os) 16 mod 16 = 0" "?cs + ?ls + ?os \<le> alignUp (?cs + ?ls + ?os) 16"
    using alignUp_bounds [of "?cs + ?ls + ?os" 16] by simp_all
  show "layout_ok (ComputeLayout f n)"
    using nn b assms by (cases "n mod 2 = 0") (simp_all add: layout_ok_def ComputeLayout_def Let_def)
  show "fl_TotalSize (ComputeLayout f n) mod 16 = 0"
    using b assms by (simp add: ComputeLayout_def Let_def)
  show "8 * n \<le> fl_CalleeSaveSize (ComputeLayout f n)"
    using assms by (simp add: ComputeLayout_def Let_def)
  show "area SlotLocal ?i \<le> fl_LocalSize (ComputeLayout f n)"
    "area SlotOutgoing ?i \<le> fl_OutgoingSize (ComputeLayout f n)"
    using l o by (simp_all add: ComputeLayout_def Let_def)
qed

section \<open>Slots within the frame\<close>

text \<open>The slots that have a place in the frame. Incoming slots belong to the caller's frame.\<close>

fun in_frame :: "frameLayout \<Rightarrow> slotKind \<Rightarrow> int64 \<Rightarrow> ty \<Rightarrow> bool" where
  "in_frame l SlotLocal ofs t \<longleftrightarrow> 0 \<le> ofs \<and> ofs + slotSize t \<le> fl_LocalSize l"
| "in_frame l SlotIncoming ofs t \<longleftrightarrow> 0 \<le> ofs"
| "in_frame l SlotOutgoing ofs t \<longleftrightarrow> 0 \<le> ofs \<and> ofs + slotSize t \<le> fl_OutgoingSize l"

lemmas layout_defs = layout_ok_def LocalSlotOffset_def OutgoingSlotOffset_def IncomingSlotOffset_def share_def

lemma slots_share:
  assumes "layout_ok l" and "in_frame l k o1 t1" and "in_frame l k' o2 t2"
  shows "share (TranslateSlotOffset l k o1) (slotSize t1) (TranslateSlotOffset l k' o2) (slotSize t2) \<longleftrightarrow>
    k = k' \<and> share o1 (slotSize t1) o2 (slotSize t2)"
  using assms slotSize_pos [of t1] slotSize_pos [of t2]
  by (cases k; cases k'; auto simp: layout_defs)

lemma slots_below_frame_record:
  assumes "layout_ok l" and "in_frame l k ofs t"
  shows "\<not> share (TranslateSlotOffset l k ofs) (slotSize t) (- fl_CalleeSaveSize l) (fl_CalleeSaveSize l + 16)"
  using assms slotSize_pos [of t] by (cases k) (simp_all add: layout_defs)

lemma slots_in_body:
  assumes "layout_ok l" and "in_frame l k ofs t" and "k \<noteq> SlotIncoming"
  shows "- (fl_TotalSize l - 16) \<le> TranslateSlotOffset l k ofs"
  using assms by (cases k) (simp_all add: layout_defs)

lemma share_smaller:
  "share a n b k \<Longrightarrow> b' \<le> b \<Longrightarrow> b + k \<le> b' + k' \<Longrightarrow> share a n b' k'"
  by (auto simp: share_def)

section \<open>Saved registers\<close>

lemma exchange_mset: "add_mset (fst (exchange x ys)) (mset (snd (exchange x ys))) = add_mset x (mset ys)"
  by (induction x ys rule: exchange.induct) (auto simp: add_mset_commute)

lemma exchange_min: "\<forall>y\<in>set (x # ys). fst (exchange x ys) \<le> y"
  by (induction x ys rule: exchange.induct) auto

lemma sortRegs_mset: "mset (sortRegs xs) = mset xs"
proof (induction xs rule: sortRegs.induct)
  case (2 x xs)
  then show ?case using exchange_mset [of x xs] by simp
qed simp

lemma set_sortRegs [simp]: "set (sortRegs xs) = set xs"
  by (metis mset_eq_setD sortRegs_mset)

lemma sortRegs_sorted: "sorted (sortRegs xs)"
proof (induction xs rule: sortRegs.induct)
  case (2 x xs)
  have "set (snd (exchange x xs)) \<subseteq> set (x # xs)"
    by (metis exchange_mset insert_subset mset_eq_setD mset.simps(2) list.simps(15) order_refl)
  then show ?case using 2 exchange_min [of x xs] by auto
qed simp

lemma sortRegs_eq: "sortRegs xs = sort xs"
  by (metis properties_for_sort sortRegs_mset sortRegs_sorted)

lemma stacking_IsCalleeSaved_eq: "stacking_IsCalleeSaved = IsCalleeSaved"
  by (auto simp: stacking_IsCalleeSaved_def IsCalleeSaved_iff fun_eq_iff)

lemma set_PadToEven [simp]: "set (PadToEven rs) = set rs"
  by (cases rs rule: rev_cases) (auto simp: PadToEven_def)

lemma even_PadToEven [simp]: "even (length (PadToEven rs))"
  by (simp add: PadToEven_def)

lemma filter_even_upt: "filter even [0..<2 * k - 1] = map ((*) 2) [0..<k]"
proof (induction k)
  case (Suc k)
  then show ?case by (cases k) auto
qed simp

lemma restore_pairs_eq: "restore_pairs (2 * k) = rev (save_pairs (2 * k))"
proof -
  have "filter (\<lambda>i. even (2 * k - i)) [0..<2 * k - 1] = filter even [0..<2 * k - 1]"
    by (rule filter_cong) auto
  then show ?thesis by (simp add: restore_pairs_def save_pairs_def)
qed

lemma concat_pairs: "concat (map (\<lambda>i. [g i, g (i + 1)]) (save_pairs (2 * k))) = map g [0..<2 * k]"
  unfolding save_pairs_def filter_even_upt by (induction k) simp_all

text \<open>All registers of an even number are saved, in ascending order, and restored, in some order.\<close>

definition restore_order :: "nat \<Rightarrow> nat list" where
  "restore_order n = concat (map (\<lambda>i. [i, i + 1]) (restore_pairs n))"

lemma set_restore_order: "even n \<Longrightarrow> set (restore_order n) = {..<n}"
  using concat_pairs [of id, THEN arg_cong, of set]
  by (auto simp: restore_order_def restore_pairs_eq elim!: evenE) fastforce+

lemma saved_registers:
  assumes "length ofs = length regs" and "even (length regs)"
  shows "concat (map (\<lambda>i. [Msetstack (regs ! i) (ofs ! i) Tlong, Msetstack (regs ! (i + 1)) (ofs ! (i + 1)) Tlong])
      (save_pairs (length regs))) = map (\<lambda>i. Msetstack (regs ! i) (ofs ! i) Tlong) [0..<length regs]"
  using assms(2) concat_pairs [of "\<lambda>i. Msetstack (regs ! i) (ofs ! i) Tlong"] by (auto elim!: evenE)

lemma restored_registers:
  "concat (map (\<lambda>i. [g i, g (i + 1)]) (restore_pairs n)) = map g (restore_order n)"
  by (simp add: restore_order_def map_concat comp_def)

abbreviation (input) save_offset :: "nat \<Rightarrow> int64" where "save_offset i \<equiv> - 8 - 8 * int i"

definition save_code :: "mreg list \<Rightarrow> mach_instr list" where
  "save_code regs = map (\<lambda>i. Msetstack (regs ! i) (save_offset i) Tlong) [0..<length regs]"

definition restore_code :: "mreg list \<Rightarrow> mach_instr list" where
  "restore_code regs = map (\<lambda>i. Mgetstack (save_offset i) Tlong (regs ! i)) (restore_order (length regs))"

lemma GeneratePrologue_eq:
  assumes "even (length regs)" and "0 < fl_TotalSize l"
  shows "GeneratePrologue l (ComputeCalleeSaveInfo l regs) =
    [Mop (Olong (Oaddlimm (- fl_TotalSize l))) [] X29, Msetstack X29 (fl_TotalSize l - 16) Tlong,
     Msetstack X30 (fl_TotalSize l - 16 + 8) Tlong, Mop (Olong (Oaddlimm (fl_TotalSize l - 16))) [] X29] @
    save_code regs"
proof -
  have "map (\<lambda>i. Msetstack (regs ! i) (cs_SaveOffsets (ComputeCalleeSaveInfo l regs) ! i) Tlong) [0..<length regs] =
      save_code regs"
    by (auto simp: save_code_def ComputeCalleeSaveInfo_def)
  with assms saved_registers [of "cs_SaveOffsets (ComputeCalleeSaveInfo l regs)" regs] show ?thesis
    by (simp add: GeneratePrologue_def Let_def) (simp add: ComputeCalleeSaveInfo_def)
qed

lemma restore_order_less: "even n \<Longrightarrow> i \<in> set (restore_order n) \<Longrightarrow> i < n"
  by (simp add: set_restore_order)

lemma GenerateEpilogue_eq:
  assumes "even (length regs)" and "0 < fl_TotalSize l"
  shows "GenerateEpilogue l (ComputeCalleeSaveInfo l regs) = restore_code regs @
    [Mgetstack (fl_TotalSize l - 16) Tlong X29, Mgetstack (fl_TotalSize l - 16 + 8) Tlong X30,
     Mop (Olong (Oaddlimm (fl_TotalSize l))) [] X29, Mreturn]"
proof -
  let ?g = "\<lambda>i. Mgetstack (cs_SaveOffsets (ComputeCalleeSaveInfo l regs) ! i) Tlong (regs ! i)"
  have "map ?g (restore_order (length regs)) = restore_code regs"
    unfolding restore_code_def
    by (rule map_cong) (auto simp: ComputeCalleeSaveInfo_def dest: restore_order_less [OF assms(1)])
  then show ?thesis
    using assms(2) restored_registers [of ?g "length regs"]
    by (simp add: GenerateEpilogue_def Let_def) (simp add: ComputeCalleeSaveInfo_def)
qed

text \<open>The saved values, and that saving changes nothing but the save area.\<close>

definition saved :: "mreg list \<Rightarrow> (mreg \<Rightarrow> 'v) \<Rightarrow> 'v frame \<Rightarrow> bool" where
  "saved regs rs0 fr \<longleftrightarrow> (\<forall>i<length regs. fr (save_offset i) Tlong = rs0 (regs ! i))"

lemma run_saves:
  "\<exists>fr'. mach_run M cc sp out (map (\<lambda>i. Msetstack (r i) (save_offset i) Tlong) [0..<n]) rs fr m = Some (rs, fr', m) \<and>
     (\<forall>i<n. fr' (save_offset i) Tlong = rs (r i)) \<and>
     (\<forall>ofs t. \<not> share ofs (slotSize t) (- 8 * int n) (8 * int n) \<longrightarrow> fr' ofs t = fr ofs t)"
proof (induction n)
  case (Suc n)
  then obtain fr' where fr': "mach_run M cc sp out (map (\<lambda>i. Msetstack (r i) (save_offset i) Tlong) [0..<n]) rs fr m
      = Some (rs, fr', m)" "\<forall>i<n. fr' (save_offset i) Tlong = rs (r i)"
    "\<forall>ofs t. \<not> share ofs (slotSize t) (- 8 * int n) (8 * int n) \<longrightarrow> fr' ofs t = fr ofs t" by blast
  let ?fr = "frame_set M (save_offset n) Tlong (rs (r n)) fr'"
  have "?fr (save_offset i) Tlong = rs (r i)" if "i < Suc n" for i
    using that fr'(2) by (cases "i = n") (auto simp: frame_set_apart share_def)
  moreover have "?fr ofs t = fr ofs t" if "\<not> share ofs (slotSize t) (- 8 * int (Suc n)) (8 * int (Suc n))" for ofs t
    using that fr'(3) by (auto simp: frame_set_apart share_def)
  ultimately show ?case using fr'(1) by (intro exI [of _ ?fr]) (simp add: mach_run_append)
qed simp

lemma run_save_code:
  "\<exists>fr'. mach_run M cc sp out (save_code regs) rs fr m = Some (rs, fr', m) \<and> saved regs rs fr' \<and>
     (\<forall>ofs t. \<not> share ofs (slotSize t) (- 8 * int (length regs)) (8 * int (length regs)) \<longrightarrow> fr' ofs t = fr ofs t)"
  unfolding save_code_def saved_def by (rule run_saves)

lemma run_restores:
  "\<forall>i\<in>set is. fr (o' i) Tlong = rs0 (r i) \<Longrightarrow>
     mach_run M cc sp out (map (\<lambda>i. Mgetstack (o' i) Tlong (r i)) is) rs fr m =
       Some (\<lambda>x. if x \<in> r ` set is then rs0 x else rs x, fr, m)"
  by (induction "is" arbitrary: rs) (auto simp: fun_eq_iff)

lemma run_restore_code:
  assumes "saved regs rs0 fr" and "even (length regs)"
  shows "mach_run M cc sp out (restore_code regs) rs fr m =
    Some (\<lambda>x. if x \<in> set regs then rs0 x else rs x, fr, m)"
proof -
  have "(!) regs ` set (restore_order (length regs)) = set regs"
    unfolding set_restore_order [OF assms(2)] by (auto simp: in_set_conv_nth)
  with run_restores [of "restore_order (length regs)" fr "\<lambda>i. save_offset i" rs0 "(!) regs"] assms
  show ?thesis by (simp add: restore_code_def saved_def restore_order_less)
qed

lemma no_return_code: "Mreturn \<notin> set (save_code regs)" "Mreturn \<notin> set (restore_code regs)"
  by (auto simp: save_code_def restore_code_def)

section \<open>Properties\<close>

lemma counted_in_frame:
  assumes "0 \<le> n" and "i \<in> set (lin_code f)" and "(k, ofs, t) \<in> set (counted_slots i)" and "0 \<le> ofs"
  shows "in_frame (ComputeLayout f n) k ofs t"
  using area_holds [OF assms(2,3)] ComputeLayout_facts(4,5) [OF assms(1), of f] assms(4) by (cases k) auto

text \<open>
  Property C23. The frame of a function that saves \<open>n\<close> registers is 16-byte aligned. Every slot the
  code reads, writes or computes with has a place in it, apart from the caller's incoming area;
  different slots share bytes in the frame only if they share bytes within the same area; and no
  slot shares bytes with a saved register or with the saved frame pointer and return address.
\<close>

theorem ComputeLayout_sound:
  assumes "0 \<le> n"
  shows "let l = ComputeLayout f n; place = TranslateSlotOffset l in
    fl_TotalSize l mod 16 = 0 \<and>
    (\<forall>i\<in>set (lin_code f). \<forall>(k, ofs, t)\<in>set (counted_slots i). 0 \<le> ofs \<longrightarrow> in_frame l k ofs t) \<and>
    (\<forall>k ofs t. in_frame l k ofs t \<longrightarrow> k \<noteq> SlotIncoming \<longrightarrow>
       - (fl_TotalSize l - 16) \<le> place k ofs \<and> place k ofs + slotSize t \<le> - 8 * n) \<and>
    (\<forall>k o1 t1 k' o2 t2. in_frame l k o1 t1 \<longrightarrow> in_frame l k' o2 t2 \<longrightarrow>
       share (place k o1) (slotSize t1) (place k' o2) (slotSize t2) \<longrightarrow> k = k' \<and> share o1 (slotSize t1) o2 (slotSize t2)) \<and>
    (\<forall>k ofs t. in_frame l k ofs t \<longrightarrow> \<not> share (place k ofs) (slotSize t) (- 8 * n) (8 * n + 16))"
proof -
  let ?l = "ComputeLayout f n"
  note l = ComputeLayout_facts [OF assms, of f]
  have "\<not> share (TranslateSlotOffset ?l k ofs) (slotSize t) (- 8 * n) (8 * n + 16)" if "in_frame ?l k ofs t" for k ofs t
    using slots_below_frame_record [OF l(1) that] l(3) assms by (auto simp: share_def)
  moreover have "TranslateSlotOffset ?l k ofs + slotSize t \<le> - 8 * n" if "in_frame ?l k ofs t" "k \<noteq> SlotIncoming" for k ofs t
    using that l(1,3) by (cases k) (auto simp: layout_defs)
  ultimately show ?thesis
    unfolding Let_def using counted_in_frame [OF assms] slots_in_body [OF l(1)] slots_share [OF l(1)] l(2) by auto
qed

definition frame_example :: linear_function where
  "frame_example = \<lparr>lin_name = ''f'', lin_sig = \<lparr>sig_args = [], sig_return = ''int'', sig_vararg = False\<rparr>, lin_params = [],
     lin_stacksize = 0, lin_code = [LopL Omove [S SlotLocal 4 Tint] (R X20), Lsetstack X20 SlotOutgoing 8 Tlong,
       LopL Omove [R X19] (S SlotLocal 0 Tint), LreturnL]\<rparr>"

theorem ComputeLayout_sound_witness:
  "let l = ComputeLayout frame_example 2 in fl_TotalSize l = 64 \<and> fl_TotalSize l mod 16 = 0 \<and>
     in_frame l SlotOutgoing 8 Tlong \<and> TranslateSlotOffset l SlotOutgoing 8 = - 40 \<and>
     TranslateSlotOffset l SlotLocal 4 = - 20 \<and> \<not> share (- 40) 8 (- 16) 32"
proof -
  have "ComputeLayout frame_example 2 = \<lparr>fl_CalleeSaveSize = 16, fl_LocalSize = 8, fl_OutgoingSize = 16,
    fl_CalleeSaveOffset = -8, fl_LocalOffset = -24, fl_OutgoingOffset = -40, fl_TotalSize = 64, fl_UseFramePointer = True\<rparr>"
    by code_simp
  with ComputeLayout_sound [of 2 frame_example] show ?thesis
    by (simp add: Let_def layout_defs)
qed

text \<open>
  Every location that an instruction mentions, whatever its role. Calls, tail calls and builtins are not
  scanned, nor are the parameters of the function.
\<close>

fun mentioned :: "linear_instr \<Rightarrow> loc set" where
  "mentioned (Lgetstack k ofs t d) = {S k ofs t, R d}"
| "mentioned (Lsetstack src k ofs t) = {R src, S k ofs t}"
| "mentioned (LopL op args d) = set args \<union> {d}"
| "mentioned (LloadL ch a args d) = set args \<union> {d}"
| "mentioned (LstoreL ch a args src) = set args \<union> {src}"
| "mentioned (LcallL sg fn) = set_funRef fn"
| "mentioned (LtailcallL sg fn) = set_funRef fn"
| "mentioned (LbuiltinL bf args d) = set args \<union> set_option d"
| "mentioned (LcondL c args l) = set args"
| "mentioned (LjumptableL a ts) = {a}"
| "mentioned _ = {}"

fun scanned :: "linear_instr \<Rightarrow> bool" where
  "scanned (LcallL sg fn) \<longleftrightarrow> False"
| "scanned (LtailcallL sg fn) \<longleftrightarrow> False"
| "scanned (LbuiltinL bf args d) \<longleftrightarrow> False"
| "scanned _ \<longleftrightarrow> True"

lemma collectRegsFromInst_mentioned: "r \<in> set (collectRegsFromInst i) \<longleftrightarrow> scanned i \<and> R r \<in> mentioned i"
proof -
  have "r \<in> set (loc_regs l) \<longleftrightarrow> R r = l" for l by (cases l) auto
  then show ?thesis by (cases i) auto
qed

text \<open>
  Property C31. The registers to save are exactly the callee-saved registers that some instruction of the
  function mentions in any position, in ascending order and each once, whatever the order in which the map of
  used registers is visited. Calls, tail calls and builtins do not count, and neither do the parameters: a
  callee-saved register that occurs only there, as the pointer of an indirect call or the operand of a builtin,
  is not among the registers to save.
\<close>

theorem FindUsedCalleeSaveRegs_exact:
  assumes "\<forall>s. finite s \<longrightarrow> set (enum s) = s \<and> distinct (enum s)"
  shows "FindUsedCalleeSaveRegs enum f = sorted_list_of_set
    {r. IsCalleeSaved r \<and> (\<exists>i\<in>set (lin_code f). scanned i \<and> R r \<in> mentioned i)}"
proof -
  let ?u = "set (concat (map collectRegsFromInst (lin_code f)))"
  have "sorted_list_of_set (set (filter IsCalleeSaved (enum ?u))) = sort (filter IsCalleeSaved (enum ?u))"
    using assms by (intro sorted_list_of_set_sort_remdups [THEN trans]) (simp add: distinct_remdups_id)
  moreover have "set (filter IsCalleeSaved (enum ?u)) =
      {r. IsCalleeSaved r \<and> (\<exists>i\<in>set (lin_code f). scanned i \<and> R r \<in> mentioned i)}"
    using assms by (auto simp: collectRegsFromInst_mentioned)
  ultimately show ?thesis
    by (simp add: FindUsedCalleeSaveRegs_def sortRegs_eq stacking_IsCalleeSaved_eq)
qed

theorem FindUsedCalleeSaveRegs_exact_witness:
  "FindUsedCalleeSaveRegs (\<lambda>s. rev (sorted_list_of_set s)) frame_example = [X19, X20]"
proof -
  have "{r. IsCalleeSaved r \<and> (\<exists>i\<in>set (lin_code frame_example). scanned i \<and> R r \<in> mentioned i)} = {X19, X20}"
    by (auto simp: frame_example_def IsCalleeSaved_iff)
  with FindUsedCalleeSaveRegs_exact [of "\<lambda>s. rev (sorted_list_of_set s)" frame_example] show ?thesis
    by simp
qed

end
