(* ===== verification/Stacking.thy ===== *)
theory Stacking
  imports Frame
begin

text \<open>
  The stacking pass (\<open>pkg/stacking/transform.go\<close>): Linear functions become Mach functions. Spilled
  operands are loaded into the scratch registers \<open>X16\<close> and \<open>X17\<close>; a spilled result goes through
  \<open>X16\<close>. Where the code panics, the model returns the panic as a value.
\<close>

section \<open>The code\<close>

datatype stacking_panic =
    Too_many_slot_arguments
  | Stack_slot_in_register_position
  | Unknown_location

definition stackingTempRegs :: "mreg list" where
  "stackingTempRegs = [X16, X17]"

text \<open>\<open>ensureInReg\<close>: the register and the instructions it appends.\<close>

fun ensureInReg :: "frameLayout \<Rightarrow> loc \<Rightarrow> nat \<Rightarrow> stacking_panic + mreg \<times> mach_instr list" where
  "ensureInReg l (R r) tempIdx = Inr (r, [])"
| "ensureInReg l (S k ofs t) tempIdx =
     (if length stackingTempRegs \<le> tempIdx then Inl Too_many_slot_arguments
      else Inr (stackingTempRegs ! tempIdx, [TranslateGetstack l k ofs t (stackingTempRegs ! tempIdx)]))"
| "ensureInReg l LNil tempIdx = Inl Unknown_location"

definition sum_bind :: "'e + 'a \<Rightarrow> ('a \<Rightarrow> 'e + 'b) \<Rightarrow> 'e + 'b" where
  "sum_bind x f = (case x of Inl e \<Rightarrow> Inl e | Inr a \<Rightarrow> f a)"

fun locsToRegsWithSpill ::
  "frameLayout \<Rightarrow> loc list \<Rightarrow> nat \<Rightarrow> stacking_panic + mreg list \<times> mach_instr list" where
  "locsToRegsWithSpill l [] tempIdx = Inr ([], [])"
| "locsToRegsWithSpill l (a # as) tempIdx =
     sum_bind (ensureInReg l a tempIdx) (\<lambda>(r, code).
     sum_bind (locsToRegsWithSpill l as (Suc tempIdx)) (\<lambda>(rs, code').
     Inr (r # rs, code @ code')))"

text \<open>The argument loop of \<open>transformLop\<close>: only slots use up scratch registers.\<close>

fun lop_args :: "frameLayout \<Rightarrow> loc list \<Rightarrow> nat \<Rightarrow> stacking_panic + mreg list \<times> mach_instr list" where
  "lop_args l [] tempIdx = Inr ([], [])"
| "lop_args l (R r # as) tempIdx =
     sum_bind (lop_args l as tempIdx) (\<lambda>(rs, code). Inr (r # rs, code))"
| "lop_args l (S k ofs t # as) tempIdx =
     (if length stackingTempRegs \<le> tempIdx then Inl Too_many_slot_arguments
      else let tempReg = stackingTempRegs ! tempIdx in
        sum_bind (lop_args l as (Suc tempIdx)) (\<lambda>(rs, code).
        Inr (tempReg # rs, TranslateGetstack l k ofs t tempReg # code)))"
| "lop_args l (LNil # as) tempIdx = Inl Unknown_location"

text \<open>The register an instruction computes into, and the store that follows if the result is a slot.\<close>

fun dest_reg :: "frameLayout \<Rightarrow> loc \<Rightarrow> stacking_panic + mreg \<times> mach_instr list" where
  "dest_reg l (R r) = Inr (r, [])"
| "dest_reg l (S k ofs t) =
     Inr (stackingTempRegs ! 0, [TranslateSetstack l (stackingTempRegs ! 0) k ofs t])"
| "dest_reg l LNil = Inl Unknown_location"

definition transformLop :: "frameLayout \<Rightarrow> operation \<Rightarrow> loc list \<Rightarrow> loc \<Rightarrow> stacking_panic + mach_instr list" where
  "transformLop l op as d =
     sum_bind (lop_args l as 0) (\<lambda>(args, result).
     if d = LNil then Inr (result @ [Mop op args 0])
     else sum_bind (dest_reg l d) (\<lambda>(destReg, store).
       Inr (result @ [Mop op args destReg] @ store)))"

definition transformLload ::
  "frameLayout \<Rightarrow> chunk \<Rightarrow> addressingMode \<Rightarrow> loc list \<Rightarrow> loc \<Rightarrow> stacking_panic + mach_instr list" where
  "transformLload l ch addr as d =
     sum_bind (locsToRegsWithSpill l as 0) (\<lambda>(args, result).
     sum_bind (dest_reg l d) (\<lambda>(destReg, store).
     Inr (result @ [Mload ch addr args destReg] @ store)))"

definition transformLstore ::
  "frameLayout \<Rightarrow> chunk \<Rightarrow> addressingMode \<Rightarrow> loc list \<Rightarrow> loc \<Rightarrow> stacking_panic + mach_instr list" where
  "transformLstore l ch addr as src =
     sum_bind (locsToRegsWithSpill l as 0) (\<lambda>(args, result).
     sum_bind (ensureInReg l src (length as)) (\<lambda>(r, result').
     Inr (result @ result' @ [Mstore ch addr args r])))"

definition transformLcond ::
  "frameLayout \<Rightarrow> conditionCode \<Rightarrow> loc list \<Rightarrow> label \<Rightarrow> stacking_panic + mach_instr list" where
  "transformLcond l cond as ifso =
     sum_bind (locsToRegsWithSpill l as 0) (\<lambda>(args, result). Inr (result @ [Mcond cond args ifso]))"

definition transformLjumptable :: "frameLayout \<Rightarrow> loc \<Rightarrow> label list \<Rightarrow> stacking_panic + mach_instr list" where
  "transformLjumptable l a targets =
     sum_bind (ensureInReg l a 0) (\<lambda>(r, result). Inr (result @ [Mjumptable r targets]))"

definition transformLbuiltin ::
  "frameLayout \<Rightarrow> string \<Rightarrow> loc list \<Rightarrow> loc option \<Rightarrow> stacking_panic + mach_instr list" where
  "transformLbuiltin l bf as d =
     sum_bind (locsToRegsWithSpill l as 0) (\<lambda>(args, result).
     case d of
       None \<Rightarrow> Inr (result @ [Mbuiltin bf args None])
     | Some loc \<Rightarrow> sum_bind (dest_reg l loc) (\<lambda>(destReg, store).
         Inr (result @ [Mbuiltin bf args (Some destReg)] @ store)))"

fun locToReg :: "loc \<Rightarrow> stacking_panic + mreg" where
  "locToReg (R r) = Inr r"
| "locToReg (S _ _ _) = Inl Stack_slot_in_register_position"
| "locToReg LNil = Inl Unknown_location"

fun transformFunRef :: "loc funRef \<Rightarrow> stacking_panic + mreg funRef" where
  "transformFunRef (FunReg a) = sum_bind (locToReg a) (\<lambda>r. Inr (FunReg r))"
| "transformFunRef (FunSymbol s) = Inr (FunSymbol s)"

fun transformInst :: "frameLayout \<Rightarrow> calleeSaveInfo \<Rightarrow> linear_instr \<Rightarrow> stacking_panic + mach_instr list" where
  "transformInst l cs (Lgetstack k ofs t d) = Inr [TranslateGetstack l k ofs t d]"
| "transformInst l cs (Lsetstack src k ofs t) = Inr [TranslateSetstack l src k ofs t]"
| "transformInst l cs (LopL op as d) = transformLop l op as d"
| "transformInst l cs (LloadL ch addr as d) = transformLload l ch addr as d"
| "transformInst l cs (LstoreL ch addr as src) = transformLstore l ch addr as src"
| "transformInst l cs (LcallL sg fn) = sum_bind (transformFunRef fn) (\<lambda>f. Inr [Mcall sg f])"
| "transformInst l cs (LtailcallL sg fn) =
     sum_bind (transformFunRef fn) (\<lambda>f. Inr (GenerateTailEpilogue l cs @ [Mtailcall sg f]))"
| "transformInst l cs (LbuiltinL bf as d) = transformLbuiltin l bf as d"
| "transformInst l cs (Llabel lbl) = Inr [Mlabel lbl]"
| "transformInst l cs (Lgoto lbl) = Inr [Mgoto lbl]"
| "transformInst l cs (LcondL cond as lbl) = transformLcond l cond as lbl"
| "transformInst l cs (LjumptableL a ts) = transformLjumptable l a ts"
| "transformInst l cs LreturnL = Inr (GenerateEpilogue l cs)"

fun transform_body :: "frameLayout \<Rightarrow> calleeSaveInfo \<Rightarrow> linear_instr list \<Rightarrow> stacking_panic + mach_instr list" where
  "transform_body l cs [] = Inr []"
| "transform_body l cs (i # is) =
     sum_bind (transformInst l cs i) (\<lambda>c. sum_bind (transform_body l cs is) (\<lambda>c'. Inr (c @ c')))"

text \<open>\<open>transformer.transform\<close>; there is no result if the loop of \<open>GenerateParamCopies\<close> does not end.\<close>

definition stacking_Transform ::
  "(mreg set \<Rightarrow> mreg list) \<Rightarrow> (nat \<Rightarrow> mreg list) \<Rightarrow> linear_function \<Rightarrow> (stacking_panic + mach_function) option" where
  "stacking_Transform enum ord f =
     (let used = PadToEven (FindUsedCalleeSaveRegs enum f);
          l = ComputeLayout f (int (length used));
          cs = ComputeCalleeSaveInfo l used
      in map_option (\<lambda>copies.
           sum_bind (transform_body l cs (lin_code f)) (\<lambda>body.
           Inr ((mach_NewFunction (lin_name f) (lin_sig f))
             \<lparr>mach_stacksize := fl_TotalSize l, mach_calleeSaveRegs := used,
              mach_usesFramePtr := fl_UseFramePointer l,
              mach_code := GeneratePrologue l cs @ copies @ body\<rparr>)))
         (GenerateParamCopies ord (lin_params f) l))"

fun stacking_functions ::
  "(mreg set \<Rightarrow> mreg list) \<Rightarrow> (nat \<Rightarrow> mreg list) \<Rightarrow> linear_function list \<Rightarrow>
   (stacking_panic + mach_function list) option" where
  "stacking_functions enum ord [] = Some (Inr [])"
| "stacking_functions enum ord (f # fs) =
     Option.bind (stacking_Transform enum ord f) (\<lambda>g.
       case g of Inl e \<Rightarrow> Some (Inl e)
       | Inr g \<Rightarrow> map_option (\<lambda>gs. sum_bind gs (\<lambda>gs. Inr (g # gs))) (stacking_functions enum ord fs))"

definition stacking_TransformProgram ::
  "(mreg set \<Rightarrow> mreg list) \<Rightarrow> (nat \<Rightarrow> mreg list) \<Rightarrow> linear_program \<Rightarrow> (stacking_panic + mach_program) option" where
  "stacking_TransformProgram enum ord p =
     map_option (\<lambda>fs. sum_bind fs (\<lambda>fs. Inr \<lparr>mach_globals = lin_globals p, mach_functions = fs\<rparr>))
       (stacking_functions enum ord (lin_functions p))"

section \<open>Agreement of locations\<close>

lemma sum_bind_simps [simp]: "sum_bind (Inl e) f = Inl e" "sum_bind (Inr a) f = f a"
  by (simp_all add: sum_bind_def)

lemma sum_bind_Inr: "sum_bind x f = Inr b \<longleftrightarrow> (\<exists>a. x = Inr a \<and> f a = Inr b)"
  by (cases x) auto

text \<open>The registers that compiled code must leave to the stacking pass.\<close>

definition reserved :: "mreg set" where
  "reserved = {X16, X17, X29, X30}"

fun loc_ok :: "frameLayout \<Rightarrow> loc \<Rightarrow> bool" where
  "loc_ok l (R r) \<longleftrightarrow> r \<notin> reserved"
| "loc_ok l (S k ofs t) \<longleftrightarrow> in_frame l k ofs t"
| "loc_ok l LNil \<longleftrightarrow> False"

text \<open>
  The Mach state holds what the locations hold, the save area holds the values the callee-saved
  registers had on entry, and callee-saved registers that are not saved still have them.
\<close>

definition frame_agree ::
  "frameLayout \<Rightarrow> mreg list \<Rightarrow> (mreg \<Rightarrow> 'v) \<Rightarrow> 'v locset \<Rightarrow> (mreg \<Rightarrow> 'v) \<Rightarrow> 'v frame \<Rightarrow> bool" where
  "frame_agree l used rs0 ls rs fr \<longleftrightarrow>
     (\<forall>r. r \<notin> reserved \<longrightarrow> rs r = ls (R r)) \<and>
     (\<forall>k ofs t. in_frame l k ofs t \<longrightarrow> fr (TranslateSlotOffset l k ofs) t = ls (S k ofs t)) \<and>
     saved used rs0 fr \<and> (\<forall>r. IsCalleeSaved r \<longrightarrow> r \<notin> set used \<longrightarrow> rs r = rs0 r)"

lemma reserved_not_saved: "r \<in> reserved \<Longrightarrow> \<not> IsCalleeSaved r"
  by (auto simp: reserved_def IsCalleeSaved_iff)

lemma frame_agree_temp:
  assumes "frame_agree l used rs0 ls rs fr" and "r \<in> reserved"
  shows "frame_agree l used rs0 ls (rs(r := v)) fr"
  using assms reserved_not_saved [OF assms(2)] by (auto simp: frame_agree_def)

lemma frame_agree_reg:
  assumes "frame_agree l used rs0 ls rs fr" and "r \<notin> reserved" and "IsCalleeSaved r \<Longrightarrow> r \<in> set used"
  shows "frame_agree l used rs0 (ls(R r := v)) (rs(r := v)) fr"
  using assms by (auto simp: frame_agree_def)

lemma frame_agree_slot:
  assumes a: "frame_agree l used rs0 ls rs fr" and l: "layout_ok l" "8 * int (length used) \<le> fl_CalleeSaveSize l"
    and s: "in_frame l k ofs t"
  shows "frame_agree l used rs0 (loc_set M (S k ofs t) v ls) rs (frame_set M (TranslateSlotOffset l k ofs) t v fr)"
proof -
  let ?o = "TranslateSlotOffset l k ofs"
  have "frame_set M ?o t v fr (TranslateSlotOffset l k' ofs') t' = loc_set M (S k ofs t) v ls (S k' ofs' t')"
    if s': "in_frame l k' ofs' t'" for k' ofs' t'
  proof -
    have self: "share ofs (slotSize t) ofs (slotSize t)" for ofs t
      using slotSize_pos [of t] by (simp add: share_def)
    have "TranslateSlotOffset l k' ofs' = ?o \<and> t' = t \<longleftrightarrow> k' = k \<and> ofs' = ofs \<and> t' = t"
    proof
      assume e: "TranslateSlotOffset l k' ofs' = ?o \<and> t' = t"
      then have "k = k'" using slots_share [OF l(1) s s'] self [of ?o t] by simp
      with e show "k' = k \<and> ofs' = ofs \<and> t' = t"
        by (cases k) (simp_all add: LocalSlotOffset_def IncomingSlotOffset_def OutgoingSlotOffset_def)
    qed auto
    with slots_share [OF l(1) s s'] s' a show ?thesis
      by (auto simp: frame_set_def loc_set_def frame_agree_def share_def)
  qed
  moreover have "frame_set M ?o t v fr (save_offset i) Tlong = fr (save_offset i) Tlong"
    if "i < length used" for i
  proof (rule frame_set_apart)
    show "\<not> share ?o (slotSize t) (save_offset i) (slotSize Tlong)"
      using slots_below_frame_record [OF l(1) s] that l(2) by (auto simp: share_def)
  qed
  ultimately show ?thesis using a by (simp add: frame_agree_def saved_def loc_set_def)
qed

lemma frame_agree_loc:
  assumes "frame_agree l used rs0 ls rs fr" and "loc_ok l (R r)"
  shows "rs r = ls (R r)"
  using assms by (simp add: frame_agree_def)

lemma run_get:
  assumes "frame_agree l used rs0 ls rs fr" and "in_frame l k ofs t"
  shows "mach_effect M cc sp out (TranslateGetstack l k ofs t d) rs fr m = MFall (rs(d := ls (S k ofs t))) fr m"
proof -
  from assms have "fr (TranslateSlotOffset l k ofs) t = ls (S k ofs t)" by (simp add: frame_agree_def)
  then show ?thesis by (cases k) simp_all
qed

lemma run_set:
  "mach_effect M cc sp out (TranslateSetstack l r k ofs t) rs fr m =
     MFall rs (frame_set M (TranslateSlotOffset l k ofs) t (rs r) fr) m"
  by (cases k) simp_all

lemma translated_not_return [simp]:
  "TranslateGetstack l k ofs t d \<noteq> Mreturn" "TranslateSetstack l r k ofs t \<noteq> Mreturn"
  "Mreturn \<noteq> TranslateGetstack l k ofs t d" "Mreturn \<noteq> TranslateSetstack l r k ofs t"
  by (cases k; simp)+

section \<open>Operands\<close>

text \<open>
  The code \<open>code\<close> makes the operands \<open>as\<close> available in the registers \<open>regs\<close>. It writes no scratch
  register before the \<open>i\<close>-th.
\<close>

definition loads ::
  "('v, 'm) sem \<Rightarrow> (loc funRef \<Rightarrow> nat) \<Rightarrow> int64 \<Rightarrow> int64 \<Rightarrow> frameLayout \<Rightarrow> mreg list \<Rightarrow> nat \<Rightarrow>
   loc list \<Rightarrow> mreg list \<Rightarrow> mach_instr list \<Rightarrow> bool" where
  "loads M cc sp out l used i as regs code \<longleftrightarrow> Mreturn \<notin> set code \<and>
     (\<forall>rs0 ls rs fr m. frame_agree l used rs0 ls rs fr \<longrightarrow>
       (\<exists>rs'. mach_run M cc sp out code rs fr m = Some (rs', fr, m) \<and> frame_agree l used rs0 ls rs' fr \<and>
          map rs' regs = map ls as \<and> (\<forall>r < 16 + int i. rs' r = rs r)))"

lemma temp_reg: "i < 2 \<Longrightarrow> stackingTempRegs ! i = 16 + int i"
  by (auto simp: stackingTempRegs_def less_Suc_eq numeral_eq_Suc)

lemma length_stackingTempRegs [simp]: "length stackingTempRegs = 2"
  by (simp add: stackingTempRegs_def)

lemma loads_nil: "loads M cc sp out l used i [] [] []"
  by (auto simp: loads_def)

lemma loads_reg:
  assumes "loads M cc sp out l used j as regs code" and "i \<le> j" and "loc_ok l (R r)"
  shows "loads M cc sp out l used i (R r # as) (r # regs) code"
  using assms unfolding loads_def by (fastforce dest: frame_agree_loc)

lemma loads_slot:
  fixes M :: "('v, 'm) sem"
  assumes rest: "loads M cc sp out l used (Suc i) as regs code" and "i < 2" and ok: "in_frame l k ofs t"
  shows "loads M cc sp out l used i (S k ofs t # as) (stackingTempRegs ! i # regs)
    (TranslateGetstack l k ofs t (stackingTempRegs ! i) # code)"
  unfolding loads_def
proof (intro conjI allI impI)
  show "Mreturn \<notin> set (TranslateGetstack l k ofs t (stackingTempRegs ! i) # code)"
    using rest by (simp add: loads_def)
next
  fix rs0 :: "mreg \<Rightarrow> 'v" and ls rs fr and m :: 'm
  assume a: "frame_agree l used rs0 ls rs fr"
  let ?r = "stackingTempRegs ! i" and ?v = "ls (S k ofs t)"
  have r: "?r = 16 + int i" using \<open>i < 2\<close> by (rule temp_reg)
  then have "?r \<in> reserved" using \<open>i < 2\<close> by (auto simp: reserved_def)
  with a have "frame_agree l used rs0 ls (rs(?r := ?v)) fr" by (rule frame_agree_temp)
  with rest obtain rs' where "mach_run M cc sp out code (rs(?r := ?v)) fr m = Some (rs', fr, m)"
    "frame_agree l used rs0 ls rs' fr" "map rs' regs = map ls as" "\<forall>x < 16 + int (Suc i). rs' x = (rs(?r := ?v)) x"
    unfolding loads_def by blast
  with r show "\<exists>rs'. mach_run M cc sp out (TranslateGetstack l k ofs t ?r # code) rs fr m = Some (rs', fr, m) \<and>
      frame_agree l used rs0 ls rs' fr \<and> map rs' (?r # regs) = map ls (S k ofs t # as) \<and>
      (\<forall>x < 16 + int i. rs' x = rs x)"
    by (intro exI [of _ rs']) (simp add: run_get [OF a ok])
qed

lemma locsToRegsWithSpill_loads:
  "locsToRegsWithSpill l as i = Inr (regs, code) \<Longrightarrow> list_all (loc_ok l) as \<Longrightarrow>
     loads M cc sp out l used i as regs code"
proof (induction as arbitrary: i regs code)
  case (Cons a as)
  show ?case
  proof (cases a)
    case (R r)
    with Cons show ?thesis
      by (auto simp: sum_bind_Inr intro!: loads_reg [where j = "Suc i"])
  next
    case (S k ofs t)
    with Cons show ?thesis
      by (auto simp: sum_bind_Inr split: if_splits intro!: loads_slot)
  qed (use Cons in simp)
qed (simp add: loads_nil)

lemma lop_args_loads:
  "lop_args l as i = Inr (regs, code) \<Longrightarrow> list_all (loc_ok l) as \<Longrightarrow>
     loads M cc sp out l used i as regs code"
  by (induction l as i arbitrary: regs code rule: lop_args.induct)
    (auto simp: sum_bind_Inr Let_def loads_nil split: if_splits intro!: loads_slot loads_reg)

text \<open>The operands of a store are the address and, last, the value.\<close>

lemma locsToRegsWithSpill_snoc:
  "locsToRegsWithSpill l (as @ [a]) i =
     sum_bind (locsToRegsWithSpill l as i) (\<lambda>(rs, code). sum_bind (ensureInReg l a (i + length as)) (\<lambda>(r, code').
       Inr (rs @ [r], code @ code')))"
  by (induction as arbitrary: i)
    (auto simp: sum_bind_def split: sum.splits prod.splits)

lemma locsToRegsWithSpill_single:
  "locsToRegsWithSpill l [a] i = sum_bind (ensureInReg l a i) (\<lambda>(r, code). Inr ([r], code))"
  by (auto simp: sum_bind_def split: sum.splits prod.splits)

section \<open>Results\<close>

lemma dest_written:
  assumes a: "frame_agree l used rs0 ls rs fr" and l: "layout_ok l" "8 * int (length used) \<le> fl_CalleeSaveSize l"
    and d: "dest_reg l d = Inr (r, store)" "loc_ok l d" "\<forall>r\<in>set (loc_regs d). IsCalleeSaved r \<longrightarrow> r \<in> set used"
  shows "\<exists>rs' fr'. mach_run M cc sp out store (rs(r := v)) fr m = Some (rs', fr', m) \<and>
    frame_agree l used rs0 (loc_set M d v ls) rs' fr' \<and> Mreturn \<notin> set store"
proof (cases d)
  case (R r')
  with assms show ?thesis by (auto intro: frame_agree_reg)
next
  case (S k ofs t)
  with d have r: "r = X16" and st: "store = [TranslateSetstack l X16 k ofs t]" and ok: "in_frame l k ofs t"
    by (auto simp: stackingTempRegs_def)
  have "frame_agree l used rs0 ls (rs(X16 := v)) fr" using a by (rule frame_agree_temp) (simp add: reserved_def)
  from frame_agree_slot [OF this l ok, of M v] show ?thesis
    unfolding st r S by (auto simp: run_set)
qed (use d in simp)

section \<open>Shape of the generated code\<close>

definition plain :: "mach_instr list \<Rightarrow> bool" where
  "plain c \<longleftrightarrow> Mreturn \<notin> set c \<and> (\<forall>lbl. Mlabel lbl \<notin> set c)"

lemma plain_simps [simp]:
  "plain []" "plain (i # c) \<longleftrightarrow> i \<noteq> Mreturn \<and> (\<forall>lbl. i \<noteq> Mlabel lbl) \<and> plain c"
  "plain (c @ d) \<longleftrightarrow> plain c \<and> plain d"
  by (auto simp: plain_def)

lemma plain_translated [simp]:
  "TranslateGetstack l k ofs t d \<noteq> Mlabel lbl" "TranslateSetstack l r k ofs t \<noteq> Mlabel lbl"
  by (cases k; simp)+

lemma ensureInReg_plain: "ensureInReg l a i = Inr (r, c) \<Longrightarrow> plain c"
  by (cases a) (auto split: if_splits)

lemma locsToRegsWithSpill_plain: "locsToRegsWithSpill l as i = Inr (rs, c) \<Longrightarrow> plain c"
  by (induction as arbitrary: i rs c) (auto simp: sum_bind_Inr dest: ensureInReg_plain)

lemma lop_args_plain: "lop_args l as i = Inr (rs, c) \<Longrightarrow> plain c"
  by (induction l as i arbitrary: rs c rule: lop_args.induct)
    (auto simp: sum_bind_Inr Let_def split: if_splits)

lemma dest_reg_plain: "dest_reg l d = Inr (r, c) \<Longrightarrow> plain c"
  by (cases d) auto

lemmas operand_plain = ensureInReg_plain locsToRegsWithSpill_plain lop_args_plain dest_reg_plain

lemmas transform_defs = transformLop_def transformLload_def transformLstore_def transformLcond_def
  transformLjumptable_def transformLbuiltin_def

lemma plain_restore_code: "plain (restore_code regs)"
  by (auto simp: plain_def restore_code_def)

lemma plain_save_code: "plain (save_code regs)"
  by (auto simp: plain_def save_code_def)

text \<open>A generated epilogue or prologue: an even number of saved registers.\<close>

lemma tail_epilogue_plain:
  assumes "even (length used)" and "0 < fl_TotalSize l"
  shows "plain (GenerateTailEpilogue l (ComputeCalleeSaveInfo l used))"
  unfolding GenerateTailEpilogue_def GenerateEpilogue_eq [OF assms]
  by (simp add: butlast_append plain_restore_code)

lemma transformInst_plain:
  assumes "transformInst l (ComputeCalleeSaveInfo l used) i = Inr c" and "i \<noteq> LreturnL" and "\<forall>lbl. i \<noteq> Llabel lbl"
    and "even (length used)" and "0 < fl_TotalSize l"
  shows "plain c"
  using assms
  by (cases i) (auto simp: transform_defs sum_bind_Inr tail_epilogue_plain
      split: if_splits option.splits dest: operand_plain, auto dest: operand_plain)

lemma transformInst_nonempty:
  assumes "transformInst l cs i = Inr c"
  shows "c \<noteq> []"
  using assms
  by (cases i) (auto simp: transform_defs sum_bind_Inr GenerateEpilogue_def Let_def split: if_splits option.splits)

lemma transform_body_far:
  assumes "transform_body l (ComputeCalleeSaveInfo l used) is = Inr c" and "even (length used)" and "0 < fl_TotalSize l"
  shows "far c"
  using assms(1)
proof (induction "is" arbitrary: c)
  case Nil
  then show ?case by (simp add: far_def)
next
  case (Cons i "is")
  then obtain c1 c2 where c: "transformInst l (ComputeCalleeSaveInfo l used) i = Inr c1" "c = c1 @ c2" "far c2"
    by (auto simp: sum_bind_Inr)
  show ?case
  proof (cases "i = LreturnL")
    case True
    then have "c1 = restore_code used @
      [Mgetstack (fl_TotalSize l - 16) Tlong X29, Mgetstack (fl_TotalSize l - 16 + 8) Tlong X30,
       Mop (Olong (Oaddlimm (fl_TotalSize l))) [] X29, Mreturn]"
      using c(1) GenerateEpilogue_eq [OF assms(2,3)] by simp
    moreover have "far ([Mgetstack (fl_TotalSize l - 16) Tlong X29, Mgetstack (fl_TotalSize l - 16 + 8) Tlong X30,
       Mop (Olong (Oaddlimm (fl_TotalSize l))) [] X29, Mreturn] @ c2)"
      by (simp add: far_def)
    ultimately show ?thesis using c(2) far_append [OF no_return_code(2)] by simp
  next
    case False
    have "Mreturn \<notin> set c1"
      using transformInst_plain [OF c(1) False _ assms(2,3)] c(1) by (cases i) (auto simp: plain_def)
    then show ?thesis using c far_append by blast
  qed
qed

text \<open>A label of the Linear code is found in the translated code, before the translated rest.\<close>

lemma mach_find_label_append:
  "\<forall>lbl. Mlabel lbl \<notin> set c \<Longrightarrow> mach_find_label lbl (c @ d) = mach_find_label lbl d"
  by (induction c) auto

lemma epilogue_no_label:
  assumes "even (length used)" and "0 < fl_TotalSize l"
  shows "Mlabel lbl \<notin> set (GenerateEpilogue l (ComputeCalleeSaveInfo l used))"
  unfolding GenerateEpilogue_eq [OF assms] using plain_restore_code by (auto simp: plain_def)

lemma find_label_transform:
  assumes "even (length used)" and "0 < fl_TotalSize l"
  shows "transform_body l (ComputeCalleeSaveInfo l used) is = Inr c \<Longrightarrow> find_label lbl is = Some is' \<Longrightarrow>
    \<exists>c'. mach_find_label lbl c = Some c' \<and> transform_body l (ComputeCalleeSaveInfo l used) is' = Inr c'"
proof (induction "is" arbitrary: c)
  case (Cons i "is")
  then obtain c1 c2 where c: "transformInst l (ComputeCalleeSaveInfo l used) i = Inr c1" "c = c1 @ c2"
    "transform_body l (ComputeCalleeSaveInfo l used) is = Inr c2"
    by (auto simp: sum_bind_Inr)
  show ?case
  proof (cases "\<exists>k. i = Llabel k")
    case True
    with Cons c show ?thesis by (auto split: if_splits)
  next
    case False
    then have "\<forall>k. Mlabel k \<notin> set c1"
      using transformInst_plain [OF c(1) _ _ assms] epilogue_no_label [OF assms] c(1)
      by (cases "i = LreturnL") (auto simp: plain_def)
    with False Cons c show ?thesis by (auto simp: mach_find_label_append)
  qed
qed simp

section \<open>Simulation\<close>

text \<open>The instructions the pass handles: proper locations, no tail calls, results of builtins kept.\<close>

fun fun_ok :: "frameLayout \<Rightarrow> loc funRef \<Rightarrow> bool" where
  "fun_ok l (FunReg a) \<longleftrightarrow> loc_ok l a"
| "fun_ok l (FunSymbol s) \<longleftrightarrow> True"

fun instr_ok :: "frameLayout \<Rightarrow> mreg list \<Rightarrow> linear_instr \<Rightarrow> bool" where
  "instr_ok l used (Lgetstack k ofs t d) \<longleftrightarrow> in_frame l k ofs t \<and> loc_ok l (R d)"
| "instr_ok l used (Lsetstack src k ofs t) \<longleftrightarrow> in_frame l k ofs t \<and> loc_ok l (R src)"
| "instr_ok l used (LopL op as d) \<longleftrightarrow> list_all (loc_ok l) (d # as)"
| "instr_ok l used (LloadL ch addr as d) \<longleftrightarrow> list_all (loc_ok l) (d # as)"
| "instr_ok l used (LstoreL ch addr as src) \<longleftrightarrow> list_all (loc_ok l) (src # as)"
| "instr_ok l used (LcallL sg fn) \<longleftrightarrow> fun_ok l fn"
| "instr_ok l used (LtailcallL sg fn) \<longleftrightarrow> False"
| "instr_ok l used (LbuiltinL bf as d) \<longleftrightarrow> list_all (loc_ok l) as \<and>
     (case d of None \<Rightarrow> True | Some a \<Rightarrow> loc_ok l a \<and> (\<forall>r \<in> set (loc_regs a). IsCalleeSaved r \<longrightarrow> r \<in> set used))"
| "instr_ok l used (LcondL cond as lbl) \<longleftrightarrow> list_all (loc_ok l) as"
| "instr_ok l used (LjumptableL a ts) \<longleftrightarrow> loc_ok l a"
| "instr_ok l used _ \<longleftrightarrow> True"

text \<open>The callee-saved registers an instruction mentions are saved, and calls find their arguments.\<close>

definition regs_kept :: "mreg list \<Rightarrow> linear_instr \<Rightarrow> bool" where
  "regs_kept used i \<longleftrightarrow> (\<forall>r \<in> set (collectRegsFromInst i). IsCalleeSaved r \<longrightarrow> r \<in> set used)"

definition call_fits :: "('v, 'm) sem \<Rightarrow> (loc funRef \<Rightarrow> nat) \<Rightarrow> frameLayout \<Rightarrow> linear_instr \<Rightarrow> bool" where
  "call_fits M cc l i \<longleftrightarrow> (\<forall>sg fn. i = LcallL sg fn \<longrightarrow> cc fn \<le> 8 \<and>
     (\<forall>v m. 8 * int (sem_arity M sg v m - cc fn) \<le> fl_OutgoingSize l))"

abbreviation (input) frame_sp :: "frameLayout \<Rightarrow> int64" where "frame_sp l \<equiv> - (fl_TotalSize l - 16)"

lemma fun_value_agree:
  assumes "frame_agree l used rs0 ls rs fr" and "transformFunRef fn = Inr f" and "fun_ok l fn"
  shows "mach_fun_value rs f = fun_value ls fn" and "map_funRef R f = fn"
proof -
  from assms show "map_funRef R f = fn"
    by (cases fn; cases "case fn of FunReg a \<Rightarrow> a | _ \<Rightarrow> LNil") (auto simp: sum_bind_Inr)
  with assms show "mach_fun_value rs f = fun_value ls fn"
    by (cases f) (auto simp: mach_fun_value_def fun_value_def dest: frame_agree_loc)
qed

lemma args_agree:
  assumes a: "frame_agree l used rs0 ls rs fr" and "k \<le> 8" and "8 * int (n - k) \<le> fl_OutgoingSize l" and "i < n"
  shows "mach_arg k (frame_sp l) rs fr i = ls (arg_loc k i)"
proof (cases "i < k")
  case True
  with assms(2) have "int i \<notin> reserved" by (auto simp: reserved_def)
  with a True show ?thesis by (simp add: mach_arg_def arg_loc_def frame_agree_def)
next
  case False
  with assms(3,4) have "in_frame l SlotOutgoing (8 * int (i - k)) Tlong" by auto
  with a have "fr (TranslateSlotOffset l SlotOutgoing (8 * int (i - k))) Tlong = ls (S SlotOutgoing (8 * int (i - k)) Tlong)"
    unfolding frame_agree_def by blast
  with False show ?thesis by (simp add: mach_arg_def arg_loc_def OutgoingSlotOffset_def)
qed

lemma frame_agree_call:
  assumes a: "frame_agree l used rs0 ls rs fr" and l: "layout_ok l" "8 * int (length used) \<le> fl_CalleeSaveSize l"
  shows "frame_agree l used rs0 (after_call M v ls) (regs_after_call M v rs)
    (frame_after_call M (frame_sp l) (fl_OutgoingSize l) fr)"
proof -
  have "frame_after_call M (frame_sp l) (fl_OutgoingSize l) fr (TranslateSlotOffset l k ofs) t = after_call M v ls (S k ofs t)"
    if "in_frame l k ofs t" for k ofs t
  proof -
    have "share (frame_sp l) (fl_OutgoingSize l) (TranslateSlotOffset l k ofs) (slotSize t) \<longleftrightarrow> k = SlotOutgoing"
      using that l(1) by (cases k; cases t) (auto simp: layout_defs)
    moreover have "fr (TranslateSlotOffset l k ofs) t = ls (S k ofs t)" using that a by (simp add: frame_agree_def)
    ultimately show ?thesis by (cases k) (simp_all add: frame_after_call_def after_call_def)
  qed
  moreover have "saved used rs0 (frame_after_call M (frame_sp l) (fl_OutgoingSize l) fr)"
    using a l unfolding frame_agree_def saved_def frame_after_call_def by (auto simp: layout_defs)
  moreover have "\<not> IsCalleeSaved X0" by (simp add: IsCalleeSaved_iff)
  ultimately show ?thesis
    using a by (auto simp: frame_agree_def regs_after_call_def after_call_def reserved_def)
qed

lemma loads_then:
  assumes "loads M cc sp out l used 0 as args code" and "frame_agree l used rs0 ls rs fr"
    and step: "\<And>rs1. map rs1 args = map ls as \<Longrightarrow> mach_effect M cc sp out i rs1 fr m = MFall rs1 fr m'"
  shows "\<exists>rs' fr'. mach_run M cc sp out (code @ [i]) rs fr m = Some (rs', fr', m') \<and> frame_agree l used rs0 ls rs' fr'"
proof -
  from assms(1,2) obtain rs1 where "mach_run M cc sp out code rs fr m = Some (rs1, fr, m)"
    "frame_agree l used rs0 ls rs1 fr" "map rs1 args = map ls as"
    unfolding loads_def by blast
  with step [of rs1] show ?thesis by (simp add: mach_run_append)
qed

lemma loads_compute:
  assumes "loads M cc sp out l used 0 as args code" and "frame_agree l used rs0 ls rs fr"
    and l: "layout_ok l" "8 * int (length used) \<le> fl_CalleeSaveSize l"
    and d: "dest_reg l d = Inr (r, store)" "loc_ok l d" "\<forall>r\<in>set (loc_regs d). IsCalleeSaved r \<longrightarrow> r \<in> set used"
    and step: "\<And>rs1. map rs1 args = map ls as \<Longrightarrow> mach_effect M cc sp out i rs1 fr m = MFall (rs1(r := v)) fr m'"
  shows "\<exists>rs' fr'. mach_run M cc sp out (code @ [i] @ store) rs fr m = Some (rs', fr', m') \<and>
    frame_agree l used rs0 (loc_set M d v ls) rs' fr'"
proof -
  from assms(1,2) obtain rs1 where rs1: "mach_run M cc sp out code rs fr m = Some (rs1, fr, m)"
    "frame_agree l used rs0 ls rs1 fr" "map rs1 args = map ls as"
    unfolding loads_def by blast
  from dest_written [where M = M and cc = cc and sp = sp and out = out and v = v and m = m', OF rs1(2) l d] obtain rs' fr' where
    "mach_run M cc sp out store (rs1(r := v)) fr m' = Some (rs', fr', m')"
    "frame_agree l used rs0 (loc_set M d v ls) rs' fr'" by blast
  with rs1 step [OF rs1(3)] show ?thesis by (simp add: mach_run_append)
qed

lemma fall_simulated:
  assumes a: "frame_agree l used rs0 ls rs fr" and l: "layout_ok l" "8 * int (length used) \<le> fl_CalleeSaveSize l"
    and i: "instr_ok l used i" "regs_kept used i" "call_fits M cc l i"
    and c: "transformInst l cs i = Inr c" and e: "effect M cc i ls m = Fall ls' m'"
  shows "\<exists>rs' fr'. mach_run M cc (frame_sp l) (fl_OutgoingSize l) c rs fr m = Some (rs', fr', m') \<and>
    frame_agree l used rs0 ls' rs' fr'"
proof (cases i)
  case (Lgetstack k ofs t d)
  with a i c e show ?thesis by (auto simp: run_get regs_kept_def intro!: frame_agree_reg)
next
  case (Lsetstack src k ofs t)
  with i have s: "in_frame l k ofs t" and r: "rs src = ls (R src)" using a by (auto dest: frame_agree_loc)
  with Lsetstack c e frame_agree_slot [OF a l s, of M "rs src"] show ?thesis by (auto simp: run_set)
next
  case (LopL op as d)
  with i c obtain args code r store where *: "lop_args l as 0 = Inr (args, code)" "dest_reg l d = Inr (r, store)"
    "c = code @ [Mop op args r] @ store" "list_all (loc_ok l) as" "loc_ok l d"
    by (auto simp: transform_defs sum_bind_Inr split: if_splits)
  from LopL e obtain v where v: "eval_op M op (map ls as) m = Some v" "ls' = loc_set M d v ls" "m' = m"
    by (auto split: option.splits)
  show ?thesis unfolding *(3) v(2,3)
    by (rule loads_compute [OF lop_args_loads [OF *(1,4)] a l *(2,5)])
      (use i(2) LopL v(1) in \<open>auto simp: regs_kept_def\<close>)
next
  case (LloadL ch addr as d)
  with i c obtain args code r store where *: "locsToRegsWithSpill l as 0 = Inr (args, code)"
    "dest_reg l d = Inr (r, store)" "c = code @ [Mload ch addr args r] @ store" "list_all (loc_ok l) as" "loc_ok l d"
    by (auto simp: transform_defs sum_bind_Inr)
  from LloadL e obtain v where v: "sem_load M ch addr (map ls as) m = Some v" "ls' = loc_set M d v ls" "m' = m"
    by (auto split: option.splits)
  show ?thesis unfolding *(3) v(2,3)
    by (rule loads_compute [OF locsToRegsWithSpill_loads [OF *(1,4)] a l *(2,5)])
      (use i(2) LloadL v(1) in \<open>auto simp: regs_kept_def\<close>)
next
  case (LstoreL ch addr as src)
  with c obtain args r code where *: "locsToRegsWithSpill l (as @ [src]) 0 = Inr (args @ [r], code)"
    "c = code @ [Mstore ch addr args r]"
    by (auto simp: transform_defs sum_bind_Inr locsToRegsWithSpill_snoc)
  from i LstoreL have ok: "list_all (loc_ok l) (as @ [src])" by simp
  from LstoreL e have v: "sem_store M ch addr (map ls as) (ls src) m = Some m'" "ls' = ls"
    by (auto split: option.splits)
  show ?thesis unfolding *(2) v(2)
    by (rule loads_then [OF locsToRegsWithSpill_loads [OF *(1) ok] a]) (use v(1) in auto)
next
  case (LbuiltinL bf as d)
  with i c obtain args code where **: "locsToRegsWithSpill l as 0 = Inr (args, code)" "list_all (loc_ok l) as"
    by (auto simp: transform_defs sum_bind_Inr)
  from LbuiltinL e obtain v where v: "sem_builtin M bf (map ls as) m = Some (v, m')" "ls' = set_result M d v ls"
    by (auto split: option.splits)
  show ?thesis
  proof (cases d)
    case None
    with LbuiltinL c ** v have *: "c = code @ [Mbuiltin bf args None]" "ls' = ls"
      by (auto simp: transform_defs set_result_def)
    show ?thesis unfolding *
      by (rule loads_then [OF locsToRegsWithSpill_loads [OF **] a]) (use v(1) in auto)
  next
    case (Some x)
    with LbuiltinL c ** v obtain r store where *: "dest_reg l x = Inr (r, store)"
      "c = code @ [Mbuiltin bf args (Some r)] @ store" "ls' = loc_set M x v ls"
      by (auto simp: transform_defs sum_bind_Inr set_result_def)
    show ?thesis unfolding *(2,3)
      by (rule loads_compute [OF locsToRegsWithSpill_loads [OF **] a l *(1)])
        (use Some LbuiltinL v(1) i(1) in auto)
  qed
next
  case (LcondL cnd as lbl)
  with i c obtain args code where *: "locsToRegsWithSpill l as 0 = Inr (args, code)" "list_all (loc_ok l) as"
    "c = code @ [Mcond cnd args lbl]"
    by (auto simp: transform_defs sum_bind_Inr)
  from LcondL e have v: "sem_cond M cnd (map ls as) m = Some False" "ls' = ls" "m' = m"
    by (auto split: option.splits bool.splits)
  show ?thesis unfolding *(3) v(2,3)
    by (rule loads_then [OF locsToRegsWithSpill_loads [OF *(1,2)] a]) (use v(1) in auto)
next
  case (LcallL sg fn)
  with c obtain f where f: "transformFunRef fn = Inr f" "c = [Mcall sg f]" by (auto simp: sum_bind_Inr)
  have v: "mach_fun_value rs f = fun_value ls fn" "map_funRef R f = fn"
    using fun_value_agree [OF a f(1)] i(1) LcallL by auto
  have "map (mach_arg (cc fn) (frame_sp l) rs fr) [0..<n] = map (\<lambda>i. ls (arg_loc (cc fn) i)) [0..<n]"
    if "n = sem_arity M sg (fun_value ls fn) m" for n
    using that i(3) args_agree [OF a, of "cc fn" n] LcallL by (auto simp: call_fits_def)
  with LcallL f v e frame_agree_call [OF a l, of M] show ?thesis
    by (auto simp del: map_eq_conv split: option.splits)
qed (use c e a in \<open>auto split: option.splits\<close>)

lemma jump_simulated:
  assumes a: "frame_agree l used rs0 ls rs fr" and i: "instr_ok l used i"
    and c: "transformInst l cs i = Inr c" and e: "effect M cc i ls m = Jump lbl"
  shows "\<exists>pre j rs'. c = pre @ [j] \<and> mach_run M cc sp out pre rs fr m = Some (rs', fr, m) \<and> Mreturn \<notin> set pre \<and>
    frame_agree l used rs0 ls rs' fr \<and> mach_effect M cc sp out j rs' fr m = MJump lbl"
proof -
  obtain as regs pre j where ld: "locsToRegsWithSpill l as 0 = Inr (regs, pre)" "list_all (loc_ok l) as" "c = pre @ [j]"
    and j: "\<And>rs'. map rs' regs = map ls as \<Longrightarrow> mach_effect M cc sp out j rs' fr m = MJump lbl"
  proof (cases i)
    case (Lgoto lbl')
    with c e that [of "[]" "[]" "[]" "Mgoto lbl"] show ?thesis by simp
  next
    case (LcondL cnd as lbl')
    with c obtain regs pre where "locsToRegsWithSpill l as 0 = Inr (regs, pre)" "c = pre @ [Mcond cnd regs lbl']"
      by (auto simp: transform_defs sum_bind_Inr)
    with LcondL e i that [of as regs pre "Mcond cnd regs lbl'"] show ?thesis
      by (auto split: option.splits bool.splits)
  next
    case (LjumptableL x ts)
    with c obtain r pre where "locsToRegsWithSpill l [x] 0 = Inr ([r], pre)" "c = pre @ [Mjumptable r ts]"
      by (auto simp: transform_defs sum_bind_Inr locsToRegsWithSpill_single)
    with LjumptableL e i that [of "[x]" "[r]" pre "Mjumptable r ts"] show ?thesis
      by (auto split: option.splits)
  qed (use e in \<open>auto split: option.splits\<close>)
  from locsToRegsWithSpill_loads [OF ld(1,2), of M cc sp out used] a obtain rs' where
    "mach_run M cc sp out pre rs fr m = Some (rs', fr, m)" "frame_agree l used rs0 ls rs' fr" "map rs' regs = map ls as"
    unfolding loads_def by blast
  with j [of rs'] ld(3) locsToRegsWithSpill_plain [OF ld(1)] show ?thesis
    by (auto simp: plain_def)
qed

lemma return_simulated:
  assumes a: "frame_agree l used rs0 ls rs fr" and l: "even (length used)" "0 < fl_TotalSize l"
    and used: "\<forall>r\<in>set used. IsCalleeSaved r"
  shows "\<exists>rs'. (mach_step M cc sp out mcode)\<^sup>+\<^sup>+ (MCode (GenerateEpilogue l (ComputeCalleeSaveInfo l used) @ c) rs fr m)
      (MFinal (Returned (ls (R IntReturnReg)) m) rs') \<and> (\<forall>x. IsCalleeSaved x \<longrightarrow> rs' x = rs0 x)"
proof -
  let ?rs = "\<lambda>x. if x \<in> set used then rs0 x else rs x"
  let ?tail = "[Mgetstack (fl_TotalSize l - 16) Tlong X29, Mgetstack (fl_TotalSize l - 16 + 8) Tlong X30,
     Mop (Olong (Oaddlimm (fl_TotalSize l))) [] X29, Mreturn] @ c"
  have "X0 \<notin> set used" using used by (auto simp: IsCalleeSaved_iff)
  moreover have "rs X0 = ls (R X0)" using a by (auto simp: frame_agree_def reserved_def)
  ultimately have "?rs X0 = ls (R IntReturnReg)" by simp
  moreover have "mach_step M cc sp out mcode (MCode ?tail ?rs fr m) (MFinal (Returned (?rs IntReturnReg) m) ?rs)"
    by (rule mach_epilogue) simp
  moreover have "(mach_step M cc sp out mcode)\<^sup>*\<^sup>* (MCode (restore_code used @ ?tail) rs fr m) (MCode ?tail ?rs fr m)"
    using a run_restore_code [OF _ l(1)]
    by (intro mach_run_steps no_return_code) (auto simp: frame_agree_def far_def)
  ultimately have "(mach_step M cc sp out mcode)\<^sup>+\<^sup>+ (MCode (GenerateEpilogue l (ComputeCalleeSaveInfo l used) @ c) rs fr m)
      (MFinal (Returned (ls (R IntReturnReg)) m) ?rs)"
    unfolding GenerateEpilogue_eq [OF l] by (simp add: rtranclp_into_tranclp1)
  moreover have "\<forall>x. IsCalleeSaved x \<longrightarrow> ?rs x = rs0 x" using a by (auto simp: frame_agree_def)
  ultimately show ?thesis by blast
qed

text \<open>A translated function: its layout, its saved registers, and its code after the prologue.\<close>

definition stack_setup ::
  "('v, 'm) sem \<Rightarrow> (loc funRef \<Rightarrow> nat) \<Rightarrow> frameLayout \<Rightarrow> mreg list \<Rightarrow> linear_instr list \<Rightarrow> mach_instr list \<Rightarrow> bool" where
  "stack_setup M cc l used code mcode \<longleftrightarrow>
     layout_ok l \<and> 8 * int (length used) \<le> fl_CalleeSaveSize l \<and> even (length used) \<and>
     (\<forall>r\<in>set used. IsCalleeSaved r) \<and>
     (\<forall>i\<in>set code. instr_ok l used i \<and> regs_kept used i \<and> call_fits M cc l i) \<and>
     (\<exists>pro body. mcode = pro @ body \<and> plain pro \<and>
        transform_body l (ComputeCalleeSaveInfo l used) code = Inr body)"

definition stack_match ::
  "('v, 'm) sem \<Rightarrow> (loc funRef \<Rightarrow> nat) \<Rightarrow> frameLayout \<Rightarrow> mreg list \<Rightarrow> linear_instr list \<Rightarrow> mach_instr list \<Rightarrow>
   (mreg \<Rightarrow> 'v) \<Rightarrow> ('v, 'm) linear_state \<Rightarrow> ('v, 'm) mach_state \<Rightarrow> bool" where
  "stack_match M cc l used code mcode rs0 s t \<longleftrightarrow> stack_setup M cc l used code mcode \<and>
     (case s of
        LCode c ls m \<Rightarrow> \<exists>mc rs fr. t = MCode mc rs fr m \<and> set c \<subseteq> set code \<and>
          transform_body l (ComputeCalleeSaveInfo l used) c = Inr mc \<and> frame_agree l used rs0 ls rs fr
      | LnFinal r \<Rightarrow> \<exists>rs. t = MFinal r rs \<and> (\<forall>x. IsCalleeSaved x \<longrightarrow> rs x = rs0 x))"

lemma find_label_rest: "find_label l c = Some c' \<Longrightarrow> set c' \<subseteq> set c"
  by (auto dest: find_label_Some)

lemma stack_match_step:
  assumes mt: "stack_match M cc l used code mcode rs0 s t" and st: "linear_step M cc code s s'"
  shows "\<exists>t'. (mach_step M cc (frame_sp l) (fl_OutgoingSize l) mcode)\<^sup>+\<^sup>+ t t' \<and> stack_match M cc l used code mcode rs0 s' t'"
proof -
  let ?step = "mach_step M cc (frame_sp l) (fl_OutgoingSize l) mcode"
  let ?cs = "ComputeCalleeSaveInfo l used"
  from mt have su: "stack_setup M cc l used code mcode" by (simp add: stack_match_def)
  then have l: "layout_ok l" "8 * int (length used) \<le> fl_CalleeSaveSize l" "even (length used)" "0 < fl_TotalSize l"
    by (auto simp: stack_setup_def layout_ok_def)
  from st obtain i c ls m where s: "s = LCode (i # c) ls m"
    by (cases rule: linear_step.cases) auto
  with mt obtain mi mc rs fr where t: "t = MCode (mi @ mc) rs fr m" "set (i # c) \<subseteq> set code"
    "transformInst l ?cs i = Inr mi" "transform_body l ?cs c = Inr mc" and a: "frame_agree l used rs0 ls rs fr"
    by (auto simp: stack_match_def sum_bind_Inr)
  from t su have i: "instr_ok l used i" "regs_kept used i" "call_fits M cc l i" by (auto simp: stack_setup_def)
  have far: "far mc" using transform_body_far [OF t(4) l(3,4)] .
  show ?thesis
  proof (cases "effect M cc i ls m")
    case (Fall ls' m')
    with s st have s': "s' = LCode c ls' m'" by (simp add: linear_step_effect)
    from fall_simulated [OF a l(1,2) i t(3) Fall] obtain rs' fr' where
      r: "mach_run M cc (frame_sp l) (fl_OutgoingSize l) mi rs fr m = Some (rs', fr', m')" "frame_agree l used rs0 ls' rs' fr'"
      by blast
    have "Mreturn \<notin> set mi"
      using transformInst_plain [OF t(3) _ _ l(3,4)] t(3) Fall by (cases i) (auto simp: plain_def)
    from mach_run_plus [OF r(1) this far transformInst_nonempty [OF t(3)], of mcode] r(2) s' t su
    show ?thesis by (auto simp: stack_match_def)
  next
    case (Jump lbl)
    with s st obtain c' where c': "find_label lbl code = Some c'" "s' = LCode c' ls m" by (auto simp: linear_step_effect)
    from su obtain pro body where mcode: "mcode = pro @ body" "plain pro" "transform_body l ?cs code = Inr body"
      by (auto simp: stack_setup_def)
    from find_label_transform [OF l(3,4) mcode(3) c'(1)] obtain mc' where
      "mach_find_label lbl body = Some mc'" and mc': "transform_body l ?cs c' = Inr mc'" by blast
    with mcode(1,2) have fl: "mach_find_label lbl mcode = Some mc'"
      by (simp add: mach_find_label_append plain_def)
    from jump_simulated [OF a i(1) t(3) Jump, of "frame_sp l" "fl_OutgoingSize l"] obtain pre j rs' where
      j: "mi = pre @ [j]" "mach_run M cc (frame_sp l) (fl_OutgoingSize l) pre rs fr m = Some (rs', fr, m)"
        "Mreturn \<notin> set pre" "frame_agree l used rs0 ls rs' fr"
        "mach_effect M cc (frame_sp l) (fl_OutgoingSize l) j rs' fr m = MJump lbl" by blast
    then have "j \<noteq> Mreturn" by auto
    then have "far ([j] @ mc)" using far by (intro far_append) auto
    from mach_run_steps [OF j(2,3) this, of mcode] have "?step\<^sup>*\<^sup>* t (MCode (j # mc) rs' fr m)" using t j(1) by simp
    moreover have "?step (MCode (j # mc) rs' fr m) (MCode mc' rs' fr m)" using j(5) fl by (rule mach_jump)
    ultimately have "?step\<^sup>+\<^sup>+ t (MCode mc' rs' fr m)" by (rule rtranclp_into_tranclp1)
    then show ?thesis
      using c' mc' j(4) su find_label_rest [OF c'(1)] by (auto simp: stack_match_def)
  next
    case (Stop r)
    with i(1) have "i = LreturnL" by (cases i) (auto split: option.splits bool.splits)
    with Stop s st t have "mi = GenerateEpilogue l ?cs" "s' = LnFinal (Returned (ls (R IntReturnReg)) m)"
      by (auto simp: linear_step_effect)
    moreover have "\<forall>r\<in>set used. IsCalleeSaved r" using su by (simp add: stack_setup_def)
    ultimately show ?thesis
      using return_simulated [OF a l(3,4), of M cc "frame_sp l" "fl_OutgoingSize l" mcode mc m] t(1) su
      by (auto simp: stack_match_def)
  qed (use s st in \<open>simp add: linear_step_effect\<close>)
qed

interpretation stacking: fsim "linear_step M cc code" linear_final
  "mach_step M cc (frame_sp l) (fl_OutgoingSize l) mcode" "mach_final rs0"
  "stack_match M cc l used code mcode rs0" "\<lambda>_. 0"
  for M :: "('v, 'm) sem" and cc code l used mcode rs0
proof unfold_locales
  fix s :: "('v, 'm) linear_state" and t s'
  assume "stack_match M cc l used code mcode rs0 s t" "linear_step M cc code s s'"
  then show "(\<exists>t'. (mach_step M cc (frame_sp l) (fl_OutgoingSize l) mcode)\<^sup>+\<^sup>+ t t' \<and>
      stack_match M cc l used code mcode rs0 s' t') \<or> (stack_match M cc l used code mcode rs0 s' t \<and> (0::nat) < 0)"
    using stack_match_step by blast
next
  fix s :: "('v, 'm) linear_state" and t r
  assume "stack_match M cc l used code mcode rs0 s t" "linear_final s r"
  then show "\<exists>t'. (mach_step M cc (frame_sp l) (fl_OutgoingSize l) mcode)\<^sup>*\<^sup>* t t' \<and> mach_final rs0 t' r"
    by (cases s) (auto simp: stack_match_def)
qed

section \<open>The whole function\<close>

text \<open>Parameters are declared where the calling convention puts them, and then nothing is copied.\<close>

definition abi_params :: "nat \<Rightarrow> loc list" where
  "abi_params n = map (\<lambda>i. ArgLocation i False) [0..<n]"

lemma param_moves_abi:
  "i + length ps \<le> n \<Longrightarrow> ps = map (\<lambda>i. ArgLocation i False) [i..<i + length ps] \<Longrightarrow> param_moves l i ps mv st = (mv, st)"
proof (induction ps arbitrary: i)
  case (Cons p ps)
  then have p: "p = ArgLocation i False" "ps = map (\<lambda>i. ArgLocation i False) [Suc i..<Suc i + length ps]"
    by (simp_all add: upt_conv_Cons del: upt_Suc)
  with Cons.IH [of "Suc i"] Cons.prems(1) show ?case by (auto simp: ArgLocation_def)
qed simp

lemma GenerateParamCopies_abi: "GenerateParamCopies ord (abi_params n) l = Some []"
proof -
  have "param_moves l 0 (abi_params n) Map.empty [] = (Map.empty, [])"
    by (rule param_moves_abi [of 0 _ n]) (simp_all add: abi_params_def)
  then show ?thesis
    by (simp add: GenerateParamCopies_def param_loop.simps list_ex_iff)
qed

lemma used_regs:
  assumes "\<forall>s. finite s \<longrightarrow> set (enum s) = s"
  shows "set (PadToEven (FindUsedCalleeSaveRegs enum f)) =
    {r. IsCalleeSaved r \<and> (\<exists>i\<in>set (lin_code f). r \<in> set (collectRegsFromInst i))}"
  using assms by (auto simp: FindUsedCalleeSaveRegs_def stacking_IsCalleeSaved_eq)

definition frame_of :: "linear_function \<Rightarrow> mach_function \<Rightarrow> frameLayout" where
  "frame_of f g = ComputeLayout f (int (length (mach_calleeSaveRegs g)))"

text \<open>The registers and the frame on entry hold what the Linear function finds in its locations.\<close>

definition entry_agrees :: "frameLayout \<Rightarrow> 'v locset \<Rightarrow> (mreg \<Rightarrow> 'v) \<Rightarrow> 'v frame \<Rightarrow> bool" where
  "entry_agrees l ls rs fr \<longleftrightarrow> (\<forall>r. r \<notin> reserved \<longrightarrow> rs r = ls (R r)) \<and>
     (\<forall>k ofs t. in_frame l k ofs t \<longrightarrow> fr (TranslateSlotOffset l k ofs) t = ls (S k ofs t))"

lemma stacking_code:
  assumes "stacking_Transform enum ord f = Some (Inr g)" and "lin_params f = abi_params n"
  defines "used \<equiv> PadToEven (FindUsedCalleeSaveRegs enum f)" and "l \<equiv> frame_of f g"
  shows "mach_calleeSaveRegs g = used" "mach_stacksize g = fl_TotalSize l"
    and "\<exists>body pro. mach_code g = pro @ save_code used @ body \<and> plain pro \<and> countPrologueInstructions (mach_code g) = length pro \<and>
      transform_body l (ComputeCalleeSaveInfo l used) (lin_code f) = Inr body"
proof -
  let ?l = "ComputeLayout f (int (length used))"
  from assms(1) obtain body where b: "transform_body ?l (ComputeCalleeSaveInfo ?l used) (lin_code f) = Inr body"
    "mach_calleeSaveRegs g = used" "mach_stacksize g = fl_TotalSize ?l"
    "mach_code g = GeneratePrologue ?l (ComputeCalleeSaveInfo ?l used) @ body"
    by (auto simp: stacking_Transform_def Let_def used_def assms(2) GenerateParamCopies_abi sum_bind_Inr)
  then have l: "l = ?l" by (simp add: l_def frame_of_def)
  with b show "mach_calleeSaveRegs g = used" "mach_stacksize g = fl_TotalSize l" by simp_all
  have "0 < fl_TotalSize l" using ComputeLayout_facts(1) [of "int (length used)" f] l by (simp add: layout_ok_def)
  with GeneratePrologue_eq [of used l] b l
  have "mach_code g = [Mop (Olong (Oaddlimm (- fl_TotalSize l))) [] X29, Msetstack X29 (fl_TotalSize l - 16) Tlong,
     Msetstack X30 (fl_TotalSize l - 16 + 8) Tlong, Mop (Olong (Oaddlimm (fl_TotalSize l - 16))) [] X29] @
    save_code used @ body" (is "_ = ?pro @ _") by (simp add: used_def)
  with b l show "\<exists>body pro. mach_code g = pro @ save_code used @ body \<and> plain pro \<and>
      countPrologueInstructions (mach_code g) = length pro \<and>
      transform_body l (ComputeCalleeSaveInfo l used) (lin_code f) = Inr body"
    by (intro exI [of _ body] exI [of _ ?pro]) (simp add: countPrologueInstructions_def)
qed

text \<open>
  Property C22. The stacking pass preserves behaviour. Let it translate a function whose parameters
  are where the calling convention puts them, whose instructions name only registers outside the
  reserved ones and slots within the frame, which makes no tail calls, and whose calls find their
  stack arguments in the outgoing area. Then every terminating or diverging run of the Linear code
  is a run of the Mach code after the prologue, with the same result and memory, and on return
  every callee-saved register has the value it had on entry.
\<close>

theorem stacking_correct:
  assumes "stacking_Transform enum ord f = Some (Inr g)"
    and "\<forall>s. finite s \<longrightarrow> set (enum s) = s"
    and "lin_params f = abi_params n"
    and "\<forall>i\<in>set (lin_code f). instr_ok (frame_of f g) (mach_calleeSaveRegs g) i \<and> call_fits M cc (frame_of f g) i"
    and "entry_agrees (frame_of f g) ls rs fr"
    and "behaves (linear_step M cc (lin_code f)) linear_final (LCode (lin_code f) ls m) b" and "b \<noteq> Goes_wrong"
  shows "behaves (mach_step M cc (- (mach_stacksize g - 16)) (fl_OutgoingSize (frame_of f g)) (mach_code g)) (mach_final rs)
    (MCode (drop (countPrologueInstructions (mach_code g)) (mach_code g)) rs fr m) b"
proof -
  let ?l = "frame_of f g" and ?used = "PadToEven (FindUsedCalleeSaveRegs enum f)"
  let ?step = "mach_step M cc (frame_sp ?l) (fl_OutgoingSize ?l) (mach_code g)"
  note g = stacking_code [OF assms(1,3)]
  from g(3) obtain body pro where c: "mach_code g = pro @ save_code ?used @ body" "plain pro"
    "countPrologueInstructions (mach_code g) = length pro"
    "transform_body ?l (ComputeCalleeSaveInfo ?l ?used) (lin_code f) = Inr body" by blast
  have l: "layout_ok ?l" "8 * int (length ?used) \<le> fl_CalleeSaveSize ?l"
    using ComputeLayout_facts(1,3) [of "int (length ?used)" f] g(1) by (simp_all add: frame_of_def)
  from run_save_code [where M = M and cc = cc and sp = "frame_sp ?l" and out = "fl_OutgoingSize ?l" and
      regs = ?used and rs = rs and fr = fr and m = m] obtain fr' where fr':
    "mach_run M cc (frame_sp ?l) (fl_OutgoingSize ?l) (save_code ?used) rs fr m = Some (rs, fr', m)" "saved ?used rs fr'"
    "\<forall>ofs t. \<not> share ofs (slotSize t) (- 8 * int (length ?used)) (8 * int (length ?used)) \<longrightarrow> fr' ofs t = fr ofs t"
    by blast
  have "fr' (TranslateSlotOffset ?l k ofs) t = fr (TranslateSlotOffset ?l k ofs) t" if "in_frame ?l k ofs t" for k ofs t
    using slots_below_frame_record [OF l(1) that] fr'(3) l(2) by (auto simp: share_def)
  with assms(5) fr'(2) have a: "frame_agree ?l ?used rs ls rs fr'" by (simp add: frame_agree_def entry_agrees_def)
  have "stack_setup M cc ?l ?used (lin_code f) (mach_code g)"
    unfolding stack_setup_def using l assms(4) c g(1) plain_save_code used_regs [OF assms(2), of f]
    by (auto simp: regs_kept_def intro!: exI [of _ "pro @ save_code ?used"])
  with a c(4) have "stack_match M cc ?l ?used (lin_code f) (mach_code g) rs (LCode (lin_code f) ls m) (MCode body rs fr' m)"
    by (simp add: stack_match_def)
  from stacking.safe_preserved [OF this assms(6,7)]
  have "behaves ?step (mach_final rs) (MCode body rs fr' m) b" .
  moreover have "far body" using transform_body_far [OF c(4)] l(1) by (simp add: layout_ok_def)
  ultimately show ?thesis
    using mach_run_steps [OF fr'(1) no_return_code(1), of body "mach_code g"] c(1,3) g(2)
    by (auto intro: behaves_star)
qed

text \<open>A function with a spilled operand, a spilled result, a callee-saved register and a call.\<close>

definition stack_example :: linear_function where
  "stack_example = \<lparr>lin_name = ''f'', lin_sig = \<lparr>sig_args = [''int''], sig_return = ''int'', sig_vararg = False\<rparr>,
     lin_params = abi_params 1, lin_stacksize = 0,
     lin_code = [LopL Omove [R X0] (R X19), LopL (Oarith Oadd) [R X19, R X0] (S SlotLocal 0 Tlong),
       LcallL \<lparr>sig_args = [], sig_return = ''int'', sig_vararg = False\<rparr> (FunSymbol ''g''),
       Llabel 1, LcondL (Ccompimm Ceq 0) [S SlotLocal 0 Tlong] 1,
       LopL (Oarith Oadd) [S SlotLocal 0 Tlong, R X19] (R X0), LreturnL]\<rparr>"

definition stack_example_code :: "mach_instr list" where
  "stack_example_code =
     [Mop (Olong (Oaddlimm (- 48))) [] X29, Msetstack X29 32 Tlong, Msetstack X30 40 Tlong,
      Mop (Olong (Oaddlimm 32)) [] X29, Msetstack X19 (- 8) Tlong, Msetstack X19 (- 16) Tlong,
      Mop Omove [X0] X19, Mop (Oarith Oadd) [X19, X0] X16, Msetstack X16 (- 24) Tlong,
      Mcall \<lparr>sig_args = [], sig_return = ''int'', sig_vararg = False\<rparr> (FunSymbol ''g''),
      Mlabel 1, Mgetstack (- 24) Tlong X16, Mcond (Ccompimm Ceq 0) [X16] 1,
      Mgetstack (- 24) Tlong X16, Mop (Oarith Oadd) [X16, X19] X0,
      Mgetstack (- 8) Tlong X19, Mgetstack (- 16) Tlong X19, Mgetstack 32 Tlong X29, Mgetstack 40 Tlong X30,
      Mop (Olong (Oaddlimm 48)) [] X29, Mreturn]"

definition stack_example_out :: mach_function where
  "stack_example_out = \<lparr>mach_name = ''f'', mach_sig = lin_sig stack_example, mach_code = stack_example_code,
     mach_stacksize = 48, mach_calleeSaveRegs = [X19, X19], mach_usesFramePtr = True\<rparr>"

lemma stack_example_used: "FindUsedCalleeSaveRegs sorted_list_of_set stack_example = [X19]"
  by code_simp

lemma stack_example_layout: "ComputeLayout stack_example 2 = \<lparr>fl_CalleeSaveSize = 16, fl_LocalSize = 8, fl_OutgoingSize = 0,
    fl_CalleeSaveOffset = -8, fl_LocalOffset = -24, fl_OutgoingOffset = -24, fl_TotalSize = 48, fl_UseFramePointer = True\<rparr>"
  by code_simp

lemma stack_example_transform: "stacking_Transform sorted_list_of_set (\<lambda>_. []) stack_example = Some (Inr stack_example_out)"
proof -
  have "GenerateParamCopies (\<lambda>_. []) (lin_params stack_example) l = Some []" for l
    using GenerateParamCopies_abi [of _ 1] by (simp add: stack_example_def)
  then show ?thesis
    unfolding stacking_Transform_def stack_example_used
    by (simp add: PadToEven_def stack_example_layout) code_simp
qed

text \<open>A meaning of the operations, and the run of the example on the argument 1.\<close>

definition add_sem :: "(int, unit) sem" where
  "add_sem = \<lparr>
     sem_op = (\<lambda>op vs m. case (op, vs) of (Oarith Oadd, [a, b]) \<Rightarrow> Some (a + b) | _ \<Rightarrow> None),
     sem_load = (\<lambda>_ _ _ _. None), sem_store = (\<lambda>_ _ _ _ _. None),
     sem_cond = (\<lambda>c vs m. case (c, vs) of (Ccompimm Ceq k, [a]) \<Rightarrow> Some (a = k) | _ \<Rightarrow> None),
     sem_index = (\<lambda>_. None), sem_arity = (\<lambda>_ _ _. 0), sem_call = (\<lambda>_ _ _ m. Some (7, m)),
     sem_builtin = (\<lambda>_ _ _. None), sem_undef = 0\<rparr>"

lemma add_sem_simps [simp]:
  "eval_op add_sem (Oarith Oadd) [a, b] m = Some (a + b)" "sem_cond add_sem (Ccompimm Ceq k) [a] m = Some (a = k)"
  "sem_arity add_sem sg v m = 0" "sem_call add_sem sg v vs m = Some (7, m)"
  by (simp_all add: add_sem_def eval_op_def)

abbreviation (input) one_locs :: "int locset" where "one_locs \<equiv> (\<lambda>l. if l = R X0 then 1 else 0)"
abbreviation (input) one_regs :: "mreg \<Rightarrow> int" where "one_regs \<equiv> (\<lambda>r. if r = X0 then 1 else 0)"

lemma stack_example_runs:
  "behaves (linear_step add_sem (\<lambda>_. 8) (lin_code stack_example)) linear_final
     (LCode (lin_code stack_example) one_locs ()) (Terminates (Returned 3 ()))"
  unfolding stack_example_def linear_function.simps
  by ((rule behaves_step, (simp add: linear_step_effect after_call_def IsCalleeSaved_iff; fail))+)
    (auto simp: behaves_def loc_set_def intro!: exI [of _ "LnFinal (Returned 3 ())"])

theorem stacking_correct_witness:
  "stacking_Transform sorted_list_of_set (\<lambda>_. []) stack_example = Some (Inr stack_example_out) \<and>
   behaves (mach_step add_sem (\<lambda>_. 8) (- 32) 0 stack_example_code) (mach_final one_regs)
     (MCode (drop 4 stack_example_code) one_regs (\<lambda>_ _. 0) ()) (Terminates (Returned 3 ()))"
proof
  have fo: "frame_of stack_example stack_example_out = ComputeLayout stack_example 2"
    by (simp add: frame_of_def stack_example_out_def)
  have "\<forall>i\<in>set (lin_code stack_example). instr_ok (frame_of stack_example stack_example_out) (mach_calleeSaveRegs stack_example_out) i \<and>
      call_fits add_sem (\<lambda>_. 8) (frame_of stack_example stack_example_out) i"
    unfolding fo stack_example_layout by (simp add: stack_example_def reserved_def call_fits_def)
  moreover have "entry_agrees (frame_of stack_example stack_example_out) one_locs one_regs (\<lambda>_ _. 0)"
    by (simp add: entry_agrees_def)
  ultimately show "behaves (mach_step add_sem (\<lambda>_. 8) (- 32) 0 stack_example_code) (mach_final one_regs)
     (MCode (drop 4 stack_example_code) one_regs (\<lambda>_ _. 0) ()) (Terminates (Returned 3 ()))"
    using stacking_correct [OF stack_example_transform _ _ _ _ stack_example_runs, of 1]
    by (simp add: fo stack_example_layout) (simp add: stack_example_def stack_example_out_def stack_example_code_def
        countPrologueInstructions_def)
qed (rule stack_example_transform)

section \<open>Panics\<close>

fun is_slot :: "loc \<Rightarrow> bool" where
  "is_slot (S _ _ _) \<longleftrightarrow> True"
| "is_slot _ \<longleftrightarrow> False"

fun slot_pointer :: "loc funRef \<Rightarrow> bool" where
  "slot_pointer (FunReg a) \<longleftrightarrow> is_slot a"
| "slot_pointer (FunSymbol _) \<longleftrightarrow> False"

text \<open>
  Operations may have two slots among their operands; other instructions only among the first two
  operands, where a store's value counts as the last one. A called pointer may not be in a slot.
\<close>

fun panics :: "linear_instr \<Rightarrow> bool" where
  "panics (LopL _ as _) \<longleftrightarrow> 2 < length (filter is_slot as)"
| "panics (LloadL _ _ as _) \<longleftrightarrow> list_ex is_slot (drop 2 as)"
| "panics (LstoreL _ _ as src) \<longleftrightarrow> list_ex is_slot (drop 2 (as @ [src]))"
| "panics (LcallL _ fn) \<longleftrightarrow> slot_pointer fn"
| "panics (LtailcallL _ fn) \<longleftrightarrow> slot_pointer fn"
| "panics (LbuiltinL _ as _) \<longleftrightarrow> list_ex is_slot (drop 2 as)"
| "panics (LcondL _ as _) \<longleftrightarrow> list_ex is_slot (drop 2 as)"
| "panics _ \<longleftrightarrow> False"

fun operands :: "linear_instr \<Rightarrow> loc list" where
  "operands (LopL _ as d) = d # as"
| "operands (LloadL _ _ as d) = d # as"
| "operands (LstoreL _ _ as src) = src # as"
| "operands (LcallL _ (FunReg a)) = [a]"
| "operands (LtailcallL _ (FunReg a)) = [a]"
| "operands (LbuiltinL _ as d) = (case d of None \<Rightarrow> [] | Some a \<Rightarrow> [a]) @ as"
| "operands (LcondL _ as _) = as"
| "operands (LjumptableL a _) = [a]"
| "operands _ = []"

definition isl_panic :: "'e + 'a \<Rightarrow> bool" where
  "isl_panic x \<longleftrightarrow> (\<exists>e. x = Inl e)"

lemma isl_panic_simps [simp]: "isl_panic (Inl e)" "\<not> isl_panic (Inr a)"
  "isl_panic (sum_bind x f) \<longleftrightarrow> isl_panic x \<or> (\<exists>a. x = Inr a \<and> isl_panic (f a))"
  by (auto simp: isl_panic_def sum_bind_def split: sum.splits)

lemma not_panic: "\<not> isl_panic x \<longleftrightarrow> (\<exists>a. x = Inr a)"
  by (cases x) auto

lemma ensureInReg_panics: "a \<noteq> LNil \<Longrightarrow> isl_panic (ensureInReg l a i) \<longleftrightarrow> is_slot a \<and> 2 \<le> i"
  by (cases a) auto

lemma dest_reg_panics: "d \<noteq> LNil \<Longrightarrow> \<not> isl_panic (dest_reg l d)"
  by (cases d) auto

lemma locsToRegsWithSpill_panics:
  "LNil \<notin> set as \<Longrightarrow> isl_panic (locsToRegsWithSpill l as i) \<longleftrightarrow> list_ex is_slot (drop (2 - i) as)"
proof (induction as arbitrary: i)
  case (Cons a as)
  have "isl_panic (locsToRegsWithSpill l (a # as) i) \<longleftrightarrow>
      isl_panic (ensureInReg l a i) \<or> isl_panic (locsToRegsWithSpill l as (Suc i))"
    by (cases "ensureInReg l a i") (auto simp: case_prod_beta)
  also have "\<dots> \<longleftrightarrow> is_slot a \<and> 2 \<le> i \<or> list_ex is_slot (drop (2 - Suc i) as)"
    using Cons by (auto simp: ensureInReg_panics)
  also have "\<dots> \<longleftrightarrow> list_ex is_slot (drop (2 - i) (a # as))"
    by (cases "2 \<le> i") (auto simp: drop_Cons')
  finally show ?case .
qed simp

lemma lop_args_panics:
  "LNil \<notin> set as \<Longrightarrow> isl_panic (lop_args l as i) \<longleftrightarrow> 2 - i < length (filter is_slot as)"
  by (induction l as i rule: lop_args.induct) (auto simp: Let_def case_prod_beta)

lemma isl_panic_then:
  "isl_panic (sum_bind x (\<lambda>(a, b). f a b)) \<longleftrightarrow> isl_panic x \<or> (\<exists>a b. x = Inr (a, b) \<and> isl_panic (f a b))"
  by auto

text \<open>
  Property C30. The stacking pass panics on an instruction with proper locations exactly if there are
  too many spilled operands for the two scratch registers, counted as the code counts them, or if
  the called function pointer is spilled.
\<close>

theorem transformInst_panics_iff:
  assumes "LNil \<notin> set (operands i)"
  shows "(\<exists>e. transformInst l cs i = Inl e) \<longleftrightarrow> panics i"
proof -
  have "isl_panic (transformInst l cs i) \<longleftrightarrow> panics i"
  proof (cases i)
    case (LopL op as d)
    with assms lop_args_panics [of as l 0] dest_reg_panics [of d l] show ?thesis
      by (auto simp: transform_defs isl_panic_then)
  next
    case (LstoreL ch addr as src)
    then have "isl_panic (transformInst l cs i) \<longleftrightarrow> isl_panic (locsToRegsWithSpill l (as @ [src]) 0)"
      by (auto simp: transform_defs locsToRegsWithSpill_snoc isl_panic_then)
    with LstoreL assms locsToRegsWithSpill_panics [of "as @ [src]" l 0] show ?thesis by auto
  next
    case (LcallL sg fn)
    with assms show ?thesis
      by (cases fn; cases "case fn of FunReg a \<Rightarrow> a | _ \<Rightarrow> R 0") auto
  next
    case (LtailcallL sg fn)
    with assms show ?thesis
      by (cases fn; cases "case fn of FunReg a \<Rightarrow> a | _ \<Rightarrow> R 0") auto
  next
    case (LloadL ch addr as d)
    with assms locsToRegsWithSpill_panics [of as l 0] dest_reg_panics [of d l] show ?thesis
      by (auto simp: transform_defs isl_panic_then)
  next
    case (LbuiltinL bf as d)
    with assms locsToRegsWithSpill_panics [of as l 0] dest_reg_panics [of "the d" l] show ?thesis
      by (cases d) (auto simp: transform_defs isl_panic_then)
  next
    case (LcondL cnd as lbl)
    with assms locsToRegsWithSpill_panics [of as l 0] show ?thesis
      by (auto simp: transform_defs isl_panic_then)
  next
    case (LjumptableL a ts)
    with assms ensureInReg_panics [of a l 0] show ?thesis
      by (auto simp: transform_defs isl_panic_then)
  qed auto
  then show ?thesis by (simp add: isl_panic_def)
qed

theorem transformInst_panics_iff_witness:
  "(let l = ComputeLayout stack_example 2; cs = ComputeCalleeSaveInfo l [X19, X19]; s = S SlotLocal 0 Tlong;
       i = LstoreL Mint64 Aindexed2 [R X0, R X1] s
    in panics i \<and> transformInst l cs i = Inl Too_many_slot_arguments \<and> (\<exists>e. transformInst l cs i = Inl e))"
  using transformInst_panics_iff [of "LstoreL Mint64 Aindexed2 [R X0, R X1] (S SlotLocal 0 Tlong)"]
  by (simp add: Let_def transform_defs)

end
