(* ===== verification/Asm.thy ===== *)
theory Asm
  imports Mach
begin

text \<open>
  The assembly language (\<open>pkg/asm/ast.go\<close>). Each Go structure is a constructor; the constructors are
  grouped by the headings of the source, and each group is injected into \<open>asm_instr\<close>. The flag that
  ends most of them is \<open>Is64\<close> or \<open>IsDouble\<close>.
\<close>

type_synonym asm_label = string

text \<open>The stack pointer has a number of its own, away from the general registers.\<close>

abbreviation (input) SP :: mreg where "SP \<equiv> 100"

datatype condCode =
    CondEQ | CondNE | CondCS | CondCC | CondMI | CondPL | CondVS | CondVC
  | CondHI | CondLS | CondGE | CondLT | CondGT | CondLE | CondAL

datatype asm_data =
    ADD mreg mreg mreg bool
  | ADDi mreg mreg int64 bool
  | SUB mreg mreg mreg bool
  | SUBi mreg mreg int64 bool
  | MUL mreg mreg mreg bool
  | MADD mreg mreg mreg mreg bool
  | SMULL mreg mreg mreg
  | UMULL mreg mreg mreg
  | SDIV mreg mreg mreg bool
  | UDIV mreg mreg mreg bool

datatype asm_bit =
    ANDr mreg mreg mreg bool
  | ANDi mreg mreg int64 bool
  | ORR mreg mreg mreg bool
  | ORRi mreg mreg int64 bool
  | EOR mreg mreg mreg bool
  | EORi mreg mreg int64 bool
  | MVN mreg mreg bool
  | NEG mreg mreg bool

datatype asm_shift =
    LSL mreg mreg mreg bool
  | LSLi mreg mreg int bool
  | LSR mreg mreg mreg bool
  | LSRi mreg mreg int bool
  | ASR mreg mreg mreg bool
  | ASRi mreg mreg int bool
  | ROR mreg mreg mreg bool
  | RORi mreg mreg int bool

datatype asm_load =
    LDR mreg mreg int64 bool
  | LDRr mreg mreg mreg bool
  | LDRB mreg mreg int64
  | LDRH mreg mreg int64
  | LDRSB mreg mreg int64 bool
  | LDRSH mreg mreg int64 bool
  | LDRSW mreg mreg int64
  | LDP mreg mreg mreg int64 bool
  | LDPpost mreg mreg mreg int64 bool
  | FLDRs mreg mreg int64
  | FLDRd mreg mreg int64

datatype asm_store =
    STRi mreg mreg int64 bool
  | STRr mreg mreg mreg bool
  | STRB mreg mreg int64
  | STRH mreg mreg int64
  | STP mreg mreg mreg int64 bool
  | STPpre mreg mreg mreg int64 bool
  | FSTRs mreg mreg int64
  | FSTRd mreg mreg int64

datatype asm_branch =
    B asm_label bool
  | BL asm_label bool
  | BR mreg
  | BLR mreg
  | RET
  | Bcond condCode asm_label

datatype asm_compare =
    CMP mreg mreg bool
  | CMPi mreg int64 bool
  | CMN mreg mreg bool
  | CMNi mreg int64 bool
  | TST mreg mreg bool
  | TSTi mreg int64 bool
  | CSEL mreg mreg mreg condCode bool
  | CSET mreg condCode bool
  | CSINC mreg mreg mreg condCode bool

text \<open>The immediates of the wide moves are 16-bit unsigned numbers.\<close>

datatype asm_move =
    MOV mreg mreg bool
  | MOVi mreg int64 bool
  | MOVZ mreg nat int bool
  | MOVK mreg nat int bool
  | MOVN mreg nat int bool
  | ADR mreg asm_label
  | ADRP mreg asm_label bool
  | ADDpageoff mreg mreg asm_label int64

datatype asm_float =
    FADD mreg mreg mreg bool
  | FSUB mreg mreg mreg bool
  | FMUL mreg mreg mreg bool
  | FDIV mreg mreg mreg bool
  | FNEG mreg mreg bool
  | FABS mreg mreg bool
  | FSQRT mreg mreg bool
  | FMOV mreg mreg bool
  | FMOVi mreg float64 bool

datatype asm_fconv =
    SCVTF mreg mreg bool bool
  | UCVTF mreg mreg bool bool
  | FCVTZS mreg mreg bool bool
  | FCVTZU mreg mreg bool bool
  | FCVT mreg mreg bool
  | FCMP mreg mreg bool
  | FCMPz mreg bool

datatype asm_extend =
    SXTB mreg mreg bool
  | SXTH mreg mreg bool
  | SXTW mreg mreg
  | UXTB mreg mreg
  | UXTH mreg mreg

datatype asm_instr =
    Data asm_data
  | Bits asm_bit
  | Shift asm_shift
  | Load asm_load
  | Store asm_store
  | Branch asm_branch
  | Compare asm_compare
  | Move asm_move
  | Float asm_float
  | Fconv asm_fconv
  | Extend asm_extend
  | LabelDef asm_label

record asm_function =
  asm_name :: string
  asm_code :: "asm_instr list"
  asm_size :: int64

record asm_globVar =
  agv_name :: string
  agv_size :: int64
  agv_init :: "nat list"
  agv_align :: int
  agv_readOnly :: bool

record asm_program =
  asm_globals :: "asm_globVar list"
  asm_functions :: "asm_function list"

definition asm_NewFunction :: "string \<Rightarrow> asm_function" where
  "asm_NewFunction name = \<lparr>asm_name = name, asm_code = [], asm_size = 0\<rparr>"

definition asm_Append :: "asm_function \<Rightarrow> asm_instr \<Rightarrow> asm_function" where
  "asm_Append f i = f\<lparr>asm_code := asm_code f @ [i]\<rparr>"

definition asm_AppendLabel :: "asm_function \<Rightarrow> asm_label \<Rightarrow> asm_function" where
  "asm_AppendLabel f name = f\<lparr>asm_code := asm_code f @ [LabelDef name]\<rparr>"

text \<open>\<open>CondCode.String\<close>.\<close>

fun condCode_String :: "condCode \<Rightarrow> string" where
  "condCode_String CondEQ = ''eq''"
| "condCode_String CondNE = ''ne''"
| "condCode_String CondCS = ''cs''"
| "condCode_String CondCC = ''cc''"
| "condCode_String CondMI = ''mi''"
| "condCode_String CondPL = ''pl''"
| "condCode_String CondVS = ''vs''"
| "condCode_String CondVC = ''vc''"
| "condCode_String CondHI = ''hi''"
| "condCode_String CondLS = ''ls''"
| "condCode_String CondGE = ''ge''"
| "condCode_String CondLT = ''lt''"
| "condCode_String CondGT = ''gt''"
| "condCode_String CondLE = ''le''"
| "condCode_String CondAL = ''al''"

end
