(* ===== verification/Memory.thy ===== *)
theory Memory
  imports Ops "HOL-Library.Word"
begin

text \<open>
  Memory as the processor sees it: bytes at 64-bit addresses, some of them accessible. Values of
  several bytes are stored with the least significant byte first. \<open>load_chunk\<close> and \<open>store_chunk\<close> give
  the memory chunks of \<open>pkg/cminor/ast.go\<close> their meaning; a register keeps a 32-bit value in its lower
  half, with the upper half clear.
\<close>

unbundle bit_operations_syntax

type_synonym w8 = "8 word"
type_synonym w16 = "16 word"
type_synonym w32 = "32 word"
type_synonym w64 = "64 word"
type_synonym mem = "w64 \<Rightarrow> w8 option"

definition lo :: "w64 \<Rightarrow> w32" where "lo a = ucast a"
definition zx :: "w32 \<Rightarrow> w64" where "zx a = ucast a"

lemma lo_zx [simp]: "lo (zx a) = a"
  by (simp add: lo_def zx_def ucast_down_ucast_id is_down)

fun read_bytes :: "nat \<Rightarrow> w64 \<Rightarrow> mem \<Rightarrow> w64 option" where
  "read_bytes 0 a m = Some 0"
| "read_bytes (Suc n) a m = Option.bind (m a) (\<lambda>b.
     map_option (\<lambda>w. ucast b OR push_bit 8 w) (read_bytes n (a + 1) m))"

fun write_bytes :: "nat \<Rightarrow> w64 \<Rightarrow> w64 \<Rightarrow> mem \<Rightarrow> mem option" where
  "write_bytes 0 a v m = Some m"
| "write_bytes (Suc n) a v m =
     (if m a = None then None else write_bytes n (a + 1) (drop_bit 8 v) (m(a \<mapsto> ucast v)))"

fun chunk_size :: "chunk \<Rightarrow> nat" where
  "chunk_size Mint8signed = 1"
| "chunk_size Mint8unsigned = 1"
| "chunk_size Mint16signed = 2"
| "chunk_size Mint16unsigned = 2"
| "chunk_size Mint32 = 4"
| "chunk_size Mfloat32 = 4"
| "chunk_size Many32 = 4"
| "chunk_size Mint64 = 8"
| "chunk_size Mfloat64 = 8"
| "chunk_size Many64 = 8"

text \<open>What loading a chunk makes of the bytes; also what storing and loading it makes of a value.\<close>

fun chunk_value :: "chunk \<Rightarrow> w64 \<Rightarrow> w64" where
  "chunk_value Mint8signed w = zx (scast (ucast w :: w8))"
| "chunk_value Mint8unsigned w = zx (ucast (ucast w :: w8))"
| "chunk_value Mint16signed w = zx (scast (ucast w :: w16))"
| "chunk_value Mint16unsigned w = zx (ucast (ucast w :: w16))"
| "chunk_value Mint32 w = zx (lo w)"
| "chunk_value Mfloat32 w = zx (lo w)"
| "chunk_value Many32 w = zx (lo w)"
| "chunk_value Mint64 w = w"
| "chunk_value Mfloat64 w = w"
| "chunk_value Many64 w = w"

definition load_chunk :: "chunk \<Rightarrow> w64 \<Rightarrow> mem \<Rightarrow> w64 option" where
  "load_chunk ch a m = map_option (chunk_value ch) (read_bytes (chunk_size ch) a m)"

definition store_chunk :: "chunk \<Rightarrow> w64 \<Rightarrow> w64 \<Rightarrow> mem \<Rightarrow> mem option" where
  "store_chunk ch a v m = write_bytes (chunk_size ch) a v m"

section \<open>Reading back what was written\<close>

text \<open>The addresses of \<open>n\<close> bytes from \<open>a\<close> on; they may wrap around.\<close>

definition cells :: "w64 \<Rightarrow> nat \<Rightarrow> w64 set" where
  "cells a n = (\<lambda>i. a + of_nat i) ` {..<n}"

lemma cells_0 [simp]: "cells a 0 = {}"
  by (simp add: cells_def)

lemma cells_Suc: "cells a (Suc n) = insert a (cells (a + 1) n)"
  by (auto simp: cells_def lessThan_Suc_eq_insert_0 image_image ac_simps)

lemma cells_fresh: "n < 2 ^ 64 \<Longrightarrow> a \<notin> cells (a + 1) n"
proof
  assume n: "n < 2 ^ 64" and "a \<in> cells (a + 1) n"
  then obtain i where i: "i < n" "a = a + 1 + of_nat i" by (auto simp: cells_def)
  then have "(of_nat (Suc i) :: w64) = 0" by (simp add: ac_simps)
  then have "2 ^ LENGTH(64) dvd Suc i" by (simp only: word_of_nat_eq_0_iff)
  with i n show False by (auto dest: dvd_imp_le)
qed

lemma write_bytes_other:
  "write_bytes n a v m = Some m' \<Longrightarrow> p \<notin> cells a n \<Longrightarrow> m' p = m p"
  by (induction n arbitrary: a v m) (auto simp: cells_Suc split: if_splits)

lemma write_bytes_dom: "write_bytes n a v m = Some m' \<Longrightarrow> dom m' = dom m"
  by (induction n arbitrary: a v m) (auto split: if_splits)

lemma write_bytes_total: "cells a n \<subseteq> dom m \<Longrightarrow> \<exists>m'. write_bytes n a v m = Some m'"
  by (induction n arbitrary: a v m) (auto simp: cells_Suc domIff subset_iff)

lemma read_bytes_cong: "(\<And>p. p \<in> cells a n \<Longrightarrow> m p = m' p) \<Longrightarrow> read_bytes n a m = read_bytes n a m'"
  by (induction n arbitrary: a) (auto simp: cells_Suc)

lemma bytes_split: "(ucast (ucast v :: w8) :: w64) OR push_bit 8 (take_bit n (drop_bit 8 v)) = take_bit (n + 8) v"
  by (rule bit_eqI) (auto simp: bit_simps)

lemma read_write_bytes:
  "write_bytes n a v m = Some m' \<Longrightarrow> n < 2 ^ 64 \<Longrightarrow> read_bytes n a m' = Some (take_bit (8 * n) v)"
proof (induction n arbitrary: a v m)
  case (Suc n)
  then have w: "write_bytes n (a + 1) (drop_bit 8 v) (m(a \<mapsto> ucast v)) = Some m'" by (simp split: if_splits)
  from Suc.prems have "a \<notin> cells (a + 1) n" by (intro cells_fresh) simp
  with w have "m' a = Some (ucast v)" by (simp add: write_bytes_other)
  with Suc.IH [OF w] Suc.prems(2) show ?case using bytes_split [of v "8 * n"] by (simp add: ac_simps)
qed simp

lemma ucast_take_bit: "LENGTH('a::len) \<le> n \<Longrightarrow> (ucast (take_bit n v) :: 'a word) = ucast (v :: w64)"
  by (rule bit_eqI) (auto simp: bit_simps)

lemma chunk_value_take_bit: "chunk_value ch (take_bit (8 * chunk_size ch) v) = chunk_value ch v"
  by (cases ch) (simp_all add: lo_def ucast_take_bit take_bit_word_eq_self)

lemma chunk_size_bound: "chunk_size ch < 2 ^ 64"
  by (cases ch) simp_all

lemma load_store_same:
  "store_chunk ch a v m = Some m' \<Longrightarrow> load_chunk ch a m' = Some (chunk_value ch v)"
  unfolding load_chunk_def store_chunk_def
  by (drule read_write_bytes [OF _ chunk_size_bound]) (simp add: chunk_value_take_bit)

lemma load_store_other:
  "store_chunk ch a v m = Some m' \<Longrightarrow> cells a (chunk_size ch) \<inter> cells b (chunk_size ch') = {} \<Longrightarrow>
   load_chunk ch' b m' = load_chunk ch' b m"
  unfolding load_chunk_def store_chunk_def
  by (rule arg_cong [where f = "map_option _"], rule read_bytes_cong) (auto dest: write_bytes_other)

end
