(* ===== verification/WordSem.thy ===== *)
theory WordSem
  imports Memory "HOL-Library.Signed_Division"
begin

text \<open>
  The meaning of the operations on the 64-bit words that registers hold. An operation on C's
  \<open>int\<close> reads the lower halves of its operands and clears the upper half of its result, as the
  processor does with its \<open>W\<close> registers. What C leaves undefined (division by zero and overflow of a
  quotient, shifts by more than the width) has no value. Floating point, the addresses of symbols and
  the address of the stack frame belong to the machine: they are parameters, collected in a record.
\<close>

datatype fresult = FLess | FEqual | FGreater | FUnordered

record target =
  t_float :: "floatOp \<Rightarrow> w64 list \<Rightarrow> w64"
  t_fconv :: "floatConvOp \<Rightarrow> w64 \<Rightarrow> w64"
  t_fcmp :: "bool \<Rightarrow> w64 \<Rightarrow> w64 \<Rightarrow> fresult"
  t_fsqrt :: "bool \<Rightarrow> w64 \<Rightarrow> w64"
  t_symbol :: "string \<Rightarrow> w64"
  t_stack :: w64
  t_darwin :: bool

section \<open>Integer arithmetic\<close>

definition sdiv_word :: "'a::len word \<Rightarrow> 'a word \<Rightarrow> 'a word" where
  "sdiv_word a b = word_of_int (sint a sdiv sint b)"

definition smod_word :: "'a::len word \<Rightarrow> 'a word \<Rightarrow> 'a word" where
  "smod_word a b = word_of_int (sint a smod sint b)"

text \<open>The remainder as the processor computes it.\<close>

lemma smod_word_eq: "a - sdiv_word a b * b = smod_word a b"
proof -
  have "word_of_int (sint a - sint a sdiv sint b * sint b) = a - sdiv_word a b * b"
    by (simp add: sdiv_word_def)
  then show ?thesis by (simp add: smod_word_def minus_sdiv_mult_eq_smod)
qed

lemma umod_word_eq: "a - a div b * b = a mod b" for a b :: "'a::len word"
  by (simp add: minus_div_mult_eq_mod)

text \<open>A signed quotient exists unless the divisor is zero or the quotient overflows.\<close>

definition sdiv_ok :: "'a::len word \<Rightarrow> 'a word \<Rightarrow> bool" where
  "sdiv_ok a b \<longleftrightarrow> b \<noteq> 0 \<and> \<not> (sint a = - (2 ^ (LENGTH('a) - 1)) \<and> b = - 1)"

definition shift_ok :: "w64 \<Rightarrow> nat \<Rightarrow> bool" where
  "shift_ok b n \<longleftrightarrow> unat (lo b) < n"

definition guarded :: "bool \<Rightarrow> 'a \<Rightarrow> 'a option" where
  "guarded b x = (if b then Some x else None)"

lemma guarded_Some [simp]: "guarded b x = Some y \<longleftrightarrow> b \<and> x = y"
  by (simp add: guarded_def)

fun arith_word :: "arithOp \<Rightarrow> w64 list \<Rightarrow> w32 option" where
  "arith_word Oadd [a, b] = Some (lo a + lo b)"
| "arith_word (Oaddimm n) [a] = Some (lo a + of_int n)"
| "arith_word Oneg [a] = Some (- lo a)"
| "arith_word Osub [a, b] = Some (lo a - lo b)"
| "arith_word Omul [a, b] = Some (lo a * lo b)"
| "arith_word (Omulimm n) [a] = Some (lo a * of_int n)"
| "arith_word Omulhs [a, b] = Some (word_of_int (sint (lo a) * sint (lo b) div 2 ^ 32))"
| "arith_word Omulhu [a, b] = Some (word_of_int (uint (lo a) * uint (lo b) div 2 ^ 32))"
| "arith_word Odiv [a, b] = guarded (sdiv_ok (lo a) (lo b)) (sdiv_word (lo a) (lo b))"
| "arith_word Odivu [a, b] = guarded (lo b \<noteq> 0) (lo a div lo b)"
| "arith_word Omod [a, b] = guarded (sdiv_ok (lo a) (lo b)) (smod_word (lo a) (lo b))"
| "arith_word Omodu [a, b] = guarded (lo b \<noteq> 0) (lo a mod lo b)"
| "arith_word _ _ = None"

fun bit_word :: "bitOp \<Rightarrow> w64 list \<Rightarrow> w32 option" where
  "bit_word Oand [a, b] = Some (lo a AND lo b)"
| "bit_word (Oandimm n) [a] = Some (lo a AND of_int n)"
| "bit_word Oor [a, b] = Some (lo a OR lo b)"
| "bit_word (Oorimm n) [a] = Some (lo a OR of_int n)"
| "bit_word Oxor [a, b] = Some (lo a XOR lo b)"
| "bit_word (Oxorimm n) [a] = Some (lo a XOR of_int n)"
| "bit_word Onot [a] = Some (NOT (lo a))"
| "bit_word Oshl [a, b] = guarded (shift_ok b 32) (push_bit (unat (lo b)) (lo a))"
| "bit_word (Oshlimm n) [a] = guarded (0 \<le> n \<and> n < 32) (push_bit (nat n) (lo a))"
| "bit_word Oshr [a, b] = guarded (shift_ok b 32) (signed_drop_bit (unat (lo b)) (lo a))"
| "bit_word (Oshrimm n) [a] = guarded (0 \<le> n \<and> n < 32) (signed_drop_bit (nat n) (lo a))"
| "bit_word Oshru [a, b] = guarded (shift_ok b 32) (drop_bit (unat (lo b)) (lo a))"
| "bit_word (Oshruimm n) [a] = guarded (0 \<le> n \<and> n < 32) (drop_bit (nat n) (lo a))"
| "bit_word _ _ = None"

fun long_word :: "longOp \<Rightarrow> w64 list \<Rightarrow> w64 option" where
  "long_word Oaddl [a, b] = Some (a + b)"
| "long_word (Oaddlimm n) [a] = Some (a + of_int n)"
| "long_word Onegl [a] = Some (- a)"
| "long_word Osubl [a, b] = Some (a - b)"
| "long_word Omull [a, b] = Some (a * b)"
| "long_word (Omullimm n) [a] = Some (a * of_int n)"
| "long_word Omullhs [a, b] = Some (word_of_int (sint a * sint b div 2 ^ 64))"
| "long_word Omullhu [a, b] = Some (word_of_int (uint a * uint b div 2 ^ 64))"
| "long_word Odivl [a, b] = guarded (sdiv_ok a b) (sdiv_word a b)"
| "long_word Odivlu [a, b] = guarded (b \<noteq> 0) (a div b)"
| "long_word Omodl [a, b] = guarded (sdiv_ok a b) (smod_word a b)"
| "long_word Omodlu [a, b] = guarded (b \<noteq> 0) (a mod b)"
| "long_word Oandl [a, b] = Some (a AND b)"
| "long_word (Oandlimm n) [a] = Some (a AND of_int n)"
| "long_word Oorl [a, b] = Some (a OR b)"
| "long_word (Oorlimm n) [a] = Some (a OR of_int n)"
| "long_word Oxorl [a, b] = Some (a XOR b)"
| "long_word (Oxorlimm n) [a] = Some (a XOR of_int n)"
| "long_word Onotl [a] = Some (NOT a)"
| "long_word Oshll [a, b] = guarded (shift_ok b 64) (push_bit (unat (lo b)) a)"
| "long_word (Oshllimm n) [a] = guarded (0 \<le> n \<and> n < 64) (push_bit (nat n) a)"
| "long_word Oshrl [a, b] = guarded (shift_ok b 64) (signed_drop_bit (unat (lo b)) a)"
| "long_word (Oshrlimm n) [a] = guarded (0 \<le> n \<and> n < 64) (signed_drop_bit (nat n) a)"
| "long_word Oshrlu [a, b] = guarded (shift_ok b 64) (drop_bit (unat (lo b)) a)"
| "long_word (Oshrluimm n) [a] = guarded (0 \<le> n \<and> n < 64) (drop_bit (nat n) a)"
| "long_word _ _ = None"

fun conv_word :: "convOp \<Rightarrow> w64 \<Rightarrow> w64" where
  "conv_word Ocast8signed a = zx (scast (ucast a :: 8 word))"
| "conv_word Ocast8unsigned a = zx (ucast (ucast a :: 8 word))"
| "conv_word Ocast16signed a = zx (scast (ucast a :: 16 word))"
| "conv_word Ocast16unsigned a = zx (ucast (ucast a :: 16 word))"
| "conv_word Olongofint a = scast (lo a)"
| "conv_word Olongofintu a = zx (lo a)"
| "conv_word Ointoflong a = zx (lo a)"

section \<open>Comparisons\<close>

fun cmp_with :: "condition \<Rightarrow> int \<Rightarrow> int \<Rightarrow> bool" where
  "cmp_with Ceq a b \<longleftrightarrow> a = b"
| "cmp_with Cne a b \<longleftrightarrow> a \<noteq> b"
| "cmp_with Clt a b \<longleftrightarrow> a < b"
| "cmp_with Cle a b \<longleftrightarrow> a \<le> b"
| "cmp_with Cgt a b \<longleftrightarrow> b < a"
| "cmp_with Cge a b \<longleftrightarrow> b \<le> a"

lemma cmp_with_Negate [simp]: "cmp_with (Negate c) a b \<longleftrightarrow> \<not> cmp_with c a b"
  by (cases c) auto

fun fcmp_with :: "condition \<Rightarrow> fresult \<Rightarrow> bool" where
  "fcmp_with Ceq r \<longleftrightarrow> r = FEqual"
| "fcmp_with Cne r \<longleftrightarrow> r \<noteq> FEqual"
| "fcmp_with Clt r \<longleftrightarrow> r = FLess"
| "fcmp_with Cle r \<longleftrightarrow> r = FLess \<or> r = FEqual"
| "fcmp_with Cgt r \<longleftrightarrow> r = FGreater"
| "fcmp_with Cge r \<longleftrightarrow> r = FGreater \<or> r = FEqual"

abbreviation (input) scmp :: "condition \<Rightarrow> 'a::len word \<Rightarrow> 'a word \<Rightarrow> bool" where
  "scmp c a b \<equiv> cmp_with c (sint a) (sint b)"

abbreviation (input) ucmp :: "condition \<Rightarrow> 'a::len word \<Rightarrow> 'a word \<Rightarrow> bool" where
  "ucmp c a b \<equiv> cmp_with c (uint a) (uint b)"

fun word_cond :: "target \<Rightarrow> conditionCode \<Rightarrow> w64 list \<Rightarrow> bool option" where
  "word_cond T (Ccomp c) [a, b] = Some (scmp c (lo a) (lo b))"
| "word_cond T (Ccompu c) [a, b] = Some (ucmp c (lo a) (lo b))"
| "word_cond T (Ccompimm c n) [a] = Some (scmp c (lo a) (of_int n))"
| "word_cond T (Ccompuimm c n) [a] = Some (ucmp c (lo a) (of_int n))"
| "word_cond T (Ccompl c) [a, b] = Some (scmp c a b)"
| "word_cond T (Ccomplu c) [a, b] = Some (ucmp c a b)"
| "word_cond T (Ccomplimm c n) [a] = Some (scmp c a (of_int n))"
| "word_cond T (Ccompluimm c n) [a] = Some (ucmp c a (of_int n))"
| "word_cond T (Ccompf c) [a, b] = Some (fcmp_with c (t_fcmp T True a b))"
| "word_cond T (Cnotcompf c) [a, b] = Some (\<not> fcmp_with c (t_fcmp T True a b))"
| "word_cond T (Ccomps c) [a, b] = Some (fcmp_with c (t_fcmp T False a b))"
| "word_cond T (Cnotcomps c) [a, b] = Some (\<not> fcmp_with c (t_fcmp T False a b))"
| "word_cond T _ _ = None"

fun cmp_code :: "cmpOp \<Rightarrow> conditionCode" where
  "cmp_code (Ocmp c) = Ccomp c"
| "cmp_code (Ocmpu c) = Ccompu c"
| "cmp_code (Ocmpf c) = Ccompf c"
| "cmp_code (Ocmps c) = Ccomps c"
| "cmp_code (Ocmpl c) = Ccompl c"
| "cmp_code (Ocmplu c) = Ccomplu c"
| "cmp_code (Ocmpimm c n) = Ccompimm c n"
| "cmp_code (Ocmpuimm c n) = Ccompuimm c n"
| "cmp_code (Ocmplimm c n) = Ccomplimm c n"
| "cmp_code (Ocmpluimm c n) = Ccompluimm c n"

section \<open>Operations and addresses\<close>

fun float_arity :: "floatOp \<Rightarrow> nat" where
  "float_arity Onegf = 1"
| "float_arity Oabsf = 1"
| "float_arity Onegs = 1"
| "float_arity Oabss = 1"
| "float_arity _ = 2"

fun word_op :: "target \<Rightarrow> operation \<Rightarrow> w64 list \<Rightarrow> w64 option" where
  "word_op T Omove [a] = Some a"
| "word_op T (Ointconst n) [] = Some (zx (of_int n))"
| "word_op T (Olongconst n) [] = Some (of_int n)"
| "word_op T (Ofloatconst n) [] = Some (of_int n)"
| "word_op T (Osingleconst n) [] = Some (zx (of_int n))"
| "word_op T (Oaddrsymbol s n) [] = Some (t_symbol T s + of_int n)"
| "word_op T (Oaddrstack n) [] = Some (t_stack T + of_int n)"
| "word_op T (Oarith o') vs = map_option zx (arith_word o' vs)"
| "word_op T (Obit o') vs = map_option zx (bit_word o' vs)"
| "word_op T (Olong o') vs = long_word o' vs"
| "word_op T (Oconv o') [a] = Some (conv_word o' a)"
| "word_op T (Ofloat o') vs = guarded (length vs = float_arity o') (t_float T o' vs)"
| "word_op T (Ofconv o') [a] = Some (t_fconv T o' a)"
| "word_op T (Ocompare o') vs = map_option (\<lambda>b. if b then 1 else 0) (word_cond T (cmp_code o') vs)"
| "word_op T _ _ = None"

fun word_addr :: "target \<Rightarrow> addressingMode \<Rightarrow> w64 list \<Rightarrow> w64 option" where
  "word_addr T (Aindexed n) [a] = Some (a + of_int n)"
| "word_addr T Aindexed2 [a, b] = Some (a + b)"
| "word_addr T (Aindexed2shift n) [a, b] = guarded (0 \<le> n \<and> n < 64) (a + push_bit (nat n) b)"
| "word_addr T (Aindexed2ext Xsgn32 n) [a, b] = guarded (0 \<le> n \<and> n < 64) (a + push_bit (nat n) (scast (lo b)))"
| "word_addr T (Aindexed2ext Xuns32 n) [a, b] = guarded (0 \<le> n \<and> n < 64) (a + push_bit (nat n) (zx (lo b)))"
| "word_addr T (Aglobal s n) [] = Some (t_symbol T s + of_int n)"
| "word_addr T (Ainstack n) [] = Some (t_stack T + of_int n)"
| "word_addr T _ _ = None"

text \<open>
  The meaning of the back-end languages: a register holds a word or nothing known. Moves copy either;
  everything else needs known operands. Calls are left to the record \<open>E\<close>.
\<close>

type_synonym val = "w64 option"

primrec known :: "val list \<Rightarrow> w64 list option" where
  "known [] = Some []"
| "known (v # vs) = Option.bind v (\<lambda>w. map_option (Cons w) (known vs))"

lemma known_Some_iff: "known vs = Some ws \<longleftrightarrow> vs = map Some ws"
  by (induction vs arbitrary: ws) (auto simp: bind_eq_Some_conv)

definition with_known :: "(w64 list \<Rightarrow> 'a option) \<Rightarrow> val list \<Rightarrow> 'a option" where
  "with_known f vs = Option.bind (known vs) f"

lemma with_known_Some: "with_known f vs = Some y \<longleftrightarrow> (\<exists>ws. vs = map Some ws \<and> f ws = Some y)"
  by (auto simp: with_known_def bind_eq_Some_conv known_Some_iff)

lemma with_known_map [simp]: "with_known f (map Some ws) = f ws"
  by (simp add: with_known_def iffD2 [OF known_Some_iff])

definition word_index :: "val \<Rightarrow> nat option" where
  "word_index v = map_option unat v"

definition word_sem :: "target \<Rightarrow> (val, mem) sem \<Rightarrow> (val, mem) sem" where
  "word_sem T E = E\<lparr>
     sem_op := (\<lambda>op vs m. map_option Some (with_known (word_op T op) vs)),
     sem_load := (\<lambda>ch a vs m. with_known (\<lambda>ws. map_option Some
       (Option.bind (word_addr T a ws) (\<lambda>p. load_chunk ch p m))) vs),
     sem_store := (\<lambda>ch a vs v m. with_known (\<lambda>ws.
       Option.bind (word_addr T a (tl ws)) (\<lambda>p. store_chunk ch p (hd ws) m)) (v # vs)),
     sem_cond := (\<lambda>c vs m. with_known (word_cond T c) vs),
     sem_index := word_index,
     sem_undef := None\<rparr>"

lemma word_sem_simps [simp]:
  "sem_op (word_sem T E) op vs m = map_option Some (with_known (word_op T op) vs)"
  "sem_load (word_sem T E) ch a vs m =
     with_known (\<lambda>ws. map_option Some (Option.bind (word_addr T a ws) (\<lambda>p. load_chunk ch p m))) vs"
  "sem_store (word_sem T E) ch a vs v m =
     with_known (\<lambda>ws. Option.bind (word_addr T a (tl ws)) (\<lambda>p. store_chunk ch p (hd ws) m)) (v # vs)"
  "sem_cond (word_sem T E) c vs m = with_known (word_cond T c) vs"
  "sem_index (word_sem T E) = word_index" "sem_undef (word_sem T E) = None"
  "sem_arity (word_sem T E) = sem_arity E" "sem_call (word_sem T E) = sem_call E"
  "sem_builtin (word_sem T E) = sem_builtin E"
  by (simp_all add: word_sem_def)

end
