(* ===== verification/ArmSem.thy ===== *)
theory ArmSem
  imports Asm WordSem
begin

text \<open>
  The processor: what the instructions of \<open>pkg/asm/ast.go\<close> do to the registers, the condition flags and
  the memory, following the architecture. An instruction on \<open>W\<close> registers reads the lower halves of its
  operands and clears the upper half of its result. \<open>encodable\<close> says which immediates the assembler
  accepts. \<open>ADDpageoff\<close> is given the meaning of the text that \<open>pkg/asm/printer.go\<close> prints for it, which
  depends on the platform.
\<close>

record flags =
  flag_n :: bool
  flag_z :: bool
  flag_c :: bool
  flag_v :: bool

record astate =
  a_regs :: "mreg \<Rightarrow> w64"
  a_flags :: flags
  a_mem :: mem

section \<open>Condition flags\<close>

definition flags_sub :: "'a::len word \<Rightarrow> 'a word \<Rightarrow> flags" where
  "flags_sub a b = \<lparr>flag_n = sint (a - b) < 0, flag_z = (a = b), flag_c = uint b \<le> uint a,
     flag_v = (sint (a - b) \<noteq> sint a - sint b)\<rparr>"

definition flags_add :: "'a::len word \<Rightarrow> 'a word \<Rightarrow> flags" where
  "flags_add a b = \<lparr>flag_n = sint (a + b) < 0, flag_z = (a + b = 0), flag_c = 2 ^ LENGTH('a) \<le> uint a + uint b,
     flag_v = (sint (a + b) \<noteq> sint a + sint b)\<rparr>"

definition flags_and :: "'a::len word \<Rightarrow> 'a word \<Rightarrow> flags" where
  "flags_and a b = \<lparr>flag_n = sint (a AND b) < 0, flag_z = (a AND b = 0), flag_c = False, flag_v = False\<rparr>"

fun flags_float :: "fresult \<Rightarrow> flags" where
  "flags_float FLess = \<lparr>flag_n = True, flag_z = False, flag_c = False, flag_v = False\<rparr>"
| "flags_float FEqual = \<lparr>flag_n = False, flag_z = True, flag_c = True, flag_v = False\<rparr>"
| "flags_float FGreater = \<lparr>flag_n = False, flag_z = False, flag_c = True, flag_v = False\<rparr>"
| "flags_float FUnordered = \<lparr>flag_n = False, flag_z = False, flag_c = True, flag_v = True\<rparr>"

fun cond_holds :: "condCode \<Rightarrow> flags \<Rightarrow> bool" where
  "cond_holds CondEQ f \<longleftrightarrow> flag_z f"
| "cond_holds CondNE f \<longleftrightarrow> \<not> flag_z f"
| "cond_holds CondCS f \<longleftrightarrow> flag_c f"
| "cond_holds CondCC f \<longleftrightarrow> \<not> flag_c f"
| "cond_holds CondMI f \<longleftrightarrow> flag_n f"
| "cond_holds CondPL f \<longleftrightarrow> \<not> flag_n f"
| "cond_holds CondVS f \<longleftrightarrow> flag_v f"
| "cond_holds CondVC f \<longleftrightarrow> \<not> flag_v f"
| "cond_holds CondHI f \<longleftrightarrow> flag_c f \<and> \<not> flag_z f"
| "cond_holds CondLS f \<longleftrightarrow> \<not> flag_c f \<or> flag_z f"
| "cond_holds CondGE f \<longleftrightarrow> flag_n f = flag_v f"
| "cond_holds CondLT f \<longleftrightarrow> flag_n f \<noteq> flag_v f"
| "cond_holds CondGT f \<longleftrightarrow> \<not> flag_z f \<and> flag_n f = flag_v f"
| "cond_holds CondLE f \<longleftrightarrow> flag_z f \<or> flag_n f \<noteq> flag_v f"
| "cond_holds CondAL f \<longleftrightarrow> True"

section \<open>Instructions\<close>

text \<open>An operation at either width.\<close>

definition alu1 :: "bool \<Rightarrow> (w32 \<Rightarrow> w32) \<Rightarrow> (w64 \<Rightarrow> w64) \<Rightarrow> w64 \<Rightarrow> w64" where
  "alu1 is64 f g a = (if is64 then g a else zx (f (lo a)))"

definition alu2 :: "bool \<Rightarrow> (w32 \<Rightarrow> w32 \<Rightarrow> w32) \<Rightarrow> (w64 \<Rightarrow> w64 \<Rightarrow> w64) \<Rightarrow> w64 \<Rightarrow> w64 \<Rightarrow> w64" where
  "alu2 is64 f g a b = (if is64 then g a b else zx (f (lo a) (lo b)))"

definition width :: "bool \<Rightarrow> w64 \<Rightarrow> w64" where
  "width is64 v = (if is64 then v else zx (lo v))"

definition set_reg :: "mreg \<Rightarrow> w64 \<Rightarrow> astate \<Rightarrow> astate" where
  "set_reg r v s = s\<lparr>a_regs := (a_regs s)(r := v)\<rparr>"

definition set_flags :: "flags \<Rightarrow> astate \<Rightarrow> astate" where
  "set_flags f s = s\<lparr>a_flags := f\<rparr>"

lemma set_reg_simps [simp]:
  "a_regs (set_reg r v s) = (a_regs s)(r := v)" "a_mem (set_reg r v s) = a_mem s" "a_flags (set_reg r v s) = a_flags s"
  "a_regs (set_flags f s) = a_regs s" "a_mem (set_flags f s) = a_mem s" "a_flags (set_flags f s) = f"
  by (simp_all add: set_reg_def set_flags_def)

fun exec_data :: "asm_data \<Rightarrow> astate \<Rightarrow> astate" where
  "exec_data (ADD d n m w) s = set_reg d (alu2 w (+) (+) (a_regs s n) (a_regs s m)) s"
| "exec_data (ADDi d n i w) s = set_reg d (alu2 w (+) (+) (a_regs s n) (of_int i)) s"
| "exec_data (SUB d n m w) s = set_reg d (alu2 w (-) (-) (a_regs s n) (a_regs s m)) s"
| "exec_data (SUBi d n i w) s = set_reg d (alu2 w (-) (-) (a_regs s n) (of_int i)) s"
| "exec_data (MUL d n m w) s = set_reg d (alu2 w (*) (*) (a_regs s n) (a_regs s m)) s"
| "exec_data (MADD d n m a w) s =
     set_reg d (alu2 w (+) (+) (a_regs s a) (alu2 w (*) (*) (a_regs s n) (a_regs s m))) s"
| "exec_data (SMULL d n m) s = set_reg d (scast (lo (a_regs s n)) * scast (lo (a_regs s m))) s"
| "exec_data (UMULL d n m) s = set_reg d (zx (lo (a_regs s n)) * zx (lo (a_regs s m))) s"
| "exec_data (SDIV d n m w) s = set_reg d (alu2 w sdiv_word sdiv_word (a_regs s n) (a_regs s m)) s"
| "exec_data (UDIV d n m w) s = set_reg d (alu2 w (div) (div) (a_regs s n) (a_regs s m)) s"

fun exec_bit :: "asm_bit \<Rightarrow> astate \<Rightarrow> astate" where
  "exec_bit (ANDr d n m w) s = set_reg d (alu2 w (AND) (AND) (a_regs s n) (a_regs s m)) s"
| "exec_bit (ANDi d n i w) s = set_reg d (alu2 w (AND) (AND) (a_regs s n) (of_int i)) s"
| "exec_bit (ORR d n m w) s = set_reg d (alu2 w (OR) (OR) (a_regs s n) (a_regs s m)) s"
| "exec_bit (ORRi d n i w) s = set_reg d (alu2 w (OR) (OR) (a_regs s n) (of_int i)) s"
| "exec_bit (EOR d n m w) s = set_reg d (alu2 w (XOR) (XOR) (a_regs s n) (a_regs s m)) s"
| "exec_bit (EORi d n i w) s = set_reg d (alu2 w (XOR) (XOR) (a_regs s n) (of_int i)) s"
| "exec_bit (MVN d m w) s = set_reg d (alu1 w NOT NOT (a_regs s m)) s"
| "exec_bit (NEG d m w) s = set_reg d (alu1 w uminus uminus (a_regs s m)) s"

text \<open>A shift by a register takes the amount modulo the width.\<close>

definition shift_by :: "bool \<Rightarrow> w64 \<Rightarrow> nat" where
  "shift_by is64 b = (if is64 then unat b mod 64 else unat (lo b) mod 32)"

fun exec_shift :: "asm_shift \<Rightarrow> astate \<Rightarrow> astate" where
  "exec_shift (LSL d n m w) s =
     (let k = shift_by w (a_regs s m) in set_reg d (alu1 w (push_bit k) (push_bit k) (a_regs s n)) s)"
| "exec_shift (LSLi d n k w) s = set_reg d (alu1 w (push_bit (nat k)) (push_bit (nat k)) (a_regs s n)) s"
| "exec_shift (LSR d n m w) s =
     (let k = shift_by w (a_regs s m) in set_reg d (alu1 w (drop_bit k) (drop_bit k) (a_regs s n)) s)"
| "exec_shift (LSRi d n k w) s = set_reg d (alu1 w (drop_bit (nat k)) (drop_bit (nat k)) (a_regs s n)) s"
| "exec_shift (ASR d n m w) s =
     (let k = shift_by w (a_regs s m) in set_reg d (alu1 w (signed_drop_bit k) (signed_drop_bit k) (a_regs s n)) s)"
| "exec_shift (ASRi d n k w) s =
     set_reg d (alu1 w (signed_drop_bit (nat k)) (signed_drop_bit (nat k)) (a_regs s n)) s"
| "exec_shift (ROR d n m w) s =
     (let k = shift_by w (a_regs s m) in set_reg d (alu1 w (word_rotr k) (word_rotr k) (a_regs s n)) s)"
| "exec_shift (RORi d n k w) s = set_reg d (alu1 w (word_rotr (nat k)) (word_rotr (nat k)) (a_regs s n)) s"

section \<open>Memory access\<close>

definition at_ofs :: "astate \<Rightarrow> mreg \<Rightarrow> int64 \<Rightarrow> w64" where
  "at_ofs s n ofs = a_regs s n + of_int ofs"

definition load_to :: "mreg \<Rightarrow> nat \<Rightarrow> (w64 \<Rightarrow> w64) \<Rightarrow> w64 \<Rightarrow> astate \<Rightarrow> astate option" where
  "load_to r k f p s = map_option (\<lambda>w. set_reg r (f w) s) (read_bytes k p (a_mem s))"

definition store_from :: "w64 \<Rightarrow> nat \<Rightarrow> w64 \<Rightarrow> astate \<Rightarrow> astate option" where
  "store_from v k p s = map_option (\<lambda>m. s\<lparr>a_mem := m\<rparr>) (write_bytes k p v (a_mem s))"

definition size_of :: "bool \<Rightarrow> nat" where
  "size_of is64 = (if is64 then 8 else 4)"

definition load_pair :: "mreg \<Rightarrow> mreg \<Rightarrow> bool \<Rightarrow> w64 \<Rightarrow> astate \<Rightarrow> astate option" where
  "load_pair t1 t2 w p s = Option.bind (read_bytes (size_of w) p (a_mem s)) (\<lambda>v1.
     map_option (\<lambda>v2. set_reg t2 v2 (set_reg t1 v1 s)) (read_bytes (size_of w) (p + of_nat (size_of w)) (a_mem s)))"

definition store_pair :: "mreg \<Rightarrow> mreg \<Rightarrow> bool \<Rightarrow> w64 \<Rightarrow> astate \<Rightarrow> astate option" where
  "store_pair t1 t2 w p s = Option.bind (store_from (a_regs s t1) (size_of w) p s)
     (store_from (a_regs s t2) (size_of w) (p + of_nat (size_of w)))"

fun exec_load :: "asm_load \<Rightarrow> astate \<Rightarrow> astate option" where
  "exec_load (LDR t n ofs w) s = load_to t (size_of w) id (at_ofs s n ofs) s"
| "exec_load (LDRr t n m w) s = load_to t (size_of w) id (a_regs s n + a_regs s m) s"
| "exec_load (LDRB t n ofs) s = load_to t 1 id (at_ofs s n ofs) s"
| "exec_load (LDRH t n ofs) s = load_to t 2 id (at_ofs s n ofs) s"
| "exec_load (LDRSB t n ofs w) s =
     load_to t 1 (\<lambda>v. if w then scast (ucast v :: w8) else zx (scast (ucast v :: w8))) (at_ofs s n ofs) s"
| "exec_load (LDRSH t n ofs w) s =
     load_to t 2 (\<lambda>v. if w then scast (ucast v :: w16) else zx (scast (ucast v :: w16))) (at_ofs s n ofs) s"
| "exec_load (LDRSW t n ofs) s = load_to t 4 (\<lambda>v. scast (lo v)) (at_ofs s n ofs) s"
| "exec_load (LDP t1 t2 n ofs w) s = load_pair t1 t2 w (at_ofs s n ofs) s"
| "exec_load (LDPpost t1 t2 n ofs w) s =
     map_option (set_reg n (at_ofs s n ofs)) (load_pair t1 t2 w (a_regs s n) s)"
| "exec_load (FLDRs t n ofs) s = load_to t 4 id (at_ofs s n ofs) s"
| "exec_load (FLDRd t n ofs) s = load_to t 8 id (at_ofs s n ofs) s"

fun exec_store :: "asm_store \<Rightarrow> astate \<Rightarrow> astate option" where
  "exec_store (STRi t n ofs w) s = store_from (a_regs s t) (size_of w) (at_ofs s n ofs) s"
| "exec_store (STRr t n m w) s = store_from (a_regs s t) (size_of w) (a_regs s n + a_regs s m) s"
| "exec_store (STRB t n ofs) s = store_from (a_regs s t) 1 (at_ofs s n ofs) s"
| "exec_store (STRH t n ofs) s = store_from (a_regs s t) 2 (at_ofs s n ofs) s"
| "exec_store (STP t1 t2 n ofs w) s = store_pair t1 t2 w (at_ofs s n ofs) s"
| "exec_store (STPpre t1 t2 n ofs w) s =
     map_option (set_reg n (at_ofs s n ofs)) (store_pair t1 t2 w (at_ofs s n ofs) s)"
| "exec_store (FSTRs t n ofs) s = store_from (a_regs s t) 4 (at_ofs s n ofs) s"
| "exec_store (FSTRd t n ofs) s = store_from (a_regs s t) 8 (at_ofs s n ofs) s"

section \<open>Comparisons, moves, floating point\<close>

definition cmp_flags ::
  "bool \<Rightarrow> (w32 \<Rightarrow> w32 \<Rightarrow> flags) \<Rightarrow> (w64 \<Rightarrow> w64 \<Rightarrow> flags) \<Rightarrow> w64 \<Rightarrow> w64 \<Rightarrow> astate \<Rightarrow> astate" where
  "cmp_flags is64 f g a b = set_flags (if is64 then g a b else f (lo a) (lo b))"

fun exec_compare :: "asm_compare \<Rightarrow> astate \<Rightarrow> astate" where
  "exec_compare (CMP n m w) s = cmp_flags w flags_sub flags_sub (a_regs s n) (a_regs s m) s"
| "exec_compare (CMPi n i w) s = cmp_flags w flags_sub flags_sub (a_regs s n) (of_int i) s"
| "exec_compare (CMN n m w) s = cmp_flags w flags_add flags_add (a_regs s n) (a_regs s m) s"
| "exec_compare (CMNi n i w) s = cmp_flags w flags_add flags_add (a_regs s n) (of_int i) s"
| "exec_compare (TST n m w) s = cmp_flags w flags_and flags_and (a_regs s n) (a_regs s m) s"
| "exec_compare (TSTi n i w) s = cmp_flags w flags_and flags_and (a_regs s n) (of_int i) s"
| "exec_compare (CSEL d n m c w) s =
     set_reg d (width w (if cond_holds c (a_flags s) then a_regs s n else a_regs s m)) s"
| "exec_compare (CSET d c w) s = set_reg d (if cond_holds c (a_flags s) then 1 else 0) s"
| "exec_compare (CSINC d n m c w) s =
     set_reg d (if cond_holds c (a_flags s) then width w (a_regs s n) else alu1 w (\<lambda>a. a + 1) (\<lambda>a. a + 1) (a_regs s m)) s"

definition page_of :: "w64 \<Rightarrow> w64" where
  "page_of a = a AND NOT (mask 12)"

fun exec_move :: "target \<Rightarrow> asm_move \<Rightarrow> astate \<Rightarrow> astate" where
  "exec_move T (MOV d m w) s = set_reg d (width w (a_regs s m)) s"
| "exec_move T (MOVi d i w) s = set_reg d (width w (of_int i)) s"
| "exec_move T (MOVZ d i k w) s = set_reg d (width w (push_bit (nat k) (of_nat i))) s"
| "exec_move T (MOVK d i k w) s =
     set_reg d (width w ((a_regs s d AND NOT (push_bit (nat k) (mask 16))) OR push_bit (nat k) (of_nat i))) s"
| "exec_move T (MOVN d i k w) s = set_reg d (width w (NOT (push_bit (nat k) (of_nat i)))) s"
| "exec_move T (ADR d l) s = set_reg d (t_symbol T l) s"
| "exec_move T (ADRP d l _) s = set_reg d (page_of (t_symbol T l)) s"
| "exec_move T (ADDpageoff d n l ofs) s = set_reg d (a_regs s n +
     (if t_darwin T then (t_symbol T l + of_int ofs) AND mask 12 else of_int ofs)) s"

text \<open>
  A floating-point register holds the bit pattern of its value. \<open>FMOVi\<close> has eight bits for its constant:
  a sign, an exponent from -3 to 4 and four bits of the fraction.
\<close>

definition fmov_imm :: "float64 \<Rightarrow> bool" where
  "fmov_imm n \<longleftrightarrow> 0 \<le> n \<and> n < 2 ^ 64 \<and> n mod 2 ^ 48 = 0 \<and>
     (let e = (n div 2 ^ 52) mod 2 ^ 11 in 1020 \<le> e \<and> e \<le> 1027)"

definition narrow_imm :: "float64 \<Rightarrow> float32" where
  "narrow_imm n = (n div 2 ^ 63) * 2 ^ 31 + ((n div 2 ^ 52) mod 2 ^ 11 - 896) * 2 ^ 23 + (n mod 2 ^ 52) div 2 ^ 29"

fun exec_float :: "target \<Rightarrow> asm_float \<Rightarrow> astate \<Rightarrow> astate option" where
  "exec_float T (FADD d n m db) s = Some (set_reg d (t_float T (if db then Oaddf else Oadds) [a_regs s n, a_regs s m]) s)"
| "exec_float T (FSUB d n m db) s = Some (set_reg d (t_float T (if db then Osubf else Osubs) [a_regs s n, a_regs s m]) s)"
| "exec_float T (FMUL d n m db) s = Some (set_reg d (t_float T (if db then Omulf else Omuls) [a_regs s n, a_regs s m]) s)"
| "exec_float T (FDIV d n m db) s = Some (set_reg d (t_float T (if db then Odivf else Odivs) [a_regs s n, a_regs s m]) s)"
| "exec_float T (FNEG d n db) s = Some (set_reg d (t_float T (if db then Onegf else Onegs) [a_regs s n]) s)"
| "exec_float T (FABS d n db) s = Some (set_reg d (t_float T (if db then Oabsf else Oabss) [a_regs s n]) s)"
| "exec_float T (FSQRT d n db) s = Some (set_reg d (t_fsqrt T db (a_regs s n)) s)"
| "exec_float T (FMOV d n db) s = Some (set_reg d (width db (a_regs s n)) s)"
| "exec_float T (FMOVi d i db) s =
     (if fmov_imm i then Some (set_reg d (if db then of_int i else zx (of_int (narrow_imm i))) s) else None)"

text \<open>Conversions between integers and single precision, which no operation asks for, have no meaning here.\<close>

fun exec_fconv :: "target \<Rightarrow> asm_fconv \<Rightarrow> astate \<Rightarrow> astate option" where
  "exec_fconv T (SCVTF d n db w) s =
     (if db then Some (set_reg d (t_fconv T (if w then Ofloatoflong else Ofloatofint) (a_regs s n)) s) else None)"
| "exec_fconv T (UCVTF d n db w) s =
     (if db then Some (set_reg d (t_fconv T (if w then Ofloatoflongu else Ofloatofintu) (a_regs s n)) s) else None)"
| "exec_fconv T (FCVTZS d n db w) s =
     (if db then Some (set_reg d (t_fconv T (if w then Olongoffloat else Ointoffloat) (a_regs s n)) s) else None)"
| "exec_fconv T (FCVTZU d n db w) s =
     (if db then Some (set_reg d (t_fconv T (if w then Olonguoffloat else Ointuoffloat) (a_regs s n)) s) else None)"
| "exec_fconv T (FCVT d n db) s =
     Some (set_reg d (t_fconv T (if db then Ofloatofsingle else Osingleoffloat) (a_regs s n)) s)"
| "exec_fconv T (FCMP n m db) s = Some (set_flags (flags_float (t_fcmp T db (a_regs s n) (a_regs s m))) s)"
| "exec_fconv T (FCMPz n db) s = Some (set_flags (flags_float (t_fcmp T db (a_regs s n) 0)) s)"

fun exec_extend :: "asm_extend \<Rightarrow> astate \<Rightarrow> astate" where
  "exec_extend (SXTB d n w) s =
     set_reg d (if w then scast (ucast (a_regs s n) :: w8) else zx (scast (ucast (a_regs s n) :: w8))) s"
| "exec_extend (SXTH d n w) s =
     set_reg d (if w then scast (ucast (a_regs s n) :: w16) else zx (scast (ucast (a_regs s n) :: w16))) s"
| "exec_extend (SXTW d n) s = set_reg d (scast (lo (a_regs s n))) s"
| "exec_extend (UXTB d n) s = set_reg d (ucast (ucast (a_regs s n) :: w8)) s"
| "exec_extend (UXTH d n) s = set_reg d (ucast (ucast (a_regs s n) :: w16)) s"

section \<open>Control\<close>

text \<open>What an instruction does: go on, jump to a label, call, leave the function. A call returns to the
  next instruction; how the callee changes the state is left to the step relation.\<close>

datatype asm_action =
    AFall astate
  | AJump asm_label
  | ACall "w64 funVal"
  | ATail "w64 funVal"
  | ARet
  | AWrong

definition fall_or_wrong :: "astate option \<Rightarrow> asm_action" where
  "fall_or_wrong x = (case x of Some s \<Rightarrow> AFall s | None \<Rightarrow> AWrong)"

fun exec_branch :: "asm_branch \<Rightarrow> astate \<Rightarrow> asm_action" where
  "exec_branch (B l isSym) s = (if isSym then ATail (FV_sym l) else AJump l)"
| "exec_branch (BL l isSym) s = ACall (FV_sym l)"
| "exec_branch (BR n) s = ATail (FV_ptr (a_regs s n))"
| "exec_branch (BLR n) s = ACall (FV_ptr (a_regs s n))"
| "exec_branch RET s = ARet"
| "exec_branch (Bcond c l) s = (if cond_holds c (a_flags s) then AJump l else AFall s)"

fun asm_effect :: "target \<Rightarrow> asm_instr \<Rightarrow> astate \<Rightarrow> asm_action" where
  "asm_effect T (Data i) s = AFall (exec_data i s)"
| "asm_effect T (Bits i) s = AFall (exec_bit i s)"
| "asm_effect T (Shift i) s = AFall (exec_shift i s)"
| "asm_effect T (Load i) s = fall_or_wrong (exec_load i s)"
| "asm_effect T (Store i) s = fall_or_wrong (exec_store i s)"
| "asm_effect T (Branch i) s = exec_branch i s"
| "asm_effect T (Compare i) s = AFall (exec_compare i s)"
| "asm_effect T (Move i) s = AFall (exec_move T i s)"
| "asm_effect T (Float i) s = fall_or_wrong (exec_float T i s)"
| "asm_effect T (Fconv i) s = fall_or_wrong (exec_fconv T i s)"
| "asm_effect T (Extend i) s = AFall (exec_extend i s)"
| "asm_effect T (LabelDef l) s = AFall s"

text \<open>Running code up to the first instruction that does not go on to the next one.\<close>

fun asm_run :: "target \<Rightarrow> asm_instr list \<Rightarrow> astate \<Rightarrow> asm_action" where
  "asm_run T [] s = AFall s"
| "asm_run T (i # is) s = (case asm_effect T i s of AFall s' \<Rightarrow> asm_run T is s' | a \<Rightarrow> a)"

lemma asm_run_append:
  "asm_run T (is @ js) s = (case asm_run T is s of AFall s' \<Rightarrow> asm_run T js s' | a \<Rightarrow> a)"
  by (induction "is" arbitrary: s) (auto split: asm_action.split)

end
