(* ===== verification/Decimal.thy ===== *)
theory Decimal
  imports Prelude
begin

text \<open>
  Integers in decimal, as the verb \<open>%d\<close> of Go's formatting prints them in generated names, and that
  different integers print differently.
\<close>

fun digits :: "nat \<Rightarrow> string" where
  "digits n = (if n < 10 then [char_of (48 + n)] else digits (n div 10) @ [char_of (48 + n mod 10)])"

declare digits.simps [simp del]

definition show_int :: "int \<Rightarrow> string" where
  "show_int n = (if n < 0 then ''-'' @ digits (nat (- n)) else digits (nat n))"

text \<open>The digits can be read back.\<close>

definition read_digits :: "string \<Rightarrow> nat" where
  "read_digits ds = foldl (\<lambda>n c. 10 * n + (of_char c - 48)) 0 ds"

lemma read_digits [simp]: "read_digits (digits n) = n"
proof (induction n rule: digits.induct)
  case (1 n)
  show ?case
  proof (cases "n < 10")
    case True then show ?thesis by (subst digits.simps) (simp add: read_digits_def)
  next
    case False
    have "read_digits (digits (n div 10) @ [char_of (48 + n mod 10)]) = 10 * read_digits (digits (n div 10)) + n mod 10"
      by (simp add: read_digits_def)
    with 1 False show ?thesis by (subst digits.simps) simp
  qed
qed

lemma digits_inject: "digits m = digits n \<longleftrightarrow> m = n"
  by (metis read_digits)

lemma digits_no_minus: "CHR ''-'' \<notin> set (digits n)"
proof (induction n rule: digits.induct)
  case (1 n)
  have "char_of (48 + k) \<noteq> CHR ''-''" if "k < 10" for k :: nat
  proof
    assume "char_of (48 + k) = CHR ''-''"
    then have "of_char (char_of (48 + k) :: char) = (45 :: nat)" by simp
    with that show False by simp
  qed
  from this [of n] this [of "n mod 10"] 1 show ?case by (subst digits.simps) auto
qed

lemma show_int_inject: "show_int m = show_int n \<longleftrightarrow> m = n"
  using digits_no_minus
  by (auto simp: show_int_def digits_inject split: if_splits) (metis list.set_intros(1))+

end
