(* ===== verification/Asmgen.thy ===== *)
theory Asmgen
  imports ArmSem Decimal
begin

text \<open>
  The code generator (\<open>pkg/asmgen/transform.go\<close>): Mach functions become assembly functions. Where the
  code indexes an argument list that is too short it panics; the model returns \<open>None\<close> there.
\<close>

section \<open>Constants\<close>

text \<open>The \<open>k\<close>-th 16-bit piece of a number: \<open>(val >> 16k) & 0xFFFF\<close>.\<close>

definition piece :: "int64 \<Rightarrow> nat \<Rightarrow> nat" where
  "piece val k = nat (val div 2 ^ (16 * k) mod 2 ^ 16)"

definition loadIntConstant :: "mreg \<Rightarrow> int64 \<Rightarrow> bool \<Rightarrow> asm_instr list" where
  "loadIntConstant dest val is64 =
     (if 0 \<le> val \<and> val \<le> 65535 then [Move (MOVi dest val is64)]
      else if val < 0 \<and> - 65536 \<le> val then [Move (MOVN dest (piece (- val - 1) 0) 0 is64)]
      else [Move (MOVZ dest (piece val 0) 0 is64)]
        @ (if piece val 1 \<noteq> 0 then [Move (MOVK dest (piece val 1) 16 is64)] else [])
        @ (if is64 then
             (if piece val 2 \<noteq> 0 then [Move (MOVK dest (piece val 2) 32 True)] else [])
             @ (if piece val 3 \<noteq> 0 then [Move (MOVK dest (piece val 3) 48 True)] else [])
           else []))"

definition loadFloatConstant :: "mreg \<Rightarrow> float64 \<Rightarrow> bool \<Rightarrow> asm_instr list" where
  "loadFloatConstant dest val isDouble = [Float (FMOVi dest val isDouble)]"

text \<open>
  Go's conversion \<open>float64(x)\<close> of a single-precision number, on bit patterns: sign, exponent and
  fraction; a subnormal fraction is normalised, a NaN made quiet.
\<close>

definition top_bit :: "int \<Rightarrow> nat" where
  "top_bit m = length (takeWhile (\<lambda>k. 2 ^ Suc k \<le> m) [0..<23])"

definition float64_of_float32 :: "float32 \<Rightarrow> float64" where
  "float64_of_float32 n =
     (let s = n div 2 ^ 31 mod 2; e = n div 2 ^ 23 mod 2 ^ 8; m = n mod 2 ^ 23 in
      s * 2 ^ 63 +
      (if e = 255 then 2047 * 2 ^ 52 + (if m = 0 then 0 else 2 ^ 51 + m mod 2 ^ 22 * 2 ^ 29)
       else if e \<noteq> 0 then (e + 896) * 2 ^ 52 + m * 2 ^ 29
       else if m = 0 then 0
       else let k = top_bit m in (874 + int k) * 2 ^ 52 + (m - 2 ^ k) * 2 ^ (52 - k)))"

section \<open>Comparisons\<close>

fun conditionToCondCode :: "condition \<Rightarrow> bool \<Rightarrow> condCode" where
  "conditionToCondCode Ceq uns = CondEQ"
| "conditionToCondCode Cne uns = CondNE"
| "conditionToCondCode Clt uns = (if uns then CondCC else CondLT)"
| "conditionToCondCode Cle uns = (if uns then CondLS else CondLE)"
| "conditionToCondCode Cgt uns = (if uns then CondHI else CondGT)"
| "conditionToCondCode Cge uns = (if uns then CondCS else CondGE)"

text \<open>The first argument, the first two.\<close>

definition arg1 :: "mreg list \<Rightarrow> (mreg \<Rightarrow> 'a) \<Rightarrow> 'a option" where
  "arg1 args f = (case args of a # _ \<Rightarrow> Some (f a) | [] \<Rightarrow> None)"

definition arg2 :: "mreg list \<Rightarrow> (mreg \<Rightarrow> mreg \<Rightarrow> 'a) \<Rightarrow> 'a option" where
  "arg2 args f = (case args of a # b # _ \<Rightarrow> Some (f a b) | _ \<Rightarrow> None)"

definition translateCompare ::
  "mreg list \<Rightarrow> mreg \<Rightarrow> condition \<Rightarrow> bool \<Rightarrow> bool \<Rightarrow> asm_instr list option" where
  "translateCompare args dest cond uns is64 = arg2 args (\<lambda>a b.
     [Compare (CMP a b is64), Compare (CSET dest (conditionToCondCode cond uns) is64)])"

definition translateCompareImm ::
  "mreg \<Rightarrow> mreg \<Rightarrow> int64 \<Rightarrow> condition \<Rightarrow> bool \<Rightarrow> bool \<Rightarrow> asm_instr list" where
  "translateCompareImm arg dest imm cond uns is64 =
     [Compare (CMPi arg imm is64), Compare (CSET dest (conditionToCondCode cond uns) is64)]"

section \<open>Operations\<close>

fun translate_arith :: "arithOp \<Rightarrow> mreg list \<Rightarrow> mreg \<Rightarrow> asm_instr list option" where
  "translate_arith Oadd args d = arg2 args (\<lambda>a b. [Data (ADD d a b False)])"
| "translate_arith (Oaddimm n) args d = arg1 args (\<lambda>a. [Data (ADDi d a n False)])"
| "translate_arith Osub args d = arg2 args (\<lambda>a b. [Data (SUB d a b False)])"
| "translate_arith Oneg args d = arg1 args (\<lambda>a. [Bits (NEG d a False)])"
| "translate_arith Omul args d = arg2 args (\<lambda>a b. [Data (MUL d a b False)])"
| "translate_arith (Omulimm n) args d = arg1 args (\<lambda>a. [Move (MOVi X8 n False), Data (MUL d a X8 False)])"
| "translate_arith Odiv args d = arg2 args (\<lambda>a b. [Data (SDIV d a b False)])"
| "translate_arith Odivu args d = arg2 args (\<lambda>a b. [Data (UDIV d a b False)])"
| "translate_arith Omod args d = arg2 args (\<lambda>a b.
     [Data (SDIV X8 a b False), Data (MUL X8 X8 b False), Data (SUB d a X8 False)])"
| "translate_arith Omodu args d = arg2 args (\<lambda>a b.
     [Data (UDIV X8 a b False), Data (MUL X8 X8 b False), Data (SUB d a X8 False)])"
| "translate_arith _ args d = Some []"

fun translate_bit :: "bitOp \<Rightarrow> mreg list \<Rightarrow> mreg \<Rightarrow> asm_instr list option" where
  "translate_bit Oand args d = arg2 args (\<lambda>a b. [Bits (ANDr d a b False)])"
| "translate_bit (Oandimm n) args d = arg1 args (\<lambda>a. [Bits (ANDi d a n False)])"
| "translate_bit Oor args d = arg2 args (\<lambda>a b. [Bits (ORR d a b False)])"
| "translate_bit (Oorimm n) args d = arg1 args (\<lambda>a. [Bits (ORRi d a n False)])"
| "translate_bit Oxor args d = arg2 args (\<lambda>a b. [Bits (EOR d a b False)])"
| "translate_bit (Oxorimm n) args d = arg1 args (\<lambda>a. [Bits (EORi d a n False)])"
| "translate_bit Onot args d = arg1 args (\<lambda>a. [Bits (MVN d a False)])"
| "translate_bit Oshl args d = arg2 args (\<lambda>a b. [Shift (LSL d a b False)])"
| "translate_bit (Oshlimm n) args d = arg1 args (\<lambda>a. [Shift (LSLi d a n False)])"
| "translate_bit Oshr args d = arg2 args (\<lambda>a b. [Shift (ASR d a b False)])"
| "translate_bit (Oshrimm n) args d = arg1 args (\<lambda>a. [Shift (ASRi d a n False)])"
| "translate_bit Oshru args d = arg2 args (\<lambda>a b. [Shift (LSR d a b False)])"
| "translate_bit (Oshruimm n) args d = arg1 args (\<lambda>a. [Shift (LSRi d a n False)])"

fun translate_long :: "longOp \<Rightarrow> mreg list \<Rightarrow> mreg \<Rightarrow> asm_instr list option" where
  "translate_long Oaddl args d = arg2 args (\<lambda>a b. [Data (ADD d a b True)])"
| "translate_long (Oaddlimm n) args d =
     Some [Data (ADDi d (case args of a # _ \<Rightarrow> a | [] \<Rightarrow> X29) n True)]"
| "translate_long Osubl args d = arg2 args (\<lambda>a b. [Data (SUB d a b True)])"
| "translate_long Onegl args d = arg1 args (\<lambda>a. [Bits (NEG d a True)])"
| "translate_long Omull args d = arg2 args (\<lambda>a b. [Data (MUL d a b True)])"
| "translate_long Odivl args d = arg2 args (\<lambda>a b. [Data (SDIV d a b True)])"
| "translate_long Odivlu args d = arg2 args (\<lambda>a b. [Data (UDIV d a b True)])"
| "translate_long Omodl args d = arg2 args (\<lambda>a b.
     [Data (SDIV X8 a b True), Data (MUL X8 X8 b True), Data (SUB d a X8 True)])"
| "translate_long Omodlu args d = arg2 args (\<lambda>a b.
     [Data (UDIV X8 a b True), Data (MUL X8 X8 b True), Data (SUB d a X8 True)])"
| "translate_long Oandl args d = arg2 args (\<lambda>a b. [Bits (ANDr d a b True)])"
| "translate_long (Oandlimm n) args d = arg1 args (\<lambda>a. [Bits (ANDi d a n True)])"
| "translate_long Oorl args d = arg2 args (\<lambda>a b. [Bits (ORR d a b True)])"
| "translate_long (Oorlimm n) args d = arg1 args (\<lambda>a. [Bits (ORRi d a n True)])"
| "translate_long Oxorl args d = arg2 args (\<lambda>a b. [Bits (EOR d a b True)])"
| "translate_long (Oxorlimm n) args d = arg1 args (\<lambda>a. [Bits (EORi d a n True)])"
| "translate_long Onotl args d = arg1 args (\<lambda>a. [Bits (MVN d a True)])"
| "translate_long Oshll args d = arg2 args (\<lambda>a b. [Shift (LSL d a b True)])"
| "translate_long (Oshllimm n) args d = arg1 args (\<lambda>a. [Shift (LSLi d a n True)])"
| "translate_long Oshrl args d = arg2 args (\<lambda>a b. [Shift (ASR d a b True)])"
| "translate_long (Oshrlimm n) args d = arg1 args (\<lambda>a. [Shift (ASRi d a n True)])"
| "translate_long Oshrlu args d = arg2 args (\<lambda>a b. [Shift (LSR d a b True)])"
| "translate_long (Oshrluimm n) args d = arg1 args (\<lambda>a. [Shift (LSRi d a n True)])"
| "translate_long _ args d = Some []"

fun translate_conv :: "convOp \<Rightarrow> mreg list \<Rightarrow> mreg \<Rightarrow> asm_instr list option" where
  "translate_conv Ocast8signed args d = arg1 args (\<lambda>a. [Extend (SXTB d a False)])"
| "translate_conv Ocast8unsigned args d = arg1 args (\<lambda>a. [Extend (UXTB d a)])"
| "translate_conv Ocast16signed args d = arg1 args (\<lambda>a. [Extend (SXTH d a False)])"
| "translate_conv Ocast16unsigned args d = arg1 args (\<lambda>a. [Extend (UXTH d a)])"
| "translate_conv Olongofint args d = arg1 args (\<lambda>a. [Extend (SXTW d a)])"
| "translate_conv Olongofintu args d = arg1 args (\<lambda>a. [Move (MOV d a False)])"
| "translate_conv Ointoflong args d = arg1 args (\<lambda>a. [Move (MOV d a False)])"

fun translate_float :: "floatOp \<Rightarrow> mreg list \<Rightarrow> mreg \<Rightarrow> asm_instr list option" where
  "translate_float Onegf args d = arg1 args (\<lambda>a. [Float (FNEG d a True)])"
| "translate_float Oabsf args d = arg1 args (\<lambda>a. [Float (FABS d a True)])"
| "translate_float Oaddf args d = arg2 args (\<lambda>a b. [Float (FADD d a b True)])"
| "translate_float Osubf args d = arg2 args (\<lambda>a b. [Float (FSUB d a b True)])"
| "translate_float Omulf args d = arg2 args (\<lambda>a b. [Float (FMUL d a b True)])"
| "translate_float Odivf args d = arg2 args (\<lambda>a b. [Float (FDIV d a b True)])"
| "translate_float Onegs args d = arg1 args (\<lambda>a. [Float (FNEG d a False)])"
| "translate_float Oabss args d = arg1 args (\<lambda>a. [Float (FABS d a False)])"
| "translate_float Oadds args d = arg2 args (\<lambda>a b. [Float (FADD d a b False)])"
| "translate_float Osubs args d = arg2 args (\<lambda>a b. [Float (FSUB d a b False)])"
| "translate_float Omuls args d = arg2 args (\<lambda>a b. [Float (FMUL d a b False)])"
| "translate_float Odivs args d = arg2 args (\<lambda>a b. [Float (FDIV d a b False)])"

fun translate_fconv :: "floatConvOp \<Rightarrow> mreg list \<Rightarrow> mreg \<Rightarrow> asm_instr list option" where
  "translate_fconv Osingleoffloat args d = arg1 args (\<lambda>a. [Fconv (FCVT d a False)])"
| "translate_fconv Ofloatofsingle args d = arg1 args (\<lambda>a. [Fconv (FCVT d a True)])"
| "translate_fconv Ointoffloat args d = arg1 args (\<lambda>a. [Fconv (FCVTZS d a True False)])"
| "translate_fconv Ointuoffloat args d = arg1 args (\<lambda>a. [Fconv (FCVTZU d a True False)])"
| "translate_fconv Ofloatofint args d = arg1 args (\<lambda>a. [Fconv (SCVTF d a True False)])"
| "translate_fconv Ofloatofintu args d = arg1 args (\<lambda>a. [Fconv (UCVTF d a True False)])"
| "translate_fconv Olongoffloat args d = arg1 args (\<lambda>a. [Fconv (FCVTZS d a True True)])"
| "translate_fconv Olonguoffloat args d = arg1 args (\<lambda>a. [Fconv (FCVTZU d a True True)])"
| "translate_fconv Ofloatoflong args d = arg1 args (\<lambda>a. [Fconv (SCVTF d a True True)])"
| "translate_fconv Ofloatoflongu args d = arg1 args (\<lambda>a. [Fconv (UCVTF d a True True)])"

fun translate_cmp :: "cmpOp \<Rightarrow> mreg list \<Rightarrow> mreg \<Rightarrow> asm_instr list option" where
  "translate_cmp (Ocmp c) args d = translateCompare args d c False False"
| "translate_cmp (Ocmpu c) args d = translateCompare args d c True False"
| "translate_cmp (Ocmpl c) args d = translateCompare args d c False True"
| "translate_cmp (Ocmplu c) args d = translateCompare args d c True True"
| "translate_cmp (Ocmpimm c n) args d = arg1 args (\<lambda>a. translateCompareImm a d n c False False)"
| "translate_cmp (Ocmpuimm c n) args d = arg1 args (\<lambda>a. translateCompareImm a d n c True False)"
| "translate_cmp (Ocmplimm c n) args d = arg1 args (\<lambda>a. translateCompareImm a d n c False True)"
| "translate_cmp (Ocmpluimm c n) args d = arg1 args (\<lambda>a. translateCompareImm a d n c True True)"
| "translate_cmp _ args d = Some []"

fun translateOperation :: "operation \<Rightarrow> mreg list \<Rightarrow> mreg \<Rightarrow> asm_instr list option" where
  "translateOperation Omove args d =
     arg1 args (\<lambda>a. [if IsFloat d then Float (FMOV d a True) else Move (MOV d a True)])"
| "translateOperation (Ointconst n) args d = Some (loadIntConstant d n False)"
| "translateOperation (Olongconst n) args d = Some (loadIntConstant d n True)"
| "translateOperation (Ofloatconst n) args d = Some (loadFloatConstant d n True)"
| "translateOperation (Osingleconst n) args d = Some (loadFloatConstant d (float64_of_float32 n) False)"
| "translateOperation (Oaddrsymbol s n) args d = Some [Move (ADRP d s True), Move (ADDpageoff d d s n)]"
| "translateOperation (Oaddrstack n) args d = Some [Data (ADDi d X29 n True)]"
| "translateOperation (Oarith o') args d = translate_arith o' args d"
| "translateOperation (Obit o') args d = translate_bit o' args d"
| "translateOperation (Olong o') args d = translate_long o' args d"
| "translateOperation (Oconv o') args d = translate_conv o' args d"
| "translateOperation (Ofloat o') args d = translate_float o' args d"
| "translateOperation (Ofconv o') args d = translate_fconv o' args d"
| "translateOperation (Ocompare o') args d = translate_cmp o' args d"

section \<open>Memory, calls and branches\<close>

fun is64BitType :: "ty \<Rightarrow> bool" where
  "is64BitType Tlong = True"
| "is64BitType Tfloat = True"
| "is64BitType Tany64 = True"
| "is64BitType _ = False"

text \<open>\<open>translateGetparam\<close> does the same as \<open>translateGetstack\<close>.\<close>

definition translateGetstack :: "int64 \<Rightarrow> ty \<Rightarrow> mreg \<Rightarrow> asm_instr list" where
  "translateGetstack ofs t d =
     (if IsFloat d then [Load (if is64BitType t then FLDRd d X29 ofs else FLDRs d X29 ofs)]
      else [Load (LDR d X29 ofs (is64BitType t))])"

definition translateSetstack :: "mreg \<Rightarrow> int64 \<Rightarrow> ty \<Rightarrow> asm_instr list" where
  "translateSetstack src ofs t =
     (if IsFloat src then [Store (if is64BitType t then FSTRd src X29 ofs else FSTRs src X29 ofs)]
      else [Store (STRi src X29 ofs (is64BitType t))])"

definition translateGetparam :: "int64 \<Rightarrow> ty \<Rightarrow> mreg \<Rightarrow> asm_instr list" where
  "translateGetparam ofs t d =
     (if IsFloat d then [Load (if is64BitType t then FLDRd d X29 ofs else FLDRs d X29 ofs)]
      else [Load (LDR d X29 ofs (is64BitType t))])"

text \<open>The base register and the offset that loads and stores make of an addressing mode.\<close>

fun base_offset :: "addressingMode \<Rightarrow> mreg list \<Rightarrow> (mreg \<times> int64) option" where
  "base_offset (Aindexed n) args = arg1 args (\<lambda>a. (a, n))"
| "base_offset (Ainstack n) args = Some (X29, n)"
| "base_offset _ args = arg1 args (\<lambda>a. (a, 0))"

fun load_of :: "chunk \<Rightarrow> mreg \<Rightarrow> mreg \<Rightarrow> int64 \<Rightarrow> asm_load" where
  "load_of Mint8signed d base ofs = LDRSB d base ofs False"
| "load_of Mint8unsigned d base ofs = LDRB d base ofs"
| "load_of Mint16signed d base ofs = LDRSH d base ofs False"
| "load_of Mint16unsigned d base ofs = LDRH d base ofs"
| "load_of Mint32 d base ofs = LDR d base ofs False"
| "load_of Mint64 d base ofs = LDR d base ofs True"
| "load_of Mfloat32 d base ofs = FLDRs d base ofs"
| "load_of Mfloat64 d base ofs = FLDRd d base ofs"
| "load_of _ d base ofs = LDR d base ofs True"

fun store_of :: "chunk \<Rightarrow> mreg \<Rightarrow> mreg \<Rightarrow> int64 \<Rightarrow> asm_store" where
  "store_of Mint8signed src base ofs = STRB src base ofs"
| "store_of Mint8unsigned src base ofs = STRB src base ofs"
| "store_of Mint16signed src base ofs = STRH src base ofs"
| "store_of Mint16unsigned src base ofs = STRH src base ofs"
| "store_of Mint32 src base ofs = STRi src base ofs False"
| "store_of Mint64 src base ofs = STRi src base ofs True"
| "store_of Mfloat32 src base ofs = FSTRs src base ofs"
| "store_of Mfloat64 src base ofs = FSTRd src base ofs"
| "store_of _ src base ofs = STRi src base ofs True"

definition translateLoad :: "chunk \<Rightarrow> addressingMode \<Rightarrow> mreg list \<Rightarrow> mreg \<Rightarrow> asm_instr list option" where
  "translateLoad ch a args d = map_option (\<lambda>(base, ofs). [Load (load_of ch d base ofs)]) (base_offset a args)"

definition translateStore :: "chunk \<Rightarrow> addressingMode \<Rightarrow> mreg list \<Rightarrow> mreg \<Rightarrow> asm_instr list option" where
  "translateStore ch a args src = map_option (\<lambda>(base, ofs). [Store (store_of ch src base ofs)]) (base_offset a args)"

fun translateCall :: "mreg funRef \<Rightarrow> asm_instr list" where
  "translateCall (FunSymbol s) = [Branch (BL s True)]"
| "translateCall (FunReg r) = [Branch (BLR r)]"

fun translateTailcall :: "mreg funRef \<Rightarrow> asm_instr list" where
  "translateTailcall (FunSymbol s) = [Branch (B s True)]"
| "translateTailcall (FunReg r) = [Branch (BR r)]"

definition translateBuiltin :: "string \<Rightarrow> asm_instr list" where
  "translateBuiltin bf = [Branch (BL bf True)]"

definition machLabelToAsm :: "string \<Rightarrow> label \<Rightarrow> asm_label" where
  "machLabelToAsm name lbl = ''.L_'' @ name @ ''_'' @ show_int lbl"

text \<open>The comparison for a condition, emitted only when its arguments are there.\<close>

fun cond_compare :: "conditionCode \<Rightarrow> mreg list \<Rightarrow> asm_instr list" where
  "cond_compare (Ccomp c) (a # b # _) = [Compare (CMP a b False)]"
| "cond_compare (Ccompu c) (a # b # _) = [Compare (CMP a b False)]"
| "cond_compare (Ccompimm c n) (a # _) = [Compare (CMPi a n False)]"
| "cond_compare (Ccompuimm c n) (a # _) = [Compare (CMPi a n False)]"
| "cond_compare (Ccompl c) (a # b # _) = [Compare (CMP a b True)]"
| "cond_compare (Ccomplu c) (a # b # _) = [Compare (CMP a b True)]"
| "cond_compare (Ccomplimm c n) (a # _) = [Compare (CMPi a n True)]"
| "cond_compare (Ccompluimm c n) (a # _) = [Compare (CMPi a n True)]"
| "cond_compare (Ccompf c) (a # b # _) = [Fconv (FCMP a b True)]"
| "cond_compare (Ccomps c) (a # b # _) = [Fconv (FCMP a b False)]"
| "cond_compare _ _ = []"

fun cond_branch :: "conditionCode \<Rightarrow> condCode" where
  "cond_branch (Ccomp c) = conditionToCondCode c False"
| "cond_branch (Ccompu c) = conditionToCondCode c True"
| "cond_branch (Ccompimm c n) = conditionToCondCode c False"
| "cond_branch (Ccompuimm c n) = conditionToCondCode c True"
| "cond_branch (Ccompl c) = conditionToCondCode c False"
| "cond_branch (Ccomplu c) = conditionToCondCode c True"
| "cond_branch (Ccomplimm c n) = conditionToCondCode c False"
| "cond_branch (Ccompluimm c n) = conditionToCondCode c True"
| "cond_branch (Ccompf c) = conditionToCondCode c False"
| "cond_branch (Ccomps c) = conditionToCondCode c False"
| "cond_branch _ = CondAL"

definition translateCond :: "string \<Rightarrow> conditionCode \<Rightarrow> mreg list \<Rightarrow> label \<Rightarrow> asm_instr list" where
  "translateCond name c args ifso = cond_compare c args @ [Branch (Bcond (cond_branch c) (machLabelToAsm name ifso))]"

fun jumptable_from :: "string \<Rightarrow> mreg \<Rightarrow> nat \<Rightarrow> label list \<Rightarrow> asm_instr list" where
  "jumptable_from name a idx [] = []"
| "jumptable_from name a idx (t # ts) =
     Compare (CMPi a (int idx) True) # Branch (Bcond CondEQ (machLabelToAsm name t)) # jumptable_from name a (Suc idx) ts"

definition translateJumptable :: "string \<Rightarrow> mreg \<Rightarrow> label list \<Rightarrow> asm_instr list" where
  "translateJumptable name a targets = jumptable_from name a 0 targets"

section \<open>Functions\<close>

definition generatePrologue :: "int64 \<Rightarrow> asm_instr list" where
  "generatePrologue frameSize =
     (if frameSize = 0 then []
      else let fpOffset = frameSize - 16 in
        [Data (SUBi SP SP frameSize True), Store (STP X29 X30 SP fpOffset True), Data (ADDi X29 SP fpOffset True)])"

definition generateEpilogue :: "int64 \<Rightarrow> asm_instr list" where
  "generateEpilogue frameSize =
     (if frameSize = 0 then [Branch RET]
      else let fpOffset = frameSize - 16 in
        [Load (LDP X29 X30 SP fpOffset True), Data (ADDi SP SP frameSize True), Branch RET])"

fun translateInstruction :: "mach_function \<Rightarrow> mach_instr \<Rightarrow> asm_instr list option" where
  "translateInstruction f (Mgetstack ofs t d) = Some (translateGetstack ofs t d)"
| "translateInstruction f (Msetstack src ofs t) = Some (translateSetstack src ofs t)"
| "translateInstruction f (Mgetparam ofs t d) = Some (translateGetparam ofs t d)"
| "translateInstruction f (Mop op args d) = translateOperation op args d"
| "translateInstruction f (Mload ch a args d) = translateLoad ch a args d"
| "translateInstruction f (Mstore ch a args src) = translateStore ch a args src"
| "translateInstruction f (Mcall sg fn) = Some (translateCall fn)"
| "translateInstruction f (Mtailcall sg fn) = Some (translateTailcall fn)"
| "translateInstruction f (Mbuiltin bf args d) = Some (translateBuiltin bf)"
| "translateInstruction f (Mlabel l) = Some [LabelDef (machLabelToAsm (mach_name f) l)]"
| "translateInstruction f (Mgoto l) = Some [Branch (B (machLabelToAsm (mach_name f) l) False)]"
| "translateInstruction f (Mcond c args l) = Some (translateCond (mach_name f) c args l)"
| "translateInstruction f (Mjumptable a ts) = Some (translateJumptable (mach_name f) a ts)"
| "translateInstruction f Mreturn = Some (generateEpilogue (mach_stacksize f))"

text \<open>
  The loop of \<open>transformFunction\<close>, on the instructions from index \<open>i\<close> on. At an epilogue it moves on to
  the \<open>Mreturn\<close> that ends it, three instructions ahead.
\<close>

fun countEpilogueInstructions :: "mach_instr list \<Rightarrow> nat" where
  "countEpilogueInstructions (Mgetstack _ _ _ # Mgetstack _ _ _ # Mop _ _ _ # Mreturn # c) = 4"
| "countEpilogueInstructions _ = 0"

function translate_body :: "mach_function \<Rightarrow> mach_instr list \<Rightarrow> asm_instr list option" where
  "translate_body f [] = Some []"
| "translate_body f (i # c) =
     (let rest = (if isEpilogueStart (i # c) then drop (countEpilogueInstructions (i # c) - 1) (i # c) else i # c) in
      case rest of [] \<Rightarrow> None
      | i' # c' \<Rightarrow> Option.bind (translateInstruction f i') (\<lambda>is.
          map_option (append is) (translate_body f c')))"
  by pat_completeness auto

termination translate_body
proof (relation "measure (\<lambda>(f, c). length c)", goal_cases)
  case (2 f i c rest i' c')
  then have "length (i' # c') \<le> length (i # c)"
    by (metis length_drop diff_le_self order_refl)
  then show ?case by simp
qed simp

definition asmgen_transformFunction :: "mach_function \<Rightarrow> asm_function option" where
  "asmgen_transformFunction f =
     map_option (\<lambda>body. \<lparr>asm_name = mach_name f, asm_code = generatePrologue (mach_stacksize f) @ body, asm_size = 0\<rparr>)
       (translate_body f (drop (countPrologueInstructions (mach_code f)) (mach_code f)))"

definition transform_global :: "globVar \<Rightarrow> asm_globVar" where
  "transform_global g = \<lparr>agv_name = gv_name g, agv_size = gv_size g, agv_init = gv_init g, agv_align = 8,
     agv_readOnly = gv_readOnly g\<rparr>"

fun asmgen_functions :: "mach_function list \<Rightarrow> asm_function list option" where
  "asmgen_functions [] = Some []"
| "asmgen_functions (f # fs) = Option.bind (asmgen_transformFunction f) (\<lambda>g.
     map_option (Cons g) (asmgen_functions fs))"

definition asmgen_TransformProgram :: "mach_program \<Rightarrow> asm_program option" where
  "asmgen_TransformProgram p = map_option
     (\<lambda>fs. \<lparr>asm_globals = map transform_global (mach_globals p), asm_functions = fs\<rparr>)
     (asmgen_functions (mach_functions p))"

end
