(* ===== verification/AsmOps.thy ===== *)
theory AsmOps
  imports Asmgen
begin

text \<open>
  The code generated for operations, conditions, loads and stores computes what they mean. Side
  conditions single out what the code generator does not handle: operations for which it emits nothing,
  floating-point constants without an encoding, symbols that the two address instructions do not reach,
  and the scratch register \<open>X8\<close> as an operand of the operations that overwrite it.
\<close>

section \<open>Words\<close>

lemma lo_of_int [simp]: "lo (of_int n) = of_int n"
  by (rule bit_eqI) (simp add: lo_def bit_simps)

lemma lo_numerals [simp]: "lo 0 = 0" "lo 1 = 1" "lo (numeral k) = numeral k"
  using lo_of_int [of 0] lo_of_int [of 1] lo_of_int [of "numeral k"] by simp_all

lemma zx_numerals [simp]: "zx 0 = 0" "zx 1 = 1"
  by (simp_all add: zx_def)

lemma zx_eq_iff [simp]: "zx a = zx b \<longleftrightarrow> a = b"
  by (metis lo_zx)

lemma zx_lo_of_int: "zx (lo w) = zx (of_int n) \<longleftrightarrow> lo w = of_int n"
  by simp

lemma ucast_zx [simp]: "zx (ucast (b :: w8)) = ucast b" "zx (ucast (h :: w16)) = ucast h"
  by (rule bit_eqI, auto simp: zx_def bit_simps dest: bit_imp_le_length)+

lemma unat_lo: "unat (lo b) = unat b mod 2 ^ 32"
  by (simp add: lo_def unsigned_ucast_eq take_bit_eq_mod)

lemma shift_by_lo: "unat b mod 64 = unat (lo b) mod 64"
  unfolding unat_lo by (simp add: mod_mod_cancel)

section \<open>Comparisons\<close>

text \<open>The sign of a wrapped difference is wrong exactly when the difference overflows.\<close>

lemma wrapped_sign:
  fixes D :: int
  assumes "- (2 * 2 ^ n) \<le> D" "D < 2 * 2 ^ n"
  shows "(signed_take_bit n D < 0) = (signed_take_bit n D \<noteq> D) \<longleftrightarrow> 0 \<le> D"
proof -
  consider "- (2 ^ n) \<le> D" "D < 2 ^ n" | "2 ^ n \<le> D" | "D < - (2 ^ n)" by linarith
  then show ?thesis
  proof cases
    case 1
    then have "signed_take_bit n D = D" by (simp add: signed_take_bit_int_eq_self_iff)
    then show ?thesis by auto
  next
    case 2
    have "(D - 2 ^ n + 2 * 2 ^ n) mod (2 * 2 ^ n) = D - 2 ^ n"
      using 2 assms by (subst mod_add_self2) (simp add: mod_pos_pos_trivial)
    then have "signed_take_bit n D = D - 2 * 2 ^ n"
      by (simp add: signed_take_bit_eq_take_bit_shift take_bit_eq_mod add.commute)
    with 2 assms show ?thesis by auto
  next
    case 3
    have "(D + 3 * 2 ^ n - 2 * 2 ^ n) mod (2 * 2 ^ n) = D + 3 * 2 ^ n"
      using 3 assms by (subst minus_mod_self2) (simp add: mod_pos_pos_trivial)
    then have "signed_take_bit n D = D + 2 * 2 ^ n"
      by (simp add: signed_take_bit_eq_take_bit_shift take_bit_eq_mod add.commute)
    with 3 assms show ?thesis by auto
  qed
qed

lemma flags_signed: "flag_n (flags_sub a b) = flag_v (flags_sub a b) \<longleftrightarrow> sint b \<le> sint a"
proof -
  have "- (2 ^ (LENGTH('a) - 1)) \<le> sint x \<and> sint x < 2 ^ (LENGTH('a) - 1)" for x :: "'a word"
    using sint_range_size [of x] by (simp add: word_size)
  from this [of a] this [of b] wrapped_sign [of "LENGTH('a) - 1" "sint a - sint b"]
  show ?thesis by (simp add: flags_sub_def sint_word_diff)
qed

lemma sint_eq_iff: "sint a = sint b \<longleftrightarrow> a = b"
  by (auto intro: signed_word_eqI)

lemma uint_eq_iff: "uint a = uint b \<longleftrightarrow> a = b"
  by (auto intro: unsigned_word_eqI)

lemma conditionToCondCode_signed:
  "cond_holds (conditionToCondCode c False) (flags_sub a b) \<longleftrightarrow> scmp c a b"
  using flags_signed [of a b] sint_eq_iff [of a b]
  by (cases c) (auto simp: flags_sub_def)

lemma conditionToCondCode_unsigned:
  "cond_holds (conditionToCondCode c True) (flags_sub a b) \<longleftrightarrow> ucmp c a b"
  using uint_eq_iff [of a b] by (cases c) (auto simp: flags_sub_def)

section \<open>Integer constants\<close>

lemma of_nat_piece: "(of_nat (piece val k) :: w64) = of_int (take_bit 16 (drop_bit (16 * k) val))"
  by (simp add: piece_def take_bit_eq_mod drop_bit_eq_div)

lemma piece_0_iff: "piece val k = 0 \<longleftrightarrow> take_bit 16 (drop_bit (16 * k) val) = 0"
  by (auto simp: piece_def take_bit_eq_mod drop_bit_eq_div intro: antisym)

text \<open>The word assembled from the first \<open>k\<close> pieces.\<close>

definition assembled :: "int64 \<Rightarrow> nat \<Rightarrow> w64" where
  "assembled val k = of_int (take_bit (16 * k) val)"

lemma assembled_Suc:
  assumes "k \<le> 3"
  shows "(assembled val k AND NOT (push_bit (16 * k) (mask 16))) OR push_bit (16 * k) (of_nat (piece val k)) =
    assembled val (Suc k)"
  unfolding assembled_def of_nat_piece
  using assms by (intro bit_eqI) (auto simp: bit_simps)

lemma assembled_skip: "piece val k = 0 \<Longrightarrow> assembled val (Suc k) = assembled val k"
  unfolding assembled_def piece_0_iff
  by (rule arg_cong [where f = of_int], rule bit_eqI) (auto simp: bit_simps bit_eq_iff, metis add_diff_inverse_nat less_diff_conv2 not_less)

lemma assembled_all: "assembled val 4 = of_int val"
  unfolding assembled_def by (rule bit_eqI) (auto simp: bit_simps)

lemma assembled_low: "k \<le> 2 \<Longrightarrow> zx (lo (assembled val k)) = assembled val k"
  unfolding assembled_def by (rule bit_eqI) (auto simp: zx_def lo_def bit_simps)

lemma assembled_2: "assembled val 2 = zx (of_int val)"
  unfolding assembled_def by (rule bit_eqI) (auto simp: zx_def lo_def bit_simps)

lemma assembled_1: "of_nat (piece val 0) = assembled val 1"
  by (simp add: of_nat_piece assembled_def)

lemma movn_value: "NOT (of_nat (piece (- val - 1) 0) :: w64) = of_int val" if "val < 0" "- 65536 \<le> val"
proof -
  from that have "int (piece (- val - 1) 0) = - val - 1" by (simp add: piece_def)
  then have "(of_nat (piece (- val - 1) 0) :: w64) = of_int (- val - 1)" by (metis of_int_of_nat_eq)
  then show ?thesis by (simp add: not_eq_complement)
qed

lemma movk_step:
  assumes "k \<le> 3" "a_regs s d = assembled val k"
  shows "exec_move T (MOVK d (piece val k) (int (16 * k)) w) s = set_reg d (width w (assembled val (Suc k))) s"
  using assembled_Suc [OF assms(1), of val] assms(2) by (simp only: exec_move.simps nat_int)

text \<open>A piece that is zero may be left out.\<close>

lemma set_reg_same: "a_regs s d = v \<Longrightarrow> set_reg d v s = s"
  by (cases s) (auto simp: set_reg_def)

lemma movk_piece:
  assumes "a_regs s d = assembled val k" "k \<le> 3" "j = Suc k" "sh = int (16 * k)"
    and "width w (assembled val j) = assembled val j"
  shows "asm_run T (if piece val k \<noteq> 0 then [Move (MOVK d (piece val k) sh w)] else []) s =
    AFall (set_reg d (assembled val j) s)"
proof (cases "piece val k = 0")
  case True
  with assms have "set_reg d (assembled val j) s = s" by (simp add: set_reg_same assembled_skip)
  with True show ?thesis by simp
next
  case False
  with movk_step [OF assms(2,1), of T w] assms show ?thesis by simp
qed

lemma set_reg_twice [simp]: "set_reg d v (set_reg d u s) = set_reg d v s"
  by (simp add: set_reg_def)

lemma width_simps [simp]: "width True v = v" "width False v = zx (lo v)"
  by (simp_all add: width_def)

lemma loadIntConstant_run:
  "asm_run T (loadIntConstant d val is64) s =
     AFall (set_reg d (if is64 then of_int val else zx (of_int val)) s)"
proof -
  consider "0 \<le> val" "val \<le> 65535" | "val < 0" "- 65536 \<le> val" | "\<not> (0 \<le> val \<and> val \<le> 65535)" "\<not> (val < 0 \<and> - 65536 \<le> val)"
    by linarith
  then show ?thesis
  proof cases
    case 1 then show ?thesis by (simp add: loadIntConstant_def)
  next
    case 2 then show ?thesis by (simp add: loadIntConstant_def movn_value)
  next
    case 3
    define s1 where "s1 = set_reg d (assembled val 1) s"
    define s2 where "s2 = set_reg d (assembled val 2) s"
    define s3 where "s3 = set_reg d (assembled val 3) s"
    have z: "asm_effect T (Move (MOVZ d (piece val 0) 0 is64)) s = AFall s1"
      by (simp add: s1_def assembled_1 width_def assembled_low)
    have r: "a_regs s1 d = assembled val 1" "a_regs s2 d = assembled val 2" "a_regs s3 d = assembled val 3"
      by (simp_all add: s1_def s2_def s3_def)
    have t: "set_reg d (assembled val 2) s1 = s2" "set_reg d (assembled val 3) s2 = s3"
        "set_reg d (assembled val 4) s3 = set_reg d (of_int val) s"
      by (simp_all add: s1_def s2_def s3_def assembled_all)
    have k1: "asm_run T (if piece val 1 \<noteq> 0 then [Move (MOVK d (piece val 1) 16 is64)] else []) s1 = AFall s2"
      by (rule movk_piece [OF r(1), where j = 2, THEN trans]) (simp_all add: t width_def assembled_low)
    have k2: "asm_run T (if piece val 2 \<noteq> 0 then [Move (MOVK d (piece val 2) 32 True)] else []) s2 = AFall s3"
      by (rule movk_piece [OF r(2), where j = 3, THEN trans]) (simp_all add: t)
    have k3: "asm_run T (if piece val 3 \<noteq> 0 then [Move (MOVK d (piece val 3) 48 True)] else []) s3 =
        AFall (set_reg d (of_int val) s)"
      by (rule movk_piece [OF r(3), where j = 4, THEN trans]) (simp_all add: t)
    have "s2 = set_reg d (zx (of_int val)) s" if "\<not> is64"
      by (simp add: s2_def assembled_2)
    with 3 z k1 k2 k3 show ?thesis
      by (simp only: loadIntConstant_def if_False asm_run_append asm_run.simps asm_action.case append_Cons append_Nil split: if_split) auto
  qed
qed

section \<open>Operations\<close>

text \<open>The operations whose code overwrites the scratch register.\<close>

fun scratch_op :: "operation \<Rightarrow> bool" where
  "scratch_op (Oarith (Omulimm _)) \<longleftrightarrow> True"
| "scratch_op (Oarith Omod) \<longleftrightarrow> True"
| "scratch_op (Oarith Omodu) \<longleftrightarrow> True"
| "scratch_op (Olong Omodl) \<longleftrightarrow> True"
| "scratch_op (Olong Omodlu) \<longleftrightarrow> True"
| "scratch_op _ \<longleftrightarrow> False"

text \<open>
  The address of a symbol is computed by two instructions: its page, then the offset in the page. On
  Darwin the second adds the offset of \<open>symbol + n\<close> in its page, elsewhere it adds only \<open>n\<close>.
\<close>

definition symbol_reached :: "target \<Rightarrow> string \<Rightarrow> int64 \<Rightarrow> bool" where
  "symbol_reached T s n \<longleftrightarrow>
     (if t_darwin T then page_of (t_symbol T s + of_int n) = page_of (t_symbol T s) else page_of (t_symbol T s) = t_symbol T s)"

fun op_ok :: "target \<Rightarrow> operation \<Rightarrow> bool" where
  "op_ok T (Ofloatconst n) \<longleftrightarrow> fmov_imm n"
| "op_ok T (Osingleconst n) \<longleftrightarrow> 0 \<le> n \<and> n < 2 ^ 32 \<and> fmov_imm (float64_of_float32 n)"
| "op_ok T (Oaddrsymbol s n) \<longleftrightarrow> symbol_reached T s n"
| "op_ok T (Oarith Omulhs) \<longleftrightarrow> False"
| "op_ok T (Oarith Omulhu) \<longleftrightarrow> False"
| "op_ok T (Olong (Omullimm _)) \<longleftrightarrow> False"
| "op_ok T (Olong Omullhs) \<longleftrightarrow> False"
| "op_ok T (Olong Omullhu) \<longleftrightarrow> False"
| "op_ok T (Ocompare (Ocmpf _)) \<longleftrightarrow> False"
| "op_ok T (Ocompare (Ocmps _)) \<longleftrightarrow> False"
| "op_ok T _ \<longleftrightarrow> True"

text \<open>Running \<open>code\<close> puts \<open>v\<close> into \<open>d\<close> and changes no other register outside \<open>X\<close>, nor memory.\<close>

definition computes :: "target \<Rightarrow> asm_instr list \<Rightarrow> astate \<Rightarrow> mreg \<Rightarrow> w64 \<Rightarrow> mreg set \<Rightarrow> bool" where
  "computes T code s d v X \<longleftrightarrow> (\<exists>s'. asm_run T code s = AFall s' \<and> a_regs s' d = v \<and> a_mem s' = a_mem s \<and>
     (\<forall>r. r \<noteq> d \<longrightarrow> r \<notin> X \<longrightarrow> a_regs s' r = a_regs s r))"

lemma computesI:
  "asm_run T code s = AFall s' \<Longrightarrow> a_regs s' d = v \<Longrightarrow> a_mem s' = a_mem s \<Longrightarrow>
   (\<And>r. r \<noteq> d \<Longrightarrow> r \<notin> X \<Longrightarrow> a_regs s' r = a_regs s r) \<Longrightarrow> computes T code s d v X"
  by (auto simp: computes_def)

lemma computes_set: "asm_run T code s = AFall (set_reg d v s) \<Longrightarrow> computes T code s d v X"
  by (erule computesI) auto

lemmas alu_defs = alu1_def alu2_def

lemma arg1_Some: "arg1 args f = Some c \<longleftrightarrow> (\<exists>a as. args = a # as \<and> c = f a)"
  by (auto simp: arg1_def split: list.splits)

lemma arg2_Some: "arg2 args f = Some c \<longleftrightarrow> (\<exists>a b as. args = a # b # as \<and> c = f a b)"
  by (auto simp: arg2_def split: list.splits)

lemma args_cases:
  obtains "args = []" | a where "args = [a]" | a b where "args = [a, b]" | a b c as where "args = a # b # c # as"
  by (metis neq_Nil_conv)

lemma arith_computed:
  assumes "translate_arith o' args d = Some code" "arith_word o' (map (a_regs s) args) = Some v"
    and "op_ok T (Oarith o')" "scratch_op (Oarith o') \<Longrightarrow> X8 \<notin> set args"
  shows "computes T code s d (zx v) (if scratch_op (Oarith o') then {X8} else {})"
  using assms
  by (cases o'; cases args rule: args_cases)
    (auto simp: arg1_Some arg2_Some alu_defs computes_def smod_word_eq umod_word_eq)

lemma bit_computed:
  assumes "translate_bit o' args d = Some code" "bit_word o' (map (a_regs s) args) = Some v"
  shows "computes T code s d (zx v) {}"
  using assms
  by (cases o'; cases args rule: args_cases)
    (auto simp: arg1_Some arg2_Some alu_defs computes_def shift_by_def shift_ok_def Let_def)

lemma long_computed:
  assumes "translate_long o' args d = Some code" "long_word o' (map (a_regs s) args) = Some v"
    and "op_ok T (Olong o')" "scratch_op (Olong o') \<Longrightarrow> X8 \<notin> set args"
  shows "computes T code s d v (if scratch_op (Olong o') then {X8} else {})"
  using assms
  by (cases o'; cases args rule: args_cases)
    (auto simp: arg1_Some arg2_Some alu_defs computes_def shift_by_def shift_ok_def Let_def
       smod_word_eq umod_word_eq shift_by_lo)

lemma conv_computed:
  assumes "translate_conv o' args d = Some code" "map (a_regs s) args = [a]"
  shows "computes T code s d (conv_word o' a) {}"
  using assms by (cases o') (auto simp: arg1_Some computes_def)

lemma fconv_computed:
  assumes "translate_fconv o' args d = Some code" "map (a_regs s) args = [a]"
  shows "computes T code s d (t_fconv T o' a) {}"
  using assms by (cases o') (auto simp: arg1_Some computes_def fall_or_wrong_def)

lemma cmp_computed:
  assumes "translate_cmp o' args d = Some code" "word_cond T (cmp_code o') (map (a_regs s) args) = Some b"
    and "op_ok T (Ocompare o')"
  shows "computes T code s d (if b then 1 else 0) {}"
  using assms
  by (cases o'; cases args rule: args_cases)
    (auto simp: arg1_Some arg2_Some translateCompare_def translateCompareImm_def cmp_flags_def computes_def
       conditionToCondCode_signed conditionToCondCode_unsigned)

lemma float_computed:
  assumes "translate_float o' args d = Some code" "length args = float_arity o'"
  shows "computes T code s d (t_float T o' (map (a_regs s) args)) {}"
  using assms
  by (cases o'; cases args rule: args_cases) (auto simp: arg1_Some arg2_Some computes_def fall_or_wrong_def)

lemma page_split: "page_of a + (a AND mask 12) = a"
  unfolding page_of_def
  by (subst disjunctive_add_eq_or) (auto simp: bit_simps intro!: bit_eqI)

lemma symbol_computed:
  "symbol_reached T sy n \<Longrightarrow>
   computes T [Move (ADRP d sy True), Move (ADDpageoff d d sy n)] s d (t_symbol T sy + of_int n) {}"
  using page_split [of "t_symbol T sy + of_int n"]
  by (auto simp: symbol_reached_def computes_def split: if_splits)

lemma digit_split:
  fixes a E x B C :: int
  assumes "0 \<le> E" "E < C" "0 \<le> x" "x < B"
  shows "((a * C + E) * B + x) div B mod C = E" "((a * C + E) * B + x) mod B = x"
proof -
  from assms have "((a * C + E) * B + x) div B = a * C + E" by (subst div_mult_self3) auto
  with assms show "((a * C + E) * B + x) div B mod C = E" by simp
  from assms show "((a * C + E) * B + x) mod B = x" by simp
qed

lemma float64_fields:
  fixes sg E x :: int
  assumes "0 \<le> E" "E < 2 ^ 11" "0 \<le> x" "x < 2 ^ 52"
  shows "(sg * 2 ^ 63 + (E * 2 ^ 52 + x)) div 2 ^ 63 = sg"
    "(sg * 2 ^ 63 + (E * 2 ^ 52 + x)) div 2 ^ 52 mod 2 ^ 11 = E"
    "(sg * 2 ^ 63 + (E * 2 ^ 52 + x)) mod 2 ^ 52 = x"
proof -
  have r: "sg * 2 ^ 63 + (E * 2 ^ 52 + x) = (sg * 2 ^ 11 + E) * 2 ^ 52 + x" by simp
  from assms show "(sg * 2 ^ 63 + (E * 2 ^ 52 + x)) div 2 ^ 63 = sg" by simp
  show "(sg * 2 ^ 63 + (E * 2 ^ 52 + x)) div 2 ^ 52 mod 2 ^ 11 = E"
    "(sg * 2 ^ 63 + (E * 2 ^ 52 + x)) mod 2 ^ 52 = x"
    unfolding r using assms by (rule digit_split)+
qed

lemma float32_fields:
  fixes n :: int
  assumes "0 \<le> n" "n < 2 ^ 32"
  shows "n = (n div 2 ^ 31 mod 2) * 2 ^ 31 + (n div 2 ^ 23 mod 2 ^ 8) * 2 ^ 23 + n mod 2 ^ 23"
proof -
  have "n = n div 2 ^ 31 * 2 ^ 31 + n mod 2 ^ 31" by simp
  also have "n mod 2 ^ 31 = (n div 2 ^ 23 mod 2 ^ 8) * 2 ^ 23 + n mod 2 ^ 23"
    using mod_mult2_eq' [of n "2 ^ 23" "2 ^ 8"] by simp
  also have "n div 2 ^ 31 = n div 2 ^ 31 mod 2"
    using assms by (simp add: mod_pos_pos_trivial)
  finally show ?thesis by (simp only: add.assoc)
qed

lemma top_bit_bounds:
  assumes "0 < m" "m < 2 ^ 23"
  shows "2 ^ top_bit m \<le> m" "m < 2 ^ Suc (top_bit m)" "top_bit m < 23"
proof -
  define P where "P k \<longleftrightarrow> 2 ^ Suc k \<le> m" for k :: nat
  have t: "top_bit m = length (takeWhile P [0..<23])" by (simp add: top_bit_def P_def [abs_def])
  have below: "P k" if "k < top_bit m" for k
    using that nth_mem [of k "takeWhile P [0..<23]"] length_takeWhile_le [of P "[0..<23]"]
    by (auto simp: t takeWhile_nth dest!: set_takeWhileD)
  have le: "top_bit m \<le> 23" using length_takeWhile_le [of P "[0..<23]"] by (simp add: t)
  show *: "top_bit m < 23"
  proof (rule ccontr)
    assume "\<not> ?thesis" with below [of 22] assms show False by (simp add: P_def)
  qed
  then have "\<not> P (top_bit m)" using nth_length_takeWhile [of P "[0..<23]"] by (simp add: t)
  then show "m < 2 ^ Suc (top_bit m)" by (simp add: P_def)
  show "2 ^ top_bit m \<le> m" using below assms by (cases "top_bit m") (auto simp: P_def)
qed

text \<open>The widened number, as its three fields; an exponent above 896 comes from a normal number.\<close>

lemma float64_of_float32_fields:
  fixes n :: int
  defines "sg \<equiv> n div 2 ^ 31 mod 2" and "e \<equiv> n div 2 ^ 23 mod 2 ^ 8" and "m \<equiv> n mod 2 ^ 23"
  shows "\<exists>E x. float64_of_float32 n = sg * 2 ^ 63 + (E * 2 ^ 52 + x) \<and> 0 \<le> E \<and> E < 2 ^ 11 \<and> 0 \<le> x \<and> x < 2 ^ 52 \<and>
    (896 < E \<and> E < 2047 \<longrightarrow> E = e + 896 \<and> x = m * 2 ^ 29)"
proof -
  have b: "0 \<le> e" "e < 2 ^ 8" "0 \<le> m" "m < 2 ^ 23" by (simp_all add: e_def m_def)
  note d = float64_of_float32_def Let_def sg_def [symmetric] e_def [symmetric] m_def [symmetric]
  consider "e = 255" | "e \<noteq> 255" "e \<noteq> 0" | "e = 0" "m = 0" | "e = 0" "m \<noteq> 0" by blast
  then show ?thesis
  proof cases
    case 1
    have "0 \<le> m mod 2 ^ 22" "m mod 2 ^ 22 < 2 ^ 22" by simp_all
    with 1 show ?thesis unfolding d
      by (intro exI [of _ 2047] exI [of _ "if m = 0 then 0 else 2 ^ 51 + m mod 2 ^ 22 * 2 ^ 29"]) simp
  next
    case 2 with b show ?thesis unfolding d by (intro exI [of _ "e + 896"] exI [of _ "m * 2 ^ 29"]) simp
  next
    case 3 then show ?thesis unfolding d by (intro exI [of _ 0]) simp
  next
    case 4
    define k where "k = top_bit m"
    from 4 b have k: "2 ^ k \<le> m" "m < 2 ^ Suc k" "k < 23"
      using top_bit_bounds [of m] by (auto simp: k_def)
    then have "(m - 2 ^ k) * 2 ^ (52 - k) < 2 ^ k * 2 ^ (52 - k)" by simp
    also have "\<dots> = 2 ^ 52" using k(3) by (simp flip: power_add)
    finally show ?thesis using 4 k unfolding d k_def [symmetric]
      by (intro exI [of _ "874 + int k"] exI [of _ "(m - 2 ^ k) * 2 ^ (52 - k)"]) simp
  qed
qed

lemma narrow_widen:
  assumes "0 \<le> n" "n < 2 ^ 32" "fmov_imm (float64_of_float32 n)"
  shows "narrow_imm (float64_of_float32 n) = n"
proof -
  obtain E x where w: "float64_of_float32 n = n div 2 ^ 31 mod 2 * 2 ^ 63 + (E * 2 ^ 52 + x)"
    and E: "0 \<le> E" "E < 2 ^ 11" "0 \<le> x" "x < 2 ^ 52"
    and v: "896 < E \<and> E < 2047 \<longrightarrow> E = n div 2 ^ 23 mod 2 ^ 8 + 896 \<and> x = n mod 2 ^ 23 * 2 ^ 29"
    using float64_of_float32_fields by blast
  from assms(3) have "896 < E \<and> E < 2047" unfolding w fmov_imm_def Let_def float64_fields [OF E] by simp
  with v have "E - 896 = n div 2 ^ 23 mod 2 ^ 8" "x div 2 ^ 29 = n mod 2 ^ 23" by auto
  then show ?thesis
    unfolding w narrow_imm_def float64_fields [OF E] by (simp only: float32_fields [OF assms(1,2), symmetric])
qed

lemma op_computed:
  assumes "translateOperation op args d = Some code" "word_op T op (map (a_regs s) args) = Some v"
    and "op_ok T op" "a_regs s X29 = t_stack T" "scratch_op op \<Longrightarrow> X8 \<notin> set args"
  shows "computes T code s d v (if scratch_op op then {X8} else {})"
proof (cases op)
  case (Oarith o')
  with assms arith_computed [of o' args d code s _ T] show ?thesis by auto
next
  case (Olong o')
  with assms long_computed [of o' args d code s v T] show ?thesis by auto
next
  case (Obit o')
  with assms bit_computed [of o' args d code s _ T] show ?thesis by auto
next
  case (Oconv o')
  with assms conv_computed [of o' args d code s _ T] show ?thesis
    by (cases args rule: args_cases) auto
next
  case (Ofconv o')
  with assms fconv_computed [of o' args d code s _ T] show ?thesis
    by (cases args rule: args_cases) auto
next
  case (Ocompare o')
  with assms cmp_computed [of o' args d code T s] show ?thesis by auto
next
  case (Ofloat o')
  with assms float_computed [of o' args d code T s] show ?thesis by auto
next
  case (Oaddrsymbol sy n)
  with assms symbol_computed [of T sy n d s] show ?thesis by (cases args) auto
next
  case (Osingleconst n)
  with assms narrow_widen [of n] show ?thesis
    by (cases args) (auto simp: loadFloatConstant_def fall_or_wrong_def computes_def)
qed (use assms in \<open>cases args rule: args_cases; force simp: arg1_Some alu_defs computes_def loadIntConstant_run
       loadFloatConstant_def fall_or_wrong_def\<close>)+

section \<open>Conditional branches\<close>

text \<open>
  The negated floating-point conditions are not translated, and the codes \<open>LT\<close> and \<open>LE\<close> also hold when
  a comparison of floating-point numbers is unordered.
\<close>

fun cond_ok :: "conditionCode \<Rightarrow> bool" where
  "cond_ok (Ccompf c) \<longleftrightarrow> c \<noteq> Clt \<and> c \<noteq> Cle"
| "cond_ok (Ccomps c) \<longleftrightarrow> c \<noteq> Clt \<and> c \<noteq> Cle"
| "cond_ok (Cnotcompf c) \<longleftrightarrow> False"
| "cond_ok (Cnotcomps c) \<longleftrightarrow> False"
| "cond_ok _ \<longleftrightarrow> True"

lemma conditionToCondCode_float:
  "c \<noteq> Clt \<Longrightarrow> c \<noteq> Cle \<Longrightarrow> cond_holds (conditionToCondCode c False) (flags_float r) \<longleftrightarrow> fcmp_with c r"
  by (cases c; cases r) auto

lemma cond_compared:
  assumes "word_cond T c (map (a_regs s) args) = Some b" "cond_ok c"
  shows "\<exists>f. asm_run T (cond_compare c args) s = AFall (set_flags f s) \<and> cond_holds (cond_branch c) f = b"
  using assms
  by (cases c; cases args rule: args_cases)
    (auto simp: cmp_flags_def fall_or_wrong_def conditionToCondCode_signed conditionToCondCode_unsigned
      conditionToCondCode_float)

lemma cond_run:
  assumes "word_cond T c (map (a_regs s) args) = Some b" "cond_ok c"
  shows "if b then asm_run T (translateCond name c args l) s = AJump (machLabelToAsm name l)
    else \<exists>f. asm_run T (translateCond name c args l) s = AFall (set_flags f s)"
  using cond_compared [OF assms] by (auto simp: translateCond_def asm_run_append)

lemma of_nat_unat_iff: "k < 2 ^ 64 \<Longrightarrow> (w :: w64) = of_nat k \<longleftrightarrow> unat w = k"
  by (auto simp: unsigned_of_nat take_bit_nat_eq_self)

lemma jumptable_run:
  assumes "k \<le> unat (a_regs s a)" "unat (a_regs s a) < k + length ts" "k + length ts \<le> 2 ^ 64"
  shows "asm_run T (jumptable_from name a k ts) s = AJump (machLabelToAsm name (ts ! (unat (a_regs s a) - k)))"
  using assms
proof (induction ts arbitrary: k s)
  case (Cons t ts)
  have e: "a_regs s a = of_nat k \<longleftrightarrow> unat (a_regs s a) = k" using Cons.prems(3) by (intro of_nat_unat_iff) simp
  show ?case
  proof (cases "unat (a_regs s a) = k")
    case True with e show ?thesis by (simp add: cmp_flags_def flags_sub_def)
  next
    case False
    with Cons.prems have "unat (a_regs s a) - k = Suc (unat (a_regs s a) - Suc k)" by simp
    with False e Cons.IH [of "Suc k" "set_flags f s" for f] Cons.prems show ?thesis
      by (simp add: cmp_flags_def flags_sub_def)
  qed
qed simp

section \<open>Loads and stores\<close>

fun access_ok :: "chunk \<Rightarrow> addressingMode \<Rightarrow> bool" where
  "access_ok ch (Aindexed _) \<longleftrightarrow> ch \<noteq> Many32"
| "access_ok ch (Ainstack _) \<longleftrightarrow> ch \<noteq> Many32"
| "access_ok ch _ \<longleftrightarrow> False"

lemma read_bytes_bound: "read_bytes n a m = Some w \<Longrightarrow> take_bit (8 * n) w = w"
proof (induction n arbitrary: a w)
  case (Suc n)
  then obtain b :: w8 and w' where "w = ucast b OR push_bit 8 w'" "read_bytes n (a + 1) m = Some w'"
    by (clarsimp simp: bind_eq_Some_conv)
  with Suc.IH have *: "w = ucast b OR push_bit 8 w'" "take_bit (8 * n) w' = w'" by auto
  have "take_bit (8 * Suc n) (ucast b :: w64) = ucast b"
    by (rule bit_eqI) (auto simp: bit_simps dest: bit_imp_le_length)
  with * show ?case by (simp add: take_bit_push_bit)
qed simp

lemma unsigned_chunks:
  "(ucast (ucast w :: w8) :: w64) = take_bit 8 w" "(ucast (ucast w :: w16) :: w64) = take_bit 16 w" "zx (lo w) = take_bit 32 w"
  by (rule bit_eqI, auto simp: zx_def lo_def bit_simps)+

lemma base_offset_address:
  assumes "access_ok ch a" "word_addr T a (map (a_regs s) args) = Some p" "a_regs s X29 = t_stack T"
  shows "\<exists>base ofs. base_offset a args = Some (base, ofs) \<and> at_ofs s base ofs = p"
  using assms by (cases a; cases args rule: args_cases) (auto simp: arg1_Some at_ofs_def)

lemma load_of_exec:
  assumes "ch \<noteq> Many32" "load_chunk ch (at_ofs s base ofs) (a_mem s) = Some v"
  shows "exec_load (load_of ch d base ofs) s = Some (set_reg d v s)"
proof -
  from assms(2) obtain w where w: "read_bytes (chunk_size ch) (at_ofs s base ofs) (a_mem s) = Some w"
    "v = chunk_value ch w" by (auto simp: load_chunk_def)
  from read_bytes_bound [OF w(1)] w assms(1) show ?thesis
    by (cases ch) (auto simp: load_to_def size_of_def unsigned_chunks(1,2) unsigned_chunks(3) simp del: read_bytes.simps)
qed

lemma store_of_exec:
  assumes "ch \<noteq> Many32" "store_chunk ch (at_ofs s base ofs) (a_regs s src) (a_mem s) = Some m'"
  shows "exec_store (store_of ch src base ofs) s = Some (s\<lparr>a_mem := m'\<rparr>)"
  using assms by (cases ch) (auto simp: store_chunk_def store_from_def size_of_def simp del: write_bytes.simps)

section \<open>Properties\<close>

text \<open>Property C7. For the operations that the generator handles (\<open>op_ok\<close>), the code generated for an operation
  computes its value into the destination and changes no other register and no memory, except that the
  remainders and the multiplication by a constant overwrite \<open>X8\<close>, which must not be an operand there. Not
  handled are the high halves of products, the long multiplication by a constant and the comparisons of
  floating-point numbers, for which no or wrong code is generated, floating-point constants that do not fit
  the instruction, and symbols whose address the two instructions do not reach.\<close>

theorem translateOperation_correct:
  assumes "translateOperation op args d = Some code" and "word_op T op (map (a_regs s) args) = Some v"
    and "op_ok T op" and "a_regs s X29 = t_stack T" and "scratch_op op \<Longrightarrow> X8 \<notin> set args"
  shows "\<exists>s'. asm_run T code s = AFall s' \<and> a_regs s' d = v \<and> a_mem s' = a_mem s \<and>
    (\<forall>r. r \<noteq> d \<longrightarrow> \<not> (scratch_op op \<and> r = X8) \<longrightarrow> a_regs s' r = a_regs s r)"
  using op_computed [OF assms] by (auto simp: computes_def split: if_splits)

definition idle_target :: target where
  "idle_target = \<lparr>t_float = (\<lambda>_ _. 0), t_fconv = (\<lambda>_ _. 0), t_fcmp = (\<lambda>_ _ _. FUnordered), t_fsqrt = (\<lambda>_ _. 0),
     t_symbol = (\<lambda>_. 0), t_stack = 29, t_darwin = False\<rparr>"

definition counting_state :: astate where
  "counting_state = \<lparr>a_regs = of_int, a_flags = flags_float FEqual, a_mem = (\<lambda>_. Some 0)\<rparr>"

lemma counting_state_simps [simp]:
  "a_regs counting_state r = of_int r" "a_mem counting_state = (\<lambda>_. Some 0)" "t_stack idle_target = 29"
  by (simp_all add: counting_state_def idle_target_def)

theorem translateOperation_correct_witness:
  "\<exists>s'. asm_run idle_target [Data (UDIV X8 X9 X4 False), Data (MUL X8 X8 X4 False), Data (SUB X0 X9 X8 False)]
     counting_state = AFall s' \<and> a_regs s' X0 = 1"
proof -
  have "word_op idle_target (Oarith Omodu) (map (a_regs counting_state) [X9, X4]) = Some 1"
    by (simp add: guarded_def)
  from translateOperation_correct [OF _ this, of X0] show ?thesis by (auto simp: arg2_def)
qed

text \<open>
  When the branch is taken although the condition does not hold: always for a negated comparison of
  floating-point numbers, and for less than and less or equal when the operands are unordered.
\<close>

fun taken_wrongly :: "target \<Rightarrow> conditionCode \<Rightarrow> w64 list \<Rightarrow> bool" where
  "taken_wrongly T (Ccompf c) [v, w] \<longleftrightarrow> (c = Clt \<or> c = Cle) \<and> t_fcmp T True v w = FUnordered"
| "taken_wrongly T (Ccomps c) [v, w] \<longleftrightarrow> (c = Clt \<or> c = Cle) \<and> t_fcmp T False v w = FUnordered"
| "taken_wrongly T (Cnotcompf c) ws \<longleftrightarrow> True"
| "taken_wrongly T (Cnotcomps c) ws \<longleftrightarrow> True"
| "taken_wrongly T c ws \<longleftrightarrow> False"

lemma float_cond_taken: "cond_holds (conditionToCondCode c False) (flags_float r) \<longleftrightarrow>
    fcmp_with c r \<or> (c = Clt \<or> c = Cle) \<and> r = FUnordered"
  by (cases c; cases r) auto

lemma cond_run_exact:
  assumes "word_cond T c (map (a_regs s) args) = Some b"
  shows "if b \<or> taken_wrongly T c (map (a_regs s) args) then asm_run T (translateCond name c args l) s = AJump (machLabelToAsm name l)
    else \<exists>f. asm_run T (translateCond name c args l) s = AFall (set_flags f s)"
proof (cases "cond_ok c")
  case True
  then have "taken_wrongly T c (map (a_regs s) args) = False"
    by (cases "(T, c, map (a_regs s) args)" rule: taken_wrongly.cases) auto
  with cond_run [OF assms True, of name l] show ?thesis by simp
next
  case False
  with assms show ?thesis
    by (cases c; cases args rule: args_cases) (auto simp: translateCond_def fall_or_wrong_def float_cond_taken)
qed

text \<open>Property C26. For every condition and all operands on which it is defined, the branch goes to its label when the
  condition holds, and otherwise falls through and changes only the flags, with exactly these exceptions: a
  negated comparison of floating-point numbers is always taken, and less than and less or equal between
  floating-point numbers are also taken when the numbers are unordered.\<close>

theorem translateCond_correct:
  assumes "word_cond T c (map (a_regs s) args) = Some b"
  shows "if b \<or> taken_wrongly T c (map (a_regs s) args) then asm_run T (translateCond name c args l) s = AJump (machLabelToAsm name l)
    else \<exists>f. asm_run T (translateCond name c args l) s = AFall (set_flags f s)"
  by (rule cond_run_exact [OF assms])

theorem translateCond_correct_witness:
  "\<exists>f. asm_run idle_target (translateCond ''f'' (Ccompu Clt) [X4, X3] 7) counting_state = AFall (set_flags f counting_state)"
  using translateCond_correct [of idle_target "Ccompu Clt" counting_state "[X4, X3]" False "''f''" 7] by simp

text \<open>The two kinds of wrong branches, on the code.\<close>

lemma float_less_unordered:
  "t_fcmp T True (a_regs s a) (a_regs s b) = FUnordered \<Longrightarrow> word_cond T (Ccompf Clt) (map (a_regs s) [a, b]) = Some False \<and>
   asm_run T (translateCond name (Ccompf Clt) [a, b] l) s = AJump (machLabelToAsm name l)"
  by (simp add: translateCond_def fall_or_wrong_def)

lemma float_negated_always:
  "asm_run T (translateCond name (Cnotcompf c) args l) s = AJump (machLabelToAsm name l)"
  by (simp add: translateCond_def)

text \<open>Property C28. A load through a base register and an offset, or from the frame (\<open>Aindexed\<close>, \<open>Ainstack\<close>), of any chunk
  but \<open>Many32\<close>, puts the value of the chunk into its destination and changes nothing else. The other addressing
  modes are not covered: the generator drops the index register of the indexed ones and panics on a global.\<close>

theorem translateLoad_correct:
  assumes "access_ok ch a" and "word_addr T a (map (a_regs s) args) = Some p" and "a_regs s X29 = t_stack T"
    and "load_chunk ch p (a_mem s) = Some v"
  shows "\<exists>code. translateLoad ch a args d = Some code \<and> asm_run T code s = AFall (set_reg d v s)"
proof -
  from base_offset_address [OF assms(1-3)] obtain base ofs
    where b: "base_offset a args = Some (base, ofs)" "at_ofs s base ofs = p" by blast
  from assms(1) have "ch \<noteq> Many32" by (cases a) auto
  from load_of_exec [OF this, of s base ofs v d] assms(4) b show ?thesis
    by (simp add: translateLoad_def fall_or_wrong_def)
qed

theorem translateLoad_correct_witness:
  "\<exists>code. translateLoad Mint16signed (Aindexed 6) [X3] X1 = Some code \<and>
     asm_run idle_target code counting_state = AFall (set_reg X1 0 counting_state)"
  by (rule translateLoad_correct [where p = 9]) (simp_all add: load_chunk_def numeral_2_eq_2)

text \<open>Property C27. A store through a base register and an offset, or to the frame (\<open>Aindexed\<close>, \<open>Ainstack\<close>), of any chunk
  but \<open>Many32\<close>, stores the chunk and changes no register; what was stored is read back, up to the size of the
  chunk. The other addressing modes are not covered: the generator drops the index register of the indexed
  ones and panics on a global.\<close>

theorem translateStore_correct:
  assumes "access_ok ch a" and "word_addr T a (map (a_regs s) args) = Some p" and "a_regs s X29 = t_stack T"
    and "store_chunk ch p (a_regs s src) (a_mem s) = Some m'"
  shows "\<exists>code. translateStore ch a args src = Some code \<and> asm_run T code s = AFall (s\<lparr>a_mem := m'\<rparr>) \<and>
    load_chunk ch p m' = Some (chunk_value ch (a_regs s src))"
proof -
  from base_offset_address [OF assms(1-3)] obtain base ofs
    where b: "base_offset a args = Some (base, ofs)" "at_ofs s base ofs = p" by blast
  from assms(1) have "ch \<noteq> Many32" by (cases a) auto
  from store_of_exec [OF this, of s base ofs src m'] assms(4) b load_store_same [OF assms(4)] show ?thesis
    by (simp add: translateStore_def fall_or_wrong_def)
qed

theorem translateStore_correct_witness:
  "\<exists>code. translateStore Mint8unsigned (Aindexed 6) [X3] X4 = Some code \<and>
     asm_run idle_target code counting_state = AFall (counting_state\<lparr>a_mem := (\<lambda>_. Some 0)(9 \<mapsto> 4)\<rparr>) \<and>
     load_chunk Mint8unsigned 9 ((\<lambda>_. Some 0)(9 \<mapsto> 4)) = Some (chunk_value Mint8unsigned (a_regs counting_state X4))"
  by (rule translateStore_correct) (simp_all add: store_chunk_def)

text \<open>Other addressing modes are not translated faithfully: the index is dropped.\<close>

lemma indexed_load_drops_index:
  "translateLoad ch Aindexed2 [a, b] d = translateLoad ch (Aindexed 0) [a] d"
  by (simp add: translateLoad_def arg1_def)

lemma global_load_panics: "translateLoad ch (Aglobal sy n) [] d = None"
  by (simp add: translateLoad_def arg1_def)

text \<open>Property C29. A jump table jumps to the entry that the register selects.\<close>

theorem translateJumptable_correct:
  assumes "jump_entry M v ts = Some l" and "sem_index M v = Some (unat (a_regs s a))" and "length ts \<le> 2 ^ 64"
  shows "asm_run T (translateJumptable name a ts) s = AJump (machLabelToAsm name l)"
  using assms jumptable_run [of 0 s a ts T name]
  by (auto simp: translateJumptable_def jump_entry_def split: if_splits)

theorem translateJumptable_correct_witness:
  "asm_run idle_target (translateJumptable ''f'' X2 [5, 6, 7]) counting_state = AJump (machLabelToAsm ''f'' 7)"
  by (rule translateJumptable_correct [where M = "word_sem idle_target E" and v = "Some 2" for E])
    (simp_all add: jump_entry_def word_index_def)

end
