(* ===== verification/AsmSim.thy ===== *)
theory AsmSim
  imports AsmOps
begin

text \<open>
  The assembly code of a function does what its Mach code does. Mach keeps the stack frame apart from
  memory and leaves registers undefined after calls; the processor has one memory, in which the frame
  occupies a window of addresses that the program does not use, and every register has some value. The
  simulation relates what Mach defines.
\<close>

section \<open>Semantics of assembly functions\<close>

text \<open>\<open>acall\<close> is what a call does to the state by the time it returns.\<close>

datatype asm_state =
    ACode "asm_instr list" astate
  | AFinal "w64 funVal option" astate

fun asm_find_label :: "asm_label \<Rightarrow> asm_instr list \<Rightarrow> asm_instr list option" where
  "asm_find_label l [] = None"
| "asm_find_label l (i # is) = (if i = LabelDef l then Some is else asm_find_label l is)"

inductive asm_step ::
  "target \<Rightarrow> (w64 funVal \<Rightarrow> astate \<Rightarrow> astate option) \<Rightarrow> asm_instr list \<Rightarrow> asm_state \<Rightarrow> asm_state \<Rightarrow> bool"
  for T acall code where
  asm_fall: "asm_effect T i s = AFall s' \<Longrightarrow> asm_step T acall code (ACode (i # c) s) (ACode c s')"
| asm_jump: "asm_effect T i s = AJump l \<Longrightarrow> asm_find_label l code = Some c' \<Longrightarrow>
    asm_step T acall code (ACode (i # c) s) (ACode c' s)"
| asm_call: "asm_effect T i s = ACall fv \<Longrightarrow> acall fv s = Some s' \<Longrightarrow>
    asm_step T acall code (ACode (i # c) s) (ACode c s')"
| asm_ret: "asm_effect T i s = ARet \<Longrightarrow> asm_step T acall code (ACode (i # c) s) (AFinal None s)"
| asm_tail: "asm_effect T i s = ATail fv \<Longrightarrow> asm_step T acall code (ACode (i # c) s) (AFinal (Some fv) s)"

inductive_cases asm_step_codeE: "asm_step T acall code (ACode c s) t"
inductive_cases asm_step_finalE: "asm_step T acall code (AFinal fv s) t"

fun asm_final :: "asm_state \<Rightarrow> w64 funVal option \<times> astate \<Rightarrow> bool" where
  "asm_final (AFinal fv s) q \<longleftrightarrow> q = (fv, s)"
| "asm_final (ACode _ _) q \<longleftrightarrow> False"

interpretation asm: determ "asm_step T acall code" asm_final for T acall code
proof
  fix s t u assume "asm_step T acall code s t" "asm_step T acall code s u" then show "t = u"
    by (cases rule: asm_step.cases) (auto elim!: asm_step_codeE)
next
  fix s r t assume "asm_final s r" then show "\<not> asm_step T acall code s t"
    by (cases s) (auto elim: asm_step_finalE)
next
  fix s r q assume "asm_final s r" "asm_final s q" then show "r = q" by (cases s) auto
qed

text \<open>Straight-line code, and code that ends in a jump.\<close>

lemma asm_run_steps:
  "asm_run T is s = AFall s' \<Longrightarrow> (asm_step T acall code)\<^sup>*\<^sup>* (ACode (is @ c) s) (ACode c s')"
proof (induction "is" arbitrary: s)
  case (Cons i "is")
  then obtain s1 where "asm_effect T i s = AFall s1" "asm_run T is s1 = AFall s'" by (auto split: asm_action.splits)
  with Cons.IH show ?case by (auto intro: converse_rtranclp_into_rtranclp asm_fall)
qed simp

lemma asm_run_plus:
  "asm_run T is s = AFall s' \<Longrightarrow> is \<noteq> [] \<Longrightarrow> (asm_step T acall code)\<^sup>+\<^sup>+ (ACode (is @ c) s) (ACode c s')"
proof (induction "is")
  case (Cons i "is")
  then obtain s1 where "asm_effect T i s = AFall s1" "asm_run T is s1 = AFall s'" by (auto split: asm_action.splits)
  with asm_run_steps show ?case by (auto intro: rtranclp_into_tranclp2 asm_fall)
qed simp

text \<open>Code that changes at most the flags before it jumps.\<close>

definition keeps_state :: "target \<Rightarrow> asm_instr \<Rightarrow> bool" where
  "keeps_state T i \<longleftrightarrow> (\<forall>s s'. asm_effect T i s = AFall s' \<longrightarrow> a_regs s' = a_regs s \<and> a_mem s' = a_mem s)"

lemma asm_run_jump:
  assumes "asm_run T is s = AJump l" "list_all (keeps_state T) is" "asm_find_label l code = Some c'"
  shows "\<exists>s'. (asm_step T acall code)\<^sup>+\<^sup>+ (ACode (is @ c) s) (ACode c' s') \<and> a_regs s' = a_regs s \<and> a_mem s' = a_mem s"
  using assms(1,2)
proof (induction "is" arbitrary: s)
  case (Cons i "is")
  show ?case
  proof (cases "asm_effect T i s")
    case (AFall s1)
    with Cons obtain s' where s': "(asm_step T acall code)\<^sup>+\<^sup>+ (ACode (is @ c) s1) (ACode c' s')"
      "a_regs s' = a_regs s1" "a_mem s' = a_mem s1" by auto
    from AFall Cons.prems have "a_regs s1 = a_regs s" "a_mem s1 = a_mem s" by (auto simp: keeps_state_def)
    with s' AFall show ?thesis by (intro exI [of _ s']) (auto intro: tranclp_into_tranclp2 asm_fall)
  next
    case (AJump l')
    with Cons.prems assms(3) show ?thesis by (intro exI [of _ s]) (auto intro: asm_jump)
  qed (use Cons.prems in auto)
qed simp

lemma keeps_cond: "list_all (keeps_state T) (translateCond name c args l)"
  unfolding translateCond_def
  by (cases "(c, args)" rule: cond_compare.cases) (auto simp: keeps_state_def cmp_flags_def fall_or_wrong_def split: if_splits)

lemma keeps_jumptable: "list_all (keeps_state T) (jumptable_from name a k ts)"
  by (induction ts arbitrary: k) (auto simp: keeps_state_def cmp_flags_def split: if_splits)

section \<open>Labels\<close>

text \<open>Labels of a function stay apart, since their numbers are printed differently.\<close>

lemma machLabelToAsm_inject [simp]: "machLabelToAsm name l = machLabelToAsm name l' \<longleftrightarrow> l = l'"
  by (simp add: machLabelToAsm_def show_int_inject)

section \<open>The frame in memory\<close>

text \<open>A memory that extends another.\<close>

lemma read_bytes_le: "m \<subseteq>\<^sub>m am \<Longrightarrow> read_bytes n p m = Some w \<Longrightarrow> read_bytes n p am = Some w"
proof (induction n arbitrary: p w)
  case (Suc n)
  then obtain b w' where "m p = Some b" "read_bytes n (p + 1) m = Some w'" "w = ucast b OR push_bit 8 w'"
    by (auto simp: bind_eq_Some_conv)
  moreover from this have "am p = Some b" using Suc.prems(1) by (force simp: map_le_def dom_def)
  ultimately show ?case using Suc by simp
qed simp

lemma load_chunk_le: "m \<subseteq>\<^sub>m am \<Longrightarrow> load_chunk ch p m = Some w \<Longrightarrow> load_chunk ch p am = Some w"
  by (auto simp: load_chunk_def dest: read_bytes_le)

lemma write_bytes_le:
  "m \<subseteq>\<^sub>m am \<Longrightarrow> write_bytes n p v m = Some m' \<Longrightarrow> \<exists>am'. write_bytes n p v am = Some am' \<and> m' \<subseteq>\<^sub>m am' \<and> cells p n \<subseteq> dom m"
proof (induction n arbitrary: p v m am)
  case (Suc n)
  then have w: "m p \<noteq> None" "write_bytes n (p + 1) (drop_bit 8 v) (m(p \<mapsto> ucast v)) = Some m'" by (auto split: if_splits)
  have "m(p \<mapsto> ucast v) \<subseteq>\<^sub>m am(p \<mapsto> ucast v)" using Suc.prems(1) by (simp add: map_le_upd)
  from Suc.IH [OF this w(2)] obtain am' where
    "write_bytes n (p + 1) (drop_bit 8 v) (am(p \<mapsto> ucast v)) = Some am'" "m' \<subseteq>\<^sub>m am'" "cells (p + 1) n \<subseteq> dom (m(p \<mapsto> ucast v))"
    by blast
  moreover have "am p \<noteq> None" using w(1) Suc.prems(1) by (auto simp: map_le_def dom_def)
  ultimately show ?case using w(1) by (auto simp: cells_Suc)
qed simp

text \<open>The window of a frame: \<open>k\<close> bytes below the frame pointer, the frame record, \<open>inc\<close> bytes of arguments.\<close>

definition window_ok :: "int \<Rightarrow> int \<Rightarrow> bool" where
  "window_ok k inc \<longleftrightarrow> 0 \<le> k \<and> 0 \<le> inc \<and> k + 16 + inc < 2 ^ 63"

definition window :: "w64 \<Rightarrow> int \<Rightarrow> int \<Rightarrow> w64 set" where
  "window fp k inc = (\<lambda>o'. fp + of_int o') ` {- k ..< 16 + inc}"

lemma cells_ofs: "cells (fp + of_int ofs) n = (\<lambda>o'. fp + of_int o') ` {ofs ..< ofs + int n}"
proof -
  have "(\<lambda>i. ofs + int i) ` {..<n} = {ofs ..< ofs + int n}"
    by (auto intro!: image_eqI [of x _ "nat (x - ofs)" for x])
  then have "(\<lambda>o'. fp + of_int o') ` (\<lambda>i. ofs + int i) ` {..<n} = (\<lambda>o'. fp + of_int o') ` {ofs ..< ofs + int n}" by simp
  then show ?thesis by (simp add: cells_def image_image ac_simps)
qed

lemma of_int_window_inj:
  assumes "window_ok k inc" "- k \<le> a" "a < 16 + inc" "- k \<le> b" "b < 16 + inc" "(of_int a :: w64) = of_int b"
  shows "a = b"
proof -
  from assms(6) have "a mod 2 ^ 64 = b mod 2 ^ 64" by (simp add: word_of_int_eq_iff take_bit_eq_mod)
  then have "2 ^ 64 dvd a - b" by (simp add: mod_eq_dvd_iff)
  moreover have "\<bar>a - b\<bar> < 2 ^ 64" using assms(1-5) by (auto simp: window_ok_def abs_if)
  ultimately show ?thesis using dvd_imp_le_int [of "a - b" "2 ^ 64"] by auto
qed

lemma window_cells: "- k \<le> ofs \<Longrightarrow> ofs + int n \<le> 16 + inc \<Longrightarrow> cells (fp + of_int ofs) n \<subseteq> window fp k inc"
  unfolding cells_ofs window_def by (rule image_mono) auto

lemma window_apart:
  assumes "window_ok k inc" "- k \<le> o1" "o1 + int n1 \<le> 16 + inc" "- k \<le> o2" "o2 + int n2 \<le> 16 + inc"
    and "\<not> share o1 (int n1) o2 (int n2)"
  shows "cells (fp + of_int o1) n1 \<inter> cells (fp + of_int o2) n2 = {}"
proof -
  have "x = y" if "o1 \<le> x" "x < o1 + int n1" "o2 \<le> y" "y < o2 + int n2" "(of_int x :: w64) = of_int y" for x y
    using of_int_window_inj [OF assms(1), of x y] that assms(2-5) by simp
  with assms(6) show ?thesis unfolding cells_ofs share_def by force
qed

lemma write_in_window:
  assumes "window_ok k inc" "- k \<le> o1" "o1 + 8 \<le> 16 + inc" "window fp k inc \<subseteq> dom am"
  obtains am' where "write_bytes 8 (fp + of_int o1) v am = Some am'" "dom am' = dom am"
    "read_bytes 8 (fp + of_int o1) am' = Some v"
    "\<And>p. p \<notin> cells (fp + of_int o1) 8 \<Longrightarrow> am' p = am p"
proof -
  have "cells (fp + of_int o1) 8 \<subseteq> dom am" using window_cells [of k o1 8 inc fp] assms by auto
  then obtain am' where w: "write_bytes 8 (fp + of_int o1) v am = Some am'" using write_bytes_total by blast
  have "read_bytes 8 (fp + of_int o1) am' = Some v"
    using read_write_bytes [OF w] by (simp add: take_bit_word_eq_self)
  with that [OF w write_bytes_dom [OF w]] write_bytes_other [OF w] show ?thesis by blast
qed

section \<open>What the generator handles\<close>

text \<open>
  Registers that instructions may name: not the frame pointer, the link register and the stack pointer,
  and not the scratch register if \<open>sc\<close> says that some operation of the function overwrites it.
\<close>

definition usable :: "bool \<Rightarrow> mreg \<Rightarrow> bool" where
  "usable sc r \<longleftrightarrow> r \<noteq> X29 \<and> r \<noteq> X30 \<and> r \<noteq> SP \<and> (sc \<longrightarrow> r \<noteq> X8)"

text \<open>
  What is required of an instruction: slots of eight bytes inside the frame, parameters inside the
  argument area, operations, accesses and conditions that the generator translates faithfully, no tail
  calls and no builtins, and arguments that fit the registers and the outgoing area. A function called through
  a pointer takes eight arguments in registers, as many as there are argument registers.
\<close>

fun asm_ok ::
  "target \<Rightarrow> (val, mem) sem \<Rightarrow> (loc funRef \<Rightarrow> nat) \<Rightarrow> bool \<Rightarrow> int \<Rightarrow> int \<Rightarrow> int \<Rightarrow> mach_instr \<Rightarrow> bool" where
  "asm_ok T E cc sc k inc out (Mgetstack ofs t d) \<longleftrightarrow> is64BitType t \<and> - k \<le> ofs \<and> ofs + 8 \<le> 0 \<and> usable sc d"
| "asm_ok T E cc sc k inc out (Msetstack r ofs t) \<longleftrightarrow> is64BitType t \<and> - k \<le> ofs \<and> ofs + 8 \<le> 0 \<and> usable sc r"
| "asm_ok T E cc sc k inc out (Mgetparam ofs t d) \<longleftrightarrow> is64BitType t \<and> 16 \<le> ofs \<and> ofs + 8 \<le> 16 + inc \<and> usable sc d"
| "asm_ok T E cc sc k inc out (Mop op args d) \<longleftrightarrow>
     op_ok T op \<and> (scratch_op op \<longrightarrow> sc) \<and> list_all (usable sc) args \<and> usable sc d"
| "asm_ok T E cc sc k inc out (Mload ch a args d) \<longleftrightarrow> access_ok ch a \<and> list_all (usable sc) args \<and> usable sc d"
| "asm_ok T E cc sc k inc out (Mstore ch a args src) \<longleftrightarrow> access_ok ch a \<and> list_all (usable sc) args \<and> usable sc src"
| "asm_ok T E cc sc k inc out (Mcall sg fn) \<longleftrightarrow>
     cc (map_funRef R fn) \<le> 8 \<and>
     (case fn of FunReg r \<Rightarrow> usable sc r \<and> cc (FunReg (R r)) = 8 | FunSymbol _ \<Rightarrow> True) \<and>
     (\<forall>fv m. 8 * (int (sem_arity E sg fv m) - int (cc (map_funRef R fn))) \<le> out)"
| "asm_ok T E cc sc k inc out (Mtailcall sg fn) \<longleftrightarrow> False"
| "asm_ok T E cc sc k inc out (Mbuiltin bf args d) \<longleftrightarrow> False"
| "asm_ok T E cc sc k inc out (Mlabel l) \<longleftrightarrow> True"
| "asm_ok T E cc sc k inc out (Mgoto l) \<longleftrightarrow> True"
| "asm_ok T E cc sc k inc out (Mcond c args l) \<longleftrightarrow> cond_ok c \<and> list_all (usable sc) args"
| "asm_ok T E cc sc k inc out (Mjumptable r ts) \<longleftrightarrow> usable sc r \<and> length ts \<le> 2 ^ 64"
| "asm_ok T E cc sc k inc out Mreturn \<longleftrightarrow> True"

section \<open>The relation between the states\<close>

definition regs_rel :: "bool \<Rightarrow> (mreg \<Rightarrow> val) \<Rightarrow> (mreg \<Rightarrow> w64) \<Rightarrow> bool" where
  "regs_rel sc rs ars \<longleftrightarrow> (\<forall>r w. usable sc r \<longrightarrow> rs r = Some w \<longrightarrow> ars r = w)"

definition frame_rel :: "w64 \<Rightarrow> int \<Rightarrow> int \<Rightarrow> val frame \<Rightarrow> mem \<Rightarrow> bool" where
  "frame_rel fp k inc fr am \<longleftrightarrow> (\<forall>ofs t w. fr ofs t = Some w \<longrightarrow> is64BitType t \<longrightarrow> - k \<le> ofs \<longrightarrow> ofs + 8 \<le> 16 + inc \<longrightarrow>
     ofs + 8 \<le> 0 \<or> 16 \<le> ofs \<longrightarrow> read_bytes 8 (fp + of_int ofs) am = Some w)"

text \<open>\<open>x29\<close> and \<open>x30\<close> are the values that the frame record saves.\<close>

definition linked ::
  "bool \<Rightarrow> w64 \<Rightarrow> int \<Rightarrow> int \<Rightarrow> w64 \<Rightarrow> w64 \<Rightarrow> (mreg \<Rightarrow> val) \<Rightarrow> val frame \<Rightarrow> mem \<Rightarrow> astate \<Rightarrow> bool" where
  "linked sc fp k inc x29 x30 rs fr m s \<longleftrightarrow>
     regs_rel sc rs (a_regs s) \<and> frame_rel fp k inc fr (a_mem s) \<and>
     m \<subseteq>\<^sub>m a_mem s \<and> dom m \<inter> window fp k inc = {} \<and> window fp k inc \<subseteq> dom (a_mem s) \<and>
     a_regs s X29 = fp \<and> a_regs s SP = fp - of_int k \<and>
     read_bytes 8 fp (a_mem s) = Some x29 \<and> read_bytes 8 (fp + 8) (a_mem s) = Some x30"

text \<open>
  What is required of the functions that are called. How many of its arguments a function takes in registers
  is fixed by the function, \<open>cc\<close> for a name and eight for a pointer; the others are on the stack from the
  stack pointer up. If a call is defined on as many arguments as the function has, and they are where the
  function expects them, then it returns, with the result in \<open>X0\<close> and the new memory, and it keeps the
  callee-saved registers, the frame pointer and the stack pointer. A part of the stack from the stack pointer
  up that the program's memory does not use stays so, and keeps its contents beyond the \<open>out\<close> bytes of
  arguments.
\<close>

fun reg_args :: "(loc funRef \<Rightarrow> nat) \<Rightarrow> 'v funVal \<Rightarrow> nat" where
  "reg_args cc (FV_sym sy) = cc (FunSymbol sy)"
| "reg_args cc (FV_ptr v) = 8"

definition arg_at :: "nat \<Rightarrow> astate \<Rightarrow> nat \<Rightarrow> val \<Rightarrow> bool" where
  "arg_at k s i v \<longleftrightarrow> (\<forall>w. v = Some w \<longrightarrow>
     (if i < k then a_regs s (int i) = w else read_bytes 8 (a_regs s SP + of_int (8 * int (i - k))) (a_mem s) = Some w))"

fun same_fun :: "val funVal \<Rightarrow> w64 funVal \<Rightarrow> bool" where
  "same_fun (FV_sym sy) fv \<longleftrightarrow> fv = FV_sym sy"
| "same_fun (FV_ptr v) fv \<longleftrightarrow> (\<exists>w. fv = FV_ptr w \<and> (v = None \<or> v = Some w))"

definition call_ok ::
  "(val, mem) sem \<Rightarrow> (loc funRef \<Rightarrow> nat) \<Rightarrow> (w64 funVal \<Rightarrow> astate \<Rightarrow> astate option) \<Rightarrow> nat \<Rightarrow> sig \<Rightarrow> val funVal \<Rightarrow>
   w64 funVal \<Rightarrow> val list \<Rightarrow> mem \<Rightarrow> val \<Rightarrow> mem \<Rightarrow> astate \<Rightarrow> nat \<Rightarrow> bool" where
  "call_ok E cc acall out sg fv afv vs m v m' s n \<longleftrightarrow>
     (sem_call E sg fv vs m = Some (v, m') \<and> length vs = sem_arity E sg fv m \<and> same_fun fv afv \<and>
      (\<forall>i<length vs. arg_at (reg_args cc fv) s i (vs ! i)) \<and>
      m \<subseteq>\<^sub>m a_mem s \<and> cells (a_regs s SP) n \<subseteq> dom (a_mem s) - dom m \<longrightarrow>
      (\<exists>s'. acall afv s = Some s' \<and> (\<forall>w. v = Some w \<longrightarrow> a_regs s' IntReturnReg = w) \<and>
         (\<forall>r. IsCalleeSaved r \<or> r = X29 \<or> r = SP \<longrightarrow> a_regs s' r = a_regs s r) \<and> m' \<subseteq>\<^sub>m a_mem s' \<and>
         cells (a_regs s SP) n \<subseteq> dom (a_mem s') - dom m' \<and>
         (\<forall>p\<in>cells (a_regs s SP) n - cells (a_regs s SP) out. a_mem s' p = a_mem s p)))"

definition callees_ok ::
  "(val, mem) sem \<Rightarrow> (loc funRef \<Rightarrow> nat) \<Rightarrow> (w64 funVal \<Rightarrow> astate \<Rightarrow> astate option) \<Rightarrow> nat \<Rightarrow> bool" where
  "callees_ok E cc acall out \<longleftrightarrow> (\<forall>sg fv afv vs m v m' s n. call_ok E cc acall out sg fv afv vs m v m' s n)"

lemma regs_rel_map:
  "regs_rel sc rs ars \<Longrightarrow> list_all (usable sc) args \<Longrightarrow> map rs args = map Some ws \<Longrightarrow> map ars args = ws"
  by (induction args arbitrary: ws) (auto simp: regs_rel_def Cons_eq_map_conv)

lemma linked_computed:
  assumes "linked sc fp k inc x29 x30 rs fr m s" "usable sc d" "a_mem s' = a_mem s"
    and "\<And>r. r \<noteq> d \<Longrightarrow> \<not> (sc \<and> r = X8) \<Longrightarrow> a_regs s' r = a_regs s r" "\<And>w. v = Some w \<Longrightarrow> a_regs s' d = w"
  shows "linked sc fp k inc x29 x30 (rs(d := v)) fr m s'"
proof -
  have "regs_rel sc (rs(d := v)) (a_regs s')"
    using assms by (auto simp: regs_rel_def linked_def usable_def)
  moreover have "a_regs s' X29 = a_regs s X29" "a_regs s' SP = a_regs s SP"
    using assms(2) by (auto intro!: assms(4) simp: usable_def)
  ultimately show ?thesis using assms(1,3) by (simp add: linked_def)
qed

lemma linked_same: "linked sc fp k inc x29 x30 rs fr m s \<Longrightarrow> a_regs s' = a_regs s \<Longrightarrow> a_mem s' = a_mem s \<Longrightarrow>
    linked sc fp k inc x29 x30 rs fr m s'"
  by (simp add: linked_def)

text \<open>A store to memory that the program uses leaves the frame alone.\<close>

lemma linked_memory:
  assumes "linked sc fp k inc x29 x30 rs fr m s" "window_ok k inc" "m' \<subseteq>\<^sub>m am'" "dom m' = dom m" "dom am' = dom (a_mem s)"
    and "\<And>p. p \<in> window fp k inc \<Longrightarrow> am' p = a_mem s p"
  shows "linked sc fp k inc x29 x30 rs fr m' (s\<lparr>a_mem := am'\<rparr>)"
proof -
  have same: "read_bytes 8 (fp + of_int ofs) am' = read_bytes 8 (fp + of_int ofs) (a_mem s)"
    if "- k \<le> ofs" "ofs + 8 \<le> 16 + inc" for ofs
    using window_cells [of k ofs 8 inc fp] that by (intro read_bytes_cong assms(6)) auto
  have "frame_rel fp k inc fr am'"
    using assms(1) same by (auto simp: linked_def frame_rel_def)
  moreover have "read_bytes 8 fp am' = Some x29" "read_bytes 8 (fp + 8) am' = Some x30"
    using same [of 0] same [of 8] assms(1,2) by (auto simp: linked_def window_ok_def)
  ultimately show ?thesis using assms(1,3-5) by (simp add: linked_def)
qed

text \<open>A slot is written.\<close>

lemma linked_slot:
  assumes l: "linked sc fp k inc x29 x30 rs fr m s" and w: "window_ok k inc"
    and o: "- k \<le> ofs" "ofs + 8 \<le> 0" and t: "is64BitType t" and r: "usable sc r"
  shows "\<exists>am'. write_bytes 8 (fp + of_int ofs) (a_regs s r) (a_mem s) = Some am' \<and>
    linked sc fp k inc x29 x30 rs (frame_set (word_sem T E) ofs t (rs r) fr) m (s\<lparr>a_mem := am'\<rparr>)"
proof -
  have o': "ofs + 8 \<le> 16 + inc" using o(2) w by (simp add: window_ok_def)
  obtain am' where am': "write_bytes 8 (fp + of_int ofs) (a_regs s r) (a_mem s) = Some am'" "dom am' = dom (a_mem s)"
    "read_bytes 8 (fp + of_int ofs) am' = Some (a_regs s r)"
    "\<And>p. p \<notin> cells (fp + of_int ofs) 8 \<Longrightarrow> am' p = a_mem s p"
    by (rule write_in_window [OF w o(1) o', of fp "a_mem s" "a_regs s r"]) (use l in \<open>auto simp: linked_def\<close>)
  have same: "read_bytes 8 (fp + of_int o2) am' = read_bytes 8 (fp + of_int o2) (a_mem s)"
    if "- k \<le> o2" "o2 + 8 \<le> 16 + inc" "\<not> share ofs 8 o2 8" for o2
    using window_apart [OF w o(1), of 8 o2 8 fp] that o' by (intro read_bytes_cong am'(4)) auto
  have sz: "slotSize t' = 8" if "is64BitType t'" for t' using that by (cases t') auto
  have "frame_rel fp k inc (frame_set (word_sem T E) ofs t (rs r) fr) am'"
    unfolding frame_rel_def
  proof (intro allI impI)
    fix o2 t2 v assume *: "frame_set (word_sem T E) ofs t (rs r) fr o2 t2 = Some v" "is64BitType t2" "- k \<le> o2"
      "o2 + 8 \<le> 16 + inc" "o2 + 8 \<le> 0 \<or> 16 \<le> o2"
    show "read_bytes 8 (fp + of_int o2) am' = Some v"
    proof (cases "o2 = ofs \<and> t2 = t")
      case True
      with * l r have "a_regs s r = v" by (auto simp: linked_def regs_rel_def)
      with True am'(3) show ?thesis by simp
    next
      case False
      with *(1) sz [OF t] sz [OF *(2)] have "\<not> share ofs 8 o2 8" "fr o2 t2 = Some v"
        by (auto simp: frame_set_def split: if_splits)
      with same [OF *(3,4)] l * show ?thesis by (auto simp: linked_def frame_rel_def)
    qed
  qed
  moreover have "read_bytes 8 fp am' = Some x29" "read_bytes 8 (fp + 8) am' = Some x30"
    using same [of 0] same [of 8] l w o by (auto simp: linked_def window_ok_def share_def)
  moreover have "m \<subseteq>\<^sub>m am'"
  proof -
    have "p \<notin> cells (fp + of_int ofs) 8" if "p \<in> dom m" for p
      using window_cells [of k ofs 8 inc fp] o(1) o' l that by (auto simp: linked_def)
    with am'(4) l show ?thesis by (auto simp: map_le_def linked_def)
  qed
  ultimately show ?thesis using l am'(1,2) by (intro exI [of _ am']) (simp add: linked_def)
qed

section \<open>Calls\<close>

lemma linked_cells: "linked sc fp k inc x29 x30 rs fr m s \<Longrightarrow> window_ok k inc \<Longrightarrow>
    cells (a_regs s SP) (nat (k + 16 + inc)) = window fp k inc"
  using cells_ofs [of fp "- k" "nat (k + 16 + inc)"] by (simp add: linked_def window_def window_ok_def add.commute)

lemma linked_args:
  assumes l: "linked sc fp k inc x29 x30 rs fr m s" and w: "window_ok k inc" and out: "int out \<le> k"
    and kk: "kk \<le> 8" and n: "8 * (int n - int kk) \<le> int out" and i: "i < n"
  shows "arg_at kk s i (mach_arg kk (- k) rs fr i)"
proof (cases "i < kk")
  case True
  with kk have "usable sc (int i)" by (simp add: usable_def)
  with True l show ?thesis by (auto simp: arg_at_def mach_arg_def linked_def regs_rel_def)
next
  case False
  let ?o = "- k + 8 * int (i - kk)"
  have o: "- k \<le> ?o" "?o + 8 \<le> 0" using False n i out by (simp_all add: of_nat_diff)
  have "a_regs s SP + of_int (8 * int (i - kk)) = fp + of_int ?o" using l by (simp add: linked_def)
  moreover have "read_bytes 8 (fp + of_int ?o) (a_mem s) = Some v" if "fr ?o Tlong = Some v" for v
  proof -
    have "?o + 8 \<le> 16 + inc" using o(2) w unfolding window_ok_def by linarith
    moreover have "frame_rel fp k inc fr (a_mem s)" using l by (simp add: linked_def)
    ultimately show ?thesis using o that unfolding frame_rel_def by (metis is64BitType.simps(1))
  qed
  ultimately show ?thesis using False by (simp only: arg_at_def mach_arg_def if_False) blast
qed

lemma linked_call:
  assumes l: "linked sc fp k inc x29 x30 rs fr m s" and w: "window_ok k inc" and out: "int out \<le> k"
    and callee: "callees_ok E cc acall out" "sem_call E sg fv vs m = Some (v, m')" "same_fun fv afv"
    and args: "length vs = sem_arity E sg fv m" "\<forall>i<length vs. arg_at (reg_args cc fv) s i (vs ! i)"
  shows "\<exists>s'. acall afv s = Some s' \<and>
    linked sc fp k inc x29 x30 (regs_after_call (word_sem T E) v rs)
      (frame_after_call (word_sem T E) (- k) (int out) fr) m' s'"
proof -
  note W = linked_cells [OF l w]
  have call_ok: "call_ok E cc acall out sg fv afv vs m v m' s (nat (k + 16 + inc))"
    using callee(1) by (simp add: callees_ok_def)
  have "cells (a_regs s SP) (nat (k + 16 + inc)) \<subseteq> dom (a_mem s) - dom m"
    unfolding W using l by (auto simp: linked_def)
  note this [unfolded W]
  moreover have "m \<subseteq>\<^sub>m a_mem s" using l by (simp add: linked_def)
  ultimately obtain s' where s': "acall afv s = Some s'" "\<forall>w. v = Some w \<longrightarrow> a_regs s' IntReturnReg = w"
      "\<forall>r. IsCalleeSaved r \<or> r = X29 \<or> r = SP \<longrightarrow> a_regs s' r = a_regs s r" "m' \<subseteq>\<^sub>m a_mem s'"
      "window fp k inc \<subseteq> dom (a_mem s') - dom m'"
      "\<forall>p\<in>window fp k inc - cells (a_regs s SP) out. a_mem s' p = a_mem s p"
    using callee(2,3) args call_ok [unfolded call_ok_def W] by blast
  have same: "read_bytes 8 (fp + of_int o2) (a_mem s') = read_bytes 8 (fp + of_int o2) (a_mem s)"
    if o2: "- k \<le> o2" "o2 + 8 \<le> 16 + inc" "\<not> share (- k) (int out) o2 8" for o2
  proof (rule read_bytes_cong, rule s'(6) [rule_format])
    fix p assume p: "p \<in> cells (fp + of_int o2) 8"
    have "cells (fp + of_int (- k)) out \<inter> cells (fp + of_int o2) 8 = {}"
      using o2 out w by (intro window_apart [OF w]) (auto simp: window_ok_def)
    with p show "p \<in> window fp k inc - cells (a_regs s SP) out"
      using window_cells [of k o2 8 inc fp] o2 l by (auto simp: linked_def)
  qed
  have sz: "slotSize t' = 8" if "is64BitType t'" for t' using that by (cases t') auto
  have "frame_rel fp k inc (frame_after_call (word_sem T E) (- k) (int out) fr) (a_mem s')"
    using l same sz by (auto simp: frame_rel_def frame_after_call_def linked_def split: if_splits)
  moreover have "regs_rel sc (regs_after_call (word_sem T E) v rs) (a_regs s')"
    using l s'(2,3) by (auto simp: regs_rel_def regs_after_call_def linked_def usable_def split: if_splits)
  moreover have "read_bytes 8 fp (a_mem s') = Some x29" "read_bytes 8 (fp + 8) (a_mem s') = Some x30"
    using same [of 0] same [of 8] l w out by (auto simp: linked_def window_ok_def share_def)
  moreover have "a_regs s' X29 = fp" "a_regs s' SP = fp - of_int k" using s'(3) l by (auto simp: linked_def)
  ultimately show ?thesis using s'(1,4,5) by (intro exI [of _ s']) (auto simp: linked_def)
qed

section \<open>Translated code\<close>

lemma isEpilogueStart_shape:
  "isEpilogueStart c \<longleftrightarrow> (\<exists>o1 t1 d1 o2 t2 d2 op as d c'. c = Mgetstack o1 t1 d1 # Mgetstack o2 t2 d2 # Mop op as d # Mreturn # c')"
  by (cases c rule: isEpilogueStart.cases) auto

lemma translate_body_epilogue:
  assumes "isEpilogueStart (i # c)"
  shows "translate_body f (i # c) = map_option (append (generateEpilogue (mach_stacksize f))) (translate_body f (drop 3 c))"
  using assms unfolding isEpilogueStart_shape by auto

lemma translate_body_step:
  "\<not> isEpilogueStart (i # c) \<Longrightarrow> translate_body f (i # c) =
     Option.bind (translateInstruction f i) (\<lambda>is. map_option (append is) (translate_body f c))"
  by simp

declare translate_body.simps(2) [simp del]

function code_ok :: "(mach_instr \<Rightarrow> bool) \<Rightarrow> mach_instr list \<Rightarrow> bool" where
  "code_ok P [] \<longleftrightarrow> True"
| "code_ok P (i # c) \<longleftrightarrow> (if isEpilogueStart (i # c) then code_ok P (drop 3 c) else P i \<and> code_ok P c)"
  by pat_completeness auto
termination by (relation "measure (\<lambda>(P, c). length c)") auto

definition unlabelled :: "asm_instr list \<Rightarrow> bool" where
  "unlabelled is \<longleftrightarrow> list_all (\<lambda>i. case i of LabelDef _ \<Rightarrow> False | _ \<Rightarrow> True) is"

lemma unlabelled_simps [simp]:
  "unlabelled []" "unlabelled (i # is) \<longleftrightarrow> (case i of LabelDef _ \<Rightarrow> False | _ \<Rightarrow> True) \<and> unlabelled is"
  "unlabelled (is @ js) \<longleftrightarrow> unlabelled is \<and> unlabelled js"
  by (simp_all add: unlabelled_def)

lemma asm_find_label_skip: "unlabelled is \<Longrightarrow> asm_find_label l (is @ c) = asm_find_label l c"
  by (induction "is") (auto split: asm_instr.splits)

lemma unlabelled_op: "translateOperation op args d = Some is \<Longrightarrow> unlabelled is"
proof (cases op)
  fix o' assume "translateOperation op args d = Some is" "op = Oarith o'" then show ?thesis
    by (cases o') (auto simp: arg1_Some arg2_Some)
next
  fix o' assume "translateOperation op args d = Some is" "op = Obit o'" then show ?thesis
    by (cases o') (auto simp: arg1_Some arg2_Some)
next
  fix o' assume "translateOperation op args d = Some is" "op = Olong o'" then show ?thesis
    by (cases o') (auto simp: arg1_Some arg2_Some)
next
  fix o' assume "translateOperation op args d = Some is" "op = Oconv o'" then show ?thesis
    by (cases o') (auto simp: arg1_Some)
next
  fix o' assume "translateOperation op args d = Some is" "op = Ofloat o'" then show ?thesis
    by (cases o') (auto simp: arg1_Some arg2_Some)
next
  fix o' assume "translateOperation op args d = Some is" "op = Ofconv o'" then show ?thesis
    by (cases o') (auto simp: arg1_Some)
next
  fix o' assume "translateOperation op args d = Some is" "op = Ocompare o'" then show ?thesis
    by (cases o') (auto simp: arg1_Some arg2_Some translateCompare_def translateCompareImm_def)
qed (auto simp: arg1_Some loadIntConstant_def loadFloatConstant_def)

lemma unlabelled_jumptable [simp]: "unlabelled (jumptable_from name a k ts)"
  by (induction ts arbitrary: k) auto

lemma unlabelled_cond [simp]: "unlabelled (translateCond name c args l)"
  unfolding translateCond_def by (cases "(c, args)" rule: cond_compare.cases) auto

lemma unlabelled_epilogue [simp]: "unlabelled (generateEpilogue n)" "unlabelled (generatePrologue n)"
  by (simp_all add: generateEpilogue_def generatePrologue_def Let_def)

lemma unlabelled_instr:
  "translateInstruction f i = Some is \<Longrightarrow> (\<And>l. i \<noteq> Mlabel l) \<Longrightarrow> unlabelled is"
proof (cases i)
  case (Mcall sg fn) then show "translateInstruction f i = Some is \<Longrightarrow> unlabelled is" by (cases fn) auto
next
  case (Mtailcall sg fn) then show "translateInstruction f i = Some is \<Longrightarrow> unlabelled is" by (cases fn) auto
qed (auto simp: unlabelled_op translateGetstack_def translateSetstack_def translateGetparam_def translateLoad_def
    translateStore_def translateBuiltin_def translateJumptable_def)

lemma translated_label:
  "translate_body f c = Some body \<Longrightarrow> code_ok P c \<Longrightarrow> mach_find_label l c = Some c' \<Longrightarrow>
   \<exists>body'. asm_find_label (machLabelToAsm (mach_name f) l) body = Some body' \<and> translate_body f c' = Some body' \<and> code_ok P c'"
proof (induction P c arbitrary: body rule: code_ok.induct)
  case (2 P i c)
  show ?case
  proof (cases "isEpilogueStart (i # c)")
    case True
    then have "mach_find_label l (i # c) = mach_find_label l (drop 3 c)" by (auto simp: isEpilogueStart_shape)
    with True 2 show ?thesis by (auto simp: translate_body_epilogue asm_find_label_skip)
  next
    case False
    from 2(3) False obtain "is" rest where t: "translateInstruction f i = Some is" "translate_body f c = Some rest" "body = is @ rest"
      by (auto simp: translate_body_step bind_eq_Some_conv)
    show ?thesis
    proof (cases "\<exists>l'. i = Mlabel l'")
      case True
      with t 2 False show ?thesis by (auto split: if_splits)
    next
      case no: False
      with unlabelled_instr [OF t(1)] have "unlabelled is" by blast
      with t no 2 False show ?thesis by (auto simp: asm_find_label_skip)
    qed
  qed
qed simp

lemma find_label_unlabelled:
  "is_Mop i \<Longrightarrow> mach_find_label l (i # c) = mach_find_label l c"
  "is_Msetstack i \<Longrightarrow> mach_find_label l (i # c) = mach_find_label l c"
  by (cases i; simp)+

lemma find_label_prologue:
  "mach_find_label l (drop (countPrologueInstructions c) c) = mach_find_label l c"
proof (cases "length c < 4")
  case False
  then obtain a b d e c' where "c = a # b # d # e # c'"
    by (auto simp: not_less numeral_eq_Suc Suc_le_length_iff)
  then show ?thesis
    by (simp add: countPrologueInstructions_def find_label_unlabelled eval_nat_numeral del: mach_find_label.simps)
qed (simp add: countPrologueInstructions_def)

section \<open>Instructions that fall through\<close>

lemma read_bytes_total: "cells p n \<subseteq> dom m \<Longrightarrow> \<exists>w. read_bytes n p m = Some w"
  by (induction n arbitrary: p) (force simp: cells_Suc dom_def)+

lemma slot_read:
  assumes "linked sc fp k inc x29 x30 rs fr m s" "window_ok k inc" "is64BitType t" "- k \<le> ofs" "ofs + 8 \<le> 16 + inc"
    and "ofs + 8 \<le> 0 \<or> 16 \<le> ofs"
  shows "\<exists>w. read_bytes 8 (fp + of_int ofs) (a_mem s) = Some w \<and> (\<forall>v. fr ofs t = Some v \<longrightarrow> w = v)"
proof -
  have "cells (fp + of_int ofs) 8 \<subseteq> dom (a_mem s)"
    using window_cells [of k ofs 8 inc fp] assms by (auto simp: linked_def)
  from read_bytes_total [OF this] obtain w where w: "read_bytes 8 (fp + of_int ofs) (a_mem s) = Some w" by blast
  moreover have "frame_rel fp k inc fr (a_mem s)" using assms(1) by (simp add: linked_def)
  then have "fr ofs t = Some v \<longrightarrow> w = v" for v using assms(3-6) w unfolding frame_rel_def by force
  ultimately show ?thesis by blast
qed

lemma get_sim:
  assumes l: "linked sc fp k inc x29 x30 rs fr m s" "window_ok k inc" "is64BitType t" "- k \<le> ofs" "ofs + 8 \<le> 16 + inc"
    "ofs + 8 \<le> 0 \<or> 16 \<le> ofs" and d: "usable sc d"
  shows "\<exists>s'. asm_run T (translateGetstack ofs t d) s = AFall s' \<and> linked sc fp k inc x29 x30 (rs(d := fr ofs t)) fr m s'"
proof -
  from slot_read [OF l] obtain w where w: "read_bytes 8 (fp + of_int ofs) (a_mem s) = Some w" "\<forall>v. fr ofs t = Some v \<longrightarrow> w = v" by blast
  from l(1) have "a_regs s X29 = fp" by (simp add: linked_def)
  with w(1) l(3) have "asm_run T (translateGetstack ofs t d) s = AFall (set_reg d w s)"
    by (simp add: translateGetstack_def load_to_def at_ofs_def size_of_def fall_or_wrong_def del: read_bytes.simps)
  moreover have "linked sc fp k inc x29 x30 (rs(d := fr ofs t)) fr m (set_reg d w s)"
    using w(2) by (intro linked_computed [OF l(1) d]) auto
  ultimately show ?thesis by blast
qed

lemma set_sim:
  assumes l: "linked sc fp k inc x29 x30 rs fr m s" "window_ok k inc" "- k \<le> ofs" "ofs + 8 \<le> 0" "is64BitType t" "usable sc r"
  shows "\<exists>s'. asm_run T (translateSetstack r ofs t) s = AFall s' \<and>
    linked sc fp k inc x29 x30 rs (frame_set (word_sem T E) ofs t (rs r) fr) m s'"
proof -
  from linked_slot [OF l, of T E] obtain am' where am': "write_bytes 8 (fp + of_int ofs) (a_regs s r) (a_mem s) = Some am'"
    "linked sc fp k inc x29 x30 rs (frame_set (word_sem T E) ofs t (rs r) fr) m (s\<lparr>a_mem := am'\<rparr>)" by blast
  from l(1) have "a_regs s X29 = fp" by (simp add: linked_def)
  with am'(1) l(5) have "asm_run T (translateSetstack r ofs t) s = AFall (s\<lparr>a_mem := am'\<rparr>)"
    by (simp add: translateSetstack_def store_from_def at_ofs_def size_of_def fall_or_wrong_def del: write_bytes.simps)
  with am'(2) show ?thesis by blast
qed

lemma op_sim:
  assumes l: "linked sc fp k inc x29 x30 rs fr m s" and fp: "t_stack T = fp"
    and ok: "asm_ok T E cc sc k inc out (Mop op args d)" and v: "eval_op (word_sem T E) op (map rs args) m = Some v"
    and code: "translateOperation op args d = Some is"
  shows "\<exists>s'. asm_run T is s = AFall s' \<and> linked sc fp k inc x29 x30 (rs(d := v)) fr m s'"
proof (cases "op = Omove")
  case True
  with v code obtain a where a: "args = [a]" "v = rs a" by (auto simp: eval_op_def arg1_Some split: list.splits)
  with True code have "asm_run T is s = AFall (set_reg d (a_regs s a) s)" by (auto simp: arg1_def fall_or_wrong_def)
  moreover have "linked sc fp k inc x29 x30 (rs(d := v)) fr m (set_reg d (a_regs s a) s)"
    using ok a l by (intro linked_computed [OF l]) (auto simp: linked_def regs_rel_def)
  ultimately show ?thesis by blast
next
  case False
  with v obtain ws w where w: "map rs args = map Some ws" "word_op T op ws = Some w" "v = Some w"
    by (auto simp: eval_op_def with_known_Some)
  have "map (a_regs s) args = ws" using l ok w(1) by (intro regs_rel_map) (auto simp: linked_def)
  with op_computed [OF code, of T s w] w ok l fp
  have "computes T is s d w (if scratch_op op then {X8} else {})"
    by (auto simp: linked_def list_all_iff usable_def)
  then obtain s' where s': "asm_run T is s = AFall s'" "a_regs s' d = w" "a_mem s' = a_mem s"
    "\<And>r. r \<noteq> d \<Longrightarrow> r \<notin> (if scratch_op op then {X8} else {}) \<Longrightarrow> a_regs s' r = a_regs s r" unfolding computes_def by blast
  have "linked sc fp k inc x29 x30 (rs(d := v)) fr m s'"
    using s' ok w(3) by (intro linked_computed [OF l]) (auto split: if_splits)
  with s'(1) show ?thesis by blast
qed

lemma load_sim:
  assumes l: "linked sc fp k inc x29 x30 rs fr m s" and fp: "t_stack T = fp"
    and ok: "asm_ok T E cc sc k inc out (Mload ch a args d)" and v: "sem_load (word_sem T E) ch a (map rs args) m = Some v"
    and code: "translateLoad ch a args d = Some is"
  shows "\<exists>s'. asm_run T is s = AFall s' \<and> linked sc fp k inc x29 x30 (rs(d := v)) fr m s'"
proof -
  from v obtain ws p w where w: "map rs args = map Some ws" "word_addr T a ws = Some p" "load_chunk ch p m = Some w" "v = Some w"
    by (auto simp: with_known_Some bind_eq_Some_conv)
  have "map (a_regs s) args = ws" using l ok w(1) by (intro regs_rel_map) (auto simp: linked_def)
  then obtain base ofs where b: "base_offset a args = Some (base, ofs)" "at_ofs s base ofs = p"
    using base_offset_address [of ch a T s args p] ok w(2) l fp by (auto simp: linked_def)
  have c: "ch \<noteq> Many32" using ok by (cases a) auto
  have "load_chunk ch p (a_mem s) = Some w" using l w(3) by (auto simp: linked_def intro: load_chunk_le)
  with load_of_exec [OF c, of s base ofs w d] b code have "asm_run T is s = AFall (set_reg d w s)"
    by (auto simp: translateLoad_def fall_or_wrong_def)
  moreover have "linked sc fp k inc x29 x30 (rs(d := v)) fr m (set_reg d w s)"
    using ok w(4) by (intro linked_computed [OF l]) auto
  ultimately show ?thesis by blast
qed

lemma store_sim:
  assumes l: "linked sc fp k inc x29 x30 rs fr m s" "window_ok k inc" and fp: "t_stack T = fp"
    and ok: "asm_ok T E cc sc k inc out (Mstore ch a args src)"
    and v: "sem_store (word_sem T E) ch a (map rs args) (rs src) m = Some m'"
    and code: "translateStore ch a args src = Some is"
  shows "\<exists>s'. asm_run T is s = AFall s' \<and> linked sc fp k inc x29 x30 rs fr m' s'"
proof -
  from v obtain ws p w where w: "rs src = Some w" "map rs args = map Some ws" "word_addr T a ws = Some p" "store_chunk ch p w m = Some m'"
    by (auto simp: with_known_Some bind_eq_Some_conv Cons_eq_map_conv)
  have "map (a_regs s) args = ws" using l ok w(2) by (intro regs_rel_map) (auto simp: linked_def)
  then obtain base ofs where b: "base_offset a args = Some (base, ofs)" "at_ofs s base ofs = p"
    using base_offset_address [of ch a T s args p] ok w(3) l fp by (auto simp: linked_def)
  have c: "ch \<noteq> Many32" using ok by (cases a) auto
  have src: "a_regs s src = w" using l ok w(1) by (auto simp: linked_def regs_rel_def)
  from l have le: "m \<subseteq>\<^sub>m a_mem s" by (simp add: linked_def)
  from write_bytes_le [OF le w(4) [unfolded store_chunk_def]] obtain am' where
    am': "write_bytes (chunk_size ch) p w (a_mem s) = Some am'" "m' \<subseteq>\<^sub>m am'" "cells p (chunk_size ch) \<subseteq> dom m" by blast
  have "asm_run T is s = AFall (s\<lparr>a_mem := am'\<rparr>)"
    using store_of_exec [OF c, of s base ofs src am'] am'(1) b code src
    by (auto simp: translateStore_def fall_or_wrong_def store_chunk_def)
  moreover have "linked sc fp k inc x29 x30 rs fr m' (s\<lparr>a_mem := am'\<rparr>)"
  proof (rule linked_memory [OF l am'(2)])
    fix p' assume "p' \<in> window fp k inc"
    with l am'(3) have "p' \<notin> cells p (chunk_size ch)" by (auto simp: linked_def)
    with write_bytes_other [OF am'(1)] show "am' p' = a_mem s p'" by simp
  qed (use write_bytes_dom w(4) am'(1) in \<open>auto simp: store_chunk_def\<close>)
  ultimately show ?thesis by blast
qed

lemma call_sim:
  assumes l: "linked sc fp k inc x29 x30 rs fr m s" and w: "window_ok k inc" and out: "int out \<le> k"
    and ok: "asm_ok T E cc sc k inc (int out) (Mcall sg fn)" and callee: "callees_ok E cc acall out"
    and v: "mach_effect (word_sem T E) cc (- k) (int out) (Mcall sg fn) rs fr m = MFall rs' fr' m'"
  shows "\<exists>s'. (asm_step T acall code)\<^sup>*\<^sup>* (ACode (translateCall fn @ c) s) (ACode c s') \<and> linked sc fp k inc x29 x30 rs' fr' m' s'"
proof -
  let ?fv = "mach_fun_value rs fn" and ?k = "cc (map_funRef R fn)"
  have k: "reg_args cc ?fv = ?k" using ok by (cases fn) (auto simp: mach_fun_value_def)
  let ?vs = "map (mach_arg ?k (- k) rs fr) [0..<sem_arity E sg ?fv m]"
  from v obtain v where v: "sem_call E sg ?fv ?vs m = Some (v, m')" "rs' = regs_after_call (word_sem T E) v rs"
    "fr' = frame_after_call (word_sem T E) (- k) (int out) fr" by (auto split: option.splits)
  have "\<forall>i<length ?vs. arg_at ?k s i (?vs ! i)"
    using linked_args [OF l w out, of ?k "sem_arity E sg ?fv m"] ok by auto
  moreover define afv where "afv = (case fn of FunReg r \<Rightarrow> FV_ptr (a_regs s r) | FunSymbol sy \<Rightarrow> FV_sym sy)"
  have "same_fun ?fv afv"
    using l ok by (auto simp: afv_def mach_fun_value_def linked_def regs_rel_def split: funRef.splits)
  ultimately obtain s' where s': "acall afv s = Some s'" "linked sc fp k inc x29 x30 rs' fr' m' s'"
    using linked_call [OF l w out callee v(1), of afv T] v(2,3) k by auto
  have "asm_step T acall code (ACode (translateCall fn @ c) s) (ACode c s')"
    using s'(1) by (cases fn) (auto simp: afv_def intro!: asm_call)
  with s'(2) show ?thesis by blast
qed

lemma run_sim: "\<exists>s'. asm_run T is s = AFall s' \<and> P s' \<Longrightarrow> \<exists>s'. (asm_step T acall code)\<^sup>*\<^sup>* (ACode (is @ c) s) (ACode c s') \<and> P s'"
  by (blast intro: asm_run_steps)

lemma fall_sim:
  assumes l: "linked sc fp k inc x29 x30 rs fr m s" and w: "window_ok k inc" and out: "int out \<le> k" and fp: "t_stack T = fp"
    and ok: "asm_ok T E cc sc k inc (int out) i" and callee: "callees_ok E cc acall out"
    and v: "mach_effect (word_sem T E) cc (- k) (int out) i rs fr m = MFall rs' fr' m'" and code: "translateInstruction f i = Some is"
  shows "\<exists>s'. (asm_step T acall code)\<^sup>*\<^sup>* (ACode (is @ c) s) (ACode c s') \<and> linked sc fp k inc x29 x30 rs' fr' m' s'"
proof (cases i)
  case (Mgetstack ofs t d)
  with v code get_sim [OF l w, of t ofs d T] ok w show ?thesis by (intro run_sim) (auto simp: window_ok_def)
next
  case (Msetstack r ofs t)
  with v code set_sim [OF l w, of ofs t r T E] ok show ?thesis by (intro run_sim) auto
next
  case (Mgetparam ofs t d)
  with v code get_sim [OF l w, of t ofs d T] ok w show ?thesis
    by (intro run_sim) (auto simp: window_ok_def translateGetparam_def translateGetstack_def)
next
  case (Mop op args d)
  with v code op_sim [OF l fp, of E cc "int out" op args d _ "is"] ok show ?thesis
    by (intro run_sim) (auto split: option.splits)
next
  case (Mload ch a args d)
  with v code load_sim [OF l fp, of E cc "int out" ch a args d _ "is"] ok show ?thesis
    by (intro run_sim) (auto split: option.splits simp del: word_sem_simps)
next
  case (Mstore ch a args src)
  with v code store_sim [OF l w fp, of E cc "int out" ch a args src _ "is"] ok show ?thesis
    by (intro run_sim) (auto split: option.splits simp del: word_sem_simps)
next
  case (Mcall sg fn)
  with call_sim [OF l w out _ callee, of T sg fn] ok v code show ?thesis by auto
next
  case (Mlabel lbl)
  with v code l show ?thesis by (intro run_sim) auto
next
  case (Mcond cnd args lbl)
  with v obtain ws where ws: "map rs args = map Some ws" "word_cond T cnd ws = Some False" "rs' = rs" "fr' = fr" "m' = m"
    by (auto simp: with_known_Some split: option.splits bool.splits)
  have "map (a_regs s) args = ws" using l ok ws(1) Mcond by (intro regs_rel_map) (auto simp: linked_def)
  with cond_run [of T cnd s args False "mach_name f" lbl] ws ok Mcond
  obtain fl where "asm_run T (translateCond (mach_name f) cnd args lbl) s = AFall (set_flags fl s)" by auto
  with Mcond code ws l show ?thesis by (intro run_sim) (auto intro: linked_same)
qed (use v ok in \<open>auto split: option.splits\<close>)

lemma jump_sim:
  assumes l: "linked sc fp k inc x29 x30 rs fr m s" and ok: "asm_ok T E cc sc k inc out i"
    and v: "mach_effect (word_sem T E) cc (- k) out i rs fr m = MJump lbl" and code: "translateInstruction f i = Some is"
    and target: "asm_find_label (machLabelToAsm (mach_name f) lbl) acode = Some c'"
  shows "\<exists>s'. (asm_step T acall acode)\<^sup>+\<^sup>+ (ACode (is @ c) s) (ACode c' s') \<and> linked sc fp k inc x29 x30 rs fr m s'"
proof -
  have "asm_run T is s = AJump (machLabelToAsm (mach_name f) lbl) \<and> list_all (keeps_state T) is"
  proof (cases i)
    case (Mgoto l')
    with v code show ?thesis by (auto simp: keeps_state_def)
  next
    case (Mcond cnd args l')
    with v obtain ws where ws: "map rs args = map Some ws" "word_cond T cnd ws = Some True" "l' = lbl"
      by (auto simp: with_known_Some split: option.splits bool.splits)
    have "map (a_regs s) args = ws" using l ok ws(1) Mcond by (intro regs_rel_map) (auto simp: linked_def)
    with cond_run [of T cnd s args True "mach_name f" lbl] ws ok Mcond code keeps_cond show ?thesis by auto
  next
    case (Mjumptable r ts)
    with v have j: "jump_entry (word_sem T E) (rs r) ts = Some lbl" by (auto split: option.splits)
    then obtain w where w: "rs r = Some w" "unat w < length ts" "ts ! unat w = lbl"
      by (auto simp: jump_entry_def word_index_def split: option.splits if_splits)
    with l ok Mjumptable have "a_regs s r = w" by (auto simp: linked_def regs_rel_def)
    with w ok Mjumptable code jumptable_run [of 0 s r ts T "mach_name f"] keeps_jumptable show ?thesis
      by (auto simp: translateJumptable_def)
  qed (use v in \<open>auto split: option.splits prod.splits\<close>)
  with asm_run_jump [of T "is" s _ acode c' acall c] target l show ?thesis by (blast intro: linked_same)
qed

text \<open>The epilogue restores the frame record and the stack pointer and returns.\<close>

lemma epilogue_sim:
  assumes l: "linked sc fp k inc x29 x30 rs fr m s" and n: "n = k + 16" "0 < n"
  shows "\<exists>s'. (asm_step T acall code)\<^sup>+\<^sup>+ (ACode (generateEpilogue n @ c) s) (AFinal None s') \<and> a_mem s' = a_mem s \<and>
    a_regs s' = (a_regs s)(X29 := x29, X30 := x30, SP := fp + 16)"
proof -
  define s1 where "s1 = set_reg X30 x30 (set_reg X29 x29 s)"
  define s2 where "s2 = set_reg SP (fp + 16) s1"
  have "at_ofs s SP (n - 16) = fp" using l n by (simp add: at_ofs_def linked_def)
  then have e1: "asm_effect T (Load (LDP X29 X30 SP (n - 16) True)) s = AFall s1"
    using l by (simp add: load_pair_def size_of_def fall_or_wrong_def linked_def s1_def del: read_bytes.simps)
  have "a_regs s1 SP = fp - of_int k" using l by (simp add: s1_def linked_def)
  then have e2: "asm_effect T (Data (ADDi SP SP n True)) s1 = AFall s2" by (simp add: alu2_def s2_def n)
  have "(asm_step T acall code)\<^sup>*\<^sup>* (ACode (generateEpilogue n @ c) s) (ACode (Branch RET # c) s2)"
    using n(2) e1 e2 asm_run_steps [of T "[Load (LDP X29 X30 SP (n - 16) True), Data (ADDi SP SP n True)]" s s2 acall code]
    by (simp add: generateEpilogue_def Let_def del: asm_effect.simps)
  moreover have "asm_step T acall code (ACode (Branch RET # c) s2) (AFinal None s2)" by (rule asm_ret) simp
  ultimately have "(asm_step T acall code)\<^sup>+\<^sup>+ (ACode (generateEpilogue n @ c) s) (AFinal None s2)"
    by (rule rtranclp_into_tranclp1)
  then show ?thesis by (intro exI [of _ s2]) (auto simp: s1_def s2_def)
qed

section \<open>Functions\<close>

fun asm_match ::
  "target \<Rightarrow> (val, mem) sem \<Rightarrow> (loc funRef \<Rightarrow> nat) \<Rightarrow> bool \<Rightarrow> w64 \<Rightarrow> int \<Rightarrow> int \<Rightarrow> nat \<Rightarrow> w64 \<Rightarrow> w64 \<Rightarrow>
   mach_function \<Rightarrow> (val, mem) mach_state \<Rightarrow> asm_state \<Rightarrow> bool" where
  "asm_match T E cc sc fp k inc out x29 x30 f (MCode c rs fr m) (ACode body s) \<longleftrightarrow>
     translate_body f c = Some body \<and> code_ok (asm_ok T E cc sc k inc (int out)) c \<and> linked sc fp k inc x29 x30 rs fr m s"
| "asm_match T E cc sc fp k inc out x29 x30 f (MFinal r rs) (AFinal None s) \<longleftrightarrow>
     (\<exists>v m. r = Returned v m \<and> (\<forall>w. v = Some w \<longrightarrow> a_regs s IntReturnReg = w) \<and> m \<subseteq>\<^sub>m a_mem s) \<and>
     regs_rel sc rs (a_regs s) \<and> a_regs s X29 = x29 \<and> a_regs s X30 = x30 \<and> a_regs s SP = fp + 16"
| "asm_match T E cc sc fp k inc out x29 x30 f _ _ \<longleftrightarrow> False"

definition asm_setup ::
  "target \<Rightarrow> (val, mem) sem \<Rightarrow> (loc funRef \<Rightarrow> nat) \<Rightarrow> bool \<Rightarrow> w64 \<Rightarrow> int \<Rightarrow> int \<Rightarrow> nat \<Rightarrow> mach_function \<Rightarrow> asm_instr list \<Rightarrow>
   (w64 funVal \<Rightarrow> astate \<Rightarrow> astate option) \<Rightarrow> bool" where
  "asm_setup T E cc sc fp k inc out f acode acall \<longleftrightarrow>
     window_ok k inc \<and> int out \<le> k \<and> t_stack T = fp \<and> callees_ok E cc acall out \<and> mach_stacksize f = k + 16 \<and>
     code_ok (asm_ok T E cc sc k inc (int out)) (drop (countPrologueInstructions (mach_code f)) (mach_code f)) \<and>
     (\<exists>body. translate_body f (drop (countPrologueInstructions (mach_code f)) (mach_code f)) = Some body \<and>
        acode = generatePrologue (k + 16) @ body)"

lemma return_sim:
  assumes l: "linked sc fp k inc x29 x30 rs fr m s" and n: "mach_stacksize f = k + 16" "window_ok k inc"
  shows "\<exists>t. (asm_step T acall code)\<^sup>+\<^sup>+ (ACode (generateEpilogue (mach_stacksize f) @ c) s) t \<and>
    asm_match T E cc sc fp k inc out x29 x30 f (MFinal (Returned (rs IntReturnReg) m) rs) t"
proof -
  have "0 < mach_stacksize f" using n by (simp add: window_ok_def)
  from epilogue_sim [OF l n(1) this, of T acall code c] obtain s' where
    s': "(asm_step T acall code)\<^sup>+\<^sup>+ (ACode (generateEpilogue (mach_stacksize f) @ c) s) (AFinal None s')" "a_mem s' = a_mem s"
    "a_regs s' = (a_regs s)(X29 := x29, X30 := x30, SP := fp + 16)" by blast
  moreover have "regs_rel sc rs (a_regs s')" using l s'(3) by (auto simp: linked_def regs_rel_def usable_def)
  moreover from this have "\<forall>w. rs IntReturnReg = Some w \<longrightarrow> a_regs s' IntReturnReg = w" by (auto simp: regs_rel_def usable_def)
  moreover have "m \<subseteq>\<^sub>m a_mem s'" using l s'(2) by (simp add: linked_def)
  ultimately show ?thesis by (intro exI [of _ "AFinal None s'"]) auto
qed

lemma asm_match_step:
  assumes su: "asm_setup T E cc sc fp k inc out f acode acall"
    and R: "asm_match T E cc sc fp k inc out x29 x30 f s t" and step: "mach_step (word_sem T E) cc (- k) (int out) (mach_code f) s s'"
  shows "(\<exists>t'. (asm_step T acall acode)\<^sup>+\<^sup>+ t t' \<and> asm_match T E cc sc fp k inc out x29 x30 f s' t') \<or>
    (asm_match T E cc sc fp k inc out x29 x30 f s' t \<and>
     (case s' of MCode c _ _ _ \<Rightarrow> length c | _ \<Rightarrow> 0) < (case s of MCode c _ _ _ \<Rightarrow> length c | _ \<Rightarrow> 0))"
  using step
proof cases
  case (mach_fall i c rs fr m rs' fr' m')
  with R obtain "is" rest st where t: "translateInstruction f i = Some is" "translate_body f c = Some rest" "t = ACode (is @ rest) st"
    and l: "linked sc fp k inc x29 x30 rs fr m st" and ok: "asm_ok T E cc sc k inc (int out) i" "code_ok (asm_ok T E cc sc k inc (int out)) c"
    by (cases t) (auto simp: translate_body_step bind_eq_Some_conv)
  from fall_sim [OF l _ _ _ ok(1) _ mach_fall(4) t(1), of acall acode rest] su obtain st' where
    st': "(asm_step T acall acode)\<^sup>*\<^sup>* (ACode (is @ rest) st) (ACode rest st')" "linked sc fp k inc x29 x30 rs' fr' m' st'"
    by (auto simp: asm_setup_def)
  then have m: "asm_match T E cc sc fp k inc out x29 x30 f (MCode c rs' fr' m') (ACode rest st')" using t ok by simp
  from rtranclpD [OF st'(1)] show ?thesis
  proof
    assume "ACode (is @ rest) st = ACode rest st'" with m t mach_fall show ?thesis by auto
  next
    assume "ACode (is @ rest) st \<noteq> ACode rest st' \<and> (asm_step T acall acode)\<^sup>+\<^sup>+ (ACode (is @ rest) st) (ACode rest st')"
    with m t mach_fall show ?thesis by auto
  qed
next
  case (mach_jump i rs fr m lbl c' c)
  have ne: "\<not> isEpilogueStart (i # c)" using mach_jump(3) by (auto dest: isEpilogueStart_falls)
  with R mach_jump obtain "is" rest st where t: "translateInstruction f i = Some is" "translate_body f c = Some rest" "t = ACode (is @ rest) st"
    and l: "linked sc fp k inc x29 x30 rs fr m st" and ok: "asm_ok T E cc sc k inc (int out) i"
    by (cases t) (auto simp: translate_body_step bind_eq_Some_conv)
  from su obtain body where b: "translate_body f (drop (countPrologueInstructions (mach_code f)) (mach_code f)) = Some body"
    "acode = generatePrologue (k + 16) @ body" "code_ok (asm_ok T E cc sc k inc (int out)) (drop (countPrologueInstructions (mach_code f)) (mach_code f))"
    by (auto simp: asm_setup_def)
  from translated_label [OF b(1,3), of lbl c'] mach_jump(4) obtain body' where
    b': "asm_find_label (machLabelToAsm (mach_name f) lbl) acode = Some body'" "translate_body f c' = Some body'"
    "code_ok (asm_ok T E cc sc k inc (int out)) c'" by (auto simp: find_label_prologue b(2) asm_find_label_skip)
  from jump_sim [OF l ok mach_jump(3) t(1) b'(1), of acall rest] b' t mach_jump show ?thesis by auto
next
  case (mach_stop i rs fr m r c)
  have ne: "\<not> isEpilogueStart (i # c)" using mach_stop(3) by (auto dest: isEpilogueStart_falls)
  with R mach_stop obtain "is" rest st where t: "translateInstruction f i = Some is" "t = ACode (is @ rest) st"
    and l: "linked sc fp k inc x29 x30 rs fr m st" and ok: "asm_ok T E cc sc k inc (int out) i"
    by (cases t) (auto simp: translate_body_step bind_eq_Some_conv)
  have i: "i = Mreturn \<and> r = Returned (rs IntReturnReg) m"
    using mach_stop(3) ok by (cases i) (simp_all split: option.splits prod.splits bool.splits)
  from return_sim [OF l, of f T acall acode rest] su i t mach_stop show ?thesis by (auto simp: asm_setup_def)
next
  case (mach_epilogue c rs fr m)
  then obtain i c' where c: "c = i # c'" by (cases c) auto
  with R mach_epilogue obtain rest st where t: "t = ACode (generateEpilogue (mach_stacksize f) @ rest) st"
    and l: "linked sc fp k inc x29 x30 rs fr m st"
    by (cases t) (auto simp: translate_body_epilogue)
  from return_sim [OF l, of f T acall acode rest] su t mach_epilogue show ?thesis by (auto simp: asm_setup_def)
qed

text \<open>
  What the outcome of the Mach code says of the state in which the assembly code returns to its caller:
  the result in \<open>X0\<close> and the memory, where they are defined, and the registers that a function must
  keep as they were on entry, in \<open>s0\<close>.
\<close>

definition asm_result :: "astate \<Rightarrow> (val, mem) outcome \<Rightarrow> w64 funVal option \<times> astate \<Rightarrow> bool" where
  "asm_result s0 r q \<longleftrightarrow> fst q = None \<and>
     (\<exists>v m. r = Returned v m \<and> (\<forall>w. v = Some w \<longrightarrow> a_regs (snd q) IntReturnReg = w) \<and> m \<subseteq>\<^sub>m a_mem (snd q)) \<and>
     (\<forall>x. IsCalleeSaved x \<or> x = X29 \<or> x = X30 \<or> x = SP \<longrightarrow> a_regs (snd q) x = a_regs s0 x)"

lemma callee_saved_usable: "IsCalleeSaved x \<Longrightarrow> usable sc x"
  by (auto simp: IsCalleeSaved_iff usable_def)

lemma asm_match_final:
  assumes "asm_match T E cc sc fp k inc out x29 x30 f (MFinal r rs) t"
  obtains s where "t = AFinal None s"
  using assms by (rule asm_match.elims) auto

interpretation asmgen: fsim_rel "mach_step (word_sem T E) cc (- k) (int out) (mach_code f)" "mach_final (\<lambda>r. Some (a_regs s0 r))"
  "asm_step T acall acode" asm_final
  "\<lambda>s t. asm_setup T E cc sc fp k inc out f acode acall \<and> a_regs s0 SP = fp + 16 \<and>
     asm_match T E cc sc fp k inc out (a_regs s0 X29) (a_regs s0 X30) f s t"
  "\<lambda>s. case s of MCode c _ _ _ \<Rightarrow> length c | _ \<Rightarrow> 0" "asm_result s0"
  for T E cc k out f s0 acall acode sc fp inc
proof (unfold_locales, goal_cases)
  case (1 s t s')
  then show ?case using asm_match_step [of T E cc sc fp k inc out f acode acall _ _ s t s'] by blast
next
  case (2 s t r)
  then obtain q rs where s: "s = MFinal q rs" "q = r" "\<forall>x. IsCalleeSaved x \<longrightarrow> rs x = Some (a_regs s0 x)"
    by (cases s) auto
  with 2 obtain st where t: "t = AFinal None st" by (auto elim: asm_match_final)
  have "asm_result s0 r (None, st)"
    using 2 s t by (auto simp: asm_result_def regs_rel_def callee_saved_usable)
  with t show ?case by (intro exI [of _ t] exI [of _ "(None, st)"]) simp
qed

text \<open>On entry the frame holds the arguments that the caller put on the stack.\<close>

definition entry_frame :: "w64 \<Rightarrow> int \<Rightarrow> mem \<Rightarrow> val frame" where
  "entry_frame fp inc am = (\<lambda>ofs t. if is64BitType t \<and> 16 \<le> ofs \<and> ofs + 8 \<le> 16 + inc
     then read_bytes 8 (fp + of_int ofs) am else None)"

lemma prologue_run:
  assumes "window_ok k inc" "a_regs s0 SP = fp + 16" "m \<subseteq>\<^sub>m a_mem s0" "window fp k inc \<subseteq> dom (a_mem s0) - dom m"
  shows "\<exists>s. asm_run T (generatePrologue (k + 16)) s0 = AFall s \<and>
    linked sc fp k inc (a_regs s0 X29) (a_regs s0 X30) (\<lambda>r. Some (a_regs s0 r)) (entry_frame fp inc (a_mem s0)) m s"
proof -
  have w: "window fp k inc \<subseteq> dom (a_mem s0)" using assms(4) by auto
  have b: "- k \<le> 0" "0 + 8 \<le> 16 + inc" "- k \<le> 8" "8 + 8 \<le> 16 + inc" using assms(1) by (auto simp: window_ok_def)
  obtain m1 where m1: "write_bytes 8 (fp + of_int 0) (a_regs s0 X29) (a_mem s0) = Some m1" "dom m1 = dom (a_mem s0)"
    "read_bytes 8 (fp + of_int 0) m1 = Some (a_regs s0 X29)" "\<And>p. p \<notin> cells (fp + of_int 0) 8 \<Longrightarrow> m1 p = a_mem s0 p"
    by (rule write_in_window [OF assms(1) b(1,2) w]) blast
  from m1(2) w have w1: "window fp k inc \<subseteq> dom m1" by simp
  obtain m2 where m2: "write_bytes 8 (fp + of_int 8) (a_regs s0 X30) m1 = Some m2" "dom m2 = dom m1"
    "read_bytes 8 (fp + of_int 8) m2 = Some (a_regs s0 X30)" "\<And>p. p \<notin> cells (fp + of_int 8) 8 \<Longrightarrow> m2 p = m1 p"
    by (rule write_in_window [OF assms(1) b(3,4) w1]) blast
  define s1 where "s1 = set_reg SP (fp - of_int k) s0"
  define s2 where "s2 = set_reg X29 fp (s1\<lparr>a_mem := m2\<rparr>)"
  have "at_ofs s1 SP k = fp" by (simp add: s1_def at_ofs_def)
  then have run: "asm_run T (generatePrologue (k + 16)) s0 = AFall s2"
    using assms(1,2) m1(1) m2(1)
    by (simp add: generatePrologue_def Let_def alu2_def s1_def s2_def store_pair_def store_from_def size_of_def
        fall_or_wrong_def window_ok_def del: write_bytes.simps)
  have apart: "cells (fp + of_int o1) 8 \<inter> cells (fp + of_int o2) 8 = {}"
    if "- k \<le> o1" "o1 + 8 \<le> 16 + inc" "- k \<le> o2" "o2 + 8 \<le> 16 + inc" "\<not> share o1 8 o2 8" for o1 o2
    using window_apart [OF assms(1) that(1), of 8 o2 8 fp] that by simp
  have same: "read_bytes 8 (fp + of_int ofs) m2 = read_bytes 8 (fp + of_int ofs) (a_mem s0)"
    if "16 \<le> ofs" "ofs + 8 \<le> 16 + inc" for ofs
  proof (rule read_bytes_cong)
    fix p assume p: "p \<in> cells (fp + of_int ofs) 8"
    have "p \<notin> cells (fp + of_int 8) 8" "p \<notin> cells (fp + of_int 0) 8"
      using p apart [of ofs 8] apart [of ofs 0] that b by (auto simp: share_def)
    then show "m2 p = a_mem s0 p" using m1(4) m2(4) by simp
  qed
  have "read_bytes 8 (fp + of_int 0) m2 = Some (a_regs s0 X29)"
    using apart [of 0 8] b m1(3) by (subst read_bytes_cong [of _ _ m2 m1]) (auto simp: share_def intro!: m2(4))
  moreover have "m \<subseteq>\<^sub>m m2"
  proof -
    have "p \<notin> cells (fp + of_int 8) 8 \<and> p \<notin> cells (fp + of_int 0) 8" if "p \<in> dom m" for p
      using window_cells [of k 8 8 inc fp] window_cells [of k 0 8 inc fp] b assms(4) that by auto
    with m1(4) m2(4) assms(3) show ?thesis by (simp add: map_le_def)
  qed
  ultimately have "linked sc fp k inc (a_regs s0 X29) (a_regs s0 X30) (\<lambda>r. Some (a_regs s0 r)) (entry_frame fp inc (a_mem s0)) m s2"
    using m2(2,3) m1(2) assms(4) same
    by (auto simp: linked_def regs_rel_def usable_def s1_def s2_def frame_rel_def entry_frame_def split: if_splits)
  with run show ?thesis by blast
qed

lemma asmgen_preserves:
  assumes "asmgen_transformFunction f = Some g" and su: "asm_setup T E cc sc fp k inc out f (asm_code g) acall"
    and e: "a_regs s0 SP = fp + 16" "m \<subseteq>\<^sub>m a_mem s0" "window fp k inc \<subseteq> dom (a_mem s0) - dom m"
    and b: "behaves (mach_step (word_sem T E) cc (- k) (int out) (mach_code f)) (mach_final (\<lambda>r. Some (a_regs s0 r)))
      (MCode (drop (countPrologueInstructions (mach_code f)) (mach_code f)) (\<lambda>r. Some (a_regs s0 r))
        (entry_frame fp inc (a_mem s0)) m) b" "b \<noteq> Goes_wrong"
  shows "\<exists>b'. rel_behaviour (asm_result s0) b b' \<and> behaves (asm_step T acall (asm_code g)) asm_final (ACode (asm_code g) s0) b'"
proof -
  let ?c = "drop (countPrologueInstructions (mach_code f)) (mach_code f)"
  from su obtain body where body: "translate_body f ?c = Some body" "asm_code g = generatePrologue (k + 16) @ body"
    by (auto simp: asm_setup_def)
  from prologue_run [OF _ e, of T sc] su obtain s where
    s: "asm_run T (generatePrologue (k + 16)) s0 = AFall s"
    "linked sc fp k inc (a_regs s0 X29) (a_regs s0 X30) (\<lambda>r. Some (a_regs s0 r)) (entry_frame fp inc (a_mem s0)) m s"
    by (auto simp: asm_setup_def)
  have "asm_match T E cc sc fp k inc out (a_regs s0 X29) (a_regs s0 X30) f
      (MCode ?c (\<lambda>r. Some (a_regs s0 r)) (entry_frame fp inc (a_mem s0)) m) (ACode body s)"
    using su body(1) s(2) by (simp add: asm_setup_def)
  with asmgen.rel_preserved [OF _ b] su e(1) obtain b' where
    "rel_behaviour (asm_result s0) b b'" "behaves (asm_step T acall (asm_code g)) asm_final (ACode body s) b'" by blast
  with asm_run_steps [OF s(1), of acall "asm_code g" body] body(2) show ?thesis by (metis behaves_star)
qed

text \<open>
  Property C6. The assembly code of a function does what its Mach code does. Let the generator translate
  a function with a frame of \<open>k + 16\<close> bytes whose instructions it handles (\<open>asm_ok\<close>: slots of eight bytes inside
  the frame, the operations, accesses and conditions that are translated faithfully, neither the frame, link
  and stack registers nor an overwritten scratch register as operands, arguments that fit, no tail calls and
  no builtins), and let the functions it calls keep to the calling convention (\<open>callees_ok\<close>). Start the assembly code with the stack pointer just above the
  place of the frame, which the program's memory does not use. Then every terminating or diverging run
  of the Mach code is a run of the assembly code from its first instruction on. When the function
  returns, the result is in \<open>X0\<close>, the memory holds what the Mach memory holds, and the callee-saved
  registers, the frame pointer, the link register and the stack pointer have the values they had on entry.
\<close>

theorem asmgen_correct:
  assumes "asmgen_transformFunction f = Some g" and "mach_stacksize f = k + 16"
    and "window_ok k inc" and "int out \<le> k" and "t_stack T = fp" and "callees_ok E cc acall out"
    and "code_ok (asm_ok T E cc sc k inc (int out)) (drop (countPrologueInstructions (mach_code f)) (mach_code f))"
    and "a_regs s0 SP = fp + 16" and "m \<subseteq>\<^sub>m a_mem s0" and "window fp k inc \<subseteq> dom (a_mem s0) - dom m"
    and "behaves (mach_step (word_sem T E) cc (- k) (int out) (mach_code f)) (mach_final (\<lambda>r. Some (a_regs s0 r)))
      (MCode (drop (countPrologueInstructions (mach_code f)) (mach_code f)) (\<lambda>r. Some (a_regs s0 r))
        (entry_frame fp inc (a_mem s0)) m) b" and "b \<noteq> Goes_wrong"
  shows "\<exists>b'. rel_behaviour (asm_result s0) b b' \<and> behaves (asm_step T acall (asm_code g)) asm_final (ACode (asm_code g) s0) b'"
proof -
  have "asm_setup T E cc sc fp k inc out f (asm_code g) acall"
    using assms(1-7) by (auto simp: asm_setup_def asmgen_transformFunction_def)
  then show ?thesis by (rule asmgen_preserves [OF assms(1) _ assms(8-12)])
qed

text \<open>
  A function that calls another one and adds five to its result, with the frame that the stacking pass gives
  it; the function that it calls adds one to its argument.
\<close>

definition add_five :: mach_function where
  "add_five = \<lparr>mach_name = ''f'', mach_sig = \<lparr>sig_args = [''int''], sig_return = ''int'', sig_vararg = False\<rparr>,
     mach_code =
       [Mop (Olong (Oaddlimm (- 16))) [] X29, Msetstack X29 0 Tlong, Msetstack X30 8 Tlong, Mop (Olong (Oaddlimm 0)) [] X29,
        Mcall \<lparr>sig_args = [''int''], sig_return = ''int'', sig_vararg = False\<rparr> (FunSymbol ''g''),
        Mop (Oarith (Oaddimm 5)) [X0] X0,
        Mgetstack 0 Tlong X29, Mgetstack 8 Tlong X30, Mop (Olong (Oaddlimm 16)) [] X29, Mreturn],
     mach_stacksize = 16, mach_calleeSaveRegs = [], mach_usesFramePtr = True\<rparr>"

definition add_five_asm :: "asm_instr list" where
  "add_five_asm =
     [Data (SUBi SP SP 16 True), Store (STP X29 X30 SP 0 True), Data (ADDi X29 SP 0 True),
      Branch (BL ''g'' True), Data (ADDi X0 X0 5 False),
      Load (LDP X29 X30 SP 0 True), Data (ADDi SP SP 16 True), Branch RET]"

definition increment_sem :: "(val, mem) sem" where
  "increment_sem = \<lparr>sem_op = (\<lambda>_ _ _. None), sem_load = (\<lambda>_ _ _ _. None), sem_store = (\<lambda>_ _ _ _ _. None),
     sem_cond = (\<lambda>_ _ _. None), sem_index = (\<lambda>_. None), sem_arity = (\<lambda>_ _ _. 1),
     sem_call = (\<lambda>_ fv vs m. case (fv, vs) of (FV_sym sy, [Some w]) \<Rightarrow> if sy = ''g'' then Some (Some (w + 1), m) else None | _ \<Rightarrow> None),
     sem_builtin = (\<lambda>_ _ _. None), sem_undef = None\<rparr>"

definition increment_call :: "w64 funVal \<Rightarrow> astate \<Rightarrow> astate option" where
  "increment_call fv s = (if fv = FV_sym ''g'' then Some (set_reg X0 (a_regs s X0 + 1) s) else None)"

lemma increment_callees: "cc (FunSymbol ''g'') = 8 \<Longrightarrow> callees_ok increment_sem cc increment_call out"
  by (auto simp: callees_ok_def call_ok_def increment_sem_def increment_call_def arg_at_def IsCalleeSaved_iff
      split: funVal.splits list.splits option.splits if_splits)

lemma add_five_translated:
  "asmgen_transformFunction add_five = Some \<lparr>asm_name = ''f'', asm_code = add_five_asm, asm_size = 0\<rparr>"
  by (simp add: asmgen_transformFunction_def add_five_def add_five_asm_def countPrologueInstructions_def translate_body_step
      translate_body_epilogue generatePrologue_def generateEpilogue_def arg1_def numeral_eq_Suc)

lemma add_five_runs:
  "behaves (mach_step (word_sem T increment_sem) (\<lambda>_. 8) sp out (mach_code add_five)) (mach_final (\<lambda>r. Some (a_regs counting_state r)))
     (MCode (drop 4 (mach_code add_five)) (\<lambda>r. Some (a_regs counting_state r)) fr Map.empty) (Terminates (Returned (Some (zx 6)) Map.empty))"
proof -
  let ?step = "mach_step (word_sem T increment_sem) (\<lambda>_. 8) sp out (mach_code add_five)"
  let ?rs = "\<lambda>r. Some (a_regs counting_state r)"
  define rs1 where "rs1 = regs_after_call (word_sem T increment_sem) (Some 1) ?rs"
  define fr1 where "fr1 = frame_after_call (word_sem T increment_sem) sp out fr"
  define rs where "rs = rs1(X0 := Some (zx 6))"
  have c: "drop 4 (mach_code add_five) =
      Mcall \<lparr>sig_args = [''int''], sig_return = ''int'', sig_vararg = False\<rparr> (FunSymbol ''g'') # drop 5 (mach_code add_five)"
    "drop 5 (mach_code add_five) = Mop (Oarith (Oaddimm 5)) [X0] X0 # drop 6 (mach_code add_five)"
    "isEpilogueStart (drop 6 (mach_code add_five))" by (simp_all add: add_five_def numeral_eq_Suc)
  have X0: "a_regs counting_state X0 = 0" by (simp add: counting_state_def)
  have s1: "?step (MCode (drop 4 (mach_code add_five)) ?rs fr Map.empty) (MCode (drop 5 (mach_code add_five)) rs1 fr1 Map.empty)"
    unfolding c(1) by (rule mach_fall)
      (simp_all add: c(2) rs1_def fr1_def increment_sem_def mach_fun_value_def mach_arg_def X0)
  have s2: "?step (MCode (drop 5 (mach_code add_five)) rs1 fr1 Map.empty) (MCode (drop 6 (mach_code add_five)) rs fr1 Map.empty)"
    unfolding c(2) by (rule mach_fall) (simp_all add: eval_op_def with_known_def rs_def rs1_def regs_after_call_def)
  have s3: "?step (MCode (drop 6 (mach_code add_five)) rs fr1 Map.empty) (MFinal (Returned (rs IntReturnReg) Map.empty) rs)"
    by (rule mach_epilogue [OF c(3)])
  have "mach_final ?rs (MFinal (Returned (rs IntReturnReg) Map.empty) rs) (Returned (Some (zx 6)) Map.empty)"
    by (auto simp: rs_def rs1_def regs_after_call_def IsCalleeSaved_iff)
  then have "behaves ?step (mach_final ?rs) (MFinal (Returned (rs IntReturnReg) Map.empty) rs)
      (Terminates (Returned (Some (zx 6)) Map.empty))" unfolding behaves_def behaviour.case by blast
  with s1 s2 s3 show ?thesis by (blast intro: behaves_step)
qed

theorem asmgen_correct_witness:
  "\<exists>s. behaves (asm_step (idle_target\<lparr>t_stack := 84\<rparr>) increment_call add_five_asm) asm_final (ACode add_five_asm counting_state)
     (Terminates (None, s)) \<and> a_regs s X0 = zx 6 \<and> a_regs s SP = 100"
proof -
  have p: "countPrologueInstructions (mach_code add_five) = 4"
    by (simp add: add_five_def countPrologueInstructions_def)
  have ok: "code_ok (asm_ok (idle_target\<lparr>t_stack := 84\<rparr>) increment_sem (\<lambda>_. 8) False 0 0 (int 0)) (drop 4 (mach_code add_five))"
    by (simp add: add_five_def numeral_eq_Suc usable_def increment_sem_def)
  have callees: "callees_ok increment_sem (\<lambda>_. 8) increment_call 0" by (rule increment_callees) simp
  have "behaves (mach_step (word_sem (idle_target\<lparr>t_stack := 84\<rparr>) increment_sem) (\<lambda>_. 8) (- 0) (int 0) (mach_code add_five))
      (mach_final (\<lambda>r. Some (a_regs counting_state r))) (MCode (drop 4 (mach_code add_five)) (\<lambda>r. Some (a_regs counting_state r))
        (entry_frame 84 0 (a_mem counting_state)) Map.empty) (Terminates (Returned (Some (zx 6)) Map.empty))"
    by (rule add_five_runs)
  from asmgen_correct [OF add_five_translated _ _ _ _ callees, unfolded p, OF _ _ _ _ ok _ _ _ this]
  obtain b' where "rel_behaviour (asm_result counting_state) (Terminates (Returned (Some (zx 6)) Map.empty)) b'"
    "behaves (asm_step (idle_target\<lparr>t_stack := 84\<rparr>) increment_call add_five_asm) asm_final (ACode add_five_asm counting_state) b'"
    by (auto simp: window_ok_def add_five_def)
  then show ?thesis by (cases b') (auto simp: asm_result_def)
qed

end
