(* ===== verification/Encoding.thy ===== *)
theory Encoding
  imports AsmOps
begin

text \<open>
  Which immediates have an encoding. The printed instructions go to an assembler, which rejects the
  others; it turns an addition of a negative constant into a subtraction, and an unscaled offset into
  the corresponding instruction. The code generator checks only the constants it loads.
\<close>

text \<open>Twelve bits, possibly shifted by twelve.\<close>

definition imm12 :: "int \<Rightarrow> bool" where
  "imm12 n \<longleftrightarrow> \<bar>n\<bar> < 2 ^ 12 \<or> (\<bar>n\<bar> mod 2 ^ 12 = 0 \<and> \<bar>n\<bar> < 2 ^ 24)"

text \<open>A run of ones, rotated, repeated over elements of 2, 4, ... bits.\<close>

definition bits_of :: "bool \<Rightarrow> int \<Rightarrow> bool list" where
  "bits_of is64 n = map (bit n) [0..<(if is64 then 64 else 32)]"

definition run_of_ones :: "bool list \<Rightarrow> bool" where
  "run_of_ones bs \<longleftrightarrow> list_ex (\<lambda>r. let cs = rotate r bs; k = length (takeWhile id cs) in
     0 < k \<and> k < length bs \<and> list_all Not (drop k cs)) [0..<length bs]"

definition logical_imm :: "bool \<Rightarrow> int \<Rightarrow> bool" where
  "logical_imm is64 n \<longleftrightarrow> (let bs = bits_of is64 n in
     list_ex (\<lambda>e. e \<le> length bs \<and> bs = concat (replicate (length bs div e) (take e bs)) \<and> run_of_ones (take e bs))
       [2, 4, 8, 16, 32, 64])"

definition wide_imm :: "bool \<Rightarrow> nat \<Rightarrow> int \<Rightarrow> bool" where
  "wide_imm is64 i k \<longleftrightarrow> i < 2 ^ 16 \<and> (if is64 then k \<in> {0, 16, 32, 48} else k \<in> {0, 16})"

definition mov_imm :: "bool \<Rightarrow> int \<Rightarrow> bool" where
  "mov_imm is64 n \<longleftrightarrow> logical_imm is64 n \<or>
     list_ex (\<lambda>k. (0 \<le> n \<and> n mod 2 ^ k = 0 \<and> n div 2 ^ k < 2 ^ 16) \<or>
                  (n < 0 \<and> (- n - 1) mod 2 ^ k = 0 \<and> (- n - 1) div 2 ^ k < 2 ^ 16))
       (if is64 then [0, 16, 32, 48] else [0, 16])"

definition mem_ofs :: "int \<Rightarrow> int \<Rightarrow> bool" where
  "mem_ofs sz ofs \<longleftrightarrow> (- 256 \<le> ofs \<and> ofs < 256) \<or> (0 \<le> ofs \<and> ofs mod sz = 0 \<and> ofs div sz < 2 ^ 12)"

definition pair_ofs :: "int \<Rightarrow> int \<Rightarrow> bool" where
  "pair_ofs sz ofs \<longleftrightarrow> ofs mod sz = 0 \<and> - 64 \<le> ofs div sz \<and> ofs div sz < 64"

definition shift_imm :: "bool \<Rightarrow> int \<Rightarrow> bool" where
  "shift_imm is64 k \<longleftrightarrow> 0 \<le> k \<and> k < (if is64 then 64 else 32)"

fun encodable :: "asm_instr \<Rightarrow> bool" where
  "encodable (Data (ADDi d n i w)) \<longleftrightarrow> imm12 i"
| "encodable (Data (SUBi d n i w)) \<longleftrightarrow> imm12 i"
| "encodable (Bits (ANDi d n i w)) \<longleftrightarrow> logical_imm w i"
| "encodable (Bits (ORRi d n i w)) \<longleftrightarrow> logical_imm w i"
| "encodable (Bits (EORi d n i w)) \<longleftrightarrow> logical_imm w i"
| "encodable (Shift (LSLi d n k w)) \<longleftrightarrow> shift_imm w k"
| "encodable (Shift (LSRi d n k w)) \<longleftrightarrow> shift_imm w k"
| "encodable (Shift (ASRi d n k w)) \<longleftrightarrow> shift_imm w k"
| "encodable (Shift (RORi d n k w)) \<longleftrightarrow> shift_imm w k"
| "encodable (Load (LDR d n ofs w)) \<longleftrightarrow> mem_ofs (int (size_of w)) ofs"
| "encodable (Load (LDRB d n ofs)) \<longleftrightarrow> mem_ofs 1 ofs"
| "encodable (Load (LDRH d n ofs)) \<longleftrightarrow> mem_ofs 2 ofs"
| "encodable (Load (LDRSB d n ofs w)) \<longleftrightarrow> mem_ofs 1 ofs"
| "encodable (Load (LDRSH d n ofs w)) \<longleftrightarrow> mem_ofs 2 ofs"
| "encodable (Load (LDRSW d n ofs)) \<longleftrightarrow> mem_ofs 4 ofs"
| "encodable (Load (LDP d e n ofs w)) \<longleftrightarrow> pair_ofs (int (size_of w)) ofs"
| "encodable (Load (LDPpost d e n ofs w)) \<longleftrightarrow> pair_ofs (int (size_of w)) ofs"
| "encodable (Load (FLDRs d n ofs)) \<longleftrightarrow> mem_ofs 4 ofs"
| "encodable (Load (FLDRd d n ofs)) \<longleftrightarrow> mem_ofs 8 ofs"
| "encodable (Store (STRi d n ofs w)) \<longleftrightarrow> mem_ofs (int (size_of w)) ofs"
| "encodable (Store (STRB d n ofs)) \<longleftrightarrow> mem_ofs 1 ofs"
| "encodable (Store (STRH d n ofs)) \<longleftrightarrow> mem_ofs 2 ofs"
| "encodable (Store (STP d e n ofs w)) \<longleftrightarrow> pair_ofs (int (size_of w)) ofs"
| "encodable (Store (STPpre d e n ofs w)) \<longleftrightarrow> pair_ofs (int (size_of w)) ofs"
| "encodable (Store (FSTRs d n ofs)) \<longleftrightarrow> mem_ofs 4 ofs"
| "encodable (Store (FSTRd d n ofs)) \<longleftrightarrow> mem_ofs 8 ofs"
| "encodable (Compare (CMPi n i w)) \<longleftrightarrow> imm12 i"
| "encodable (Compare (CMNi n i w)) \<longleftrightarrow> imm12 i"
| "encodable (Compare (TSTi n i w)) \<longleftrightarrow> logical_imm w i"
| "encodable (Move (MOVi d i w)) \<longleftrightarrow> mov_imm w i"
| "encodable (Move (MOVZ d i k w)) \<longleftrightarrow> wide_imm w i k"
| "encodable (Move (MOVK d i k w)) \<longleftrightarrow> wide_imm w i k"
| "encodable (Move (MOVN d i k w)) \<longleftrightarrow> wide_imm w i k"
| "encodable (Float (FMOVi d i db)) \<longleftrightarrow> fmov_imm i"
| "encodable _ \<longleftrightarrow> True"

lemma piece_bound: "piece val k < 65536"
  by (simp add: piece_def nat_less_iff)

lemma loadIntConstant_encodable: "list_all encodable (loadIntConstant d val is64)"
  by (simp add: loadIntConstant_def wide_imm_def mov_imm_def piece_bound)

text \<open>Property C24. Loading an integer constant puts exactly that constant into the register, modulo the
  width, and changes nothing else; it takes at most four instructions, and all of them have an
  encoding.\<close>

theorem loadIntConstant_correct:
  "asm_run T (loadIntConstant d val is64) s = AFall (set_reg d (if is64 then of_int val else zx (of_int val)) s) \<and>
   length (loadIntConstant d val is64) \<le> 4 \<and> list_all encodable (loadIntConstant d val is64)"
  by (intro conjI loadIntConstant_run loadIntConstant_encodable) (simp add: loadIntConstant_def)

text \<open>Property C25. The prologue and the epilogue of a function have an encoding exactly when its frame
  has at most 512 bytes.\<close>

theorem prologue_encodable_iff:
  assumes "0 < n" and "16 dvd n"
  shows "(list_all encodable (generatePrologue n) \<longleftrightarrow> n \<le> 512) \<and>
    (list_all encodable (generateEpilogue n) \<longleftrightarrow> n \<le> 512)"
proof -
  from assms obtain k where k: "n = 16 * k" "0 < k" by (auto elim: dvdE)
  have p: "pair_ofs 8 (n - 16) \<longleftrightarrow> n \<le> 512"
  proof -
    have "n - 16 = (2 * k - 2) * 8" by (simp add: k)
    then have "(n - 16) div 8 = 2 * k - 2" "(n - 16) mod 8 = 0" by simp_all
    with k show ?thesis unfolding pair_ofs_def by auto
  qed
  have i: "n \<le> 512 \<Longrightarrow> imm12 n \<and> imm12 (n - 16)" using k by (auto simp: imm12_def)
  from p i assms show ?thesis
    by (auto simp: generatePrologue_def generateEpilogue_def Let_def size_of_def)
qed

theorem prologue_encodable_iff_witness:
  "\<not> list_all encodable (generatePrologue 528) \<and> list_all encodable (generatePrologue 512)"
  using prologue_encodable_iff [of 528] prologue_encodable_iff [of 512] by simp

end
