(* ===== verification/CminorSel.thy ===== *)
theory CminorSel
  imports WordSem Smallstep "HOL-Library.Monad_Syntax"
begin

text \<open>
  The CminorSel language (\<open>pkg/cminorsel/ast.go\<close>): structured statements over expressions with the
  typed operators of Csharpminor (\<open>pkg/csharpminor/ast.go\<close>), the addressing modes of the target, and
  conditions with short-circuit evaluation. Names that the back end uses for its own operations carry the
  suffix \<open>_cs\<close>. Expressions are evaluated by a function, statements run in small steps under a
  continuation.
\<close>

datatype unaryOp =
    Ocast8signed_cs | Ocast8unsigned_cs | Ocast16signed_cs | Ocast16unsigned_cs
  | Onegint_cs | Onegf_cs | Onegl_cs | Onegs_cs | Onotint_cs | Onotl_cs | Onotbool_cs
  | Osingleoffloat_cs | Ofloatofsingle_cs
  | Ointoffloat_cs | Ointuoffloat_cs | Ofloatofint_cs | Ofloatofintu_cs
  | Olongoffloat_cs | Olonguoffloat_cs | Ofloatoflong_cs | Ofloatoflongu_cs
  | Olongofsingle_cs | Olonguofsingle_cs | Osingleoflong_cs | Osingleoflongu_cs
  | Ointoflong_cs | Olongofint_cs | Olongofintu_cs

datatype binaryOp =
    Oadd_cs | Osub_cs | Omul_cs | Odiv_cs | Odivu_cs | Omod_cs | Omodu_cs
  | Oaddf_cs | Osubf_cs | Omulf_cs | Odivf_cs
  | Oadds_cs | Osubs_cs | Omuls_cs | Odivs_cs
  | Oaddl_cs | Osubl_cs | Omull_cs | Odivl_cs | Odivlu_cs | Omodl_cs | Omodlu_cs
  | Oand_cs | Oor_cs | Oxor_cs | Oshl_cs | Oshr_cs | Oshru_cs
  | Oandl_cs | Oorl_cs | Oxorl_cs | Oshll_cs | Oshrl_cs | Oshrlu_cs
  | Ocmp_cs | Ocmpu_cs | Ocmpf_cs | Ocmps_cs | Ocmpl_cs | Ocmplu_cs

datatype comparison = Ceq_cs | Cne_cs | Clt_cs | Cle_cs | Cgt_cs | Cge_cs

datatype cs_const =
    Ointconst_cs int32
  | Ofloatconst_cs float64
  | Olongconst_cs int64
  | Osingleconst_cs float32
  | Oaddrsymbol_cs string int64
  | Oaddrstack_cs int64

datatype shiftOp = Slsl | Slsr | Sasr

datatype expr =
    Evar string
  | Econst cs_const
  | Eunop unaryOp expr
  | Ebinop binaryOp expr expr
  | Eload chunk addressingMode "expr list"
  | Econdition cond expr expr
  | Elet expr expr
  | Eletvar int
  | Eaddshift shiftOp int expr expr
  | Esubshift shiftOp int expr expr
  | Ecmp binaryOp comparison expr expr
and cond =
    CondTrue
  | CondFalse
  | CondCmp comparison expr expr
  | CondCmpu comparison expr expr
  | CondCmpf comparison expr expr
  | CondCmps comparison expr expr
  | CondCmpl comparison expr expr
  | CondCmplu comparison expr expr
  | CondNot cond
  | CondAnd cond cond
  | CondOr cond cond

datatype stmt =
    Sskip
  | Sassign string expr
  | Sstore chunk addressingMode "expr list" expr
  | Scall "string option" "sig option" expr "expr list"
  | Stailcall "sig option" expr "expr list"
  | Sbuiltin "string option" string "expr list"
  | Sseq stmt stmt
  | Sifthenelse cond stmt stmt
  | Sloop stmt
  | Sblock stmt
  | Sexit int
  | Sswitch bool expr "switchCase list" stmt
  | Sreturn "expr option"
  | Slabel string stmt
  | Sgoto string
and switchCase = SwitchCase int64 stmt

record cs_function =
  cs_name :: string
  cs_sig :: sig
  cs_params :: "string list"
  cs_vars :: "string list"
  cs_stackspace :: int64
  cs_body :: stmt

record cs_program =
  cs_globals :: "globVar list"
  cs_functions :: "cs_function list"

section \<open>Meaning of the operators\<close>

text \<open>The constants of \<open>Comparison\<close> number the six relations.\<close>

fun comparison_index :: "comparison \<Rightarrow> nat" where
  "comparison_index Ceq_cs = 0"
| "comparison_index Cne_cs = 1"
| "comparison_index Clt_cs = 2"
| "comparison_index Cle_cs = 3"
| "comparison_index Cgt_cs = 4"
| "comparison_index Cge_cs = 5"

fun cs_compare :: "comparison \<Rightarrow> int \<Rightarrow> int \<Rightarrow> bool" where
  "cs_compare Ceq_cs a b \<longleftrightarrow> a = b"
| "cs_compare Cne_cs a b \<longleftrightarrow> a \<noteq> b"
| "cs_compare Clt_cs a b \<longleftrightarrow> a < b"
| "cs_compare Cle_cs a b \<longleftrightarrow> a \<le> b"
| "cs_compare Cgt_cs a b \<longleftrightarrow> a > b"
| "cs_compare Cge_cs a b \<longleftrightarrow> a \<ge> b"

fun cs_fcompare :: "comparison \<Rightarrow> fresult \<Rightarrow> bool" where
  "cs_fcompare Ceq_cs r \<longleftrightarrow> r = FEqual"
| "cs_fcompare Cne_cs r \<longleftrightarrow> r \<noteq> FEqual"
| "cs_fcompare Clt_cs r \<longleftrightarrow> r = FLess"
| "cs_fcompare Cle_cs r \<longleftrightarrow> r = FLess \<or> r = FEqual"
| "cs_fcompare Cgt_cs r \<longleftrightarrow> r = FGreater"
| "cs_fcompare Cge_cs r \<longleftrightarrow> r = FGreater \<or> r = FEqual"

fun word_const :: "target \<Rightarrow> cs_const \<Rightarrow> w64" where
  "word_const T (Ointconst_cs n) = zx (of_int n)"
| "word_const T (Ofloatconst_cs x) = of_int x"
| "word_const T (Olongconst_cs n) = of_int n"
| "word_const T (Osingleconst_cs x) = zx (of_int x)"
| "word_const T (Oaddrsymbol_cs s n) = t_symbol T s + of_int n"
| "word_const T (Oaddrstack_cs n) = t_stack T + of_int n"

text \<open>The target has no conversion between singles and longs; these four have no meaning here.\<close>

fun word_unop :: "target \<Rightarrow> unaryOp \<Rightarrow> w64 \<Rightarrow> w64 option" where
  "word_unop T Ocast8signed_cs a = Some (zx (scast (ucast a :: 8 word)))"
| "word_unop T Ocast8unsigned_cs a = Some (zx (ucast (ucast a :: 8 word)))"
| "word_unop T Ocast16signed_cs a = Some (zx (scast (ucast a :: 16 word)))"
| "word_unop T Ocast16unsigned_cs a = Some (zx (ucast (ucast a :: 16 word)))"
| "word_unop T Onegint_cs a = Some (zx (- lo a))"
| "word_unop T Onegf_cs a = Some (t_float T Onegf [a])"
| "word_unop T Onegl_cs a = Some (- a)"
| "word_unop T Onegs_cs a = Some (t_float T Onegs [a])"
| "word_unop T Onotint_cs a = Some (zx (NOT (lo a)))"
| "word_unop T Onotl_cs a = Some (NOT a)"
| "word_unop T Onotbool_cs a = Some (if lo a = 0 then 1 else 0)"
| "word_unop T Osingleoffloat_cs a = Some (t_fconv T Osingleoffloat a)"
| "word_unop T Ofloatofsingle_cs a = Some (t_fconv T Ofloatofsingle a)"
| "word_unop T Ointoffloat_cs a = Some (t_fconv T Ointoffloat a)"
| "word_unop T Ointuoffloat_cs a = Some (t_fconv T Ointuoffloat a)"
| "word_unop T Ofloatofint_cs a = Some (t_fconv T Ofloatofint a)"
| "word_unop T Ofloatofintu_cs a = Some (t_fconv T Ofloatofintu a)"
| "word_unop T Olongoffloat_cs a = Some (t_fconv T Olongoffloat a)"
| "word_unop T Olonguoffloat_cs a = Some (t_fconv T Olonguoffloat a)"
| "word_unop T Ofloatoflong_cs a = Some (t_fconv T Ofloatoflong a)"
| "word_unop T Ofloatoflongu_cs a = Some (t_fconv T Ofloatoflongu a)"
| "word_unop T Ointoflong_cs a = Some (zx (lo a))"
| "word_unop T Olongofint_cs a = Some (scast (lo a))"
| "word_unop T Olongofintu_cs a = Some (zx (lo a))"
| "word_unop T Olongofsingle_cs a = None"
| "word_unop T Olonguofsingle_cs a = None"
| "word_unop T Osingleoflong_cs a = None"
| "word_unop T Osingleoflongu_cs a = None"

text \<open>A comparison operator means nothing without its relation; \<open>Ecmp\<close> carries it.\<close>

fun word_binop :: "target \<Rightarrow> binaryOp \<Rightarrow> w64 \<Rightarrow> w64 \<Rightarrow> w64 option" where
  "word_binop T Oadd_cs a b = Some (zx (lo a + lo b))"
| "word_binop T Osub_cs a b = Some (zx (lo a - lo b))"
| "word_binop T Omul_cs a b = Some (zx (lo a * lo b))"
| "word_binop T Odiv_cs a b = guarded (sdiv_ok (lo a) (lo b)) (zx (sdiv_word (lo a) (lo b)))"
| "word_binop T Odivu_cs a b = guarded (lo b \<noteq> 0) (zx (lo a div lo b))"
| "word_binop T Omod_cs a b = guarded (sdiv_ok (lo a) (lo b)) (zx (smod_word (lo a) (lo b)))"
| "word_binop T Omodu_cs a b = guarded (lo b \<noteq> 0) (zx (lo a mod lo b))"
| "word_binop T Oaddf_cs a b = Some (t_float T Oaddf [a, b])"
| "word_binop T Osubf_cs a b = Some (t_float T Osubf [a, b])"
| "word_binop T Omulf_cs a b = Some (t_float T Omulf [a, b])"
| "word_binop T Odivf_cs a b = Some (t_float T Odivf [a, b])"
| "word_binop T Oadds_cs a b = Some (t_float T Oadds [a, b])"
| "word_binop T Osubs_cs a b = Some (t_float T Osubs [a, b])"
| "word_binop T Omuls_cs a b = Some (t_float T Omuls [a, b])"
| "word_binop T Odivs_cs a b = Some (t_float T Odivs [a, b])"
| "word_binop T Oaddl_cs a b = Some (a + b)"
| "word_binop T Osubl_cs a b = Some (a - b)"
| "word_binop T Omull_cs a b = Some (a * b)"
| "word_binop T Odivl_cs a b = guarded (sdiv_ok a b) (sdiv_word a b)"
| "word_binop T Odivlu_cs a b = guarded (b \<noteq> 0) (a div b)"
| "word_binop T Omodl_cs a b = guarded (sdiv_ok a b) (smod_word a b)"
| "word_binop T Omodlu_cs a b = guarded (b \<noteq> 0) (a mod b)"
| "word_binop T Oand_cs a b = Some (zx (lo a AND lo b))"
| "word_binop T Oor_cs a b = Some (zx (lo a OR lo b))"
| "word_binop T Oxor_cs a b = Some (zx (lo a XOR lo b))"
| "word_binop T Oshl_cs a b = guarded (shift_ok b 32) (zx (push_bit (unat (lo b)) (lo a)))"
| "word_binop T Oshr_cs a b = guarded (shift_ok b 32) (zx (signed_drop_bit (unat (lo b)) (lo a)))"
| "word_binop T Oshru_cs a b = guarded (shift_ok b 32) (zx (drop_bit (unat (lo b)) (lo a)))"
| "word_binop T Oandl_cs a b = Some (a AND b)"
| "word_binop T Oorl_cs a b = Some (a OR b)"
| "word_binop T Oxorl_cs a b = Some (a XOR b)"
| "word_binop T Oshll_cs a b = guarded (shift_ok b 64) (push_bit (unat (lo b)) a)"
| "word_binop T Oshrl_cs a b = guarded (shift_ok b 64) (signed_drop_bit (unat (lo b)) a)"
| "word_binop T Oshrlu_cs a b = guarded (shift_ok b 64) (drop_bit (unat (lo b)) a)"
| "word_binop T Ocmp_cs a b = None"
| "word_binop T Ocmpu_cs a b = None"
| "word_binop T Ocmpf_cs a b = None"
| "word_binop T Ocmps_cs a b = None"
| "word_binop T Ocmpl_cs a b = None"
| "word_binop T Ocmplu_cs a b = None"

fun word_cmp :: "target \<Rightarrow> binaryOp \<Rightarrow> comparison \<Rightarrow> w64 \<Rightarrow> w64 \<Rightarrow> bool option" where
  "word_cmp T Ocmp_cs c a b = Some (cs_compare c (sint (lo a)) (sint (lo b)))"
| "word_cmp T Ocmpu_cs c a b = Some (cs_compare c (uint (lo a)) (uint (lo b)))"
| "word_cmp T Ocmpf_cs c a b = Some (cs_fcompare c (t_fcmp T True a b))"
| "word_cmp T Ocmps_cs c a b = Some (cs_fcompare c (t_fcmp T False a b))"
| "word_cmp T Ocmpl_cs c a b = Some (cs_compare c (sint a) (sint b))"
| "word_cmp T Ocmplu_cs c a b = Some (cs_compare c (uint a) (uint b))"
| "word_cmp T _ _ _ _ = None"

fun word_shift :: "shiftOp \<Rightarrow> int \<Rightarrow> w32 \<Rightarrow> w32 option" where
  "word_shift Slsl n a = guarded (0 \<le> n \<and> n < 32) (push_bit (nat n) a)"
| "word_shift Slsr n a = guarded (0 \<le> n \<and> n < 32) (drop_bit (nat n) a)"
| "word_shift Sasr n a = guarded (0 \<le> n \<and> n < 32) (signed_drop_bit (nat n) a)"

definition word_addshift :: "shiftOp \<Rightarrow> int \<Rightarrow> w64 \<Rightarrow> w64 \<Rightarrow> w64 option" where
  "word_addshift sh n a b = map_option (\<lambda>s. zx (lo a + s)) (word_shift sh n (lo b))"

definition word_subshift :: "shiftOp \<Rightarrow> int \<Rightarrow> w64 \<Rightarrow> w64 \<Rightarrow> w64 option" where
  "word_subshift sh n a b = map_option (\<lambda>s. zx (lo a - s)) (word_shift sh n (lo b))"

text \<open>Operators need known operands.\<close>

definition known1 :: "(w64 \<Rightarrow> 'a option) \<Rightarrow> val \<Rightarrow> 'a option" where
  "known1 f v = Option.bind v f"

definition known2 :: "(w64 \<Rightarrow> w64 \<Rightarrow> 'a option) \<Rightarrow> val \<Rightarrow> val \<Rightarrow> 'a option" where
  "known2 f v w = Option.bind v (\<lambda>a. Option.bind w (f a))"

lemma known1_Some: "known1 f v = Some y \<longleftrightarrow> (\<exists>a. v = Some a \<and> f a = Some y)"
  by (cases v) (auto simp: known1_def)

lemma known2_Some: "known2 f v w = Some y \<longleftrightarrow> (\<exists>a b. v = Some a \<and> w = Some b \<and> f a b = Some y)"
  by (cases v; cases w) (auto simp: known2_def)

section \<open>Expressions\<close>

text \<open>
  \<open>le\<close> holds the values of the enclosing let-bindings, innermost first. A variable holds a word or nothing
  known.
\<close>

type_synonym cs_env = "string \<rightharpoonup> val"

definition let_value :: "val list \<Rightarrow> int \<Rightarrow> val option" where
  "let_value le i = (if 0 \<le> i \<and> nat i < length le then Some (le ! nat i) else None)"

fun eval_expr :: "target \<Rightarrow> (val, mem) sem \<Rightarrow> cs_env \<Rightarrow> mem \<Rightarrow> val list \<Rightarrow> expr \<Rightarrow> val option"
and eval_exprs :: "target \<Rightarrow> (val, mem) sem \<Rightarrow> cs_env \<Rightarrow> mem \<Rightarrow> val list \<Rightarrow> expr list \<Rightarrow> val list option"
and eval_cond :: "target \<Rightarrow> (val, mem) sem \<Rightarrow> cs_env \<Rightarrow> mem \<Rightarrow> val list \<Rightarrow> cond \<Rightarrow> bool option" where
  "eval_expr T E env m le (Evar x) = env x"
| "eval_expr T E env m le (Econst c) = Some (Some (word_const T c))"
| "eval_expr T E env m le (Eunop uop a) = do {
     v \<leftarrow> eval_expr T E env m le a;
     map_option Some (known1 (word_unop T uop) v)
   }"
| "eval_expr T E env m le (Ebinop bop a b) = do {
     v \<leftarrow> eval_expr T E env m le a;
     w \<leftarrow> eval_expr T E env m le b;
     map_option Some (known2 (word_binop T bop) v w)
   }"
| "eval_expr T E env m le (Eload ch mode args) = do {
     vs \<leftarrow> eval_exprs T E env m le args;
     sem_load (word_sem T E) ch mode vs m
   }"
| "eval_expr T E env m le (Econdition c a b) = do {
     t \<leftarrow> eval_cond T E env m le c;
     if t then eval_expr T E env m le a else eval_expr T E env m le b
   }"
| "eval_expr T E env m le (Elet a b) = do {
     v \<leftarrow> eval_expr T E env m le a;
     eval_expr T E env m (v # le) b
   }"
| "eval_expr T E env m le (Eletvar i) = let_value le i"
| "eval_expr T E env m le (Eaddshift sh n a b) = do {
     v \<leftarrow> eval_expr T E env m le a;
     w \<leftarrow> eval_expr T E env m le b;
     map_option Some (known2 (word_addshift sh n) v w)
   }"
| "eval_expr T E env m le (Esubshift sh n a b) = do {
     v \<leftarrow> eval_expr T E env m le a;
     w \<leftarrow> eval_expr T E env m le b;
     map_option Some (known2 (word_subshift sh n) v w)
   }"
| "eval_expr T E env m le (Ecmp bop c a b) = do {
     v \<leftarrow> eval_expr T E env m le a;
     w \<leftarrow> eval_expr T E env m le b;
     t \<leftarrow> known2 (word_cmp T bop c) v w;
     Some (Some (if t then 1 else 0))
   }"
| "eval_exprs T E env m le [] = Some []"
| "eval_exprs T E env m le (e # es) = do {
     v \<leftarrow> eval_expr T E env m le e;
     vs \<leftarrow> eval_exprs T E env m le es;
     Some (v # vs)
   }"
| "eval_cond T E env m le CondTrue = Some True"
| "eval_cond T E env m le CondFalse = Some False"
| "eval_cond T E env m le (CondCmp c a b) = do {
     v \<leftarrow> eval_expr T E env m le a;
     w \<leftarrow> eval_expr T E env m le b;
     known2 (word_cmp T Ocmp_cs c) v w
   }"
| "eval_cond T E env m le (CondCmpu c a b) = do {
     v \<leftarrow> eval_expr T E env m le a;
     w \<leftarrow> eval_expr T E env m le b;
     known2 (word_cmp T Ocmpu_cs c) v w
   }"
| "eval_cond T E env m le (CondCmpf c a b) = do {
     v \<leftarrow> eval_expr T E env m le a;
     w \<leftarrow> eval_expr T E env m le b;
     known2 (word_cmp T Ocmpf_cs c) v w
   }"
| "eval_cond T E env m le (CondCmps c a b) = do {
     v \<leftarrow> eval_expr T E env m le a;
     w \<leftarrow> eval_expr T E env m le b;
     known2 (word_cmp T Ocmps_cs c) v w
   }"
| "eval_cond T E env m le (CondCmpl c a b) = do {
     v \<leftarrow> eval_expr T E env m le a;
     w \<leftarrow> eval_expr T E env m le b;
     known2 (word_cmp T Ocmpl_cs c) v w
   }"
| "eval_cond T E env m le (CondCmplu c a b) = do {
     v \<leftarrow> eval_expr T E env m le a;
     w \<leftarrow> eval_expr T E env m le b;
     known2 (word_cmp T Ocmplu_cs c) v w
   }"
| "eval_cond T E env m le (CondNot c) = map_option Not (eval_cond T E env m le c)"
| "eval_cond T E env m le (CondAnd c d) = do {
     t \<leftarrow> eval_cond T E env m le c;
     if t then eval_cond T E env m le d else Some False
   }"
| "eval_cond T E env m le (CondOr c d) = do {
     t \<leftarrow> eval_cond T E env m le c;
     if t then Some True else eval_cond T E env m le d
   }"

lemma eval_exprs_length: "eval_exprs T E env m le es = Some vs \<Longrightarrow> length vs = length es"
  by (induction es arbitrary: vs) (auto simp: bind_eq_Some_conv)

section \<open>Statements\<close>

datatype cont = Kstop | Kseq stmt cont | Kblock cont

text \<open>The statement under a label, with what remains to be done after it.\<close>

fun cs_find_label :: "string \<Rightarrow> stmt \<Rightarrow> cont \<Rightarrow> (stmt \<times> cont) option"
and cs_find_label_cases :: "string \<Rightarrow> switchCase list \<Rightarrow> cont \<Rightarrow> (stmt \<times> cont) option" where
  "cs_find_label l (Sseq a b) k = (case cs_find_label l a (Kseq b k) of
     Some r \<Rightarrow> Some r | None \<Rightarrow> cs_find_label l b k)"
| "cs_find_label l (Sifthenelse c a b) k = (case cs_find_label l a k of
     Some r \<Rightarrow> Some r | None \<Rightarrow> cs_find_label l b k)"
| "cs_find_label l (Sloop a) k = cs_find_label l a (Kseq (Sloop a) k)"
| "cs_find_label l (Sblock a) k = cs_find_label l a (Kblock k)"
| "cs_find_label l (Sswitch isLong e cs d) k = (case cs_find_label_cases l cs k of
     Some r \<Rightarrow> Some r | None \<Rightarrow> cs_find_label l d k)"
| "cs_find_label l (Slabel l' a) k = (if l = l' then Some (a, k) else cs_find_label l a k)"
| "cs_find_label l _ k = None"
| "cs_find_label_cases l [] k = None"
| "cs_find_label_cases l (SwitchCase v a # cs) k = (case cs_find_label l a k of
     Some r \<Rightarrow> Some r | None \<Rightarrow> cs_find_label_cases l cs k)"

text \<open>
  The body that a switch selects: the first case with the value, otherwise the default. The value is
  compared at 64 bits in a long switch, at 32 bits in the others.
\<close>

fun switch_target :: "bool \<Rightarrow> w64 \<Rightarrow> switchCase list \<Rightarrow> stmt \<Rightarrow> stmt" where
  "switch_target isLong w [] d = d"
| "switch_target isLong w (SwitchCase v a # cs) d =
     (if (if isLong then w = of_int v else lo w = of_int v) then a else switch_target isLong w cs d)"

text \<open>A missing signature is the empty one.\<close>

definition no_sig :: sig where
  "no_sig = \<lparr>sig_args = [], sig_return = [], sig_vararg = False\<rparr>"

definition the_sig :: "sig option \<Rightarrow> sig" where
  "the_sig sg = (case sg of None \<Rightarrow> no_sig | Some s \<Rightarrow> s)"

text \<open>A call names its function by a symbol, or computes a pointer.\<close>

definition callee_value :: "target \<Rightarrow> (val, mem) sem \<Rightarrow> cs_env \<Rightarrow> mem \<Rightarrow> expr \<Rightarrow> val funVal option" where
  "callee_value T E env m a = (case a of
     Econst (Oaddrsymbol_cs s n) \<Rightarrow> if n = 0 then Some (FV_sym s) else Some (FV_ptr (Some (t_symbol T s + of_int n)))
   | _ \<Rightarrow> map_option FV_ptr (eval_expr T E env m [] a))"

definition assign_result :: "string option \<Rightarrow> val \<Rightarrow> cs_env \<Rightarrow> cs_env" where
  "assign_result x v env = (case x of None \<Rightarrow> env | Some y \<Rightarrow> env(y \<mapsto> v))"

text \<open>Only declared variables can be assigned.\<close>

definition declared :: "string option \<Rightarrow> cs_env \<Rightarrow> bool" where
  "declared x env \<longleftrightarrow> (case x of None \<Rightarrow> True | Some y \<Rightarrow> env y \<noteq> None)"

datatype cs_state =
    CStmt stmt cont cs_env mem
  | CFinal "(val, mem) outcome"

inductive cs_step :: "target \<Rightarrow> (val, mem) sem \<Rightarrow> stmt \<Rightarrow> cs_state \<Rightarrow> cs_state \<Rightarrow> bool"
  for T E body where
  cs_skip_seq: "cs_step T E body (CStmt Sskip (Kseq s k) env m) (CStmt s k env m)"
| cs_skip_block: "cs_step T E body (CStmt Sskip (Kblock k) env m) (CStmt Sskip k env m)"
| cs_skip_stop: "cs_step T E body (CStmt Sskip Kstop env m) (CFinal (Returned None m))"
| cs_assign: "eval_expr T E env m [] e = Some v \<Longrightarrow> declared (Some x) env \<Longrightarrow>
    cs_step T E body (CStmt (Sassign x e) k env m) (CStmt Sskip k (env(x \<mapsto> v)) m)"
| cs_store: "eval_exprs T E env m [] args = Some vs \<Longrightarrow> eval_expr T E env m [] e = Some v \<Longrightarrow>
    sem_store (word_sem T E) ch mode vs v m = Some m' \<Longrightarrow>
    cs_step T E body (CStmt (Sstore ch mode args e) k env m) (CStmt Sskip k env m')"
| cs_call: "callee_value T E env m e = Some fv \<Longrightarrow> eval_exprs T E env m [] args = Some vs \<Longrightarrow>
    n = sem_arity E (the_sig sg) fv m \<Longrightarrow> n \<le> length vs \<Longrightarrow>
    sem_call E (the_sig sg) fv (take n vs) m = Some (v, m') \<Longrightarrow> declared x env \<Longrightarrow>
    cs_step T E body (CStmt (Scall x sg e args) k env m) (CStmt Sskip k (assign_result x v env) m')"
| cs_tailcall: "callee_value T E env m e = Some fv \<Longrightarrow> eval_exprs T E env m [] args = Some vs \<Longrightarrow>
    n = sem_arity E (the_sig sg) fv m \<Longrightarrow> n \<le> length vs \<Longrightarrow>
    cs_step T E body (CStmt (Stailcall sg e args) k env m)
      (CFinal (Tailcalled (the_sig sg) fv (take n vs) m))"
| cs_builtin: "eval_exprs T E env m [] args = Some vs \<Longrightarrow> sem_builtin E bf vs m = Some (v, m') \<Longrightarrow>
    declared x env \<Longrightarrow>
    cs_step T E body (CStmt (Sbuiltin x bf args) k env m) (CStmt Sskip k (assign_result x v env) m')"
| cs_seq: "cs_step T E body (CStmt (Sseq a b) k env m) (CStmt a (Kseq b k) env m)"
| cs_ifthenelse: "eval_cond T E env m [] c = Some t \<Longrightarrow>
    cs_step T E body (CStmt (Sifthenelse c a b) k env m) (CStmt (if t then a else b) k env m)"
| cs_loop: "cs_step T E body (CStmt (Sloop a) k env m) (CStmt a (Kseq (Sloop a) k) env m)"
| cs_block: "cs_step T E body (CStmt (Sblock a) k env m) (CStmt a (Kblock k) env m)"
| cs_exit_seq: "cs_step T E body (CStmt (Sexit n) (Kseq s k) env m) (CStmt (Sexit n) k env m)"
| cs_exit_block: "cs_step T E body (CStmt (Sexit 0) (Kblock k) env m) (CStmt Sskip k env m)"
| cs_exit_outer: "0 < n \<Longrightarrow>
    cs_step T E body (CStmt (Sexit n) (Kblock k) env m) (CStmt (Sexit (n - 1)) k env m)"
| cs_switch: "eval_expr T E env m [] e = Some (Some w) \<Longrightarrow>
    cs_step T E body (CStmt (Sswitch isLong e cs d) k env m) (CStmt (switch_target isLong w cs d) k env m)"
| cs_return_void: "cs_step T E body (CStmt (Sreturn None) k env m) (CFinal (Returned None m))"
| cs_return: "eval_expr T E env m [] e = Some v \<Longrightarrow>
    cs_step T E body (CStmt (Sreturn (Some e)) k env m) (CFinal (Returned v m))"
| cs_label: "cs_step T E body (CStmt (Slabel l a) k env m) (CStmt a k env m)"
| cs_goto: "cs_find_label l body Kstop = Some (a, k') \<Longrightarrow>
    cs_step T E body (CStmt (Sgoto l) k env m) (CStmt a k' env m)"

fun cs_final :: "cs_state \<Rightarrow> (val, mem) outcome \<Rightarrow> bool" where
  "cs_final (CFinal r) q \<longleftrightarrow> q = r"
| "cs_final (CStmt _ _ _ _) q \<longleftrightarrow> False"

text \<open>A call binds the parameters; the other variables are declared and hold nothing known.\<close>

definition cs_init_env :: "cs_function \<Rightarrow> val list \<Rightarrow> cs_env" where
  "cs_init_env f vs = (\<lambda>x. if x \<in> set (cs_params f) then Some (the (map_of (zip (cs_params f) vs) x))
     else if x \<in> set (cs_vars f) then Some None else None)"

inductive_cases cs_step_stmtE: "cs_step T E body (CStmt s k env m) t"
inductive_cases cs_step_finalE: "cs_step T E body (CFinal r) t"

lemma cs_step_det: "cs_step T E body s t \<Longrightarrow> cs_step T E body s u \<Longrightarrow> t = u"
  by (cases rule: cs_step.cases) (auto elim: cs_step_stmtE)

interpretation cminorsel: determ "cs_step T E body" cs_final for T E body
proof
  show "cs_step T E body s t \<Longrightarrow> cs_step T E body s u \<Longrightarrow> t = u" for s t u by (rule cs_step_det)
  show "cs_final s r \<Longrightarrow> \<not> cs_step T E body s t" for s t r by (cases s) (auto elim: cs_step_finalE)
  show "cs_final s r \<Longrightarrow> cs_final s q \<Longrightarrow> r = q" for s r q by (cases s) auto
qed

end
