(* ===== verification/RTLgen.thy ===== *)
theory RTLgen
  imports CminorSel RTL "HOL-Library.State_Monad"
begin

text \<open>
  RTL generation (\<open>pkg/rtlgen\<close>): CminorSel statements become a control-flow graph, built backwards from
  the successor of each statement. The translators share a graph under construction (\<open>CFGBuilder\<close>), a
  register supply (\<open>RegAllocator\<close>), the registers of the enclosing let-bindings and the targets of the
  enclosing blocks; one state monad threads them.
\<close>

section \<open>The state of the translators\<close>

record cfgBuilder =
  nextNode :: node
  code :: "node \<rightharpoonup> rtl_instr"
  labelNodes :: "string \<rightharpoonup> node"
  stackSize :: int64

record translator = cfgBuilder +
  nextReg :: reg
  varToReg :: "string \<rightharpoonup> reg"
  letBindings :: "reg list"
  exits :: "node list"

type_synonym 'a gen = "(translator, 'a) state"

definition NewTranslator :: translator where
  "NewTranslator = \<lparr>nextNode = 1, code = Map.empty, labelNodes = Map.empty, stackSize = 0,
     nextReg = 1, varToReg = Map.empty, letBindings = [], exits = []\<rparr>"

definition AllocNode :: "node gen" where
  "AllocNode = State (\<lambda>g. (nextNode g, g\<lparr>nextNode := nextNode g + 1\<rparr>))"

definition AddInstr :: "node \<Rightarrow> rtl_instr \<Rightarrow> unit gen" where
  "AddInstr n i = State (\<lambda>g. ((), g\<lparr>code := (code g)(n \<mapsto> i)\<rparr>))"

definition EmitInstr :: "rtl_instr \<Rightarrow> node gen" where
  "EmitInstr i = do { n \<leftarrow> AllocNode; AddInstr n i; State_Monad.return n }"

definition GetOrCreateLabel :: "string \<Rightarrow> node gen" where
  "GetOrCreateLabel l = State (\<lambda>g. case labelNodes g l of
     Some n \<Rightarrow> (n, g)
   | None \<Rightarrow> (nextNode g, g\<lparr>nextNode := nextNode g + 1, labelNodes := (labelNodes g)(l \<mapsto> nextNode g)\<rparr>))"

definition SetStackSize :: "int64 \<Rightarrow> unit gen" where
  "SetStackSize n = State (\<lambda>g. ((), g\<lparr>stackSize := n\<rparr>))"

definition Fresh :: "reg gen" where
  "Fresh = State (\<lambda>g. (nextReg g, g\<lparr>nextReg := nextReg g + 1\<rparr>))"

primrec FreshN :: "nat \<Rightarrow> reg list gen" where
  "FreshN 0 = State_Monad.return []"
| "FreshN (Suc n) = do { r \<leftarrow> Fresh; rs \<leftarrow> FreshN n; State_Monad.return (r # rs) }"

definition LookupVar :: "string \<Rightarrow> reg option gen" where
  "LookupVar x = State (\<lambda>g. (varToReg g x, g))"

definition SetVar :: "string \<Rightarrow> reg \<Rightarrow> unit gen" where
  "SetVar x r = State (\<lambda>g. ((), g\<lparr>varToReg := (varToReg g)(x \<mapsto> r)\<rparr>))"

definition MapVar :: "string \<Rightarrow> reg gen" where
  "MapVar x = do {
     found \<leftarrow> LookupVar x;
     case found of
       Some r \<Rightarrow> State_Monad.return r
     | None \<Rightarrow> do { r \<leftarrow> Fresh; SetVar x r; State_Monad.return r }
   }"

primrec MapParams :: "string list \<Rightarrow> reg list gen" where
  "MapParams [] = State_Monad.return []"
| "MapParams (x # xs) = do {
     r \<leftarrow> Fresh;
     SetVar x r;
     rs \<leftarrow> MapParams xs;
     State_Monad.return (r # rs)
   }"

primrec MapVars :: "string list \<Rightarrow> reg list gen" where
  "MapVars [] = State_Monad.return []"
| "MapVars (x # xs) = do { r \<leftarrow> MapVar x; rs \<leftarrow> MapVars xs; State_Monad.return (r # rs) }"

text \<open>The stack of exit targets and the stack of let-bindings grow at the end.\<close>

definition Push :: "node \<Rightarrow> unit gen" where
  "Push n = State (\<lambda>g. ((), g\<lparr>exits := exits g @ [n]\<rparr>))"

definition Pop :: "unit gen" where
  "Pop = State (\<lambda>g. ((), g\<lparr>exits := butlast (exits g)\<rparr>))"

definition from_top :: "'a list \<Rightarrow> int \<Rightarrow> 'a option" where
  "from_top xs n = (let idx = int (length xs) - 1 - n in
     if idx < 0 \<or> int (length xs) \<le> idx then None else Some (xs ! nat idx))"

definition Get :: "int \<Rightarrow> node option gen" where
  "Get n = State (\<lambda>g. (from_top (exits g) n, g))"

definition pushLetBinding :: "reg \<Rightarrow> unit gen" where
  "pushLetBinding r = State (\<lambda>g. ((), g\<lparr>letBindings := letBindings g @ [r]\<rparr>))"

definition popLetBinding :: "unit gen" where
  "popLetBinding = State (\<lambda>g. ((), g\<lparr>letBindings := butlast (letBindings g)\<rparr>))"

definition getLetBinding :: "int \<Rightarrow> reg gen" where
  "getLetBinding i = State (\<lambda>g. (case from_top (letBindings g) i of None \<Rightarrow> 0 | Some r \<Rightarrow> r, g))"

section \<open>Operators and addressing modes\<close>

fun TranslateUnaryOp :: "unaryOp \<Rightarrow> operation" where
  "TranslateUnaryOp Ocast8signed_cs = Oconv Ocast8signed"
| "TranslateUnaryOp Ocast8unsigned_cs = Oconv Ocast8unsigned"
| "TranslateUnaryOp Ocast16signed_cs = Oconv Ocast16signed"
| "TranslateUnaryOp Ocast16unsigned_cs = Oconv Ocast16unsigned"
| "TranslateUnaryOp Onegint_cs = Oarith Oneg"
| "TranslateUnaryOp Onegl_cs = Olong Onegl"
| "TranslateUnaryOp Onegf_cs = Ofloat Onegf"
| "TranslateUnaryOp Onegs_cs = Ofloat Onegs"
| "TranslateUnaryOp Onotint_cs = Obit Onot"
| "TranslateUnaryOp Onotl_cs = Olong Onotl"
| "TranslateUnaryOp Osingleoffloat_cs = Ofconv Osingleoffloat"
| "TranslateUnaryOp Ofloatofsingle_cs = Ofconv Ofloatofsingle"
| "TranslateUnaryOp Ointoffloat_cs = Ofconv Ointoffloat"
| "TranslateUnaryOp Ointuoffloat_cs = Ofconv Ointuoffloat"
| "TranslateUnaryOp Ofloatofint_cs = Ofconv Ofloatofint"
| "TranslateUnaryOp Ofloatofintu_cs = Ofconv Ofloatofintu"
| "TranslateUnaryOp Olongoffloat_cs = Ofconv Olongoffloat"
| "TranslateUnaryOp Olonguoffloat_cs = Ofconv Olonguoffloat"
| "TranslateUnaryOp Ofloatoflong_cs = Ofconv Ofloatoflong"
| "TranslateUnaryOp Ofloatoflongu_cs = Ofconv Ofloatoflongu"
| "TranslateUnaryOp Ointoflong_cs = Oconv Ointoflong"
| "TranslateUnaryOp Olongofint_cs = Oconv Olongofint"
| "TranslateUnaryOp Olongofintu_cs = Oconv Olongofintu"
| "TranslateUnaryOp _ = Omove"

fun TranslateBinaryOp :: "binaryOp \<Rightarrow> operation" where
  "TranslateBinaryOp Oadd_cs = Oarith Oadd"
| "TranslateBinaryOp Osub_cs = Oarith Osub"
| "TranslateBinaryOp Omul_cs = Oarith Omul"
| "TranslateBinaryOp Odiv_cs = Oarith Odiv"
| "TranslateBinaryOp Odivu_cs = Oarith Odivu"
| "TranslateBinaryOp Omod_cs = Oarith Omod"
| "TranslateBinaryOp Omodu_cs = Oarith Omodu"
| "TranslateBinaryOp Oand_cs = Obit Oand"
| "TranslateBinaryOp Oor_cs = Obit Oor"
| "TranslateBinaryOp Oxor_cs = Obit Oxor"
| "TranslateBinaryOp Oshl_cs = Obit Oshl"
| "TranslateBinaryOp Oshr_cs = Obit Oshr"
| "TranslateBinaryOp Oshru_cs = Obit Oshru"
| "TranslateBinaryOp Oaddf_cs = Ofloat Oaddf"
| "TranslateBinaryOp Osubf_cs = Ofloat Osubf"
| "TranslateBinaryOp Omulf_cs = Ofloat Omulf"
| "TranslateBinaryOp Odivf_cs = Ofloat Odivf"
| "TranslateBinaryOp Oadds_cs = Ofloat Oadds"
| "TranslateBinaryOp Osubs_cs = Ofloat Osubs"
| "TranslateBinaryOp Omuls_cs = Ofloat Omuls"
| "TranslateBinaryOp Odivs_cs = Ofloat Odivs"
| "TranslateBinaryOp Oaddl_cs = Olong Oaddl"
| "TranslateBinaryOp Osubl_cs = Olong Osubl"
| "TranslateBinaryOp Omull_cs = Olong Omull"
| "TranslateBinaryOp Odivl_cs = Olong Odivl"
| "TranslateBinaryOp Odivlu_cs = Olong Odivlu"
| "TranslateBinaryOp Omodl_cs = Olong Omodl"
| "TranslateBinaryOp Omodlu_cs = Olong Omodlu"
| "TranslateBinaryOp Oandl_cs = Olong Oandl"
| "TranslateBinaryOp Oorl_cs = Olong Oorl"
| "TranslateBinaryOp Oxorl_cs = Olong Oxorl"
| "TranslateBinaryOp Oshll_cs = Olong Oshll"
| "TranslateBinaryOp Oshrl_cs = Olong Oshrl"
| "TranslateBinaryOp Oshrlu_cs = Olong Oshrlu"
| "TranslateBinaryOp _ = Oarith Oadd"

fun TranslateConstant :: "cs_const \<Rightarrow> operation" where
  "TranslateConstant (Ointconst_cs n) = Ointconst n"
| "TranslateConstant (Olongconst_cs n) = Olongconst n"
| "TranslateConstant (Ofloatconst_cs x) = Ofloatconst x"
| "TranslateConstant (Osingleconst_cs x) = Osingleconst x"
| "TranslateConstant (Oaddrsymbol_cs s n) = Oaddrsymbol s n"
| "TranslateConstant (Oaddrstack_cs n) = Oaddrstack n"

fun TranslateAddressingMode :: "addressingMode \<Rightarrow> addressingMode" where
  "TranslateAddressingMode (Aindexed n) = Aindexed n"
| "TranslateAddressingMode Aindexed2 = Aindexed2"
| "TranslateAddressingMode (Aindexed2shift n) = Aindexed2shift n"
| "TranslateAddressingMode (Aglobal s n) = Aglobal s n"
| "TranslateAddressingMode (Ainstack n) = Ainstack n"
| "TranslateAddressingMode (Aindexed2ext _ _) = Aindexed 0"

fun translateComparison :: "comparison \<Rightarrow> condition" where
  "translateComparison Ceq_cs = Ceq"
| "translateComparison Cne_cs = Cne"
| "translateComparison Clt_cs = Clt"
| "translateComparison Cle_cs = Cle"
| "translateComparison Cgt_cs = Cgt"
| "translateComparison Cge_cs = Cge"

text \<open>The conversion \<open>rtl.Condition(cmp)\<close> keeps the number of the constant.\<close>

definition as_Condition :: "comparison \<Rightarrow> condition" where
  "as_Condition c = [Ceq, Cne, Clt, Cle, Cgt, Cge] ! comparison_index c"

fun TranslateCompareOp :: "binaryOp \<Rightarrow> condition \<Rightarrow> operation" where
  "TranslateCompareOp Ocmpu_cs c = Ocompare (Ocmpu c)"
| "TranslateCompareOp Ocmpf_cs c = Ocompare (Ocmpf c)"
| "TranslateCompareOp Ocmps_cs c = Ocompare (Ocmps c)"
| "TranslateCompareOp Ocmpl_cs c = Ocompare (Ocmpl c)"
| "TranslateCompareOp Ocmplu_cs c = Ocompare (Ocmplu c)"
| "TranslateCompareOp _ c = Ocompare (Ocmp c)"

fun negateConditionCode :: "conditionCode \<Rightarrow> conditionCode" where
  "negateConditionCode (Ccomp c) = Ccomp (Negate c)"
| "negateConditionCode (Ccompu c) = Ccompu (Negate c)"
| "negateConditionCode (Ccompimm c n) = Ccompimm (Negate c) n"
| "negateConditionCode (Ccompuimm c n) = Ccompuimm (Negate c) n"
| "negateConditionCode (Ccompl c) = Ccompl (Negate c)"
| "negateConditionCode (Ccomplu c) = Ccomplu (Negate c)"
| "negateConditionCode (Ccomplimm c n) = Ccomplimm (Negate c) n"
| "negateConditionCode (Ccompluimm c n) = Ccompluimm (Negate c) n"
| "negateConditionCode (Ccompf c) = Cnotcompf c"
| "negateConditionCode (Cnotcompf c) = Ccompf c"
| "negateConditionCode (Ccomps c) = Cnotcomps c"
| "negateConditionCode (Cnotcomps c) = Ccomps c"

text \<open>No code for a conjunction or a disjunction, nor for the negation of one.\<close>

fun TranslateCondition :: "cond \<Rightarrow> (conditionCode \<times> expr list) option" where
  "TranslateCondition CondTrue = Some (Ccompimm Cne 0, [Econst (Ointconst_cs 1)])"
| "TranslateCondition CondFalse = Some (Ccompimm Cne 0, [Econst (Ointconst_cs 0)])"
| "TranslateCondition (CondCmp c a b) = Some (Ccomp (translateComparison c), [a, b])"
| "TranslateCondition (CondCmpu c a b) = Some (Ccompu (translateComparison c), [a, b])"
| "TranslateCondition (CondCmpf c a b) = Some (Ccompf (translateComparison c), [a, b])"
| "TranslateCondition (CondCmps c a b) = Some (Ccomps (translateComparison c), [a, b])"
| "TranslateCondition (CondCmpl c a b) = Some (Ccompl (translateComparison c), [a, b])"
| "TranslateCondition (CondCmplu c a b) = Some (Ccomplu (translateComparison c), [a, b])"
| "TranslateCondition (CondNot c) =
     map_option (\<lambda>(cc, args). (negateConditionCode cc, args)) (TranslateCondition c)"
| "TranslateCondition (CondAnd _ _) = None"
| "TranslateCondition (CondOr _ _) = None"

definition to_int32 :: "int \<Rightarrow> int32" where
  "to_int32 n = sint (word_of_int n :: w32)"

fun translateShiftOp :: "shiftOp \<Rightarrow> int \<Rightarrow> operation" where
  "translateShiftOp Slsl n = Obit (Oshlimm (to_int32 n))"
| "translateShiftOp Slsr n = Obit (Oshruimm (to_int32 n))"
| "translateShiftOp Sasr n = Obit (Oshrimm (to_int32 n))"

section \<open>Expressions\<close>

definition EmitOp :: "operation \<Rightarrow> reg list \<Rightarrow> reg \<Rightarrow> node \<Rightarrow> node gen" where
  "EmitOp op args dest succ = EmitInstr (Iop op args dest succ)"

definition EmitMove :: "reg \<Rightarrow> reg \<Rightarrow> node \<Rightarrow> node gen" where
  "EmitMove src dest succ = EmitOp Omove [src] dest succ"

definition EmitConst :: "cs_const \<Rightarrow> reg \<Rightarrow> node \<Rightarrow> node gen" where
  "EmitConst c dest succ = EmitOp (TranslateConstant c) [] dest succ"

definition EmitLoad :: "chunk \<Rightarrow> addressingMode \<Rightarrow> reg list \<Rightarrow> reg \<Rightarrow> node \<Rightarrow> node gen" where
  "EmitLoad ch mode args dest succ = EmitInstr (Iload ch mode args dest succ)"

definition EmitCond :: "conditionCode \<Rightarrow> reg list \<Rightarrow> node \<Rightarrow> node \<Rightarrow> node gen" where
  "EmitCond cc args ifso ifnot = EmitInstr (Icond cc args ifso ifnot)"

definition EmitNop :: "node \<Rightarrow> node gen" where
  "EmitNop succ = EmitInstr (Inop succ)"

definition translateVar :: "string \<Rightarrow> reg \<Rightarrow> node \<Rightarrow> node gen" where
  "translateVar x dest succ = do {
     src \<leftarrow> MapVar x;
     if src = dest then State_Monad.return succ else EmitMove src dest succ
   }"

definition translateLetvar :: "int \<Rightarrow> reg \<Rightarrow> node \<Rightarrow> node gen" where
  "translateLetvar i dest succ = do {
     src \<leftarrow> getLetBinding i;
     if src = 0 then EmitNop succ
     else if src = dest then State_Monad.return succ
     else EmitMove src dest succ
   }"

text \<open>
  A measure for the recursion: the arguments that \<open>TranslateCondition\<close> returns weigh less than the
  condition.
\<close>

fun expr_weight :: "expr \<Rightarrow> nat" and exprs_weight :: "expr list \<Rightarrow> nat" and cond_weight :: "cond \<Rightarrow> nat" where
  "expr_weight (Eunop _ a) = expr_weight a + 1"
| "expr_weight (Ebinop _ a b) = expr_weight a + expr_weight b + 1"
| "expr_weight (Eload _ _ es) = exprs_weight es + 1"
| "expr_weight (Econdition c a b) = cond_weight c + expr_weight a + expr_weight b + 1"
| "expr_weight (Elet a b) = expr_weight a + expr_weight b + 1"
| "expr_weight (Eaddshift _ _ a b) = expr_weight a + expr_weight b + 1"
| "expr_weight (Esubshift _ _ a b) = expr_weight a + expr_weight b + 1"
| "expr_weight (Ecmp _ _ a b) = expr_weight a + expr_weight b + 1"
| "expr_weight _ = 0"
| "exprs_weight [] = 0"
| "exprs_weight (e # es) = expr_weight e + exprs_weight es + 1"
| "cond_weight (CondCmp _ a b) = expr_weight a + expr_weight b + 3"
| "cond_weight (CondCmpu _ a b) = expr_weight a + expr_weight b + 3"
| "cond_weight (CondCmpf _ a b) = expr_weight a + expr_weight b + 3"
| "cond_weight (CondCmps _ a b) = expr_weight a + expr_weight b + 3"
| "cond_weight (CondCmpl _ a b) = expr_weight a + expr_weight b + 3"
| "cond_weight (CondCmplu _ a b) = expr_weight a + expr_weight b + 3"
| "cond_weight (CondNot c) = cond_weight c + 1"
| "cond_weight (CondAnd c d) = cond_weight c + cond_weight d + 1"
| "cond_weight (CondOr c d) = cond_weight c + cond_weight d + 1"
| "cond_weight _ = 2"

lemma TranslateCondition_weight:
  "TranslateCondition c = Some (cc, args) \<Longrightarrow> exprs_weight args < cond_weight c"
  by (induction c arbitrary: cc args rule: TranslateCondition.induct) fastforce+

text \<open>
  \<open>TranslateExprs\<close> is the loop of \<open>translateExprListToRegs\<close>, from the last expression to the first. A load
  with arguments translates them twice, and so does a condition; only the second translation is reached.
\<close>

function (sequential) TranslateExpr :: "expr \<Rightarrow> reg \<Rightarrow> node \<Rightarrow> node gen"
  and TranslateExprs :: "expr list \<Rightarrow> reg list \<Rightarrow> node \<Rightarrow> node gen"
  and TranslateCond :: "cond \<Rightarrow> node \<Rightarrow> node \<Rightarrow> node gen" where
  "TranslateExpr (Evar x) dest succ = translateVar x dest succ"
| "TranslateExpr (Econst c) dest succ = EmitConst c dest succ"
| "TranslateExpr (Eunop uop a) dest succ = do {
     argReg \<leftarrow> Fresh;
     opNode \<leftarrow> EmitOp (TranslateUnaryOp uop) [argReg] dest succ;
     TranslateExpr a argReg opNode
   }"
| "TranslateExpr (Ebinop bop a b) dest succ = do {
     leftReg \<leftarrow> Fresh;
     rightReg \<leftarrow> Fresh;
     opNode \<leftarrow> EmitOp (TranslateBinaryOp bop) [leftReg, rightReg] dest succ;
     rightEntry \<leftarrow> TranslateExpr b rightReg opNode;
     TranslateExpr a leftReg rightEntry
   }"
| "TranslateExpr (Eload ch mode args) dest succ = do {
     argRegs \<leftarrow> FreshN (length args);
     entry \<leftarrow> TranslateExprs args argRegs succ;
     loadNode \<leftarrow> EmitLoad ch (TranslateAddressingMode mode) argRegs dest succ;
     if args = [] then State_Monad.return loadNode else TranslateExprs args argRegs loadNode
   }"
| "TranslateExpr (Econdition c a b) dest succ = do {
     elseEntry \<leftarrow> TranslateExpr b dest succ;
     thenEntry \<leftarrow> TranslateExpr a dest succ;
     TranslateCond c thenEntry elseEntry
   }"
| "TranslateExpr (Elet a b) dest succ = do {
     boundReg \<leftarrow> Fresh;
     pushLetBinding boundReg;
     bodyEntry \<leftarrow> TranslateExpr b dest succ;
     entry \<leftarrow> TranslateExpr a boundReg bodyEntry;
     popLetBinding;
     State_Monad.return entry
   }"
| "TranslateExpr (Eletvar i) dest succ = translateLetvar i dest succ"
| "TranslateExpr (Eaddshift sh n a b) dest succ = do {
     leftReg \<leftarrow> Fresh;
     rightReg \<leftarrow> Fresh;
     shiftedReg \<leftarrow> Fresh;
     addNode \<leftarrow> EmitOp (Oarith Oadd) [leftReg, shiftedReg] dest succ;
     shiftNode \<leftarrow> EmitOp (translateShiftOp sh n) [rightReg] shiftedReg addNode;
     rightEntry \<leftarrow> TranslateExpr b rightReg shiftNode;
     TranslateExpr a leftReg rightEntry
   }"
| "TranslateExpr (Esubshift sh n a b) dest succ = do {
     leftReg \<leftarrow> Fresh;
     rightReg \<leftarrow> Fresh;
     shiftedReg \<leftarrow> Fresh;
     subNode \<leftarrow> EmitOp (Oarith Osub) [leftReg, shiftedReg] dest succ;
     shiftNode \<leftarrow> EmitOp (translateShiftOp sh n) [rightReg] shiftedReg subNode;
     rightEntry \<leftarrow> TranslateExpr b rightReg shiftNode;
     TranslateExpr a leftReg rightEntry
   }"
| "TranslateExpr (Ecmp bop c a b) dest succ = do {
     leftReg \<leftarrow> Fresh;
     rightReg \<leftarrow> Fresh;
     opNode \<leftarrow> EmitOp (TranslateCompareOp bop (as_Condition c)) [leftReg, rightReg] dest succ;
     rightEntry \<leftarrow> TranslateExpr b rightReg opNode;
     TranslateExpr a leftReg rightEntry
   }"
| "TranslateExprs (e # es) (r # rs) succ = do {
     entry \<leftarrow> TranslateExprs es rs succ;
     TranslateExpr e r entry
   }"
| "TranslateExprs _ _ succ = State_Monad.return succ"
| "TranslateCond c ifso ifnot = (case TranslateCondition c of
     Some (cc, args) \<Rightarrow> do {
       unused \<leftarrow> AllocNode;
       argRegs \<leftarrow> FreshN (length args);
       entry \<leftarrow> TranslateExprs args argRegs unused;
       condNode \<leftarrow> EmitCond cc argRegs ifso ifnot;
       TranslateExprs args argRegs condNode
     }
   | None \<Rightarrow> (case c of
       CondAnd c1 c2 \<Rightarrow> do {
         inner \<leftarrow> TranslateCond c2 ifso ifnot;
         TranslateCond c1 inner ifnot
       }
     | CondOr c1 c2 \<Rightarrow> do {
         inner \<leftarrow> TranslateCond c2 ifso ifnot;
         TranslateCond c1 ifso inner
       }
     | _ \<Rightarrow> State_Monad.return ifso))"
  by pat_completeness auto

termination
  by (relation "measure (\<lambda>x. case x of Inl (e, _, _) \<Rightarrow> expr_weight e
        | Inr (Inl (es, _, _)) \<Rightarrow> exprs_weight es | Inr (Inr (c, _, _)) \<Rightarrow> cond_weight c)")
    (auto dest: TranslateCondition_weight)

section \<open>Statements\<close>

definition translateAssign :: "string \<Rightarrow> expr \<Rightarrow> node \<Rightarrow> node gen" where
  "translateAssign x e succ = do { dest \<leftarrow> MapVar x; TranslateExpr e dest succ }"

definition translateStore_rtl :: "chunk \<Rightarrow> addressingMode \<Rightarrow> expr list \<Rightarrow> expr \<Rightarrow> node \<Rightarrow> node gen" where
  "translateStore_rtl ch mode args e succ = do {
     valueReg \<leftarrow> Fresh;
     addrRegs \<leftarrow> FreshN (length args);
     storeNode \<leftarrow> EmitInstr (Istore ch (TranslateAddressingMode mode) addrRegs valueReg succ);
     valueEntry \<leftarrow> TranslateExpr e valueReg storeNode;
     TranslateExprs args addrRegs valueEntry
   }"

definition MapResult :: "string option \<Rightarrow> reg gen" where
  "MapResult x = (case x of None \<Rightarrow> State_Monad.return 0 | Some y \<Rightarrow> MapVar y)"

definition direct_callee :: "expr \<Rightarrow> string option" where
  "direct_callee e = (case e of Econst (Oaddrsymbol_cs s _) \<Rightarrow> Some s | _ \<Rightarrow> None)"

definition translateCall_rtl :: "string option \<Rightarrow> sig option \<Rightarrow> expr \<Rightarrow> expr list \<Rightarrow> node \<Rightarrow> node gen" where
  "translateCall_rtl x sg e args succ = do {
     funcReg \<leftarrow> Fresh;
     argRegs \<leftarrow> FreshN (length args);
     destReg \<leftarrow> MapResult x;
     callNode \<leftarrow> EmitInstr (Icall (the_sig sg) (FunReg funcReg) argRegs destReg succ);
     case direct_callee e of
       Some s \<Rightarrow> do {
         AddInstr callNode (Icall (the_sig sg) (FunSymbol s) argRegs destReg succ);
         TranslateExprs args argRegs callNode
       }
     | None \<Rightarrow> do {
         funcEntry \<leftarrow> TranslateExpr e funcReg callNode;
         TranslateExprs args argRegs funcEntry
       }
   }"

definition translateTailcall_rtl :: "sig option \<Rightarrow> expr \<Rightarrow> expr list \<Rightarrow> node gen" where
  "translateTailcall_rtl sg e args = do {
     funcReg \<leftarrow> Fresh;
     argRegs \<leftarrow> FreshN (length args);
     tailNode \<leftarrow> EmitInstr (Itailcall (the_sig sg) (FunReg funcReg) argRegs);
     case direct_callee e of
       Some s \<Rightarrow> do {
         AddInstr tailNode (Itailcall (the_sig sg) (FunSymbol s) argRegs);
         TranslateExprs args argRegs tailNode
       }
     | None \<Rightarrow> do {
         funcEntry \<leftarrow> TranslateExpr e funcReg tailNode;
         TranslateExprs args argRegs funcEntry
       }
   }"

definition translateBuiltin_rtl :: "string option \<Rightarrow> string \<Rightarrow> expr list \<Rightarrow> node \<Rightarrow> node gen" where
  "translateBuiltin_rtl x bf args succ = do {
     argRegs \<leftarrow> FreshN (length args);
     destReg \<leftarrow> MapResult x;
     builtinNode \<leftarrow> EmitInstr (Ibuiltin bf argRegs (map_option (\<lambda>_. destReg) x) succ);
     TranslateExprs args argRegs builtinNode
   }"

definition translateExit :: "int \<Rightarrow> node gen" where
  "translateExit n = do {
     target \<leftarrow> Get n;
     case target of None \<Rightarrow> AllocNode | Some t \<Rightarrow> EmitInstr (Inop t)
   }"

definition switch_code :: "bool \<Rightarrow> int64 \<Rightarrow> conditionCode" where
  "switch_code isLong v = (if isLong then Ccomplimm Ceq v else Ccompimm Ceq (to_int32 v))"

definition translateReturn :: "expr option \<Rightarrow> node gen" where
  "translateReturn v = (case v of
     None \<Rightarrow> EmitInstr (Ireturn None)
   | Some e \<Rightarrow> do {
       retReg \<leftarrow> Fresh;
       retNode \<leftarrow> EmitInstr (Ireturn (Some retReg));
       TranslateExpr e retReg retNode
     })"

definition translateGoto :: "string \<Rightarrow> node gen" where
  "translateGoto l = do { targetNode \<leftarrow> GetOrCreateLabel l; EmitInstr (Inop targetNode) }"

text \<open>\<open>TranslateCases\<close> is the loop of \<open>translateSwitch\<close>, from the last case to the first.\<close>

fun TranslateStmt :: "stmt \<Rightarrow> node \<Rightarrow> node gen"
and TranslateCases :: "bool \<Rightarrow> reg \<Rightarrow> switchCase list \<Rightarrow> node \<Rightarrow> node \<Rightarrow> node gen" where
  "TranslateStmt Sskip succ = State_Monad.return succ"
| "TranslateStmt (Sassign x e) succ = translateAssign x e succ"
| "TranslateStmt (Sstore ch mode args e) succ = translateStore_rtl ch mode args e succ"
| "TranslateStmt (Scall x sg e args) succ = translateCall_rtl x sg e args succ"
| "TranslateStmt (Stailcall sg e args) succ = translateTailcall_rtl sg e args"
| "TranslateStmt (Sbuiltin x bf args) succ = translateBuiltin_rtl x bf args succ"
| "TranslateStmt (Sseq a b) succ = do {
     secondEntry \<leftarrow> TranslateStmt b succ;
     TranslateStmt a secondEntry
   }"
| "TranslateStmt (Sifthenelse c a b) succ = do {
     thenEntry \<leftarrow> TranslateStmt a succ;
     elseEntry \<leftarrow> TranslateStmt b succ;
     TranslateCond c thenEntry elseEntry
   }"
| "TranslateStmt (Sloop a) succ = do {
     header \<leftarrow> AllocNode;
     bodyEntry \<leftarrow> TranslateStmt a header;
     AddInstr header (Inop bodyEntry);
     State_Monad.return header
   }"
| "TranslateStmt (Sblock a) succ = do {
     Push succ;
     entry \<leftarrow> TranslateStmt a succ;
     Pop;
     State_Monad.return entry
   }"
| "TranslateStmt (Sexit n) succ = translateExit n"
| "TranslateStmt (Sswitch isLong e cs d) succ = do {
     exprReg \<leftarrow> Fresh;
     defaultEntry \<leftarrow> TranslateStmt d succ;
     currentElse \<leftarrow> TranslateCases isLong exprReg cs defaultEntry succ;
     TranslateExpr e exprReg currentElse
   }"
| "TranslateStmt (Sreturn v) succ = translateReturn v"
| "TranslateStmt (Slabel l a) succ = do {
     labelNode \<leftarrow> GetOrCreateLabel l;
     bodyEntry \<leftarrow> TranslateStmt a succ;
     AddInstr labelNode (Inop bodyEntry);
     State_Monad.return labelNode
   }"
| "TranslateStmt (Sgoto l) succ = translateGoto l"
| "TranslateCases isLong r [] els succ = State_Monad.return els"
| "TranslateCases isLong r (SwitchCase v a # cs) els succ = do {
     currentElse \<leftarrow> TranslateCases isLong r cs els succ;
     caseEntry \<leftarrow> TranslateStmt a succ;
     EmitInstr (Icond (switch_code isLong v) [r] caseEntry currentElse)
   }"

section \<open>Functions and programs\<close>

definition generate :: "cs_function \<Rightarrow> (reg list \<times> node) gen" where
  "generate f = do {
     paramRegs \<leftarrow> MapParams (cs_params f);
     varRegs \<leftarrow> MapVars (cs_vars f);
     SetStackSize (cs_stackspace f);
     exitNode \<leftarrow> AllocNode;
     AddInstr exitNode (Ireturn None);
     entryNode \<leftarrow> TranslateStmt (cs_body f) exitNode;
     State_Monad.return (paramRegs, entryNode)
   }"

definition TranslateFunction :: "cs_function \<Rightarrow> rtl_function" where
  "TranslateFunction f = (case run_state (generate f) NewTranslator of ((paramRegs, entryNode), g) \<Rightarrow>
     \<lparr>rtl_name = cs_name f, rtl_sig = cs_sig f, rtl_params = paramRegs, rtl_stacksize = cs_stackspace f,
      rtl_code = code g, rtl_entry = entryNode\<rparr>)"

definition TranslateProgram :: "cs_program \<Rightarrow> rtl_program" where
  "TranslateProgram p = \<lparr>rtl_globals = cs_globals p,
     rtl_functions = map TranslateFunction (cs_functions p)\<rparr>"

end
