(* ===== verification/RTLgenInv.thy ===== *)
theory RTLgenInv
  imports RTLgen
begin

text \<open>
  The invariant of RTL generation. Nodes and registers are taken from their supplies in increasing order,
  an instruction is never overwritten once its translator has returned, different variables and different
  labels never share a register or a node.
\<close>

section \<open>Runs of the state monad\<close>

lemma run_bind:
  "run_state (State_Monad.bind c k) g = (y, g'') \<longleftrightarrow>
     (\<exists>x g'. run_state c g = (x, g') \<and> run_state (k x) g' = (y, g''))"
  by (auto split: prod.splits)

lemma run_AllocNode [simp]:
  "run_state AllocNode g = (nextNode g, g\<lparr>nextNode := nextNode g + 1\<rparr>)"
  by (simp add: AllocNode_def)

lemma run_AddInstr [simp]: "run_state (AddInstr n i) g = ((), g\<lparr>code := (code g)(n \<mapsto> i)\<rparr>)"
  by (simp add: AddInstr_def)

lemma run_EmitInstr [simp]: "run_state (EmitInstr i) g =
    (nextNode g, g\<lparr>nextNode := nextNode g + 1, code := (code g)(nextNode g \<mapsto> i)\<rparr>)"
  by (simp add: EmitInstr_def)

lemma run_Fresh [simp]: "run_state Fresh g = (nextReg g, g\<lparr>nextReg := nextReg g + 1\<rparr>)"
  by (simp add: Fresh_def)

definition regs_from :: "reg \<Rightarrow> nat \<Rightarrow> reg list" where
  "regs_from r n = map (\<lambda>k. r + int k) [0..<n]"

lemma regs_from_simps [simp]:
  "regs_from r 0 = []" "regs_from r (Suc n) = r # regs_from (r + 1) n" "length (regs_from r n) = n"
  "set (regs_from r n) = {r ..< r + int n}" "distinct (regs_from r n)"
proof -
  show "regs_from r (Suc n) = r # regs_from (r + 1) n"
    by (simp add: regs_from_def upt_rec [of 0] map_Suc_upt [symmetric] comp_def add.assoc add.commute del: upt_Suc)
  have "y \<in> (\<lambda>k. r + int k) ` {0..<n}" if "r \<le> y" "y < r + int n" for y
    using that by (intro image_eqI [of _ _ "nat (y - r)"]) auto
  then show "set (regs_from r n) = {r ..< r + int n}"
    by (auto simp: regs_from_def)
qed (auto simp: regs_from_def distinct_map inj_on_def)

lemma run_FreshN [simp]: "run_state (FreshN n) g =
    (regs_from (nextReg g) n, g\<lparr>nextReg := nextReg g + int n\<rparr>)"
  by (induction n arbitrary: g) (simp_all add: add_ac)

lemma run_lets [simp]:
  "run_state (pushLetBinding r) g = ((), g\<lparr>letBindings := letBindings g @ [r]\<rparr>)"
  "run_state popLetBinding g = ((), g\<lparr>letBindings := butlast (letBindings g)\<rparr>)"
  "run_state (getLetBinding i) g = (case from_top (letBindings g) i of None \<Rightarrow> 0 | Some r \<Rightarrow> r, g)"
  by (simp_all add: pushLetBinding_def popLetBinding_def getLetBinding_def)

lemma run_exits [simp]:
  "run_state (Push n) g = ((), g\<lparr>exits := exits g @ [n]\<rparr>)"
  "run_state Pop g = ((), g\<lparr>exits := butlast (exits g)\<rparr>)"
  "run_state (Get i) g = (from_top (exits g) i, g)"
  by (simp_all add: Push_def Pop_def Get_def)

lemma run_MapVar: "run_state (MapVar x) g = (case varToReg g x of
    Some r \<Rightarrow> (r, g)
  | None \<Rightarrow> (nextReg g, g\<lparr>nextReg := nextReg g + 1, varToReg := (varToReg g)(x \<mapsto> nextReg g)\<rparr>))"
  by (simp add: MapVar_def LookupVar_def SetVar_def split: option.splits)

lemmas emit_defs = EmitOp_def EmitMove_def EmitConst_def EmitLoad_def EmitCond_def EmitNop_def

section \<open>The invariant\<close>

definition injective_map :: "('a \<rightharpoonup> 'b) \<Rightarrow> bool" where
  "injective_map f \<longleftrightarrow> (\<forall>x y v. f x = Some v \<longrightarrow> f y = Some v \<longrightarrow> x = y)"

lemma injective_map_upd:
  assumes "injective_map f" and "\<And>y. f y \<noteq> Some v"
  shows "injective_map (f(x \<mapsto> v))"
  using assms by (auto simp: injective_map_def)

definition wf_gen :: "translator \<Rightarrow> bool" where
  "wf_gen g \<longleftrightarrow> 0 < nextNode g \<and> 0 < nextReg g \<and>
     (\<forall>n i. code g n = Some i \<longrightarrow> n < nextNode g) \<and>
     (\<forall>l n. labelNodes g l = Some n \<longrightarrow> n < nextNode g) \<and> injective_map (labelNodes g) \<and>
     (\<forall>x r. varToReg g x = Some r \<longrightarrow> 0 < r \<and> r < nextReg g) \<and> injective_map (varToReg g) \<and>
     (\<forall>r\<in>set (letBindings g). 0 < r \<and> r < nextReg g)"

text \<open>A label whose node has no instruction yet.\<close>

definition label_open :: "translator \<Rightarrow> string \<Rightarrow> bool" where
  "label_open g l \<longleftrightarrow> (\<forall>n. labelNodes g l = Some n \<longrightarrow> code g n = None)"

text \<open>What a translator may change when the statement it translates defines the labels in \<open>D\<close>.\<close>

definition grows :: "string set \<Rightarrow> translator \<Rightarrow> translator \<Rightarrow> bool" where
  "grows D g g' \<longleftrightarrow> nextNode g \<le> nextNode g' \<and> nextReg g \<le> nextReg g' \<and>
     code g \<subseteq>\<^sub>m code g' \<and> varToReg g \<subseteq>\<^sub>m varToReg g' \<and> labelNodes g \<subseteq>\<^sub>m labelNodes g' \<and>
     (\<forall>n<nextNode g. code g n = None \<longrightarrow> code g' n \<noteq> None \<longrightarrow> (\<exists>l\<in>D. labelNodes g l = Some n)) \<and>
     (\<forall>l n. labelNodes g' l = Some n \<longrightarrow> n < nextNode g \<longrightarrow> labelNodes g l = Some n) \<and>
     (\<forall>l. l \<notin> D \<longrightarrow> label_open g l \<longrightarrow> label_open g' l)"

definition same_stacks :: "translator \<Rightarrow> translator \<Rightarrow> bool" where
  "same_stacks g g' \<longleftrightarrow> letBindings g' = letBindings g \<and> exits g' = exits g"

lemma grows_refl [simp]: "grows D g g"
  by (simp add: grows_def)

lemma grows_trans: "grows Da g g1 \<Longrightarrow> grows Db g1 g2 \<Longrightarrow> grows (Da \<union> Db) g g2"
  unfolding grows_def
  apply (intro conjI)
         apply linarith
        apply linarith
       apply (meson map_le_trans)
      apply (meson map_le_trans)
     apply (meson map_le_trans)
    apply (metis UnCI order.strict_trans2)
   apply (metis order.strict_trans2)
  apply (metis UnCI)
  done

definition maintains :: "string set \<Rightarrow> 'a gen \<Rightarrow> bool" where
  "maintains D c \<longleftrightarrow> (\<forall>g x g'. wf_gen g \<longrightarrow> (\<forall>l\<in>D. label_open g l) \<longrightarrow> run_state c g = (x, g') \<longrightarrow>
     wf_gen g' \<and> grows D g g' \<and> same_stacks g g')"

lemma keepsI:
  assumes "\<And>g x g'. wf_gen g \<Longrightarrow> \<forall>l\<in>D. label_open g l \<Longrightarrow> run_state c g = (x, g') \<Longrightarrow>
    wf_gen g' \<and> grows D g g' \<and> same_stacks g g'"
  shows "maintains D c"
  using assms by (simp add: maintains_def)

lemma keepsD:
  assumes "maintains D c" and "run_state c g = (x, g')" and "wf_gen g" and "\<forall>l\<in>D. label_open g l"
  shows "wf_gen g'" and "grows D g g'" and "same_stacks g g'"
  using assms by (auto simp: maintains_def)

lemma keeps_bind:
  assumes "maintains Da c" and "\<And>x. maintains Db (k x)" and "Da \<inter> Db = {}"
  shows "maintains (Da \<union> Db) (State_Monad.bind c k)"
proof (rule keepsI)
  fix g y g'' assume *: "wf_gen g" "\<forall>l\<in>Da \<union> Db. label_open g l" "run_state (State_Monad.bind c k) g = (y, g'')"
  then obtain x g' where run: "run_state c g = (x, g')" "run_state (k x) g' = (y, g'')"
    by (auto simp: run_bind simp del: run_state_bind)
  note c = keepsD [OF assms(1) run(1) *(1)]
  have 1: "wf_gen g'" "grows Da g g'" "same_stacks g g'" using *(2) c by auto
  have "\<forall>l\<in>Db. label_open g' l"
    using *(2) assms(3) 1(2) unfolding grows_def by blast
  note 2 = keepsD [OF assms(2) run(2) 1(1) this]
  show "wf_gen g'' \<and> grows (Da \<union> Db) g g'' \<and> same_stacks g g''"
    using grows_trans [OF 1(2) 2(2)] 1(3) 2 by (simp add: same_stacks_def)
qed

lemma keeps_bind0: "maintains {} c \<Longrightarrow> (\<And>x. maintains {} (k x)) \<Longrightarrow> maintains {} (State_Monad.bind c k)"
  using keeps_bind [of "{}" c "{}" k] by simp

lemma keeps_return [intro]: "maintains D (State_Monad.return x)"
  by (auto simp: maintains_def same_stacks_def)

lemma keeps_AllocNode [intro]: "maintains {} AllocNode"
  by (rule keepsI) (fastforce simp: wf_gen_def grows_def same_stacks_def label_open_def)

lemma keeps_EmitInstr [intro]: "maintains {} (EmitInstr i)"
  by (rule keepsI) (force simp: wf_gen_def grows_def same_stacks_def label_open_def map_le_def)

lemma keeps_Fresh [intro]: "maintains {} Fresh"
  by (rule keepsI) (fastforce simp: wf_gen_def grows_def same_stacks_def label_open_def)

lemma keeps_FreshN [intro]: "maintains {} (FreshN n)"
  by (induction n) (auto intro!: keeps_bind0)

lemma keeps_MapVar [intro]: "maintains {} (MapVar x)"
proof (rule keepsI)
  fix g r g' assume *: "wf_gen g" "run_state (MapVar x) g = (r, g')"
  show "wf_gen g' \<and> grows {} g g' \<and> same_stacks g g'"
  proof (cases "varToReg g x")
    case None
    then have g': "g' = g\<lparr>nextReg := nextReg g + 1, varToReg := (varToReg g)(x \<mapsto> nextReg g)\<rparr>"
      using *(2) by (auto simp: run_MapVar)
    have "injective_map ((varToReg g)(x \<mapsto> nextReg g))"
      using *(1) by (intro injective_map_upd) (auto simp: wf_gen_def)
    moreover have "\<forall>y r. varToReg g y = Some r \<longrightarrow> r < nextReg g" using *(1) by (simp add: wf_gen_def)
    ultimately show ?thesis
      using *(1) None by (auto simp: g' wf_gen_def grows_def same_stacks_def label_open_def map_le_def less_imp_le
        dest!: spec)
  qed (use * in \<open>auto simp: run_MapVar same_stacks_def\<close>)
qed

lemma keeps_emit [intro]:
  "maintains {} (EmitOp op args dest succ)" "maintains {} (EmitMove src dest succ)" "maintains {} (EmitConst c dest succ)"
  "maintains {} (EmitLoad ch mode args dest succ)" "maintains {} (EmitCond cc args ifso ifnot)" "maintains {} (EmitNop succ)"
  by (auto simp: emit_defs)

lemma keeps_translateVar [intro]: "maintains {} (translateVar x dest succ)"
  by (auto simp: translateVar_def intro!: keeps_bind0)

lemma keeps_translateLetvar [intro]: "maintains {} (translateLetvar i dest succ)"
proof -
  have "maintains {} (getLetBinding i)" by (auto simp: maintains_def same_stacks_def)
  then show ?thesis by (auto simp: translateLetvar_def intro!: keeps_bind0)
qed

section \<open>Expressions\<close>

declare TranslateCond.simps [simp del]

lemma TranslateCond_simps [simp]:
  "TranslateCond (CondAnd c1 c2) ifso ifnot = do {
     inner \<leftarrow> TranslateCond c2 ifso ifnot;
     TranslateCond c1 inner ifnot
   }"
  "TranslateCond (CondOr c1 c2) ifso ifnot = do {
     inner \<leftarrow> TranslateCond c2 ifso ifnot;
     TranslateCond c1 ifso inner
   }"
  by (subst TranslateCond.simps, simp)+

lemma TranslateCond_leaf:
  "TranslateCondition c = Some (cc, args) \<Longrightarrow> TranslateCond c ifso ifnot = do {
     unused \<leftarrow> AllocNode;
     argRegs \<leftarrow> FreshN (length args);
     entry \<leftarrow> TranslateExprs args argRegs unused;
     condNode \<leftarrow> EmitCond cc argRegs ifso ifnot;
     TranslateExprs args argRegs condNode
   }"
  by (simp add: TranslateCond.simps)

lemma TranslateCond_dropped:
  "TranslateCondition (CondNot c) = None \<Longrightarrow> TranslateCond (CondNot c) ifso ifnot = State_Monad.return ifso"
  by (simp add: TranslateCond.simps)

text \<open>A condition has a code, is a conjunction or disjunction, or is the negation of one of these.\<close>

lemma TranslateCond_cases:
  obtains (leaf) cc args where "TranslateCondition c = Some (cc, args)"
    | (conj) c1 c2 where "c = CondAnd c1 c2"
    | (disj) c1 c2 where "c = CondOr c1 c2"
    | (dropped) d where "c = CondNot d" "TranslateCondition c = None"
  by (cases "TranslateCondition c"; cases c) auto

lemma keeps_let:
  assumes "\<And>r. maintains {} (c r)"
  shows "maintains {} (do { r \<leftarrow> Fresh; pushLetBinding r; x \<leftarrow> c r; popLetBinding; State_Monad.return x })"
proof (rule keepsI)
  fix g x g'
  assume wf: "wf_gen g"
    and run: "run_state (do { r \<leftarrow> Fresh; pushLetBinding r; x \<leftarrow> c r; popLetBinding; State_Monad.return x }) g = (x, g')"
  define g1 where "g1 = g\<lparr>nextReg := nextReg g + 1, letBindings := letBindings g @ [nextReg g]\<rparr>"
  from run obtain g2 where g2: "run_state (c (nextReg g)) g1 = (x, g2)"
      "g' = g2\<lparr>letBindings := butlast (letBindings g2)\<rparr>"
    by (auto simp: g1_def split: prod.splits)
  have g1: "wf_gen g1" "grows {} g g1"
    using wf by (fastforce simp: g1_def wf_gen_def grows_def label_open_def)+
  note c = keepsD [OF assms g2(1) g1(1)]
  have "letBindings g2 = letBindings g @ [nextReg g]" "exits g2 = exits g"
    using c(3) by (simp_all add: same_stacks_def g1_def)
  then have "wf_gen g' \<and> same_stacks g g'"
    using c(1) by (auto simp: g2(2) wf_gen_def same_stacks_def)
  moreover have "grows {} g g2" using grows_trans [OF g1(2) c(2)] by simp
  then have "grows {} g g'" by (simp add: g2(2) grows_def label_open_def)
  ultimately show "wf_gen g' \<and> grows {} g g' \<and> same_stacks g g'" by blast
qed

lemma keeps_TranslateExpr:
  "maintains {} (TranslateExpr e dest succ)"
  "maintains {} (TranslateExprs es rs succ)"
  "maintains {} (TranslateCond c ifso ifnot)"
proof (induction e dest succ and es rs succ and c ifso ifnot
    rule: TranslateExpr_TranslateExprs_TranslateCond.induct)
  case (7 a b dest succ)
  have "maintains {} (do { bodyEntry \<leftarrow> TranslateExpr b dest succ; TranslateExpr a r bodyEntry })" for r
    using 7 by (auto intro!: keeps_bind0)
  from keeps_let [OF this] show ?case by simp
next
  case (14 c ifso ifnot)
  show ?case
  proof (cases c rule: TranslateCond_cases)
    case leaf
    then show ?thesis using 14 by (auto simp: TranslateCond_leaf intro!: keeps_bind0)
  next
    case conj
    then show ?thesis using 14 by (auto intro!: keeps_bind0)
  next
    case disj
    then show ?thesis using 14 by (auto intro!: keeps_bind0)
  qed (auto simp: TranslateCond_dropped)
qed (auto intro!: keeps_bind0)

section \<open>Statements\<close>

fun stmt_labels :: "stmt \<Rightarrow> string list" and case_labels :: "switchCase list \<Rightarrow> string list" where
  "stmt_labels (Sseq a b) = stmt_labels a @ stmt_labels b"
| "stmt_labels (Sifthenelse c a b) = stmt_labels a @ stmt_labels b"
| "stmt_labels (Sloop a) = stmt_labels a"
| "stmt_labels (Sblock a) = stmt_labels a"
| "stmt_labels (Sswitch isLong e cs d) = case_labels cs @ stmt_labels d"
| "stmt_labels (Slabel l a) = l # stmt_labels a"
| "stmt_labels _ = []"
| "case_labels [] = []"
| "case_labels (SwitchCase v a # cs) = stmt_labels a @ case_labels cs"

lemma keeps_bindD:
  "maintains Da c \<Longrightarrow> (\<And>x. maintains Db (k x)) \<Longrightarrow> Da \<inter> Db = {} \<Longrightarrow> D = Da \<union> Db \<Longrightarrow>
    maintains D (State_Monad.bind c k)"
  using keeps_bind by blast

lemma keeps_bind_left: "maintains D c \<Longrightarrow> (\<And>x. maintains {} (k x)) \<Longrightarrow> maintains D (State_Monad.bind c k)"
  by (rule keeps_bindD [of D _ "{}"]) auto

lemma keeps_bind_right: "maintains {} c \<Longrightarrow> (\<And>x. maintains D (k x)) \<Longrightarrow> maintains D (State_Monad.bind c k)"
  by (rule keeps_bindD [of "{}" _ D]) auto

text \<open>An instruction written to a node that was set aside for it.\<close>

lemma reserved_AddInstr:
  assumes "wf_gen g'" and "grows D g g'" and "code g' n = None" and "n < nextNode g'"
    and "n < nextNode g \<Longrightarrow> \<exists>l\<in>D. labelNodes g l = Some n" and "\<And>l. labelNodes g' l = Some n \<Longrightarrow> l \<in> D"
  shows "wf_gen (g'\<lparr>code := (code g')(n \<mapsto> i)\<rparr>)" and "grows D g (g'\<lparr>code := (code g')(n \<mapsto> i)\<rparr>)"
proof -
  show "wf_gen (g'\<lparr>code := (code g')(n \<mapsto> i)\<rparr>)"
    using assms(1,4) by (simp add: wf_gen_def)
  have "code g n = None" using assms(2,3) by (metis domIff grows_def map_le_def)
  then have "code g \<subseteq>\<^sub>m (code g')(n \<mapsto> i)"
    using assms(2) by (auto simp: grows_def map_le_def)
  moreover have "label_open (g'\<lparr>code := (code g')(n \<mapsto> i)\<rparr>) l" if "l \<notin> D" "label_open g' l" for l
    using that assms(6) by (auto simp: label_open_def)
  ultimately show "grows D g (g'\<lparr>code := (code g')(n \<mapsto> i)\<rparr>)"
    using assms(2,5) by (auto simp: grows_def)
qed

lemma keeps_reserve:
  assumes "\<And>n. maintains D (c n)"
  shows "maintains D (do { n \<leftarrow> AllocNode; x \<leftarrow> c n; AddInstr n (Inop x); State_Monad.return n })"
proof (rule keepsI)
  fix g y g'
  assume wf: "wf_gen g" "\<forall>l\<in>D. label_open g l"
    and run: "run_state (do { n \<leftarrow> AllocNode; x \<leftarrow> c n; AddInstr n (Inop x); State_Monad.return n }) g = (y, g')"
  define n g1 where "n = nextNode g" and "g1 = g\<lparr>nextNode := nextNode g + 1\<rparr>"
  from run obtain x g2 where g2: "run_state (c n) g1 = (x, g2)" "g' = g2\<lparr>code := (code g2)(n \<mapsto> Inop x)\<rparr>"
    by (auto simp: n_def g1_def split: prod.splits)
  have g1: "wf_gen g1" "grows {} g g1" "\<forall>l\<in>D. label_open g1 l" "code g1 n = None" "\<And>l. labelNodes g1 l \<noteq> Some n"
    using wf keepsD(1,2) [OF keeps_AllocNode run_AllocNode wf(1)]
    by (auto simp: g1_def n_def label_open_def wf_gen_def)
  note c = keepsD [OF assms g2(1) g1(1,3)]
  have "n < nextNode g1" by (simp add: g1_def n_def)
  then have lab: "labelNodes g2 l \<noteq> Some n" for l
    using c(2) g1(5) unfolding grows_def by blast
  have "code g2 n = None" using c(2) g1(4,5) \<open>n < nextNode g1\<close> unfolding grows_def by blast
  moreover have "n < nextNode g2" using c(2) by (simp add: grows_def g1_def n_def)
  moreover have "grows D g g2" using grows_trans [OF g1(2) c(2)] by simp
  ultimately show "wf_gen g' \<and> grows D g g' \<and> same_stacks g g'"
    using reserved_AddInstr [OF c(1), of D g n "Inop x"] lab c(3)
    by (auto simp: g2(2) n_def same_stacks_def g1_def)
qed

lemma keeps_block:
  assumes "maintains D c"
  shows "maintains D (do { Push n; x \<leftarrow> c; Pop; State_Monad.return x })"
proof (rule keepsI)
  fix g x g'
  assume wf: "wf_gen g" "\<forall>l\<in>D. label_open g l"
    and run: "run_state (do { Push n; x \<leftarrow> c; Pop; State_Monad.return x }) g = (x, g')"
  define g1 where "g1 = g\<lparr>exits := exits g @ [n]\<rparr>"
  from run obtain g2 where g2: "run_state c g1 = (x, g2)" "g' = g2\<lparr>exits := butlast (exits g2)\<rparr>"
    by (auto simp: g1_def split: prod.splits)
  have "wf_gen g1" "\<forall>l\<in>D. label_open g1 l"
    using wf by (auto simp: g1_def wf_gen_def label_open_def)
  note c = keepsD [OF assms g2(1) this]
  show "wf_gen g' \<and> grows D g g' \<and> same_stacks g g'"
    using c by (auto simp: g2(2) g1_def wf_gen_def grows_def label_open_def same_stacks_def)
qed

lemma wf_gen_upd_label:
  assumes "wf_gen g" and "labelNodes g l = None"
  defines "g1 \<equiv> g\<lparr>nextNode := nextNode g + 1, labelNodes := (labelNodes g)(l \<mapsto> nextNode g)\<rparr>"
  shows "wf_gen g1" and "grows {} g g1" and "same_stacks g g1" and "code g1 (nextNode g) = None"
proof -
  have "injective_map ((labelNodes g)(l \<mapsto> nextNode g))"
    using assms(1) by (intro injective_map_upd) (auto simp: wf_gen_def)
  moreover show "code g1 (nextNode g) = None"
    using assms(1) by (cases "code g (nextNode g)") (auto simp: g1_def wf_gen_def)
  ultimately show "wf_gen g1" "grows {} g g1" "same_stacks g g1"
    using assms(1,2) by (fastforce simp: g1_def wf_gen_def grows_def same_stacks_def label_open_def map_le_def)+
qed

lemma GetOrCreateLabel_run:
  assumes "run_state (GetOrCreateLabel l) g = (n, g')" and "wf_gen g"
  shows "wf_gen g'" and "grows {} g g'" and "same_stacks g g'"
    and "labelNodes g' l = Some n" and "n < nextNode g \<Longrightarrow> labelNodes g l = Some n"
    and "label_open g l \<Longrightarrow> code g' n = None"
  using assms wf_gen_upd_label [OF assms(2), of l]
  by (auto simp: GetOrCreateLabel_def same_stacks_def label_open_def split: option.splits)

lemma keeps_GetOrCreateLabel [intro]: "maintains {} (GetOrCreateLabel l)"
  by (rule keepsI) (auto dest: GetOrCreateLabel_run)

lemma keeps_label:
  assumes "maintains D c" and "l \<notin> D"
  shows "maintains (insert l D) (do { n \<leftarrow> GetOrCreateLabel l; x \<leftarrow> c; AddInstr n (Inop x); State_Monad.return n })"
proof (rule keepsI)
  fix g y g'
  assume wf: "wf_gen g" "\<forall>l\<in>insert l D. label_open g l"
    and run: "run_state (do { n \<leftarrow> GetOrCreateLabel l; x \<leftarrow> c; AddInstr n (Inop x); State_Monad.return n }) g = (y, g')"
  from run obtain n g1 x g2 where g1: "run_state (GetOrCreateLabel l) g = (n, g1)"
      and g2: "run_state c g1 = (x, g2)" "g' = g2\<lparr>code := (code g2)(n \<mapsto> Inop x)\<rparr>"
    by (auto split: prod.splits)
  note L = GetOrCreateLabel_run [OF g1 wf(1)]
  have "\<forall>l\<in>D. label_open g1 l" using L(2) wf(2) by (auto simp: grows_def)
  note c = keepsD [OF assms(1) g2(1) L(1) this]
  have n: "n < nextNode g1" "code g1 n = None" using L(1,4,6) wf(2) by (auto simp: wf_gen_def)
  have inj: "l' = l" if "labelNodes g1 l' = Some n" for l'
    using that L(1,4) by (auto simp: wf_gen_def injective_map_def)
  have lab: "l' = l" if "labelNodes g2 l' = Some n" for l'
    using that c(2) n(1) inj unfolding grows_def by blast
  have "code g2 n = None" using c(2) n inj assms(2) unfolding grows_def by blast
  moreover have "n < nextNode g2" using c(2) n(1) by (simp add: grows_def)
  moreover have "grows D g g2" using grows_trans [OF L(2) c(2)] by simp
  then have "grows (insert l D) g g2" unfolding grows_def by blast
  ultimately show "wf_gen g' \<and> grows (insert l D) g g' \<and> same_stacks g g'"
    using reserved_AddInstr [OF c(1), of "insert l D" g n "Inop x"] lab L(3,5) c(3)
    by (auto simp: g2(2) same_stacks_def)
qed

text \<open>A call to a symbol replaces the instruction that was emitted for a pointer.\<close>

lemma emit_replace:
  "State_Monad.bind (EmitInstr i) (\<lambda>n. State_Monad.bind (AddInstr n j) (\<lambda>_. k n)) = State_Monad.bind (EmitInstr j) k"
  by (rule state_ext) simp

definition callee_ref :: "expr \<Rightarrow> reg \<Rightarrow> reg funRef" where
  "callee_ref e r = (case direct_callee e of Some s \<Rightarrow> FunSymbol s | None \<Rightarrow> FunReg r)"

definition TranslateCallee :: "expr \<Rightarrow> reg \<Rightarrow> node \<Rightarrow> node gen" where
  "TranslateCallee e r succ = (case direct_callee e of
     Some s \<Rightarrow> State_Monad.return succ | None \<Rightarrow> TranslateExpr e r succ)"

lemma translateCall_rtl_eq: "translateCall_rtl x sg e args succ = do {
     funcReg \<leftarrow> Fresh;
     argRegs \<leftarrow> FreshN (length args);
     destReg \<leftarrow> MapResult x;
     callNode \<leftarrow> EmitInstr (Icall (the_sig sg) (callee_ref e funcReg) argRegs destReg succ);
     funcEntry \<leftarrow> TranslateCallee e funcReg callNode;
     TranslateExprs args argRegs funcEntry
   }"
  by (cases "direct_callee e") (simp_all add: translateCall_rtl_def callee_ref_def TranslateCallee_def emit_replace)

lemma translateTailcall_rtl_eq: "translateTailcall_rtl sg e args = do {
     funcReg \<leftarrow> Fresh;
     argRegs \<leftarrow> FreshN (length args);
     tailNode \<leftarrow> EmitInstr (Itailcall (the_sig sg) (callee_ref e funcReg) argRegs);
     funcEntry \<leftarrow> TranslateCallee e funcReg tailNode;
     TranslateExprs args argRegs funcEntry
   }"
  by (cases "direct_callee e") (simp_all add: translateTailcall_rtl_def callee_ref_def TranslateCallee_def emit_replace)

lemma keeps_leaves [intro]:
  "maintains {} (MapResult x)" "maintains {} (TranslateCallee e r n)" "maintains {} (translateAssign y e n)"
  "maintains {} (translateStore_rtl ch mode args e n)" "maintains {} (translateCall_rtl x sg e args n)"
  "maintains {} (translateTailcall_rtl sg e args)" "maintains {} (translateBuiltin_rtl x bf args n)"
  "maintains {} (translateReturn v)" "maintains {} (translateGoto l)"
proof -
  show *: "maintains {} (MapResult x)" "maintains {} (TranslateCallee e r n)" for r n
    by (auto simp: MapResult_def TranslateCallee_def keeps_TranslateExpr split: option.split)
  show "maintains {} (translateCall_rtl x sg e args n)" "maintains {} (translateTailcall_rtl sg e args)"
    "maintains {} (translateBuiltin_rtl x bf args n)"
    unfolding translateCall_rtl_eq translateTailcall_rtl_eq translateBuiltin_rtl_def
    by (auto intro!: keeps_bind0 * keeps_TranslateExpr)
qed (auto simp: translateAssign_def translateStore_rtl_def translateReturn_def translateGoto_def keeps_TranslateExpr
    intro!: keeps_bind0 split: option.split)

lemma keeps_translateExit [intro]: "maintains {} (translateExit n)"
proof -
  have "maintains {} (Get n)" by (auto simp: maintains_def same_stacks_def)
  then show ?thesis by (auto simp: translateExit_def intro!: keeps_bind0 split: option.split)
qed

lemma keeps_TranslateStmt:
  "distinct (stmt_labels s) \<Longrightarrow> maintains (set (stmt_labels s)) (TranslateStmt s succ)"
  "distinct (case_labels cs) \<Longrightarrow> maintains (set (case_labels cs)) (TranslateCases isLong r cs els succ)"
proof (induction s succ and isLong r cs els succ rule: TranslateStmt_TranslateCases.induct)
  case (7 a b succ)
  then show ?case by (auto intro!: keeps_bindD)
next
  case (8 c a b succ)
  then have "maintains (set (stmt_labels b)) (do { n \<leftarrow> TranslateStmt b succ; TranslateCond c m n })" for m
    by (intro keeps_bind_left) (auto simp: keeps_TranslateExpr)
  with 8 show ?case by (auto intro!: keeps_bindD keeps_TranslateExpr)
next
  case (9 a succ)
  then show ?case using keeps_reserve by simp
next
  case (10 a succ)
  then show ?case using keeps_block by simp
next
  case (12 isLong e cs d succ)
  then have "maintains (set (case_labels cs)) (do { n \<leftarrow> TranslateCases isLong r cs m succ; TranslateExpr e r n })" for r m
    by (intro keeps_bind_left) (auto simp: keeps_TranslateExpr)
  with 12 have "maintains (set (stmt_labels (Sswitch isLong e cs d)))
      (do { m \<leftarrow> TranslateStmt d succ; n \<leftarrow> TranslateCases isLong r cs m succ; TranslateExpr e r n })" for r
    by (auto intro!: keeps_bindD keeps_TranslateExpr)
  then show ?case unfolding TranslateStmt.simps by (rule keeps_bind_right [OF keeps_Fresh])
next
  case (14 l a succ)
  then show ?case using keeps_label by simp
next
  case (17 isLong r v a cs els succ)
  then have "maintains (set (stmt_labels a))
      (do { n \<leftarrow> TranslateStmt a succ; EmitInstr (Icond (switch_code isLong v) [r] n m) })" for m
    by (intro keeps_bind_left) auto
  with 17 show ?case by (auto intro!: keeps_bindD)
qed auto

section \<open>Properties\<close>

text \<open>
  Property C33. The invariant of the translators is kept by every statement whose labels are distinct and not
  yet defined: nodes, registers of variables and nodes of labels stay below their supplies, different
  variables have different registers and different labels different nodes. No instruction that was emitted
  before is changed, no variable or label moves, and the stacks of let-bindings and of block exits are as
  before.
\<close>

theorem TranslateStmt_invariant:
  assumes "wf_gen g" and "distinct (stmt_labels s)" and "\<forall>l\<in>set (stmt_labels s). label_open g l"
    and "run_state (TranslateStmt s succ) g = (n, g')"
  shows "wf_gen g' \<and> code g \<subseteq>\<^sub>m code g' \<and> varToReg g \<subseteq>\<^sub>m varToReg g' \<and> labelNodes g \<subseteq>\<^sub>m labelNodes g' \<and>
    nextNode g \<le> nextNode g' \<and> nextReg g \<le> nextReg g' \<and> letBindings g' = letBindings g \<and> exits g' = exits g"
proof -
  note k = keepsD [OF keeps_TranslateStmt(1) [OF assms(2)] assms(4,1,3)]
  show ?thesis using k(1) k(2) [unfolded grows_def] k(3) [unfolded same_stacks_def] by blast
qed

theorem TranslateStmt_invariant_witness:
  "wf_gen (snd (run_state (TranslateStmt (Slabel ''again'' (Sblock (Sseq (Sloop (Sexit 0)) (Sgoto ''again'')))) 1) NewTranslator))"
proof -
  define s where "s = Slabel ''again'' (Sblock (Sseq (Sloop (Sexit 0)) (Sgoto ''again'')))"
  have "wf_gen NewTranslator" by (simp add: NewTranslator_def wf_gen_def injective_map_def)
  moreover have "distinct (stmt_labels s)" by (simp add: s_def)
  moreover have "\<forall>l\<in>set (stmt_labels s). label_open NewTranslator l" by (simp add: label_open_def NewTranslator_def)
  ultimately show ?thesis
    using TranslateStmt_invariant [of NewTranslator s 1, OF _ _ _ prod.collapse [symmetric]] by (simp add: s_def [symmetric])
qed

end
