(* ===== verification/RTLgenExpr.thy ===== *)
theory RTLgenExpr
  imports RTLgenInv
begin

text \<open>
  The graph that \<open>TranslateExpr\<close> builds computes the expression: started at the entry node it reaches the
  successor with the value in the destination, and writes only the destination and registers that were
  not allocated before. Conditions reach the node of the branch they select.
\<close>

section \<open>Operators\<close>

text \<open>The operators that have an RTL operation; the others are translated to a move or to an addition.\<close>

definition unop_ok :: "unaryOp \<Rightarrow> bool" where
  "unop_ok uop \<longleftrightarrow> uop \<notin> {Onotbool_cs, Olongofsingle_cs, Olonguofsingle_cs, Osingleoflong_cs, Osingleoflongu_cs}"

definition binop_ok :: "binaryOp \<Rightarrow> bool" where
  "binop_ok bop \<longleftrightarrow> bop \<notin> {Ocmp_cs, Ocmpu_cs, Ocmpf_cs, Ocmps_cs, Ocmpl_cs, Ocmplu_cs}"

fun mode_ok :: "addressingMode \<Rightarrow> bool" where
  "mode_ok (Aindexed2ext _ _) \<longleftrightarrow> False"
| "mode_ok _ \<longleftrightarrow> True"

lemma TranslateUnaryOp_word: "unop_ok uop \<Longrightarrow> word_op T (TranslateUnaryOp uop) [a] = word_unop T uop a"
  by (cases uop) (simp_all add: unop_ok_def guarded_def)

lemma map_option_guarded [simp]: "map_option f (guarded b x) = guarded b (f x)"
  by (simp add: guarded_def)

lemma TranslateBinaryOp_word: "binop_ok bop \<Longrightarrow> word_op T (TranslateBinaryOp bop) [a, b] = word_binop T bop a b"
  by (cases bop) (simp_all add: binop_ok_def guarded_def)

lemma TranslateConstant_word: "word_op T (TranslateConstant c) [] = Some (word_const T c)"
  by (cases c) simp_all

lemma TranslateAddressingMode_id: "mode_ok mode \<Longrightarrow> TranslateAddressingMode mode = mode"
  by (cases mode) simp_all

lemma translateComparison_cmp [simp]:
  "cmp_with (translateComparison c) a b \<longleftrightarrow> cs_compare c a b"
  "fcmp_with (translateComparison c) r \<longleftrightarrow> cs_fcompare c r"
  by (cases c; simp)+

lemma as_Condition_eq: "as_Condition c = translateComparison c"
  by (cases c) (simp_all add: as_Condition_def numeral_eq_Suc)

lemma TranslateCompareOp_word:
  "word_cmp T bop c a b = Some t \<Longrightarrow>
    word_op T (TranslateCompareOp bop (as_Condition c)) [a, b] = Some (if t then 1 else 0)"
  by (cases bop) (simp_all add: as_Condition_eq)

lemma to_int32_id [simp]: "- (2 ^ 31) \<le> n \<Longrightarrow> n < 2 ^ 31 \<Longrightarrow> to_int32 n = n"
  by (simp add: to_int32_def sint_sbintrunc' signed_take_bit_int_eq_self)

lemma of_int_to_int32 [simp]: "(of_int (to_int32 n) :: w32) = of_int n"
  by (simp add: to_int32_def)

lemma translateShiftOp_word:
  "word_shift sh n (lo b) = Some s \<Longrightarrow> word_op T (translateShiftOp sh n) [b] = Some (zx s)"
  by (cases sh) simp_all

lemma word_cond_negate:
  "word_cond T cc ws = Some t \<Longrightarrow> word_cond T (negateConditionCode cc) ws = Some (\<not> t)"
  by (cases "(T, cc, ws)" rule: word_cond.cases) auto

section \<open>The expressions that are translated faithfully\<close>

text \<open>
  Let-bound expressions must not refer to outer bindings: their translation looks at the stack of bindings
  after the new register has been pushed.
\<close>

fun lets_below :: "nat \<Rightarrow> expr \<Rightarrow> bool" and lets_below_list :: "nat \<Rightarrow> expr list \<Rightarrow> bool"
and lets_below_cond :: "nat \<Rightarrow> cond \<Rightarrow> bool" where
  "lets_below k (Eunop _ a) \<longleftrightarrow> lets_below k a"
| "lets_below k (Ebinop _ a b) \<longleftrightarrow> lets_below k a \<and> lets_below k b"
| "lets_below k (Eload _ _ es) \<longleftrightarrow> lets_below_list k es"
| "lets_below k (Econdition c a b) \<longleftrightarrow> lets_below_cond k c \<and> lets_below k a \<and> lets_below k b"
| "lets_below k (Elet a b) \<longleftrightarrow> lets_below k a \<and> lets_below (Suc k) b"
| "lets_below k (Eletvar i) \<longleftrightarrow> 0 \<le> i \<and> nat i < k"
| "lets_below k (Eaddshift _ _ a b) \<longleftrightarrow> lets_below k a \<and> lets_below k b"
| "lets_below k (Esubshift _ _ a b) \<longleftrightarrow> lets_below k a \<and> lets_below k b"
| "lets_below k (Ecmp _ _ a b) \<longleftrightarrow> lets_below k a \<and> lets_below k b"
| "lets_below k _ \<longleftrightarrow> True"
| "lets_below_list k [] \<longleftrightarrow> True"
| "lets_below_list k (e # es) \<longleftrightarrow> lets_below k e \<and> lets_below_list k es"
| "lets_below_cond k (CondCmp _ a b) \<longleftrightarrow> lets_below k a \<and> lets_below k b"
| "lets_below_cond k (CondCmpu _ a b) \<longleftrightarrow> lets_below k a \<and> lets_below k b"
| "lets_below_cond k (CondCmpf _ a b) \<longleftrightarrow> lets_below k a \<and> lets_below k b"
| "lets_below_cond k (CondCmps _ a b) \<longleftrightarrow> lets_below k a \<and> lets_below k b"
| "lets_below_cond k (CondCmpl _ a b) \<longleftrightarrow> lets_below k a \<and> lets_below k b"
| "lets_below_cond k (CondCmplu _ a b) \<longleftrightarrow> lets_below k a \<and> lets_below k b"
| "lets_below_cond k (CondNot c) \<longleftrightarrow> lets_below_cond k c"
| "lets_below_cond k (CondAnd c d) \<longleftrightarrow> lets_below_cond k c \<and> lets_below_cond k d"
| "lets_below_cond k (CondOr c d) \<longleftrightarrow> lets_below_cond k c \<and> lets_below_cond k d"
| "lets_below_cond k _ \<longleftrightarrow> True"

definition agree_to :: "nat \<Rightarrow> val list \<Rightarrow> val list \<Rightarrow> bool" where
  "agree_to k le le' \<longleftrightarrow> k \<le> length le \<and> k \<le> length le' \<and> (\<forall>i<k. le ! i = le' ! i)"

lemma agree_to_Cons [simp]: "agree_to (Suc k) (v # le) (v # le') \<longleftrightarrow> agree_to k le le'"
  by (auto simp: agree_to_def nth_Cons split: nat.split)

lemma let_value_agree: "agree_to k le le' \<Longrightarrow> nat i < k \<Longrightarrow> let_value le i = let_value le' i"
  by (auto simp: agree_to_def let_value_def)

lemma eval_lets_below:
  "lets_below k e \<Longrightarrow> agree_to k le le' \<Longrightarrow> eval_expr T E env m le e = eval_expr T E env m le' e"
  "lets_below_list k es \<Longrightarrow> agree_to k le le' \<Longrightarrow> eval_exprs T E env m le es = eval_exprs T E env m le' es"
  "lets_below_cond k c \<Longrightarrow> agree_to k le le' \<Longrightarrow> eval_cond T E env m le c = eval_cond T E env m le' c"
proof (induction k e and k es and k c arbitrary: le le' and le le' and le le'
    rule: lets_below_lets_below_list_lets_below_cond.induct)
  case (6 k i)
  then show ?case by (simp add: let_value_agree)
next
  case (5 k a b)
  have "eval_expr T E env m (v # le) b = eval_expr T E env m (v # le') b" for v
    using 5 by simp
  moreover have "eval_expr T E env m le a = eval_expr T E env m le' a" using 5(1,3,4) by simp
  ultimately show ?case by simp
qed (simp_all cong: if_cong)

fun expr_ok :: "expr \<Rightarrow> bool" and exprs_ok :: "expr list \<Rightarrow> bool" and cond_ok :: "cond \<Rightarrow> bool" where
  "expr_ok (Eunop uop a) \<longleftrightarrow> unop_ok uop \<and> expr_ok a"
| "expr_ok (Ebinop bop a b) \<longleftrightarrow> binop_ok bop \<and> expr_ok a \<and> expr_ok b"
| "expr_ok (Eload _ mode es) \<longleftrightarrow> mode_ok mode \<and> exprs_ok es"
| "expr_ok (Econdition c a b) \<longleftrightarrow> cond_ok c \<and> expr_ok a \<and> expr_ok b"
| "expr_ok (Elet a b) \<longleftrightarrow> lets_below 0 a \<and> expr_ok a \<and> expr_ok b"
| "expr_ok (Eaddshift _ _ a b) \<longleftrightarrow> expr_ok a \<and> expr_ok b"
| "expr_ok (Esubshift _ _ a b) \<longleftrightarrow> expr_ok a \<and> expr_ok b"
| "expr_ok (Ecmp _ _ a b) \<longleftrightarrow> expr_ok a \<and> expr_ok b"
| "expr_ok _ \<longleftrightarrow> True"
| "exprs_ok [] \<longleftrightarrow> True"
| "exprs_ok (e # es) \<longleftrightarrow> expr_ok e \<and> exprs_ok es"
| "cond_ok (CondCmp _ a b) \<longleftrightarrow> expr_ok a \<and> expr_ok b"
| "cond_ok (CondCmpu _ a b) \<longleftrightarrow> expr_ok a \<and> expr_ok b"
| "cond_ok (CondCmpf _ a b) \<longleftrightarrow> expr_ok a \<and> expr_ok b"
| "cond_ok (CondCmps _ a b) \<longleftrightarrow> expr_ok a \<and> expr_ok b"
| "cond_ok (CondCmpl _ a b) \<longleftrightarrow> expr_ok a \<and> expr_ok b"
| "cond_ok (CondCmplu _ a b) \<longleftrightarrow> expr_ok a \<and> expr_ok b"
| "cond_ok (CondNot c) \<longleftrightarrow> TranslateCondition c \<noteq> None \<and> cond_ok c"
| "cond_ok (CondAnd c d) \<longleftrightarrow> cond_ok c \<and> cond_ok d"
| "cond_ok (CondOr c d) \<longleftrightarrow> cond_ok c \<and> cond_ok d"
| "cond_ok _ \<longleftrightarrow> True"

lemma TranslateCondition_ok:
  "TranslateCondition c = Some (cc, args) \<Longrightarrow> cond_ok c \<Longrightarrow> exprs_ok args"
  by (induction c arbitrary: cc args rule: TranslateCondition.induct) fastforce+

lemma ex_map_Some [simp]:
  "(\<exists>ws. [Some a] = map Some ws \<and> P ws) \<longleftrightarrow> P [a]"
  "(\<exists>ws. [Some a, Some b] = map Some ws \<and> P ws) \<longleftrightarrow> P [a, b]"
  by (auto simp: Cons_eq_map_conv)

lemma TranslateCondition_eval:
  "TranslateCondition c = Some (cc, args) \<Longrightarrow> eval_cond T E env m le c = Some t \<Longrightarrow>
    \<exists>ws. eval_exprs T E env m le args = Some (map Some ws) \<and> word_cond T cc ws = Some t"
proof (induction c arbitrary: cc args t rule: TranslateCondition.induct)
  case (9 c)
  then show ?case by (fastforce dest: word_cond_negate)
qed (auto simp: bind_eq_Some_conv known2_Some)

section \<open>Execution\<close>

definition runs :: "target \<Rightarrow> (val, mem) sem \<Rightarrow> rtl_function \<Rightarrow> mem \<Rightarrow> node \<Rightarrow> val regset \<Rightarrow> node \<Rightarrow> val regset \<Rightarrow> bool" where
  "runs T E f m n rs n' rs' \<longleftrightarrow> (rtl_step (word_sem T E) f)\<^sup>*\<^sup>* (RNode n rs m) (RNode n' rs' m)"

lemma runs_refl [simp]: "runs T E f m n rs n rs"
  by (simp add: runs_def)

lemma runs_trans: "runs T E f m n rs n1 rs1 \<Longrightarrow> runs T E f m n1 rs1 n2 rs2 \<Longrightarrow> runs T E f m n rs n2 rs2"
  unfolding runs_def by (rule rtranclp_trans)

lemma runs_instr:
  "rtl_code f n = Some i \<Longrightarrow> rtl_exec (word_sem T E) i rs m (RNode n' rs' m) \<Longrightarrow> runs T E f m n rs n' rs'"
  unfolding runs_def by (rule r_into_rtranclp) simp

lemma runs_op:
  "rtl_code f n = Some (Iop op args d s) \<Longrightarrow> eval_op (word_sem T E) op (map rs args) m = Some v \<Longrightarrow>
    runs T E f m n rs s (rs(d := v))"
  by (erule runs_instr) (rule rtl_op)

text \<open>What the translators of expressions rely on: the variables of the source are in their registers.\<close>

definition vars_match :: "(string \<rightharpoonup> reg) \<Rightarrow> cs_env \<Rightarrow> val regset \<Rightarrow> bool" where
  "vars_match V env rs \<longleftrightarrow> (\<forall>x v. env x = Some v \<longrightarrow> (\<exists>r. V x = Some r \<and> rs r = v))"

definition let_values :: "translator \<Rightarrow> val regset \<Rightarrow> val list" where
  "let_values g rs = map rs (rev (letBindings g))"

text \<open>
  A state of the translators in which \<open>V\<close> gives the registers of the variables, and the function that
  finally comes out of it.
\<close>

definition placed :: "(string \<rightharpoonup> reg) \<Rightarrow> rtl_function \<Rightarrow> translator \<Rightarrow> translator \<Rightarrow> bool" where
  "placed V f g g' \<longleftrightarrow> wf_gen g \<and> V \<subseteq>\<^sub>m varToReg g \<and> code g' \<subseteq>\<^sub>m rtl_code f"

definition unchanged :: "translator \<Rightarrow> reg set \<Rightarrow> val regset \<Rightarrow> val regset \<Rightarrow> bool" where
  "unchanged g W rs rs' \<longleftrightarrow> (\<forall>r<nextReg g. r \<notin> W \<longrightarrow> rs' r = rs r)"

lemma unchanged_refl [simp]: "unchanged g W rs rs"
  by (simp add: unchanged_def)

lemma unchanged_trans:
  "unchanged g W rs rs1 \<Longrightarrow> unchanged g1 W1 rs1 rs2 \<Longrightarrow> nextReg g \<le> nextReg g1 \<Longrightarrow>
    {r \<in> W1. r < nextReg g} \<subseteq> W \<Longrightarrow> unchanged g W rs rs2"
  unfolding unchanged_def by (smt (verit) mem_Collect_eq subsetD)

lemma vars_match_unchanged:
  assumes "vars_match V env rs" and "unchanged g W rs rs'" and "placed V f g g'" and "W \<inter> ran V = {}"
  shows "vars_match V env rs'"
proof -
  have "rs' r = rs r" if "V x = Some r" for x r
  proof -
    have "varToReg g x = Some r" using that assms(3) by (auto simp: placed_def map_le_def dom_def)
    then have "r < nextReg g" using assms(3) by (auto simp: placed_def wf_gen_def)
    moreover have "r \<notin> W" using that assms(4) by (auto simp: ran_def)
    ultimately show ?thesis using assms(2) by (simp add: unchanged_def)
  qed
  with assms(1) show ?thesis unfolding vars_match_def by metis
qed

lemma let_values_unchanged:
  assumes "unchanged g W rs rs'" and "wf_gen g" and "W \<inter> set (letBindings g) = {}"
  shows "let_values g rs' = let_values g rs"
  using assms by (auto simp: let_values_def unchanged_def wf_gen_def)

lemma placed_bindE:
  assumes "run_state (State_Monad.bind c k) g = (y, g'')" and "placed V f g g''"
    and "maintains {} c" and "\<And>x. maintains {} (k x)"
  obtains x g' where "run_state c g = (x, g')" and "run_state (k x) g' = (y, g'')"
    and "placed V f g g'" and "placed V f g' g''" and "grows {} g g'" and "same_stacks g g'"
proof -
  from assms(1) obtain x g' where run: "run_state c g = (x, g')" "run_state (k x) g' = (y, g'')"
    unfolding run_bind by blast
  have wf: "wf_gen g" using assms(2) by (simp add: placed_def)
  note c = keepsD [OF assms(3) run(1) wf]
  have g': "wf_gen g'" "grows {} g g'" "same_stacks g g'" using c by auto
  have "grows {} g' g''" using keepsD(2) [OF assms(4) run(2) g'(1)] by simp
  then have "placed V f g g'" "placed V f g' g''"
    using assms(2) g' by (auto simp: placed_def grows_def intro: map_le_trans)
  with run g' that show ?thesis by blast
qed

lemma emitted:
  assumes "run_state (EmitInstr i) g = (n, g')" and "placed V f g g'"
  shows "rtl_code f n = Some i"
  using assms by (auto simp: placed_def map_le_def)

text \<open>Registers that hold intermediate results.\<close>

definition temp_regs :: "(string \<rightharpoonup> reg) \<Rightarrow> translator \<Rightarrow> reg list \<Rightarrow> bool" where
  "temp_regs V g rl \<longleftrightarrow> distinct rl \<and> (\<forall>r\<in>set rl. r < nextReg g \<and> r \<notin> ran V \<and> r \<notin> set (letBindings g))"

lemma placed_ran: "placed V f g g' \<Longrightarrow> r \<in> ran V \<Longrightarrow> 0 < r \<and> r < nextReg g"
  by (auto simp: placed_def wf_gen_def ran_def map_le_def dom_def)

lemma fresh_temps:
  assumes "run_state (FreshN n) g = (rl, g')" and "placed V f g g'"
  shows "temp_regs V g' rl" and "length rl = n" and "\<forall>r\<in>set rl. nextReg g \<le> r"
proof -
  have rl: "rl = regs_from (nextReg g) n" "nextReg g' = nextReg g + int n" "letBindings g' = letBindings g"
    using assms(1) by auto
  then show "length rl = n" "\<forall>r\<in>set rl. nextReg g \<le> r" by auto
  have "r \<notin> set (letBindings g)" if "nextReg g \<le> r" for r
    using assms(2) that by (force simp: placed_def wf_gen_def)
  then show "temp_regs V g' rl"
    using placed_ran [OF assms(2)] by (fastforce simp: temp_regs_def rl)
qed

lemma temp_regs_grows: "temp_regs V g rl \<Longrightarrow> grows {} g g' \<Longrightarrow> same_stacks g g' \<Longrightarrow> temp_regs V g' rl"
  by (fastforce simp: temp_regs_def grows_def same_stacks_def)

lemma let_values_same: "same_stacks g g' \<Longrightarrow> let_values g' rs = let_values g rs"
  by (simp add: let_values_def same_stacks_def)

section \<open>Correctness of the translators\<close>

definition expr_correct where
  "expr_correct T E V f env m e dest succ \<longleftrightarrow> (\<forall>g n g' rs v.
     run_state (TranslateExpr e dest succ) g = (n, g') \<longrightarrow> placed V f g g' \<longrightarrow> expr_ok e \<longrightarrow> dest < nextReg g \<longrightarrow>
     vars_match V env rs \<longrightarrow> eval_expr T E env m (let_values g rs) e = Some v \<longrightarrow>
     (\<exists>rs'. runs T E f m n rs succ rs' \<and> rs' dest = v \<and> unchanged g {dest} rs rs'))"

definition exprs_correct where
  "exprs_correct T E V f env m es rl succ \<longleftrightarrow> (\<forall>g n g' rs vs.
     run_state (TranslateExprs es rl succ) g = (n, g') \<longrightarrow> placed V f g g' \<longrightarrow> exprs_ok es \<longrightarrow> temp_regs V g rl \<longrightarrow>
     length rl = length es \<longrightarrow> vars_match V env rs \<longrightarrow> eval_exprs T E env m (let_values g rs) es = Some vs \<longrightarrow>
     (\<exists>rs'. runs T E f m n rs succ rs' \<and> map rs' rl = vs \<and> unchanged g (set rl) rs rs'))"

definition cond_correct where
  "cond_correct T E V f env m c ifso ifnot \<longleftrightarrow> (\<forall>g n g' rs t.
     run_state (TranslateCond c ifso ifnot) g = (n, g') \<longrightarrow> placed V f g g' \<longrightarrow> cond_ok c \<longrightarrow>
     vars_match V env rs \<longrightarrow> eval_cond T E env m (let_values g rs) c = Some t \<longrightarrow>
     (\<exists>rs'. runs T E f m n rs (if t then ifso else ifnot) rs' \<and> unchanged g {} rs rs'))"

lemma expr_correctE:
  assumes "expr_correct T E V f env m e dest succ" and "run_state (TranslateExpr e dest succ) g = (n, g')"
    and "placed V f g g'" and "expr_ok e" and "dest < nextReg g" and "vars_match V env rs"
    and "eval_expr T E env m (let_values g rs) e = Some v"
  obtains rs' where "runs T E f m n rs succ rs'" and "rs' dest = v" and "unchanged g {dest} rs rs'"
  using assms unfolding expr_correct_def by blast

lemma exprs_correctE:
  assumes "exprs_correct T E V f env m es rl succ" and "run_state (TranslateExprs es rl succ) g = (n, g')"
    and "placed V f g g'" and "exprs_ok es" and "temp_regs V g rl" and "length rl = length es"
    and "vars_match V env rs" and "eval_exprs T E env m (let_values g rs) es = Some vs"
  obtains rs' where "runs T E f m n rs succ rs'" and "map rs' rl = vs" and "unchanged g (set rl) rs rs'"
  using assms unfolding exprs_correct_def by blast

lemma cond_correctE:
  assumes "cond_correct T E V f env m c ifso ifnot" and "run_state (TranslateCond c ifso ifnot) g = (n, g')"
    and "placed V f g g'" and "cond_ok c" and "vars_match V env rs"
    and "eval_cond T E env m (let_values g rs) c = Some t"
  obtains rs' where "runs T E f m n rs (if t then ifso else ifnot) rs'" and "unchanged g {} rs rs'"
  using assms unfolding cond_correct_def by blast

lemma exprs_correct_Nil [intro]: "exprs_correct T E V f env m [] [] succ"
  by (auto simp: exprs_correct_def intro: runs_refl)

lemma exprs_correct_Cons:
  assumes e: "\<And>entry. expr_correct T E V f env m e r entry" and es: "exprs_correct T E V f env m es rl succ"
  shows "exprs_correct T E V f env m (e # es) (r # rl) succ"
  unfolding exprs_correct_def
proof (intro allI impI)
  fix g n g' rs vs
  assume run: "run_state (TranslateExprs (e # es) (r # rl) succ) g = (n, g')" and pl: "placed V f g g'"
    and ok: "exprs_ok (e # es)" and tmp: "temp_regs V g (r # rl)" and len: "length (r # rl) = length (e # es)"
    and vm: "vars_match V env rs" and ev: "eval_exprs T E env m (let_values g rs) (e # es) = Some vs"
  from run pl obtain entry g1 where 1: "run_state (TranslateExprs es rl succ) g = (entry, g1)"
      and 2: "run_state (TranslateExpr e r entry) g1 = (n, g')"
      and pl1: "placed V f g g1" and pl2: "placed V f g1 g'" and gr: "grows {} g g1" and st: "same_stacks g g1"
    by (auto simp del: run_state_bind elim!: placed_bindE intro: keeps_TranslateExpr)
  from ev obtain v ws where v: "eval_expr T E env m (let_values g rs) e = Some v"
      and ws: "eval_exprs T E env m (let_values g rs) es = Some ws" and vs: "vs = v # ws"
    by (auto simp: bind_eq_Some_conv)
  have r: "r < nextReg g" "r < nextReg g1" "r \<notin> set rl" "r \<notin> ran V" "r \<notin> set (letBindings g)"
    using tmp gr by (auto simp: temp_regs_def grows_def)
  obtain rs1 where rs1: "runs T E f m n rs entry rs1" "rs1 r = v" "unchanged g1 {r} rs rs1"
    by (rule expr_correctE [OF e 2 pl2 _ r(2) vm]) (use ok v in \<open>auto simp: let_values_same [OF st]\<close>)
  have u1: "unchanged g {r} rs rs1" using rs1(3) gr by (auto simp: unchanged_def grows_def)
  have "vars_match V env rs1" using vars_match_unchanged [OF vm u1 pl1] r(4) by auto
  moreover have "let_values g rs1 = let_values g rs"
    using let_values_unchanged [OF u1] pl r(5) by (auto simp: placed_def)
  ultimately obtain rs2 where rs2: "runs T E f m entry rs1 succ rs2" "map rs2 rl = ws" "unchanged g (set rl) rs1 rs2"
    using exprs_correctE [OF es 1 pl1, of rs1 ws] ok tmp len ws by (auto simp: temp_regs_def)
  have "rs2 r = v" using rs2(3) r rs1(2) by (simp add: unchanged_def)
  moreover have "unchanged g (set (r # rl)) rs rs2" using u1 rs2(3) by (auto simp: unchanged_def)
  ultimately show "\<exists>rs'. runs T E f m n rs succ rs' \<and> map rs' (r # rl) = vs \<and> unchanged g (set (r # rl)) rs rs'"
    using runs_trans [OF rs1(1) rs2(1)] rs2(2) vs by auto
qed

text \<open>Most instructions take their operands from fresh registers.\<close>

lemma args_then_instr:
  assumes run: "run_state (do { rl \<leftarrow> FreshN (length es); u \<leftarrow> pre rl; n \<leftarrow> EmitInstr (ins rl); TranslateExprs es rl n }) g = (n0, g')"
    and pl: "placed V f g g'" and pre: "\<And>rl. maintains {} (pre rl)"
    and es: "\<And>rl n. exprs_correct T E V f env m es rl n" and ok: "exprs_ok es"
    and vm: "vars_match V env rs" and ev: "eval_exprs T E env m (let_values g rs) es = Some vs"
  obtains rl n rs1 where "rtl_code f n = Some (ins rl)" and "runs T E f m n0 rs n rs1" and "map rs1 rl = vs"
    and "unchanged g {} rs rs1"
proof -
  obtain rl g1 where 1: "run_state (FreshN (length es)) g = (rl, g1)" "placed V f g g1" "placed V f g1 g'"
      "grows {} g g1" "same_stacks g g1"
      and run1: "run_state (do { u \<leftarrow> pre rl; n \<leftarrow> EmitInstr (ins rl); TranslateExprs es rl n }) g1 = (n0, g')"
    by (rule placed_bindE [OF run pl]) (auto intro!: keeps_bind0 pre keeps_TranslateExpr)
  obtain u g2 where 2: "run_state (pre rl) g1 = (u, g2)" "placed V f g2 g'" "grows {} g1 g2" "same_stacks g1 g2"
      and run2: "run_state (do { n \<leftarrow> EmitInstr (ins rl); TranslateExprs es rl n }) g2 = (n0, g')"
    by (rule placed_bindE [OF run1 1(3)]) (auto intro!: keeps_bind0 pre keeps_TranslateExpr)
  obtain n g3 where 3: "run_state (EmitInstr (ins rl)) g2 = (n, g3)" "placed V f g2 g3" "placed V f g3 g'"
      "grows {} g2 g3" "same_stacks g2 g3" and run3: "run_state (TranslateExprs es rl n) g3 = (n0, g')"
    by (rule placed_bindE [OF run2 2(2)]) (auto intro!: keeps_TranslateExpr)
  have gr: "grows {} g1 g3" using grows_trans [OF 2(3) 3(4)] by simp
  have st: "same_stacks g1 g3" "same_stacks g g3" using 1(5) 2(4) 3(5) by (simp_all add: same_stacks_def)
  note fresh = fresh_temps [OF 1(1,2)]
  obtain rs1 where rs1: "runs T E f m n0 rs n rs1" "map rs1 rl = vs" "unchanged g3 (set rl) rs rs1"
    by (rule exprs_correctE [OF es run3 3(3) ok temp_regs_grows [OF fresh(1) gr st(1)] fresh(2) vm])
      (use ev in \<open>auto simp: let_values_same [OF st(2)]\<close>)
  have "nextReg g \<le> nextReg g3" using 1(4) gr by (simp add: grows_def)
  then have "unchanged g {} rs rs1" using rs1(3) fresh(3) by (force simp: unchanged_def)
  with that emitted [OF 3(1,2)] rs1(1,2) show ?thesis by blast
qed

lemma instr_correct:
  assumes eq: "TranslateExpr e dest succ =
      do { rl \<leftarrow> FreshN (length es); u \<leftarrow> pre rl; n \<leftarrow> EmitInstr (ins rl); TranslateExprs es rl n }"
    and pre: "\<And>rl. maintains {} (pre rl)" and es: "\<And>rl n. exprs_correct T E V f env m es rl n"
    and ok: "expr_ok e \<Longrightarrow> exprs_ok es"
    and ev: "\<And>le v. expr_ok e \<Longrightarrow> eval_expr T E env m le e = Some v \<Longrightarrow>
      \<exists>vs. eval_exprs T E env m le es = Some vs \<and>
        (\<forall>rl rs. map rs rl = vs \<longrightarrow> rtl_exec (word_sem T E) (ins rl) rs m (RNode succ (rs(dest := v)) m))"
  shows "expr_correct T E V f env m e dest succ"
  unfolding expr_correct_def
proof (intro allI impI)
  fix g n g' rs v
  assume *: "run_state (TranslateExpr e dest succ) g = (n, g')" "placed V f g g'" "expr_ok e"
    "dest < nextReg g" "vars_match V env rs" "eval_expr T E env m (let_values g rs) e = Some v"
  from ev [OF *(3,6)] obtain vs where vs: "eval_exprs T E env m (let_values g rs) es = Some vs"
    "\<And>rl rs. map rs rl = vs \<Longrightarrow> rtl_exec (word_sem T E) (ins rl) rs m (RNode succ (rs(dest := v)) m)" by blast
  obtain rl k rs1 where k: "rtl_code f k = Some (ins rl)" "runs T E f m n rs k rs1" "map rs1 rl = vs" "unchanged g {} rs rs1"
    by (rule args_then_instr [OF *(1) [unfolded eq] *(2) pre es ok [OF *(3)] *(5) vs(1)])
  have "runs T E f m n rs succ (rs1(dest := v))"
    using k(2) runs_instr [OF k(1) vs(2) [OF k(3)]] by (rule runs_trans)
  moreover have "unchanged g {dest} rs (rs1(dest := v))" using k(4) by (simp add: unchanged_def)
  ultimately show "\<exists>rs'. runs T E f m n rs succ rs' \<and> rs' dest = v \<and> unchanged g {dest} rs rs'"
    by (intro exI [of _ "rs1(dest := v)"]) simp
qed

lemma exprs_correct_two:
  assumes "\<And>r n. expr_correct T E V f env m a r n" and "\<And>r n. expr_correct T E V f env m b r n"
  shows "exprs_correct T E V f env m [a, b] rl n"
proof (cases "length rl = 2")
  case True
  then obtain r s where "rl = [r, s]" by (auto simp: length_Suc_conv numeral_2_eq_2)
  then show ?thesis using assms by (auto intro!: exprs_correct_Cons)
qed (auto simp: exprs_correct_def)

lemma exprs_correct_one:
  assumes "\<And>r n. expr_correct T E V f env m a r n"
  shows "exprs_correct T E V f env m [a] rl n"
proof (cases "length rl = 1")
  case True
  then obtain r where "rl = [r]" by (auto simp: length_Suc_conv)
  then show ?thesis using assms by (auto intro!: exprs_correct_Cons)
qed (auto simp: exprs_correct_def)

lemma exprs_correct_none: "exprs_correct T E V f env m [] rl n"
proof (cases rl)
  case (Cons r rl')
  then show ?thesis by (simp add: exprs_correct_def)
qed (simp add: exprs_correct_Nil)

lemma TranslateExprs_one: "TranslateExprs [a] [r] = TranslateExpr a r"
  by (rule ext) simp

lemma TranslateExprs_two: "TranslateExprs [a, b] [r, s] = (\<lambda>n. State_Monad.bind (TranslateExpr b s n) (TranslateExpr a r))"
  by (rule ext) simp

lemma word_op_exec:
  assumes "map rs rl = map Some ws" and "word_op T op ws = Some w"
  shows "rtl_exec (word_sem T E) (Iop op rl d s) rs m (RNode s (rs(d := Some w)) m)"
proof (rule rtl_op)
  have "op = Omove \<Longrightarrow> ws = [w]"
    using assms(2) by (cases "(T, op, ws)" rule: word_op.cases) auto
  then show "eval_op (word_sem T E) op (map rs rl) m = Some (Some w)"
    unfolding assms(1) using assms(2) by (auto simp: eval_op_def)
qed

lemma op_correct:
  assumes eq: "TranslateExpr e dest succ = do {
      rl \<leftarrow> FreshN (length es);
      n \<leftarrow> EmitInstr (Iop op rl dest succ);
      TranslateExprs es rl n
    }"
    and es: "\<And>rl n. exprs_correct T E V f env m es rl n" and ok: "expr_ok e \<Longrightarrow> exprs_ok es"
    and ev: "\<And>le v. expr_ok e \<Longrightarrow> eval_expr T E env m le e = Some v \<Longrightarrow>
      \<exists>ws w. eval_exprs T E env m le es = Some (map Some ws) \<and> v = Some w \<and> word_op T op ws = Some w"
  shows "expr_correct T E V f env m e dest succ"
proof (rule instr_correct [where es = es and pre = "\<lambda>_. State_Monad.return ()" and ins = "\<lambda>rl. Iop op rl dest succ"])
  fix le v assume "expr_ok e" "eval_expr T E env m le e = Some v"
  from ev [OF this] show "\<exists>vs. eval_exprs T E env m le es = Some vs \<and>
      (\<forall>rl rs. map rs rl = vs \<longrightarrow> rtl_exec (word_sem T E) (Iop op rl dest succ) rs m (RNode succ (rs(dest := v)) m))"
    by (auto intro: word_op_exec)
qed (use eq es ok in auto)

lemma const_correct: "expr_correct T E V f env m (Econst c) dest succ"
  by (rule op_correct [where es = "[]" and op = "TranslateConstant c"])
    (auto simp: emit_defs TranslateConstant_word exprs_correct_none)

lemma unop_correct:
  assumes "\<And>r n. expr_correct T E V f env m a r n"
  shows "expr_correct T E V f env m (Eunop uop a) dest succ"
proof (rule op_correct [where es = "[a]" and op = "TranslateUnaryOp uop"])
  fix le v assume *: "expr_ok (Eunop uop a)" "eval_expr T E env m le (Eunop uop a) = Some v"
  then obtain x w where "eval_expr T E env m le a = Some (Some x)" "word_unop T uop x = Some w" "v = Some w"
    by (auto simp: bind_eq_Some_conv known1_Some)
  with *(1) show "\<exists>ws w. eval_exprs T E env m le [a] = Some (map Some ws) \<and> v = Some w \<and>
      word_op T (TranslateUnaryOp uop) ws = Some w"
    by (intro exI [of _ "[x]"]) (simp add: TranslateUnaryOp_word)
qed (use assms in \<open>auto simp: emit_defs TranslateExprs_one intro!: exprs_correct_one\<close>)

lemma binary_correct:
  assumes a: "\<And>r n. expr_correct T E V f env m a r n" and b: "\<And>r n. expr_correct T E V f env m b r n"
    and eq: "TranslateExpr e dest succ = do {
        l \<leftarrow> Fresh; r \<leftarrow> Fresh;
        n \<leftarrow> EmitOp op [l, r] dest succ;
        n' \<leftarrow> TranslateExpr b r n;
        TranslateExpr a l n'
      }"
    and ok: "expr_ok e \<Longrightarrow> expr_ok a \<and> expr_ok b"
    and ev: "\<And>le v. expr_ok e \<Longrightarrow> eval_expr T E env m le e = Some v \<Longrightarrow>
      \<exists>x y w. eval_expr T E env m le a = Some (Some x) \<and> eval_expr T E env m le b = Some (Some y) \<and>
        v = Some w \<and> word_op T op [x, y] = Some w"
  shows "expr_correct T E V f env m e dest succ"
proof (rule op_correct [where es = "[a, b]" and op = op])
  fix le v assume *: "expr_ok e" "eval_expr T E env m le e = Some v"
  from ev [OF this] obtain x y w where "eval_expr T E env m le a = Some (Some x)"
    "eval_expr T E env m le b = Some (Some y)" "v = Some w" "word_op T op [x, y] = Some w" by blast
  then show "\<exists>ws w. eval_exprs T E env m le [a, b] = Some (map Some ws) \<and> v = Some w \<and> word_op T op ws = Some w"
    by (intro exI [of _ "[x, y]"]) simp
qed (use a b ok in \<open>auto simp: eq emit_defs TranslateExprs_two intro!: exprs_correct_two\<close>)

lemma binop_correct:
  assumes "\<And>r n. expr_correct T E V f env m a r n" and "\<And>r n. expr_correct T E V f env m b r n"
  shows "expr_correct T E V f env m (Ebinop bop a b) dest succ"
  by (rule binary_correct [OF assms, where op = "TranslateBinaryOp bop"])
    (auto simp: bind_eq_Some_conv known2_Some TranslateBinaryOp_word)

lemma cmp_correct:
  assumes "\<And>r n. expr_correct T E V f env m a r n" and "\<And>r n. expr_correct T E V f env m b r n"
  shows "expr_correct T E V f env m (Ecmp bop c a b) dest succ"
  by (rule binary_correct [OF assms, where op = "TranslateCompareOp bop (as_Condition c)"])
    (fastforce simp: bind_eq_Some_conv known2_Some TranslateCompareOp_word)+

lemma load_correct:
  assumes "\<And>rl n. exprs_correct T E V f env m args rl n"
  shows "expr_correct T E V f env m (Eload ch mode args) dest succ"
proof (rule instr_correct [where es = args and pre = "\<lambda>rl. TranslateExprs args rl succ" and
      ins = "\<lambda>rl. Iload ch (TranslateAddressingMode mode) rl dest succ"])
  show "TranslateExpr (Eload ch mode args) dest succ = do {
      rl \<leftarrow> FreshN (length args); u \<leftarrow> TranslateExprs args rl succ;
      n \<leftarrow> EmitInstr (Iload ch (TranslateAddressingMode mode) rl dest succ); TranslateExprs args rl n }"
    by (cases args) (simp_all add: emit_defs)
next
  fix le v assume *: "expr_ok (Eload ch mode args)" "eval_expr T E env m le (Eload ch mode args) = Some v"
  then obtain vs where vs: "eval_exprs T E env m le args = Some vs" "sem_load (word_sem T E) ch mode vs m = Some v"
    by (auto simp del: word_sem_simps simp: bind_eq_Some_conv)
  have "TranslateAddressingMode mode = mode" using *(1) by (simp add: TranslateAddressingMode_id)
  with vs show "\<exists>vs. eval_exprs T E env m le args = Some vs \<and>
      (\<forall>rl rs. map rs rl = vs \<longrightarrow> rtl_exec (word_sem T E) (Iload ch (TranslateAddressingMode mode) rl dest succ) rs m
        (RNode succ (rs(dest := v)) m))"
    by (auto simp del: word_sem_simps intro: rtl_load)
qed (use assms in \<open>auto intro: keeps_TranslateExpr\<close>)

lemma move_runs:
  assumes "run_state (if r = dest then State_Monad.return succ else EmitMove r dest succ) g = (n, g')"
    and "placed V f g g'" and "rs r = v"
  shows "\<exists>rs'. runs T E f m n rs succ rs' \<and> rs' dest = v \<and> unchanged g {dest} rs rs'"
proof (cases "r = dest")
  case True
  with assms(1,3) show ?thesis by (auto intro: exI [of _ rs])
next
  case False
  with assms(1) have "run_state (EmitInstr (Iop Omove [r] dest succ)) g = (n, g')"
    by (simp only: emit_defs if_False)
  from runs_op [OF emitted [OF this assms(2)], of T E rs m v] assms(3) show ?thesis
    by (intro exI [of _ "rs(dest := v)"]) (simp add: unchanged_def)
qed

lemma var_correct: "expr_correct T E V f env m (Evar x) dest succ"
  unfolding expr_correct_def
proof (intro allI impI)
  fix g n g' rs v
  assume *: "run_state (TranslateExpr (Evar x) dest succ) g = (n, g')" "placed V f g g'"
    "vars_match V env rs" "eval_expr T E env m (let_values g rs) (Evar x) = Some v"
  from *(3,4) obtain r where r: "V x = Some r" "rs r = v" by (auto simp: vars_match_def)
  then have "varToReg g x = Some r" using *(2) by (auto simp: placed_def map_le_def dom_def)
  then have run: "run_state (if r = dest then State_Monad.return succ else EmitMove r dest succ) g = (n, g')"
    using *(1) by (simp add: translateVar_def run_MapVar)
  show "\<exists>rs'. runs T E f m n rs succ rs' \<and> rs' dest = v \<and> unchanged g {dest} rs rs'"
    by (rule move_runs [OF run *(2)]) (rule r(2))
qed

lemma letvar_correct: "expr_correct T E V f env m (Eletvar i) dest succ"
  unfolding expr_correct_def
proof (intro allI impI)
  fix g n g' rs v
  assume *: "run_state (TranslateExpr (Eletvar i) dest succ) g = (n, g')" "placed V f g g'"
    "eval_expr T E env m (let_values g rs) (Eletvar i) = Some v"
  define r where "r = letBindings g ! nat (int (length (letBindings g)) - 1 - i)"
  from *(3) have i: "0 \<le> i" "nat i < length (letBindings g)" "rs (rev (letBindings g) ! nat i) = v"
    by (auto simp: let_value_def let_values_def split: if_splits)
  have ix: "nat (int (length (letBindings g)) - 1 - i) = length (letBindings g) - Suc (nat i)" using i by linarith
  have top: "from_top (letBindings g) i = Some r" "rs r = v"
    using i by (auto simp: from_top_def Let_def r_def rev_nth ix)
  have "r \<in> set (letBindings g)" using i by (auto simp: r_def ix)
  then have "r \<noteq> 0" using *(2) by (auto simp: placed_def wf_gen_def)
  then have run: "run_state (if r = dest then State_Monad.return succ else EmitMove r dest succ) g = (n, g')"
    using *(1) top(1) by (simp add: translateLetvar_def)
  show "\<exists>rs'. runs T E f m n rs succ rs' \<and> rs' dest = v \<and> unchanged g {dest} rs rs'"
    by (rule move_runs [OF run *(2)]) (rule top(2))
qed

text \<open>Addition and subtraction of a shifted operand take two instructions.\<close>

lemma shifted_correct:
  assumes a: "\<And>r n. expr_correct T E V f env m a r n" and b: "\<And>r n. expr_correct T E V f env m b r n"
    and eq: "TranslateExpr e dest succ = do {
        l \<leftarrow> Fresh; r \<leftarrow> Fresh; s \<leftarrow> Fresh;
        k \<leftarrow> EmitOp op [l, s] dest succ;
        j \<leftarrow> EmitOp (translateShiftOp sh n) [r] s k;
        n' \<leftarrow> TranslateExpr b r j;
        TranslateExpr a l n'
      }"
    and ok: "expr_ok e \<Longrightarrow> expr_ok a \<and> expr_ok b"
    and ev: "\<And>le v. eval_expr T E env m le e = Some v \<Longrightarrow>
      \<exists>x y z w. eval_expr T E env m le a = Some (Some x) \<and> eval_expr T E env m le b = Some (Some y) \<and>
        word_shift sh n (lo y) = Some z \<and> v = Some w \<and> word_op T op [x, zx z] = Some w"
  shows "expr_correct T E V f env m e dest succ"
  unfolding expr_correct_def
proof (intro allI impI)
  fix g n0 g' rs v
  assume run: "run_state (TranslateExpr e dest succ) g = (n0, g')" and pl: "placed V f g g'" and eok: "expr_ok e"
    and vm: "vars_match V env rs" and eval: "eval_expr T E env m (let_values g rs) e = Some v"
  have run0: "run_state (do {
        rl \<leftarrow> FreshN 3;
        k \<leftarrow> EmitInstr (Iop op [rl ! 0, rl ! 2] dest succ);
        j \<leftarrow> EmitInstr (Iop (translateShiftOp sh n) [rl ! 1] (rl ! 2) k);
        TranslateExprs [a, b] [rl ! 0, rl ! 1] j }) g = (n0, g')"
    using run unfolding eq emit_defs by (simp add: numeral_3_eq_3 TranslateExprs_two del: run_state_bind)
  obtain rl g1 where 1: "run_state (FreshN 3) g = (rl, g1)" "placed V f g g1" "placed V f g1 g'" "grows {} g g1"
      "same_stacks g g1" and run1: "run_state (do {
        k \<leftarrow> EmitInstr (Iop op [rl ! 0, rl ! 2] dest succ);
        j \<leftarrow> EmitInstr (Iop (translateShiftOp sh n) [rl ! 1] (rl ! 2) k);
        TranslateExprs [a, b] [rl ! 0, rl ! 1] j }) g1 = (n0, g')"
    by (rule placed_bindE [OF run0 pl]) (auto intro!: keeps_bind0 keeps_TranslateExpr simp del: TranslateExprs.simps)
  obtain k g2 where 2: "run_state (EmitInstr (Iop op [rl ! 0, rl ! 2] dest succ)) g1 = (k, g2)"
      "placed V f g1 g2" "placed V f g2 g'" "grows {} g1 g2" "same_stacks g1 g2" and run2: "run_state (do {
        j \<leftarrow> EmitInstr (Iop (translateShiftOp sh n) [rl ! 1] (rl ! 2) k);
        TranslateExprs [a, b] [rl ! 0, rl ! 1] j }) g2 = (n0, g')"
    by (rule placed_bindE [OF run1 1(3)]) (auto intro!: keeps_bind0 keeps_TranslateExpr simp del: TranslateExprs.simps)
  obtain j g3 where 3: "run_state (EmitInstr (Iop (translateShiftOp sh n) [rl ! 1] (rl ! 2) k)) g2 = (j, g3)"
      "placed V f g2 g3" "placed V f g3 g'" "grows {} g2 g3" "same_stacks g2 g3"
      and run3: "run_state (TranslateExprs [a, b] [rl ! 0, rl ! 1] j) g3 = (n0, g')"
    by (rule placed_bindE [OF run2 2(3)]) (auto intro!: keeps_TranslateExpr simp del: TranslateExprs.simps)
  have gr: "grows {} g1 g3" using grows_trans [OF 2(4) 3(4)] by simp
  have st: "same_stacks g1 g3" "same_stacks g g3" using 1(5) 2(5) 3(5) by (simp_all add: same_stacks_def)
  note fresh = fresh_temps [OF 1(1,2)]
  obtain p q s where rl: "rl = [p, q, s]" using fresh(2) by (auto simp: length_Suc_conv numeral_3_eq_3)
  have tmp: "temp_regs V g3 [p, q]" "p \<noteq> q" "p \<noteq> s" "q \<noteq> s" "s < nextReg g3"
    using temp_regs_grows [OF fresh(1) gr st(1)] by (auto simp: rl temp_regs_def)
  from ev [OF eval] obtain x y z w where xy: "eval_expr T E env m (let_values g rs) a = Some (Some x)"
    "eval_expr T E env m (let_values g rs) b = Some (Some y)" "word_shift sh n (lo y) = Some z"
    "v = Some w" "word_op T op [x, zx z] = Some w" by blast
  obtain rs1 where rs1: "runs T E f m n0 rs j rs1" "map rs1 [p, q] = [Some x, Some y]" "unchanged g3 {p, q} rs rs1"
  proof (rule exprs_correctE [OF exprs_correct_two [OF a b] run3 3(3) _ _ _ vm])
    show "exprs_ok [a, b]" using ok [OF eok] by simp
    show "temp_regs V g3 [rl ! 0, rl ! 1]" using tmp(1) by (simp add: rl)
    show "eval_exprs T E env m (let_values g3 rs) [a, b] = Some [Some x, Some y]"
      using xy by (simp add: let_values_same [OF st(2)])
  qed (auto simp: rl)
  define rs2 where "rs2 = rs1(s := Some (zx z))"
  have "rtl_code f j = Some (Iop (translateShiftOp sh n) [q] s k)"
    using emitted [OF 3(1,2)] by (simp add: rl)
  then have "runs T E f m j rs1 k rs2"
    unfolding rs2_def using rs1(2)
    by (elim runs_instr) (intro word_op_exec [where ws = "[y]"], auto simp: translateShiftOp_word [OF xy(3)])
  moreover have "runs T E f m k rs2 succ (rs2(dest := Some w))"
    using rs1(2) tmp xy(5)
    by (intro runs_instr [OF emitted [OF 2(1,2)]] word_op_exec [where ws = "[x, zx z]"]) (auto simp: rl rs2_def)
  ultimately have "runs T E f m n0 rs succ (rs2(dest := Some w))" using rs1(1) by (blast intro: runs_trans)
  moreover have "nextReg g \<le> nextReg g3" using 1(4) gr by (simp add: grows_def)
  then have "unchanged g {dest} rs (rs2(dest := Some w))"
    using rs1(3) fresh(3) by (auto simp: unchanged_def rs2_def rl)
  ultimately show "\<exists>rs'. runs T E f m n0 rs succ rs' \<and> rs' dest = v \<and> unchanged g {dest} rs rs'"
    using xy(4) by (intro exI [of _ "rs2(dest := Some w)"]) simp
qed

lemma addshift_correct:
  assumes "\<And>r n. expr_correct T E V f env m a r n" and "\<And>r n. expr_correct T E V f env m b r n"
  shows "expr_correct T E V f env m (Eaddshift sh n a b) dest succ"
  by (rule shifted_correct [OF assms, where op = "Oarith Oadd"])
    (auto simp: bind_eq_Some_conv known2_Some word_addshift_def)

lemma subshift_correct:
  assumes "\<And>r n. expr_correct T E V f env m a r n" and "\<And>r n. expr_correct T E V f env m b r n"
  shows "expr_correct T E V f env m (Esubshift sh n a b) dest succ"
  by (rule shifted_correct [OF assms, where op = "Oarith Osub"])
    (auto simp: bind_eq_Some_conv known2_Some word_subshift_def)

lemma condition_correct:
  assumes c: "\<And>ifso ifnot. cond_correct T E V f env m c ifso ifnot"
    and a: "\<And>n. expr_correct T E V f env m a dest n" and b: "\<And>n. expr_correct T E V f env m b dest n"
  shows "expr_correct T E V f env m (Econdition c a b) dest succ"
  unfolding expr_correct_def
proof (intro allI impI)
  fix g n g' rs v
  assume run: "run_state (TranslateExpr (Econdition c a b) dest succ) g = (n, g')" and pl: "placed V f g g'"
    and ok: "expr_ok (Econdition c a b)" and d: "dest < nextReg g" and vm: "vars_match V env rs"
    and eval: "eval_expr T E env m (let_values g rs) (Econdition c a b) = Some v"
  obtain els g1 where 1: "run_state (TranslateExpr b dest succ) g = (els, g1)" "placed V f g g1" "placed V f g1 g'"
      "grows {} g g1" "same_stacks g g1"
      and run1: "run_state (do { thn \<leftarrow> TranslateExpr a dest succ; TranslateCond c thn els }) g1 = (n, g')"
    by (rule placed_bindE [OF run [unfolded TranslateExpr.simps] pl]) (auto intro!: keeps_bind0 keeps_TranslateExpr)
  obtain thn g2 where 2: "run_state (TranslateExpr a dest succ) g1 = (thn, g2)" "placed V f g1 g2" "placed V f g2 g'"
      "grows {} g1 g2" "same_stacks g1 g2" and run2: "run_state (TranslateCond c thn els) g2 = (n, g')"
    by (rule placed_bindE [OF run1 1(3)]) (auto intro!: keeps_TranslateExpr)
  have st: "same_stacks g g2" using 1(5) 2(5) by (simp add: same_stacks_def)
  have le: "nextReg g \<le> nextReg g1" "nextReg g1 \<le> nextReg g2" using 1(4) 2(4) by (simp_all add: grows_def)
  from eval obtain t where t: "eval_cond T E env m (let_values g rs) c = Some t"
      "eval_expr T E env m (let_values g rs) (if t then a else b) = Some v"
    by (auto simp: bind_eq_Some_conv split: if_splits)
  obtain rs1 where rs1: "runs T E f m n rs (if t then thn else els) rs1" "unchanged g2 {} rs rs1"
    by (rule cond_correctE [OF c run2 2(3) _ vm]) (use ok t(1) in \<open>auto simp: let_values_same [OF st]\<close>)
  have u1: "unchanged g {} rs rs1" using rs1(2) le by (auto simp: unchanged_def)
  have vm1: "vars_match V env rs1" by (rule vars_match_unchanged [OF vm u1 pl]) simp
  have lv: "let_values g rs1 = let_values g rs" using let_values_unchanged [OF u1] pl by (simp add: placed_def)
  obtain rs2 where rs2: "runs T E f m (if t then thn else els) rs1 succ rs2" "rs2 dest = v" "unchanged g {dest} rs1 rs2"
  proof (cases t)
    case True
    obtain rs2 where "runs T E f m thn rs1 succ rs2" "rs2 dest = v" "unchanged g1 {dest} rs1 rs2"
      by (rule expr_correctE [OF a 2(1,2) _ _ vm1])
        (use ok d le t(2) True in \<open>auto simp: let_values_same [OF 1(5)] lv\<close>)
    with that True le show ?thesis by (auto simp: unchanged_def)
  next
    case False
    obtain rs2 where "runs T E f m els rs1 succ rs2" "rs2 dest = v" "unchanged g {dest} rs1 rs2"
      by (rule expr_correctE [OF b 1(1,2) _ d vm1]) (use ok t(2) False in \<open>auto simp: lv\<close>)
    with that False show ?thesis by auto
  qed
  have "unchanged g {dest} rs rs2" using u1 rs2(3) by (auto simp: unchanged_def)
  with runs_trans [OF rs1(1) rs2(1)] rs2(2)
  show "\<exists>rs'. runs T E f m n rs succ rs' \<and> rs' dest = v \<and> unchanged g {dest} rs rs'" by blast
qed

lemma let_correct:
  assumes a: "\<And>r n. expr_correct T E V f env m a r n" and b: "\<And>r n. expr_correct T E V f env m b r n"
  shows "expr_correct T E V f env m (Elet a b) dest succ"
  unfolding expr_correct_def
proof (intro allI impI)
  fix g n g' rs v
  assume run: "run_state (TranslateExpr (Elet a b) dest succ) g = (n, g')" and pl: "placed V f g g'"
    and ok: "expr_ok (Elet a b)" and d: "dest < nextReg g" and vm: "vars_match V env rs"
    and eval: "eval_expr T E env m (let_values g rs) (Elet a b) = Some v"
  define r g1 where "r = nextReg g" and "g1 = g\<lparr>nextReg := nextReg g + 1, letBindings := letBindings g @ [nextReg g]\<rparr>"
  from run obtain g3 where "run_state (do { bodyEntry \<leftarrow> TranslateExpr b dest succ; TranslateExpr a r bodyEntry }) g1 = (n, g3)"
      and g': "g' = g3\<lparr>letBindings := butlast (letBindings g3)\<rparr>"
    by (auto simp: r_def g1_def split: prod.splits)
  have "wf_gen g1" using pl by (fastforce simp: placed_def g1_def wf_gen_def)
  then have pl1: "placed V f g1 g3" using pl by (auto simp: placed_def g1_def g')
  obtain entry g2 where 1: "run_state (TranslateExpr b dest succ) g1 = (entry, g2)" "placed V f g1 g2" "placed V f g2 g3"
      "grows {} g1 g2" "same_stacks g1 g2" and 2: "run_state (TranslateExpr a r entry) g2 = (n, g3)"
    by (rule placed_bindE [OF \<open>run_state (do { bodyEntry \<leftarrow> _; _ bodyEntry }) g1 = _\<close> pl1]) (auto intro!: keeps_TranslateExpr)
  have le: "nextReg g < nextReg g1" "nextReg g1 \<le> nextReg g2" using 1(4) by (simp_all add: grows_def g1_def)
  from eval obtain w where w: "eval_expr T E env m (let_values g rs) a = Some w"
      "eval_expr T E env m (w # let_values g rs) b = Some v"
    by (auto simp: bind_eq_Some_conv)
  have closed: "eval_expr T E env m le' a = Some w" for le'
    using w(1) eval_lets_below(1) [of 0 a "let_values g rs" le'] ok by (simp add: agree_to_def)
  obtain rs1 where rs1: "runs T E f m n rs entry rs1" "rs1 r = w" "unchanged g2 {r} rs rs1"
    by (rule expr_correctE [OF a 2 1(3) _ _ vm]) (use ok closed le in \<open>auto simp: r_def\<close>)
  have u1: "unchanged g {} rs rs1" using rs1(3) le by (auto simp: unchanged_def r_def)
  have vm1: "vars_match V env rs1" by (rule vars_match_unchanged [OF vm u1 pl]) simp
  have "let_values g rs1 = let_values g rs" using let_values_unchanged [OF u1] pl by (simp add: placed_def)
  then have lv: "let_values g1 rs1 = w # let_values g rs"
    using rs1(2) by (simp add: let_values_def g1_def r_def)
  obtain rs2 where rs2: "runs T E f m entry rs1 succ rs2" "rs2 dest = v" "unchanged g1 {dest} rs1 rs2"
    by (rule expr_correctE [OF b 1(1,2) _ _ vm1]) (use ok d le w(2) lv in auto)
  have "unchanged g {dest} rs rs2" using u1 rs2(3) le by (auto simp: unchanged_def)
  with runs_trans [OF rs1(1) rs2(1)] rs2(2)
  show "\<exists>rs'. runs T E f m n rs succ rs' \<and> rs' dest = v \<and> unchanged g {dest} rs rs'" by blast
qed

lemma cond_leaf_correct:
  assumes c: "TranslateCondition c = Some (cc, args)" and args: "\<And>rl n. exprs_correct T E V f env m args rl n"
  shows "cond_correct T E V f env m c ifso ifnot"
  unfolding cond_correct_def
proof (intro allI impI)
  fix g n g' rs t
  assume run: "run_state (TranslateCond c ifso ifnot) g = (n, g')" and pl: "placed V f g g'" and ok: "cond_ok c"
    and vm: "vars_match V env rs" and eval: "eval_cond T E env m (let_values g rs) c = Some t"
  obtain x g1 where 1: "placed V f g1 g'" "grows {} g g1" "same_stacks g g1"
      and run1: "run_state (do {
        argRegs \<leftarrow> FreshN (length args);
        entry \<leftarrow> TranslateExprs args argRegs x;
        condNode \<leftarrow> EmitInstr (Icond cc argRegs ifso ifnot);
        TranslateExprs args argRegs condNode }) g1 = (n, g')"
    by (rule placed_bindE [OF run [unfolded TranslateCond_leaf [OF c]] pl])
      (auto simp: emit_defs intro!: keeps_bind0 keeps_TranslateExpr)
  from TranslateCondition_eval [OF c eval] obtain ws where
    ws: "eval_exprs T E env m (let_values g rs) args = Some (map Some ws)" "word_cond T cc ws = Some t" by blast
  obtain rl k rs1 where k: "rtl_code f k = Some (Icond cc rl ifso ifnot)" "runs T E f m n rs k rs1"
      "map rs1 rl = map Some ws" "unchanged g1 {} rs rs1"
    by (rule args_then_instr [OF run1 1(1) _ args TranslateCondition_ok [OF c ok] vm])
      (use ws(1) in \<open>auto simp: let_values_same [OF 1(3)] intro: keeps_TranslateExpr\<close>)
  have "sem_cond (word_sem T E) cc (map rs1 rl) m = Some t" unfolding k(3) using ws(2) by simp
  then have "runs T E f m k rs1 (if t then ifso else ifnot) rs1"
    by (intro runs_instr [OF k(1)] rtl_cond)
  moreover have "unchanged g {} rs rs1" using k(4) 1(2) by (auto simp: unchanged_def grows_def)
  ultimately show "\<exists>rs'. runs T E f m n rs (if t then ifso else ifnot) rs' \<and> unchanged g {} rs rs'"
    using k(2) by (blast intro: runs_trans)
qed

lemma cond_seq_correct:
  assumes c1: "\<And>ifso ifnot. cond_correct T E V f env m c1 ifso ifnot"
    and c2: "\<And>ifso ifnot. cond_correct T E V f env m c2 ifso ifnot"
  shows "cond_correct T E V f env m (CondAnd c1 c2) ifso ifnot" and "cond_correct T E V f env m (CondOr c1 c2) ifso ifnot"
proof -
  have seq: "\<exists>rs'. runs T E f m n rs (if t1 = skip then (if skip then ifso else ifnot) else if t2 then ifso else ifnot) rs' \<and>
      unchanged g {} rs rs'"
    if run: "run_state (do { inner \<leftarrow> TranslateCond c2 ifso ifnot;
        TranslateCond c1 (if skip then ifso else inner) (if skip then inner else ifnot) }) g = (n, g')"
      and pl: "placed V f g g'" and ok: "cond_ok c1" "cond_ok c2" and vm: "vars_match V env rs"
      and t1: "eval_cond T E env m (let_values g rs) c1 = Some t1"
      and t2: "t1 \<noteq> skip \<Longrightarrow> eval_cond T E env m (let_values g rs) c2 = Some t2"
    for skip g n g' rs t1 t2
  proof -
    obtain inner g1 where 1: "run_state (TranslateCond c2 ifso ifnot) g = (inner, g1)" "placed V f g g1" "placed V f g1 g'"
        "grows {} g g1" "same_stacks g g1"
        and run1: "run_state (TranslateCond c1 (if skip then ifso else inner) (if skip then inner else ifnot)) g1 = (n, g')"
      by (rule placed_bindE [OF run pl]) (auto intro: keeps_TranslateExpr)
    obtain rs1 where rs1: "runs T E f m n rs (if t1 then if skip then ifso else inner else if skip then inner else ifnot) rs1"
        "unchanged g1 {} rs rs1"
      by (rule cond_correctE [OF c1 run1 1(3) ok(1) vm]) (use t1 in \<open>auto simp: let_values_same [OF 1(5)]\<close>)
    have u1: "unchanged g {} rs rs1" using rs1(2) 1(4) by (auto simp: unchanged_def grows_def)
    show ?thesis
    proof (cases "t1 = skip")
      case True
      with rs1(1) u1 show ?thesis by (cases skip) auto
    next
      case False
      have "vars_match V env rs1" by (rule vars_match_unchanged [OF vm u1 pl]) simp
      moreover have "let_values g rs1 = let_values g rs" using let_values_unchanged [OF u1] pl by (simp add: placed_def)
      ultimately obtain rs2 where rs2: "runs T E f m inner rs1 (if t2 then ifso else ifnot) rs2" "unchanged g {} rs1 rs2"
        using cond_correctE [OF c2 1(1,2) ok(2), of rs1 t2] t2 False by auto
      have "unchanged g {} rs rs2" using u1 rs2(2) by (auto simp: unchanged_def)
      moreover have "runs T E f m n rs inner rs1" using rs1(1) False by (cases t1; cases skip) auto
      ultimately show ?thesis using rs2(1) False runs_trans by (metis (full_types))
    qed
  qed
  show "cond_correct T E V f env m (CondAnd c1 c2) ifso ifnot"
    unfolding cond_correct_def
  proof (intro allI impI)
    fix g n g' rs t
    assume *: "run_state (TranslateCond (CondAnd c1 c2) ifso ifnot) g = (n, g')" "placed V f g g'" "cond_ok (CondAnd c1 c2)"
      "vars_match V env rs" "eval_cond T E env m (let_values g rs) (CondAnd c1 c2) = Some t"
    then obtain t1 where "eval_cond T E env m (let_values g rs) c1 = Some t1"
        "if t1 then eval_cond T E env m (let_values g rs) c2 = Some t else \<not> t"
      by (auto simp: bind_eq_Some_conv split: if_splits)
    with seq [of False g n g' rs t1 t] *
    show "\<exists>rs'. runs T E f m n rs (if t then ifso else ifnot) rs' \<and> unchanged g {} rs rs'"
      by (cases t1) (auto simp del: run_state_bind)
  qed
  show "cond_correct T E V f env m (CondOr c1 c2) ifso ifnot"
    unfolding cond_correct_def
  proof (intro allI impI)
    fix g n g' rs t
    assume *: "run_state (TranslateCond (CondOr c1 c2) ifso ifnot) g = (n, g')" "placed V f g g'" "cond_ok (CondOr c1 c2)"
      "vars_match V env rs" "eval_cond T E env m (let_values g rs) (CondOr c1 c2) = Some t"
    then obtain t1 where "eval_cond T E env m (let_values g rs) c1 = Some t1"
        "if t1 then t else eval_cond T E env m (let_values g rs) c2 = Some t"
      by (auto simp: bind_eq_Some_conv split: if_splits)
    with seq [of True g n g' rs t1 t] *
    show "\<exists>rs'. runs T E f m n rs (if t then ifso else ifnot) rs' \<and> unchanged g {} rs rs'"
      by (cases t1) (auto simp del: run_state_bind)
  qed
qed

lemma cond_not_correct:
  assumes "\<And>cc args rl succ. TranslateCondition c = Some (cc, args) \<Longrightarrow> exprs_correct T E V f env m args rl succ"
  shows "cond_correct T E V f env m (CondNot c) ifso ifnot"
proof (cases "TranslateCondition c")
  case None
  then show ?thesis by (simp add: cond_correct_def)
next
  case (Some p)
  then show ?thesis using assms by (cases p) (auto intro!: cond_leaf_correct)
qed

lemma translated_correct:
  "\<forall>dest succ. expr_correct T E V f env m e dest succ"
  "\<forall>rl succ. exprs_correct T E V f env m es rl succ"
  "(\<forall>ifso ifnot. cond_correct T E V f env m c ifso ifnot) \<and>
   (\<forall>cc args rl succ. TranslateCondition c = Some (cc, args) \<longrightarrow> exprs_correct T E V f env m args rl succ)"
proof (induction e and es and c rule: expr_ok_exprs_ok_cond_ok.induct)
  case (11 e es)
  show ?case
  proof (intro allI)
    fix rl succ
    show "exprs_correct T E V f env m (e # es) rl succ"
      by (cases rl) (use 11 in \<open>auto simp: exprs_correct_Cons\<close>, simp add: exprs_correct_def)
  qed
next
  case (18 c)
  then show ?case by (auto intro!: cond_not_correct)
qed (auto simp: const_correct var_correct letvar_correct unop_correct binop_correct cmp_correct load_correct
    addshift_correct subshift_correct condition_correct let_correct exprs_correct_none cond_seq_correct
    exprs_correct_one exprs_correct_two intro!: cond_leaf_correct)

section \<open>Properties\<close>

text \<open>
  Property C32. The code of an expression gets to its end: if the expression has a value and uses only operators,
  conditions and addressing modes that RTL has, and no let whose bound expression refers to an outer let
  (\<open>expr_ok\<close>), then, started at the node that \<open>TranslateExpr\<close> returns, in registers that hold the variables, the
  graph reaches the successor with the value of the expression in the destination, and every other register
  that was in use before is unchanged.
\<close>

theorem TranslateExpr_reaches:
  assumes "run_state (TranslateExpr e dest succ) g = (n, g')" and "wf_gen g" and "code g' \<subseteq>\<^sub>m rtl_code f"
    and "dest < nextReg g" and "expr_ok e" and "vars_match (varToReg g) env rs"
    and "eval_expr T E env m (map rs (rev (letBindings g))) e = Some v"
  shows "\<exists>rs'. (rtl_step (word_sem T E) f)\<^sup>*\<^sup>* (RNode n rs m) (RNode succ rs' m) \<and> rs' dest = v \<and>
    (\<forall>r. r < nextReg g \<and> r \<noteq> dest \<longrightarrow> rs' r = rs r)"
proof -
  have "placed (varToReg g) f g g'" using assms(2,3) by (simp add: placed_def)
  from expr_correctE [OF translated_correct(1) [rule_format] assms(1) this assms(5,4,6) assms(7) [folded let_values_def]]
  obtain rs' where "runs T E f m n rs succ rs'" "rs' dest = v" "unchanged g {dest} rs rs'" by blast
  then show ?thesis by (auto simp: runs_def unchanged_def)
qed

definition sample_expr :: expr where
  "sample_expr = Econdition (CondOr (CondCmpu Cgt_cs (Evar ''x'') (Econst (Ointconst_cs 4))) CondFalse)
     (Elet (Eaddshift Slsl 2 (Evar ''x'') (Evar ''x'')) (Ebinop Osub_cs (Eletvar 0) (Eunop Onegint_cs (Evar ''x''))))
     (Econst (Ointconst_cs 0))"

definition sample_gen :: translator where
  "sample_gen = NewTranslator\<lparr>nextReg := 3, varToReg := [''x'' \<mapsto> 1]\<rparr>"

definition sample_graph :: rtl_function where
  "sample_graph = (rtl_NewFunction ''f'' no_sig)\<lparr>rtl_code := code (snd (run_state (TranslateExpr sample_expr 2 100) sample_gen))\<rparr>"

theorem TranslateExpr_reaches_witness:
  "\<forall>T E m. \<exists>rs'. (rtl_step (word_sem T E) sample_graph)\<^sup>*\<^sup>*
    (RNode (fst (run_state (TranslateExpr sample_expr 2 100) sample_gen)) (\<lambda>_. Some 5) m) (RNode 100 rs' m) \<and>
    rs' 2 = Some 30 \<and> (\<forall>r. r < 3 \<and> r \<noteq> 2 \<longrightarrow> rs' r = Some 5)"
proof (intro allI)
  fix T E m
  obtain n g' where run: "run_state (TranslateExpr sample_expr 2 100) sample_gen = (n, g')" by force
  have wf: "wf_gen sample_gen" by (auto simp: sample_gen_def NewTranslator_def wf_gen_def injective_map_def)
  have ok: "expr_ok sample_expr" by (simp add: sample_expr_def unop_ok_def binop_ok_def)
  have vm: "vars_match (varToReg sample_gen) [''x'' \<mapsto> Some 5] (\<lambda>_. Some 5)" by (simp add: vars_match_def sample_gen_def)
  have ev: "eval_expr T E [''x'' \<mapsto> Some 5] m (map (\<lambda>_. Some 5) (rev (letBindings sample_gen))) sample_expr = Some (Some 30)"
    by (simp add: sample_expr_def sample_gen_def NewTranslator_def known1_def known2_def let_value_def lo_def zx_def
        word_addshift_def guarded_def)
  have graph: "code g' \<subseteq>\<^sub>m rtl_code sample_graph" by (simp add: sample_graph_def rtl_NewFunction_def run)
  have supply3: "nextReg sample_gen = 3" by (simp add: sample_gen_def)
  then have "2 < nextReg sample_gen" by simp
  from TranslateExpr_reaches [OF run wf graph this ok vm ev]
  show "\<exists>rs'. (rtl_step (word_sem T E) sample_graph)\<^sup>*\<^sup>*
    (RNode (fst (run_state (TranslateExpr sample_expr 2 100) sample_gen)) (\<lambda>_. Some 5) m) (RNode 100 rs' m) \<and>
    rs' 2 = Some 30 \<and> (\<forall>r. r < 3 \<and> r \<noteq> 2 \<longrightarrow> rs' r = Some 5)"
    by (simp only: run fst_conv supply3)
qed

text \<open>
  What is lost without notice: a unary operator becomes something other than a plain move
  exactly when RTL has an operation for it, a binary operator other than the addition becomes an addition
  when RTL has none, and the negation of a
  conjunction or disjunction (or of such a negation) disappears, so that the first branch is always taken.
\<close>

lemma untranslated_operators:
  "(TranslateUnaryOp uop \<noteq> Omove \<longleftrightarrow> unop_ok uop) \<and>
   (TranslateBinaryOp bop \<noteq> Oarith Oadd \<longleftrightarrow> bop \<noteq> Oadd_cs \<and> binop_ok bop) \<and>
   TranslateCond (CondNot (CondAnd c d)) ifso ifnot = State_Monad.return ifso \<and>
   TranslateCond (CondNot (CondOr c d)) ifso ifnot = State_Monad.return ifso"
proof (intro conjI)
  show "TranslateUnaryOp uop \<noteq> Omove \<longleftrightarrow> unop_ok uop" by (cases uop) (simp_all add: unop_ok_def)
  show "TranslateBinaryOp bop \<noteq> Oarith Oadd \<longleftrightarrow> bop \<noteq> Oadd_cs \<and> binop_ok bop"
    by (cases bop) (simp_all add: binop_ok_def)
qed (simp_all add: TranslateCond_dropped)

text \<open>A let-bound expression that refers to an outer binding reads its own, still unset, register.\<close>

lemma let_binding_shadows_outer:
  "fst (run_state (TranslateExpr (Elet (Econst (Ointconst_cs 1)) (Elet (Eletvar 0) (Eletvar 0))) 1 9)
     (NewTranslator\<lparr>nextReg := 2\<rparr>)) = 2 \<and>
   code (snd (run_state (TranslateExpr (Elet (Econst (Ointconst_cs 1)) (Elet (Eletvar 0) (Eletvar 0))) 1 9)
     (NewTranslator\<lparr>nextReg := 2\<rparr>))) = [1 \<mapsto> Iop Omove [3] 1 9, 2 \<mapsto> Iop (Ointconst 1) [] 2 1]"
  by (simp add: NewTranslator_def emit_defs translateLetvar_def from_top_def Let_def)

end
