(* ===== verification/RTLgenType.thy ===== *)
theory RTLgenType
  imports RTLgenExpr
begin

text \<open>
  Typing of the generated graph: every operation, condition and addressing mode has as many operands as it
  takes. RTL generation turns typed CminorSel into typed RTL.
\<close>

section \<open>Operand counts\<close>

fun arith_arity :: "arithOp \<Rightarrow> nat" where
  "arith_arity (Oaddimm _) = 1"
| "arith_arity Oneg = 1"
| "arith_arity (Omulimm _) = 1"
| "arith_arity _ = 2"

fun bit_arity :: "bitOp \<Rightarrow> nat" where
  "bit_arity (Oandimm _) = 1"
| "bit_arity (Oorimm _) = 1"
| "bit_arity (Oxorimm _) = 1"
| "bit_arity Onot = 1"
| "bit_arity (Oshlimm _) = 1"
| "bit_arity (Oshrimm _) = 1"
| "bit_arity (Oshruimm _) = 1"
| "bit_arity _ = 2"

fun long_arity :: "longOp \<Rightarrow> nat" where
  "long_arity Oaddl = 2"
| "long_arity Osubl = 2"
| "long_arity Omull = 2"
| "long_arity Omullhs = 2"
| "long_arity Omullhu = 2"
| "long_arity Odivl = 2"
| "long_arity Odivlu = 2"
| "long_arity Omodl = 2"
| "long_arity Omodlu = 2"
| "long_arity Oandl = 2"
| "long_arity Oorl = 2"
| "long_arity Oxorl = 2"
| "long_arity Oshll = 2"
| "long_arity Oshrl = 2"
| "long_arity Oshrlu = 2"
| "long_arity _ = 1"

fun cond_arity :: "conditionCode \<Rightarrow> nat" where
  "cond_arity (Ccompimm _ _) = 1"
| "cond_arity (Ccompuimm _ _) = 1"
| "cond_arity (Ccomplimm _ _) = 1"
| "cond_arity (Ccompluimm _ _) = 1"
| "cond_arity _ = 2"

fun op_arity :: "operation \<Rightarrow> nat" where
  "op_arity Omove = 1"
| "op_arity (Oarith op) = arith_arity op"
| "op_arity (Obit op) = bit_arity op"
| "op_arity (Olong op) = long_arity op"
| "op_arity (Oconv _) = 1"
| "op_arity (Ofloat op) = float_arity op"
| "op_arity (Ofconv _) = 1"
| "op_arity (Ocompare op) = cond_arity (cmp_code op)"
| "op_arity _ = 0"

fun mode_arity :: "addressingMode \<Rightarrow> nat" where
  "mode_arity (Aindexed _) = 1"
| "mode_arity (Aglobal _ _) = 0"
| "mode_arity (Ainstack _) = 0"
| "mode_arity _ = 2"

fun instr_typed :: "rtl_instr \<Rightarrow> bool" where
  "instr_typed (Iop op args _ _) \<longleftrightarrow> length args = op_arity op"
| "instr_typed (Iload _ mode args _ _) \<longleftrightarrow> length args = mode_arity mode"
| "instr_typed (Istore _ mode args _ _) \<longleftrightarrow> length args = mode_arity mode"
| "instr_typed (Icond cc args _ _) \<longleftrightarrow> length args = cond_arity cc"
| "instr_typed _ \<longleftrightarrow> True"

text \<open>The counts are those of the meaning of the operations: an untyped operation or address has no value.\<close>

lemma arith_word_arity: "arith_word op ws = Some w \<Longrightarrow> length ws = arith_arity op"
  by (cases "(op, ws)" rule: arith_word.cases) auto

lemma bit_word_arity: "bit_word op ws = Some w \<Longrightarrow> length ws = bit_arity op"
  by (cases "(op, ws)" rule: bit_word.cases) auto

lemma long_word_arity: "long_word op ws = Some w \<Longrightarrow> length ws = long_arity op"
  by (cases "(op, ws)" rule: long_word.cases) auto

lemma word_cond_arity: "word_cond T cc ws = Some t \<Longrightarrow> length ws = cond_arity cc"
  by (cases "(T, cc, ws)" rule: word_cond.cases) auto

lemma word_op_arity: "word_op T op ws = Some w \<Longrightarrow> length ws = op_arity op"
  by (cases "(T, op, ws)" rule: word_op.cases)
    (auto dest: arith_word_arity bit_word_arity long_word_arity word_cond_arity)

lemma word_addr_arity: "word_addr T mode ws = Some p \<Longrightarrow> length ws = mode_arity mode"
  by (cases "(T, mode, ws)" rule: word_addr.cases) auto

section \<open>Typed CminorSel\<close>

definition mode_typed :: "addressingMode \<Rightarrow> expr list \<Rightarrow> bool" where
  "mode_typed mode args \<longleftrightarrow> mode_ok mode \<and> length args = mode_arity mode"

fun expr_typed :: "expr \<Rightarrow> bool" and exprs_typed :: "expr list \<Rightarrow> bool" and cond_typed :: "cond \<Rightarrow> bool" where
  "expr_typed (Eunop _ a) \<longleftrightarrow> expr_typed a"
| "expr_typed (Ebinop _ a b) \<longleftrightarrow> expr_typed a \<and> expr_typed b"
| "expr_typed (Eload _ mode es) \<longleftrightarrow> mode_typed mode es \<and> exprs_typed es"
| "expr_typed (Econdition c a b) \<longleftrightarrow> cond_typed c \<and> expr_typed a \<and> expr_typed b"
| "expr_typed (Elet a b) \<longleftrightarrow> expr_typed a \<and> expr_typed b"
| "expr_typed (Eaddshift _ _ a b) \<longleftrightarrow> expr_typed a \<and> expr_typed b"
| "expr_typed (Esubshift _ _ a b) \<longleftrightarrow> expr_typed a \<and> expr_typed b"
| "expr_typed (Ecmp _ _ a b) \<longleftrightarrow> expr_typed a \<and> expr_typed b"
| "expr_typed _ \<longleftrightarrow> True"
| "exprs_typed [] \<longleftrightarrow> True"
| "exprs_typed (e # es) \<longleftrightarrow> expr_typed e \<and> exprs_typed es"
| "cond_typed (CondCmp _ a b) \<longleftrightarrow> expr_typed a \<and> expr_typed b"
| "cond_typed (CondCmpu _ a b) \<longleftrightarrow> expr_typed a \<and> expr_typed b"
| "cond_typed (CondCmpf _ a b) \<longleftrightarrow> expr_typed a \<and> expr_typed b"
| "cond_typed (CondCmps _ a b) \<longleftrightarrow> expr_typed a \<and> expr_typed b"
| "cond_typed (CondCmpl _ a b) \<longleftrightarrow> expr_typed a \<and> expr_typed b"
| "cond_typed (CondCmplu _ a b) \<longleftrightarrow> expr_typed a \<and> expr_typed b"
| "cond_typed (CondNot c) \<longleftrightarrow> cond_typed c"
| "cond_typed (CondAnd c d) \<longleftrightarrow> cond_typed c \<and> cond_typed d"
| "cond_typed (CondOr c d) \<longleftrightarrow> cond_typed c \<and> cond_typed d"
| "cond_typed _ \<longleftrightarrow> True"

fun stmt_typed :: "stmt \<Rightarrow> bool" and cases_typed :: "switchCase list \<Rightarrow> bool" where
  "stmt_typed (Sassign x e) \<longleftrightarrow> expr_typed e"
| "stmt_typed (Sstore ch mode args e) \<longleftrightarrow> mode_typed mode args \<and> exprs_typed args \<and> expr_typed e"
| "stmt_typed (Scall x sg e args) \<longleftrightarrow> expr_typed e \<and> exprs_typed args"
| "stmt_typed (Stailcall sg e args) \<longleftrightarrow> expr_typed e \<and> exprs_typed args"
| "stmt_typed (Sbuiltin x bf args) \<longleftrightarrow> exprs_typed args"
| "stmt_typed (Sseq a b) \<longleftrightarrow> stmt_typed a \<and> stmt_typed b"
| "stmt_typed (Sifthenelse c a b) \<longleftrightarrow> cond_typed c \<and> stmt_typed a \<and> stmt_typed b"
| "stmt_typed (Sloop a) \<longleftrightarrow> stmt_typed a"
| "stmt_typed (Sblock a) \<longleftrightarrow> stmt_typed a"
| "stmt_typed (Sswitch isLong e cs d) \<longleftrightarrow> expr_typed e \<and> cases_typed cs \<and> stmt_typed d"
| "stmt_typed (Sreturn v) \<longleftrightarrow> (case v of None \<Rightarrow> True | Some e \<Rightarrow> expr_typed e)"
| "stmt_typed (Slabel l a) \<longleftrightarrow> stmt_typed a"
| "stmt_typed _ \<longleftrightarrow> True"
| "cases_typed [] \<longleftrightarrow> True"
| "cases_typed (SwitchCase v a # cs) \<longleftrightarrow> stmt_typed a \<and> cases_typed cs"

lemma TranslateUnaryOp_arity [simp]: "op_arity (TranslateUnaryOp uop) = 1"
  by (cases uop) simp_all

lemma TranslateBinaryOp_arity [simp]: "op_arity (TranslateBinaryOp bop) = 2"
  by (cases bop) simp_all

lemma TranslateConstant_arity [simp]: "op_arity (TranslateConstant c) = 0"
  by (cases c) simp_all

lemma TranslateCompareOp_arity [simp]: "op_arity (TranslateCompareOp bop c) = 2"
  by (cases bop) simp_all

lemma translateShiftOp_arity [simp]: "op_arity (translateShiftOp sh n) = 1"
  by (cases sh) simp_all

lemma negate_arity [simp]: "cond_arity (negateConditionCode cc) = cond_arity cc"
  by (cases cc) simp_all

lemma TranslateCondition_typed:
  "TranslateCondition c = Some (cc, args) \<Longrightarrow> cond_typed c \<Longrightarrow> exprs_typed args \<and> length args = cond_arity cc"
  by (induction c arbitrary: cc args rule: TranslateCondition.induct) fastforce+

section \<open>Computations that emit typed instructions only\<close>

definition typed_code :: "translator \<Rightarrow> bool" where
  "typed_code g \<longleftrightarrow> (\<forall>n i. code g n = Some i \<longrightarrow> instr_typed i)"

definition emits_typed :: "'a gen \<Rightarrow> ('a \<Rightarrow> bool) \<Rightarrow> bool" where
  "emits_typed c Q \<longleftrightarrow> (\<forall>g x g'. typed_code g \<longrightarrow> run_state c g = (x, g') \<longrightarrow> typed_code g' \<and> Q x)"

abbreviation "typed_gen c \<equiv> emits_typed c (\<lambda>_. True)"

lemma emits_typed_bind:
  assumes "emits_typed c Q" and "\<And>x. Q x \<Longrightarrow> emits_typed (k x) P"
  shows "emits_typed (State_Monad.bind c k) P"
  using assms unfolding emits_typed_def run_bind by blast

lemma typed_bind: "typed_gen c \<Longrightarrow> (\<And>x. emits_typed (k x) P) \<Longrightarrow> emits_typed (State_Monad.bind c k) P"
  by (rule emits_typed_bind [where Q = "\<lambda>_. True"]) simp_all

lemma typed_basic [intro, simp]:
  "typed_gen (State_Monad.return x)" "typed_gen AllocNode" "typed_gen Fresh" "typed_gen (MapVar y)"
  "typed_gen (Push n)" "typed_gen Pop" "typed_gen (Get i)" "typed_gen (GetOrCreateLabel l)"
  "typed_gen (pushLetBinding r)" "typed_gen popLetBinding" "typed_gen (getLetBinding j)" "typed_gen (MapResult z)"
  "typed_gen (SetStackSize k)" "typed_gen (SetVar y r)"
  by (auto simp: emits_typed_def typed_code_def run_MapVar GetOrCreateLabel_def MapResult_def SetStackSize_def SetVar_def
      split: option.splits)

lemma typed_AddInstr [intro, simp]: "instr_typed i \<Longrightarrow> typed_gen (AddInstr n i)"
  by (auto simp: emits_typed_def typed_code_def)

lemma typed_EmitInstr [intro, simp]: "instr_typed i \<Longrightarrow> typed_gen (EmitInstr i)"
  by (auto simp: emits_typed_def typed_code_def)

lemma FreshN_typed: "emits_typed (FreshN n) (\<lambda>rl. length rl = n)"
  by (auto simp: emits_typed_def typed_code_def)

lemma typed_TranslateExpr:
  "expr_typed e \<Longrightarrow> typed_gen (TranslateExpr e dest succ)"
  "exprs_typed es \<Longrightarrow> typed_gen (TranslateExprs es rl succ)"
  "cond_typed c \<Longrightarrow> typed_gen (TranslateCond c ifso ifnot)"
proof (induction e dest succ and es rl succ and c ifso ifnot rule: TranslateExpr_TranslateExprs_TranslateCond.induct)
  case (1 x dest succ)
  then show ?case by (auto simp: translateVar_def emit_defs intro!: typed_bind)
next
  case (5 ch mode args dest succ)
  then have mode: "TranslateAddressingMode mode = mode" "length args = mode_arity mode" "exprs_typed args"
    by (simp_all add: mode_typed_def TranslateAddressingMode_id)
  show ?case
    unfolding TranslateExpr.simps
    by (rule emits_typed_bind [OF FreshN_typed]) (use 5 mode in \<open>auto simp: emit_defs intro!: typed_bind\<close>)
next
  case (8 i dest succ)
  then show ?case by (auto simp: translateLetvar_def emit_defs intro!: typed_bind)
next
  case (14 c ifso ifnot)
  show ?case
  proof (cases c rule: TranslateCond_cases)
    case (leaf cc args)
    note t = TranslateCondition_typed [OF leaf] 14
    have "typed_gen (do { argRegs \<leftarrow> FreshN (length args); entry \<leftarrow> TranslateExprs args argRegs u;
        condNode \<leftarrow> EmitCond cc argRegs ifso ifnot; TranslateExprs args argRegs condNode })" for u
      by (rule emits_typed_bind [OF FreshN_typed]) (use t leaf in \<open>auto simp: emit_defs intro!: typed_bind\<close>)
    then show ?thesis by (auto simp: TranslateCond_leaf [OF leaf] intro!: typed_bind [of AllocNode])
  next
    case conj
    then show ?thesis using 14 by (auto intro!: typed_bind)
  next
    case disj
    then show ?thesis using 14 by (auto intro!: typed_bind)
  qed (auto simp: TranslateCond_dropped)
qed (auto simp: emit_defs intro!: typed_bind)

lemma typed_leaves:
  "expr_typed e \<Longrightarrow> typed_gen (translateAssign x e n)"
  "mode_typed mode args \<Longrightarrow> exprs_typed args \<Longrightarrow> expr_typed e \<Longrightarrow> typed_gen (translateStore_rtl ch mode args e n)"
  "expr_typed e \<Longrightarrow> exprs_typed args \<Longrightarrow> typed_gen (translateCall_rtl z sg e args n)"
  "expr_typed e \<Longrightarrow> exprs_typed args \<Longrightarrow> typed_gen (translateTailcall_rtl sg e args)"
  "exprs_typed args \<Longrightarrow> typed_gen (translateBuiltin_rtl z bf args n)"
  "stmt_typed (Sreturn v) \<Longrightarrow> typed_gen (translateReturn v)"
  "typed_gen (translateExit i)" "typed_gen (translateGoto l)"
proof -
  show "expr_typed e \<Longrightarrow> typed_gen (translateAssign x e n)"
    by (auto simp: translateAssign_def typed_TranslateExpr intro!: typed_bind)
  assume args: "exprs_typed args"
  show "mode_typed mode args \<Longrightarrow> expr_typed e \<Longrightarrow> typed_gen (translateStore_rtl ch mode args e n)"
    unfolding translateStore_rtl_def using args
    by (auto simp: mode_typed_def TranslateAddressingMode_id typed_TranslateExpr
        intro!: typed_bind [of Fresh] emits_typed_bind [OF FreshN_typed] typed_bind)
  show "expr_typed e \<Longrightarrow> typed_gen (translateCall_rtl z sg e args n)" "expr_typed e \<Longrightarrow> typed_gen (translateTailcall_rtl sg e args)"
    "typed_gen (translateBuiltin_rtl z bf args n)"
    unfolding translateCall_rtl_def translateTailcall_rtl_def translateBuiltin_rtl_def using args
    by (auto simp: typed_TranslateExpr intro!: typed_bind [of Fresh] emits_typed_bind [OF FreshN_typed] typed_bind
        split: option.split)
qed (auto simp: translateReturn_def translateExit_def translateGoto_def typed_TranslateExpr intro!: typed_bind split: option.split)

lemma switch_code_arity [simp]: "cond_arity (switch_code isLong v) = 1"
  by (simp add: switch_code_def)

lemma typed_TranslateStmt:
  "stmt_typed s \<Longrightarrow> typed_gen (TranslateStmt s succ)"
  "cases_typed cs \<Longrightarrow> typed_gen (TranslateCases isLong r cs els succ)"
  by (induction s succ and isLong r cs els succ rule: TranslateStmt_TranslateCases.induct)
    (auto simp: typed_leaves typed_TranslateExpr intro!: typed_bind)

lemma typed_MapParams: "typed_gen (MapParams xs)"
  by (induction xs) (auto intro!: typed_bind)

lemma typed_MapVars: "typed_gen (MapVars xs)"
  by (induction xs) (auto intro!: typed_bind)

section \<open>Properties\<close>

text \<open>
  Property C34. Typed CminorSel becomes typed RTL: if every load and store of a function gives its addressing
  mode the operands it takes, then every instruction of the generated graph has as many operands as its
  operation, condition or addressing mode takes.
\<close>

theorem TranslateFunction_typed:
  assumes "stmt_typed (cs_body F)" and "rtl_code (TranslateFunction F) n = Some i"
  shows "instr_typed i"
proof -
  obtain rl entry g where run: "run_state (generate F) NewTranslator = ((rl, entry), g)" by (metis surj_pair)
  have "typed_gen (generate F)"
    using assms(1) unfolding generate_def
    by (auto intro!: typed_bind typed_MapParams typed_MapVars typed_TranslateStmt)
  moreover have "typed_code NewTranslator" by (simp add: typed_code_def NewTranslator_def)
  ultimately have "typed_code g" using run by (auto simp: emits_typed_def)
  then show ?thesis using assms(2) run by (auto simp: TranslateFunction_def typed_code_def)
qed

definition indexed_load :: cs_function where
  "indexed_load = \<lparr>cs_name = ''get'', cs_sig = no_sig, cs_params = [''p''], cs_vars = [], cs_stackspace = 0,
     cs_body = Sreturn (Some (Eload Mint32 (Aindexed 8) [Evar ''p'']))\<rparr>"

theorem TranslateFunction_typed_witness:
  "\<forall>n. instr_typed (case rtl_code (TranslateFunction indexed_load) n of None \<Rightarrow> Inop n | Some i \<Rightarrow> i)"
proof (intro allI)
  fix n
  have "stmt_typed (cs_body indexed_load)" by (simp add: indexed_load_def mode_typed_def)
  then show "instr_typed (case rtl_code (TranslateFunction indexed_load) n of None \<Rightarrow> Inop n | Some i \<Rightarrow> i)"
    using TranslateFunction_typed [of indexed_load n] by (cases "rtl_code (TranslateFunction indexed_load) n") simp_all
qed

end
