(* ===== verification/Cminor.thy ===== *)
theory Cminor
  imports CminorSel
begin

text \<open>
  The Cminor language (\<open>pkg/cminor/ast.go\<close>), the input of instruction selection: structured statements
  over expressions with typed operators, explicit loads and stores at computed addresses, and variables
  that are local, or kept in the stack block, or stand for the address of a symbol. The operators,
  comparisons and chunks are those of Csharpminor, re-exported; the constructors of Cminor carry the suffix
  \<open>_cm\<close>.
\<close>

text \<open>Conversion to the integer types of Go: what exceeds the width is cut off.\<close>

definition wrap32 :: "int \<Rightarrow> int32" where
  "wrap32 n = sint (word_of_int n :: w32)"

definition wrap64 :: "int \<Rightarrow> int64" where
  "wrap64 n = sint (word_of_int n :: w64)"

datatype cm_const =
    Ointconst_cm int32
  | Ofloatconst_cm float64
  | Olongconst_cm int64
  | Osingleconst_cm float32
  | Oaddrsymbol_cm string int64
  | Oaddrstack_cm int64

datatype cm_expr =
    Evar_cm string
  | Econst_cm cm_const
  | Eunop_cm unaryOp cm_expr
  | Ebinop_cm binaryOp cm_expr cm_expr
  | Ecmp_cm binaryOp comparison cm_expr cm_expr
  | Eload_cm chunk cm_expr

datatype cm_stmt =
    Sskip_cm
  | Sassign_cm string cm_expr
  | Sstore_cm chunk cm_expr cm_expr
  | Scall_cm "string option" "sig option" cm_expr "cm_expr list"
  | Stailcall_cm "sig option" cm_expr "cm_expr list"
  | Sbuiltin_cm "string option" string "cm_expr list"
  | Sseq_cm cm_stmt cm_stmt
  | Sifthenelse_cm cm_expr cm_stmt cm_stmt
  | Sloop_cm cm_stmt
  | Sblock_cm cm_stmt
  | Sexit_cm int
  | Sswitch_cm bool cm_expr "cm_switchCase list" cm_stmt
  | Sreturn_cm "cm_expr option"
  | Slabel_cm string cm_stmt
  | Sgoto_cm string
and cm_switchCase = SwitchCase_cm int64 cm_stmt

record cm_function =
  cm_name :: string
  cm_sig :: sig
  cm_params :: "string list"
  cm_vars :: "string list"
  cm_stackspace :: int64
  cm_body :: cm_stmt

record cm_program =
  cm_globals :: "globVar list"
  cm_functions :: "cm_function list"

section \<open>Expressions\<close>

fun cm_word_const :: "target \<Rightarrow> cm_const \<Rightarrow> w64" where
  "cm_word_const T (Ointconst_cm n) = zx (of_int n)"
| "cm_word_const T (Ofloatconst_cm x) = of_int x"
| "cm_word_const T (Olongconst_cm n) = of_int n"
| "cm_word_const T (Osingleconst_cm x) = zx (of_int x)"
| "cm_word_const T (Oaddrsymbol_cm s n) = t_symbol T s + of_int n"
| "cm_word_const T (Oaddrstack_cm n) = t_stack T + of_int n"

text \<open>
  A variable is a local, or lies in the stack block at an offset that \<open>sv\<close> gives, or is a symbol. The
  last two stand for an address.
\<close>

definition cm_var :: "target \<Rightarrow> (string \<rightharpoonup> int64) \<Rightarrow> cs_env \<Rightarrow> string \<Rightarrow> val" where
  "cm_var T sv env x = (case env x of
     Some v \<Rightarrow> v
   | None \<Rightarrow> (case sv x of Some n \<Rightarrow> Some (t_stack T + of_int n) | None \<Rightarrow> Some (t_symbol T x)))"

fun cm_eval :: "target \<Rightarrow> (string \<rightharpoonup> int64) \<Rightarrow> cs_env \<Rightarrow> mem \<Rightarrow> cm_expr \<Rightarrow> val option" where
  "cm_eval T sv env m (Evar_cm x) = Some (cm_var T sv env x)"
| "cm_eval T sv env m (Econst_cm c) = Some (Some (cm_word_const T c))"
| "cm_eval T sv env m (Eunop_cm uop a) = do {
     v \<leftarrow> cm_eval T sv env m a;
     map_option Some (known1 (word_unop T uop) v)
   }"
| "cm_eval T sv env m (Ebinop_cm bop a b) = do {
     v \<leftarrow> cm_eval T sv env m a;
     w \<leftarrow> cm_eval T sv env m b;
     map_option Some (known2 (word_binop T bop) v w)
   }"
| "cm_eval T sv env m (Ecmp_cm bop c a b) = do {
     v \<leftarrow> cm_eval T sv env m a;
     w \<leftarrow> cm_eval T sv env m b;
     t \<leftarrow> known2 (word_cmp T bop c) v w;
     Some (Some (if t then 1 else 0))
   }"
| "cm_eval T sv env m (Eload_cm ch a) = do {
     v \<leftarrow> cm_eval T sv env m a;
     map_option Some (known1 (\<lambda>p. load_chunk ch p m) v)
   }"

primrec cm_eval_list :: "target \<Rightarrow> (string \<rightharpoonup> int64) \<Rightarrow> cs_env \<Rightarrow> mem \<Rightarrow> cm_expr list \<Rightarrow> val list option" where
  "cm_eval_list T sv env m [] = Some []"
| "cm_eval_list T sv env m (e # es) = do {
     v \<leftarrow> cm_eval T sv env m e;
     vs \<leftarrow> cm_eval_list T sv env m es;
     Some (v # vs)
   }"

text \<open>
  What makes a condition true depends on the type of its value, which the outermost operator determines.
  A variable says nothing about its type and is read as an int.
\<close>

datatype cm_kind = Kint | Klong | Kfloat | Ksingle

fun const_kind :: "cm_const \<Rightarrow> cm_kind" where
  "const_kind (Ointconst_cm _) = Kint"
| "const_kind (Ofloatconst_cm _) = Kfloat"
| "const_kind (Olongconst_cm _) = Klong"
| "const_kind (Osingleconst_cm _) = Ksingle"
| "const_kind (Oaddrsymbol_cm _ _) = Klong"
| "const_kind (Oaddrstack_cm _) = Klong"

definition unop_kind :: "unaryOp \<Rightarrow> cm_kind" where
  "unop_kind uop =
     (if uop \<in> {Onegf_cs, Ofloatofsingle_cs, Ofloatofint_cs, Ofloatofintu_cs, Ofloatoflong_cs, Ofloatoflongu_cs} then Kfloat
      else if uop \<in> {Onegs_cs, Osingleoffloat_cs, Osingleoflong_cs, Osingleoflongu_cs} then Ksingle
      else if uop \<in> {Onegl_cs, Onotl_cs, Olongoffloat_cs, Olonguoffloat_cs, Olongofsingle_cs, Olonguofsingle_cs,
        Olongofint_cs, Olongofintu_cs} then Klong else Kint)"

definition binop_kind :: "binaryOp \<Rightarrow> cm_kind" where
  "binop_kind bop =
     (if bop \<in> {Oaddf_cs, Osubf_cs, Omulf_cs, Odivf_cs} then Kfloat
      else if bop \<in> {Oadds_cs, Osubs_cs, Omuls_cs, Odivs_cs} then Ksingle
      else if bop \<in> {Oaddl_cs, Osubl_cs, Omull_cs, Odivl_cs, Odivlu_cs, Omodl_cs, Omodlu_cs, Oandl_cs, Oorl_cs, Oxorl_cs,
        Oshll_cs, Oshrl_cs, Oshrlu_cs} then Klong else Kint)"

fun chunk_kind :: "chunk \<Rightarrow> cm_kind" where
  "chunk_kind Mint64 = Klong"
| "chunk_kind Many64 = Klong"
| "chunk_kind Mfloat64 = Kfloat"
| "chunk_kind Mfloat32 = Ksingle"
| "chunk_kind _ = Kint"

fun cm_kind_of :: "cm_expr \<Rightarrow> cm_kind" where
  "cm_kind_of (Evar_cm _) = Kint"
| "cm_kind_of (Econst_cm c) = const_kind c"
| "cm_kind_of (Eunop_cm uop _) = unop_kind uop"
| "cm_kind_of (Ebinop_cm bop _ _) = binop_kind bop"
| "cm_kind_of (Ecmp_cm _ _ _ _) = Kint"
| "cm_kind_of (Eload_cm ch _) = chunk_kind ch"

fun truth :: "target \<Rightarrow> cm_kind \<Rightarrow> w64 \<Rightarrow> bool" where
  "truth T Kint w \<longleftrightarrow> lo w \<noteq> 0"
| "truth T Klong w \<longleftrightarrow> w \<noteq> 0"
| "truth T Kfloat w \<longleftrightarrow> t_fcmp T True w 0 \<noteq> FEqual"
| "truth T Ksingle w \<longleftrightarrow> t_fcmp T False w 0 \<noteq> FEqual"

text \<open>A negation as a condition is true when its argument, at its own type, is false.\<close>

fun cm_cond :: "target \<Rightarrow> (string \<rightharpoonup> int64) \<Rightarrow> cs_env \<Rightarrow> mem \<Rightarrow> cm_expr \<Rightarrow> bool option" where
  "cm_cond T sv env m (Eunop_cm uop a) =
     (if uop = Onotbool_cs then map_option Not (cm_cond T sv env m a)
      else Option.bind (cm_eval T sv env m (Eunop_cm uop a)) (map_option (truth T (unop_kind uop))))"
| "cm_cond T sv env m e = Option.bind (cm_eval T sv env m e) (map_option (truth T (cm_kind_of e)))"

section \<open>Statements\<close>

datatype cm_cont = Kstop_cm | Kseq_cm cm_stmt cm_cont | Kblock_cm cm_cont

fun cm_find_label :: "string \<Rightarrow> cm_stmt \<Rightarrow> cm_cont \<Rightarrow> (cm_stmt \<times> cm_cont) option"
and cm_find_label_cases :: "string \<Rightarrow> cm_switchCase list \<Rightarrow> cm_cont \<Rightarrow> (cm_stmt \<times> cm_cont) option" where
  "cm_find_label l (Sseq_cm a b) k = (case cm_find_label l a (Kseq_cm b k) of
     Some r \<Rightarrow> Some r | None \<Rightarrow> cm_find_label l b k)"
| "cm_find_label l (Sifthenelse_cm c a b) k = (case cm_find_label l a k of
     Some r \<Rightarrow> Some r | None \<Rightarrow> cm_find_label l b k)"
| "cm_find_label l (Sloop_cm a) k = cm_find_label l a (Kseq_cm (Sloop_cm a) k)"
| "cm_find_label l (Sblock_cm a) k = cm_find_label l a (Kblock_cm k)"
| "cm_find_label l (Sswitch_cm isLong e cs d) k = (case cm_find_label_cases l cs k of
     Some r \<Rightarrow> Some r | None \<Rightarrow> cm_find_label l d k)"
| "cm_find_label l (Slabel_cm l' a) k = (if l = l' then Some (a, k) else cm_find_label l a k)"
| "cm_find_label l _ k = None"
| "cm_find_label_cases l [] k = None"
| "cm_find_label_cases l (SwitchCase_cm v a # cs) k = (case cm_find_label l a k of
     Some r \<Rightarrow> Some r | None \<Rightarrow> cm_find_label_cases l cs k)"

fun cm_switch_target :: "bool \<Rightarrow> w64 \<Rightarrow> cm_switchCase list \<Rightarrow> cm_stmt \<Rightarrow> cm_stmt" where
  "cm_switch_target isLong w [] d = d"
| "cm_switch_target isLong w (SwitchCase_cm v a # cs) d =
     (if (if isLong then w = of_int v else lo w = of_int v) then a else cm_switch_target isLong w cs d)"

text \<open>A call names its function by a symbol, directly or as a constant, or computes a pointer.\<close>

definition cm_callee :: "target \<Rightarrow> (string \<rightharpoonup> int64) \<Rightarrow> cs_env \<Rightarrow> mem \<Rightarrow> cm_expr \<Rightarrow> val funVal option" where
  "cm_callee T sv env m a = (case a of
     Econst_cm (Oaddrsymbol_cm s n) \<Rightarrow>
       if n = 0 then Some (FV_sym s) else Some (FV_ptr (Some (t_symbol T s + of_int n)))
   | Evar_cm x \<Rightarrow> if env x = None \<and> sv x = None then Some (FV_sym x) else Some (FV_ptr (cm_var T sv env x))
   | _ \<Rightarrow> map_option FV_ptr (cm_eval T sv env m a))"

datatype cm_state =
    MStmt cm_stmt cm_cont cs_env mem
  | MFinal "(val, mem) outcome"

inductive cm_step :: "target \<Rightarrow> (val, mem) sem \<Rightarrow> (string \<rightharpoonup> int64) \<Rightarrow> cm_stmt \<Rightarrow> cm_state \<Rightarrow> cm_state \<Rightarrow> bool"
  for T E sv body where
  cm_skip_seq: "cm_step T E sv body (MStmt Sskip_cm (Kseq_cm s k) env m) (MStmt s k env m)"
| cm_skip_block: "cm_step T E sv body (MStmt Sskip_cm (Kblock_cm k) env m) (MStmt Sskip_cm k env m)"
| cm_skip_stop: "cm_step T E sv body (MStmt Sskip_cm Kstop_cm env m) (MFinal (Returned None m))"
| cm_assign: "cm_eval T sv env m e = Some v \<Longrightarrow> declared (Some x) env \<Longrightarrow>
    cm_step T E sv body (MStmt (Sassign_cm x e) k env m) (MStmt Sskip_cm k (env(x \<mapsto> v)) m)"
| cm_store: "cm_eval T sv env m a = Some (Some p) \<Longrightarrow> cm_eval T sv env m e = Some (Some w) \<Longrightarrow>
    store_chunk ch p w m = Some m' \<Longrightarrow>
    cm_step T E sv body (MStmt (Sstore_cm ch a e) k env m) (MStmt Sskip_cm k env m')"
| cm_call: "cm_callee T sv env m e = Some fv \<Longrightarrow> cm_eval_list T sv env m args = Some vs \<Longrightarrow>
    n = sem_arity E (the_sig sg) fv m \<Longrightarrow> n \<le> length vs \<Longrightarrow>
    sem_call E (the_sig sg) fv (take n vs) m = Some (v, m') \<Longrightarrow> declared x env \<Longrightarrow>
    cm_step T E sv body (MStmt (Scall_cm x sg e args) k env m) (MStmt Sskip_cm k (assign_result x v env) m')"
| cm_tailcall: "cm_callee T sv env m e = Some fv \<Longrightarrow> cm_eval_list T sv env m args = Some vs \<Longrightarrow>
    n = sem_arity E (the_sig sg) fv m \<Longrightarrow> n \<le> length vs \<Longrightarrow>
    cm_step T E sv body (MStmt (Stailcall_cm sg e args) k env m)
      (MFinal (Tailcalled (the_sig sg) fv (take n vs) m))"
| cm_builtin: "cm_eval_list T sv env m args = Some vs \<Longrightarrow> sem_builtin E bf vs m = Some (v, m') \<Longrightarrow>
    declared x env \<Longrightarrow>
    cm_step T E sv body (MStmt (Sbuiltin_cm x bf args) k env m) (MStmt Sskip_cm k (assign_result x v env) m')"
| cm_seq: "cm_step T E sv body (MStmt (Sseq_cm a b) k env m) (MStmt a (Kseq_cm b k) env m)"
| cm_ifthenelse: "cm_cond T sv env m c = Some t \<Longrightarrow>
    cm_step T E sv body (MStmt (Sifthenelse_cm c a b) k env m) (MStmt (if t then a else b) k env m)"
| cm_loop: "cm_step T E sv body (MStmt (Sloop_cm a) k env m) (MStmt a (Kseq_cm (Sloop_cm a) k) env m)"
| cm_block: "cm_step T E sv body (MStmt (Sblock_cm a) k env m) (MStmt a (Kblock_cm k) env m)"
| cm_exit_seq: "cm_step T E sv body (MStmt (Sexit_cm n) (Kseq_cm s k) env m) (MStmt (Sexit_cm n) k env m)"
| cm_exit_block: "cm_step T E sv body (MStmt (Sexit_cm 0) (Kblock_cm k) env m) (MStmt Sskip_cm k env m)"
| cm_exit_outer: "0 < n \<Longrightarrow>
    cm_step T E sv body (MStmt (Sexit_cm n) (Kblock_cm k) env m) (MStmt (Sexit_cm (n - 1)) k env m)"
| cm_switch: "cm_eval T sv env m e = Some (Some w) \<Longrightarrow>
    cm_step T E sv body (MStmt (Sswitch_cm isLong e cs d) k env m) (MStmt (cm_switch_target isLong w cs d) k env m)"
| cm_return_void: "cm_step T E sv body (MStmt (Sreturn_cm None) k env m) (MFinal (Returned None m))"
| cm_return: "cm_eval T sv env m e = Some v \<Longrightarrow>
    cm_step T E sv body (MStmt (Sreturn_cm (Some e)) k env m) (MFinal (Returned v m))"
| cm_label: "cm_step T E sv body (MStmt (Slabel_cm l a) k env m) (MStmt a k env m)"
| cm_goto: "cm_find_label l body Kstop_cm = Some (a, k') \<Longrightarrow>
    cm_step T E sv body (MStmt (Sgoto_cm l) k env m) (MStmt a k' env m)"

fun cm_final :: "cm_state \<Rightarrow> (val, mem) outcome \<Rightarrow> bool" where
  "cm_final (MFinal r) q \<longleftrightarrow> q = r"
| "cm_final (MStmt _ _ _ _) q \<longleftrightarrow> False"

definition cm_init_env :: "cm_function \<Rightarrow> val list \<Rightarrow> cs_env" where
  "cm_init_env f vs = (\<lambda>x. if x \<in> set (cm_params f) then Some (the (map_of (zip (cm_params f) vs) x))
     else if x \<in> set (cm_vars f) then Some None else None)"

inductive_cases cm_step_stmtE: "cm_step T E sv body (MStmt s k env m) t"
inductive_cases cm_step_finalE: "cm_step T E sv body (MFinal r) t"

lemma cm_step_det: "cm_step T E sv body s t \<Longrightarrow> cm_step T E sv body s u \<Longrightarrow> t = u"
  by (cases rule: cm_step.cases) (auto elim: cm_step_stmtE)

interpretation cminor: determ "cm_step T E sv body" cm_final for T E sv body
proof
  show "cm_step T E sv body s t \<Longrightarrow> cm_step T E sv body s u \<Longrightarrow> t = u" for s t u by (rule cm_step_det)
  show "cm_final s r \<Longrightarrow> \<not> cm_step T E sv body s t" for s t r by (cases s) (auto elim: cm_step_finalE)
  show "cm_final s r \<Longrightarrow> cm_final s q \<Longrightarrow> r = q" for s r q by (cases s) auto
qed

end
