(* ===== verification/Selection.thy ===== *)
theory Selection
  imports Cminor
begin

text \<open>
  Instruction selection (\<open>pkg/selection\<close>), from Cminor to CminorSel: \<open>addressing.go\<close> recognises the
  addressing modes of the target in address expressions, \<open>ops.go\<close> additions and subtractions of a shifted
  operand, \<open>expr.go\<close> translates expressions and conditions, \<open>stmt.go\<close> statements, functions and programs.
  A Go map from names to \<open>true\<close> is a set; an \<open>int64\<close> sum wraps around.
\<close>

section \<open>Addressing modes\<close>

fun extractConstantOffset :: "cm_expr \<Rightarrow> int64 option" where
  "extractConstantOffset (Econst_cm (Ointconst_cm n)) = Some n"
| "extractConstantOffset (Econst_cm (Olongconst_cm n)) = Some n"
| "extractConstantOffset _ = None"

fun extractConstantInt :: "cm_expr \<Rightarrow> int32 option" where
  "extractConstantInt (Econst_cm (Ointconst_cm n)) = Some n"
| "extractConstantInt _ = None"

fun isConstant :: "cm_expr \<Rightarrow> bool" where
  "isConstant (Econst_cm _) \<longleftrightarrow> True"
| "isConstant _ \<longleftrightarrow> False"

fun translateConst :: "cm_const \<Rightarrow> expr" where
  "translateConst (Ointconst_cm n) = Econst (Ointconst_cs n)"
| "translateConst (Ofloatconst_cm x) = Econst (Ofloatconst_cs x)"
| "translateConst (Olongconst_cm n) = Econst (Olongconst_cs n)"
| "translateConst (Osingleconst_cm x) = Econst (Osingleconst_cs x)"
| "translateConst (Oaddrsymbol_cm s n) = Econst (Oaddrsymbol_cs s n)"
| "translateConst (Oaddrstack_cm n) = Econst (Oaddrstack_cs n)"

fun translateExpr :: "cm_expr \<Rightarrow> expr" where
  "translateExpr (Evar_cm x) = Evar x"
| "translateExpr (Econst_cm c) = translateConst c"
| "translateExpr (Eunop_cm uop a) = Eunop uop (translateExpr a)"
| "translateExpr (Ebinop_cm bop a b) = Ebinop bop (translateExpr a) (translateExpr b)"
| "translateExpr (Ecmp_cm bop c a b) = Ebinop bop (translateExpr a) (translateExpr b)"
| "translateExpr (Eload_cm ch a) = Eload ch (Aindexed 0) [translateExpr a]"

type_synonym addressResult = "addressingMode \<times> expr list"

definition is_addition :: "binaryOp \<Rightarrow> bool" where
  "is_addition bop \<longleftrightarrow> bop = Oadd_cs \<or> bop = Oaddl_cs"

text \<open>\<open>orelse\<close> is the next attempt after one that did not match.\<close>

definition orelse :: "'a option \<Rightarrow> 'a option \<Rightarrow> 'a option" where
  "orelse x y = (case x of None \<Rightarrow> y | Some a \<Rightarrow> Some a)"

fun global_var :: "string set \<Rightarrow> cm_expr \<Rightarrow> string option" where
  "global_var globals (Evar_cm x) = (if x \<in> globals then Some x else None)"
| "global_var globals _ = None"

definition global_plus :: "string set \<Rightarrow> cm_expr \<Rightarrow> cm_expr \<Rightarrow> addressResult option" where
  "global_plus globals v off = do {
     x \<leftarrow> global_var globals v;
     n \<leftarrow> extractConstantOffset off;
     Some (Aglobal x n, [])
   }"

fun tryAglobal :: "cm_expr \<Rightarrow> string set \<Rightarrow> addressResult option" where
  "tryAglobal (Evar_cm x) globals = (if x \<in> globals then Some (Aglobal x 0, []) else None)"
| "tryAglobal (Ebinop_cm bop l r) globals =
     (if is_addition bop then orelse (global_plus globals l r) (global_plus globals r l) else None)"
| "tryAglobal _ globals = None"

fun stack_const :: "cm_expr \<Rightarrow> int64 option" where
  "stack_const (Econst_cm (Oaddrstack_cm n)) = Some n"
| "stack_const _ = None"

fun stack_var :: "(string \<rightharpoonup> int64) \<Rightarrow> cm_expr \<Rightarrow> int64 option" where
  "stack_var stackVars (Evar_cm x) = stackVars x"
| "stack_var stackVars _ = None"

definition stack_plus :: "int64 option \<Rightarrow> cm_expr \<Rightarrow> addressResult option" where
  "stack_plus base off = do {
     b \<leftarrow> base;
     n \<leftarrow> extractConstantOffset off;
     Some (Ainstack (wrap64 (b + n)), [])
   }"

fun tryAinstack :: "cm_expr \<Rightarrow> (string \<rightharpoonup> int64) \<Rightarrow> addressResult option" where
  "tryAinstack (Econst_cm c) stackVars = map_option (\<lambda>n. (Ainstack n, [])) (stack_const (Econst_cm c))"
| "tryAinstack (Evar_cm x) stackVars = map_option (\<lambda>n. (Ainstack n, [])) (stackVars x)"
| "tryAinstack (Ebinop_cm bop l r) stackVars =
     (if is_addition bop
      then orelse (stack_plus (stack_const l) r) (orelse (stack_plus (stack_const r) l)
        (orelse (stack_plus (stack_var stackVars l) r) (stack_plus (stack_var stackVars r) l)))
      else None)"
| "tryAinstack _ stackVars = None"

fun extractShiftAdd :: "cm_expr \<Rightarrow> cm_expr \<Rightarrow> (int \<times> cm_expr \<times> cm_expr) option" where
  "extractShiftAdd base (Ebinop_cm bop l r) =
     (if bop \<noteq> Oshl_cs \<and> bop \<noteq> Oshll_cs then None
      else map_option (\<lambda>n. (n, base, l)) (extractConstantInt r))"
| "extractShiftAdd base _ = None"

definition scaled :: "(int \<times> cm_expr \<times> cm_expr) option \<Rightarrow> addressResult option" where
  "scaled s = do {
     (shift, base, index) \<leftarrow> s;
     if 0 \<le> shift \<and> shift \<le> 3 then Some (Aindexed2shift shift, [translateExpr base, translateExpr index]) else None
   }"

fun tryAindexed2shift :: "cm_expr \<Rightarrow> addressResult option" where
  "tryAindexed2shift (Ebinop_cm bop l r) =
     (if is_addition bop then orelse (scaled (extractShiftAdd l r)) (scaled (extractShiftAdd r l)) else None)"
| "tryAindexed2shift _ = None"

fun tryAindexed2 :: "cm_expr \<Rightarrow> addressResult option" where
  "tryAindexed2 (Ebinop_cm bop l r) =
     (if is_addition bop \<and> \<not> isConstant l \<and> \<not> isConstant r
      then Some (Aindexed2, [translateExpr l, translateExpr r]) else None)"
| "tryAindexed2 _ = None"

definition based :: "cm_expr \<Rightarrow> int64 option \<Rightarrow> addressResult option" where
  "based base off = map_option (\<lambda>n. (Aindexed n, [translateExpr base])) off"

fun tryAindexed :: "cm_expr \<Rightarrow> addressResult option" where
  "tryAindexed (Ebinop_cm bop l r) =
     (if is_addition bop then orelse (based l (extractConstantOffset r)) (based r (extractConstantOffset l))
      else if bop = Osub_cs \<or> bop = Osubl_cs
      then based l (map_option (\<lambda>n. wrap64 (- n)) (extractConstantOffset r))
      else None)"
| "tryAindexed _ = None"

definition SelectAddressing :: "cm_expr \<Rightarrow> string set \<Rightarrow> (string \<rightharpoonup> int64) \<Rightarrow> addressResult" where
  "SelectAddressing addr globals stackVars =
     (case orelse (tryAglobal addr globals) (orelse (tryAinstack addr stackVars)
        (orelse (tryAindexed2shift addr) (orelse (tryAindexed2 addr) (tryAindexed addr)))) of
        Some r \<Rightarrow> r
      | None \<Rightarrow> (Aindexed 0, [translateExpr addr]))"

section \<open>Combined operations\<close>

text \<open>The machine operators of \<open>pkg/cminorsel/ops.go\<close>; the binary ones in three groups.\<close>

datatype machUnaryOp =
    MOnegint | MOnotint | MOnegf | MOnegs | MOabsf | MOabss | MOnegl | MOnotl | MOabsfl | MOcast8signed
  | MOcast8unsigned | MOcast16signed | MOcast16unsigned | MOsingleoffloat | MOfloatofsingle | MOintoffloat
  | MOintuoffloat | MOfloatofint | MOfloatofintu | MOlongoffloat | MOlonguoffloat | MOfloatoflong
  | MOfloatoflongu | MOlongofsingle | MOlonguofsingle | MOsingleoflong | MOsingleoflongu | MOintoflong
  | MOlongofint | MOlongofintu | MOrbit | MOclz | MOcls | MOrev | MOrev16 | MOsqrtf | MOsqrts | MOnegfs
  | MOabsfs

datatype machBasicOp =
    MOadd | MOsub | MOmul | MOmulhs | MOmulhu | MOdiv | MOdivu | MOmod | MOmodu | MOaddf | MOsubf
  | MOmulf | MOdivf | MOadds | MOsubs | MOmuls | MOdivs | MOaddl | MOsubl | MOmull | MOmullhs | MOmullhu
  | MOdivl | MOdivlu | MOmodl | MOmodlu | MOand | MOor | MOxor | MOshl | MOshr | MOshru | MOandl
  | MOorl | MOxorl | MOshll | MOshrl | MOshrlu | MOcmp | MOcmpu | MOcmpf | MOcmps | MOcmpl | MOcmplu

datatype machShiftOp =
    MOaddshift | MOsubshift | MOandshift | MOorshift | MOxorshift | MOaddlshift | MOsublshift | MOandlshift
  | MOorlshift | MOxorlshift

datatype machFusedOp =
    MOmadd | MOmsub | MOmaddl | MOmsubl | MOmaddf | MOmsubf | MOmadds | MOmsubs | MOnmaddf | MOnmsubf
  | MOnmadds | MOnmsubs | MObic | MOorn | MOeon | MObicl | MOornl | MOeonl | MOcsel | MOcsell

datatype machBinaryOp = MObasic machBasicOp | MOshift machShiftOp | MOfused machFusedOp

record combinedOpResult =
  co_op :: machBinaryOp
  co_shift :: int
  co_base :: cm_expr
  co_index :: cm_expr

definition is_shift :: "binaryOp \<Rightarrow> bool" where
  "is_shift bop \<longleftrightarrow> bop \<in> {Oshl_cs, Oshr_cs, Oshru_cs, Oshll_cs, Oshrl_cs, Oshrlu_cs}"

fun extractShift :: "cm_expr \<Rightarrow> (binaryOp \<times> cm_expr \<times> int) option" where
  "extractShift (Ebinop_cm bop l r) =
     (if is_shift bop then map_option (\<lambda>n. (bop, l, n)) (extractConstantInt r) else None)"
| "extractShift _ = None"

definition isValidShiftAmount :: "int \<Rightarrow> bool" where
  "isValidShiftAmount amount \<longleftrightarrow> 0 \<le> amount \<and> amount \<le> 63"

definition isCommutative :: "binaryOp \<Rightarrow> bool" where
  "isCommutative bop \<longleftrightarrow> bop \<in> {Oadd_cs, Omul_cs, Oand_cs, Oor_cs, Oxor_cs, Oaddl_cs, Omull_cs, Oandl_cs, Oorl_cs, Oxorl_cs,
     Oaddf_cs, Omulf_cs, Oadds_cs, Omuls_cs}"

text \<open>The cases of the two \<open>switch\<close> statements: the combined operator for an operator and a shift.\<close>

fun shifted_op :: "binaryOp \<Rightarrow> binaryOp \<Rightarrow> machBinaryOp option" where
  "shifted_op Oadd_cs shift = (if shift = Oshl_cs then Some (MOshift MOaddshift) else None)"
| "shifted_op Osub_cs shift = (if shift = Oshl_cs then Some (MOshift MOsubshift) else None)"
| "shifted_op Oand_cs shift = (if shift = Oshl_cs then Some (MOshift MOandshift) else None)"
| "shifted_op Oor_cs shift = (if shift = Oshl_cs then Some (MOshift MOorshift) else None)"
| "shifted_op Oxor_cs shift = (if shift = Oshl_cs then Some (MOshift MOxorshift) else None)"
| "shifted_op Oaddl_cs shift = (if shift = Oshll_cs then Some (MOshift MOaddlshift) else None)"
| "shifted_op Osubl_cs shift = (if shift = Oshll_cs then Some (MOshift MOsublshift) else None)"
| "shifted_op Oandl_cs shift = (if shift = Oshll_cs then Some (MOshift MOandlshift) else None)"
| "shifted_op Oorl_cs shift = (if shift = Oshll_cs then Some (MOshift MOorlshift) else None)"
| "shifted_op Oxorl_cs shift = (if shift = Oshll_cs then Some (MOshift MOxorlshift) else None)"
| "shifted_op _ shift = None"

definition combine_shift :: "binaryOp \<Rightarrow> cm_expr \<Rightarrow> cm_expr \<Rightarrow> combinedOpResult option" where
  "combine_shift bop base shifted = do {
     (shift, index, amount) \<leftarrow> extractShift shifted;
     if isValidShiftAmount amount
     then map_option (\<lambda>mop. \<lparr>co_op = mop, co_shift = amount, co_base = base, co_index = index\<rparr>) (shifted_op bop shift)
     else None
   }"

definition TrySelectCombinedOp :: "binaryOp \<Rightarrow> cm_expr \<Rightarrow> cm_expr \<Rightarrow> combinedOpResult option" where
  "TrySelectCombinedOp bop left right =
     orelse (combine_shift bop left right) (if isCommutative bop then combine_shift bop right left else None)"

fun SelectComparison :: "binaryOp \<Rightarrow> comparison \<Rightarrow> expr \<Rightarrow> expr \<Rightarrow> cond" where
  "SelectComparison Ocmp_cs c a b = CondCmp c a b"
| "SelectComparison Ocmpu_cs c a b = CondCmpu c a b"
| "SelectComparison Ocmpf_cs c a b = CondCmpf c a b"
| "SelectComparison Ocmps_cs c a b = CondCmps c a b"
| "SelectComparison Ocmpl_cs c a b = CondCmpl c a b"
| "SelectComparison Ocmplu_cs c a b = CondCmplu c a b"
| "SelectComparison _ c a b = CondCmp c a b"

section \<open>Expressions\<close>

record selectionContext =
  Globals :: "string set"
  StackVars :: "string \<rightharpoonup> int64"

definition selectVar :: "selectionContext \<Rightarrow> string \<Rightarrow> expr" where
  "selectVar ctx x =
     (if x \<in> Globals ctx then Econst (Oaddrsymbol_cs x 0)
      else case StackVars ctx x of Some n \<Rightarrow> Econst (Oaddrstack_cs n) | None \<Rightarrow> Evar x)"

fun selectConst :: "cm_const \<Rightarrow> expr" where
  "selectConst (Ointconst_cm n) = Econst (Ointconst_cs n)"
| "selectConst (Ofloatconst_cm x) = Econst (Ofloatconst_cs x)"
| "selectConst (Olongconst_cm n) = Econst (Olongconst_cs n)"
| "selectConst (Osingleconst_cm x) = Econst (Osingleconst_cs x)"
| "selectConst (Oaddrsymbol_cm s n) = Econst (Oaddrsymbol_cs s n)"
| "selectConst (Oaddrstack_cm n) = Econst (Oaddrstack_cs n)"

fun reSelectExpr :: "selectionContext \<Rightarrow> expr \<Rightarrow> expr" where
  "reSelectExpr ctx (Evar x) = selectVar ctx x"
| "reSelectExpr ctx (Econst c) = Econst c"
| "reSelectExpr ctx (Eunop uop a) = Eunop uop (reSelectExpr ctx a)"
| "reSelectExpr ctx (Ebinop bop a b) = Ebinop bop (reSelectExpr ctx a) (reSelectExpr ctx b)"
| "reSelectExpr ctx (Eload ch mode args) = Eload ch mode (map (reSelectExpr ctx) args)"
| "reSelectExpr ctx e = e"

definition selectAddress :: "selectionContext \<Rightarrow> cm_expr \<Rightarrow> addressResult" where
  "selectAddress ctx addr =
     (let (mode, args) = SelectAddressing addr (Globals ctx) (StackVars ctx) in (mode, map (reSelectExpr ctx) args))"

fun buildCombinedOp :: "machBinaryOp \<Rightarrow> int \<Rightarrow> expr \<Rightarrow> expr \<Rightarrow> expr" where
  "buildCombinedOp (MOshift MOaddshift) n base index = Eaddshift Slsl n base index"
| "buildCombinedOp (MOshift MOaddlshift) n base index = Eaddshift Slsl n base index"
| "buildCombinedOp (MOshift MOsubshift) n base index = Esubshift Slsl n base index"
| "buildCombinedOp (MOshift MOsublshift) n base index = Esubshift Slsl n base index"
| "buildCombinedOp _ n base index = Ebinop Oand_cs base index"

lemma extractShift_size: "extractShift e = Some (shift, index, n) \<Longrightarrow> size index < size e"
  by (cases "(e)" rule: extractShift.cases) (auto split: if_splits)

lemma combine_shift_size:
  "combine_shift bop base shifted = Some c \<Longrightarrow> co_base c = base \<and> size (co_index c) < size shifted"
  by (auto simp: combine_shift_def bind_eq_Some_conv split: if_splits dest: extractShift_size)

lemma TrySelectCombinedOp_size:
  "TrySelectCombinedOp bop l r = Some c \<Longrightarrow>
    size (co_base c) < size (Ebinop_cm bop l r) \<and> size (co_index c) < size (Ebinop_cm bop l r)"
  by (auto simp: TrySelectCombinedOp_def orelse_def split: option.splits if_splits dest!: combine_shift_size)

function SelectExpr :: "selectionContext \<Rightarrow> cm_expr \<Rightarrow> expr" where
  "SelectExpr ctx (Evar_cm x) = selectVar ctx x"
| "SelectExpr ctx (Econst_cm c) = selectConst c"
| "SelectExpr ctx (Eunop_cm uop a) =
     (if uop = Onotbool_cs then Ecmp Ocmp_cs Ceq_cs (SelectExpr ctx a) (Econst (Ointconst_cs 0))
      else Eunop uop (SelectExpr ctx a))"
| "SelectExpr ctx (Ebinop_cm bop l r) = (case TrySelectCombinedOp bop l r of
     Some c \<Rightarrow> buildCombinedOp (co_op c) (co_shift c) (SelectExpr ctx (co_base c)) (SelectExpr ctx (co_index c))
   | None \<Rightarrow> Ebinop bop (SelectExpr ctx l) (SelectExpr ctx r))"
| "SelectExpr ctx (Ecmp_cm bop c l r) = Ecmp bop c (SelectExpr ctx l) (SelectExpr ctx r)"
| "SelectExpr ctx (Eload_cm ch addr) = (let (mode, args) = selectAddress ctx addr in Eload ch mode args)"
  by pat_completeness auto
termination
  by (relation "measure (\<lambda>(ctx, e). size e)") (use TrySelectCombinedOp_size in auto)

fun SelectCondition :: "selectionContext \<Rightarrow> cm_expr \<Rightarrow> cond" where
  "SelectCondition ctx (Ecmp_cm bop c l r) = SelectComparison bop c (SelectExpr ctx l) (SelectExpr ctx r)"
| "SelectCondition ctx (Econst_cm c) = (case c of
     Ointconst_cm n \<Rightarrow> if n \<noteq> 0 then CondTrue else CondFalse
   | Olongconst_cm n \<Rightarrow> if n \<noteq> 0 then CondTrue else CondFalse
   | _ \<Rightarrow> CondTrue)"
| "SelectCondition ctx (Eunop_cm uop a) =
     (if uop = Onotbool_cs then CondNot (SelectCondition ctx a)
      else CondCmp Cne_cs (SelectExpr ctx (Eunop_cm uop a)) (Econst (Ointconst_cs 0)))"
| "SelectCondition ctx e = CondCmp Cne_cs (SelectExpr ctx e) (Econst (Ointconst_cs 0))"

section \<open>Statements, functions and programs\<close>

fun SelectStmt :: "selectionContext \<Rightarrow> cm_stmt \<Rightarrow> stmt"
and SelectCase :: "selectionContext \<Rightarrow> cm_switchCase \<Rightarrow> switchCase" where
  "SelectStmt ctx Sskip_cm = Sskip"
| "SelectStmt ctx (Sassign_cm x e) = Sassign x (SelectExpr ctx e)"
| "SelectStmt ctx (Sstore_cm ch addr e) =
     (let (mode, args) = selectAddress ctx addr in Sstore ch mode args (SelectExpr ctx e))"
| "SelectStmt ctx (Scall_cm x sg f args) = Scall x sg (SelectExpr ctx f) (map (SelectExpr ctx) args)"
| "SelectStmt ctx (Stailcall_cm sg f args) = Stailcall sg (SelectExpr ctx f) (map (SelectExpr ctx) args)"
| "SelectStmt ctx (Sbuiltin_cm x bf args) = Sbuiltin x bf (map (SelectExpr ctx) args)"
| "SelectStmt ctx (Sseq_cm a b) = Sseq (SelectStmt ctx a) (SelectStmt ctx b)"
| "SelectStmt ctx (Sifthenelse_cm c a b) = Sifthenelse (SelectCondition ctx c) (SelectStmt ctx a) (SelectStmt ctx b)"
| "SelectStmt ctx (Sloop_cm a) = Sloop (SelectStmt ctx a)"
| "SelectStmt ctx (Sblock_cm a) = Sblock (SelectStmt ctx a)"
| "SelectStmt ctx (Sexit_cm n) = Sexit n"
| "SelectStmt ctx (Sswitch_cm isLong e cs d) =
     Sswitch isLong (SelectExpr ctx e) (map (SelectCase ctx) cs) (SelectStmt ctx d)"
| "SelectStmt ctx (Sreturn_cm e) = Sreturn (map_option (SelectExpr ctx) e)"
| "SelectStmt ctx (Slabel_cm l a) = Slabel l (SelectStmt ctx a)"
| "SelectStmt ctx (Sgoto_cm l) = Sgoto l"
| "SelectCase ctx (SwitchCase_cm v a) = SwitchCase v (SelectStmt ctx a)"

definition SelectFunction :: "selectionContext \<Rightarrow> cm_function \<Rightarrow> cs_function" where
  "SelectFunction ctx f =
     \<lparr>cs_name = cm_name f, cs_sig = cm_sig f, cs_params = cm_params f, cs_vars = cm_vars f,
      cs_stackspace = cm_stackspace f, cs_body = SelectStmt ctx (cm_body f)\<rparr>"

definition external_callee :: "string set \<Rightarrow> cm_expr \<Rightarrow> string set" where
  "external_callee defined e = (case e of Evar_cm x \<Rightarrow> if x \<notin> defined then {x} else {} | _ \<Rightarrow> {})"

fun collectExternalFunctionsInStmt :: "cm_stmt \<Rightarrow> string set \<Rightarrow> string set \<Rightarrow> string set"
and collect_cases :: "cm_switchCase list \<Rightarrow> string set \<Rightarrow> string set \<Rightarrow> string set" where
  "collectExternalFunctionsInStmt (Scall_cm x sg f args) defined ext = ext \<union> external_callee defined f"
| "collectExternalFunctionsInStmt (Stailcall_cm sg f args) defined ext = ext \<union> external_callee defined f"
| "collectExternalFunctionsInStmt (Sseq_cm a b) defined ext =
     collectExternalFunctionsInStmt b defined (collectExternalFunctionsInStmt a defined ext)"
| "collectExternalFunctionsInStmt (Sifthenelse_cm c a b) defined ext =
     collectExternalFunctionsInStmt b defined (collectExternalFunctionsInStmt a defined ext)"
| "collectExternalFunctionsInStmt (Sloop_cm a) defined ext = collectExternalFunctionsInStmt a defined ext"
| "collectExternalFunctionsInStmt (Sblock_cm a) defined ext = collectExternalFunctionsInStmt a defined ext"
| "collectExternalFunctionsInStmt (Sswitch_cm isLong e cs d) defined ext =
     collectExternalFunctionsInStmt d defined (collect_cases cs defined ext)"
| "collectExternalFunctionsInStmt _ defined ext = ext"
| "collect_cases [] defined ext = ext"
| "collect_cases (SwitchCase_cm v a # cs) defined ext =
     collect_cases cs defined (collectExternalFunctionsInStmt a defined ext)"

definition collectExternalFunctions :: "cm_program \<Rightarrow> string set \<Rightarrow> string set" where
  "collectExternalFunctions p defined =
     fold (\<lambda>f. collectExternalFunctionsInStmt (cm_body f) defined) (cm_functions p) {}"

definition program_globals :: "cm_program \<Rightarrow> string set" where
  "program_globals p =
     (let globals = set (map gv_name (cm_globals p)) \<union> set (map cm_name (cm_functions p))
      in globals \<union> collectExternalFunctions p globals)"

definition SelectProgram :: "selectionContext \<Rightarrow> cm_program \<Rightarrow> cs_program" where
  "SelectProgram ctx p =
     \<lparr>cs_globals = cm_globals p,
      cs_functions = map (SelectFunction (ctx\<lparr>Globals := program_globals p\<rparr>)) (cm_functions p)\<rparr>"

end
