(* ===== verification/SelectionExpr.thy ===== *)
theory SelectionExpr
  imports Selection
begin

text \<open>
  Correctness of the selected expressions. An expression of CminorSel computes what the Cminor expression
  does, provided that the names are told apart (a local has the name of no symbol, every other name is
  known to the selection) and that the expression avoids what the selection loses: bitwise operators and
  64-bit additions whose operand is a constant shift, 32-bit additions at the top of an address, and
  comparisons inside an address.
\<close>

text \<open>The names: \<open>L\<close> holds the locals of the function.\<close>

definition name_ok :: "selectionContext \<Rightarrow> string set \<Rightarrow> string \<Rightarrow> bool" where
  "name_ok ctx L x \<longleftrightarrow> x \<in> L \<or> x \<in> Globals ctx \<or> StackVars ctx x \<noteq> None"

definition context_ok :: "selectionContext \<Rightarrow> string set \<Rightarrow> bool" where
  "context_ok ctx L \<longleftrightarrow> (\<forall>x\<in>L. x \<notin> Globals ctx \<and> StackVars ctx x = None) \<and> (\<forall>x\<in>Globals ctx. StackVars ctx x = None)"

text \<open>Expressions that survive \<open>translateExpr\<close> and \<open>reSelectExpr\<close>: no comparison.\<close>

fun plain_expr :: "selectionContext \<Rightarrow> string set \<Rightarrow> cm_expr \<Rightarrow> bool" where
  "plain_expr ctx L (Evar_cm x) \<longleftrightarrow> name_ok ctx L x"
| "plain_expr ctx L (Econst_cm c) \<longleftrightarrow> True"
| "plain_expr ctx L (Eunop_cm uop a) \<longleftrightarrow> plain_expr ctx L a"
| "plain_expr ctx L (Ebinop_cm bop a b) \<longleftrightarrow> plain_expr ctx L a \<and> plain_expr ctx L b"
| "plain_expr ctx L (Ecmp_cm bop c a b) \<longleftrightarrow> False"
| "plain_expr ctx L (Eload_cm ch a) \<longleftrightarrow> plain_expr ctx L a"

text \<open>
  An int constant stands for an offset only when it is not negative: the addressing modes extend its sign,
  a 64-bit addition would not. A constant shift of an operand must be a 64-bit one.
\<close>

fun operand_ok :: "cm_expr \<Rightarrow> bool" where
  "operand_ok (Econst_cm (Ointconst_cm n)) \<longleftrightarrow> 0 \<le> n \<and> n < 2 ^ 31"
| "operand_ok (Ebinop_cm Oshl_cs l (Econst_cm (Ointconst_cm n))) \<longleftrightarrow> \<not> (0 \<le> n \<and> n \<le> 3)"
| "operand_ok _ \<longleftrightarrow> True"

fun address_ok :: "selectionContext \<Rightarrow> string set \<Rightarrow> cm_expr \<Rightarrow> bool" where
  "address_ok ctx L (Ebinop_cm bop a b) \<longleftrightarrow> plain_expr ctx L a \<and> plain_expr ctx L b \<and> bop \<noteq> Oadd_cs \<and> bop \<noteq> Osub_cs \<and>
     operand_ok a \<and> operand_ok b"
| "address_ok ctx L e \<longleftrightarrow> plain_expr ctx L e"

definition combination_ok :: "binaryOp \<Rightarrow> cm_expr \<Rightarrow> cm_expr \<Rightarrow> bool" where
  "combination_ok bop l r \<longleftrightarrow> TrySelectCombinedOp bop l r = None \<or> bop = Oadd_cs \<or> bop = Osub_cs"

fun sel_ok :: "selectionContext \<Rightarrow> string set \<Rightarrow> cm_expr \<Rightarrow> bool" where
  "sel_ok ctx L (Evar_cm x) \<longleftrightarrow> name_ok ctx L x"
| "sel_ok ctx L (Econst_cm c) \<longleftrightarrow> True"
| "sel_ok ctx L (Eunop_cm uop a) \<longleftrightarrow> sel_ok ctx L a"
| "sel_ok ctx L (Ebinop_cm bop a b) \<longleftrightarrow> sel_ok ctx L a \<and> sel_ok ctx L b \<and> combination_ok bop a b"
| "sel_ok ctx L (Ecmp_cm bop c a b) \<longleftrightarrow> sel_ok ctx L a \<and> sel_ok ctx L b"
| "sel_ok ctx L (Eload_cm ch a) \<longleftrightarrow> address_ok ctx L a"

text \<open>Conditions: a long or floating-point value must be compared explicitly, unless it is a long constant.\<close>

fun range_ok :: "cm_const \<Rightarrow> bool" where
  "range_ok (Ointconst_cm n) \<longleftrightarrow> - (2 ^ 31) \<le> n \<and> n < 2 ^ 31"
| "range_ok (Olongconst_cm n) \<longleftrightarrow> - (2 ^ 63) \<le> n \<and> n < 2 ^ 63"
| "range_ok _ \<longleftrightarrow> False"

fun cond_ok_sel :: "selectionContext \<Rightarrow> string set \<Rightarrow> cm_expr \<Rightarrow> bool" where
  "cond_ok_sel ctx L (Econst_cm c) \<longleftrightarrow> range_ok c"
| "cond_ok_sel ctx L (Eunop_cm uop a) \<longleftrightarrow>
     (if uop = Onotbool_cs then cond_ok_sel ctx L a else sel_ok ctx L a \<and> unop_kind uop = Kint)"
| "cond_ok_sel ctx L e \<longleftrightarrow> sel_ok ctx L e \<and> cm_kind_of e = Kint"

definition env_ok :: "selectionContext \<Rightarrow> string set \<Rightarrow> cs_env \<Rightarrow> bool" where
  "env_ok ctx L env \<longleftrightarrow> context_ok ctx L \<and> dom env = L"

section \<open>Variables and plain expressions\<close>

lemma selectVar_eval:
  assumes "env_ok ctx L env" and "name_ok ctx L x"
  shows "eval_expr T E env m le (selectVar ctx x) = Some (cm_var T (StackVars ctx) env x)"
proof (cases "env x")
  case None
  then have "x \<notin> L" using assms(1) by (auto simp: env_ok_def)
  then show ?thesis using assms None
    by (auto simp: selectVar_def cm_var_def name_ok_def env_ok_def context_ok_def split: option.splits)
next
  case (Some v)
  then have "x \<in> L" using assms(1) by (auto simp: env_ok_def)
  then show ?thesis using assms(1) Some by (auto simp: selectVar_def cm_var_def env_ok_def context_ok_def)
qed

lemma translateConst_eval: "eval_expr T E env m le (reSelectExpr ctx (translateConst c)) = Some (Some (cm_word_const T c))"
  by (cases c) simp_all

lemma selectConst_eval: "eval_expr T E env m le (selectConst c) = Some (Some (cm_word_const T c))"
  by (cases c) simp_all

lemma plain_eval:
  assumes "env_ok ctx L env"
  shows "plain_expr ctx L e \<Longrightarrow> eval_expr T E env m le (reSelectExpr ctx (translateExpr e)) = cm_eval T (StackVars ctx) env m e"
proof (induction e)
  case (Eload_cm ch a)
  have "Option.bind v (\<lambda>p. map_option Some (load_chunk ch p m)) = map_option Some (Option.bind v (\<lambda>p. load_chunk ch p m))" for v
    by (cases v) simp_all
  with Eload_cm show ?case by (auto simp: with_known_def known1_def intro!: bind_option_cong)
qed (auto simp: selectVar_eval [OF assms] translateConst_eval)

section \<open>Addresses\<close>

lemma zx_nonneg: "0 \<le> n \<Longrightarrow> n < 2 ^ 31 \<Longrightarrow> zx (of_int n) = of_int n"
  by (simp add: zx_def unsigned_of_int take_bit_int_eq_self)

lemma unat_of_int: "0 \<le> n \<Longrightarrow> n \<le> 63 \<Longrightarrow> unat (of_int n :: w32) = nat n"
  by (simp add: unsigned_of_int take_bit_int_eq_self)

lemma of_int_wrap64 [simp]: "(of_int (wrap64 n) :: w64) = of_int n"
  by (simp add: wrap64_def)

lemma offset_eval:
  "extractConstantOffset e = Some n \<Longrightarrow> operand_ok e \<Longrightarrow> cm_eval T sv env m e = Some (Some (of_int n))"
  by (cases e rule: extractConstantOffset.cases) (simp_all add: zx_nonneg)

text \<open>A mode with its arguments gives the address \<open>p\<close>.\<close>

definition gives :: "target \<Rightarrow> (val, mem) sem \<Rightarrow> selectionContext \<Rightarrow> cs_env \<Rightarrow> mem \<Rightarrow> addressResult \<Rightarrow> w64 \<Rightarrow> bool" where
  "gives T E ctx env m r p \<longleftrightarrow> (\<exists>ws. eval_exprs T E env m [] (map (reSelectExpr ctx) (snd r)) = Some (map Some ws) \<and>
     word_addr T (fst r) ws = Some p)"

lemma gives0: "word_addr T mode [] = Some p \<Longrightarrow> gives T E ctx env m (mode, []) p"
  by (simp add: gives_def)

lemma gives1:
  assumes "env_ok ctx L env" "plain_expr ctx L e" "cm_eval T (StackVars ctx) env m e = Some (Some w)"
    and "word_addr T mode [w] = Some p"
  shows "gives T E ctx env m (mode, [translateExpr e]) p"
  using plain_eval [OF assms(1,2)] assms(3,4) by (auto simp: gives_def intro!: exI [of _ "[w]"])

lemma gives2:
  assumes "env_ok ctx L env" "plain_expr ctx L e" "cm_eval T (StackVars ctx) env m e = Some (Some w)"
    and "plain_expr ctx L e'" "cm_eval T (StackVars ctx) env m e' = Some (Some w')"
    and "word_addr T mode [w, w'] = Some p"
  shows "gives T E ctx env m (mode, [translateExpr e, translateExpr e']) p"
  using plain_eval [OF assms(1,2)] plain_eval [OF assms(1,4)] assms(3,5,6)
  by (auto simp: gives_def intro!: exI [of _ "[w, w']"])

text \<open>Operands of a 64-bit addition.\<close>

definition summand :: "selectionContext \<Rightarrow> string set \<Rightarrow> target \<Rightarrow> cs_env \<Rightarrow> mem \<Rightarrow> cm_expr \<Rightarrow> w64 \<Rightarrow> bool" where
  "summand ctx L T env m e w \<longleftrightarrow>
     plain_expr ctx L e \<and> operand_ok e \<and> cm_eval T (StackVars ctx) env m e = Some (Some w)"

lemma summand_offset: "summand ctx L T env m e w \<Longrightarrow> extractConstantOffset e = Some n \<Longrightarrow> w = of_int n"
  using offset_eval [of e n T "StackVars ctx" env m] by (auto simp: summand_def)

lemma global_value:
  assumes "env_ok ctx L env" and "x \<in> Globals ctx"
  shows "cm_var T (StackVars ctx) env x = Some (t_symbol T x)"
  using assms by (auto simp: env_ok_def context_ok_def cm_var_def split: option.splits)

lemma stack_value:
  assumes "env_ok ctx L env" and "StackVars ctx x = Some n"
  shows "cm_var T (StackVars ctx) env x = Some (t_stack T + of_int n)"
  using assms by (force simp: env_ok_def context_ok_def cm_var_def split: option.splits)

lemma global_plus_gives:
  assumes "env_ok ctx L env" "summand ctx L T env m v a" "summand ctx L T env m off b"
    and "global_plus (Globals ctx) v off = Some r"
  shows "gives T E ctx env m r (a + b)"
proof -
  from assms(4) obtain x n where x: "global_var (Globals ctx) v = Some x" "extractConstantOffset off = Some n"
    "r = (Aglobal x n, [])" by (auto simp: global_plus_def bind_eq_Some_conv)
  then have "v = Evar_cm x" "x \<in> Globals ctx" by (cases v; auto split: if_splits)+
  then have "a = t_symbol T x" using assms(2) by (simp add: summand_def global_value [OF assms(1)])
  with summand_offset [OF assms(3) x(2)] show ?thesis by (auto simp: x intro: gives0)
qed

lemma stack_base:
  assumes "env_ok ctx L env" "summand ctx L T env m e a"
  shows "stack_const e = Some n \<Longrightarrow> a = t_stack T + of_int n" and "stack_var (StackVars ctx) e = Some n \<Longrightarrow> a = t_stack T + of_int n"
  using assms(2) by (cases e rule: stack_const.cases; simp add: summand_def)
    (cases e; use assms(2) stack_value [OF assms(1)] in \<open>auto simp: summand_def\<close>)

lemma stack_plus_gives:
  assumes "summand ctx L T env m off b" "stack_plus base off = Some r" "\<And>n. base = Some n \<Longrightarrow> a = t_stack T + of_int n"
  shows "gives T E ctx env m r (a + b)"
proof -
  from assms(2) obtain k n where "base = Some k" "extractConstantOffset off = Some n" "r = (Ainstack (wrap64 (k + n)), [])"
    by (auto simp: stack_plus_def bind_eq_Some_conv)
  with assms(3) summand_offset [OF assms(1)] show ?thesis by (auto intro: gives0)
qed

lemma scaled_gives:
  assumes "env_ok ctx L env" "summand ctx L T env m base a" "summand ctx L T env m shifted b"
    and "scaled (extractShiftAdd base shifted) = Some r"
  shows "gives T E ctx env m r (a + b)"
proof -
  from assms(4) obtain n index where n: "extractShiftAdd base shifted = Some (n, base, index)" "0 \<le> n" "n \<le> 3"
    "r = (Aindexed2shift n, [translateExpr base, translateExpr index])"
    by (cases shifted) (auto simp: scaled_def bind_eq_Some_conv split: if_splits)
  then obtain bop where "shifted = Ebinop_cm bop index (Econst_cm (Ointconst_cm n))" "bop = Oshl_cs \<or> bop = Oshll_cs"
    by (cases shifted; cases "case shifted of Ebinop_cm _ _ c \<Rightarrow> c | _ \<Rightarrow> shifted" rule: extractConstantInt.cases)
      (auto split: if_splits)
  with n assms(3) have sh: "shifted = Ebinop_cm Oshll_cs index (Econst_cm (Ointconst_cm n))" by (auto simp: summand_def)
  then obtain w where "cm_eval T (StackVars ctx) env m index = Some (Some w)" "b = push_bit (nat n) w" "plain_expr ctx L index"
    using assms(3) n by (auto simp: summand_def known2_Some bind_eq_Some_conv unat_of_int)
  then show ?thesis using assms(2) n unfolding n(4) summand_def by (intro gives2 [OF assms(1)]) (auto simp: guarded_def)
qed

lemma based_gives:
  assumes "env_ok ctx L env" "summand ctx L T env m base a" "based base off = Some r" "\<And>n. off = Some n \<Longrightarrow> b = of_int n"
  shows "gives T E ctx env m r (a + b)"
  using assms(2-) by (auto simp: based_def summand_def intro!: gives1 [OF assms(1)])

lemma orelse_Some: "orelse x y = Some r \<longleftrightarrow> x = Some r \<or> x = None \<and> y = Some r"
  by (auto simp: orelse_def split: option.splits)

lemma sum_gives:
  assumes "env_ok ctx L env" "summand ctx L T env m l a" "summand ctx L T env m r b"
  shows "gives T E ctx env m (SelectAddressing (Ebinop_cm Oaddl_cs l r) (Globals ctx) (StackVars ctx)) (a + b)"
proof -
  let ?e = "Ebinop_cm Oaddl_cs l r"
  let ?g = "\<lambda>res. gives T E ctx env m res (a + b)"
  have plus: "is_addition Oaddl_cs" by (simp add: is_addition_def)
  note swap = add.commute [of a b]
  have 1: "?g res" if "tryAglobal ?e (Globals ctx) = Some res" for res
    using that plus
    by (auto simp: orelse_Some intro: global_plus_gives [OF assms(1) assms(2,3)]
        global_plus_gives [OF assms(1) assms(3,2), folded swap])
  have 2: "?g res" if "tryAinstack ?e (StackVars ctx) = Some res" for res
    using that plus stack_base [OF assms(1,2)] stack_base [OF assms(1,3)]
    by (auto simp: orelse_Some intro: stack_plus_gives [OF assms(3), of _ _ a]
        stack_plus_gives [OF assms(2), of _ _ b, folded swap])
  have 3: "?g res" if "tryAindexed2shift ?e = Some res" for res
    using that plus
    by (auto simp: orelse_Some intro: scaled_gives [OF assms(1) assms(2,3)]
        scaled_gives [OF assms(1) assms(3,2), folded swap])
  have 4: "?g res" if "tryAindexed2 ?e = Some res" for res
    using that plus assms(2,3) by (auto simp: summand_def split: if_splits intro!: gives2 [OF assms(1)])
  have 5: "?g res" if "tryAindexed ?e = Some res" for res
    using that plus
    by (auto simp: orelse_Some intro: based_gives [OF assms(1,2) _ summand_offset [OF assms(3)]]
        based_gives [OF assms(1,3) _ summand_offset [OF assms(2)], folded swap])
  have "?g (Aindexed 0, [translateExpr ?e])"
    by (rule gives1 [OF assms(1), where w = "a + b"]) (use assms(2,3) in \<open>auto simp: summand_def known2_def\<close>)
  moreover have "?g res"
    if "orelse (tryAglobal ?e (Globals ctx)) (orelse (tryAinstack ?e (StackVars ctx))
      (orelse (tryAindexed2shift ?e) (orelse (tryAindexed2 ?e) (tryAindexed ?e)))) = Some res" for res
    using that 1 2 3 4 5 unfolding orelse_Some by blast
  ultimately show ?thesis unfolding SelectAddressing_def by (simp only: split: option.split) blast
qed

lemma SelectAddressing_gives:
  assumes "env_ok ctx L env" "address_ok ctx L e" "cm_eval T (StackVars ctx) env m e = Some (Some p)"
  shows "gives T E ctx env m (SelectAddressing e (Globals ctx) (StackVars ctx)) p"
proof -
  have base: "gives T E ctx env m (Aindexed 0, [translateExpr e]) p" if "plain_expr ctx L e"
    by (rule gives1 [OF assms(1) that assms(3)]) simp
  show ?thesis
  proof (cases e)
    case (Evar_cm x)
    with assms base show ?thesis
      by (auto simp: SelectAddressing_def orelse_def global_value [OF assms(1)] stack_value [OF assms(1)]
          split: option.split intro!: gives0)
  next
    case (Econst_cm c)
    with assms base show ?thesis
      by (cases c) (auto simp: SelectAddressing_def orelse_def intro!: gives0)
  next
    case (Ebinop_cm bop l r)
    with assms obtain a b where ab: "cm_eval T (StackVars ctx) env m l = Some (Some a)"
      "cm_eval T (StackVars ctx) env m r = Some (Some b)" "word_binop T bop a b = Some p"
      by (auto simp: bind_eq_Some_conv known2_Some)
    with Ebinop_cm assms(2) have s: "summand ctx L T env m l a" "summand ctx L T env m r b"
      by (auto simp: summand_def)
    show ?thesis
    proof (cases "bop = Oaddl_cs")
      case True
      with sum_gives [OF assms(1) s] ab(3) Ebinop_cm show ?thesis by simp
    next
      case False
      with Ebinop_cm assms(2) have no: "\<not> is_addition bop" "bop \<noteq> Osub_cs" by (auto simp: is_addition_def)
      have 1: "gives T E ctx env m (Aindexed (wrap64 (- n)), [translateExpr l]) p"
        if "bop = Osubl_cs" "extractConstantOffset r = Some n" for n
        using that ab s summand_offset [OF s(2) that(2)]
        by (auto simp: summand_def intro!: gives1 [OF assms(1)])
      with 1 no Ebinop_cm base assms(2) show ?thesis
        by (auto simp: SelectAddressing_def orelse_def based_def split: option.split)
    qed
  qed (use assms base in \<open>auto simp: SelectAddressing_def orelse_def\<close>)
qed

lemma selectAddress_eval:
  assumes "env_ok ctx L env" "address_ok ctx L e" "cm_eval T (StackVars ctx) env m e = Some (Some p)"
    and "selectAddress ctx e = (mode, args)"
  obtains ws where "eval_exprs T E env m [] args = Some (map Some ws)" "word_addr T mode ws = Some p"
  using SelectAddressing_gives [OF assms(1-3), of E] assms(4)
  by (auto simp: gives_def selectAddress_def split: prod.splits)

section \<open>Expressions\<close>

lemma extractShift_Some:
  "extractShift e = Some (shift, index, n) \<Longrightarrow> e = Ebinop_cm shift index (Econst_cm (Ointconst_cm n))"
  by (cases e; cases "case e of Ebinop_cm _ _ c \<Rightarrow> c | _ \<Rightarrow> e" rule: extractConstantInt.cases) (auto split: if_splits)

lemma combine_shift_Some:
  assumes "combine_shift bop base shifted = Some c" and "bop = Oadd_cs \<or> bop = Osub_cs"
  shows "shifted = Ebinop_cm Oshl_cs (co_index c) (Econst_cm (Ointconst_cm (co_shift c))) \<and> co_base c = base \<and>
    0 \<le> co_shift c \<and> co_shift c \<le> 63 \<and> co_op c = MOshift (if bop = Oadd_cs then MOaddshift else MOsubshift)"
  using assms by (auto simp: combine_shift_def bind_eq_Some_conv isValidShiftAmount_def
      split: if_splits dest!: extractShift_Some)

lemma shl_value:
  assumes "cm_eval T sv env m (Ebinop_cm Oshl_cs index (Econst_cm (Ointconst_cm n))) = Some (Some b)" "0 \<le> n" "n \<le> 63"
  obtains w where "cm_eval T sv env m index = Some (Some w)" "word_shift Slsl n (lo w) = Some (lo b)"
  using assms by (auto simp: bind_eq_Some_conv known2_Some shift_ok_def unat_of_int guarded_def split: if_splits)

lemma combined_eval:
  assumes "TrySelectCombinedOp bop l r = Some c" and "bop = Oadd_cs \<or> bop = Osub_cs"
    and "cm_eval T sv env m (Ebinop_cm bop l r) = Some v"
  obtains a b where "cm_eval T sv env m (co_base c) = Some (Some a)" "cm_eval T sv env m (co_index c) = Some (Some b)"
    "co_op c = MOshift (if bop = Oadd_cs then MOaddshift else MOsubshift)"
    "(if bop = Oadd_cs then word_addshift Slsl (co_shift c) a b else word_subshift Slsl (co_shift c) a b) = v" "v \<noteq> None"
proof -
  from assms(3) obtain x y w where xy: "cm_eval T sv env m l = Some (Some x)" "cm_eval T sv env m r = Some (Some y)"
    "word_binop T bop x y = Some w" "v = Some w" by (auto simp: bind_eq_Some_conv known2_Some)
  from assms(1) consider "combine_shift bop l r = Some c" | "combine_shift bop r l = Some c" "bop = Oadd_cs"
    using assms(2) by (auto simp: TrySelectCombinedOp_def orelse_Some isCommutative_def split: if_splits)
  then show ?thesis
  proof cases
    case 1
    note c = combine_shift_Some [OF 1 assms(2)]
    with xy(2) obtain b where "cm_eval T sv env m (co_index c) = Some (Some b)" "word_shift Slsl (co_shift c) (lo b) = Some (lo y)"
      by (metis shl_value)
    with c xy assms(2) show ?thesis
      by (intro that [of x b]) (auto simp: word_addshift_def word_subshift_def simp del: word_shift.simps)
  next
    case 2
    note c = combine_shift_Some [OF 2(1) assms(2)]
    with xy(1) obtain b where "cm_eval T sv env m (co_index c) = Some (Some b)" "word_shift Slsl (co_shift c) (lo b) = Some (lo x)"
      by (metis shl_value)
    with c xy 2 show ?thesis
      by (intro that [of y b]) (auto simp: word_addshift_def add.commute simp del: word_shift.simps)
  qed
qed

lemma combined_sel_ok:
  assumes "TrySelectCombinedOp bop l r = Some c" and "bop = Oadd_cs \<or> bop = Osub_cs" and "sel_ok ctx L l" "sel_ok ctx L r"
  shows "sel_ok ctx L (co_base c) \<and> sel_ok ctx L (co_index c)"
proof -
  have "sel_ok ctx L (co_base c) \<and> sel_ok ctx L (co_index c)"
    if "combine_shift bop base shifted = Some c" "sel_ok ctx L base" "sel_ok ctx L shifted" for base shifted
    using combine_shift_Some [OF that(1) assms(2)] that(2,3) by auto
  then show ?thesis using assms(1,3,4) by (auto simp: TrySelectCombinedOp_def orelse_Some split: if_splits)
qed

lemma SelectExpr_eval:
  "env_ok ctx L env \<Longrightarrow> sel_ok ctx L e \<Longrightarrow> cm_eval T (StackVars ctx) env m e = Some v \<Longrightarrow>
    eval_expr T E env m [] (SelectExpr ctx e) = Some v"
proof (induction ctx e arbitrary: v rule: SelectExpr.induct)
  case (4 ctx bop l r)
  show ?case
  proof (cases "TrySelectCombinedOp bop l r")
    case None
    with 4 show ?thesis by (fastforce simp: bind_eq_Some_conv)
  next
    case (Some c)
    with "4.prems"(2) have bop: "bop = Oadd_cs \<or> bop = Osub_cs" by (auto simp: combination_ok_def)
    with "4.prems"(2) combined_sel_ok [OF Some] have ok: "sel_ok ctx L (co_base c)" "sel_ok ctx L (co_index c)" by auto
    obtain a b where ab: "cm_eval T (StackVars ctx) env m (co_base c) = Some (Some a)"
      "cm_eval T (StackVars ctx) env m (co_index c) = Some (Some b)"
      "co_op c = MOshift (if bop = Oadd_cs then MOaddshift else MOsubshift)"
      "(if bop = Oadd_cs then word_addshift Slsl (co_shift c) a b else word_subshift Slsl (co_shift c) a b) = v" "v \<noteq> None"
      by (rule combined_eval [OF Some bop "4.prems"(3)])
    note IH = "4.IH"(3) [OF Some "4.prems"(1) ok(1) ab(1)] "4.IH"(4) [OF Some "4.prems"(1) ok(2) ab(2)]
    show ?thesis using bop Some ab(3-5) by (auto simp: IH known2_def)
  qed
next
  case (6 ctx ch a)
  then obtain p w where "cm_eval T (StackVars ctx) env m a = Some (Some p)" "load_chunk ch p m = Some w" "v = Some w"
    by (auto simp: bind_eq_Some_conv known1_Some)
  moreover obtain mode args where "selectAddress ctx a = (mode, args)" by force
  moreover obtain ws where "eval_exprs T E env m [] args = Some (map Some ws)" "word_addr T mode ws = Some p"
    by (rule selectAddress_eval [OF "6.prems"(1) _ calculation(1,4)]) (use "6.prems"(2) in auto)
  ultimately show ?case by simp
next
  case (3 ctx uop a)
  then show ?case
    by (cases "uop = Onotbool_cs") (auto simp: bind_eq_Some_conv known1_Some known2_def signed_eq_0_iff)
qed (auto simp: bind_eq_Some_conv known1_Some known2_Some selectVar_eval selectConst_eval)

section \<open>Conditions\<close>

lemma of_int_eq_0_range:
  "- (2 ^ 31) \<le> n \<Longrightarrow> n < 2 ^ 31 \<Longrightarrow> of_int n = (0 :: w32) \<longleftrightarrow> n = 0"
  "- (2 ^ 63) \<le> n \<Longrightarrow> n < 2 ^ 63 \<Longrightarrow> of_int n = (0 :: w64) \<longleftrightarrow> n = 0"
proof -
  have "of_int n = (0 :: w32) \<longleftrightarrow> sint (of_int n :: w32) = sint (0 :: w32)" for n by (auto intro: signed_word_eqI)
  then show "- (2 ^ 31) \<le> n \<Longrightarrow> n < 2 ^ 31 \<Longrightarrow> of_int n = (0 :: w32) \<longleftrightarrow> n = 0" for n
    by (simp add: signed_of_int signed_take_bit_int_eq_self)
  have "of_int n = (0 :: w64) \<longleftrightarrow> sint (of_int n :: w64) = sint (0 :: w64)" for n by (auto intro: signed_word_eqI)
  then show "- (2 ^ 63) \<le> n \<Longrightarrow> n < 2 ^ 63 \<Longrightarrow> of_int n = (0 :: w64) \<longleftrightarrow> n = 0" for n
    by (simp add: signed_of_int signed_take_bit_int_eq_self)
qed

lemma compared_with_zero: "cs_compare Cne_cs (sint (lo w)) (sint (lo (zx (of_int 0)))) \<longleftrightarrow> lo w \<noteq> 0"
  by (simp add: signed_eq_0_iff)

lemma tested_eval:
  assumes "env_ok ctx L env" "sel_ok ctx L e" "cm_kind_of e = Kint"
    and "Option.bind (cm_eval T (StackVars ctx) env m e) (map_option (truth T (cm_kind_of e))) = Some t"
  shows "eval_cond T E env m [] (CondCmp Cne_cs (SelectExpr ctx e) (Econst (Ointconst_cs 0))) = Some t"
proof -
  from assms(3,4) obtain w where "cm_eval T (StackVars ctx) env m e = Some (Some w)" "t = (lo w \<noteq> 0)"
    by (auto simp: bind_eq_Some_conv)
  with SelectExpr_eval [OF assms(1,2)] show ?thesis using compared_with_zero [of w] by (simp add: known2_def)
qed

lemma comparison_eval:
  assumes "eval_expr T E env m [] a = Some (Some x)" "eval_expr T E env m [] b = Some (Some y)" "word_cmp T bop c x y = Some t"
  shows "eval_cond T E env m [] (SelectComparison bop c a b) = Some t"
  using assms by (cases bop) (auto simp: known2_def)

lemma const_truth: "range_ok c \<Longrightarrow> eval_cond T E env m le (SelectCondition ctx (Econst_cm c)) = Some (truth T (const_kind c) (cm_word_const T c))"
proof (cases c)
  case (Ointconst_cm n)
  moreover assume "range_ok c"
  ultimately have "of_int n = (0 :: w32) \<longleftrightarrow> n = 0" by (auto simp: of_int_eq_0_range)
  with Ointconst_cm show ?thesis by simp
next
  case (Olongconst_cm n)
  moreover assume "range_ok c"
  ultimately have "of_int n = (0 :: w64) \<longleftrightarrow> n = 0" by (auto simp: of_int_eq_0_range)
  with Olongconst_cm show ?thesis by simp
qed auto

lemma SelectCondition_eval:
  "env_ok ctx L env \<Longrightarrow> cond_ok_sel ctx L e \<Longrightarrow> cm_cond T (StackVars ctx) env m e = Some t \<Longrightarrow>
    eval_cond T E env m [] (SelectCondition ctx e) = Some t"
proof (induction ctx e arbitrary: t rule: SelectCondition.induct)
  case (1 ctx bop c l r)
  then obtain x y t' where "cm_eval T (StackVars ctx) env m l = Some (Some x)" "cm_eval T (StackVars ctx) env m r = Some (Some y)"
    "word_cmp T bop c x y = Some t'" "t = t'"
    by (auto simp: bind_eq_Some_conv known2_Some lo_def split: if_splits)
  with 1 show ?case by (auto intro!: comparison_eval SelectExpr_eval)
next
  case (2 ctx c)
  then show ?case using const_truth [of c T E env m "[]" ctx] by auto
next
  case (3 ctx uop a)
  show ?case
  proof (cases "uop = Onotbool_cs")
    case True
    with 3 show ?thesis by auto
  next
    case False
    with 3 tested_eval [OF "3.prems"(1), of "Eunop_cm uop a" T m t E] show ?thesis
      by (simp only: SelectCondition.simps cond_ok_sel.simps cm_cond.simps cm_kind_of.simps sel_ok.simps if_False)
  qed
qed (use tested_eval in \<open>simp_all del: SelectExpr.simps eval_cond.simps cm_eval.simps sel_ok.simps cm_kind_of.simps\<close>)

end
