(* ===== verification/SelectionOps.thy ===== *)
theory SelectionOps
  imports SelectionExpr
begin

text \<open>
  The rest of \<open>pkg/selection\<close> and \<open>pkg/cminorsel/ops.go\<close>, which the other passes do not call yet: the
  machine operator of a Cminor operator, classification of machine operators, negated and swapped
  comparisons, and conditional expressions in place of branches.
\<close>

section \<open>Machine operators\<close>

fun SelectUnaryOp :: "unaryOp \<Rightarrow> machUnaryOp" where
  "SelectUnaryOp Onegint_cs = MOnegint"
| "SelectUnaryOp Onegf_cs = MOnegf"
| "SelectUnaryOp Onegl_cs = MOnegl"
| "SelectUnaryOp Onegs_cs = MOnegs"
| "SelectUnaryOp Onotint_cs = MOnotint"
| "SelectUnaryOp Onotl_cs = MOnotl"
| "SelectUnaryOp Ocast8signed_cs = MOcast8signed"
| "SelectUnaryOp Ocast8unsigned_cs = MOcast8unsigned"
| "SelectUnaryOp Ocast16signed_cs = MOcast16signed"
| "SelectUnaryOp Ocast16unsigned_cs = MOcast16unsigned"
| "SelectUnaryOp Osingleoffloat_cs = MOsingleoffloat"
| "SelectUnaryOp Ofloatofsingle_cs = MOfloatofsingle"
| "SelectUnaryOp Ointoffloat_cs = MOintoffloat"
| "SelectUnaryOp Ointuoffloat_cs = MOintuoffloat"
| "SelectUnaryOp Ofloatofint_cs = MOfloatofint"
| "SelectUnaryOp Ofloatofintu_cs = MOfloatofintu"
| "SelectUnaryOp Olongoffloat_cs = MOlongoffloat"
| "SelectUnaryOp Olonguoffloat_cs = MOlonguoffloat"
| "SelectUnaryOp Ofloatoflong_cs = MOfloatoflong"
| "SelectUnaryOp Ofloatoflongu_cs = MOfloatoflongu"
| "SelectUnaryOp Olongofsingle_cs = MOlongofsingle"
| "SelectUnaryOp Olonguofsingle_cs = MOlonguofsingle"
| "SelectUnaryOp Osingleoflong_cs = MOsingleoflong"
| "SelectUnaryOp Osingleoflongu_cs = MOsingleoflongu"
| "SelectUnaryOp Ointoflong_cs = MOintoflong"
| "SelectUnaryOp Olongofint_cs = MOlongofint"
| "SelectUnaryOp Olongofintu_cs = MOlongofintu"
| "SelectUnaryOp Onotbool_cs = MOnegint"

fun SelectBinaryOp :: "binaryOp \<Rightarrow> machBinaryOp" where
  "SelectBinaryOp Oadd_cs = MObasic MOadd"
| "SelectBinaryOp Osub_cs = MObasic MOsub"
| "SelectBinaryOp Omul_cs = MObasic MOmul"
| "SelectBinaryOp Odiv_cs = MObasic MOdiv"
| "SelectBinaryOp Odivu_cs = MObasic MOdivu"
| "SelectBinaryOp Omod_cs = MObasic MOmod"
| "SelectBinaryOp Omodu_cs = MObasic MOmodu"
| "SelectBinaryOp Oaddf_cs = MObasic MOaddf"
| "SelectBinaryOp Osubf_cs = MObasic MOsubf"
| "SelectBinaryOp Omulf_cs = MObasic MOmulf"
| "SelectBinaryOp Odivf_cs = MObasic MOdivf"
| "SelectBinaryOp Oadds_cs = MObasic MOadds"
| "SelectBinaryOp Osubs_cs = MObasic MOsubs"
| "SelectBinaryOp Omuls_cs = MObasic MOmuls"
| "SelectBinaryOp Odivs_cs = MObasic MOdivs"
| "SelectBinaryOp Oaddl_cs = MObasic MOaddl"
| "SelectBinaryOp Osubl_cs = MObasic MOsubl"
| "SelectBinaryOp Omull_cs = MObasic MOmull"
| "SelectBinaryOp Odivl_cs = MObasic MOdivl"
| "SelectBinaryOp Odivlu_cs = MObasic MOdivlu"
| "SelectBinaryOp Omodl_cs = MObasic MOmodl"
| "SelectBinaryOp Omodlu_cs = MObasic MOmodlu"
| "SelectBinaryOp Oand_cs = MObasic MOand"
| "SelectBinaryOp Oor_cs = MObasic MOor"
| "SelectBinaryOp Oxor_cs = MObasic MOxor"
| "SelectBinaryOp Oshl_cs = MObasic MOshl"
| "SelectBinaryOp Oshr_cs = MObasic MOshr"
| "SelectBinaryOp Oshru_cs = MObasic MOshru"
| "SelectBinaryOp Oandl_cs = MObasic MOandl"
| "SelectBinaryOp Oorl_cs = MObasic MOorl"
| "SelectBinaryOp Oxorl_cs = MObasic MOxorl"
| "SelectBinaryOp Oshll_cs = MObasic MOshll"
| "SelectBinaryOp Oshrl_cs = MObasic MOshrl"
| "SelectBinaryOp Oshrlu_cs = MObasic MOshrlu"
| "SelectBinaryOp Ocmp_cs = MObasic MOcmp"
| "SelectBinaryOp Ocmpu_cs = MObasic MOcmpu"
| "SelectBinaryOp Ocmpf_cs = MObasic MOcmpf"
| "SelectBinaryOp Ocmps_cs = MObasic MOcmps"
| "SelectBinaryOp Ocmpl_cs = MObasic MOcmpl"
| "SelectBinaryOp Ocmplu_cs = MObasic MOcmplu"

fun IsCommutative :: "machBinaryOp \<Rightarrow> bool" where
  "IsCommutative (MObasic mop) \<longleftrightarrow> mop \<in> {MOadd, MOmul, MOaddf, MOmulf, MOadds, MOmuls, MOaddl, MOmull, MOand, MOor, MOxor,
     MOandl, MOorl, MOxorl}"
| "IsCommutative _ \<longleftrightarrow> False"

fun IsCompare :: "machBinaryOp \<Rightarrow> bool" where
  "IsCompare (MObasic mop) \<longleftrightarrow> mop \<in> {MOcmp, MOcmpu, MOcmpf, MOcmps, MOcmpl, MOcmplu}"
| "IsCompare _ \<longleftrightarrow> False"

fun IsShiftCombined :: "machBinaryOp \<Rightarrow> bool" where
  "IsShiftCombined (MOshift mop) \<longleftrightarrow> mop \<in> {MOaddshift, MOsubshift, MOandshift, MOorshift, MOxorshift,
     MOaddlshift, MOsublshift, MOandlshift, MOorlshift, MOxorlshift}"
| "IsShiftCombined _ \<longleftrightarrow> False"

fun IsFusedMultiply :: "machBinaryOp \<Rightarrow> bool" where
  "IsFusedMultiply (MOfused mop) \<longleftrightarrow> mop \<in> {MOmadd, MOmsub, MOmaddl, MOmsubl, MOmaddf, MOmsubf, MOmadds, MOmsubs,
     MOnmaddf, MOnmsubf, MOnmadds, MOnmsubs}"
| "IsFusedMultiply _ \<longleftrightarrow> False"

section \<open>Comparisons\<close>

fun NegateComparison :: "comparison \<Rightarrow> comparison" where
  "NegateComparison Ceq_cs = Cne_cs"
| "NegateComparison Cne_cs = Ceq_cs"
| "NegateComparison Clt_cs = Cge_cs"
| "NegateComparison Cle_cs = Cgt_cs"
| "NegateComparison Cgt_cs = Cle_cs"
| "NegateComparison Cge_cs = Clt_cs"

fun SwapComparison :: "comparison \<Rightarrow> comparison" where
  "SwapComparison Clt_cs = Cgt_cs"
| "SwapComparison Cle_cs = Cge_cs"
| "SwapComparison Cgt_cs = Clt_cs"
| "SwapComparison Cge_cs = Cle_cs"
| "SwapComparison c = c"

lemma NegateComparison_compare [simp]: "cs_compare (NegateComparison c) a b \<longleftrightarrow> \<not> cs_compare c a b"
  by (cases c) auto

lemma SwapComparison_compare [simp]: "cs_compare (SwapComparison c) b a \<longleftrightarrow> cs_compare c a b"
  by (cases c) auto

section \<open>Conditional expressions\<close>

fun isSimpleExpr :: "cm_expr \<Rightarrow> bool" where
  "isSimpleExpr (Evar_cm x) \<longleftrightarrow> True"
| "isSimpleExpr (Econst_cm c) \<longleftrightarrow> True"
| "isSimpleExpr (Eunop_cm uop a) \<longleftrightarrow> isSimpleExpr a"
| "isSimpleExpr (Ebinop_cm bop a b) \<longleftrightarrow> bop \<notin> {Odiv_cs, Odivu_cs, Omod_cs, Omodu_cs, Odivl_cs, Odivlu_cs, Omodl_cs, Omodlu_cs,
     Odivf_cs, Odivs_cs} \<and> isSimpleExpr a \<and> isSimpleExpr b"
| "isSimpleExpr (Ecmp_cm bop c a b) \<longleftrightarrow> isSimpleExpr a \<and> isSimpleExpr b"
| "isSimpleExpr (Eload_cm ch a) \<longleftrightarrow> False"

definition IsProfitableIfConversion :: "cm_expr \<Rightarrow> cm_expr \<Rightarrow> bool" where
  "IsProfitableIfConversion thenExpr elseExpr \<longleftrightarrow> isSimpleExpr thenExpr \<and> isSimpleExpr elseExpr"

definition SelectConditionalExpr :: "selectionContext \<Rightarrow> cm_expr \<Rightarrow> cm_expr \<Rightarrow> cm_expr \<Rightarrow> expr" where
  "SelectConditionalExpr ctx c thenExpr elseExpr =
     Econdition (SelectCondition ctx c) (SelectExpr ctx thenExpr) (SelectExpr ctx elseExpr)"

text \<open>A simple expression reads no memory.\<close>

lemma simple_no_memory: "isSimpleExpr e \<Longrightarrow> cm_eval T sv env m e = cm_eval T sv env m' e"
  by (induction e) auto

lemma SelectConditionalExpr_eval:
  assumes "env_ok ctx L env" "cond_ok_sel ctx L c" "sel_ok ctx L a" "sel_ok ctx L b"
    and "cm_cond T (StackVars ctx) env m c = Some t"
    and "cm_eval T (StackVars ctx) env m (if t then a else b) = Some v"
  shows "eval_expr T E env m [] (SelectConditionalExpr ctx c a b) = Some v"
  using assms SelectExpr_eval [OF assms(1,3)] SelectExpr_eval [OF assms(1,4)] SelectCondition_eval [OF assms(1,2)]
  by (auto simp: SelectConditionalExpr_def split: if_splits)

section \<open>Properties\<close>

text \<open>
  The machine operators agree with the Cminor operators: no two binary operators share one, they
  are commutative exactly when the operator is and comparisons exactly when the operator compares; among the
  unary operators only logical negation collides with another, the integer negation, which computes
  something else. Negating and swapping a comparison are involutions with the meaning their names say.
\<close>

theorem machine_operators:
  "(SelectBinaryOp bop = SelectBinaryOp bop' \<longleftrightarrow> bop = bop') \<and>
   (IsCommutative (SelectBinaryOp bop) \<longleftrightarrow> isCommutative bop) \<and>
   (IsCompare (SelectBinaryOp bop) \<longleftrightarrow> (\<exists>r. word_cmp T bop c x y = Some r)) \<and>
   (SelectUnaryOp uop = SelectUnaryOp uop' \<longleftrightarrow> uop = uop' \<or> {uop, uop'} = {Onotbool_cs, Onegint_cs}) \<and>
   NegateComparison (NegateComparison c) = c \<and> SwapComparison (SwapComparison c) = c \<and>
   (cs_compare (NegateComparison c) a b \<noteq> cs_compare c a b) \<and> cs_compare (SwapComparison c) b a = cs_compare c a b"
proof (intro conjI)
  show "SelectBinaryOp bop = SelectBinaryOp bop' \<longleftrightarrow> bop = bop'" by (cases bop; cases bop'; simp)
  show "IsCommutative (SelectBinaryOp bop) \<longleftrightarrow> isCommutative bop" by (cases bop) (simp_all add: isCommutative_def)
  show "IsCompare (SelectBinaryOp bop) \<longleftrightarrow> (\<exists>r. word_cmp T bop c x y = Some r)" by (cases bop) simp_all
  show "SelectUnaryOp uop = SelectUnaryOp uop' \<longleftrightarrow> uop = uop' \<or> {uop, uop'} = {Onotbool_cs, Onegint_cs}"
    by (cases uop; cases uop'; simp add: doubleton_eq_iff)
  show "NegateComparison (NegateComparison c) = c" "SwapComparison (SwapComparison c) = c" by (cases c; simp)+
qed simp_all

end
