(* ===== verification/Switch.thy ===== *)
theory Switch
  imports Cminor Complex_Main
begin

text \<open>
  Switch simplification of \<open>pkg/cminorgen/switch.go\<close>: a Cminor switch whose cases leave by \<open>Sexit\<close> becomes a
  cascade of tests, a binary search or a dense table, chosen by the number of cases and their density. The
  density is kept exact; the Go code computes it in floating point, where comparing it with one half gives
  the same answer for every range below \<open>2 ^ 53\<close>. Slices of cases are sorted with an algorithm that is not
  stable, so the order of equal values is unspecified; the theorem is about distinct values.
\<close>

datatype switchStrategy = StrategyLinear | StrategyBinary | StrategyJumpTable

record switchEntry =
  sc_value :: int64
  sc_exit :: int

record switchAnalysis =
  sa_cases :: "switchEntry list"
  sa_default :: int
  sa_isLong :: bool
  sa_strategy :: switchStrategy
  sa_minVal :: int64
  sa_maxVal :: int64
  sa_density :: rat

fun extractExitDepth :: "cm_stmt \<Rightarrow> int" where
  "extractExitDepth (Sexit_cm n) = n"
| "extractExitDepth (Sseq_cm a b) = extractExitDepth b"
| "extractExitDepth _ = 0"

definition selectStrategy :: "nat \<Rightarrow> rat \<Rightarrow> switchStrategy" where
  "selectStrategy numCases density =
     (if numCases \<le> 4 then StrategyLinear else if density \<ge> 1 / 2 then StrategyJumpTable else StrategyBinary)"

fun entry_of :: "cm_switchCase \<Rightarrow> switchEntry" where
  "entry_of (SwitchCase_cm v a) = \<lparr>sc_value = v, sc_exit = extractExitDepth a\<rparr>"

definition AnalyzeSwitch :: "bool \<Rightarrow> cm_switchCase list \<Rightarrow> int \<Rightarrow> switchAnalysis" where
  "AnalyzeSwitch isLong cs defaultExit =
     (let cases = sort_key sc_value (map entry_of cs);
          minVal = (if cases = [] then 0 else sc_value (hd cases));
          maxVal = (if cases = [] then 0 else sc_value (last cases));
          rangeSize = wrap64 (maxVal - minVal + 1);
          density = (if cases \<noteq> [] \<and> rangeSize > 0 then of_nat (length cases) / of_int rangeSize else 0)
      in \<lparr>sa_cases = cases, sa_default = defaultExit, sa_isLong = isLong,
          sa_strategy = selectStrategy (length cases) density,
          sa_minVal = minVal, sa_maxVal = maxVal, sa_density = density\<rparr>)"

definition makeConstant :: "int64 \<Rightarrow> bool \<Rightarrow> cm_expr" where
  "makeConstant v isLong = Econst_cm (if isLong then Olongconst_cm v else Ointconst_cm (wrap32 v))"

definition makeComparison :: "cm_expr \<Rightarrow> int64 \<Rightarrow> bool \<Rightarrow> cm_expr" where
  "makeComparison e v isLong = Ecmp_cm (if isLong then Ocmpl_cs else Ocmp_cs) Ceq_cs e (makeConstant v isLong)"

definition makeLessThan :: "cm_expr \<Rightarrow> int64 \<Rightarrow> bool \<Rightarrow> cm_expr" where
  "makeLessThan e v isLong = Ecmp_cm (if isLong then Ocmpl_cs else Ocmp_cs) Clt_cs e (makeConstant v isLong)"

definition subtractOp :: "bool \<Rightarrow> binaryOp" where
  "subtractOp isLong = (if isLong then Osubl_cs else Osub_cs)"

primrec cascade :: "cm_expr \<Rightarrow> switchEntry list \<Rightarrow> int \<Rightarrow> bool \<Rightarrow> cm_stmt" where
  "cascade e [] d isLong = Sexit_cm d"
| "cascade e (c # cs) d isLong =
     Sifthenelse_cm (makeComparison e (sc_value c) isLong) (Sexit_cm (sc_exit c)) (cascade e cs d isLong)"

definition TransformSwitchLinear :: "cm_expr \<Rightarrow> switchAnalysis \<Rightarrow> cm_stmt" where
  "TransformSwitchLinear e an = cascade e (sa_cases an) (sa_default an) (sa_isLong an)"

function transformBinaryRecursive :: "cm_expr \<Rightarrow> switchEntry list \<Rightarrow> int \<Rightarrow> bool \<Rightarrow> cm_stmt" where
  "transformBinaryRecursive e cs d isLong =
     (if length cs = 0 then Sexit_cm d
      else if length cs = 1
      then Sifthenelse_cm (makeComparison e (sc_value (hd cs)) isLong) (Sexit_cm (sc_exit (hd cs))) (Sexit_cm d)
      else let mid = length cs div 2 in
        Sifthenelse_cm (makeLessThan e (sc_value (cs ! mid)) isLong)
          (transformBinaryRecursive e (take mid cs) d isLong) (transformBinaryRecursive e (drop mid cs) d isLong))"
  by auto
termination
proof (relation "measure (\<lambda>(e, cs, d, isLong). length cs)")
  fix e :: cm_expr and cs :: "switchEntry list" and d :: int and isLong :: bool and mid
  assume "length cs \<noteq> 0" "length cs \<noteq> 1" "mid = length cs div 2"
  moreover from this have "2 \<le> length cs" by linarith
  ultimately have "0 < mid" "mid < length cs" by auto
  then show "((e, take mid cs, d, isLong), e, cs, d, isLong) \<in> measure (\<lambda>(e, cs, d, isLong). length cs)"
    and "((e, drop mid cs, d, isLong), e, cs, d, isLong) \<in> measure (\<lambda>(e, cs, d, isLong). length cs)" by auto
qed simp

declare transformBinaryRecursive.simps [simp del]

definition TransformSwitchBinary :: "cm_expr \<Rightarrow> switchAnalysis \<Rightarrow> cm_stmt" where
  "TransformSwitchBinary e an =
     (if sa_cases an = [] then Sexit_cm (sa_default an)
      else transformBinaryRecursive e (sa_cases an) (sa_default an) (sa_isLong an))"

text \<open>The slice for the table is made with the capacity \<open>rangeSize\<close>; a negative one panics.\<close>

definition caseMap :: "switchEntry list \<Rightarrow> int64 \<rightharpoonup> int" where
  "caseMap cs = fold (\<lambda>c m. m(sc_value c \<mapsto> sc_exit c)) cs Map.empty"

definition table :: "switchEntry list \<Rightarrow> int64 \<Rightarrow> int64 \<Rightarrow> cm_switchCase list" where
  "table cs minVal rangeSize = concat (map (\<lambda>i. case caseMap cs (wrap64 (minVal + i)) of
     Some n \<Rightarrow> [SwitchCase_cm i (Sexit_cm n)] | None \<Rightarrow> []) [0..rangeSize - 1])"

definition TransformSwitchJumpTable :: "cm_expr \<Rightarrow> switchAnalysis \<Rightarrow> cm_stmt option" where
  "TransformSwitchJumpTable e an =
     (if sa_cases an = [] then Some (Sexit_cm (sa_default an))
      else let normalizedExpr = (if sa_minVal an = 0 then e
                  else Ebinop_cm (subtractOp (sa_isLong an)) e (makeConstant (sa_minVal an) (sa_isLong an)));
               rangeSize = wrap64 (sa_maxVal an - sa_minVal an + 1)
           in if rangeSize < 0 then None
              else Some (Sswitch_cm (sa_isLong an) normalizedExpr (table (sa_cases an) (sa_minVal an) rangeSize)
                     (Sexit_cm (sa_default an))))"

definition TransformSwitch :: "bool \<Rightarrow> cm_expr \<Rightarrow> cm_switchCase list \<Rightarrow> int \<Rightarrow> cm_stmt option" where
  "TransformSwitch isLong e cs defaultExit =
     (let an = AnalyzeSwitch isLong cs defaultExit in
      case sa_strategy an of
        StrategyLinear \<Rightarrow> Some (TransformSwitchLinear e an)
      | StrategyBinary \<Rightarrow> Some (TransformSwitchBinary e an)
      | StrategyJumpTable \<Rightarrow> TransformSwitchJumpTable e an)"

section \<open>The tests\<close>

text \<open>The number that a switch looks for, and what it finds among cases.\<close>

definition key :: "bool \<Rightarrow> w64 \<Rightarrow> int" where
  "key isLong w = (if isLong then sint w else sint (lo w))"

definition in_range :: "bool \<Rightarrow> int \<Rightarrow> bool" where
  "in_range isLong v \<longleftrightarrow> (if isLong then - (2 ^ 63) \<le> v \<and> v < 2 ^ 63 else - (2 ^ 31) \<le> v \<and> v < 2 ^ 31)"

definition entries :: "switchEntry list \<Rightarrow> int \<rightharpoonup> int" where
  "entries cs = map_of (map (\<lambda>c. (sc_value c, sc_exit c)) cs)"

definition found :: "switchEntry list \<Rightarrow> int \<Rightarrow> int \<Rightarrow> int" where
  "found cs d x = (case entries cs x of None \<Rightarrow> d | Some n \<Rightarrow> n)"

lemma sint_in_range:
  "- (2 ^ 31) \<le> v \<Longrightarrow> v < 2 ^ 31 \<Longrightarrow> sint (of_int v :: w32) = v"
  "- (2 ^ 63) \<le> v \<Longrightarrow> v < 2 ^ 63 \<Longrightarrow> sint (of_int v :: w64) = v"
  by (simp_all add: signed_of_int signed_take_bit_int_eq_self)

lemma of_int_wrap32 [simp]: "(of_int (wrap32 n) :: w32) = of_int n"
  by (simp add: wrap32_def)

lemma lo_01: "lo 0 = 0" "lo 1 = 1"
  by (simp_all add: lo_def)

lemma match_key: "in_range isLong v \<Longrightarrow> (if isLong then w = of_int v else lo w = of_int v) \<longleftrightarrow> key isLong w = v"
  by (auto simp: key_def in_range_def word_eq_iff_signed [where 'a = int] sint_in_range)

lemma constant_key:
  "cm_eval T sv env m (makeConstant v isLong) = Some (Some (if isLong then of_int v else zx (of_int v)))"
  by (simp add: makeConstant_def)

lemma tested_key:
  assumes "cm_eval T sv env m e = Some (Some w)" "in_range isLong v"
  shows "cm_cond T sv env m (makeComparison e v isLong) = Some (key isLong w = v)"
    and "cm_cond T sv env m (makeLessThan e v isLong) = Some (key isLong w < v)"
  using assms by (cases isLong; auto simp: makeComparison_def makeLessThan_def constant_key known2_def key_def in_range_def
      sint_in_range lo_01)+

section \<open>The three strategies\<close>

definition keys_ok :: "bool \<Rightarrow> switchEntry list \<Rightarrow> bool" where
  "keys_ok isLong cs \<longleftrightarrow> (\<forall>c\<in>set cs. in_range isLong (sc_value c)) \<and> distinct (map sc_value cs)"

lemma found_simps [simp]:
  "found [] d x = d" "found (c # cs) d x = (if x = sc_value c then sc_exit c else found cs d x)"
  by (auto simp: found_def entries_def)

lemma found_append: "found (cs @ cs') d x = found cs (found cs' d x) x"
  by (induction cs) auto

lemma found_none: "x \<notin> sc_value ` set cs \<Longrightarrow> found cs d x = d"
  by (induction cs) auto

lemma if_steps:
  assumes "cm_cond T sv env m c = Some t" "(cm_step T E sv body)\<^sup>*\<^sup>* (MStmt (if t then a else b) k env m) s'"
  shows "(cm_step T E sv body)\<^sup>*\<^sup>* (MStmt (Sifthenelse_cm c a b) k env m) s'"
  using cm_ifthenelse [OF assms(1)] assms(2) by (rule converse_rtranclp_into_rtranclp)

lemma cascade_finds:
  assumes "cm_eval T sv env m e = Some (Some w)"
  shows "\<forall>c\<in>set cs. in_range isLong (sc_value c) \<Longrightarrow>
    (cm_step T E sv body)\<^sup>*\<^sup>* (MStmt (cascade e cs d isLong) k env m) (MStmt (Sexit_cm (found cs d (key isLong w))) k env m)"
  by (induction cs) (auto intro!: if_steps tested_key(1) [OF assms])

lemma sorted_split:
  fixes f :: "'a \<Rightarrow> int"
  assumes "sorted (map f xs)" "distinct (map f xs)" "mid < length xs"
  shows "(\<forall>x\<in>set (take mid xs). f x < f (xs ! mid)) \<and> (\<forall>x\<in>set (drop mid xs). f (xs ! mid) \<le> f x)"
proof -
  define l r where "l = take mid xs" and "r = drop (Suc mid) xs"
  have "xs = l @ xs ! mid # r" and "drop mid xs = xs ! mid # r"
    using assms(3) by (simp_all add: l_def r_def id_take_nth_drop [symmetric] Cons_nth_drop_Suc)
  moreover have "sorted (map f (l @ y # r)) \<Longrightarrow> distinct (map f (l @ y # r)) \<Longrightarrow>
    (\<forall>x\<in>set l. f x < f y) \<and> (\<forall>x\<in>set (y # r). f y \<le> f x)" for y
    by (auto simp: sorted_append less_le) (metis imageI)
  ultimately show ?thesis using assms(1,2) unfolding l_def by metis
qed

lemma binary_finds:
  assumes "cm_eval T sv env m e = Some (Some w)"
  shows "sorted (map sc_value cs) \<Longrightarrow> keys_ok isLong cs \<Longrightarrow>
    (cm_step T E sv body)\<^sup>*\<^sup>* (MStmt (transformBinaryRecursive e cs d isLong) k env m)
      (MStmt (Sexit_cm (found cs d (key isLong w))) k env m)"
proof (induction cs rule: length_induct)
  case (1 cs)
  note step = transformBinaryRecursive.simps [of e cs d isLong]
  consider "cs = []" | c where "cs = [c]" | "2 \<le> length cs" by (cases cs; cases "tl cs") auto
  then show ?case
  proof cases
    case 1
    then show ?thesis using step by simp
  next
    case (2 c)
    with 1(3) show ?thesis using step by (auto simp: keys_ok_def intro!: if_steps tested_key(1) [OF assms])
  next
    case 3
    define mid where "mid = length cs div 2"
    have mid: "0 < mid" "mid < length cs" using 3 by (auto simp: mid_def)
    define p where "p = sc_value (cs ! mid)"
    let ?l = "take mid cs" and ?r = "drop mid cs"
    have code: "transformBinaryRecursive e cs d isLong =
      Sifthenelse_cm (makeLessThan e p isLong) (transformBinaryRecursive e ?l d isLong) (transformBinaryRecursive e ?r d isLong)"
      using step 3 by (auto simp: mid_def p_def Let_def)
    have p: "in_range isLong p" using 1(3) mid by (auto simp: keys_ok_def p_def)
    have ok: "keys_ok isLong ?l" "keys_ok isLong ?r" "sorted (map sc_value ?l)" "sorted (map sc_value ?r)"
      using 1(2,3) by (auto simp: keys_ok_def take_map [symmetric] drop_map [symmetric] sorted_wrt_take sorted_wrt_drop
          dest: in_set_takeD in_set_dropD)
    have lr: "\<forall>c\<in>set ?l. sc_value c < p" "\<forall>c\<in>set ?r. p \<le> sc_value c"
      using sorted_split [OF 1(2) _ mid(2)] 1(3) by (auto simp: keys_ok_def p_def)
    have split: "found cs d x = (if x < p then found ?l d x else found ?r d x)" for x
    proof -
      have "x \<notin> sc_value ` set ?r" if "x < p" using that lr by fastforce
      moreover have "x \<notin> sc_value ` set ?l" if "\<not> x < p" using that lr by fastforce
      ultimately show ?thesis using found_append [of ?l ?r d x] by (auto simp: found_none)
    qed
    have "(cm_step T E sv body)\<^sup>*\<^sup>* (MStmt (if key isLong w < p then transformBinaryRecursive e ?l d isLong
        else transformBinaryRecursive e ?r d isLong) k env m) (MStmt (Sexit_cm (found cs d (key isLong w))) k env m)"
      using 1(1) [rule_format, of ?l] 1(1) [rule_format, of ?r] mid ok by (simp add: split)
    with code show ?thesis by (simp add: if_steps [OF tested_key(2) [OF assms p]])
  qed
qed

lemma entries_simps:
  "entries [] x = None" "entries (c # cs) x = (if x = sc_value c then Some (sc_exit c) else entries cs x)"
  by (auto simp: entries_def)

lemma entries_None: "x \<notin> sc_value ` set cs \<Longrightarrow> entries cs x = None"
  by (induction cs) (auto simp: entries_simps)

lemma caseMap_entries:
  assumes "distinct (map sc_value cs)"
  shows "caseMap cs x = entries cs x"
proof -
  have "distinct (map sc_value cs) \<Longrightarrow>
    fold (\<lambda>c m. m(sc_value c \<mapsto> sc_exit c)) cs m x = (if x \<in> sc_value ` set cs then entries cs x else m x)" for m
    by (induction cs arbitrary: m) (auto simp: entries_simps)
  with assms show ?thesis by (auto simp: caseMap_def entries_None)
qed

lemma table_target:
  assumes "\<forall>i\<in>set is. (if isLong then w = of_int i else lo w = of_int i) \<longleftrightarrow> x = lowest + i"
  shows "cm_switch_target isLong w (concat (map (\<lambda>i. case M (lowest + i) of
      Some n \<Rightarrow> [SwitchCase_cm i (Sexit_cm n)] | None \<Rightarrow> []) is)) (Sexit_cm d) =
    Sexit_cm (if x \<in> (+) lowest ` set is then case M x of Some n \<Rightarrow> n | None \<Rightarrow> d else d)"
  using assms by (induction "is") (auto split: option.splits)

lemma wrap64_id: "- (2 ^ 63) \<le> n \<Longrightarrow> n < 2 ^ 63 \<Longrightarrow> wrap64 n = n"
  by (simp add: wrap64_def sint_in_range(2))

lemma wrap64_positive:
  assumes "1 \<le> n" "n \<le> 2 ^ 64" "0 < wrap64 n"
  shows "wrap64 n = n"
proof (cases "n < 2 ^ 63")
  case False
  have "(of_int (2 ^ 64) :: w64) = 0" using word_of_int_2p_len [where 'a = 64] by simp
  then have "wrap64 n = wrap64 (n - 2 ^ 64)" by (simp only: wrap64_def of_int_diff diff_zero)
  also have "\<dots> = n - 2 ^ 64" using False assms(2) by (intro wrap64_id) auto
  finally show ?thesis using assms(2,3) by simp
qed (use assms in \<open>simp add: wrap64_id\<close>)

lemma normalized_match:
  assumes "cm_eval T sv env m e = Some (Some w)" "in_range isLong (lowest + i)"
    and "cm_eval T sv env m (if lowest = 0 then e else Ebinop_cm (subtractOp isLong) e (makeConstant lowest isLong)) = Some (Some w')"
  shows "(if isLong then w' = of_int i else lo w' = of_int i) \<longleftrightarrow> key isLong w = lowest + i"
proof -
  have "(if isLong then w' = of_int i else lo w' = of_int i) \<longleftrightarrow>
      (if isLong then w = of_int (lowest + i) else lo w = of_int (lowest + i))"
    using assms(1,3) by (auto simp: subtractOp_def constant_key known2_def algebra_simps split: if_splits)
  with match_key [OF assms(2)] show ?thesis by simp
qed

lemma normalized_known:
  assumes "cm_eval T sv env m e = Some (Some w)"
  shows "\<exists>w'. cm_eval T sv env m (if lowest = 0 then e else Ebinop_cm (subtractOp isLong) e (makeConstant lowest isLong)) = Some (Some w')"
  using assms by (auto simp: subtractOp_def constant_key known2_def)

lemma table_finds:
  assumes ev: "cm_eval T sv env m e = Some (Some w)" and ok: "keys_ok (sa_isLong an) (sa_cases an)"
    and bounds: "\<forall>c\<in>set (sa_cases an). sa_minVal an \<le> sc_value c \<and> sc_value c \<le> sa_maxVal an"
    and ends: "in_range (sa_isLong an) (sa_minVal an)" "in_range (sa_isLong an) (sa_maxVal an)"
    and range: "sa_cases an \<noteq> []" "0 < wrap64 (sa_maxVal an - sa_minVal an + 1)"
  shows "\<exists>s. TransformSwitchJumpTable e an = Some s \<and> (cm_step T E sv body)\<^sup>*\<^sup>* (MStmt s k env m)
    (MStmt (Sexit_cm (found (sa_cases an) (sa_default an) (key (sa_isLong an) w))) k env m)"
proof -
  define lowest highest isLong where "lowest = sa_minVal an" and "highest = sa_maxVal an" and "isLong = sa_isLong an"
  let ?e = "if lowest = 0 then e else Ebinop_cm (subtractOp isLong) e (makeConstant lowest isLong)"
  let ?x = "key isLong w" and ?is = "[0..highest - lowest]"
  from ends have lh: "- (2 ^ 63) \<le> lowest" "highest < 2 ^ 63" "in_range isLong lowest" "in_range isLong highest"
    by (auto simp: in_range_def lowest_def highest_def isLong_def split: if_splits)
  from range(1) bounds have "lowest \<le> highest" unfolding lowest_def highest_def by (cases "sa_cases an") auto
  with lh range(2) have size: "wrap64 (highest - lowest + 1) = highest - lowest + 1"
    by (intro wrap64_positive) (auto simp: lowest_def highest_def)
  obtain w' where w': "cm_eval T sv env m ?e = Some (Some w')" using normalized_known [OF ev] by blast
  have inside: "in_range isLong (lowest + i) \<and> wrap64 (lowest + i) = lowest + i" if "i \<in> set ?is" for i
    using that lh by (auto simp: in_range_def split: if_splits intro!: wrap64_id)
  have "table (sa_cases an) lowest (highest - lowest + 1) = concat (map (\<lambda>i. case entries (sa_cases an) (lowest + i) of
      Some n \<Rightarrow> [SwitchCase_cm i (Sexit_cm n)] | None \<Rightarrow> []) ?is)"
    unfolding table_def using ok inside by (intro arg_cong [where f = concat] map_cong) (auto simp: keys_ok_def caseMap_entries)
  moreover have "\<forall>i\<in>set ?is. (if isLong then w' = of_int i else lo w' = of_int i) \<longleftrightarrow> ?x = lowest + i"
    using normalized_match [OF ev _ w'] inside by blast
  ultimately have target: "cm_switch_target isLong w' (table (sa_cases an) lowest (highest - lowest + 1)) (Sexit_cm (sa_default an)) =
      Sexit_cm (if ?x \<in> (+) lowest ` set ?is then found (sa_cases an) (sa_default an) ?x else sa_default an)"
    by (simp only: table_target found_def)
  have "?x \<notin> sc_value ` set (sa_cases an)" if "?x \<notin> (+) lowest ` set ?is"
    using that bounds by (auto simp: lowest_def highest_def image_iff)
  with target have "cm_switch_target isLong w' (table (sa_cases an) lowest (highest - lowest + 1)) (Sexit_cm (sa_default an)) =
      Sexit_cm (found (sa_cases an) (sa_default an) ?x)" by (auto simp: found_none)
  with cm_switch [OF w', of E body isLong "table (sa_cases an) lowest (highest - lowest + 1)" "Sexit_cm (sa_default an)" k] size range(1)
  show ?thesis using \<open>lowest \<le> highest\<close>
    by (auto simp: TransformSwitchJumpTable_def Let_def lowest_def [symmetric] highest_def [symmetric] isLong_def [symmetric])
qed

section \<open>Properties\<close>

fun case_value :: "cm_switchCase \<Rightarrow> int64" where
  "case_value (SwitchCase_cm v a) = v"

lemma entry_value [simp]: "sc_value (entry_of c) = case_value c"
  by (cases c) simp

lemma found_in: "distinct (map sc_value cs) \<Longrightarrow> c \<in> set cs \<Longrightarrow> found cs d (sc_value c) = sc_exit c"
  by (induction cs) (auto simp: rev_image_eqI)

lemma sorted_distinct: "distinct (map f xs) \<Longrightarrow> distinct (map f (sort_key f xs))"
  by (simp add: distinct_map)

lemma found_sorted:
  assumes "distinct (map sc_value cs)"
  shows "found (sort_key sc_value cs) d x = found cs d x"
proof (cases "x \<in> sc_value ` set cs")
  case True
  then obtain c where "c \<in> set cs" "x = sc_value c" by auto
  moreover note sorted_distinct [OF assms]
  ultimately show ?thesis using assms by (simp add: found_in)
qed (simp add: found_none)

lemma switch_found:
  "\<forall>c\<in>set cs. in_range isLong (case_value c) \<Longrightarrow>
    extractExitDepth (cm_switch_target isLong w cs (Sexit_cm d)) = found (map entry_of cs) d (key isLong w)"
proof (induction cs)
  case (Cons c cs)
  then show ?case by (cases c) (auto simp: match_key)
qed simp

lemma analyzed:
  assumes "distinct (map case_value cs)" "\<forall>c\<in>set cs. in_range isLong (case_value c)" "an = AnalyzeSwitch isLong cs d"
  shows "keys_ok isLong (sa_cases an)" "sorted (map sc_value (sa_cases an))" "sa_isLong an = isLong" "sa_default an = d"
    and "found (sa_cases an) d x = found (map entry_of cs) d x"
    and "sa_cases an \<noteq> [] \<Longrightarrow> sa_minVal an = sc_value (hd (sa_cases an)) \<and> sa_maxVal an = sc_value (last (sa_cases an))"
    and "sa_strategy an = StrategyJumpTable \<Longrightarrow> sa_cases an \<noteq> [] \<and> 0 < wrap64 (sa_maxVal an - sa_minVal an + 1)"
proof -
  have d: "distinct (map sc_value (map entry_of cs))" using assms(1) by (simp add: comp_def)
  then show "found (sa_cases an) d x = found (map entry_of cs) d x"
    by (simp add: assms(3) AnalyzeSwitch_def Let_def found_sorted)
  from sorted_distinct [OF d] have "distinct (map sc_value (sort_key sc_value (map entry_of cs)))" .
  with assms(2,3) show "keys_ok isLong (sa_cases an)" by (auto simp: AnalyzeSwitch_def Let_def keys_ok_def)
qed (auto simp: assms(3) AnalyzeSwitch_def Let_def selectStrategy_def split: if_splits)

lemma sorted_bounds:
  assumes "sorted (map f xs)" "x \<in> set xs"
  shows "f (hd xs) \<le> f x \<and> f x \<le> f (last xs)"
  using assms by (induction xs) auto

lemma strategies_find:
  assumes "distinct (map case_value cs)" "\<forall>c\<in>set cs. in_range isLong (case_value c)" "cm_eval T sv env m e = Some (Some w)"
  shows "\<exists>s. TransformSwitch isLong e cs d = Some s \<and> (cm_step T E sv body)\<^sup>*\<^sup>* (MStmt s k env m)
    (MStmt (Sexit_cm (extractExitDepth (cm_switch_target isLong w cs (Sexit_cm d)))) k env m)"
proof -
  define an where "an = AnalyzeSwitch isLong cs d"
  note an = analyzed [OF assms(1,2) an_def]
  have target: "extractExitDepth (cm_switch_target isLong w cs (Sexit_cm d)) = found (sa_cases an) d (key isLong w)"
    using switch_found [OF assms(2)] an(5) by simp
  show ?thesis
  proof (cases "sa_strategy an")
    case StrategyLinear
    then show ?thesis using cascade_finds [OF assms(3), of "sa_cases an" isLong] an(1,3,4)
      by (auto simp: TransformSwitch_def an_def [symmetric] TransformSwitchLinear_def target keys_ok_def)
  next
    case StrategyBinary
    then show ?thesis using binary_finds [OF assms(3) an(2,1)] an(3,4)
      by (auto simp: TransformSwitch_def an_def [symmetric] TransformSwitchBinary_def target)
  next
    case StrategyJumpTable
    from an(7) [OF this] have ne: "sa_cases an \<noteq> []" and pos: "0 < wrap64 (sa_maxVal an - sa_minVal an + 1)" by auto
    note ends = an(6) [OF ne]
    have "in_range isLong (sa_minVal an)" "in_range isLong (sa_maxVal an)"
      using ends an(1) ne by (auto simp: keys_ok_def)
    from table_finds [OF assms(3), of an E body k] this sorted_bounds [OF an(2)] ends ne pos an(1,3,4) StrategyJumpTable
    show ?thesis by (auto simp: TransformSwitch_def an_def [symmetric] target)
  qed
qed

lemma behaves_after:
  assumes "(cm_step T E sv body)\<^sup>*\<^sup>* s t"
  shows "behaves (cm_step T E sv body) cm_final s b \<longleftrightarrow> behaves (cm_step T E sv body) cm_final t b"
proof
  assume s: "behaves (cm_step T E sv body) cm_final s b"
  obtain b' where b': "behaves (cm_step T E sv body) cm_final t b'" using cminor.behaves_exists by blast
  from cminor.behaves_unique [OF s behaves_star [OF assms b']] b' show "behaves (cm_step T E sv body) cm_final t b" by simp
qed (rule behaves_star [OF assms])

fun exits_only :: "cm_switchCase \<Rightarrow> bool" where
  "exits_only (SwitchCase_cm v (Sexit_cm n)) \<longleftrightarrow> True"
| "exits_only _ \<longleftrightarrow> False"

lemma target_exit: "list_all exits_only cs \<Longrightarrow> \<exists>n. cm_switch_target isLong w cs (Sexit_cm d) = Sexit_cm n"
  by (induction cs) (auto elim!: exits_only.elims)

text \<open>
  Property C38. Simplifying a switch does not change what it does, whichever strategy is chosen: for distinct
  case values in the range of the switch, cases and default that leave by \<open>Sexit\<close>, and a selector with a
  value, the simplification returns a statement with exactly the behaviours of the switch.
\<close>

theorem TransformSwitch_correct:
  assumes "distinct (map case_value cs)" and "\<forall>c\<in>set cs. in_range isLong (case_value c)" and "list_all exits_only cs"
    and "cm_eval T sv env m e = Some (Some w)"
  shows "\<exists>s. TransformSwitch isLong e cs d = Some s \<and> (\<forall>b. behaves (cm_step T E sv body) cm_final (MStmt s k env m) b \<longleftrightarrow>
    behaves (cm_step T E sv body) cm_final (MStmt (Sswitch_cm isLong e cs (Sexit_cm d)) k env m) b)"
proof -
  obtain n where n: "cm_switch_target isLong w cs (Sexit_cm d) = Sexit_cm n" using target_exit [OF assms(3)] by blast
  then have "cm_step T E sv body (MStmt (Sswitch_cm isLong e cs (Sexit_cm d)) k env m) (MStmt (Sexit_cm n) k env m)"
    using cm_switch [OF assms(4), of E body isLong cs "Sexit_cm d" k] by simp
  moreover obtain s where s: "TransformSwitch isLong e cs d = Some s"
    "(cm_step T E sv body)\<^sup>*\<^sup>* (MStmt s k env m) (MStmt (Sexit_cm n) k env m)"
    using strategies_find [OF assms(1,2,4), of d E body k] n by auto
  ultimately have "behaves (cm_step T E sv body) cm_final (MStmt s k env m) b \<longleftrightarrow>
    behaves (cm_step T E sv body) cm_final (MStmt (Sswitch_cm isLong e cs (Sexit_cm d)) k env m) b" for b
    using behaves_after by (metis r_into_rtranclp)
  with s(1) show ?thesis by blast
qed

definition five_cases :: "cm_switchCase list" where
  "five_cases = map (\<lambda>v. SwitchCase_cm v (Sexit_cm (v + 10))) [7, -3, 4, 5, 6]"

theorem TransformSwitch_correct_witness:
  "\<forall>T E m. \<exists>s. TransformSwitch False (Evar_cm ''x'') five_cases 0 = Some s \<and>
    (\<forall>b. behaves (cm_step T E Map.empty Sskip_cm) cm_final (MStmt s Kstop_cm [''x'' \<mapsto> Some 5] m) b \<longleftrightarrow>
      behaves (cm_step T E Map.empty Sskip_cm) cm_final
        (MStmt (Sswitch_cm False (Evar_cm ''x'') five_cases (Sexit_cm 0)) Kstop_cm [''x'' \<mapsto> Some 5] m) b)"
proof (intro allI)
  fix T E m
  have "distinct (map case_value five_cases)" "\<forall>c\<in>set five_cases. in_range False (case_value c)" "list_all exits_only five_cases"
    by (simp_all add: five_cases_def in_range_def)
  moreover have "cm_eval T Map.empty [''x'' \<mapsto> Some 5] m (Evar_cm ''x'') = Some (Some 5)" by (simp add: cm_var_def)
  ultimately show "\<exists>s. TransformSwitch False (Evar_cm ''x'') five_cases 0 = Some s \<and>
    (\<forall>b. behaves (cm_step T E Map.empty Sskip_cm) cm_final (MStmt s Kstop_cm [''x'' \<mapsto> Some 5] m) b \<longleftrightarrow>
      behaves (cm_step T E Map.empty Sskip_cm) cm_final
        (MStmt (Sswitch_cm False (Evar_cm ''x'') five_cases (Sexit_cm 0)) Kstop_cm [''x'' \<mapsto> Some 5] m) b)"
    by (rule TransformSwitch_correct)
qed

end
