(* ===== verification/Ctypes.thy ===== *)
theory Ctypes
  imports Prelude
begin

text \<open>
  The types of C (\<open>pkg/ctypes/types.go\<close>), which the signatures of Csharpminor carry. A missing type (a nil
  interface) is \<open>None\<close>. The constructors end in \<open>_c\<close>, since the back end uses the same names for the types of
  registers.
\<close>

datatype signedness = Signed | Unsigned

datatype intSize = I8 | I16 | I32 | IBool

datatype floatSize = F32 | F64

datatype ctype =
    Tvoid_c
  | Tint_c intSize signedness
  | Tlong_c signedness
  | Tfloat_c floatSize
  | Tpointer_c "ctype option"
  | Tarray_c "ctype option" int64
  | Tfunction_c "ctype option list" "ctype option" bool
  | Tstruct_c string "field list"
  | Tunion_c string "field list"
and field = Field string "ctype option"

fun int_name :: "intSize \<Rightarrow> signedness \<Rightarrow> string" where
  "int_name I8 sg = (if sg = Unsigned then ''unsigned '' else []) @ ''char''"
| "int_name I16 sg = (if sg = Unsigned then ''unsigned '' else []) @ ''short''"
| "int_name I32 sg = (if sg = Unsigned then ''unsigned '' else []) @ ''int''"
| "int_name IBool sg = ''_Bool''"

fun type_String :: "ctype \<Rightarrow> string" where
  "type_String Tvoid_c = ''void''"
| "type_String (Tint_c sz sg) = int_name sz sg"
| "type_String (Tlong_c sg) = (if sg = Unsigned then ''unsigned long'' else ''long'')"
| "type_String (Tfloat_c sz) = (if sz = F32 then ''float'' else ''double'')"
| "type_String (Tpointer_c None) = ''void *''"
| "type_String (Tpointer_c (Some t)) = type_String t @ '' *''"
| "type_String (Tarray_c None n) = ''?[]''"
| "type_String (Tarray_c (Some t) n) = type_String t @ (if n < 0 then ''[]'' else ''[...]'')"
| "type_String (Tfunction_c _ _ _) = ''function''"
| "type_String (Tstruct_c name _) = (if name = [] then ''struct <anonymous>'' else ''struct '' @ name)"
| "type_String (Tunion_c name _) = (if name = [] then ''union <anonymous>'' else ''union '' @ name)"

definition Int_c :: ctype where "Int_c = Tint_c I32 Signed"
definition UInt_c :: ctype where "UInt_c = Tint_c I32 Unsigned"
definition Char_c :: ctype where "Char_c = Tint_c I8 Signed"
definition UChar_c :: ctype where "UChar_c = Tint_c I8 Unsigned"
definition Short_c :: ctype where "Short_c = Tint_c I16 Signed"
definition Long_c :: ctype where "Long_c = Tlong_c Signed"
definition Float_c :: ctype where "Float_c = Tfloat_c F32"
definition Double_c :: ctype where "Double_c = Tfloat_c F64"

text \<open>
  Structures and unions are equal when their names are. Two missing types are equal; a missing one is equal
  to no other.
\<close>

fun type_Equal :: "ctype \<Rightarrow> ctype \<Rightarrow> bool" where
  "type_Equal Tvoid_c b \<longleftrightarrow> (case b of Tvoid_c \<Rightarrow> True | _ \<Rightarrow> False)"
| "type_Equal (Tint_c sz sg) b \<longleftrightarrow> (case b of Tint_c sz' sg' \<Rightarrow> sz = sz' \<and> sg = sg' | _ \<Rightarrow> False)"
| "type_Equal (Tlong_c sg) b \<longleftrightarrow> (case b of Tlong_c sg' \<Rightarrow> sg = sg' | _ \<Rightarrow> False)"
| "type_Equal (Tfloat_c sz) b \<longleftrightarrow> (case b of Tfloat_c sz' \<Rightarrow> sz = sz' | _ \<Rightarrow> False)"
| "type_Equal (Tpointer_c t) b \<longleftrightarrow> (case b of Tpointer_c t' \<Rightarrow> rel_option type_Equal t t' | _ \<Rightarrow> False)"
| "type_Equal (Tarray_c t n) b \<longleftrightarrow> (case b of Tarray_c t' n' \<Rightarrow> n = n' \<and> rel_option type_Equal t t' | _ \<Rightarrow> False)"
| "type_Equal (Tstruct_c name fs) b \<longleftrightarrow> (case b of Tstruct_c name' _ \<Rightarrow> name = name' | _ \<Rightarrow> False)"
| "type_Equal (Tunion_c name fs) b \<longleftrightarrow> (case b of Tunion_c name' _ \<Rightarrow> name = name' | _ \<Rightarrow> False)"
| "type_Equal (Tfunction_c ps r va) b \<longleftrightarrow> (case b of
     Tfunction_c ps' r' va' \<Rightarrow> va = va' \<and> rel_option type_Equal r r' \<and> list_all2 (rel_option type_Equal) ps ps'
   | _ \<Rightarrow> False)"

text \<open>The comparison is an equivalence.\<close>

lemma type_Equal_refl_field: "type_Equal t t" "fld = (fld :: field)"
  by (induction t and fld rule: ctype.induct field.induct) (auto intro!: option.rel_refl_strong list.rel_refl_strong)

lemma list_all2_flip:
  "list_all2 P xs ys \<Longrightarrow> (\<And>x y. x \<in> set xs \<Longrightarrow> P x y \<Longrightarrow> Q y x) \<Longrightarrow> list_all2 Q ys xs"
  by (induction rule: list_all2_induct) auto

lemma rel_option_flip:
  "rel_option P x y \<Longrightarrow> (\<And>a b. a \<in> set_option x \<Longrightarrow> P a b \<Longrightarrow> Q b a) \<Longrightarrow> rel_option Q y x"
  by (cases x; cases y) auto

lemma type_Equal_sym_field: "type_Equal t u \<Longrightarrow> type_Equal u t" "fld = (fld :: field)"
proof (induction t and fld arbitrary: u rule: ctype.induct field.induct)
  case (Tpointer_c t)
  then show ?case by (cases t) (auto split: ctype.splits simp: option_rel_Some1)
next
  case (Tarray_c t n)
  then show ?case by (cases t) (auto split: ctype.splits simp: option_rel_Some1)
next
  case (Tfunction_c ps r va)
  from Tfunction_c.prems obtain ps' r' where u: "u = Tfunction_c ps' r' va" "rel_option type_Equal r r'"
    "list_all2 (rel_option type_Equal) ps ps'" by (auto split: ctype.splits)
  have "rel_option type_Equal r' r" using rel_option_flip [OF u(2)] Tfunction_c.IH(2) by blast
  moreover have "list_all2 (rel_option type_Equal) ps' ps"
  proof (rule list_all2_flip [OF u(3)])
    show "rel_option type_Equal y x" if "x \<in> set ps" "rel_option type_Equal x y" for x y
      using rel_option_flip [OF that(2)] Tfunction_c.IH(1) [OF that(1)] by blast
  qed
  ultimately show ?case using u(1) by simp
qed (auto split: ctype.splits)

end
