(* ===== verification/Csharpminor.thy ===== *)
theory Csharpminor
  imports Cminor Ctypes
begin

text \<open>
  The Csharpminor language (\<open>pkg/csharpminor/ast.go\<close>): numbered temporaries, local variables that may live in
  memory, and global variables read by name. Its constructors carry the suffix \<open>_sm\<close>; the operators are those
  of \<open>CminorSel\<close>, where they were introduced. A function is run under a placement that gives the locals kept
  in memory their offset in the stack block of the function; the placement is chosen by the next pass.
\<close>

datatype sm_const =
    Ointconst_sm int32
  | Ofloatconst_sm float64
  | Olongconst_sm int64
  | Osingleconst_sm float32
  | Oaddrsymbol_sm string int64

datatype sm_expr =
    Evar_sm string
  | Etempvar_sm int
  | Eaddrof_sm string
  | Econst_sm sm_const
  | Eunop_sm unaryOp sm_expr
  | Ebinop_sm binaryOp sm_expr sm_expr
  | Ecmp_sm binaryOp comparison sm_expr sm_expr
  | Eload_sm chunk sm_expr

record sm_sig =
  sm_args :: "ctype option list"
  sm_return :: "ctype option"
  sm_vararg :: bool

datatype sm_stmt =
    Sskip_sm
  | Sset_sm int sm_expr
  | Sstore_sm chunk sm_expr sm_expr
  | Scall_sm "int option" "sm_sig option" sm_expr "sm_expr list"
  | Stailcall_sm "sm_sig option" sm_expr "sm_expr list"
  | Sbuiltin_sm "int option" string "sm_expr list"
  | Sseq_sm sm_stmt sm_stmt
  | Sifthenelse_sm sm_expr sm_stmt sm_stmt
  | Sloop_sm sm_stmt
  | Sblock_sm sm_stmt
  | Sexit_sm int
  | Sswitch_sm bool sm_expr "sm_switchCase list" sm_stmt
  | Sreturn_sm "sm_expr option"
  | Slabel_sm string sm_stmt
  | Sgoto_sm string
and sm_switchCase = SwitchCase_sm int64 sm_stmt

record varDecl =
  vd_name :: string
  vd_size :: int64
  vd_init :: "nat list"
  vd_readOnly :: bool
  vd_signed :: bool

record sm_function =
  sm_name :: string
  sm_fsig :: sm_sig
  sm_params :: "string list"
  sm_locals :: "varDecl list"
  sm_temps :: "ctype option list"
  sm_body :: sm_stmt

record sm_program =
  sm_globals :: "varDecl list"
  sm_functions :: "sm_function list"

text \<open>\<open>Seq\<close> chains statements and drops empty ones.\<close>

definition Seq_sm :: "sm_stmt list \<Rightarrow> sm_stmt" where
  "Seq_sm stmts = fold (\<lambda>s result. if result = Sskip_sm then s else if s = Sskip_sm then result else Sseq_sm result s)
     stmts Sskip_sm"

fun ChunkForType :: "ctype \<Rightarrow> chunk" where
  "ChunkForType (Tint_c I8 sg) = (if sg = Signed then Mint8signed else Mint8unsigned)"
| "ChunkForType (Tint_c I16 sg) = (if sg = Signed then Mint16signed else Mint16unsigned)"
| "ChunkForType (Tint_c I32 sg) = Mint32"
| "ChunkForType (Tint_c IBool sg) = Mint32"
| "ChunkForType (Tlong_c sg) = Mint64"
| "ChunkForType (Tfloat_c sz) = (if sz = F32 then Mfloat32 else Mfloat64)"
| "ChunkForType (Tpointer_c t) = Mint64"
| "ChunkForType _ = Many32"

section \<open>Expressions\<close>

fun sm_word_const :: "target \<Rightarrow> sm_const \<Rightarrow> w64" where
  "sm_word_const T (Ointconst_sm n) = zx (of_int n)"
| "sm_word_const T (Ofloatconst_sm x) = of_int x"
| "sm_word_const T (Olongconst_sm n) = of_int n"
| "sm_word_const T (Osingleconst_sm x) = zx (of_int x)"
| "sm_word_const T (Oaddrsymbol_sm s n) = t_symbol T s + of_int n"

text \<open>How a variable is read: by its size and, below the size of an int, its sign.\<close>

definition access :: "varDecl \<Rightarrow> chunk" where
  "access d = (if vd_size d = 1 then if vd_signed d then Mint8signed else Mint8unsigned
     else if vd_size d = 2 then if vd_signed d then Mint16signed else Mint16unsigned
     else if vd_size d = 4 then Mint32 else if vd_size d = 8 then Mint64 else Many64)"

text \<open>
  What a function can name: its parameters with their values, its locals with the offsets of those that are
  in memory, and the global variables. Other names are functions. The inner declaration hides the outer one.
\<close>

record scope =
  sc_params :: "string \<rightharpoonup> val"
  sc_locals :: "string \<rightharpoonup> varDecl"
  sc_placed :: "string \<rightharpoonup> int64"
  sc_globals :: "string \<rightharpoonup> varDecl"

definition read_var :: "target \<Rightarrow> scope \<Rightarrow> mem \<Rightarrow> string \<Rightarrow> val option" where
  "read_var T S m x = (case sc_params S x of Some v \<Rightarrow> Some v
   | None \<Rightarrow> (case sc_locals S x of
       Some d \<Rightarrow> (case sc_placed S x of
           Some n \<Rightarrow> map_option Some (load_chunk (access d) (t_stack T + of_int n) m)
         | None \<Rightarrow> Some None)
     | None \<Rightarrow> (case sc_globals S x of
           Some d \<Rightarrow> map_option Some (load_chunk (access d) (t_symbol T x) m)
         | None \<Rightarrow> Some (Some (t_symbol T x)))))"

text \<open>A parameter has no address, nor has a local that is not in memory.\<close>

definition address_of :: "target \<Rightarrow> scope \<Rightarrow> string \<Rightarrow> w64 option" where
  "address_of T S x =
     (if sc_params S x \<noteq> None then None
      else if sc_locals S x \<noteq> None then map_option (\<lambda>n. t_stack T + of_int n) (sc_placed S x)
      else Some (t_symbol T x))"

type_synonym temps_env = "int \<rightharpoonup> val"

fun sm_eval :: "target \<Rightarrow> scope \<Rightarrow> temps_env \<Rightarrow> mem \<Rightarrow> sm_expr \<Rightarrow> val option" where
  "sm_eval T S tmp m (Evar_sm x) = read_var T S m x"
| "sm_eval T S tmp m (Etempvar_sm i) = tmp i"
| "sm_eval T S tmp m (Eaddrof_sm x) = map_option Some (address_of T S x)"
| "sm_eval T S tmp m (Econst_sm c) = Some (Some (sm_word_const T c))"
| "sm_eval T S tmp m (Eunop_sm uop a) = do {
     v \<leftarrow> sm_eval T S tmp m a;
     map_option Some (known1 (word_unop T uop) v)
   }"
| "sm_eval T S tmp m (Ebinop_sm bop a b) = do {
     v \<leftarrow> sm_eval T S tmp m a;
     w \<leftarrow> sm_eval T S tmp m b;
     map_option Some (known2 (word_binop T bop) v w)
   }"
| "sm_eval T S tmp m (Ecmp_sm bop c a b) = do {
     v \<leftarrow> sm_eval T S tmp m a;
     w \<leftarrow> sm_eval T S tmp m b;
     t \<leftarrow> known2 (word_cmp T bop c) v w;
     Some (Some (if t then 1 else 0))
   }"
| "sm_eval T S tmp m (Eload_sm ch a) = do {
     v \<leftarrow> sm_eval T S tmp m a;
     map_option Some (known1 (\<lambda>p. load_chunk ch p m) v)
   }"

primrec sm_eval_list :: "target \<Rightarrow> scope \<Rightarrow> temps_env \<Rightarrow> mem \<Rightarrow> sm_expr list \<Rightarrow> val list option" where
  "sm_eval_list T S tmp m [] = Some []"
| "sm_eval_list T S tmp m (e # es) = do {
     v \<leftarrow> sm_eval T S tmp m e;
     vs \<leftarrow> sm_eval_list T S tmp m es;
     Some (v # vs)
   }"

text \<open>Conditions, as in Cminor: the outermost operator says at which type the value is compared with zero.\<close>

fun sm_const_kind :: "sm_const \<Rightarrow> cm_kind" where
  "sm_const_kind (Ointconst_sm _) = Kint"
| "sm_const_kind (Ofloatconst_sm _) = Kfloat"
| "sm_const_kind (Olongconst_sm _) = Klong"
| "sm_const_kind (Osingleconst_sm _) = Ksingle"
| "sm_const_kind (Oaddrsymbol_sm _ _) = Klong"

definition var_kind :: "scope \<Rightarrow> string \<Rightarrow> cm_kind" where
  "var_kind S x = (case sc_params S x of Some _ \<Rightarrow> Kint
   | None \<Rightarrow> (case sc_locals S x of
       Some d \<Rightarrow> (case sc_placed S x of Some _ \<Rightarrow> chunk_kind (access d) | None \<Rightarrow> Kint)
     | None \<Rightarrow> (case sc_globals S x of Some d \<Rightarrow> chunk_kind (access d) | None \<Rightarrow> Kint)))"

fun sm_kind_of :: "scope \<Rightarrow> sm_expr \<Rightarrow> cm_kind" where
  "sm_kind_of S (Evar_sm x) = var_kind S x"
| "sm_kind_of S (Etempvar_sm _) = Kint"
| "sm_kind_of S (Eaddrof_sm _) = Klong"
| "sm_kind_of S (Econst_sm c) = sm_const_kind c"
| "sm_kind_of S (Eunop_sm uop _) = unop_kind uop"
| "sm_kind_of S (Ebinop_sm bop _ _) = binop_kind bop"
| "sm_kind_of S (Ecmp_sm _ _ _ _) = Kint"
| "sm_kind_of S (Eload_sm ch _) = chunk_kind ch"

fun sm_cond :: "target \<Rightarrow> scope \<Rightarrow> temps_env \<Rightarrow> mem \<Rightarrow> sm_expr \<Rightarrow> bool option" where
  "sm_cond T S tmp m (Eunop_sm uop a) =
     (if uop = Onotbool_cs then map_option Not (sm_cond T S tmp m a)
      else Option.bind (sm_eval T S tmp m (Eunop_sm uop a)) (map_option (truth T (unop_kind uop))))"
| "sm_cond T S tmp m e = Option.bind (sm_eval T S tmp m e) (map_option (truth T (sm_kind_of S e)))"

section \<open>Statements\<close>

datatype sm_cont = Kstop_sm | Kseq_sm sm_stmt sm_cont | Kblock_sm sm_cont

fun sm_find_label :: "string \<Rightarrow> sm_stmt \<Rightarrow> sm_cont \<Rightarrow> (sm_stmt \<times> sm_cont) option"
and sm_find_label_cases :: "string \<Rightarrow> sm_switchCase list \<Rightarrow> sm_cont \<Rightarrow> (sm_stmt \<times> sm_cont) option" where
  "sm_find_label l (Sseq_sm a b) k = (case sm_find_label l a (Kseq_sm b k) of
     Some r \<Rightarrow> Some r | None \<Rightarrow> sm_find_label l b k)"
| "sm_find_label l (Sifthenelse_sm c a b) k = (case sm_find_label l a k of
     Some r \<Rightarrow> Some r | None \<Rightarrow> sm_find_label l b k)"
| "sm_find_label l (Sloop_sm a) k = sm_find_label l a (Kseq_sm (Sloop_sm a) k)"
| "sm_find_label l (Sblock_sm a) k = sm_find_label l a (Kblock_sm k)"
| "sm_find_label l (Sswitch_sm isLong e cs d) k = (case sm_find_label_cases l cs k of
     Some r \<Rightarrow> Some r | None \<Rightarrow> sm_find_label l d k)"
| "sm_find_label l (Slabel_sm l' a) k = (if l = l' then Some (a, k) else sm_find_label l a k)"
| "sm_find_label l _ k = None"
| "sm_find_label_cases l [] k = None"
| "sm_find_label_cases l (SwitchCase_sm v a # cs) k = (case sm_find_label l a k of
     Some r \<Rightarrow> Some r | None \<Rightarrow> sm_find_label_cases l cs k)"

fun sm_switch_target :: "bool \<Rightarrow> w64 \<Rightarrow> sm_switchCase list \<Rightarrow> sm_stmt \<Rightarrow> sm_stmt" where
  "sm_switch_target isLong w [] d = d"
| "sm_switch_target isLong w (SwitchCase_sm v a # cs) d =
     (if (if isLong then w = of_int v else lo w = of_int v) then a else sm_switch_target isLong w cs d)"

text \<open>A name that is no parameter, local or variable is a function; so is the address of a symbol.\<close>

definition sm_callee :: "target \<Rightarrow> scope \<Rightarrow> temps_env \<Rightarrow> mem \<Rightarrow> sm_expr \<Rightarrow> val funVal option" where
  "sm_callee T S tmp m a = (case a of
     Econst_sm (Oaddrsymbol_sm s n) \<Rightarrow>
       if n = 0 then Some (FV_sym s) else Some (FV_ptr (Some (t_symbol T s + of_int n)))
   | Evar_sm x \<Rightarrow> if sc_params S x = None \<and> sc_locals S x = None \<and> sc_globals S x = None then Some (FV_sym x)
       else map_option FV_ptr (read_var T S m x)
   | Eaddrof_sm x \<Rightarrow> if sc_params S x = None \<and> sc_locals S x = None then Some (FV_sym x)
       else map_option (\<lambda>p. FV_ptr (Some p)) (address_of T S x)
   | _ \<Rightarrow> map_option FV_ptr (sm_eval T S tmp m a))"

text \<open>The types of a signature are only names for what follows.\<close>

fun typeDescriptor :: "ctype option \<Rightarrow> string" where
  "typeDescriptor None = ''void''"
| "typeDescriptor (Some t) = type_String t"

definition transformSig :: "sm_sig \<Rightarrow> sig" where
  "transformSig s = \<lparr>sig_args = map typeDescriptor (sm_args s), sig_return = typeDescriptor (sm_return s),
     sig_vararg = sm_vararg s\<rparr>"

definition set_temp :: "int option \<Rightarrow> val \<Rightarrow> temps_env \<Rightarrow> temps_env" where
  "set_temp i v tmp = (case i of None \<Rightarrow> tmp | Some j \<Rightarrow> tmp(j \<mapsto> v))"

definition temp_declared :: "int option \<Rightarrow> temps_env \<Rightarrow> bool" where
  "temp_declared i tmp \<longleftrightarrow> (case i of None \<Rightarrow> True | Some j \<Rightarrow> tmp j \<noteq> None)"

datatype sm_state =
    MinorStmt sm_stmt sm_cont temps_env mem
  | MinorFinal "(val, mem) outcome"

inductive sm_step :: "target \<Rightarrow> (val, mem) sem \<Rightarrow> scope \<Rightarrow> sm_stmt \<Rightarrow> sm_state \<Rightarrow> sm_state \<Rightarrow> bool"
  for T E S body where
  sm_skip_seq: "sm_step T E S body (MinorStmt Sskip_sm (Kseq_sm s k) tmp m) (MinorStmt s k tmp m)"
| sm_skip_block: "sm_step T E S body (MinorStmt Sskip_sm (Kblock_sm k) tmp m) (MinorStmt Sskip_sm k tmp m)"
| sm_skip_stop: "sm_step T E S body (MinorStmt Sskip_sm Kstop_sm tmp m) (MinorFinal (Returned None m))"
| sm_set: "sm_eval T S tmp m e = Some v \<Longrightarrow> temp_declared (Some i) tmp \<Longrightarrow>
    sm_step T E S body (MinorStmt (Sset_sm i e) k tmp m) (MinorStmt Sskip_sm k (tmp(i \<mapsto> v)) m)"
| sm_store: "sm_eval T S tmp m a = Some (Some p) \<Longrightarrow> sm_eval T S tmp m e = Some (Some w) \<Longrightarrow>
    store_chunk ch p w m = Some m' \<Longrightarrow>
    sm_step T E S body (MinorStmt (Sstore_sm ch a e) k tmp m) (MinorStmt Sskip_sm k tmp m')"
| sm_call: "sm_callee T S tmp m e = Some fv \<Longrightarrow> sm_eval_list T S tmp m args = Some vs \<Longrightarrow>
    n = sem_arity E (the_sig (map_option transformSig sg)) fv m \<Longrightarrow> n \<le> length vs \<Longrightarrow>
    sem_call E (the_sig (map_option transformSig sg)) fv (take n vs) m = Some (v, m') \<Longrightarrow> temp_declared i tmp \<Longrightarrow>
    sm_step T E S body (MinorStmt (Scall_sm i sg e args) k tmp m) (MinorStmt Sskip_sm k (set_temp i v tmp) m')"
| sm_tailcall: "sm_callee T S tmp m e = Some fv \<Longrightarrow> sm_eval_list T S tmp m args = Some vs \<Longrightarrow>
    n = sem_arity E (the_sig (map_option transformSig sg)) fv m \<Longrightarrow> n \<le> length vs \<Longrightarrow>
    sm_step T E S body (MinorStmt (Stailcall_sm sg e args) k tmp m)
      (MinorFinal (Tailcalled (the_sig (map_option transformSig sg)) fv (take n vs) m))"
| sm_builtin: "sm_eval_list T S tmp m args = Some vs \<Longrightarrow> sem_builtin E bf vs m = Some (v, m') \<Longrightarrow> temp_declared i tmp \<Longrightarrow>
    sm_step T E S body (MinorStmt (Sbuiltin_sm i bf args) k tmp m) (MinorStmt Sskip_sm k (set_temp i v tmp) m')"
| sm_seq: "sm_step T E S body (MinorStmt (Sseq_sm a b) k tmp m) (MinorStmt a (Kseq_sm b k) tmp m)"
| sm_ifthenelse: "sm_cond T S tmp m c = Some t \<Longrightarrow>
    sm_step T E S body (MinorStmt (Sifthenelse_sm c a b) k tmp m) (MinorStmt (if t then a else b) k tmp m)"
| sm_loop: "sm_step T E S body (MinorStmt (Sloop_sm a) k tmp m) (MinorStmt a (Kseq_sm (Sloop_sm a) k) tmp m)"
| sm_block: "sm_step T E S body (MinorStmt (Sblock_sm a) k tmp m) (MinorStmt a (Kblock_sm k) tmp m)"
| sm_exit_seq: "sm_step T E S body (MinorStmt (Sexit_sm n) (Kseq_sm s k) tmp m) (MinorStmt (Sexit_sm n) k tmp m)"
| sm_exit_block: "sm_step T E S body (MinorStmt (Sexit_sm 0) (Kblock_sm k) tmp m) (MinorStmt Sskip_sm k tmp m)"
| sm_exit_outer: "0 < n \<Longrightarrow>
    sm_step T E S body (MinorStmt (Sexit_sm n) (Kblock_sm k) tmp m) (MinorStmt (Sexit_sm (n - 1)) k tmp m)"
| sm_switch: "sm_eval T S tmp m e = Some (Some w) \<Longrightarrow>
    sm_step T E S body (MinorStmt (Sswitch_sm isLong e cs d) k tmp m) (MinorStmt (sm_switch_target isLong w cs d) k tmp m)"
| sm_return_void: "sm_step T E S body (MinorStmt (Sreturn_sm None) k tmp m) (MinorFinal (Returned None m))"
| sm_return: "sm_eval T S tmp m e = Some v \<Longrightarrow>
    sm_step T E S body (MinorStmt (Sreturn_sm (Some e)) k tmp m) (MinorFinal (Returned v m))"
| sm_label: "sm_step T E S body (MinorStmt (Slabel_sm l a) k tmp m) (MinorStmt a k tmp m)"
| sm_goto: "sm_find_label l body Kstop_sm = Some (a, k') \<Longrightarrow>
    sm_step T E S body (MinorStmt (Sgoto_sm l) k tmp m) (MinorStmt a k' tmp m)"

fun sm_final :: "sm_state \<Rightarrow> (val, mem) outcome \<Rightarrow> bool" where
  "sm_final (MinorFinal r) q \<longleftrightarrow> q = r"
| "sm_final (MinorStmt _ _ _ _) q \<longleftrightarrow> False"

text \<open>The temporaries that occur in a statement.\<close>

fun expr_temps :: "sm_expr \<Rightarrow> int list" where
  "expr_temps (Etempvar_sm i) = [i]"
| "expr_temps (Eunop_sm uop a) = expr_temps a"
| "expr_temps (Ebinop_sm bop a b) = expr_temps a @ expr_temps b"
| "expr_temps (Ecmp_sm bop c a b) = expr_temps a @ expr_temps b"
| "expr_temps (Eload_sm ch a) = expr_temps a"
| "expr_temps _ = []"

definition result_temps :: "int option \<Rightarrow> int list" where
  "result_temps i = (case i of None \<Rightarrow> [] | Some j \<Rightarrow> [j])"

fun used_temps :: "sm_stmt \<Rightarrow> int list" and case_temps :: "sm_switchCase list \<Rightarrow> int list" where
  "used_temps (Sset_sm i e) = i # expr_temps e"
| "used_temps (Sstore_sm ch a e) = expr_temps a @ expr_temps e"
| "used_temps (Scall_sm i sg f args) = expr_temps f @ concat (map expr_temps args) @ result_temps i"
| "used_temps (Stailcall_sm sg f args) = expr_temps f @ concat (map expr_temps args)"
| "used_temps (Sbuiltin_sm i bf args) = concat (map expr_temps args) @ result_temps i"
| "used_temps (Sseq_sm a b) = used_temps a @ used_temps b"
| "used_temps (Sifthenelse_sm c a b) = expr_temps c @ used_temps a @ used_temps b"
| "used_temps (Sloop_sm a) = used_temps a"
| "used_temps (Sblock_sm a) = used_temps a"
| "used_temps (Sswitch_sm isLong e cs d) = expr_temps e @ case_temps cs @ used_temps d"
| "used_temps (Sreturn_sm e) = (case e of None \<Rightarrow> [] | Some a \<Rightarrow> expr_temps a)"
| "used_temps (Slabel_sm l a) = used_temps a"
| "used_temps _ = []"
| "case_temps [] = []"
| "case_temps (SwitchCase_sm v a # cs) = used_temps a @ case_temps cs"

text \<open>The scope of a call, and its temporaries: those declared and those that occur, with nothing known in them.\<close>

definition decl_of :: "varDecl list \<Rightarrow> string \<rightharpoonup> varDecl" where
  "decl_of ds = map_of (map (\<lambda>d. (vd_name d, d)) ds)"

definition sm_scope :: "varDecl list \<Rightarrow> (string \<rightharpoonup> int64) \<Rightarrow> sm_function \<Rightarrow> val list \<Rightarrow> scope" where
  "sm_scope globals placed F vs = \<lparr>
     sc_params = (\<lambda>x. if x \<in> set (sm_params F) then Some (the (map_of (zip (sm_params F) vs) x)) else None),
     sc_locals = decl_of (sm_locals F), sc_placed = placed, sc_globals = decl_of globals\<rparr>"

definition sm_init_temps :: "sm_function \<Rightarrow> temps_env" where
  "sm_init_temps F = (\<lambda>i. if 0 \<le> i \<and> i < int (length (sm_temps F)) \<or> i \<in> set (used_temps (sm_body F)) then Some None else None)"

inductive_cases sm_step_stmtE: "sm_step T E S body (MinorStmt s k tmp m) t"
inductive_cases sm_step_finalE: "sm_step T E S body (MinorFinal r) t"

lemma sm_step_det: "sm_step T E S body s t \<Longrightarrow> sm_step T E S body s u \<Longrightarrow> t = u"
  by (cases rule: sm_step.cases) (auto elim: sm_step_stmtE)

interpretation csharpminor: determ "sm_step T E S body" sm_final for T E S body
proof
  show "sm_step T E S body s t \<Longrightarrow> sm_step T E S body s u \<Longrightarrow> t = u" for s t u by (rule sm_step_det)
  show "sm_final s r \<Longrightarrow> \<not> sm_step T E S body s t" for s t r by (cases s) (auto elim: sm_step_finalE)
  show "sm_final s r \<Longrightarrow> sm_final s q \<Longrightarrow> r = q" for s r q by (cases s) auto
qed

end
