(* ===== verification/TypeLayout.thy ===== *)
theory TypeLayout
  imports Ctypes
begin

text \<open>
  Sizes, alignments and field offsets of C types (the last part of \<open>pkg/cshmgen/expr.go\<close>). A type that is
  missing counts as an int. Sizes are mathematical integers: no object is as large as \<open>2 ^ 63\<close> bytes.
\<close>

definition cshm_alignUp :: "int64 \<Rightarrow> int64 \<Rightarrow> int64" where
  "cshm_alignUp n align = (if align = 0 then n else go_div (n + align - 1) align * align)"

function alignofType :: "ctype \<Rightarrow> int64"
and align_opt :: "ctype option \<Rightarrow> int64"
and max_align :: "field list \<Rightarrow> int64 \<Rightarrow> int64" where
  "alignofType Tvoid_c = 1"
| "alignofType (Tint_c sz sg) = (case sz of I8 \<Rightarrow> 1 | I16 \<Rightarrow> 2 | I32 \<Rightarrow> 4 | IBool \<Rightarrow> 4)"
| "alignofType (Tlong_c sg) = 8"
| "alignofType (Tfloat_c sz) = (if sz = F32 then 4 else 8)"
| "alignofType (Tpointer_c t) = 8"
| "alignofType (Tarray_c t n) = align_opt t"
| "alignofType (Tfunction_c ps r va) = 4"
| "alignofType (Tstruct_c name fs) = max_align fs 1"
| "alignofType (Tunion_c name fs) = max_align fs 1"
| "align_opt None = 4"
| "align_opt (Some t) = alignofType t"
| "max_align [] maxAlign = maxAlign"
| "max_align (Field x t # fs) maxAlign = max_align fs (if align_opt t > maxAlign then align_opt t else maxAlign)"
  by pat_completeness auto
termination
  by (relation "measure (\<lambda>x. case x of Inl t \<Rightarrow> size t | Inr (Inl t) \<Rightarrow> size_option size t | Inr (Inr (fs, a)) \<Rightarrow> size_list size fs)") auto

abbreviation alignofStruct :: "field list \<Rightarrow> int64" where
  "alignofStruct fs \<equiv> max_align fs 1"

function sizeofType :: "ctype \<Rightarrow> int64"
and size_opt :: "ctype option \<Rightarrow> int64"
and end_of_fields :: "field list \<Rightarrow> int64 \<Rightarrow> int64"
and max_size :: "field list \<Rightarrow> int64 \<Rightarrow> int64" where
  "sizeofType Tvoid_c = 1"
| "sizeofType (Tint_c sz sg) = (case sz of I8 \<Rightarrow> 1 | I16 \<Rightarrow> 2 | I32 \<Rightarrow> 4 | IBool \<Rightarrow> 4)"
| "sizeofType (Tlong_c sg) = 8"
| "sizeofType (Tfloat_c sz) = (if sz = F32 then 4 else 8)"
| "sizeofType (Tpointer_c t) = 8"
| "sizeofType (Tarray_c t n) = (if n < 0 then 0 else n * size_opt t)"
| "sizeofType (Tfunction_c ps r va) = 4"
| "sizeofType (Tstruct_c name fs) = cshm_alignUp (end_of_fields fs 0) (alignofStruct fs)"
| "sizeofType (Tunion_c name fs) = cshm_alignUp (max_size fs 0) (alignofStruct fs)"
| "size_opt None = 4"
| "size_opt (Some t) = sizeofType t"
| "end_of_fields [] sz = sz"
| "end_of_fields (Field x t # fs) sz = end_of_fields fs (cshm_alignUp sz (align_opt t) + size_opt t)"
| "max_size [] maxSize = maxSize"
| "max_size (Field x t # fs) maxSize = max_size fs (if size_opt t > maxSize then size_opt t else maxSize)"
  by pat_completeness auto
termination
  by (relation "measure (\<lambda>x. case x of Inl (Inl t) \<Rightarrow> size t | Inl (Inr t) \<Rightarrow> size_option size t
      | Inr (Inl (fs, a)) \<Rightarrow> size_list size fs | Inr (Inr (fs, a)) \<Rightarrow> size_list size fs)") auto

fun offset_in :: "field list \<Rightarrow> string \<Rightarrow> int64 \<Rightarrow> int64" where
  "offset_in [] name offset = 0"
| "offset_in (Field x t # fs) name offset =
     (let offset = cshm_alignUp offset (align_opt t) in
      if x = name then offset else offset_in fs name (offset + size_opt t))"

fun fieldOffset :: "ctype \<Rightarrow> string \<Rightarrow> int64" where
  "fieldOffset (Tstruct_c _ fs) name = offset_in fs name 0"
| "fieldOffset _ name = 0"

section \<open>Layout\<close>

lemma cshm_alignUp_props:
  assumes "0 \<le> n" "0 < a"
  shows "n \<le> cshm_alignUp n a" "cshm_alignUp n a mod a = 0" "cshm_alignUp n a < n + a" "a dvd cshm_alignUp n a"
proof -
  have eq: "cshm_alignUp n a = (n + a - 1) - (n + a - 1) mod a"
    using assms by (simp add: cshm_alignUp_def minus_mod_eq_div_mult)
  have "0 \<le> (n + a - 1) mod a" "(n + a - 1) mod a < a" using assms(2) by auto
  then show "n \<le> cshm_alignUp n a" "cshm_alignUp n a < n + a" unfolding eq by linarith+
  show "cshm_alignUp n a mod a = 0" unfolding eq by (metis minus_mod_eq_div_mult mod_mult_self2_is_0)
  then show "a dvd cshm_alignUp n a" by auto
qed

definition alignments :: "int set" where
  "alignments = {1, 2, 4, 8}"

lemma alignments_simps [simp]: "1 \<in> alignments" "2 \<in> alignments" "4 \<in> alignments" "8 \<in> alignments"
  by (simp_all add: alignments_def)

lemma alignments_dvd: "a \<in> alignments \<Longrightarrow> b \<in> alignments \<Longrightarrow> a \<le> b \<Longrightarrow> a dvd b"
  by (auto simp: alignments_def)

lemma alignment_valid:
  "alignofType t \<in> alignments"
  "align_opt u \<in> alignments"
  "a \<in> alignments \<Longrightarrow> max_align fs a \<in> alignments"
  by (induction t and u and fs a rule: alignofType_align_opt_max_align.induct)
    (auto split: intSize.split)

lemma max_align_start: "a \<le> max_align fs a"
proof (induction fs arbitrary: a)
  case (Cons f fs)
  obtain x t where "f = Field x t" by (cases f)
  then show ?case using Cons [of "if align_opt t > a then align_opt t else a"] by (simp split: if_splits)
qed simp

lemma max_align_ge: "Field x t \<in> set fs \<Longrightarrow> align_opt t \<le> max_align fs a"
proof (induction fs arbitrary: a)
  case (Cons f fs)
  show ?case
  proof (cases "f = Field x t")
    case True
    then show ?thesis using max_align_start [of "if align_opt t > a then align_opt t else a" fs] by (simp split: if_splits)
  next
    case False
    with Cons show ?thesis by (cases f) auto
  qed
qed simp

lemma alignment_pos: "0 < align_opt t" "0 < alignofType u" "0 < alignofStruct fs"
proof -
  have pos: "a \<in> alignments \<Longrightarrow> 0 < a" for a by (auto simp: alignments_def)
  show "0 < align_opt t" "0 < alignofType u" "0 < alignofStruct fs" by (simp_all add: pos alignment_valid)
qed

lemma field_align_dvd: "Field x t \<in> set fs \<Longrightarrow> align_opt t dvd alignofStruct fs"
  by (intro alignments_dvd alignment_valid max_align_ge) simp_all

lemma size_nonneg:
  "0 \<le> sizeofType t"
  "0 \<le> size_opt u"
  "0 \<le> n \<Longrightarrow> n \<le> end_of_fields fs n"
  "0 \<le> n \<Longrightarrow> n \<le> max_size gs n"
proof (induction t and u and fs n and gs n rule: sizeofType_size_opt_end_of_fields_max_size.induct)
  case (8 name fs)
  then show ?case using cshm_alignUp_props(1) [OF _ alignment_pos(3), of "end_of_fields fs 0" fs] by simp
next
  case (9 name fs)
  then show ?case using cshm_alignUp_props(1) [OF _ alignment_pos(3), of "max_size fs 0" fs] by simp
next
  case (13 x t fs n)
  then show ?case using cshm_alignUp_props(1) [OF 13(3) alignment_pos(1), of t] by simp
qed (auto split: intSize.split)

text \<open>Laid out from an offset, the fields lie one after the other, aligned, before the end.\<close>

lemma offset_in_sound:
  "0 \<le> n \<Longrightarrow> Field x t \<in> set fs \<Longrightarrow> distinct (map (\<lambda>f. case f of Field y _ \<Rightarrow> y) fs) \<Longrightarrow>
    n \<le> offset_in fs x n \<and> offset_in fs x n + size_opt t \<le> end_of_fields fs n \<and> align_opt t dvd offset_in fs x n"
proof (induction fs arbitrary: n)
  case (Cons f fs)
  obtain y u where f: "f = Field y u" by (cases f)
  define k where "k = cshm_alignUp n (align_opt u)"
  have k: "n \<le> k" "align_opt u dvd k" using cshm_alignUp_props [OF Cons.prems(1) alignment_pos(1)] by (simp_all add: k_def)
  with Cons.prems(1) size_nonneg(2) [of u] have pos: "0 \<le> k + size_opt u" by linarith
  show ?case
  proof (cases "y = x")
    case True
    with Cons.prems(2,3) have "u = t" by (auto simp: f rev_image_eqI)
    then show ?thesis using True k size_nonneg(3) [OF pos, of fs] by (simp add: f k_def Let_def)
  next
    case False
    with Cons.prems(2,3) Cons.IH [OF pos] k(1) size_nonneg(2) [of u] show ?thesis
      by (simp add: f k_def [symmetric] Let_def)
  qed
qed simp

lemma offsets_disjoint:
  "0 \<le> n \<Longrightarrow> distinct (map (\<lambda>f. case f of Field y _ \<Rightarrow> y) fs) \<Longrightarrow> i < j \<Longrightarrow> j < length fs \<Longrightarrow>
    fs ! i = Field x t \<Longrightarrow> fs ! j = Field y u \<Longrightarrow> offset_in fs x n + size_opt t \<le> offset_in fs y n"
proof (induction fs arbitrary: n i j)
  case (Cons f fs)
  obtain z v where f: "f = Field z v" by (cases f)
  define k where "k = cshm_alignUp n (align_opt v)"
  have "n \<le> k" using cshm_alignUp_props [OF Cons.prems(1) alignment_pos(1)] by (simp add: k_def)
  with Cons.prems(1) size_nonneg(2) [of v] have pos: "0 \<le> k + size_opt v" by linarith
  obtain j' where j': "j = Suc j'" using Cons.prems(3) by (cases j) auto
  with Cons.prems have y: "Field y u \<in> set fs" by (metis Suc_less_eq length_Cons nth_Cons_Suc nth_mem)
  with Cons.prems(2) f have zy: "z \<noteq> y" by (force simp: rev_image_eqI)
  show ?case
  proof (cases i)
    case 0
    with Cons.prems f have "z = x" "v = t" by simp_all
    with zy offset_in_sound [OF pos y] Cons.prems(2) show ?thesis by (simp add: f k_def Let_def)
  next
    case (Suc i')
    with Cons.prems j' have x: "Field x t \<in> set fs" by (metis Suc_less_eq length_Cons less_trans nth_Cons_Suc nth_mem)
    with Cons.prems(2) f have "z \<noteq> x" by (force simp: rev_image_eqI)
    with zy Suc j' Cons.prems Cons.IH [OF pos, of i' j'] show ?thesis by (simp add: f k_def [symmetric] Let_def)
  qed
qed simp

definition field_name :: "field \<Rightarrow> string" where
  "field_name f = (case f of Field x _ \<Rightarrow> x)"

text \<open>
  Property C40. The layout of a struct whose fields have different names: the field at position \<open>j\<close> starts at an
  offset that its alignment divides, after the end of every field before it, and ends within the struct;
  the size of the struct is a multiple of its alignment, which is a multiple of the alignment of each field, so
  that the fields stay aligned in an array of structs.
\<close>

theorem fieldOffset_sound:
  assumes "distinct (map field_name fs)" and "j < length fs" and "fs ! j = Field y u" and "S = Tstruct_c name fs"
  shows "0 \<le> fieldOffset S y \<and> align_opt u dvd fieldOffset S y \<and> fieldOffset S y + size_opt u \<le> sizeofType S \<and>
    (\<forall>i<j. \<forall>x t. fs ! i = Field x t \<longrightarrow> fieldOffset S x + size_opt t \<le> fieldOffset S y) \<and>
    alignofType S dvd sizeofType S \<and> align_opt u dvd alignofType S"
proof -
  have d: "distinct (map (\<lambda>f. case f of Field y _ \<Rightarrow> y) fs)" using assms(1) by (simp add: field_name_def [abs_def])
  have y: "Field y u \<in> set fs" using assms(2,3) by (metis nth_mem)
  have "0 \<le> end_of_fields fs 0" using size_nonneg(3) [of 0 fs] by simp
  note up = cshm_alignUp_props [OF this alignment_pos(3), of fs]
  have "offset_in fs y 0 + size_opt u \<le> cshm_alignUp (end_of_fields fs 0) (alignofStruct fs)"
    using offset_in_sound [OF order_refl y d] up(1) by linarith
  then show ?thesis
    using offset_in_sound [OF order_refl y d] offsets_disjoint [OF order_refl d _ assms(2) _ assms(3)] up(4) field_align_dvd [OF y]
    by (simp add: assms(4))
qed

theorem fieldOffset_sound_witness:
  "let S = Tstruct_c ''s'' [Field ''c'' (Some Char_c), Field ''d'' (Some Double_c), Field ''i'' (Some Int_c)] in
    (fieldOffset S ''c'', fieldOffset S ''d'', fieldOffset S ''i'', sizeofType S) = (0, 8, 16, 24) \<and>
    fieldOffset S ''c'' + 1 \<le> fieldOffset S ''d'' \<and> alignofType S dvd sizeofType S"
proof -
  let ?fs = "[Field ''c'' (Some Char_c), Field ''d'' (Some Double_c), Field ''i'' (Some Int_c)]"
  have "distinct (map field_name ?fs)" by (simp add: field_name_def)
  from fieldOffset_sound [OF this, of 1 "''d''" "Some Double_c" "Tstruct_c ''s'' ?fs" "''s''"]
  have "fieldOffset (Tstruct_c ''s'' ?fs) ''c'' + size_opt (Some Char_c) \<le> fieldOffset (Tstruct_c ''s'' ?fs) ''d''"
    "alignofType (Tstruct_c ''s'' ?fs) dvd sizeofType (Tstruct_c ''s'' ?fs)" by auto
  then show ?thesis
    by (simp add: Let_def cshm_alignUp_def Char_c_def Double_c_def Int_c_def go_div_def)
qed

end
