(* ===== verification/Clight.thy ===== *)
theory Clight
  imports Csharpminor TypeLayout
begin

text \<open>
  The Clight language (\<open>pkg/clight/ast.go\<close>): C without side effects in expressions, every expression with its
  type. Its constructors carry the suffix \<open>_cl\<close> where the name is used elsewhere. The meaning of the
  operators is that of C, on mathematical integers: the operands are read at their types, converted to the
  common type of the usual arithmetic conversions, and the result is reduced to the width of that type.
\<close>

datatype cl_unaryOp = Onotbool_cl | Onotint_cl | Oneg_cl | Oabsfloat_cl

datatype cl_binaryOp =
    Oadd_cl | Osub_cl | Omul_cl | Odiv_cl | Omod_cl
  | Oeq_cl | One_cl | Olt_cl | Ogt_cl | Ole_cl | Oge_cl
  | Oand_cl | Oor_cl | Oxor_cl | Oshl_cl | Oshr_cl

datatype cl_expr =
    Econst_int int64 ctype
  | Econst_float float64 ctype
  | Econst_long int64 ctype
  | Econst_single float32 ctype
  | Estring string ctype
  | Evar_cl string ctype
  | Etempvar_cl int ctype
  | Ederef_cl cl_expr ctype
  | Eaddrof_cl cl_expr ctype
  | Eunop_cl cl_unaryOp cl_expr ctype
  | Ebinop_cl cl_binaryOp cl_expr cl_expr ctype
  | Ecast_cl cl_expr ctype
  | Efield_cl cl_expr string ctype
  | Esizeof_cl ctype ctype
  | Ealignof_cl ctype ctype

primrec ExprType :: "cl_expr \<Rightarrow> ctype" where
  "ExprType (Econst_int n t) = t"
| "ExprType (Econst_float x t) = t"
| "ExprType (Econst_long n t) = t"
| "ExprType (Econst_single x t) = t"
| "ExprType (Estring s t) = t"
| "ExprType (Evar_cl x t) = t"
| "ExprType (Etempvar_cl i t) = t"
| "ExprType (Ederef_cl a t) = t"
| "ExprType (Eaddrof_cl a t) = t"
| "ExprType (Eunop_cl uop a t) = t"
| "ExprType (Ebinop_cl bop a b t) = t"
| "ExprType (Ecast_cl a t) = t"
| "ExprType (Efield_cl a f t) = t"
| "ExprType (Esizeof_cl a t) = t"
| "ExprType (Ealignof_cl a t) = t"

datatype cl_stmt =
    Sskip_cl
  | Sassign_cl cl_expr cl_expr
  | Sset_cl int cl_expr
  | Scall_cl "int option" cl_expr "cl_expr list"
  | Sbuiltin_cl "int option" string "cl_expr list"
  | Ssequence_cl cl_stmt cl_stmt
  | Sifthenelse_cl cl_expr cl_stmt cl_stmt
  | Sloop_cl cl_stmt cl_stmt
  | Sbreak_cl
  | Scontinue_cl
  | Sreturn_cl "cl_expr option"
  | Sswitch_cl cl_expr "cl_switchCase list" cl_stmt bool
  | Slabel_cl string cl_stmt
  | Sgoto_cl string
and cl_switchCase = SwitchCase_cl int64 cl_stmt

record cl_varDecl =
  cv_name :: string
  cv_type :: ctype
  cv_init :: "nat list"

record cl_function =
  cl_name :: string
  cl_return :: ctype
  cl_params :: "cl_varDecl list"
  cl_locals :: "cl_varDecl list"
  cl_temps :: "ctype list"
  cl_body :: cl_stmt

record cl_program =
  cl_structs :: "(string \<times> field list) list"
  cl_unions :: "(string \<times> field list) list"
  cl_globals :: "cl_varDecl list"
  cl_functions :: "cl_function list"

definition Seq_cl :: "cl_stmt list \<Rightarrow> cl_stmt" where
  "Seq_cl stmts = fold (\<lambda>s result. if result = Sskip_cl then s else if s = Sskip_cl then result else Ssequence_cl result s)
     stmts Sskip_cl"

section \<open>Operators\<close>

text \<open>The integer that a word stands for at an integer type, and the word for an integer.\<close>

fun int_of :: "ctype \<Rightarrow> w64 \<Rightarrow> int option" where
  "int_of (Tint_c sz sg) v = Some (if sg = Signed then sint (lo v) else uint (lo v))"
| "int_of (Tlong_c sg) v = Some (if sg = Signed then sint v else uint v)"
| "int_of _ v = None"

fun rep_int :: "ctype \<Rightarrow> int \<Rightarrow> w64" where
  "rep_int (Tlong_c sg) z = of_int z"
| "rep_int _ z = zx (of_int z)"

fun conv :: "ctype \<Rightarrow> int \<Rightarrow> int" where
  "conv (Tlong_c sg) z = (if sg = Signed then sint (of_int z :: w64) else uint (of_int z :: w64))"
| "conv (Tint_c sz sg) z = (if sg = Signed then sint (of_int z :: w32) else uint (of_int z :: w32))"
| "conv _ z = z"

text \<open>Integer promotion and the usual arithmetic conversions.\<close>

fun promote :: "ctype \<Rightarrow> ctype" where
  "promote (Tint_c sz sg) = Tint_c I32 (if sz = I32 then sg else Signed)"
| "promote t = t"

fun wider :: "ctype \<Rightarrow> ctype \<Rightarrow> ctype option" where
  "wider (Tint_c _ sa) (Tint_c _ sb) = Some (Tint_c I32 (if sa = Unsigned \<or> sb = Unsigned then Unsigned else Signed))"
| "wider (Tint_c _ _) (Tlong_c s) = Some (Tlong_c s)"
| "wider (Tlong_c s) (Tint_c _ _) = Some (Tlong_c s)"
| "wider (Tlong_c sa) (Tlong_c sb) = Some (Tlong_c (if sa = Unsigned \<or> sb = Unsigned then Unsigned else Signed))"
| "wider (Tfloat_c a) (Tfloat_c b) = Some (Tfloat_c (if a = F64 \<or> b = F64 then F64 else F32))"
| "wider _ _ = None"

definition common :: "ctype \<Rightarrow> ctype \<Rightarrow> ctype option" where
  "common a b = wider (promote a) (promote b)"

definition least_int :: "ctype \<Rightarrow> int" where
  "least_int t = (if t = Tint_c I32 Signed then - (2 ^ 31) else if t = Tlong_c Signed then - (2 ^ 63) else - 1)"

text \<open>Division truncates; a zero divisor and the one quotient that does not fit have no meaning.\<close>

fun int_arith :: "ctype \<Rightarrow> cl_binaryOp \<Rightarrow> int \<Rightarrow> int \<Rightarrow> int option" where
  "int_arith t Oadd_cl a b = Some (a + b)"
| "int_arith t Osub_cl a b = Some (a - b)"
| "int_arith t Omul_cl a b = Some (a * b)"
| "int_arith t Odiv_cl a b = guarded (b \<noteq> 0 \<and> \<not> (a = least_int t \<and> b = -1)) (go_div a b)"
| "int_arith t Omod_cl a b = guarded (b \<noteq> 0 \<and> \<not> (a = least_int t \<and> b = -1)) (go_rem a b)"
| "int_arith t Oand_cl a b = Some (a AND b)"
| "int_arith t Oor_cl a b = Some (a OR b)"
| "int_arith t Oxor_cl a b = Some (a XOR b)"
| "int_arith t _ a b = None"

fun float_arith :: "target \<Rightarrow> floatSize \<Rightarrow> cl_binaryOp \<Rightarrow> w64 \<Rightarrow> w64 \<Rightarrow> w64 option" where
  "float_arith T sz Oadd_cl a b = Some (t_float T (if sz = F32 then Oadds else Oaddf) [a, b])"
| "float_arith T sz Osub_cl a b = Some (t_float T (if sz = F32 then Osubs else Osubf) [a, b])"
| "float_arith T sz Omul_cl a b = Some (t_float T (if sz = F32 then Omuls else Omulf) [a, b])"
| "float_arith T sz Odiv_cl a b = Some (t_float T (if sz = F32 then Odivs else Odivf) [a, b])"
| "float_arith T sz _ a b = None"

fun relation :: "cl_binaryOp \<Rightarrow> comparison option" where
  "relation Oeq_cl = Some Ceq_cs"
| "relation One_cl = Some Cne_cs"
| "relation Olt_cl = Some Clt_cs"
| "relation Ogt_cl = Some Cgt_cs"
| "relation Ole_cl = Some Cle_cs"
| "relation Oge_cl = Some Cge_cs"
| "relation _ = None"

definition truth_word :: "bool \<Rightarrow> w64" where
  "truth_word b = (if b then 1 else 0)"

text \<open>Shifts: the type is that of the promoted left operand, the count is below its width.\<close>

definition cl_width :: "ctype \<Rightarrow> int" where
  "cl_width t = (case t of Tlong_c _ \<Rightarrow> 64 | _ \<Rightarrow> 32)"

definition cl_shift :: "cl_binaryOp \<Rightarrow> ctype \<Rightarrow> ctype \<Rightarrow> w64 \<Rightarrow> w64 \<Rightarrow> w64 option" where
  "cl_shift bop ta tb v w = do {
     a \<leftarrow> int_of (promote ta) v;
     n \<leftarrow> int_of tb w;
     guarded (0 \<le> n \<and> n < cl_width ta)
       (rep_int (promote ta) (if bop = Oshl_cl then a * 2 ^ nat n else a div 2 ^ nat n))
   }"

text \<open>A pointer moves by whole elements.\<close>

definition cl_pointer :: "cl_binaryOp \<Rightarrow> ctype option \<Rightarrow> ctype \<Rightarrow> w64 \<Rightarrow> w64 \<Rightarrow> w64 option" where
  "cl_pointer bop elem tb v w = do {
     n \<leftarrow> int_of tb w;
     if bop = Oadd_cl then Some (v + of_int (n * size_opt elem))
     else if bop = Osub_cl then Some (v - of_int (n * size_opt elem)) else None
   }"

definition cl_arith :: "target \<Rightarrow> cl_binaryOp \<Rightarrow> ctype \<Rightarrow> ctype \<Rightarrow> w64 \<Rightarrow> w64 \<Rightarrow> w64 option" where
  "cl_arith T bop ta tb v w = do {
     c \<leftarrow> common ta tb;
     case c of
       Tfloat_c sz \<Rightarrow> if ta = c \<and> tb = c then float_arith T sz bop v w else None
     | _ \<Rightarrow> do {
         a \<leftarrow> int_of ta v;
         b \<leftarrow> int_of tb w;
         z \<leftarrow> int_arith c bop (conv c a) (conv c b);
         Some (rep_int c z)
       }
   }"

definition cl_compare :: "target \<Rightarrow> comparison \<Rightarrow> ctype \<Rightarrow> ctype \<Rightarrow> w64 \<Rightarrow> w64 \<Rightarrow> bool option" where
  "cl_compare T r ta tb v w = (case (ta, tb) of
     (Tpointer_c _, Tpointer_c _) \<Rightarrow> Some (cs_compare r (uint v) (uint w))
   | _ \<Rightarrow> do {
     c \<leftarrow> common ta tb;
     case c of
       Tfloat_c sz \<Rightarrow> if ta = c \<and> tb = c then Some (cs_fcompare r (t_fcmp T (sz = F64) v w)) else None
     | _ \<Rightarrow> do {
         a \<leftarrow> int_of ta v;
         b \<leftarrow> int_of tb w;
         Some (cs_compare r (conv c a) (conv c b))
       }
     })"

definition cl_binop :: "target \<Rightarrow> cl_binaryOp \<Rightarrow> ctype \<Rightarrow> ctype \<Rightarrow> w64 \<Rightarrow> w64 \<Rightarrow> w64 option" where
  "cl_binop T bop ta tb v w = (case relation bop of
     Some r \<Rightarrow> map_option truth_word (cl_compare T r ta tb v w)
   | None \<Rightarrow> if bop = Oshl_cl \<or> bop = Oshr_cl then cl_shift bop ta tb v w
       else (case ta of Tpointer_c elem \<Rightarrow> cl_pointer bop elem tb v w | _ \<Rightarrow> cl_arith T bop ta tb v w))"

text \<open>When a value counts as true.\<close>

fun type_kind :: "ctype \<Rightarrow> cm_kind option" where
  "type_kind (Tint_c _ _) = Some Kint"
| "type_kind (Tlong_c _) = Some Klong"
| "type_kind (Tpointer_c _) = Some Klong"
| "type_kind (Tfloat_c sz) = Some (if sz = F32 then Ksingle else Kfloat)"
| "type_kind _ = None"

definition cl_truth :: "target \<Rightarrow> ctype \<Rightarrow> w64 \<Rightarrow> bool option" where
  "cl_truth T t v = map_option (\<lambda>k. truth T k v) (type_kind t)"

definition cl_unop :: "target \<Rightarrow> cl_unaryOp \<Rightarrow> ctype \<Rightarrow> w64 \<Rightarrow> w64 option" where
  "cl_unop T uop t v = (case uop of
     Onotbool_cl \<Rightarrow> map_option (\<lambda>b. truth_word (\<not> b)) (cl_truth T t v)
   | Onotint_cl \<Rightarrow> map_option (\<lambda>a. rep_int (promote t) (NOT a)) (int_of t v)
   | Oneg_cl \<Rightarrow> (case t of
       Tfloat_c sz \<Rightarrow> Some (t_float T (if sz = F32 then Onegs else Onegf) [v])
     | _ \<Rightarrow> map_option (\<lambda>a. rep_int (promote t) (- a)) (int_of t v))
   | Oabsfloat_cl \<Rightarrow> None)"

text \<open>
  Conversions between integer types, between the floating-point types, from integers to double and back, and
  between pointers and longs.
\<close>

fun narrow :: "ctype \<Rightarrow> int \<Rightarrow> w64" where
  "narrow (Tint_c I8 sg) z = zx (if sg = Signed then scast (of_int z :: w8) else ucast (of_int z :: w8))"
| "narrow (Tint_c I16 sg) z = zx (if sg = Signed then scast (of_int z :: w16) else ucast (of_int z :: w16))"
| "narrow (Tint_c IBool sg) z = truth_word (z \<noteq> 0)"
| "narrow t z = rep_int t z"

definition is_long :: "ctype \<Rightarrow> bool" where
  "is_long t \<longleftrightarrow> (case t of Tlong_c _ \<Rightarrow> True | _ \<Rightarrow> False)"

text \<open>The word is kept when it stands for the converted integer already: the new type reads the same bits.\<close>

definition same_bits :: "ctype \<Rightarrow> ctype \<Rightarrow> bool" where
  "same_bits from to \<longleftrightarrow> to = from \<or> (case (from, to) of
     (Tint_c _ _, Tint_c sz _) \<Rightarrow> sz = I32 | (Tlong_c _, Tlong_c _) \<Rightarrow> True | _ \<Rightarrow> False)"

definition int_cast :: "target \<Rightarrow> ctype \<Rightarrow> int \<Rightarrow> w64 \<Rightarrow> ctype \<Rightarrow> w64 option" where
  "int_cast T from z v to = (if same_bits from to then Some v else case to of
     Tint_c _ _ \<Rightarrow> Some (narrow to z)
   | Tlong_c _ \<Rightarrow> Some (narrow to z)
   | Tfloat_c sz \<Rightarrow> (let op = (case from of
         Tint_c _ sg \<Rightarrow> if sg = Signed then Ofloatofint else Ofloatofintu
       | Tlong_c sg \<Rightarrow> if sg = Signed then Ofloatoflong else Ofloatoflongu) in
       if sz = F64 then Some (t_fconv T op v)
       else if is_long from then None else Some (t_fconv T Osingleoffloat (t_fconv T op v)))
   | Tpointer_c _ \<Rightarrow> (case from of Tlong_c _ \<Rightarrow> Some v | _ \<Rightarrow> None)
   | _ \<Rightarrow> None)"

definition float_cast :: "target \<Rightarrow> w64 \<Rightarrow> ctype \<Rightarrow> w64 option" where
  "float_cast T v to = (case to of
     Tfloat_c sz \<Rightarrow> Some (if sz = F32 then t_fconv T Osingleoffloat v else v)
   | Tint_c sz sg \<Rightarrow> if sz = I32 then Some (t_fconv T (if sg = Signed then Ointoffloat else Ointuoffloat) v) else None
   | Tlong_c sg \<Rightarrow> Some (t_fconv T (if sg = Signed then Olongoffloat else Olonguoffloat) v)
   | _ \<Rightarrow> None)"

definition cl_cast :: "target \<Rightarrow> ctype \<Rightarrow> ctype \<Rightarrow> w64 \<Rightarrow> w64 option" where
  "cl_cast T from to v = (case from of
     Tfloat_c sz \<Rightarrow> if to = from then Some v else float_cast T (if sz = F32 then t_fconv T Ofloatofsingle v else v) to
   | Tpointer_c _ \<Rightarrow> (case to of Tpointer_c _ \<Rightarrow> Some v | Tlong_c _ \<Rightarrow> Some v | _ \<Rightarrow> None)
   | _ \<Rightarrow> Option.bind (int_of from v) (\<lambda>z. int_cast T from z v to))"

section \<open>Expressions\<close>

text \<open>The types whose values are loaded and stored, and how.\<close>

fun value_chunk :: "ctype \<Rightarrow> chunk option" where
  "value_chunk (Tint_c sz sg) = Some (ChunkForType (Tint_c sz sg))"
| "value_chunk (Tlong_c sg) = Some Mint64"
| "value_chunk (Tfloat_c sz) = Some (if sz = F32 then Mfloat32 else Mfloat64)"
| "value_chunk (Tpointer_c t) = Some Mint64"
| "value_chunk _ = None"

definition cl_load :: "ctype \<Rightarrow> w64 \<Rightarrow> mem \<Rightarrow> val option" where
  "cl_load t p m = Option.bind (value_chunk t) (\<lambda>ch. map_option Some (load_chunk ch p m))"

text \<open>
  The parameters \<open>pe\<close> can be assigned but have no address. Locals and globals lie in memory, where the scope
  says; the parameters of the scope are not used. Other names are functions.
\<close>

definition cl_read :: "target \<Rightarrow> scope \<Rightarrow> cs_env \<Rightarrow> mem \<Rightarrow> string \<Rightarrow> ctype \<Rightarrow> val option" where
  "cl_read T S pe m x t = (case pe x of Some v \<Rightarrow> Some v
   | None \<Rightarrow> (case sc_locals S x of
       Some d \<Rightarrow> (case sc_placed S x of
           Some n \<Rightarrow> cl_load t (t_stack T + of_int n) m
         | None \<Rightarrow> Some None)
     | None \<Rightarrow> (case sc_globals S x of
           Some d \<Rightarrow> cl_load t (t_symbol T x) m
         | None \<Rightarrow> Some (Some (t_symbol T x)))))"

definition cl_address :: "target \<Rightarrow> scope \<Rightarrow> cs_env \<Rightarrow> string \<Rightarrow> val option" where
  "cl_address T S pe x =
     (if pe x \<noteq> None then None
      else if sc_locals S x \<noteq> None then map_option (\<lambda>n. Some (t_stack T + of_int n)) (sc_placed S x)
      else Some (Some (t_symbol T x)))"

fun const_value :: "int64 \<Rightarrow> ctype \<Rightarrow> w64 option" where
  "const_value n (Tint_c sz sg) = Some (zx (of_int n))"
| "const_value n (Tlong_c sg) = Some (of_int n)"
| "const_value n (Tpointer_c t) = Some (of_int n)"
| "const_value n _ = None"

text \<open>The address of a string literal is not fixed by the source: literals have no value here.\<close>

fun cl_eval :: "target \<Rightarrow> scope \<Rightarrow> cs_env \<Rightarrow> temps_env \<Rightarrow> mem \<Rightarrow> cl_expr \<Rightarrow> val option"
and cl_lvalue :: "target \<Rightarrow> scope \<Rightarrow> cs_env \<Rightarrow> temps_env \<Rightarrow> mem \<Rightarrow> cl_expr \<Rightarrow> val option" where
  "cl_eval T S pe tmp m (Econst_int n t) = map_option Some (const_value n t)"
| "cl_eval T S pe tmp m (Econst_long n t) = Some (Some (of_int n))"
| "cl_eval T S pe tmp m (Econst_float x t) = Some (Some (of_int x))"
| "cl_eval T S pe tmp m (Econst_single x t) = Some (Some (zx (of_int x)))"
| "cl_eval T S pe tmp m (Estring s t) = None"
| "cl_eval T S pe tmp m (Evar_cl x t) = cl_read T S pe m x t"
| "cl_eval T S pe tmp m (Etempvar_cl i t) = tmp i"
| "cl_eval T S pe tmp m (Ederef_cl a t) = do {
     p \<leftarrow> cl_eval T S pe tmp m a;
     q \<leftarrow> p;
     cl_load t q m
   }"
| "cl_eval T S pe tmp m (Eaddrof_cl a t) = cl_lvalue T S pe tmp m a"
| "cl_eval T S pe tmp m (Eunop_cl uop a t) = do {
     v \<leftarrow> cl_eval T S pe tmp m a;
     map_option Some (known1 (cl_unop T uop (ExprType a)) v)
   }"
| "cl_eval T S pe tmp m (Ebinop_cl bop a b t) = do {
     v \<leftarrow> cl_eval T S pe tmp m a;
     w \<leftarrow> cl_eval T S pe tmp m b;
     map_option Some (known2 (cl_binop T bop (ExprType a) (ExprType b)) v w)
   }"
| "cl_eval T S pe tmp m (Ecast_cl a t) = do {
     v \<leftarrow> cl_eval T S pe tmp m a;
     map_option Some (known1 (cl_cast T (ExprType a) t) v)
   }"
| "cl_eval T S pe tmp m (Efield_cl a f t) = do {
     p \<leftarrow> cl_lvalue T S pe tmp m (Efield_cl a f t);
     q \<leftarrow> p;
     cl_load t q m
   }"
| "cl_eval T S pe tmp m (Esizeof_cl u t) = Some (Some (zx (of_int (sizeofType u))))"
| "cl_eval T S pe tmp m (Ealignof_cl u t) = Some (Some (zx (of_int (alignofType u))))"
| "cl_lvalue T S pe tmp m (Evar_cl x t) = cl_address T S pe x"
| "cl_lvalue T S pe tmp m (Ederef_cl a t) = cl_eval T S pe tmp m a"
| "cl_lvalue T S pe tmp m (Efield_cl a f t) = do {
     p \<leftarrow> cl_lvalue T S pe tmp m a;
     map_option (\<lambda>q. Some (q + of_int (fieldOffset (ExprType a) f))) p
   }"
| "cl_lvalue T S pe tmp m _ = None"

primrec cl_eval_list :: "target \<Rightarrow> scope \<Rightarrow> cs_env \<Rightarrow> temps_env \<Rightarrow> mem \<Rightarrow> cl_expr list \<Rightarrow> val list option" where
  "cl_eval_list T S pe tmp m [] = Some []"
| "cl_eval_list T S pe tmp m (e # es) = do {
     v \<leftarrow> cl_eval T S pe tmp m e;
     vs \<leftarrow> cl_eval_list T S pe tmp m es;
     Some (v # vs)
   }"

definition cl_cond :: "target \<Rightarrow> scope \<Rightarrow> cs_env \<Rightarrow> temps_env \<Rightarrow> mem \<Rightarrow> cl_expr \<Rightarrow> bool option" where
  "cl_cond T S pe tmp m e = Option.bind (cl_eval T S pe tmp m e) (known1 (cl_truth T (ExprType e)))"

text \<open>A name that is no parameter, local or variable is a function.\<close>

definition cl_callee :: "target \<Rightarrow> scope \<Rightarrow> cs_env \<Rightarrow> temps_env \<Rightarrow> mem \<Rightarrow> cl_expr \<Rightarrow> val funVal option" where
  "cl_callee T S pe tmp m e = (case e of
     Evar_cl x t \<Rightarrow> if pe x = None \<and> sc_locals S x = None \<and> sc_globals S x = None then Some (FV_sym x)
       else map_option FV_ptr (cl_eval T S pe tmp m e)
   | _ \<Rightarrow> map_option FV_ptr (cl_eval T S pe tmp m e))"

section \<open>Statements\<close>

datatype cl_cont = Kstop_cl | Kseq_cl cl_stmt cl_cont | Kloop1_cl cl_stmt cl_stmt cl_cont | Kloop2_cl cl_stmt cl_stmt cl_cont

fun cl_find_label :: "string \<Rightarrow> cl_stmt \<Rightarrow> cl_cont \<Rightarrow> (cl_stmt \<times> cl_cont) option"
and cl_find_label_cases :: "string \<Rightarrow> cl_switchCase list \<Rightarrow> cl_cont \<Rightarrow> (cl_stmt \<times> cl_cont) option" where
  "cl_find_label l (Ssequence_cl a b) k = (case cl_find_label l a (Kseq_cl b k) of
     Some r \<Rightarrow> Some r | None \<Rightarrow> cl_find_label l b k)"
| "cl_find_label l (Sifthenelse_cl c a b) k = (case cl_find_label l a k of
     Some r \<Rightarrow> Some r | None \<Rightarrow> cl_find_label l b k)"
| "cl_find_label l (Sloop_cl a b) k = (case cl_find_label l a (Kloop1_cl a b k) of
     Some r \<Rightarrow> Some r | None \<Rightarrow> cl_find_label l b (Kloop2_cl a b k))"
| "cl_find_label l (Sswitch_cl e cs d hb) k = (case cl_find_label_cases l cs k of
     Some r \<Rightarrow> Some r | None \<Rightarrow> cl_find_label l d k)"
| "cl_find_label l (Slabel_cl l' a) k = (if l = l' then Some (a, k) else cl_find_label l a k)"
| "cl_find_label l _ k = None"
| "cl_find_label_cases l [] k = None"
| "cl_find_label_cases l (SwitchCase_cl v a # cs) k = (case cl_find_label l a k of
     Some r \<Rightarrow> Some r | None \<Rightarrow> cl_find_label_cases l cs k)"

text \<open>A switch runs the body of the first case with the value; bodies do not fall through.\<close>

fun cl_switch_target :: "bool \<Rightarrow> w64 \<Rightarrow> cl_switchCase list \<Rightarrow> cl_stmt \<Rightarrow> cl_stmt" where
  "cl_switch_target long w [] d = d"
| "cl_switch_target long w (SwitchCase_cl v a # cs) d =
     (if (if long then w = of_int v else lo w = of_int v) then a else cl_switch_target long w cs d)"

datatype cl_state =
    LightStmt cl_stmt cl_cont cs_env temps_env mem
  | LightFinal "(val, mem) outcome"

text \<open>
  Calls carry no signature. The second part of a loop is the step of a \<open>for\<close>, an expression in C: it contains no
  break or continue of its own loop.
\<close>

inductive cl_step :: "target \<Rightarrow> (val, mem) sem \<Rightarrow> scope \<Rightarrow> cl_stmt \<Rightarrow> cl_state \<Rightarrow> cl_state \<Rightarrow> bool"
  for T E S body where
  cl_skip_seq: "cl_step T E S body (LightStmt Sskip_cl (Kseq_cl s k) pe tmp m) (LightStmt s k pe tmp m)"
| cl_skip_stop: "cl_step T E S body (LightStmt Sskip_cl Kstop_cl pe tmp m) (LightFinal (Returned None m))"
| cl_assign_param: "pe x \<noteq> None \<Longrightarrow> cl_eval T S pe tmp m e = Some v \<Longrightarrow>
    cl_step T E S body (LightStmt (Sassign_cl (Evar_cl x t) e) k pe tmp m) (LightStmt Sskip_cl k (pe(x \<mapsto> v)) tmp m)"
| cl_assign: "cl_lvalue T S pe tmp m a = Some (Some p) \<Longrightarrow> value_chunk (ExprType a) = Some ch \<Longrightarrow>
    cl_eval T S pe tmp m e = Some (Some w) \<Longrightarrow> store_chunk ch p w m = Some m' \<Longrightarrow>
    cl_step T E S body (LightStmt (Sassign_cl a e) k pe tmp m) (LightStmt Sskip_cl k pe tmp m')"
| cl_set: "cl_eval T S pe tmp m e = Some v \<Longrightarrow> temp_declared (Some i) tmp \<Longrightarrow>
    cl_step T E S body (LightStmt (Sset_cl i e) k pe tmp m) (LightStmt Sskip_cl k pe (tmp(i \<mapsto> v)) m)"
| cl_call: "cl_callee T S pe tmp m e = Some fv \<Longrightarrow> cl_eval_list T S pe tmp m args = Some vs \<Longrightarrow>
    n = sem_arity E (the_sig None) fv m \<Longrightarrow> n \<le> length vs \<Longrightarrow>
    sem_call E (the_sig None) fv (take n vs) m = Some (v, m') \<Longrightarrow> temp_declared i tmp \<Longrightarrow>
    cl_step T E S body (LightStmt (Scall_cl i e args) k pe tmp m) (LightStmt Sskip_cl k pe (set_temp i v tmp) m')"
| cl_builtin: "cl_eval_list T S pe tmp m args = Some vs \<Longrightarrow> sem_builtin E bf vs m = Some (v, m') \<Longrightarrow> temp_declared i tmp \<Longrightarrow>
    cl_step T E S body (LightStmt (Sbuiltin_cl i bf args) k pe tmp m) (LightStmt Sskip_cl k pe (set_temp i v tmp) m')"
| cl_seq: "cl_step T E S body (LightStmt (Ssequence_cl a b) k pe tmp m) (LightStmt a (Kseq_cl b k) pe tmp m)"
| cl_ifthenelse: "cl_cond T S pe tmp m c = Some t \<Longrightarrow>
    cl_step T E S body (LightStmt (Sifthenelse_cl c a b) k pe tmp m) (LightStmt (if t then a else b) k pe tmp m)"
| cl_loop: "cl_step T E S body (LightStmt (Sloop_cl a b) k pe tmp m) (LightStmt a (Kloop1_cl a b k) pe tmp m)"
| cl_next: "s = Sskip_cl \<or> s = Scontinue_cl \<Longrightarrow>
    cl_step T E S body (LightStmt s (Kloop1_cl a b k) pe tmp m) (LightStmt b (Kloop2_cl a b k) pe tmp m)"
| cl_again: "cl_step T E S body (LightStmt Sskip_cl (Kloop2_cl a b k) pe tmp m) (LightStmt (Sloop_cl a b) k pe tmp m)"
| cl_break: "cl_step T E S body (LightStmt Sbreak_cl (Kloop1_cl a b k) pe tmp m) (LightStmt Sskip_cl k pe tmp m)"
| cl_unwind: "s = Sbreak_cl \<or> s = Scontinue_cl \<Longrightarrow>
    cl_step T E S body (LightStmt s (Kseq_cl a k) pe tmp m) (LightStmt s k pe tmp m)"
| cl_switch: "cl_eval T S pe tmp m e = Some (Some w) \<Longrightarrow>
    cl_step T E S body (LightStmt (Sswitch_cl e cs d hb) k pe tmp m)
      (LightStmt (cl_switch_target (is_long (ExprType e)) w cs d) k pe tmp m)"
| cl_return_void: "cl_step T E S body (LightStmt (Sreturn_cl None) k pe tmp m) (LightFinal (Returned None m))"
| cl_return: "cl_eval T S pe tmp m e = Some v \<Longrightarrow>
    cl_step T E S body (LightStmt (Sreturn_cl (Some e)) k pe tmp m) (LightFinal (Returned v m))"
| cl_label: "cl_step T E S body (LightStmt (Slabel_cl l a) k pe tmp m) (LightStmt a k pe tmp m)"
| cl_goto: "cl_find_label l body Kstop_cl = Some (a, k') \<Longrightarrow>
    cl_step T E S body (LightStmt (Sgoto_cl l) k pe tmp m) (LightStmt a k' pe tmp m)"

fun cl_final :: "cl_state \<Rightarrow> (val, mem) outcome \<Rightarrow> bool" where
  "cl_final (LightFinal r) q \<longleftrightarrow> q = r"
| "cl_final (LightStmt _ _ _ _ _) q \<longleftrightarrow> False"

text \<open>The temporaries of a function, declared or occurring, and its parameters when it is called.\<close>

fun cl_expr_temps :: "cl_expr \<Rightarrow> int list" where
  "cl_expr_temps (Etempvar_cl i t) = [i]"
| "cl_expr_temps (Ederef_cl a t) = cl_expr_temps a"
| "cl_expr_temps (Eaddrof_cl a t) = cl_expr_temps a"
| "cl_expr_temps (Eunop_cl uop a t) = cl_expr_temps a"
| "cl_expr_temps (Ebinop_cl bop a b t) = cl_expr_temps a @ cl_expr_temps b"
| "cl_expr_temps (Ecast_cl a t) = cl_expr_temps a"
| "cl_expr_temps (Efield_cl a f t) = cl_expr_temps a"
| "cl_expr_temps _ = []"

fun cl_used_temps :: "cl_stmt \<Rightarrow> int list" and cl_case_temps :: "cl_switchCase list \<Rightarrow> int list" where
  "cl_used_temps (Sassign_cl a e) = cl_expr_temps a @ cl_expr_temps e"
| "cl_used_temps (Sset_cl i e) = i # cl_expr_temps e"
| "cl_used_temps (Scall_cl i f args) = cl_expr_temps f @ concat (map cl_expr_temps args) @ result_temps i"
| "cl_used_temps (Sbuiltin_cl i bf args) = concat (map cl_expr_temps args) @ result_temps i"
| "cl_used_temps (Ssequence_cl a b) = cl_used_temps a @ cl_used_temps b"
| "cl_used_temps (Sifthenelse_cl c a b) = cl_expr_temps c @ cl_used_temps a @ cl_used_temps b"
| "cl_used_temps (Sloop_cl a b) = cl_used_temps a @ cl_used_temps b"
| "cl_used_temps (Sreturn_cl e) = (case e of None \<Rightarrow> [] | Some a \<Rightarrow> cl_expr_temps a)"
| "cl_used_temps (Sswitch_cl e cs d hb) = cl_expr_temps e @ cl_case_temps cs @ cl_used_temps d"
| "cl_used_temps (Slabel_cl l a) = cl_used_temps a"
| "cl_used_temps _ = []"
| "cl_case_temps [] = []"
| "cl_case_temps (SwitchCase_cl v a # cs) = cl_used_temps a @ cl_case_temps cs"

definition cl_init_temps :: "cl_function \<Rightarrow> temps_env" where
  "cl_init_temps fn = (\<lambda>i. if 0 \<le> i \<and> i < int (length (cl_temps fn)) \<or> i \<in> set (cl_used_temps (cl_body fn)) then Some None else None)"

definition cl_init_params :: "cl_function \<Rightarrow> val list \<Rightarrow> cs_env" where
  "cl_init_params fn vs = (\<lambda>x. if x \<in> cv_name ` set (cl_params fn)
     then Some (the (map_of (zip (map cv_name (cl_params fn)) vs) x)) else None)"

inductive_cases cl_step_stmtE: "cl_step T E S body (LightStmt s k pe tmp m) t"
inductive_cases cl_step_finalE: "cl_step T E S body (LightFinal r) t"

lemma cl_address_param: "pe x \<noteq> None \<Longrightarrow> cl_lvalue T S pe tmp m (Evar_cl x t) = None"
  by (simp add: cl_address_def)

lemma cl_step_det: "cl_step T E S body s t \<Longrightarrow> cl_step T E S body s u \<Longrightarrow> t = u"
  by (cases rule: cl_step.cases) (auto elim: cl_step_stmtE simp: cl_address_def)

interpretation clight: determ "cl_step T E S body" cl_final for T E S body
proof
  show "cl_step T E S body s t \<Longrightarrow> cl_step T E S body s u \<Longrightarrow> t = u" for s t u by (rule cl_step_det)
  show "cl_final s r \<Longrightarrow> \<not> cl_step T E S body s t" for s t r by (cases s) (auto elim: cl_step_finalE)
  show "cl_final s r \<Longrightarrow> cl_final s q \<Longrightarrow> r = q" for s r q by (cases s) auto
qed

end
