(* ===== verification/Cshmgen.thy ===== *)
theory Cshmgen
  imports Clight Decimal
begin

text \<open>
  The pass from Clight to Csharpminor (\<open>pkg/cshmgen\<close>): \<open>operators.go\<close> chooses the typed operators,
  \<open>expr.go\<close> translates expressions and collects the string literals, \<open>stmt.go\<close> translates statements,
  \<open>program.go\<close> functions and programs. A parameter that is assigned gets a temporary of its own. Panics are
  \<open>None\<close>. The fields of the translators that are written but never read (nesting depths, the set of
  globals) are left out; the iteration order of Go maps is a parameter.
\<close>

section \<open>Operators\<close>

definition translateNeg :: "ctype \<Rightarrow> unaryOp" where
  "translateNeg t = (case t of Tint_c _ _ \<Rightarrow> Onegint_cs | Tlong_c _ \<Rightarrow> Onegl_cs
     | Tfloat_c sz \<Rightarrow> if sz = F32 then Onegs_cs else Onegf_cs | _ \<Rightarrow> Onegint_cs)"

definition translateBitnot :: "ctype \<Rightarrow> unaryOp" where
  "translateBitnot t = (case t of Tlong_c _ \<Rightarrow> Onotl_cs | _ \<Rightarrow> Onotint_cs)"

fun cshm_TranslateUnaryOp :: "cl_unaryOp \<Rightarrow> ctype \<Rightarrow> unaryOp" where
  "cshm_TranslateUnaryOp Oneg_cl t = translateNeg t"
| "cshm_TranslateUnaryOp Onotint_cl t = translateBitnot t"
| "cshm_TranslateUnaryOp Onotbool_cl t = Onotbool_cs"
| "cshm_TranslateUnaryOp Oabsfloat_cl t = Onegf_cs"

definition translateAdd :: "ctype \<Rightarrow> binaryOp" where
  "translateAdd t = (case t of Tint_c _ _ \<Rightarrow> Oadd_cs | Tlong_c _ \<Rightarrow> Oaddl_cs
     | Tfloat_c sz \<Rightarrow> if sz = F32 then Oadds_cs else Oaddf_cs | Tpointer_c _ \<Rightarrow> Oaddl_cs | _ \<Rightarrow> Oadd_cs)"

definition translateSub :: "ctype \<Rightarrow> binaryOp" where
  "translateSub t = (case t of Tint_c _ _ \<Rightarrow> Osub_cs | Tlong_c _ \<Rightarrow> Osubl_cs
     | Tfloat_c sz \<Rightarrow> if sz = F32 then Osubs_cs else Osubf_cs | Tpointer_c _ \<Rightarrow> Osubl_cs | _ \<Rightarrow> Osub_cs)"

definition translateMul :: "ctype \<Rightarrow> binaryOp" where
  "translateMul t = (case t of Tint_c _ _ \<Rightarrow> Omul_cs | Tlong_c _ \<Rightarrow> Omull_cs
     | Tfloat_c sz \<Rightarrow> if sz = F32 then Omuls_cs else Omulf_cs | _ \<Rightarrow> Omul_cs)"

definition translateDiv :: "ctype \<Rightarrow> binaryOp" where
  "translateDiv t = (case t of Tint_c _ sg \<Rightarrow> if sg = Unsigned then Odivu_cs else Odiv_cs
     | Tlong_c sg \<Rightarrow> if sg = Unsigned then Odivlu_cs else Odivl_cs
     | Tfloat_c sz \<Rightarrow> if sz = F32 then Odivs_cs else Odivf_cs | _ \<Rightarrow> Odiv_cs)"

definition translateMod :: "ctype \<Rightarrow> binaryOp" where
  "translateMod t = (case t of Tint_c _ sg \<Rightarrow> if sg = Unsigned then Omodu_cs else Omod_cs
     | Tlong_c sg \<Rightarrow> if sg = Unsigned then Omodlu_cs else Omodl_cs | _ \<Rightarrow> Omod_cs)"

definition translateAnd :: "ctype \<Rightarrow> binaryOp" where
  "translateAnd t = (case t of Tlong_c _ \<Rightarrow> Oandl_cs | _ \<Rightarrow> Oand_cs)"

definition translateOr :: "ctype \<Rightarrow> binaryOp" where
  "translateOr t = (case t of Tlong_c _ \<Rightarrow> Oorl_cs | _ \<Rightarrow> Oor_cs)"

definition translateXor :: "ctype \<Rightarrow> binaryOp" where
  "translateXor t = (case t of Tlong_c _ \<Rightarrow> Oxorl_cs | _ \<Rightarrow> Oxor_cs)"

definition translateShl :: "ctype \<Rightarrow> binaryOp" where
  "translateShl t = (case t of Tlong_c _ \<Rightarrow> Oshll_cs | _ \<Rightarrow> Oshl_cs)"

definition translateShr :: "ctype \<Rightarrow> binaryOp" where
  "translateShr t = (case t of Tint_c _ sg \<Rightarrow> if sg = Unsigned then Oshru_cs else Oshr_cs
     | Tlong_c sg \<Rightarrow> if sg = Unsigned then Oshrlu_cs else Oshrl_cs | _ \<Rightarrow> Oshr_cs)"

definition isUnsigned :: "ctype \<Rightarrow> bool" where
  "isUnsigned t \<longleftrightarrow> (case t of Tint_c _ sg \<Rightarrow> sg = Unsigned | Tlong_c sg \<Rightarrow> sg = Unsigned | _ \<Rightarrow> False)"

definition needsUnsignedInt :: "ctype \<Rightarrow> bool" where
  "needsUnsignedInt t \<longleftrightarrow> (case t of Tint_c sz sg \<Rightarrow> sg = Unsigned \<and> sz = I32 | Tlong_c sg \<Rightarrow> sg = Unsigned | _ \<Rightarrow> False)"

definition translateCmp :: "ctype \<Rightarrow> binaryOp" where
  "translateCmp t = (case t of Tint_c _ sg \<Rightarrow> if sg = Unsigned then Ocmpu_cs else Ocmp_cs
     | Tlong_c sg \<Rightarrow> if sg = Unsigned then Ocmplu_cs else Ocmpl_cs
     | Tfloat_c sz \<Rightarrow> if sz = F32 then Ocmps_cs else Ocmpf_cs | Tpointer_c _ \<Rightarrow> Ocmplu_cs | _ \<Rightarrow> Ocmp_cs)"

definition is_float :: "ctype \<Rightarrow> bool" where
  "is_float t \<longleftrightarrow> (case t of Tfloat_c _ \<Rightarrow> True | _ \<Rightarrow> False)"

definition is_pointer :: "ctype \<Rightarrow> bool" where
  "is_pointer t \<longleftrightarrow> (case t of Tpointer_c _ \<Rightarrow> True | _ \<Rightarrow> False)"

definition is_int :: "ctype \<Rightarrow> bool" where
  "is_int t \<longleftrightarrow> (case t of Tint_c _ _ \<Rightarrow> True | _ \<Rightarrow> False)"

definition translateCmpBoth :: "ctype \<Rightarrow> ctype \<Rightarrow> binaryOp" where
  "translateCmpBoth left right =
     (if is_float left then translateCmp left
      else if is_float right then translateCmp right
      else if is_pointer left \<or> is_pointer right then Ocmplu_cs
      else if is_long left \<or> is_long right then
        (if isUnsigned left \<and> isUnsigned right then Ocmplu_cs
         else if is_long left \<and> isUnsigned left \<or> is_long right \<and> isUnsigned right then Ocmplu_cs
         else Ocmpl_cs)
      else if needsUnsignedInt left \<or> needsUnsignedInt right then Ocmpu_cs
      else Ocmp_cs)"

fun cshm_TranslateBinaryOp :: "cl_binaryOp \<Rightarrow> ctype \<Rightarrow> ctype \<Rightarrow> binaryOp \<times> comparison" where
  "cshm_TranslateBinaryOp Oadd_cl left right = (translateAdd left, Ceq_cs)"
| "cshm_TranslateBinaryOp Osub_cl left right = (translateSub left, Ceq_cs)"
| "cshm_TranslateBinaryOp Omul_cl left right = (translateMul left, Ceq_cs)"
| "cshm_TranslateBinaryOp Odiv_cl left right = (translateDiv left, Ceq_cs)"
| "cshm_TranslateBinaryOp Omod_cl left right = (translateMod left, Ceq_cs)"
| "cshm_TranslateBinaryOp Oand_cl left right = (translateAnd left, Ceq_cs)"
| "cshm_TranslateBinaryOp Oor_cl left right = (translateOr left, Ceq_cs)"
| "cshm_TranslateBinaryOp Oxor_cl left right = (translateXor left, Ceq_cs)"
| "cshm_TranslateBinaryOp Oshl_cl left right = (translateShl left, Ceq_cs)"
| "cshm_TranslateBinaryOp Oshr_cl left right = (translateShr left, Ceq_cs)"
| "cshm_TranslateBinaryOp Oeq_cl left right = (translateCmpBoth left right, Ceq_cs)"
| "cshm_TranslateBinaryOp One_cl left right = (translateCmpBoth left right, Cne_cs)"
| "cshm_TranslateBinaryOp Olt_cl left right = (translateCmpBoth left right, Clt_cs)"
| "cshm_TranslateBinaryOp Ole_cl left right = (translateCmpBoth left right, Cle_cs)"
| "cshm_TranslateBinaryOp Ogt_cl left right = (translateCmpBoth left right, Cgt_cs)"
| "cshm_TranslateBinaryOp Oge_cl left right = (translateCmpBoth left right, Cge_cs)"

definition IsComparisonOp :: "cl_binaryOp \<Rightarrow> bool" where
  "IsComparisonOp bop \<longleftrightarrow> bop \<in> {Oeq_cl, One_cl, Olt_cl, Ogt_cl, Ole_cl, Oge_cl}"

text \<open>\<open>TranslateCast\<close> in the order of its tests; \<open>None\<close> stands for no conversion.\<close>

definition small_cast :: "ctype \<Rightarrow> unaryOp option" where
  "small_cast to = (case to of
     Tint_c sz sg \<Rightarrow>
       if sz = I8 then Some (if sg = Signed then Ocast8signed_cs else Ocast8unsigned_cs)
       else if sz = I16 then Some (if sg = Signed then Ocast16signed_cs else Ocast16unsigned_cs) else None
   | _ \<Rightarrow> None)"

definition cast_to_float :: "ctype \<Rightarrow> floatSize \<Rightarrow> unaryOp option" where
  "cast_to_float from sz = (case from of
     Tlong_c sg \<Rightarrow> Some (if sz = F32 then if sg = Unsigned then Osingleoflongu_cs else Osingleoflong_cs
         else if sg = Unsigned then Ofloatoflongu_cs else Ofloatoflong_cs)
   | Tint_c _ sg \<Rightarrow> Some (if sg = Unsigned then Ofloatofintu_cs else Ofloatofint_cs)
   | _ \<Rightarrow> None)"

definition cast_from_float :: "floatSize \<Rightarrow> ctype \<Rightarrow> unaryOp option" where
  "cast_from_float sz to = (case to of
     Tlong_c sg \<Rightarrow> Some (if sz = F32 then if sg = Unsigned then Olonguofsingle_cs else Olongofsingle_cs
         else if sg = Unsigned then Olonguoffloat_cs else Olongoffloat_cs)
   | Tint_c _ sg \<Rightarrow> Some (if sz = F32 then Ofloatofsingle_cs else if sg = Unsigned then Ointuoffloat_cs else Ointoffloat_cs)
   | _ \<Rightarrow> None)"

definition cast_ints :: "ctype \<Rightarrow> ctype \<Rightarrow> unaryOp option" where
  "cast_ints from to = (case to of
     Tlong_c _ \<Rightarrow> (case from of Tint_c _ sg \<Rightarrow> Some (if sg = Unsigned then Olongofintu_cs else Olongofint_cs) | _ \<Rightarrow> None)
   | Tint_c _ _ \<Rightarrow> (case from of Tlong_c _ \<Rightarrow> Some Ointoflong_cs | _ \<Rightarrow> None)
   | _ \<Rightarrow> None)"

definition TranslateCast :: "ctype \<Rightarrow> ctype \<Rightarrow> unaryOp option" where
  "TranslateCast from to =
     (if type_Equal from to then None
      else case small_cast to of Some op \<Rightarrow> Some op
      | None \<Rightarrow> (case from of
          Tfloat_c a \<Rightarrow> (case to of
              Tfloat_c b \<Rightarrow> if a = F64 \<and> b = F32 then Some Osingleoffloat_cs
                else if a = F32 \<and> b = F64 then Some Ofloatofsingle_cs else None
            | _ \<Rightarrow> cast_from_float a to)
        | _ \<Rightarrow> (case to of
              Tfloat_c b \<Rightarrow> cast_to_float from b
            | _ \<Rightarrow> cast_ints from to)))"

section \<open>Expressions\<close>

record exprTranslator =
  et_stringCounter :: int
  et_strings :: "(string \<times> string) list"
  et_paramTemps :: "string \<rightharpoonup> int"

definition translateConstInt :: "int64 \<Rightarrow> ctype \<Rightarrow> sm_expr" where
  "translateConstInt n t =
     (if is_long t then Econst_sm (Olongconst_sm n)
      else if n < -2147483648 \<or> n > 2147483647 then Econst_sm (Olongconst_sm n)
      else Econst_sm (Ointconst_sm (wrap32 n)))"

definition translateString :: "string \<Rightarrow> exprTranslator \<Rightarrow> sm_expr \<times> exprTranslator" where
  "translateString s et = (let lbl = ''.Lstr'' @ show_int (et_stringCounter et) in
     (Econst_sm (Oaddrsymbol_sm lbl 0),
      et\<lparr>et_stringCounter := et_stringCounter et + 1, et_strings := et_strings et @ [(lbl, s)]\<rparr>))"

definition cshm_translateVar :: "exprTranslator \<Rightarrow> string \<Rightarrow> sm_expr" where
  "cshm_translateVar et x = (case et_paramTemps et x of Some i \<Rightarrow> Etempvar_sm i | None \<Rightarrow> Evar_sm x)"

definition extendToLong :: "sm_expr \<Rightarrow> ctype \<Rightarrow> bool \<Rightarrow> sm_expr" where
  "extendToLong e t signedExtend = (case t of
     Tlong_c _ \<Rightarrow> e
   | Tint_c _ sg \<Rightarrow> if signedExtend \<and> sg \<noteq> Unsigned then Eunop_sm Olongofint_cs e else Eunop_sm Olongofintu_cs e
   | _ \<Rightarrow> if signedExtend then Eunop_sm Olongofint_cs e else Eunop_sm Olongofintu_cs e)"

definition translateBinop :: "cl_binaryOp \<Rightarrow> ctype \<Rightarrow> ctype \<Rightarrow> sm_expr \<Rightarrow> sm_expr \<Rightarrow> sm_expr" where
  "translateBinop bop leftType rightType left right =
     (let (op, cmp) = cshm_TranslateBinaryOp bop leftType rightType in
      if IsComparisonOp bop then
        (if op = Ocmpl_cs \<or> op = Ocmplu_cs
         then Ecmp_sm op cmp (extendToLong left leftType (op = Ocmpl_cs)) (extendToLong right rightType (op = Ocmpl_cs))
         else Ecmp_sm op cmp left right)
      else Ebinop_sm op left right)"

definition cshm_translateCast :: "ctype \<Rightarrow> ctype \<Rightarrow> sm_expr \<Rightarrow> sm_expr" where
  "cshm_translateCast from to a = (case TranslateCast from to of None \<Rightarrow> a | Some op \<Rightarrow> Eunop_sm op a)"

definition add_offset :: "sm_expr \<Rightarrow> int64 \<Rightarrow> sm_expr" where
  "add_offset baseAddr offset =
     (if offset = 0 then baseAddr else Ebinop_sm Oaddl_cs baseAddr (Econst_sm (Olongconst_sm offset)))"

fun cshm_TranslateExpr :: "cl_expr \<Rightarrow> exprTranslator \<Rightarrow> (sm_expr \<times> exprTranslator) option"
and translateLvalueAddr :: "cl_expr \<Rightarrow> exprTranslator \<Rightarrow> (sm_expr \<times> exprTranslator) option"
and TranslateFieldAddr :: "cl_expr \<Rightarrow> string \<Rightarrow> exprTranslator \<Rightarrow> (sm_expr \<times> exprTranslator) option" where
  "cshm_TranslateExpr (Econst_int n t) et = Some (translateConstInt n t, et)"
| "cshm_TranslateExpr (Econst_long n t) et = Some (Econst_sm (Olongconst_sm n), et)"
| "cshm_TranslateExpr (Econst_float x t) et = Some (Econst_sm (Ofloatconst_sm x), et)"
| "cshm_TranslateExpr (Econst_single x t) et = Some (Econst_sm (Osingleconst_sm x), et)"
| "cshm_TranslateExpr (Estring s t) et = Some (translateString s et)"
| "cshm_TranslateExpr (Evar_cl x t) et = Some (cshm_translateVar et x, et)"
| "cshm_TranslateExpr (Etempvar_cl i t) et = Some (Etempvar_sm i, et)"
| "cshm_TranslateExpr (Eunop_cl uop a t) et = do {
     (a', et) \<leftarrow> cshm_TranslateExpr a et;
     Some (Eunop_sm (cshm_TranslateUnaryOp uop (ExprType a)) a', et)
   }"
| "cshm_TranslateExpr (Ebinop_cl bop a b t) et = do {
     (a', et) \<leftarrow> cshm_TranslateExpr a et;
     (b', et) \<leftarrow> cshm_TranslateExpr b et;
     Some (translateBinop bop (ExprType a) (ExprType b) a' b', et)
   }"
| "cshm_TranslateExpr (Ecast_cl a t) et = do {
     (a', et) \<leftarrow> cshm_TranslateExpr a et;
     Some (cshm_translateCast (ExprType a) t a', et)
   }"
| "cshm_TranslateExpr (Ederef_cl a t) et = do {
     (a', et) \<leftarrow> cshm_TranslateExpr a et;
     Some (Eload_sm (ChunkForType t) a', et)
   }"
| "cshm_TranslateExpr (Eaddrof_cl a t) et = translateLvalueAddr a et"
| "cshm_TranslateExpr (Efield_cl a f t) et = do {
     (a', et) \<leftarrow> TranslateFieldAddr a f et;
     Some (Eload_sm (ChunkForType t) a', et)
   }"
| "cshm_TranslateExpr (Esizeof_cl u t) et = Some (Econst_sm (Ointconst_sm (wrap32 (sizeofType u))), et)"
| "cshm_TranslateExpr (Ealignof_cl u t) et = Some (Econst_sm (Ointconst_sm (wrap32 (alignofType u))), et)"
| "translateLvalueAddr (Evar_cl x t) et = Some (Eaddrof_sm x, et)"
| "translateLvalueAddr (Ederef_cl a t) et = cshm_TranslateExpr a et"
| "translateLvalueAddr (Efield_cl a f t) et = TranslateFieldAddr a f et"
| "translateLvalueAddr _ et = None"
| "TranslateFieldAddr a f et = do {
     (baseAddr, et) \<leftarrow> translateLvalueAddr a et;
     Some (add_offset baseAddr (fieldOffset (ExprType a) f), et)
   }"

primrec cshm_translate_list :: "cl_expr list \<Rightarrow> exprTranslator \<Rightarrow> (sm_expr list \<times> exprTranslator) option" where
  "cshm_translate_list [] et = Some ([], et)"
| "cshm_translate_list (e # es) et = do {
     (e', et) \<leftarrow> cshm_TranslateExpr e et;
     (es', et) \<leftarrow> cshm_translate_list es et;
     Some (e' # es', et)
   }"

section \<open>Statements\<close>

record stmtTranslator =
  st_expr :: exprTranslator
  st_params :: "string set"
  st_paramTemps :: "string \<rightharpoonup> int"
  st_nextTempID :: int

definition getOrCreateParamTemp :: "string \<Rightarrow> stmtTranslator \<Rightarrow> int \<times> stmtTranslator" where
  "getOrCreateParamTemp x st = (case st_paramTemps st x of
     Some i \<Rightarrow> (i, st)
   | None \<Rightarrow> (let i = st_nextTempID st in
       (i, st\<lparr>st_nextTempID := i + 1, st_paramTemps := (st_paramTemps st)(x \<mapsto> i)\<rparr>)))"

text \<open>Run a translation of expressions inside the translator of statements.\<close>

definition with_expr :: "(exprTranslator \<Rightarrow> ('a \<times> exprTranslator) option) \<Rightarrow> stmtTranslator \<Rightarrow> ('a \<times> stmtTranslator) option" where
  "with_expr f st = map_option (\<lambda>(a, et). (a, st\<lparr>st_expr := et\<rparr>)) (f (st_expr st))"

definition cshm_translateAssign :: "cl_expr \<Rightarrow> cl_expr \<Rightarrow> stmtTranslator \<Rightarrow> (sm_stmt \<times> stmtTranslator) option" where
  "cshm_translateAssign lhs rhs st = do {
     (v, st) \<leftarrow> with_expr (cshm_TranslateExpr rhs) st;
     case lhs of
       Evar_cl x t \<Rightarrow>
         if x \<in> st_params st
         then (let (i, st) = getOrCreateParamTemp x st in Some (Sset_sm i v, st))
         else Some (Sstore_sm (ChunkForType t) (Eaddrof_sm x) v, st)
     | _ \<Rightarrow> do {
         (addr, st) \<leftarrow> with_expr (translateLvalueAddr lhs) st;
         Some (Sstore_sm (ChunkForType (ExprType lhs)) addr v, st)
       }
   }"

fun cshm_TranslateStmt :: "cl_stmt \<Rightarrow> stmtTranslator \<Rightarrow> (sm_stmt \<times> stmtTranslator) option"
and cshm_TranslateCases :: "cl_switchCase list \<Rightarrow> stmtTranslator \<Rightarrow> (sm_switchCase list \<times> stmtTranslator) option" where
  "cshm_TranslateStmt Sskip_cl st = Some (Sskip_sm, st)"
| "cshm_TranslateStmt (Sassign_cl lhs rhs) st = cshm_translateAssign lhs rhs st"
| "cshm_TranslateStmt (Sset_cl i e) st = do {
     (e', st) \<leftarrow> with_expr (cshm_TranslateExpr e) st;
     Some (Sset_sm i e', st)
   }"
| "cshm_TranslateStmt (Scall_cl i f args) st = do {
     (f', st) \<leftarrow> with_expr (cshm_TranslateExpr f) st;
     (args', st) \<leftarrow> with_expr (cshm_translate_list args) st;
     Some (Scall_sm i None f' args', st)
   }"
| "cshm_TranslateStmt (Sbuiltin_cl i bf args) st = do {
     (args', st) \<leftarrow> with_expr (cshm_translate_list args) st;
     Some (Sbuiltin_sm i bf args', st)
   }"
| "cshm_TranslateStmt (Ssequence_cl a b) st = do {
     (a', st) \<leftarrow> cshm_TranslateStmt a st;
     (b', st) \<leftarrow> cshm_TranslateStmt b st;
     Some (Sseq_sm a' b', st)
   }"
| "cshm_TranslateStmt (Sifthenelse_cl c a b) st = do {
     (c', st) \<leftarrow> with_expr (cshm_TranslateExpr c) st;
     (a', st) \<leftarrow> cshm_TranslateStmt a st;
     (b', st) \<leftarrow> cshm_TranslateStmt b st;
     Some (Sifthenelse_sm c' a' b', st)
   }"
| "cshm_TranslateStmt (Sloop_cl a b) st = do {
     (a', st) \<leftarrow> cshm_TranslateStmt a st;
     (b', st) \<leftarrow> cshm_TranslateStmt b st;
     Some (Sblock_sm (Sloop_sm (Seq_sm [Sblock_sm a', b'])), st)
   }"
| "cshm_TranslateStmt Sbreak_cl st = Some (Sexit_sm 1, st)"
| "cshm_TranslateStmt Scontinue_cl st = Some (Sexit_sm 0, st)"
| "cshm_TranslateStmt (Sreturn_cl None) st = Some (Sreturn_sm None, st)"
| "cshm_TranslateStmt (Sreturn_cl (Some e)) st = do {
     (e', st) \<leftarrow> with_expr (cshm_TranslateExpr e) st;
     Some (Sreturn_sm (Some e'), st)
   }"
| "cshm_TranslateStmt (Sswitch_cl e cs d hb) st = do {
     (e', st) \<leftarrow> with_expr (cshm_TranslateExpr e) st;
     (cs', st) \<leftarrow> cshm_TranslateCases cs st;
     (d', st) \<leftarrow> cshm_TranslateStmt d st;
     Some (Sswitch_sm (is_long (ExprType e)) e' cs' d', st)
   }"
| "cshm_TranslateStmt (Slabel_cl l a) st = do {
     (a', st) \<leftarrow> cshm_TranslateStmt a st;
     Some (Slabel_sm l a', st)
   }"
| "cshm_TranslateStmt (Sgoto_cl l) st = Some (Sgoto_sm l, st)"
| "cshm_TranslateCases [] st = Some ([], st)"
| "cshm_TranslateCases (SwitchCase_cl v a # cs) st = do {
     (a', st) \<leftarrow> cshm_TranslateStmt a st;
     (cs', st) \<leftarrow> cshm_TranslateCases cs st;
     Some (SwitchCase_sm v a' # cs', st)
   }"

section \<open>Functions and programs\<close>

fun scanForModifiedParams :: "cl_stmt \<Rightarrow> string set \<Rightarrow> string set \<Rightarrow> string set"
and scan_cases :: "cl_switchCase list \<Rightarrow> string set \<Rightarrow> string set \<Rightarrow> string set" where
  "scanForModifiedParams (Sassign_cl lhs rhs) params modified = (case lhs of
     Evar_cl x t \<Rightarrow> if x \<in> params then insert x modified else modified | _ \<Rightarrow> modified)"
| "scanForModifiedParams (Ssequence_cl a b) params modified =
     scanForModifiedParams b params (scanForModifiedParams a params modified)"
| "scanForModifiedParams (Sifthenelse_cl c a b) params modified =
     scanForModifiedParams b params (scanForModifiedParams a params modified)"
| "scanForModifiedParams (Sloop_cl a b) params modified =
     scanForModifiedParams b params (scanForModifiedParams a params modified)"
| "scanForModifiedParams (Sswitch_cl e cs d hb) params modified =
     scanForModifiedParams d params (scan_cases cs params modified)"
| "scanForModifiedParams (Slabel_cl l a) params modified = scanForModifiedParams a params modified"
| "scanForModifiedParams _ params modified = modified"
| "scan_cases [] params modified = modified"
| "scan_cases (SwitchCase_cl v a # cs) params modified = scan_cases cs params (scanForModifiedParams a params modified)"

text \<open>The modified parameters, which are among \<open>params\<close>, in some order.\<close>

definition findModifiedParams :: "(string list \<Rightarrow> string list) \<Rightarrow> cl_stmt \<Rightarrow> string list \<Rightarrow> string list" where
  "findModifiedParams perm body params =
     perm (filter (\<lambda>x. x \<in> scanForModifiedParams body (set params) {}) (remdups params))"

definition resolveStructType :: "ctype \<Rightarrow> (string \<rightharpoonup> field list) \<Rightarrow> ctype" where
  "resolveStructType t defs = (case t of
     Tstruct_c name fs \<Rightarrow> (case defs name of Some fs' \<Rightarrow> Tstruct_c name fs' | None \<Rightarrow> t)
   | _ \<Rightarrow> t)"

definition isSignedType :: "ctype \<Rightarrow> bool" where
  "isSignedType t \<longleftrightarrow> (case t of Tint_c _ sg \<Rightarrow> sg = Signed | Tlong_c sg \<Rightarrow> sg = Signed | _ \<Rightarrow> True)"

definition translate_decl :: "(string \<rightharpoonup> field list) \<Rightarrow> bool \<Rightarrow> cl_varDecl \<Rightarrow> varDecl" where
  "translate_decl defs keep_init d = (let t = resolveStructType (cv_type d) defs in
     \<lparr>vd_name = cv_name d, vd_size = sizeofType t, vd_init = (if keep_init then cv_init d else []),
      vd_readOnly = False, vd_signed = isSignedType t\<rparr>)"

definition number_params :: "string list \<Rightarrow> int \<Rightarrow> string \<rightharpoonup> int" where
  "number_params xs n = map_of (zip xs (map (\<lambda>i. n + int i) [0..<length xs]))"

definition translateFunctionWithStructs ::
  "(string list \<Rightarrow> string list) \<Rightarrow> (string list \<Rightarrow> string list) \<Rightarrow> cl_function \<Rightarrow> (string \<rightharpoonup> field list) \<Rightarrow> exprTranslator \<Rightarrow>
    (sm_function \<times> exprTranslator) option" where
  "translateFunctionWithStructs perm perm' fn defs et =
     (let params = map cv_name (cl_params fn);
          modified = findModifiedParams perm (cl_body fn) params;
          n = int (length (cl_temps fn));
          paramTemps = number_params modified n;
          st = \<lparr>st_expr = et\<lparr>et_paramTemps := paramTemps\<rparr>, st_params = set params, st_paramTemps = paramTemps,
            st_nextTempID = n + int (length modified)\<rparr>
      in do {
        (body, st) \<leftarrow> cshm_TranslateStmt (cl_body fn) st;
        Some (\<lparr>sm_name = cl_name fn,
            sm_fsig = \<lparr>sm_args = map (\<lambda>p. Some (cv_type p)) (cl_params fn), sm_return = Some (cl_return fn), sm_vararg = False\<rparr>,
            sm_params = params, sm_locals = map (translate_decl defs False) (cl_locals fn),
            sm_temps = map Some (cl_temps fn) @ map (map_of (map (\<lambda>p. (cv_name p, cv_type p)) (rev (cl_params fn)))) modified,
            sm_body = (if modified = [] then body
              else Seq_sm (map (\<lambda>x. Sset_sm (the (paramTemps x)) (Evar_sm x)) (perm' modified) @ [body]))\<rparr>,
          (st_expr st)\<lparr>et_paramTemps := Map.empty\<rparr>)
      })"

fun cshm_functions :: "(string list \<Rightarrow> string list) \<Rightarrow> (string list \<Rightarrow> string list) \<Rightarrow> (string \<rightharpoonup> field list) \<Rightarrow> cl_function list \<Rightarrow>
    exprTranslator \<Rightarrow> (sm_function list \<times> exprTranslator) option" where
  "cshm_functions perm perm' defs [] et = Some ([], et)"
| "cshm_functions perm perm' defs (fn # fns) et = do {
     (f, et) \<leftarrow> translateFunctionWithStructs perm perm' fn defs et;
     (fs, et) \<leftarrow> cshm_functions perm perm' defs fns et;
     Some (f # fs, et)
   }"

definition string_global :: "string \<times> string \<Rightarrow> varDecl" where
  "string_global str = (let data = map of_char (snd str) @ [0] in
     \<lparr>vd_name = fst str, vd_size = int (length data), vd_init = data, vd_readOnly = True, vd_signed = False\<rparr>)"

definition struct_defs :: "(string \<times> field list) list \<Rightarrow> string \<rightharpoonup> field list" where
  "struct_defs structs = map_of (rev structs)"

definition NewExprTranslator :: exprTranslator where
  "NewExprTranslator = \<lparr>et_stringCounter = 0, et_strings = [], et_paramTemps = Map.empty\<rparr>"

definition cshm_TranslateProgram ::
  "(string list \<Rightarrow> string list) \<Rightarrow> (string list \<Rightarrow> string list) \<Rightarrow> cl_program \<Rightarrow> sm_program option" where
  "cshm_TranslateProgram perm perm' p = (let defs = struct_defs (cl_structs p) in do {
     (fs, et) \<leftarrow> cshm_functions perm perm' defs (cl_functions p) NewExprTranslator;
     Some \<lparr>sm_globals = map (translate_decl defs True) (cl_globals p) @ map string_global (et_strings et), sm_functions = fs\<rparr>
   })"

end
