(* ===== verification/CshmgenOps.thy ===== *)
theory CshmgenOps
  imports Cshmgen
begin

text \<open>
  The operators that the pass to Csharpminor chooses compute what C prescribes, for the operand types on which
  they do: unary operators, arithmetic, shifts, comparisons and conversions.
\<close>

section \<open>Words and integers\<close>

lemma of_int_choice [simp]: "of_int (if b then sint x else uint x) = x" for x :: "'a::len word"
  by simp

lemma conv_int [simp]:
  "conv (Tint_c sz sg) (if b then sint x else uint x) = (if sg = Signed then sint x else uint x)"
  "conv (Tint_c sz sg) (sint x) = (if sg = Signed then sint x else uint x)"
  "conv (Tint_c sz sg) (uint x) = (if sg = Signed then sint x else uint x)" for x :: w32
  by simp_all

lemma conv_long [simp]:
  "conv (Tlong_c sg) (if b then sint x else uint x) = (if sg = Signed then sint x else uint x)"
  "conv (Tlong_c sg) (sint x) = (if sg = Signed then sint x else uint x)"
  "conv (Tlong_c sg) (uint x) = (if sg = Signed then sint x else uint x)" for x :: w64
  by simp_all

declare conv.simps [simp del]

lemma go_div_sdiv: "go_div a b = a sdiv b"
  by (simp add: go_div_def signed_divide_int_def)

lemma go_rem_smod: "go_rem a b = a smod b"
  by (simp add: go_rem_def go_div_sdiv minus_sdiv_mult_eq_smod)

lemma go_div_uint: "of_int (go_div (uint x) (uint y)) = x div y" for x y :: "'a::len word"
proof -
  have "go_div (uint x) (uint y) = uint x div uint y"
    using uint_ge_0 [of x] uint_ge_0 [of y] by (cases "uint x = 0 \<or> uint y = 0") (auto simp: go_div_def sgn_if order.order_iff_strict)
  then show ?thesis by (simp add: word_div_def)
qed

lemma go_rem_uint: "of_int (go_rem (uint x) (uint y)) = x mod y" for x y :: "'a::len word"
  by (simp add: go_rem_def go_div_uint minus_div_mult_eq_mod)

lemma sint_minus_one: "sint y = - 1 \<longleftrightarrow> y = - 1" for y :: "'a::len word"
proof
  assume "sint y = - 1"
  then have "(of_int (sint y) :: 'a word) = of_int (- 1)" by (rule arg_cong)
  then show "y = - 1" by simp
qed simp

lemma sint_zero: "sint y = 0 \<longleftrightarrow> y = 0" for y :: "'a::len word"
proof
  assume "sint y = 0"
  then have "(of_int (sint y) :: 'a word) = of_int 0" by (rule arg_cong)
  then show "y = 0" by simp
qed simp

lemma sdiv_ok_int: "sdiv_ok x y \<longleftrightarrow> sint y \<noteq> 0 \<and> \<not> (sint x = - (2 ^ (LENGTH('a) - 1)) \<and> sint y = - 1)" for x y :: "'a::len word"
  by (simp add: sdiv_ok_def sint_minus_one sint_zero)

lemma of_int_bits: "of_int (a AND b) = (of_int a AND of_int b :: 'a::len word)"
  "of_int (a OR b) = (of_int a OR of_int b :: 'a::len word)"
  "of_int (a XOR b) = (of_int a XOR of_int b :: 'a::len word)"
  "of_int (NOT a) = (NOT (of_int a) :: 'a::len word)"
  by (simp_all add: of_int_and_eq of_int_or_eq of_int_xor_eq of_int_not_eq)

lemma shift_words:
  "of_int (sint x * 2 ^ n) = push_bit n x" "of_int (uint x * 2 ^ n) = push_bit n x"
  "of_int (uint x div 2 ^ n) = drop_bit n x" "of_int (sint x div 2 ^ n) = signed_drop_bit n x" for x :: "'a::len word"
proof -
  show "of_int (sint x * 2 ^ n) = push_bit n x" "of_int (uint x * 2 ^ n) = push_bit n x"
    by (simp_all add: push_bit_eq_mult)
  have "uint (drop_bit n x) = uint x div 2 ^ n" by (simp only: unsigned_drop_bit_eq) (simp add: drop_bit_eq_div take_bit_int_eq_self)
  from this [symmetric] show "of_int (uint x div 2 ^ n) = drop_bit n x" by simp
  have "sint (signed_drop_bit n x) = sint x div 2 ^ n" by (simp add: sint_signed_drop_bit_eq drop_bit_eq_div)
  from this [symmetric] show "of_int (sint x div 2 ^ n) = signed_drop_bit n x" by simp
qed

lemma shift_count:
  "int_of (Tint_c sz sg) w = Some n \<Longrightarrow> k \<le> 64 \<Longrightarrow> 0 \<le> n \<and> n < int k \<Longrightarrow> shift_ok w k \<and> unat (lo w) = nat n"
proof -
  assume n: "int_of (Tint_c sz sg) w = Some n" and k: "k \<le> 64" "0 \<le> n \<and> n < int k"
  have "lo w = of_int n" using n by auto
  then have "uint (lo w) = n" using k by (simp add: uint_word_of_int)
  then have "unat (lo w) = nat n" by (simp only: unat_eq_nat_uint)
  with k show ?thesis by (auto simp: shift_ok_def)
qed

section \<open>Unary operators\<close>

text \<open>The operand types on which the chosen operator is right: logical negation looks at 32 bits only.\<close>

definition unop_typed :: "cl_unaryOp \<Rightarrow> ctype \<Rightarrow> bool" where
  "unop_typed uop t \<longleftrightarrow> (case uop of
     Onotbool_cl \<Rightarrow> is_int t | Onotint_cl \<Rightarrow> is_int t \<or> is_long t
   | Oneg_cl \<Rightarrow> is_int t \<or> is_long t \<or> is_float t | Oabsfloat_cl \<Rightarrow> False)"

lemma unop_translated:
  assumes "unop_typed uop t"
  shows "word_unop T (cshm_TranslateUnaryOp uop t) v = cl_unop T uop t v"
  using assms
  by (cases uop; cases t)
    (auto simp: unop_typed_def is_int_def is_long_def is_float_def cl_unop_def translateNeg_def translateBitnot_def
      cl_truth_def truth_word_def of_int_bits)

section \<open>Arithmetic\<close>

definition is_integer :: "ctype \<Rightarrow> bool" where
  "is_integer t \<longleftrightarrow> is_int t \<or> is_long t"

text \<open>
  Both operands 32-bit or both 64-bit integers, or floating-point numbers of one size; a pointer to single bytes
  and a long. For division and right shift the left operand decides whether the operator is signed, which is
  right unless the conversions of C change that.
\<close>

definition same_width :: "ctype \<Rightarrow> ctype \<Rightarrow> bool" where
  "same_width ta tb \<longleftrightarrow> is_int ta \<and> is_int tb \<or> is_long ta \<and> is_long tb"

definition sign_kept :: "ctype \<Rightarrow> ctype \<Rightarrow> bool" where
  "sign_kept ta tb \<longleftrightarrow> (case common ta tb of Some c \<Rightarrow> isUnsigned c = isUnsigned ta | None \<Rightarrow> False)"

definition arith_typed :: "cl_binaryOp \<Rightarrow> ctype \<Rightarrow> ctype \<Rightarrow> bool" where
  "arith_typed bop ta tb \<longleftrightarrow>
     same_width ta tb \<and> (bop = Odiv_cl \<or> bop = Omod_cl \<longrightarrow> sign_kept ta tb) \<or>
     is_float ta \<and> tb = ta \<and> bop \<in> {Oadd_cl, Osub_cl, Omul_cl, Odiv_cl}"

definition arith_op :: "cl_binaryOp \<Rightarrow> bool" where
  "arith_op bop \<longleftrightarrow> bop \<in> {Oadd_cl, Osub_cl, Omul_cl, Odiv_cl, Omod_cl, Oand_cl, Oor_cl, Oxor_cl}"

text \<open>Division on words, for the two ways of reading them.\<close>

lemma signed_division:
  fixes x y :: "'a::len word"
  assumes "least_int t = - (2 ^ (LENGTH('a) - 1))"
  shows "int_arith t Odiv_cl (sint x) (sint y) = Some z \<Longrightarrow> sdiv_ok x y \<and> of_int z = sdiv_word x y"
    "int_arith t Omod_cl (sint x) (sint y) = Some z \<Longrightarrow> sdiv_ok x y \<and> of_int z = smod_word x y"
  using assms by (auto simp: sdiv_ok_int sdiv_word_def smod_word_def go_div_sdiv go_rem_smod)

lemma unsigned_division:
  fixes x y :: "'a::len word"
  shows "int_arith t Odiv_cl (uint x) (uint y) = Some z \<Longrightarrow> y \<noteq> 0 \<and> of_int z = x div y"
    "int_arith t Omod_cl (uint x) (uint y) = Some z \<Longrightarrow> y \<noteq> 0 \<and> of_int z = x mod y"
  by (auto simp: go_div_uint go_rem_uint)

lemma bit_arith:
  fixes x y :: "'a::len word"
  assumes "int_arith t bop a b = Some z" "of_int a = x" "of_int b = y"
  shows "bop = Oadd_cl \<Longrightarrow> of_int z = x + y" "bop = Osub_cl \<Longrightarrow> of_int z = x - y" "bop = Omul_cl \<Longrightarrow> of_int z = x * y"
    "bop = Oand_cl \<Longrightarrow> of_int z = x AND y" "bop = Oor_cl \<Longrightarrow> of_int z = x OR y" "bop = Oxor_cl \<Longrightarrow> of_int z = x XOR y"
  using assms by (auto simp: of_int_bits)

lemmas binop_choices = translateAdd_def translateSub_def translateMul_def translateDiv_def
  translateMod_def translateAnd_def translateOr_def translateXor_def

lemma int_arith_translated:
  assumes "arith_op bop" "bop = Odiv_cl \<or> bop = Omod_cl \<longrightarrow> g = ga"
    and z: "int_arith (Tint_c I32 g) bop (if g = Signed then sint (lo v) else uint (lo v))
      (if g = Signed then sint (lo w) else uint (lo w)) = Some z"
  shows "word_binop T (fst (cshm_TranslateBinaryOp bop (Tint_c sa ga) tb)) v w = Some (zx (of_int z))"
proof (cases "bop = Odiv_cl \<or> bop = Omod_cl")
  case True
  have signed: "least_int (Tint_c I32 Signed) = - (2 ^ (LENGTH(32) - 1))" by (simp add: least_int_def)
  show ?thesis
  proof (cases "g = Signed")
    case g: True
    with True assms(2) z signed_division [OF signed, of "lo v" "lo w" z] show ?thesis by (auto simp: binop_choices)
  next
    case False
    then have "g = Unsigned" by (cases g) auto
    with True assms(2) z unsigned_division [of "Tint_c I32 g" "lo v" "lo w" z] show ?thesis
      by (auto simp: binop_choices guarded_def)
  qed
next
  case False
  with assms(1) bit_arith [OF z, of "lo v" "lo w"] show ?thesis
    by (auto simp: arith_op_def binop_choices)
qed

lemma long_arith_translated:
  assumes "arith_op bop" "bop = Odiv_cl \<or> bop = Omod_cl \<longrightarrow> g = ga"
    and z: "int_arith (Tlong_c g) bop (if g = Signed then sint v else uint v) (if g = Signed then sint w else uint w) = Some z"
  shows "word_binop T (fst (cshm_TranslateBinaryOp bop (Tlong_c ga) tb)) v w = Some (of_int z)"
proof (cases "bop = Odiv_cl \<or> bop = Omod_cl")
  case True
  have signed: "least_int (Tlong_c Signed) = - (2 ^ (LENGTH(64) - 1))" by (simp add: least_int_def)
  show ?thesis
  proof (cases "g = Signed")
    case g: True
    with True assms(2) z signed_division [OF signed, of v w z] show ?thesis by (auto simp: binop_choices)
  next
    case False
    then have "g = Unsigned" by (cases g) auto
    with True assms(2) z unsigned_division [of "Tlong_c g" v w z] show ?thesis
      by (auto simp: binop_choices guarded_def)
  qed
next
  case False
  with assms(1) bit_arith [OF z, of v w] show ?thesis
    by (auto simp: arith_op_def binop_choices)
qed

lemma arith_translated:
  assumes "arith_op bop" "arith_typed bop ta tb" "cl_arith T bop ta tb v w = Some r"
  shows "word_binop T (fst (cshm_TranslateBinaryOp bop ta tb)) v w = Some r"
proof -
  consider (int) sa ga sb gb where "ta = Tint_c sa ga" "tb = Tint_c sb gb"
    | (long) ga gb where "ta = Tlong_c ga" "tb = Tlong_c gb" | (float) sz where "ta = Tfloat_c sz" "tb = Tfloat_c sz"
    using assms(2) by (auto simp: arith_typed_def same_width_def is_int_def is_long_def is_float_def split: ctype.splits)
  then show ?thesis
  proof cases
    case int
    obtain g where c: "common ta tb = Some (Tint_c I32 g)" by (simp add: int common_def)
    then have g: "bop = Odiv_cl \<or> bop = Omod_cl \<longrightarrow> g = ga"
      using assms(2) by (cases g; cases ga) (auto simp: int arith_typed_def is_float_def sign_kept_def isUnsigned_def)
    from assms(3) obtain z where "r = zx (of_int z)"
      "int_arith (Tint_c I32 g) bop (if g = Signed then sint (lo v) else uint (lo v)) (if g = Signed then sint (lo w) else uint (lo w)) = Some z"
      by (auto simp: cl_arith_def int c [unfolded int] bind_eq_Some_conv)
    with int_arith_translated [OF assms(1) g] show ?thesis by (simp add: int)
  next
    case long
    obtain g where c: "common ta tb = Some (Tlong_c g)" by (simp add: long common_def)
    then have g: "bop = Odiv_cl \<or> bop = Omod_cl \<longrightarrow> g = ga"
      using assms(2) by (cases g; cases ga) (auto simp: long arith_typed_def is_float_def sign_kept_def isUnsigned_def)
    from assms(3) obtain z where "r = of_int z"
      "int_arith (Tlong_c g) bop (if g = Signed then sint v else uint v) (if g = Signed then sint w else uint w) = Some z"
      by (auto simp: cl_arith_def long c [unfolded long] bind_eq_Some_conv)
    with long_arith_translated [OF assms(1) g] show ?thesis by (simp add: long)
  next
    case float
    with assms show ?thesis
      by (cases bop; cases sz) (auto simp: arith_typed_def same_width_def is_int_def is_long_def cl_arith_def common_def binop_choices)
  qed
qed

section \<open>Shifts and pointers\<close>

definition shift_typed :: "cl_binaryOp \<Rightarrow> ctype \<Rightarrow> ctype \<Rightarrow> bool" where
  "shift_typed bop ta tb \<longleftrightarrow> is_integer ta \<and> is_int tb \<and> (bop = Oshr_cl \<longrightarrow> isUnsigned (promote ta) = isUnsigned ta)"

lemma shift_translated:
  assumes "shift_typed bop ta tb" "bop = Oshl_cl \<or> bop = Oshr_cl" "cl_shift bop ta tb v w = Some r"
  shows "word_binop T (fst (cshm_TranslateBinaryOp bop ta tb)) v w = Some r"
proof -
  obtain sb gb where tb: "tb = Tint_c sb gb" using assms(1) by (auto simp: shift_typed_def is_int_def split: ctype.splits)
  from assms(3) obtain a n where a: "int_of (promote ta) v = Some a" and n: "int_of (Tint_c sb gb) w = Some n" "0 \<le> n" "n < cl_width ta"
    and r: "r = rep_int (promote ta) (if bop = Oshl_cl then a * 2 ^ nat n else a div 2 ^ nat n)"
    by (auto simp: cl_shift_def bind_eq_Some_conv tb simp del: int_of.simps)
  consider (int) sa ga where "ta = Tint_c sa ga" | (long) ga where "ta = Tlong_c ga"
    using assms(1) by (auto simp: shift_typed_def is_integer_def is_int_def is_long_def split: ctype.splits)
  then show ?thesis
  proof cases
    case int
    with shift_count [OF n(1), of 32] n have "shift_ok w 32" "unat (lo w) = nat n" by (auto simp: cl_width_def)
    with assms(1,2) a r int show ?thesis
      by (cases ga) (auto simp: translateShl_def translateShr_def guarded_def shift_words push_bit_eq_mult shift_typed_def isUnsigned_def
          split: if_splits)
  next
    case long
    with shift_count [OF n(1), of 64] n have "shift_ok w 64" "unat (lo w) = nat n" by (auto simp: cl_width_def)
    with assms(1,2) a r long show ?thesis
      by (cases ga) (auto simp: translateShl_def translateShr_def guarded_def shift_words push_bit_eq_mult shift_typed_def isUnsigned_def
          split: if_splits)
  qed
qed

definition pointer_typed :: "cl_binaryOp \<Rightarrow> ctype \<Rightarrow> ctype \<Rightarrow> bool" where
  "pointer_typed bop ta tb \<longleftrightarrow> bop \<in> {Oadd_cl, Osub_cl} \<and> is_long tb \<and>
     (case ta of Tpointer_c elem \<Rightarrow> size_opt elem = 1 | _ \<Rightarrow> False)"

lemma pointer_translated:
  assumes "pointer_typed bop (Tpointer_c elem) tb" "cl_pointer bop elem tb v w = Some r"
  shows "word_binop T (fst (cshm_TranslateBinaryOp bop (Tpointer_c elem) tb)) v w = Some r"
  using assms by (auto simp: pointer_typed_def is_long_def cl_pointer_def translateAdd_def translateSub_def split: ctype.splits)

section \<open>Comparisons\<close>

text \<open>
  Integers, unless a signed int meets an unsigned long, which the pass extends without its sign, and
  floating-point numbers of one size. Pointers are cut to 32 bits and not among them.
\<close>

definition compare_typed :: "ctype \<Rightarrow> ctype \<Rightarrow> bool" where
  "compare_typed ta tb \<longleftrightarrow> is_float ta \<and> tb = ta \<or>
     is_integer ta \<and> is_integer tb \<and>
     \<not> (ta = Tlong_c Unsigned \<and> is_int tb \<and> \<not> isUnsigned tb) \<and> \<not> (tb = Tlong_c Unsigned \<and> is_int ta \<and> \<not> isUnsigned ta)"

text \<open>What the operand is extended to, when the comparison is one of longs.\<close>

definition extended :: "binaryOp \<Rightarrow> ctype \<Rightarrow> w64 \<Rightarrow> w64" where
  "extended bop t v = (if bop \<noteq> Ocmpl_cs \<and> bop \<noteq> Ocmplu_cs then v else
     case t of Tlong_c _ \<Rightarrow> v | Tint_c _ g \<Rightarrow> if bop = Ocmpl_cs \<and> g = Signed then scast (lo v) else zx (lo v) | _ \<Rightarrow> zx (lo v))"

lemma extend_words [simp]: "uint (ucast x :: w64) = uint x" "sint (ucast x :: w64) = uint x" for x :: w32
proof -
  have bound: "0 \<le> uint x" "uint x < 2 ^ 32" using uint_lt2p [of x] by simp_all
  then show eq: "uint (ucast x :: w64) = uint x" by (simp add: unsigned_ucast_eq take_bit_int_eq_self)
  have "signed_take_bit 63 (uint x) = uint x"
  proof (rule signed_take_bit_int_eq_self)
    show "- (2 ^ 63) \<le> uint x" using bound(1) by (rule order_trans [rotated]) simp
    show "uint x < 2 ^ 63" using bound(2) by simp
  qed
  then show "sint (ucast x :: w64) = uint x" by (simp add: sint_uint eq)
qed

lemma extend_zx [simp]: "uint (zx x) = uint x" "sint (zx x) = uint x"
  by (simp_all add: zx_def)

lemma sint_scast_lo [simp]: "sint (scast x :: w64) = sint x" for x :: w32
  by (simp add: sint_up_scast is_up)

lemma compare_translated:
  assumes "compare_typed ta tb" "cl_compare T c ta tb v w = Some t" "bop = translateCmpBoth ta tb"
  shows "word_cmp T bop c (extended bop ta v) (extended bop tb w) = Some t"
proof -
  consider (float) sz where "ta = Tfloat_c sz" "tb = Tfloat_c sz"
    | (int) sa ga sb gb where "ta = Tint_c sa ga" "tb = Tint_c sb gb"
    | (long) ga gb where "ta = Tlong_c ga" "tb = Tlong_c gb"
    | (left) ga sb gb where "ta = Tlong_c ga" "tb = Tint_c sb gb" "ga = Unsigned \<longrightarrow> gb = Unsigned"
    | (right) sa ga gb where "ta = Tint_c sa ga" "tb = Tlong_c gb" "gb = Unsigned \<longrightarrow> ga = Unsigned"
    using assms(1) by (auto simp: compare_typed_def is_integer_def is_int_def is_long_def is_float_def isUnsigned_def split: ctype.splits)
  then show ?thesis
  proof cases
    case float
    with assms(2,3) show ?thesis
      by (cases sz) (auto simp: cl_compare_def common_def translateCmpBoth_def is_float_def translateCmp_def extended_def)
  next
    case int
    with assms(2,3) show ?thesis
      by (cases ga; cases gb)
        (auto simp: cl_compare_def common_def translateCmpBoth_def is_float_def is_pointer_def is_long_def extended_def
          needsUnsignedInt_def split: if_splits)
  next
    case long
    with assms(2,3) show ?thesis
      by (cases ga; cases gb)
        (auto simp: cl_compare_def common_def translateCmpBoth_def is_float_def is_pointer_def is_long_def isUnsigned_def extended_def)
  next
    case left
    with assms(2,3) show ?thesis
      by (cases ga; cases gb)
        (auto simp: cl_compare_def common_def translateCmpBoth_def is_float_def is_pointer_def is_long_def isUnsigned_def extended_def
          conv.simps)
  next
    case right
    with assms(2,3) show ?thesis
      by (cases ga; cases gb)
        (auto simp: cl_compare_def common_def translateCmpBoth_def is_float_def is_pointer_def is_long_def isUnsigned_def extended_def
          conv.simps)
  qed
qed

section \<open>Conversions\<close>

text \<open>
  Conversions between integer types except to \<open>_Bool\<close>, between the floating-point types, of ints and longs to
  double, of doubles to 32-bit ints and to longs, and between pointers and longs.
\<close>

definition cast_typed :: "ctype \<Rightarrow> ctype \<Rightarrow> bool" where
  "cast_typed from to \<longleftrightarrow>
     is_integer from \<and> (is_integer to \<and> (\<forall>g. to \<noteq> Tint_c IBool g) \<or> to = Tfloat_c F64) \<or>
     is_float from \<and> is_float to \<or>
     from = Tfloat_c F64 \<and> (is_long to \<or> (\<exists>g. to = Tint_c I32 g)) \<or>
     is_pointer from \<and> (is_pointer to \<or> is_long to) \<or> is_long from \<and> is_pointer to"

definition apply_cast :: "target \<Rightarrow> unaryOp option \<Rightarrow> w64 \<Rightarrow> w64 option" where
  "apply_cast T op v = (case op of None \<Rightarrow> Some v | Some u \<Rightarrow> word_unop T u v)"

lemma same_bits_reads: "same_bits from to \<Longrightarrow> int_of from v = Some z \<Longrightarrow> int_of to v = Some (conv to z) \<or> to = from"
  by (cases "from"; cases "to") (auto simp: same_bits_def)

lemma type_Equal_simps:
  "type_Equal (Tint_c sz sg) t \<longleftrightarrow> t = Tint_c sz sg" "type_Equal (Tlong_c sg) t \<longleftrightarrow> t = Tlong_c sg"
  "type_Equal (Tfloat_c fz) t \<longleftrightarrow> t = Tfloat_c fz"
  by (cases t; auto)+

lemma narrow_words:
  "(scast (lo v) :: w8) = ucast v" "(ucast (lo v) :: w8) = ucast v" "(scast v :: w8) = ucast v"
  "(scast (lo v) :: w16) = ucast v" "(ucast (lo v) :: w16) = ucast v" "(scast v :: w16) = ucast v"
  "(scast v :: w32) = lo v" "(ucast v :: w32) = lo v"
  by (rule bit_word_eqI, auto simp: bit_simps lo_def)+

lemma narrow_ints:
  "(of_int (if b then sint (lo v) else uint (lo v)) :: w8) = ucast v" "(of_int (if b then sint v else uint v) :: w8) = ucast v"
  "(of_int (if b then sint (lo v) else uint (lo v)) :: w16) = ucast v" "(of_int (if b then sint v else uint v) :: w16) = ucast v"
  "(of_int (if b then sint v else uint v) :: w32) = lo v" for v :: w64
  by (auto simp: narrow_words)

lemma integer_cast_translated:
  assumes "is_integer from" "is_integer to" "\<forall>g. to \<noteq> Tint_c IBool g" "cl_cast T from to v = Some r"
  shows "apply_cast T (TranslateCast from to) v = Some r"
proof -
  have "from = Tint_c sz sg \<Longrightarrow> to = Tint_c sz' sg' \<Longrightarrow> ?thesis" for sz sg sz' sg'
    using assms(3,4)
    by (cases sz'; cases sg')
      (auto simp: apply_cast_def TranslateCast_def type_Equal_simps small_cast_def cast_ints_def cl_cast_def int_cast_def
        same_bits_def narrow_ints narrow_words)
  moreover have "from = Tint_c sz sg \<Longrightarrow> to = Tlong_c sg' \<Longrightarrow> ?thesis" for sz sg sg'
    using assms(4)
    by (cases sg) (auto simp: apply_cast_def TranslateCast_def type_Equal_simps small_cast_def cast_ints_def cl_cast_def
        int_cast_def same_bits_def zx_def)
  moreover have "from = Tlong_c sg \<Longrightarrow> to = Tint_c sz' sg' \<Longrightarrow> ?thesis" for sg sz' sg'
    using assms(3,4)
    by (cases sz'; cases sg')
      (auto simp: apply_cast_def TranslateCast_def type_Equal_simps small_cast_def cast_ints_def cl_cast_def int_cast_def
        same_bits_def narrow_ints narrow_words)
  moreover have "from = Tlong_c sg \<Longrightarrow> to = Tlong_c sg' \<Longrightarrow> ?thesis" for sg sg'
    using assms(4) by (auto simp: apply_cast_def TranslateCast_def type_Equal_simps small_cast_def cast_ints_def cl_cast_def
        int_cast_def same_bits_def)
  ultimately show ?thesis using assms(1,2) by (auto simp: is_integer_def is_int_def is_long_def split: ctype.splits)
qed

lemma two_values: "sg \<noteq> Signed \<longleftrightarrow> sg = Unsigned" "sz \<noteq> F32 \<longleftrightarrow> sz = F64" "F32 \<noteq> sz \<longleftrightarrow> sz = F64"
  by (cases sg; simp) (cases sz; simp)+

lemma cast_translated:
  assumes "cast_typed from to" "cl_cast T from to v = Some r"
  shows "apply_cast T (TranslateCast from to) v = Some r"
proof (cases "is_integer from \<and> is_integer to")
  case True
  then have "\<forall>g. to \<noteq> Tint_c IBool g"
    using assms(1) by (auto simp: cast_typed_def is_integer_def is_int_def is_long_def is_float_def is_pointer_def split: ctype.splits)
  with integer_cast_translated True assms(2) show ?thesis by blast
next
  case False
  with assms show ?thesis
    by (cases "from"; cases "to")
      (auto simp: cast_typed_def is_integer_def is_int_def is_long_def is_float_def is_pointer_def apply_cast_def
        TranslateCast_def type_Equal_simps small_cast_def cast_ints_def cast_to_float_def cast_from_float_def cl_cast_def
        int_cast_def float_cast_def same_bits_def Let_def two_values split: if_splits)
qed

section \<open>Binary operators\<close>

definition binop_typed :: "cl_binaryOp \<Rightarrow> ctype \<Rightarrow> ctype \<Rightarrow> bool" where
  "binop_typed bop ta tb \<longleftrightarrow>
     (if IsComparisonOp bop then compare_typed ta tb
      else if bop = Oshl_cl \<or> bop = Oshr_cl then shift_typed bop ta tb
      else if is_pointer ta then pointer_typed bop ta tb
      else arith_typed bop ta tb)"

lemma comparison_relation: "IsComparisonOp bop \<longleftrightarrow> relation bop \<noteq> None"
  "relation bop = Some c \<Longrightarrow> cshm_TranslateBinaryOp bop ta tb = (translateCmpBoth ta tb, c)"
  by (cases bop; auto simp: IsComparisonOp_def)+

lemma extendToLong_eval:
  assumes "sm_eval T S tmp m a = Some (Some v)" "is_integer t" "bop = Ocmpl_cs \<or> bop = Ocmplu_cs"
  shows "sm_eval T S tmp m (extendToLong a t (bop = Ocmpl_cs)) = Some (Some (extended bop t v))"
  using assms by (cases t) (auto simp: extendToLong_def extended_def is_integer_def is_int_def is_long_def known1_def two_values)

lemma compare_integer: "compare_typed ta tb \<Longrightarrow> translateCmpBoth ta tb \<in> {Ocmpl_cs, Ocmplu_cs} \<Longrightarrow> is_integer ta \<and> is_integer tb"
  by (auto simp: compare_typed_def translateCmpBoth_def translateCmp_def is_float_def split: ctype.splits if_splits)

lemma translateBinop_eval:
  assumes "binop_typed bop ta tb" "cl_binop T bop ta tb v w = Some r"
    and a: "sm_eval T S tmp m a = Some (Some v)" and b: "sm_eval T S tmp m b = Some (Some w)"
  shows "sm_eval T S tmp m (translateBinop bop ta tb a b) = Some (Some r)"
proof (cases "relation bop")
  case (Some c)
  let ?op = "translateCmpBoth ta tb"
  have typed: "compare_typed ta tb" using assms(1) Some by (simp add: binop_typed_def comparison_relation)
  obtain t where t: "cl_compare T c ta tb v w = Some t" "r = truth_word t" using assms(2) Some by (auto simp: cl_binop_def)
  note cmp = compare_translated [OF typed t(1) refl]
  show ?thesis
  proof (cases "?op = Ocmpl_cs \<or> ?op = Ocmplu_cs")
    case True
    with compare_integer [OF typed] have "is_integer ta" "is_integer tb" by auto
    with True cmp Some t(2) extendToLong_eval [OF a _ True] extendToLong_eval [OF b _ True] show ?thesis
      by (simp add: translateBinop_def comparison_relation known2_def truth_word_def)
  next
    case False
    with cmp Some t(2) a b show ?thesis
      by (simp add: translateBinop_def comparison_relation known2_def truth_word_def extended_def)
  qed
next
  case None
  then have plain: "\<not> IsComparisonOp bop" by (simp add: comparison_relation)
  have "word_binop T (fst (cshm_TranslateBinaryOp bop ta tb)) v w = Some r"
  proof (cases "bop = Oshl_cl \<or> bop = Oshr_cl")
    case True
    with assms(1,2) None plain show ?thesis by (intro shift_translated) (auto simp: binop_typed_def cl_binop_def)
  next
    case False
    then have "arith_op bop" using None by (cases bop) (auto simp: arith_op_def)
    with False assms(1,2) None plain show ?thesis
      by (cases ta) (auto simp: binop_typed_def cl_binop_def is_pointer_def intro: arith_translated pointer_translated)
  qed
  with a b plain show ?thesis by (auto simp: translateBinop_def known2_def split: prod.split)
qed

lemma translateCast_eval:
  assumes "cast_typed from to" "cl_cast T from to v = Some r" "sm_eval T S tmp m a = Some (Some v)"
  shows "sm_eval T S tmp m (cshm_translateCast from to a) = Some (Some r)"
  using cast_translated [OF assms(1,2)] assms(3) by (auto simp: cshm_translateCast_def apply_cast_def known1_def split: option.splits)

end
