(* ===== verification/CshmgenSim.thy ===== *)
theory CshmgenSim
  imports CshmgenOps "HOL-Library.Multiset"
begin

text \<open>
  The pass from Clight to Csharpminor preserves behaviour: a relation that leaves open which labels the string
  literals got, the meaning of translated expressions, and a simulation of statements in which the two parts of
  a loop become the body of an inner block and what follows it.
\<close>

section \<open>What the pass produces\<close>

fun tr_expr :: "(string \<rightharpoonup> int) \<Rightarrow> cl_expr \<Rightarrow> sm_expr \<Rightarrow> bool"
and tr_addr :: "(string \<rightharpoonup> int) \<Rightarrow> cl_expr \<Rightarrow> sm_expr \<Rightarrow> bool" where
  "tr_expr pt (Econst_int n t) e' \<longleftrightarrow> e' = translateConstInt n t"
| "tr_expr pt (Econst_long n t) e' \<longleftrightarrow> e' = Econst_sm (Olongconst_sm n)"
| "tr_expr pt (Econst_float x t) e' \<longleftrightarrow> e' = Econst_sm (Ofloatconst_sm x)"
| "tr_expr pt (Econst_single x t) e' \<longleftrightarrow> e' = Econst_sm (Osingleconst_sm x)"
| "tr_expr pt (Estring s t) e' \<longleftrightarrow> (\<exists>l. e' = Econst_sm (Oaddrsymbol_sm l 0))"
| "tr_expr pt (Evar_cl x t) e' \<longleftrightarrow> e' = (case pt x of Some i \<Rightarrow> Etempvar_sm i | None \<Rightarrow> Evar_sm x)"
| "tr_expr pt (Etempvar_cl i t) e' \<longleftrightarrow> e' = Etempvar_sm i"
| "tr_expr pt (Eunop_cl uop a t) e' \<longleftrightarrow> (\<exists>a'. tr_expr pt a a' \<and> e' = Eunop_sm (cshm_TranslateUnaryOp uop (ExprType a)) a')"
| "tr_expr pt (Ebinop_cl bop a b t) e' \<longleftrightarrow>
     (\<exists>a' b'. tr_expr pt a a' \<and> tr_expr pt b b' \<and> e' = translateBinop bop (ExprType a) (ExprType b) a' b')"
| "tr_expr pt (Ecast_cl a t) e' \<longleftrightarrow> (\<exists>a'. tr_expr pt a a' \<and> e' = cshm_translateCast (ExprType a) t a')"
| "tr_expr pt (Ederef_cl a t) e' \<longleftrightarrow> (\<exists>a'. tr_expr pt a a' \<and> e' = Eload_sm (ChunkForType t) a')"
| "tr_expr pt (Eaddrof_cl a t) e' \<longleftrightarrow> tr_addr pt a e'"
| "tr_expr pt (Efield_cl a f t) e' \<longleftrightarrow>
     (\<exists>a'. tr_addr pt a a' \<and> e' = Eload_sm (ChunkForType t) (add_offset a' (fieldOffset (ExprType a) f)))"
| "tr_expr pt (Esizeof_cl u t) e' \<longleftrightarrow> e' = Econst_sm (Ointconst_sm (wrap32 (sizeofType u)))"
| "tr_expr pt (Ealignof_cl u t) e' \<longleftrightarrow> e' = Econst_sm (Ointconst_sm (wrap32 (alignofType u)))"
| "tr_addr pt (Evar_cl x t) e' \<longleftrightarrow> e' = Eaddrof_sm x"
| "tr_addr pt (Ederef_cl a t) e' \<longleftrightarrow> tr_expr pt a e'"
| "tr_addr pt (Efield_cl a f t) e' \<longleftrightarrow> (\<exists>a'. tr_addr pt a a' \<and> e' = add_offset a' (fieldOffset (ExprType a) f))"
| "tr_addr pt _ e' \<longleftrightarrow> False"

lemma bind_pair: "Option.bind r (\<lambda>(x, y). f x y) = Some z \<longleftrightarrow> (\<exists>x y. r = Some (x, y) \<and> f x y = Some z)"
  by (cases r) auto

lemma expr_translated:
  "cshm_TranslateExpr e et = Some (e', et') \<Longrightarrow> tr_expr (et_paramTemps et) e e' \<and> et_paramTemps et' = et_paramTemps et"
  "translateLvalueAddr e et = Some (e', et') \<Longrightarrow> tr_addr (et_paramTemps et) e e' \<and> et_paramTemps et' = et_paramTemps et"
  "TranslateFieldAddr e f et = Some (e', et') \<Longrightarrow>
    (\<exists>a'. tr_addr (et_paramTemps et) e a' \<and> e' = add_offset a' (fieldOffset (ExprType e) f)) \<and> et_paramTemps et' = et_paramTemps et"
proof (induction e et and e et and e f et arbitrary: e' et' and e' et' and e' et'
      rule: cshm_TranslateExpr_translateLvalueAddr_TranslateFieldAddr.induct)
  case (9 bop a b t et)
  from "9.prems" obtain a' et1 b' where a: "cshm_TranslateExpr a et = Some (a', et1)"
    and b: "cshm_TranslateExpr b et1 = Some (b', et')" "e' = translateBinop bop (ExprType a) (ExprType b) a' b'"
    by (auto simp: bind_pair)
  from "9.IH"(1) [OF a] "9.IH"(2) [OF a refl b(1)] b(2) show ?case by auto
next
  case (13 a f t et)
  then show ?case by (force simp: bind_pair simp del: TranslateFieldAddr.simps)
qed (auto simp: bind_pair translateString_def Let_def cshm_translateVar_def)

lemma exprs_translated:
  "cshm_translate_list es et = Some (es', et') \<Longrightarrow>
    list_all2 (tr_expr (et_paramTemps et)) es es' \<and> et_paramTemps et' = et_paramTemps et"
  by (induction es arbitrary: et es') (force simp: bind_pair dest: expr_translated(1))+

fun tr_light :: "string set \<Rightarrow> (string \<rightharpoonup> int) \<Rightarrow> cl_stmt \<Rightarrow> sm_stmt \<Rightarrow> bool"
and tr_light_cases :: "string set \<Rightarrow> (string \<rightharpoonup> int) \<Rightarrow> cl_switchCase list \<Rightarrow> sm_switchCase list \<Rightarrow> bool" where
  "tr_light ps pt Sskip_cl s' \<longleftrightarrow> s' = Sskip_sm"
| "tr_light ps pt (Sassign_cl a e) s' \<longleftrightarrow> (\<exists>e'. tr_expr pt e e' \<and>
     (if \<exists>x t. a = Evar_cl x t \<and> x \<in> ps then \<exists>x t i. a = Evar_cl x t \<and> pt x = Some i \<and> s' = Sset_sm i e'
      else \<exists>a'. tr_addr pt a a' \<and> s' = Sstore_sm (ChunkForType (ExprType a)) a' e'))"
| "tr_light ps pt (Sset_cl i e) s' \<longleftrightarrow> (\<exists>e'. tr_expr pt e e' \<and> s' = Sset_sm i e')"
| "tr_light ps pt (Scall_cl i f args) s' \<longleftrightarrow>
     (\<exists>f' args'. tr_expr pt f f' \<and> list_all2 (tr_expr pt) args args' \<and> s' = Scall_sm i None f' args')"
| "tr_light ps pt (Sbuiltin_cl i bf args) s' \<longleftrightarrow> (\<exists>args'. list_all2 (tr_expr pt) args args' \<and> s' = Sbuiltin_sm i bf args')"
| "tr_light ps pt (Ssequence_cl a b) s' \<longleftrightarrow> (\<exists>a' b'. tr_light ps pt a a' \<and> tr_light ps pt b b' \<and> s' = Sseq_sm a' b')"
| "tr_light ps pt (Sifthenelse_cl c a b) s' \<longleftrightarrow>
     (\<exists>c' a' b'. tr_expr pt c c' \<and> tr_light ps pt a a' \<and> tr_light ps pt b b' \<and> s' = Sifthenelse_sm c' a' b')"
| "tr_light ps pt (Sloop_cl a b) s' \<longleftrightarrow>
     (\<exists>a' b'. tr_light ps pt a a' \<and> tr_light ps pt b b' \<and> s' = Sblock_sm (Sloop_sm (Seq_sm [Sblock_sm a', b'])))"
| "tr_light ps pt Sbreak_cl s' \<longleftrightarrow> s' = Sexit_sm 1"
| "tr_light ps pt Scontinue_cl s' \<longleftrightarrow> s' = Sexit_sm 0"
| "tr_light ps pt (Sreturn_cl r) s' \<longleftrightarrow> (\<exists>r'. rel_option (tr_expr pt) r r' \<and> s' = Sreturn_sm r')"
| "tr_light ps pt (Sswitch_cl e cs d hb) s' \<longleftrightarrow>
     (\<exists>e' cs' d'. tr_expr pt e e' \<and> tr_light_cases ps pt cs cs' \<and> tr_light ps pt d d' \<and> s' = Sswitch_sm (is_long (ExprType e)) e' cs' d')"
| "tr_light ps pt (Slabel_cl l a) s' \<longleftrightarrow> (\<exists>a'. tr_light ps pt a a' \<and> s' = Slabel_sm l a')"
| "tr_light ps pt (Sgoto_cl l) s' \<longleftrightarrow> s' = Sgoto_sm l"
| "tr_light_cases ps pt [] cs' \<longleftrightarrow> cs' = []"
| "tr_light_cases ps pt (SwitchCase_cl v a # cs) cs' \<longleftrightarrow>
     (\<exists>a' ds'. tr_light ps pt a a' \<and> tr_light_cases ps pt cs ds' \<and> cs' = SwitchCase_sm v a' # ds')"

text \<open>What stays fixed while the statements of a function are translated.\<close>

definition st_fixed :: "string set \<Rightarrow> (string \<rightharpoonup> int) \<Rightarrow> stmtTranslator \<Rightarrow> bool" where
  "st_fixed ps pt st \<longleftrightarrow> st_params st = ps \<and> st_paramTemps st = pt \<and> et_paramTemps (st_expr st) = pt"

lemma with_expr_fixed:
  "with_expr (cshm_TranslateExpr e) st = Some (e', st') \<Longrightarrow> st_fixed ps pt st \<Longrightarrow> tr_expr pt e e' \<and> st_fixed ps pt st'"
  "with_expr (translateLvalueAddr e) st = Some (e', st') \<Longrightarrow> st_fixed ps pt st \<Longrightarrow> tr_addr pt e e' \<and> st_fixed ps pt st'"
  "with_expr (cshm_translate_list es) st = Some (es', st') \<Longrightarrow> st_fixed ps pt st \<Longrightarrow> list_all2 (tr_expr pt) es es' \<and> st_fixed ps pt st'"
  by (auto simp: with_expr_def st_fixed_def dest: expr_translated exprs_translated)

lemma assign_translated:
  assumes "cshm_translateAssign a e st = Some (s', st')" "st_fixed ps pt st"
    and "\<And>x t. a = Evar_cl x t \<Longrightarrow> x \<in> ps \<Longrightarrow> pt x \<noteq> None"
  shows "tr_light ps pt (Sassign_cl a e) s' \<and> st_fixed ps pt st'"
proof -
  from assms(1) obtain e' st1 where e: "with_expr (cshm_TranslateExpr e) st = Some (e', st1)"
    by (auto simp: cshm_translateAssign_def bind_eq_Some_conv)
  note e' = with_expr_fixed(1) [OF e assms(2)]
  show ?thesis
  proof (cases "\<exists>x t. a = Evar_cl x t \<and> x \<in> ps")
    case True
    then obtain x t i where x: "a = Evar_cl x t" "x \<in> ps" "pt x = Some i" using assms(3) by blast
    with assms(1) e e' show ?thesis
      by (auto simp: cshm_translateAssign_def getOrCreateParamTemp_def st_fixed_def)
  next
    case False
    then have "\<exists>a' st2. with_expr (translateLvalueAddr a) st1 = Some (a', st2) \<and>
        s' = Sstore_sm (ChunkForType (ExprType a)) a' e' \<and> st' = st2"
      using assms(1) e e' by (cases a) (auto simp: cshm_translateAssign_def bind_eq_Some_conv st_fixed_def with_expr_def)
    with False e' with_expr_fixed(2) show ?thesis by auto
  qed
qed

text \<open>The parameters that the statements assign have a temporary.\<close>

lemma scan_mono:
  "modified \<subseteq> scanForModifiedParams s ps modified" "modified \<subseteq> scan_cases cs ps modified"
  by (induction s ps modified and cs ps modified rule: scanForModifiedParams_scan_cases.induct) (auto split: cl_expr.splits)

lemmas scan_fits = subset_trans [OF scan_mono(1)] subset_trans [OF scan_mono(2)]

lemma stmt_translated:
  "cshm_TranslateStmt s st = Some (s', st') \<Longrightarrow> st_fixed ps pt st \<Longrightarrow> scanForModifiedParams s ps A \<subseteq> dom pt \<Longrightarrow>
    tr_light ps pt s s' \<and> st_fixed ps pt st'"
  "cshm_TranslateCases cs st = Some (cs', st') \<Longrightarrow> st_fixed ps pt st \<Longrightarrow> scan_cases cs ps A \<subseteq> dom pt \<Longrightarrow>
    tr_light_cases ps pt cs cs' \<and> st_fixed ps pt st'"
proof (induction s st and cs st arbitrary: s' st' A and cs' st' A rule: cshm_TranslateStmt_cshm_TranslateCases.induct)
  case (2 lhs rhs st)
  have "pt x \<noteq> None" if "lhs = Evar_cl x t" "x \<in> ps" for x t
    using "2.prems"(3) that by (simp add: dom_def)
  with "2.prems"(1,2) assign_translated show ?case by (simp del: tr_light.simps)
next
  case (6 a b st)
  then show ?case by (simp add: bind_pair) (blast dest: scan_fits)
next
  case (7 c a b st)
  from "7.prems"(1) obtain c' st1 a' st2 b' where c: "with_expr (cshm_TranslateExpr c) st = Some (c', st1)"
    and a: "cshm_TranslateStmt a st1 = Some (a', st2)" and b: "cshm_TranslateStmt b st2 = Some (b', st')" "s' = Sifthenelse_sm c' a' b'"
    by (auto simp: bind_pair)
  note c' = with_expr_fixed(1) [OF c "7.prems"(2)]
  have scan: "scanForModifiedParams a ps A \<subseteq> dom pt" "scanForModifiedParams b ps (scanForModifiedParams a ps A) \<subseteq> dom pt"
    using "7.prems"(3) by (simp_all add: subset_trans [OF scan_mono(1)])
  note a' = "7.IH"(1) [OF c refl a conjunct2 [OF c'] scan(1)]
  from "7.IH"(2) [OF c refl a refl b(1) conjunct2 [OF a'] scan(2)] a' c' b(2) show ?case by simp
next
  case (8 a b st)
  then show ?case by (simp add: bind_pair) (blast dest: scan_fits)
next
  case (13 e cs d hb st)
  from "13.prems"(1) obtain e' st1 cs' st2 d' where e: "with_expr (cshm_TranslateExpr e) st = Some (e', st1)"
    and cs: "cshm_TranslateCases cs st1 = Some (cs', st2)" and d: "cshm_TranslateStmt d st2 = Some (d', st')"
      "s' = Sswitch_sm (is_long (ExprType e)) e' cs' d'"
    by (auto simp: bind_pair)
  note e' = with_expr_fixed(1) [OF e "13.prems"(2)]
  have scan: "scan_cases cs ps A \<subseteq> dom pt" "scanForModifiedParams d ps (scan_cases cs ps A) \<subseteq> dom pt"
    using "13.prems"(3) by (simp_all add: subset_trans [OF scan_mono(1)])
  note cs' = "13.IH"(1) [OF e refl cs conjunct2 [OF e'] scan(1)]
  from "13.IH"(2) [OF e refl cs refl d(1) conjunct2 [OF cs'] scan(2)] cs' e' d(2) show ?case by simp
next
  case (17 v a cs st)
  then show ?case by (simp add: bind_pair) (blast dest: scan_fits)
qed (auto simp: bind_pair dest!: with_expr_fixed)

section \<open>The meaning of translated expressions\<close>

text \<open>
  Every operator is used at types on which the pass gets it right, and every variable at the type it was
  declared with; the value of a constant does not depend on how many bits its type has.
\<close>

definition reads_as :: "varDecl \<Rightarrow> ctype \<Rightarrow> bool" where
  "reads_as d t \<longleftrightarrow> (case value_chunk t of None \<Rightarrow> False
   | Some ch \<Rightarrow> access d = ch \<or> access d = Mint64 \<and> ch = Mfloat64 \<or> access d = Mint32 \<and> ch = Mfloat32)"

definition var_typed :: "scope \<Rightarrow> string \<Rightarrow> ctype \<Rightarrow> bool" where
  "var_typed S x t \<longleftrightarrow> sc_params S x \<noteq> None \<or>
     (case sc_locals S x of Some d \<Rightarrow> reads_as d t
      | None \<Rightarrow> (case sc_globals S x of Some d \<Rightarrow> reads_as d t | None \<Rightarrow> True))"

definition const_typed :: "int64 \<Rightarrow> ctype \<Rightarrow> bool" where
  "const_typed n t \<longleftrightarrow> is_long t \<or> is_int t \<and> -2147483648 \<le> n \<and> n < 4294967296 \<or> is_pointer t \<and> 0 \<le> n"

fun cl_expr_typed :: "scope \<Rightarrow> cl_expr \<Rightarrow> bool" and addr_typed :: "scope \<Rightarrow> cl_expr \<Rightarrow> bool" where
  "cl_expr_typed S (Econst_int n t) \<longleftrightarrow> const_typed n t"
| "cl_expr_typed S (Evar_cl x t) \<longleftrightarrow> var_typed S x t"
| "cl_expr_typed S (Ederef_cl a t) \<longleftrightarrow> cl_expr_typed S a"
| "cl_expr_typed S (Eaddrof_cl a t) \<longleftrightarrow> addr_typed S a"
| "cl_expr_typed S (Eunop_cl uop a t) \<longleftrightarrow> cl_expr_typed S a \<and> unop_typed uop (ExprType a)"
| "cl_expr_typed S (Ebinop_cl bop a b t) \<longleftrightarrow> cl_expr_typed S a \<and> cl_expr_typed S b \<and> binop_typed bop (ExprType a) (ExprType b)"
| "cl_expr_typed S (Ecast_cl a t) \<longleftrightarrow> cl_expr_typed S a \<and> cast_typed (ExprType a) t"
| "cl_expr_typed S (Efield_cl a f t) \<longleftrightarrow> addr_typed S a"
| "cl_expr_typed S _ \<longleftrightarrow> True"
| "addr_typed S (Evar_cl x t) \<longleftrightarrow> True"
| "addr_typed S (Ederef_cl a t) \<longleftrightarrow> cl_expr_typed S a"
| "addr_typed S (Efield_cl a f t) \<longleftrightarrow> addr_typed S a"
| "addr_typed S _ \<longleftrightarrow> False"

text \<open>
  The parameters in \<open>pt\<close> live in temporaries that the source does not use; the other parameters are never
  assigned, and the other temporaries hold the same values on both sides.
\<close>

definition params_match :: "scope \<Rightarrow> (string \<rightharpoonup> int) \<Rightarrow> cs_env \<Rightarrow> temps_env \<Rightarrow> temps_env \<Rightarrow> bool" where
  "params_match S pt pe tmp tmp' \<longleftrightarrow> dom pe = dom (sc_params S) \<and>
     (\<forall>x. pt x = None \<longrightarrow> pe x = sc_params S x) \<and>
     (\<forall>x i. pt x = Some i \<longrightarrow> (\<exists>w. pe x = Some w \<and> tmp' i = Some w)) \<and>
     (\<forall>i. tmp i \<noteq> None \<longrightarrow> i \<notin> ran pt \<and> tmp' i = tmp i) \<and> inj_on pt (dom pt)"

lemma params_match_temp:
  assumes "params_match S pt pe tmp tmp'" "pt x = Some i"
  shows "\<exists>w. pe x = Some w \<and> tmp' i = Some w" "sc_params S x \<noteq> None"
proof -
  have "dom pe = dom (sc_params S)" "\<exists>w. pe x = Some w \<and> tmp' i = Some w"
    using assms unfolding params_match_def by blast+
  moreover from this have "x \<in> dom pe" by auto
  ultimately show "\<exists>w. pe x = Some w \<and> tmp' i = Some w" "sc_params S x \<noteq> None" by force+
qed

lemma value_chunk_ChunkForType: "value_chunk t = Some ch \<Longrightarrow> ChunkForType t = ch"
  by (cases t) auto

lemma load_float_chunks: "load_chunk Mfloat64 p m = load_chunk Mint64 p m" "load_chunk Mfloat32 p m = load_chunk Mint32 p m"
proof -
  have "chunk_value Mfloat64 = chunk_value Mint64" "chunk_value Mfloat32 = chunk_value Mint32" by (rule ext, simp)+
  then show "load_chunk Mfloat64 p m = load_chunk Mint64 p m" "load_chunk Mfloat32 p m = load_chunk Mint32 p m"
    by (simp_all add: load_chunk_def)
qed

lemma reads_as_load: "reads_as d t \<Longrightarrow> cl_load t p m = map_option Some (load_chunk (access d) p m)"
  by (auto simp: reads_as_def cl_load_def load_float_chunks split: option.splits)

lemma read_translated:
  assumes "params_match S pt pe tmp tmp'" "var_typed S x t" "cl_read T S pe m x t = Some v" "tr_expr pt (Evar_cl x t) e'"
  shows "sm_eval T S tmp' m e' = Some v"
proof (cases "pt x")
  case (Some i)
  with assms(1) obtain w where "pe x = Some w" "tmp' i = Some w" by (auto dest: params_match_temp(1))
  with Some assms(3,4) show ?thesis by (simp add: cl_read_def)
next
  case None
  have p: "pe x = sc_params S x" using assms(1) None by (simp add: params_match_def)
  with None assms(2-4) show ?thesis
    by (auto simp: cl_read_def read_var_def var_typed_def reads_as_load split: option.splits)
qed

lemma address_translated: "params_match S pt pe tmp tmp' \<Longrightarrow> cl_address T S pe x = map_option Some (address_of T S x)"
  by (auto simp: params_match_def cl_address_def address_of_def option.map_comp comp_def dom_def set_eq_iff)

lemma zx_of_int: "0 \<le> n \<Longrightarrow> n < 4294967296 \<Longrightarrow> zx (of_int n) = of_int n"
proof -
  assume "0 \<le> n" "n < 4294967296"
  then have "uint (of_int n :: w32) = n" "uint (of_int n :: w64) = n" by (simp_all add: uint_word_of_int)
  then show ?thesis by (metis extend_zx(1) word_uint_eqI)
qed

lemma const_translated:
  assumes "const_typed n t" "const_value n t = Some v"
  shows "sm_eval T S tmp m (translateConstInt n t) = Some (Some v)"
proof (cases t)
  case (Tint_c sz sg)
  have "zx (of_int n) = of_int n" if "0 \<le> n" "n < 4294967296"
    using that zx_of_int by simp
  with Tint_c assms show ?thesis by (auto simp: translateConstInt_def wrap32_def is_long_def const_typed_def is_pointer_def)
next
  case (Tpointer_c u)
  have "zx (of_int n) = of_int n" if "0 \<le> n" "n \<le> 2147483647"
    using that zx_of_int by simp
  with Tpointer_c assms show ?thesis by (auto simp: translateConstInt_def wrap32_def is_long_def const_typed_def is_int_def)
qed (use assms in \<open>auto simp: translateConstInt_def is_long_def\<close>)

lemma add_offset_eval:
  "sm_eval T S tmp m a = Some (Some p) \<Longrightarrow> sm_eval T S tmp m (add_offset a n) = Some (Some (p + of_int n))"
  by (simp add: add_offset_def known2_def)

lemma loaded: "cl_load t p m = Some v \<Longrightarrow> \<exists>w. load_chunk (ChunkForType t) p m = Some w \<and> v = Some w"
  by (auto simp: cl_load_def bind_eq_Some_conv dest: value_chunk_ChunkForType)

lemma load_eval: "sm_eval T S tmp m a = Some (Some p) \<Longrightarrow> cl_load t p m = Some v \<Longrightarrow> sm_eval T S tmp m (Eload_sm (ChunkForType t) a) = Some v"
  by (auto dest!: loaded simp: known1_def)

lemma light_expr:
  assumes "params_match S pt pe tmp tmp'"
  shows "cl_eval T S pe tmp m e = Some v \<Longrightarrow> cl_expr_typed S e \<Longrightarrow> tr_expr pt e e' \<Longrightarrow> sm_eval T S tmp' m e' = Some v"
    and "cl_lvalue T S pe tmp m e = Some v \<Longrightarrow> addr_typed S e \<Longrightarrow> tr_addr pt e e' \<Longrightarrow> sm_eval T S tmp' m e' = Some v"
  using assms
proof (induction T S pe tmp m e and T S pe tmp m e arbitrary: v e' and v e' rule: cl_eval_cl_lvalue.induct)
  case (1 T S pe tmp m n t)
  then show ?case using const_translated by auto
next
  case (6 T S pe tmp m x t)
  then show ?case using read_translated by simp
next
  case (7 T S pe tmp m i t)
  then show ?case by (auto simp: params_match_def)
next
  case (8 T S pe tmp m a t)
  then show ?case by (fastforce simp: bind_eq_Some_conv intro: load_eval)
next
  case (10 T S pe tmp m uop a t)
  then obtain w r a' where w: "cl_eval T S pe tmp m a = Some (Some w)" "cl_unop T uop (ExprType a) w = Some r" "v = Some r"
    and a': "tr_expr pt a a'" "e' = Eunop_sm (cshm_TranslateUnaryOp uop (ExprType a)) a'"
    by (auto simp: bind_eq_Some_conv known1_def split: option.splits)
  with 10 have "sm_eval T S tmp' m a' = Some (Some w)" by simp
  with w a' 10 show ?case by (simp add: unop_translated known1_def)
next
  case (11 T S pe tmp m bop a b t)
  then obtain w z r a' b' where w: "cl_eval T S pe tmp m a = Some (Some w)" "cl_eval T S pe tmp m b = Some (Some z)"
      "cl_binop T bop (ExprType a) (ExprType b) w z = Some r" "v = Some r"
    and a': "tr_expr pt a a'" "tr_expr pt b b'" "e' = translateBinop bop (ExprType a) (ExprType b) a' b'"
    by (auto simp: bind_eq_Some_conv known2_def split: option.splits)
  with 11 have "sm_eval T S tmp' m a' = Some (Some w)" "sm_eval T S tmp' m b' = Some (Some z)" by simp_all
  with w a' 11 show ?case by (simp add: translateBinop_eval)
next
  case (12 T S pe tmp m a t)
  then obtain w r a' where w: "cl_eval T S pe tmp m a = Some (Some w)" "cl_cast T (ExprType a) t w = Some r" "v = Some r"
    and a': "tr_expr pt a a'" "e' = cshm_translateCast (ExprType a) t a'"
    by (auto simp: bind_eq_Some_conv known1_def split: option.splits)
  with 12 have "sm_eval T S tmp' m a' = Some (Some w)" by simp
  with w a' 12 show ?case by (simp add: translateCast_eval)
next
  case (13 T S pe tmp m a f t)
  then obtain q where q: "cl_lvalue T S pe tmp m (Efield_cl a f t) = Some (Some q)" "cl_load t q m = Some v"
    by (auto simp: bind_eq_Some_conv)
  with 13 show ?case by (auto intro!: load_eval simp del: cl_lvalue.simps)
next
  case (16 T S pe tmp m x t)
  then show ?case by (simp add: address_translated)
next
  case (18 T S pe tmp m a f t)
  then obtain p a' where p: "cl_lvalue T S pe tmp m a = Some (Some p)" "v = Some (p + of_int (fieldOffset (ExprType a) f))"
    and a': "tr_addr pt a a'" "e' = add_offset a' (fieldOffset (ExprType a) f)"
    by (auto simp: bind_eq_Some_conv)
  with 18 have "sm_eval T S tmp' m a' = Some (Some p)" by simp
  with p a' show ?case by (simp add: add_offset_eval)
qed (auto simp: wrap32_def)

text \<open>
  Conditions are compared with zero at the type that the outermost operator of the translation suggests; it must
  be the type that the expression has.
\<close>

fun seen_kind :: "scope \<Rightarrow> cl_expr \<Rightarrow> cm_kind option" where
  "seen_kind S (Econst_int n t) = Some (if is_long t \<or> n < -2147483648 \<or> n > 2147483647 then Klong else Kint)"
| "seen_kind S (Econst_long n t) = Some Klong"
| "seen_kind S (Econst_float x t) = Some Kfloat"
| "seen_kind S (Econst_single x t) = Some Ksingle"
| "seen_kind S (Evar_cl x t) = Some (var_kind S x)"
| "seen_kind S (Etempvar_cl i t) = Some Kint"
| "seen_kind S (Ederef_cl a t) = Some (chunk_kind (ChunkForType t))"
| "seen_kind S (Efield_cl a f t) = Some (chunk_kind (ChunkForType t))"
| "seen_kind S (Eunop_cl uop a t) =
     (if uop = Onotbool_cl then None else Some (unop_kind (cshm_TranslateUnaryOp uop (ExprType a))))"
| "seen_kind S (Ebinop_cl bop a b t) =
     Some (if IsComparisonOp bop then Kint else binop_kind (fst (cshm_TranslateBinaryOp bop (ExprType a) (ExprType b))))"
| "seen_kind S (Ecast_cl a t) = (case TranslateCast (ExprType a) t of Some op \<Rightarrow> Some (unop_kind op) | None \<Rightarrow> seen_kind S a)"
| "seen_kind S _ = None"

fun cond_typed :: "scope \<Rightarrow> cl_expr \<Rightarrow> bool" where
  "cond_typed S (Eunop_cl uop a t) \<longleftrightarrow>
     (if uop = Onotbool_cl then is_int t \<and> cond_typed S a
      else cl_expr_typed S (Eunop_cl uop a t) \<and> seen_kind S (Eunop_cl uop a t) = type_kind t)"
| "cond_typed S e \<longleftrightarrow> cl_expr_typed S e \<and> seen_kind S e = type_kind (ExprType e)"

lemma TranslateCast_op: "TranslateCast from to = Some op \<Longrightarrow> op \<noteq> Onotbool_cs"
  by (auto simp: TranslateCast_def small_cast_def cast_to_float_def cast_from_float_def cast_ints_def
      split: if_splits option.splits ctype.splits)

lemma TranslateUnaryOp_op: "uop \<noteq> Onotbool_cl \<Longrightarrow> cshm_TranslateUnaryOp uop t \<noteq> Onotbool_cs"
  by (cases uop) (auto simp: translateNeg_def translateBitnot_def split: ctype.splits)

lemma sm_cond_plain:
  "(\<forall>a. e \<noteq> Eunop_sm Onotbool_cs a) \<Longrightarrow> sm_cond T S tmp m e = Option.bind (sm_eval T S tmp m e) (map_option (truth T (sm_kind_of S e)))"
  by (cases e) auto

lemma kind_translated:
  assumes "params_match S pt pe tmp tmp'"
  shows "seen_kind S e = Some k \<Longrightarrow> tr_expr pt e e' \<Longrightarrow> sm_kind_of S e' = k \<and> (\<forall>a. e' \<noteq> Eunop_sm Onotbool_cs a)"
proof (induction e arbitrary: e')
  case (Evar_cl x t)
  have "var_kind S x = Kint" if "pt x = Some i" for i
  proof -
    have "sc_params S x \<noteq> None" by (rule params_match_temp(2) [OF assms that])
    then show ?thesis by (auto simp: var_kind_def)
  qed
  with Evar_cl show ?case by (auto split: option.splits)
next
  case (Ebinop_cl bop a b t)
  obtain op cmp where "cshm_TranslateBinaryOp bop (ExprType a) (ExprType b) = (op, cmp)" by fastforce
  with Ebinop_cl.prems show ?case by (auto simp: translateBinop_def split: if_splits)
qed (auto simp: translateConstInt_def cshm_translateCast_def dest: TranslateCast_op TranslateUnaryOp_op split: if_splits option.splits)

lemma truth_of_truth_word [simp]: "lo (if b then 1 else 0) = 0 \<longleftrightarrow> \<not> b"
  by (simp add: lo_def)

lemma cond_plain:
  assumes "params_match S pt pe tmp tmp'" "cl_cond T S pe tmp m e = Some t" "cl_expr_typed S e"
    and kind: "seen_kind S e = type_kind (ExprType e)" and tr: "tr_expr pt e e'"
  shows "sm_cond T S tmp' m e' = Some t"
proof -
  from assms(2) obtain w k where w: "cl_eval T S pe tmp m e = Some (Some w)" "type_kind (ExprType e) = Some k" "t = truth T k w"
    by (auto simp: cl_cond_def cl_truth_def known1_def bind_eq_Some_conv split: option.splits)
  have "sm_eval T S tmp' m e' = Some (Some w)" by (rule light_expr(1) [OF assms(1) w(1) assms(3) tr])
  with kind_translated [OF assms(1) _ tr, of k] kind w show ?thesis by (simp add: sm_cond_plain)
qed

lemma light_cond:
  assumes match: "params_match S pt pe tmp tmp'"
  shows "cl_cond T S pe tmp m e = Some t \<Longrightarrow> cond_typed S e \<Longrightarrow> tr_expr pt e e' \<Longrightarrow> sm_cond T S tmp' m e' = Some t"
proof (induction e arbitrary: e' t)
  case (Eunop_cl uop a u)
  show ?case
  proof (cases "uop = Onotbool_cl")
    case True
    with Eunop_cl.prems obtain r where r: "cl_eval T S pe tmp m (Eunop_cl uop a u) = Some (Some r)" "cl_truth T u r = Some t"
      by (auto simp: cl_cond_def known1_def bind_eq_Some_conv split: option.splits)
    from r(1) obtain w where ev: "cl_eval T S pe tmp m a = Some (Some w)" "cl_unop T uop (ExprType a) w = Some r"
      by (auto simp: known1_def bind_eq_Some_conv split: option.splits)
    from ev(2) True obtain k where k: "type_kind (ExprType a) = Some k" "r = truth_word (\<not> truth T k w)"
      by (auto simp: cl_unop_def cl_truth_def)
    obtain sz sg where "u = Tint_c sz sg" using Eunop_cl.prems(2) True by (cases u) (auto simp: is_int_def)
    with r(2) k(2) have "t = (\<not> truth T k w)" by (simp add: cl_truth_def truth_word_def)
    note w = ev(1) k(1) this
    obtain a' where a': "tr_expr pt a a'" "e' = Eunop_sm Onotbool_cs a'" using Eunop_cl.prems True by auto
    have "cl_cond T S pe tmp m a = Some (truth T k w)" using w by (simp add: cl_cond_def cl_truth_def known1_def)
    with Eunop_cl True a' w show ?thesis by simp
  next
    case False
    with cond_plain [OF match Eunop_cl.prems(1)] Eunop_cl.prems show ?thesis by simp
  qed
qed (simp_all only: cond_typed.simps, (erule conjE, rule cond_plain [OF match], assumption+)+)

definition callee_typed :: "scope \<Rightarrow> cl_expr \<Rightarrow> bool" where
  "callee_typed S e \<longleftrightarrow> cl_expr_typed S e \<and>
     (case e of Evar_cl _ _ \<Rightarrow> True | Etempvar_cl _ _ \<Rightarrow> True | Ederef_cl _ _ \<Rightarrow> True | Efield_cl _ _ _ \<Rightarrow> True | _ \<Rightarrow> False)"

lemma callee_correct:
  assumes "params_match S pt pe tmp tmp'" "cl_callee T S pe tmp m e = Some fv" "callee_typed S e" "tr_expr pt e e'"
  shows "sm_callee T S tmp' m e' = Some fv"
proof (cases "\<exists>x t. e = Evar_cl x t \<and> pt x = None")
  case True
  then obtain x t where e: "e = Evar_cl x t" "pt x = None" by blast
  then have "pe x = sc_params S x" using assms(1) by (simp add: params_match_def)
  with e assms(2-4) light_expr(1) [OF assms(1) _ _ assms(4)] show ?thesis
    by (auto simp: cl_callee_def sm_callee_def callee_typed_def)
next
  case False
  then have "sm_callee T S tmp' m e' = map_option FV_ptr (sm_eval T S tmp' m e')"
    using assms(3,4) by (auto simp: callee_typed_def sm_callee_def split: cl_expr.splits option.splits)
  moreover have "\<exists>v. cl_eval T S pe tmp m e = Some v \<and> fv = FV_ptr v"
  proof (cases e)
    case (Evar_cl x t)
    with False assms(1) have "pe x \<noteq> None" by (auto dest: params_match_temp(1))
    with Evar_cl assms(2) show ?thesis by (auto simp: cl_callee_def)
  qed (use assms(2) in \<open>auto simp: cl_callee_def\<close>)
  ultimately show ?thesis using light_expr(1) [OF assms(1) _ _ assms(4)] assms(3) by (auto simp: callee_typed_def)
qed

lemma light_exprs:
  assumes "params_match S pt pe tmp tmp'"
  shows "cl_eval_list T S pe tmp m es = Some vs \<Longrightarrow> list_all (cl_expr_typed S) es \<Longrightarrow> list_all2 (tr_expr pt) es es' \<Longrightarrow>
    sm_eval_list T S tmp' m es' = Some vs"
proof (induction es arbitrary: vs es')
  case (Cons e es)
  then show ?case using light_expr(1) [OF assms] by (fastforce simp: bind_eq_Some_conv list_all2_Cons1)
qed simp

section \<open>Statements\<close>

fun cl_stmt_typed :: "scope \<Rightarrow> cl_stmt \<Rightarrow> bool" and cases_typed :: "scope \<Rightarrow> cl_switchCase list \<Rightarrow> bool" where
  "cl_stmt_typed S (Sassign_cl a e) \<longleftrightarrow> addr_typed S a \<and> cl_expr_typed S e"
| "cl_stmt_typed S (Sset_cl i e) \<longleftrightarrow> cl_expr_typed S e"
| "cl_stmt_typed S (Scall_cl i f args) \<longleftrightarrow> callee_typed S f \<and> list_all (cl_expr_typed S) args"
| "cl_stmt_typed S (Sbuiltin_cl i bf args) \<longleftrightarrow> list_all (cl_expr_typed S) args"
| "cl_stmt_typed S (Ssequence_cl a b) \<longleftrightarrow> cl_stmt_typed S a \<and> cl_stmt_typed S b"
| "cl_stmt_typed S (Sifthenelse_cl c a b) \<longleftrightarrow> cond_typed S c \<and> cl_stmt_typed S a \<and> cl_stmt_typed S b"
| "cl_stmt_typed S (Sloop_cl a b) \<longleftrightarrow> cl_stmt_typed S a \<and> cl_stmt_typed S b"
| "cl_stmt_typed S (Sreturn_cl r) \<longleftrightarrow> (case r of None \<Rightarrow> True | Some e \<Rightarrow> cl_expr_typed S e)"
| "cl_stmt_typed S (Sswitch_cl e cs d hb) \<longleftrightarrow> cl_expr_typed S e \<and> cases_typed S cs \<and> cl_stmt_typed S d"
| "cl_stmt_typed S (Slabel_cl l a) \<longleftrightarrow> cl_stmt_typed S a"
| "cl_stmt_typed S _ \<longleftrightarrow> True"
| "cases_typed S [] \<longleftrightarrow> True"
| "cases_typed S (SwitchCase_cl v a # cs) \<longleftrightarrow> cl_stmt_typed S a \<and> cases_typed S cs"

text \<open>The body of the loop that the pass makes, and what follows its inner block.\<close>

definition loop_body :: "sm_stmt \<Rightarrow> sm_stmt \<Rightarrow> sm_stmt" where
  "loop_body a b = (if b = Sskip_sm then Sblock_sm a else Sseq_sm (Sblock_sm a) b)"

definition after_block :: "sm_stmt \<Rightarrow> sm_cont \<Rightarrow> sm_cont" where
  "after_block b k = (if b = Sskip_sm then k else Kseq_sm b k)"

abbreviation again :: "sm_stmt \<Rightarrow> sm_stmt \<Rightarrow> sm_cont \<Rightarrow> sm_cont" where
  "again a b k \<equiv> Kseq_sm (Sloop_sm (loop_body a b)) (Kblock_sm k)"

lemma Seq_loop_body: "Seq_sm [Sblock_sm a, b] = loop_body a b"
  by (simp add: Seq_sm_def loop_body_def)

fun cont_match :: "string set \<Rightarrow> (string \<rightharpoonup> int) \<Rightarrow> scope \<Rightarrow> cl_cont \<Rightarrow> sm_cont \<Rightarrow> bool" where
  "cont_match ps pt S Kstop_cl k' \<longleftrightarrow> k' = Kstop_sm"
| "cont_match ps pt S (Kseq_cl s k) k' \<longleftrightarrow>
     (\<exists>s' r. tr_light ps pt s s' \<and> cl_stmt_typed S s \<and> cont_match ps pt S k r \<and> k' = Kseq_sm s' r)"
| "cont_match ps pt S (Kloop1_cl a b k) k' \<longleftrightarrow> (\<exists>a' b' r. tr_light ps pt a a' \<and> tr_light ps pt b b' \<and> cl_stmt_typed S a \<and> cl_stmt_typed S b \<and>
     cont_match ps pt S k r \<and> k' = Kblock_sm (after_block b' (again a' b' r)))"
| "cont_match ps pt S (Kloop2_cl a b k) k' \<longleftrightarrow> (\<exists>a' b' r. tr_light ps pt a a' \<and> tr_light ps pt b b' \<and> cl_stmt_typed S a \<and> cl_stmt_typed S b \<and>
     cont_match ps pt S k r \<and> k' = again a' b' r)"

lemma tr_skip: "tr_light ps pt s Sskip_sm \<Longrightarrow> s = Sskip_cl"
  by (cases s) (auto split: if_splits)

definition found_light :: "string set \<Rightarrow> (string \<rightharpoonup> int) \<Rightarrow> scope \<Rightarrow> (cl_stmt \<times> cl_cont) option \<Rightarrow> (sm_stmt \<times> sm_cont) option \<Rightarrow> bool" where
  "found_light ps pt S = rel_option (\<lambda>(s, k) (s', k'). tr_light ps pt s s' \<and> cl_stmt_typed S s \<and> cont_match ps pt S k k')"

lemma found_light_or: "found_light ps pt S r r' \<Longrightarrow> (r = None \<Longrightarrow> found_light ps pt S q q') \<Longrightarrow>
    found_light ps pt S (case r of None \<Rightarrow> q | Some x \<Rightarrow> Some x) (case r' of None \<Rightarrow> q' | Some x \<Rightarrow> Some x)"
  by (auto simp: found_light_def option_rel_Some1 split: option.splits)

lemma found_light_none [simp]: "found_light ps pt S None None"
  by (simp add: found_light_def)

lemma find_label_loop:
  "sm_find_label l (Sblock_sm (Sloop_sm (loop_body a b))) k =
     (case sm_find_label l a (Kblock_sm (after_block b (again a b k))) of
        Some r \<Rightarrow> Some r | None \<Rightarrow> sm_find_label l b (again a b k))"
  by (auto simp: loop_body_def after_block_def split: option.splits)

lemma find_label_translated:
  "tr_light ps pt s s' \<Longrightarrow> cl_stmt_typed S s \<Longrightarrow> cont_match ps pt S k k' \<Longrightarrow> found_light ps pt S (cl_find_label l s k) (sm_find_label l s' k')"
  "tr_light_cases ps pt cs cs' \<Longrightarrow> cases_typed S cs \<Longrightarrow> cont_match ps pt S k k' \<Longrightarrow>
    found_light ps pt S (cl_find_label_cases l cs k) (sm_find_label_cases l cs' k')"
proof (induction l s k and l cs k arbitrary: s' k' and cs' k' rule: cl_find_label_cl_find_label_cases.induct)
  case (1 l a b k)
  then show ?case by (auto intro!: found_light_or)
next
  case (2 l c a b k)
  then show ?case by (auto intro!: found_light_or)
next
  case (3 l a b k)
  then obtain a' b' where t: "tr_light ps pt a a'" "tr_light ps pt b b'" "s' = Sblock_sm (Sloop_sm (loop_body a' b'))"
    by (auto simp: Seq_loop_body)
  have m: "cont_match ps pt S (Kloop1_cl a b k) (Kblock_sm (after_block b' (again a' b' k')))"
    "cont_match ps pt S (Kloop2_cl a b k) (again a' b' k')" using t 3 by auto
  have typed: "cl_stmt_typed S a" "cl_stmt_typed S b" using "3.prems" by simp_all
  show ?case unfolding t(3) find_label_loop cl_find_label.simps
    by (rule found_light_or [OF "3.IH"(1) [OF t(1) typed(1) m(1)] "3.IH"(2) [OF _ t(2) typed(2) m(2)]])
next
  case (4 l e cs d hb k)
  then show ?case by (auto intro!: found_light_or)
next
  case (5 l l' a k)
  then show ?case by (auto simp: found_light_def)
next
  case (8 l v a cs k)
  then show ?case by (auto intro!: found_light_or)
qed (auto split: if_splits simp: option.rel_sel)

section \<open>The simulation\<close>

abbreviation param_names :: "scope \<Rightarrow> string set" where
  "param_names S \<equiv> dom (sc_params S)"

text \<open>Besides the translated statement there is one more point where the two runs meet: at the loop, inside its outer block.\<close>

fun light_match :: "(string \<rightharpoonup> int) \<Rightarrow> scope \<Rightarrow> cl_state \<Rightarrow> sm_state \<Rightarrow> bool" where
  "light_match pt S (LightStmt s k pe tmp m) (MinorStmt s' k' tmp' m') \<longleftrightarrow>
     m' = m \<and> params_match S pt pe tmp tmp' \<and> cl_stmt_typed S s \<and>
     (tr_light (param_names S) pt s s' \<and> cont_match (param_names S) pt S k k' \<or>
      (\<exists>a b a' b' r. s = Sloop_cl a b \<and> tr_light (param_names S) pt a a' \<and> tr_light (param_names S) pt b b' \<and>
         cont_match (param_names S) pt S k r \<and> s' = Sloop_sm (loop_body a' b') \<and> k' = Kblock_sm r))"
| "light_match pt S (LightFinal r) t \<longleftrightarrow> t = MinorFinal r"
| "light_match pt S _ _ \<longleftrightarrow> False"

definition labels_found :: "(string \<rightharpoonup> int) \<Rightarrow> scope \<Rightarrow> cl_stmt \<Rightarrow> sm_stmt \<Rightarrow> bool" where
  "labels_found pt S body body' \<longleftrightarrow>
     (\<forall>l. found_light (param_names S) pt S (cl_find_label l body Kstop_cl) (sm_find_label l body' Kstop_sm))"

lemma labels_foundE:
  assumes "labels_found pt S body body'" and "cl_find_label l body Kstop_cl = Some (a, k)"
  obtains a' k' where "sm_find_label l body' Kstop_sm = Some (a', k')" "tr_light (param_names S) pt a a'"
    "cl_stmt_typed S a" "cont_match (param_names S) pt S k k'"
proof -
  have "found_light (param_names S) pt S (Some (a, k)) (sm_find_label l body' Kstop_sm)"
    using assms by (metis labels_found_def)
  with that show ?thesis by (auto simp: found_light_def option_rel_Some1)
qed

lemma two_steps: "r x y \<Longrightarrow> r y z \<Longrightarrow> r\<^sup>+\<^sup>+ x z" for r :: "'a \<Rightarrow> 'a \<Rightarrow> bool"
  by (meson tranclp.simps)

lemma loop_enter:
  "(sm_step T E S body)\<^sup>+\<^sup>+ (MinorStmt (Sloop_sm (loop_body a b)) (Kblock_sm k) tmp m)
     (MinorStmt a (Kblock_sm (after_block b (again a b k))) tmp m)"
proof (cases "b = Sskip_sm")
  case True
  have "sm_step T E S body (MinorStmt (loop_body a b) (again a b k) tmp m)
      (MinorStmt a (Kblock_sm (after_block b (again a b k))) tmp m)"
    using True by (simp add: loop_body_def after_block_def sm_block)
  then show ?thesis by (rule two_steps [of "sm_step T E S body", OF sm_loop])
next
  case False
  have "sm_step T E S body (MinorStmt (loop_body a b) (again a b k) tmp m)
      (MinorStmt (Sblock_sm a) (after_block b (again a b k)) tmp m)"
    using False by (simp add: loop_body_def after_block_def sm_seq)
  from two_steps [of "sm_step T E S body", OF this sm_block] show ?thesis
    by (rule tranclp_into_tranclp2 [of "sm_step T E S body", OF sm_loop])
qed

lemma block_left:
  assumes "s' = Sskip_sm \<or> s' = Sexit_sm 0"
  shows "(sm_step T E S body)\<^sup>+\<^sup>+ (MinorStmt s' (Kblock_sm (after_block b k)) tmp m) (MinorStmt b k tmp m)"
proof -
  have step: "sm_step T E S body (MinorStmt s' (Kblock_sm (after_block b k)) tmp m) (MinorStmt Sskip_sm (after_block b k) tmp m)"
    using assms by (auto intro: sm_skip_block sm_exit_block)
  have "(sm_step T E S body)\<^sup>*\<^sup>* (MinorStmt Sskip_sm (after_block b k) tmp m) (MinorStmt b k tmp m)"
    by (auto simp: after_block_def intro: sm_skip_seq)
  with step show ?thesis by (rule rtranclp_into_tranclp2)
qed

lemma loop_left:
  "(sm_step T E S body)\<^sup>+\<^sup>+ (MinorStmt (Sexit_sm 1) (Kblock_sm (after_block b (again a b k))) tmp m) (MinorStmt Sskip_sm k tmp m)"
proof -
  let ?step = "sm_step T E S body" and ?k = "after_block b (again a b k)"
  have "?step (MinorStmt (Sexit_sm 1) (Kblock_sm ?k) tmp m) (MinorStmt (Sexit_sm 0) ?k tmp m)"
    using sm_exit_outer [of 1 T E S body ?k tmp m] by simp
  moreover have "?step\<^sup>*\<^sup>* (MinorStmt (Sexit_sm 0) ?k tmp m) (MinorStmt (Sexit_sm 0) (again a b k) tmp m)"
    by (auto simp: after_block_def intro: sm_exit_seq)
  moreover have "?step (MinorStmt (Sexit_sm 0) (again a b k) tmp m) (MinorStmt (Sexit_sm 0) (Kblock_sm k) tmp m)"
    by (rule sm_exit_seq)
  moreover have "?step (MinorStmt (Sexit_sm 0) (Kblock_sm k) tmp m) (MinorStmt Sskip_sm k tmp m)" by (rule sm_exit_block)
  ultimately show ?thesis by (meson rtranclp.rtrancl_into_rtrancl rtranclp_into_tranclp2)
qed

lemma switch_translated:
  "tr_light_cases ps pt cs cs' \<Longrightarrow> tr_light ps pt d d' \<Longrightarrow> cases_typed S cs \<Longrightarrow> cl_stmt_typed S d \<Longrightarrow>
    tr_light ps pt (cl_switch_target lng w cs d) (sm_switch_target lng w cs' d') \<and> cl_stmt_typed S (cl_switch_target lng w cs d)"
proof (induction lng w cs d arbitrary: cs' rule: cl_switch_target.induct)
  case (2 lng w v a cs d)
  then show ?case by (cases lng) auto
qed simp

lemma match_set_temp:
  "params_match S pt pe tmp tmp' \<Longrightarrow> temp_declared i tmp \<Longrightarrow> params_match S pt pe (set_temp i v tmp) (set_temp i v tmp')"
  by (cases i) (auto simp: params_match_def set_temp_def temp_declared_def ran_def)

lemma match_declared: "params_match S pt pe tmp tmp' \<Longrightarrow> temp_declared i tmp \<Longrightarrow> temp_declared i tmp'"
  by (cases i) (auto simp: params_match_def temp_declared_def)

lemma match_set_param:
  assumes "params_match S pt pe tmp tmp'" "pt x = Some i"
  shows "params_match S pt (pe(x \<mapsto> v)) tmp (tmp'(i \<mapsto> v))"
proof -
  have "x \<in> dom pe" using params_match_temp(1) [OF assms] by auto
  moreover have "j \<noteq> i" if "pt y = Some j" "y \<noteq> x" for y j
    using assms that unfolding params_match_def inj_on_def by (metis domI)
  ultimately show ?thesis using assms by (auto simp: params_match_def ran_def dom_def insert_absorb)
qed

lemma matched: "sm_step T E S body' u t' \<Longrightarrow> light_match pt S t t' \<Longrightarrow> \<exists>t'. (sm_step T E S body')\<^sup>+\<^sup>+ u t' \<and> light_match pt S t t'"
  by (meson tranclp.r_into_trancl)

lemma callee_unsigned: "map_option transformSig None = None"
  by simp

text \<open>A step of the source, from a translated statement.\<close>

lemma light_step:
  assumes m: "params_match S pt pe tmp tmp'" and typed: "cl_stmt_typed S s"
    and tr: "tr_light (param_names S) pt s s'" and k: "cont_match (param_names S) pt S k k'"
    and labels: "labels_found pt S body body'"
    and step: "cl_step T E S body (LightStmt s k pe tmp mem) t"
  shows "\<exists>t'. (sm_step T E S body')\<^sup>+\<^sup>+ (MinorStmt s' k' tmp' mem) t' \<and> light_match pt S t t'"
proof -
  have dom: "dom pe = param_names S" using m by (simp add: params_match_def)
  note ev = light_expr [OF m] and evs = light_exprs [OF m]
  from step show ?thesis
  proof cases
    case (cl_skip_seq s1 k1)
    with tr k obtain s1' r where "s' = Sskip_sm" "k' = Kseq_sm s1' r" "tr_light (param_names S) pt s1 s1'" "cl_stmt_typed S s1"
      "cont_match (param_names S) pt S k1 r" by auto
    with cl_skip_seq m show ?thesis by (auto intro!: matched sm_step.sm_skip_seq)
  next
    case cl_skip_stop
    with tr k show ?thesis by (auto intro!: matched sm_step.sm_skip_stop)
  next
    case (cl_assign_param x e v u)
    then have "x \<in> param_names S" using dom by auto
    with cl_assign_param tr obtain e' i where e': "tr_expr pt e e'" "pt x = Some i" "s' = Sset_sm i e'" by auto
    have "sm_eval T S tmp' mem e' = Some v" using ev(1) cl_assign_param typed e' by auto
    moreover have "temp_declared (Some i) tmp'" using params_match_temp(1) [OF m e'(2)] by (auto simp: temp_declared_def)
    ultimately show ?thesis
      using cl_assign_param e' k match_set_param [OF m e'(2)] by (auto intro!: matched sm_step.sm_set)
  next
    case (cl_assign a p ch e w m')
    have plain: "(\<exists>x u. a = Evar_cl x u \<and> x \<in> param_names S) = False"
    proof (rule iffI)
      assume "\<exists>x u. a = Evar_cl x u \<and> x \<in> param_names S"
      then obtain x u where x: "a = Evar_cl x u" "x \<in> dom pe" using dom by blast
      then have "pe x \<noteq> None" by auto
      with x(1) cl_assign(3) show False by (simp add: cl_address_def)
    qed simp
    from tr obtain a' e' where e': "tr_expr pt e e'" "tr_addr pt a a'" "s' = Sstore_sm ch a' e'"
      unfolding cl_assign(1) tr_light.simps plain if_False value_chunk_ChunkForType [OF cl_assign(4)] by blast
    with ev cl_assign typed have "sm_eval T S tmp' mem a' = Some (Some p)" "sm_eval T S tmp' mem e' = Some (Some w)" by auto
    with cl_assign e' m k show ?thesis by (auto intro!: matched sm_step.sm_store)
  next
    case (cl_set e v i)
    with tr obtain e' where e': "tr_expr pt e e'" "s' = Sset_sm i e'" by auto
    with ev(1) cl_set typed have "sm_eval T S tmp' mem e' = Some v" by auto
    with cl_set e' k match_declared [OF m cl_set(4)] match_set_temp [OF m cl_set(4), of v] show ?thesis
      by (auto simp: set_temp_def intro!: matched sm_step.sm_set)
  next
    case (cl_call e fv args vs n v m' i)
    with tr obtain f' args' where t: "tr_expr pt e f'" "list_all2 (tr_expr pt) args args'" "s' = Scall_sm i None f' args'" by auto
    have "sm_callee T S tmp' mem f' = Some fv" "sm_eval_list T S tmp' mem args' = Some vs"
      using callee_correct [OF m] evs cl_call typed t by auto
    then have "sm_step T E S body' (MinorStmt s' k' tmp' mem) (MinorStmt Sskip_sm k' (set_temp i v tmp') m')"
      unfolding t(3) using cl_call match_declared [OF m]
      by (intro sm_step.sm_call [of T S tmp' mem f' fv args' vs n E None v m' i body' k', unfolded callee_unsigned]) simp_all
    with cl_call k match_set_temp [OF m] show ?thesis by (auto intro!: matched)
  next
    case (cl_builtin args vs bf v m' i)
    with tr obtain args' where t: "list_all2 (tr_expr pt) args args'" "s' = Sbuiltin_sm i bf args'" by auto
    have "sm_eval_list T S tmp' mem args' = Some vs" using evs cl_builtin typed t by auto
    with t cl_builtin k match_declared [OF m] match_set_temp [OF m] show ?thesis
      by (auto intro!: matched sm_step.sm_builtin)
  next
    case (cl_seq a b)
    with tr typed k m show ?thesis by (auto intro!: matched sm_step.sm_seq)
  next
    case (cl_ifthenelse c v a b)
    with tr obtain c' a' b' where t: "tr_expr pt c c'" "tr_light (param_names S) pt a a'" "tr_light (param_names S) pt b b'"
      "s' = Sifthenelse_sm c' a' b'" by auto
    have "sm_cond T S tmp' mem c' = Some v" using light_cond [OF m] cl_ifthenelse typed t by auto
    from sm_step.sm_ifthenelse [OF this]
    have "sm_step T E S body' (MinorStmt s' k' tmp' mem) (MinorStmt (if v then a' else b') k' tmp' mem)" unfolding t(4) .
    moreover have "light_match pt S t (MinorStmt (if v then a' else b') k' tmp' mem)"
      using t cl_ifthenelse typed k m by (cases v) auto
    ultimately show ?thesis by (rule matched)
  next
    case (cl_loop a b)
    with tr obtain a' b' where t: "tr_light (param_names S) pt a a'" "tr_light (param_names S) pt b b'"
      "s' = Sblock_sm (Sloop_sm (loop_body a' b'))" by (auto simp: Seq_loop_body)
    have "(sm_step T E S body')\<^sup>+\<^sup>+ (MinorStmt s' k' tmp' mem) (MinorStmt a' (Kblock_sm (after_block b' (again a' b' k'))) tmp' mem)"
      unfolding t(3) by (rule tranclp_into_tranclp2 [OF sm_step.sm_block loop_enter])
    moreover have "light_match pt S t (MinorStmt a' (Kblock_sm (after_block b' (again a' b' k'))) tmp' mem)"
      using cl_loop t typed k m by auto
    ultimately show ?thesis by blast
  next
    case (cl_next a b k1)
    with k obtain a' b' r where t: "tr_light (param_names S) pt a a'" "tr_light (param_names S) pt b b'" "cl_stmt_typed S a" "cl_stmt_typed S b"
      "cont_match (param_names S) pt S k1 r" "k' = Kblock_sm (after_block b' (again a' b' r))" by auto
    have "s' = Sskip_sm \<or> s' = Sexit_sm 0" using cl_next tr by auto
    from block_left [OF this, of T E S body' b' "again a' b' r" tmp' mem]
    have "(sm_step T E S body')\<^sup>+\<^sup>+ (MinorStmt s' k' tmp' mem) (MinorStmt b' (again a' b' r) tmp' mem)" by (simp add: t(6))
    moreover have "light_match pt S t (MinorStmt b' (again a' b' r) tmp' mem)" using t(1-5) cl_next m by auto
    ultimately show ?thesis by blast
  next
    case (cl_again a b k1)
    with k obtain a' b' r where t: "tr_light (param_names S) pt a a'" "tr_light (param_names S) pt b b'" "cl_stmt_typed S a" "cl_stmt_typed S b"
      "cont_match (param_names S) pt S k1 r" "k' = again a' b' r" by auto
    have "s' = Sskip_sm" using cl_again tr by simp
    with t(6) have "sm_step T E S body' (MinorStmt s' k' tmp' mem) (MinorStmt (Sloop_sm (loop_body a' b')) (Kblock_sm r) tmp' mem)"
      by (simp add: sm_step.sm_skip_seq)
    moreover have "light_match pt S t (MinorStmt (Sloop_sm (loop_body a' b')) (Kblock_sm r) tmp' mem)"
      using t(1-5) cl_again m by auto
    ultimately show ?thesis by (rule matched)
  next
    case (cl_break a b k1)
    with k obtain a' b' r where t: "cont_match (param_names S) pt S k1 r" "k' = Kblock_sm (after_block b' (again a' b' r))" by auto
    have "(sm_step T E S body')\<^sup>+\<^sup>+ (MinorStmt s' k' tmp' mem) (MinorStmt Sskip_sm r tmp' mem)"
      using loop_left [of T E S body' b' a' r tmp' mem] tr cl_break by (simp add: t(2))
    moreover have "light_match pt S t (MinorStmt Sskip_sm r tmp' mem)" using t(1) cl_break m by auto
    ultimately show ?thesis by blast
  next
    case (cl_unwind a k1)
    with k obtain a' r where t: "cont_match (param_names S) pt S k1 r" "k' = Kseq_sm a' r" by auto
    obtain n where n: "s' = Sexit_sm n" "tr_light (param_names S) pt s (Sexit_sm n)" using cl_unwind tr by auto
    have "sm_step T E S body' (MinorStmt s' k' tmp' mem) (MinorStmt (Sexit_sm n) r tmp' mem)"
      unfolding n(1) t(2) by (rule sm_step.sm_exit_seq)
    moreover have "light_match pt S t (MinorStmt (Sexit_sm n) r tmp' mem)" using t(1) n(2) cl_unwind m typed by auto
    ultimately show ?thesis by (rule matched)
  next
    case (cl_switch e w cs d hb)
    with tr obtain e' cs' d' where t: "tr_expr pt e e'" "tr_light_cases (param_names S) pt cs cs'" "tr_light (param_names S) pt d d'"
      "s' = Sswitch_sm (is_long (ExprType e)) e' cs' d'" by auto
    have "sm_eval T S tmp' mem e' = Some (Some w)" using ev(1) cl_switch typed t by auto
    from sm_step.sm_switch [OF this] have "sm_step T E S body' (MinorStmt s' k' tmp' mem)
        (MinorStmt (sm_switch_target (is_long (ExprType e)) w cs' d') k' tmp' mem)" unfolding t(4) .
    moreover have "light_match pt S t (MinorStmt (sm_switch_target (is_long (ExprType e)) w cs' d') k' tmp' mem)"
      using cl_switch typed k m switch_translated [OF t(2,3), of S] by auto
    ultimately show ?thesis by (rule matched)
  next
    case cl_return_void
    with tr show ?thesis by (auto intro!: matched sm_step.sm_return_void)
  next
    case (cl_return e v)
    with tr obtain e' where t: "tr_expr pt e e'" "s' = Sreturn_sm (Some e')" by (auto simp: option_rel_Some1)
    with ev(1) cl_return typed have "sm_eval T S tmp' mem e' = Some v" by auto
    with t cl_return show ?thesis by (auto intro!: matched sm_step.sm_return)
  next
    case (cl_label l a)
    with tr typed k m show ?thesis by (auto intro!: matched sm_step.sm_label)
  next
    case (cl_goto l a k1)
    then have s': "s' = Sgoto_sm l" using tr by simp
    from labels cl_goto(3) obtain a' r where "sm_find_label l body' Kstop_sm = Some (a', r)" "tr_light (param_names S) pt a a'"
      "cl_stmt_typed S a" "cont_match (param_names S) pt S k1 r" by (rule labels_foundE)
    with s' cl_goto m show ?thesis by (auto intro!: matched sm_step.sm_goto)
  qed
qed

lemma light_match_step:
  assumes "light_match pt S s t" and labels: "labels_found pt S body body'" and step: "cl_step T E S body s s2"
  shows "\<exists>t'. (sm_step T E S body')\<^sup>+\<^sup>+ t t' \<and> light_match pt S s2 t'"
proof -
  obtain s1 k pe tmp mem where s: "s = LightStmt s1 k pe tmp mem" using step by (cases s) (auto elim: cl_step_finalE)
  with assms(1) obtain s' k' tmp' where t: "t = MinorStmt s' k' tmp' mem" by (cases t) auto
  have m: "params_match S pt pe tmp tmp'" and typed: "cl_stmt_typed S s1" using assms(1) by (simp_all add: s t)
  show ?thesis
  proof (cases "tr_light (param_names S) pt s1 s' \<and> cont_match (param_names S) pt S k k'")
    case True
    then show ?thesis unfolding t using light_step [OF m typed _ _ labels step [unfolded s]] by blast
  next
    case False
    with assms(1) obtain a b a' b' r where l: "s1 = Sloop_cl a b" "tr_light (param_names S) pt a a'" "tr_light (param_names S) pt b b'"
      "cont_match (param_names S) pt S k r" "s' = Sloop_sm (loop_body a' b')" "k' = Kblock_sm r" unfolding s t by auto
    have "s2 = LightStmt a (Kloop1_cl a b k) pe tmp mem" using step by (auto simp: s l(1) elim: cl_step_stmtE)
    then have "light_match pt S s2 (MinorStmt a' (Kblock_sm (after_block b' (again a' b' r))) tmp' mem)"
      using l m typed by auto
    with loop_enter [of T E S body' a' b' r tmp' mem] show ?thesis unfolding t l(5,6) by blast
  qed
qed

interpretation cshmgen: fsim "cl_step T E S body" cl_final "sm_step T E S body'" sm_final
  "\<lambda>s t. light_match pt S s t \<and> labels_found pt S body body'" "\<lambda>_. 0" for T E S body body' pt
proof (unfold_locales, goal_cases)
  case (1 s t s')
  then show ?case using light_match_step by blast
next
  case (2 s t r)
  then show ?case by (cases s) auto
qed

section \<open>Functions\<close>

text \<open>The parameters that are assigned, and their temporaries.\<close>

lemma scan_params: "scanForModifiedParams s ps A \<subseteq> A \<union> ps" "scan_cases cs ps A \<subseteq> A \<union> ps"
  by (induction s ps A and cs ps A rule: scanForModifiedParams_scan_cases.induct) (auto split: cl_expr.splits)

lemma modified_params:
  assumes "\<forall>xs. mset (perm xs) = mset xs"
  shows "distinct (findModifiedParams perm body params)"
    "set (findModifiedParams perm body params) = scanForModifiedParams body (set params) {}"
proof -
  have p: "set (perm xs) = set xs" "distinct (perm xs) \<longleftrightarrow> distinct xs" for xs
    using assms by (metis mset_eq_setD) (metis assms mset_eq_imp_distinct_iff)
  show "distinct (findModifiedParams perm body params)" by (simp add: findModifiedParams_def p)
  show "set (findModifiedParams perm body params) = scanForModifiedParams body (set params) {}"
    using scan_params(1) [of body "set params" "{}"] by (auto simp: findModifiedParams_def p)
qed

lemma number_params_props:
  assumes "distinct xs"
  shows "dom (number_params xs n) = set xs" "ran (number_params xs n) = {n ..< n + int (length xs)}"
    "inj_on (number_params xs n) (dom (number_params xs n))"
proof -
  have len: "length xs = length (map (\<lambda>i. n + int i) [0..<length xs])" by simp
  show dom: "dom (number_params xs n) = set xs" by (simp add: number_params_def)
  have nth: "number_params xs n (xs ! j) = Some (n + int j)" if "j < length xs" for j
    using that assms by (simp add: number_params_def map_of_zip_nth)
  have "ran (number_params xs n) = (\<lambda>i. n + int i) ` {..<length xs}"
    using assms by (simp add: number_params_def ran_map_of_zip atLeast0LessThan)
  also have "\<dots> = {n ..< n + int (length xs)}"
    by (auto intro!: image_eqI [of x _ "nat (x - n)" for x])
  finally show "ran (number_params xs n) = {n ..< n + int (length xs)}" .
  show "inj_on (number_params xs n) (dom (number_params xs n))"
  proof (rule inj_onI)
    fix x y assume "x \<in> dom (number_params xs n)" "y \<in> dom (number_params xs n)" and eq: "number_params xs n x = number_params xs n y"
    then obtain j k where "j < length xs" "x = xs ! j" "k < length xs" "y = xs ! k"
      unfolding dom by (metis in_set_conv_nth)
    with eq nth show "x = y" by simp
  qed
qed

text \<open>The copies of the parameters at the start of the function.\<close>

definition copy_param :: "(string \<rightharpoonup> int) \<Rightarrow> string \<Rightarrow> sm_stmt" where
  "copy_param pt x = Sset_sm (the (pt x)) (Evar_sm x)"

definition copied :: "scope \<Rightarrow> (string \<rightharpoonup> int) \<Rightarrow> string list \<Rightarrow> temps_env \<Rightarrow> temps_env" where
  "copied S pt xs tmp = fold (\<lambda>x tmp. tmp(the (pt x) := sc_params S x)) xs tmp"

lemma Seq_snoc: "Seq_sm (ss @ [b]) = (if Seq_sm ss = Sskip_sm then b else if b = Sskip_sm then Seq_sm ss else Sseq_sm (Seq_sm ss) b)"
  by (simp add: Seq_sm_def)

lemma Seq_copies_skip: "Seq_sm (map (copy_param pt) xs) = Sskip_sm \<longleftrightarrow> xs = []"
  by (induction xs rule: rev_induct) (auto simp: Seq_snoc copy_param_def, simp add: Seq_sm_def)

lemma copied_declared: "\<forall>x\<in>set xs. sc_params S x \<noteq> None \<Longrightarrow> tmp i \<noteq> None \<Longrightarrow> copied S pt xs tmp i \<noteq> None"
  unfolding copied_def by (induction xs arbitrary: tmp) auto

lemma copies_run:
  assumes "\<forall>x\<in>set xs. sc_params S x \<noteq> None \<and> tmp (the (pt x)) \<noteq> None"
  shows "(sm_step T E S body)\<^sup>*\<^sup>* (MinorStmt (Seq_sm (map (copy_param pt) xs)) k tmp m) (MinorStmt Sskip_sm k (copied S pt xs tmp) m)"
  using assms
proof (induction xs arbitrary: k rule: rev_induct)
  case Nil
  then show ?case by (simp add: Seq_sm_def copied_def)
next
  case (snoc x xs)
  let ?step = "sm_step T E S body" and ?tmp = "copied S pt xs tmp"
  obtain v where v: "sc_params S x = Some v" using snoc.prems by auto
  have "temp_declared (Some (the (pt x))) ?tmp"
    using snoc.prems copied_declared [of xs S tmp "the (pt x)" pt] by (simp add: temp_declared_def)
  then have set: "?step (MinorStmt (copy_param pt x) k ?tmp m) (MinorStmt Sskip_sm k (copied S pt (xs @ [x]) tmp) m)" for k
    using sm_set [of T S ?tmp m "Evar_sm x" v "the (pt x)" E body k] v by (simp add: copy_param_def read_var_def copied_def)
  show ?case
  proof (cases "xs = []")
    case True
    then have "Seq_sm (map (copy_param pt) (xs @ [x])) = copy_param pt x" "?tmp = tmp"
      by (simp_all add: Seq_snoc copied_def) (simp add: Seq_sm_def)
    with set [of k] show ?thesis by (metis r_into_rtranclp)
  next
    case False
    have "?step (MinorStmt (Sseq_sm (Seq_sm (map (copy_param pt) xs)) (copy_param pt x)) k tmp m)
        (MinorStmt (Seq_sm (map (copy_param pt) xs)) (Kseq_sm (copy_param pt x) k) tmp m)" by (rule sm_seq)
    moreover have "?step\<^sup>*\<^sup>* (MinorStmt (Seq_sm (map (copy_param pt) xs)) (Kseq_sm (copy_param pt x) k) tmp m)
        (MinorStmt Sskip_sm (Kseq_sm (copy_param pt x) k) ?tmp m)" using snoc by simp
    moreover have "?step (MinorStmt Sskip_sm (Kseq_sm (copy_param pt x) k) ?tmp m) (MinorStmt (copy_param pt x) k ?tmp m)"
      by (rule sm_skip_seq)
    ultimately have "?step\<^sup>*\<^sup>* (MinorStmt (Sseq_sm (Seq_sm (map (copy_param pt) xs)) (copy_param pt x)) k tmp m)
        (MinorStmt Sskip_sm k (copied S pt (xs @ [x]) tmp) m)"
      using set by (meson converse_rtranclp_into_rtranclp rtranclp.rtrancl_into_rtrancl)
    with False show ?thesis by (simp add: Seq_snoc Seq_copies_skip) (simp add: copy_param_def)
  qed
qed


lemma copied_value:
  assumes "inj_on pt (set xs)" "set xs \<subseteq> dom pt" "distinct xs"
  shows "x \<in> set xs \<Longrightarrow> copied S pt xs tmp (the (pt x)) = sc_params S x"
    "i \<notin> ran pt \<Longrightarrow> copied S pt xs tmp i = tmp i"
proof -
  show "x \<in> set xs \<Longrightarrow> copied S pt xs tmp (the (pt x)) = sc_params S x"
    using assms
  proof (induction xs rule: rev_induct)
    case (snoc y xs)
    show ?case
    proof (cases "x = y")
      case False
      with snoc.prems have "x \<in> set xs" "pt x \<noteq> None" "pt y \<noteq> None" "pt x \<noteq> pt y" by (auto simp: inj_on_def)
      moreover have "inj_on pt (set xs)" "set xs \<subseteq> dom pt" "distinct xs" using snoc.prems by (auto intro: inj_on_subset)
      ultimately show ?thesis using snoc.IH by (auto simp: copied_def)
    qed (simp add: copied_def)
  qed simp
  show "i \<notin> ran pt \<Longrightarrow> copied S pt xs tmp i = tmp i"
    using assms(2) by (induction xs rule: rev_induct) (auto simp: copied_def ran_def)
qed

definition with_copies :: "(string \<rightharpoonup> int) \<Rightarrow> string list \<Rightarrow> sm_stmt \<Rightarrow> sm_stmt" where
  "with_copies pt xs body = Seq_sm (map (copy_param pt) xs @ [body])"

lemma with_copies_run:
  assumes "\<forall>x\<in>set xs. sc_params S x \<noteq> None \<and> tmp (the (pt x)) \<noteq> None"
  shows "(sm_step T E S body)\<^sup>*\<^sup>* (MinorStmt (with_copies pt xs b) k tmp m) (MinorStmt b k (copied S pt xs tmp) m)"
proof -
  let ?step = "sm_step T E S body" and ?c = "Seq_sm (map (copy_param pt) xs)"
  note run = copies_run [OF assms, of T E body _ m]
  consider "xs = []" | "xs \<noteq> []" "b = Sskip_sm" | "xs \<noteq> []" "b \<noteq> Sskip_sm" by blast
  then show ?thesis
  proof cases
    case 1
    then show ?thesis by (simp add: with_copies_def Seq_sm_def copied_def)
  next
    case 2
    with run [of k] show ?thesis by (simp add: with_copies_def Seq_snoc Seq_copies_skip)
  next
    case 3
    have "?step\<^sup>*\<^sup>* (MinorStmt ?c (Kseq_sm b k) tmp m) (MinorStmt b k (copied S pt xs tmp) m)"
      using run [of "Kseq_sm b k"] sm_skip_seq by (rule rtranclp.rtrancl_into_rtrancl)
    with sm_seq have "?step\<^sup>*\<^sup>* (MinorStmt (Sseq_sm ?c b) k tmp m) (MinorStmt b k (copied S pt xs tmp) m)"
      by (rule converse_rtranclp_into_rtranclp)
    with 3 show ?thesis by (simp add: with_copies_def Seq_snoc Seq_copies_skip)
  qed
qed

lemma find_label_copies: "sm_find_label l (Seq_sm (map (copy_param pt) xs)) k = None"
  by (induction xs arbitrary: k rule: rev_induct) (simp add: Seq_sm_def, auto simp: Seq_snoc copy_param_def)

lemma find_label_with_copies: "sm_find_label l (with_copies pt xs b) k = sm_find_label l b k"
  by (simp add: with_copies_def Seq_snoc find_label_copies)

lemma used_with_copies: "set (used_temps b) \<subseteq> set (used_temps (with_copies pt xs b))"
  by (simp add: with_copies_def Seq_snoc)

text \<open>Every temporary of the source occurs in the translation.\<close>

lemma extendToLong_temps [simp]: "expr_temps (extendToLong e t b) = expr_temps e"
  by (simp add: extendToLong_def split: ctype.splits)

lemma translateBinop_temps [simp]: "expr_temps (translateBinop bop ta tb a b) = expr_temps a @ expr_temps b"
  by (simp add: translateBinop_def split: prod.splits)

lemma cast_temps [simp]: "expr_temps (cshm_translateCast ta tb a) = expr_temps a"
  by (simp add: cshm_translateCast_def split: option.splits)

lemma offset_temps [simp]: "expr_temps (add_offset a n) = expr_temps a"
  by (simp add: add_offset_def)

lemma expr_temps_kept:
  "tr_expr pt e e' \<Longrightarrow> set (cl_expr_temps e) \<subseteq> set (expr_temps e')"
  "tr_addr pt e e' \<Longrightarrow> set (cl_expr_temps e) \<subseteq> set (expr_temps e')"
proof (induction pt e e' and pt e e' rule: tr_expr_tr_addr.induct)
qed (auto split: option.splits, (blast dest: subsetD)+)

lemma list_temps_kept: "list_all2 (tr_expr pt) es es' \<Longrightarrow> set (concat (map cl_expr_temps es)) \<subseteq> set (concat (map expr_temps es'))"
  by (induction rule: list_all2_induct) (auto dest: expr_temps_kept(1))

lemma Seq_two_temps: "set (used_temps (Seq_sm [Sblock_sm a, b])) = set (used_temps a) \<union> set (used_temps b)"
  by (auto simp: Seq_sm_def)

lemma stmt_temps_kept:
  "tr_light ps pt s s' \<Longrightarrow> set (cl_used_temps s) \<subseteq> set (used_temps s')"
  "tr_light_cases ps pt cs cs' \<Longrightarrow> set (cl_case_temps cs) \<subseteq> set (case_temps cs')"
proof (induction ps pt s s' and ps pt cs cs' rule: tr_light_tr_light_cases.induct)
  case (2 ps pt a e s')
  then show ?case by (fastforce dest: expr_temps_kept split: if_splits)
next
  case (4 ps pt i f args s')
  then show ?case using list_temps_kept [of pt args] expr_temps_kept(1) [of pt f] by fastforce
next
  case (5 ps pt i bf args s')
  then show ?case using list_temps_kept [of pt args] by fastforce
next
  case (8 ps pt a b s')
  then obtain a' b' where t: "tr_light ps pt a a'" "tr_light ps pt b b'" "s' = Sblock_sm (Sloop_sm (Seq_sm [Sblock_sm a', b']))"
    by auto
  with "8.IH" Seq_two_temps [of a' b'] show ?case by fastforce
qed (auto dest!: expr_temps_kept(1) simp: option_rel_Some1 split: option.splits, (blast dest: subsetD)+)

text \<open>
  The conditions on a function: its body is one whose types the pass handles, and it does not use the
  temporaries that the pass takes for the assigned parameters, which come right after the declared ones.
\<close>

definition assigned_params :: "cl_function \<Rightarrow> string set" where
  "assigned_params fn = scanForModifiedParams (cl_body fn) (cv_name ` set (cl_params fn)) {}"

definition temps_apart :: "cl_function \<Rightarrow> bool" where
  "temps_apart fn \<longleftrightarrow> (\<forall>i\<in>set (cl_used_temps (cl_body fn)).
     i < int (length (cl_temps fn)) \<or> int (length (cl_temps fn)) + int (card (assigned_params fn)) \<le> i)"

definition cl_fun_ok :: "scope \<Rightarrow> cl_function \<Rightarrow> bool" where
  "cl_fun_ok S fn \<longleftrightarrow> cl_stmt_typed S (cl_body fn) \<and> temps_apart fn"

lemma function_translated:
  assumes f: "translateFunctionWithStructs perm perm' fn defs et = Some (F, et')"
    and perms: "\<forall>xs. mset (perm xs) = mset xs" "\<forall>xs. mset (perm' xs) = mset xs"
  obtains pt xs b where "distinct xs" "set xs = assigned_params fn" "dom pt = set xs" "inj_on pt (dom pt)"
    "ran pt = {int (length (cl_temps fn)) ..< int (length (cl_temps fn)) + int (length xs)}"
    "tr_light (cv_name ` set (cl_params fn)) pt (cl_body fn) b" "sm_body F = with_copies pt xs b"
    "sm_params F = map cv_name (cl_params fn)" "length (sm_temps F) = length (cl_temps fn) + length xs"
proof -
  let ?params = "map cv_name (cl_params fn)" and ?n = "int (length (cl_temps fn))"
  let ?ys = "findModifiedParams perm (cl_body fn) ?params"
  let ?pt = "number_params ?ys ?n"
  note ys = modified_params [OF perms(1), of "cl_body fn" ?params]
  note pt = number_params_props [OF ys(1), of ?n]
  define st where "st = \<lparr>st_expr = et\<lparr>et_paramTemps := ?pt\<rparr>, st_params = set ?params, st_paramTemps = ?pt,
            st_nextTempID = ?n + int (length ?ys)\<rparr>"
  from f obtain b st' where b: "cshm_TranslateStmt (cl_body fn) st = Some (b, st')"
    and F: "sm_params F = ?params" "length (sm_temps F) = length (cl_temps fn) + length ?ys"
      "sm_body F = (if ?ys = [] then b else with_copies ?pt (perm' ?ys) b)"
    by (auto simp: translateFunctionWithStructs_def Let_def bind_eq_Some_conv st_def with_copies_def copy_param_def [abs_def])
  have "st_fixed (set ?params) ?pt st" by (simp add: st_fixed_def st_def)
  with stmt_translated(1) [OF b, of "set ?params" ?pt "{}"] ys(2) pt(1) have "tr_light (set ?params) ?pt (cl_body fn) b" by simp
  moreover have "sm_body F = with_copies ?pt (perm' ?ys) b"
  proof (cases "?ys = []")
    case True
    then have "perm' ?ys = []" using perms(2) by (metis mset_zero_iff)
    with True F(3) show ?thesis by (simp add: with_copies_def Seq_sm_def)
  qed (simp add: F(3))
  moreover have "distinct (perm' ?ys)" "set (perm' ?ys) = set ?ys" "length (perm' ?ys) = length ?ys"
    using mset_eq_imp_distinct_iff mset_eq_setD mset_eq_length perms(2) [rule_format, of ?ys] ys(1) by blast+
  ultimately show thesis using that [of "perm' ?ys" ?pt b] ys(2) pt F(1,2) by (simp add: assigned_params_def)
qed

lemma translated_behaves:
  assumes f: "translateFunctionWithStructs perm perm' fn defs et = Some (F, et')"
    and perms: "\<forall>xs. mset (perm xs) = mset xs" "\<forall>xs. mset (perm' xs) = mset xs"
    and ok: "cl_fun_ok S fn" and S: "S = sm_scope globals placed F vs"
    and run: "behaves (cl_step T E S (cl_body fn)) cl_final
      (LightStmt (cl_body fn) Kstop_cl (cl_init_params fn vs) (cl_init_temps fn) m) b" "b \<noteq> Goes_wrong"
  shows "behaves (sm_step T E S (sm_body F)) sm_final (MinorStmt (sm_body F) Kstop_sm (sm_init_temps F) m) b"
proof -
  obtain pt xs c where xs: "distinct xs" "set xs = assigned_params fn" and pt: "dom pt = set xs" "inj_on pt (dom pt)"
    "ran pt = {int (length (cl_temps fn)) ..< int (length (cl_temps fn)) + int (length xs)}"
    and tr: "tr_light (cv_name ` set (cl_params fn)) pt (cl_body fn) c" and body: "sm_body F = with_copies pt xs c"
    and F: "sm_params F = map cv_name (cl_params fn)" "length (sm_temps F) = length (cl_temps fn) + length xs"
    by (rule function_translated [OF f perms])
  let ?tmp = "copied S pt xs (sm_init_temps F)" and ?pe = "cl_init_params fn vs"
  have pe: "?pe = sc_params S" by (simp add: S sm_scope_def cl_init_params_def F(1) cong del: if_weak_cong)
  have names: "param_names S = cv_name ` set (cl_params fn)" by (auto simp: S sm_scope_def F(1) split: if_splits)
  have "set xs \<subseteq> cv_name ` set (cl_params fn)" using scan_params(1) xs(2) by (fastforce simp: assigned_params_def)
  then have known: "\<forall>x\<in>set xs. sc_params S x \<noteq> None" using names by (auto simp: dom_def)
  have taken: "\<exists>i. pt x = Some i \<and> i \<in> ran pt \<and> sm_init_temps F i \<noteq> None" if "x \<in> set xs" for x
  proof -
    from that have "x \<in> dom pt" unfolding pt(1) .
    then obtain i where i: "pt x = Some i" by blast
    then have "i \<in> ran pt" by (rule ranI)
    then show ?thesis using i pt(3) F(2) by (auto simp: sm_init_temps_def)
  qed
  have apart: "i \<notin> ran pt \<and> sm_init_temps F i = cl_init_temps fn i" if "cl_init_temps fn i \<noteq> None" for i
  proof -
    have "card (assigned_params fn) = length xs" using xs by (metis distinct_card)
    moreover have "set (cl_used_temps (cl_body fn)) \<subseteq> set (used_temps (sm_body F))"
      using stmt_temps_kept(1) [OF tr] used_with_copies [of c pt xs] by (auto simp: body)
    ultimately show ?thesis using that ok pt(3) F(2)
      by (fastforce simp: cl_init_temps_def sm_init_temps_def cl_fun_ok_def temps_apart_def split: if_splits)
  qed
  have inj: "inj_on pt (set xs)" "set xs \<subseteq> dom pt" using pt by simp_all
  have "params_match S pt ?pe (cl_init_temps fn) ?tmp"
    unfolding params_match_def pe
  proof (intro conjI allI impI)
    fix x i assume x: "pt x = Some i"
    then have "x \<in> set xs" using pt(1) by auto
    with x copied_value(1) [OF inj xs(1), of x S "sm_init_temps F"] known
    show "\<exists>w. sc_params S x = Some w \<and> ?tmp i = Some w" by auto
  next
    fix i assume "cl_init_temps fn i \<noteq> None"
    with apart copied_value(2) [OF inj xs(1)] show "i \<notin> ran pt" "?tmp i = cl_init_temps fn i" by auto
  qed (use pt(2) in simp_all)
  moreover have typed: "cl_stmt_typed S (cl_body fn)" using ok by (simp add: cl_fun_ok_def)
  moreover note tr' = tr [folded names]
  moreover have "labels_found pt S (cl_body fn) (sm_body F)"
    using find_label_translated(1) [OF tr' typed, of Kstop_cl Kstop_sm]
    by (simp add: labels_found_def body find_label_with_copies)
  ultimately have "light_match pt S (LightStmt (cl_body fn) Kstop_cl ?pe (cl_init_temps fn) m) (MinorStmt c Kstop_sm ?tmp m) \<and>
      labels_found pt S (cl_body fn) (sm_body F)" by simp
  from cshmgen.safe_preserved [OF this run]
  have "behaves (sm_step T E S (sm_body F)) sm_final (MinorStmt c Kstop_sm ?tmp m) b" .
  moreover have "(sm_step T E S (sm_body F))\<^sup>*\<^sup>* (MinorStmt (sm_body F) Kstop_sm (sm_init_temps F) m) (MinorStmt c Kstop_sm ?tmp m)"
    unfolding body using with_copies_run known taken by (metis option.sel)
  ultimately show ?thesis by (rule behaves_star [rotated])
qed

lemma functions_translated:
  "cshm_functions perm perm' defs fns et = Some (fs, et') \<Longrightarrow> length fs = length fns \<and>
    (\<forall>i<length fns. \<exists>et1 et2. translateFunctionWithStructs perm perm' (fns ! i) defs et1 = Some (fs ! i, et2))"
proof (induction fns arbitrary: et fs)
  case (Cons fn fns)
  then obtain f et1 gs where f: "translateFunctionWithStructs perm perm' fn defs et = Some (f, et1)"
    "cshm_functions perm perm' defs fns et1 = Some (gs, et')" "fs = f # gs"
    by (auto simp: bind_pair)
  with Cons.IH [OF f(2)] show ?case by (auto simp: nth_Cons split: nat.splits)
qed simp

text \<open>When the pass returns: every place that is assigned or whose address is taken is one.\<close>

fun lv_expr :: "cl_expr \<Rightarrow> bool" and is_lvalue :: "cl_expr \<Rightarrow> bool" where
  "lv_expr (Eunop_cl uop a t) \<longleftrightarrow> lv_expr a"
| "lv_expr (Ebinop_cl bop a b t) \<longleftrightarrow> lv_expr a \<and> lv_expr b"
| "lv_expr (Ecast_cl a t) \<longleftrightarrow> lv_expr a"
| "lv_expr (Ederef_cl a t) \<longleftrightarrow> lv_expr a"
| "lv_expr (Eaddrof_cl a t) \<longleftrightarrow> is_lvalue a"
| "lv_expr (Efield_cl a f t) \<longleftrightarrow> is_lvalue a"
| "lv_expr _ \<longleftrightarrow> True"
| "is_lvalue (Evar_cl x t) \<longleftrightarrow> True"
| "is_lvalue (Ederef_cl a t) \<longleftrightarrow> lv_expr a"
| "is_lvalue (Efield_cl a f t) \<longleftrightarrow> is_lvalue a"
| "is_lvalue _ \<longleftrightarrow> False"

fun lv_stmt :: "cl_stmt \<Rightarrow> bool" and lv_cases :: "cl_switchCase list \<Rightarrow> bool" where
  "lv_stmt (Sassign_cl a e) \<longleftrightarrow> is_lvalue a \<and> lv_expr e"
| "lv_stmt (Sset_cl i e) \<longleftrightarrow> lv_expr e"
| "lv_stmt (Scall_cl i f args) \<longleftrightarrow> lv_expr f \<and> list_all lv_expr args"
| "lv_stmt (Sbuiltin_cl i bf args) \<longleftrightarrow> list_all lv_expr args"
| "lv_stmt (Ssequence_cl a b) \<longleftrightarrow> lv_stmt a \<and> lv_stmt b"
| "lv_stmt (Sifthenelse_cl c a b) \<longleftrightarrow> lv_expr c \<and> lv_stmt a \<and> lv_stmt b"
| "lv_stmt (Sloop_cl a b) \<longleftrightarrow> lv_stmt a \<and> lv_stmt b"
| "lv_stmt (Sreturn_cl r) \<longleftrightarrow> pred_option lv_expr r"
| "lv_stmt (Sswitch_cl e cs d hb) \<longleftrightarrow> lv_expr e \<and> lv_cases cs \<and> lv_stmt d"
| "lv_stmt (Slabel_cl l a) \<longleftrightarrow> lv_stmt a"
| "lv_stmt _ \<longleftrightarrow> True"
| "lv_cases [] \<longleftrightarrow> True"
| "lv_cases (SwitchCase_cl v a # cs) \<longleftrightarrow> lv_stmt a \<and> lv_cases cs"

lemma bind_None: "Option.bind r f \<noteq> None \<longleftrightarrow> (\<exists>x. r = Some x \<and> f x \<noteq> None)"
  by (cases r) auto

lemma expr_returns:
  "cshm_TranslateExpr e et \<noteq> None \<longleftrightarrow> lv_expr e"
  "translateLvalueAddr e et \<noteq> None \<longleftrightarrow> is_lvalue e"
  "TranslateFieldAddr e f et \<noteq> None \<longleftrightarrow> is_lvalue e"
proof (induction e et and e et and e f et rule: cshm_TranslateExpr_translateLvalueAddr_TranslateFieldAddr.induct)
  case (9 bop a b t et)
  show ?case
  proof (cases "cshm_TranslateExpr a et")
    case (Some r)
    then obtain a' et1 where r: "cshm_TranslateExpr a et = Some (a', et1)" by (cases r) auto
    with "9.IH"(1) "9.IH"(2) [OF r refl] show ?thesis by (auto simp: bind_None bind_pair)
  qed (use 9 in auto)
qed (auto simp: bind_None simp del: not_None_eq)

lemma list_returns: "list_all lv_expr es \<Longrightarrow> cshm_translate_list es et \<noteq> None"
proof (induction es arbitrary: et)
  case (Cons e es)
  then have "cshm_TranslateExpr e et \<noteq> None" using expr_returns(1) by simp
  then obtain e' et1 where "cshm_TranslateExpr e et = Some (e', et1)" by auto
  moreover have "cshm_translate_list es et1 \<noteq> None" using Cons by simp
  ultimately show ?case by auto
qed simp

lemma with_expr_returns:
  "lv_expr e \<Longrightarrow> \<exists>e' st'. with_expr (cshm_TranslateExpr e) st = Some (e', st')"
  "is_lvalue e \<Longrightarrow> \<exists>e' st'. with_expr (translateLvalueAddr e) st = Some (e', st')"
  "list_all lv_expr es \<Longrightarrow> \<exists>es' st'. with_expr (cshm_translate_list es) st = Some (es', st')"
  using expr_returns(1) [of e "st_expr st"] expr_returns(2) [of e "st_expr st"] list_returns [of es "st_expr st"]
  by (auto simp: with_expr_def)

lemma assign_returns:
  assumes "is_lvalue a" "lv_expr e"
  shows "\<exists>s' st'. cshm_translateAssign a e st = Some (s', st')"
proof -
  obtain v st1 where v: "with_expr (cshm_TranslateExpr e) st = Some (v, st1)" using with_expr_returns(1) [OF assms(2)] by blast
  obtain p st2 where p: "with_expr (translateLvalueAddr a) st1 = Some (p, st2)" using with_expr_returns(2) [OF assms(1)] by blast
  show ?thesis using v p assms(1) by (cases a) (simp_all add: cshm_translateAssign_def Let_def split: prod.split)
qed

lemma stmt_returns:
  "lv_stmt s \<Longrightarrow> \<exists>s' st'. cshm_TranslateStmt s st = Some (s', st')"
  "lv_cases cs \<Longrightarrow> \<exists>cs' st'. cshm_TranslateCases cs st = Some (cs', st')"
proof (induction s st and cs st rule: cshm_TranslateStmt_cshm_TranslateCases.induct)
  case (2 lhs rhs st)
  then show ?case using assign_returns by simp
next
  case (3 i e st)
  then show ?case using with_expr_returns(1) [of e st] by auto
next
  case (4 i f args st)
  then obtain f' st1 where "with_expr (cshm_TranslateExpr f) st = Some (f', st1)" using with_expr_returns(1) [of f st] by auto
  with 4 with_expr_returns(3) [of args st1] show ?case by auto
next
  case (5 i bf args st)
  then show ?case using with_expr_returns(3) [of args st] by auto
next
  case (7 c a b st)
  then obtain c' st1 where "with_expr (cshm_TranslateExpr c) st = Some (c', st1)" using with_expr_returns(1) [of c st] by auto
  with 7 show ?case by fastforce
next
  case (12 e st)
  then show ?case using with_expr_returns(1) [of e st] by auto
next
  case (13 e cs d hb st)
  then obtain e' st1 where "with_expr (cshm_TranslateExpr e) st = Some (e', st1)" using with_expr_returns(1) [of e st] by auto
  with 13 show ?case by fastforce
qed fastforce+

lemma then_returns: "lv_stmt s \<Longrightarrow> Option.bind (cshm_TranslateStmt s st) (\<lambda>(s', st'). Some (g s' st')) \<noteq> None"
  using stmt_returns(1) [of s st] by auto

lemma functions_return:
  assumes "\<forall>fn\<in>set fns. lv_stmt (cl_body fn)"
  shows "\<exists>fs et'. cshm_functions perm perm' defs fns et = Some (fs, et')"
  using assms
proof (induction fns arbitrary: et)
  case (Cons fn fns)
  then have "translateFunctionWithStructs perm perm' fn defs et \<noteq> None"
    unfolding translateFunctionWithStructs_def Let_def by (intro then_returns) simp
  then obtain F et1 where "translateFunctionWithStructs perm perm' fn defs et = Some (F, et1)" by auto
  with Cons.IH [of et1] Cons.prems show ?case by auto
qed simp


definition add_param :: cl_function where
  "add_param = \<lparr>cl_name = ''f'', cl_return = Int_c, cl_params = [\<lparr>cv_name = ''x'', cv_type = Int_c, cv_init = []\<rparr>], cl_locals = [],
     cl_temps = [],
     cl_body = Ssequence_cl
       (Sassign_cl (Evar_cl ''x'' Int_c) (Ebinop_cl Oadd_cl (Evar_cl ''x'' Int_c) (Econst_int 1 Int_c) Int_c))
       (Sreturn_cl (Some (Evar_cl ''x'' Int_c)))\<rparr>"

definition add_program :: cl_program where
  "add_program = \<lparr>cl_structs = [], cl_unions = [], cl_globals = [\<lparr>cv_name = ''g'', cv_type = Int_c, cv_init = []\<rparr>],
     cl_functions = [add_param]\<rparr>"

lemma add_param_terminates:
  "behaves (cl_step T E S (cl_body add_param)) cl_final
    (LightStmt (cl_body add_param) Kstop_cl (cl_init_params add_param [Some 6]) (cl_init_temps add_param) m)
    (Terminates (Returned (Some 7) m))"
proof -
  let ?pe = "cl_init_params add_param [Some 6]" and ?tmp = "cl_init_temps add_param" and ?body = "cl_body add_param"
  have x: "?pe ''x'' = Some (Some 6)" by (simp add: cl_init_params_def add_param_def)
  have "zx (word_of_int (conv (Tint_c I32 Signed) 6) + word_of_int (conv (Tint_c I32 Signed) 1)) = 7" by code_simp
  then have "cl_binop T Oadd_cl Int_c Int_c 6 1 = Some 7"
    by (simp add: cl_binop_def Int_c_def cl_arith_def common_def lo_def)
  moreover have one: "zx 1 = 1" by code_simp
  ultimately have e: "cl_eval T S ?pe ?tmp m (Ebinop_cl Oadd_cl (Evar_cl ''x'' Int_c) (Econst_int 1 Int_c) Int_c) = Some (Some 7)"
    by (simp add: cl_read_def x known2_def Int_c_def one)
  have r: "cl_eval T S (?pe(''x'' \<mapsto> Some 7)) ?tmp m (Evar_cl ''x'' Int_c) = Some (Some 7)" by (simp add: cl_read_def)
  have "behaves (cl_step T E S ?body) cl_final (LightFinal (Returned (Some 7) m)) (Terminates (Returned (Some 7) m))"
    by (auto simp: behaves_def)
  then show ?thesis
    apply (simp only: add_param_def [THEN arg_cong [where f = cl_body]] cl_function.simps)
    apply (rule behaves_step, rule cl_seq)
    apply (rule behaves_step, rule cl_assign_param [where v = "Some 7"])
      apply (simp add: x)
     apply (rule e)
    apply (rule behaves_step, rule cl_skip_seq)
    apply (rule behaves_step, rule cl_return [OF r])
    apply assumption
    done
qed


end
