(* ===== verification/Cminorgen.thy ===== *)
theory Cminorgen
  imports Csharpminor Decimal
begin

text \<open>
  The pass from Csharpminor to Cminor (\<open>pkg/cminorgen\<close>): \<open>stack.go\<close> lays out the locals whose address is
  taken, \<open>vars.go\<close> decides which locals those are and how variables are read and written, \<open>transform.go\<close>
  translates expressions, statements, functions and programs. A temporary with number \<open>i\<close> becomes the variable
  \<open>_ti\<close>. Where the Go code ranges over a map the order is unspecified; the model takes a function \<open>perm\<close> that
  rearranges the list. Sizes and offsets are mathematical integers: a frame is far smaller than \<open>2 ^ 63\<close>.
\<close>

section \<open>Stack layout\<close>

record stackSlot =
  ss_name :: string
  ss_offset :: int64
  ss_size :: int64
  ss_alignment :: int64

record stackLayout =
  sl_slots :: "stackSlot list"
  sl_totalSize :: int64

definition GetSlot :: "stackLayout \<Rightarrow> string \<Rightarrow> stackSlot option" where
  "GetSlot l name = find (\<lambda>s. ss_name s = name) (sl_slots l)"

definition alignmentForSize :: "int64 \<Rightarrow> int64" where
  "alignmentForSize sz = (if sz \<le> 1 then 1 else if sz \<le> 2 then 2 else if sz \<le> 4 then 4 else 8)"

definition cminor_alignUp :: "int64 \<Rightarrow> int64 \<Rightarrow> int64" where
  "cminor_alignUp n align = (if align \<le> 0 then n else go_div (n + align - 1) align * align)"

definition new_slot :: "varDecl \<Rightarrow> int64 \<Rightarrow> stackSlot" where
  "new_slot d offset = \<lparr>ss_name = vd_name d, ss_offset = cminor_alignUp offset (alignmentForSize (vd_size d)),
     ss_size = vd_size d, ss_alignment = alignmentForSize (vd_size d)\<rparr>"

primrec layout_from :: "varDecl list \<Rightarrow> int64 \<Rightarrow> stackSlot list \<times> int64" where
  "layout_from [] offset = ([], offset)"
| "layout_from (d # ds) offset =
     (let s = new_slot d offset; (ss, end_offset) = layout_from ds (ss_offset s + vd_size d) in (s # ss, end_offset))"

definition ComputeStackLayout :: "varDecl list \<Rightarrow> stackLayout" where
  "ComputeStackLayout locals =
     (let (slots, offset) = layout_from locals 0 in \<lparr>sl_slots = slots, sl_totalSize = cminor_alignUp offset 8\<rparr>)"

definition IsStackAllocated :: "string \<Rightarrow> varDecl list \<Rightarrow> bool" where
  "IsStackAllocated name locals \<longleftrightarrow> list_ex (\<lambda>l. vd_name l = name) locals"

fun findAddressTakenInExpr :: "sm_expr \<Rightarrow> string set \<Rightarrow> string set \<Rightarrow> string set" where
  "findAddressTakenInExpr (Eaddrof_sm x) locals result = (if x \<in> locals then insert x result else result)"
| "findAddressTakenInExpr (Eunop_sm uop a) locals result = findAddressTakenInExpr a locals result"
| "findAddressTakenInExpr (Ebinop_sm bop a b) locals result =
     findAddressTakenInExpr b locals (findAddressTakenInExpr a locals result)"
| "findAddressTakenInExpr (Ecmp_sm bop c a b) locals result =
     findAddressTakenInExpr b locals (findAddressTakenInExpr a locals result)"
| "findAddressTakenInExpr (Eload_sm ch a) locals result = findAddressTakenInExpr a locals result"
| "findAddressTakenInExpr _ locals result = result"

definition taken_in_list :: "sm_expr list \<Rightarrow> string set \<Rightarrow> string set \<Rightarrow> string set" where
  "taken_in_list es locals result = fold (\<lambda>e. findAddressTakenInExpr e locals) es result"

fun findAddressTakenInStmt :: "sm_stmt \<Rightarrow> string set \<Rightarrow> string set \<Rightarrow> string set"
and taken_in_cases :: "sm_switchCase list \<Rightarrow> string set \<Rightarrow> string set \<Rightarrow> string set" where
  "findAddressTakenInStmt (Sset_sm i e) locals result = findAddressTakenInExpr e locals result"
| "findAddressTakenInStmt (Sstore_sm ch a e) locals result =
     findAddressTakenInExpr e locals (findAddressTakenInExpr a locals result)"
| "findAddressTakenInStmt (Scall_sm i sg f args) locals result =
     taken_in_list args locals (findAddressTakenInExpr f locals result)"
| "findAddressTakenInStmt (Stailcall_sm sg f args) locals result =
     taken_in_list args locals (findAddressTakenInExpr f locals result)"
| "findAddressTakenInStmt (Sbuiltin_sm i bf args) locals result = taken_in_list args locals result"
| "findAddressTakenInStmt (Sseq_sm a b) locals result =
     findAddressTakenInStmt b locals (findAddressTakenInStmt a locals result)"
| "findAddressTakenInStmt (Sifthenelse_sm c a b) locals result =
     findAddressTakenInStmt b locals (findAddressTakenInStmt a locals (findAddressTakenInExpr c locals result))"
| "findAddressTakenInStmt (Sloop_sm a) locals result = findAddressTakenInStmt a locals result"
| "findAddressTakenInStmt (Sblock_sm a) locals result = findAddressTakenInStmt a locals result"
| "findAddressTakenInStmt (Sswitch_sm isLong e cs d) locals result =
     findAddressTakenInStmt d locals (taken_in_cases cs locals (findAddressTakenInExpr e locals result))"
| "findAddressTakenInStmt (Sreturn_sm e) locals result =
     (case e of None \<Rightarrow> result | Some a \<Rightarrow> findAddressTakenInExpr a locals result)"
| "findAddressTakenInStmt (Slabel_sm l a) locals result = findAddressTakenInStmt a locals result"
| "findAddressTakenInStmt _ locals result = result"
| "taken_in_cases [] locals result = result"
| "taken_in_cases (SwitchCase_sm v a # cs) locals result =
     taken_in_cases cs locals (findAddressTakenInStmt a locals result)"

definition FindAddressTaken :: "sm_stmt \<Rightarrow> varDecl list \<Rightarrow> string set" where
  "FindAddressTaken s locals = findAddressTakenInStmt s (vd_name ` set locals) {}"

section \<open>Variables\<close>

datatype varKind = VarRegister | VarStack

record varInfo =
  vi_name :: string
  vi_kind :: varKind
  vi_size :: int64
  vi_offset :: int64
  vi_chunk :: chunk

record varEnv =
  ve_vars :: "string \<rightharpoonup> varInfo"
  ve_stackSize :: int64

definition chunkForSizeAndSign :: "int64 \<Rightarrow> bool \<Rightarrow> chunk" where
  "chunkForSizeAndSign sz is_signed =
     (if sz = 1 then if is_signed then Mint8signed else Mint8unsigned
      else if sz = 2 then if is_signed then Mint16signed else Mint16unsigned
      else if sz = 4 then Mint32 else if sz = 8 then Mint64 else Many64)"

definition chunkForSize :: "int64 \<Rightarrow> chunk" where
  "chunkForSize sz = chunkForSizeAndSign sz True"

definition var_info :: "string set \<Rightarrow> varDecl \<Rightarrow> varInfo" where
  "var_info addrTaken d = \<lparr>vi_name = vd_name d, vi_kind = (if vd_name d \<in> addrTaken then VarStack else VarRegister),
     vi_size = vd_size d, vi_offset = 0, vi_chunk = chunkForSize (vd_size d)\<rparr>"

definition set_offset :: "stackSlot \<Rightarrow> (string \<rightharpoonup> varInfo) \<Rightarrow> string \<rightharpoonup> varInfo" where
  "set_offset s vars = (case vars (ss_name s) of
     None \<Rightarrow> vars | Some info \<Rightarrow> vars(ss_name s \<mapsto> info\<lparr>vi_offset := ss_offset s\<rparr>))"

definition kind_is :: "(string \<rightharpoonup> varInfo) \<Rightarrow> varKind \<Rightarrow> string \<Rightarrow> bool" where
  "kind_is vars kind name \<longleftrightarrow> (case vars name of None \<Rightarrow> False | Some info \<Rightarrow> vi_kind info = kind)"

definition ClassifyVariables :: "varDecl list \<Rightarrow> sm_stmt \<Rightarrow> varEnv" where
  "ClassifyVariables locals body =
     (let addrTaken = FindAddressTaken body locals;
          vars = fold (\<lambda>d vars. vars(vd_name d \<mapsto> var_info addrTaken d)) locals Map.empty;
          layout = ComputeStackLayout (filter (\<lambda>d. kind_is vars VarStack (vd_name d)) locals)
      in \<lparr>ve_vars = fold set_offset (sl_slots layout) vars, ve_stackSize = sl_totalSize layout\<rparr>)"

definition IsRegister :: "varEnv \<Rightarrow> string \<Rightarrow> bool" where
  "IsRegister env name \<longleftrightarrow> kind_is (ve_vars env) VarRegister name"

definition IsStack :: "varEnv \<Rightarrow> string \<Rightarrow> bool" where
  "IsStack env name \<longleftrightarrow> kind_is (ve_vars env) VarStack name"

definition GetStackOffset :: "varEnv \<Rightarrow> string \<Rightarrow> int64" where
  "GetStackOffset env name = (case ve_vars env name of
     Some info \<Rightarrow> if vi_kind info = VarStack then vi_offset info else -1 | None \<Rightarrow> -1)"

definition GetChunk :: "varEnv \<Rightarrow> string \<Rightarrow> chunk" where
  "GetChunk env name = (case ve_vars env name of Some info \<Rightarrow> vi_chunk info | None \<Rightarrow> Many32)"

text \<open>The names in the map are those of the locals.\<close>

definition RegisterVars :: "(string list \<Rightarrow> string list) \<Rightarrow> varDecl list \<Rightarrow> varEnv \<Rightarrow> string list" where
  "RegisterVars perm locals env = perm (filter (IsRegister env) (remdups (map vd_name locals)))"

definition StackVars_env :: "(string list \<Rightarrow> string list) \<Rightarrow> varDecl list \<Rightarrow> varEnv \<Rightarrow> string list" where
  "StackVars_env perm locals env = perm (filter (IsStack env) (remdups (map vd_name locals)))"

text \<open>The address of a variable that is not on the stack panics.\<close>

definition TransformAddrOf :: "varEnv \<Rightarrow> string \<Rightarrow> cm_expr option" where
  "TransformAddrOf env name =
     (let offset = GetStackOffset env name in
      if offset < 0 then None else Some (Econst_cm (Oaddrstack_cm offset)))"

definition TransformVarRead :: "varEnv \<Rightarrow> string \<Rightarrow> cm_expr" where
  "TransformVarRead env name = (case ve_vars env name of
     None \<Rightarrow> Evar_cm name
   | Some info \<Rightarrow> if vi_kind info = VarRegister then Evar_cm name
       else Eload_cm (vi_chunk info) (Econst_cm (Oaddrstack_cm (vi_offset info))))"

definition TransformVarWrite :: "varEnv \<Rightarrow> string \<Rightarrow> cm_expr \<Rightarrow> cm_stmt" where
  "TransformVarWrite env name e = (case ve_vars env name of
     None \<Rightarrow> Sassign_cm name e
   | Some info \<Rightarrow> if vi_kind info = VarRegister then Sassign_cm name e
       else Sstore_cm (vi_chunk info) (Econst_cm (Oaddrstack_cm (vi_offset info))) e)"

section \<open>Expressions and statements\<close>

record globalInfo =
  gi_size :: int64
  gi_signed :: bool

record transformer =
  tr_varEnv :: varEnv
  tr_globals :: "string \<rightharpoonup> globalInfo"

text \<open>
  The name of a temporary depends on its number only; the map of the Go code remembers which names have been
  handed out, and \<open>used_temps\<close> below computes that set from the statement.
\<close>

definition getTempName :: "int \<Rightarrow> string" where
  "getTempName i = ''_t'' @ show_int i"

fun transformConst :: "sm_const \<Rightarrow> cm_expr" where
  "transformConst (Ointconst_sm n) = Econst_cm (Ointconst_cm n)"
| "transformConst (Ofloatconst_sm x) = Econst_cm (Ofloatconst_cm x)"
| "transformConst (Olongconst_sm n) = Econst_cm (Olongconst_cm n)"
| "transformConst (Osingleconst_sm x) = Econst_cm (Osingleconst_cm x)"
| "transformConst (Oaddrsymbol_sm s n) = Econst_cm (Oaddrsymbol_cm s n)"

definition transformVar :: "transformer \<Rightarrow> string \<Rightarrow> cm_expr" where
  "transformVar t x = (case tr_globals t x of
     Some info \<Rightarrow> Eload_cm (chunkForSizeAndSign (gi_size info) (gi_signed info)) (Econst_cm (Oaddrsymbol_cm x 0))
   | None \<Rightarrow> TransformVarRead (tr_varEnv t) x)"

definition transformAddrof :: "transformer \<Rightarrow> string \<Rightarrow> cm_expr option" where
  "transformAddrof t x =
     (if tr_globals t x \<noteq> None then Some (Econst_cm (Oaddrsymbol_cm x 0))
      else if IsStack (tr_varEnv t) x then TransformAddrOf (tr_varEnv t) x
      else Some (Evar_cm x))"

fun cminor_TransformExpr :: "transformer \<Rightarrow> sm_expr \<Rightarrow> cm_expr option" where
  "cminor_TransformExpr t (Evar_sm x) = Some (transformVar t x)"
| "cminor_TransformExpr t (Etempvar_sm i) = Some (TransformVarRead (tr_varEnv t) (getTempName i))"
| "cminor_TransformExpr t (Eaddrof_sm x) = transformAddrof t x"
| "cminor_TransformExpr t (Econst_sm c) = Some (transformConst c)"
| "cminor_TransformExpr t (Eunop_sm uop a) = do {
     a' \<leftarrow> cminor_TransformExpr t a;
     Some (Eunop_cm uop a')
   }"
| "cminor_TransformExpr t (Ebinop_sm bop a b) = do {
     a' \<leftarrow> cminor_TransformExpr t a;
     b' \<leftarrow> cminor_TransformExpr t b;
     Some (Ebinop_cm bop a' b')
   }"
| "cminor_TransformExpr t (Ecmp_sm bop c a b) = do {
     a' \<leftarrow> cminor_TransformExpr t a;
     b' \<leftarrow> cminor_TransformExpr t b;
     Some (Ecmp_cm bop c a' b')
   }"
| "cminor_TransformExpr t (Eload_sm ch a) = do {
     a' \<leftarrow> cminor_TransformExpr t a;
     Some (Eload_cm ch a')
   }"

primrec transform_list :: "transformer \<Rightarrow> sm_expr list \<Rightarrow> cm_expr list option" where
  "transform_list t [] = Some []"
| "transform_list t (e # es) = do {
     e' \<leftarrow> cminor_TransformExpr t e;
     es' \<leftarrow> transform_list t es;
     Some (e' # es')
   }"

fun cminor_TransformStmt :: "transformer \<Rightarrow> sm_stmt \<Rightarrow> cm_stmt option"
and transform_cases :: "transformer \<Rightarrow> sm_switchCase list \<Rightarrow> cm_switchCase list option" where
  "cminor_TransformStmt t Sskip_sm = Some Sskip_cm"
| "cminor_TransformStmt t (Sset_sm i e) = do {
     rhs \<leftarrow> cminor_TransformExpr t e;
     Some (TransformVarWrite (tr_varEnv t) (getTempName i) rhs)
   }"
| "cminor_TransformStmt t (Sstore_sm ch a e) = do {
     a' \<leftarrow> cminor_TransformExpr t a;
     e' \<leftarrow> cminor_TransformExpr t e;
     Some (Sstore_cm ch a' e')
   }"
| "cminor_TransformStmt t (Scall_sm i sg f args) = do {
     fn \<leftarrow> cminor_TransformExpr t f;
     args' \<leftarrow> transform_list t args;
     Some (Scall_cm (map_option getTempName i) (map_option transformSig sg) fn args')
   }"
| "cminor_TransformStmt t (Stailcall_sm sg f args) = do {
     fn \<leftarrow> cminor_TransformExpr t f;
     args' \<leftarrow> transform_list t args;
     Some (Stailcall_cm (map_option transformSig sg) fn args')
   }"
| "cminor_TransformStmt t (Sbuiltin_sm i bf args) = do {
     args' \<leftarrow> transform_list t args;
     Some (Sbuiltin_cm (map_option getTempName i) bf args')
   }"
| "cminor_TransformStmt t (Sseq_sm a b) = do {
     a' \<leftarrow> cminor_TransformStmt t a;
     b' \<leftarrow> cminor_TransformStmt t b;
     Some (Sseq_cm a' b')
   }"
| "cminor_TransformStmt t (Sifthenelse_sm c a b) = do {
     c' \<leftarrow> cminor_TransformExpr t c;
     a' \<leftarrow> cminor_TransformStmt t a;
     b' \<leftarrow> cminor_TransformStmt t b;
     Some (Sifthenelse_cm c' a' b')
   }"
| "cminor_TransformStmt t (Sloop_sm a) = do {
     a' \<leftarrow> cminor_TransformStmt t a;
     Some (Sloop_cm a')
   }"
| "cminor_TransformStmt t (Sblock_sm a) = do {
     a' \<leftarrow> cminor_TransformStmt t a;
     Some (Sblock_cm a')
   }"
| "cminor_TransformStmt t (Sexit_sm n) = Some (Sexit_cm n)"
| "cminor_TransformStmt t (Sswitch_sm isLong e cs d) = do {
     e' \<leftarrow> cminor_TransformExpr t e;
     cs' \<leftarrow> transform_cases t cs;
     d' \<leftarrow> cminor_TransformStmt t d;
     Some (Sswitch_cm isLong e' cs' d')
   }"
| "cminor_TransformStmt t (Sreturn_sm None) = Some (Sreturn_cm None)"
| "cminor_TransformStmt t (Sreturn_sm (Some e)) = do {
     e' \<leftarrow> cminor_TransformExpr t e;
     Some (Sreturn_cm (Some e'))
   }"
| "cminor_TransformStmt t (Slabel_sm l a) = do {
     a' \<leftarrow> cminor_TransformStmt t a;
     Some (Slabel_cm l a')
   }"
| "cminor_TransformStmt t (Sgoto_sm l) = Some (Sgoto_cm l)"
| "transform_cases t [] = Some []"
| "transform_cases t (SwitchCase_sm v a # cs) = do {
     a' \<leftarrow> cminor_TransformStmt t a;
     cs' \<leftarrow> transform_cases t cs;
     Some (SwitchCase_cm v a' # cs')
   }"

section \<open>Functions and programs\<close>

definition tempMap :: "sm_function \<Rightarrow> int list" where
  "tempMap F = remdups (map int [0..<length (sm_temps F)] @ used_temps (sm_body F))"

definition cminor_TransformFunction ::
  "(string list \<Rightarrow> string list) \<Rightarrow> sm_function \<Rightarrow> (string \<rightharpoonup> globalInfo) \<Rightarrow> cm_function option" where
  "cminor_TransformFunction perm F globals =
     (let env = ClassifyVariables (sm_locals F) (sm_body F);
          tr = \<lparr>tr_varEnv = env, tr_globals = globals\<rparr>
      in map_option (\<lambda>body.
           \<lparr>cm_name = sm_name F, cm_sig = transformSig (sm_fsig F), cm_params = sm_params F,
            cm_vars = perm (map getTempName (tempMap F)) @ RegisterVars perm (sm_locals F) env,
            cm_stackspace = ve_stackSize env, cm_body = body\<rparr>)
         (cminor_TransformStmt tr (sm_body F)))"

definition global_infos :: "varDecl list \<Rightarrow> string \<rightharpoonup> globalInfo" where
  "global_infos gs = fold (\<lambda>g m. m(vd_name g \<mapsto> \<lparr>gi_size = vd_size g, gi_signed = vd_signed g\<rparr>)) gs Map.empty"

definition transform_globVar :: "varDecl \<Rightarrow> globVar" where
  "transform_globVar g = \<lparr>gv_name = vd_name g, gv_size = vd_size g, gv_init = vd_init g, gv_readOnly = vd_readOnly g\<rparr>"

primrec transform_all :: "(string list \<Rightarrow> string list) \<Rightarrow> (string \<rightharpoonup> globalInfo) \<Rightarrow> sm_function list \<Rightarrow> cm_function list option" where
  "transform_all perm globals [] = Some []"
| "transform_all perm globals (F # Fs) = do {
     f \<leftarrow> cminor_TransformFunction perm F globals;
     fs \<leftarrow> transform_all perm globals Fs;
     Some (f # fs)
   }"

definition cminor_TransformProgram :: "(string list \<Rightarrow> string list) \<Rightarrow> sm_program \<Rightarrow> cm_program option" where
  "cminor_TransformProgram perm p =
     map_option (\<lambda>fs. \<lparr>cm_globals = map transform_globVar (sm_globals p), cm_functions = fs\<rparr>)
       (transform_all perm (global_infos (sm_globals p)) (sm_functions p))"

end
