(* ===== verification/CminorgenSim.thy ===== *)
theory CminorgenSim
  imports Cminorgen
begin

text \<open>
  Correctness of the pass to Cminor: the stack layout keeps the locals apart and aligned, the classification
  of the variables agrees with it, and the generated function takes a step for every step of the Csharpminor
  function, with each temporary in the variable named after it.
\<close>

section \<open>Layout\<close>

lemma cminor_alignUp_props:
  assumes "0 \<le> n" "0 < a"
  shows "n \<le> cminor_alignUp n a" "cminor_alignUp n a mod a = 0" "cminor_alignUp n a < n + a"
proof -
  have eq: "cminor_alignUp n a = (n + a - 1) - (n + a - 1) mod a"
    using assms by (simp add: cminor_alignUp_def minus_mod_eq_div_mult)
  have "0 \<le> (n + a - 1) mod a" "(n + a - 1) mod a < a" using assms(2) by auto
  then show "n \<le> cminor_alignUp n a" "cminor_alignUp n a < n + a" unfolding eq by linarith+
  show "cminor_alignUp n a mod a = 0" unfolding eq by (metis minus_mod_eq_div_mult mod_mult_self2_is_0)
qed

lemma alignmentForSize_pos: "0 < alignmentForSize sz" "alignmentForSize sz \<in> {1, 2, 4, 8}"
  by (auto simp: alignmentForSize_def)

definition before :: "stackSlot \<Rightarrow> stackSlot \<Rightarrow> bool" where
  "before s t \<longleftrightarrow> ss_offset s + ss_size s \<le> ss_offset t"

lemma layout_from_sound:
  "layout_from ds offset = (ss, e) \<Longrightarrow> 0 \<le> offset \<Longrightarrow> \<forall>d\<in>set ds. 0 \<le> vd_size d \<Longrightarrow>
    offset \<le> e \<and> sorted_wrt before ss \<and>
    (\<forall>s\<in>set ss. offset \<le> ss_offset s \<and> ss_offset s + ss_size s \<le> e \<and> ss_offset s mod ss_alignment s = 0)"
proof (induction ds arbitrary: offset ss e)
  case (Cons d ds)
  define s where "s = new_slot d offset"
  from Cons.prems(1) obtain rest where rest: "layout_from ds (ss_offset s + vd_size d) = (rest, e)" "ss = s # rest"
    by (auto simp: s_def Let_def split: prod.splits)
  have s: "offset \<le> ss_offset s" "ss_offset s mod ss_alignment s = 0" "ss_size s = vd_size d"
    using cminor_alignUp_props [OF Cons.prems(2) alignmentForSize_pos(1)] by (simp_all add: s_def new_slot_def)
  moreover have "0 \<le> vd_size d" using Cons.prems(3) by simp
  ultimately have "0 \<le> ss_offset s + vd_size d" using Cons.prems(2) by linarith
  from Cons.IH [OF rest(1) this] Cons.prems(3) s \<open>0 \<le> vd_size d\<close> show ?case
    by (auto simp: rest(2) before_def)
qed simp

lemma layout_from_names: "map ss_name (fst (layout_from ds offset)) = map vd_name ds"
  "map ss_size (fst (layout_from ds offset)) = map vd_size ds"
  by (induction ds arbitrary: offset) (auto simp: new_slot_def Let_def split_beta)

section \<open>Classification\<close>

lemma fold_update_other: "x \<notin> f ` set ds \<Longrightarrow> fold (\<lambda>d m. m(f d \<mapsto> g d)) ds m x = m x"
  by (induction ds arbitrary: m) auto

lemma fold_update_same:
  "distinct (map f ds) \<Longrightarrow> d \<in> set ds \<Longrightarrow> fold (\<lambda>d m. m(f d \<mapsto> g d)) ds m (f d) = Some (g d)"
  by (induction ds arbitrary: m) (auto simp: fold_update_other)

lemma set_offset_other: "x \<noteq> ss_name s \<Longrightarrow> set_offset s vars x = vars x"
  by (auto simp: set_offset_def split: option.splits)

lemma set_offset_same: "vars (ss_name s) = Some info \<Longrightarrow> set_offset s vars (ss_name s) = Some (info\<lparr>vi_offset := ss_offset s\<rparr>)"
  by (simp add: set_offset_def)

lemma fold_set_offset_other: "x \<notin> ss_name ` set ss \<Longrightarrow> fold set_offset ss vars x = vars x"
  by (induction ss arbitrary: vars) (auto simp: set_offset_other)

lemma fold_set_offset_same:
  "distinct (map ss_name ss) \<Longrightarrow> s \<in> set ss \<Longrightarrow> vars (ss_name s) = Some info \<Longrightarrow>
    fold set_offset ss vars (ss_name s) = Some (info\<lparr>vi_offset := ss_offset s\<rparr>)"
proof (induction ss arbitrary: vars)
  case (Cons a ss)
  show ?case
  proof (cases "s = a")
    case True
    with Cons.prems show ?thesis by (auto simp: set_offset_same fold_set_offset_other)
  next
    case False
    with Cons.prems have "ss_name s \<noteq> ss_name a" by (auto simp: rev_image_eqI)
    with Cons False show ?thesis by (simp add: set_offset_other)
  qed
qed simp

text \<open>What the environment says of a local.\<close>

lemma classified:
  assumes "distinct (map vd_name locals)" "env = ClassifyVariables locals body"
  shows "x \<notin> vd_name ` set locals \<Longrightarrow> ve_vars env x = None"
    and "d \<in> set locals \<Longrightarrow> \<exists>info. ve_vars env (vd_name d) = Some info \<and> vi_chunk info = chunkForSize (vd_size d) \<and>
      (vi_kind info = VarStack \<longleftrightarrow> vd_name d \<in> FindAddressTaken body locals) \<and>
      ((\<forall>d\<in>set locals. 0 \<le> vd_size d) \<longrightarrow> 0 \<le> vi_offset info)"
proof -
  define taken where "taken = FindAddressTaken body locals"
  define vars where "vars = fold (\<lambda>d vars. vars(vd_name d \<mapsto> var_info taken d)) locals Map.empty"
  define stack where "stack = filter (\<lambda>d. kind_is vars VarStack (vd_name d)) locals"
  define slots where "slots = sl_slots (ComputeStackLayout stack)"
  have env: "ve_vars env = fold set_offset slots vars"
    by (simp add: assms(2) ClassifyVariables_def Let_def slots_def stack_def vars_def taken_def)
  have slots: "slots = fst (layout_from stack 0)" by (simp add: slots_def ComputeStackLayout_def split: prod.split)
  then have names: "map ss_name slots = map vd_name stack" by (simp add: layout_from_names)
  then have set_names: "ss_name ` set slots = vd_name ` set stack" by (metis list.set_map)
  have vars: "vars (vd_name d) = Some (var_info taken d)" if "d \<in> set locals" for d
    unfolding vars_def using assms(1) that by (rule fold_update_same)
  show "x \<notin> vd_name ` set locals \<Longrightarrow> ve_vars env x = None"
    unfolding env using set_names by (subst fold_set_offset_other) (auto simp: stack_def vars_def fold_update_other)
  assume d: "d \<in> set locals"
  show "\<exists>info. ve_vars env (vd_name d) = Some info \<and> vi_chunk info = chunkForSize (vd_size d) \<and>
      (vi_kind info = VarStack \<longleftrightarrow> vd_name d \<in> FindAddressTaken body locals) \<and>
      ((\<forall>d\<in>set locals. 0 \<le> vd_size d) \<longrightarrow> 0 \<le> vi_offset info)"
  proof (cases "vd_name d \<in> vd_name ` set stack")
    case True
    then obtain s where s: "s \<in> set slots" "ss_name s = vd_name d" using set_names by (metis imageE)
    have "distinct (map ss_name slots)" using assms(1) by (simp add: names stack_def distinct_map_filter)
    from fold_set_offset_same [OF this s(1)] have
      "ve_vars env (vd_name d) = Some ((var_info taken d)\<lparr>vi_offset := ss_offset s\<rparr>)" by (simp add: env s(2) vars [OF d])
    moreover have "0 \<le> ss_offset s" if "\<forall>d\<in>set locals. 0 \<le> vd_size d"
      using layout_from_sound [of stack 0 slots "snd (layout_from stack 0)"] that s(1) slots by (auto simp: stack_def)
    ultimately show ?thesis by (auto simp: var_info_def taken_def)
  next
    case False
    with vars [OF d] show ?thesis using set_names by (auto simp: env fold_set_offset_other var_info_def taken_def)
  qed
qed

section \<open>Names\<close>

text \<open>Names that begin like those of the temporaries.\<close>

definition reserved :: "string \<Rightarrow> bool" where
  "reserved x \<longleftrightarrow> take 2 x = ''_t''"

lemma reserved_temp [simp]: "reserved (getTempName i)"
  by (simp add: reserved_def getTempName_def)

lemma getTempName_inject [simp]: "getTempName i = getTempName j \<longleftrightarrow> i = j"
  by (simp add: getTempName_def show_int_inject)

text \<open>
  The transformer \<open>t\<close> fits the scope \<open>S\<close>: it knows the globals, the locals with their places, and how those
  in memory are read; parameters, locals and globals have different names, none of them reserved.
\<close>

definition info_fits :: "varInfo \<Rightarrow> varDecl \<Rightarrow> int64 option \<Rightarrow> bool" where
  "info_fits info d place \<longleftrightarrow> place = (if vi_kind info = VarStack then Some (vi_offset info) else None) \<and>
     (vi_kind info = VarStack \<longrightarrow> vi_chunk info = access d)"

definition fits :: "transformer \<Rightarrow> scope \<Rightarrow> bool" where
  "fits t S \<longleftrightarrow>
     (\<forall>x. tr_globals t x = map_option (\<lambda>d. \<lparr>gi_size = vd_size d, gi_signed = vd_signed d\<rparr>) (sc_globals S x)) \<and>
     (\<forall>x. rel_option (\<lambda>info d. info_fits info d (sc_placed S x)) (ve_vars (tr_varEnv t) x) (sc_locals S x)) \<and>
     (\<forall>x. sc_params S x \<noteq> None \<longrightarrow> sc_locals S x = None \<and> sc_globals S x = None \<and> \<not> reserved x) \<and>
     (\<forall>x. sc_locals S x \<noteq> None \<longrightarrow> sc_globals S x = None \<and> \<not> reserved x)"

definition temps_match :: "scope \<Rightarrow> temps_env \<Rightarrow> cs_env \<Rightarrow> bool" where
  "temps_match S tmp env \<longleftrightarrow> (\<forall>i v. tmp i = Some v \<longrightarrow> env (getTempName i) = Some v) \<and>
     (\<forall>x v. sc_params S x = Some v \<longrightarrow> env x = Some v) \<and>
     (\<forall>x. sc_locals S x \<noteq> None \<and> sc_placed S x = None \<longrightarrow> env x = Some None) \<and>
     (\<forall>x. \<not> reserved x \<and> sc_params S x = None \<and> sc_locals S x = None \<longrightarrow> env x = None)"

text \<open>The names in a function are not reserved, and the address of a function is no condition.\<close>

fun names_ok :: "sm_expr \<Rightarrow> bool" where
  "names_ok (Evar_sm x) \<longleftrightarrow> \<not> reserved x"
| "names_ok (Eaddrof_sm x) \<longleftrightarrow> \<not> reserved x"
| "names_ok (Eunop_sm uop a) \<longleftrightarrow> names_ok a"
| "names_ok (Ebinop_sm bop a b) \<longleftrightarrow> names_ok a \<and> names_ok b"
| "names_ok (Ecmp_sm bop c a b) \<longleftrightarrow> names_ok a \<and> names_ok b"
| "names_ok (Eload_sm ch a) \<longleftrightarrow> names_ok a"
| "names_ok _ \<longleftrightarrow> True"

fun test_ok :: "scope \<Rightarrow> sm_expr \<Rightarrow> bool" where
  "test_ok S (Eaddrof_sm x) \<longleftrightarrow> \<not> reserved x \<and> (sc_locals S x \<noteq> None \<or> sc_globals S x \<noteq> None)"
| "test_ok S (Eunop_sm uop a) \<longleftrightarrow> (if uop = Onotbool_cs then test_ok S a else names_ok a)"
| "test_ok S e \<longleftrightarrow> names_ok e"

fun gen_ok :: "scope \<Rightarrow> sm_stmt \<Rightarrow> bool" and cases_gen_ok :: "scope \<Rightarrow> sm_switchCase list \<Rightarrow> bool" where
  "gen_ok S (Sset_sm i e) \<longleftrightarrow> names_ok e"
| "gen_ok S (Sstore_sm ch a e) \<longleftrightarrow> names_ok a \<and> names_ok e"
| "gen_ok S (Scall_sm i sg f args) \<longleftrightarrow> names_ok f \<and> list_all names_ok args"
| "gen_ok S (Stailcall_sm sg f args) \<longleftrightarrow> names_ok f \<and> list_all names_ok args"
| "gen_ok S (Sbuiltin_sm i bf args) \<longleftrightarrow> list_all names_ok args"
| "gen_ok S (Sseq_sm a b) \<longleftrightarrow> gen_ok S a \<and> gen_ok S b"
| "gen_ok S (Sifthenelse_sm c a b) \<longleftrightarrow> test_ok S c \<and> gen_ok S a \<and> gen_ok S b"
| "gen_ok S (Sloop_sm a) \<longleftrightarrow> gen_ok S a"
| "gen_ok S (Sblock_sm a) \<longleftrightarrow> gen_ok S a"
| "gen_ok S (Sswitch_sm isLong e cs d) \<longleftrightarrow> names_ok e \<and> cases_gen_ok S cs \<and> gen_ok S d"
| "gen_ok S (Sreturn_sm (Some e)) \<longleftrightarrow> names_ok e"
| "gen_ok S (Slabel_sm l a) \<longleftrightarrow> gen_ok S a"
| "gen_ok S _ \<longleftrightarrow> True"
| "cases_gen_ok S [] \<longleftrightarrow> True"
| "cases_gen_ok S (SwitchCase_sm v a # cs) \<longleftrightarrow> gen_ok S a \<and> cases_gen_ok S cs"

primrec cont_gen_ok :: "scope \<Rightarrow> sm_cont \<Rightarrow> bool" where
  "cont_gen_ok S Kstop_sm \<longleftrightarrow> True"
| "cont_gen_ok S (Kseq_sm s k) \<longleftrightarrow> gen_ok S s \<and> cont_gen_ok S k"
| "cont_gen_ok S (Kblock_sm k) \<longleftrightarrow> cont_gen_ok S k"

primrec transform_cont :: "transformer \<Rightarrow> sm_cont \<Rightarrow> cm_cont option" where
  "transform_cont t Kstop_sm = Some Kstop_cm"
| "transform_cont t (Kseq_sm s k) = do {
     s' \<leftarrow> cminor_TransformStmt t s;
     k' \<leftarrow> transform_cont t k;
     Some (Kseq_cm s' k')
   }"
| "transform_cont t (Kblock_sm k) = do {
     k' \<leftarrow> transform_cont t k;
     Some (Kblock_cm k')
   }"

section \<open>Expressions\<close>

lemma fits_temp:
  assumes "fits t S"
  shows "ve_vars (tr_varEnv t) (getTempName i) = None"
proof -
  have "sc_locals S (getTempName i) = None" using assms reserved_temp [of i] unfolding fits_def by blast
  moreover have "rel_option (\<lambda>info d. info_fits info d (sc_placed S (getTempName i)))
    (ve_vars (tr_varEnv t) (getTempName i)) (sc_locals S (getTempName i))" using assms unfolding fits_def by blast
  ultimately show ?thesis by (simp add: rel_option_None2)
qed

text \<open>The cases of a name.\<close>

lemma name_cases:
  assumes "fits t S" "temps_match S tmp env" "\<not> reserved x"
  obtains (param) v where "sc_params S x = Some v" "env x = Some v" "tr_globals t x = None" "ve_vars (tr_varEnv t) x = None"
      "sc_locals S x = None" "sc_globals S x = None"
    | (memory) d info where "sc_params S x = None" "sc_locals S x = Some d" "sc_placed S x = Some (vi_offset info)"
      "ve_vars (tr_varEnv t) x = Some info" "vi_kind info = VarStack" "vi_chunk info = access d" "tr_globals t x = None"
      "sc_globals S x = None"
    | (register) d info where "sc_params S x = None" "sc_locals S x = Some d" "sc_placed S x = None" "env x = Some None"
      "ve_vars (tr_varEnv t) x = Some info" "vi_kind info = VarRegister" "tr_globals t x = None" "sc_globals S x = None"
    | (global) d where "sc_params S x = None" "sc_locals S x = None" "sc_globals S x = Some d" "env x = None"
      "tr_globals t x = Some \<lparr>gi_size = vd_size d, gi_signed = vd_signed d\<rparr>" "ve_vars (tr_varEnv t) x = None"
    | (symbol) "sc_params S x = None" "sc_locals S x = None" "sc_globals S x = None" "env x = None"
      "tr_globals t x = None" "ve_vars (tr_varEnv t) x = None"
proof -
  have g: "tr_globals t x = map_option (\<lambda>d. \<lparr>gi_size = vd_size d, gi_signed = vd_signed d\<rparr>) (sc_globals S x)"
    and l: "rel_option (\<lambda>info d. info_fits info d (sc_placed S x)) (ve_vars (tr_varEnv t) x) (sc_locals S x)"
    and dp: "sc_params S x \<noteq> None \<Longrightarrow> sc_locals S x = None \<and> sc_globals S x = None"
    and dl: "sc_locals S x \<noteq> None \<Longrightarrow> sc_globals S x = None"
    using assms(1) unfolding fits_def by blast+
  have e: "\<And>v. sc_params S x = Some v \<Longrightarrow> env x = Some v" "sc_locals S x \<noteq> None \<Longrightarrow> sc_placed S x = None \<Longrightarrow> env x = Some None"
    "sc_params S x = None \<Longrightarrow> sc_locals S x = None \<Longrightarrow> env x = None"
    using assms(2,3) unfolding temps_match_def by blast+
  show ?thesis
  proof (cases "sc_params S x")
    case (Some v)
    with g l dp e show ?thesis by (intro param) (auto simp: rel_option_None2)
  next
    case None
    show ?thesis
    proof (cases "sc_locals S x")
      case (Some d)
      with l obtain info where info: "ve_vars (tr_varEnv t) x = Some info" "info_fits info d (sc_placed S x)"
        by (auto simp: option_rel_Some2)
      show ?thesis
      proof (cases "vi_kind info")
        case VarStack
        with None Some info g dl show ?thesis by (intro memory [of d info]) (auto simp: info_fits_def)
      next
        case VarRegister
        with None Some info g dl e(2) show ?thesis by (intro register [of d info]) (auto simp: info_fits_def)
      qed
    next
      case no_local: None
      with None l e(3) have "env x = None" "ve_vars (tr_varEnv t) x = None" by (auto simp: rel_option_None2)
      with None no_local g show ?thesis by (cases "sc_globals S x") (auto intro: global symbol)
    qed
  qed
qed

lemma access_chunk: "chunkForSizeAndSign (vd_size d) (vd_signed d) = access d"
  by (simp add: chunkForSizeAndSign_def access_def)

lemma transformConst_eval: "cm_eval T sv env m (transformConst c) = Some (Some (sm_word_const T c))"
  by (cases c) simp_all

lemma transform_eval:
  assumes "fits t S" "temps_match S tmp env"
  shows "names_ok e \<Longrightarrow> cminor_TransformExpr t e = Some e' \<Longrightarrow> sm_eval T S tmp m e = Some v \<Longrightarrow>
    cm_eval T Map.empty env m e' = Some v"
proof (induction e arbitrary: e' v)
  case (Evar_sm x)
  then have "\<not> reserved x" by simp
  from assms this show ?case using Evar_sm.prems
    by (cases rule: name_cases)
      (auto simp: transformVar_def TransformVarRead_def read_var_def cm_var_def access_chunk known1_def)
next
  case (Etempvar_sm i)
  then show ?case using fits_temp [OF assms(1), of i] assms(2) by (auto simp: TransformVarRead_def cm_var_def temps_match_def)
next
  case (Eaddrof_sm x)
  then have "\<not> reserved x" by simp
  from assms this show ?case using Eaddrof_sm.prems
    by (cases rule: name_cases)
      (auto simp: transformAddrof_def IsStack_def kind_is_def TransformAddrOf_def GetStackOffset_def Let_def address_of_def
        cm_var_def split: if_splits)
qed (auto simp: bind_eq_Some_conv transformConst_eval)

section \<open>Conditions, calls, switches and labels\<close>

lemma tested_alike:
  assumes "cm_eval T Map.empty env m e' = Some v" "cm_kind_of e' = kd" "\<And>a. e' \<noteq> Eunop_cm Onotbool_cs a"
  shows "cm_cond T Map.empty env m e' = map_option (truth T kd) v"
  using assms by (cases e') auto

lemma test_names: "test_ok S e \<Longrightarrow> names_ok e"
  by (induction S e rule: test_ok.induct) (auto split: if_splits)

lemma transform_kind:
  assumes "fits t S" "temps_match S tmp env" "test_ok S e" "cminor_TransformExpr t e = Some e'" "sm_eval T S tmp m e = Some v"
    and "\<And>a. e \<noteq> Eunop_sm Onotbool_cs a"
  shows "cm_kind_of e' = sm_kind_of S e \<and> (\<forall>a. e' \<noteq> Eunop_cm Onotbool_cs a)"
proof (cases e)
  case (Evar_sm x)
  then have "\<not> reserved x" using assms(3) by simp
  with assms(1,2) show ?thesis using Evar_sm assms(4)
    by (cases rule: name_cases) (auto simp: transformVar_def TransformVarRead_def var_kind_def access_chunk)
next
  case (Etempvar_sm i)
  then show ?thesis using fits_temp [OF assms(1), of i] assms(4) by (auto simp: TransformVarRead_def)
next
  case (Eaddrof_sm x)
  then have "\<not> reserved x" using assms(3) by simp
  with assms(1,2) show ?thesis using Eaddrof_sm assms(3-5)
    by (cases rule: name_cases)
      (auto simp: transformAddrof_def IsStack_def kind_is_def TransformAddrOf_def Let_def address_of_def split: if_splits)
next
  case (Econst_sm c)
  then show ?thesis using assms(4) by (cases c) auto
qed (use assms(4,6) in \<open>auto simp: bind_eq_Some_conv\<close>)

lemma plain_cond:
  "(\<And>a. e \<noteq> Eunop_sm Onotbool_cs a) \<Longrightarrow>
    sm_cond T S tmp m e = Option.bind (sm_eval T S tmp m e) (map_option (truth T (sm_kind_of S e)))"
  by (cases e) auto

lemma transform_plain_cond:
  assumes "fits t S" "temps_match S tmp env" "test_ok S e" "cminor_TransformExpr t e = Some e'" "sm_cond T S tmp m e = Some b"
    and "\<And>a. e \<noteq> Eunop_sm Onotbool_cs a"
  shows "cm_cond T Map.empty env m e' = Some b"
proof -
  obtain v where v: "sm_eval T S tmp m e = Some v" "map_option (truth T (sm_kind_of S e)) v = Some b"
    using assms(5,6) by (auto simp: plain_cond bind_eq_Some_conv)
  have "cm_kind_of e' = sm_kind_of S e" "\<And>a. e' \<noteq> Eunop_cm Onotbool_cs a"
    using transform_kind [OF assms(1-4) v(1) assms(6)] by blast+
  with tested_alike transform_eval [OF assms(1,2) test_names [OF assms(3)] assms(4) v(1)] v(2) show ?thesis by metis
qed

lemma transform_cond:
  assumes "fits t S" "temps_match S tmp env"
  shows "test_ok S e \<Longrightarrow> cminor_TransformExpr t e = Some e' \<Longrightarrow> sm_cond T S tmp m e = Some b \<Longrightarrow>
    cm_cond T Map.empty env m e' = Some b"
proof (induction e arbitrary: e' b)
  case (Eunop_sm uop a)
  show ?case
  proof (cases "uop = Onotbool_cs")
    case True
    with Eunop_sm show ?thesis by (auto simp: bind_eq_Some_conv)
  next
    case False
    with transform_plain_cond [OF assms Eunop_sm.prems] show ?thesis by simp
  qed
qed (rule transform_plain_cond [OF assms], assumption+, simp)+

lemma transform_eval_list:
  assumes "fits t S" "temps_match S tmp env"
  shows "list_all names_ok es \<Longrightarrow> transform_list t es = Some es' \<Longrightarrow> sm_eval_list T S tmp m es = Some vs \<Longrightarrow>
    cm_eval_list T Map.empty env m es' = Some vs"
  by (induction es arbitrary: es' vs) (auto simp: bind_eq_Some_conv transform_eval [OF assms])

lemma transform_callee:
  assumes "fits t S" "temps_match S tmp env" "names_ok e" "cminor_TransformExpr t e = Some e'" "sm_callee T S tmp m e = Some fv"
  shows "cm_callee T Map.empty env m e' = Some fv"
proof (cases e)
  case (Evar_sm x)
  then have "\<not> reserved x" using assms(3) by simp
  with assms(1,2) show ?thesis using Evar_sm assms(4,5)
    by (cases rule: name_cases)
      (auto simp: sm_callee_def cm_callee_def transformVar_def TransformVarRead_def read_var_def cm_var_def access_chunk known1_def)
next
  case (Etempvar_sm i)
  then show ?thesis using fits_temp [OF assms(1), of i] assms(2,4,5)
    by (auto simp: sm_callee_def cm_callee_def TransformVarRead_def cm_var_def temps_match_def)
next
  case (Eaddrof_sm x)
  then have "\<not> reserved x" using assms(3) by simp
  with assms(1,2) show ?thesis using Eaddrof_sm assms(4,5)
    by (cases rule: name_cases)
      (auto simp: sm_callee_def cm_callee_def transformAddrof_def IsStack_def kind_is_def TransformAddrOf_def
        GetStackOffset_def Let_def address_of_def split: if_splits)
next
  case (Econst_sm c)
  then show ?thesis using assms(4,5) by (cases c) (auto simp: sm_callee_def cm_callee_def)
qed (use transform_eval [OF assms(1-4)] assms(4,5) in \<open>auto simp: sm_callee_def cm_callee_def bind_eq_Some_conv
  simp del: sm_eval.simps cm_eval.simps\<close>)

lemma transform_switch:
  "transform_cases t cs = Some cs' \<Longrightarrow> cminor_TransformStmt t d = Some d' \<Longrightarrow>
    cminor_TransformStmt t (sm_switch_target isLong w cs d) = Some (cm_switch_target isLong w cs' d')"
  by (induction isLong w cs d arbitrary: cs' rule: sm_switch_target.induct) (auto simp: bind_eq_Some_conv)

lemma switch_gen_ok: "cases_gen_ok S cs \<Longrightarrow> gen_ok S d \<Longrightarrow> gen_ok S (sm_switch_target isLong w cs d)"
  by (induction isLong w cs d rule: sm_switch_target.induct) auto

text \<open>A label leads to the translation of the statement it leads to before.\<close>

definition same_target :: "transformer \<Rightarrow> (sm_stmt \<times> sm_cont) option \<Rightarrow> (cm_stmt \<times> cm_cont) option \<Rightarrow> bool" where
  "same_target t = rel_option (\<lambda>(a, k) (a', k'). cminor_TransformStmt t a = Some a' \<and> transform_cont t k = Some k')"

lemma same_target_orelse:
  "same_target t p p' \<Longrightarrow> (p = None \<Longrightarrow> same_target t q q') \<Longrightarrow>
    same_target t (case p of Some r \<Rightarrow> Some r | None \<Rightarrow> q) (case p' of Some r \<Rightarrow> Some r | None \<Rightarrow> q')"
  by (cases p; cases p') (auto simp: same_target_def)

lemma target_simps: "same_target t None None"
  "same_target t (Some (a, k)) (Some (a', k')) \<longleftrightarrow> cminor_TransformStmt t a = Some a' \<and> transform_cont t k = Some k'"
  by (simp_all add: same_target_def)

lemma no_label_written: "cm_find_label l (TransformVarWrite env x e) k = None"
  by (simp add: TransformVarWrite_def split: option.split)

lemma no_label_return: "cminor_TransformStmt t (Sreturn_sm v) = Some s' \<Longrightarrow> same_target t None (cm_find_label l s' k)"
  by (cases v) (auto simp: bind_eq_Some_conv target_simps)

lemma transform_label:
  "cminor_TransformStmt t s = Some s' \<Longrightarrow> transform_cont t k = Some k' \<Longrightarrow>
    same_target t (sm_find_label l s k) (cm_find_label l s' k')"
  "transform_cases t cs = Some cs' \<Longrightarrow> transform_cont t k = Some k' \<Longrightarrow>
    same_target t (sm_find_label_cases l cs k) (cm_find_label_cases l cs' k')"
  by (induction l s k and l cs k arbitrary: s' k' and cs' k' rule: sm_find_label_sm_find_label_cases.induct)
    (auto simp: bind_eq_Some_conv no_label_written target_simps intro!: same_target_orelse intro: no_label_return)

lemma label_gen_ok:
  "sm_find_label l s k = Some (a, k') \<Longrightarrow> gen_ok S s \<Longrightarrow> cont_gen_ok S k \<Longrightarrow> gen_ok S a \<and> cont_gen_ok S k'"
  "sm_find_label_cases l cs k = Some (a, k') \<Longrightarrow> cases_gen_ok S cs \<Longrightarrow> cont_gen_ok S k \<Longrightarrow> gen_ok S a \<and> cont_gen_ok S k'"
  by (induction l s k and l cs k rule: sm_find_label_sm_find_label_cases.induct) (auto split: option.splits if_splits)

section \<open>Steps\<close>

text \<open>An assignment to a temporary is one to its variable.\<close>

lemma temps_match_assign:
  assumes "fits t S" "temps_match S tmp env"
  shows "temps_match S (tmp(i \<mapsto> v)) (env(getTempName i \<mapsto> v))"
proof -
  have "sc_params S (getTempName i) = None" "sc_locals S (getTempName i) = None"
    using assms(1) reserved_temp [of i] unfolding fits_def by blast+
  with assms(2) reserved_temp [of i] show ?thesis unfolding temps_match_def by auto
qed

lemma temps_match_result:
  assumes "fits t S" "temps_match S tmp env"
  shows "temps_match S (set_temp i v tmp) (assign_result (map_option getTempName i) v env)"
  using assms by (auto simp: set_temp_def assign_result_def temps_match_assign split: option.split)

lemma temp_declared_variable: "temps_match S tmp env \<Longrightarrow> temp_declared i tmp \<Longrightarrow> declared (map_option getTempName i) env"
  by (auto simp: temps_match_def temp_declared_def declared_def split: option.splits)

lemma write_temp: "fits t S \<Longrightarrow> TransformVarWrite (tr_varEnv t) (getTempName i) e = Sassign_cm (getTempName i) e"
  by (simp add: TransformVarWrite_def fits_temp)

fun gen_match_sm :: "transformer \<Rightarrow> scope \<Rightarrow> sm_stmt \<Rightarrow> cm_stmt \<Rightarrow> sm_state \<Rightarrow> cm_state \<Rightarrow> bool" where
  "gen_match_sm t S body body' (MinorStmt s k tmp m) (MStmt s' k' env m') \<longleftrightarrow>
     fits t S \<and> temps_match S tmp env \<and> m' = m \<and> gen_ok S body \<and> cminor_TransformStmt t body = Some body' \<and>
     gen_ok S s \<and> cminor_TransformStmt t s = Some s' \<and> cont_gen_ok S k \<and> transform_cont t k = Some k'"
| "gen_match_sm t S body body' (MinorFinal r) (MFinal r') \<longleftrightarrow> r' = r"
| "gen_match_sm t S body body' _ _ \<longleftrightarrow> False"

lemma gen_match_stmtE:
  assumes "gen_match_sm t S body body' (MinorStmt s k tmp m) u"
  obtains s' k' env where "u = MStmt s' k' env m" "fits t S" "temps_match S tmp env" "gen_ok S body"
    "cminor_TransformStmt t body = Some body'" "gen_ok S s" "cminor_TransformStmt t s = Some s'" "cont_gen_ok S k"
    "transform_cont t k = Some k'"
  using assms by (cases u) auto

lemmas match_simps = temps_match_assign temps_match_result temp_declared_variable
  temp_declared_variable [where i = "Some i" for i, simplified] transform_switch switch_gen_ok

lemma generated_step:
  assumes "gen_match_sm t S body body' s u" and "sm_step T E S body s s'"
  shows "\<exists>u'. cm_step T E Map.empty body' u u' \<and> gen_match_sm t S body body' s' u'"
  using assms(2,1)
proof cases
  case (sm_goto l a k' k tmp m)
  from assms(1) [unfolded sm_goto(1)] obtain kk env where u: "u = MStmt (Sgoto_cm l) kk env m" "fits t S" "temps_match S tmp env"
    "gen_ok S body" "cminor_TransformStmt t body = Some body'" by (auto elim!: gen_match_stmtE)
  from transform_label(1) [OF u(5), of Kstop_sm Kstop_cm l] sm_goto(3) obtain a' ka where
    "cm_find_label l body' Kstop_cm = Some (a', ka)" "cminor_TransformStmt t a = Some a'" "transform_cont t k' = Some ka"
    by (auto simp: same_target_def option_rel_Some1)
  with u label_gen_ok(1) [OF sm_goto(3)] show ?thesis by (auto simp: sm_goto(2) intro!: cm_goto)
next
  case (sm_set tmp m e v i k)
  with assms(1) show ?thesis
    by - (clarsimp elim!: gen_match_stmtE simp: write_temp bind_eq_Some_conv, rule exI, rule conjI, rule cm_assign [OF transform_eval],
      auto simp: match_simps)
next
  case (sm_store tmp m a p e w ch m' k)
  with assms(1) show ?thesis
    by - (clarsimp elim!: gen_match_stmtE simp: write_temp bind_eq_Some_conv, rule exI, rule conjI, rule cm_store [OF transform_eval transform_eval],
      auto simp: match_simps)
next
  case (sm_call tmp m e fv args vs n sg v m' i k)
  with assms(1) show ?thesis
    by - (clarsimp elim!: gen_match_stmtE simp: write_temp bind_eq_Some_conv, rule exI, rule conjI, rule cm_call [OF transform_callee transform_eval_list],
      auto simp: match_simps)
next
  case (sm_tailcall tmp m e fv args vs n sg k)
  with assms(1) show ?thesis
    by - (clarsimp elim!: gen_match_stmtE simp: write_temp bind_eq_Some_conv, rule exI, rule conjI, rule cm_tailcall [OF transform_callee transform_eval_list],
      auto simp: match_simps)
next
  case (sm_builtin tmp m args vs bf v m' i k)
  with assms(1) show ?thesis
    by - (clarsimp elim!: gen_match_stmtE simp: write_temp bind_eq_Some_conv, rule exI, rule conjI, rule cm_builtin [OF transform_eval_list],
      auto simp: match_simps)
next
  case (sm_ifthenelse tmp m c v a b k)
  with assms(1) show ?thesis
    by - (clarsimp elim!: gen_match_stmtE simp: bind_eq_Some_conv split del: if_split, rule exI, rule conjI, rule cm_ifthenelse [OF transform_cond],
      auto simp: match_simps)
next
  case (sm_switch tmp m e w isLong cs d k)
  with assms(1) show ?thesis
    by - (clarsimp elim!: gen_match_stmtE simp: write_temp bind_eq_Some_conv, rule exI, rule conjI, rule cm_switch [OF transform_eval],
      auto simp: match_simps)
next
  case (sm_return tmp m e v k)
  with assms(1) show ?thesis
    by - (clarsimp elim!: gen_match_stmtE simp: write_temp bind_eq_Some_conv, rule exI, rule conjI, rule cm_return [OF transform_eval],
      auto simp: match_simps)
next
  case (sm_exit_outer n k tmp m)
  with assms(1) show ?thesis
    by - (clarsimp elim!: gen_match_stmtE simp: bind_eq_Some_conv, rule exI, rule conjI, rule cm_exit_outer, auto)
qed (clarsimp elim!: gen_match_stmtE simp: bind_eq_Some_conv, rule exI, rule conjI, rule cm_step.intros, simp)+

interpretation cminorgen: fsim "sm_step T E S body" sm_final "cm_step T E Map.empty body'" cm_final
  "gen_match_sm t S body body'" "\<lambda>_. 0" for T E S body body' t
proof
  show "(\<exists>u'. (cm_step T E Map.empty body')\<^sup>+\<^sup>+ u u' \<and> gen_match_sm t S body body' s' u') \<or>
      gen_match_sm t S body body' s' u \<and> (0 :: nat) < 0"
    if "gen_match_sm t S body body' s u" "sm_step T E S body s s'" for s u s'
    using generated_step [OF that] by blast
  show "\<exists>u'. (cm_step T E Map.empty body')\<^sup>*\<^sup>* u u' \<and> cm_final u' r"
    if "gen_match_sm t S body body' s u" "sm_final s r" for s u r
    using that by (cases s; cases u) auto
qed

section \<open>Functions\<close>

text \<open>The translation of a statement panics only at the address of a variable without an offset.\<close>

definition offsets_known :: "varEnv \<Rightarrow> bool" where
  "offsets_known env \<longleftrightarrow> (\<forall>x. IsStack env x \<longrightarrow> 0 \<le> GetStackOffset env x)"

lemma TransformExpr_total: "offsets_known (tr_varEnv t) \<Longrightarrow> cminor_TransformExpr t e \<noteq> None"
  by (induction e) (auto simp: bind_eq_None_conv transformAddrof_def TransformAddrOf_def offsets_known_def Let_def)

lemma transform_list_total: "offsets_known (tr_varEnv t) \<Longrightarrow> transform_list t es \<noteq> None"
  by (induction es) (auto simp: bind_eq_None_conv dest: TransformExpr_total)

lemma TransformStmt_total:
  "offsets_known (tr_varEnv t) \<Longrightarrow> cminor_TransformStmt t s \<noteq> None"
  "offsets_known (tr_varEnv t) \<Longrightarrow> transform_cases t cs \<noteq> None"
  by (induction t s and t cs rule: cminor_TransformStmt_transform_cases.induct)
    (auto simp: bind_eq_None_conv dest: TransformExpr_total transform_list_total, (metis TransformExpr_total not_None_eq)+)

text \<open>The offsets that the classification gives to the locals in memory.\<close>

definition stack_offsets :: "varEnv \<Rightarrow> string \<rightharpoonup> int64" where
  "stack_offsets env x = (if IsStack env x then Some (GetStackOffset env x) else None)"

definition function_env :: "sm_function \<Rightarrow> varEnv" where
  "function_env F = ClassifyVariables (sm_locals F) (sm_body F)"

definition function_scope :: "varDecl list \<Rightarrow> sm_function \<Rightarrow> val list \<Rightarrow> scope" where
  "function_scope globals F vs = sm_scope globals (stack_offsets (function_env F)) F vs"

text \<open>
  A function that the pass translates faithfully: its names are different, none of them is that of a
  temporary, and a local in memory that is narrower than an int is signed, since the pass reads it so.
\<close>

definition sm_fun_ok :: "varDecl list \<Rightarrow> sm_function \<Rightarrow> bool" where
  "sm_fun_ok globals F \<longleftrightarrow> distinct (map vd_name (sm_locals F)) \<and> distinct (map vd_name globals) \<and>
     set (sm_params F) \<inter> vd_name ` set (sm_locals F @ globals) = {} \<and> vd_name ` set (sm_locals F) \<inter> vd_name ` set globals = {} \<and>
     list_all (\<lambda>x. \<not> reserved x) (sm_params F @ map vd_name (sm_locals F)) \<and>
     list_all (\<lambda>d. 0 \<le> vd_size d \<and> (vd_name d \<in> FindAddressTaken (sm_body F) (sm_locals F) \<longrightarrow> chunkForSize (vd_size d) = access d))
       (sm_locals F) \<and>
     gen_ok (function_scope globals F []) (sm_body F)"

lemma decl_of_Some: "distinct (map vd_name ds) \<Longrightarrow> decl_of ds x = Some d \<longleftrightarrow> d \<in> set ds \<and> vd_name d = x"
  by (force simp: decl_of_def map_of_eq_Some_iff comp_def)

lemma decl_of_None: "decl_of ds x = None \<longleftrightarrow> x \<notin> vd_name ` set ds"
  by (force simp: decl_of_def map_of_eq_None_iff)

lemma global_infos_decl:
  assumes "distinct (map vd_name gs)"
  shows "global_infos gs x = map_option (\<lambda>d. \<lparr>gi_size = vd_size d, gi_signed = vd_signed d\<rparr>) (decl_of gs x)"
proof (cases "decl_of gs x")
  case None
  then show ?thesis by (simp add: global_infos_def fold_update_other decl_of_None)
next
  case (Some d)
  with assms have "d \<in> set gs" "vd_name d = x" by (simp_all add: decl_of_Some)
  with Some fold_update_same [OF assms] show ?thesis by (auto simp: global_infos_def)
qed

lemma function_env_known:
  assumes "sm_fun_ok globals F"
  shows "offsets_known (function_env F)"
proof -
  have ok: "distinct (map vd_name (sm_locals F))" "\<forall>d\<in>set (sm_locals F). 0 \<le> vd_size d"
    using assms by (auto simp: sm_fun_ok_def list_all_iff)
  have "0 \<le> GetStackOffset (function_env F) x" if st: "IsStack (function_env F) x" for x
  proof (cases "x \<in> vd_name ` set (sm_locals F)")
    case True
    then obtain d where d: "d \<in> set (sm_locals F)" "x = vd_name d" by blast
    from classified(2) [OF ok(1) refl d(1), of "sm_body F"] ok(2) st show ?thesis
      by (auto simp: d(2) IsStack_def kind_is_def GetStackOffset_def function_env_def)
  next
    case False
    from classified(1) [OF ok(1) refl this, of "sm_body F"] st show ?thesis
      by (simp add: IsStack_def kind_is_def function_env_def)
  qed
  then show ?thesis by (simp add: offsets_known_def)
qed

lemma function_fits:
  assumes "sm_fun_ok globals F"
  shows "fits \<lparr>tr_varEnv = function_env F, tr_globals = global_infos globals\<rparr> (function_scope globals F vs)"
proof -
  let ?S = "function_scope globals F vs"
  have ok: "distinct (map vd_name (sm_locals F))" "distinct (map vd_name globals)" using assms by (auto simp: sm_fun_ok_def)
  have "rel_option (\<lambda>info d. info_fits info d (sc_placed ?S x)) (ve_vars (function_env F) x) (sc_locals ?S x)" for x
  proof (cases "decl_of (sm_locals F) x")
    case None
    then have "ve_vars (function_env F) x = None"
      using classified(1) [OF ok(1) refl] by (simp add: decl_of_None function_env_def)
    with None show ?thesis by (simp add: function_scope_def sm_scope_def)
  next
    case (Some d)
    then have d: "d \<in> set (sm_locals F)" "x = vd_name d" using ok by (simp_all add: decl_of_Some)
    from assms d(1) have chunk: "vd_name d \<in> FindAddressTaken (sm_body F) (sm_locals F) \<Longrightarrow> chunkForSize (vd_size d) = access d"
      by (simp add: sm_fun_ok_def list_all_iff)
    from classified(2) [OF ok(1) refl d(1), of "sm_body F"] obtain info where "ve_vars (function_env F) x = Some info"
      "vi_chunk info = chunkForSize (vd_size d)" "vi_kind info = VarStack \<longleftrightarrow> x \<in> FindAddressTaken (sm_body F) (sm_locals F)"
      by (auto simp: function_env_def d(2))
    with chunk Some d(2) show ?thesis
      by (simp add: function_scope_def sm_scope_def info_fits_def stack_offsets_def IsStack_def kind_is_def GetStackOffset_def)
  qed
  with assms global_infos_decl [OF ok(2)] show ?thesis
    unfolding fits_def by (auto simp: function_scope_def sm_scope_def sm_fun_ok_def list_all_iff decl_of_None)
qed

text \<open>The variables of the generated function hold the temporaries and the locals that are not in memory.\<close>

lemma function_vars:
  assumes "cminor_TransformFunction perm F gi = Some f" and "\<forall>xs. set (perm xs) = set xs"
  shows "cm_params f = sm_params F"
    "set (cm_vars f) = getTempName ` set (tempMap F) \<union> {x \<in> vd_name ` set (sm_locals F). IsRegister (function_env F) x}"
    "cminor_TransformStmt \<lparr>tr_varEnv = function_env F, tr_globals = gi\<rparr> (sm_body F) = Some (cm_body f)"
  using assms by (auto simp: cminor_TransformFunction_def Let_def function_env_def RegisterVars_def)

lemma function_temps:
  assumes "cminor_TransformFunction perm F gi = Some f" "\<forall>xs. set (perm xs) = set xs" "sm_fun_ok globals F"
  shows "temps_match (function_scope globals F vs) (sm_init_temps F) (cm_init_env f vs)"
proof -
  note vars = function_vars [OF assms(1,2)]
  have names: "x \<in> set (sm_params F) \<Longrightarrow> \<not> reserved x \<and> x \<notin> vd_name ` set (sm_locals F)"
    "x \<in> vd_name ` set (sm_locals F) \<Longrightarrow> \<not> reserved x" for x
    using assms(3) by (auto simp: sm_fun_ok_def list_all_iff)
  have distinct: "distinct (map vd_name (sm_locals F))" using assms(3) by (simp add: sm_fun_ok_def)
  have temps: "i \<in> set (tempMap F)" if "sm_init_temps F i = Some v" for i v
    using that zero_le_imp_eq_int [of i] by (auto simp: sm_init_temps_def tempMap_def split: if_splits)
  have register: "IsRegister (function_env F) x" if "x \<in> vd_name ` set (sm_locals F)" "\<not> IsStack (function_env F) x" for x
  proof -
    from that(1) obtain d where d: "d \<in> set (sm_locals F)" "x = vd_name d" by blast
    from classified(2) [OF distinct refl d(1), of "sm_body F"] that(2) show ?thesis
      by (auto simp: d(2) IsStack_def IsRegister_def kind_is_def function_env_def intro: varKind.exhaust)
  qed
  have not_param: "getTempName i \<notin> set (sm_params F)" for i using names(1) reserved_temp [of i] by blast
  show ?thesis
    unfolding temps_match_def
    using names register temps not_param
    by (auto simp: cm_init_env_def vars function_scope_def sm_scope_def decl_of_None stack_offsets_def sm_init_temps_def
        split: if_splits)
qed

lemma test_ok_scope: "test_ok (function_scope gs F vs) e = test_ok (function_scope gs F ws) e"
  by (induction "function_scope gs F vs" e rule: test_ok.induct) (auto simp: function_scope_def sm_scope_def)

lemma gen_ok_scope:
  "gen_ok (function_scope gs F vs) s = gen_ok (function_scope gs F ws) s"
  "cases_gen_ok (function_scope gs F vs) cs = cases_gen_ok (function_scope gs F ws) cs"
  by (induction "function_scope gs F vs" s and "function_scope gs F vs" cs rule: gen_ok_cases_gen_ok.induct)
    (auto simp: test_ok_scope [of gs F vs _ ws])

lemma generated_behaves:
  assumes "sm_fun_ok globals F" and "\<forall>xs. set (perm xs) = set xs"
    and "cminor_TransformFunction perm F (global_infos globals) = Some f"
    and "behaves (sm_step T E (function_scope globals F vs) (sm_body F)) sm_final
      (MinorStmt (sm_body F) Kstop_sm (sm_init_temps F) m) b"
    and "b \<noteq> Goes_wrong"
  shows "behaves (cm_step T E Map.empty (cm_body f)) cm_final (MStmt (cm_body f) Kstop_cm (cm_init_env f vs) m) b"
proof -
  let ?t = "\<lparr>tr_varEnv = function_env F, tr_globals = global_infos globals\<rparr>" and ?S = "function_scope globals F vs"
  have "gen_ok ?S (sm_body F)" using assms(1) gen_ok_scope(1) [of globals F vs _ "[]"] by (simp add: sm_fun_ok_def)
  then have "gen_match_sm ?t ?S (sm_body F) (cm_body f) (MinorStmt (sm_body F) Kstop_sm (sm_init_temps F) m)
      (MStmt (cm_body f) Kstop_cm (cm_init_env f vs) m)"
    using function_fits [OF assms(1)] function_temps [OF assms(3,2,1)] function_vars(3) [OF assms(3,2)] by simp
  from cminorgen.safe_preserved [OF this assms(4,5)] show ?thesis .
qed

lemma TransformFunction_total: "sm_fun_ok globals F \<Longrightarrow> cminor_TransformFunction perm F gi \<noteq> None"
  using function_env_known TransformStmt_total(1) [of "\<lparr>tr_varEnv = function_env F, tr_globals = gi\<rparr>" "sm_body F"]
  by (auto simp: cminor_TransformFunction_def Let_def function_env_def)

lemma transform_all_nth:
  "transform_all perm gi Fs = Some fs \<Longrightarrow>
    length fs = length Fs \<and> (\<forall>i<length Fs. cminor_TransformFunction perm (Fs ! i) gi = Some (fs ! i))"
  by (induction Fs arbitrary: fs) (auto simp: bind_eq_Some_conv nth_Cons split: nat.split)

lemma transform_all_total: "\<forall>F\<in>set Fs. sm_fun_ok globals F \<Longrightarrow> transform_all perm gi Fs \<noteq> None"
  by (induction Fs) (auto simp: bind_eq_None_conv dest: TransformFunction_total)

section \<open>Properties\<close>

text \<open>
  Property C5. The pass to Cminor is correct for every program whose functions it can translate faithfully
  (\<open>sm_fun_ok\<close>: parameters, locals and globals have different names, none of the form that temporaries get; a
  local in memory is read with the chunk that its size alone gives, so that one- and two-byte locals in memory
  are signed; no function address is used as a condition). It returns a program with a function for each, with the same parameters, and whatever a Csharpminor function
  does when run with its locals at the computed offsets (terminate with a value and memory, make a tail
  call, run forever), the Cminor function does too. The order in which Go ranges over maps does not matter.
\<close>

theorem cminor_TransformProgram_correct:
  assumes "\<forall>F\<in>set (sm_functions p). sm_fun_ok (sm_globals p) F" and "\<forall>xs. set (perm xs) = set xs"
  shows "\<exists>q. cminor_TransformProgram perm p = Some q \<and> length (cm_functions q) = length (sm_functions p) \<and>
    (\<forall>i<length (sm_functions p). \<forall>T E vs m b. let F = sm_functions p ! i; f = cm_functions q ! i in
      cm_params f = sm_params F \<and>
      (behaves (sm_step T E (function_scope (sm_globals p) F vs) (sm_body F)) sm_final
        (MinorStmt (sm_body F) Kstop_sm (sm_init_temps F) m) b \<longrightarrow> b \<noteq> Goes_wrong \<longrightarrow>
       behaves (cm_step T E Map.empty (cm_body f)) cm_final (MStmt (cm_body f) Kstop_cm (cm_init_env f vs) m) b))"
proof -
  obtain fs where fs: "transform_all perm (global_infos (sm_globals p)) (sm_functions p) = Some fs"
    using transform_all_total [OF assms(1)] by blast
  let ?q = "\<lparr>cm_globals = map transform_globVar (sm_globals p), cm_functions = fs\<rparr>"
  have "cminor_TransformProgram perm p = Some ?q" by (simp add: cminor_TransformProgram_def fs)
  moreover have "cm_params (fs ! i) = sm_params F \<and>
      (behaves (sm_step T E (function_scope (sm_globals p) F vs) (sm_body F)) sm_final
        (MinorStmt (sm_body F) Kstop_sm (sm_init_temps F) m) b \<longrightarrow> b \<noteq> Goes_wrong \<longrightarrow>
       behaves (cm_step T E Map.empty (cm_body (fs ! i))) cm_final (MStmt (cm_body (fs ! i)) Kstop_cm (cm_init_env (fs ! i) vs) m) b)"
    if "i < length (sm_functions p)" "F = sm_functions p ! i" for i T E vs m b F
  proof -
    have f: "cminor_TransformFunction perm F (global_infos (sm_globals p)) = Some (fs ! i)"
      using transform_all_nth [OF fs] that by simp
    moreover have "sm_fun_ok (sm_globals p) F" using assms(1) that by simp
    ultimately show ?thesis using function_vars(1) [OF f assms(2)] generated_behaves [OF _ assms(2)] by blast
  qed
  ultimately show ?thesis using transform_all_nth [OF fs] by (intro exI [of _ ?q]) (simp add: Let_def)
qed

definition through_pointer :: sm_function where
  "through_pointer = \<lparr>sm_name = ''f'', sm_fsig = \<lparr>sm_args = [Some Int_c], sm_return = Some Int_c, sm_vararg = False\<rparr>,
     sm_params = [''x''],
     sm_locals = [\<lparr>vd_name = ''y'', vd_size = 4, vd_init = [], vd_readOnly = False, vd_signed = True\<rparr>],
     sm_temps = [Some Int_c],
     sm_body = Sseq_sm (Sset_sm 0 (Eaddrof_sm ''y'')) (Sseq_sm (Sset_sm 0 (Evar_sm ''x'')) (Sreturn_sm (Some (Etempvar_sm 0))))\<rparr>"

definition pointer_program :: sm_program where
  "pointer_program = \<lparr>sm_globals = [\<lparr>vd_name = ''g'', vd_size = 1, vd_init = [], vd_readOnly = False, vd_signed = False\<rparr>],
     sm_functions = [through_pointer]\<rparr>"

lemma through_pointer_ok: "sm_fun_ok (sm_globals pointer_program) through_pointer"
  by (simp add: sm_fun_ok_def through_pointer_def pointer_program_def reserved_def chunkForSize_def access_chunk
      chunkForSizeAndSign_def access_def)

lemma through_pointer_terminates:
  "behaves (sm_step T E (function_scope (sm_globals pointer_program) through_pointer [Some 7]) (sm_body through_pointer)) sm_final
    (MinorStmt (sm_body through_pointer) Kstop_sm (sm_init_temps through_pointer) m) (Terminates (Returned (Some 7) m))"
proof -
  let ?S = "function_scope (sm_globals pointer_program) through_pointer [Some 7]"
  let ?tmp = "sm_init_temps through_pointer"
  have scope: "sc_params ?S ''x'' = Some (Some 7)" "sc_params ?S ''y'' = None" "sc_locals ?S ''y'' \<noteq> None"
    by (simp_all add: function_scope_def sm_scope_def through_pointer_def decl_of_def)
  have "sc_placed ?S ''y'' = Some 0"
    by (simp add: function_scope_def sm_scope_def stack_offsets_def IsStack_def GetStackOffset_def kind_is_def function_env_def
        through_pointer_def ClassifyVariables_def FindAddressTaken_def var_info_def ComputeStackLayout_def new_slot_def
        alignmentForSize_def cminor_alignUp_def set_offset_def Let_def)
  then have y: "sm_eval T ?S ?tmp m (Eaddrof_sm ''y'') = Some (Some (t_stack T))" using scope by (simp add: address_of_def)
  have x: "sm_eval T ?S tmp m (Evar_sm ''x'') = Some (Some 7)" for tmp using scope by (simp add: read_var_def)
  have "behaves (sm_step T E ?S body) sm_final (MinorFinal (Returned (Some 7) m)) (Terminates (Returned (Some 7) m))" for body
    by (auto simp: behaves_def)
  then show ?thesis
    unfolding through_pointer_def sm_function.simps
    apply -
    apply (rule behaves_step, rule sm_seq)
    apply (rule behaves_step, rule sm_set [OF y [unfolded through_pointer_def]])
     apply (simp add: temp_declared_def sm_init_temps_def)
    apply (rule behaves_step, rule sm_skip_seq)
    apply (rule behaves_step, rule sm_seq)
    apply (rule behaves_step, rule sm_set [OF x [unfolded through_pointer_def]])
     apply (simp add: temp_declared_def)
    apply (rule behaves_step, rule sm_skip_seq)
    apply (rule behaves_step, rule sm_return [where v = "Some 7"])
     apply simp
    apply assumption
    done
qed

theorem cminor_TransformProgram_correct_witness:
  "\<forall>T E m. \<exists>q. cminor_TransformProgram rev pointer_program = Some q \<and> (let f = cm_functions q ! 0 in
    behaves (cm_step T E Map.empty (cm_body f)) cm_final (MStmt (cm_body f) Kstop_cm (cm_init_env f [Some 7]) m)
      (Terminates (Returned (Some 7) m)))"
proof (intro allI)
  fix T E m
  have p: "sm_functions pointer_program ! 0 = through_pointer" "0 < length (sm_functions pointer_program)"
    by (simp_all add: pointer_program_def)
  have "\<forall>F\<in>set (sm_functions pointer_program). sm_fun_ok (sm_globals pointer_program) F"
    using through_pointer_ok by (simp add: pointer_program_def)
  moreover have "\<forall>xs. set (rev xs :: string list) = set xs" by simp
  ultimately obtain q where "cminor_TransformProgram rev pointer_program = Some q"
    "behaves (cm_step T E Map.empty (cm_body (cm_functions q ! 0))) cm_final
      (MStmt (cm_body (cm_functions q ! 0)) Kstop_cm (cm_init_env (cm_functions q ! 0) [Some 7]) m) (Terminates (Returned (Some 7) m))"
    using cminor_TransformProgram_correct [of pointer_program rev] p through_pointer_terminates [of T E m]
    by (fastforce simp: Let_def)
  then show "\<exists>q. cminor_TransformProgram rev pointer_program = Some q \<and> (let f = cm_functions q ! 0 in
    behaves (cm_step T E Map.empty (cm_body f)) cm_final (MStmt (cm_body f) Kstop_cm (cm_init_env f [Some 7]) m)
      (Terminates (Returned (Some 7) m)))" by (simp add: Let_def)
qed

text \<open>
  Property C39. The layout of the locals in memory: in the order of their declarations each gets a slot of its
  size, at an offset that its alignment divides, after the slots before it; all of them lie inside the stack
  block, whose size is a multiple of eight.
\<close>

theorem ComputeStackLayout_sound:
  assumes "\<forall>d\<in>set ds. 0 \<le> vd_size d" and "ComputeStackLayout ds = l"
  shows "map ss_name (sl_slots l) = map vd_name ds \<and> map ss_size (sl_slots l) = map vd_size ds \<and>
    sorted_wrt before (sl_slots l) \<and>
    (\<forall>s\<in>set (sl_slots l). 0 \<le> ss_offset s \<and> ss_offset s + ss_size s \<le> sl_totalSize l \<and> ss_offset s mod ss_alignment s = 0) \<and>
    sl_totalSize l mod 8 = 0"
proof -
  obtain ss e where ss: "layout_from ds 0 = (ss, e)" by (cases "layout_from ds 0")
  have l: "l = \<lparr>sl_slots = ss, sl_totalSize = cminor_alignUp e 8\<rparr>" using assms(2) by (simp add: ComputeStackLayout_def ss)
  note sound = layout_from_sound [OF ss order_refl assms(1)]
  then have "e \<le> cminor_alignUp e 8" "cminor_alignUp e 8 mod 8 = 0" using cminor_alignUp_props [of e 8] by auto
  with sound layout_from_names [of ds 0] show ?thesis by (force simp: l ss)
qed

definition char_and_long :: "varDecl list" where
  "char_and_long = [\<lparr>vd_name = ''a'', vd_size = 1, vd_init = [], vd_readOnly = False, vd_signed = True\<rparr>,
     \<lparr>vd_name = ''b'', vd_size = 8, vd_init = [], vd_readOnly = False, vd_signed = True\<rparr>]"

theorem ComputeStackLayout_sound_witness:
  "map ss_offset (sl_slots (ComputeStackLayout char_and_long)) = [0, 8] \<and> sl_totalSize (ComputeStackLayout char_and_long) = 16 \<and>
   map ss_name (sl_slots (ComputeStackLayout char_and_long)) = [''a'', ''b''] \<and>
   sorted_wrt before (sl_slots (ComputeStackLayout char_and_long))"
proof -
  have "\<forall>d\<in>set char_and_long. 0 \<le> vd_size d" by (simp add: char_and_long_def)
  note sound = ComputeStackLayout_sound [OF this refl]
  then have "map ss_name (sl_slots (ComputeStackLayout char_and_long)) = [''a'', ''b'']"
    "sorted_wrt before (sl_slots (ComputeStackLayout char_and_long))" by (simp_all add: char_and_long_def)
  moreover have "map ss_offset (sl_slots (ComputeStackLayout char_and_long)) = [0, 8]" "sl_totalSize (ComputeStackLayout char_and_long) = 16"
    by (simp_all add: char_and_long_def ComputeStackLayout_def new_slot_def alignmentForSize_def cminor_alignUp_def go_div_def)
  ultimately show ?thesis by simp
qed

end
