(* ===== verification/SelectionSim.thy ===== *)
theory SelectionSim
  imports SelectionExpr
begin

text \<open>
  Correctness of the selected statements: the CminorSel function takes a step for every step of the Cminor
  function, from states with the same variables and memory. The theory ends with the set of global names
  that \<open>SelectProgram\<close> computes and with what the selection gets wrong.
\<close>

fun stmt_sel_ok :: "selectionContext \<Rightarrow> string set \<Rightarrow> cm_stmt \<Rightarrow> bool"
and case_sel_ok :: "selectionContext \<Rightarrow> string set \<Rightarrow> cm_switchCase \<Rightarrow> bool" where
  "stmt_sel_ok ctx L (Sassign_cm x e) \<longleftrightarrow> sel_ok ctx L e"
| "stmt_sel_ok ctx L (Sstore_cm ch a e) \<longleftrightarrow> address_ok ctx L a \<and> sel_ok ctx L e"
| "stmt_sel_ok ctx L (Scall_cm x sg f args) \<longleftrightarrow> sel_ok ctx L f \<and> list_all (sel_ok ctx L) args"
| "stmt_sel_ok ctx L (Stailcall_cm sg f args) \<longleftrightarrow> sel_ok ctx L f \<and> list_all (sel_ok ctx L) args"
| "stmt_sel_ok ctx L (Sbuiltin_cm x bf args) \<longleftrightarrow> list_all (sel_ok ctx L) args"
| "stmt_sel_ok ctx L (Sseq_cm a b) \<longleftrightarrow> stmt_sel_ok ctx L a \<and> stmt_sel_ok ctx L b"
| "stmt_sel_ok ctx L (Sifthenelse_cm c a b) \<longleftrightarrow> cond_ok_sel ctx L c \<and> stmt_sel_ok ctx L a \<and> stmt_sel_ok ctx L b"
| "stmt_sel_ok ctx L (Sloop_cm a) \<longleftrightarrow> stmt_sel_ok ctx L a"
| "stmt_sel_ok ctx L (Sblock_cm a) \<longleftrightarrow> stmt_sel_ok ctx L a"
| "stmt_sel_ok ctx L (Sswitch_cm isLong e cs d) \<longleftrightarrow>
     sel_ok ctx L e \<and> list_all (case_sel_ok ctx L) cs \<and> stmt_sel_ok ctx L d"
| "stmt_sel_ok ctx L (Sreturn_cm e) \<longleftrightarrow> (case e of None \<Rightarrow> True | Some a \<Rightarrow> sel_ok ctx L a)"
| "stmt_sel_ok ctx L (Slabel_cm l a) \<longleftrightarrow> stmt_sel_ok ctx L a"
| "stmt_sel_ok ctx L _ \<longleftrightarrow> True"
| "case_sel_ok ctx L (SwitchCase_cm v a) \<longleftrightarrow> stmt_sel_ok ctx L a"

primrec cont_sel_ok :: "selectionContext \<Rightarrow> string set \<Rightarrow> cm_cont \<Rightarrow> bool" where
  "cont_sel_ok ctx L Kstop_cm \<longleftrightarrow> True"
| "cont_sel_ok ctx L (Kseq_cm s k) \<longleftrightarrow> stmt_sel_ok ctx L s \<and> cont_sel_ok ctx L k"
| "cont_sel_ok ctx L (Kblock_cm k) \<longleftrightarrow> cont_sel_ok ctx L k"

primrec select_cont :: "selectionContext \<Rightarrow> cm_cont \<Rightarrow> cont" where
  "select_cont ctx Kstop_cm = Kstop"
| "select_cont ctx (Kseq_cm s k) = Kseq (SelectStmt ctx s) (select_cont ctx k)"
| "select_cont ctx (Kblock_cm k) = Kblock (select_cont ctx k)"

section \<open>Calls, switches and labels\<close>

lemma SelectExprs_eval:
  "env_ok ctx L env \<Longrightarrow> list_all (sel_ok ctx L) es \<Longrightarrow> cm_eval_list T (StackVars ctx) env m es = Some vs \<Longrightarrow>
    eval_exprs T E env m [] (map (SelectExpr ctx) es) = Some vs"
  by (induction es arbitrary: vs) (auto simp: bind_eq_Some_conv SelectExpr_eval)

lemma callee_eval:
  assumes "env_ok ctx L env" "sel_ok ctx L e" "cm_callee T (StackVars ctx) env m e = Some fv"
  shows "callee_value T E env m (SelectExpr ctx e) = Some fv"
proof -
  have computed: "callee_value T E env m (SelectExpr ctx e) = Some fv"
    if "\<And>s n. SelectExpr ctx e \<noteq> Econst (Oaddrsymbol_cs s n)" "map_option FV_ptr (cm_eval T (StackVars ctx) env m e) = Some fv"
  proof -
    from that(2) obtain v where "cm_eval T (StackVars ctx) env m e = Some v" "fv = FV_ptr v" by auto
    with SelectExpr_eval [OF assms(1,2)] that(1) show ?thesis
      by (auto simp: callee_value_def split: expr.split cs_const.split)
  qed
  have symbol: "callee_value T E env m (Econst (Oaddrsymbol_cs s n)) = Some fv"
    if "e = Econst_cm (Oaddrsymbol_cm s n)" for s n
    using that assms(3) by (simp add: callee_value_def cm_callee_def)
  show ?thesis
  proof (cases e)
    case (Evar_cm x)
    show ?thesis
    proof (cases "x \<in> Globals ctx")
      case True
      then have "env x = None" "StackVars ctx x = None" using assms(1) by (auto simp: env_ok_def context_ok_def)
      with True Evar_cm assms(3) show ?thesis by (simp add: callee_value_def cm_callee_def selectVar_def)
    next
      case False
      then have "env x \<noteq> None \<or> StackVars ctx x \<noteq> None"
        using assms(1,2) Evar_cm by (auto simp: name_ok_def env_ok_def)
      with False assms(3) Evar_cm show ?thesis
        by (intro computed) (auto simp: cm_callee_def selectVar_def split: option.splits)
    qed
  next
    case (Econst_cm c)
    show ?thesis
    proof (cases "\<exists>s n. c = Oaddrsymbol_cm s n")
      case False
      with Econst_cm assms(3) show ?thesis by (intro computed) (cases c; auto simp: cm_callee_def)+
    qed (use Econst_cm symbol in auto)
  next
    case (Ebinop_cm bop l r)
    have "buildCombinedOp mop n a b \<noteq> Econst c" for mop n a b c
      by (cases "(mop, n, a, b)" rule: buildCombinedOp.cases) auto
    with Ebinop_cm assms(3) show ?thesis by (intro computed) (auto simp: cm_callee_def split: option.splits)
  next
    case (Eload_cm ch a)
    with assms(3) show ?thesis by (intro computed) (auto simp: cm_callee_def split: prod.splits)
  qed (use assms(3) computed in \<open>auto simp: cm_callee_def split: if_splits\<close>)
qed

lemma switch_selected:
  "switch_target isLong w (map (SelectCase ctx) cs) (SelectStmt ctx d) = SelectStmt ctx (cm_switch_target isLong w cs d)"
  by (induction isLong w cs d rule: cm_switch_target.induct) auto

lemma switch_ok:
  "list_all (case_sel_ok ctx L) cs \<Longrightarrow> stmt_sel_ok ctx L d \<Longrightarrow> stmt_sel_ok ctx L (cm_switch_target isLong w cs d)"
  by (induction isLong w cs d rule: cm_switch_target.induct) auto

lemma label_selected:
  "cs_find_label l (SelectStmt ctx s) (select_cont ctx k) =
    map_option (map_prod (SelectStmt ctx) (select_cont ctx)) (cm_find_label l s k)"
  "cs_find_label_cases l (map (SelectCase ctx) cs) (select_cont ctx k) =
    map_option (map_prod (SelectStmt ctx) (select_cont ctx)) (cm_find_label_cases l cs k)"
proof (induction l s k and l cs k rule: cm_find_label_cm_find_label_cases.induct)
  case (1 l a b k)
  then show ?case by (cases "cm_find_label l a (Kseq_cm b k)") auto
next
  case (2 l c a b k)
  then show ?case by (cases "cm_find_label l a k") auto
next
  case (5 l isLong e cs d k)
  then show ?case by (cases "cm_find_label_cases l cs k") auto
next
  case (9 l v a cs k)
  then show ?case by (cases "cm_find_label l a k") auto
qed (auto split: prod.splits)

lemma label_ok:
  "cm_find_label l s k = Some (a, k') \<Longrightarrow> stmt_sel_ok ctx L s \<Longrightarrow> cont_sel_ok ctx L k \<Longrightarrow>
    stmt_sel_ok ctx L a \<and> cont_sel_ok ctx L k'"
  "cm_find_label_cases l cs k = Some (a, k') \<Longrightarrow> list_all (case_sel_ok ctx L) cs \<Longrightarrow> cont_sel_ok ctx L k \<Longrightarrow>
    stmt_sel_ok ctx L a \<and> cont_sel_ok ctx L k'"
  by (induction l s k and l cs k rule: cm_find_label_cm_find_label_cases.induct) (auto split: option.splits if_splits)

section \<open>Simulation\<close>

fun sel_match :: "selectionContext \<Rightarrow> string set \<Rightarrow> cm_stmt \<Rightarrow> cm_state \<Rightarrow> cs_state \<Rightarrow> bool" where
  "sel_match ctx L body (MStmt s k env m) t \<longleftrightarrow> stmt_sel_ok ctx L body \<and> stmt_sel_ok ctx L s \<and> cont_sel_ok ctx L k \<and>
     env_ok ctx L env \<and> t = CStmt (SelectStmt ctx s) (select_cont ctx k) env m"
| "sel_match ctx L body (MFinal r) t \<longleftrightarrow> t = CFinal r"

lemma env_ok_assign:
  "env_ok ctx L env \<Longrightarrow> declared (Some x) env \<Longrightarrow> env_ok ctx L (env(x \<mapsto> v))"
  "env_ok ctx L env \<Longrightarrow> declared y env \<Longrightarrow> env_ok ctx L (assign_result y v env)"
  by (auto simp: env_ok_def declared_def assign_result_def split: option.splits)

lemma store_selected:
  assumes "env_ok ctx L env" "address_ok ctx L a" "sel_ok ctx L e"
    and "cm_eval T (StackVars ctx) env m a = Some (Some p)" "cm_eval T (StackVars ctx) env m e = Some (Some w)"
    and "store_chunk ch p w m = Some m'"
  shows "cs_step T E body (CStmt (SelectStmt ctx (Sstore_cm ch a e)) k env m) (CStmt Sskip k env m')"
proof -
  obtain mode args where sel: "selectAddress ctx a = (mode, args)" by force
  obtain ws where ws: "eval_exprs T E env m [] args = Some (map Some ws)" "word_addr T mode ws = Some p"
    by (rule selectAddress_eval [OF assms(1,2,4) sel])
  have "sem_store (word_sem T E) ch mode (map Some ws) (Some w) m = Some m'"
    using with_known_map [of "\<lambda>ws. Option.bind (word_addr T mode (tl ws)) (\<lambda>p. store_chunk ch p (hd ws) m)" "w # ws"]
      ws(2) assms(6) by simp
  with cs_store [OF ws(1) SelectExpr_eval [OF assms(1,3,5)] this] sel show ?thesis by simp
qed

lemma selected_step:
  assumes "sel_match ctx L body s t" and "cm_step T E (StackVars ctx) body s s'"
  shows "\<exists>t'. cs_step T E (SelectStmt ctx body) t t' \<and> sel_match ctx L body s' t'"
  using assms(2,1)
proof cases
  case (cm_goto l a k' k env m)
  with assms(1) label_selected(1) [of l ctx body Kstop_cm] have "cs_find_label l (SelectStmt ctx body) Kstop =
    Some (SelectStmt ctx a, select_cont ctx k')" by simp
  with cm_goto assms(1) label_ok(1) [OF cm_goto(3), of ctx L] show ?thesis by (auto intro!: cs_goto)
next
  case (cm_store env m a p e w ch m' k)
  with assms(1) store_selected [OF _ _ _ cm_store(3-5)] show ?thesis by (auto simp del: SelectStmt.simps(3))
next
  case (cm_switch env m e w isLong cs d k)
  with assms(1) cs_switch [OF SelectExpr_eval, of ctx L env e T m w] show ?thesis
    by (fastforce simp: switch_selected [symmetric] switch_ok)
next
  case (cm_ifthenelse env m c v a b k)
  with assms(1) cs_ifthenelse [OF SelectCondition_eval, of ctx L env c T m v] show ?thesis by fastforce
qed (auto intro: cs_step.intros SelectExpr_eval SelectExprs_eval callee_eval env_ok_assign)

interpretation selection: fsim "cm_step T E (StackVars ctx) body" cm_final "cs_step T E (SelectStmt ctx body)" cs_final
  "sel_match ctx L body" "\<lambda>_. 0" for T E ctx L body
proof
  show "(\<exists>t'. (cs_step T E (SelectStmt ctx body))\<^sup>+\<^sup>+ t t' \<and> sel_match ctx L body s' t') \<or>
      sel_match ctx L body s' t \<and> (0 :: nat) < 0"
    if "sel_match ctx L body s t" "cm_step T E (StackVars ctx) body s s'" for s t s'
    using selected_step [OF that] by blast
  show "\<exists>t'. (cs_step T E (SelectStmt ctx body))\<^sup>*\<^sup>* t t' \<and> cs_final t' r"
    if "sel_match ctx L body s t" "cm_final s r" for s t r
    using that by (cases s) auto
qed

section \<open>Global names\<close>

text \<open>The statements inside a statement, without those under a label.\<close>

inductive inside :: "cm_stmt \<Rightarrow> cm_stmt \<Rightarrow> bool" where
  inside_refl: "inside s s"
| inside_seq1: "inside s a \<Longrightarrow> inside s (Sseq_cm a b)"
| inside_seq2: "inside s b \<Longrightarrow> inside s (Sseq_cm a b)"
| inside_if1: "inside s a \<Longrightarrow> inside s (Sifthenelse_cm c a b)"
| inside_if2: "inside s b \<Longrightarrow> inside s (Sifthenelse_cm c a b)"
| inside_loop: "inside s a \<Longrightarrow> inside s (Sloop_cm a)"
| inside_block: "inside s a \<Longrightarrow> inside s (Sblock_cm a)"
| inside_case: "inside s a \<Longrightarrow> SwitchCase_cm v a \<in> set cs \<Longrightarrow> inside s (Sswitch_cm isLong e cs d)"
| inside_default: "inside s d \<Longrightarrow> inside s (Sswitch_cm isLong e cs d)"

inductive_simps inside_simps: "inside s Sskip_cm" "inside s (Sassign_cm x e)" "inside s (Sstore_cm ch a e)"
  "inside s (Scall_cm x sg f args)" "inside s (Stailcall_cm sg f args)" "inside s (Sbuiltin_cm x bf args)"
  "inside s (Sseq_cm a b)" "inside s (Sifthenelse_cm c a b)" "inside s (Sloop_cm a)" "inside s (Sblock_cm a)"
  "inside s (Sexit_cm n)" "inside s (Sswitch_cm isLong e cs d)" "inside s (Sreturn_cm r)" "inside s (Slabel_cm l a)"
  "inside s (Sgoto_cm l)"

text \<open>\<open>st\<close> calls the name \<open>x\<close>.\<close>

definition calls_name :: "string \<Rightarrow> cm_stmt \<Rightarrow> bool" where
  "calls_name x st \<longleftrightarrow> (\<exists>y sg args. st = Scall_cm y sg (Evar_cm x) args) \<or> (\<exists>sg args. st = Stailcall_cm sg (Evar_cm x) args)"

lemma calls_name_simps [simp]:
  "calls_name x (Scall_cm y sg f args) \<longleftrightarrow> f = Evar_cm x" "calls_name x (Stailcall_cm sg f args) \<longleftrightarrow> f = Evar_cm x"
  "\<not> calls_name x Sskip_cm" "\<not> calls_name x (Sassign_cm z e)" "\<not> calls_name x (Sstore_cm ch a e)"
  "\<not> calls_name x (Sbuiltin_cm y bf args)" "\<not> calls_name x (Sseq_cm s t)" "\<not> calls_name x (Sifthenelse_cm c s t)"
  "\<not> calls_name x (Sloop_cm s)" "\<not> calls_name x (Sblock_cm s)" "\<not> calls_name x (Sexit_cm n)"
  "\<not> calls_name x (Sswitch_cm isLong e cs d)" "\<not> calls_name x (Sreturn_cm r)" "\<not> calls_name x (Slabel_cm l s)"
  "\<not> calls_name x (Sgoto_cm l)"
  by (auto simp: calls_name_def)

lemma external_callee_iff: "x \<in> external_callee defined e \<longleftrightarrow> e = Evar_cm x \<and> x \<notin> defined"
  by (cases e) (auto simp: external_callee_def)

lemma collected_iff:
  "x \<in> collectExternalFunctionsInStmt s defined ext \<longleftrightarrow> x \<in> ext \<or> x \<notin> defined \<and> (\<exists>st. inside st s \<and> calls_name x st)"
  "x \<in> collect_cases cs defined ext \<longleftrightarrow>
    x \<in> ext \<or> x \<notin> defined \<and> (\<exists>v a st. SwitchCase_cm v a \<in> set cs \<and> inside st a \<and> calls_name x st)"
  by (induction s defined ext and cs defined ext rule: collectExternalFunctionsInStmt_collect_cases.induct)
    (auto simp: inside_simps external_callee_iff)

lemma collected_functions:
  "x \<in> fold (\<lambda>f. collectExternalFunctionsInStmt (cm_body f) defined) fs ext \<longleftrightarrow>
    x \<in> ext \<or> x \<notin> defined \<and> (\<exists>f\<in>set fs. \<exists>st. inside st (cm_body f) \<and> calls_name x st)"
  by (induction fs arbitrary: ext) (auto simp: collected_iff(1))

section \<open>Properties\<close>

text \<open>
  A function that the selection translates faithfully: its locals have the names of no symbol and no stack
  variable, and every statement avoids what the selection loses.
\<close>

definition cm_fun_ok :: "selectionContext \<Rightarrow> cm_function \<Rightarrow> bool" where
  "cm_fun_ok ctx F \<longleftrightarrow> context_ok ctx (set (cm_params F) \<union> set (cm_vars F)) \<and>
     stmt_sel_ok ctx (set (cm_params F) \<union> set (cm_vars F)) (cm_body F)"

lemma selected_behaves:
  assumes "cm_fun_ok ctx F"
    and "behaves (cm_step T E (StackVars ctx) (cm_body F)) cm_final (MStmt (cm_body F) Kstop_cm (cm_init_env F vs) m) b"
    and "b \<noteq> Goes_wrong"
  shows "behaves (cs_step T E (cs_body (SelectFunction ctx F))) cs_final
    (CStmt (cs_body (SelectFunction ctx F)) Kstop (cs_init_env (SelectFunction ctx F) vs) m) b"
proof -
  have "dom (cm_init_env F vs) = set (cm_params F) \<union> set (cm_vars F)"
    by (auto simp: cm_init_env_def dom_def)
  moreover have "cs_init_env (SelectFunction ctx F) vs = cm_init_env F vs"
    by (auto simp: cs_init_env_def cm_init_env_def SelectFunction_def)
  ultimately have "sel_match ctx (set (cm_params F) \<union> set (cm_vars F)) (cm_body F)
      (MStmt (cm_body F) Kstop_cm (cm_init_env F vs) m)
      (CStmt (cs_body (SelectFunction ctx F)) Kstop (cs_init_env (SelectFunction ctx F) vs) m)"
    using assms(1) by (simp add: cm_fun_ok_def env_ok_def SelectFunction_def)
  from selection.safe_preserved [OF this assms(2,3)] show ?thesis by (simp add: SelectFunction_def)
qed

definition five_times :: cm_function where
  "five_times = \<lparr>cm_name = ''five_times'', cm_sig = no_sig, cm_params = [''x''], cm_vars = [''y''], cm_stackspace = 0,
     cm_body = Sseq_cm
       (Sassign_cm ''y'' (Ebinop_cm Oadd_cs (Ebinop_cm Oshl_cs (Evar_cm ''x'') (Econst_cm (Ointconst_cm 2))) (Evar_cm ''x'')))
       (Sifthenelse_cm (Eunop_cm Onotbool_cs (Evar_cm ''y'')) (Sgoto_cm ''end'') (Sreturn_cm (Some (Evar_cm ''y''))))\<rparr>"

definition sample_context :: selectionContext where
  "sample_context = \<lparr>Globals = {''five_times''}, StackVars = Map.empty\<rparr>"

lemma five_times_terminates:
  "behaves (cm_step T E (StackVars sample_context) (cm_body five_times)) cm_final
    (MStmt (cm_body five_times) Kstop_cm (cm_init_env five_times [Some 2]) m) (Terminates (Returned (Some 10) m))"
proof -
  let ?env = "cm_init_env five_times [Some 2]"
  let ?env' = "?env(''y'' \<mapsto> Some 10)"
  have env: "?env ''x'' = Some (Some 2)" "?env ''y'' = Some None" by (simp_all add: cm_init_env_def five_times_def)
  have sum: "cm_eval T Map.empty ?env m
      (Ebinop_cm Oadd_cs (Ebinop_cm Oshl_cs (Evar_cm ''x'') (Econst_cm (Ointconst_cm 2))) (Evar_cm ''x'')) = Some (Some 10)"
    by (simp add: cm_var_def env known2_def shift_ok_def lo_def zx_def guarded_def)
  have test: "cm_cond T Map.empty ?env' m (Eunop_cm Onotbool_cs (Evar_cm ''y'')) = Some False"
    by (simp add: cm_var_def lo_def)
  have "behaves (cm_step T E Map.empty body) cm_final (MFinal (Returned (Some 10) m)) (Terminates (Returned (Some 10) m))" for body
    by (auto simp: behaves_def)
  then show ?thesis
    unfolding sample_context_def five_times_def selectionContext.simps cm_function.simps
    apply -
    apply (rule behaves_step, rule cm_seq)
    apply (rule behaves_step, rule cm_assign [OF sum [unfolded five_times_def]])
     apply (simp add: declared_def env [unfolded five_times_def])
    apply (rule behaves_step, rule cm_skip_seq)
    apply (rule behaves_step, rule cm_ifthenelse [OF test [unfolded five_times_def]])
    apply (simp only: if_False)
    apply (rule behaves_step, rule cm_return [where v = "Some 10"])
     apply (simp add: cm_var_def)
    apply assumption
    done
qed

lemma five_times_ok: "cm_fun_ok sample_context five_times"
  by (simp add: cm_fun_ok_def context_ok_def five_times_def sample_context_def name_ok_def combination_ok_def
      TrySelectCombinedOp_def orelse_def combine_shift_def isCommutative_def)

text \<open>
  Property C4. Instruction selection is correct, with the global names that \<open>SelectProgram\<close> collects, for every
  function of a program whose names are told apart (no local has the name of a symbol or of a stack variable) and
  whose statements avoid what the selection loses (\<open>cm_fun_ok\<close>): if the Cminor function terminates with an outcome (a returned value and memory,
  or a tail call), the selected CminorSel function at the same position terminates with it; if it runs
  forever, so does the selected function.
\<close>

theorem SelectProgram_correct:
  assumes "i < length (cm_functions p)" and "F = cm_functions p ! i" and "G = cs_functions (SelectProgram ctx p) ! i"
    and "cm_fun_ok (ctx\<lparr>Globals := program_globals p\<rparr>) F"
    and "behaves (cm_step T E (StackVars ctx) (cm_body F)) cm_final (MStmt (cm_body F) Kstop_cm (cm_init_env F vs) m) b"
    and "b \<noteq> Goes_wrong"
  shows "cs_params G = cm_params F \<and> behaves (cs_step T E (cs_body G)) cs_final (CStmt (cs_body G) Kstop (cs_init_env G vs) m) b"
proof -
  have G: "G = SelectFunction (ctx\<lparr>Globals := program_globals p\<rparr>) F"
    using assms(1-3) by (simp add: SelectProgram_def)
  have "behaves (cs_step T E (cs_body G)) cs_final (CStmt (cs_body G) Kstop (cs_init_env G vs) m) b"
    unfolding G using assms(4-6) by (intro selected_behaves) simp_all
  then show ?thesis by (simp add: G SelectFunction_def)
qed

theorem SelectProgram_correct_witness:
  "\<forall>T E m. let p = \<lparr>cm_globals = [], cm_functions = [five_times]\<rparr>;
      G = cs_functions (SelectProgram sample_context p) ! 0
    in cs_params G = [''x''] \<and> behaves (cs_step T E (cs_body G)) cs_final (CStmt (cs_body G) Kstop (cs_init_env G [Some 2]) m)
      (Terminates (Returned (Some 10) m))"
proof (intro allI)
  fix T E m
  let ?p = "\<lparr>cm_globals = [], cm_functions = [five_times]\<rparr>"
  have "sample_context\<lparr>Globals := program_globals ?p\<rparr> = sample_context"
    by (simp add: sample_context_def program_globals_def collectExternalFunctions_def Let_def five_times_def)
  then have "cm_fun_ok (sample_context\<lparr>Globals := program_globals ?p\<rparr>) five_times" using five_times_ok by simp
  note program = SelectProgram_correct [of 0 ?p five_times "cs_functions (SelectProgram sample_context ?p) ! 0" sample_context,
      OF _ _ refl this five_times_terminates]
  have "cm_params five_times = [''x'']" by (simp add: five_times_def)
  with program [where T = T and E = E and m = m]
  show "let p = ?p; G = cs_functions (SelectProgram sample_context p) ! 0
    in cs_params G = [''x''] \<and> behaves (cs_step T E (cs_body G)) cs_final (CStmt (cs_body G) Kstop (cs_init_env G [Some 2]) m)
      (Terminates (Returned (Some 10) m))"
    by (simp add: Let_def)
qed



text \<open>
  Property C37. The names that \<open>SelectProgram\<close> treats as symbols are exactly the global variables, the
  functions of the program, and every name called directly, in any function, outside labelled statements.
\<close>

theorem program_globals_exact:
  "x \<in> program_globals p \<longleftrightarrow> x \<in> gv_name ` set (cm_globals p) \<or> x \<in> cm_name ` set (cm_functions p) \<or>
    (\<exists>f\<in>set (cm_functions p). \<exists>st. inside st (cm_body f) \<and> calls_name x st)"
  by (auto simp: program_globals_def Let_def collectExternalFunctions_def collected_functions)

definition shifted_or :: cm_expr where
  "shifted_or = Ebinop_cm Oor_cs (Econst_cm (Ointconst_cm 1))
     (Ebinop_cm Oshl_cs (Econst_cm (Ointconst_cm 1)) (Econst_cm (Ointconst_cm 4)))"

definition shifted_addl :: cm_expr where
  "shifted_addl = Ebinop_cm Oaddl_cs (Econst_cm (Olongconst_cm 0x100000000))
     (Ebinop_cm Oshll_cs (Econst_cm (Olongconst_cm 1)) (Econst_cm (Ointconst_cm 3)))"

definition high_bit :: cm_expr where
  "high_bit = Ebinop_cm Oshll_cs (Econst_cm (Olongconst_cm 1)) (Econst_cm (Ointconst_cm 32))"

lemmas shift_defs = TrySelectCombinedOp_def orelse_def combine_shift_def is_shift_def isValidShiftAmount_def
  isCommutative_def known2_def word_addshift_def lo_def zx_def shift_ok_def guarded_def binop_kind_def

text \<open>
  What the selection gets wrong, on small inputs. \<open>1 | (1 << 4)\<close> becomes \<open>1 & 1\<close>; a 64-bit
  addition of a shifted operand is done in 32 bits; a condition on a 64-bit value tests only its lower half;
  a comparison inside an address loses its relation and has no value.
\<close>

lemma selection_errors:
  "(cm_eval T sv env m shifted_or, eval_expr T E env m [] (SelectExpr ctx shifted_or)) = (Some (Some 17), Some (Some 1)) \<and>
   (cm_eval T sv env m shifted_addl, eval_expr T E env m [] (SelectExpr ctx shifted_addl)) =
     (Some (Some 0x100000008), Some (Some 8)) \<and>
   (cm_cond T sv env m high_bit, eval_cond T E env m [] (SelectCondition ctx high_bit)) = (Some True, Some False) \<and>
   eval_expr T E env m [] (reSelectExpr ctx (translateExpr (Ecmp_cm Ocmp_cs c a b))) = None"
proof (intro conjI)
  show "(cm_eval T sv env m shifted_or, eval_expr T E env m [] (SelectExpr ctx shifted_or)) = (Some (Some 17), Some (Some 1))"
    by (simp add: shifted_or_def shift_defs)
  show "(cm_eval T sv env m shifted_addl, eval_expr T E env m [] (SelectExpr ctx shifted_addl)) =
     (Some (Some 0x100000008), Some (Some 8))"
    by (simp add: shifted_addl_def shift_defs)
  show "(cm_cond T sv env m high_bit, eval_cond T E env m [] (SelectCondition ctx high_bit)) = (Some True, Some False)"
    by (simp add: high_bit_def shift_defs)
  show "eval_expr T E env m [] (reSelectExpr ctx (translateExpr (Ecmp_cm Ocmp_cs c a b))) = None"
    by (auto simp: known2_def bind_eq_None_conv)
qed

text \<open>
  Two programs whose names are confused: a call through the local variable \<open>f\<close> calls a symbol of that name,
  and \<open>puts\<close>, called only under a label, stays a variable that is not declared.
\<close>

definition caller :: "string list \<Rightarrow> cm_stmt \<Rightarrow> cm_program" where
  "caller vars body = \<lparr>cm_globals = [], cm_functions = [\<lparr>cm_name = ''main'', cm_sig = no_sig, cm_params = [],
     cm_vars = vars, cm_stackspace = 0, cm_body = body\<rparr>]\<rparr>"

lemma pointer_call_becomes_symbol:
  "map cs_body (cs_functions (SelectProgram ctx (caller [''f''] (Scall_cm None None (Evar_cm ''f'') [])))) =
    [Scall None None (Econst (Oaddrsymbol_cs ''f'' 0)) []]"
  by (simp add: SelectProgram_def SelectFunction_def caller_def program_globals_def collectExternalFunctions_def
      external_callee_def selectVar_def Let_def)

lemma labelled_call_unresolved:
  assumes "StackVars ctx ''puts'' = None"
  shows "map cs_body (cs_functions (SelectProgram ctx (caller [] (Slabel_cm ''l'' (Scall_cm None None (Evar_cm ''puts'') []))))) =
    [Slabel ''l'' (Scall None None (Evar ''puts'') [])]"
  using assms by (simp add: SelectProgram_def SelectFunction_def caller_def program_globals_def collectExternalFunctions_def
      selectVar_def Let_def)

end
