(* ===== verification/RTLgenStmt.thy ===== *)
theory RTLgenStmt
  imports RTLgenExpr
begin

text \<open>
  The graph that \<open>TranslateStmt\<close> builds. \<open>tr_stmt\<close> says what the finished graph
  contains for a statement and \<open>tr_cont\<close> what it contains for a continuation; the translator establishes
  it for every statement that is translated faithfully.
\<close>

section \<open>The statements that are translated faithfully\<close>

definition callee_ok :: "expr \<Rightarrow> bool" where
  "callee_ok e \<longleftrightarrow> (case e of Econst (Oaddrsymbol_cs s n) \<Rightarrow> n = 0 | _ \<Rightarrow> expr_ok e)"

fun stmt_ok :: "stmt \<Rightarrow> bool" and cases_ok :: "switchCase list \<Rightarrow> bool" where
  "stmt_ok (Sassign x e) \<longleftrightarrow> expr_ok e"
| "stmt_ok (Sstore ch mode args e) \<longleftrightarrow> mode_ok mode \<and> exprs_ok args \<and> expr_ok e"
| "stmt_ok (Scall x sg e args) \<longleftrightarrow> callee_ok e \<and> exprs_ok args"
| "stmt_ok (Stailcall sg e args) \<longleftrightarrow> callee_ok e \<and> exprs_ok args"
| "stmt_ok (Sbuiltin x bf args) \<longleftrightarrow> exprs_ok args"
| "stmt_ok (Sseq a b) \<longleftrightarrow> stmt_ok a \<and> stmt_ok b"
| "stmt_ok (Sifthenelse c a b) \<longleftrightarrow> cond_ok c \<and> stmt_ok a \<and> stmt_ok b"
| "stmt_ok (Sloop a) \<longleftrightarrow> stmt_ok a"
| "stmt_ok (Sblock a) \<longleftrightarrow> stmt_ok a"
| "stmt_ok (Sswitch isLong e cs d) \<longleftrightarrow> expr_ok e \<and> cases_ok cs \<and> stmt_ok d"
| "stmt_ok (Sreturn v) \<longleftrightarrow> (case v of None \<Rightarrow> True | Some e \<Rightarrow> expr_ok e)"
| "stmt_ok (Slabel l a) \<longleftrightarrow> stmt_ok a"
| "stmt_ok _ \<longleftrightarrow> True"
| "cases_ok [] \<longleftrightarrow> True"
| "cases_ok (SwitchCase v a # cs) \<longleftrightarrow> stmt_ok a \<and> cases_ok cs"

section \<open>Code for expressions\<close>

definition expr_code :: "rtl_function \<Rightarrow> (string \<rightharpoonup> reg) \<Rightarrow> expr \<Rightarrow> node \<Rightarrow> node \<Rightarrow> reg \<Rightarrow> bool" where
  "expr_code f V e ns nd r \<longleftrightarrow> (\<exists>g g'. run_state (TranslateExpr e r nd) g = (ns, g') \<and> placed V f g g' \<and>
     letBindings g = [] \<and> r < nextReg g \<and> expr_ok e)"

definition exprs_code :: "rtl_function \<Rightarrow> (string \<rightharpoonup> reg) \<Rightarrow> expr list \<Rightarrow> node \<Rightarrow> node \<Rightarrow> reg list \<Rightarrow> bool" where
  "exprs_code f V es ns nd rl \<longleftrightarrow> (\<exists>g g'. run_state (TranslateExprs es rl nd) g = (ns, g') \<and> placed V f g g' \<and>
     letBindings g = [] \<and> temp_regs V g rl \<and> length rl = length es \<and> exprs_ok es)"

definition cond_code :: "rtl_function \<Rightarrow> (string \<rightharpoonup> reg) \<Rightarrow> cond \<Rightarrow> node \<Rightarrow> node \<Rightarrow> node \<Rightarrow> bool" where
  "cond_code f V c ns n1 n2 \<longleftrightarrow> (\<exists>g g'. run_state (TranslateCond c n1 n2) g = (ns, g') \<and> placed V f g g' \<and>
     letBindings g = [] \<and> cond_ok c)"

lemma placed_vars:
  assumes "unchanged g W rs rs'" and "placed V f g g'" and "r \<in> ran V" and "r \<notin> W"
  shows "rs' r = rs r"
  using placed_ran [OF assms(2,3)] assms(1,4) by (simp add: unchanged_def)

lemma expr_code_runs:
  assumes "expr_code f V e ns nd r" and "vars_match V env rs" and "eval_expr T E env m [] e = Some v"
  obtains rs' where "runs T E f m ns rs nd rs'" and "rs' r = v" and "\<And>q. q \<in> ran V \<Longrightarrow> q \<noteq> r \<Longrightarrow> rs' q = rs q"
proof -
  from assms(1) obtain g g' where g: "run_state (TranslateExpr e r nd) g = (ns, g')" "placed V f g g'"
    "letBindings g = []" "r < nextReg g" "expr_ok e" by (auto simp: expr_code_def)
  obtain rs' where "runs T E f m ns rs nd rs'" "rs' r = v" "unchanged g {r} rs rs'"
    by (rule expr_correctE [OF translated_correct(1) [rule_format] g(1,2,5,4) assms(2)])
      (use assms(3) g(3) in \<open>auto simp: let_values_def\<close>)
  with that placed_vars [OF _ g(2)] show ?thesis by blast
qed

lemma exprs_code_runs:
  assumes "exprs_code f V es ns nd rl" and "vars_match V env rs" and "eval_exprs T E env m [] es = Some vs"
  obtains rs' where "runs T E f m ns rs nd rs'" and "map rs' rl = vs" and "vars_match V env rs'"
proof -
  from assms(1) obtain g g' where g: "run_state (TranslateExprs es rl nd) g = (ns, g')" "placed V f g g'"
    "letBindings g = []" "temp_regs V g rl" "length rl = length es" "exprs_ok es" by (auto simp: exprs_code_def)
  obtain rs' where rs': "runs T E f m ns rs nd rs'" "map rs' rl = vs" "unchanged g (set rl) rs rs'"
    by (rule exprs_correctE [OF translated_correct(2) [rule_format] g(1,2,6,4,5) assms(2)])
      (use assms(3) g(3) in \<open>auto simp: let_values_def\<close>)
  have "vars_match V env rs'"
    by (rule vars_match_unchanged [OF assms(2) rs'(3) g(2)]) (use g(4) in \<open>auto simp: temp_regs_def\<close>)
  with that rs' show ?thesis by blast
qed

lemma cond_code_runs:
  assumes "cond_code f V c ns n1 n2" and "vars_match V env rs" and "eval_cond T E env m [] c = Some t"
  obtains rs' where "runs T E f m ns rs (if t then n1 else n2) rs'" and "vars_match V env rs'"
proof -
  from assms(1) obtain g g' where g: "run_state (TranslateCond c n1 n2) g = (ns, g')" "placed V f g g'"
    "letBindings g = []" "cond_ok c" by (auto simp: cond_code_def)
  obtain rs' where rs': "runs T E f m ns rs (if t then n1 else n2) rs'" "unchanged g {} rs rs'"
    by (rule cond_correctE [OF translated_correct(3) [THEN conjunct1, rule_format] g(1,2,4) assms(2)])
      (use assms(3) g(3) in \<open>auto simp: let_values_def\<close>)
  have "vars_match V env rs'" by (rule vars_match_unchanged [OF assms(2) rs'(2) g(2)]) simp
  with that rs' show ?thesis by blast
qed

section \<open>Code for statements\<close>

text \<open>
  \<open>V\<close> gives the registers of the declared variables, \<open>LN\<close> the nodes of the labels, \<open>ex\<close> the targets of
  the enclosing blocks, innermost first. The code starts at \<open>ns\<close> and continues at \<open>nd\<close>.
\<close>

definition result_reg :: "(string \<rightharpoonup> reg) \<Rightarrow> string option \<Rightarrow> reg \<Rightarrow> bool" where
  "result_reg V x d \<longleftrightarrow> (case x of None \<Rightarrow> d = 0 | Some y \<Rightarrow> \<forall>r. V y = Some r \<longrightarrow> d = r)"

definition call_args :: "rtl_function \<Rightarrow> (string \<rightharpoonup> reg) \<Rightarrow> expr \<Rightarrow> expr list \<Rightarrow> node \<Rightarrow> node \<Rightarrow> reg \<Rightarrow> reg list \<Rightarrow> bool" where
  "call_args f V e args ns n fr rl \<longleftrightarrow> callee_ok e \<and> length rl = length args \<and>
     (if direct_callee e = None then exprs_code f V (args @ [e]) ns n (rl @ [fr]) else exprs_code f V args ns n rl)"

fun tr_stmt :: "rtl_function \<Rightarrow> (string \<rightharpoonup> reg) \<Rightarrow> (string \<rightharpoonup> node) \<Rightarrow> stmt \<Rightarrow> node \<Rightarrow> node \<Rightarrow> node list \<Rightarrow> bool"
and tr_cases :: "rtl_function \<Rightarrow> (string \<rightharpoonup> reg) \<Rightarrow> (string \<rightharpoonup> node) \<Rightarrow> bool \<Rightarrow> reg \<Rightarrow> switchCase list \<Rightarrow> node \<Rightarrow> node \<Rightarrow> node \<Rightarrow> node list \<Rightarrow> bool" where
  "tr_stmt f V LN Sskip ns nd ex \<longleftrightarrow> ns = nd"
| "tr_stmt f V LN (Sassign x e) ns nd ex \<longleftrightarrow> (\<forall>r. V x = Some r \<longrightarrow> expr_code f V e ns nd r)"
| "tr_stmt f V LN (Sstore ch mode args e) ns nd ex \<longleftrightarrow> (\<exists>rl r n. rtl_code f n = Some (Istore ch mode rl r nd) \<and>
     length rl = length args \<and> exprs_code f V (args @ [e]) ns n (rl @ [r]))"
| "tr_stmt f V LN (Scall x sg e args) ns nd ex \<longleftrightarrow> (\<exists>rl fr d n.
     rtl_code f n = Some (Icall (the_sig sg) (callee_ref e fr) rl d nd) \<and> result_reg V x d \<and> call_args f V e args ns n fr rl)"
| "tr_stmt f V LN (Stailcall sg e args) ns nd ex \<longleftrightarrow> (\<exists>rl fr n.
     rtl_code f n = Some (Itailcall (the_sig sg) (callee_ref e fr) rl) \<and> call_args f V e args ns n fr rl)"
| "tr_stmt f V LN (Sbuiltin x bf args) ns nd ex \<longleftrightarrow> (\<exists>rl d n.
     rtl_code f n = Some (Ibuiltin bf rl (map_option (\<lambda>_. d) x) nd) \<and> result_reg V x d \<and> exprs_code f V args ns n rl)"
| "tr_stmt f V LN (Sseq a b) ns nd ex \<longleftrightarrow> (\<exists>n. tr_stmt f V LN a ns n ex \<and> tr_stmt f V LN b n nd ex)"
| "tr_stmt f V LN (Sifthenelse c a b) ns nd ex \<longleftrightarrow> (\<exists>n1 n2.
     cond_code f V c ns n1 n2 \<and> tr_stmt f V LN a n1 nd ex \<and> tr_stmt f V LN b n2 nd ex)"
| "tr_stmt f V LN (Sloop a) ns nd ex \<longleftrightarrow> (\<exists>n. rtl_code f ns = Some (Inop n) \<and> tr_stmt f V LN a n ns ex)"
| "tr_stmt f V LN (Sblock a) ns nd ex \<longleftrightarrow> tr_stmt f V LN a ns nd (nd # ex)"
| "tr_stmt f V LN (Sexit i) ns nd ex \<longleftrightarrow>
     (0 \<le> i \<and> nat i < length ex \<longrightarrow> rtl_code f ns = Some (Inop (ex ! nat i)))"
| "tr_stmt f V LN (Sswitch isLong e cs d) ns nd ex \<longleftrightarrow> (\<exists>r n dn. expr_code f V e ns n r \<and> r \<notin> ran V \<and>
     tr_cases f V LN isLong r cs n dn nd ex \<and> tr_stmt f V LN d dn nd ex)"
| "tr_stmt f V LN (Sreturn v) ns nd ex \<longleftrightarrow> (case v of
     None \<Rightarrow> rtl_code f ns = Some (Ireturn None)
   | Some e \<Rightarrow> \<exists>r n. rtl_code f n = Some (Ireturn (Some r)) \<and> expr_code f V e ns n r)"
| "tr_stmt f V LN (Slabel l a) ns nd ex \<longleftrightarrow> LN l = Some ns \<and>
     (\<exists>n. rtl_code f ns = Some (Inop n) \<and> tr_stmt f V LN a n nd ex)"
| "tr_stmt f V LN (Sgoto l) ns nd ex \<longleftrightarrow> (\<exists>n. LN l = Some n \<and> rtl_code f ns = Some (Inop n))"
| "tr_cases f V LN isLong r [] ns els nd ex \<longleftrightarrow> ns = els"
| "tr_cases f V LN isLong r (SwitchCase v a # cs) ns els nd ex \<longleftrightarrow> (\<exists>n1 n2.
     rtl_code f ns = Some (Icond (switch_code isLong v) [r] n1 n2) \<and> tr_stmt f V LN a n1 nd ex \<and>
     tr_cases f V LN isLong r cs n2 els nd ex)"

text \<open>The node where a continuation takes over.\<close>

fun tr_cont :: "rtl_function \<Rightarrow> (string \<rightharpoonup> reg) \<Rightarrow> (string \<rightharpoonup> node) \<Rightarrow> cont \<Rightarrow> node \<Rightarrow> node list \<Rightarrow> bool" where
  "tr_cont f V LN Kstop nd ex \<longleftrightarrow> ex = [] \<and> rtl_code f nd = Some (Ireturn None)"
| "tr_cont f V LN (Kseq s k) nd ex \<longleftrightarrow> (\<exists>n. tr_stmt f V LN s nd n ex \<and> tr_cont f V LN k n ex)"
| "tr_cont f V LN (Kblock k) nd ex \<longleftrightarrow> (\<exists>ex'. ex = nd # ex' \<and> tr_cont f V LN k nd ex')"

definition label_code :: "rtl_function \<Rightarrow> (string \<rightharpoonup> reg) \<Rightarrow> (string \<rightharpoonup> node) \<Rightarrow> string \<Rightarrow> stmt \<Rightarrow> cont \<Rightarrow> bool" where
  "label_code f V LN l s k \<longleftrightarrow> (\<exists>n ns nd ex. LN l = Some n \<and> rtl_code f n = Some (Inop ns) \<and>
     tr_stmt f V LN s ns nd ex \<and> tr_cont f V LN k nd ex)"

lemma cs_find_label_tr:
  "cs_find_label l s k = Some (s', k') \<Longrightarrow> tr_stmt f V LN s ns nd ex \<Longrightarrow> tr_cont f V LN k nd ex \<Longrightarrow>
    label_code f V LN l s' k'"
  "cs_find_label_cases l cs k = Some (s', k') \<Longrightarrow> tr_cases f V LN isLong r cs ns els nd ex \<Longrightarrow> tr_cont f V LN k nd ex \<Longrightarrow>
    label_code f V LN l s' k'"
proof (induction l s k and l cs k arbitrary: s' k' ns nd ex and s' k' isLong r ns els nd ex
    rule: cs_find_label_cs_find_label_cases.induct)
  case (1 l a b k)
  from 1(4) obtain n where n: "tr_stmt f V LN a ns n ex" "tr_stmt f V LN b n nd ex" by auto
  then have k: "tr_cont f V LN (Kseq b k) n ex" using 1(5) by auto
  show ?case using 1(1) [OF _ n(1) k] 1(2) [OF _ _ n(2) 1(5)] 1(3) by (auto split: option.splits)
next
  case (2 l c a b k)
  from 2(4) obtain n n' where n: "tr_stmt f V LN a n nd ex" "tr_stmt f V LN b n' nd ex" by auto
  show ?case using 2(1) [OF _ n(1) 2(5)] 2(2) [OF _ _ n(2) 2(5)] 2(3) by (auto split: option.splits)
next
  case (3 l a k)
  from 3(3) obtain n where "tr_stmt f V LN a n ns ex" by auto
  moreover have "tr_cont f V LN (Kseq (Sloop a) k) ns ex" using 3(3,4) by auto
  ultimately show ?case using 3(1,2) by auto
next
  case (5 l isLong e cs d k)
  from 5(4) obtain r n dn where n: "tr_cases f V LN isLong r cs n dn nd ex" "tr_stmt f V LN d dn nd ex" by auto
  show ?case using 5(1) [OF _ n(1) 5(5)] 5(2) [OF _ _ n(2) 5(5)] 5(3) by (auto split: option.splits)
next
  case (6 l l' a k)
  then show ?case by (fastforce simp: label_code_def split: if_splits)
next
  case (9 l v a cs k)
  from 9(4) obtain n n' where n: "tr_stmt f V LN a n nd ex" "tr_cases f V LN isLong r cs n' els nd ex" by auto
  show ?case using 9(1) [OF _ n(1) 9(5)] 9(2) [OF _ _ n(2) 9(5)] 9(3) by (auto split: option.splits)
qed auto

section \<open>The translator establishes it\<close>

lemma map_le_Some: "f \<subseteq>\<^sub>m g \<Longrightarrow> f x = Some y \<Longrightarrow> g x = Some y"
  by (auto simp: map_le_def dom_def)

definition site :: "rtl_function \<Rightarrow> (string \<rightharpoonup> reg) \<Rightarrow> (string \<rightharpoonup> node) \<Rightarrow> translator \<Rightarrow> translator \<Rightarrow> bool" where
  "site f V LN g g' \<longleftrightarrow> placed V f g g' \<and> labelNodes g' \<subseteq>\<^sub>m LN \<and> letBindings g = []"

lemma site_bindE:
  assumes "run_state (State_Monad.bind c k) g = (y, g'')" and "site f V LN g g''"
    and "maintains Da c" and "\<And>x. maintains Db (k x)" and "\<forall>l\<in>Da \<union> Db. label_open g l" and "Da \<inter> Db = {}"
  obtains x g' where "run_state c g = (x, g')" and "run_state (k x) g' = (y, g'')"
    and "site f V LN g g'" and "site f V LN g' g''" and "\<forall>l\<in>Db. label_open g' l" and "same_stacks g g'" and "grows Da g g'"
proof -
  from assms(1) obtain x g' where run: "run_state c g = (x, g')" "run_state (k x) g' = (y, g'')"
    unfolding run_bind by blast
  have "wf_gen g" using assms(2) by (simp add: site_def placed_def)
  then have g': "wf_gen g'" "grows Da g g'" "same_stacks g g'" using keepsD [OF assms(3) run(1)] assms(5) by auto
  have pend: "\<forall>l\<in>Db. label_open g' l" using g'(2) assms(5,6) unfolding grows_def by blast
  have "grows Db g' g''" using keepsD(2) [OF assms(4) run(2) g'(1) pend] .
  then have "site f V LN g g'" "site f V LN g' g''"
    using assms(2) g' by (auto simp: site_def placed_def grows_def same_stacks_def intro: map_le_trans)
  with run g' pend that show ?thesis by blast
qed

lemma site_bind0E:
  assumes "run_state (State_Monad.bind c k) g = (y, g'')" and "site f V LN g g''"
    and "maintains {} c" and "\<And>x. maintains {} (k x)"
  obtains x g' where "run_state c g = (x, g')" and "run_state (k x) g' = (y, g'')"
    and "site f V LN g g'" and "site f V LN g' g''" and "same_stacks g g'" and "grows {} g g'"
  by (rule site_bindE [OF assms]) auto

lemma emitted_site: "run_state (EmitInstr i) g = (n, g') \<Longrightarrow> site f V LN g g' \<Longrightarrow> rtl_code f n = Some i"
  using emitted unfolding site_def by blast

lemma site_expr:
  "run_state (TranslateExpr e r nd) g = (ns, g') \<Longrightarrow> site f V LN g g' \<Longrightarrow> r < nextReg g \<Longrightarrow> expr_ok e \<Longrightarrow>
    expr_code f V e ns nd r"
  unfolding expr_code_def site_def by blast

lemma TranslateExprs_snoc:
  "length es = length rl \<Longrightarrow>
    TranslateExprs (es @ [e]) (rl @ [r]) succ = State_Monad.bind (TranslateExpr e r succ) (TranslateExprs es rl)"
  by (induction es rl rule: list_induct2) simp_all

text \<open>Code that evaluates \<open>es\<close> into registers that were taken from the supply first.\<close>

lemma site_exprs:
  assumes "run_state (TranslateExprs es rl nd) g = (ns, g')" and "site f V LN g g'" and "temp_regs V g rl"
    and "length rl = length es" and "exprs_ok es"
  shows "exprs_code f V es ns nd rl"
  using assms unfolding exprs_code_def site_def by blast

lemma exprs_ok_append [simp]: "exprs_ok (es @ fs) \<longleftrightarrow> exprs_ok es \<and> exprs_ok fs"
  by (induction es) auto

lemma fresh_pair:
  assumes "run_state Fresh g = (r, g1)" and "run_state (FreshN n) g1 = (rl, g2)" and "site f V LN g g1" and "site f V LN g1 g2"
  shows "temp_regs V g2 (rl @ [r])" and "temp_regs V g2 rl" and "length rl = n" and "r < nextReg g2" and "r \<notin> ran V"
proof -
  have "run_state (FreshN (Suc n)) g = (r # rl, g2)" using assms(1,2) by auto
  moreover have "placed V f g g2" using assms(3,4) by (auto simp: site_def placed_def)
  ultimately have t: "temp_regs V g2 (r # rl)" "length (r # rl) = Suc n" by (rule fresh_temps)+
  then show "temp_regs V g2 (rl @ [r])" "temp_regs V g2 rl" "length rl = n" "r < nextReg g2" "r \<notin> ran V"
    by (auto simp: temp_regs_def)
qed

lemma site_MapVar:
  assumes "run_state (MapVar x) g = (r, g')" and "site f V LN g g'" and "V x = Some q"
  shows "r = q" and "r < nextReg g"
proof -
  have "varToReg g x = Some q" using assms(2,3) by (auto simp: site_def placed_def map_le_def dom_def)
  with assms(1) show "r = q" by (simp add: run_MapVar)
  moreover have "q \<in> ran V" using assms(3) by (auto simp: ran_def)
  ultimately show "r < nextReg g" using assms(2) placed_ran [of V f g g' q] by (simp add: site_def)
qed

lemma site_MapResult:
  "run_state (MapResult x) g = (d, g') \<Longrightarrow> site f V LN g g' \<Longrightarrow> result_reg V x d"
  by (cases x) (auto simp: MapResult_def result_reg_def dest: site_MapVar)

lemma tr_assign:
  assumes "run_state (translateAssign x e nd) g = (ns, g')" and "site f V LN g g'" and "expr_ok e"
  shows "tr_stmt f V LN (Sassign x e) ns nd ex"
proof -
  obtain r g1 where 1: "run_state (MapVar x) g = (r, g1)" "site f V LN g g1" "site f V LN g1 g'" "grows {} g g1"
      and run: "run_state (TranslateExpr e r nd) g1 = (ns, g')"
    by (rule site_bind0E [OF assms(1) [unfolded translateAssign_def] assms(2)]) (auto intro: keeps_TranslateExpr)
  have "expr_code f V e ns nd q" if "V x = Some q" for q
  proof -
    have r: "r = q" "r < nextReg g1" using site_MapVar [OF 1(1,2) that] 1(4) by (auto simp: grows_def)
    show ?thesis using site_expr [OF run 1(3) r(2) assms(3)] r(1) by simp
  qed
  then show ?thesis by simp
qed

lemma tr_store:
  assumes "run_state (translateStore_rtl ch mode args e nd) g = (ns, g')" and "site f V LN g g'"
    and ok: "mode_ok mode" "exprs_ok args" "expr_ok e"
  shows "tr_stmt f V LN (Sstore ch mode args e) ns nd ex"
proof -
  note keep = keeps_bind0 keeps_TranslateExpr
  obtain r g1 where 1: "run_state Fresh g = (r, g1)" "site f V LN g g1" "site f V LN g1 g'" and run1: "run_state (do {
     addrRegs \<leftarrow> FreshN (length args);
     storeNode \<leftarrow> EmitInstr (Istore ch (TranslateAddressingMode mode) addrRegs r nd);
     valueEntry \<leftarrow> TranslateExpr e r storeNode;
     TranslateExprs args addrRegs valueEntry }) g1 = (ns, g')"
    by (rule site_bind0E [OF assms(1) [unfolded translateStore_rtl_def] assms(2)]) (auto intro!: keep)
  obtain rl g2 where 2: "run_state (FreshN (length args)) g1 = (rl, g2)" "site f V LN g1 g2" "site f V LN g2 g'"
      and run2: "run_state (do {
     storeNode \<leftarrow> EmitInstr (Istore ch (TranslateAddressingMode mode) rl r nd);
     valueEntry \<leftarrow> TranslateExpr e r storeNode;
     TranslateExprs args rl valueEntry }) g2 = (ns, g')"
    by (rule site_bind0E [OF run1 1(3)]) (auto intro!: keep)
  obtain n g3 where 3: "run_state (EmitInstr (Istore ch (TranslateAddressingMode mode) rl r nd)) g2 = (n, g3)"
      "site f V LN g2 g3" "site f V LN g3 g'" "same_stacks g2 g3" "grows {} g2 g3"
      and run3: "run_state (do { valueEntry \<leftarrow> TranslateExpr e r n; TranslateExprs args rl valueEntry }) g3 = (ns, g')"
    by (rule site_bind0E [OF run2 2(3)]) (auto intro!: keep)
  note t = fresh_pair [OF 1(1) 2(1) 1(2) 2(2)]
  have "run_state (TranslateExprs (args @ [e]) (rl @ [r]) n) g3 = (ns, g')"
    using run3 t(3) by (simp add: TranslateExprs_snoc)
  then have "exprs_code f V (args @ [e]) ns n (rl @ [r])"
    by (rule site_exprs) (use 3 t ok temp_regs_grows in \<open>auto\<close>)
  then show ?thesis
    using emitted_site [OF 3(1,2)] t(3) ok(1) by (auto simp: TranslateAddressingMode_id)
qed

lemma tr_call_args:
  assumes run: "run_state (do { fe \<leftarrow> TranslateCallee e fr n; TranslateExprs args rl fe }) g = (ns, g')"
    and "site f V LN g g'" and "temp_regs V g (rl @ [fr])" and "temp_regs V g rl" and "length rl = length args"
    and "callee_ok e" and "exprs_ok args"
  shows "call_args f V e args ns n fr rl"
proof (cases "direct_callee e")
  case None
  then have "expr_ok e" using assms(6) by (auto simp: callee_ok_def direct_callee_def split: expr.splits cs_const.splits)
  moreover have "run_state (TranslateExprs (args @ [e]) (rl @ [fr]) n) g = (ns, g')"
    using run assms(5) None by (simp add: TranslateExprs_snoc TranslateCallee_def)
  then have "exprs_code f V (args @ [e]) ns n (rl @ [fr])"
    by (rule site_exprs) (use assms \<open>expr_ok e\<close> in auto)
  ultimately show ?thesis using None assms by (simp add: call_args_def)
next
  case (Some s)
  then have "run_state (TranslateExprs args rl n) g = (ns, g')" using run by (simp add: TranslateCallee_def)
  from site_exprs [OF this assms(2,4,5,7)] show ?thesis using Some assms(5,6) by (simp add: call_args_def)
qed

lemma tr_call:
  assumes "run_state (translateCall_rtl x sg e args nd) g = (ns, g')" and "site f V LN g g'"
    and ok: "callee_ok e" "exprs_ok args"
  shows "tr_stmt f V LN (Scall x sg e args) ns nd ex"
proof -
  note keep = keeps_bind0 keeps_TranslateExpr keeps_leaves
  obtain fr g1 where 1: "run_state Fresh g = (fr, g1)" "site f V LN g g1" "site f V LN g1 g'" and run1: "run_state (do {
     argRegs \<leftarrow> FreshN (length args);
     destReg \<leftarrow> MapResult x;
     callNode \<leftarrow> EmitInstr (Icall (the_sig sg) (callee_ref e fr) argRegs destReg nd);
     funcEntry \<leftarrow> TranslateCallee e fr callNode;
     TranslateExprs args argRegs funcEntry }) g1 = (ns, g')"
    by (rule site_bind0E [OF assms(1) [unfolded translateCall_rtl_eq] assms(2)]) (auto intro!: keep)
  obtain rl g2 where 2: "run_state (FreshN (length args)) g1 = (rl, g2)" "site f V LN g1 g2" "site f V LN g2 g'"
      and run2: "run_state (do {
     destReg \<leftarrow> MapResult x;
     callNode \<leftarrow> EmitInstr (Icall (the_sig sg) (callee_ref e fr) rl destReg nd);
     funcEntry \<leftarrow> TranslateCallee e fr callNode;
     TranslateExprs args rl funcEntry }) g2 = (ns, g')"
    by (rule site_bind0E [OF run1 1(3)]) (auto intro!: keep)
  obtain d g3 where 3: "run_state (MapResult x) g2 = (d, g3)" "site f V LN g2 g3" "site f V LN g3 g'"
      "same_stacks g2 g3" "grows {} g2 g3" and run3: "run_state (do {
     callNode \<leftarrow> EmitInstr (Icall (the_sig sg) (callee_ref e fr) rl d nd);
     funcEntry \<leftarrow> TranslateCallee e fr callNode;
     TranslateExprs args rl funcEntry }) g3 = (ns, g')"
    by (rule site_bind0E [OF run2 2(3)]) (auto intro!: keep)
  obtain n g4 where 4: "run_state (EmitInstr (Icall (the_sig sg) (callee_ref e fr) rl d nd)) g3 = (n, g4)"
      "site f V LN g3 g4" "site f V LN g4 g'" "same_stacks g3 g4" "grows {} g3 g4"
      and run4: "run_state (do { fe \<leftarrow> TranslateCallee e fr n; TranslateExprs args rl fe }) g4 = (ns, g')"
    by (rule site_bind0E [OF run3 3(3)]) (auto intro!: keep)
  note t = fresh_pair [OF 1(1) 2(1) 1(2) 2(2)]
  have "call_args f V e args ns n fr rl"
    by (rule tr_call_args [OF run4 4(3)])
      (use t ok temp_regs_grows [OF temp_regs_grows [OF _ 3(5,4)] 4(5,4)] in auto)
  then show ?thesis using emitted_site [OF 4(1,2)] site_MapResult [OF 3(1,2)] by auto
qed

lemma tr_tailcall:
  assumes "run_state (translateTailcall_rtl sg e args) g = (ns, g')" and "site f V LN g g'"
    and ok: "callee_ok e" "exprs_ok args"
  shows "tr_stmt f V LN (Stailcall sg e args) ns nd ex"
proof -
  note keep = keeps_bind0 keeps_TranslateExpr keeps_leaves
  obtain fr g1 where 1: "run_state Fresh g = (fr, g1)" "site f V LN g g1" "site f V LN g1 g'" and run1: "run_state (do {
     argRegs \<leftarrow> FreshN (length args);
     tailNode \<leftarrow> EmitInstr (Itailcall (the_sig sg) (callee_ref e fr) argRegs);
     funcEntry \<leftarrow> TranslateCallee e fr tailNode;
     TranslateExprs args argRegs funcEntry }) g1 = (ns, g')"
    by (rule site_bind0E [OF assms(1) [unfolded translateTailcall_rtl_eq] assms(2)]) (auto intro!: keep)
  obtain rl g2 where 2: "run_state (FreshN (length args)) g1 = (rl, g2)" "site f V LN g1 g2" "site f V LN g2 g'"
      and run2: "run_state (do {
     tailNode \<leftarrow> EmitInstr (Itailcall (the_sig sg) (callee_ref e fr) rl);
     funcEntry \<leftarrow> TranslateCallee e fr tailNode;
     TranslateExprs args rl funcEntry }) g2 = (ns, g')"
    by (rule site_bind0E [OF run1 1(3)]) (auto intro!: keep)
  obtain n g3 where 3: "run_state (EmitInstr (Itailcall (the_sig sg) (callee_ref e fr) rl)) g2 = (n, g3)"
      "site f V LN g2 g3" "site f V LN g3 g'" "same_stacks g2 g3" "grows {} g2 g3"
      and run3: "run_state (do { fe \<leftarrow> TranslateCallee e fr n; TranslateExprs args rl fe }) g3 = (ns, g')"
    by (rule site_bind0E [OF run2 2(3)]) (auto intro!: keep)
  note t = fresh_pair [OF 1(1) 2(1) 1(2) 2(2)]
  have "call_args f V e args ns n fr rl"
    by (rule tr_call_args [OF run3 3(3)]) (use t ok temp_regs_grows [OF _ 3(5,4)] in auto)
  then show ?thesis using emitted_site [OF 3(1,2)] by auto
qed

lemma tr_builtin:
  assumes "run_state (translateBuiltin_rtl x bf args nd) g = (ns, g')" and "site f V LN g g'" and ok: "exprs_ok args"
  shows "tr_stmt f V LN (Sbuiltin x bf args) ns nd ex"
proof -
  note keep = keeps_bind0 keeps_TranslateExpr keeps_leaves
  obtain rl g1 where 1: "run_state (FreshN (length args)) g = (rl, g1)" "site f V LN g g1" "site f V LN g1 g'"
      and run1: "run_state (do {
     destReg \<leftarrow> MapResult x;
     builtinNode \<leftarrow> EmitInstr (Ibuiltin bf rl (map_option (\<lambda>_. destReg) x) nd);
     TranslateExprs args rl builtinNode }) g1 = (ns, g')"
    by (rule site_bind0E [OF assms(1) [unfolded translateBuiltin_rtl_def] assms(2)]) (auto intro!: keep)
  obtain d g2 where 2: "run_state (MapResult x) g1 = (d, g2)" "site f V LN g1 g2" "site f V LN g2 g'"
      "same_stacks g1 g2" "grows {} g1 g2" and run2: "run_state (do {
     builtinNode \<leftarrow> EmitInstr (Ibuiltin bf rl (map_option (\<lambda>_. d) x) nd);
     TranslateExprs args rl builtinNode }) g2 = (ns, g')"
    by (rule site_bind0E [OF run1 1(3)]) (auto intro!: keep)
  obtain n g3 where 3: "run_state (EmitInstr (Ibuiltin bf rl (map_option (\<lambda>_. d) x) nd)) g2 = (n, g3)"
      "site f V LN g2 g3" "site f V LN g3 g'" "same_stacks g2 g3" "grows {} g2 g3"
      and run3: "run_state (TranslateExprs args rl n) g3 = (ns, g')"
    by (rule site_bind0E [OF run2 2(3)]) (auto intro!: keep)
  have t: "temp_regs V g1 rl" "length rl = length args" using fresh_temps [OF 1(1)] 1(2) by (auto simp: site_def)
  have "exprs_code f V args ns n rl"
    by (rule site_exprs [OF run3 3(3) temp_regs_grows [OF temp_regs_grows [OF t(1) 2(5,4)] 3(5,4)] t(2) ok])
  then show ?thesis using emitted_site [OF 3(1,2)] site_MapResult [OF 2(1,2)] by auto
qed

lemma from_top_rev: "0 \<le> i \<Longrightarrow> nat i < length xs \<Longrightarrow> from_top xs i = Some (rev xs ! nat i)"
proof -
  assume "0 \<le> i" "nat i < length xs"
  then have "nat (int (length xs) - 1 - i) = length xs - Suc (nat i)" by linarith
  with \<open>0 \<le> i\<close> \<open>nat i < length xs\<close> show ?thesis by (auto simp: from_top_def Let_def rev_nth)
qed

lemma tr_exit:
  assumes "run_state (translateExit i) g = (ns, g')" and "site f V LN g g'"
  shows "tr_stmt f V LN (Sexit i) ns nd (rev (exits g))"
proof -
  have "rtl_code f ns = Some (Inop (rev (exits g) ! nat i))" if "0 \<le> i" "nat i < length (exits g)"
  proof -
    have "run_state (EmitInstr (Inop (rev (exits g) ! nat i))) g = (ns, g')"
      using assms(1) from_top_rev [OF that] by (simp add: translateExit_def del: run_EmitInstr)
    then show ?thesis using assms(2) by (rule emitted_site)
  qed
  then show ?thesis by simp
qed

lemma tr_return:
  assumes "run_state (translateReturn v) g = (ns, g')" and "site f V LN g g'" and "stmt_ok (Sreturn v)"
  shows "tr_stmt f V LN (Sreturn v) ns nd ex"
proof (cases v)
  case None
  with assms(1,2) show ?thesis by (auto simp: translateReturn_def simp del: run_EmitInstr dest: emitted_site)
next
  case (Some e)
  with assms(1) have run: "run_state (do { r \<leftarrow> Fresh; n \<leftarrow> EmitInstr (Ireturn (Some r)); TranslateExpr e r n }) g = (ns, g')"
    by (simp add: translateReturn_def del: run_state_bind)
  note keep = keeps_bind0 keeps_TranslateExpr
  obtain r g1 where 1: "run_state Fresh g = (r, g1)" "site f V LN g1 g'"
      and run1: "run_state (do { n \<leftarrow> EmitInstr (Ireturn (Some r)); TranslateExpr e r n }) g1 = (ns, g')"
    by (rule site_bind0E [OF run assms(2)]) (auto intro!: keep)
  obtain n g2 where 2: "run_state (EmitInstr (Ireturn (Some r))) g1 = (n, g2)" "site f V LN g1 g2" "site f V LN g2 g'"
      "grows {} g1 g2" and run2: "run_state (TranslateExpr e r n) g2 = (ns, g')"
    by (rule site_bind0E [OF run1 1(2)]) (auto intro!: keep)
  have "r < nextReg g2" using 1(1) 2(4) by (auto simp: grows_def)
  then have "expr_code f V e ns n r" using site_expr [OF run2 2(3)] assms(3) Some by simp
  with Some emitted_site [OF 2(1,2)] show ?thesis by auto
qed

lemma tr_goto:
  assumes "run_state (translateGoto l) g = (ns, g')" and "site f V LN g g'"
  shows "tr_stmt f V LN (Sgoto l) ns nd ex"
proof -
  obtain n g1 where 1: "run_state (GetOrCreateLabel l) g = (n, g1)" "site f V LN g g1" "site f V LN g1 g'"
      and run1: "run_state (EmitInstr (Inop n)) g1 = (ns, g')"
    by (rule site_bind0E [OF assms(1) [unfolded translateGoto_def] assms(2)]) auto
  have "labelNodes g1 l = Some n" using GetOrCreateLabel_run(4) [OF 1(1)] 1(2) by (simp add: site_def placed_def)
  then have "LN l = Some n" using 1(2) by (force simp: site_def map_le_def)
  with emitted_site [OF run1 1(3)] show ?thesis by auto
qed

definition stmt_translates :: "rtl_function \<Rightarrow> (string \<rightharpoonup> reg) \<Rightarrow> (string \<rightharpoonup> node) \<Rightarrow> stmt \<Rightarrow> bool" where
  "stmt_translates f V LN s \<longleftrightarrow> (\<forall>nd g ns g'. run_state (TranslateStmt s nd) g = (ns, g') \<longrightarrow> site f V LN g g' \<longrightarrow>
     distinct (stmt_labels s) \<longrightarrow> (\<forall>l\<in>set (stmt_labels s). label_open g l) \<longrightarrow> stmt_ok s \<longrightarrow>
     tr_stmt f V LN s ns nd (rev (exits g)))"

definition cases_translate :: "rtl_function \<Rightarrow> (string \<rightharpoonup> reg) \<Rightarrow> (string \<rightharpoonup> node) \<Rightarrow> switchCase list \<Rightarrow> bool" where
  "cases_translate f V LN cs \<longleftrightarrow> (\<forall>isLong r els nd g ns g'. run_state (TranslateCases isLong r cs els nd) g = (ns, g') \<longrightarrow>
     site f V LN g g' \<longrightarrow> distinct (case_labels cs) \<longrightarrow> (\<forall>l\<in>set (case_labels cs). label_open g l) \<longrightarrow> cases_ok cs \<longrightarrow>
     tr_cases f V LN isLong r cs ns els nd (rev (exits g)))"

lemma stmt_translatesD:
  "stmt_translates f V LN s \<Longrightarrow> run_state (TranslateStmt s nd) g = (ns, g') \<Longrightarrow> site f V LN g g' \<Longrightarrow>
    distinct (stmt_labels s) \<Longrightarrow> \<forall>l\<in>set (stmt_labels s). label_open g l \<Longrightarrow> stmt_ok s \<Longrightarrow>
    tr_stmt f V LN s ns nd (rev (exits g))"
  by (simp add: stmt_translates_def)

lemma cases_translateD:
  "cases_translate f V LN cs \<Longrightarrow> run_state (TranslateCases isLong r cs els nd) g = (ns, g') \<Longrightarrow> site f V LN g g' \<Longrightarrow>
    distinct (case_labels cs) \<Longrightarrow> \<forall>l\<in>set (case_labels cs). label_open g l \<Longrightarrow> cases_ok cs \<Longrightarrow>
    tr_cases f V LN isLong r cs ns els nd (rev (exits g))"
  by (simp add: cases_translate_def)

lemma stmt_translatesI:
  assumes "\<And>nd g ns g'. run_state (TranslateStmt s nd) g = (ns, g') \<Longrightarrow> site f V LN g g' \<Longrightarrow> distinct (stmt_labels s) \<Longrightarrow>
    \<forall>l\<in>set (stmt_labels s). label_open g l \<Longrightarrow> stmt_ok s \<Longrightarrow> tr_stmt f V LN s ns nd (rev (exits g))"
  shows "stmt_translates f V LN s"
  using assms by (simp add: stmt_translates_def)

lemma tr_loop:
  assumes body: "stmt_translates f V LN a"
  shows "stmt_translates f V LN (Sloop a)"
proof (rule stmt_translatesI)
  fix nd g ns g'
  assume run: "run_state (TranslateStmt (Sloop a) nd) g = (ns, g')" and st: "site f V LN g g'"
    and lab: "distinct (stmt_labels (Sloop a))" "\<forall>l\<in>set (stmt_labels (Sloop a)). label_open g l"
    and ok: "stmt_ok (Sloop a)"
  define g1 where "g1 = g\<lparr>nextNode := nextNode g + 1\<rparr>"
  from run obtain x g2 where x: "ns = nextNode g" "run_state (TranslateStmt a ns) g1 = (x, g2)"
      "g' = g2\<lparr>code := (code g2)(ns \<mapsto> Inop x)\<rparr>"
    by (auto simp: g1_def split: prod.splits)
  have "wf_gen g" using st by (simp add: site_def placed_def)
  then have wf1: "wf_gen g1" "grows {} g g1" using keepsD [OF keeps_AllocNode run_AllocNode] by (auto simp: g1_def)
  have pend: "\<forall>l\<in>set (stmt_labels a). label_open g1 l" using lab(2) by (simp add: g1_def label_open_def)
  have "code g1 ns = None" "\<And>l. labelNodes g1 l \<noteq> Some ns"
    using \<open>wf_gen g\<close> by (auto simp: g1_def x(1) wf_gen_def)
  moreover have "grows (set (stmt_labels a)) g1 g2" by (rule keepsD(2) [OF keeps_TranslateStmt(1) x(2) wf1(1) pend]) (use lab(1) in simp)
  moreover have "ns < nextNode g1" by (simp add: g1_def x(1))
  ultimately have "code g2 ns = None" unfolding grows_def by blast
  then have "code g2 \<subseteq>\<^sub>m code g'" by (auto simp: x(3) map_le_def)
  then have "site f V LN g1 g2"
    using st wf1(1) by (auto simp: site_def placed_def x(3) g1_def intro: map_le_trans)
  with stmt_translatesD [OF body x(2) _ _ pend] lab(1) ok have "tr_stmt f V LN a x ns (rev (exits g))" by (simp add: g1_def)
  moreover have "rtl_code f ns = Some (Inop x)" using st by (auto simp: site_def placed_def x(3) map_le_def)
  ultimately show "tr_stmt f V LN (Sloop a) ns nd (rev (exits g))" by auto
qed

lemma tr_block:
  assumes body: "stmt_translates f V LN a"
  shows "stmt_translates f V LN (Sblock a)"
proof (rule stmt_translatesI)
  fix nd g ns g'
  assume run: "run_state (TranslateStmt (Sblock a) nd) g = (ns, g')" and st: "site f V LN g g'"
    and lab: "distinct (stmt_labels (Sblock a))" "\<forall>l\<in>set (stmt_labels (Sblock a)). label_open g l"
    and ok: "stmt_ok (Sblock a)"
  define g1 where "g1 = g\<lparr>exits := exits g @ [nd]\<rparr>"
  from run obtain g2 where x: "run_state (TranslateStmt a nd) g1 = (ns, g2)" "g' = g2\<lparr>exits := butlast (exits g2)\<rparr>"
    by (auto simp: g1_def split: prod.splits)
  have "site f V LN g1 g2" using st by (auto simp: site_def placed_def x(2) g1_def wf_gen_def)
  moreover have "\<forall>l\<in>set (stmt_labels a). label_open g1 l" using lab(2) by (simp add: g1_def label_open_def)
  ultimately show "tr_stmt f V LN (Sblock a) ns nd (rev (exits g))"
    using stmt_translatesD [OF body x(1)] lab(1) ok by (simp add: g1_def)
qed

lemma tr_label:
  assumes body: "stmt_translates f V LN a"
  shows "stmt_translates f V LN (Slabel l a)"
proof (rule stmt_translatesI)
  fix nd g ns g'
  assume run: "run_state (TranslateStmt (Slabel l a) nd) g = (ns, g')" and st: "site f V LN g g'"
    and lab: "distinct (stmt_labels (Slabel l a))" "\<forall>l\<in>set (stmt_labels (Slabel l a)). label_open g l"
    and ok: "stmt_ok (Slabel l a)"
  from run obtain g1 x g2 where x: "run_state (GetOrCreateLabel l) g = (ns, g1)"
      "run_state (TranslateStmt a nd) g1 = (x, g2)" "g' = g2\<lparr>code := (code g2)(ns \<mapsto> Inop x)\<rparr>"
    by (auto split: prod.splits)
  have wf: "wf_gen g" using st by (simp add: site_def placed_def)
  note L = GetOrCreateLabel_run [OF x(1) wf]
  have pend: "\<forall>l\<in>set (stmt_labels a). label_open g1 l" using L(2) lab(2) by (auto simp: grows_def)
  have grow: "grows (set (stmt_labels a)) g1 g2"
    by (rule keepsD(2) [OF keeps_TranslateStmt(1) x(2) L(1) pend]) (use lab(1) in simp)
  have "code g1 ns = None" "ns < nextNode g1" using L(1,4,6) lab(2) by (auto simp: wf_gen_def)
  moreover have "l' = l" if "labelNodes g1 l' = Some ns" for l'
    using that L(1,4) by (auto simp: wf_gen_def injective_map_def)
  moreover have "l \<notin> set (stmt_labels a)" using lab(1) by simp
  ultimately have "code g2 ns = None" using grow unfolding grows_def by blast
  then have "code g2 \<subseteq>\<^sub>m code g'" by (auto simp: x(3) map_le_def)
  then have "code g2 \<subseteq>\<^sub>m rtl_code f" using st map_le_trans by (fastforce simp: site_def placed_def)
  moreover have "V \<subseteq>\<^sub>m varToReg g1" using st L(2) map_le_trans by (fastforce simp: site_def placed_def grows_def)
  ultimately have site: "site f V LN g1 g2"
    using st L(1,3) by (simp add: site_def placed_def x(3) same_stacks_def)
  have "labelNodes g1 \<subseteq>\<^sub>m labelNodes g2" using grow by (simp add: grows_def)
  moreover have "labelNodes g2 \<subseteq>\<^sub>m LN" using st by (simp add: site_def x(3))
  ultimately have "LN l = Some ns" using L(4) map_le_Some by metis
  moreover have "tr_stmt f V LN a x nd (rev (exits g))" 
    using stmt_translatesD [OF body x(2) site _ pend] lab(1) ok L(3) by (simp add: same_stacks_def)
  moreover have "rtl_code f ns = Some (Inop x)" using st by (auto simp: site_def placed_def x(3) map_le_def)
  ultimately show "tr_stmt f V LN (Slabel l a) ns nd (rev (exits g))" by auto
qed

lemma tr_seq:
  assumes a: "stmt_translates f V LN a" and b: "stmt_translates f V LN b"
  shows "stmt_translates f V LN (Sseq a b)"
proof (rule stmt_translatesI)
  fix nd g ns g'
  assume run: "run_state (TranslateStmt (Sseq a b) nd) g = (ns, g')" and st: "site f V LN g g'"
    and lab: "distinct (stmt_labels (Sseq a b))" "\<forall>l\<in>set (stmt_labels (Sseq a b)). label_open g l" and ok: "stmt_ok (Sseq a b)"
  from lab(1) have d: "distinct (stmt_labels a)" "distinct (stmt_labels b)" "set (stmt_labels b) \<inter> set (stmt_labels a) = {}" by auto
  obtain n g1 where 1: "run_state (TranslateStmt b nd) g = (n, g1)" "site f V LN g g1" "site f V LN g1 g'"
      "\<forall>l\<in>set (stmt_labels a). label_open g1 l" "same_stacks g g1" and run: "run_state (TranslateStmt a n) g1 = (ns, g')"
    by (rule site_bindE [OF run [unfolded TranslateStmt.simps] st keeps_TranslateStmt(1) [OF d(2)] keeps_TranslateStmt(1) [OF d(1)] _ d(3)])
      (use lab(2) in auto)
  have "tr_stmt f V LN b n nd (rev (exits g))" using stmt_translatesD [OF b 1(1,2) d(2)] lab(2) ok by simp
  moreover have "tr_stmt f V LN a ns n (rev (exits g))" using stmt_translatesD [OF a run 1(3) d(1) 1(4)] ok 1(5) by (simp add: same_stacks_def)
  ultimately show "tr_stmt f V LN (Sseq a b) ns nd (rev (exits g))" by auto
qed

lemma tr_if:
  assumes a: "stmt_translates f V LN a" and b: "stmt_translates f V LN b"
  shows "stmt_translates f V LN (Sifthenelse c a b)"
proof (rule stmt_translatesI)
  fix nd g ns g'
  assume run: "run_state (TranslateStmt (Sifthenelse c a b) nd) g = (ns, g')" and st: "site f V LN g g'"
    and lab: "distinct (stmt_labels (Sifthenelse c a b))" "\<forall>l\<in>set (stmt_labels (Sifthenelse c a b)). label_open g l" and ok: "stmt_ok (Sifthenelse c a b)"
  from lab(1) have d: "distinct (stmt_labels a)" "distinct (stmt_labels b)" "set (stmt_labels a) \<inter> set (stmt_labels b) = {}" by auto
  have k: "maintains (set (stmt_labels b)) (do { n2 \<leftarrow> TranslateStmt b nd; TranslateCond c n1 n2 })" for n1
    by (intro keeps_bind_left keeps_TranslateStmt(1) d keeps_TranslateExpr)
  obtain n1 g1 where 1: "run_state (TranslateStmt a nd) g = (n1, g1)" "site f V LN g g1" "site f V LN g1 g'"
      "\<forall>l\<in>set (stmt_labels b). label_open g1 l" "same_stacks g g1"
      and run1: "run_state (do { n2 \<leftarrow> TranslateStmt b nd; TranslateCond c n1 n2 }) g1 = (ns, g')"
    by (rule site_bindE [OF run [unfolded TranslateStmt.simps] st keeps_TranslateStmt(1) [OF d(1)] k _ d(3)])
      (use lab(2) in auto)
  obtain n2 g2 where 2: "run_state (TranslateStmt b nd) g1 = (n2, g2)" "site f V LN g1 g2" "site f V LN g2 g'"
      and run2: "run_state (TranslateCond c n1 n2) g2 = (ns, g')"
    by (rule site_bindE [OF run1 1(3) keeps_TranslateStmt(1) [OF d(2)] keeps_TranslateExpr(3)]) (use 1(4) in auto)
  have "tr_stmt f V LN a n1 nd (rev (exits g))" using stmt_translatesD [OF a 1(1,2) d(1)] lab(2) ok by simp
  moreover have "tr_stmt f V LN b n2 nd (rev (exits g))" using stmt_translatesD [OF b 2(1,2) d(2) 1(4)] ok 1(5) by (simp add: same_stacks_def)
  moreover have "cond_code f V c ns n1 n2" using run2 2(3) ok by (auto simp: cond_code_def site_def)
  ultimately show "tr_stmt f V LN (Sifthenelse c a b) ns nd (rev (exits g))" by auto
qed

lemma tr_switch:
  assumes a: "cases_translate f V LN cs" and b: "stmt_translates f V LN d"
  shows "stmt_translates f V LN (Sswitch isLong e cs d)"
proof (rule stmt_translatesI)
  fix nd g ns g'
  assume run: "run_state (TranslateStmt (Sswitch isLong e cs d) nd) g = (ns, g')" and st: "site f V LN g g'"
    and lab: "distinct (stmt_labels (Sswitch isLong e cs d))" "\<forall>l\<in>set (stmt_labels (Sswitch isLong e cs d)). label_open g l" and ok: "stmt_ok (Sswitch isLong e cs d)"
  from lab(1) have d: "distinct (stmt_labels d)" "distinct (case_labels cs)" "set (stmt_labels d) \<inter> set (case_labels cs) = {}" by auto
  have k: "maintains (set (case_labels cs)) (do { n \<leftarrow> TranslateCases isLong r cs dn nd; TranslateExpr e r n })" for r dn
    by (intro keeps_bind_left keeps_TranslateStmt(2) d keeps_TranslateExpr)
  have k': "maintains (set (stmt_labels (Sswitch isLong e cs d)))
      (do { dn \<leftarrow> TranslateStmt d nd; n \<leftarrow> TranslateCases isLong r cs dn nd; TranslateExpr e r n })" for r
    by (rule keeps_bindD [OF keeps_TranslateStmt(1) [OF d(1)] k d(3)]) auto
  obtain r g1 where 1: "run_state Fresh g = (r, g1)" "site f V LN g g1" "site f V LN g1 g'" "same_stacks g g1" "grows {} g g1"
      "\<forall>l\<in>set (stmt_labels (Sswitch isLong e cs d)). label_open g1 l" and run1: "run_state (do {
        dn \<leftarrow> TranslateStmt d nd; n \<leftarrow> TranslateCases isLong r cs dn nd; TranslateExpr e r n }) g1 = (ns, g')"
    by (rule site_bindE [OF run [unfolded TranslateStmt.simps] st keeps_Fresh k']) (use lab(2) in auto)
  obtain dn g2 where 2: "run_state (TranslateStmt d nd) g1 = (dn, g2)" "site f V LN g1 g2" "site f V LN g2 g'"
      "same_stacks g1 g2" "grows (set (stmt_labels d)) g1 g2" "\<forall>l\<in>set (case_labels cs). label_open g2 l"
      and run2: "run_state (do { n \<leftarrow> TranslateCases isLong r cs dn nd; TranslateExpr e r n }) g2 = (ns, g')"
    by (rule site_bindE [OF run1 1(3) keeps_TranslateStmt(1) [OF d(1)] k _ d(3)]) (use 1(6) in auto)
  obtain n g3 where 3: "run_state (TranslateCases isLong r cs dn nd) g2 = (n, g3)" "site f V LN g2 g3" "site f V LN g3 g'"
      "grows (set (case_labels cs)) g2 g3" and run3: "run_state (TranslateExpr e r n) g3 = (ns, g')"
    by (rule site_bindE [OF run2 2(3) keeps_TranslateStmt(2) [OF d(2)] keeps_TranslateExpr(1)]) (use 2(6) in auto)
  have "r < nextReg g1" using 1(1) by auto
  moreover have "nextReg g1 \<le> nextReg g2" "nextReg g2 \<le> nextReg g3" using 2(5) 3(4) by (simp_all add: grows_def)
  moreover have "r \<notin> ran V" using 1(1,2) placed_ran [of V f g g1 r] by (auto simp: site_def)
  ultimately have r: "r < nextReg g3" "r \<notin> ran V" by auto
  have "tr_stmt f V LN d dn nd (rev (exits g))"
    using stmt_translatesD [OF b 2(1,2) d(1)] 1(4,6) ok by (simp add: same_stacks_def)
  moreover have "tr_cases f V LN isLong r cs n dn nd (rev (exits g))"
    using cases_translateD [OF a 3(1,2) d(2) 2(6)] ok 1(4) 2(4) by (simp add: same_stacks_def)
  moreover have "expr_code f V e ns n r" using site_expr [OF run3 3(3) r(1)] ok by simp
  ultimately show "tr_stmt f V LN (Sswitch isLong e cs d) ns nd (rev (exits g))" using r(2) by auto
qed

lemma tr_case:
  assumes a: "stmt_translates f V LN a" and b: "cases_translate f V LN cs"
  shows "cases_translate f V LN (SwitchCase v a # cs)"
  unfolding cases_translate_def
proof (intro allI impI)
  fix isLong r els nd g ns g'
  assume run: "run_state (TranslateCases isLong r (SwitchCase v a # cs) els nd) g = (ns, g')" and st: "site f V LN g g'"
    and lab: "distinct (case_labels (SwitchCase v a # cs))" "\<forall>l\<in>set (case_labels (SwitchCase v a # cs)). label_open g l"
    and ok: "cases_ok (SwitchCase v a # cs)"
  from lab(1) have d: "distinct (stmt_labels a)" "distinct (case_labels cs)" "set (case_labels cs) \<inter> set (stmt_labels a) = {}" by auto
  have k: "maintains (set (stmt_labels a)) (do { n1 \<leftarrow> TranslateStmt a nd; EmitInstr (Icond (switch_code isLong v) [r] n1 n2) })" for n2
    by (intro keeps_bind_left keeps_TranslateStmt(1) d keeps_EmitInstr)
  obtain n2 g1 where 1: "run_state (TranslateCases isLong r cs els nd) g = (n2, g1)" "site f V LN g g1" "site f V LN g1 g'"
      "same_stacks g g1" "\<forall>l\<in>set (stmt_labels a). label_open g1 l"
      and run1: "run_state (do { n1 \<leftarrow> TranslateStmt a nd; EmitInstr (Icond (switch_code isLong v) [r] n1 n2) }) g1 = (ns, g')"
    by (rule site_bindE [OF run [unfolded TranslateCases.simps] st keeps_TranslateStmt(2) [OF d(2)] k _ d(3)])
      (use lab(2) in auto)
  obtain n1 g2 where 2: "run_state (TranslateStmt a nd) g1 = (n1, g2)" "site f V LN g1 g2" "site f V LN g2 g'"
      and run2: "run_state (EmitInstr (Icond (switch_code isLong v) [r] n1 n2)) g2 = (ns, g')"
    by (rule site_bindE [OF run1 1(3) keeps_TranslateStmt(1) [OF d(1)] keeps_EmitInstr]) (use 1(5) in auto)
  have "tr_stmt f V LN a n1 nd (rev (exits g))" using stmt_translatesD [OF a 2(1,2) d(1) 1(5)] ok 1(4) by (simp add: same_stacks_def)
  moreover have "tr_cases f V LN isLong r cs n2 els nd (rev (exits g))" using cases_translateD [OF b 1(1,2) d(2)] lab(2) ok by simp
  ultimately show "tr_cases f V LN isLong r (SwitchCase v a # cs) ns els nd (rev (exits g))" using emitted_site [OF run2 2(3)] by auto
qed

lemma all_translate: "stmt_translates f V LN s" "cases_translate f V LN cs"
proof (induction s and cs rule: stmt_ok_cases_ok.induct)
  case 14
  then show ?case by (simp add: cases_translate_def)
next
  case "13_1"
  then show ?case by (auto intro!: stmt_translatesI)
qed (auto simp: tr_seq tr_if tr_loop tr_block tr_switch tr_label tr_case simp del: tr_stmt.simps
    intro!: stmt_translatesI intro: tr_assign tr_store tr_call tr_tailcall tr_builtin tr_exit tr_return tr_goto)

end
