(* ===== verification/RTLgenSim.thy ===== *)
theory RTLgenSim
  imports RTLgenStmt
begin

text \<open>
  Correctness of RTL generation: the graph of a function simulates its body, step by step. Statements that
  only rearrange the continuation take no step in the graph, hence the measure.
\<close>

section \<open>Evaluation of arguments and callees\<close>

lemma eval_exprs_append: "eval_exprs T E env m le (es @ fs) = do {
    vs \<leftarrow> eval_exprs T E env m le es;
    ws \<leftarrow> eval_exprs T E env m le fs;
    Some (vs @ ws) }"
  by (induction es) (auto split: Option.bind_splits)

lemma callee_cases:
  assumes "callee_ok e"
  obtains (direct) s where "e = Econst (Oaddrsymbol_cs s 0)" and "direct_callee e = Some s"
  | (pointer) "direct_callee e = None" and "\<And>T E env m. callee_value T E env m e = map_option FV_ptr (eval_expr T E env m [] e)"
proof (cases "\<exists>s n. e = Econst (Oaddrsymbol_cs s n)")
  case True
  then show ?thesis using assms direct by (auto simp: callee_ok_def direct_callee_def)
next
  case False
  then have "direct_callee e = None" "\<And>T E env m. callee_value T E env m e = map_option FV_ptr (eval_expr T E env m [] e)"
    by (auto simp: direct_callee_def callee_value_def split: expr.splits cs_const.splits)
  then show ?thesis by (rule pointer)
qed

lemma call_args_runs:
  assumes "call_args f V e args ns n fr rl" and "vars_match V env rs"
    and "callee_value T E env m e = Some fv" and "eval_exprs T E env m [] args = Some vs"
  obtains rs' where "runs T E f m ns rs n rs'" and "map rs' rl = vs" and "vars_match V env rs'"
    and "rtl_fun_value rs' (callee_ref e fr) = fv"
proof -
  have "callee_ok e" and len: "length rl = length args" using assms(1) by (auto simp: call_args_def)
  from \<open>callee_ok e\<close> show ?thesis
  proof (cases rule: callee_cases)
    case (direct s)
    then have "exprs_code f V args ns n rl" using assms(1) by (simp add: call_args_def)
    from exprs_code_runs [OF this assms(2,4)] that assms(3) direct show ?thesis
      by (auto simp: callee_value_def rtl_fun_value_def callee_ref_def)
  next
    case pointer
    with assms(3) obtain v where v: "eval_expr T E env m [] e = Some v" "fv = FV_ptr v" by auto
    have "exprs_code f V (args @ [e]) ns n (rl @ [fr])" using pointer(1) assms(1) by (simp add: call_args_def)
    moreover have "eval_exprs T E env m [] (args @ [e]) = Some (vs @ [v])"
      using assms(4) v(1) by (simp add: eval_exprs_append)
    ultimately obtain rs' where rs': "runs T E f m ns rs n rs'" "map rs' (rl @ [fr]) = vs @ [v]" "vars_match V env rs'"
      using exprs_code_runs [OF _ assms(2)] by metis
    have "length (map rs' rl) = length vs" using len eval_exprs_length [OF assms(4)] by simp
    with rs'(2) have "map rs' rl = vs" "rs' fr = v" by auto
    with that rs' v(2) pointer(1) show ?thesis by (auto simp: rtl_fun_value_def callee_ref_def)
  qed
qed

section \<open>Variables\<close>

lemma vars_match_upd:
  assumes "vars_match V env rs" and "injective_map V" and "V x = Some r" and "rs' r = v"
    and "\<And>q. q \<in> ran V \<Longrightarrow> q \<noteq> r \<Longrightarrow> rs' q = rs q"
  shows "vars_match V (env(x \<mapsto> v)) rs'"
  unfolding vars_match_def
proof (intro allI impI)
  fix y w assume y: "(env(x \<mapsto> v)) y = Some w"
  show "\<exists>r. V y = Some r \<and> rs' r = w"
  proof (cases "y = x")
    case False
    with y assms(1) obtain q where q: "V y = Some q" "rs q = w" by (auto simp: vars_match_def)
    with False assms(2,3) have "q \<noteq> r" by (auto simp: injective_map_def)
    with q assms(5) show ?thesis by (auto simp: ran_def)
  qed (use y assms(3,4) in auto)
qed

lemma vars_match_result:
  assumes "vars_match V env rs" and "injective_map V" and "\<forall>r\<in>ran V. r \<noteq> 0" and "result_reg V x d" and "declared x env"
  shows "vars_match V (assign_result x v env) (call_result d v rs)"
    and "vars_match V (assign_result x v env) (reg_result (map_option (\<lambda>_. d) x) v rs)"
proof -
  have "vars_match V (env(y \<mapsto> v)) (rs(r := v))" if "V y = Some r" for y r
    by (rule vars_match_upd [OF assms(1,2) that]) auto
  moreover have "d \<noteq> 0 \<and> V y = Some d" if xy: "x = Some y" for y
  proof -
    obtain r where "V y = Some r" using assms(1,5) xy by (auto simp: vars_match_def declared_def)
    then show ?thesis using assms(3,4) xy by (auto simp: result_reg_def ran_def)
  qed
  ultimately show "vars_match V (assign_result x v env) (call_result d v rs)"
      "vars_match V (assign_result x v env) (reg_result (map_option (\<lambda>_. d) x) v rs)"
    using assms(1,4) by (auto simp: assign_result_def call_result_def reg_result_def result_reg_def split: option.splits)
qed

section \<open>Switches\<close>

lemma switch_code_cond:
  "word_cond T (switch_code isLong v) [w] = Some (if isLong then w = of_int v else lo w = of_int v)"
  by (auto simp: switch_code_def signed_word_eqI)

lemma cases_run:
  "tr_cases f V LN isLong r cs n dn nd ex \<Longrightarrow> tr_stmt f V LN d dn nd ex \<Longrightarrow> rs r = Some w \<Longrightarrow>
    \<exists>n'. runs T E f m n rs n' rs \<and> tr_stmt f V LN (switch_target isLong w cs d) n' nd ex"
proof (induction isLong w cs d arbitrary: n rule: switch_target.induct)
  case (2 isLong w v a cs d)
  from 2(2) obtain n1 n2 where n: "rtl_code f n = Some (Icond (switch_code isLong v) [r] n1 n2)"
    "tr_stmt f V LN a n1 nd ex" "tr_cases f V LN isLong r cs n2 dn nd ex" by auto
  define t where "t \<longleftrightarrow> (if isLong then w = of_int v else lo w = of_int v)"
  have "sem_cond (word_sem T E) (switch_code isLong v) (map rs [r]) m = Some t"
    using 2(4) with_known_map [of "word_cond T (switch_code isLong v)" "[w]"] by (simp add: switch_code_cond t_def)
  then have step: "runs T E f m n rs (if t then n1 else n2) rs" by (intro runs_instr [OF n(1)] rtl_cond)
  show ?case
  proof (cases t)
    case True
    with step n(2) show ?thesis by (auto simp: t_def)
  next
    case False
    with 2(1) [OF _ n(3) 2(3,4)] step show ?thesis by (auto simp: t_def intro: runs_trans)
  qed
qed (auto intro: runs_refl)

lemma switch_target_size: "size (switch_target isLong w cs d) \<le> size_list size cs + size d"
  by (induction isLong w cs d rule: switch_target.induct) auto

section \<open>The simulation\<close>

fun cont_weight :: "cont \<Rightarrow> nat" where
  "cont_weight Kstop = 0"
| "cont_weight (Kseq s k) = 3 * size s + 2 + cont_weight k"
| "cont_weight (Kblock k) = cont_weight k + 1"

fun cs_measure :: "cs_state \<Rightarrow> nat" where
  "cs_measure (CStmt s k env m) = 3 * size s + (if s = Sskip then 0 else 1) + cont_weight k"
| "cs_measure (CFinal r) = 0"

text \<open>What the whole function contributes: its body, its exit node and the registers of its variables.\<close>

definition graph_ok :: "rtl_function \<Rightarrow> (string \<rightharpoonup> reg) \<Rightarrow> (string \<rightharpoonup> node) \<Rightarrow> stmt \<Rightarrow> bool" where
  "graph_ok f V LN body \<longleftrightarrow> injective_map V \<and> (\<forall>r\<in>ran V. r \<noteq> 0) \<and>
     (\<exists>ns nd. tr_stmt f V LN body ns nd [] \<and> tr_cont f V LN Kstop nd [])"

fun gen_match :: "rtl_function \<Rightarrow> (string \<rightharpoonup> reg) \<Rightarrow> (string \<rightharpoonup> node) \<Rightarrow> cs_state \<Rightarrow> (val, mem) rtl_state \<Rightarrow> bool" where
  "gen_match f V LN (CStmt s k env m) t \<longleftrightarrow> (\<exists>n rs nd ex. t = RNode n rs m \<and> tr_stmt f V LN s n nd ex \<and>
     tr_cont f V LN k nd ex \<and> vars_match V env rs)"
| "gen_match f V LN (CFinal r) t \<longleftrightarrow> t = RFinal r"

lemma gen_matchI:
  "tr_stmt f V LN s n nd ex \<Longrightarrow> tr_cont f V LN k nd ex \<Longrightarrow> vars_match V env rs \<Longrightarrow>
    gen_match f V LN (CStmt s k env m) (RNode n rs m)"
  by auto

text \<open>A step of the source is answered by some steps of the graph, by none only if the measure decreases.\<close>

definition answered :: "target \<Rightarrow> (val, mem) sem \<Rightarrow> rtl_function \<Rightarrow> (string \<rightharpoonup> reg) \<Rightarrow> (string \<rightharpoonup> node) \<Rightarrow> cs_state \<Rightarrow> cs_state \<Rightarrow> (val, mem) rtl_state \<Rightarrow> bool" where
  "answered T E f V LN s s' t \<longleftrightarrow> (\<exists>t'. (rtl_step (word_sem T E) f)\<^sup>+\<^sup>+ t t' \<and> gen_match f V LN s' t') \<or>
     (gen_match f V LN s' t \<and> cs_measure s' < cs_measure s)"

lemma answered_star:
  assumes "(rtl_step (word_sem T E) f)\<^sup>*\<^sup>* t t'" and "gen_match f V LN s' t'" and "cs_measure s' < cs_measure s"
  shows "answered T E f V LN s s' t"
  using assms by (auto simp: answered_def dest: rtranclpD)

lemma answered_instr:
  assumes "runs T E f m n rs n1 rs1" and "rtl_code f n1 = Some i" and "rtl_exec (word_sem T E) i rs1 m t'"
    and "gen_match f V LN s' t'"
  shows "answered T E f V LN s s' (RNode n rs m)"
proof -
  have "rtl_step (word_sem T E) f (RNode n1 rs1 m) t'" using assms(2,3) by simp
  then have "(rtl_step (word_sem T E) f)\<^sup>+\<^sup>+ (RNode n rs m) t'"
    using assms(1) unfolding runs_def by (rule rtranclp_into_tranclp1 [rotated])
  with assms(4) show ?thesis unfolding answered_def by blast
qed

lemma store_answered:
  assumes "tr_stmt f V LN (Sstore ch mode args e) n nd ex" and "tr_cont f V LN k nd ex" and "vars_match V env rs"
    and "eval_exprs T E env m [] args = Some vs" and "eval_expr T E env m [] e = Some v"
    and "sem_store (word_sem T E) ch mode vs v m = Some m'"
  shows "answered T E f V LN (CStmt (Sstore ch mode args e) k env m) (CStmt Sskip k env m') (RNode n rs m)"
proof -
  from assms(1) obtain rl r n1 where n1: "rtl_code f n1 = Some (Istore ch mode rl r nd)" "length rl = length args"
    "exprs_code f V (args @ [e]) n n1 (rl @ [r])" by auto
  have "eval_exprs T E env m [] (args @ [e]) = Some (vs @ [v])" using assms(4,5) by (simp add: eval_exprs_append)
  then obtain rs' where rs': "runs T E f m n rs n1 rs'" "map rs' (rl @ [r]) = vs @ [v]" "vars_match V env rs'"
    using exprs_code_runs [OF n1(3) assms(3)] by metis
  have "length (map rs' rl) = length vs" using n1(2) eval_exprs_length [OF assms(4)] by simp
  with rs'(2) have "map rs' rl = vs" "rs' r = v" by auto
  then have "rtl_exec (word_sem T E) (Istore ch mode rl r nd) rs' m (RNode nd rs' m')"
    using assms(6) by (intro rtl_store) simp
  then show ?thesis using assms(2) rs'(3) by (intro answered_instr [OF rs'(1) n1(1)]) auto
qed

lemma call_answered:
  assumes "graph_ok f V LN body" and "tr_stmt f V LN (Scall x sg e args) n nd ex" and "tr_cont f V LN k nd ex"
    and "vars_match V env rs" and "callee_value T E env m e = Some fv" and "eval_exprs T E env m [] args = Some vs"
    and "a = sem_arity E (the_sig sg) fv m" and "a \<le> length vs"
    and "sem_call E (the_sig sg) fv (take a vs) m = Some (v, m')" and "declared x env"
  shows "answered T E f V LN (CStmt (Scall x sg e args) k env m) (CStmt Sskip k (assign_result x v env) m') (RNode n rs m)"
proof -
  from assms(2) obtain rl fr d n1 where n1: "rtl_code f n1 = Some (Icall (the_sig sg) (callee_ref e fr) rl d nd)"
    "result_reg V x d" "call_args f V e args n n1 fr rl" by auto
  obtain rs' where rs': "runs T E f m n rs n1 rs'" "map rs' rl = vs" "vars_match V env rs'"
      "rtl_fun_value rs' (callee_ref e fr) = fv"
    by (rule call_args_runs [OF n1(3) assms(4,5,6)])
  have "rtl_exec (word_sem T E) (Icall (the_sig sg) (callee_ref e fr) rl d nd) rs' m (RNode nd (call_result d v rs') m')"
    by (rule rtl_call [where n = a]) (use assms(7-9) rs' in \<open>auto simp: take_map\<close>)
  moreover have "vars_match V (assign_result x v env) (call_result d v rs')"
    using assms(1) by (intro vars_match_result rs'(3) n1(2) assms(10)) (auto simp: graph_ok_def)
  ultimately show ?thesis using assms(3) by (intro answered_instr [OF rs'(1) n1(1)]) auto
qed

lemma tailcall_answered:
  assumes "tr_stmt f V LN (Stailcall sg e args) n nd ex" and "vars_match V env rs"
    and "callee_value T E env m e = Some fv" and "eval_exprs T E env m [] args = Some vs"
    and "a = sem_arity E (the_sig sg) fv m" and "a \<le> length vs"
  shows "answered T E f V LN (CStmt (Stailcall sg e args) k env m) (CFinal (Tailcalled (the_sig sg) fv (take a vs) m)) (RNode n rs m)"
proof -
  from assms(1) obtain rl fr n1 where n1: "rtl_code f n1 = Some (Itailcall (the_sig sg) (callee_ref e fr) rl)"
    "call_args f V e args n n1 fr rl" by auto
  obtain rs' where rs': "runs T E f m n rs n1 rs'" "map rs' rl = vs" "rtl_fun_value rs' (callee_ref e fr) = fv"
    by (rule call_args_runs [OF n1(2) assms(2,3,4)])
  have "a = sem_arity (word_sem T E) (the_sig sg) (rtl_fun_value rs' (callee_ref e fr)) m" "a \<le> length rl"
    using assms(5,6) rs' by auto
  from rtl_tailcall [OF this] have "rtl_exec (word_sem T E) (Itailcall (the_sig sg) (callee_ref e fr) rl) rs' m
      (RFinal (Tailcalled (the_sig sg) fv (take a vs) m))"
    using rs'(2,3) by (simp add: take_map [symmetric])
  then show ?thesis by (intro answered_instr [OF rs'(1) n1(1)]) auto
qed

lemma builtin_answered:
  assumes "graph_ok f V LN body" and "tr_stmt f V LN (Sbuiltin x bf args) n nd ex" and "tr_cont f V LN k nd ex"
    and "vars_match V env rs" and "eval_exprs T E env m [] args = Some vs"
    and "sem_builtin E bf vs m = Some (v, m')" and "declared x env"
  shows "answered T E f V LN (CStmt (Sbuiltin x bf args) k env m) (CStmt Sskip k (assign_result x v env) m') (RNode n rs m)"
proof -
  from assms(2) obtain rl d n1 where n1: "rtl_code f n1 = Some (Ibuiltin bf rl (map_option (\<lambda>_. d) x) nd)"
    "result_reg V x d" "exprs_code f V args n n1 rl" by auto
  obtain rs' where rs': "runs T E f m n rs n1 rs'" "map rs' rl = vs" "vars_match V env rs'"
    by (rule exprs_code_runs [OF n1(3) assms(4,5)])
  have "rtl_exec (word_sem T E) (Ibuiltin bf rl (map_option (\<lambda>_. d) x) nd) rs' m
      (RNode nd (reg_result (map_option (\<lambda>_. d) x) v rs') m')"
    using assms(6) rs'(2) by (intro rtl_builtin) simp
  moreover have "vars_match V (assign_result x v env) (reg_result (map_option (\<lambda>_. d) x) v rs')"
    using assms(1) by (intro vars_match_result rs'(3) n1(2) assms(7)) (auto simp: graph_ok_def)
  ultimately show ?thesis using assms(3) by (intro answered_instr [OF rs'(1) n1(1)]) auto
qed

lemma assign_answered:
  assumes "graph_ok f V LN body" and "tr_stmt f V LN (Sassign x e) n nd ex" and "tr_cont f V LN k nd ex"
    and "vars_match V env rs" and "eval_expr T E env m [] e = Some v" and "declared (Some x) env"
  shows "answered T E f V LN (CStmt (Sassign x e) k env m) (CStmt Sskip k (env(x \<mapsto> v)) m) (RNode n rs m)"
proof -
  obtain r where r: "V x = Some r" using assms(4,6) by (auto simp: vars_match_def declared_def)
  with assms(2) have "expr_code f V e n nd r" by simp
  from expr_code_runs [OF this assms(4,5)] obtain rs' where rs': "runs T E f m n rs nd rs'" "rs' r = v"
    "\<And>q. q \<in> ran V \<Longrightarrow> q \<noteq> r \<Longrightarrow> rs' q = rs q" by blast
  have "vars_match V (env(x \<mapsto> v)) rs'"
    by (rule vars_match_upd [OF assms(4) _ r rs'(2,3)]) (use assms(1) in \<open>auto simp: graph_ok_def\<close>)
  then show ?thesis
    by (intro answered_star [OF rs'(1) [unfolded runs_def]]) (use assms(3) in auto)
qed

lemma cond_answered:
  assumes "tr_stmt f V LN (Sifthenelse c a b) n nd ex" and "tr_cont f V LN k nd ex" and "vars_match V env rs"
    and "eval_cond T E env m [] c = Some t"
  shows "answered T E f V LN (CStmt (Sifthenelse c a b) k env m) (CStmt (if t then a else b) k env m) (RNode n rs m)"
proof -
  from assms(1) obtain n1 n2 where n: "cond_code f V c n n1 n2" "tr_stmt f V LN a n1 nd ex" "tr_stmt f V LN b n2 nd ex"
    by auto
  obtain rs' where rs': "runs T E f m n rs (if t then n1 else n2) rs'" "vars_match V env rs'"
    by (rule cond_code_runs [OF n(1) assms(3,4)])
  have "gen_match f V LN (CStmt (if t then a else b) k env m) (RNode (if t then n1 else n2) rs' m)"
    using n assms(2) rs'(2) by auto
  then show ?thesis by (intro answered_star [OF rs'(1) [unfolded runs_def]]) auto
qed

lemma switch_answered:
  assumes "tr_stmt f V LN (Sswitch isLong e cs d) n nd ex" and "tr_cont f V LN k nd ex" and "vars_match V env rs"
    and "eval_expr T E env m [] e = Some (Some w)"
  shows "answered T E f V LN (CStmt (Sswitch isLong e cs d) k env m) (CStmt (switch_target isLong w cs d) k env m) (RNode n rs m)"
proof -
  from assms(1) obtain r n1 dn where n: "expr_code f V e n n1 r" "r \<notin> ran V" "tr_cases f V LN isLong r cs n1 dn nd ex"
    "tr_stmt f V LN d dn nd ex" by auto
  from expr_code_runs [OF n(1) assms(3,4)] obtain rs' where rs': "runs T E f m n rs n1 rs'" "rs' r = Some w"
    "\<And>q. q \<in> ran V \<Longrightarrow> q \<noteq> r \<Longrightarrow> rs' q = rs q" by blast
  have vm: "vars_match V env rs'" unfolding vars_match_def
  proof (intro allI impI)
    fix x v assume "env x = Some v"
    with assms(3) obtain q where "V x = Some q" "rs q = v" by (auto simp: vars_match_def)
    then show "\<exists>r. V x = Some r \<and> rs' r = v" using rs'(3) [of q] n(2) by (auto simp: ran_def)
  qed
  from cases_run [where T = T and E = E and m = m and rs = rs' and w = w, OF n(3,4)] rs'(2) obtain n2 where
    n2: "runs T E f m n1 rs' n2 rs'" "tr_stmt f V LN (switch_target isLong w cs d) n2 nd ex" by blast
  have "cs_measure (CStmt (switch_target isLong w cs d) k env m) < cs_measure (CStmt (Sswitch isLong e cs d) k env m)"
    using switch_target_size [of isLong w cs d] by simp
  then show ?thesis
    by (intro answered_star [OF runs_trans [OF rs'(1) n2(1), unfolded runs_def]]) (use assms(2) n2(2) vm in auto)
qed

lemma return_answered:
  assumes "tr_stmt f V LN (Sreturn (Some e)) n nd ex" and "vars_match V env rs" and "eval_expr T E env m [] e = Some v"
  shows "answered T E f V LN (CStmt (Sreturn (Some e)) k env m) (CFinal (Returned v m)) (RNode n rs m)"
proof -
  from assms(1) obtain r n1 where n1: "rtl_code f n1 = Some (Ireturn (Some r))" "expr_code f V e n n1 r" by auto
  from expr_code_runs [OF n1(2) assms(2,3)] obtain rs' where rs': "runs T E f m n rs n1 rs'" "rs' r = v" by blast
  then show ?thesis
    using rtl_return [of "word_sem T E" r rs' m] by (intro answered_instr [OF rs'(1) n1(1)]) auto
qed

lemma goto_answered:
  assumes "graph_ok f V LN body" and "tr_stmt f V LN (Sgoto l) n nd ex" and "vars_match V env rs"
    and "cs_find_label l body Kstop = Some (a, k')"
  shows "answered T E f V LN (CStmt (Sgoto l) k env m) (CStmt a k' env m) (RNode n rs m)"
proof -
  from assms(1) obtain ns nd' where "tr_stmt f V LN body ns nd' []" "tr_cont f V LN Kstop nd' []" by (auto simp: graph_ok_def)
  from cs_find_label_tr(1) [OF assms(4) this] assms(2) obtain n1 n2 nd2 ex2 where
    n: "rtl_code f n = Some (Inop n1)" "rtl_code f n1 = Some (Inop n2)" "tr_stmt f V LN a n2 nd2 ex2" "tr_cont f V LN k' nd2 ex2"
    by (auto simp: label_code_def)
  have "runs T E f m n rs n1 rs" by (rule runs_instr [OF n(1)]) (rule rtl_nop)
  then show ?thesis by (rule answered_instr [OF _ n(2) rtl_nop]) (use n assms(3) in auto)
qed

lemma gen_step:
  assumes ok: "graph_ok f V LN body" and "gen_match f V LN s t" and "cs_step T E body s s'"
  shows "answered T E f V LN s s' t"
  using assms(3,2)
proof (cases rule: cs_step.cases)
  case (cs_skip_stop env m)
  with assms(2) obtain n rs where t: "t = RNode n rs m" "rtl_code f n = Some (Ireturn None)" by auto
  have "rtl_exec (word_sem T E) (Ireturn None) rs m (RFinal (Returned None m))"
    using rtl_return_void [of "word_sem T E" rs m] by simp
  then show ?thesis unfolding t(1) cs_skip_stop using t(2) by (intro answered_instr [OF runs_refl]) auto
next
  case (cs_loop a k env m)
  with assms(2) obtain n rs nd ex n1 where t: "t = RNode n rs m" "rtl_code f n = Some (Inop n1)" "tr_stmt f V LN a n1 n ex"
      "tr_cont f V LN k nd ex" "vars_match V env rs" "tr_stmt f V LN (Sloop a) n nd ex" by auto
  then show ?thesis unfolding t(1) cs_loop by (intro answered_instr [OF runs_refl t(2) rtl_nop]) auto
next
  case (cs_exit_block k env m)
  with assms(2) obtain n rs nd ex where t: "t = RNode n rs m" "rtl_code f n = Some (Inop nd)" "tr_cont f V LN k nd ex"
      "vars_match V env rs" by auto
  then show ?thesis unfolding t(1) cs_exit_block by (intro answered_instr [OF runs_refl t(2) rtl_nop]) auto
next
  case (cs_return_void k env m)
  with assms(2) obtain n rs where t: "t = RNode n rs m" "rtl_code f n = Some (Ireturn None)" by auto
  have "rtl_exec (word_sem T E) (Ireturn None) rs m (RFinal (Returned None m))"
    using rtl_return_void [of "word_sem T E" rs m] by simp
  then show ?thesis unfolding t(1) cs_return_void using t(2) by (intro answered_instr [OF runs_refl]) auto
next
  case (cs_label l a k env m)
  with assms(2) obtain n rs nd ex n1 where t: "t = RNode n rs m" "rtl_code f n = Some (Inop n1)" "tr_stmt f V LN a n1 nd ex"
      "tr_cont f V LN k nd ex" "vars_match V env rs" by auto
  then show ?thesis unfolding t(1) cs_label by (intro answered_instr [OF runs_refl t(2) rtl_nop]) auto
next
  case (cs_ifthenelse env m c b a1 a2 k)
  with assms(2) obtain n rs nd ex where t: "t = RNode n rs m" "tr_stmt f V LN (Sifthenelse c a1 a2) n nd ex"
      "tr_cont f V LN k nd ex" "vars_match V env rs" by (auto simp del: tr_stmt.simps)
  from cond_answered [OF t(2-4) cs_ifthenelse(3)] show ?thesis unfolding t(1) cs_ifthenelse(1,2) .
next
  case (cs_seq a b k env m)
  with assms(2) show ?thesis by (fastforce simp: answered_def)
next
  case (cs_exit_outer i k env m)
  with assms(2) obtain n rs nd ex where t: "t = RNode n rs m" "tr_stmt f V LN (Sexit i) n nd (nd # ex)" "tr_cont f V LN k nd ex"
      "vars_match V env rs" by (auto simp del: tr_stmt.simps)
  have "nat i = Suc (nat (i - 1))" using cs_exit_outer(3) by linarith
  then have "(nd # ex) ! nat i = ex ! nat (i - 1)" by simp
  with t(2) cs_exit_outer(3) have "tr_stmt f V LN (Sexit (i - 1)) n nd ex" by (auto simp: nat_diff_distrib)
  with t cs_exit_outer show ?thesis by (auto simp: answered_def simp del: tr_stmt.simps)
next
  case (cs_exit_seq i b k env m)
  with assms(2) have "gen_match f V LN s' t" by fastforce
  with cs_exit_seq show ?thesis by (simp add: answered_def)
next
  case (cs_block a k env m)
  with assms(2) have "gen_match f V LN s' t" by fastforce
  with cs_block show ?thesis by (simp add: answered_def)
next
  case (cs_skip_seq b k env m)
  with assms(2) have "gen_match f V LN s' t" by fastforce
  with cs_skip_seq show ?thesis by (simp add: answered_def)
next
  case (cs_skip_block k env m)
  with assms(2) have "gen_match f V LN s' t" by fastforce
  with cs_skip_block show ?thesis by (simp add: answered_def)
qed (use ok in \<open>auto simp del: tr_stmt.simps
      simp: assign_answered store_answered call_answered tailcall_answered builtin_answered
        switch_answered return_answered goto_answered\<close>)

interpretation rtlgen: fsim "cs_step T E body" cs_final "rtl_step (word_sem T E) f" "rtl_final (word_sem T E) False"
    "\<lambda>s t. graph_ok f V LN body \<and> gen_match f V LN s t" cs_measure for T E body f V LN
proof unfold_locales
  fix s t s' assume "graph_ok f V LN body \<and> gen_match f V LN s t" "cs_step T E body s s'"
  then have "answered T E f V LN s s' t" using gen_step by blast
  then show "(\<exists>t'. (rtl_step (word_sem T E) f)\<^sup>+\<^sup>+ t t' \<and> graph_ok f V LN body \<and> gen_match f V LN s' t') \<or>
      (graph_ok f V LN body \<and> gen_match f V LN s' t) \<and> cs_measure s' < cs_measure s"
    using \<open>graph_ok f V LN body \<and> _\<close> unfolding answered_def by blast
next
  fix s t r assume "graph_ok f V LN body \<and> gen_match f V LN s t" "cs_final s r"
  moreover have "hide False u r = r" for u :: val by (cases r) simp_all
  ultimately show "\<exists>t'. (rtl_step (word_sem T E) f)\<^sup>*\<^sup>* t t' \<and> rtl_final (word_sem T E) False t' r"
    by (cases s) auto
qed

section \<open>Functions\<close>

definition cs_fun_ok :: "cs_function \<Rightarrow> bool" where
  "cs_fun_ok F \<longleftrightarrow> distinct (cs_params F) \<and> distinct (stmt_labels (cs_body F)) \<and> stmt_ok (cs_body F)"

lemma MapParams_run:
  "distinct xs \<Longrightarrow> \<forall>x\<in>set xs. varToReg g x = None \<Longrightarrow> wf_gen g \<Longrightarrow> rl = regs_from (nextReg g) (length xs) \<Longrightarrow>
    g' = g\<lparr>nextReg := nextReg g + int (length xs), varToReg := (varToReg g)(xs [\<mapsto>] rl)\<rparr> \<Longrightarrow>
    run_state (MapParams xs) g = (rl, g') \<and> wf_gen g'"
proof (induction xs arbitrary: g rl)
  case (Cons x xs)
  define g1 where "g1 = g\<lparr>nextReg := nextReg g + 1, varToReg := (varToReg g)(x \<mapsto> nextReg g)\<rparr>"
  define rl1 where "rl1 = regs_from (nextReg g1) (length xs)"
  have "run_state (MapVar x) g = (nextReg g, g1)" using Cons(3) by (simp add: run_MapVar g1_def)
  from keepsD(1) [OF keeps_MapVar this Cons(4)] have g1: "wf_gen g1" by simp
  have xs: "distinct xs" "\<forall>y\<in>set xs. varToReg g1 y = None" using Cons(2,3) by (auto simp: g1_def)
  have rl: "rl = nextReg g # rl1" and g': "g' = g1\<lparr>nextReg := nextReg g1 + int (length xs), varToReg := (varToReg g1)(xs [\<mapsto>] rl1)\<rparr>"
    using Cons(5,6) by (simp_all add: rl1_def g1_def add_ac)
  have "run_state (MapParams (x # xs)) g = (case run_state (MapParams xs) g1 of (rs, h) \<Rightarrow> (nextReg g # rs, h))"
    by (simp add: SetVar_def g1_def)
  with Cons.IH [OF xs g1 rl1_def g'] rl show ?case by simp
qed simp

text \<open>New variables get new registers; nothing else changes.\<close>

definition vars_added :: "translator \<Rightarrow> translator \<Rightarrow> bool" where
  "vars_added g g' \<longleftrightarrow> wf_gen g' \<and> nextReg g \<le> nextReg g' \<and> varToReg g \<subseteq>\<^sub>m varToReg g' \<and>
     (\<forall>x r. varToReg g x = None \<longrightarrow> varToReg g' x = Some r \<longrightarrow> nextReg g \<le> r) \<and>
     nextNode g' = nextNode g \<and> code g' = code g \<and> labelNodes g' = labelNodes g \<and> same_stacks g g'"

lemma MapVar_added:
  assumes "run_state (MapVar x) g = (r, g')" and "wf_gen g"
  shows "vars_added g g'" and "varToReg g' x \<noteq> None"
proof -
  have "wf_gen g'" "grows {} g g'" "same_stacks g g'" using keepsD [OF keeps_MapVar assms] by auto
  then show "vars_added g g'" "varToReg g' x \<noteq> None"
    using assms(1) by (auto simp: vars_added_def grows_def run_MapVar split: option.splits if_splits)
qed

lemma vars_added_trans:
  assumes "vars_added g g1" and "vars_added g1 g2"
  shows "vars_added g g2"
proof -
  have "nextReg g \<le> r" if "varToReg g x = None" "varToReg g2 x = Some r" for x r
  proof (cases "varToReg g1 x")
    case None
    with assms that show ?thesis unfolding vars_added_def by force
  next
    case (Some q)
    then have "varToReg g2 x = Some q" using assms(2) map_le_Some unfolding vars_added_def by metis
    with Some that assms(1) show ?thesis by (simp add: vars_added_def)
  qed
  with assms show ?thesis by (auto simp: vars_added_def same_stacks_def intro: map_le_trans)
qed

lemma MapVars_added:
  "run_state (MapVars xs) g = (rl, g') \<Longrightarrow> wf_gen g \<Longrightarrow> vars_added g g' \<and> (\<forall>x\<in>set xs. varToReg g' x \<noteq> None)"
proof (induction xs arbitrary: g rl)
  case (Cons x xs)
  from Cons(2) obtain r g1 rl' where run: "run_state (MapVar x) g = (r, g1)" "run_state (MapVars xs) g1 = (rl', g')"
    by (auto split: prod.splits)
  note 1 = MapVar_added [OF run(1) Cons(3)]
  have 2: "vars_added g1 g'" "\<forall>x\<in>set xs. varToReg g' x \<noteq> None"
    using Cons.IH [OF run(2)] 1(1) by (auto simp: vars_added_def)
  moreover have "varToReg g' x \<noteq> None" using 1(2) 2(1) map_le_Some unfolding vars_added_def by (metis not_None_eq)
  ultimately show ?case using vars_added_trans [OF 1(1)] by auto
qed (auto simp: vars_added_def same_stacks_def)

lemma init_regs_at:
  "distinct rl \<Longrightarrow> length rl = length vs \<Longrightarrow> i < length vs \<Longrightarrow> init_regs u rl vs (rl ! i) = vs ! i"
proof (induction u rl vs arbitrary: i rule: init_regs.induct)
  case (1 u r rs v vs)
  then show ?case by (cases i) auto
qed auto

lemma init_regs_other: "r \<notin> set rl \<Longrightarrow> init_regs u rl vs r = u"
  by (induction u rl vs rule: init_regs.induct) auto

lemma NewTranslator_wf: "wf_gen NewTranslator"
  by (simp add: NewTranslator_def wf_gen_def injective_map_def)

text \<open>
  The state in which the body is translated: the parameters have the first registers, in order, every
  declared variable has a register, and node 1 returns.
\<close>

lemma generate_start:
  assumes "distinct (cs_params F)"
  obtains g rl n g' where "TranslateFunction F = \<lparr>rtl_name = cs_name F, rtl_sig = cs_sig F, rtl_params = rl,
      rtl_stacksize = cs_stackspace F, rtl_code = code g', rtl_entry = n\<rparr>"
    and "run_state (TranslateStmt (cs_body F) 1) g = (n, g')" and "wf_gen g" and "code g = [1 \<mapsto> Ireturn None]"
    and "labelNodes g = Map.empty" and "letBindings g = []" and "exits g = []"
    and "rl = regs_from 1 (length (cs_params F))"
    and "[cs_params F [\<mapsto>] rl] \<subseteq>\<^sub>m varToReg g" and "\<forall>x\<in>set (cs_vars F). varToReg g x \<noteq> None"
    and "\<forall>x r. x \<notin> set (cs_params F) \<longrightarrow> varToReg g x = Some r \<longrightarrow> r \<notin> set rl"
proof -
  define rl where "rl = regs_from 1 (length (cs_params F))"
  define g1 where "g1 = NewTranslator\<lparr>nextReg := 1 + int (length (cs_params F)), varToReg := [cs_params F [\<mapsto>] rl]\<rparr>"
  have 1: "run_state (MapParams (cs_params F)) NewTranslator = (rl, g1)" "wf_gen g1"
    using MapParams_run [OF assms _ NewTranslator_wf] by (auto simp: NewTranslator_def rl_def g1_def)
  obtain vl g2 where 2: "run_state (MapVars (cs_vars F)) g1 = (vl, g2)" by force
  have g2: "vars_added g1 g2" "\<forall>x\<in>set (cs_vars F). varToReg g2 x \<noteq> None" using MapVars_added [OF 2 1(2)] by auto
  have n2: "nextNode g2 = 1" "code g2 = Map.empty" "labelNodes g2 = Map.empty" "letBindings g2 = []" "exits g2 = []"
    using g2(1) by (simp_all add: vars_added_def same_stacks_def g1_def NewTranslator_def)
  define g where "g = g2\<lparr>stackSize := cs_stackspace F, nextNode := 2, code := [1 \<mapsto> Ireturn None]\<rparr>"
  obtain n g' where run: "run_state (TranslateStmt (cs_body F) 1) g = (n, g')" by force
  show ?thesis
  proof (rule that [of rl g' n g])
    show "TranslateFunction F = \<lparr>rtl_name = cs_name F, rtl_sig = cs_sig F, rtl_params = rl,
        rtl_stacksize = cs_stackspace F, rtl_code = code g', rtl_entry = n\<rparr>"
      using 1(1) 2 run n2 by (simp add: TranslateFunction_def generate_def SetStackSize_def g_def)
    have "wf_gen g2" using g2(1) by (simp add: vars_added_def)
    then show "wf_gen g" using n2 by (auto simp: g_def wf_gen_def)
    show "[cs_params F [\<mapsto>] rl] \<subseteq>\<^sub>m varToReg g" using g2(1) by (simp add: g_def vars_added_def g1_def)
    show "\<forall>x r. x \<notin> set (cs_params F) \<longrightarrow> varToReg g x = Some r \<longrightarrow> r \<notin> set rl"
    proof (intro allI impI)
      fix x r assume "x \<notin> set (cs_params F)" "varToReg g x = Some r"
      moreover from this have "varToReg g1 x = None" by (simp add: g1_def)
      ultimately have "nextReg g1 \<le> r" using g2(1) by (simp add: g_def vars_added_def)
      then show "r \<notin> set rl" by (simp add: g1_def rl_def)
    qed
  qed (use run n2 g2(2) in \<open>simp_all add: g_def rl_def\<close>)
qed

lemma map_upds_nth:
  assumes "distinct xs" and "length ys = length xs" and "i < length xs" and "x = xs ! i" and "y = ys ! i"
  shows "[xs [\<mapsto>] ys] x = Some y"
proof -
  have "distinct (map fst (rev (zip xs ys)))" using assms(1,2) by (simp add: rev_map [symmetric])
  then have "map_of (rev (zip xs ys)) x = Some y \<longleftrightarrow> (x, y) \<in> set (rev (zip xs ys))" by (rule map_of_eq_Some_iff)
  then show ?thesis using assms by (auto simp: map_upds_def in_set_zip)
qed

lemma init_match:
  assumes "distinct (cs_params F)" and "length vs = length (cs_params F)"
    and "rl = regs_from 1 (length (cs_params F))" and "[cs_params F [\<mapsto>] rl] \<subseteq>\<^sub>m V" and "\<forall>x\<in>set (cs_vars F). V x \<noteq> None"
    and "\<forall>x r. x \<notin> set (cs_params F) \<longrightarrow> V x = Some r \<longrightarrow> r \<notin> set rl"
  shows "vars_match V (cs_init_env F vs) (init_regs None rl vs)"
  unfolding vars_match_def
proof (intro allI impI)
  fix x v assume *: "cs_init_env F vs x = Some v"
  show "\<exists>r. V x = Some r \<and> init_regs None rl vs r = v"
  proof (cases "x \<in> set (cs_params F)")
    case True
    then obtain i where i: "i < length (cs_params F)" "x = cs_params F ! i" by (auto simp: in_set_conv_nth)
    have "[cs_params F [\<mapsto>] rl] x = Some (rl ! i)"
      using i assms(1,3) by (intro map_upds_nth) simp_all
    then have "V x = Some (rl ! i)" using assms(4) map_le_Some by metis
    moreover have "v = vs ! i" using * i assms(1,2) by (simp add: cs_init_env_def map_of_zip_upt)
    ultimately show ?thesis using i assms(2,3) by (auto intro: init_regs_at)
  next
    case False
    with * have x: "x \<in> set (cs_vars F)" "v = None" by (auto simp: cs_init_env_def split: if_splits)
    with assms(5) obtain r where "V x = Some r" by auto
    with False x(2) assms(6) show ?thesis by (auto simp: init_regs_other)
  qed
qed

lemma generated_graph_ok:
  assumes "cs_fun_ok F" and "length vs = length (cs_params F)"
  obtains V LN where "graph_ok (TranslateFunction F) V LN (cs_body F)"
    and "gen_match (TranslateFunction F) V LN (CStmt (cs_body F) Kstop (cs_init_env F vs) m)
      (RNode (rtl_entry (TranslateFunction F)) (init_regs None (rtl_params (TranslateFunction F)) vs) m)"
proof -
  have ok: "distinct (cs_params F)" "distinct (stmt_labels (cs_body F))" "stmt_ok (cs_body F)"
    using assms(1) by (simp_all add: cs_fun_ok_def)
  obtain g rl n g' where f: "TranslateFunction F = \<lparr>rtl_name = cs_name F, rtl_sig = cs_sig F, rtl_params = rl,
      rtl_stacksize = cs_stackspace F, rtl_code = code g', rtl_entry = n\<rparr>"
    and run: "run_state (TranslateStmt (cs_body F) 1) g = (n, g')" and wf: "wf_gen g" and c: "code g = [1 \<mapsto> Ireturn None]"
    and g: "labelNodes g = Map.empty" "letBindings g = []" "exits g = []"
    and V: "rl = regs_from 1 (length (cs_params F))" "[cs_params F [\<mapsto>] rl] \<subseteq>\<^sub>m varToReg g" "\<forall>x\<in>set (cs_vars F). varToReg g x \<noteq> None"
      "\<forall>x r. x \<notin> set (cs_params F) \<longrightarrow> varToReg g x = Some r \<longrightarrow> r \<notin> set rl"
    by (rule generate_start [OF ok(1)])
  have pend: "\<forall>l\<in>set (stmt_labels (cs_body F)). label_open g l" using g(1) by (simp add: label_open_def)
  have grow: "grows (set (stmt_labels (cs_body F))) g g'" by (rule keepsD(2) [OF keeps_TranslateStmt(1) [OF ok(2)] run wf pend])
  have site: "site (TranslateFunction F) (varToReg g) (labelNodes g') g g'"
    using wf g(2) by (simp add: site_def placed_def f)
  have tr: "tr_stmt (TranslateFunction F) (varToReg g) (labelNodes g') (cs_body F) n 1 []"
    using stmt_translatesD [OF all_translate(1) run site ok(2) pend ok(3)] g(3) by simp
  have "code g' 1 = Some (Ireturn None)" using grow c map_le_Some [of "code g" "code g'" 1] by (simp add: grows_def)
  then have stop: "tr_cont (TranslateFunction F) (varToReg g) (labelNodes g') Kstop 1 []" by (simp add: f)
  have "injective_map (varToReg g)" "\<forall>r\<in>ran (varToReg g). r \<noteq> 0"
    using wf by (auto simp: wf_gen_def ran_def)
  with tr stop have "graph_ok (TranslateFunction F) (varToReg g) (labelNodes g') (cs_body F)"
    by (auto simp: graph_ok_def)
  moreover have "gen_match (TranslateFunction F) (varToReg g) (labelNodes g') (CStmt (cs_body F) Kstop (cs_init_env F vs) m)
      (RNode (rtl_entry (TranslateFunction F)) (init_regs None (rtl_params (TranslateFunction F)) vs) m)"
    using tr stop init_match [OF ok(1) assms(2) V] by (auto simp: f)
  ultimately show ?thesis using that by blast
qed

section \<open>Properties\<close>

text \<open>A function that leaves a loop through its block.\<close>

definition bump :: cs_function where
  "bump = \<lparr>cs_name = ''bump'', cs_sig = no_sig, cs_params = [''x''], cs_vars = [''y''], cs_stackspace = 0,
     cs_body = Sseq
       (Sblock (Sloop (Sseq
         (Sassign ''y'' (Ebinop Oadd_cs (Evar ''x'') (Econst (Ointconst_cs 1))))
         (Sifthenelse (CondAnd (CondNot (CondCmp Clt_cs (Evar ''y'') (Econst (Ointconst_cs 0)))) CondTrue) (Sexit 0) Sskip))))
       (Sreturn (Some (Evar ''y'')))\<rparr>"

lemma bump_terminates:
  "behaves (cs_step T E (cs_body bump)) cs_final (CStmt (cs_body bump) Kstop (cs_init_env bump [Some 7]) m)
     (Terminates (Returned (Some 8) m))"
proof -
  define env where "env = (cs_init_env bump [Some 7])(''y'' \<mapsto> Some 8)"
  have x: "cs_init_env bump [Some 7] ''x'' = Some (Some 7)" and y: "env ''y'' = Some (Some 8)"
      and dy: "declared (Some ''y'') (cs_init_env bump [Some 7])"
    by (simp_all add: cs_init_env_def bump_def env_def declared_def)
  have sum: "eval_expr T E (cs_init_env bump [Some 7]) m [] (Ebinop Oadd_cs (Evar ''x'') (Econst (Ointconst_cs 1))) = Some (Some 8)"
    by (simp add: x known2_def lo_def zx_def)
  have test: "eval_cond T E env m [] (CondAnd (CondNot (CondCmp Clt_cs (Evar ''y'') (Econst (Ointconst_cs 0)))) CondTrue) = Some True"
    by (simp add: y known2_def lo_def zx_def)
  have result: "eval_expr T E env m [] (Evar ''y'') = Some (Some 8)" by (simp add: y)
  have "behaves (cs_step T E (cs_body bump)) cs_final (CFinal (Returned (Some 8) m)) (Terminates (Returned (Some 8) m))"
    by (auto simp: behaves_def)
  note last = behaves_step [OF cs_return [OF result] this]
  show ?thesis
    unfolding bump_def cs_function.simps
    apply (rule behaves_step, rule cs_seq)
    apply (rule behaves_step, rule cs_block)
    apply (rule behaves_step, rule cs_loop)
    apply (rule behaves_step, rule cs_seq)
    apply (rule behaves_step, rule cs_assign [OF sum [unfolded bump_def] dy [unfolded bump_def]])
    apply (rule behaves_step, rule cs_skip_seq)
    apply (rule behaves_step, rule cs_ifthenelse [OF test [unfolded env_def bump_def]])
    apply (simp only: if_True)
    apply (rule behaves_step, rule cs_exit_seq)
    apply (rule behaves_step, rule cs_exit_block)
    apply (rule behaves_step, rule cs_skip_seq)
    apply (rule last [unfolded env_def bump_def cs_function.simps])
    done
qed

text \<open>
  Property C3. RTL generation is correct: a function whose parameters and labels are distinct and whose
  statements use only operators, conditions and addressing modes that have an RTL counterpart, and no let whose
  bound expression refers to an outer let (selection emits no let), is translated to a graph with the same behaviour. If the CminorSel body terminates with an outcome (a returned value and
  memory, or a tail call), the graph terminates with it; if the body runs forever, so does the graph.
\<close>

theorem TranslateFunction_correct:
  assumes "cs_fun_ok F" and "length vs = length (cs_params F)"
    and "behaves (cs_step T E (cs_body F)) cs_final (CStmt (cs_body F) Kstop (cs_init_env F vs) m) b"
    and "b \<noteq> Goes_wrong"
  shows "behaves (rtl_step (word_sem T E) (TranslateFunction F)) (rtl_final (word_sem T E) False)
    (RNode (rtl_entry (TranslateFunction F)) (init_regs None (rtl_params (TranslateFunction F)) vs) m) b"
proof -
  obtain V LN where "graph_ok (TranslateFunction F) V LN (cs_body F)"
    "gen_match (TranslateFunction F) V LN (CStmt (cs_body F) Kstop (cs_init_env F vs) m)
      (RNode (rtl_entry (TranslateFunction F)) (init_regs None (rtl_params (TranslateFunction F)) vs) m)"
    by (rule generated_graph_ok [OF assms(1,2)])
  then show ?thesis using rtlgen.safe_preserved [OF _ assms(3,4)] by blast
qed

theorem TranslateFunction_correct_witness:
  "\<forall>T E m. behaves (rtl_step (word_sem T E) (TranslateFunction bump)) (rtl_final (word_sem T E) False)
    (RNode (rtl_entry (TranslateFunction bump)) (init_regs None (rtl_params (TranslateFunction bump)) [Some 7]) m)
    (Terminates (Returned (Some 8) m))"
proof (intro allI)
  fix T E m
  have "cs_fun_ok bump" by (simp add: bump_def cs_fun_ok_def binop_ok_def)
  moreover have "length [Some (7::w64)] = length (cs_params bump)" by (simp add: bump_def)
  ultimately show "behaves (rtl_step (word_sem T E) (TranslateFunction bump)) (rtl_final (word_sem T E) False)
    (RNode (rtl_entry (TranslateFunction bump)) (init_regs None (rtl_params (TranslateFunction bump)) [Some 7]) m)
    (Terminates (Returned (Some 8) m))"
    by (rule TranslateFunction_correct [OF _ _ bump_terminates]) simp
qed

end
