(* ===== verification/MiddleEnd.thy ===== *)
theory MiddleEnd
  imports SelectionSim RTLgenSim
begin

text \<open>
  The two passes between Cminor and RTL composed, as the driver runs them: instruction selection followed by
  RTL generation. The conditions of both are stated on the Cminor function.
\<close>

definition cminor_to_rtl :: "selectionContext \<Rightarrow> cm_function \<Rightarrow> rtl_function" where
  "cminor_to_rtl ctx F = TranslateFunction (SelectFunction ctx F)"

section \<open>Operators with an RTL counterpart\<close>

text \<open>Inside an address, where the selection does not replace it, logical negation has none.\<close>

fun address_ops_ok :: "cm_expr \<Rightarrow> bool" where
  "address_ops_ok (Eunop_cm uop a) \<longleftrightarrow> unop_ok uop \<and> address_ops_ok a"
| "address_ops_ok (Ebinop_cm bop a b) \<longleftrightarrow> binop_ok bop \<and> address_ops_ok a \<and> address_ops_ok b"
| "address_ops_ok (Ecmp_cm _ _ _ _) \<longleftrightarrow> False"
| "address_ops_ok (Eload_cm ch a) \<longleftrightarrow> address_ops_ok a"
| "address_ops_ok _ \<longleftrightarrow> True"

fun ops_ok :: "cm_expr \<Rightarrow> bool" where
  "ops_ok (Eunop_cm uop a) \<longleftrightarrow> (uop = Onotbool_cs \<or> unop_ok uop) \<and> ops_ok a"
| "ops_ok (Ebinop_cm bop a b) \<longleftrightarrow> binop_ok bop \<and> ops_ok a \<and> ops_ok b"
| "ops_ok (Ecmp_cm _ _ a b) \<longleftrightarrow> ops_ok a \<and> ops_ok b"
| "ops_ok (Eload_cm ch a) \<longleftrightarrow> address_ops_ok a"
| "ops_ok _ \<longleftrightarrow> True"

fun callee_ops_ok :: "cm_expr \<Rightarrow> bool" where
  "callee_ops_ok (Econst_cm (Oaddrsymbol_cm s n)) \<longleftrightarrow> n = 0"
| "callee_ops_ok e \<longleftrightarrow> ops_ok e"

fun stmt_ops_ok :: "cm_stmt \<Rightarrow> bool" and cases_ops_ok :: "cm_switchCase list \<Rightarrow> bool" where
  "stmt_ops_ok (Sassign_cm x e) \<longleftrightarrow> ops_ok e"
| "stmt_ops_ok (Sstore_cm ch a e) \<longleftrightarrow> address_ops_ok a \<and> ops_ok e"
| "stmt_ops_ok (Scall_cm x sg f args) \<longleftrightarrow> callee_ops_ok f \<and> list_all ops_ok args"
| "stmt_ops_ok (Stailcall_cm sg f args) \<longleftrightarrow> callee_ops_ok f \<and> list_all ops_ok args"
| "stmt_ops_ok (Sbuiltin_cm x bf args) \<longleftrightarrow> list_all ops_ok args"
| "stmt_ops_ok (Sseq_cm a b) \<longleftrightarrow> stmt_ops_ok a \<and> stmt_ops_ok b"
| "stmt_ops_ok (Sifthenelse_cm c a b) \<longleftrightarrow> ops_ok c \<and> stmt_ops_ok a \<and> stmt_ops_ok b"
| "stmt_ops_ok (Sloop_cm a) \<longleftrightarrow> stmt_ops_ok a"
| "stmt_ops_ok (Sblock_cm a) \<longleftrightarrow> stmt_ops_ok a"
| "stmt_ops_ok (Sswitch_cm isLong e cs d) \<longleftrightarrow> ops_ok e \<and> cases_ops_ok cs \<and> stmt_ops_ok d"
| "stmt_ops_ok (Sreturn_cm e) \<longleftrightarrow> (case e of None \<Rightarrow> True | Some a \<Rightarrow> ops_ok a)"
| "stmt_ops_ok (Slabel_cm l a) \<longleftrightarrow> stmt_ops_ok a"
| "stmt_ops_ok _ \<longleftrightarrow> True"
| "cases_ops_ok [] \<longleftrightarrow> True"
| "cases_ops_ok (SwitchCase_cm v a # cs) \<longleftrightarrow> stmt_ops_ok a \<and> cases_ops_ok cs"

fun cm_labels :: "cm_stmt \<Rightarrow> string list" and cm_case_labels :: "cm_switchCase list \<Rightarrow> string list" where
  "cm_labels (Sseq_cm a b) = cm_labels a @ cm_labels b"
| "cm_labels (Sifthenelse_cm c a b) = cm_labels a @ cm_labels b"
| "cm_labels (Sloop_cm a) = cm_labels a"
| "cm_labels (Sblock_cm a) = cm_labels a"
| "cm_labels (Sswitch_cm isLong e cs d) = cm_case_labels cs @ cm_labels d"
| "cm_labels (Slabel_cm l a) = l # cm_labels a"
| "cm_labels _ = []"
| "cm_case_labels [] = []"
| "cm_case_labels (SwitchCase_cm v a # cs) = cm_labels a @ cm_case_labels cs"

section \<open>The selected code can be translated\<close>

lemma const_ok [simp]: "expr_ok (selectVar ctx x)" "expr_ok (selectConst c)" "expr_ok (reSelectExpr ctx (translateConst c))"
  by (auto simp: selectVar_def split: option.split intro: cs_const.exhaust) (cases c; simp)+

lemma address_part_ok: "address_ops_ok e \<Longrightarrow> expr_ok (reSelectExpr ctx (translateExpr e))"
  by (induction e rule: address_ops_ok.induct) auto

definition result_ok :: "selectionContext \<Rightarrow> addressResult \<Rightarrow> bool" where
  "result_ok ctx r \<longleftrightarrow> mode_ok (fst r) \<and> exprs_ok (map (reSelectExpr ctx) (snd r))"

lemma scaled_ok:
  "scaled (extractShiftAdd a b) = Some r \<Longrightarrow> address_ops_ok a \<Longrightarrow> address_ops_ok b \<Longrightarrow> result_ok ctx r"
  by (cases b) (auto simp: scaled_def bind_eq_Some_conv result_ok_def address_part_ok split: if_splits)

lemma based_ok: "based a off = Some r \<Longrightarrow> address_ops_ok a \<Longrightarrow> result_ok ctx r"
  by (auto simp: based_def result_ok_def address_part_ok)

lemma symbolic_ok: "tryAglobal e globals = Some r \<Longrightarrow> result_ok ctx r" "tryAinstack e sv = Some r \<Longrightarrow> result_ok ctx r"
  by (cases e; auto simp: global_plus_def stack_plus_def orelse_Some bind_eq_Some_conv result_ok_def split: if_splits)+

lemma indexed_ok:
  assumes "address_ops_ok e"
  shows "tryAindexed2shift e = Some r \<Longrightarrow> result_ok ctx r" "tryAindexed2 e = Some r \<Longrightarrow> result_ok ctx r"
    "tryAindexed e = Some r \<Longrightarrow> result_ok ctx r"
  using assms by (cases e; auto simp: orelse_Some result_ok_def address_part_ok split: if_splits dest: scaled_ok based_ok)+

lemma selectAddress_ok: "address_ops_ok e \<Longrightarrow> selectAddress ctx e = (mode, args) \<Longrightarrow> mode_ok mode \<and> exprs_ok args"
proof -
  assume ok: "address_ops_ok e" and sel: "selectAddress ctx e = (mode, args)"
  have "result_ok ctx (Aindexed 0, [translateExpr e])" using ok by (simp add: result_ok_def address_part_ok)
  then have "result_ok ctx (SelectAddressing e (Globals ctx) (StackVars ctx))"
    unfolding SelectAddressing_def using symbolic_ok indexed_ok [OF ok]
    by (auto simp: orelse_Some split: option.split)
  then show ?thesis using sel by (auto simp: selectAddress_def result_ok_def split: prod.splits)
qed

lemma combined_ops_ok:
  assumes "TrySelectCombinedOp bop l r = Some c" "ops_ok l" "ops_ok r"
  shows "ops_ok (co_base c) \<and> ops_ok (co_index c)"
proof -
  have "ops_ok (co_base c) \<and> ops_ok (co_index c)"
    if "combine_shift bop base shifted = Some c" "ops_ok base" "ops_ok shifted" for base shifted
    using that by (auto simp: combine_shift_def bind_eq_Some_conv split: if_splits dest!: extractShift_Some)
  then show ?thesis using assms by (auto simp: TrySelectCombinedOp_def orelse_Some split: if_splits)
qed

lemma buildCombinedOp_ok: "expr_ok a \<Longrightarrow> expr_ok b \<Longrightarrow> expr_ok (buildCombinedOp mop n a b)"
  by (cases "(mop, n, a, b)" rule: buildCombinedOp.cases) (auto simp: binop_ok_def)

lemma SelectExpr_ok: "ops_ok e \<Longrightarrow> expr_ok (SelectExpr ctx e)"
proof (induction ctx e rule: SelectExpr.induct)
  case (4 ctx bop l r)
  then show ?case
    by (cases "TrySelectCombinedOp bop l r") (auto dest: combined_ops_ok intro: buildCombinedOp_ok)
next
  case (6 ctx ch a)
  then show ?case using selectAddress_ok [of a ctx] by (auto split: prod.split)
qed auto

lemma SelectExprs_ok: "list_all ops_ok es \<Longrightarrow> exprs_ok (map (SelectExpr ctx) es)"
  by (induction es) (auto simp: SelectExpr_ok)

lemma callee_selected_ok:
  assumes "callee_ops_ok e"
  shows "callee_ok (SelectExpr ctx e)"
proof (cases "\<exists>s n. SelectExpr ctx e = Econst (Oaddrsymbol_cs s n)")
  case True
  have "buildCombinedOp mop n a b \<noteq> Econst c" for mop n a b c
    by (cases "(mop, n, a, b)" rule: buildCombinedOp.cases) auto
  with True assms show ?thesis
    by (cases e rule: callee_ops_ok.cases)
      (auto simp: callee_ok_def selectVar_def split: option.splits if_splits prod.splits)
next
  case False
  then have "ops_ok e" using assms by (cases e rule: callee_ops_ok.cases) auto
  then have "expr_ok (SelectExpr ctx e)" by (rule SelectExpr_ok)
  with False show ?thesis by (auto simp: callee_ok_def split: expr.split cs_const.split)
qed

lemma condition_translated: "TranslateCondition (SelectCondition ctx e) \<noteq> None"
proof (induction ctx e rule: SelectCondition.induct)
  case (1 ctx bop c l r)
  then show ?case by (cases bop) auto
next
  case (2 ctx c)
  then show ?case by (cases c) auto
qed auto

lemma SelectCondition_ok: "ops_ok e \<Longrightarrow> cond_ok (SelectCondition ctx e)"
proof (induction ctx e rule: SelectCondition.induct)
  case (1 ctx bop c l r)
  then show ?case by (cases bop) (auto simp: SelectExpr_ok)
next
  case (2 ctx c)
  then show ?case by (cases c) auto
next
  case (3 ctx uop a)
  then show ?case using SelectExpr_ok [of "Eunop_cm uop a" ctx] condition_translated [of ctx a] by auto
qed (use SelectExpr_ok in \<open>simp_all del: SelectExpr.simps\<close>)

lemma SelectStmt_ok:
  "stmt_ops_ok s \<Longrightarrow> stmt_ok (SelectStmt ctx s)"
  "cases_ops_ok cs \<Longrightarrow> cases_ok (map (SelectCase ctx) cs)"
  by (induction s and cs rule: stmt_ops_ok_cases_ops_ok.induct)
    (auto simp: SelectExpr_ok SelectExprs_ok SelectCondition_ok callee_selected_ok selectAddress_ok split: prod.split option.splits)

lemma SelectStmt_labels:
  "stmt_labels (SelectStmt ctx s) = cm_labels s"
  "case_labels (map (SelectCase ctx) cs) = cm_case_labels cs"
  by (induction s and cs rule: cm_labels_cm_case_labels.induct) (auto split: prod.split)

section \<open>Properties\<close>

text \<open>
  What a Cminor function needs for both passes: names that are told apart, nothing that the selection
  loses, operators that RTL has, parameters and labels without repetition.
\<close>

definition translatable :: "selectionContext \<Rightarrow> cm_function \<Rightarrow> bool" where
  "translatable ctx F \<longleftrightarrow> cm_fun_ok ctx F \<and> stmt_ops_ok (cm_body F) \<and> distinct (cm_params F) \<and> distinct (cm_labels (cm_body F))"

text \<open>
  Selection and RTL generation compose: the control-flow graph generated for a translatable
  Cminor function, started with the arguments in its parameter registers, terminates with the outcome of the
  Cminor function, and diverges if the function does.
\<close>

theorem cminor_to_rtl_correct:
  assumes "translatable ctx F" and "length vs = length (cm_params F)"
    and "behaves (cm_step T E (StackVars ctx) (cm_body F)) cm_final (MStmt (cm_body F) Kstop_cm (cm_init_env F vs) m) b"
    and "b \<noteq> Goes_wrong"
  shows "behaves (rtl_step (word_sem T E) (cminor_to_rtl ctx F)) (rtl_final (word_sem T E) False)
    (RNode (rtl_entry (cminor_to_rtl ctx F)) (init_regs None (rtl_params (cminor_to_rtl ctx F)) vs) m) b"
proof -
  let ?S = "SelectFunction ctx F" and ?f = "cminor_to_rtl ctx F"
  have "behaves (cs_step T E (cs_body ?S)) cs_final (CStmt (cs_body ?S) Kstop (cs_init_env ?S vs) m) b"
    using assms(1,3,4) by (intro selected_behaves) (simp_all add: translatable_def)
  moreover have "cs_fun_ok ?S"
    using assms(1) by (simp add: cs_fun_ok_def translatable_def SelectFunction_def SelectStmt_ok(1) SelectStmt_labels(1))
  moreover have "length vs = length (cs_params ?S)" using assms(2) by (simp add: SelectFunction_def)
  ultimately obtain V LN where "graph_ok ?f V LN (cs_body ?S)"
    "gen_match ?f V LN (CStmt (cs_body ?S) Kstop (cs_init_env ?S vs) m)
      (RNode (rtl_entry ?f) (init_regs None (rtl_params ?f) vs) m)"
    "behaves (cs_step T E (cs_body ?S)) cs_final (CStmt (cs_body ?S) Kstop (cs_init_env ?S vs) m) b"
    unfolding cminor_to_rtl_def by (metis generated_graph_ok)
  then show ?thesis using rtlgen.safe_preserved [OF _ _ assms(4)] by blast
qed

theorem cminor_to_rtl_correct_witness:
  "\<forall>T E m. behaves (rtl_step (word_sem T E) (cminor_to_rtl sample_context five_times)) (rtl_final (word_sem T E) False)
    (RNode (rtl_entry (cminor_to_rtl sample_context five_times))
      (init_regs None (rtl_params (cminor_to_rtl sample_context five_times)) [Some 2]) m) (Terminates (Returned (Some 10) m))"
proof (intro allI)
  fix T E m
  have "translatable sample_context five_times"
    using five_times_ok by (simp add: translatable_def five_times_def binop_ok_def)
  moreover have "length [Some (2 :: w64)] = length (cm_params five_times)" by (simp add: five_times_def)
  ultimately show "behaves (rtl_step (word_sem T E) (cminor_to_rtl sample_context five_times)) (rtl_final (word_sem T E) False)
    (RNode (rtl_entry (cminor_to_rtl sample_context five_times))
      (init_regs None (rtl_params (cminor_to_rtl sample_context five_times)) [Some 2]) m) (Terminates (Returned (Some 10) m))"
    by (rule cminor_to_rtl_correct [OF _ _ five_times_terminates]) simp
qed

end
