(* ===== verification/FrontToRTL.thy ===== *)
theory FrontToRTL
  imports CshmgenSim CminorgenSim MiddleEnd
begin

text \<open>
  The passes from Csharpminor to RTL composed, as the driver runs them on a function: Cminor generation,
  instruction selection, RTL generation. At the end, the pass from Clight is put before them.
\<close>

lemma source_to_rtl:
  assumes "sm_fun_ok globals F" and "\<forall>xs. set (perm xs) = set xs"
    and "cminor_TransformFunction perm F (global_infos globals) = Some f"
    and "translatable ctx f" and "StackVars ctx = Map.empty" and "length vs = length (sm_params F)"
    and "behaves (sm_step T E (function_scope globals F vs) (sm_body F)) sm_final
      (MinorStmt (sm_body F) Kstop_sm (sm_init_temps F) m) b"
    and "b \<noteq> Goes_wrong"
  shows "behaves (rtl_step (word_sem T E) (cminor_to_rtl ctx f)) (rtl_final (word_sem T E) False)
    (RNode (rtl_entry (cminor_to_rtl ctx f)) (init_regs None (rtl_params (cminor_to_rtl ctx f)) vs) m) b"
proof (rule cminor_to_rtl_correct [OF assms(4) _ _ assms(8)])
  show "length vs = length (cm_params f)" using assms(6) function_vars(1) [OF assms(3,2)] by simp
  show "behaves (cm_step T E (StackVars ctx) (cm_body f)) cm_final (MStmt (cm_body f) Kstop_cm (cm_init_env f vs) m) b"
    unfolding assms(5) by (rule generated_behaves [OF assms(1-3,7,8)])
qed

text \<open>
  Property C1. The three passes compose, on the functions that each of them translates faithfully. If a
  Csharpminor function meets the conditions of the pass to Cminor (\<open>sm_fun_ok\<close>), what it becomes meets those of
  the selection and of RTL generation (\<open>translatable\<close>: names told apart, no expression or condition that the selection changes,
  no operator without a counterpart in RTL, distinct parameters and labels), and the selection knows of no stack
  variables, as in the driver, then the control-flow graph generated for it, started with the arguments in the parameter registers, terminates with the outcome of the Csharpminor function, and
  diverges if that function does.
\<close>

theorem csharpminor_to_rtl_correct:
  assumes "sm_fun_ok globals F" and "\<forall>xs. set (perm xs) = set xs"
    and "cminor_TransformFunction perm F (global_infos globals) = Some f"
    and "translatable ctx f" and "StackVars ctx = Map.empty" and "length vs = length (sm_params F)"
    and "behaves (sm_step T E (function_scope globals F vs) (sm_body F)) sm_final
      (MinorStmt (sm_body F) Kstop_sm (sm_init_temps F) m) b"
    and "b \<noteq> Goes_wrong"
  shows "behaves (rtl_step (word_sem T E) (cminor_to_rtl ctx f)) (rtl_final (word_sem T E) False)
    (RNode (rtl_entry (cminor_to_rtl ctx f)) (init_regs None (rtl_params (cminor_to_rtl ctx f)) vs) m) b"
  by (rule source_to_rtl [OF assms])

definition pointer_context :: selectionContext where
  "pointer_context = \<lparr>Globals = {''f'', ''g''}, StackVars = Map.empty\<rparr>"

lemma through_pointer_translatable:
  obtains f where "cminor_TransformFunction id through_pointer (global_infos (sm_globals pointer_program)) = Some f"
    "translatable pointer_context f"
proof -
  let ?F = through_pointer and ?g = "global_infos (sm_globals pointer_program)"
  obtain f where f: "cminor_TransformFunction id ?F ?g = Some f"
    using TransformFunction_total [OF through_pointer_ok] by blast
  note vars = function_vars [OF f, simplified]
  have temp: "getTempName 0 = ''_t0''" by (simp add: getTempName_def show_int_def digits.simps, code_simp)
  have env: "ve_vars (function_env ?F) = [''y'' \<mapsto> \<lparr>vi_name = ''y'', vi_kind = VarStack, vi_size = 4, vi_offset = 0, vi_chunk = Mint32\<rparr>]"
    by (simp add: function_env_def through_pointer_def ClassifyVariables_def FindAddressTaken_def var_info_def
        ComputeStackLayout_def new_slot_def alignmentForSize_def cminor_alignUp_def set_offset_def kind_is_def Let_def
        chunkForSize_def chunkForSizeAndSign_def go_div_def)
  have body: "cm_body f = Sseq_cm (Sassign_cm ''_t0'' (Econst_cm (Oaddrstack_cm 0)))
      (Sseq_cm (Sassign_cm ''_t0'' (Evar_cm ''x'')) (Sreturn_cm (Some (Evar_cm ''_t0''))))"
    using vars(3)
    by (simp add: through_pointer_def [THEN arg_cong [where f = sm_body]] pointer_program_def global_infos_def
        transformAddrof_def IsStack_def kind_is_def env TransformAddrOf_def GetStackOffset_def Let_def TransformVarWrite_def
        transformVar_def TransformVarRead_def temp)
  have "set (cm_vars f) = {''_t0''}"
    using vars(2) by (simp add: env IsRegister_def kind_is_def tempMap_def temp)
      (simp add: through_pointer_def temp)
  moreover have "cm_params f = [''x'']" using vars(1) by (simp add: through_pointer_def)
  ultimately have "translatable pointer_context f"
    by (simp add: translatable_def cm_fun_ok_def context_ok_def pointer_context_def name_ok_def body)
  with f that show ?thesis by blast
qed

theorem csharpminor_to_rtl_correct_witness:
  "\<forall>T E m. \<exists>f. cminor_TransformFunction id through_pointer (global_infos (sm_globals pointer_program)) = Some f \<and>
    behaves (rtl_step (word_sem T E) (cminor_to_rtl pointer_context f)) (rtl_final (word_sem T E) False)
      (RNode (rtl_entry (cminor_to_rtl pointer_context f)) (init_regs None (rtl_params (cminor_to_rtl pointer_context f)) [Some 7]) m)
      (Terminates (Returned (Some 7) m))"
proof (intro allI)
  fix T E m
  obtain f where f: "cminor_TransformFunction id through_pointer (global_infos (sm_globals pointer_program)) = Some f"
    "translatable pointer_context f" by (rule through_pointer_translatable)
  have "length [Some (7 :: w64)] = length (sm_params through_pointer)" "StackVars pointer_context = Map.empty"
    "\<forall>xs. set (id xs :: string list) = set xs" by (simp_all add: through_pointer_def pointer_context_def)
  with csharpminor_to_rtl_correct [OF through_pointer_ok _ f _ _ through_pointer_terminates [of T E m]] f(1)
  show "\<exists>f. cminor_TransformFunction id through_pointer (global_infos (sm_globals pointer_program)) = Some f \<and>
    behaves (rtl_step (word_sem T E) (cminor_to_rtl pointer_context f)) (rtl_final (word_sem T E) False)
      (RNode (rtl_entry (cminor_to_rtl pointer_context f)) (init_regs None (rtl_params (cminor_to_rtl pointer_context f)) [Some 7]) m)
      (Terminates (Returned (Some 7) m))" by blast
qed

text \<open>From Clight, with the locals where the layout of the generated function puts them.\<close>

lemma clight_to_rtl:
  assumes "translateFunctionWithStructs ord ord' fn defs et = Some (F, et')"
    and "\<forall>xs. mset (ord xs) = mset xs" and "\<forall>xs. mset (ord' xs) = mset xs"
    and "cl_fun_ok (function_scope globals F vs) fn"
    and "sm_fun_ok globals F" and "\<forall>xs. set (perm xs) = set xs"
    and "cminor_TransformFunction perm F (global_infos globals) = Some f"
    and "translatable ctx f" and "StackVars ctx = Map.empty" and "length vs = length (sm_params F)"
    and "behaves (cl_step T E (function_scope globals F vs) (cl_body fn)) cl_final
      (LightStmt (cl_body fn) Kstop_cl (cl_init_params fn vs) (cl_init_temps fn) m) b"
    and "b \<noteq> Goes_wrong"
  shows "behaves (rtl_step (word_sem T E) (cminor_to_rtl ctx f)) (rtl_final (word_sem T E) False)
    (RNode (rtl_entry (cminor_to_rtl ctx f)) (init_regs None (rtl_params (cminor_to_rtl ctx f)) vs) m) b"
  by (rule source_to_rtl [OF assms(5-10) translated_behaves [OF assms(1-4) function_scope_def assms(11,12)] assms(12)])

end
