(* ===== verification/Spec2Isabelle.thy ===== *)
theory Spec2Isabelle
  imports Backend Stacking AsmSim Encoding RTLgenType SelectionOps Switch FrontToRTL
begin

text \<open>
  Verification of the back end of a C compiler. (The overview is completed as components are added.)
\<close>

end
